(* ===== verification/Prelude.thy ===== *)
theory Prelude
  imports "HOL-Library.Word" "HOL-Library.Monad_Syntax"
begin

text \<open>
  Shared vocabulary of the development: names for the machine types of the C
  sources, the few operations of the C language and its standard library that
  the modelled functions use (reading and writing a block of memory, the
  conversion of a \<open>size_t\<close> to \<open>int\<close>, the wrap-around of \<open>size_t\<close>
  subtraction, \<open>malloc\<close>), and the generic facts on lists, words and options
  that the component theories share.

  A C function that can touch memory returns an \<open>option\<close>: \<^const>\<open>None\<close> stands
  for an access outside the block that was allocated (or, where a loop of the
  source may not end, for not returning); every normal return, including every
  error return of the source, is a \<^const>\<open>Some\<close>.
\<close>

unbundle bit_operations_syntax

subsection \<open>Machine types\<close>

type_synonym byte = "8 word"
type_synonym u16 = "16 word"
type_synonym u32 = "32 word"
type_synonym u64 = "64 word"

named_theorems stream_simps \<open>evaluation of stream primitives on a well-formed stream\<close>
named_theorems wire_simps \<open>wire encodings of the protocol elements\<close>
named_theorems wf_intros \<open>operations keep the component invariants\<close>

subsection \<open>Conversions and arithmetic of C\<close>

text \<open>The cast \<open>(int) n\<close> of a \<open>size_t\<close>: the low 32 bits, read as two's complement.\<close>

definition c_int :: "nat \<Rightarrow> int" where
  "c_int n = sint (word_of_nat n :: u32)"

text \<open>Subtraction of two \<open>size_t\<close> values: it wraps around modulo \<open>2 ^ 64\<close>.\<close>

definition size_sub :: "nat \<Rightarrow> nat \<Rightarrow> nat" where
  "size_sub a b = (a + 2 ^ 64 - b) mod 2 ^ 64"

text \<open>Addition of two \<open>size_t\<close> values.\<close>

definition size_add :: "nat \<Rightarrow> nat \<Rightarrow> nat" where
  "size_add a b = (a + b) mod 2 ^ 64"

lemma size_add_small [simp]: "a + b < 2 ^ 64 \<Longrightarrow> size_add a b = a + b"
  by (simp add: size_add_def)

text \<open>The cast \<open>(size_t) i\<close> of an \<open>int\<close>: a negative value becomes a huge one.\<close>

definition size_of_int :: "int \<Rightarrow> nat" where
  "size_of_int i = nat (i mod 2 ^ 64)"

lemma size_of_int_nonneg [simp]: "0 \<le> i \<Longrightarrow> i < 2 ^ 63 \<Longrightarrow> size_of_int i = nat i"
  by (simp add: size_of_int_def)

lemma size_of_int_neg:
  assumes "i < 0" "- (2 ^ 31) \<le> i"
  shows "size_of_int i \<ge> 2 ^ 63"
proof -
  have "i mod 2 ^ 64 = (i + 2 ^ 64) mod 2 ^ 64" by simp
  also have "\<dots> = i + 2 ^ 64" using assms by (intro mod_pos_pos_trivial) auto
  finally show ?thesis using assms by (simp add: size_of_int_def)
qed

lemma size_sub_le [simp]:
  assumes "b \<le> a" "a < 2 ^ 64"
  shows "size_sub a b = a - b"
proof -
  have "a + 2 ^ 64 - b = (a - b) + 2 ^ 64" using assms(1) by simp
  then show ?thesis using assms(2) by (simp only: size_sub_def mod_add_self2) simp
qed

text \<open>Moving a size by a difference that may be negative.\<close>

lemma size_add_sub:
  assumes "b \<le> a + c" "a + c - b < 2 ^ 64" "b < 2 ^ 64" "c < 2 ^ 64"
  shows "size_add a (size_sub c b) = a + c - b"
proof -
  have "size_add a (size_sub c b) = (a + (c + 2 ^ 64 - b)) mod 2 ^ 64"
    by (simp only: size_add_def size_sub_def mod_simps)
  also have "a + (c + 2 ^ 64 - b) = (a + c - b) + 2 ^ 64" using assms(1,3) by simp
  finally show ?thesis using assms(2) by (simp only: mod_add_self2) simp
qed

lemma c_int_small [simp]:
  assumes "n < 2 ^ 31"
  shows "c_int n = int n"
  using assms
  by (simp add: c_int_def sint_uint unsigned_of_nat take_bit_nat_eq_self
      signed_take_bit_eq_if_positive bit_iff_odd of_nat_div take_bit_int_eq_self
      flip: zdiv_int)

subsection \<open>Memory blocks\<close>

text \<open>
  A block of memory is the list of its bytes. Reading or writing outside it is
  undefined behaviour in C and \<^const>\<open>None\<close> here.
\<close>

definition mem_read :: "'a list \<Rightarrow> nat \<Rightarrow> nat \<Rightarrow> 'a list option" where
  "mem_read buf p n = (if p + n \<le> length buf then Some (take n (drop p buf)) else None)"

definition mem_write :: "'a list \<Rightarrow> nat \<Rightarrow> 'a list \<Rightarrow> 'a list option" where
  "mem_write buf p xs =
     (if p + length xs \<le> length buf
      then Some (take p buf @ xs @ drop (p + length xs) buf) else None)"

lemma length_mem_write: "mem_write buf p xs = Some buf' \<Longrightarrow> length buf' = length buf"
  by (auto simp: mem_write_def split: if_splits)

lemma mem_write_read:
  "mem_write buf p xs = Some buf' \<Longrightarrow> mem_read buf' p (length xs) = Some xs"
  by (auto simp: mem_write_def mem_read_def split: if_splits)

lemma mem_write_nth:
  assumes "mem_write buf p xs = Some buf'" "i < length buf"
  shows "buf' ! i = (if p \<le> i \<and> i < p + length xs then xs ! (i - p) else buf ! i)"
  using assms by (auto simp: mem_write_def nth_append min_def split: if_splits)

text \<open>
  \<open>malloc\<close>: what a call \<open>malloc (n)\<close> hands back, either nothing or a block of
  \<open>n\<close> bytes with arbitrary contents. Allocation sites of one function take
  separate allocators, so that any subset of them may fail.
\<close>

type_synonym alloc = "nat \<Rightarrow> byte list option"

definition alloc_ok :: "alloc \<Rightarrow> bool" where
  "alloc_ok al \<longleftrightarrow> (\<forall>n xs. al n = Some xs \<longrightarrow> length xs = n)"

definition calloc_zero :: alloc where
  "calloc_zero n = Some (replicate n 0)"

lemma alloc_ok_calloc_zero [simp]: "alloc_ok calloc_zero"
  by (simp add: alloc_ok_def calloc_zero_def)

subsection \<open>Small numerals and lists\<close>

text \<open>Offsets into a message are small numbers, written sometimes as numerals and sometimes as sums of lengths.\<close>

lemma numeral_4_to_8:
  "(4::nat) = Suc (Suc (Suc (Suc 0)))" "(5::nat) = Suc (Suc (Suc (Suc (Suc 0))))"
  "(6::nat) = Suc (Suc (Suc (Suc (Suc (Suc 0)))))" "(7::nat) = Suc (Suc (Suc (Suc (Suc (Suc (Suc 0))))))"
  "(8::nat) = Suc (Suc (Suc (Suc (Suc (Suc (Suc (Suc 0)))))))"
  by simp_all

lemmas small_numerals = numeral_2_eq_2 numeral_3_eq_3 numeral_4_to_8

lemma take_drop_append_eq:
  assumes "take n (drop p xs) = ys @ zs"
  shows "take (length ys) (drop p xs) = ys"
proof -
  have "take (length ys) (take n (drop p xs)) = ys" using assms by simp
  moreover have "length ys \<le> length (take n (drop p xs))" using assms by simp
  ultimately show ?thesis by (simp add: min_def split: if_splits)
qed

lemma nth_drop_take_hd:
  assumes "take n (drop p xs) = y # ys"
  shows "p < length xs" "xs ! p = y"
proof -
  have "take n (drop p xs) \<noteq> []" using assms by simp
  then show "p < length xs" by auto
  then have "drop p xs = xs ! p # drop (Suc p) xs" by (simp add: Cons_nth_drop_Suc)
  then show "xs ! p = y" using assms by (cases n) auto
qed

subsection \<open>Bytes of a word\<close>

text \<open>
  The byte order of the wire: the sums of shifted bytes that the read macros of
  \<open>winpr/stream.h\<close> compute, and the masked shifts that the write functions store.
\<close>

definition u16_le :: "byte \<Rightarrow> byte \<Rightarrow> u16" where
  "u16_le b0 b1 = ucast b0 + push_bit 8 (ucast b1)"

definition u16_be :: "byte \<Rightarrow> byte \<Rightarrow> u16" where
  "u16_be b0 b1 = push_bit 8 (ucast b0) + ucast b1"

definition u32_le :: "byte \<Rightarrow> byte \<Rightarrow> byte \<Rightarrow> byte \<Rightarrow> u32" where
  "u32_le b0 b1 b2 b3 =
     ucast b0 + push_bit 8 (ucast b1) + push_bit 16 (ucast b2) + push_bit 24 (ucast b3)"

definition u32_be :: "byte \<Rightarrow> byte \<Rightarrow> byte \<Rightarrow> byte \<Rightarrow> u32" where
  "u32_be b0 b1 b2 b3 =
     push_bit 24 (ucast b0) + push_bit 16 (ucast b1) + push_bit 8 (ucast b2) + ucast b3"

definition le_bytes16 :: "u16 \<Rightarrow> byte list" where
  "le_bytes16 v = [ucast (v AND 0xFF), ucast (drop_bit 8 v AND 0xFF)]"

definition be_bytes16 :: "u16 \<Rightarrow> byte list" where
  "be_bytes16 v = [ucast (drop_bit 8 v AND 0xFF), ucast (v AND 0xFF)]"

definition le_bytes32 :: "u32 \<Rightarrow> byte list" where
  "le_bytes32 v = [ucast (v AND 0xFF), ucast (drop_bit 8 v AND 0xFF),
     ucast (drop_bit 16 v AND 0xFF), ucast (drop_bit 24 v AND 0xFF)]"

definition be_bytes32 :: "u32 \<Rightarrow> byte list" where
  "be_bytes32 v =
     be_bytes16 (ucast (drop_bit 16 v AND 0xFFFF)) @ be_bytes16 (ucast (v AND 0xFFFF))"

lemma length_bytes [simp]:
  "length (le_bytes16 v) = 2" "length (be_bytes16 v) = 2"
  "length (le_bytes32 w) = 4" "length (be_bytes32 w) = 4"
  by (simp_all add: le_bytes16_def be_bytes16_def le_bytes32_def be_bytes32_def)

lemma and_255: "(x :: 'a::len word) AND 0xFF = take_bit 8 x"
  by (simp add: take_bit_eq_mask mask_eq_exp_minus_1)

lemma and_65535: "(x :: 'a::len word) AND 0xFFFF = take_bit 16 x"
  by (simp add: take_bit_eq_mask mask_eq_exp_minus_1)

lemma u16_le_bytes: "u16_le (ucast (v AND 0xFF)) (ucast (drop_bit 8 v AND 0xFF)) = v"
  unfolding u16_le_def and_255
  by (subst disjunctive_add_eq_or) (rule bit_word_eqI, auto simp: bit_simps)+

lemma u16_be_bytes: "u16_be (ucast (drop_bit 8 v AND 0xFF)) (ucast (v AND 0xFF)) = v"
  using u16_le_bytes [of v] by (simp add: u16_be_def u16_le_def add.commute)

lemma u32_or_bytes:
  "(take_bit 8 v OR push_bit 8 (take_bit 8 (drop_bit 8 v)) OR push_bit 16 (take_bit 8 (drop_bit 16 v))
     OR push_bit 24 (take_bit 8 (drop_bit 24 v)) :: u32) = v"
proof (rule bit_word_eqI)
  fix n assume "n < LENGTH(32)"
  then consider "n < 8" | "8 \<le> n" "n < 16" | "16 \<le> n" "n < 24" | "24 \<le> n" "n < 32"
    by fastforce
  then show "bit (take_bit 8 v OR push_bit 8 (take_bit 8 (drop_bit 8 v))
      OR push_bit 16 (take_bit 8 (drop_bit 16 v)) OR push_bit 24 (take_bit 8 (drop_bit 24 v))) n = bit v n"
    by cases (auto simp: bit_simps)
qed

lemma u32_add_bytes:
  "(take_bit 8 v + push_bit 8 (take_bit 8 (drop_bit 8 v)) + push_bit 16 (take_bit 8 (drop_bit 16 v))
     + push_bit 24 (take_bit 8 (drop_bit 24 v)) :: u32) = v"
proof -
  have 1: "take_bit 8 v + push_bit 8 (take_bit 8 (drop_bit 8 v))
      = (take_bit 8 v OR push_bit 8 (take_bit 8 (drop_bit 8 v)) :: u32)"
    by (rule disjunctive_add_eq_or) (rule bit_word_eqI, auto simp: bit_simps)
  have 2: "(take_bit 8 v OR push_bit 8 (take_bit 8 (drop_bit 8 v))) + push_bit 16 (take_bit 8 (drop_bit 16 v))
      = (take_bit 8 v OR push_bit 8 (take_bit 8 (drop_bit 8 v)) OR push_bit 16 (take_bit 8 (drop_bit 16 v)) :: u32)"
    by (subst disjunctive_add_eq_or) ((rule bit_word_eqI, auto simp: bit_simps)[], simp add: or.assoc)
  have 3: "(take_bit 8 v OR push_bit 8 (take_bit 8 (drop_bit 8 v)) OR push_bit 16 (take_bit 8 (drop_bit 16 v)))
      + push_bit 24 (take_bit 8 (drop_bit 24 v)) = (v :: u32)"
    by (subst disjunctive_add_eq_or)
      ((rule bit_word_eqI, auto simp: bit_simps)[], use u32_or_bytes [of v] in \<open>simp add: or.assoc\<close>)
  show ?thesis unfolding 1 2 3 ..
qed

lemma ucast_byte_u32: "(ucast (ucast (take_bit 8 x :: u32) :: byte) :: u32) = take_bit 8 x"
  by (rule bit_word_eqI) (auto simp: bit_simps)

lemma u32_le_bytes:
  "u32_le (ucast (v AND 0xFF)) (ucast (drop_bit 8 v AND 0xFF))
     (ucast (drop_bit 16 v AND 0xFF)) (ucast (drop_bit 24 v AND 0xFF)) = v"
  unfolding u32_le_def and_255 ucast_byte_u32 by (rule u32_add_bytes)

lemma be_bytes32_alt:
  "be_bytes32 v = [ucast (drop_bit 24 v AND 0xFF), ucast (drop_bit 16 v AND 0xFF),
     ucast (drop_bit 8 v AND 0xFF), ucast (v AND 0xFF)]"
  unfolding be_bytes32_def be_bytes16_def and_255 and_65535
  by (auto intro!: bit_word_eqI simp: bit_simps)

lemma u32_be_bytes:
  "u32_be (ucast (drop_bit 24 v AND 0xFF)) (ucast (drop_bit 16 v AND 0xFF))
     (ucast (drop_bit 8 v AND 0xFF)) (ucast (v AND 0xFF)) = v"
  unfolding u32_be_def and_255 ucast_byte_u32 using u32_add_bytes [of v] by (simp add: ac_simps)

lemma ucast_byte_u16_byte [simp]: "(ucast (ucast (b :: byte) :: u16) :: byte) = b"
  by (rule bit_word_eqI) (auto simp: bit_simps)

lemma ucast_byte_of_nat: "(ucast (word_of_nat n :: u16) :: byte) = word_of_nat n"
  by (rule bit_word_eqI) (auto simp: bit_simps)

lemma byte_high_bit: "(x :: byte) AND 0x80 = 0 \<longleftrightarrow> unat x < 0x80"
proof -
  have lt: "unat x < 256" using unsigned_less [of x] by simp
  have 1: "x AND 2 ^ 7 = 0 \<longleftrightarrow> \<not> bit x 7" by (rule and_exp_eq_0_iff_not_bit)
  have 2: "bit x 7 \<longleftrightarrow> bit (unat x) 7" by (simp add: bit_unsigned_iff)
  have 3: "bit (unat x) 7 \<longleftrightarrow> odd (unat x div 128)" by (simp add: bit_iff_odd)
  have "unat x div 128 = (if unat x < 128 then 0 else 1)"
    using lt by (auto intro: div_nat_eqI)
  with 1 2 3 show ?thesis by simp
qed

lemma or_8000: "(v :: u16) OR 0x8000 = set_bit 15 v"
  by (simp add: set_bit_eq_or)

lemma and_not_80: "(v :: byte) AND NOT 0x80 = unset_bit 7 v"
  by (simp add: unset_bit_eq_and_not)

lemma and_80_bit: "(x :: byte) AND 0x80 \<noteq> 0 \<longleftrightarrow> bit x 7"
  using and_exp_eq_0_iff_not_bit [of x 7] by simp

lemma not_bit_15:
  assumes "(v :: u16) < 0x8000"
  shows "\<not> bit v 15"
proof -
  from assms have "unat v div 2 ^ 15 = 0" by (simp add: word_less_nat_alt)
  then have "\<not> bit (unat v) 15" by (simp add: bit_iff_odd)
  then show ?thesis by (simp add: bit_unsigned_iff)
qed

text \<open>A 15-bit value with the top bit set as a marker, split in two bytes and joined without it.\<close>

lemma join_marked_16:
  assumes "(v :: u16) < 0x8000"
  shows "push_bit 8 (ucast (ucast (drop_bit 8 (v OR 0x8000) AND 0xFF) AND NOT 0x80 :: byte))
     + ucast (ucast ((v OR 0x8000) AND 0xFF) :: byte) = v" (is "?a + ?b = v")
proof -
  have 15: "n = 15" if "n - 8 = 7" for n :: nat using that by simp
  have "?a AND ?b = 0" unfolding or_8000 and_not_80 and_255
    by (rule bit_word_eqI) (auto simp: bit_simps)
  then have "?a + ?b = ?a OR ?b" by (rule disjunctive_add_eq_or)
  also have "\<dots> = v" unfolding or_8000 and_not_80 and_255
    using not_bit_15 [OF assms] by (intro bit_word_eqI) (auto simp: bit_simps dest!: 15)
  finally show ?thesis .
qed

lemma marked_high_byte: "(ucast (drop_bit 8 ((v :: u16) OR 0x8000) AND 0xFF) :: byte) AND 0x80 \<noteq> 0"
  unfolding and_80_bit or_8000 and_255 by (simp add: bit_simps)

lemma unat_of_nat_u32: "n < 2 ^ 32 \<Longrightarrow> unat (word_of_nat n :: u32) = n"
  by (simp add: unsigned_of_nat take_bit_nat_eq_self)

end
