(* ===== verification/WStream.thy ===== *)
theory WStream
  imports Prelude
begin

text \<open>
  The byte stream of WinPR (\<open>winpr/libwinpr/utils/stream.c\<close> and the inline
  functions and macros of \<open>winpr/include/winpr/stream.h\<close>): a buffer, a cursor, a
  length and a capacity. The cursor \<open>pointer\<close> is kept as its offset from
  \<open>buffer\<close>. Reads and writes check nothing in the source; here they are
  \<^const>\<open>None\<close> when they leave the allocated buffer.

  The second half gives every protocol theory its vocabulary: \<open>Stream_wf\<close>, the
  bytes \<open>ahead\<close> of the cursor, \<open>Stream_put\<close> (a block of bytes written at the
  cursor), and the locale \<open>wire_codec\<close>, the contract between a function that
  writes a protocol element and the one that reads it back.
\<close>

unbundle bit_operations_syntax

subsection \<open>State\<close>

record wStream =
  s_buffer :: "byte list"
  s_pointer :: nat
  s_length :: nat
  s_capacity :: nat
  s_count :: u32
  s_pool :: "nat option"

definition sizeof_wStream :: nat where
  "sizeof_wStream = 48"

subsection \<open>Cursor and size accessors\<close>

definition Stream_Seek :: "wStream \<Rightarrow> nat \<Rightarrow> wStream" where
  "Stream_Seek s n = s\<lparr>s_pointer := s_pointer s + n\<rparr>"

definition Stream_Rewind :: "wStream \<Rightarrow> nat \<Rightarrow> wStream option" where
  "Stream_Rewind s n =
     (if n \<le> s_pointer s then Some (s\<lparr>s_pointer := s_pointer s - n\<rparr>) else None)"

definition Stream_Length :: "wStream \<Rightarrow> nat" where
  "Stream_Length s = s_length s"

definition Stream_Capacity :: "wStream \<Rightarrow> nat" where
  "Stream_Capacity s = s_capacity s"

definition Stream_GetPosition :: "wStream \<Rightarrow> nat" where
  "Stream_GetPosition s = s_pointer s"

definition Stream_SetPosition :: "wStream \<Rightarrow> nat \<Rightarrow> wStream" where
  "Stream_SetPosition s p = s\<lparr>s_pointer := p\<rparr>"

definition Stream_SetLength :: "wStream \<Rightarrow> nat \<Rightarrow> wStream" where
  "Stream_SetLength s l = s\<lparr>s_length := l\<rparr>"

definition Stream_SealLength :: "wStream \<Rightarrow> wStream" where
  "Stream_SealLength s = s\<lparr>s_length := s_pointer s\<rparr>"

definition Stream_GetRemainingLength :: "wStream \<Rightarrow> nat" where
  "Stream_GetRemainingLength s = size_sub (s_length s) (s_pointer s)"

definition Stream_SafeSeek :: "wStream \<Rightarrow> nat \<Rightarrow> bool \<times> wStream" where
  "Stream_SafeSeek s n =
     (if Stream_GetRemainingLength s < n then (False, s) else (True, Stream_Seek s n))"

subsection \<open>Reading\<close>

definition Stream_Peek_UINT8 :: "wStream \<Rightarrow> byte option" where
  "Stream_Peek_UINT8 s = do {
     bs \<leftarrow> mem_read (s_buffer s) (s_pointer s) 1;
     Some (bs ! 0) }"

definition Stream_Read_UINT8 :: "wStream \<Rightarrow> (byte \<times> wStream) option" where
  "Stream_Read_UINT8 s = do {
     bs \<leftarrow> mem_read (s_buffer s) (s_pointer s) 1;
     Some (bs ! 0, Stream_Seek s 1) }"

definition Stream_Read_UINT16 :: "wStream \<Rightarrow> (u16 \<times> wStream) option" where
  "Stream_Read_UINT16 s = do {
     bs \<leftarrow> mem_read (s_buffer s) (s_pointer s) 2;
     Some (u16_le (bs ! 0) (bs ! 1), Stream_Seek s 2) }"

definition Stream_Read_UINT16_BE :: "wStream \<Rightarrow> (u16 \<times> wStream) option" where
  "Stream_Read_UINT16_BE s = do {
     bs \<leftarrow> mem_read (s_buffer s) (s_pointer s) 2;
     Some (u16_be (bs ! 0) (bs ! 1), Stream_Seek s 2) }"

definition Stream_Read_UINT32 :: "wStream \<Rightarrow> (u32 \<times> wStream) option" where
  "Stream_Read_UINT32 s = do {
     bs \<leftarrow> mem_read (s_buffer s) (s_pointer s) 4;
     Some (u32_le (bs ! 0) (bs ! 1) (bs ! 2) (bs ! 3), Stream_Seek s 4) }"

definition Stream_Read_UINT32_BE :: "wStream \<Rightarrow> (u32 \<times> wStream) option" where
  "Stream_Read_UINT32_BE s = do {
     bs \<leftarrow> mem_read (s_buffer s) (s_pointer s) 4;
     Some (u32_be (bs ! 0) (bs ! 1) (bs ! 2) (bs ! 3), Stream_Seek s 4) }"

definition Stream_Read :: "wStream \<Rightarrow> nat \<Rightarrow> (byte list \<times> wStream) option" where
  "Stream_Read s n = do {
     bs \<leftarrow> mem_read (s_buffer s) (s_pointer s) n;
     Some (bs, Stream_Seek s n) }"

subsection \<open>Writing\<close>

definition Stream_Write :: "wStream \<Rightarrow> byte list \<Rightarrow> wStream option" where
  "Stream_Write s bs = do {
     buf \<leftarrow> mem_write (s_buffer s) (s_pointer s) bs;
     Some (Stream_Seek (s\<lparr>s_buffer := buf\<rparr>) (length bs)) }"

definition Stream_Write_UINT8 :: "wStream \<Rightarrow> byte \<Rightarrow> wStream option" where
  "Stream_Write_UINT8 s v = Stream_Write s [v]"

definition Stream_Write_UINT16 :: "wStream \<Rightarrow> u16 \<Rightarrow> wStream option" where
  "Stream_Write_UINT16 s v = Stream_Write s (le_bytes16 v)"

definition Stream_Write_UINT16_BE :: "wStream \<Rightarrow> u16 \<Rightarrow> wStream option" where
  "Stream_Write_UINT16_BE s v = Stream_Write s (be_bytes16 v)"

definition Stream_Write_UINT32 :: "wStream \<Rightarrow> u32 \<Rightarrow> wStream option" where
  "Stream_Write_UINT32 s v = Stream_Write s (le_bytes32 v)"

definition Stream_Write_UINT32_BE :: "wStream \<Rightarrow> u32 \<Rightarrow> wStream option" where
  "Stream_Write_UINT32_BE s v = do {
     s \<leftarrow> Stream_Write_UINT16_BE s (ucast (drop_bit 16 v AND 0xFFFF));
     Stream_Write_UINT16_BE s (ucast (v AND 0xFFFF)) }"

definition Stream_Zero :: "wStream \<Rightarrow> nat \<Rightarrow> wStream option" where
  "Stream_Zero s n = Stream_Write s (replicate n 0)"

definition Stream_Fill :: "wStream \<Rightarrow> byte \<Rightarrow> nat \<Rightarrow> wStream option" where
  "Stream_Fill s v n = Stream_Write s (replicate n v)"

definition Stream_Copy :: "wStream \<Rightarrow> wStream \<Rightarrow> nat \<Rightarrow> (wStream \<times> wStream) option" where
  "Stream_Copy src dst n = do {
     (bs, src) \<leftarrow> Stream_Read src n;
     dst \<leftarrow> Stream_Write dst bs;
     Some (src, dst) }"

definition Stream_Clear :: "wStream \<Rightarrow> wStream option" where
  "Stream_Clear s = do {
     buf \<leftarrow> mem_write (s_buffer s) 0 (replicate (s_capacity s) 0);
     Some (s\<lparr>s_buffer := buf\<rparr>) }"

subsection \<open>Creation and growth\<close>

definition Stream_New :: "alloc \<Rightarrow> alloc \<Rightarrow> byte list option \<Rightarrow> nat \<Rightarrow> wStream option" where
  "Stream_New al_s al_b buffer sz =
     (if buffer = None \<and> sz = 0 then None
      else case al_s sizeof_wStream of
        None \<Rightarrow> None
      | Some _ \<Rightarrow>
          (case (case buffer of Some b \<Rightarrow> Some b | None \<Rightarrow> al_b sz) of
             None \<Rightarrow> None
           | Some b \<Rightarrow> Some \<lparr>s_buffer = b, s_pointer = 0, s_length = sz, s_capacity = sz,
               s_count = 0, s_pool = None\<rparr>))"

text \<open>The \<open>do ... while\<close> of \<open>Stream_EnsureCapacity\<close>: doubling, modulo the width of \<open>size_t\<close>.\<close>

partial_function (option) ensure_loop :: "nat \<Rightarrow> nat \<Rightarrow> nat option" where
  "ensure_loop c sz =
     (let c' = (c * 2) mod 2 ^ 64 in if c' < sz then ensure_loop c' sz else Some c')"

definition Stream_EnsureCapacity :: "alloc \<Rightarrow> wStream \<Rightarrow> nat \<Rightarrow> (bool \<times> wStream) option" where
  "Stream_EnsureCapacity al s sz =
     (if s_capacity s < sz then do {
        new_capacity \<leftarrow> ensure_loop (s_capacity s) sz;
        (case al new_capacity of
           None \<Rightarrow> Some (False, s)
         | Some blk \<Rightarrow> do {
             let old_capacity = s_capacity s;
             let position = Stream_GetPosition s;
             let new_buf = take new_capacity (s_buffer s) @ drop (length (s_buffer s)) blk;
             buf \<leftarrow> mem_write new_buf old_capacity (replicate (new_capacity - old_capacity) 0);
             let s' = s\<lparr>s_buffer := buf, s_capacity := new_capacity, s_length := new_capacity\<rparr>;
             Some (True, Stream_SetPosition s' position) }) }
      else Some (True, s))"

definition Stream_EnsureRemainingCapacity :: "alloc \<Rightarrow> wStream \<Rightarrow> nat \<Rightarrow> (bool \<times> wStream) option" where
  "Stream_EnsureRemainingCapacity al s sz =
     (if (Stream_GetPosition s + sz) mod 2 ^ 64 > Stream_Capacity s
      then Stream_EnsureCapacity al s ((Stream_Capacity s + sz) mod 2 ^ 64)
      else Some (True, s))"


subsection \<open>Growth terminates, and is correct, unless the capacity is zero\<close>

lemma ensure_loop_Some:
  assumes "0 < c" "c < sz" "sz \<le> 2 ^ 63"
  shows "\<exists>k. ensure_loop c sz = Some (c * 2 ^ k) \<and> sz \<le> c * 2 ^ k \<and> c * 2 ^ k < 2 * sz"
  using assms
proof (induction "sz - c" arbitrary: c rule: less_induct)
  case less
  have wrap: "(c * 2) mod 2 ^ 64 = c * 2" using less.prems by simp
  show ?case
  proof (cases "c * 2 < sz")
    case True
    then have "\<exists>k. ensure_loop (c * 2) sz = Some (c * 2 * 2 ^ k) \<and> sz \<le> c * 2 * 2 ^ k \<and> c * 2 * 2 ^ k < 2 * sz"
      using less.prems by (intro less.hyps) auto
    then obtain k where "ensure_loop (c * 2) sz = Some (c * 2 ^ Suc k)" "sz \<le> c * 2 ^ Suc k" "c * 2 ^ Suc k < 2 * sz"
      by (auto simp: ac_simps)
    with True wrap show ?thesis
      by (subst ensure_loop.simps) (auto simp: Let_def intro!: exI [of _ "Suc k"])
  next
    case False
    with wrap less.prems show ?thesis
      by (subst ensure_loop.simps) (auto simp: Let_def intro!: exI [of _ 1])
  qed
qed

text \<open>With capacity zero the doubling stays at zero and the loop never ends.\<close>

lemma ensure_loop_zero:
  assumes "0 < sz"
  shows "ensure_loop 0 sz = None"
proof (rule ccontr)
  assume "ensure_loop 0 sz \<noteq> None"
  then obtain r where ret: "ensure_loop 0 sz = Some r" by auto
  have "(0::nat) = 0 \<longrightarrow> 0 < sz \<longrightarrow> False"
  proof (rule ensure_loop.raw_induct [where P = "\<lambda>c z r. c = 0 \<longrightarrow> 0 < z \<longrightarrow> False", OF _ ret])
    fix f :: "nat \<Rightarrow> nat \<Rightarrow> nat option" and c z r
    assume IH: "\<And>c z r. f c z = Some r \<Longrightarrow> c = 0 \<longrightarrow> 0 < z \<longrightarrow> False"
      and eq: "(let c' = (c * 2) mod 2 ^ 64 in if c' < z then f c' z else Some c') = Some r"
    show "c = 0 \<longrightarrow> 0 < z \<longrightarrow> False" using IH [of 0 z r] eq by (auto split: if_splits)
  qed
  with assms show False by simp
qed

subsection \<open>Well-formed streams, the bytes ahead, blocks written\<close>

text \<open>
  The cursor is inside the length, the length inside the capacity, the capacity
  is the size of the allocated buffer, and it fits the \<open>int\<close> lengths that the
  parsers compare it with.
\<close>

definition Stream_wf :: "wStream \<Rightarrow> bool" where
  "Stream_wf s \<longleftrightarrow> s_pointer s \<le> s_length s \<and> s_length s \<le> s_capacity s \<and>
     s_capacity s = length (s_buffer s) \<and> s_capacity s < 2 ^ 31"

definition ahead :: "wStream \<Rightarrow> byte list" where
  "ahead s = take (s_length s - s_pointer s) (drop (s_pointer s) (s_buffer s))"

abbreviation Stream_room :: "wStream \<Rightarrow> nat \<Rightarrow> bool" where
  "Stream_room s n \<equiv> s_pointer s + n \<le> length (s_buffer s)"

definition Stream_put :: "byte list \<Rightarrow> wStream \<Rightarrow> wStream" where
  "Stream_put bs s = s\<lparr>s_buffer := take (s_pointer s) (s_buffer s) @ bs @
       drop (s_pointer s + length bs) (s_buffer s),
     s_pointer := s_pointer s + length bs\<rparr>"

lemma Stream_Seek_sel [simp]:
  "s_buffer (Stream_Seek s n) = s_buffer s" "s_pointer (Stream_Seek s n) = s_pointer s + n"
  "s_length (Stream_Seek s n) = s_length s" "s_capacity (Stream_Seek s n) = s_capacity s"
  by (simp_all add: Stream_Seek_def)

lemma Stream_Seek_Seek [simp]: "Stream_Seek (Stream_Seek s m) n = Stream_Seek s (m + n)"
  by (simp add: Stream_Seek_def add.assoc)

lemma Stream_Seek_0 [simp]: "Stream_Seek s 0 = s"
  by (simp add: Stream_Seek_def)

lemma ahead_Seek [simp]: "ahead (Stream_Seek s n) = drop n (ahead s)"
  by (simp add: ahead_def drop_take add.commute)

lemma length_ahead: "Stream_wf s \<Longrightarrow> length (ahead s) = s_length s - s_pointer s"
  by (auto simp: Stream_wf_def ahead_def)

lemma Remaining_ahead [stream_simps]: "Stream_wf s \<Longrightarrow> Stream_GetRemainingLength s = length (ahead s)"
  by (simp add: Stream_GetRemainingLength_def length_ahead) (simp add: Stream_wf_def)

lemma ahead_bound: "Stream_wf s \<Longrightarrow> length (ahead s) < 2 ^ 31"
  by (simp add: Stream_wf_def ahead_def) linarith

lemma Stream_wf_Seek [wf_intros]: "Stream_wf s \<Longrightarrow> n \<le> length (ahead s) \<Longrightarrow> Stream_wf (Stream_Seek s n)"
  by (auto simp: Stream_wf_def ahead_def)

lemma mem_read_ahead [stream_simps]:
  assumes "Stream_wf s" "n \<le> length (ahead s)"
  shows "mem_read (s_buffer s) (s_pointer s) n = Some (take n (ahead s))"
proof -
  have n: "n \<le> s_length s - s_pointer s" using assms by (simp add: length_ahead)
  then have "take n (ahead s) = take n (drop (s_pointer s) (s_buffer s))"
    by (simp add: ahead_def min_absorb1)
  moreover have "s_pointer s + n \<le> length (s_buffer s)" using n assms(1) by (auto simp: Stream_wf_def)
  ultimately show ?thesis by (simp add: mem_read_def)
qed

lemma Stream_Write_put [stream_simps]:
  "Stream_Write s bs = (if Stream_room s (length bs) then Some (Stream_put bs s) else None)"
  by (simp add: Stream_Write_def mem_write_def Stream_put_def Stream_Seek_def)

lemma Stream_put_sel [simp]:
  "s_pointer (Stream_put bs s) = s_pointer s + length bs" "s_length (Stream_put bs s) = s_length s"
  "s_capacity (Stream_put bs s) = s_capacity s"
  by (simp_all add: Stream_put_def)

lemma length_put [simp]: "Stream_room s (length bs) \<Longrightarrow> length (s_buffer (Stream_put bs s)) = length (s_buffer s)"
  by (simp add: Stream_put_def)

lemma Stream_put_Nil [simp]: "Stream_put [] s = s"
  by (simp add: Stream_put_def)

lemma put_put [simp]:
  assumes "Stream_room s (length a)"
  shows "Stream_put b (Stream_put a s) = Stream_put (a @ b) s"
  using assms by (simp add: Stream_put_def ac_simps)

text \<open>What was written lies ahead once the cursor is moved back and the length sealed.\<close>

lemma ahead_put:
  assumes "Stream_room s (length bs)"
  shows "ahead (Stream_SetPosition (Stream_SealLength (Stream_put bs s)) (s_pointer s)) = bs"
  using assms
  by (simp add: ahead_def Stream_SetPosition_def Stream_SealLength_def Stream_put_def)

text \<open>\<open>transport_write\<close> sends the bytes before the cursor.\<close>

definition stream_bytes :: "wStream \<Rightarrow> byte list" where
  "stream_bytes s = take (s_pointer s) (s_buffer s)"

lemma stream_bytes_put: "Stream_room s (length W) \<Longrightarrow> stream_bytes (Stream_put W s) = stream_bytes s @ W"
  by (simp add: stream_bytes_def Stream_put_def)

lemma stream_bytes_fresh [simp]: "s_pointer s = 0 \<Longrightarrow> stream_bytes s = []"
  by (simp add: stream_bytes_def)

lemma stream_bytes_seal [simp]: "stream_bytes (Stream_SealLength s) = stream_bytes s"
  by (simp add: stream_bytes_def Stream_SealLength_def)

text \<open>A message whose header is written last, into the bytes skipped at the start.\<close>

lemma header_last_bytes:
  assumes "s_pointer s = 0" "k + length P \<le> length (s_buffer s)" "length H = k"
  shows "stream_bytes (Stream_SealLength (Stream_SetPosition
     (Stream_put H (Stream_SetPosition (Stream_put P (Stream_Seek s k)) 0)) (k + length P))) = H @ P"
  using assms by (simp add: stream_bytes_def Stream_SealLength_def Stream_SetPosition_def Stream_put_def)

subsection \<open>Reads on a well-formed stream\<close>

lemma Read_UINT8_ahead [stream_simps]:
  "Stream_wf s \<Longrightarrow> ahead s = b # bs \<Longrightarrow> Stream_Read_UINT8 s = Some (b, Stream_Seek s 1)"
  by (simp add: Stream_Read_UINT8_def mem_read_ahead)

lemma Peek_UINT8_ahead [stream_simps]:
  "Stream_wf s \<Longrightarrow> ahead s = b # bs \<Longrightarrow> Stream_Peek_UINT8 s = Some b"
  by (simp add: Stream_Peek_UINT8_def mem_read_ahead)

lemma Read_UINT16_ahead:
  "Stream_wf s \<Longrightarrow> ahead s = b0 # b1 # bs \<Longrightarrow>
     Stream_Read_UINT16 s = Some (u16_le b0 b1, Stream_Seek s 2)"
  by (simp add: Stream_Read_UINT16_def mem_read_ahead)

lemma Read_UINT16_BE_ahead:
  "Stream_wf s \<Longrightarrow> ahead s = b0 # b1 # bs \<Longrightarrow>
     Stream_Read_UINT16_BE s = Some (u16_be b0 b1, Stream_Seek s 2)"
  by (simp add: Stream_Read_UINT16_BE_def mem_read_ahead)

lemma Read_UINT32_ahead:
  "Stream_wf s \<Longrightarrow> ahead s = b0 # b1 # b2 # b3 # bs \<Longrightarrow>
     Stream_Read_UINT32 s = Some (u32_le b0 b1 b2 b3, Stream_Seek s 4)"
  by (simp add: Stream_Read_UINT32_def mem_read_ahead numeral_nat)

lemma Read_UINT32_BE_ahead:
  "Stream_wf s \<Longrightarrow> ahead s = b0 # b1 # b2 # b3 # bs \<Longrightarrow>
     Stream_Read_UINT32_BE s = Some (u32_be b0 b1 b2 b3, Stream_Seek s 4)"
  by (simp add: Stream_Read_UINT32_BE_def mem_read_ahead numeral_nat)

lemma Read_UINT16_enc [stream_simps]:
  "Stream_wf s \<Longrightarrow> ahead s = le_bytes16 v @ bs \<Longrightarrow> Stream_Read_UINT16 s = Some (v, Stream_Seek s 2)"
  by (simp add: le_bytes16_def Read_UINT16_ahead u16_le_bytes)

lemma Read_UINT16_BE_enc [stream_simps]:
  "Stream_wf s \<Longrightarrow> ahead s = be_bytes16 v @ bs \<Longrightarrow> Stream_Read_UINT16_BE s = Some (v, Stream_Seek s 2)"
  by (simp add: be_bytes16_def Read_UINT16_BE_ahead u16_be_bytes)

lemma Read_UINT32_enc [stream_simps]:
  "Stream_wf s \<Longrightarrow> ahead s = le_bytes32 v @ bs \<Longrightarrow> Stream_Read_UINT32 s = Some (v, Stream_Seek s 4)"
  by (simp add: le_bytes32_def Read_UINT32_ahead u32_le_bytes)

lemma Read_UINT32_BE_enc [stream_simps]:
  "Stream_wf s \<Longrightarrow> ahead s = be_bytes32 v @ bs \<Longrightarrow> Stream_Read_UINT32_BE s = Some (v, Stream_Seek s 4)"
  by (simp add: be_bytes32_alt Read_UINT32_BE_ahead u32_be_bytes)

lemma Write_UINT_put [stream_simps]:
  "Stream_Write_UINT8 s b = (if Stream_room s 1 then Some (Stream_put [b] s) else None)"
  "Stream_Write_UINT16 s v = (if Stream_room s 2 then Some (Stream_put (le_bytes16 v) s) else None)"
  "Stream_Write_UINT16_BE s v = (if Stream_room s 2 then Some (Stream_put (be_bytes16 v) s) else None)"
  "Stream_Write_UINT32 s w = (if Stream_room s 4 then Some (Stream_put (le_bytes32 w) s) else None)"
  by (simp_all add: Stream_Write_UINT8_def Stream_Write_UINT16_def Stream_Write_UINT16_BE_def
      Stream_Write_UINT32_def Stream_Write_put)

lemma Write_UINT32_BE_put [stream_simps]:
  "Stream_Write_UINT32_BE s w = (if Stream_room s 4 then Some (Stream_put (be_bytes32 w) s) else None)"
  by (auto simp: Stream_Write_UINT32_BE_def Write_UINT_put be_bytes32_def)

subsection \<open>Readers that stay inside the stream\<close>

text \<open>
  A reader of the protocol code is a function that returns \<open>FALSE\<close> (here an
  inner \<^const>\<open>None\<close>) or \<open>TRUE\<close> with its output parameters, and moves the cursor.
  \<open>reader_safe n f\<close>: on every well-formed stream with at least \<open>n\<close> bytes ahead,
  \<open>f\<close> touches no memory outside the buffer, changes nothing but the cursor, and
  leaves the cursor inside the length.
\<close>

type_synonym 'a reader = "wStream \<Rightarrow> ('a option \<times> wStream) option"

definition reader_safe :: "nat \<Rightarrow> (wStream \<Rightarrow> ('r \<times> wStream) option) \<Rightarrow> bool" where
  "reader_safe n f \<longleftrightarrow> (\<forall>s. Stream_wf s \<longrightarrow> n \<le> length (ahead s) \<longrightarrow>
     (\<exists>r m. f s = Some (r, Stream_Seek s m) \<and> m \<le> length (ahead s)))"

text \<open>The idiom \<open>if (!f (s, &x)) return FALSE;\<close> followed by the rest of the function.\<close>

definition or_fail :: "'a reader \<Rightarrow> ('a \<Rightarrow> 'b reader) \<Rightarrow> 'b reader" where
  "or_fail f k s = do {
     (r, s) \<leftarrow> f s;
     (case r of None \<Rightarrow> Some (None, s) | Some x \<Rightarrow> k x s) }"

lemma or_fail_Some [simp]: "f s = Some (Some x, s') \<Longrightarrow> or_fail f k s = k x s'"
  by (simp add: or_fail_def)

lemma or_fail_None [simp]: "f s = Some (None, s') \<Longrightarrow> or_fail f k s = Some (None, s')"
  by (simp add: or_fail_def)

named_theorems safe_intros \<open>rules that establish \<open>reader_safe\<close>\<close>

lemma reader_safeI:
  assumes "\<And>s. Stream_wf s \<Longrightarrow> n \<le> length (ahead s) \<Longrightarrow>
     \<exists>r m. f s = Some (r, Stream_Seek s m) \<and> m \<le> length (ahead s)"
  shows "reader_safe n f"
  using assms by (auto simp: reader_safe_def)

lemma reader_safeE:
  assumes "reader_safe n f" "Stream_wf s" "n \<le> length (ahead s)"
  obtains r m where "f s = Some (r, Stream_Seek s m)" "m \<le> length (ahead s)"
    "Stream_wf (Stream_Seek s m)"
proof -
  from assms obtain r m where "f s = Some (r, Stream_Seek s m)" "m \<le> length (ahead s)"
    unfolding reader_safe_def by blast
  with assms(2) that show thesis by (blast intro: Stream_wf_Seek)
qed

lemma reader_safe_mono: "reader_safe m f \<Longrightarrow> m \<le> n \<Longrightarrow> reader_safe n f"
  by (auto simp: reader_safe_def)

lemma safe_return [safe_intros]: "reader_safe n (\<lambda>s. Some (r, s))"
  by (rule reader_safeI) (force intro: exI [of _ 0])

text \<open>A read of \<open>d\<close> bytes followed by a safe continuation.\<close>

lemma safe_read_step:
  assumes rd: "\<And>s. Stream_wf s \<Longrightarrow> d \<le> length (ahead s) \<Longrightarrow> \<exists>v. rd s = Some (v, Stream_Seek s d)"
    and k: "\<And>v. reader_safe (n - d) (k v)" and d: "d \<le> n"
  shows "reader_safe n (\<lambda>s. do { (v, s) \<leftarrow> rd s; k v s })"
proof (rule reader_safeI)
  fix s assume s: "Stream_wf s" "n \<le> length (ahead s)"
  then obtain v where v: "rd s = Some (v, Stream_Seek s d)" using rd d by (meson le_trans)
  have "Stream_wf (Stream_Seek s d)" "n - d \<le> length (ahead (Stream_Seek s d))"
    using s d by (auto intro: Stream_wf_Seek)
  from reader_safeE [OF k this] obtain r m
    where "k v (Stream_Seek s d) = Some (r, Stream_Seek s (d + m))" "m \<le> length (ahead s) - d"
    by (metis Stream_Seek_Seek ahead_Seek length_drop)
  with v s d show "\<exists>r m. (do { (v, s) \<leftarrow> rd s; k v s }) = Some (r, Stream_Seek s m) \<and> m \<le> length (ahead s)"
    by (auto intro!: exI [of _ "d + m"])
qed

lemma safe_read_UINT8 [safe_intros]:
  "(\<And>v. reader_safe (n - 1) (k v)) \<Longrightarrow> 1 \<le> n \<Longrightarrow>
     reader_safe n (\<lambda>s. do { (v, s) \<leftarrow> Stream_Read_UINT8 s; k v s })"
  by (rule safe_read_step) (auto simp: Stream_Read_UINT8_def mem_read_ahead)

lemma safe_read_UINT16 [safe_intros]:
  "(\<And>v. reader_safe (n - 2) (k v)) \<Longrightarrow> 2 \<le> n \<Longrightarrow>
     reader_safe n (\<lambda>s. do { (v, s) \<leftarrow> Stream_Read_UINT16 s; k v s })"
  by (rule safe_read_step) (auto simp: Stream_Read_UINT16_def mem_read_ahead)

lemma safe_read_UINT16_BE [safe_intros]:
  "(\<And>v. reader_safe (n - 2) (k v)) \<Longrightarrow> 2 \<le> n \<Longrightarrow>
     reader_safe n (\<lambda>s. do { (v, s) \<leftarrow> Stream_Read_UINT16_BE s; k v s })"
  by (rule safe_read_step) (auto simp: Stream_Read_UINT16_BE_def mem_read_ahead)

lemma safe_read_UINT32 [safe_intros]:
  "(\<And>v. reader_safe (n - 4) (k v)) \<Longrightarrow> 4 \<le> n \<Longrightarrow>
     reader_safe n (\<lambda>s. do { (v, s) \<leftarrow> Stream_Read_UINT32 s; k v s })"
  by (rule safe_read_step) (auto simp: Stream_Read_UINT32_def mem_read_ahead)

lemma safe_read_UINT32_BE [safe_intros]:
  "(\<And>v. reader_safe (n - 4) (k v)) \<Longrightarrow> 4 \<le> n \<Longrightarrow>
     reader_safe n (\<lambda>s. do { (v, s) \<leftarrow> Stream_Read_UINT32_BE s; k v s })"
  by (rule safe_read_step) (auto simp: Stream_Read_UINT32_BE_def mem_read_ahead)

lemma safe_seek [safe_intros]:
  assumes "reader_safe (n - d) k" "d \<le> n"
  shows "reader_safe n (\<lambda>s. k (Stream_Seek s d))"
  using safe_read_step [of d "\<lambda>s. Some ((), Stream_Seek s d)" n "\<lambda>_. k"] assms by simp

lemma safe_if [safe_intros]:
  "(b \<Longrightarrow> reader_safe n f) \<Longrightarrow> (\<not> b \<Longrightarrow> reader_safe n g) \<Longrightarrow>
     reader_safe n (\<lambda>s. if b then f s else g s)"
  by (cases b) simp_all

text \<open>The length check that guards the reads, in the source's two spellings.\<close>

lemma safe_check [safe_intros]:
  assumes "reader_safe (max n m) k"
  shows "reader_safe n (\<lambda>s. if Stream_GetRemainingLength s < m then Some (r, s) else k s)"
  using assms by (auto simp: reader_safe_def Remaining_ahead intro: exI [of _ 0])

lemma safe_check_int:
  assumes "reader_safe (max n (nat m)) k"
  shows "reader_safe n (\<lambda>s. if c_int (Stream_GetRemainingLength s) < m then Some (e, s) else k s)"
proof (rule reader_safeI)
  fix s assume s: "Stream_wf s" "n \<le> length (ahead s)"
  have eq: "c_int (Stream_GetRemainingLength s) = int (length (ahead s))"
    using s ahead_bound [OF s(1)] by (simp add: Remaining_ahead)
  show "\<exists>r j. (if c_int (Stream_GetRemainingLength s) < m then Some (e, s) else k s)
      = Some (r, Stream_Seek s j) \<and> j \<le> length (ahead s)"
  proof (cases "int (length (ahead s)) < m")
    case True
    with eq show ?thesis by (auto intro: exI [of _ 0])
  next
    case False
    then have "max n (nat m) \<le> length (ahead s)" using s(2) by simp
    from reader_safeE [OF assms s(1) this] obtain r j
      where "k s = Some (r, Stream_Seek s j)" "j \<le> length (ahead s)" .
    with eq False show ?thesis by auto
  qed
qed

lemma safe_bind:
  assumes f: "reader_safe n f" and k: "\<And>x. reader_safe 0 (k x)"
  shows "reader_safe n (\<lambda>s. do { (x, s) \<leftarrow> f s; k x s })"
proof (rule reader_safeI)
  fix s assume s: "Stream_wf s" "n \<le> length (ahead s)"
  from reader_safeE [OF f s] obtain r m
    where m: "f s = Some (r, Stream_Seek s m)" "m \<le> length (ahead s)" "Stream_wf (Stream_Seek s m)" .
  from reader_safeE [OF k [of r] m(3)] obtain r' m'
    where "k r (Stream_Seek s m) = Some (r', Stream_Seek s (m + m'))" "m' \<le> length (ahead s) - m"
    by (metis Stream_Seek_Seek ahead_Seek length_drop le0)
  with m show "\<exists>r m. (do { (x, s) \<leftarrow> f s; k x s }) = Some (r, Stream_Seek s m) \<and> m \<le> length (ahead s)"
    by (auto intro!: exI [of _ "m + m'"])
qed

lemma safe_or_fail [safe_intros]:
  assumes "reader_safe n f" "\<And>x. reader_safe 0 (k x)"
  shows "reader_safe n (or_fail f k)"
  unfolding or_fail_def [abs_def]
proof (rule safe_bind [OF assms(1)])
  show "reader_safe 0 (\<lambda>s. case r of None \<Rightarrow> Some (None, s) | Some x \<Rightarrow> k x s)" for r
    by (cases r) (simp_all add: assms(2) safe_return)
qed

text \<open>
  Functions of the source that fill in a structure field by field return \<open>FALSE\<close>
  at the first field that fails and keep what was filled in before it. \<open>'st step\<close>
  is such a function on a structure of type \<open>'st\<close>: \<open>read_into f upd\<close> is one call
  \<open>f (s, &st->field)\<close>, \<open>and_also\<close> is C's \<open>&&\<close>, and \<open>on_field\<close> passes a substructure.
\<close>

type_synonym 'st step = "'st \<Rightarrow> wStream \<Rightarrow> ((bool \<times> 'st) \<times> wStream) option"

definition read_into :: "'a reader \<Rightarrow> ('a \<Rightarrow> 'st \<Rightarrow> 'st) \<Rightarrow> 'st step" where
  "read_into f upd st s = do {
     (r, s) \<leftarrow> f s;
     Some (case r of None \<Rightarrow> (False, st) | Some x \<Rightarrow> (True, upd x st), s) }"

definition and_also :: "'st step \<Rightarrow> 'st step \<Rightarrow> 'st step" where
  "and_also f g st s = do {
     (r, s) \<leftarrow> f st s;
     (if fst r then g (snd r) s else Some (r, s)) }"

definition on_field :: "('st \<Rightarrow> 'f) \<Rightarrow> ('f \<Rightarrow> 'st \<Rightarrow> 'st) \<Rightarrow> 'f step \<Rightarrow> 'st step" where
  "on_field get upd f st s = do {
     (r, s) \<leftarrow> f (get st) s;
     Some ((fst r, upd (snd r) st), s) }"

lemma safe_read_into [safe_intros]: "reader_safe n f \<Longrightarrow> reader_safe n (read_into f upd st)"
  unfolding read_into_def [abs_def] by (rule safe_bind) (auto intro: safe_return)

lemma safe_and_also [safe_intros]:
  "reader_safe n (f st) \<Longrightarrow> (\<And>st. reader_safe 0 (g st)) \<Longrightarrow> reader_safe n (and_also f g st)"
  unfolding and_also_def [abs_def] by (rule safe_bind) (auto intro: safe_return safe_if)

lemma safe_on_field [safe_intros]:
  "reader_safe n (f (get st)) \<Longrightarrow> reader_safe n (on_field get upd f st)"
  unfolding on_field_def [abs_def] by (rule safe_bind) (auto intro: safe_return)

lemma read_into_Some [simp]: "f s = Some (Some x, s') \<Longrightarrow> read_into f upd st s = Some ((True, upd x st), s')"
  by (simp add: read_into_def)

lemma and_also_True [simp]: "f st s = Some ((True, st'), s') \<Longrightarrow> and_also f g st s = g st' s'"
  by (simp add: and_also_def)

lemma on_field_Some [simp]:
  "f (get st) s = Some ((b, x), s') \<Longrightarrow> on_field get upd f st s = Some ((b, upd x st), s')"
  by (simp add: on_field_def)

text \<open>
  \<open>parses f st W st'\<close>: on every well-formed stream whose next bytes are \<open>W\<close>, the step
  \<open>f\<close> succeeds, moves past them, and turns \<open>st\<close> into \<open>st'\<close>.
\<close>

definition parses :: "'st step \<Rightarrow> 'st \<Rightarrow> byte list \<Rightarrow> 'st \<Rightarrow> bool" where
  "parses f st W st' \<longleftrightarrow> (\<forall>s rest. Stream_wf s \<longrightarrow> ahead s = W @ rest \<longrightarrow>
     f st s = Some ((True, st'), Stream_Seek s (length W)))"

lemma parsesD:
  "parses f st W st' \<Longrightarrow> Stream_wf s \<Longrightarrow> ahead s = W @ rest \<Longrightarrow>
     f st s = Some ((True, st'), Stream_Seek s (length W))"
  by (auto simp: parses_def)

lemma parses_and_also:
  assumes "parses f st W st1" "parses g st1 W' st2"
  shows "parses (and_also f g) st (W @ W') st2"
  unfolding parses_def
proof (intro allI impI)
  fix s rest assume s: "Stream_wf s" "ahead s = (W @ W') @ rest"
  then have "Stream_wf (Stream_Seek s (length W))" "ahead (Stream_Seek s (length W)) = W' @ rest"
    by (auto intro: Stream_wf_Seek)
  from parsesD [OF assms(2) this] parsesD [OF assms(1) s(1), of "W' @ rest"] s(2)
  show "and_also f g st s = Some ((True, st2), Stream_Seek s (length (W @ W')))" by simp
qed

lemma parses_read_into:
  assumes "\<And>s rest. Stream_wf s \<Longrightarrow> ahead s = W @ rest \<Longrightarrow> f s = Some (Some x, Stream_Seek s (length W))"
  shows "parses (read_into f upd) st W (upd x st)"
  using assms by (simp add: parses_def)

lemma parses_on_field: "parses f (get st) W x \<Longrightarrow> parses (on_field get upd f) st W (upd x st)"
  by (auto simp: parses_def)

subsection \<open>Interface: a wire element that is written and read back\<close>

text \<open>
  \<open>enc\<close> is the wire form of a value. The writer appends it when there is room;
  the reader, on a stream whose next bytes are that form, yields the value and
  moves past it; and the reader is safe on every stream.
\<close>

fun write_all :: "('a \<Rightarrow> wStream \<Rightarrow> wStream option) \<Rightarrow> 'a list \<Rightarrow> wStream \<Rightarrow> wStream option" where
  "write_all wr [] s = Some s"
| "write_all wr (x # xs) s = do { s \<leftarrow> wr x s; write_all wr xs s }"

fun read_all :: "'a reader \<Rightarrow> nat \<Rightarrow> 'a list reader" where
  "read_all rd 0 s = Some (Some [], s)"
| "read_all rd (Suc n) s = or_fail rd (\<lambda>x. or_fail (read_all rd n) (\<lambda>xs s. Some (Some (x # xs), s))) s"

locale wire_codec =
  fixes enc :: "'a \<Rightarrow> byte list"
    and valid :: "'a \<Rightarrow> bool"
    and wr :: "'a \<Rightarrow> wStream \<Rightarrow> wStream option"
    and rd :: "'a reader"
  assumes write_enc: "valid x \<Longrightarrow> Stream_room s (length (enc x)) \<Longrightarrow> wr x s = Some (Stream_put (enc x) s)"
    and read_enc: "valid x \<Longrightarrow> Stream_wf s \<Longrightarrow> ahead s = enc x @ rest \<Longrightarrow>
      rd s = Some (Some x, Stream_Seek s (length (enc x)))"
    and read_safe: "reader_safe 0 rd"
begin

lemma write_all_enc:
  "list_all valid xs \<Longrightarrow> Stream_room s (length (concat (map enc xs))) \<Longrightarrow>
     write_all wr xs s = Some (Stream_put (concat (map enc xs)) s)"
  by (induction xs arbitrary: s) (auto simp: write_enc)

lemma read_all_enc:
  "list_all valid xs \<Longrightarrow> Stream_wf s \<Longrightarrow> ahead s = concat (map enc xs) @ rest \<Longrightarrow>
     read_all rd (length xs) s = Some (Some xs, Stream_Seek s (length (concat (map enc xs))))"
proof (induction xs arbitrary: s)
  case Nil
  then show ?case by simp
next
  case (Cons x xs)
  let ?s = "Stream_Seek s (length (enc x))"
  have "rd s = Some (Some x, ?s)"
    using Cons.prems by (auto intro: read_enc)
  moreover have "Stream_wf ?s" using Cons.prems by (auto intro: Stream_wf_Seek)
  moreover have "ahead ?s = concat (map enc xs) @ rest" using Cons.prems by simp
  ultimately show ?case using Cons by (simp add: or_fail_def)
qed

text \<open>Any sequence of values written at the cursor is read back, in order, from there.\<close>

lemma sequence_roundtrip:
  assumes "list_all valid xs" "Stream_room s (length (concat (map enc xs)))"
    and "length (s_buffer s) < 2 ^ 31" "s_capacity s = length (s_buffer s)"
  shows "\<exists>s'. write_all wr xs s = Some s' \<and>
    read_all rd (length xs) (Stream_SetPosition (Stream_SealLength s') (s_pointer s)) =
      Some (Some xs, Stream_SealLength s')"
proof -
  let ?s' = "Stream_put (concat (map enc xs)) s"
  let ?t = "Stream_SetPosition (Stream_SealLength ?s') (s_pointer s)"
  have "Stream_wf ?t"
    using assms by (simp add: Stream_wf_def Stream_SetPosition_def Stream_SealLength_def)
  moreover have "ahead ?t = concat (map enc xs) @ []" using assms(2) by (simp add: ahead_put)
  ultimately have "read_all rd (length xs) ?t = Some (Some xs, Stream_Seek ?t (length (concat (map enc xs))))"
    using assms(1) by (intro read_all_enc)
  moreover have "Stream_Seek ?t (length (concat (map enc xs))) = Stream_SealLength ?s'"
    by (simp add: Stream_Seek_def Stream_SetPosition_def Stream_SealLength_def)
  ultimately show ?thesis using write_all_enc [OF assms(1,2)] by auto
qed

lemma roundtrip:
  assumes "valid x" "Stream_room s (length (enc x))"
    and "length (s_buffer s) < 2 ^ 31" "s_capacity s = length (s_buffer s)"
  shows "\<exists>s'. wr x s = Some s' \<and>
    rd (Stream_SetPosition (Stream_SealLength s') (s_pointer s)) = Some (Some x, Stream_SealLength s')"
proof -
  let ?s' = "Stream_put (enc x) s"
  let ?t = "Stream_SetPosition (Stream_SealLength ?s') (s_pointer s)"
  have "Stream_wf ?t"
    using assms by (simp add: Stream_wf_def Stream_SetPosition_def Stream_SealLength_def)
  moreover have "ahead ?t = enc x @ []" using assms(2) by (simp add: ahead_put)
  ultimately have "rd ?t = Some (Some x, Stream_Seek ?t (length (enc x)))"
    using assms(1) by (intro read_enc)
  moreover have "Stream_Seek ?t (length (enc x)) = Stream_SealLength ?s'"
    by (simp add: Stream_Seek_def Stream_SetPosition_def Stream_SealLength_def)
  ultimately show ?thesis using write_enc [OF assms(1,2)] by auto
qed

end

subsection \<open>Properties of growth\<close>

lemma Stream_EnsureCapacity_grows:
  assumes al: "alloc_ok al" and s: "s_capacity s = length (s_buffer s)" "0 < s_capacity s" "s_capacity s < sz" "sz \<le> 2 ^ 63"
  shows "Stream_EnsureCapacity al s sz = Some (False, s) \<or>
    (\<exists>c. sz \<le> c \<and> c < 2 * sz \<and> Stream_EnsureCapacity al s sz =
       Some (True, s\<lparr>s_buffer := s_buffer s @ replicate (c - s_capacity s) 0, s_capacity := c, s_length := c\<rparr>))"
proof -
  obtain k where k: "ensure_loop (s_capacity s) sz = Some (s_capacity s * 2 ^ k)" "sz \<le> s_capacity s * 2 ^ k"
      "s_capacity s * 2 ^ k < 2 * sz"
    using ensure_loop_Some [OF s(2-4)] by blast
  define c where "c = s_capacity s * 2 ^ k"
  note k = k [folded c_def]
  show ?thesis
  proof (cases "al c")
    case None
    with k s show ?thesis by (simp add: Stream_EnsureCapacity_def)
  next
    case (Some blk)
    then have blk: "length blk = c" using al by (auto simp: alloc_ok_def)
    have "mem_write (s_buffer s @ drop (length (s_buffer s)) blk) (s_capacity s) (replicate (c - s_capacity s) 0)
        = Some (s_buffer s @ replicate (c - s_capacity s) 0)"
      using s(1,3) k(2) blk by (simp add: mem_write_def)
    then have "Stream_EnsureCapacity al s sz =
        Some (True, s\<lparr>s_buffer := s_buffer s @ replicate (c - s_capacity s) 0, s_capacity := c, s_length := c\<rparr>)"
      using k s Some by (simp add: Stream_EnsureCapacity_def Stream_SetPosition_def Stream_GetPosition_def Let_def)
    with k(2,3) show ?thesis by blast
  qed
qed

text \<open>
  Room for a write (C38): on a stream with a non-empty buffer that holds the cursor,
  \<open>Stream_EnsureRemainingCapacity\<close> returns. Either it reports failure and leaves the
  stream as it was, or the next \<open>n\<close> bytes can be written, the cursor and every byte of
  the old buffer are where they were, and the bytes added are zero.
\<close>

theorem Stream_EnsureRemainingCapacity_room:
  assumes "alloc_ok al" "s_capacity s = length (s_buffer s)" "0 < s_capacity s"
    and "s_pointer s \<le> s_capacity s" "s_capacity s + n \<le> 2 ^ 63"
  shows "\<exists>ok s'. Stream_EnsureRemainingCapacity al s n = Some (ok, s') \<and>
    (if ok then Stream_room s' n \<and> s_pointer s' = s_pointer s \<and> s_capacity s' = length (s_buffer s') \<and>
       (\<exists>k. s_buffer s' = s_buffer s @ replicate k 0)
     else s' = s)"
proof (cases "s_pointer s + n \<le> s_capacity s")
  case True
  with assms(2,5) show ?thesis
    by (auto simp: Stream_EnsureRemainingCapacity_def Stream_GetPosition_def Stream_Capacity_def
        intro!: exI [of _ 0])
next
  case False
  then have eq: "Stream_EnsureRemainingCapacity al s n = Stream_EnsureCapacity al s (s_capacity s + n)"
    using assms(4,5) by (simp add: Stream_EnsureRemainingCapacity_def Stream_GetPosition_def Stream_Capacity_def)
  have "s_capacity s < s_capacity s + n" using False assms(4) by simp
  from Stream_EnsureCapacity_grows [OF assms(1-3) this assms(5)]
  consider "Stream_EnsureCapacity al s (s_capacity s + n) = Some (False, s)"
    | c where "s_capacity s + n \<le> c" "Stream_EnsureCapacity al s (s_capacity s + n) =
       Some (True, s\<lparr>s_buffer := s_buffer s @ replicate (c - s_capacity s) 0, s_capacity := c, s_length := c\<rparr>)"
    by blast
  then show ?thesis using assms(2,4) by cases (auto simp: eq)
qed

theorem Stream_EnsureRemainingCapacity_room_witness:
  "\<exists>ok s'. Stream_EnsureRemainingCapacity calloc_zero
      \<lparr>s_buffer = [7, 8], s_pointer = 1, s_length = 2, s_capacity = 2, s_count = 0, s_pool = None\<rparr> 5 = Some (ok, s') \<and>
    (if ok then Stream_room s' 5 \<and> s_pointer s' = 1 \<and> s_capacity s' = length (s_buffer s') \<and>
       (\<exists>k. s_buffer s' = [7, 8] @ replicate k 0)
     else s' = \<lparr>s_buffer = [7, 8], s_pointer = 1, s_length = 2, s_capacity = 2, s_count = 0, s_pool = None\<rparr>)"
  using Stream_EnsureRemainingCapacity_room [OF alloc_ok_calloc_zero, of
      "\<lparr>s_buffer = [7, 8], s_pointer = 1, s_length = 2, s_capacity = 2, s_count = 0, s_pool = None\<rparr>" 5]
  by (simp cong: if_cong split del: if_split)

text \<open>
  Growth of an empty stream: with capacity zero the doubling loop of
  \<open>Stream_EnsureCapacity\<close> never ends, whatever size is asked for.
\<close>

theorem Stream_EnsureCapacity_empty_diverges:
  assumes "s_capacity s = 0" "0 < sz"
  shows "Stream_EnsureCapacity al s sz = None"
  using assms ensure_loop_zero by (simp add: Stream_EnsureCapacity_def)

theorem Stream_EnsureCapacity_empty_diverges_witness:
  "Stream_EnsureCapacity calloc_zero
    \<lparr>s_buffer = [], s_pointer = 0, s_length = 0, s_capacity = 0, s_count = 0, s_pool = None\<rparr> 1 = None"
  by (rule Stream_EnsureCapacity_empty_diverges) simp_all

end
