(* ===== verification/Ber.thy ===== *)
theory Ber
  imports WStream
begin

text \<open>
  ASN.1 Basic Encoding Rules (\<open>libfreerdp/crypto/ber.c\<close>, tag constants of
  \<open>include/freerdp/crypto/ber.h\<close>): lengths, universal, application, contextual and
  sequence tags, and the primitive types that MCS uses. Every reader is shown to
  stay inside its stream, and every writer/reader pair is an interpretation of
  \<open>wire_codec\<close>.
\<close>

unbundle bit_operations_syntax

subsection \<open>Tag bytes\<close>

definition BER_PC :: "bool \<Rightarrow> byte" where
  "BER_PC pc = (if pc then 0x20 else 0x00)"

abbreviation (input) "BER_CLASS_UNIV \<equiv> (0x00 :: byte)"
abbreviation (input) "BER_CLASS_APPL \<equiv> (0x40 :: byte)"
abbreviation (input) "BER_CLASS_CTXT \<equiv> (0x80 :: byte)"
abbreviation (input) "BER_CONSTRUCT \<equiv> (0x20 :: byte)"
abbreviation (input) "BER_TAG_MASK \<equiv> (0x1F :: byte)"
abbreviation (input) "BER_TAG_BOOLEAN \<equiv> (0x01 :: byte)"
abbreviation (input) "BER_TAG_INTEGER \<equiv> (0x02 :: byte)"
abbreviation (input) "BER_TAG_BIT_STRING \<equiv> (0x03 :: byte)"
abbreviation (input) "BER_TAG_OCTET_STRING \<equiv> (0x04 :: byte)"
abbreviation (input) "BER_TAG_ENUMERATED \<equiv> (0x0A :: byte)"
abbreviation (input) "BER_TAG_SEQUENCE \<equiv> (0x10 :: byte)"
abbreviation (input) "BER_TAG_SEQUENCE_OF \<equiv> (0x10 :: byte)"

subsection \<open>Lengths\<close>

definition ber_read_length :: "int reader" where
  "ber_read_length s =
     (if Stream_GetRemainingLength s < 1 then Some (None, s)
      else do {
        (byte, s) \<leftarrow> Stream_Read_UINT8 s;
        if byte AND 0x80 \<noteq> 0
        then (let byte = byte AND NOT 0x80 in
          if Stream_GetRemainingLength s < unat byte then Some (None, s)
          else if byte = 1 then do { (v, s) \<leftarrow> Stream_Read_UINT8 s; Some (Some (uint v), s) }
          else if byte = 2 then do { (v, s) \<leftarrow> Stream_Read_UINT16_BE s; Some (Some (uint v), s) }
          else Some (None, s))
        else Some (Some (uint byte), s) })"

definition ber_write_length :: "wStream \<Rightarrow> int \<Rightarrow> (int \<times> wStream) option" where
  "ber_write_length s len =
     (if len > 0xFF then do {
        s \<leftarrow> Stream_Write_UINT8 s (0x80 XOR 2);
        s \<leftarrow> Stream_Write_UINT16_BE s (word_of_int len);
        Some (3, s) }
      else if len > 0x7F then do {
        s \<leftarrow> Stream_Write_UINT8 s (0x80 XOR 1);
        s \<leftarrow> Stream_Write_UINT8 s (word_of_int len);
        Some (2, s) }
      else do {
        s \<leftarrow> Stream_Write_UINT8 s (word_of_int len);
        Some (1, s) })"

definition ber_sizeof_length :: "int \<Rightarrow> int" where
  "ber_sizeof_length len = (if len > 0xFF then 3 else if len > 0x7F then 2 else 1)"

subsection \<open>Tags\<close>

definition ber_read_universal_tag :: "byte \<Rightarrow> bool \<Rightarrow> unit reader" where
  "ber_read_universal_tag tag pc s =
     (if Stream_GetRemainingLength s < 1 then Some (None, s)
      else do {
        (byte, s) \<leftarrow> Stream_Read_UINT8 s;
        if byte \<noteq> (BER_CLASS_UNIV OR BER_PC pc OR (BER_TAG_MASK AND tag))
        then Some (None, s) else Some (Some (), s) })"

definition ber_write_universal_tag :: "wStream \<Rightarrow> byte \<Rightarrow> bool \<Rightarrow> (int \<times> wStream) option" where
  "ber_write_universal_tag s tag pc = do {
     s \<leftarrow> Stream_Write_UINT8 s ((BER_CLASS_UNIV OR BER_PC pc) OR (BER_TAG_MASK AND tag));
     Some (1, s) }"

definition ber_read_application_tag :: "byte \<Rightarrow> int reader" where
  "ber_read_application_tag tag s =
     (if tag > 30 then
        (if Stream_GetRemainingLength s < 1 then Some (None, s)
         else do {
           (byte, s) \<leftarrow> Stream_Read_UINT8 s;
           if byte \<noteq> ((BER_CLASS_APPL OR BER_CONSTRUCT) OR BER_TAG_MASK) then Some (None, s)
           else if Stream_GetRemainingLength s < 1 then Some (None, s)
           else do {
             (byte, s) \<leftarrow> Stream_Read_UINT8 s;
             if byte \<noteq> tag then Some (None, s) else ber_read_length s } })
      else
        (if Stream_GetRemainingLength s < 1 then Some (None, s)
         else do {
           (byte, s) \<leftarrow> Stream_Read_UINT8 s;
           if byte \<noteq> ((BER_CLASS_APPL OR BER_CONSTRUCT) OR (BER_TAG_MASK AND tag)) then Some (None, s)
           else ber_read_length s }))"

definition ber_write_application_tag :: "wStream \<Rightarrow> byte \<Rightarrow> int \<Rightarrow> wStream option" where
  "ber_write_application_tag s tag len =
     (if tag > 30 then do {
        s \<leftarrow> Stream_Write_UINT8 s ((BER_CLASS_APPL OR BER_CONSTRUCT) OR BER_TAG_MASK);
        s \<leftarrow> Stream_Write_UINT8 s tag;
        (_, s) \<leftarrow> ber_write_length s len;
        Some s }
      else do {
        s \<leftarrow> Stream_Write_UINT8 s ((BER_CLASS_APPL OR BER_CONSTRUCT) OR (BER_TAG_MASK AND tag));
        (_, s) \<leftarrow> ber_write_length s len;
        Some s })"

definition ber_read_contextual_tag :: "byte \<Rightarrow> bool \<Rightarrow> int reader" where
  "ber_read_contextual_tag tag pc s =
     (if Stream_GetRemainingLength s < 1 then Some (None, s)
      else do {
        (byte, s) \<leftarrow> Stream_Read_UINT8 s;
        if byte \<noteq> ((BER_CLASS_CTXT OR BER_PC pc) OR (BER_TAG_MASK AND tag))
        then do { s \<leftarrow> Stream_Rewind s 1; Some (None, s) }
        else ber_read_length s })"

definition ber_write_contextual_tag :: "wStream \<Rightarrow> byte \<Rightarrow> int \<Rightarrow> bool \<Rightarrow> (int \<times> wStream) option" where
  "ber_write_contextual_tag s tag len pc = do {
     s \<leftarrow> Stream_Write_UINT8 s ((BER_CLASS_CTXT OR BER_PC pc) OR (BER_TAG_MASK AND tag));
     (n, s) \<leftarrow> ber_write_length s len;
     Some (1 + n, s) }"

definition ber_sizeof_contextual_tag :: "int \<Rightarrow> int" where
  "ber_sizeof_contextual_tag len = 1 + ber_sizeof_length len"

definition ber_read_sequence_tag :: "int reader" where
  "ber_read_sequence_tag s =
     (if Stream_GetRemainingLength s < 1 then Some (None, s)
      else do {
        (byte, s) \<leftarrow> Stream_Read_UINT8 s;
        if byte \<noteq> ((BER_CLASS_UNIV OR BER_CONSTRUCT) OR BER_TAG_SEQUENCE_OF) then Some (None, s)
        else ber_read_length s })"

definition ber_write_sequence_tag :: "wStream \<Rightarrow> int \<Rightarrow> (int \<times> wStream) option" where
  "ber_write_sequence_tag s len = do {
     s \<leftarrow> Stream_Write_UINT8 s ((BER_CLASS_UNIV OR BER_CONSTRUCT) OR (BER_TAG_MASK AND BER_TAG_SEQUENCE));
     (n, s) \<leftarrow> ber_write_length s len;
     Some (1 + n, s) }"

definition ber_sizeof_sequence :: "int \<Rightarrow> int" where
  "ber_sizeof_sequence len = 1 + ber_sizeof_length len + len"

definition ber_sizeof_sequence_tag :: "int \<Rightarrow> int" where
  "ber_sizeof_sequence_tag len = 1 + ber_sizeof_length len"

subsection \<open>Primitive types\<close>

definition ber_read_enumerated :: "byte \<Rightarrow> byte reader" where
  "ber_read_enumerated count =
     or_fail (ber_read_universal_tag BER_TAG_ENUMERATED False) (\<lambda>_.
     or_fail ber_read_length (\<lambda>len s.
       if len \<noteq> 1 then Some (None, s)
       else if Stream_GetRemainingLength s < 1 then Some (None, s)
       else do {
         (enumerated, s) \<leftarrow> Stream_Read_UINT8 s;
         if uint enumerated + 1 > uint count then Some (None, s) else Some (Some enumerated, s) }))"

definition ber_write_enumerated :: "wStream \<Rightarrow> byte \<Rightarrow> byte \<Rightarrow> wStream option" where
  "ber_write_enumerated s enumerated count = do {
     (_, s) \<leftarrow> ber_write_universal_tag s BER_TAG_ENUMERATED False;
     (_, s) \<leftarrow> ber_write_length s 1;
     Stream_Write_UINT8 s enumerated }"

definition ber_read_bit_string :: "(int \<times> byte) reader" where
  "ber_read_bit_string =
     or_fail (ber_read_universal_tag BER_TAG_BIT_STRING False) (\<lambda>_.
     or_fail ber_read_length (\<lambda>len s.
       if Stream_GetRemainingLength s < 1 then Some (None, s)
       else do { (padding, s) \<leftarrow> Stream_Read_UINT8 s; Some (Some (len, padding), s) }))"

definition ber_write_octet_string :: "wStream \<Rightarrow> byte list \<Rightarrow> (int \<times> wStream) option" where
  "ber_write_octet_string s oct_str = do {
     (n1, s) \<leftarrow> ber_write_universal_tag s BER_TAG_OCTET_STRING False;
     (n2, s) \<leftarrow> ber_write_length s (int (length oct_str));
     s \<leftarrow> Stream_Write s oct_str;
     Some (n1 + n2 + int (length oct_str), s) }"

definition ber_read_octet_string_tag :: "int reader" where
  "ber_read_octet_string_tag =
     or_fail (ber_read_universal_tag BER_TAG_OCTET_STRING False) (\<lambda>_. ber_read_length)"

definition ber_write_octet_string_tag :: "wStream \<Rightarrow> int \<Rightarrow> (int \<times> wStream) option" where
  "ber_write_octet_string_tag s len = do {
     (_, s) \<leftarrow> ber_write_universal_tag s BER_TAG_OCTET_STRING False;
     (_, s) \<leftarrow> ber_write_length s len;
     Some (1 + ber_sizeof_length len, s) }"

definition ber_sizeof_octet_string :: "int \<Rightarrow> int" where
  "ber_sizeof_octet_string len = 1 + ber_sizeof_length len + len"

definition ber_read_BOOL :: "bool reader" where
  "ber_read_BOOL =
     or_fail (ber_read_universal_tag BER_TAG_BOOLEAN False) (\<lambda>_.
     or_fail ber_read_length (\<lambda>len s.
       if len \<noteq> 1 then Some (None, s)
       else if Stream_GetRemainingLength s < 1 then Some (None, s)
       else do { (v, s) \<leftarrow> Stream_Read_UINT8 s; Some (Some (v \<noteq> 0), s) }))"

definition ber_write_BOOL :: "wStream \<Rightarrow> bool \<Rightarrow> wStream option" where
  "ber_write_BOOL s v = do {
     (_, s) \<leftarrow> ber_write_universal_tag s BER_TAG_BOOLEAN False;
     (_, s) \<leftarrow> ber_write_length s 1;
     Stream_Write_UINT8 s (if v then 0xFF else 0) }"

text \<open>
  The header shared by the two uses of \<open>ber_read_integer\<close>: tag, length, and the
  check of the announced size, then \<open>k\<close>. \<open>ber_read_integer\<close> has a destination;
  \<open>ber_skip_integer\<close> is the call with \<open>value == NULL\<close>, which only skips the
  announced bytes.
\<close>

definition ber_integer_body :: "(int \<Rightarrow> 'a reader) \<Rightarrow> 'a reader" where
  "ber_integer_body k =
     or_fail (ber_read_universal_tag BER_TAG_INTEGER False) (\<lambda>_.
     or_fail ber_read_length (\<lambda>len s.
       if c_int (Stream_GetRemainingLength s) < len then Some (None, s) else k len s))"

definition ber_read_integer :: "u32 reader" where
  "ber_read_integer = ber_integer_body (\<lambda>len s.
     if len = 1 then do { (v, s) \<leftarrow> Stream_Read_UINT8 s; Some (Some (ucast v), s) }
     else if len = 2 then do { (v, s) \<leftarrow> Stream_Read_UINT16_BE s; Some (Some (ucast v), s) }
     else if len = 3 then do {
       (byte, s) \<leftarrow> Stream_Read_UINT8 s;
       (v, s) \<leftarrow> Stream_Read_UINT16_BE s;
       Some (Some (ucast v + push_bit 16 (ucast byte)), s) }
     else if len = 4 then do { (v, s) \<leftarrow> Stream_Read_UINT32_BE s; Some (Some v, s) }
     else Some (None, s))"

definition ber_skip_integer :: "unit reader" where
  "ber_skip_integer = ber_integer_body (\<lambda>len s.
     case Stream_SafeSeek s (nat len) of (ok, s) \<Rightarrow> Some (if ok then Some () else None, s))"

definition ber_write_integer :: "wStream \<Rightarrow> u32 \<Rightarrow> (int \<times> wStream) option" where
  "ber_write_integer s v =
     (if v < 0x80 then do {
        (_, s) \<leftarrow> ber_write_universal_tag s BER_TAG_INTEGER False;
        (_, s) \<leftarrow> ber_write_length s 1;
        s \<leftarrow> Stream_Write_UINT8 s (ucast v);
        Some (3, s) }
      else if v < 0x8000 then do {
        (_, s) \<leftarrow> ber_write_universal_tag s BER_TAG_INTEGER False;
        (_, s) \<leftarrow> ber_write_length s 2;
        s \<leftarrow> Stream_Write_UINT16_BE s (ucast v);
        Some (4, s) }
      else if v < 0x800000 then do {
        (_, s) \<leftarrow> ber_write_universal_tag s BER_TAG_INTEGER False;
        (_, s) \<leftarrow> ber_write_length s 3;
        s \<leftarrow> Stream_Write_UINT8 s (ucast (drop_bit 16 v));
        s \<leftarrow> Stream_Write_UINT16_BE s (ucast (v AND 0xFFFF));
        Some (5, s) }
      else if v < 0x80000000 then do {
        (_, s) \<leftarrow> ber_write_universal_tag s BER_TAG_INTEGER False;
        (_, s) \<leftarrow> ber_write_length s 4;
        s \<leftarrow> Stream_Write_UINT32_BE s v;
        Some (6, s) }
      else do {
        (_, s) \<leftarrow> ber_write_universal_tag s BER_TAG_INTEGER False;
        (_, s) \<leftarrow> ber_write_length s 4;
        s \<leftarrow> Stream_Write_UINT32_BE s v;
        Some (6, s) })"

definition ber_sizeof_integer :: "u32 \<Rightarrow> int" where
  "ber_sizeof_integer v =
     (if v < 0x80 then 3 else if v < 0x8000 then 4 else if v < 0x800000 then 5
      else if v < 0x80000000 then 6 else 6)"

definition ber_read_integer_length :: "int reader" where
  "ber_read_integer_length =
     or_fail (ber_read_universal_tag BER_TAG_INTEGER False) (\<lambda>_. ber_read_length)"

subsection \<open>Readers stay inside the stream\<close>

lemma safe_ber_read_length [safe_intros]: "reader_safe n ber_read_length"
  unfolding ber_read_length_def [abs_def] Let_def
  by (intro safe_intros) auto

lemma safe_ber_read_universal_tag [safe_intros]: "reader_safe n (ber_read_universal_tag tag pc)"
  unfolding ber_read_universal_tag_def [abs_def]
  by (intro safe_intros) auto

lemma safe_ber_read_application_tag [safe_intros]: "reader_safe n (ber_read_application_tag tag)"
  unfolding ber_read_application_tag_def [abs_def]
  by (intro safe_intros) auto

lemma safe_ber_read_contextual_tag [safe_intros]: "reader_safe n (ber_read_contextual_tag tag pc)"
proof (rule reader_safeI)
  fix s assume s: "Stream_wf s" "n \<le> length (ahead s)"
  show "\<exists>r m. ber_read_contextual_tag tag pc s = Some (r, Stream_Seek s m) \<and> m \<le> length (ahead s)"
  proof (cases "ahead s")
    case Nil
    with s show ?thesis
      by (auto simp: ber_read_contextual_tag_def Remaining_ahead intro: exI [of _ 0])
  next
    case (Cons b bs)
    have "Stream_wf (Stream_Seek s 1)" using s Cons by (auto intro: Stream_wf_Seek)
    from reader_safeE [OF safe_ber_read_length [of 0] this]
    obtain r m where "ber_read_length (Stream_Seek s 1) = Some (r, Stream_Seek s (1 + m))" "m \<le> length bs"
      using Cons by (metis Stream_Seek_Seek ahead_Seek drop_Suc_Cons drop_0 One_nat_def le0)
    moreover have "Stream_Rewind (Stream_Seek s 1) 1 = Some s"
      by (simp add: Stream_Rewind_def Stream_Seek_def)
    ultimately show ?thesis using s Cons
      by (cases "b = (BER_CLASS_CTXT OR BER_PC pc) OR (BER_TAG_MASK AND tag)")
        (auto simp: ber_read_contextual_tag_def Remaining_ahead Read_UINT8_ahead
          intro: exI [of _ "Suc m"] exI [of _ 0])
  qed
qed

lemma safe_ber_read_sequence_tag [safe_intros]: "reader_safe n ber_read_sequence_tag"
  unfolding ber_read_sequence_tag_def [abs_def]
  by (intro safe_intros) auto

lemma safe_ber_read_enumerated [safe_intros]: "reader_safe n (ber_read_enumerated count)"
  unfolding ber_read_enumerated_def
  by (intro safe_intros) auto

lemma safe_ber_read_bit_string [safe_intros]: "reader_safe n ber_read_bit_string"
  unfolding ber_read_bit_string_def
  by (intro safe_intros) auto

lemma safe_ber_read_octet_string_tag [safe_intros]: "reader_safe n ber_read_octet_string_tag"
  unfolding ber_read_octet_string_tag_def
  by (intro safe_intros)

lemma safe_ber_read_BOOL [safe_intros]: "reader_safe n ber_read_BOOL"
  unfolding ber_read_BOOL_def
  by (intro safe_intros) auto

lemma safe_ber_integer_body:
  "(\<And>len. reader_safe (nat len) (k len)) \<Longrightarrow> reader_safe n (ber_integer_body k)"
  unfolding ber_integer_body_def
  by (intro safe_intros safe_check_int) (rule reader_safe_mono, assumption, simp)

lemma safe_ber_read_integer [safe_intros]: "reader_safe n ber_read_integer"
  unfolding ber_read_integer_def
  by (intro safe_intros safe_ber_integer_body) auto

lemma safe_ber_skip_integer [safe_intros]: "reader_safe n ber_skip_integer"
  unfolding ber_skip_integer_def
  by (rule safe_ber_integer_body, rule reader_safeI)
    (auto simp: Stream_SafeSeek_def Remaining_ahead)

lemma safe_ber_read_integer_length [safe_intros]: "reader_safe n ber_read_integer_length"
  unfolding ber_read_integer_length_def
  by (intro safe_intros)

subsection \<open>Wire forms\<close>

definition ber_length_bytes :: "int \<Rightarrow> byte list" where
  "ber_length_bytes len =
     (if len > 0xFF then 0x82 # be_bytes16 (word_of_int len)
      else if len > 0x7F then [0x81, word_of_int len] else [word_of_int len])"

definition ber_universal_byte :: "byte \<Rightarrow> bool \<Rightarrow> byte" where
  "ber_universal_byte tag pc = ((BER_CLASS_UNIV OR BER_PC pc) OR (BER_TAG_MASK AND tag))"

definition ber_application_bytes :: "byte \<Rightarrow> byte list" where
  "ber_application_bytes tag =
     (if tag > 30 then [(BER_CLASS_APPL OR BER_CONSTRUCT) OR BER_TAG_MASK, tag]
      else [(BER_CLASS_APPL OR BER_CONSTRUCT) OR (BER_TAG_MASK AND tag)])"

definition ber_integer_bytes :: "u32 \<Rightarrow> byte list" where
  "ber_integer_bytes v = ber_universal_byte BER_TAG_INTEGER False #
     (if v < 0x80 then [1, ucast v]
      else if v < 0x8000 then 2 # be_bytes16 (ucast v)
      else if v < 0x800000 then 3 # ucast (drop_bit 16 v) # be_bytes16 (ucast (v AND 0xFFFF))
      else 4 # be_bytes32 v)"

lemma length_ber_length_bytes [simp]: "length (ber_length_bytes len) = nat (ber_sizeof_length len)"
  by (simp add: ber_length_bytes_def ber_sizeof_length_def)

lemma ber_sizeof_length_pos: "1 \<le> ber_sizeof_length len" "ber_sizeof_length len \<le> 3"
  by (simp_all add: ber_sizeof_length_def)

lemma ber_write_length_put [wire_simps]:
  "Stream_room s (nat (ber_sizeof_length len)) \<Longrightarrow>
     ber_write_length s len = Some (ber_sizeof_length len, Stream_put (ber_length_bytes len) s)"
  by (auto simp: ber_write_length_def ber_length_bytes_def ber_sizeof_length_def Write_UINT_put
      small_numerals split: if_splits)

lemma ber_write_universal_tag_put [wire_simps]:
  "Stream_room s 1 \<Longrightarrow>
     ber_write_universal_tag s tag pc = Some (1, Stream_put [ber_universal_byte tag pc] s)"
  by (simp add: ber_write_universal_tag_def Write_UINT_put ber_universal_byte_def)

lemma ber_read_universal_tag_enc [wire_simps]:
  "Stream_wf s \<Longrightarrow> ahead s = ber_universal_byte tag pc # rest \<Longrightarrow>
     ber_read_universal_tag tag pc s = Some (Some (), Stream_Seek s 1)"
  by (simp add: ber_read_universal_tag_def Remaining_ahead Read_UINT8_ahead ber_universal_byte_def or.assoc)

lemma ber_read_length_enc [wire_simps]:
  assumes "0 \<le> len" "len \<le> 0xFFFF" "Stream_wf s" "ahead s = ber_length_bytes len @ rest"
  shows "ber_read_length s = Some (Some len, Stream_Seek s (nat (ber_sizeof_length len)))"
proof -
  consider "len > 0xFF" | "0x7F < len" "len \<le> 0xFF" | "len \<le> 0x7F" by linarith
  then show ?thesis
  proof cases
    case 1
    then have a: "ahead s = 0x82 # be_bytes16 (word_of_int len) @ rest"
      using assms by (simp add: ber_length_bytes_def)
    then have "Stream_wf (Stream_Seek s 1)" using assms(3) by (auto intro: Stream_wf_Seek)
    then show ?thesis using 1 a assms
      by (simp add: ber_read_length_def Remaining_ahead Read_UINT8_ahead Read_UINT16_BE_enc
          ber_sizeof_length_def uint_word_of_int_eq take_bit_int_eq_self) (simp add: small_numerals)
  next
    case 2
    then have a: "ahead s = 0x81 # word_of_int len # rest"
      using assms by (simp add: ber_length_bytes_def)
    then have "Stream_wf (Stream_Seek s 1)" using assms(3) by (auto intro: Stream_wf_Seek)
    then show ?thesis using 2 a assms
      by (simp add: ber_read_length_def Remaining_ahead Read_UINT8_ahead
          ber_sizeof_length_def uint_word_of_int_eq take_bit_int_eq_self) (simp add: small_numerals)
  next
    case 3
    then have a: "ahead s = word_of_int len # rest"
      using assms by (simp add: ber_length_bytes_def)
    have "(word_of_int len :: byte) AND 0x80 = 0"
      using 3 assms(1) by (simp add: byte_high_bit unat_eq_nat_uint uint_word_of_int_eq take_bit_int_eq_self)
    then show ?thesis using 3 a assms
      by (simp add: ber_read_length_def Remaining_ahead Read_UINT8_ahead
          ber_sizeof_length_def uint_word_of_int_eq take_bit_int_eq_self)
  qed
qed


lemma ucast_id_u32:
  "v < 0x80 \<Longrightarrow> (ucast (ucast v :: byte) :: u32) = v"
  "v < 0x8000 \<Longrightarrow> (ucast (ucast v :: u16) :: u32) = v"
  by (simp_all add: word_less_nat_alt word_unat_eq_iff unsigned_ucast_eq unsigned_take_bit_eq take_bit_nat_eq_self)

lemma three_bytes_u32:
  assumes "v < 0x800000"
  shows "(ucast (ucast (v AND 0xFFFF) :: u16) + push_bit 16 (ucast (ucast (drop_bit 16 v) :: byte)) :: u32) = v"
proof -
  have d: "unat (drop_bit 16 v) < 256"
    using assms by (simp add: word_less_nat_alt unat_drop_bit_eq drop_bit_eq_div unat_div less_mult_imp_div_less)
  then have "(ucast (ucast (drop_bit 16 v) :: byte) :: u32) = drop_bit 16 v"
    by (simp add: word_unat_eq_iff unsigned_ucast_eq unsigned_take_bit_eq take_bit_nat_eq_self)
  moreover have "(ucast (ucast (v AND 0xFFFF) :: u16) :: u32) = take_bit 16 v"
    unfolding and_65535 by (rule bit_word_eqI) (auto simp: bit_simps)
  ultimately show ?thesis using bits_ident [of 16 v] by (simp add: add.commute)
qed

lemma length_ber_integer_bytes [simp]: "length (ber_integer_bytes v) = nat (ber_sizeof_integer v)"
  by (simp add: ber_integer_bytes_def ber_sizeof_integer_def)

lemma ber_write_integer_put [wire_simps]:
  assumes "Stream_room s (nat (ber_sizeof_integer v))"
  shows "ber_write_integer s v = Some (ber_sizeof_integer v, Stream_put (ber_integer_bytes v) s)"
  using assms
  by (auto simp: ber_write_integer_def ber_integer_bytes_def ber_sizeof_integer_def wire_simps
      ber_sizeof_length_def ber_length_bytes_def Write_UINT_put Write_UINT32_BE_put split: if_splits)

lemma ber_integer_body_enc:
  assumes "Stream_wf s" "ahead s = ber_universal_byte BER_TAG_INTEGER False # ber_length_bytes len @ body"
    and "0 \<le> len" "len \<le> 0xFFFF" "nat len \<le> length body"
  shows "ber_integer_body k s = k len (Stream_Seek s (Suc (nat (ber_sizeof_length len))))"
    and "Stream_wf (Stream_Seek s (Suc (nat (ber_sizeof_length len))))"
    and "ahead (Stream_Seek s (Suc (nat (ber_sizeof_length len)))) = body"
proof -
  let ?s1 = "Stream_Seek s 1" and ?s2 = "Stream_Seek s (Suc (nat (ber_sizeof_length len)))"
  have wf1: "Stream_wf ?s1" using assms(1,2) by (auto intro: Stream_wf_Seek)
  show wf2: "Stream_wf ?s2" using assms(1,2) by (auto intro: Stream_wf_Seek)
  show a2: "ahead ?s2 = body" using assms(2) by simp
  have "ber_read_length ?s1 = Some (Some len, ?s2)"
    using ber_read_length_enc [OF assms(3,4) wf1, of body] assms(2) by simp
  moreover have "\<not> c_int (Stream_GetRemainingLength ?s2) < len"
    using assms(3,5) a2 ahead_bound [OF wf2] Remaining_ahead [OF wf2] by (simp add: nat_le_iff)
  ultimately show "ber_integer_body k s = k len ?s2"
    using ber_read_universal_tag_enc [OF assms(1,2)]
    by (simp add: ber_integer_body_def)
qed

lemma ber_read_integer_enc [wire_simps]:
  assumes "Stream_wf s" "ahead s = ber_integer_bytes v @ rest"
  shows "ber_read_integer s = Some (Some v, Stream_Seek s (nat (ber_sizeof_integer v)))"
proof -
  note B = ber_integer_body_enc [OF assms(1)] and L = ber_length_bytes_def ber_sizeof_length_def
  consider "v < 0x80" | "\<not> v < 0x80" "v < 0x8000" | "\<not> v < 0x80" "\<not> v < 0x8000" "v < 0x800000"
    | "\<not> v < 0x80" "\<not> v < 0x8000" "\<not> v < 0x800000" by blast
  then show ?thesis
  proof cases
    case 1
    with assms(2) have a: "ahead s = ber_universal_byte BER_TAG_INTEGER False # ber_length_bytes 1 @ (ucast v # rest)"
      by (simp add: ber_integer_bytes_def L)
    from 1 B(2,3) [OF a] show ?thesis
      by (simp add: B(1) [OF a] ber_read_integer_def Read_UINT8_ahead ber_sizeof_integer_def ber_sizeof_length_def
          ucast_id_u32) (simp add: small_numerals)
  next
    case 2
    with assms(2) have a: "ahead s = ber_universal_byte BER_TAG_INTEGER False # ber_length_bytes 2 @ (be_bytes16 (ucast v) @ rest)"
      by (simp add: ber_integer_bytes_def L)
    from 2 B(2,3) [OF a] show ?thesis
      by (simp add: B(1) [OF a] ber_read_integer_def Read_UINT16_BE_enc ber_sizeof_integer_def ber_sizeof_length_def
          ucast_id_u32) (simp add: small_numerals)
  next
    case 3
    with assms(2) have a: "ahead s = ber_universal_byte BER_TAG_INTEGER False # ber_length_bytes 3 @
        (ucast (drop_bit 16 v) # be_bytes16 (ucast (v AND 0xFFFF)) @ rest)"
      by (simp add: ber_integer_bytes_def L)
    have "Stream_wf (Stream_Seek s 3)" using assms(1) a by (auto simp: L intro: Stream_wf_Seek)
    moreover have "ahead (Stream_Seek s 3) = be_bytes16 (ucast (v AND 0xFFFF)) @ rest" using a by (simp add: L)
    ultimately have "Stream_Read_UINT16_BE (Stream_Seek s 3) = Some (ucast (v AND 0xFFFF), Stream_Seek s 5)"
      by (simp add: Read_UINT16_BE_enc)
    with 3 B(2,3) [OF a] show ?thesis
      by (simp add: B(1) [OF a] ber_read_integer_def Read_UINT8_ahead ber_sizeof_integer_def ber_sizeof_length_def
) (simp add: small_numerals three_bytes_u32)
  next
    case 4
    with assms(2) have a: "ahead s = ber_universal_byte BER_TAG_INTEGER False # ber_length_bytes 4 @ (be_bytes32 v @ rest)"
      by (simp add: ber_integer_bytes_def L)
    from 4 B(2,3) [OF a] show ?thesis
      by (simp add: B(1) [OF a] ber_read_integer_def Read_UINT32_BE_enc ber_sizeof_integer_def ber_sizeof_length_def)
  qed
qed

subsection \<open>Every BER element is a wire codec\<close>

interpretation ber_length: wire_codec ber_length_bytes "\<lambda>len. 0 \<le> len \<and> len \<le> 0xFFFF"
  "\<lambda>len s. map_option snd (ber_write_length s len)" ber_read_length
  by unfold_locales (auto simp: ber_write_length_put ber_read_length_enc intro: safe_intros)

interpretation ber_integer: wire_codec ber_integer_bytes "\<lambda>_. True"
  "\<lambda>v s. map_option snd (ber_write_integer s v)" ber_read_integer
  by unfold_locales (auto simp: ber_write_integer_put ber_read_integer_enc intro: safe_intros)

definition ber_bool_bytes :: "bool \<Rightarrow> byte list" where
  "ber_bool_bytes b = [ber_universal_byte BER_TAG_BOOLEAN False, 1, if b then 0xFF else 0]"

definition ber_enumerated_bytes :: "byte \<Rightarrow> byte list" where
  "ber_enumerated_bytes e = [ber_universal_byte BER_TAG_ENUMERATED False, 1, e]"

lemma ber_read_length_one:
  "Stream_wf s \<Longrightarrow> ahead s = 1 # rest \<Longrightarrow> ber_read_length s = Some (Some 1, Stream_Seek s 1)"
  using ber_read_length_enc [of 1 s rest] by (simp add: ber_length_bytes_def ber_sizeof_length_def)

text \<open>The shape shared by BOOLEAN and ENUMERATED: a tag, the length 1, one content byte.\<close>

lemma ber_one_byte_enc:
  assumes "Stream_wf s" "ahead s = ber_universal_byte tag False # 1 # b # rest"
  shows "ber_read_universal_tag tag False s = Some (Some (), Stream_Seek s 1)"
    and "ber_read_length (Stream_Seek s 1) = Some (Some 1, Stream_Seek s 2)"
    and "Stream_GetRemainingLength (Stream_Seek s 2) = Suc (length rest)"
    and "Stream_Read_UINT8 (Stream_Seek s 2) = Some (b, Stream_Seek s 3)"
proof -
  have wf: "Stream_wf (Stream_Seek s 1)" "Stream_wf (Stream_Seek s 2)"
    using assms by (auto intro: Stream_wf_Seek)
  show "ber_read_universal_tag tag False s = Some (Some (), Stream_Seek s 1)"
    using assms by (rule ber_read_universal_tag_enc)
  show "ber_read_length (Stream_Seek s 1) = Some (Some 1, Stream_Seek s 2)"
    using ber_read_length_one [OF wf(1)] assms(2) by (simp add: small_numerals)
  show "Stream_GetRemainingLength (Stream_Seek s 2) = Suc (length rest)"
    using assms(2) Remaining_ahead [OF wf(2)] by (simp add: small_numerals)
  show "Stream_Read_UINT8 (Stream_Seek s 2) = Some (b, Stream_Seek s 3)"
    using Read_UINT8_ahead [OF wf(2)] assms(2) by (simp add: small_numerals)
qed

lemma ber_write_one_byte_put:
  assumes "Stream_room s 3"
  shows "(do { (_, s) \<leftarrow> ber_write_universal_tag s tag False; (_, s) \<leftarrow> ber_write_length s 1;
      Stream_Write_UINT8 s b }) = Some (Stream_put [ber_universal_byte tag False, 1, b] s)"
  using assms
  by (simp add: ber_write_universal_tag_put ber_write_length_put ber_sizeof_length_def
      ber_length_bytes_def Write_UINT_put)

interpretation ber_bool: wire_codec ber_bool_bytes "\<lambda>_. True" "\<lambda>b s. ber_write_BOOL s b" ber_read_BOOL
proof unfold_locales
  fix b s assume "Stream_room s (length (ber_bool_bytes b))"
  then show "ber_write_BOOL s b = Some (Stream_put (ber_bool_bytes b) s)"
    unfolding ber_write_BOOL_def by (subst ber_write_one_byte_put) (simp_all add: ber_bool_bytes_def)
next
  fix b s rest assume s: "Stream_wf s" "ahead s = ber_bool_bytes b @ rest"
  then have "ahead s = ber_universal_byte BER_TAG_BOOLEAN False # 1 # (if b then 0xFF else 0) # rest"
    by (simp add: ber_bool_bytes_def)
  from ber_one_byte_enc [OF s(1) this]
  show "ber_read_BOOL s = Some (Some b, Stream_Seek s (length (ber_bool_bytes b)))"
    by (simp add: ber_read_BOOL_def ber_bool_bytes_def) (simp add: small_numerals)
qed (rule safe_ber_read_BOOL)

interpretation ber_enumerated: wire_codec ber_enumerated_bytes "\<lambda>e. e < count"
  "\<lambda>e s. ber_write_enumerated s e count" "ber_read_enumerated count" for count
proof unfold_locales
  fix e s assume "Stream_room s (length (ber_enumerated_bytes e))"
  then show "ber_write_enumerated s e count = Some (Stream_put (ber_enumerated_bytes e) s)"
    unfolding ber_write_enumerated_def by (subst ber_write_one_byte_put) (simp_all add: ber_enumerated_bytes_def)
next
  fix e s rest assume s: "Stream_wf s" "ahead s = ber_enumerated_bytes e @ rest" and e: "e < count"
  then have "ahead s = ber_universal_byte BER_TAG_ENUMERATED False # 1 # e # rest"
    by (simp add: ber_enumerated_bytes_def)
  from ber_one_byte_enc [OF s(1) this] e
  show "ber_read_enumerated count s = Some (Some e, Stream_Seek s (length (ber_enumerated_bytes e)))"
    by (simp add: ber_read_enumerated_def ber_enumerated_bytes_def word_less_def) (simp add: small_numerals)
qed (rule safe_ber_read_enumerated)

text \<open>Tags followed by a length: sequence, application and contextual tags.\<close>

lemma ber_tagged_length_enc:
  assumes "0 \<le> len" "len \<le> 0xFFFF" "Stream_wf s" "ahead s = ts @ ber_length_bytes len @ rest"
  shows "ber_read_length (Stream_Seek s (length ts)) =
     Some (Some len, Stream_Seek s (length ts + nat (ber_sizeof_length len)))"
proof -
  have "Stream_wf (Stream_Seek s (length ts))" using assms(3,4) by (auto intro: Stream_wf_Seek)
  from ber_read_length_enc [OF assms(1,2) this, of rest] assms(4) show ?thesis by simp
qed

interpretation ber_sequence: wire_codec "\<lambda>len. (0x30 :: byte) # ber_length_bytes len" "\<lambda>len. 0 \<le> len \<and> len \<le> 0xFFFF"
  "\<lambda>len s. map_option snd (ber_write_sequence_tag s len)" ber_read_sequence_tag
proof unfold_locales
  fix len s assume "Stream_room s (length (0x30 # ber_length_bytes len))"
  then show "map_option snd (ber_write_sequence_tag s len) = Some (Stream_put (0x30 # ber_length_bytes len) s)"
    by (simp add: ber_write_sequence_tag_def Write_UINT_put ber_write_length_put)
next
  fix len s rest assume s: "0 \<le> len \<and> len \<le> 0xFFFF" "Stream_wf s" "ahead s = (0x30 # ber_length_bytes len) @ rest"
  then show "ber_read_sequence_tag s = Some (Some len, Stream_Seek s (length (0x30 # ber_length_bytes len)))"
    using ber_tagged_length_enc [of len s "[0x30]" rest]
    by (simp add: ber_read_sequence_tag_def Remaining_ahead Read_UINT8_ahead)
qed (rule safe_ber_read_sequence_tag)

interpretation ber_application: wire_codec "\<lambda>len. ber_application_bytes tag @ ber_length_bytes len"
  "\<lambda>len. 0 \<le> len \<and> len \<le> 0xFFFF" "\<lambda>len s. ber_write_application_tag s tag len" "ber_read_application_tag tag"
  for tag
proof unfold_locales
  fix len s assume "Stream_room s (length (ber_application_bytes tag @ ber_length_bytes len))"
  then show "ber_write_application_tag s tag len =
      Some (Stream_put (ber_application_bytes tag @ ber_length_bytes len) s)"
    by (cases "tag > 30")
      (simp_all add: ber_write_application_tag_def ber_application_bytes_def Write_UINT_put ber_write_length_put)
next
  fix len s rest
  assume s: "0 \<le> len \<and> len \<le> 0xFFFF" "Stream_wf s"
    "ahead s = (ber_application_bytes tag @ ber_length_bytes len) @ rest"
  show "ber_read_application_tag tag s =
      Some (Some len, Stream_Seek s (length (ber_application_bytes tag @ ber_length_bytes len)))"
  proof (cases "tag > 30")
    case True
    then have a: "ahead s = 0x7F # tag # ber_length_bytes len @ rest"
      using s(3) by (simp add: ber_application_bytes_def)
    have "Stream_wf (Stream_Seek s 1)" using s(2) a by (auto intro: Stream_wf_Seek)
    then show ?thesis using True s a ber_tagged_length_enc [of len s "[0x7F, tag]" rest]
      by (simp add: ber_read_application_tag_def Remaining_ahead Read_UINT8_ahead ber_application_bytes_def)
  next
    case False
    then show ?thesis using s ber_tagged_length_enc [of len s "ber_application_bytes tag" rest]
      by (simp add: ber_read_application_tag_def Remaining_ahead Read_UINT8_ahead ber_application_bytes_def)
  qed
qed (rule safe_ber_read_application_tag)

interpretation ber_contextual: wire_codec
  "\<lambda>len. ((BER_CLASS_CTXT OR BER_PC pc) OR (BER_TAG_MASK AND tag)) # ber_length_bytes len"
  "\<lambda>len. 0 \<le> len \<and> len \<le> 0xFFFF"
  "\<lambda>len s. map_option snd (ber_write_contextual_tag s tag len pc)" "ber_read_contextual_tag tag pc"
  for tag pc
proof unfold_locales
  fix len s
  let ?t = "(BER_CLASS_CTXT OR BER_PC pc) OR (BER_TAG_MASK AND tag)"
  assume "Stream_room s (length (?t # ber_length_bytes len))"
  then show "map_option snd (ber_write_contextual_tag s tag len pc) = Some (Stream_put (?t # ber_length_bytes len) s)"
    by (simp add: ber_write_contextual_tag_def Write_UINT_put ber_write_length_put)
next
  fix len s rest
  let ?t = "(BER_CLASS_CTXT OR BER_PC pc) OR (BER_TAG_MASK AND tag)"
  assume s: "0 \<le> len \<and> len \<le> 0xFFFF" "Stream_wf s" "ahead s = (?t # ber_length_bytes len) @ rest"
  then show "ber_read_contextual_tag tag pc s = Some (Some len, Stream_Seek s (length (?t # ber_length_bytes len)))"
    using ber_tagged_length_enc [of len s "[?t]" rest]
    by (simp add: ber_read_contextual_tag_def Remaining_ahead Read_UINT8_ahead)
qed (rule safe_ber_read_contextual_tag)

subsection \<open>Properties\<close>

text \<open>
  BER integers: any sequence of 32-bit values written with \<open>ber_write_integer\<close> at the
  cursor is read back in order by \<open>ber_read_integer\<close>, over the one-, two-, three- and
  four-byte forms; the readers end where the writers did.
\<close>

theorem ber_integer_sequence_roundtrip:
  assumes "Stream_room s (length (concat (map ber_integer_bytes vs)))"
    and "length (s_buffer s) < 2 ^ 31" "s_capacity s = length (s_buffer s)"
  shows "\<exists>s'. write_all (\<lambda>v s. map_option snd (ber_write_integer s v)) vs s = Some s' \<and>
    read_all ber_read_integer (length vs) (Stream_SetPosition (Stream_SealLength s') (s_pointer s)) =
      Some (Some vs, Stream_SealLength s')"
  using ber_integer.sequence_roundtrip [OF _ assms] by (simp add: list_all_iff)

theorem ber_integer_sequence_roundtrip_witness:
  "\<exists>s'. write_all (\<lambda>v s. map_option snd (ber_write_integer s v)) [0, 0x7F, 0x80, 0x12345, 0xFFFFFFFF]
      \<lparr>s_buffer = replicate 32 0, s_pointer = 1, s_length = 32, s_capacity = 32, s_count = 0, s_pool = None\<rparr> = Some s' \<and>
    read_all ber_read_integer (length [0, 0x7F, 0x80, 0x12345, 0xFFFFFFFF :: u32]) (Stream_SetPosition (Stream_SealLength s') 1) =
      Some (Some [0, 0x7F, 0x80, 0x12345, 0xFFFFFFFF], Stream_SealLength s')"
  using ber_integer_sequence_roundtrip [of
      "\<lparr>s_buffer = replicate 32 0, s_pointer = 1, s_length = 32, s_capacity = 32, s_count = 0, s_pool = None\<rparr>"
      "[0, 0x7F, 0x80, 0x12345, 0xFFFFFFFF]"]
  by (simp add: ber_sizeof_integer_def)

text \<open>
  BER readers stay inside the stream: on every well-formed stream, whatever its bytes,
  each reader returns, touches no memory outside the buffer, changes nothing but the
  cursor, and leaves it inside the length.
\<close>

theorem ber_readers_safe:
  "reader_safe 0 ber_read_length \<and> reader_safe 0 (ber_read_universal_tag tag pc) \<and>
   reader_safe 0 (ber_read_application_tag tag) \<and> reader_safe 0 (ber_read_contextual_tag tag pc) \<and>
   reader_safe 0 ber_read_sequence_tag \<and> reader_safe 0 (ber_read_enumerated count) \<and>
   reader_safe 0 ber_read_bit_string \<and> reader_safe 0 ber_read_octet_string_tag \<and> reader_safe 0 ber_read_BOOL \<and>
   reader_safe 0 ber_read_integer \<and> reader_safe 0 ber_skip_integer \<and> reader_safe 0 ber_read_integer_length"
  by (intro conjI safe_intros)

text \<open>
  BER sizes: the size that \<open>ber_sizeof_integer\<close> computes is what \<open>ber_write_integer\<close>
  returns and the distance by which it moves the cursor, and is between 3 and 6.
\<close>

theorem ber_sizeof_integer_exact:
  assumes "Stream_room s 6"
  shows "\<exists>s'. ber_write_integer s v = Some (ber_sizeof_integer v, s') \<and>
    int (s_pointer s') = int (s_pointer s) + ber_sizeof_integer v \<and> 3 \<le> ber_sizeof_integer v \<and> ber_sizeof_integer v \<le> 6"
proof -
  have sz: "3 \<le> ber_sizeof_integer v" "ber_sizeof_integer v \<le> 6" by (simp_all add: ber_sizeof_integer_def)
  then have "Stream_room s (nat (ber_sizeof_integer v))" using assms by linarith
  from ber_write_integer_put [OF this] sz show ?thesis by simp
qed

theorem ber_sizeof_integer_exact_witness:
  "\<exists>s'. ber_write_integer
      \<lparr>s_buffer = replicate 8 0, s_pointer = 2, s_length = 8, s_capacity = 8, s_count = 0, s_pool = None\<rparr> 0x8000
      = Some (5, s') \<and> int (s_pointer s') = 7"
  using ber_sizeof_integer_exact [of
      "\<lparr>s_buffer = replicate 8 0, s_pointer = 2, s_length = 8, s_capacity = 8, s_count = 0, s_pool = None\<rparr>" "0x8000"]
  by (simp add: ber_sizeof_integer_def)

end
