(* ===== verification/Per.thy ===== *)
theory Per
  imports WStream
begin

text \<open>
  ASN.1 Packed Encoding Rules (\<open>libfreerdp/crypto/per.c\<close>), the encoding of the
  MCS domain PDUs and of the GCC conference messages: lengths, choices,
  selections, integers, enumerations, object identifiers, octet and numeric
  strings. As for BER, every reader is shown to stay inside its stream and the
  pairs that invert each other are interpretations of \<open>wire_codec\<close>; where the
  pair of the source does not invert, the exact domain is proved instead.
\<close>

unbundle bit_operations_syntax

text \<open>C's \<open>%\<close> and \<open>/\<close> truncate towards zero; \<open>Stream_Seek\<close> by a possibly negative \<open>int\<close>.\<close>

definition c_rem :: "int \<Rightarrow> int \<Rightarrow> int" where
  "c_rem a b = sgn a * (\<bar>a\<bar> mod \<bar>b\<bar>)"

definition c_div :: "int \<Rightarrow> int \<Rightarrow> int" where
  "c_div a b = sgn a * sgn b * (\<bar>a\<bar> div \<bar>b\<bar>)"

definition Stream_Seek_int :: "wStream \<Rightarrow> int \<Rightarrow> wStream" where
  "Stream_Seek_int s n = s\<lparr>s_pointer := nat (int (s_pointer s) + n)\<rparr>"

subsection \<open>Lengths, choices, selections\<close>

definition per_read_length :: "u16 reader" where
  "per_read_length s =
     (if Stream_GetRemainingLength s < 1 then Some (None, s)
      else do {
        (byte, s) \<leftarrow> Stream_Read_UINT8 s;
        if byte AND 0x80 \<noteq> 0 then
          (if Stream_GetRemainingLength s < 1 then Some (None, s)
           else do {
             let len = (push_bit 8 (ucast (byte AND NOT 0x80)) :: u16);
             (byte, s) \<leftarrow> Stream_Read_UINT8 s;
             Some (Some (len + ucast byte), s) })
        else Some (Some (ucast byte), s) })"

definition per_write_length :: "wStream \<Rightarrow> int \<Rightarrow> wStream option" where
  "per_write_length s len =
     (if len > 0x7F then Stream_Write_UINT16_BE s (word_of_int (len OR 0x8000))
      else Stream_Write_UINT8 s (word_of_int len))"

text \<open>One unchecked byte: \<open>choice\<close>, \<open>selection\<close> and the number of sets.\<close>

definition per_read_choice :: "byte reader" where
  "per_read_choice s =
     (if Stream_GetRemainingLength s < 1 then Some (None, s)
      else do { (choice, s) \<leftarrow> Stream_Read_UINT8 s; Some (Some choice, s) })"

definition per_write_choice :: "wStream \<Rightarrow> byte \<Rightarrow> wStream option" where
  "per_write_choice s choice = Stream_Write_UINT8 s choice"

definition per_read_selection :: "byte reader" where
  "per_read_selection s =
     (if Stream_GetRemainingLength s < 1 then Some (None, s)
      else do { (selection, s) \<leftarrow> Stream_Read_UINT8 s; Some (Some selection, s) })"

definition per_write_selection :: "wStream \<Rightarrow> byte \<Rightarrow> wStream option" where
  "per_write_selection s selection = Stream_Write_UINT8 s selection"

definition per_read_number_of_sets :: "byte reader" where
  "per_read_number_of_sets s =
     (if Stream_GetRemainingLength s < 1 then Some (None, s)
      else do { (number, s) \<leftarrow> Stream_Read_UINT8 s; Some (Some number, s) })"

definition per_write_number_of_sets :: "wStream \<Rightarrow> byte \<Rightarrow> wStream option" where
  "per_write_number_of_sets s number = Stream_Write_UINT8 s number"

definition per_read_padding :: "int \<Rightarrow> unit reader" where
  "per_read_padding len s =
     (if c_int (Stream_GetRemainingLength s) < len then Some (None, s)
      else Some (Some (), Stream_Seek_int s len))"

fun per_write_padding_loop :: "nat \<Rightarrow> wStream \<Rightarrow> wStream option" where
  "per_write_padding_loop 0 s = Some s"
| "per_write_padding_loop (Suc n) s = do { s \<leftarrow> Stream_Write_UINT8 s 0; per_write_padding_loop n s }"

definition per_write_padding :: "wStream \<Rightarrow> int \<Rightarrow> wStream option" where
  "per_write_padding s len = per_write_padding_loop (nat len) s"

subsection \<open>Integers and enumerations\<close>

definition per_read_integer :: "u32 reader" where
  "per_read_integer = or_fail per_read_length (\<lambda>len s.
     if Stream_GetRemainingLength s < unat len then Some (None, s)
     else if len = 0 then Some (Some 0, s)
     else if len = 1 then do { (v, s) \<leftarrow> Stream_Read_UINT8 s; Some (Some (ucast v), s) }
     else if len = 2 then do { (v, s) \<leftarrow> Stream_Read_UINT16_BE s; Some (Some (ucast v), s) }
     else Some (None, s))"

definition per_write_integer :: "wStream \<Rightarrow> u32 \<Rightarrow> wStream option" where
  "per_write_integer s v =
     (if v \<le> 0xFF then do { s \<leftarrow> per_write_length s 1; Stream_Write_UINT8 s (ucast v) }
      else if v \<le> 0xFFFF then do { s \<leftarrow> per_write_length s 2; Stream_Write_UINT16_BE s (ucast v) }
      else if v \<le> 0xFFFFFFFF then do { s \<leftarrow> per_write_length s 4; Stream_Write_UINT32_BE s v }
      else Some s)"

text \<open>
  \<open>per_read_integer16\<close> stores the raw value before its range check, so a caller's
  variable changes even when it returns \<open>FALSE\<close>: \<open>per_read_integer16_dest\<close> keeps
  the destination, \<open>per_read_integer16\<close> is the view of a caller that stops there.
\<close>

definition per_read_integer16_dest :: "u16 \<Rightarrow> u16 step" where
  "per_read_integer16_dest mn integer s =
     (if Stream_GetRemainingLength s < 2 then Some ((False, integer), s)
      else do {
        (integer, s) \<leftarrow> Stream_Read_UINT16_BE s;
        if uint integer + uint mn > 0xFFFF then Some ((False, integer), s)
        else Some ((True, integer + mn), s) })"

definition per_read_integer16 :: "u16 \<Rightarrow> u16 reader" where
  "per_read_integer16 mn s = do {
     (r, s) \<leftarrow> per_read_integer16_dest mn 0 s;
     Some (if fst r then Some (snd r) else None, s) }"

definition per_write_integer16 :: "wStream \<Rightarrow> u16 \<Rightarrow> u16 \<Rightarrow> wStream option" where
  "per_write_integer16 s v mn = Stream_Write_UINT16_BE s (v - mn)"

definition per_read_enumerated :: "byte \<Rightarrow> byte reader" where
  "per_read_enumerated count s =
     (if Stream_GetRemainingLength s < 1 then Some (None, s)
      else do {
        (enumerated, s) \<leftarrow> Stream_Read_UINT8 s;
        if uint enumerated + 1 > uint count then Some (None, s) else Some (Some enumerated, s) })"

definition per_write_enumerated :: "wStream \<Rightarrow> byte \<Rightarrow> byte \<Rightarrow> wStream option" where
  "per_write_enumerated s enumerated count = Stream_Write_UINT8 s enumerated"

subsection \<open>Object identifiers and strings\<close>

definition per_read_object_identifier :: "byte list \<Rightarrow> unit reader" where
  "per_read_object_identifier oid = or_fail per_read_length (\<lambda>len s.
     if len \<noteq> 5 then Some (None, s)
     else if Stream_GetRemainingLength s < unat len then Some (None, s)
     else do {
       (t12, s) \<leftarrow> Stream_Read_UINT8 s;
       (o2, s) \<leftarrow> Stream_Read_UINT8 s;
       (o3, s) \<leftarrow> Stream_Read_UINT8 s;
       (o4, s) \<leftarrow> Stream_Read_UINT8 s;
       (o5, s) \<leftarrow> Stream_Read_UINT8 s;
       if [drop_bit 4 t12, t12 AND 0x0F, o2, o3, o4, o5] = oid then Some (Some (), s) else Some (None, s) })"

definition per_write_object_identifier :: "wStream \<Rightarrow> byte list \<Rightarrow> wStream option" where
  "per_write_object_identifier s oid = do {
     let t12 = (push_bit 4 (oid ! 0)) AND (oid ! 1 AND 0x0F);
     s \<leftarrow> Stream_Write_UINT8 s 5;
     s \<leftarrow> Stream_Write_UINT8 s t12;
     s \<leftarrow> Stream_Write_UINT8 s (oid ! 2);
     s \<leftarrow> Stream_Write_UINT8 s (oid ! 3);
     s \<leftarrow> Stream_Write_UINT8 s (oid ! 4);
     Stream_Write_UINT8 s (oid ! 5) }"

text \<open>\<open>for (i = ...; i < length; i++) Stream_Write_UINT8 (s, str[i])\<close>, \<open>n\<close> iterations left.\<close>

fun per_write_bytes_loop :: "byte list \<Rightarrow> nat \<Rightarrow> nat \<Rightarrow> wStream \<Rightarrow> wStream option" where
  "per_write_bytes_loop str i 0 s = Some s"
| "per_write_bytes_loop str i (Suc n) s = do {
     bs \<leftarrow> mem_read str i 1;
     s \<leftarrow> Stream_Write_UINT8 s (bs ! 0);
     per_write_bytes_loop str (Suc i) n s }"

definition per_write_string :: "wStream \<Rightarrow> byte list \<Rightarrow> int \<Rightarrow> wStream option" where
  "per_write_string s str len = per_write_bytes_loop str 0 (nat len) s"

text \<open>The comparison loop of \<open>per_read_octet_string\<close> over \<open>a_oct_str\<close> and \<open>oct_str\<close>.\<close>

fun per_compare_loop :: "byte list \<Rightarrow> byte list \<Rightarrow> nat \<Rightarrow> nat \<Rightarrow> bool option" where
  "per_compare_loop a b i 0 = Some True"
| "per_compare_loop a b i (Suc n) = do {
     x \<leftarrow> mem_read a i 1;
     y \<leftarrow> mem_read b i 1;
     if x \<noteq> y then Some False else per_compare_loop a b (Suc i) n }"

definition per_read_octet_string :: "byte list \<Rightarrow> int \<Rightarrow> int \<Rightarrow> unit reader" where
  "per_read_octet_string oct_str len mn = or_fail per_read_length (\<lambda>mlength s.
     if uint mlength + mn \<noteq> len then Some (None, s)
     else if c_int (Stream_GetRemainingLength s) < len then Some (None, s)
     else do {
       let a_oct_str = drop (s_pointer s) (s_buffer s);
       let s = Stream_Seek_int s len;
       same \<leftarrow> per_compare_loop a_oct_str oct_str 0 (nat len);
       Some (if same then Some () else None, s) })"

definition per_write_octet_string :: "wStream \<Rightarrow> byte list \<Rightarrow> int \<Rightarrow> int \<Rightarrow> wStream option" where
  "per_write_octet_string s oct_str len mn = do {
     let mlength = (if len - mn \<ge> 0 then len - mn else mn);
     s \<leftarrow> per_write_length s mlength;
     per_write_bytes_loop oct_str 0 (nat len) s }"

definition per_read_numeric_string :: "int \<Rightarrow> unit reader" where
  "per_read_numeric_string mn = or_fail per_read_length (\<lambda>mlength s.
     let len = c_div (uint mlength + mn + 1) 2 in
     if c_int (Stream_GetRemainingLength s) < len then Some (None, s)
     else Some (Some (), Stream_Seek_int s len))"

definition per_digit :: "byte \<Rightarrow> byte" where
  "per_digit c = word_of_int (c_rem (uint c - 0x30) 10)"

function per_write_numeric_loop :: "byte list \<Rightarrow> nat \<Rightarrow> nat \<Rightarrow> wStream \<Rightarrow> wStream option" where
  "per_write_numeric_loop num_str i len s =
     (if i < len then do {
        c1 \<leftarrow> mem_read num_str i 1;
        c2 \<leftarrow> (if i + 1 < len then mem_read num_str (i + 1) 1 else Some [0x30]);
        s \<leftarrow> Stream_Write_UINT8 s (push_bit 4 (per_digit (c1 ! 0)) OR per_digit (c2 ! 0));
        per_write_numeric_loop num_str (i + 2) len s }
      else Some s)"
  by pat_completeness auto
termination
  by (relation "measure (\<lambda>(num_str, i, len, s). len - i)") auto

declare per_write_numeric_loop.simps [simp del]

definition per_write_numeric_string :: "wStream \<Rightarrow> byte list \<Rightarrow> int \<Rightarrow> int \<Rightarrow> wStream option" where
  "per_write_numeric_string s num_str len mn = do {
     let mlength = (if len - mn \<ge> 0 then len - mn else mn);
     s \<leftarrow> per_write_length s mlength;
     per_write_numeric_loop num_str 0 (nat len) s }"

subsection \<open>Readers stay inside the stream\<close>

lemma Stream_Seek_int_nonneg [simp]: "0 \<le> n \<Longrightarrow> Stream_Seek_int s n = Stream_Seek s (nat n)"
  by (simp add: Stream_Seek_int_def Stream_Seek_def nat_add_distrib)

lemma safe_per_read_length [safe_intros]: "reader_safe n per_read_length"
  unfolding per_read_length_def [abs_def] Let_def
  by (intro safe_intros) auto

lemma safe_per_one_byte [safe_intros]:
  "reader_safe n per_read_choice" "reader_safe n per_read_selection" "reader_safe n per_read_number_of_sets"
  unfolding per_read_choice_def [abs_def] per_read_selection_def [abs_def] per_read_number_of_sets_def [abs_def]
  by (intro safe_intros; auto)+

lemma safe_per_read_padding [safe_intros]:
  assumes "0 \<le> len"
  shows "reader_safe n (per_read_padding len)"
  unfolding per_read_padding_def [abs_def]
  by (rule safe_check_int, simp add: assms) (intro safe_intros, simp)

lemma safe_per_read_integer [safe_intros]: "reader_safe n per_read_integer"
  unfolding per_read_integer_def
  by (intro safe_intros) auto

lemma safe_per_read_integer16_dest [safe_intros]: "reader_safe n (per_read_integer16_dest mn st)"
  unfolding per_read_integer16_dest_def [abs_def]
  by (intro safe_intros) auto

lemma safe_per_read_integer16 [safe_intros]: "reader_safe n (per_read_integer16 mn)"
  unfolding per_read_integer16_def [abs_def]
  by (rule safe_bind) (intro safe_intros)+

lemma safe_per_read_enumerated [safe_intros]: "reader_safe n (per_read_enumerated count)"
  unfolding per_read_enumerated_def [abs_def]
  by (intro safe_intros) auto

lemma safe_per_read_object_identifier [safe_intros]: "reader_safe n (per_read_object_identifier oid)"
  unfolding per_read_object_identifier_def
  by (intro safe_intros) auto

lemma c_div_2_nonneg: "0 \<le> a \<Longrightarrow> c_div a 2 = a div 2"
  by (cases "a = 0") (simp_all add: c_div_def)

lemma safe_per_read_numeric_string [safe_intros]:
  assumes "0 \<le> mn"
  shows "reader_safe n (per_read_numeric_string mn)"
  unfolding per_read_numeric_string_def Let_def
proof (intro safe_intros)
  fix x :: u16
  have "0 \<le> c_div (uint x + mn + 1) 2" using assms by (simp add: c_div_2_nonneg)
  then show "reader_safe 0 (\<lambda>s. if c_int (Stream_GetRemainingLength s) < c_div (uint x + mn + 1) 2
      then Some (None, s) else Some (Some (), Stream_Seek_int s (c_div (uint x + mn + 1) 2)))"
    by (intro safe_check_int, simp) (intro safe_intros, simp)
qed

lemma per_compare_loop_Some:
  "i + n \<le> length a \<Longrightarrow> i + n \<le> length b \<Longrightarrow>
     per_compare_loop a b i n = Some (take n (drop i a) = take n (drop i b))"
proof (induction n arbitrary: i)
  case 0
  then show ?case by simp
next
  case (Suc n)
  have "drop i a = a ! i # drop (Suc i) a" "drop i b = b ! i # drop (Suc i) b"
    using Suc.prems by (simp_all add: Cons_nth_drop_Suc)
  with Suc show ?case by (auto simp: mem_read_def)
qed

lemma safe_per_read_octet_string [safe_intros]:
  assumes "0 \<le> len" "nat len \<le> length oct_str"
  shows "reader_safe n (per_read_octet_string oct_str len mn)"
  unfolding per_read_octet_string_def
proof (intro safe_intros safe_check_int)
  fix x :: u16
  show "reader_safe (max 0 (nat len)) (\<lambda>s. do {
       let a_oct_str = drop (s_pointer s) (s_buffer s);
       let s = Stream_Seek_int s len;
       same \<leftarrow> per_compare_loop a_oct_str oct_str 0 (nat len);
       Some (if same then Some () else None, s) })"
    using assms by (intro reader_safeI) (auto simp: per_compare_loop_Some length_ahead Stream_wf_def)
qed

subsection \<open>Wire forms and codecs\<close>

definition per_length_bytes :: "u16 \<Rightarrow> byte list" where
  "per_length_bytes v = (if v > 0x7F then be_bytes16 (v OR 0x8000) else [ucast v])"

lemma per_write_length_put [wire_simps]:
  assumes "Stream_room s (length (per_length_bytes v))"
  shows "per_write_length s (uint v) = Some (Stream_put (per_length_bytes v) s)"
proof -
  have "(word_of_int (uint v OR 0x8000) :: u16) = v OR 0x8000"
    by (rule bit_word_eqI) (simp add: bit_simps)
  then show ?thesis using assms
    by (auto simp: per_write_length_def per_length_bytes_def Write_UINT_put word_less_def split: if_splits)
qed

lemma per_read_length_enc [wire_simps]:
  assumes "v < 0x8000" "Stream_wf s" "ahead s = per_length_bytes v @ rest"
  shows "per_read_length s = Some (Some v, Stream_Seek s (length (per_length_bytes v)))"
proof (cases "v > 0x7F")
  case True
  let ?b0 = "ucast (drop_bit 8 (v OR 0x8000) AND 0xFF) :: byte"
    and ?b1 = "ucast ((v OR 0x8000) AND 0xFF) :: byte"
  have a: "ahead s = ?b0 # ?b1 # rest"
    using True assms(3) by (simp add: per_length_bytes_def be_bytes16_def)
  have wf: "Stream_wf (Stream_Seek s 1)" using assms(2) a by (auto intro: Stream_wf_Seek)
  have r0: "Stream_Read_UINT8 s = Some (?b0, Stream_Seek s 1)" using assms(2) a by (rule Read_UINT8_ahead)
  have r1: "Stream_Read_UINT8 (Stream_Seek s 1) = Some (?b1, Stream_Seek s 2)"
    using Read_UINT8_ahead [OF wf, of ?b1 rest] a by (simp add: small_numerals)
  have l: "\<not> Stream_GetRemainingLength s < 1" "\<not> Stream_GetRemainingLength (Stream_Seek s 1) < 1"
    using a Remaining_ahead [OF assms(2)] Remaining_ahead [OF wf] by simp_all
  show ?thesis
    unfolding per_read_length_def Let_def using r0 r1 l marked_high_byte [of v] join_marked_16 [OF assms(1)] True
    by (simp add: per_length_bytes_def)
next
  case False
  then have a: "ahead s = ucast v # rest" using assms(3) by (simp add: per_length_bytes_def)
  have u: "unat v < 0x80" using False by (simp add: word_less_nat_alt)
  have "(ucast v :: byte) AND 0x80 = 0"
    using u by (simp add: byte_high_bit unsigned_ucast_eq unsigned_take_bit_eq take_bit_nat_eq_self)
  moreover have "(ucast (ucast v :: byte) :: u16) = v"
    using u by (simp add: word_unat_eq_iff unsigned_ucast_eq unsigned_take_bit_eq take_bit_nat_eq_self)
  ultimately show ?thesis using False a assms(2)
    by (simp add: per_read_length_def Remaining_ahead Read_UINT8_ahead per_length_bytes_def)
qed

interpretation per_length: wire_codec per_length_bytes "\<lambda>v. v < 0x8000"
  "\<lambda>v s. per_write_length s (uint v)" per_read_length
  by unfold_locales (auto simp: per_write_length_put per_read_length_enc intro: safe_intros)

interpretation per_choice: wire_codec "\<lambda>b. [b]" "\<lambda>_. True" "\<lambda>b s. per_write_choice s b" per_read_choice
  by unfold_locales (auto simp: per_write_choice_def per_read_choice_def Write_UINT_put Remaining_ahead
      Read_UINT8_ahead intro: safe_intros)

interpretation per_selection: wire_codec "\<lambda>b. [b]" "\<lambda>_. True" "\<lambda>b s. per_write_selection s b" per_read_selection
  by unfold_locales (auto simp: per_write_selection_def per_read_selection_def Write_UINT_put Remaining_ahead
      Read_UINT8_ahead intro: safe_intros)

interpretation per_number_of_sets: wire_codec "\<lambda>b. [b]" "\<lambda>_. True"
  "\<lambda>b s. per_write_number_of_sets s b" per_read_number_of_sets
  by unfold_locales (auto simp: per_write_number_of_sets_def per_read_number_of_sets_def Write_UINT_put
      Remaining_ahead Read_UINT8_ahead intro: safe_intros)

interpretation per_enumerated: wire_codec "\<lambda>e. [e]" "\<lambda>e. e < count"
  "\<lambda>e s. per_write_enumerated s e count" "per_read_enumerated count" for count
  by unfold_locales (auto simp: per_write_enumerated_def per_read_enumerated_def Write_UINT_put
      Remaining_ahead Read_UINT8_ahead word_less_def intro: safe_intros)

lemma integer16_offset:
  assumes "(mn :: u16) \<le> v"
  shows "uint (v - mn) + uint mn \<le> 0xFFFF"
proof -
  have "uint (v - mn) = uint v - uint mn" using assms by (simp add: uint_minus_simple_alt)
  then show ?thesis using uint_lt2p [of v] by simp
qed

lemma per_read_integer16_dest_enc [wire_simps]:
  assumes "mn \<le> v" "Stream_wf s" "ahead s = be_bytes16 (v - mn) @ rest"
  shows "per_read_integer16_dest mn st s = Some ((True, v), Stream_Seek s 2)"
  using assms integer16_offset [of mn v]
  by (simp add: per_read_integer16_dest_def Remaining_ahead Read_UINT16_BE_enc not_less)

interpretation per_integer16: wire_codec "\<lambda>v. be_bytes16 (v - mn)" "\<lambda>v. mn \<le> v"
  "\<lambda>v s. per_write_integer16 s v mn" "per_read_integer16 mn" for mn
  by unfold_locales (auto simp: per_write_integer16_def per_read_integer16_def Write_UINT_put
      per_read_integer16_dest_enc intro: safe_intros)

definition per_integer_bytes :: "u32 \<Rightarrow> byte list" where
  "per_integer_bytes v = (if v \<le> 0xFF then [1, ucast v] else 2 # be_bytes16 (ucast v))"


lemma per_read_length_small:
  assumes "n = 1 \<or> n = 2 \<or> n = 4 \<or> n = 5" "Stream_wf s" "ahead s = word_of_nat n # rest"
  shows "per_read_length s = Some (Some (word_of_nat n), Stream_Seek s 1)"
  using assms per_read_length_enc [of "word_of_nat n" s rest]
  by (auto simp: per_length_bytes_def)

lemma ucast_id_per:
  "v \<le> 0xFF \<Longrightarrow> (ucast (ucast v :: byte) :: u32) = v"
  "v \<le> 0xFFFF \<Longrightarrow> (ucast (ucast v :: u16) :: u32) = v"
  by (simp_all add: word_le_nat_alt word_unat_eq_iff unsigned_ucast_eq unsigned_take_bit_eq take_bit_nat_eq_self)

lemma per_write_length_small:
  "Stream_room s 1 \<Longrightarrow> 0 \<le> n \<Longrightarrow> n \<le> 0x7F \<Longrightarrow> per_write_length s n = Some (Stream_put [word_of_int n] s)"
  by (simp add: per_write_length_def Write_UINT_put)

interpretation per_integer: wire_codec per_integer_bytes "\<lambda>v. v \<le> 0xFFFF"
  "\<lambda>v s. per_write_integer s v" per_read_integer
proof unfold_locales
  fix v s assume "v \<le> (0xFFFF :: u32)" "Stream_room s (length (per_integer_bytes v))"
  then show "per_write_integer s v = Some (Stream_put (per_integer_bytes v) s)"
    by (auto simp: per_write_integer_def per_integer_bytes_def per_write_length_small Write_UINT_put split: if_splits)
next
  fix v s rest
  assume v: "v \<le> (0xFFFF :: u32)" and s: "Stream_wf s" "ahead s = per_integer_bytes v @ rest"
  have wf: "Stream_wf (Stream_Seek s 1)" using s by (auto simp: per_integer_bytes_def intro: Stream_wf_Seek split: if_splits)
  show "per_read_integer s = Some (Some v, Stream_Seek s (length (per_integer_bytes v)))"
  proof (cases "v \<le> 0xFF")
    case True
    then have a: "ahead s = 1 # ucast v # rest" using s by (simp add: per_integer_bytes_def)
    from per_read_length_small [of 1, OF _ s(1)] a
    show ?thesis using True wf a Read_UINT8_ahead [OF wf, of "ucast v" rest] Remaining_ahead [OF wf]
      by (simp add: per_read_integer_def per_integer_bytes_def ucast_id_per)
  next
    case False
    then have a: "ahead s = 2 # be_bytes16 (ucast v) @ rest" using s by (simp add: per_integer_bytes_def)
    from per_read_length_small [of 2, OF _ s(1)] a
    show ?thesis using False v wf a Read_UINT16_BE_enc [OF wf, of "ucast v" rest] Remaining_ahead [OF wf]
      by (simp add: per_read_integer_def per_integer_bytes_def ucast_id_per) (simp add: small_numerals)
  qed
qed (rule safe_per_read_integer)

text \<open>
  A value that needs more than two bytes is written in the four-byte form, which
  the reader rejects.
\<close>

lemma per_integer_wide_rejected:
  assumes "v > 0xFFFF" "Stream_wf s" "ahead s = 4 # be_bytes32 v @ rest"
  shows "per_read_integer s = Some (None, Stream_Seek s 1)"
proof -
  have wf: "Stream_wf (Stream_Seek s 1)" using assms by (auto intro: Stream_wf_Seek)
  show ?thesis using per_read_length_small [of 4, OF _ assms(2)] assms(3) Remaining_ahead [OF wf]
    by (simp add: per_read_integer_def)
qed

lemma per_write_integer_wide:
  assumes "v > 0xFFFF" "Stream_room s 5"
  shows "per_write_integer s v = Some (Stream_put (4 # be_bytes32 v) s)"
proof -
  have "unat v < 2 ^ 32" using unsigned_less [of v] by simp
  then have "\<not> v \<le> 0xFFFF" "\<not> v \<le> 0xFF" "v \<le> 0xFFFFFFFF"
    using assms(1) by (simp_all add: word_le_nat_alt word_less_nat_alt)
  with assms(2) show ?thesis
    by (simp add: per_write_integer_def per_write_length_small Write_UINT32_BE_put)
qed

text \<open>
  The first byte of an object identifier is computed with \<open>&\<close> where \<open>|\<close> is meant:
  it is always zero, whatever the identifier.
\<close>

lemma oid_first_byte_zero: "push_bit 4 (a :: byte) AND (b AND 0x0F) = 0"
proof -
  have "(0x0F :: byte) = mask 4" by (simp add: mask_eq_exp_minus_1)
  then have "b AND 0x0F = take_bit 4 b" by (simp only: take_bit_eq_mask)
  then show ?thesis by (simp only:) (rule bit_word_eqI, auto simp: bit_simps)
qed

lemma per_write_object_identifier_put:
  assumes "Stream_room s 6"
  shows "per_write_object_identifier s oid = Some (Stream_put [5, 0, oid ! 2, oid ! 3, oid ! 4, oid ! 5] s)"
  using assms by (simp add: per_write_object_identifier_def oid_first_byte_zero Write_UINT_put)

lemma per_read_object_identifier_bytes:
  assumes "Stream_wf s" "ahead s = [5, t, a, b, c, d] @ rest"
  shows "per_read_object_identifier oid s =
     Some (if [drop_bit 4 t, t AND 0x0F, a, b, c, d] = oid then Some () else None, Stream_Seek s 6)"
proof -
  have wf: "Stream_wf (Stream_Seek s n)" if "n \<le> 6" for n
    using assms that by (auto intro: Stream_wf_Seek)
  have rd: "Stream_Read_UINT8 (Stream_Seek s n) = Some (([5, t, a, b, c, d] @ rest) ! n, Stream_Seek s (Suc n))"
    if "n < 6" for n
    using Read_UINT8_ahead [OF wf [of n]] that assms(2)
    by (simp add: Cons_nth_drop_Suc [symmetric] del: Cons_nth_drop_Suc)
  show ?thesis
    using per_read_length_small [of 5, OF _ assms(1)] assms(2) Remaining_ahead [OF wf [of 1]]
      rd [of 1] rd [of 2] rd [of 3] rd [of 4] rd [of 5]
    by (simp add: per_read_object_identifier_def) (simp add: small_numerals)
qed

subsection \<open>Strings and padding\<close>

lemma per_write_padding_put [wire_simps]:
  "Stream_room s (nat len) \<Longrightarrow> per_write_padding s len = Some (Stream_put (replicate (nat len) 0) s)"
proof -
  have "Stream_room s n \<Longrightarrow> per_write_padding_loop n s = Some (Stream_put (replicate n 0) s)" for n
    by (induction n arbitrary: s) (simp_all add: Write_UINT_put)
  then show "Stream_room s (nat len) \<Longrightarrow> ?thesis" by (simp add: per_write_padding_def)
qed

lemma per_write_bytes_loop_put:
  "i + n \<le> length str \<Longrightarrow> Stream_room s n \<Longrightarrow>
     per_write_bytes_loop str i n s = Some (Stream_put (take n (drop i str)) s)"
proof (induction n arbitrary: i s)
  case 0
  then show ?case by simp
next
  case (Suc n)
  have "drop i str = str ! i # drop (Suc i) str" using Suc.prems by (simp add: Cons_nth_drop_Suc)
  with Suc show ?case by (simp add: mem_read_def Write_UINT_put)
qed

lemma per_string_length:
  assumes "length str - nat mn < 0x8000" "0 \<le> mn" "mn \<le> int (length str)"
  shows "(word_of_nat (length str - nat mn) :: u16) < 0x8000"
    "uint (word_of_nat (length str - nat mn) :: u16) + mn = int (length str)"
proof -
  define k where "k = length str - nat mn"
  have k: "k < 0x8000" "int k + mn = int (length str)" using assms unfolding k_def by linarith+
  have u: "uint (word_of_nat k :: u16) = int k" "unat (word_of_nat k :: u16) = k"
    using k(1) by (simp_all add: unsigned_of_nat take_bit_nat_eq_self)
  show "(word_of_nat (length str - nat mn) :: u16) < 0x8000"
    "uint (word_of_nat (length str - nat mn) :: u16) + mn = int (length str)"
    using k u by (simp_all add: word_less_nat_alt flip: k_def)
qed

text \<open>An octet string written with minimum \<open>mn\<close> is accepted by the reader that expects it.\<close>

lemma per_octet_string_accepted:
  assumes len: "length str - nat mn < 0x8000" "0 \<le> mn" "mn \<le> int (length str)"
    and s: "Stream_wf s" "ahead s = per_length_bytes (word_of_nat (length str - nat mn)) @ str @ rest"
  shows "per_read_octet_string str (int (length str)) mn s =
     Some (Some (), Stream_Seek s (length (per_length_bytes (word_of_nat (length str - nat mn))) + length str))"
proof -
  let ?m = "word_of_nat (length str - nat mn) :: u16"
  let ?t = "Stream_Seek s (length (per_length_bytes ?m))"
  have m: "?m < 0x8000" "uint ?m + mn = int (length str)"
    using per_string_length [OF len] .
  have r: "per_read_length s = Some (Some ?m, ?t)"
    using per_read_length_enc [OF m(1) s(1)] s(2) by simp
  have wf: "Stream_wf ?t" and a: "ahead ?t = str @ rest"
    using s by (auto intro: Stream_wf_Seek)
  have d: "per_compare_loop (drop (s_pointer ?t) (s_buffer ?t)) str 0 (length str) = Some True"
    using take_drop_append_eq [OF a [unfolded ahead_def]] wf a length_ahead [OF wf]
    by (subst per_compare_loop_Some) (auto simp: Stream_wf_def)
  have "length (ahead ?t) = length str + length rest" unfolding a by simp
  then have "\<not> c_int (Stream_GetRemainingLength ?t) < int (length str)"
    using ahead_bound [OF wf] unfolding Remaining_ahead [OF wf] by (subst c_int_small) linarith+
  with r m(2) d show ?thesis by (simp add: per_read_octet_string_def)
qed

lemma per_write_octet_string_put:
  assumes "length str - nat mn < 0x8000" "0 \<le> mn" "mn \<le> int (length str)"
    and "Stream_room s (length (per_length_bytes (word_of_nat (length str - nat mn))) + length str)"
  shows "per_write_octet_string s str (int (length str)) mn =
     Some (Stream_put (per_length_bytes (word_of_nat (length str - nat mn)) @ str) s)"
proof -
  let ?m = "word_of_nat (length str - nat mn) :: u16"
  have m: "int (length str) - mn = uint ?m"
    using per_string_length(2) [OF assms(1-3)] by linarith
  have "per_write_length s (uint ?m) = Some (Stream_put (per_length_bytes ?m) s)"
    using assms(4) by (intro per_write_length_put) simp
  then show ?thesis using assms(3,4)
    by (simp add: per_write_octet_string_def m per_write_bytes_loop_put)
qed

text \<open>
  A numeric string packs two digits per byte: \<open>(length + 1) / 2\<close> bytes follow the
  length, which is what the reader skips.
\<close>

lemma per_write_numeric_loop_put:
  "i \<le> len \<Longrightarrow> len \<le> length str \<Longrightarrow> Stream_room s ((len - i + 1) div 2) \<Longrightarrow>
     \<exists>bs. per_write_numeric_loop str i len s = Some (Stream_put bs s) \<and> length bs = (len - i + 1) div 2"
proof (induction "len - i" arbitrary: i s rule: less_induct)
  case less
  show ?case
  proof (cases "i < len")
    case False
    with less.prems show ?thesis
      by (subst per_write_numeric_loop.simps) (auto intro!: exI [of _ "[]"])
  next
    case True
    define b where "b = push_bit 4 (per_digit (str ! i)) OR per_digit (if i + 1 < len then str ! (i + 1) else 0x30)"
    have room: "Stream_room s 1" using True less.prems(3) by auto
    have step: "per_write_numeric_loop str i len s = per_write_numeric_loop str (i + 2) len (Stream_put [b] s)"
      using True less.prems(1,2) room unfolding b_def
      by (subst per_write_numeric_loop.simps) (auto simp: mem_read_def Write_UINT_put hd_drop_conv_nth)
    show ?thesis
    proof (cases "i + 2 \<le> len")
      case two: True
      have "\<exists>bs. per_write_numeric_loop str (i + 2) len (Stream_put [b] s) = Some (Stream_put bs (Stream_put [b] s))
          \<and> length bs = (len - (i + 2) + 1) div 2"
        using two less.prems room by (intro less.hyps) auto
      then obtain bs where bs: "per_write_numeric_loop str (i + 2) len (Stream_put [b] s) = Some (Stream_put bs (Stream_put [b] s))"
          "length bs = (len - (i + 2) + 1) div 2" by blast
      with step two room show ?thesis by (intro exI [of _ "b # bs"]) auto
    next
      case one: False
      then have "per_write_numeric_loop str (i + 2) len (Stream_put [b] s) = Some (Stream_put [b] s)"
        by (subst per_write_numeric_loop.simps) simp
      with step one True show ?thesis by (intro exI [of _ "[b]"]) auto
    qed
  qed
qed

lemma per_numeric_string_skipped:
  assumes "length str < 0x8000" "0 \<le> mn" "mn \<le> int (length str)"
    and "Stream_wf s" "length bs = (length str + 1) div 2"
    and "ahead s = per_length_bytes (word_of_nat (length str - nat mn)) @ bs @ rest"
  shows "per_read_numeric_string mn s =
     Some (Some (), Stream_Seek s (length (per_length_bytes (word_of_nat (length str - nat mn))) + length bs))"
proof -
  let ?m = "word_of_nat (length str - nat mn) :: u16"
  let ?t = "Stream_Seek s (length (per_length_bytes ?m))"
  have m: "?m < 0x8000" "uint ?m + mn = int (length str)"
    using per_string_length [of str mn] assms(1-3) by simp_all
  have r: "per_read_length s = Some (Some ?m, ?t)"
    using per_read_length_enc [OF m(1) assms(4)] assms(6) by simp
  have wf: "Stream_wf ?t" and a: "ahead ?t = bs @ rest"
    using assms(4,6) by (auto intro: Stream_wf_Seek)
  have c: "c_div (uint ?m + mn + 1) 2 = int (length bs)"
    using m(2) assms(5) by (simp add: c_div_2_nonneg)
  have "length (ahead ?t) = length bs + length rest" unfolding a by simp
  then have "\<not> c_int (Stream_GetRemainingLength ?t) < int (length bs)"
    using ahead_bound [OF wf] unfolding Remaining_ahead [OF wf] by (subst c_int_small) linarith+
  with r c show ?thesis by (simp add: per_read_numeric_string_def)
qed

subsection \<open>Properties\<close>

text \<open>
  PER integers: any sequence of values up to 0xFFFF written with \<open>per_write_integer\<close>
  is read back in order by \<open>per_read_integer\<close>.
\<close>

theorem per_integer_sequence_roundtrip:
  assumes "list_all (\<lambda>v. v \<le> 0xFFFF) vs" "Stream_room s (length (concat (map per_integer_bytes vs)))"
    and "length (s_buffer s) < 2 ^ 31" "s_capacity s = length (s_buffer s)"
  shows "\<exists>s'. write_all (\<lambda>v s. per_write_integer s v) vs s = Some s' \<and>
    read_all per_read_integer (length vs) (Stream_SetPosition (Stream_SealLength s') (s_pointer s)) =
      Some (Some vs, Stream_SealLength s')"
  by (rule per_integer.sequence_roundtrip [OF assms])

theorem per_integer_sequence_roundtrip_witness:
  "\<exists>s'. write_all (\<lambda>v s. per_write_integer s v) [0, 0xFF, 0x100, 0xFFFF]
      \<lparr>s_buffer = replicate 16 0, s_pointer = 0, s_length = 16, s_capacity = 16, s_count = 0, s_pool = None\<rparr> = Some s' \<and>
    read_all per_read_integer (length [0, 0xFF, 0x100, 0xFFFF :: u32]) (Stream_SetPosition (Stream_SealLength s') 0) =
      Some (Some [0, 0xFF, 0x100, 0xFFFF], Stream_SealLength s')"
  using per_integer_sequence_roundtrip [of "[0, 0xFF, 0x100, 0xFFFF]"
      "\<lparr>s_buffer = replicate 16 0, s_pointer = 0, s_length = 16, s_capacity = 16, s_count = 0, s_pool = None\<rparr>"]
  by (simp add: per_integer_bytes_def)

text \<open>
  PER integers above 0xFFFF: \<open>per_write_integer\<close> writes them in the four-byte form,
  and \<open>per_read_integer\<close> rejects that form.
\<close>

theorem per_integer_wide_not_readable:
  assumes "v > 0xFFFF" "Stream_room s 5" "length (s_buffer s) < 2 ^ 31" "s_capacity s = length (s_buffer s)"
  shows "\<exists>s'. per_write_integer s v = Some s' \<and>
    fst (the (per_read_integer (Stream_SetPosition (Stream_SealLength s') (s_pointer s)))) = None"
proof -
  let ?s' = "Stream_put (4 # be_bytes32 v) s"
  let ?t = "Stream_SetPosition (Stream_SealLength ?s') (s_pointer s)"
  have "Stream_wf ?t" using assms(2-4)
    by (simp add: Stream_wf_def Stream_SetPosition_def Stream_SealLength_def)
  moreover have "ahead ?t = 4 # be_bytes32 v @ []" using assms(2) by (subst ahead_put) simp_all
  ultimately show ?thesis
    using per_integer_wide_rejected [OF assms(1)] per_write_integer_wide [OF assms(1,2)] by fastforce
qed

theorem per_integer_wide_not_readable_witness:
  "\<exists>s'. per_write_integer
      \<lparr>s_buffer = replicate 5 0, s_pointer = 0, s_length = 5, s_capacity = 5, s_count = 0, s_pool = None\<rparr> 0x10000 = Some s' \<and>
    fst (the (per_read_integer (Stream_SetPosition (Stream_SealLength s') 0))) = None"
  using per_integer_wide_not_readable [of "0x10000"
      "\<lparr>s_buffer = replicate 5 0, s_pointer = 0, s_length = 5, s_capacity = 5, s_count = 0, s_pool = None\<rparr>"]
  by simp

text \<open>
  PER readers stay inside the stream: on every well-formed stream, whatever its bytes,
  each reader returns, touches no memory outside the buffer, and leaves the cursor inside
  the length; the readers that compare or skip by a caller's minimum need it to be
  non-negative, and the octet string to be as long as announced.
\<close>

theorem per_readers_safe:
  assumes "0 \<le> mn" "0 \<le> len" "nat len \<le> length oct_str"
  shows "reader_safe 0 per_read_length \<and> reader_safe 0 per_read_choice \<and> reader_safe 0 per_read_selection \<and>
   reader_safe 0 per_read_number_of_sets \<and> reader_safe 0 (per_read_padding mn) \<and> reader_safe 0 per_read_integer \<and>
   reader_safe 0 (per_read_integer16 m) \<and> reader_safe 0 (per_read_enumerated count) \<and>
   reader_safe 0 (per_read_object_identifier oid) \<and> reader_safe 0 (per_read_octet_string oct_str len mn) \<and>
   reader_safe 0 (per_read_numeric_string mn)"
  using assms by (intro conjI safe_intros) auto

theorem per_readers_safe_witness:
  "reader_safe 0 (per_read_octet_string [0x44, 0x75, 0x63, 0x61] 4 4) \<and> reader_safe 0 (per_read_numeric_string 1)"
  using per_readers_safe [of 4 4 "[0x44, 0x75, 0x63, 0x61]"] per_readers_safe [of 1 0 "[]"] by simp

text \<open>
  PER object identifiers: \<open>per_write_object_identifier\<close> writes 0 for the byte that
  carries the first two arcs, whatever they are, so the reader accepts what was written
  exactly when both arcs are 0.
\<close>

theorem per_object_identifier_arcs_lost:
  assumes "length oid = 6" "Stream_room s 6" "length (s_buffer s) < 2 ^ 31" "s_capacity s = length (s_buffer s)"
  shows "\<exists>s'. per_write_object_identifier s oid = Some s' \<and>
    (fst (the (per_read_object_identifier oid (Stream_SetPosition (Stream_SealLength s') (s_pointer s)))) = Some ()
      \<longleftrightarrow> oid ! 0 = 0 \<and> oid ! 1 = 0)"
proof -
  let ?W = "[5, 0, oid ! 2, oid ! 3, oid ! 4, oid ! 5]"
  let ?t = "Stream_SetPosition (Stream_SealLength (Stream_put ?W s)) (s_pointer s)"
  have "Stream_wf ?t" using assms(2-4)
    by (simp add: Stream_wf_def Stream_SetPosition_def Stream_SealLength_def)
  moreover have "ahead ?t = ?W @ []" using assms(2) by (subst ahead_put) simp_all
  ultimately have r: "per_read_object_identifier oid ?t =
      Some (if [drop_bit 4 0, 0 AND 0x0F, oid ! 2, oid ! 3, oid ! 4, oid ! 5] = oid then Some () else None, Stream_Seek ?t 6)"
    by (rule per_read_object_identifier_bytes)
  have "oid = [oid ! 0, oid ! 1, oid ! 2, oid ! 3, oid ! 4, oid ! 5]"
    using assms(1) by (intro nth_equalityI) (auto simp: less_Suc_eq numeral_nat nth_Cons')
  then have "[drop_bit 4 0, 0 AND 0x0F, oid ! 2, oid ! 3, oid ! 4, oid ! 5] = oid \<longleftrightarrow> oid ! 0 = 0 \<and> oid ! 1 = 0"
    by (metis (no_types, opaque_lifting) and_zero_eq zero_and_eq drop_bit_of_0 list.inject)
  with r show ?thesis using per_write_object_identifier_put [OF assms(2), of oid]
    by (intro exI [of _ "Stream_put ?W s"]) simp
qed

theorem per_object_identifier_arcs_lost_witness:
  "\<exists>s'. per_write_object_identifier
      \<lparr>s_buffer = replicate 6 0, s_pointer = 0, s_length = 6, s_capacity = 6, s_count = 0, s_pool = None\<rparr>
      [0, 0, 20, 124, 0, 1] = Some s' \<and>
    fst (the (per_read_object_identifier [0, 0, 20, 124, 0, 1] (Stream_SetPosition (Stream_SealLength s') 0))) = Some ()"
  using per_object_identifier_arcs_lost [of "[0, 0, 20, 124, 0, 1]"
      "\<lparr>s_buffer = replicate 6 0, s_pointer = 0, s_length = 6, s_capacity = 6, s_count = 0, s_pool = None\<rparr>"]
  by simp

end
