(* ===== verification/Tpdu.thy ===== *)
theory Tpdu
  imports WStream
begin

text \<open>
  The two outer headers of every RDP message: TPKT (\<open>libfreerdp/core/tpkt.c\<close>) and
  X.224 TPDU (\<open>libfreerdp/core/tpdu.c\<close>). Each writer is matched with its reader
  by an interpretation of \<open>wire_codec\<close>; the TPKT reader checks no length, so its
  precondition (four bytes ahead) is part of its contract.
\<close>

unbundle bit_operations_syntax

subsection \<open>TPKT\<close>

definition TPKT_HEADER_LENGTH :: nat where
  "TPKT_HEADER_LENGTH = 4"

definition tpkt_verify_header :: "wStream \<Rightarrow> bool option" where
  "tpkt_verify_header s = do {
     version \<leftarrow> Stream_Peek_UINT8 s;
     Some (version = 3) }"

definition tpkt_read_header :: "wStream \<Rightarrow> (u16 \<times> wStream) option" where
  "tpkt_read_header s = do {
     version \<leftarrow> Stream_Peek_UINT8 s;
     (if version = 3 then Stream_Read_UINT16_BE (Stream_Seek s 2)
      else Some (0, s)) }"

definition tpkt_write_header :: "wStream \<Rightarrow> u16 \<Rightarrow> wStream option" where
  "tpkt_write_header s len = do {
     s \<leftarrow> Stream_Write_UINT8 s 3;
     s \<leftarrow> Stream_Write_UINT8 s 0;
     Stream_Write_UINT16_BE s len }"

subsection \<open>TPDU\<close>

definition X224_TPDU_CONNECTION_REQUEST :: byte where "X224_TPDU_CONNECTION_REQUEST = 0xE0"
definition X224_TPDU_CONNECTION_CONFIRM :: byte where "X224_TPDU_CONNECTION_CONFIRM = 0xD0"
definition X224_TPDU_DISCONNECT_REQUEST :: byte where "X224_TPDU_DISCONNECT_REQUEST = 0x80"
definition X224_TPDU_DATA :: byte where "X224_TPDU_DATA = 0xF0"
definition X224_TPDU_ERROR :: byte where "X224_TPDU_ERROR = 0x70"

lemmas x224_codes = X224_TPDU_CONNECTION_REQUEST_def X224_TPDU_CONNECTION_CONFIRM_def
  X224_TPDU_DISCONNECT_REQUEST_def X224_TPDU_DATA_def X224_TPDU_ERROR_def

definition TPDU_DATA_HEADER_LENGTH :: nat where "TPDU_DATA_HEADER_LENGTH = 3"
definition TPDU_CONNECTION_REQUEST_HEADER_LENGTH :: nat where "TPDU_CONNECTION_REQUEST_HEADER_LENGTH = 7"
definition TPDU_CONNECTION_CONFIRM_HEADER_LENGTH :: nat where "TPDU_CONNECTION_CONFIRM_HEADER_LENGTH = 7"

definition TPDU_DATA_LENGTH :: nat where
  "TPDU_DATA_LENGTH = TPKT_HEADER_LENGTH + TPDU_DATA_HEADER_LENGTH"

definition TPDU_CONNECTION_REQUEST_LENGTH :: nat where
  "TPDU_CONNECTION_REQUEST_LENGTH = TPKT_HEADER_LENGTH + TPDU_CONNECTION_REQUEST_HEADER_LENGTH"

definition TPDU_CONNECTION_CONFIRM_LENGTH :: nat where
  "TPDU_CONNECTION_CONFIRM_LENGTH = TPKT_HEADER_LENGTH + TPDU_CONNECTION_CONFIRM_HEADER_LENGTH"

lemmas tpdu_lengths = TPKT_HEADER_LENGTH_def TPDU_DATA_HEADER_LENGTH_def
  TPDU_CONNECTION_REQUEST_HEADER_LENGTH_def TPDU_CONNECTION_CONFIRM_HEADER_LENGTH_def
  TPDU_DATA_LENGTH_def TPDU_CONNECTION_REQUEST_LENGTH_def TPDU_CONNECTION_CONFIRM_LENGTH_def

text \<open>The output is the pair \<open>(code, li)\<close>.\<close>

definition tpdu_read_header :: "(byte \<times> byte) reader" where
  "tpdu_read_header s =
     (if Stream_GetRemainingLength s < 3 then Some (None, s)
      else do {
        (li, s) \<leftarrow> Stream_Read_UINT8 s;
        (code, s) \<leftarrow> Stream_Read_UINT8 s;
        (if code = X224_TPDU_DATA then Some (Some (code, li), Stream_Seek s 1)
         else let (ok, s) = Stream_SafeSeek s 5 in
           Some (if ok then Some (code, li) else None, s)) })"

definition tpdu_write_header :: "wStream \<Rightarrow> u16 \<Rightarrow> byte \<Rightarrow> wStream option" where
  "tpdu_write_header s len code = do {
     s \<leftarrow> Stream_Write_UINT8 s (ucast len);
     s \<leftarrow> Stream_Write_UINT8 s code;
     (if code = X224_TPDU_DATA then Stream_Write_UINT8 s 0x80
      else do {
        s \<leftarrow> Stream_Write_UINT16 s 0;
        s \<leftarrow> Stream_Write_UINT16 s 0;
        Stream_Write_UINT8 s 0 }) }"

definition tpdu_read_connection_request :: "byte reader" where
  "tpdu_read_connection_request = or_fail tpdu_read_header (\<lambda>(code, li) s.
     if code \<noteq> X224_TPDU_CONNECTION_REQUEST then Some (None, s) else Some (Some li, s))"

definition tpdu_write_connection_request :: "wStream \<Rightarrow> u16 \<Rightarrow> wStream option" where
  "tpdu_write_connection_request s len = tpdu_write_header s len X224_TPDU_CONNECTION_REQUEST"

definition tpdu_read_connection_confirm :: "byte reader" where
  "tpdu_read_connection_confirm s = (let position = c_int (Stream_GetPosition s) in
     or_fail tpdu_read_header (\<lambda>(code, li) s.
       if code \<noteq> X224_TPDU_CONNECTION_CONFIRM then Some (None, s)
       else let bytes_read = c_int (size_sub (size_sub (Stream_GetPosition s) (size_of_int position)) 1) in
         Some (if Stream_GetRemainingLength s \<ge> size_of_int (uint li - bytes_read) then Some li else None, s)) s)"

definition tpdu_write_connection_confirm :: "wStream \<Rightarrow> u16 \<Rightarrow> wStream option" where
  "tpdu_write_connection_confirm s len = tpdu_write_header s len X224_TPDU_CONNECTION_CONFIRM"

definition tpdu_write_disconnect_request :: "wStream \<Rightarrow> u16 \<Rightarrow> wStream option" where
  "tpdu_write_disconnect_request s len = tpdu_write_header s len X224_TPDU_DISCONNECT_REQUEST"

definition tpdu_write_data :: "wStream \<Rightarrow> wStream option" where
  "tpdu_write_data s = tpdu_write_header s 2 X224_TPDU_DATA"

definition tpdu_read_data :: "u16 reader" where
  "tpdu_read_data = or_fail tpdu_read_header (\<lambda>(code, li) s.
     if code \<noteq> X224_TPDU_DATA then Some (None, s) else Some (Some (ucast li), s))"

subsection \<open>TPKT header on the wire\<close>

definition tpkt_bytes :: "u16 \<Rightarrow> byte list" where
  "tpkt_bytes len = [3, 0] @ be_bytes16 len"

lemma length_tpkt_bytes [simp]: "length (tpkt_bytes len) = 4"
  by (simp add: tpkt_bytes_def)

lemma tpkt_write_header_put [wire_simps]:
  "Stream_room s 4 \<Longrightarrow> tpkt_write_header s len = Some (Stream_put (tpkt_bytes len) s)"
  by (simp add: tpkt_write_header_def Write_UINT_put tpkt_bytes_def)

lemma tpkt_read_header_enc [wire_simps]:
  assumes "Stream_wf s" "ahead s = tpkt_bytes len @ rest"
  shows "tpkt_read_header s = Some (len, Stream_Seek s 4)"
proof -
  have "Stream_wf (Stream_Seek s 2)" using assms by (intro Stream_wf_Seek) (simp_all add: tpkt_bytes_def)
  then show ?thesis using assms Read_UINT16_BE_enc [of "Stream_Seek s 2" len rest]
    by (simp add: tpkt_read_header_def tpkt_bytes_def Peek_UINT8_ahead)
qed

text \<open>The TPKT reader needs four bytes ahead; given them it never leaves the stream.\<close>

lemma tpkt_read_header_safe:
  assumes "Stream_wf s" "4 \<le> length (ahead s)"
  shows "\<exists>len m. tpkt_read_header s = Some (len, Stream_Seek s m) \<and> m \<le> 4"
proof -
  have "Stream_wf (Stream_Seek s 2)" "2 \<le> length (ahead (Stream_Seek s 2))"
    using assms by (auto intro: Stream_wf_Seek)
  from mem_read_ahead [OF this] mem_read_ahead [OF assms(1), of 1] assms(2)
  show ?thesis
    by (auto simp: tpkt_read_header_def Stream_Peek_UINT8_def Stream_Read_UINT16_BE_def)
      (metis Stream_Seek_0 le0)
qed

subsection \<open>TPDU headers on the wire\<close>

definition tpdu_bytes :: "byte \<times> byte \<Rightarrow> byte list" where
  "tpdu_bytes = (\<lambda>(code, li). [li, code] @ (if code = X224_TPDU_DATA then [0x80] else [0, 0, 0, 0, 0]))"

lemma length_tpdu_bytes: "length (tpdu_bytes (code, li)) = (if code = X224_TPDU_DATA then 3 else 7)"
  by (simp add: tpdu_bytes_def)

lemma le_bytes16_0 [simp]: "le_bytes16 0 = [0, 0]"
  by (simp add: le_bytes16_def)

lemma tpdu_write_header_put [wire_simps]:
  assumes "Stream_room s (length (tpdu_bytes (code, ucast len)))"
  shows "tpdu_write_header s len code = Some (Stream_put (tpdu_bytes (code, ucast len)) s)"
  using assms
  by (simp add: tpdu_write_header_def Write_UINT_put tpdu_bytes_def split: if_splits)

text \<open>The reader with its calls of \<open>Stream_Seek\<close> made explicit, for the safety rules.\<close>

lemma tpdu_read_header_alt:
  "tpdu_read_header = (\<lambda>s. if Stream_GetRemainingLength s < 3 then Some (None, s)
      else do {
        (li, s) \<leftarrow> Stream_Read_UINT8 s;
        (code, s) \<leftarrow> Stream_Read_UINT8 s;
        (if code = X224_TPDU_DATA then Some (Some (code, li), Stream_Seek s 1)
         else if Stream_GetRemainingLength s < 5 then Some (None, s)
         else Some (Some (code, li), Stream_Seek s 5)) })"
proof -
  have *: "(if a then b else let (ok, s) = Stream_SafeSeek s 5 in Some (if ok then v else None, s))
    = (if a then b else if Stream_GetRemainingLength s < 5 then Some (None, s) else Some (v, Stream_Seek s 5))"
    for a b s and v :: "(byte \<times> byte) option"
    by (simp add: Stream_SafeSeek_def)
  show ?thesis by (rule ext) (simp only: tpdu_read_header_def *)
qed

lemma safe_tpdu_read_header [safe_intros]: "reader_safe 0 tpdu_read_header"
  unfolding tpdu_read_header_alt
  by (intro safe_intros safe_seek [where k = "\<lambda>s. Some (r, s)" for r]) auto

interpretation tpdu_header: wire_codec tpdu_bytes "\<lambda>_. True"
  "\<lambda>(code, li) s. tpdu_write_header s (ucast li) code" tpdu_read_header
proof unfold_locales
  fix x :: "byte \<times> byte" and s
  assume "Stream_room s (length (tpdu_bytes x))"
  then show "(case x of (code, li) \<Rightarrow> \<lambda>s. tpdu_write_header s (ucast li) code) s = Some (Stream_put (tpdu_bytes x) s)"
    using tpdu_write_header_put [of s "fst x" "ucast (snd x)"]
    by (cases x) simp
next
  fix x s rest assume s: "Stream_wf s" and a: "ahead s = tpdu_bytes x @ rest"
  obtain code li where x: "x = (code, li)" by (cases x)
  have wf1: "Stream_wf (Stream_Seek s 1)" "Stream_wf (Stream_Seek s 2)"
    using s a x by (auto intro!: Stream_wf_Seek simp: tpdu_bytes_def)
  have "Stream_GetRemainingLength s \<ge> 3" "Stream_Read_UINT8 s = Some (li, Stream_Seek s 1)"
    "Stream_Read_UINT8 (Stream_Seek s 1) = Some (code, Stream_Seek s 2)"
    using Read_UINT8_ahead [OF s] Read_UINT8_ahead [OF wf1(1)] a x
    by (auto simp: tpdu_bytes_def Remaining_ahead [OF s] numeral_2_eq_2 split: if_splits)
  moreover have "code \<noteq> X224_TPDU_DATA \<Longrightarrow> \<not> Stream_GetRemainingLength (Stream_Seek s 2) < 5"
    using a x by (simp add: Remaining_ahead [OF wf1(2)] tpdu_bytes_def)
  ultimately show "tpdu_read_header s = Some (Some x, Stream_Seek s (length (tpdu_bytes x)))"
    unfolding tpdu_read_header_alt x length_tpdu_bytes by simp
qed (rule safe_tpdu_read_header)

lemma safe_tpdu_read_connection_request [safe_intros]: "reader_safe 0 tpdu_read_connection_request"
  unfolding tpdu_read_connection_request_def split_def by (intro safe_intros)

lemma safe_tpdu_read_data [safe_intros]: "reader_safe 0 tpdu_read_data"
  unfolding tpdu_read_data_def split_def by (intro safe_intros)

lemma confirm_length_test:
  assumes rest: "n < 2 ^ 31"
  shows "(n \<ge> size_of_int (uint (li :: byte) - 6)) = (6 \<le> unat li \<and> unat li \<le> 6 + n)"
proof -
  have li: "uint li = int (unat li)" "unat li < 256" using unsigned_less [of li] by simp_all
  show ?thesis
  proof (cases "6 \<le> unat li")
    case True
    moreover have "size_of_int (int k - 6) = k - 6" if "6 \<le> k" "k < 256" for k :: nat
      using that by simp
    then have "size_of_int (uint li - 6) = unat li - 6"
      unfolding li(1) using True li(2) by blast
    ultimately show ?thesis by auto
  next
    case False
    then have "size_of_int (uint li - 6) \<ge> 2 ^ 63" using li
      by (intro size_of_int_neg) (linarith, simp)
    then show ?thesis using False rest by simp
  qed
qed

text \<open>
  The length test of the connection confirm: the TPDU is accepted exactly when its
  length indicator covers the six bytes already read after it and no more than
  what is left in the stream.
\<close>

lemma tpdu_read_connection_confirm_eq:
  assumes s: "Stream_wf s" and a: "ahead s = tpdu_bytes (X224_TPDU_CONNECTION_CONFIRM, li) @ rest"
  shows "tpdu_read_connection_confirm s =
     Some (if 6 \<le> unat li \<and> unat li \<le> 6 + length rest then Some li else None, Stream_Seek s 7)"
proof -
  have r: "tpdu_read_header s = Some (Some (X224_TPDU_CONNECTION_CONFIRM, li), Stream_Seek s 7)"
    using tpdu_header.read_enc [OF _ s a] by (simp add: length_tpdu_bytes x224_codes)
  have wf: "Stream_wf (Stream_Seek s 7)" using s a
    by (intro Stream_wf_Seek) (simp_all add: length_tpdu_bytes x224_codes)
  have p: "s_pointer s < 2 ^ 31" using s by (simp add: Stream_wf_def)
  have six: "c_int (size_sub (size_sub (s_pointer s + 7) (size_of_int (c_int (s_pointer s)))) 1) = 6"
    using p by simp
  have rem: "Stream_GetRemainingLength (Stream_Seek s 7) = length rest"
    using a by (simp add: Remaining_ahead [OF wf] length_tpdu_bytes x224_codes)
  have rest: "length rest < 2 ^ 31" using ahead_bound [OF wf] a
    by (simp add: length_tpdu_bytes x224_codes)
  have "(length rest \<ge> size_of_int (uint li - 6)) = (6 \<le> unat li \<and> unat li \<le> 6 + length rest)"
    using rest by (rule confirm_length_test)
  then show ?thesis using r six rem
    by (simp add: tpdu_read_connection_confirm_def Stream_GetPosition_def)
qed

text \<open>The two readers on an arbitrary well-formed stream.\<close>

lemma tpdu_read_header_cases:
  assumes s: "Stream_wf s"
  shows "(\<exists>m. tpdu_read_header s = Some (None, Stream_Seek s m) \<and> m \<le> length (ahead s)) \<or>
    (\<exists>code li. 3 \<le> length (ahead s) \<and> ahead s ! 0 = li \<and> ahead s ! 1 = code \<and>
       (if code = X224_TPDU_DATA then tpdu_read_header s = Some (Some (code, li), Stream_Seek s 3)
        else 7 \<le> length (ahead s) \<and> tpdu_read_header s = Some (Some (code, li), Stream_Seek s 7)))"
proof (cases "length (ahead s) < 3")
  case True
  then show ?thesis using s by (auto simp: tpdu_read_header_alt Remaining_ahead intro: exI [of _ 0])
next
  case False
  then obtain li code x rest where a: "ahead s = li # code # x # rest"
    by (metis One_nat_def Suc_leI length_Cons less_Suc_eq list.exhaust list.size(3) not_less numeral_3_eq_3)
  have wf: "Stream_wf (Stream_Seek s 1)" "Stream_wf (Stream_Seek s 2)" using s a by (auto intro: Stream_wf_Seek)
  have r: "Stream_Read_UINT8 s = Some (li, Stream_Seek s 1)" "Stream_Read_UINT8 (Stream_Seek s 1) = Some (code, Stream_Seek s 2)"
    "Stream_GetRemainingLength (Stream_Seek s 2) = Suc (length rest)"
    using s a wf Read_UINT8_ahead [of "Stream_Seek s 1" code "x # rest"]
    by (simp_all add: Read_UINT8_ahead Remaining_ahead numeral_2_eq_2)
  show ?thesis
  proof (cases "code = X224_TPDU_DATA")
    case True
    then show ?thesis using r a s by (intro disjI2) (simp add: tpdu_read_header_alt Remaining_ahead)
  next
    case code: False
    show ?thesis
    proof (cases "length rest < 4")
      case True
      then show ?thesis using r a s code
        by (intro disjI1 exI [of _ 2]) (simp add: tpdu_read_header_alt Remaining_ahead)
    next
      case False
      then show ?thesis using r a s code
        by (intro disjI2) (simp add: tpdu_read_header_alt Remaining_ahead)
    qed
  qed
qed

lemma tpdu_confirm_cases:
  assumes s: "Stream_wf s"
  obtains (refused) m where "tpdu_read_connection_confirm s = Some (None, Stream_Seek s m)" "m \<le> length (ahead s)"
  | (accepted) li where "tpdu_read_connection_confirm s = Some (Some li, Stream_Seek s 7)"
      "7 \<le> length (ahead s)" "ahead s ! 0 = li" "6 \<le> unat li" "unat li + 1 \<le> length (ahead s)"
proof (cases "tpdu_read_header s = Some (Some (X224_TPDU_CONNECTION_CONFIRM, ahead s ! 0), Stream_Seek s 7) \<and> 7 \<le> length (ahead s)")
  case True
  let ?li = "ahead s ! 0"
  have wf: "Stream_wf (Stream_Seek s 7)" using s True by (auto intro: Stream_wf_Seek)
  have p: "s_pointer s < 2 ^ 31" using s by (simp add: Stream_wf_def)
  have six: "c_int (size_sub (size_sub (s_pointer s + 7) (size_of_int (c_int (s_pointer s)))) 1) = 6"
    using p by simp
  have rest: "length (ahead s) < 2 ^ 31" by (rule ahead_bound [OF s])
  have eq: "(length (ahead s) - 7 \<ge> size_of_int (uint ?li - 6)) = (6 \<le> unat ?li \<and> unat ?li \<le> 6 + (length (ahead s) - 7))"
    using rest by (intro confirm_length_test) simp
  have "tpdu_read_connection_confirm s =
      Some (if 6 \<le> unat ?li \<and> unat ?li \<le> 6 + (length (ahead s) - 7) then Some ?li else None, Stream_Seek s 7)"
    using True six eq by (simp add: tpdu_read_connection_confirm_def Stream_GetPosition_def Remaining_ahead [OF wf])
  with True that(2) [of ?li] that(1) [of 7] show thesis by (cases "6 \<le> unat ?li \<and> unat ?li \<le> 6 + (length (ahead s) - 7)") auto
next
  case False
  then show thesis
    using tpdu_read_header_cases [OF s] that(1)
    by (auto simp: tpdu_read_connection_confirm_def x224_codes split: if_splits)
qed

subsection \<open>Properties\<close>

text \<open>
  Connection confirm: the TPKT and TPDU headers that \<open>tpkt_write_header\<close> and
  \<open>tpdu_write_connection_confirm\<close> write are read back, the TPKT length unchanged; the TPDU
  is accepted exactly when its length indicator covers the six header bytes behind it and
  not more than the bytes that follow.
\<close>

theorem tpdu_connection_confirm_roundtrip:
  assumes "Stream_room s (11 + length rest)" "length (s_buffer s) < 2 ^ 31" "s_capacity s = length (s_buffer s)"
  shows "\<exists>s1 s2 s3 t. tpkt_write_header s len = Some s1 \<and> tpdu_write_connection_confirm s1 (ucast li) = Some s2 \<and>
    Stream_Write s2 rest = Some s3 \<and> t = Stream_SetPosition (Stream_SealLength s3) (s_pointer s) \<and>
    tpkt_read_header t = Some (len, Stream_Seek t 4) \<and>
    tpdu_read_connection_confirm (Stream_Seek t 4) =
      Some (if 6 \<le> unat li \<and> unat li \<le> 6 + length rest then Some li else None, Stream_Seek t 11)"
proof -
  let ?T = "tpkt_bytes len" and ?C = "tpdu_bytes (X224_TPDU_CONNECTION_CONFIRM, li)"
  let ?s3 = "Stream_put (?T @ ?C @ rest) s"
  let ?t = "Stream_SetPosition (Stream_SealLength ?s3) (s_pointer s)"
  have C: "length ?C = 7" by (simp add: length_tpdu_bytes x224_codes)
  have w: "tpkt_write_header s len = Some (Stream_put ?T s)"
    "tpdu_write_connection_confirm (Stream_put ?T s) (ucast li) = Some (Stream_put (?T @ ?C) s)"
    "Stream_Write (Stream_put (?T @ ?C) s) rest = Some ?s3"
    using assms(1) C tpdu_write_header_put [of "Stream_put ?T s" X224_TPDU_CONNECTION_CONFIRM "ucast li"]
    by (simp_all add: tpkt_write_header_put tpdu_write_connection_confirm_def Stream_Write_put)
  have wf: "Stream_wf ?t" using assms C
    by (simp add: Stream_wf_def Stream_SetPosition_def Stream_SealLength_def)
  have a: "ahead ?t = ?T @ ?C @ rest" using assms(1) C by (subst ahead_put) simp_all
  have wf4: "Stream_wf (Stream_Seek ?t 4)" using wf a by (intro Stream_wf_Seek) simp_all
  have "tpkt_read_header ?t = Some (len, Stream_Seek ?t 4)" using tpkt_read_header_enc [OF wf a] .
  moreover have "tpdu_read_connection_confirm (Stream_Seek ?t 4) =
      Some (if 6 \<le> unat li \<and> unat li \<le> 6 + length rest then Some li else None, Stream_Seek ?t 11)"
    using tpdu_read_connection_confirm_eq [OF wf4, of li rest] a by simp
  ultimately show ?thesis using w by blast
qed

theorem tpdu_connection_confirm_roundtrip_witness:
  "\<exists>s1 s2 s3 t. tpkt_write_header
      \<lparr>s_buffer = replicate 20 0, s_pointer = 0, s_length = 20, s_capacity = 20, s_count = 0, s_pool = None\<rparr> 19 = Some s1 \<and>
    tpdu_write_connection_confirm s1 (ucast (14 :: byte)) = Some s2 \<and>
    Stream_Write s2 [2, 0, 8, 0, 1, 0, 0, 0] = Some s3 \<and> t = Stream_SetPosition (Stream_SealLength s3) 0 \<and>
    tpkt_read_header t = Some (19, Stream_Seek t 4) \<and>
    tpdu_read_connection_confirm (Stream_Seek t 4) = Some (Some 14, Stream_Seek t 11)"
  using tpdu_connection_confirm_roundtrip [of
      "\<lparr>s_buffer = replicate 20 0, s_pointer = 0, s_length = 20, s_capacity = 20, s_count = 0, s_pool = None\<rparr>"
      "[2, 0, 8, 0, 1, 0, 0, 0]" 19 14]
  by simp

end
