(* ===== verification/Mcs.thy ===== *)
theory Mcs
  imports Ber Per Tpdu
begin

text \<open>
  T.125 Multipoint Communication Service (\<open>libfreerdp/core/mcs.c\<close>): domain
  parameters and their merging, Connect-Initial and Connect-Response, and the
  domain PDUs of the connection sequence (erect domain, attach user, channel join,
  disconnect ultimatum), each with its sender and its receiver.

  The transport and the GCC layer are parameters: \<open>transport_write\<close> takes the
  finished stream and a state \<open>'e\<close> of the environment and returns the status and
  the new state; the GCC functions that fill or read the user data are arguments of
  the Connect PDUs. \<open>al i\<close> are the two allocations of the \<open>i\<close>-th \<open>Stream_New\<close> of a call.
\<close>

unbundle bit_operations_syntax

subsection \<open>State\<close>

record DomainParameters =
  maxChannelIds :: u32
  maxUserIds :: u32
  maxTokenIds :: u32
  numPriorities :: u32
  minThroughput :: u32
  maxHeight :: u32
  maxMCSPDUsize :: u32
  protocolVersion :: u32

record rdpMcsChannel =
  chan_Name :: "byte list"
  chan_options :: u32
  chan_ChannelId :: int
  chan_joined :: bool

record rdpMcs =
  userId :: u16
  baseChannelId :: u16
  messageChannelId :: u16
  domainParameters :: DomainParameters
  targetParameters :: DomainParameters
  minimumParameters :: DomainParameters
  maximumParameters :: DomainParameters
  userChannelJoined :: bool
  globalChannelJoined :: bool
  messageChannelJoined :: bool
  channelCount :: u32
  channelMaxCount :: u32
  channels :: "rdpMcsChannel list"

text \<open>The part of the settings that MCS reads: the static channels asked for.\<close>

record mcs_settings =
  ChannelCount :: u32
  ChannelDefArray :: "(byte list \<times> u32) list"

type_synonym stream_alloc = "nat \<Rightarrow> alloc \<times> alloc"
type_synonym 'e transport = "wStream \<Rightarrow> 'e \<Rightarrow> int \<times> 'e"

abbreviation (input) "MCS_BASE_CHANNEL_ID \<equiv> (1001 :: u16)"
abbreviation (input) "MCS_GLOBAL_CHANNEL_ID \<equiv> (1003 :: u16)"
abbreviation (input) "CHANNEL_MAX_COUNT \<equiv> (30 :: u32)"
abbreviation (input) "MCS_TYPE_CONNECT_INITIAL \<equiv> (0x65 :: byte)"
abbreviation (input) "MCS_TYPE_CONNECT_RESPONSE \<equiv> (0x66 :: byte)"
abbreviation (input) "MCS_Result_enum_length \<equiv> (16 :: byte)"
abbreviation (input) "DomainMCSPDU_ErectDomainRequest \<equiv> (1 :: byte)"
abbreviation (input) "DomainMCSPDU_DisconnectProviderUltimatum \<equiv> (8 :: byte)"
abbreviation (input) "DomainMCSPDU_AttachUserRequest \<equiv> (10 :: byte)"
abbreviation (input) "DomainMCSPDU_AttachUserConfirm \<equiv> (11 :: byte)"
abbreviation (input) "DomainMCSPDU_ChannelJoinRequest \<equiv> (14 :: byte)"
abbreviation (input) "DomainMCSPDU_ChannelJoinConfirm \<equiv> (15 :: byte)"

definition stream_new :: "stream_alloc \<Rightarrow> nat \<Rightarrow> nat \<Rightarrow> wStream option" where
  "stream_new al i sz = Stream_New (fst (al i)) (snd (al i)) None sz"

subsection \<open>Channels\<close>

abbreviation zero_channel :: rdpMcsChannel where
  "zero_channel \<equiv> \<lparr>chan_Name = replicate 8 0, chan_options = 0, chan_ChannelId = 0, chan_joined = False\<rparr>"

fun mcs_channels_loop :: "(byte list \<times> u32) list \<Rightarrow> nat \<Rightarrow> nat \<Rightarrow> rdpMcsChannel list \<Rightarrow> rdpMcsChannel list option" where
  "mcs_channels_loop defs index 0 chans = Some chans"
| "mcs_channels_loop defs index (Suc n) chans =
     (if index < length defs \<and> index < length chans
      then mcs_channels_loop defs (Suc index) n
        (chans[index := (chans ! index)\<lparr>chan_Name := take 8 (fst (defs ! index)), chan_options := snd (defs ! index)\<rparr>])
      else None)"

definition mcs_initialize_client_channels :: "'m rdpMcs_scheme \<Rightarrow> 's mcs_settings_scheme \<Rightarrow> 'm rdpMcs_scheme option" where
  "mcs_initialize_client_channels mcs settings = do {
     let count = (if ChannelCount settings > channelMaxCount mcs then channelMaxCount mcs else ChannelCount settings);
     chans \<leftarrow> mem_write (channels mcs) 0 (replicate (unat (channelMaxCount mcs)) zero_channel);
     chans \<leftarrow> mcs_channels_loop (ChannelDefArray settings) 0 (unat count) chans;
     Some (mcs\<lparr>channelCount := count, channels := chans\<rparr>) }"

subsection \<open>Header of the domain PDUs\<close>

definition mcs_read_domain_mcspdu_header :: "byte \<Rightarrow> (byte \<times> u16) reader" where
  "mcs_read_domain_mcspdu_header MCSPDU s = do {
     (len, s) \<leftarrow> tpkt_read_header s;
     or_fail tpdu_read_data (\<lambda>li.
     or_fail per_read_choice (\<lambda>choice s.
       let domainMCSPDU = drop_bit 2 choice in
       if domainMCSPDU \<noteq> MCSPDU then Some (None, s) else Some (Some (domainMCSPDU, len), s))) s }"

definition mcs_write_domain_mcspdu_header :: "wStream \<Rightarrow> byte \<Rightarrow> u16 \<Rightarrow> byte \<Rightarrow> wStream option" where
  "mcs_write_domain_mcspdu_header s domainMCSPDU len options = do {
     s \<leftarrow> tpkt_write_header s len;
     s \<leftarrow> tpdu_write_data s;
     per_write_choice s (push_bit 2 domainMCSPDU OR options) }"

subsection \<open>Domain parameters\<close>

definition mcs_init_domain_parameters :: "u32 \<Rightarrow> u32 \<Rightarrow> u32 \<Rightarrow> u32 \<Rightarrow> DomainParameters" where
  "mcs_init_domain_parameters channelIds userIds tokenIds pdusize =
     \<lparr>maxChannelIds = channelIds, maxUserIds = userIds, maxTokenIds = tokenIds, numPriorities = 1,
      minThroughput = 0, maxHeight = 1, maxMCSPDUsize = pdusize, protocolVersion = 2\<rparr>"

definition mcs_read_domain_parameters :: "DomainParameters step" where
  "mcs_read_domain_parameters =
     and_also (read_into ber_read_sequence_tag (\<lambda>_ d. d))
     (and_also (read_into ber_read_integer (\<lambda>v d. d\<lparr>maxChannelIds := v\<rparr>))
     (and_also (read_into ber_read_integer (\<lambda>v d. d\<lparr>maxUserIds := v\<rparr>))
     (and_also (read_into ber_read_integer (\<lambda>v d. d\<lparr>maxTokenIds := v\<rparr>))
     (and_also (read_into ber_read_integer (\<lambda>v d. d\<lparr>numPriorities := v\<rparr>))
     (and_also (read_into ber_read_integer (\<lambda>v d. d\<lparr>minThroughput := v\<rparr>))
     (and_also (read_into ber_read_integer (\<lambda>v d. d\<lparr>maxHeight := v\<rparr>))
     (and_also (read_into ber_read_integer (\<lambda>v d. d\<lparr>maxMCSPDUsize := v\<rparr>))
       (read_into ber_read_integer (\<lambda>v d. d\<lparr>protocolVersion := v\<rparr>)))))))))"

definition mcs_write_domain_parameters :: "stream_alloc \<Rightarrow> wStream \<Rightarrow> DomainParameters \<Rightarrow> (bool \<times> wStream) option" where
  "mcs_write_domain_parameters al s d =
     (case stream_new al 0 (Stream_Capacity s) of
        None \<Rightarrow> Some (False, s)
      | Some tmps \<Rightarrow> do {
          (_, tmps) \<leftarrow> ber_write_integer tmps (maxChannelIds d);
          (_, tmps) \<leftarrow> ber_write_integer tmps (maxUserIds d);
          (_, tmps) \<leftarrow> ber_write_integer tmps (maxTokenIds d);
          (_, tmps) \<leftarrow> ber_write_integer tmps (numPriorities d);
          (_, tmps) \<leftarrow> ber_write_integer tmps (minThroughput d);
          (_, tmps) \<leftarrow> ber_write_integer tmps (maxHeight d);
          (_, tmps) \<leftarrow> ber_write_integer tmps (maxMCSPDUsize d);
          (_, tmps) \<leftarrow> ber_write_integer tmps (protocolVersion d);
          let len = Stream_GetPosition tmps;
          (_, s) \<leftarrow> ber_write_sequence_tag s (c_int len);
          bs \<leftarrow> mem_read (s_buffer tmps) 0 len;
          s \<leftarrow> Stream_Write s bs;
          Some (True, s) })"

text \<open>
  The merge of the server: the result is filled in field by field, and a field
  that cannot be agreed on makes the function return \<open>FALSE\<close> with the fields before
  it already written.
\<close>

definition mcs_merge_domain_parameters ::
  "DomainParameters \<Rightarrow> DomainParameters \<Rightarrow> DomainParameters \<Rightarrow> DomainParameters \<Rightarrow> bool \<times> DomainParameters" where
  "mcs_merge_domain_parameters target mnp mxp out0 = (
     if \<not> (maxChannelIds target \<ge> 4 \<or> maxChannelIds mxp \<ge> 4) then (False, out0)
     else let out1 = out0\<lparr>maxChannelIds := if maxChannelIds target \<ge> 4 then maxChannelIds target else 4\<rparr> in
     if \<not> (maxUserIds target \<ge> 3 \<or> maxUserIds mxp \<ge> 3) then (False, out1)
     else let out2 = out1\<lparr>maxUserIds := if maxUserIds target \<ge> 3 then maxUserIds target else 3\<rparr>;
              out3 = out2\<lparr>maxTokenIds := maxTokenIds target\<rparr> in
     if \<not> numPriorities mnp \<le> 1 then (False, out3)
     else let out4 = out3\<lparr>numPriorities := 1\<rparr>; out5 = out4\<lparr>minThroughput := minThroughput target\<rparr> in
     if \<not> (maxHeight target = 1 \<or> maxHeight mnp \<le> 1) then (False, out5)
     else let out6 = out5\<lparr>maxHeight := 1\<rparr> in
     case (if maxMCSPDUsize target \<ge> 1024
           then if maxMCSPDUsize target \<le> 65528 then Some (maxMCSPDUsize target)
                else if maxMCSPDUsize mnp \<ge> 124 \<and> maxMCSPDUsize mnp \<le> 65528 then Some 65528
                else None
           else if maxMCSPDUsize mxp \<ge> 124 then Some (maxMCSPDUsize mxp) else None) of
       None \<Rightarrow> (False, out6)
     | Some n \<Rightarrow> let out7 = out6\<lparr>maxMCSPDUsize := n\<rparr> in
         if protocolVersion target = 2 \<or> (protocolVersion mnp \<le> 2 \<and> protocolVersion mxp \<ge> 2)
         then (True, out7\<lparr>protocolVersion := 2\<rparr>) else (False, out7))"

subsection \<open>Connect-Initial and Connect-Response\<close>

text \<open>The test \<open>!ber_read_octet_string_tag (s, &length) || ((int) Stream_GetRemainingLength (s)) < length\<close>.\<close>

definition mcs_read_octet_string_header :: "int reader" where
  "mcs_read_octet_string_header = or_fail ber_read_octet_string_tag (\<lambda>len s.
     if c_int (Stream_GetRemainingLength s) < len then Some (None, s) else Some (Some len, s))"

definition mcs_skip_octet_string :: "unit reader" where
  "mcs_skip_octet_string = or_fail mcs_read_octet_string_header (\<lambda>len s.
     Some (Some (), Stream_Seek_int s len))"

text \<open>The fields of Connect-Initial behind its tag, up to the merge of the parameters.\<close>

definition mcs_recv_connect_initial_fields :: "'m rdpMcs_scheme step \<Rightarrow> 'm rdpMcs_scheme step" where
  "mcs_recv_connect_initial_fields gcc_read_conference_create_request =
     and_also (read_into mcs_skip_octet_string (\<lambda>_ m. m))
     (and_also (read_into mcs_skip_octet_string (\<lambda>_ m. m))
     (and_also (read_into ber_read_BOOL (\<lambda>_ m. m))
     (and_also (on_field targetParameters (\<lambda>d m. m\<lparr>targetParameters := d\<rparr>) mcs_read_domain_parameters)
     (and_also (on_field minimumParameters (\<lambda>d m. m\<lparr>minimumParameters := d\<rparr>) mcs_read_domain_parameters)
     (and_also (on_field maximumParameters (\<lambda>d m. m\<lparr>maximumParameters := d\<rparr>) mcs_read_domain_parameters)
     (and_also (read_into mcs_read_octet_string_header (\<lambda>_ m. m))
     (and_also gcc_read_conference_create_request
       (\<lambda>m s. let (ok, d) = mcs_merge_domain_parameters (targetParameters m) (minimumParameters m)
                 (maximumParameters m) (domainParameters m)
              in Some ((ok, m\<lparr>domainParameters := d\<rparr>), s)))))))))"

definition mcs_recv_connect_initial :: "'m rdpMcs_scheme step \<Rightarrow> 'm rdpMcs_scheme step" where
  "mcs_recv_connect_initial gcc_read_conference_create_request mcs s = do {
     (_, s) \<leftarrow> tpkt_read_header s;
     and_also (read_into tpdu_read_data (\<lambda>_ m. m))
     (and_also (read_into (ber_read_application_tag MCS_TYPE_CONNECT_INITIAL) (\<lambda>_ m. m))
       (mcs_recv_connect_initial_fields gcc_read_conference_create_request)) mcs s }"

definition callingDomainSelector :: "byte list" where "callingDomainSelector = [1]"
definition calledDomainSelector :: "byte list" where "calledDomainSelector = [1]"

text \<open>A call that writes and may return \<open>FALSE\<close>, followed by the rest (the source's \<open>goto out\<close>).\<close>

definition or_out :: "(bool \<times> wStream) option \<Rightarrow> wStream \<Rightarrow> (wStream \<Rightarrow> (bool \<times> wStream) option) \<Rightarrow> (bool \<times> wStream) option" where
  "or_out w s k = do { (ok, t) \<leftarrow> w; if ok then k t else Some (False, s) }"

text \<open>\<open>userData\<close> is the GCC stream; the part before its cursor is the user data.\<close>

definition mcs_write_connect_initial :: "stream_alloc \<Rightarrow> wStream \<Rightarrow> 'm rdpMcs_scheme \<Rightarrow> wStream \<Rightarrow> (bool \<times> wStream) option" where
  "mcs_write_connect_initial al s mcs userData =
     (case stream_new al 0 (Stream_Capacity s) of
        None \<Rightarrow> Some (False, s)
      | Some tmps \<Rightarrow> do {
          (_, tmps) \<leftarrow> ber_write_octet_string tmps callingDomainSelector;
          (_, tmps) \<leftarrow> ber_write_octet_string tmps calledDomainSelector;
          tmps \<leftarrow> ber_write_BOOL tmps True;
          or_out (mcs_write_domain_parameters (\<lambda>i. al (i + 1)) tmps (targetParameters mcs)) s (\<lambda>tmps.
          or_out (mcs_write_domain_parameters (\<lambda>i. al (i + 2)) tmps (minimumParameters mcs)) s (\<lambda>tmps.
          or_out (mcs_write_domain_parameters (\<lambda>i. al (i + 3)) tmps (maximumParameters mcs)) s (\<lambda>tmps. do {
            ud \<leftarrow> mem_read (s_buffer userData) 0 (Stream_GetPosition userData);
            (_, tmps) \<leftarrow> ber_write_octet_string tmps ud;
            let len = Stream_GetPosition tmps;
            s \<leftarrow> ber_write_application_tag s MCS_TYPE_CONNECT_INITIAL (c_int len);
            bs \<leftarrow> mem_read (s_buffer tmps) 0 len;
            s \<leftarrow> Stream_Write s bs;
            Some (True, s) }))) })"

definition mcs_write_connect_response :: "stream_alloc \<Rightarrow> wStream \<Rightarrow> 'm rdpMcs_scheme \<Rightarrow> wStream \<Rightarrow> (bool \<times> wStream) option" where
  "mcs_write_connect_response al s mcs userData =
     (case stream_new al 0 (Stream_Capacity s) of
        None \<Rightarrow> Some (False, s)
      | Some tmps \<Rightarrow> do {
          tmps \<leftarrow> ber_write_enumerated tmps 0 MCS_Result_enum_length;
          (_, tmps) \<leftarrow> ber_write_integer tmps 0;
          or_out (mcs_write_domain_parameters (\<lambda>i. al (i + 1)) tmps (domainParameters mcs)) s (\<lambda>tmps. do {
            ud \<leftarrow> mem_read (s_buffer userData) 0 (Stream_GetPosition userData);
            (_, tmps) \<leftarrow> ber_write_octet_string tmps ud;
            let len = Stream_GetPosition tmps;
            s \<leftarrow> ber_write_application_tag s MCS_TYPE_CONNECT_RESPONSE (c_int len);
            bs \<leftarrow> mem_read (s_buffer tmps) 0 len;
            s \<leftarrow> Stream_Write s bs;
            Some (True, s) }) })"

definition mcs_recv_connect_response :: "'m rdpMcs_scheme step \<Rightarrow> 'm rdpMcs_scheme step" where
  "mcs_recv_connect_response gcc_read_conference_create_response mcs s = do {
     (_, s) \<leftarrow> tpkt_read_header s;
     and_also (read_into tpdu_read_data (\<lambda>_ m. m))
     (and_also (read_into (ber_read_application_tag MCS_TYPE_CONNECT_RESPONSE) (\<lambda>_ m. m))
     (and_also (read_into (ber_read_enumerated MCS_Result_enum_length) (\<lambda>_ m. m))
     (and_also (read_into ber_read_integer (\<lambda>_ m. m))
     (and_also (on_field domainParameters (\<lambda>d m. m\<lparr>domainParameters := d\<rparr>) mcs_read_domain_parameters)
     (and_also (read_into ber_read_octet_string_tag (\<lambda>_ m. m))
       gcc_read_conference_create_response))))) mcs s }"

text \<open>
  The tail shared by the two senders of Connect PDUs: the stream of \<open>1024 + length\<close>
  bytes, seven bytes left for the headers, the PDU, the headers filled in
  afterwards, and the write to the transport.
\<close>

definition mcs_send_connect_pdu ::
  "'e transport \<Rightarrow> wStream option \<Rightarrow> (wStream \<Rightarrow> (bool \<times> wStream) option) \<Rightarrow> 'e \<Rightarrow> (bool \<times> 'e) option" where
  "mcs_send_connect_pdu transport_write new_s write_pdu e =
     (case new_s of
        None \<Rightarrow> Some (False, e)
      | Some s \<Rightarrow> do {
          let bm = Stream_GetPosition s;
          let s = Stream_Seek s 7;
          (ok, s) \<leftarrow> write_pdu s;
          (if \<not> ok then Some (False, e)
           else do {
             let em = Stream_GetPosition s;
             let len = c_int em - c_int bm;
             let s = Stream_SetPosition s bm;
             s \<leftarrow> tpkt_write_header s (word_of_int len);
             s \<leftarrow> tpdu_write_data s;
             let s = Stream_SealLength (Stream_SetPosition s em);
             let (status, e) = transport_write s e;
             Some (\<not> status < 0, e) }) })"

definition mcs_send_connect_initial ::
  "'e transport \<Rightarrow> ('m rdpMcs_scheme \<Rightarrow> wStream \<Rightarrow> ('m rdpMcs_scheme \<times> wStream) option) \<Rightarrow> (wStream \<Rightarrow> wStream \<Rightarrow> wStream option) \<Rightarrow>
   stream_alloc \<Rightarrow> 's mcs_settings_scheme \<Rightarrow> 'm rdpMcs_scheme \<Rightarrow> 'e \<Rightarrow> ((bool \<times> 'm rdpMcs_scheme) \<times> 'e) option" where
  "mcs_send_connect_initial transport_write gcc_write_client_data_blocks gcc_write_conference_create_request
     al settings mcs e = do {
     mcs \<leftarrow> mcs_initialize_client_channels mcs settings;
     (case stream_new al 0 512 of
        None \<Rightarrow> Some ((False, mcs), e)
      | Some client_data \<Rightarrow> do {
          (mcs, client_data) \<leftarrow> gcc_write_client_data_blocks mcs client_data;
          (case stream_new al 1 1024 of
             None \<Rightarrow> Some ((False, mcs), e)
           | Some gcc_CCrq \<Rightarrow> do {
               gcc_CCrq \<leftarrow> gcc_write_conference_create_request gcc_CCrq client_data;
               let len = Stream_GetPosition gcc_CCrq + 7;
               (ok, e) \<leftarrow> mcs_send_connect_pdu transport_write (stream_new al 2 (1024 + len))
                 (\<lambda>s. mcs_write_connect_initial (\<lambda>i. al (i + 3)) s mcs gcc_CCrq) e;
               Some ((ok, mcs), e) }) }) }"

definition mcs_send_connect_response ::
  "'e transport \<Rightarrow> ('m rdpMcs_scheme \<Rightarrow> wStream \<Rightarrow> ((bool \<times> 'm rdpMcs_scheme) \<times> wStream) option) \<Rightarrow> (wStream \<Rightarrow> wStream \<Rightarrow> wStream option) \<Rightarrow>
   stream_alloc \<Rightarrow> 'm rdpMcs_scheme \<Rightarrow> 'e \<Rightarrow> ((bool \<times> 'm rdpMcs_scheme) \<times> 'e) option" where
  "mcs_send_connect_response transport_write gcc_write_server_data_blocks gcc_write_conference_create_response
     al mcs e =
     (case stream_new al 0 512 of
        None \<Rightarrow> Some ((False, mcs), e)
      | Some server_data \<Rightarrow> do {
          ((ok, mcs), server_data) \<leftarrow> gcc_write_server_data_blocks mcs server_data;
          (if \<not> ok then Some ((False, mcs), e)
           else case stream_new al 1 (512 + Stream_Capacity server_data) of
             None \<Rightarrow> Some ((False, mcs), e)
           | Some gcc_CCrsp \<Rightarrow> do {
               gcc_CCrsp \<leftarrow> gcc_write_conference_create_response gcc_CCrsp server_data;
               let len = Stream_GetPosition gcc_CCrsp + 7;
               (ok, e) \<leftarrow> mcs_send_connect_pdu transport_write (stream_new al 2 (len + 1024))
                 (\<lambda>s. mcs_write_connect_response (\<lambda>i. al (i + 3)) s mcs gcc_CCrsp) e;
               Some ((ok, mcs), e) }) })"

subsection \<open>Domain PDUs of the connection sequence\<close>

text \<open>
  The senders share one frame: \<open>Stream_New (NULL, length)\<close>, the body, \<open>Stream_SealLength\<close>
  unless \<open>seal\<close> is off (the ultimatum), and the write to the transport.
\<close>

definition mcs_send_pdu ::
  "'e transport \<Rightarrow> stream_alloc \<Rightarrow> u16 \<Rightarrow> bool \<Rightarrow> (wStream \<Rightarrow> wStream option) \<Rightarrow> 'e \<Rightarrow> (bool \<times> 'e) option" where
  "mcs_send_pdu transport_write al len seal body e =
     (case stream_new al 0 (unat len) of
        None \<Rightarrow> Some (False, e)
      | Some s \<Rightarrow> do {
          s \<leftarrow> body s;
          let (status, e) = transport_write (if seal then Stream_SealLength s else s) e;
          Some (\<not> status < 0, e) })"

definition mcs_recv_erect_domain_request :: "unit reader" where
  "mcs_recv_erect_domain_request =
     or_fail (mcs_read_domain_mcspdu_header DomainMCSPDU_ErectDomainRequest) (\<lambda>_.
     or_fail per_read_integer (\<lambda>subHeight.
     or_fail per_read_integer (\<lambda>subInterval s. Some (Some (), s))))"

definition mcs_send_erect_domain_request :: "'e transport \<Rightarrow> stream_alloc \<Rightarrow> 'e \<Rightarrow> (bool \<times> 'e) option" where
  "mcs_send_erect_domain_request transport_write al = mcs_send_pdu transport_write al 12 True (\<lambda>s. do {
     s \<leftarrow> mcs_write_domain_mcspdu_header s DomainMCSPDU_ErectDomainRequest 12 0;
     s \<leftarrow> per_write_integer s 0;
     per_write_integer s 0 })"

definition mcs_recv_attach_user_request :: "unit reader" where
  "mcs_recv_attach_user_request =
     or_fail (mcs_read_domain_mcspdu_header DomainMCSPDU_AttachUserRequest) (\<lambda>_ s. Some (Some (), s))"

definition mcs_send_attach_user_request :: "'e transport \<Rightarrow> stream_alloc \<Rightarrow> 'e \<Rightarrow> (bool \<times> 'e) option" where
  "mcs_send_attach_user_request transport_write al = mcs_send_pdu transport_write al 8 True (\<lambda>s.
     mcs_write_domain_mcspdu_header s DomainMCSPDU_AttachUserRequest 8 0)"

definition mcs_recv_attach_user_confirm :: "'m rdpMcs_scheme step" where
  "mcs_recv_attach_user_confirm =
     and_also (read_into (mcs_read_domain_mcspdu_header DomainMCSPDU_AttachUserConfirm) (\<lambda>_ m. m))
     (and_also (read_into (per_read_enumerated MCS_Result_enum_length) (\<lambda>_ m. m))
       (on_field userId (\<lambda>u m. m\<lparr>userId := u\<rparr>) (per_read_integer16_dest MCS_BASE_CHANNEL_ID)))"

definition mcs_send_attach_user_confirm ::
  "'e transport \<Rightarrow> stream_alloc \<Rightarrow> 'm rdpMcs_scheme \<Rightarrow> 'e \<Rightarrow> ((bool \<times> 'm rdpMcs_scheme) \<times> 'e) option" where
  "mcs_send_attach_user_confirm transport_write al mcs e =
     (case stream_new al 0 11 of
        None \<Rightarrow> Some ((False, mcs), e)
      | Some s \<Rightarrow> do {
          let mcs = mcs\<lparr>userId := baseChannelId mcs, baseChannelId := baseChannelId mcs + 1\<rparr>;
          s \<leftarrow> mcs_write_domain_mcspdu_header s DomainMCSPDU_AttachUserConfirm 11 2;
          s \<leftarrow> per_write_enumerated s 0 MCS_Result_enum_length;
          s \<leftarrow> per_write_integer16 s (userId mcs) MCS_BASE_CHANNEL_ID;
          let (status, e) = transport_write (Stream_SealLength s) e;
          Some ((\<not> status < 0, mcs), e) })"

definition mcs_recv_channel_join_request :: "'m rdpMcs_scheme \<Rightarrow> u16 step" where
  "mcs_recv_channel_join_request mcs =
     and_also (read_into (mcs_read_domain_mcspdu_header DomainMCSPDU_ChannelJoinRequest) (\<lambda>_ c. c))
     (\<lambda>channelId s. do {
        (r, s) \<leftarrow> per_read_integer16 MCS_BASE_CHANNEL_ID s;
        (if r = Some (userId mcs) then per_read_integer16_dest 0 channelId s else Some ((False, channelId), s)) })"

definition mcs_send_channel_join_request ::
  "'e transport \<Rightarrow> stream_alloc \<Rightarrow> 'm rdpMcs_scheme \<Rightarrow> u16 \<Rightarrow> 'e \<Rightarrow> (bool \<times> 'e) option" where
  "mcs_send_channel_join_request transport_write al mcs channelId = mcs_send_pdu transport_write al 12 True (\<lambda>s. do {
     s \<leftarrow> mcs_write_domain_mcspdu_header s DomainMCSPDU_ChannelJoinRequest 12 0;
     s \<leftarrow> per_write_integer16 s (userId mcs) MCS_BASE_CHANNEL_ID;
     per_write_integer16 s channelId 0 })"

text \<open>The receiver of the join confirm combines its calls with \<open>&=\<close>: every call is made.\<close>

definition mcs_recv_channel_join_confirm :: "u16 step" where
  "mcs_recv_channel_join_confirm channelId s = do {
     (hdr, s) \<leftarrow> mcs_read_domain_mcspdu_header DomainMCSPDU_ChannelJoinConfirm s;
     (result, s) \<leftarrow> per_read_enumerated MCS_Result_enum_length s;
     (initiator, s) \<leftarrow> per_read_integer16 MCS_BASE_CHANNEL_ID s;
     (requested, s) \<leftarrow> per_read_integer16 0 s;
     (r, s) \<leftarrow> per_read_integer16_dest 0 channelId s;
     Some ((hdr \<noteq> None \<and> result \<noteq> None \<and> initiator \<noteq> None \<and> requested \<noteq> None \<and> fst r, snd r), s) }"

definition mcs_send_channel_join_confirm ::
  "'e transport \<Rightarrow> stream_alloc \<Rightarrow> 'm rdpMcs_scheme \<Rightarrow> u16 \<Rightarrow> 'e \<Rightarrow> (bool \<times> 'e) option" where
  "mcs_send_channel_join_confirm transport_write al mcs channelId = mcs_send_pdu transport_write al 15 True (\<lambda>s. do {
     s \<leftarrow> mcs_write_domain_mcspdu_header s DomainMCSPDU_ChannelJoinConfirm 15 2;
     s \<leftarrow> per_write_enumerated s 0 MCS_Result_enum_length;
     s \<leftarrow> per_write_integer16 s (userId mcs) MCS_BASE_CHANNEL_ID;
     s \<leftarrow> per_write_integer16 s channelId 0;
     per_write_integer16 s channelId 0 })"

definition mcs_recv_disconnect_provider_ultimatum :: "int reader" where
  "mcs_recv_disconnect_provider_ultimatum s =
     (if Stream_GetRemainingLength s < 1 then Some (None, s)
      else do {
        s \<leftarrow> Stream_Rewind s 1;
        (b1, s) \<leftarrow> Stream_Read_UINT8 s;
        (b2, s) \<leftarrow> Stream_Read_UINT8 s;
        Some (Some (uint (push_bit 1 (b1 AND 0x01) OR drop_bit 7 b2)), s) })"

definition mcs_send_disconnect_provider_ultimatum :: "'e transport \<Rightarrow> stream_alloc \<Rightarrow> 'e \<Rightarrow> (bool \<times> 'e) option" where
  "mcs_send_disconnect_provider_ultimatum transport_write al = mcs_send_pdu transport_write al 9 False (\<lambda>s. do {
     s \<leftarrow> mcs_write_domain_mcspdu_header s DomainMCSPDU_DisconnectProviderUltimatum 9 1;
     per_write_enumerated s 0x80 0 })"

definition mcs_new :: "bool \<Rightarrow> bool \<Rightarrow> rdpMcs option" where
  "mcs_new calloc_mcs calloc_channels =
     (if \<not> calloc_mcs then None
      else if \<not> calloc_channels then None
      else Some \<lparr>userId = 0, baseChannelId = MCS_GLOBAL_CHANNEL_ID + 1, messageChannelId = 0,
        domainParameters = mcs_init_domain_parameters 0 0 0 0xFFFF,
        targetParameters = mcs_init_domain_parameters 34 2 0 0xFFFF,
        minimumParameters = mcs_init_domain_parameters 1 1 1 0x420,
        maximumParameters = mcs_init_domain_parameters 0xFFFF 0xFC17 0xFFFF 0xFFFF,
        userChannelJoined = False, globalChannelJoined = False, messageChannelJoined = False,
        channelCount = 0, channelMaxCount = CHANNEL_MAX_COUNT,
        channels = replicate 30 zero_channel\<rparr>)"

subsection \<open>Receivers stay inside the stream\<close>

text \<open>
  Every receiver starts with \<open>tpkt_read_header\<close>, which checks no length: four bytes
  ahead are the precondition of all of them, and enough.
\<close>

lemma safe_tpkt_read_header: "reader_safe 4 tpkt_read_header"
proof (rule reader_safeI)
  fix s assume s: "Stream_wf s" "4 \<le> length (ahead s)"
  then show "\<exists>r m. tpkt_read_header s = Some (r, Stream_Seek s m) \<and> m \<le> length (ahead s)"
    using tpkt_read_header_safe [OF s] by (meson le_trans)
qed

lemma safe_mcs_header [safe_intros]: "reader_safe 4 (mcs_read_domain_mcspdu_header pdu)"
  unfolding mcs_read_domain_mcspdu_header_def [abs_def] Let_def
  by (rule safe_bind [OF safe_tpkt_read_header]) (intro safe_intros)

lemma safe_mcs_read_domain_parameters [safe_intros]: "reader_safe n (mcs_read_domain_parameters d)"
  unfolding mcs_read_domain_parameters_def by (intro safe_intros)

lemma ber_read_length_nonneg: "ber_read_length s = Some (Some len, s') \<Longrightarrow> 0 \<le> len"
  by (auto simp: ber_read_length_def Let_def split: if_splits Option.bind_splits)

lemma mcs_skip_octet_string_alt:
  "mcs_skip_octet_string = or_fail ber_read_octet_string_tag (\<lambda>len s.
     if c_int (Stream_GetRemainingLength s) < len then Some (None, s) else Some (Some (), Stream_Seek s (nat len)))"
proof (rule ext)
  fix s
  have "0 \<le> len" if "ber_read_octet_string_tag s = Some (Some len, s')" for len s'
    using that by (auto simp: ber_read_octet_string_tag_def or_fail_def dest: ber_read_length_nonneg
        split: Option.bind_splits option.splits)
  then show "mcs_skip_octet_string s = or_fail ber_read_octet_string_tag (\<lambda>len s.
     if c_int (Stream_GetRemainingLength s) < len then Some (None, s) else Some (Some (), Stream_Seek s (nat len))) s"
    by (cases "ber_read_octet_string_tag s")
      (auto simp: mcs_skip_octet_string_def mcs_read_octet_string_header_def or_fail_def split: option.splits)
qed

lemma safe_mcs_octet_string [safe_intros]:
  "reader_safe n mcs_read_octet_string_header" "reader_safe n mcs_skip_octet_string"
proof -
  show "reader_safe n mcs_read_octet_string_header"
    unfolding mcs_read_octet_string_header_def by (intro safe_intros safe_check_int)
  show "reader_safe n mcs_skip_octet_string"
    unfolding mcs_skip_octet_string_alt
    by (intro safe_intros safe_check_int safe_seek [where k = "\<lambda>s. Some (r, s)" for r]) simp
qed

lemma safe_mcs_recv_connect_initial [safe_intros]:
  assumes "\<And>m. reader_safe 0 (gcc m)"
  shows "reader_safe 4 (mcs_recv_connect_initial gcc mcs)"
  unfolding mcs_recv_connect_initial_def [abs_def] mcs_recv_connect_initial_fields_def split_def Let_def
  by (rule safe_bind [OF safe_tpkt_read_header, unfolded split_def]) (intro safe_intros assms)

lemma safe_mcs_recv_connect_response [safe_intros]:
  assumes "\<And>m. reader_safe 0 (gcc m)"
  shows "reader_safe 4 (mcs_recv_connect_response gcc mcs)"
  unfolding mcs_recv_connect_response_def [abs_def]
  by (rule safe_bind [OF safe_tpkt_read_header]) (intro safe_intros assms)

lemma safe_mcs_recv_domain_pdus [safe_intros]:
  "reader_safe 4 mcs_recv_erect_domain_request" "reader_safe 4 mcs_recv_attach_user_request"
  "reader_safe 4 (mcs_recv_attach_user_confirm mcs)"
  unfolding mcs_recv_erect_domain_request_def mcs_recv_attach_user_request_def mcs_recv_attach_user_confirm_def
  by (intro safe_intros)+

lemma safe_mcs_recv_channel_join_request [safe_intros]: "reader_safe 4 (mcs_recv_channel_join_request mcs c)"
  unfolding mcs_recv_channel_join_request_def
  by (intro safe_intros safe_bind)

lemma safe_mcs_recv_channel_join_confirm [safe_intros]: "reader_safe 4 (mcs_recv_channel_join_confirm c)"
  unfolding mcs_recv_channel_join_confirm_def [abs_def]
  by (intro safe_bind safe_intros)

end
