(* ===== verification/McsWire.thy ===== *)
theory McsWire
  imports Mcs
begin

text \<open>
  The MCS PDUs on the wire: the byte form of every PDU, that each sender of \<open>Mcs\<close>
  hands exactly that form to the transport, that each receiver reads it back, and the
  properties of the MCS part of the connection sequence.
\<close>

unbundle bit_operations_syntax

subsection \<open>Wire forms\<close>

definition mcs_header_bytes :: "byte \<Rightarrow> u16 \<Rightarrow> byte \<Rightarrow> byte list" where
  "mcs_header_bytes pdu len options = tpkt_bytes len @ tpdu_bytes (X224_TPDU_DATA, 2) @ [push_bit 2 pdu OR options]"

lemma length_mcs_header_bytes [simp]: "length (mcs_header_bytes pdu len options) = 8"
  by (simp add: mcs_header_bytes_def length_tpdu_bytes)

lemma tpdu_write_data_put [wire_simps]:
  "Stream_room s 3 \<Longrightarrow> tpdu_write_data s = Some (Stream_put (tpdu_bytes (X224_TPDU_DATA, 2)) s)"
  using tpdu_write_header_put [of s X224_TPDU_DATA 2] by (simp add: tpdu_write_data_def length_tpdu_bytes)

lemma tpdu_read_data_enc [wire_simps]:
  assumes "Stream_wf s" "ahead s = tpdu_bytes (X224_TPDU_DATA, li) @ rest"
  shows "tpdu_read_data s = Some (Some (ucast li), Stream_Seek s 3)"
  using tpdu_header.read_enc [OF _ assms] by (simp add: tpdu_read_data_def length_tpdu_bytes)

lemma mcs_write_header_put [wire_simps]:
  "Stream_room s 8 \<Longrightarrow> mcs_write_domain_mcspdu_header s pdu len options =
     Some (Stream_put (mcs_header_bytes pdu len options) s)"
  by (simp add: mcs_write_domain_mcspdu_header_def mcs_header_bytes_def wire_simps per_write_choice_def
      Write_UINT_put length_tpdu_bytes)

lemma mcs_read_header_enc [wire_simps]:
  assumes s: "Stream_wf s" "ahead s = mcs_header_bytes pdu len options @ rest"
    and opt: "drop_bit 2 (push_bit 2 pdu OR options) = pdu"
  shows "mcs_read_domain_mcspdu_header pdu s = Some (Some (pdu, len), Stream_Seek s 8)"
proof -
  have wf: "Stream_wf (Stream_Seek s 4)" "Stream_wf (Stream_Seek s 7)"
    using s by (auto intro: Stream_wf_Seek)
  have "tpkt_read_header s = Some (len, Stream_Seek s 4)"
    using s by (simp add: tpkt_read_header_enc mcs_header_bytes_def)
  moreover have "tpdu_read_data (Stream_Seek s 4) = Some (Some 2, Stream_Seek s 7)"
    using tpdu_read_data_enc [OF wf(1), of 2] s(2) by (simp add: mcs_header_bytes_def)
  moreover have "per_read_choice (Stream_Seek s 7) = Some (Some (push_bit 2 pdu OR options), Stream_Seek s 8)"
    using per_choice.read_enc [OF _ wf(2), of "push_bit 2 pdu OR options" rest] s(2)
    by (simp add: mcs_header_bytes_def length_tpdu_bytes)
  ultimately show ?thesis using opt by (simp add: mcs_read_domain_mcspdu_header_def)
qed

subsection \<open>Fresh streams and what is handed to the transport\<close>

text \<open>
  \<open>allocates al\<close>: every allocation succeeds.
\<close>

definition allocates :: "stream_alloc \<Rightarrow> bool" where
  "allocates al \<longleftrightarrow> (\<forall>i n. fst (al i) n \<noteq> None \<and> (\<exists>b. snd (al i) n = Some b \<and> length b = n))"

lemma allocates_shift [simp]: "allocates al \<Longrightarrow> allocates (\<lambda>i. al (i + k))"
  by (simp add: allocates_def)

lemma stream_new_fresh:
  assumes "allocates al" "0 < n"
  obtains s where "stream_new al i n = Some s" "s_pointer s = 0" "length (s_buffer s) = n"
    "s_capacity s = n" "s_length s = n"
proof -
  from assms(1) obtain a b where "fst (al i) sizeof_wStream = Some a" "snd (al i) n = Some b" "length b = n"
    unfolding allocates_def by blast
  with assms(2) that show thesis by (simp add: stream_new_def Stream_New_def)
qed

text \<open>A temporary stream filled with \<open>W\<close> and copied out.\<close>

lemma mem_read_put_fresh:
  assumes "s_pointer s = 0" "Stream_room s (length W)"
  shows "mem_read (s_buffer (Stream_put W s)) 0 (length W) = Some W"
  using assms by (simp add: mem_read_def Stream_put_def)

subsection \<open>Domain parameters on the wire\<close>

definition mcs_domain_integers :: "DomainParameters \<Rightarrow> byte list" where
  "mcs_domain_integers d = ber_integer_bytes (maxChannelIds d) @ ber_integer_bytes (maxUserIds d) @
     ber_integer_bytes (maxTokenIds d) @ ber_integer_bytes (numPriorities d) @
     ber_integer_bytes (minThroughput d) @ ber_integer_bytes (maxHeight d) @
     ber_integer_bytes (maxMCSPDUsize d) @ ber_integer_bytes (protocolVersion d)"

definition mcs_domain_bytes :: "DomainParameters \<Rightarrow> byte list" where
  "mcs_domain_bytes d = (0x30 # ber_length_bytes (int (length (mcs_domain_integers d)))) @ mcs_domain_integers d"

lemma ber_sizeof_integer_le: "nat (ber_sizeof_integer v) \<le> 6"
  by (simp add: ber_sizeof_integer_def)

lemma length_mcs_domain_integers: "length (mcs_domain_integers d) \<le> 48"
  unfolding mcs_domain_integers_def length_append length_ber_integer_bytes
  using ber_sizeof_integer_le [of "maxChannelIds d"] ber_sizeof_integer_le [of "maxUserIds d"]
    ber_sizeof_integer_le [of "maxTokenIds d"] ber_sizeof_integer_le [of "numPriorities d"]
    ber_sizeof_integer_le [of "minThroughput d"] ber_sizeof_integer_le [of "maxHeight d"]
    ber_sizeof_integer_le [of "maxMCSPDUsize d"] ber_sizeof_integer_le [of "protocolVersion d"]
  by linarith

lemma length_mcs_domain_bytes:
  "length (mcs_domain_bytes d) = 2 + length (mcs_domain_integers d)" "length (mcs_domain_bytes d) \<le> 50"
  using length_mcs_domain_integers [of d] by (simp_all add: mcs_domain_bytes_def ber_sizeof_length_def)

lemma parses_ber_integer: "parses (read_into ber_read_integer upd) st (ber_integer_bytes v) (upd v st)"
  by (rule parses_read_into) (simp add: ber_read_integer_enc)

lemma parses_domain_parameters: "parses mcs_read_domain_parameters d0 (mcs_domain_bytes d) d"
proof -
  have tag: "parses (read_into ber_read_sequence_tag (\<lambda>_ d. d)) d0
      (0x30 # ber_length_bytes (int (length (mcs_domain_integers d)))) d0"
    using length_mcs_domain_integers [of d]
    by (intro parses_read_into [where upd = "\<lambda>_ d. d" and x = "int (length (mcs_domain_integers d))"]
        ber_sequence.read_enc) auto
  have "parses mcs_read_domain_parameters d0 (mcs_domain_bytes d)
     (d0\<lparr>maxChannelIds := maxChannelIds d, maxUserIds := maxUserIds d, maxTokenIds := maxTokenIds d,
        numPriorities := numPriorities d, minThroughput := minThroughput d, maxHeight := maxHeight d,
        maxMCSPDUsize := maxMCSPDUsize d, protocolVersion := protocolVersion d\<rparr>)"
    unfolding mcs_read_domain_parameters_def mcs_domain_bytes_def mcs_domain_integers_def
    by (rule parses_and_also parses_ber_integer tag [unfolded mcs_domain_integers_def])+
  then show ?thesis by (cases d; cases d0) simp
qed

lemma mcs_write_domain_parameters_put [wire_simps]:
  assumes al: "allocates al" and room: "Stream_room s (length (mcs_domain_bytes d))"
    and cap: "s_capacity s = length (s_buffer s)"
  shows "mcs_write_domain_parameters al s d = Some (True, Stream_put (mcs_domain_bytes d) s)"
proof -
  let ?I = "mcs_domain_integers d"
  have c: "length ?I < Stream_Capacity s" using room cap length_mcs_domain_bytes(1) [of d]
    by (simp add: Stream_Capacity_def)
  then obtain t where t: "stream_new al 0 (Stream_Capacity s) = Some t" "s_pointer t = 0"
      "length (s_buffer t) = Stream_Capacity s"
    using stream_new_fresh [OF al, of "Stream_Capacity s" 0] by (metis gr_zeroI not_less_zero)
  have I: "length ?I < 2 ^ 31" using length_mcs_domain_integers [of d] by simp
  have rt: "Stream_room t (length ?I)" using c t by simp
  have rd: "mem_read (s_buffer (Stream_put ?I t)) 0 (length ?I) = Some ?I"
    using t rt by (intro mem_read_put_fresh)
  have seq: "map_option snd (ber_write_sequence_tag s (int (length ?I)))
      = Some (Stream_put (0x30 # ber_length_bytes (int (length ?I))) s)"
    using room by (intro ber_sequence.write_enc) (auto simp: mcs_domain_bytes_def length_mcs_domain_integers
        intro: order_trans [OF length_mcs_domain_integers])
  have tmp: "(do {
      (_, tmps) \<leftarrow> ber_write_integer t (maxChannelIds d);
      (_, tmps) \<leftarrow> ber_write_integer tmps (maxUserIds d);
      (_, tmps) \<leftarrow> ber_write_integer tmps (maxTokenIds d);
      (_, tmps) \<leftarrow> ber_write_integer tmps (numPriorities d);
      (_, tmps) \<leftarrow> ber_write_integer tmps (minThroughput d);
      (_, tmps) \<leftarrow> ber_write_integer tmps (maxHeight d);
      (_, tmps) \<leftarrow> ber_write_integer tmps (maxMCSPDUsize d);
      (_, tmps) \<leftarrow> ber_write_integer tmps (protocolVersion d);
      k tmps }) = k (Stream_put ?I t)" for k :: "wStream \<Rightarrow> (bool \<times> wStream) option"
    using rt by (simp add: mcs_domain_integers_def ber_write_integer_put)
  from seq obtain n where "ber_write_sequence_tag s (int (length ?I))
      = Some (n, Stream_put (0x30 # ber_length_bytes (int (length ?I))) s)" by auto
  then show ?thesis using t room I rd
    by (simp add: mcs_write_domain_parameters_def tmp Stream_GetPosition_def Stream_Write_put mcs_domain_bytes_def)
qed

subsection \<open>Connect-Initial and Connect-Response on the wire\<close>

definition ber_octet_string_bytes :: "byte list \<Rightarrow> byte list" where
  "ber_octet_string_bytes xs = ber_universal_byte BER_TAG_OCTET_STRING False # ber_length_bytes (int (length xs)) @ xs"

lemma length_ber_octet_string_bytes:
  "length (ber_octet_string_bytes xs) = 1 + nat (ber_sizeof_length (int (length xs))) + length xs"
  "length (ber_octet_string_bytes xs) \<le> 4 + length xs"
  using ber_sizeof_length_pos [of "int (length xs)"]
  by (auto simp: ber_octet_string_bytes_def)

lemma ber_write_octet_string_put [wire_simps]:
  assumes "Stream_room s (length (ber_octet_string_bytes xs))"
  shows "ber_write_octet_string s xs = Some (int (length (ber_octet_string_bytes xs)), Stream_put (ber_octet_string_bytes xs) s)"
  using assms ber_sizeof_length_pos [of "int (length xs)"]
  by (simp add: ber_write_octet_string_def ber_octet_string_bytes_def wire_simps Stream_Write_put)

lemma mcs_read_octet_string_header_enc:
  assumes s: "Stream_wf s" "ahead s = ber_octet_string_bytes xs @ rest" and len: "length xs \<le> 0xFFFF"
  shows "ber_read_octet_string_tag s = Some (Some (int (length xs)),
      Stream_Seek s (1 + nat (ber_sizeof_length (int (length xs)))))" (is ?tag)
    and "mcs_read_octet_string_header s = Some (Some (int (length xs)),
      Stream_Seek s (1 + nat (ber_sizeof_length (int (length xs)))))" (is ?hdr)
    and "mcs_skip_octet_string s = Some (Some (), Stream_Seek s (length (ber_octet_string_bytes xs)))"
proof -
  let ?t = "Stream_Seek s (1 + nat (ber_sizeof_length (int (length xs))))"
  have wf: "Stream_wf (Stream_Seek s 1)" "Stream_wf ?t"
    using s by (auto intro: Stream_wf_Seek simp: ber_octet_string_bytes_def)
  have a: "ahead ?t = xs @ rest" using s(2) by (simp add: ber_octet_string_bytes_def)
  show tag: ?tag
    using ber_read_universal_tag_enc [OF s(1)] ber_read_length_enc [OF _ _ wf(1), of "int (length xs)" "xs @ rest"] s(2) len
    by (simp add: ber_read_octet_string_tag_def ber_octet_string_bytes_def)
  have "length (ahead ?t) = length xs + length rest" unfolding a by simp
  then have "\<not> c_int (Stream_GetRemainingLength ?t) < int (length xs)"
    using ahead_bound [OF wf(2)] unfolding Remaining_ahead [OF wf(2)] by (subst c_int_small) linarith+
  with tag show ?hdr by (simp add: mcs_read_octet_string_header_def)
  with tag show "mcs_skip_octet_string s = Some (Some (), Stream_Seek s (length (ber_octet_string_bytes xs)))"
    by (simp add: mcs_skip_octet_string_def length_ber_octet_string_bytes)
qed

text \<open>An octet string whose contents the step \<open>g\<close> parses.\<close>

lemma parses_octet_string:
  assumes "parses g st xs st'" "length xs \<le> 0xFFFF"
  shows "parses (and_also (read_into mcs_read_octet_string_header (\<lambda>_ m. m)) g) st (ber_octet_string_bytes xs) st'"
    and "parses (and_also (read_into ber_read_octet_string_tag (\<lambda>_ m. m)) g) st (ber_octet_string_bytes xs) st'"
proof -
  have "f s = Some (Some (int (length xs)), Stream_Seek s (1 + nat (ber_sizeof_length (int (length xs))))) \<Longrightarrow>
      and_also (read_into f (\<lambda>_ m. m)) g st s = Some ((True, st'), Stream_Seek s (length (ber_octet_string_bytes xs)))"
    if s: "Stream_wf s" "ahead s = ber_octet_string_bytes xs @ rest" for f s rest
  proof -
    let ?t = "Stream_Seek s (1 + nat (ber_sizeof_length (int (length xs))))"
    have "Stream_wf ?t" "ahead ?t = xs @ rest"
      using s by (auto intro: Stream_wf_Seek simp: ber_octet_string_bytes_def)
    from parsesD [OF assms(1) this]
    show "f s = Some (Some (int (length xs)), ?t) \<Longrightarrow>
      and_also (read_into f (\<lambda>_ m. m)) g st s = Some ((True, st'), Stream_Seek s (length (ber_octet_string_bytes xs)))"
      by (simp add: length_ber_octet_string_bytes)
  qed
  then show "parses (and_also (read_into mcs_read_octet_string_header (\<lambda>_ m. m)) g) st (ber_octet_string_bytes xs) st'"
    and "parses (and_also (read_into ber_read_octet_string_tag (\<lambda>_ m. m)) g) st (ber_octet_string_bytes xs) st'"
    unfolding parses_def using mcs_read_octet_string_header_enc(1,2) assms(2) by blast+
qed

definition mcs_initial_body :: "'m rdpMcs_scheme \<Rightarrow> byte list \<Rightarrow> byte list" where
  "mcs_initial_body mcs ud = ber_octet_string_bytes callingDomainSelector @ ber_octet_string_bytes calledDomainSelector @
     ber_bool_bytes True @ mcs_domain_bytes (targetParameters mcs) @ mcs_domain_bytes (minimumParameters mcs) @
     mcs_domain_bytes (maximumParameters mcs) @ ber_octet_string_bytes ud"

definition mcs_response_body :: "'m rdpMcs_scheme \<Rightarrow> byte list \<Rightarrow> byte list" where
  "mcs_response_body mcs ud = ber_enumerated_bytes 0 @ ber_integer_bytes 0 @
     mcs_domain_bytes (domainParameters mcs) @ ber_octet_string_bytes ud"

definition mcs_connect_bytes :: "byte \<Rightarrow> byte list \<Rightarrow> byte list" where
  "mcs_connect_bytes tag body = ber_application_bytes tag @ ber_length_bytes (int (length body)) @ body"

lemma length_mcs_bodies:
  "length (mcs_initial_body mcs ud) \<le> 163 + length ud" "length (mcs_response_body mcs ud) \<le> 63 + length ud"
  using length_mcs_domain_bytes(2) [of "targetParameters mcs"] length_mcs_domain_bytes(2) [of "minimumParameters mcs"]
    length_mcs_domain_bytes(2) [of "maximumParameters mcs"] length_mcs_domain_bytes(2) [of "domainParameters mcs"]
    length_ber_octet_string_bytes(2) [of ud] ber_sizeof_integer_le [of 0]
  by (simp_all add: mcs_initial_body_def mcs_response_body_def ber_bool_bytes_def ber_enumerated_bytes_def
      ber_octet_string_bytes_def callingDomainSelector_def calledDomainSelector_def ber_sizeof_length_def)

lemma length_mcs_connect_bytes: "length (mcs_connect_bytes tag body) \<le> 5 + length body"
  using ber_sizeof_length_pos(2) [of "int (length body)"]
  by (simp add: mcs_connect_bytes_def ber_application_bytes_def nat_le_iff)

text \<open>Both Connect PDUs end alike: the body built in a temporary stream is copied behind its tag.\<close>

lemma mcs_connect_copy:
  assumes t: "s_pointer t = 0" "Stream_room t (length body)"
    and body: "length body \<le> 0xFFFF" and room: "Stream_room s (length (mcs_connect_bytes tag body))"
  shows "(do {
      let len = Stream_GetPosition (Stream_put body t);
      s \<leftarrow> ber_write_application_tag s tag (c_int len);
      bs \<leftarrow> mem_read (s_buffer (Stream_put body t)) 0 len;
      s \<leftarrow> Stream_Write s bs;
      Some (True, s) }) = Some (True, Stream_put (mcs_connect_bytes tag body) s)"
proof -
  have "ber_write_application_tag s tag (int (length body)) =
      Some (Stream_put (ber_application_bytes tag @ ber_length_bytes (int (length body))) s)"
    using body room by (intro ber_application.write_enc) (simp_all add: mcs_connect_bytes_def)
  then show ?thesis using t body room mem_read_put_fresh [OF t]
    by (simp add: Stream_GetPosition_def Stream_Write_put mcs_connect_bytes_def)
qed

lemma or_out_True [simp]: "or_out (Some (True, t)) s k = k t"
  by (simp add: or_out_def)

text \<open>\<open>ud\<close> is the GCC user data: the bytes of the GCC stream before its cursor.\<close>

lemma mcs_write_connect_initial_put:
  assumes al: "allocates al" and cap: "s_capacity s = length (s_buffer s)"
    and ud: "mem_read (s_buffer g) 0 (Stream_GetPosition g) = Some ud" "length ud \<le> 65000"
    and room: "Stream_room s (168 + length ud)"
  shows "mcs_write_connect_initial al s mcs g =
     Some (True, Stream_put (mcs_connect_bytes MCS_TYPE_CONNECT_INITIAL (mcs_initial_body mcs ud)) s)"
proof -
  let ?B = "mcs_initial_body mcs ud"
  obtain t where t: "stream_new al 0 (Stream_Capacity s) = Some t" "s_pointer t = 0"
      "length (s_buffer t) = Stream_Capacity s" "s_capacity t = Stream_Capacity s"
    using stream_new_fresh [OF al, of "Stream_Capacity s" 0] room cap
    by (metis Stream_Capacity_def add_is_0 gr_zeroI le_zero_eq zero_neq_numeral)
  have B: "length ?B \<le> 163 + length ud" by (rule length_mcs_bodies)
  then have rt: "Stream_room t (length ?B)" using t room cap by (simp add: Stream_Capacity_def)
  have rs: "Stream_room s (length (mcs_connect_bytes MCS_TYPE_CONNECT_INITIAL ?B))"
    using room B length_mcs_connect_bytes [of MCS_TYPE_CONNECT_INITIAL ?B] by linarith
  have "length ?B \<le> 0xFFFF" using B ud(2) by simp
  note copy = mcs_connect_copy [OF t(2) rt this rs]
  have al': "allocates (\<lambda>i. al (Suc i))" "allocates (\<lambda>i. al (Suc (Suc i)))" "allocates (\<lambda>i. al (i + 3))"
    using al by (auto simp: allocates_def)
  show ?thesis
    using rt t(2-4) al' ud(1) copy unfolding mcs_write_connect_initial_def t(1) mcs_initial_body_def
    by (simp add: wire_simps ber_bool.write_enc)
qed

lemma mcs_write_connect_response_put:
  assumes al: "allocates al" and cap: "s_capacity s = length (s_buffer s)"
    and ud: "mem_read (s_buffer g) 0 (Stream_GetPosition g) = Some ud" "length ud \<le> 65000"
    and room: "Stream_room s (168 + length ud)"
  shows "mcs_write_connect_response al s mcs g =
     Some (True, Stream_put (mcs_connect_bytes MCS_TYPE_CONNECT_RESPONSE (mcs_response_body mcs ud)) s)"
proof -
  let ?B = "mcs_response_body mcs ud"
  obtain t where t: "stream_new al 0 (Stream_Capacity s) = Some t" "s_pointer t = 0"
      "length (s_buffer t) = Stream_Capacity s" "s_capacity t = Stream_Capacity s"
    using stream_new_fresh [OF al, of "Stream_Capacity s" 0] room cap
    by (metis Stream_Capacity_def add_is_0 gr_zeroI le_zero_eq zero_neq_numeral)
  have B: "length ?B \<le> 63 + length ud" by (rule length_mcs_bodies)
  then have rt: "Stream_room t (length ?B)" using t room cap by (simp add: Stream_Capacity_def)
  have rs: "Stream_room s (length (mcs_connect_bytes MCS_TYPE_CONNECT_RESPONSE ?B))"
    using room B length_mcs_connect_bytes [of MCS_TYPE_CONNECT_RESPONSE ?B] by linarith
  have "length ?B \<le> 0xFFFF" using B ud(2) by simp
  note copy = mcs_connect_copy [OF t(2) rt this rs]
  have al': "allocates (\<lambda>i. al (Suc i))" using al by (auto simp: allocates_def)
  show ?thesis
    using rt t(2-4) al' ud(1) copy unfolding mcs_write_connect_response_def t(1) mcs_response_body_def
    by (simp add: wire_simps ber_enumerated.write_enc)
qed

text \<open>
  The receivers on such a PDU. \<open>gcc\<close> parses the user data; the server ends with the
  parameters the client sent and the merge of them, the client with the parameters the
  server sent.
\<close>

definition mcs_connect_frame :: "byte list \<Rightarrow> u16 \<Rightarrow> byte list" where
  "mcs_connect_frame pdu len = tpkt_bytes len @ tpdu_bytes (X224_TPDU_DATA, 2) @ pdu"

lemma parses_tpdu_data: "parses (read_into tpdu_read_data (\<lambda>_ m. m)) st (tpdu_bytes (X224_TPDU_DATA, li)) st"
  using tpdu_read_data_enc by (force simp: parses_def length_tpdu_bytes)

lemma parses_application:
  assumes "length body \<le> 0xFFFF"
  shows "parses (read_into (ber_read_application_tag tag) (\<lambda>_ m. m)) st
     (ber_application_bytes tag @ ber_length_bytes (int (length body))) st"
  using assms
  by (intro parses_read_into [where upd = "\<lambda>_ m. m" and x = "int (length body)"] ber_application.read_enc) auto

lemma parses_skip_octet_string:
  "length xs \<le> 0xFFFF \<Longrightarrow> parses (read_into mcs_skip_octet_string (\<lambda>_ m. m)) st (ber_octet_string_bytes xs) st"
  by (intro parses_read_into [where upd = "\<lambda>_ m. m" and x = "()"] mcs_read_octet_string_header_enc(3))

lemma parses_mcs_framed:
  assumes "parses f m (tpdu_bytes (X224_TPDU_DATA, 2) @ pdu) m'" "Stream_wf s" "ahead s = mcs_connect_frame pdu len @ rest"
  shows "(do { (_, s) \<leftarrow> tpkt_read_header s; f m s }) =
     Some ((True, m'), Stream_Seek s (length (mcs_connect_frame pdu len)))"
proof -
  have "Stream_wf (Stream_Seek s 4)" "ahead (Stream_Seek s 4) = (tpdu_bytes (X224_TPDU_DATA, 2) @ pdu) @ rest"
    using assms(2,3) by (auto intro: Stream_wf_Seek simp: mcs_connect_frame_def)
  from parsesD [OF assms(1) this] tpkt_read_header_enc [OF assms(2)] assms(3)
  show ?thesis by (simp add: mcs_connect_frame_def add.assoc)
qed

definition mcs_server_accepts :: "'m rdpMcs_scheme \<Rightarrow> 'k rdpMcs_scheme \<Rightarrow> 'k rdpMcs_scheme" where
  "mcs_server_accepts client m = m\<lparr>targetParameters := targetParameters client,
     minimumParameters := minimumParameters client, maximumParameters := maximumParameters client\<rparr>"

lemma parses_domain_field:
  "parses (on_field get upd mcs_read_domain_parameters) st (mcs_domain_bytes d) (upd d st)"
  by (rule parses_on_field) (rule parses_domain_parameters)

lemma mcs_connect_initial_fields_received:
  assumes gcc: "parses gcc (mcs_server_accepts client m) ud m1" "length ud \<le> 0xFFFF"
    and merge: "mcs_merge_domain_parameters (targetParameters m1) (minimumParameters m1) (maximumParameters m1)
      (domainParameters m1) = (True, d)"
  shows "parses (mcs_recv_connect_initial_fields gcc) m (mcs_initial_body client ud) (m1\<lparr>domainParameters := d\<rparr>)"
proof -
  let ?merge = "\<lambda>m s. let (ok, d) = mcs_merge_domain_parameters (targetParameters m) (minimumParameters m)
    (maximumParameters m) (domainParameters m) in Some ((ok, m\<lparr>domainParameters := d\<rparr>), s)"
  have "parses ?merge m1 [] (m1\<lparr>domainParameters := d\<rparr>)" using merge by (simp add: parses_def)
  from parses_and_also [OF gcc(1) this]
  have "parses (and_also gcc ?merge) (mcs_server_accepts client m) ud (m1\<lparr>domainParameters := d\<rparr>)" by simp
  note g = parses_octet_string(1) [OF this gcc(2), unfolded mcs_server_accepts_def]
  have sel: "length callingDomainSelector \<le> 0xFFFF" "length calledDomainSelector \<le> 0xFFFF"
    by (simp_all add: callingDomainSelector_def calledDomainSelector_def)
  have bool: "parses (read_into ber_read_BOOL (\<lambda>_ m. m)) m (ber_bool_bytes True) m"
    by (intro parses_read_into [where upd = "\<lambda>_ m. m" and x = True] ber_bool.read_enc) auto
  show ?thesis unfolding mcs_recv_connect_initial_fields_def mcs_initial_body_def
    by (rule g parses_and_also parses_skip_octet_string sel bool parses_domain_field)+
qed

lemma mcs_connect_initial_received:
  assumes "parses gcc (mcs_server_accepts client m) ud m1" "length ud \<le> 65000"
    and "mcs_merge_domain_parameters (targetParameters m1) (minimumParameters m1) (maximumParameters m1)
      (domainParameters m1) = (True, d)"
    and s: "Stream_wf s" "ahead s = mcs_connect_frame
      (mcs_connect_bytes MCS_TYPE_CONNECT_INITIAL (mcs_initial_body client ud)) len @ rest"
  shows "\<exists>n. mcs_recv_connect_initial gcc m s = Some ((True, m1\<lparr>domainParameters := d\<rparr>), Stream_Seek s n)"
proof -
  have B: "length (mcs_initial_body client ud) \<le> 0xFFFF" "length ud \<le> 0xFFFF"
    using length_mcs_bodies(1) [of client ud] assms(2) by linarith+
  note f = mcs_connect_initial_fields_received [OF assms(1) B(2) assms(3)]
  have "parses (and_also (read_into tpdu_read_data (\<lambda>_ m. m))
     (and_also (read_into (ber_read_application_tag MCS_TYPE_CONNECT_INITIAL) (\<lambda>_ m. m))
       (mcs_recv_connect_initial_fields gcc))) m
     (tpdu_bytes (X224_TPDU_DATA, 2) @ mcs_connect_bytes MCS_TYPE_CONNECT_INITIAL (mcs_initial_body client ud))
     (m1\<lparr>domainParameters := d\<rparr>)"
    using parses_and_also [OF parses_tpdu_data parses_and_also [OF parses_application [OF B(1)] f]]
    by (simp add: mcs_connect_bytes_def)
  from parses_mcs_framed [OF this s] show ?thesis unfolding mcs_recv_connect_initial_def by blast
qed

lemma mcs_connect_response_received:
  assumes gcc: "parses gcc (m\<lparr>domainParameters := domainParameters srv\<rparr>) ud m1" "length ud \<le> 65000"
    and s: "Stream_wf s" "ahead s = mcs_connect_frame
      (mcs_connect_bytes MCS_TYPE_CONNECT_RESPONSE (mcs_response_body srv ud)) len @ rest"
  shows "\<exists>n. mcs_recv_connect_response gcc m s = Some ((True, m1), Stream_Seek s n)"
proof -
  have B: "length (mcs_response_body srv ud) \<le> 0xFFFF" "length ud \<le> 0xFFFF"
    using length_mcs_bodies(2) [of srv ud] gcc(2) by linarith+
  note g = parses_octet_string(2) [OF gcc(1) B(2)]
  have e: "parses (read_into (ber_read_enumerated MCS_Result_enum_length) (\<lambda>_ m. m)) m (ber_enumerated_bytes 0) m"
    by (intro parses_read_into [where upd = "\<lambda>_ m. m" and x = 0] ber_enumerated.read_enc) auto
  have i: "parses (read_into ber_read_integer (\<lambda>_ m. m)) m (ber_integer_bytes 0) m"
    by (rule parses_ber_integer [where upd = "\<lambda>_ m. m"])
  have f: "parses (and_also (read_into (ber_read_enumerated MCS_Result_enum_length) (\<lambda>_ m. m))
     (and_also (read_into ber_read_integer (\<lambda>_ m. m))
     (and_also (on_field domainParameters (\<lambda>d m. m\<lparr>domainParameters := d\<rparr>) mcs_read_domain_parameters)
     (and_also (read_into ber_read_octet_string_tag (\<lambda>_ m. m)) gcc)))) m (mcs_response_body srv ud) m1"
    unfolding mcs_response_body_def by (rule g parses_and_also e i parses_domain_field)+
  from parses_and_also [OF parses_tpdu_data parses_and_also [OF parses_application [OF B(1)] f]]
  have "parses (and_also (read_into tpdu_read_data (\<lambda>_ m. m))
     (and_also (read_into (ber_read_application_tag MCS_TYPE_CONNECT_RESPONSE) (\<lambda>_ m. m))
     (and_also (read_into (ber_read_enumerated MCS_Result_enum_length) (\<lambda>_ m. m))
     (and_also (read_into ber_read_integer (\<lambda>_ m. m))
     (and_also (on_field domainParameters (\<lambda>d m. m\<lparr>domainParameters := d\<rparr>) mcs_read_domain_parameters)
     (and_also (read_into ber_read_octet_string_tag (\<lambda>_ m. m)) gcc)))))) m
     (tpdu_bytes (X224_TPDU_DATA, 2) @ mcs_connect_bytes MCS_TYPE_CONNECT_RESPONSE (mcs_response_body srv ud)) m1"
    by (simp add: mcs_connect_bytes_def)
  from parses_mcs_framed [OF this s] show ?thesis unfolding mcs_recv_connect_response_def by blast
qed

subsection \<open>Senders\<close>

lemma mcs_send_pdu_sends:
  assumes "allocates al" "length W = unat len" "0 < unat len"
    and body: "\<And>s. Stream_room s (length W) \<Longrightarrow> body s = Some (Stream_put W s)"
  shows "\<exists>t. stream_bytes t = W \<and>
     mcs_send_pdu tw al len seal body e = Some (\<not> fst (tw t e) < 0, snd (tw t e))"
proof -
  obtain s where s: "stream_new al 0 (unat len) = Some s" "s_pointer s = 0" "length (s_buffer s) = unat len"
      "s_length s = unat len"
    using stream_new_fresh [OF assms(1,3)] by blast
  let ?t = "if seal then Stream_SealLength (Stream_put W s) else Stream_put W s"
  have "stream_bytes ?t = W" using s assms(2) by (simp add: stream_bytes_put)
  moreover have "mcs_send_pdu tw al len seal body e = Some (\<not> fst (tw ?t e) < 0, snd (tw ?t e))"
    using s assms(2) body by (simp add: mcs_send_pdu_def split_def Let_def)
  ultimately show ?thesis by blast
qed

lemma mcs_send_fails: "stream_new al 0 (unat len) = None \<Longrightarrow> mcs_send_pdu tw al len seal body e = Some (False, e)"
  by (simp add: mcs_send_pdu_def)

text \<open>The Connect PDUs: headers written last, in the seven bytes left free.\<close>

lemma mcs_send_connect_pdu_sends:
  assumes s: "s_pointer s = 0" "length (s_buffer s) = n" "s_capacity s = n"
    and w: "w (Stream_Seek s 7) = Some (True, Stream_put P (Stream_Seek s 7))"
    and P: "7 + length P \<le> n" "7 + length P \<le> 0xFFFF"
  shows "\<exists>t. stream_bytes t = mcs_connect_frame P (word_of_nat (7 + length P)) \<and>
     mcs_send_connect_pdu tw (Some s) w e = Some (\<not> fst (tw t e) < 0, snd (tw t e))"
proof -
  let ?len = "word_of_nat (7 + length P) :: u16"
  let ?W = "tpkt_bytes ?len @ tpdu_bytes (X224_TPDU_DATA, 2)"
  let ?s1 = "Stream_SetPosition (Stream_put P (Stream_Seek s 7)) 0"
  let ?t = "Stream_SealLength (Stream_SetPosition (Stream_put ?W ?s1) (7 + length P))"
  have "stream_bytes ?t = mcs_connect_frame P ?len"
    using header_last_bytes [OF s(1), of 7 P ?W] P(1) s(2) by (simp add: length_tpdu_bytes mcs_connect_frame_def)
  moreover have "tpkt_write_header ?s1 ?len = Some (Stream_put (tpkt_bytes ?len) ?s1)"
    using P s by (intro tpkt_write_header_put) (simp add: Stream_SetPosition_def)
  moreover have "tpdu_write_data (Stream_put (tpkt_bytes ?len) ?s1) = Some (Stream_put ?W ?s1)"
    using P s by (subst tpdu_write_data_put) (simp_all add: Stream_SetPosition_def)
  moreover have "c_int (7 + length P) = int (7 + length P)" "c_int 0 = 0" using P by simp_all
  ultimately show ?thesis using s(1)
    by (intro exI [of _ ?t]) (simp add: mcs_send_connect_pdu_def w Stream_GetPosition_def split_def Let_def)
qed

lemma mem_read_stream_bytes:
  "stream_bytes g = ud \<Longrightarrow> s_pointer g \<le> length (s_buffer g) \<Longrightarrow>
     mem_read (s_buffer g) 0 (Stream_GetPosition g) = Some ud"
  by (auto simp: mem_read_def stream_bytes_def Stream_GetPosition_def)

lemma mcs_connect_initial_sent:
  assumes al: "allocates al" and init: "mcs_initialize_client_channels client cfg = Some client0"
    and data: "\<forall>s. s_pointer s = 0 \<longrightarrow> length (s_buffer s) = 512 \<longrightarrow> (\<exists>c. gcc_data client0 s = Some (client', c) \<and> P c)"
    and request: "\<forall>g c. P c \<longrightarrow> s_pointer g = 0 \<longrightarrow> length (s_buffer g) = 1024 \<longrightarrow>
      (\<exists>g'. gcc_request g c = Some g' \<and> stream_bytes g' = ud \<and> s_pointer g' \<le> length (s_buffer g'))"
    and ud: "length ud \<le> 65000"
  shows "\<exists>t. stream_bytes t = mcs_connect_frame
       (mcs_connect_bytes MCS_TYPE_CONNECT_INITIAL (mcs_initial_body client' ud))
       (word_of_nat (7 + length (mcs_connect_bytes MCS_TYPE_CONNECT_INITIAL (mcs_initial_body client' ud)))) \<and>
     mcs_send_connect_initial tw gcc_data gcc_request al cfg client e =
       Some ((\<not> fst (tw t e) < 0, client'), snd (tw t e))"
proof -
  let ?P = "mcs_connect_bytes MCS_TYPE_CONNECT_INITIAL (mcs_initial_body client' ud)"
  have P: "length ?P \<le> 168 + length ud"
    using length_mcs_connect_bytes [of MCS_TYPE_CONNECT_INITIAL "mcs_initial_body client' ud"]
      length_mcs_bodies(1) [of client' ud] by linarith
  obtain c0 where c0: "stream_new al 0 512 = Some c0" "s_pointer c0 = 0" "length (s_buffer c0) = 512" using stream_new_fresh [OF al, of 512] by auto
  obtain c where c: "gcc_data client0 c0 = Some (client', c)" "P c" using data c0(2,3) by blast
  obtain g0 where g0: "stream_new al 1 1024 = Some g0" "s_pointer g0 = 0" "length (s_buffer g0) = 1024"
    using stream_new_fresh [OF al, of 1024] by auto
  obtain g where g: "gcc_request g0 c = Some g" "stream_bytes g = ud" "s_pointer g \<le> length (s_buffer g)"
    using request c(2) g0(2,3) by blast
  then have len: "s_pointer g = length ud" by (auto simp: stream_bytes_def)
  obtain s where s: "stream_new al 2 (1024 + (length ud + 7)) = Some s" "s_pointer s = 0"
      "length (s_buffer s) = 1024 + (length ud + 7)" "s_capacity s = 1024 + (length ud + 7)"
    using stream_new_fresh [OF al, of "1024 + (length ud + 7)" 2] by auto
  have al3: "allocates (\<lambda>i. al (i + 3))" using al by simp
  have w: "mcs_write_connect_initial (\<lambda>i. al (i + 3)) (Stream_Seek s 7) client' g
      = Some (True, Stream_put ?P (Stream_Seek s 7))"
    using s ud mem_read_stream_bytes [OF g(2,3)] by (intro mcs_write_connect_initial_put [OF al3]) auto
  have room: "7 + length ?P \<le> 1024 + (length ud + 7)" "7 + length ?P \<le> 0xFFFF" using P ud by auto
  from mcs_send_connect_pdu_sends [where w = "\<lambda>s. mcs_write_connect_initial (\<lambda>i. al (i + 3)) s client' g"
      and tw = tw and e = e, OF s(2,3,4) w room]
  obtain t where t: "stream_bytes t = mcs_connect_frame ?P (word_of_nat (7 + length ?P))"
    "mcs_send_connect_pdu tw (Some s) (\<lambda>s. mcs_write_connect_initial (\<lambda>i. al (i + 3)) s client' g) e
      = Some (\<not> fst (tw t e) < 0, snd (tw t e))" by blast
  moreover have "mcs_send_connect_initial tw gcc_data gcc_request al cfg client e =
      Some ((\<not> fst (tw t e) < 0, client'), snd (tw t e))"
    using init c0(1) c(1) g0(1) g(1) s(1) t(2) by (simp add: mcs_send_connect_initial_def Stream_GetPosition_def len)
  ultimately show ?thesis by blast
qed

subsection \<open>Properties\<close>

text \<open>
  Connect-Initial: what the client hands to the transport is accepted by the server, for all GCC
  functions that write and read the same user data.
\<close>

lemma mcs_connect_initial_exchange:
  assumes "allocates al" and "mcs_initialize_client_channels client cfg = Some client0"
    and "\<forall>s. s_pointer s = 0 \<longrightarrow> length (s_buffer s) = 512 \<longrightarrow> (\<exists>c. gcc_data client0 s = Some (client', c) \<and> P c)"
    and "\<forall>g c. P c \<longrightarrow> s_pointer g = 0 \<longrightarrow> length (s_buffer g) = 1024 \<longrightarrow>
      (\<exists>g'. gcc_request g c = Some g' \<and> stream_bytes g' = ud \<and> s_pointer g' \<le> length (s_buffer g'))"
    and ud: "length ud \<le> 65000"
    and gcc_read_conference_create_request: "parses gcc_read (mcs_server_accepts client' server) ud server1"
    and "mcs_merge_domain_parameters (targetParameters server1) (minimumParameters server1)
      (maximumParameters server1) (domainParameters server1) = (True, d)"
  shows "\<exists>t. mcs_send_connect_initial tw gcc_data gcc_request al cfg client e =
      Some ((\<not> fst (tw t e) < 0, client'), snd (tw t e)) \<and>
    (\<forall>r rest. Stream_wf r \<longrightarrow> ahead r = stream_bytes t @ rest \<longrightarrow>
      (\<exists>n. mcs_recv_connect_initial gcc_read server r =
        Some ((True, server1\<lparr>domainParameters := d\<rparr>), Stream_Seek r n)))"
proof -
  from mcs_connect_initial_sent [where tw = tw and e = e and P = P and gcc_data = gcc_data and gcc_request = gcc_request, OF assms(1-5)]
  obtain t where t: "stream_bytes t = mcs_connect_frame
       (mcs_connect_bytes MCS_TYPE_CONNECT_INITIAL (mcs_initial_body client' ud))
       (word_of_nat (7 + length (mcs_connect_bytes MCS_TYPE_CONNECT_INITIAL (mcs_initial_body client' ud))))"
     "mcs_send_connect_initial tw gcc_data gcc_request al cfg client e =
       Some ((\<not> fst (tw t e) < 0, client'), snd (tw t e))"
    by (elim exE conjE)
  show ?thesis
    by (rule exI [of _ t], rule conjI, rule t(2), unfold t(1))
      (intro allI impI mcs_connect_initial_received [OF assms(6,5,7)])
qed

text \<open>The instance used by the witnesses: allocation that succeeds with zeroed blocks.\<close>

abbreviation zero_alloc :: stream_alloc where
  "zero_alloc \<equiv> \<lambda>_. (calloc_zero, calloc_zero)"

lemma allocates_zero_alloc: "allocates zero_alloc"
  by (simp add: allocates_def calloc_zero_def)

definition mcs_default :: rdpMcs where
  "mcs_default = the (mcs_new True True)"

lemma mcs_options [simp]: "drop_bit 2 (push_bit 2 (11 :: byte) OR 2) = 11" "drop_bit 2 (push_bit 2 (14 :: byte) OR 0) = 14"
  "drop_bit 2 (push_bit 2 (15 :: byte) OR 2) = 15" "drop_bit 2 (push_bit 2 (10 :: byte) OR 0) = 10"
  "drop_bit 2 (push_bit 2 (1 :: byte) OR 0) = 1"
  by simp_all

lemma parses_mcs_header:
  assumes "drop_bit 2 (push_bit 2 pdu OR options) = pdu"
  shows "parses (read_into (mcs_read_domain_mcspdu_header pdu) (\<lambda>_ m. m)) st (mcs_header_bytes pdu len options) st"
  using assms by (intro parses_read_into [where upd = "\<lambda>_ m. m" and x = "(pdu, len)"]) (simp add: mcs_read_header_enc)

lemma parses_per_enumerated:
  "v < count \<Longrightarrow> parses (read_into (per_read_enumerated count) (\<lambda>_ m. m)) st [v] st"
  by (intro parses_read_into [where upd = "\<lambda>_ m. m" and x = v] per_enumerated.read_enc)

lemma parses_integer16_dest: "mn \<le> v \<Longrightarrow> parses (per_read_integer16_dest mn) st (be_bytes16 (v - mn)) v"
  by (simp add: parses_def per_read_integer16_dest_enc)

text \<open>
  Attach user: the server takes the next channel id as the user id and advances
  its counter; the confirm it sends is accepted by the client, which ends with the
  same user id.
\<close>

theorem mcs_attach_user_roundtrip:
  assumes "allocates al" "MCS_BASE_CHANNEL_ID \<le> baseChannelId server"
  shows "\<exists>t. mcs_send_attach_user_confirm tw al server e =
      Some ((\<not> fst (tw t e) < 0, server\<lparr>userId := baseChannelId server, baseChannelId := baseChannelId server + 1\<rparr>),
        snd (tw t e)) \<and>
    (\<forall>client r rest. Stream_wf r \<longrightarrow> ahead r = stream_bytes t @ rest \<longrightarrow>
      mcs_recv_attach_user_confirm client r =
        Some ((True, client\<lparr>userId := baseChannelId server\<rparr>), Stream_Seek r 11))"
proof -
  let ?u = "baseChannelId server"
  let ?W = "mcs_header_bytes DomainMCSPDU_AttachUserConfirm 11 2 @ [0] @ be_bytes16 (?u - MCS_BASE_CHANNEL_ID)"
  obtain s where s: "stream_new al 0 11 = Some s" "s_pointer s = 0" "length (s_buffer s) = 11"
    using stream_new_fresh [OF assms(1), of 11] by auto
  let ?t = "Stream_SealLength (Stream_put ?W s)"
  have "mcs_send_attach_user_confirm tw al server e =
      Some ((\<not> fst (tw ?t e) < 0, server\<lparr>userId := ?u, baseChannelId := ?u + 1\<rparr>), snd (tw ?t e))"
    using s by (simp add: mcs_send_attach_user_confirm_def wire_simps per_write_enumerated_def
        per_write_integer16_def Write_UINT_put split_def Let_def)
  moreover have "parses mcs_recv_attach_user_confirm client ?W (client\<lparr>userId := ?u\<rparr>)" for client
    unfolding mcs_recv_attach_user_confirm_def using assms(2)
    by (intro parses_and_also [where ?st1.0 = client] parses_mcs_header parses_per_enumerated
        parses_on_field [where upd = "\<lambda>u m. m\<lparr>userId := u\<rparr>"] parses_integer16_dest) simp_all
  then have "mcs_recv_attach_user_confirm client r = Some ((True, client\<lparr>userId := ?u\<rparr>), Stream_Seek r 11)"
    if "Stream_wf r" "ahead r = ?W @ rest" for client r rest
    using parsesD that by force
  moreover have "stream_bytes ?t = ?W" using s by (simp add: stream_bytes_put)
  ultimately show ?thesis by (metis (no_types, lifting))
qed

theorem mcs_attach_user_roundtrip_witness:
  "\<exists>t. mcs_send_attach_user_confirm (\<lambda>t e. (0, stream_bytes t)) zero_alloc mcs_default [] =
      Some ((True, mcs_default\<lparr>userId := 1004, baseChannelId := 1005\<rparr>), stream_bytes t) \<and>
    (\<forall>client r rest. Stream_wf r \<longrightarrow> ahead r = stream_bytes t @ rest \<longrightarrow>
      mcs_recv_attach_user_confirm client r = Some ((True, client\<lparr>userId := 1004\<rparr>), Stream_Seek r 11))"
proof -
  have b: "baseChannelId mcs_default = 1004" by (simp add: mcs_default_def mcs_new_def)
  from mcs_attach_user_roundtrip [where tw = "\<lambda>t e. (0, stream_bytes t)" and e = "[]", OF allocates_zero_alloc, of mcs_default] b
  show ?thesis by simp
qed

lemma mcs_join_request_received:
  assumes "MCS_BASE_CHANNEL_ID \<le> u" "Stream_wf r"
    and "ahead r = (mcs_header_bytes DomainMCSPDU_ChannelJoinRequest 12 0 @ be_bytes16 (u - MCS_BASE_CHANNEL_ID)
      @ be_bytes16 c) @ rest"
  shows "\<exists>r'. mcs_recv_channel_join_request server c0 r =
     Some (if userId server = u then (True, c) else (False, c0), r')"
proof -
  have wf: "Stream_wf (Stream_Seek r 8)" "Stream_wf (Stream_Seek r 10)"
    using assms(2,3) by (auto intro: Stream_wf_Seek)
  have h: "read_into (mcs_read_domain_mcspdu_header DomainMCSPDU_ChannelJoinRequest) (\<lambda>_ c. c) c0 r
      = Some ((True, c0), Stream_Seek r 8)"
    using parsesD [OF parses_mcs_header assms(2)] assms(3) by force
  have u: "per_read_integer16 MCS_BASE_CHANNEL_ID (Stream_Seek r 8) = Some (Some u, Stream_Seek r 10)"
    using per_integer16.read_enc [OF assms(1) wf(1), of "be_bytes16 c @ rest"] assms(3) by simp
  have "per_read_integer16_dest 0 c0 (Stream_Seek r 10) = Some ((True, c), Stream_Seek r 12)"
    using per_read_integer16_dest_enc [OF _ wf(2), of 0 c rest c0] assms(3) by simp
  with h u show ?thesis by (auto simp: mcs_recv_channel_join_request_def)
qed

lemma mcs_join_confirm_received:
  assumes "MCS_BASE_CHANNEL_ID \<le> u" "Stream_wf r"
    and "ahead r = (mcs_header_bytes DomainMCSPDU_ChannelJoinConfirm 15 2 @ [0] @
      be_bytes16 (u - MCS_BASE_CHANNEL_ID) @ be_bytes16 c @ be_bytes16 c) @ rest"
  shows "mcs_recv_channel_join_confirm c0 r = Some ((True, c), Stream_Seek r 15)"
proof -
  have wf: "Stream_wf (Stream_Seek r 8)" "Stream_wf (Stream_Seek r 9)" "Stream_wf (Stream_Seek r 11)" "Stream_wf (Stream_Seek r 13)"
    using assms(2,3) by (auto intro: Stream_wf_Seek)
  have "mcs_read_domain_mcspdu_header DomainMCSPDU_ChannelJoinConfirm r = Some (Some (15, 15), Stream_Seek r 8)"
    using assms(2,3) by (intro mcs_read_header_enc) auto
  moreover have "per_read_enumerated MCS_Result_enum_length (Stream_Seek r 8) = Some (Some 0, Stream_Seek r 9)"
    using per_enumerated.read_enc [OF _ wf(1), of 0 MCS_Result_enum_length] assms(3) by simp
  moreover have "per_read_integer16 MCS_BASE_CHANNEL_ID (Stream_Seek r 9) = Some (Some u, Stream_Seek r 11)"
    using per_integer16.read_enc [OF assms(1) wf(2), of "be_bytes16 c @ be_bytes16 c @ rest"] assms(3) by simp
  moreover have "per_read_integer16 0 (Stream_Seek r 11) = Some (Some c, Stream_Seek r 13)"
    using per_integer16.read_enc [OF _ wf(3), of 0 c "be_bytes16 c @ rest"] assms(3) by simp
  moreover have "per_read_integer16_dest 0 c0 (Stream_Seek r 13) = Some ((True, c), Stream_Seek r 15)"
    using per_read_integer16_dest_enc [OF _ wf(4), of 0 c rest c0] assms(3) by simp
  ultimately show ?thesis by (simp add: mcs_recv_channel_join_confirm_def)
qed

lemma mcs_send_channel_join_request_sends:
  assumes "allocates al"
  shows "\<exists>t. stream_bytes t = mcs_header_bytes DomainMCSPDU_ChannelJoinRequest 12 0 @
      be_bytes16 (userId client - MCS_BASE_CHANNEL_ID) @ be_bytes16 c \<and>
    mcs_send_channel_join_request tw al client c e = Some (\<not> fst (tw t e) < 0, snd (tw t e))"
  unfolding mcs_send_channel_join_request_def
  by (rule mcs_send_pdu_sends [OF assms])
    (simp_all add: wire_simps per_write_integer16_def Write_UINT_put)

lemma mcs_send_channel_join_confirm_sends:
  assumes "allocates al"
  shows "\<exists>t. stream_bytes t = mcs_header_bytes DomainMCSPDU_ChannelJoinConfirm 15 2 @ [0] @
      be_bytes16 (userId server - MCS_BASE_CHANNEL_ID) @ be_bytes16 c @ be_bytes16 c \<and>
    mcs_send_channel_join_confirm tw al server c e = Some (\<not> fst (tw t e) < 0, snd (tw t e))"
  unfolding mcs_send_channel_join_confirm_def
  by (rule mcs_send_pdu_sends [OF assms])
    (simp_all add: wire_simps per_write_integer16_def per_write_enumerated_def Write_UINT_put)

text \<open>
  Channel join (C33): a join request sent by the client for a channel reaches the
  server's channel id variable exactly when the client's user id is the server's; with
  another user id the server refuses and keeps its variable. The confirm the server
  sends gives the client the channel id back.
\<close>

theorem mcs_channel_join_handshake:
  assumes "allocates al" "MCS_BASE_CHANNEL_ID \<le> userId client" "MCS_BASE_CHANNEL_ID \<le> userId server"
  shows "\<exists>req conf. mcs_send_channel_join_request tw al client c e = Some (\<not> fst (tw req e) < 0, snd (tw req e)) \<and>
    mcs_send_channel_join_confirm tw al server c e = Some (\<not> fst (tw conf e) < 0, snd (tw conf e)) \<and>
    (\<forall>r rest c0. Stream_wf r \<longrightarrow> ahead r = stream_bytes req @ rest \<longrightarrow>
      (\<exists>r'. mcs_recv_channel_join_request server c0 r =
        Some (if userId server = userId client then (True, c) else (False, c0), r'))) \<and>
    (\<forall>r rest c0. Stream_wf r \<longrightarrow> ahead r = stream_bytes conf @ rest \<longrightarrow>
      mcs_recv_channel_join_confirm c0 r = Some ((True, c), Stream_Seek r 15))"
proof -
  from mcs_send_channel_join_request_sends [OF assms(1), of client c tw e]
  obtain req where req: "stream_bytes req = mcs_header_bytes DomainMCSPDU_ChannelJoinRequest 12 0 @
      be_bytes16 (userId client - MCS_BASE_CHANNEL_ID) @ be_bytes16 c"
    "mcs_send_channel_join_request tw al client c e = Some (\<not> fst (tw req e) < 0, snd (tw req e))"
    by (elim exE conjE)
  from mcs_send_channel_join_confirm_sends [OF assms(1), of server c tw e]
  obtain conf where conf: "stream_bytes conf = mcs_header_bytes DomainMCSPDU_ChannelJoinConfirm 15 2 @ [0] @
      be_bytes16 (userId server - MCS_BASE_CHANNEL_ID) @ be_bytes16 c @ be_bytes16 c"
    "mcs_send_channel_join_confirm tw al server c e = Some (\<not> fst (tw conf e) < 0, snd (tw conf e))"
    by (elim exE conjE)
  have R: "\<forall>r rest c0. Stream_wf r \<longrightarrow> ahead r = stream_bytes req @ rest \<longrightarrow>
      (\<exists>r'. mcs_recv_channel_join_request server c0 r =
        Some (if userId server = userId client then (True, c) else (False, c0), r'))"
    unfolding req(1) by (intro allI impI mcs_join_request_received [OF assms(2)])
  have C: "\<forall>r rest c0. Stream_wf r \<longrightarrow> ahead r = stream_bytes conf @ rest \<longrightarrow>
      mcs_recv_channel_join_confirm c0 r = Some ((True, c), Stream_Seek r 15)"
    unfolding conf(1) by (intro allI impI mcs_join_confirm_received [OF assms(3)])
  show ?thesis by (intro exI conjI) (rule req(2) conf(2) R C)+
qed

theorem mcs_channel_join_handshake_witness:
  "\<exists>req conf. mcs_send_channel_join_request (\<lambda>t e. (0, stream_bytes t)) zero_alloc (mcs_default\<lparr>userId := 1004\<rparr>) 1003 []
      = Some (True, stream_bytes req) \<and>
    mcs_send_channel_join_confirm (\<lambda>t e. (0, stream_bytes t)) zero_alloc (mcs_default\<lparr>userId := 1004\<rparr>) 1003 []
      = Some (True, stream_bytes conf) \<and>
    (\<forall>r rest c0. Stream_wf r \<longrightarrow> ahead r = stream_bytes req @ rest \<longrightarrow>
      (\<exists>r'. mcs_recv_channel_join_request (mcs_default\<lparr>userId := 1004\<rparr>) c0 r = Some ((True, 1003), r'))) \<and>
    (\<forall>r rest c0. Stream_wf r \<longrightarrow> ahead r = stream_bytes conf @ rest \<longrightarrow>
      mcs_recv_channel_join_confirm c0 r = Some ((True, 1003), Stream_Seek r 15))"
  using mcs_channel_join_handshake [where tw = "\<lambda>t e. (0, stream_bytes t)" and e = "[]" and c = 1003,
      OF allocates_zero_alloc, of "mcs_default\<lparr>userId := 1004\<rparr>" "mcs_default\<lparr>userId := 1004\<rparr>"]
  by simp

definition mcs_mergeable :: "DomainParameters \<Rightarrow> DomainParameters \<Rightarrow> DomainParameters \<Rightarrow> bool" where
  "mcs_mergeable target mnp mxp \<longleftrightarrow>
     (4 \<le> maxChannelIds target \<or> 4 \<le> maxChannelIds mxp) \<and> (3 \<le> maxUserIds target \<or> 3 \<le> maxUserIds mxp) \<and>
     numPriorities mnp \<le> 1 \<and> (maxHeight target = 1 \<or> maxHeight mnp \<le> 1) \<and>
     (if 1024 \<le> maxMCSPDUsize target
      then maxMCSPDUsize target \<le> 65528 \<or> (124 \<le> maxMCSPDUsize mnp \<and> maxMCSPDUsize mnp \<le> 65528)
      else 124 \<le> maxMCSPDUsize mxp) \<and>
     (protocolVersion target = 2 \<or> (protocolVersion mnp \<le> 2 \<and> 2 \<le> protocolVersion mxp))"

definition mcs_merged :: "DomainParameters \<Rightarrow> DomainParameters \<Rightarrow> DomainParameters" where
  "mcs_merged target mxp = \<lparr>maxChannelIds = max 4 (maxChannelIds target), maxUserIds = max 3 (maxUserIds target),
     maxTokenIds = maxTokenIds target, numPriorities = 1, minThroughput = minThroughput target, maxHeight = 1,
     maxMCSPDUsize = (if 1024 \<le> maxMCSPDUsize target then min 65528 (maxMCSPDUsize target) else maxMCSPDUsize mxp),
     protocolVersion = 2\<rparr>"

lemma fst_mcs_merge: "fst (mcs_merge_domain_parameters target mnp mxp out) \<longleftrightarrow> mcs_mergeable target mnp mxp"
  unfolding mcs_merge_domain_parameters_def mcs_mergeable_def Let_def
  by (simp add: if_distrib [of fst] split: option.split)

lemma snd_mcs_merge:
  assumes "mcs_mergeable target mnp mxp"
  shows "snd (mcs_merge_domain_parameters target mnp mxp out) = mcs_merged target mxp"
proof -
  have "65528 \<le> x \<Longrightarrow> x \<le> 65528 \<Longrightarrow> x = 65528" for x :: u32 by simp
  with assms show ?thesis
    unfolding mcs_merge_domain_parameters_def mcs_mergeable_def mcs_merged_def Let_def
    by (cases out) (simp add: max_def min_def, auto split: if_splits)
qed

text \<open>
  Merging: the server agrees exactly when every parameter can be agreed on
  (\<open>mcs_mergeable\<close>), whatever its previous parameters, and then the result is
  \<open>mcs_merged\<close>: at least 4 channels and 3 users, one priority, height 1, version 2, the
  client's token and throughput values, and the client's PDU size cut to 65528, or the
  client's maximum size when the target is below 1024.
\<close>

theorem mcs_merge_domain_parameters_spec:
  "\<exists>partial. mcs_merge_domain_parameters target mnp mxp out =
     (if mcs_mergeable target mnp mxp then (True, mcs_merged target mxp) else (False, partial))"
  using fst_mcs_merge [of target mnp mxp out] snd_mcs_merge [of target mnp mxp out]
  by (cases "mcs_merge_domain_parameters target mnp mxp out") auto



text \<open>
  Erect domain and attach user request: what the two senders without parameters hand
  to the transport is accepted by the matching receivers.
\<close>

theorem mcs_request_roundtrip:
  assumes "allocates al"
  shows "\<exists>erect attach.
    mcs_send_erect_domain_request tw al e = Some (\<not> fst (tw erect e) < 0, snd (tw erect e)) \<and>
    mcs_send_attach_user_request tw al e = Some (\<not> fst (tw attach e) < 0, snd (tw attach e)) \<and>
    (\<forall>r rest. Stream_wf r \<longrightarrow> ahead r = stream_bytes erect @ rest \<longrightarrow>
      mcs_recv_erect_domain_request r = Some (Some (), Stream_Seek r 12)) \<and>
    (\<forall>r rest. Stream_wf r \<longrightarrow> ahead r = stream_bytes attach @ rest \<longrightarrow>
      mcs_recv_attach_user_request r = Some (Some (), Stream_Seek r 8))"
proof -
  let ?E = "mcs_header_bytes DomainMCSPDU_ErectDomainRequest 12 0 @ [1, 0, 1, 0]"
  let ?A = "mcs_header_bytes DomainMCSPDU_AttachUserRequest 8 0"
  have "\<exists>t. stream_bytes t = ?E \<and> mcs_send_erect_domain_request tw al e = Some (\<not> fst (tw t e) < 0, snd (tw t e))"
    unfolding mcs_send_erect_domain_request_def
    by (rule mcs_send_pdu_sends [OF assms])
      (simp_all add: wire_simps per_write_integer_def per_write_length_small Write_UINT_put)
  then obtain erect where erect: "stream_bytes erect = ?E"
      "mcs_send_erect_domain_request tw al e = Some (\<not> fst (tw erect e) < 0, snd (tw erect e))"
    by (elim exE conjE)
  have "\<exists>t. stream_bytes t = ?A \<and> mcs_send_attach_user_request tw al e = Some (\<not> fst (tw t e) < 0, snd (tw t e))"
    unfolding mcs_send_attach_user_request_def
    by (rule mcs_send_pdu_sends [OF assms]) (simp_all add: wire_simps)
  then obtain attach where attach: "stream_bytes attach = ?A"
      "mcs_send_attach_user_request tw al e = Some (\<not> fst (tw attach e) < 0, snd (tw attach e))"
    by (elim exE conjE)
  have E: "mcs_recv_erect_domain_request r = Some (Some (), Stream_Seek r 12)"
    if r: "Stream_wf r" "ahead r = ?E @ rest" for r rest
  proof -
    have wf: "Stream_wf (Stream_Seek r 8)" "Stream_wf (Stream_Seek r 10)" using r by (auto intro: Stream_wf_Seek)
    have i: "per_integer_bytes 0 = [1, 0]" by (simp add: per_integer_bytes_def)
    have "mcs_read_domain_mcspdu_header DomainMCSPDU_ErectDomainRequest r = Some (Some (1, 12), Stream_Seek r 8)"
      using r by (intro mcs_read_header_enc) auto
    moreover have "per_read_integer (Stream_Seek r 8) = Some (Some 0, Stream_Seek r 10)"
      using per_integer.read_enc [OF _ wf(1), of 0] r by (simp add: i)
    moreover have "per_read_integer (Stream_Seek r 10) = Some (Some 0, Stream_Seek r 12)"
      using per_integer.read_enc [OF _ wf(2), of 0] r by (simp add: i)
    ultimately show ?thesis by (simp add: mcs_recv_erect_domain_request_def)
  qed
  have A: "mcs_recv_attach_user_request r = Some (Some (), Stream_Seek r 8)"
    if "Stream_wf r" "ahead r = ?A @ rest" for r rest
    using mcs_read_header_enc [OF that] by (simp add: mcs_recv_attach_user_request_def)
  show ?thesis using erect attach E A by (intro exI [of _ erect] exI [of _ attach]) simp
qed

theorem mcs_request_roundtrip_witness:
  "\<exists>erect attach.
    mcs_send_erect_domain_request (\<lambda>t e. (0, stream_bytes t)) zero_alloc [] = Some (True, stream_bytes erect) \<and>
    mcs_send_attach_user_request (\<lambda>t e. (0, stream_bytes t)) zero_alloc [] = Some (True, stream_bytes attach) \<and>
    (\<forall>r rest. Stream_wf r \<longrightarrow> ahead r = stream_bytes erect @ rest \<longrightarrow>
      mcs_recv_erect_domain_request r = Some (Some (), Stream_Seek r 12)) \<and>
    (\<forall>r rest. Stream_wf r \<longrightarrow> ahead r = stream_bytes attach @ rest \<longrightarrow>
      mcs_recv_attach_user_request r = Some (Some (), Stream_Seek r 8))"
  using mcs_request_roundtrip [where tw = "\<lambda>t e. (0, stream_bytes t)" and e = "[]", OF allocates_zero_alloc] by simp

end
