(* ===== verification/Nego.thy ===== *)
theory Nego
  imports Tpdu
begin

text \<open>
  Protocol security negotiation (\<open>libfreerdp/core/nego.c\<close>, \<open>nego.h\<close>): the state machine that
  tries extended NLA, NLA, TLS and standard RDP security in turn, the negotiation
  messages of both sides, and the connection of the security layer.

  The transport is a parameter, a record \<open>nego_ops\<close> of the functions of \<open>transport.c\<close> that
  the code calls, over a state \<open>'e\<close> of the environment. A function of the source is a
  function on the negotiation state and \<open>'e\<close>; \<^const>\<open>None\<close> is a memory fault or, for the
  loop of \<open>nego_connect\<close>, not returning.
\<close>

unbundle bit_operations_syntax

subsection \<open>State\<close>

datatype NEGO_STATE = NEGO_STATE_INITIAL | NEGO_STATE_EXT | NEGO_STATE_NLA | NEGO_STATE_TLS
  | NEGO_STATE_RDP | NEGO_STATE_FAIL | NEGO_STATE_FINAL

abbreviation (input) "PROTOCOL_RDP \<equiv> (0 :: u32)"
abbreviation (input) "PROTOCOL_TLS \<equiv> (1 :: u32)"
abbreviation (input) "PROTOCOL_NLA \<equiv> (2 :: u32)"
abbreviation (input) "PROTOCOL_EXT \<equiv> (8 :: u32)"
abbreviation (input) "PROTOCOL_FAILED_NEGO \<equiv> (0x80000000 :: u32)"
abbreviation (input) "TYPE_RDP_NEG_REQ \<equiv> (1 :: byte)"
abbreviation (input) "TYPE_RDP_NEG_RSP \<equiv> (2 :: byte)"
abbreviation (input) "TYPE_RDP_NEG_FAILURE \<equiv> (3 :: byte)"
abbreviation (input) "SSL_NOT_ALLOWED_BY_SERVER \<equiv> (2 :: u32)"
abbreviation (input) "SSL_CERT_NOT_ON_SERVER \<equiv> (3 :: u32)"
abbreviation (input) "DEFAULT_COOKIE_MAX_LENGTH \<equiv> (0xFF :: u32)"

record rdpNego =
  port :: int
  flags :: u32
  hostname :: "byte list"
  cookie :: "byte list option"
  RoutingToken :: "byte list option"
  SendPreconnectionPdu :: bool
  PreconnectionId :: u32
  PreconnectionBlob :: "byte list option"
  state :: NEGO_STATE
  TcpConnected :: bool
  SecurityConnected :: bool
  CookieMaxLength :: u32
  sendNegoData :: bool
  SelectedProtocol :: u32
  RequestedProtocols :: u32
  NegotiateSecurityLayer :: bool
  EnabledProtocols :: "u32 \<Rightarrow> bool"
  RestrictedAdminModeRequired :: bool
  GatewayEnabled :: bool
  GatewayBypassLocal :: bool

text \<open>
  The routing token is a block of \<open>RoutingTokenLength\<close> bytes, so its length is the length of
  the list; \<open>cookie\<close> holds the characters before the terminating NUL.
\<close>

record nego_settings =
  set_RequestedProtocols :: u32
  set_SelectedProtocol :: u32
  set_NegotiationFlags :: u32
  set_UseRdpSecurityLayer :: bool
  set_EncryptionMethods :: u32
  set_EncryptionLevel :: u32
  set_TlsSecurity :: bool
  set_NlaSecurity :: bool
  set_RdpSecurity :: bool
  set_SupportGraphicsPipeline :: bool
  set_LocalConnection :: bool
  set_RdpServerRsaKey :: bool
  set_RdpKeyFile :: bool
  set_RdpKeyContent :: bool

record 'e nego_ops =
  transport_connect :: "byte list \<Rightarrow> int \<Rightarrow> int \<Rightarrow> 'e \<Rightarrow> bool \<times> 'e"
  transport_set_gateway_enabled :: "bool \<Rightarrow> 'e \<Rightarrow> 'e"
  transport_connect_nla :: "'e \<Rightarrow> bool \<times> 'e"
  transport_connect_tls :: "'e \<Rightarrow> bool \<times> 'e"
  transport_connect_rdp :: "'e \<Rightarrow> bool \<times> 'e"
  transport_disconnect :: "'e \<Rightarrow> 'e"
  transport_write_op :: "wStream \<Rightarrow> 'e \<Rightarrow> int \<times> 'e"
  transport_read_pdu_op :: "wStream \<Rightarrow> 'e \<Rightarrow> int \<times> wStream \<times> 'e"
  allocators :: "'e \<Rightarrow> (alloc \<times> alloc) \<times> 'e"
  ConvertToUnicode :: "byte list \<Rightarrow> int \<times> byte list option"

text \<open>A call \<open>Stream_New (NULL, n)\<close>; \<open>allocators\<close> gives the outcome of its two allocations.\<close>

definition new_stream :: "'e nego_ops \<Rightarrow> nat \<Rightarrow> 'e \<Rightarrow> wStream option \<times> 'e" where
  "new_stream ops n e = (let ((al_s, al_b), e) = allocators ops e in (Stream_New al_s al_b None n, e))"

subsection \<open>Connecting and disconnecting\<close>

definition nego_security_connect :: "'e nego_ops \<Rightarrow> rdpNego \<Rightarrow> 'e \<Rightarrow> bool \<times> rdpNego \<times> 'e" where
  "nego_security_connect ops nego e =
     (if \<not> TcpConnected nego then (False, nego\<lparr>SecurityConnected := False\<rparr>, e)
      else if \<not> SecurityConnected nego then
        (if SelectedProtocol nego = PROTOCOL_NLA then
           (let (ok, e) = transport_connect_nla ops e in (ok, nego\<lparr>SecurityConnected := ok\<rparr>, e))
         else if SelectedProtocol nego = PROTOCOL_TLS then
           (let (ok, e) = transport_connect_tls ops e in (ok, nego\<lparr>SecurityConnected := ok\<rparr>, e))
         else if SelectedProtocol nego = PROTOCOL_RDP then
           (let (ok, e) = transport_connect_rdp ops e in (ok, nego\<lparr>SecurityConnected := ok\<rparr>, e))
         else (False, nego, e))
      else (True, nego, e))"

definition nego_tcp_connect :: "'e nego_ops \<Rightarrow> rdpNego \<Rightarrow> 'e \<Rightarrow> bool \<times> rdpNego \<times> 'e" where
  "nego_tcp_connect ops nego e =
     (if TcpConnected nego then (True, nego, e)
      else if GatewayEnabled nego then
        (let (ok, e) =
           (if GatewayBypassLocal nego
            then transport_connect ops (hostname nego) (port nego) 1 (transport_set_gateway_enabled ops False e)
            else (False, e)) in
         if ok then (True, nego\<lparr>TcpConnected := True\<rparr>, e)
         else let (ok, e) = transport_connect ops (hostname nego) (port nego) 15 (transport_set_gateway_enabled ops True e)
              in (ok, nego\<lparr>TcpConnected := ok\<rparr>, e))
      else let (ok, e) = transport_connect ops (hostname nego) (port nego) 15 e
           in (ok, nego\<lparr>TcpConnected := ok\<rparr>, e))"

definition nego_transport_connect :: "'e nego_ops \<Rightarrow> rdpNego \<Rightarrow> 'e \<Rightarrow> bool \<times> rdpNego \<times> 'e" where
  "nego_transport_connect ops nego e =
     (let (_, nego, e) = nego_tcp_connect ops nego e in
      if TcpConnected nego \<and> \<not> NegotiateSecurityLayer nego then nego_security_connect ops nego e
      else (TcpConnected nego, nego, e))"

definition nego_transport_disconnect :: "'e nego_ops \<Rightarrow> rdpNego \<Rightarrow> 'e \<Rightarrow> bool \<times> rdpNego \<times> 'e" where
  "nego_transport_disconnect ops nego e =
     (let e = (if TcpConnected nego then transport_disconnect ops e else e) in
      (True, nego\<lparr>TcpConnected := False, SecurityConnected := False\<rparr>, e))"

definition nego_disconnect :: "'e nego_ops \<Rightarrow> rdpNego \<Rightarrow> 'e \<Rightarrow> bool \<times> rdpNego \<times> 'e" where
  "nego_disconnect ops nego e = nego_transport_disconnect ops (nego\<lparr>state := NEGO_STATE_INITIAL\<rparr>) e"

definition nego_send_preconnection_pdu :: "'e nego_ops \<Rightarrow> rdpNego \<Rightarrow> 'e \<Rightarrow> (bool \<times> rdpNego \<times> 'e) option" where
  "nego_send_preconnection_pdu ops nego e =
     (case nego_tcp_connect ops nego e of (ok, nego, e) \<Rightarrow>
      if \<not> ok then Some (False, nego, e)
      else
        let (cchPCB, wszPCB) = (case PreconnectionBlob nego of
              None \<Rightarrow> (0 :: u16, None)
            | Some blob \<Rightarrow> let (n, w) = ConvertToUnicode ops blob in (word_of_int n + 1, w));
            cbSize = (18 :: u32) + (if PreconnectionBlob nego = None then 0 else ucast cchPCB * 2);
            (new_s, e) = new_stream ops (unat cbSize) e
        in case new_s of
          None \<Rightarrow> Some (False, nego, e)
        | Some s \<Rightarrow> do {
            s \<leftarrow> Stream_Write_UINT32 s cbSize;
            s \<leftarrow> Stream_Write_UINT32 s 0;
            s \<leftarrow> Stream_Write_UINT32 s 2;
            s \<leftarrow> Stream_Write_UINT32 s (PreconnectionId nego);
            s \<leftarrow> Stream_Write_UINT16 s cchPCB;
            s \<leftarrow> (case wszPCB of None \<Rightarrow> Some s
              | Some w \<Rightarrow> do { bs \<leftarrow> mem_read w 0 (unat cchPCB * 2); Stream_Write s bs });
            let (status, e) = transport_write_op ops (Stream_SealLength s) e;
            Some (\<not> status < 0, nego, e) })"

subsection \<open>Negotiation messages of the client\<close>

definition nego_write_crlf :: "wStream \<Rightarrow> wStream option" where
  "nego_write_crlf s = do { s \<leftarrow> Stream_Write_UINT8 s 0x0D; Stream_Write_UINT8 s 0x0A }"

text \<open>The characters of the cookie prefix, \<open>Cookie: mstshash=\<close> and \<open>Cookie: msts=\<close>.\<close>

definition cookie_prefix :: "byte list" where
  "cookie_prefix = [0x43, 0x6F, 0x6F, 0x6B, 0x69, 0x65, 0x3A, 0x20, 0x6D, 0x73, 0x74, 0x73, 0x68, 0x61, 0x73, 0x68, 0x3D]"

definition token_prefix :: "byte list" where
  "token_prefix = [0x43, 0x6F, 0x6F, 0x6B, 0x69, 0x65, 0x3A, 0x20, 0x6D, 0x73, 0x74, 0x73, 0x3D]"

definition nego_write_token_or_cookie :: "rdpNego \<Rightarrow> wStream \<Rightarrow> (nat \<times> wStream) option" where
  "nego_write_token_or_cookie nego s =
     (case RoutingToken nego of
        Some tok \<Rightarrow> do {
          s \<leftarrow> Stream_Write s tok;
          (if length tok > 2 \<and> tok ! (length tok - 2) = 0x0D \<and> tok ! (length tok - 1) = 0x0A
           then Some (length tok, s)
           else do { s \<leftarrow> nego_write_crlf s; Some (length tok + 2, s) }) }
      | None \<Rightarrow> (case cookie nego of
          Some c \<Rightarrow> do {
            let cookie_length = (if int (length c) > sint (CookieMaxLength nego) then CookieMaxLength nego
                                 else word_of_nat (length c));
            s \<leftarrow> Stream_Write s cookie_prefix;
            bs \<leftarrow> mem_read (c @ [0]) 0 (unat cookie_length);
            s \<leftarrow> Stream_Write s bs;
            s \<leftarrow> nego_write_crlf s;
            Some (unat cookie_length + 19, s) }
        | None \<Rightarrow> Some (0, s)))"

text \<open>The optional RDP_NEG_DATA; the result is the new message length.\<close>

definition nego_write_request_data :: "rdpNego \<Rightarrow> nat \<Rightarrow> wStream \<Rightarrow> (nat \<times> wStream) option" where
  "nego_write_request_data nego len s =
     (if RequestedProtocols nego > PROTOCOL_RDP \<or> sendNegoData nego then do {
        s \<leftarrow> Stream_Write_UINT8 s TYPE_RDP_NEG_REQ;
        s \<leftarrow> Stream_Write_UINT8 s (if RestrictedAdminModeRequired nego then 0x01 else 0);
        s \<leftarrow> Stream_Write_UINT16 s 8;
        s \<leftarrow> Stream_Write_UINT32 s (RequestedProtocols nego);
        Some (len + 8, s) }
      else Some (len, s))"

definition nego_send_negotiation_request :: "'e nego_ops \<Rightarrow> rdpNego \<Rightarrow> 'e \<Rightarrow> (bool \<times> 'e) option" where
  "nego_send_negotiation_request ops nego e =
     (let (new_s, e) = new_stream ops 512 e in
      case new_s of
        None \<Rightarrow> Some (False, e)
      | Some s \<Rightarrow> do {
          let bm = Stream_GetPosition s;
          let s = Stream_Seek s TPDU_CONNECTION_REQUEST_LENGTH;
          (n, s) \<leftarrow> nego_write_token_or_cookie nego s;
          (len, s) \<leftarrow> nego_write_request_data nego (TPDU_CONNECTION_REQUEST_LENGTH + n) s;
          let em = Stream_GetPosition s;
          let s = Stream_SetPosition s bm;
          s \<leftarrow> tpkt_write_header s (word_of_nat len);
          s \<leftarrow> tpdu_write_connection_request s (word_of_nat (len - 5));
          let s = Stream_SealLength (Stream_SetPosition s em);
          let (status, e) = transport_write_op ops s e;
          Some (\<not> status < 0, e) })"

definition nego_process_negotiation_response :: "rdpNego \<Rightarrow> wStream \<Rightarrow> (rdpNego \<times> wStream) option" where
  "nego_process_negotiation_response nego s =
     (if Stream_GetRemainingLength s < 7 then Some (nego\<lparr>state := NEGO_STATE_FAIL\<rparr>, s)
      else do {
        (fl, s) \<leftarrow> Stream_Read_UINT8 s;
        (_, s) \<leftarrow> Stream_Read_UINT16 s;
        (proto, s) \<leftarrow> Stream_Read_UINT32 s;
        Some (nego\<lparr>flags := ucast fl, SelectedProtocol := proto, state := NEGO_STATE_FINAL\<rparr>, s) })"

definition nego_process_negotiation_failure :: "rdpNego \<Rightarrow> wStream \<Rightarrow> (rdpNego \<times> wStream) option" where
  "nego_process_negotiation_failure nego s = do {
     (_, s) \<leftarrow> Stream_Read_UINT8 s;
     (_, s) \<leftarrow> Stream_Read_UINT16 s;
     (failureCode, s) \<leftarrow> Stream_Read_UINT32 s;
     let nego = (if failureCode = SSL_NOT_ALLOWED_BY_SERVER \<or> failureCode = SSL_CERT_NOT_ON_SERVER
                 then nego\<lparr>sendNegoData := True\<rparr> else nego);
     Some (nego\<lparr>state := NEGO_STATE_FAIL\<rparr>, s) }"

text \<open>The check of the protocol the server selected against the enabled ones.\<close>

definition nego_check_selected :: "rdpNego \<Rightarrow> rdpNego" where
  "nego_check_selected nego =
     (if SelectedProtocol nego \<noteq> 0 then
        (if (SelectedProtocol nego = PROTOCOL_NLA \<and> \<not> EnabledProtocols nego PROTOCOL_NLA) \<or>
            (SelectedProtocol nego = PROTOCOL_TLS \<and> \<not> EnabledProtocols nego PROTOCOL_TLS)
         then nego\<lparr>state := NEGO_STATE_FAIL\<rparr> else nego)
      else if \<not> EnabledProtocols nego PROTOCOL_RDP then nego\<lparr>state := NEGO_STATE_FAIL\<rparr> else nego)"

definition nego_recv :: "rdpNego \<Rightarrow> wStream \<Rightarrow> (int \<times> rdpNego) option" where
  "nego_recv nego s = do {
     (len, s) \<leftarrow> tpkt_read_header s;
     (if len = 0 then Some (-1, nego)
      else do {
        (r, s) \<leftarrow> tpdu_read_connection_confirm s;
        (case r of
           None \<Rightarrow> Some (-1, nego)
         | Some li \<Rightarrow>
             if li > 6 then do {
               (type, s) \<leftarrow> Stream_Read_UINT8 s;
               (if type = TYPE_RDP_NEG_RSP then do {
                  (nego, _) \<leftarrow> nego_process_negotiation_response nego s;
                  Some (0, nego_check_selected nego) }
                else if type = TYPE_RDP_NEG_FAILURE then do {
                  (nego, _) \<leftarrow> nego_process_negotiation_failure nego s;
                  Some (0, nego) }
                else Some (0, nego)) }
             else if li = 6 then
               Some (0, nego\<lparr>state := if \<not> EnabledProtocols nego PROTOCOL_RDP then NEGO_STATE_FAIL else NEGO_STATE_FINAL\<rparr>)
             else Some (0, nego\<lparr>state := NEGO_STATE_FAIL\<rparr>)) }) }"

definition nego_recv_response :: "'e nego_ops \<Rightarrow> rdpNego \<Rightarrow> 'e \<Rightarrow> (bool \<times> rdpNego \<times> 'e) option" where
  "nego_recv_response ops nego e =
     (let (new_s, e) = new_stream ops 1024 e in
      case new_s of
        None \<Rightarrow> Some (False, nego, e)
      | Some s \<Rightarrow>
          let (status, s, e) = transport_read_pdu_op ops s e in
          if status < 0 then Some (False, nego, e)
          else do {
            (status, nego) \<leftarrow> nego_recv nego s;
            Some (\<not> status < 0, nego, e) })"

subsection \<open>The attempts\<close>

text \<open>
  The part shared by the four attempts: connect, send the request, receive the response;
  the first that fails puts the machine into \<open>NEGO_STATE_FAIL\<close>. The result tells whether
  the attempt got through to the response.
\<close>

definition nego_exchange :: "'e nego_ops \<Rightarrow> rdpNego \<Rightarrow> 'e \<Rightarrow> (bool \<times> rdpNego \<times> 'e) option" where
  "nego_exchange ops nego e =
     (case nego_transport_connect ops nego e of (ok, nego, e) \<Rightarrow>
      if \<not> ok then Some (False, nego\<lparr>state := NEGO_STATE_FAIL\<rparr>, e)
      else do {
        (ok, e) \<leftarrow> nego_send_negotiation_request ops nego e;
        (if \<not> ok then Some (False, nego\<lparr>state := NEGO_STATE_FAIL\<rparr>, e)
         else do {
           (ok, nego, e) \<leftarrow> nego_recv_response ops nego e;
           (if \<not> ok then Some (False, nego\<lparr>state := NEGO_STATE_FAIL\<rparr>, e)
            else Some (True, nego, e)) }) })"

text \<open>After a response that is not final: disconnect and go on with the first enabled protocol of a list.\<close>

fun nego_next_enabled :: "(u32 \<Rightarrow> bool) \<Rightarrow> (u32 \<times> NEGO_STATE) list \<Rightarrow> NEGO_STATE" where
  "nego_next_enabled en [] = NEGO_STATE_FAIL"
| "nego_next_enabled en ((p, st) # rest) = (if en p then st else nego_next_enabled en rest)"

definition nego_fall_back :: "'e nego_ops \<Rightarrow> (u32 \<times> NEGO_STATE) list \<Rightarrow> rdpNego \<Rightarrow> 'e \<Rightarrow> rdpNego \<times> 'e" where
  "nego_fall_back ops candidates nego e =
     (if state nego \<noteq> NEGO_STATE_FINAL then
        (let (_, nego, e) = nego_transport_disconnect ops nego e in
         (nego\<lparr>state := nego_next_enabled (EnabledProtocols nego) candidates\<rparr>, e))
      else (nego, e))"

definition nego_attempt_ext :: "'e nego_ops \<Rightarrow> rdpNego \<Rightarrow> 'e \<Rightarrow> (rdpNego \<times> 'e) option" where
  "nego_attempt_ext ops nego e = do {
     (ok, nego, e) \<leftarrow> nego_exchange ops (nego\<lparr>RequestedProtocols := PROTOCOL_NLA OR PROTOCOL_TLS OR PROTOCOL_EXT\<rparr>) e;
     Some (if ok then nego_fall_back ops [(PROTOCOL_NLA, NEGO_STATE_NLA), (PROTOCOL_TLS, NEGO_STATE_TLS),
                        (PROTOCOL_RDP, NEGO_STATE_RDP)] nego e
           else (nego, e)) }"

definition nego_attempt_nla :: "'e nego_ops \<Rightarrow> rdpNego \<Rightarrow> 'e \<Rightarrow> (rdpNego \<times> 'e) option" where
  "nego_attempt_nla ops nego e = do {
     (ok, nego, e) \<leftarrow> nego_exchange ops (nego\<lparr>RequestedProtocols := PROTOCOL_NLA OR PROTOCOL_TLS\<rparr>) e;
     Some (if ok then nego_fall_back ops [(PROTOCOL_TLS, NEGO_STATE_TLS), (PROTOCOL_RDP, NEGO_STATE_RDP)] nego e
           else (nego, e)) }"

definition nego_attempt_tls :: "'e nego_ops \<Rightarrow> rdpNego \<Rightarrow> 'e \<Rightarrow> (rdpNego \<times> 'e) option" where
  "nego_attempt_tls ops nego e = do {
     (ok, nego, e) \<leftarrow> nego_exchange ops (nego\<lparr>RequestedProtocols := PROTOCOL_TLS\<rparr>) e;
     Some (if ok then nego_fall_back ops [(PROTOCOL_RDP, NEGO_STATE_RDP)] nego e else (nego, e)) }"

definition nego_attempt_rdp :: "'e nego_ops \<Rightarrow> rdpNego \<Rightarrow> 'e \<Rightarrow> (rdpNego \<times> 'e) option" where
  "nego_attempt_rdp ops nego e = do {
     (_, nego, e) \<leftarrow> nego_exchange ops (nego\<lparr>RequestedProtocols := PROTOCOL_RDP\<rparr>) e;
     Some (nego, e) }"

definition nego_send :: "'e nego_ops \<Rightarrow> rdpNego \<Rightarrow> 'e \<Rightarrow> (rdpNego \<times> 'e) option" where
  "nego_send ops nego e =
     (case state nego of
        NEGO_STATE_EXT \<Rightarrow> nego_attempt_ext ops nego e
      | NEGO_STATE_NLA \<Rightarrow> nego_attempt_nla ops nego e
      | NEGO_STATE_TLS \<Rightarrow> nego_attempt_tls ops nego e
      | NEGO_STATE_RDP \<Rightarrow> nego_attempt_rdp ops nego e
      | _ \<Rightarrow> Some (nego, e))"

text \<open>The \<open>do ... while\<close> of \<open>nego_connect\<close>.\<close>

partial_function (option) nego_loop :: "'e nego_ops \<Rightarrow> rdpNego \<Rightarrow> 'e \<Rightarrow> (bool \<times> rdpNego \<times> 'e) option" where
  "nego_loop ops nego e = do {
     (nego, e) \<leftarrow> nego_send ops nego e;
     (if state nego = NEGO_STATE_FAIL then Some (False, nego\<lparr>state := NEGO_STATE_FINAL\<rparr>, e)
      else if state nego \<noteq> NEGO_STATE_FINAL then nego_loop ops nego e
      else Some (True, nego, e)) }"

text \<open>The branch of \<open>nego_connect\<close> that restricts the enabled protocols to the highest one.\<close>

definition nego_select_highest :: "rdpNego \<Rightarrow> rdpNego" where
  "nego_select_highest nego =
     (let en = (EnabledProtocols nego)(PROTOCOL_NLA := False, PROTOCOL_TLS := False, PROTOCOL_RDP := False, PROTOCOL_EXT := False)
      in case state nego of
        NEGO_STATE_EXT \<Rightarrow> nego\<lparr>EnabledProtocols := en(PROTOCOL_EXT := True, PROTOCOL_NLA := True), SelectedProtocol := PROTOCOL_EXT\<rparr>
      | NEGO_STATE_NLA \<Rightarrow> nego\<lparr>EnabledProtocols := en(PROTOCOL_NLA := True), SelectedProtocol := PROTOCOL_NLA\<rparr>
      | NEGO_STATE_TLS \<Rightarrow> nego\<lparr>EnabledProtocols := en(PROTOCOL_TLS := True), SelectedProtocol := PROTOCOL_TLS\<rparr>
      | NEGO_STATE_RDP \<Rightarrow> nego\<lparr>EnabledProtocols := en(PROTOCOL_RDP := True), SelectedProtocol := PROTOCOL_RDP\<rparr>
      | _ \<Rightarrow> nego\<lparr>EnabledProtocols := en\<rparr>)"

text \<open>The first part of \<open>nego_connect\<close>; the result tells whether to go on.\<close>

definition nego_connect_initial :: "'e nego_ops \<Rightarrow> rdpNego \<Rightarrow> 'e \<Rightarrow> (bool \<times> rdpNego \<times> 'e) option" where
  "nego_connect_initial ops nego e =
     (if state nego \<noteq> NEGO_STATE_INITIAL then Some (True, nego, e)
      else
        let st = nego_next_enabled (EnabledProtocols nego)
          [(PROTOCOL_EXT, NEGO_STATE_EXT), (PROTOCOL_NLA, NEGO_STATE_NLA), (PROTOCOL_TLS, NEGO_STATE_TLS),
           (PROTOCOL_RDP, NEGO_STATE_RDP)];
            nego = nego\<lparr>state := st\<rparr>
        in if st = NEGO_STATE_FAIL then Some (False, nego, e)
        else
          let nego = (if \<not> NegotiateSecurityLayer nego then nego_select_highest nego else nego)
          in if SendPreconnectionPdu nego then do {
            (ok, nego, e) \<leftarrow> nego_send_preconnection_pdu ops nego e;
            (if \<not> ok then Some (False, nego\<lparr>state := NEGO_STATE_FINAL\<rparr>, e) else Some (True, nego, e)) }
          else Some (True, nego, e))"

definition nego_update_settings :: "rdpNego \<Rightarrow> nego_settings \<Rightarrow> nego_settings" where
  "nego_update_settings nego settings =
     (let settings = settings\<lparr>set_RequestedProtocols := RequestedProtocols nego,
        set_SelectedProtocol := SelectedProtocol nego, set_NegotiationFlags := flags nego\<rparr>
      in if SelectedProtocol nego = PROTOCOL_RDP then
        (let settings = settings\<lparr>set_UseRdpSecurityLayer := True\<rparr> in
         if set_EncryptionMethods settings = 0
         then settings\<lparr>set_EncryptionMethods := 0x01 OR 0x08 OR 0x02 OR 0x10\<rparr> else settings)
      else settings)"

definition nego_connect :: "'e nego_ops \<Rightarrow> nego_settings \<Rightarrow> rdpNego \<Rightarrow> 'e \<Rightarrow> (bool \<times> nego_settings \<times> rdpNego \<times> 'e) option" where
  "nego_connect ops settings nego e = do {
     (ok, nego, e) \<leftarrow> nego_connect_initial ops nego e;
     (if \<not> ok then Some (False, settings, nego, e)
      else do {
        (ok, nego, e) \<leftarrow> (if \<not> NegotiateSecurityLayer nego then Some (True, nego\<lparr>state := NEGO_STATE_FINAL\<rparr>, e)
                         else nego_loop ops nego e);
        (if \<not> ok then Some (False, settings, nego, e)
         else
           let settings = nego_update_settings nego settings;
               (ok, nego, e) = nego_security_connect ops nego e
           in Some (ok, settings, nego, e)) }) }"

subsection \<open>Configuration\<close>

definition nego_init :: "rdpNego \<Rightarrow> rdpNego" where
  "nego_init nego = nego\<lparr>state := NEGO_STATE_INITIAL, RequestedProtocols := PROTOCOL_RDP,
     CookieMaxLength := DEFAULT_COOKIE_MAX_LENGTH, sendNegoData := False, flags := 0\<rparr>"

text \<open>\<open>nego_new\<close>: a zeroed structure, initialised.\<close>

definition nego_new :: "bool \<Rightarrow> rdpNego option" where
  "nego_new calloc_ok = (if \<not> calloc_ok then None
     else Some (nego_init \<lparr>port = 0, flags = 0, hostname = [], cookie = None, RoutingToken = None,
       SendPreconnectionPdu = False, PreconnectionId = 0, PreconnectionBlob = None, state = NEGO_STATE_INITIAL,
       TcpConnected = False, SecurityConnected = False, CookieMaxLength = 0, sendNegoData = False,
       SelectedProtocol = 0, RequestedProtocols = 0, NegotiateSecurityLayer = False, EnabledProtocols = (\<lambda>_. False),
       RestrictedAdminModeRequired = False, GatewayEnabled = False, GatewayBypassLocal = False\<rparr>))"

definition nego_set_target :: "rdpNego \<Rightarrow> byte list \<Rightarrow> int \<Rightarrow> rdpNego" where
  "nego_set_target nego host prt = nego\<lparr>hostname := host, port := prt\<rparr>"

definition nego_set_negotiation_enabled :: "rdpNego \<Rightarrow> bool \<Rightarrow> rdpNego" where
  "nego_set_negotiation_enabled nego b = nego\<lparr>NegotiateSecurityLayer := b\<rparr>"

definition nego_set_restricted_admin_mode_required :: "rdpNego \<Rightarrow> bool \<Rightarrow> rdpNego" where
  "nego_set_restricted_admin_mode_required nego b = nego\<lparr>RestrictedAdminModeRequired := b\<rparr>"

definition nego_set_gateway_enabled :: "rdpNego \<Rightarrow> bool \<Rightarrow> rdpNego" where
  "nego_set_gateway_enabled nego b = nego\<lparr>GatewayEnabled := b\<rparr>"

definition nego_set_gateway_bypass_local :: "rdpNego \<Rightarrow> bool \<Rightarrow> rdpNego" where
  "nego_set_gateway_bypass_local nego b = nego\<lparr>GatewayBypassLocal := b\<rparr>"

definition nego_enable_rdp :: "rdpNego \<Rightarrow> bool \<Rightarrow> rdpNego" where
  "nego_enable_rdp nego b = nego\<lparr>EnabledProtocols := (EnabledProtocols nego)(PROTOCOL_RDP := b)\<rparr>"

definition nego_enable_tls :: "rdpNego \<Rightarrow> bool \<Rightarrow> rdpNego" where
  "nego_enable_tls nego b = nego\<lparr>EnabledProtocols := (EnabledProtocols nego)(PROTOCOL_TLS := b)\<rparr>"

definition nego_enable_nla :: "rdpNego \<Rightarrow> bool \<Rightarrow> rdpNego" where
  "nego_enable_nla nego b = nego\<lparr>EnabledProtocols := (EnabledProtocols nego)(PROTOCOL_NLA := b)\<rparr>"

definition nego_enable_ext :: "rdpNego \<Rightarrow> bool \<Rightarrow> rdpNego" where
  "nego_enable_ext nego b = nego\<lparr>EnabledProtocols := (EnabledProtocols nego)(PROTOCOL_EXT := b)\<rparr>"

text \<open>
  The allocation of the token may fail after the old one was freed: the structure then
  has no token (the source keeps the new length beside a null pointer).
\<close>

definition nego_set_routing_token :: "alloc \<Rightarrow> rdpNego \<Rightarrow> byte list \<Rightarrow> bool \<times> rdpNego" where
  "nego_set_routing_token al nego tok =
     (case al (length tok) of
        None \<Rightarrow> (False, nego\<lparr>RoutingToken := None\<rparr>)
      | Some _ \<Rightarrow> (True, nego\<lparr>RoutingToken := Some tok\<rparr>))"

definition nego_set_cookie :: "alloc \<Rightarrow> rdpNego \<Rightarrow> byte list option \<Rightarrow> bool \<times> rdpNego" where
  "nego_set_cookie al nego c =
     (case c of
        None \<Rightarrow> (True, nego\<lparr>cookie := None\<rparr>)
      | Some c \<Rightarrow>
          (case al (length c + 1) of
             None \<Rightarrow> (False, nego\<lparr>cookie := None\<rparr>)
           | Some _ \<Rightarrow> (True, nego\<lparr>cookie := Some c\<rparr>)))"

definition nego_set_cookie_max_length :: "rdpNego \<Rightarrow> u32 \<Rightarrow> rdpNego" where
  "nego_set_cookie_max_length nego n = nego\<lparr>CookieMaxLength := n\<rparr>"

definition nego_set_send_preconnection_pdu :: "rdpNego \<Rightarrow> bool \<Rightarrow> rdpNego" where
  "nego_set_send_preconnection_pdu nego b = nego\<lparr>SendPreconnectionPdu := b\<rparr>"

definition nego_set_preconnection_id :: "rdpNego \<Rightarrow> u32 \<Rightarrow> rdpNego" where
  "nego_set_preconnection_id nego i = nego\<lparr>PreconnectionId := i\<rparr>"

definition nego_set_preconnection_blob :: "rdpNego \<Rightarrow> byte list option \<Rightarrow> rdpNego" where
  "nego_set_preconnection_blob nego b = nego\<lparr>PreconnectionBlob := b\<rparr>"

subsection \<open>Negotiation messages of the server\<close>

text \<open>
  The scan for the terminating CR LF: read two bytes, stop at \<open>0x0A0D\<close>, else step one byte
  back. Every round moves the cursor on by one inside the buffer.
\<close>

function nego_scan_crlf :: "u16 \<Rightarrow> wStream \<Rightarrow> (u16 \<times> wStream) option" where
  "nego_scan_crlf crlf s =
     (if Stream_GetRemainingLength s \<ge> 2 then
        (case Stream_Read_UINT16 s of
           None \<Rightarrow> None
         | Some (crlf, s') \<Rightarrow>
             if crlf = 0x0A0D then Some (crlf, s')
             else (case Stream_Rewind s' 1 of None \<Rightarrow> None | Some s'' \<Rightarrow> nego_scan_crlf crlf s''))
      else Some (crlf, s))"
  by pat_completeness auto

termination
proof (relation "measure (\<lambda>(_, s). length (s_buffer s) - s_pointer s)")
  fix s :: wStream and x crlf s' s''
  assume rd: "Stream_Read_UINT16 s = Some x" "(crlf, s') = x" and rw: "Stream_Rewind s' 1 = Some s''"
  then have "s_pointer s + 2 \<le> length (s_buffer s)" "s' = Stream_Seek s 2"
    by (auto simp: Stream_Read_UINT16_def mem_read_def split: if_splits)
  then show "((crlf, s''), (c, s)) \<in> measure (\<lambda>(_, s). length (s_buffer s) - s_pointer s)" for c
    using rw by (auto simp: Stream_Rewind_def split: if_splits)
qed simp

declare nego_scan_crlf.simps [simp del]

text \<open>\<open>strlen\<close>: the number of bytes before the first NUL of a block; without one the scan leaves the block.\<close>

fun c_strlen :: "byte list \<Rightarrow> nat option" where
  "c_strlen [] = None"
| "c_strlen (b # bs) = (if b = 0 then Some 0 else map_option Suc (c_strlen bs))"

definition nego_read_request_token_or_cookie :: "alloc \<Rightarrow> rdpNego \<Rightarrow> wStream \<Rightarrow> (bool \<times> rdpNego \<times> wStream) option" where
  "nego_read_request_token_or_cookie al nego s =
     (let pos = Stream_GetPosition s in
      if Stream_GetRemainingLength s < 15 then Some (True, nego, s)
      else do {
        m13 \<leftarrow> mem_read (s_buffer s) (s_pointer s) 13;
        let isToken = (m13 = token_prefix);
        (if \<not> isToken \<and> Stream_GetRemainingLength s < 19 then Some (True, nego, s)
         else do {
           m17 \<leftarrow> (if isToken then Some [] else mem_read (s_buffer s) (s_pointer s) 17);
           (if \<not> isToken \<and> m17 \<noteq> cookie_prefix then Some (True, nego, s)
            else do {
              (crlf, s) \<leftarrow> nego_scan_crlf 0 (Stream_Seek s (if isToken then 13 else 17));
              (result, nego, s) \<leftarrow>
                (if crlf = 0x0A0D then do {
                   s \<leftarrow> Stream_Rewind s 2;
                   let len = Stream_GetPosition s - pos;
                   s \<leftarrow> Stream_Write_UINT16 s 0;
                   n \<leftarrow> c_strlen (drop pos (s_buffer s));
                   let str = take len (drop pos (s_buffer s));
                   Some (if n = len then
                       (let (ok, nego) = (if isToken then nego_set_routing_token al nego str
                                          else nego_set_cookie al nego (Some str))
                        in (ok, nego, s))
                     else (False, nego, s)) }
                 else Some (False, nego, s));
              Some (if \<not> result then (False, nego, Stream_SetPosition s pos) else (True, nego, s)) }) }) })"

definition nego_process_negotiation_request :: "rdpNego \<Rightarrow> wStream \<Rightarrow> (rdpNego \<times> wStream) option" where
  "nego_process_negotiation_request nego s = do {
     (_, s) \<leftarrow> Stream_Read_UINT8 s;
     (_, s) \<leftarrow> Stream_Read_UINT16 s;
     (proto, s) \<leftarrow> Stream_Read_UINT32 s;
     Some (nego\<lparr>RequestedProtocols := proto, state := NEGO_STATE_FINAL\<rparr>, s) }"

definition nego_read_request :: "alloc \<Rightarrow> rdpNego \<Rightarrow> wStream \<Rightarrow> (bool \<times> rdpNego \<times> wStream) option" where
  "nego_read_request al nego s = do {
     (_, s) \<leftarrow> tpkt_read_header s;
     (r, s) \<leftarrow> tpdu_read_connection_request s;
     (case r of
        None \<Rightarrow> Some (False, nego, s)
      | Some li \<Rightarrow>
          if unat li \<noteq> Stream_GetRemainingLength s + 6 then Some (False, nego, s)
          else do {
            (ok, nego, s) \<leftarrow> nego_read_request_token_or_cookie al nego s;
            (if \<not> ok then Some (False, nego, s)
             else if Stream_GetRemainingLength s \<ge> 8 then do {
               (type, s) \<leftarrow> Stream_Read_UINT8 s;
               (if type \<noteq> TYPE_RDP_NEG_REQ then Some (False, nego, s)
                else do {
                  (nego, s) \<leftarrow> nego_process_negotiation_request nego s;
                  Some (True, nego, s) }) }
             else Some (True, nego, s)) }) }"

text \<open>The settings of the server after a successful response; the result is what the function returns.\<close>

definition nego_server_settings :: "rdpNego \<Rightarrow> nego_settings \<Rightarrow> bool \<times> nego_settings" where
  "nego_server_settings nego settings =
     (let settings = settings\<lparr>set_RequestedProtocols := RequestedProtocols nego, set_SelectedProtocol := SelectedProtocol nego\<rparr>
      in if SelectedProtocol nego = PROTOCOL_RDP then
        (let settings = settings\<lparr>set_TlsSecurity := False, set_NlaSecurity := False, set_RdpSecurity := True,
               set_UseRdpSecurityLayer := True\<rparr>;
             settings = (if set_EncryptionLevel settings = 0 then settings\<lparr>set_EncryptionLevel := 2\<rparr> else settings);
             settings = (if set_LocalConnection settings
               then settings\<lparr>set_UseRdpSecurityLayer := False, set_EncryptionLevel := 0\<rparr> else settings)
         in (set_RdpServerRsaKey settings \<or> set_RdpKeyFile settings \<or> set_RdpKeyContent settings, settings))
      else if SelectedProtocol nego = PROTOCOL_TLS then
        (True, settings\<lparr>set_TlsSecurity := True, set_NlaSecurity := False, set_RdpSecurity := False,
           set_UseRdpSecurityLayer := False, set_EncryptionLevel := 0\<rparr>)
      else if SelectedProtocol nego = PROTOCOL_NLA then
        (True, settings\<lparr>set_TlsSecurity := True, set_NlaSecurity := True, set_RdpSecurity := False,
           set_UseRdpSecurityLayer := False, set_EncryptionLevel := 0\<rparr>)
      else (True, settings))"

definition nego_failed :: "rdpNego \<Rightarrow> bool" where
  "nego_failed nego \<longleftrightarrow> SelectedProtocol nego AND PROTOCOL_FAILED_NEGO \<noteq> 0"

text \<open>The negotiation data: a failure with its code, or a response with the selected protocol.\<close>

definition nego_write_response_data :: "nego_settings \<Rightarrow> rdpNego \<Rightarrow> wStream \<Rightarrow> wStream option" where
  "nego_write_response_data settings nego s =
     (if nego_failed nego then do {
        let errorCode = SelectedProtocol nego AND NOT PROTOCOL_FAILED_NEGO;
        s \<leftarrow> Stream_Write_UINT8 s TYPE_RDP_NEG_FAILURE;
        s \<leftarrow> Stream_Write_UINT8 s 0;
        s \<leftarrow> Stream_Write_UINT16 s 8;
        Stream_Write_UINT32 s errorCode }
      else do {
        let flgs = (if set_SupportGraphicsPipeline settings then 0x01 OR 0x02 else 0x01);
        s \<leftarrow> Stream_Write_UINT8 s TYPE_RDP_NEG_RSP;
        s \<leftarrow> Stream_Write_UINT8 s flgs;
        s \<leftarrow> Stream_Write_UINT16 s 8;
        Stream_Write_UINT32 s (SelectedProtocol nego) })"

definition nego_send_negotiation_response ::
  "'e nego_ops \<Rightarrow> nego_settings \<Rightarrow> rdpNego \<Rightarrow> 'e \<Rightarrow> (bool \<times> nego_settings \<times> 'e) option" where
  "nego_send_negotiation_response ops settings nego e =
     (let (new_s, e) = new_stream ops 512 e in
      case new_s of
        None \<Rightarrow> Some (False, settings, e)
      | Some s \<Rightarrow> do {
          let bm = Stream_GetPosition s;
          let s = Stream_Seek s TPDU_CONNECTION_CONFIRM_LENGTH;
          s \<leftarrow> nego_write_response_data settings nego s;
          let len = TPDU_CONNECTION_CONFIRM_LENGTH + 8;
          let em = Stream_GetPosition s;
          let s = Stream_SetPosition s bm;
          s \<leftarrow> tpkt_write_header s (word_of_nat len);
          s \<leftarrow> tpdu_write_connection_confirm s (word_of_nat (len - 5));
          let s = Stream_SealLength (Stream_SetPosition s em);
          let (status, e) = transport_write_op ops s e;
          Some (if status < 0 then (False, settings, e)
                else if nego_failed nego then (False, settings, e)
                else let (ok, settings) = nego_server_settings nego settings in (ok, settings, e)) })"

end
