(* ===== verification/NegoProps.thy ===== *)
theory NegoProps
  imports Nego
begin

text \<open>
  The negotiation state machine: progress and termination, what a successful
  connection guarantees, the negotiation messages read back by the other side, and the
  cases in which the code does not do what it means to.
\<close>

unbundle bit_operations_syntax

subsection \<open>The order of the states\<close>

text \<open>The states are ordered as the source declares them; a fallback only moves forward.\<close>

fun nego_rank :: "NEGO_STATE \<Rightarrow> nat" where
  "nego_rank NEGO_STATE_INITIAL = 0" | "nego_rank NEGO_STATE_EXT = 1" | "nego_rank NEGO_STATE_NLA = 2"
| "nego_rank NEGO_STATE_TLS = 3" | "nego_rank NEGO_STATE_RDP = 4" | "nego_rank NEGO_STATE_FAIL = 5"
| "nego_rank NEGO_STATE_FINAL = 6"

lemma nego_rank_inject [simp]: "nego_rank a = nego_rank b \<longleftrightarrow> a = b"
  by (cases a; cases b) simp_all

instantiation NEGO_STATE :: linorder
begin

definition less_eq_NEGO_STATE :: "NEGO_STATE \<Rightarrow> NEGO_STATE \<Rightarrow> bool" where
  "less_eq_NEGO_STATE a b \<longleftrightarrow> nego_rank a \<le> nego_rank b"

definition less_NEGO_STATE :: "NEGO_STATE \<Rightarrow> NEGO_STATE \<Rightarrow> bool" where
  "less_NEGO_STATE a b \<longleftrightarrow> nego_rank a < nego_rank b"

instance
proof
  fix x y :: NEGO_STATE
  assume "x \<le> y" "y \<le> x"
  then have "nego_rank x = nego_rank y" by (simp add: less_eq_NEGO_STATE_def)
  then show "x = y" by simp
qed (auto simp: less_eq_NEGO_STATE_def less_NEGO_STATE_def)

end

lemma nego_less_iff [simp]: "a < b \<longleftrightarrow> nego_rank a < nego_rank b" for a b :: NEGO_STATE
  by (simp add: less_NEGO_STATE_def)

subsection \<open>The parameters: what the transport and the allocator promise\<close>

text \<open>
  \<open>transport_ok\<close>: blocks have the size asked for, and a PDU that \<open>transport_read_pdu\<close>
  reports as read is a well-formed stream at its start, with at least the four bytes of
  the header it was framed by, in a buffer not smaller than the 1024 bytes passed to it.
\<close>

definition transport_ok :: "'e nego_ops \<Rightarrow> bool" where
  "transport_ok ops \<longleftrightarrow>
     (\<forall>e. alloc_ok (fst (fst (allocators ops e))) \<and> alloc_ok (snd (fst (allocators ops e)))) \<and>
     (\<forall>s e status s' e'. transport_read_pdu_op ops s e = (status, s', e') \<longrightarrow> 0 \<le> status \<longrightarrow>
        Stream_wf s' \<and> s_pointer s' = 0 \<and> 4 \<le> length (ahead s') \<and> 1024 \<le> length (s_buffer s'))"

text \<open>The routing token and the cookie fit the 512 bytes of the request.\<close>

definition nego_fits :: "rdpNego \<Rightarrow> bool" where
  "nego_fits nego \<longleftrightarrow> (case RoutingToken nego of Some tok \<Rightarrow> length tok \<le> 491 | None \<Rightarrow> True) \<and>
     unat (CookieMaxLength nego) \<le> 474"

lemma new_stream_cases:
  assumes "transport_ok ops" "0 < n"
  obtains (failed) e' where "new_stream ops n e = (None, e')"
  | (fresh) s e' where "new_stream ops n e = (Some s, e')" "s_pointer s = 0" "length (s_buffer s) = n"
      "s_capacity s = n" "s_length s = n"
proof -
  obtain a b e' where al: "allocators ops e = ((a, b), e')" by (metis surj_pair)
  have ok: "alloc_ok b" using assms(1) al unfolding transport_ok_def by (metis fst_conv snd_conv)
  show thesis
  proof (cases "Stream_New a b None n")
    case None
    with al that(1) show thesis by (simp add: new_stream_def)
  next
    case (Some s)
    then have "s_pointer s = 0" "length (s_buffer s) = n" "s_capacity s = n" "s_length s = n"
      using assms(2) ok by (auto simp: Stream_New_def alloc_ok_def split: option.splits)
    with al Some that(2) show thesis by (simp add: new_stream_def)
  qed
qed

subsection \<open>Receiving a reply\<close>

lemma Read_UINT_inside:
  assumes "s_pointer s + k \<le> length (s_buffer s)"
  shows "1 \<le> k \<Longrightarrow> \<exists>v. Stream_Read_UINT8 s = Some (v, Stream_Seek s 1)"
    and "2 \<le> k \<Longrightarrow> \<exists>v. Stream_Read_UINT16 s = Some (v, Stream_Seek s 2)"
    and "4 \<le> k \<Longrightarrow> \<exists>v. Stream_Read_UINT32 s = Some (v, Stream_Seek s 4)"
  using assms by (simp_all add: Stream_Read_UINT8_def Stream_Read_UINT16_def Stream_Read_UINT32_def mem_read_def)

text \<open>
  What processing a reply may change: the flags, the selected protocol, \<open>sendNegoData\<close> and
  the state, and the state only to \<open>FAIL\<close> or \<open>FINAL\<close>.
\<close>

definition reply_effect :: "rdpNego \<Rightarrow> rdpNego \<Rightarrow> bool" where
  "reply_effect nego nego' \<longleftrightarrow>
     EnabledProtocols nego' = EnabledProtocols nego \<and> RequestedProtocols nego' = RequestedProtocols nego \<and>
     RoutingToken nego' = RoutingToken nego \<and> cookie nego' = cookie nego \<and> CookieMaxLength nego' = CookieMaxLength nego \<and>
     TcpConnected nego' = TcpConnected nego \<and> SecurityConnected nego' = SecurityConnected nego \<and>
     NegotiateSecurityLayer nego' = NegotiateSecurityLayer nego \<and>
     (state nego' = state nego \<or> state nego' = NEGO_STATE_FAIL \<or> state nego' = NEGO_STATE_FINAL)"

lemma reply_effect_check: "reply_effect nego nego' \<Longrightarrow> reply_effect nego (nego_check_selected nego')"
  by (simp add: reply_effect_def nego_check_selected_def)

lemma Stream_Seek_3: "Stream_Seek s (Suc (Suc (Suc 0))) = Stream_Seek s 3"
  by (simp add: numeral_3_eq_3)

lemma nego_process_response_Some:
  assumes "Stream_wf s"
  shows "\<exists>nego' s'. nego_process_negotiation_response nego s = Some (nego', s') \<and> reply_effect nego nego' \<and>
    (state nego' = NEGO_STATE_FAIL \<or> state nego' = NEGO_STATE_FINAL)"
proof (cases "length (ahead s) < 7")
  case True
  with assms show ?thesis by (simp add: nego_process_negotiation_response_def Remaining_ahead reply_effect_def)
next
  case False
  then have b: "s_pointer s + 7 \<le> length (s_buffer s)" using assms by (auto simp: Stream_wf_def length_ahead)
  obtain fl where 1: "Stream_Read_UINT8 s = Some (fl, Stream_Seek s 1)" using Read_UINT_inside(1) [OF b] by auto
  obtain l where 2: "Stream_Read_UINT16 (Stream_Seek s 1) = Some (l, Stream_Seek s 3)"
    using Read_UINT_inside(2) [of "Stream_Seek s 1" 6] b by (auto simp: Stream_Seek_3)
  obtain p where 3: "Stream_Read_UINT32 (Stream_Seek s 3) = Some (p, Stream_Seek s 7)"
    using Read_UINT_inside(3) [of "Stream_Seek s 3" 4] b by auto
  from 1 2 3 False assms
  have "nego_process_negotiation_response nego s =
      Some (nego\<lparr>flags := ucast fl, SelectedProtocol := p, state := NEGO_STATE_FINAL\<rparr>, Stream_Seek s 7)"
    by (simp add: nego_process_negotiation_response_def Remaining_ahead)
  then show ?thesis by (simp add: reply_effect_def)
qed

lemma nego_process_failure_Some:
  assumes b: "s_pointer s + 7 \<le> length (s_buffer s)"
  shows "\<exists>nego' s'. nego_process_negotiation_failure nego s = Some (nego', s') \<and> reply_effect nego nego' \<and>
    state nego' = NEGO_STATE_FAIL"
proof -
  obtain fl where 1: "Stream_Read_UINT8 s = Some (fl, Stream_Seek s 1)" using Read_UINT_inside(1) [OF b] by auto
  obtain l where 2: "Stream_Read_UINT16 (Stream_Seek s 1) = Some (l, Stream_Seek s 3)"
    using Read_UINT_inside(2) [of "Stream_Seek s 1" 6] b by (auto simp: Stream_Seek_3)
  obtain c where 3: "Stream_Read_UINT32 (Stream_Seek s 3) = Some (c, Stream_Seek s 7)"
    using Read_UINT_inside(3) [of "Stream_Seek s 3" 4] b by auto
  from 1 2 3 show ?thesis by (simp add: nego_process_negotiation_failure_def reply_effect_def)
qed

text \<open>
  The reply on an arbitrary well-formed stream. \<open>unknown_reply s\<close>: a confirm that carries
  negotiation data of a type that is neither a response nor a failure; \<open>bare_reply s\<close>: one
  without negotiation data.
\<close>

definition reply_parts :: "wStream \<Rightarrow> (byte \<times> wStream) option" where
  "reply_parts s = (case tpkt_read_header s of
      Some (len, s1) \<Rightarrow> if len = 0 then None else
        (case tpdu_read_connection_confirm s1 of Some (Some li, s2) \<Rightarrow> Some (li, s2) | _ \<Rightarrow> None)
    | None \<Rightarrow> None)"

definition unknown_reply :: "wStream \<Rightarrow> bool" where
  "unknown_reply s \<longleftrightarrow> (case reply_parts s of
      Some (li, s2) \<Rightarrow> li > 6 \<and> Stream_Peek_UINT8 s2 \<noteq> Some 2 \<and> Stream_Peek_UINT8 s2 \<noteq> Some 3
    | None \<Rightarrow> False)"

definition bare_reply :: "wStream \<Rightarrow> bool" where
  "bare_reply s \<longleftrightarrow> (case reply_parts s of Some (li, _) \<Rightarrow> li = 6 | None \<Rightarrow> False)"

text \<open>The selected protocol is one of the enabled ones (or unknown to the client).\<close>

definition selected_enabled :: "rdpNego \<Rightarrow> bool" where
  "selected_enabled nego \<longleftrightarrow>
     (SelectedProtocol nego = PROTOCOL_NLA \<longrightarrow> EnabledProtocols nego PROTOCOL_NLA) \<and>
     (SelectedProtocol nego = PROTOCOL_TLS \<longrightarrow> EnabledProtocols nego PROTOCOL_TLS) \<and>
     (SelectedProtocol nego = PROTOCOL_RDP \<longrightarrow> EnabledProtocols nego PROTOCOL_RDP)"

lemma check_selected_enabled: "state (nego_check_selected nego) = NEGO_STATE_FINAL \<Longrightarrow> selected_enabled (nego_check_selected nego)"
  by (auto simp: nego_check_selected_def selected_enabled_def split: if_splits)

text \<open>A confirm with negotiation data, its parts read.\<close>

lemma nego_recv_negdata:
  assumes t: "tpkt_read_header s = Some (len, s1)" "len \<noteq> 0"
    and conf: "tpdu_read_connection_confirm s1 = Some (Some li, s2)" "li > 6"
    and s2: "Stream_wf s2" "1 \<le> length (ahead s2)" "Stream_room s2 8"
  shows "\<exists>nego'. nego_recv nego s = Some (0, nego') \<and> reply_effect nego nego' \<and>
    (unknown_reply s \<or> state nego' = NEGO_STATE_FAIL \<or> state nego' = NEGO_STATE_FINAL) \<and>
    (unknown_reply s \<longrightarrow> nego' = nego) \<and>
    (state nego' = NEGO_STATE_FINAL \<longrightarrow> state nego = NEGO_STATE_FINAL \<or> selected_enabled nego')"
proof -
  obtain ty rest where a: "ahead s2 = ty # rest" using s2(2) by (cases "ahead s2") auto
  have rd: "Stream_Read_UINT8 s2 = Some (ty, Stream_Seek s2 1)" "Stream_Peek_UINT8 s2 = Some ty"
    using Read_UINT8_ahead [OF s2(1) a] Peek_UINT8_ahead [OF s2(1) a] by simp_all
  have unk: "unknown_reply s \<longleftrightarrow> ty \<noteq> 2 \<and> ty \<noteq> 3"
    using t conf rd(2) by (simp add: unknown_reply_def reply_parts_def)
  have wf3: "Stream_wf (Stream_Seek s2 1)" using Stream_wf_Seek [OF s2(1,2)] .
  have room: "Stream_room (Stream_Seek s2 1) 7" using s2(3) by simp
  obtain n1 s1' where n1: "nego_process_negotiation_response nego (Stream_Seek s2 1) = Some (n1, s1')"
    "reply_effect nego n1" "state n1 = NEGO_STATE_FAIL \<or> state n1 = NEGO_STATE_FINAL"
    using nego_process_response_Some [OF wf3] by blast
  obtain n2 s2' where n2: "nego_process_negotiation_failure nego (Stream_Seek s2 1) = Some (n2, s2')"
    "reply_effect nego n2" "state n2 = NEGO_STATE_FAIL"
    using nego_process_failure_Some [OF room] by blast
  have st: "state (nego_check_selected n1) = NEGO_STATE_FAIL \<or> state (nego_check_selected n1) = NEGO_STATE_FINAL"
    using n1(3) by (auto simp: nego_check_selected_def)
  consider "ty = 2" | "ty = 3" | "ty \<noteq> 2" "ty \<noteq> 3" by blast
  then show ?thesis
  proof cases
    case 1
    then show ?thesis using t conf rd n1 st unk reply_effect_check [OF n1(2)] check_selected_enabled [of n1]
      by (simp add: nego_recv_def)
  next
    case 2
    then show ?thesis using t conf rd n2 unk by (simp add: nego_recv_def)
  next
    case 3
    then show ?thesis using t conf rd unk by (simp add: nego_recv_def reply_effect_def)
  qed
qed

lemma nego_recv_Some:
  assumes s: "Stream_wf s" "s_pointer s = 0" "4 \<le> length (ahead s)" "1024 \<le> length (s_buffer s)"
  shows "\<exists>r nego'. nego_recv nego s = Some (r, nego') \<and> reply_effect nego nego' \<and>
    (r < 0 \<or> unknown_reply s \<or> state nego' = NEGO_STATE_FAIL \<or> state nego' = NEGO_STATE_FINAL) \<and>
    (unknown_reply s \<longrightarrow> r = 0 \<and> nego' = nego) \<and>
    (state nego' = NEGO_STATE_FINAL \<longrightarrow> state nego = NEGO_STATE_FINAL \<or> bare_reply s \<or> selected_enabled nego')"
proof -
  obtain len m where t: "tpkt_read_header s = Some (len, Stream_Seek s m)" "m \<le> 4"
    using tpkt_read_header_safe [OF s(1,3)] by blast
  have wf: "Stream_wf (Stream_Seek s m)" using s t(2) by (intro Stream_wf_Seek) auto
  show ?thesis
  proof (cases "len = 0")
    case True
    with t show ?thesis by (simp add: nego_recv_def reply_effect_def unknown_reply_def reply_parts_def)
  next
    case len: False
    show ?thesis
    proof (cases rule: tpdu_confirm_cases [OF wf])
      case (1 k)
      with t len show ?thesis by (simp add: nego_recv_def reply_effect_def unknown_reply_def reply_parts_def)
    next
      case (2 li)
      let ?s = "Stream_Seek s (m + 7)"
      have conf: "tpdu_read_connection_confirm (Stream_Seek s m) = Some (Some li, ?s)" using 2(1) by simp
      have wf2: "Stream_wf ?s" using 2(2) Stream_wf_Seek [OF wf, of 7] by simp
      have "6 \<le> li" using 2(4) by (simp add: word_le_nat_alt)
      then consider "li > 6" | "li = 6" by fastforce
      then show ?thesis
      proof cases
        case 1
        then have "1 \<le> length (ahead ?s)" using 2(5) by (simp add: word_less_nat_alt)
        moreover have "Stream_room ?s 8" using s(2,4) t(2) by simp
        ultimately show ?thesis using nego_recv_negdata [OF t(1) len conf 1 wf2, of nego] by auto
      next
        case 2
        then show ?thesis using t len conf
          by (simp add: nego_recv_def reply_effect_def unknown_reply_def bare_reply_def reply_parts_def)
      qed
    qed
  qed
qed

subsection \<open>Sending the request\<close>

definition cookie_limit :: "rdpNego \<Rightarrow> byte list \<Rightarrow> byte list" where
  "cookie_limit nego c = take (unat (CookieMaxLength nego)) c"

definition token_or_cookie_bytes :: "rdpNego \<Rightarrow> byte list" where
  "token_or_cookie_bytes nego = (case RoutingToken nego of
      Some tok \<Rightarrow> tok @ (if length tok > 2 \<and> tok ! (length tok - 2) = 0x0D \<and> tok ! (length tok - 1) = 0x0A
        then [] else [0x0D, 0x0A])
    | None \<Rightarrow> (case cookie nego of Some c \<Rightarrow> cookie_prefix @ cookie_limit nego c @ [0x0D, 0x0A] | None \<Rightarrow> []))"

definition nego_data_bytes :: "rdpNego \<Rightarrow> byte list" where
  "nego_data_bytes nego = (if RequestedProtocols nego > PROTOCOL_RDP \<or> sendNegoData nego
     then [TYPE_RDP_NEG_REQ, if RestrictedAdminModeRequired nego then 1 else 0] @ le_bytes16 8 @ le_bytes32 (RequestedProtocols nego)
     else [])"

definition nego_request_bytes :: "rdpNego \<Rightarrow> byte list" where
  "nego_request_bytes nego = (let T = token_or_cookie_bytes nego @ nego_data_bytes nego in
     tpkt_bytes (word_of_nat (11 + length T)) @ tpdu_bytes (X224_TPDU_CONNECTION_REQUEST, word_of_nat (6 + length T)) @ T)"

lemma length_cookie_prefix [simp]: "length cookie_prefix = 17"
  by (simp add: cookie_prefix_def)

lemma length_token_or_cookie_bytes: "nego_fits nego \<Longrightarrow> length (token_or_cookie_bytes nego) \<le> 493"
  by (auto simp: token_or_cookie_bytes_def nego_fits_def cookie_limit_def split: option.splits)

lemma length_nego_data_bytes: "length (nego_data_bytes nego) \<le> 8"
  by (simp add: nego_data_bytes_def)

lemma nego_write_crlf_put: "Stream_room s 2 \<Longrightarrow> nego_write_crlf s = Some (Stream_put [0x0D, 0x0A] s)"
  by (simp add: nego_write_crlf_def Write_UINT_put)

lemma cookie_length_cases:
  assumes "unat (m :: u32) \<le> 474"
  shows "unat (if int (length c) > sint m then m else word_of_nat (length c)) = min (unat m) (length c)"
proof -
  have "sint m = int (unat m)" using c_int_small [of "unat m"] assms by (simp add: c_int_def)
  then have "int (length c) > sint m \<longleftrightarrow> unat m < length c" by linarith
  moreover have "\<not> unat m < length c \<Longrightarrow> unat (word_of_nat (length c) :: u32) = length c"
    using assms by (simp add: unsigned_of_nat take_bit_nat_eq_self)
  ultimately show ?thesis by simp
qed

lemma nego_write_token_or_cookie_put:
  assumes fits: "nego_fits nego" and room: "Stream_room s (length (token_or_cookie_bytes nego))"
  shows "nego_write_token_or_cookie nego s =
     Some (length (token_or_cookie_bytes nego), Stream_put (token_or_cookie_bytes nego) s)"
proof (cases "RoutingToken nego")
  case (Some tok)
  with room show ?thesis
    by (auto simp: nego_write_token_or_cookie_def token_or_cookie_bytes_def Stream_Write_put nego_write_crlf_put)
next
  case tok: None
  show ?thesis
  proof (cases "cookie nego")
    case None
    with tok show ?thesis by (simp add: nego_write_token_or_cookie_def token_or_cookie_bytes_def)
  next
    case (Some c)
    let ?n = "if int (length c) > sint (CookieMaxLength nego) then CookieMaxLength nego else word_of_nat (length c)"
    have n: "unat ?n = length (cookie_limit nego c)"
      using cookie_length_cases [of "CookieMaxLength nego" c] fits by (simp add: nego_fits_def cookie_limit_def)
    have m: "mem_read (c @ [0]) 0 (unat ?n) = Some (cookie_limit nego c)"
      unfolding n by (auto simp: mem_read_def cookie_limit_def min_def)
    show ?thesis using room unfolding nego_write_token_or_cookie_def token_or_cookie_bytes_def tok Some Let_def
      by (simp add: m [unfolded n] n Stream_Write_put nego_write_crlf_put del: of_nat_eq_0_iff split del: if_split)
  qed
qed

lemma nego_send_request_sends:
  assumes fits: "nego_fits nego" and s: "new_stream ops 512 e = (Some s, e1)" "s_pointer s = 0" "length (s_buffer s) = 512"
  shows "\<exists>t. stream_bytes t = nego_request_bytes nego \<and>
    nego_send_negotiation_request ops nego e = Some (\<not> fst (transport_write_op ops t e1) < 0, snd (transport_write_op ops t e1))"
proof -
  let ?C = "token_or_cookie_bytes nego" and ?N = "nego_data_bytes nego"
  define P where "P = ?C @ ?N"
  define L where "L = 11 + length P"
  define H where "H = tpkt_bytes (word_of_nat L) @ tpdu_bytes (X224_TPDU_CONNECTION_REQUEST, word_of_nat (L - 5))"
  define s1 where "s1 = Stream_SetPosition (Stream_put P (Stream_Seek s 11)) 0"
  let ?t = "Stream_SealLength (Stream_SetPosition (Stream_put H s1) L)"
  have len: "length ?C \<le> 493" "length ?N \<le> 8" using length_token_or_cookie_bytes [OF fits] length_nego_data_bytes by auto
  then have P: "length P \<le> 501" by (simp add: P_def)
  have H: "length H = 11" by (simp add: H_def length_tpdu_bytes x224_codes)
  have s1: "s_pointer s1 = 0" "length (s_buffer s1) = 512" using s P by (simp_all add: s1_def Stream_SetPosition_def)
  have "stream_bytes ?t = H @ P" unfolding L_def s1_def using s P H by (intro header_last_bytes) auto
  moreover have "H @ P = nego_request_bytes nego" by (simp add: nego_request_bytes_def Let_def H_def L_def P_def)
  ultimately have bytes: "stream_bytes ?t = nego_request_bytes nego" by simp
  have w: "nego_write_token_or_cookie nego (Stream_Seek s 11) = Some (length ?C, Stream_put ?C (Stream_Seek s 11))"
    using s len by (intro nego_write_token_or_cookie_put [OF fits]) simp
  have d: "nego_write_request_data nego (11 + length ?C) (Stream_put ?C (Stream_Seek s 11)) = Some (L, Stream_put P (Stream_Seek s 11))"
    using s len by (simp add: nego_write_request_data_def nego_data_bytes_def Write_UINT_put L_def P_def)
  have h1: "tpkt_write_header s1 (word_of_nat L) = Some (Stream_put (tpkt_bytes (word_of_nat L)) s1)"
    using s1 by (intro tpkt_write_header_put) simp
  have h2: "tpdu_write_connection_request (Stream_put (tpkt_bytes (word_of_nat L)) s1) (word_of_nat (L - 5))
      = Some (Stream_put H s1)"
    using s1 tpdu_write_header_put [of "Stream_put (tpkt_bytes (word_of_nat L)) s1"
        X224_TPDU_CONNECTION_REQUEST "word_of_nat (L - 5)"]
    by (simp add: tpdu_write_connection_request_def length_tpdu_bytes x224_codes ucast_byte_of_nat H_def)
  have em: "Stream_GetPosition (Stream_put P (Stream_Seek s 11)) = L" "Stream_GetPosition s = 0"
    using s(2) by (simp_all add: Stream_GetPosition_def L_def)
  have "nego_send_negotiation_request ops nego e =
      Some (\<not> fst (transport_write_op ops ?t e1) < 0, snd (transport_write_op ops ?t e1))"
    unfolding nego_send_negotiation_request_def s(1) tpdu_lengths
    using h1 h2 w d em by (simp add: split_def Let_def s1_def [symmetric])
  with bytes show ?thesis by blast
qed

subsection \<open>One attempt\<close>

definition nego_frame :: "rdpNego \<Rightarrow> rdpNego \<Rightarrow> bool" where
  "nego_frame nego nego' \<longleftrightarrow>
     EnabledProtocols nego' = EnabledProtocols nego \<and> RoutingToken nego' = RoutingToken nego \<and> cookie nego' = cookie nego \<and>
     CookieMaxLength nego' = CookieMaxLength nego \<and> NegotiateSecurityLayer nego' = NegotiateSecurityLayer nego"

lemma nego_frame_trans: "nego_frame a b \<Longrightarrow> nego_frame b c \<Longrightarrow> nego_frame a c"
  by (simp add: nego_frame_def)

lemma reply_effect_frame: "reply_effect a b \<Longrightarrow> nego_frame a b"
  by (simp add: reply_effect_def nego_frame_def)

lemma nego_fits_frame: "nego_frame a b \<Longrightarrow> nego_fits b = nego_fits a"
  by (simp add: nego_frame_def nego_fits_def)

lemma nego_transport_connect_frame:
  assumes "nego_transport_connect ops nego e = (ok, nego', e')"
  shows "nego_frame nego nego'" "state nego' = state nego" "RequestedProtocols nego' = RequestedProtocols nego"
  using assms
  by (auto simp: nego_transport_connect_def nego_tcp_connect_def nego_security_connect_def nego_frame_def
      split: if_splits prod.splits)

text \<open>A reply received by one attempt: the PDU that \<open>transport_read_pdu\<close> delivered.\<close>

definition replies :: "'e nego_ops \<Rightarrow> wStream \<Rightarrow> bool" where
  "replies ops s' \<longleftrightarrow> (\<exists>s e status e'. transport_read_pdu_op ops s e = (status, s', e') \<and> 0 \<le> status)"

lemma transport_ok_reply:
  "transport_ok ops \<Longrightarrow> replies ops s \<Longrightarrow> Stream_wf s \<and> s_pointer s = 0 \<and> 4 \<le> length (ahead s) \<and> 1024 \<le> length (s_buffer s)"
  unfolding transport_ok_def replies_def by blast

lemma nego_recv_response_Some:
  assumes ok: "transport_ok ops"
  shows "\<exists>r nego' e'. nego_recv_response ops nego e = Some (r, nego', e') \<and> reply_effect nego nego' \<and>
    (r \<longrightarrow> (\<exists>s. replies ops s \<and>
      (unknown_reply s \<or> state nego' = NEGO_STATE_FAIL \<or> state nego' = NEGO_STATE_FINAL) \<and>
      (unknown_reply s \<longrightarrow> nego' = nego) \<and>
      (state nego' = NEGO_STATE_FINAL \<longrightarrow> state nego = NEGO_STATE_FINAL \<or> bare_reply s \<or> selected_enabled nego')))"
proof (cases rule: new_stream_cases [OF ok, of 1024 e])
  case (2 e1)
  then show ?thesis by (simp add: nego_recv_response_def reply_effect_def ex_bool_eq)
next
  case (3 s e1)
  obtain status s' e2 where rd: "transport_read_pdu_op ops s e1 = (status, s', e2)" by (metis surj_pair)
  show ?thesis
  proof (cases "status < 0")
    case True
    with 3 rd show ?thesis by (simp add: nego_recv_response_def reply_effect_def ex_bool_eq)
  next
    case False
    with rd have rep: "replies ops s'" unfolding replies_def by fastforce
    have "Stream_wf s'" "s_pointer s' = 0" "4 \<le> length (ahead s')" "1024 \<le> length (s_buffer s')"
      using transport_ok_reply [OF ok rep] by simp_all
    from nego_recv_Some [OF this, of nego] obtain r nego' where "nego_recv nego s' = Some (r, nego')" "reply_effect nego nego'"
      "r < 0 \<or> unknown_reply s' \<or> state nego' = NEGO_STATE_FAIL \<or> state nego' = NEGO_STATE_FINAL"
      "unknown_reply s' \<longrightarrow> r = 0 \<and> nego' = nego"
      "state nego' = NEGO_STATE_FINAL \<longrightarrow> state nego = NEGO_STATE_FINAL \<or> bare_reply s' \<or> selected_enabled nego'"
      by (elim exE conjE)
    with 3 rd False rep show ?thesis by (auto simp: nego_recv_response_def)
  qed
qed simp

lemma nego_send_request_Some:
  assumes "transport_ok ops" "nego_fits nego"
  shows "\<exists>ok e'. nego_send_negotiation_request ops nego e = Some (ok, e')"
proof (cases rule: new_stream_cases [OF assms(1), of 512 e])
  case (2 e1)
  then show ?thesis by (simp add: nego_send_negotiation_request_def ex_bool_eq)
next
  case (3 s e1)
  then show ?thesis using nego_send_request_sends [OF assms(2) 3(1-3)] by blast
qed simp

lemma nego_exchange_Some:
  assumes ok: "transport_ok ops" and fits: "nego_fits nego"
  shows "\<exists>r nego' e'. nego_exchange ops nego e = Some (r, nego', e') \<and> nego_frame nego nego' \<and>
    (\<not> r \<longrightarrow> state nego' = NEGO_STATE_FAIL) \<and>
    (r \<longrightarrow> (\<exists>s. replies ops s \<and>
      (unknown_reply s \<or> state nego' = NEGO_STATE_FAIL \<or> state nego' = NEGO_STATE_FINAL) \<and>
      (unknown_reply s \<longrightarrow> state nego' = state nego) \<and>
      (state nego' = NEGO_STATE_FINAL \<longrightarrow> state nego = NEGO_STATE_FINAL \<or> bare_reply s \<or> selected_enabled nego')))"
proof -
  obtain c n1 e1 where c: "nego_transport_connect ops nego e = (c, n1, e1)" by (metis surj_pair)
  note f1 = nego_transport_connect_frame [OF c]
  have "nego_fits n1" using fits nego_fits_frame [OF f1(1)] by simp
  then obtain r2 e2 where r2: "nego_send_negotiation_request ops n1 e1 = Some (r2, e2)"
    using nego_send_request_Some [OF ok] by blast
  from nego_recv_response_Some [OF ok, of n1 e2]
  obtain r3 n3 e3 where r3: "nego_recv_response ops n1 e2 = Some (r3, n3, e3)" "reply_effect n1 n3"
    "r3 \<longrightarrow> (\<exists>s. replies ops s \<and>
      (unknown_reply s \<or> state n3 = NEGO_STATE_FAIL \<or> state n3 = NEGO_STATE_FINAL) \<and>
      (unknown_reply s \<longrightarrow> n3 = n1) \<and>
      (state n3 = NEGO_STATE_FINAL \<longrightarrow> state n1 = NEGO_STATE_FINAL \<or> bare_reply s \<or> selected_enabled n3))"
    by (elim exE conjE)
  have f: "nego_frame nego n3" using nego_frame_trans [OF f1(1) reply_effect_frame [OF r3(2)]] .
  have fail: "nego_frame a (b\<lparr>state := NEGO_STATE_FAIL\<rparr>) = nego_frame a b" for a b by (simp add: nego_frame_def)
  consider "\<not> c" | "c" "\<not> r2" | "c" "r2" "\<not> r3" | "c" "r2" "r3" by blast
  then show ?thesis
  proof cases
    case 4
    then have "nego_exchange ops nego e = Some (True, n3, e3)" using c r2 r3(1) by (simp add: nego_exchange_def)
    with 4 f f1(2) r3(3) show ?thesis by fastforce
  qed (use c r2 r3(1) f f1(1) in \<open>simp_all add: nego_exchange_def fail ex_bool_eq\<close>)
qed

text \<open>
  One round of the loop. \<open>attempting st\<close>: the four states that make an attempt. A round
  moves the state forward; only in the RDP state it may stay, on a reply of unknown type.
  It reaches \<open>FINAL\<close> only with an enabled protocol, or on a reply without negotiation data.
\<close>

definition attempting :: "NEGO_STATE \<Rightarrow> bool" where
  "attempting st \<longleftrightarrow> st = NEGO_STATE_EXT \<or> st = NEGO_STATE_NLA \<or> st = NEGO_STATE_TLS \<or> st = NEGO_STATE_RDP"

definition round_effect :: "'e nego_ops \<Rightarrow> rdpNego \<Rightarrow> rdpNego \<Rightarrow> bool" where
  "round_effect ops nego nego' \<longleftrightarrow> nego_frame nego nego' \<and>
     (state nego < state nego' \<or> state nego = NEGO_STATE_RDP \<and> state nego' = NEGO_STATE_RDP \<and> (\<exists>s. replies ops s \<and> unknown_reply s)) \<and>
     (state nego' = NEGO_STATE_FINAL \<longrightarrow> (\<exists>s. replies ops s \<and> bare_reply s) \<or> selected_enabled nego')"

lemma nego_fall_back_effect:
  assumes "nego_fall_back ops cands nego e = (nego', e')"
  shows "nego_frame nego nego'" "state nego' = (if state nego = NEGO_STATE_FINAL then NEGO_STATE_FINAL
     else nego_next_enabled (EnabledProtocols nego) cands)" "state nego = NEGO_STATE_FINAL \<Longrightarrow> nego' = nego"
  using assms by (auto simp: nego_fall_back_def nego_transport_disconnect_def nego_frame_def split: if_splits)

text \<open>The shape shared by the attempts: an exchange, then the fallback to later states.\<close>

lemma nego_attempt_effect:
  assumes ok: "transport_ok ops" and fits: "nego_fits nego"
    and st: "attempting (state nego)"
    and cands: "\<And>en. nego_rank (state nego) < nego_rank (nego_next_enabled en cands)"
      "\<And>en. nego_next_enabled en cands \<noteq> NEGO_STATE_FINAL"
  shows "\<exists>nego' e'. (do { (r, n, e) \<leftarrow> nego_exchange ops (nego\<lparr>RequestedProtocols := req\<rparr>) e;
      Some (if r then nego_fall_back ops cands n e else (n, e)) }) = Some (nego', e') \<and> round_effect ops nego nego'"
proof -
  let ?n = "nego\<lparr>RequestedProtocols := req\<rparr>"
  have "nego_fits ?n" using fits by (simp add: nego_fits_def)
  from nego_exchange_Some [OF ok this, of e] obtain r n e1 where
    x: "nego_exchange ops ?n e = Some (r, n, e1)" "nego_frame ?n n" "\<not> r \<longrightarrow> state n = NEGO_STATE_FAIL"
      "r \<longrightarrow> (\<exists>s. replies ops s \<and> (unknown_reply s \<or> state n = NEGO_STATE_FAIL \<or> state n = NEGO_STATE_FINAL) \<and>
        (unknown_reply s \<longrightarrow> state n = state ?n) \<and>
        (state n = NEGO_STATE_FINAL \<longrightarrow> state ?n = NEGO_STATE_FINAL \<or> bare_reply s \<or> selected_enabled n))"
    by (elim exE conjE)
  have fr: "nego_frame nego n" using x(2) by (simp add: nego_frame_def)
  have le: "nego_rank (state nego) < 5" "state nego \<noteq> NEGO_STATE_FINAL" using st by (auto simp: attempting_def)
  show ?thesis
  proof (cases r)
    case False
    with x fr le show ?thesis by (simp add: round_effect_def)
  next
    case True
    obtain n' e2 where fb: "nego_fall_back ops cands n e1 = (n', e2)" by fastforce
    note fe = nego_fall_back_effect [OF fb]
    have "round_effect ops nego n'"
      using fe(1,2) nego_frame_trans [OF fr fe(1)] cands le x(4) True fe(3)
      by (auto simp: round_effect_def)
    then show ?thesis using x(1) True fb by simp
  qed
qed

lemma nego_send_effect:
  assumes ok: "transport_ok ops" and fits: "nego_fits nego" and st: "attempting (state nego)"
  shows "\<exists>nego' e'. nego_send ops nego e = Some (nego', e') \<and> round_effect ops nego nego'"
proof (cases "state nego = NEGO_STATE_RDP")
  case True
  let ?n = "nego\<lparr>RequestedProtocols := PROTOCOL_RDP\<rparr>"
  have "nego_fits ?n" using fits by (simp add: nego_fits_def)
  from nego_exchange_Some [OF ok this, of e] obtain r n e1 where
    x: "nego_exchange ops ?n e = Some (r, n, e1)" "nego_frame ?n n" "\<not> r \<longrightarrow> state n = NEGO_STATE_FAIL"
      "r \<longrightarrow> (\<exists>s. replies ops s \<and> (unknown_reply s \<or> state n = NEGO_STATE_FAIL \<or> state n = NEGO_STATE_FINAL) \<and>
        (unknown_reply s \<longrightarrow> state n = state ?n) \<and>
        (state n = NEGO_STATE_FINAL \<longrightarrow> state ?n = NEGO_STATE_FINAL \<or> bare_reply s \<or> selected_enabled n))"
    by (elim exE conjE)
  have fr: "nego_frame nego n" using x(2) by (simp add: nego_frame_def)
  have "round_effect ops nego n" using fr x(3,4) True by (cases r) (auto simp: round_effect_def)
  with x(1) True show ?thesis by (simp add: nego_send_def nego_attempt_rdp_def)
next
  case False
  with st consider "state nego = NEGO_STATE_EXT" | "state nego = NEGO_STATE_NLA" | "state nego = NEGO_STATE_TLS"
    by (auto simp: attempting_def)
  then show ?thesis
  proof cases
    case 1
    then have "nego_send ops nego e = nego_attempt_ext ops nego e" by (simp add: nego_send_def)
    then show ?thesis unfolding nego_attempt_ext_def
      by (simp only:) (rule nego_attempt_effect [OF ok fits st]; simp add: 1)
  next
    case 2
    then have "nego_send ops nego e = nego_attempt_nla ops nego e" by (simp add: nego_send_def)
    then show ?thesis unfolding nego_attempt_nla_def
      by (simp only:) (rule nego_attempt_effect [OF ok fits st]; simp add: 2)
  next
    case 3
    then have "nego_send ops nego e = nego_attempt_tls ops nego e" by (simp add: nego_send_def)
    then show ?thesis unfolding nego_attempt_tls_def
      by (simp only:) (rule nego_attempt_effect [OF ok fits st]; simp add: 3)
  qed
qed

subsection \<open>Runs of the machine\<close>

text \<open>
  The runs of the negotiation as a step relation: from an attempting state, one round.
\<close>

inductive nego_run :: "'e nego_ops \<Rightarrow> rdpNego \<Rightarrow> 'e \<Rightarrow> rdpNego \<Rightarrow> 'e \<Rightarrow> bool" for ops where
  start: "nego_run ops nego e nego e"
| round: "nego_run ops nego e n1 e1 \<Longrightarrow> attempting (state n1) \<Longrightarrow> nego_send ops n1 e1 = Some (n2, e2) \<Longrightarrow>
    nego_run ops nego e n2 e2"

inductive_cases nego_runE: "nego_run ops nego e n2 e2"

text \<open>
  What every run keeps: the configuration, the order of the states, and that a run that
  ends in \<open>FINAL\<close> ends with an enabled protocol unless a reply had no negotiation data.
\<close>

lemma nego_run_invariant:
  assumes "nego_run ops nego e n2 e2" "transport_ok ops" "nego_fits nego" "attempting (state nego)"
  shows "nego_frame nego n2 \<and> nego_rank (state nego) \<le> nego_rank (state n2) \<and>
    (attempting (state n2) \<or> state n2 = NEGO_STATE_FAIL \<or> state n2 = NEGO_STATE_FINAL) \<and>
    (state n2 = NEGO_STATE_FINAL \<longrightarrow> (\<exists>s. replies ops s \<and> bare_reply s) \<or> selected_enabled n2)"
  using assms
proof (induction rule: nego_run.induct)
  case (start nego e)
  then show ?case by (auto simp: nego_frame_def attempting_def)
next
  case (round nego e n1 e1 n2 e2)
  have IH: "nego_frame nego n1" "nego_rank (state nego) \<le> nego_rank (state n1)" using round by simp_all
  then have "nego_fits n1" using nego_fits_frame round.prems(2) by blast
  with nego_send_effect [OF round.prems(1) _ round.hyps(2), of e1] round.hyps(3)
  have eff: "round_effect ops n1 n2" by auto
  have "attempting (state n2) \<or> state n2 = NEGO_STATE_FAIL \<or> state n2 = NEGO_STATE_FINAL"
    using eff round.hyps(2) by (cases "state n2") (auto simp: round_effect_def attempting_def)
  then show ?case using eff IH nego_frame_trans [OF IH(1)] by (auto simp: round_effect_def)
qed

lemma nego_loop_attempt:
  assumes "nego_send ops nego e = Some (n1, e1)"
  shows "nego_loop ops nego e = (if state n1 = NEGO_STATE_FAIL then Some (False, n1\<lparr>state := NEGO_STATE_FINAL\<rparr>, e1)
      else if state n1 \<noteq> NEGO_STATE_FINAL then nego_loop ops n1 e1 else Some (True, n1, e1))"
  using assms by (subst nego_loop.simps) simp

text \<open>A loop that returns has made a run to \<open>FAIL\<close> or \<open>FINAL\<close>.\<close>

lemma nego_loop_run:
  assumes "nego_loop ops nego e = Some (ok, nego', e')" "transport_ok ops" "nego_fits nego" "attempting (state nego)"
  shows "\<exists>n. nego_run ops nego e n e' \<and>
    (if ok then n = nego' \<and> state nego' = NEGO_STATE_FINAL else state n = NEGO_STATE_FAIL \<and> nego' = n\<lparr>state := NEGO_STATE_FINAL\<rparr>)"
proof -
  let ?Q = "\<lambda>ops nego e (r :: bool \<times> rdpNego \<times> 'a). \<forall>n0 e0. nego_run ops n0 e0 nego e \<longrightarrow> transport_ok ops \<longrightarrow>
    nego_fits n0 \<longrightarrow> attempting (state n0) \<longrightarrow> attempting (state nego) \<longrightarrow>
    (case r of (ok, nego', e') \<Rightarrow> \<exists>n. nego_run ops n0 e0 n e' \<and>
      (if ok then n = nego' \<and> state nego' = NEGO_STATE_FINAL else state n = NEGO_STATE_FAIL \<and> nego' = n\<lparr>state := NEGO_STATE_FINAL\<rparr>))"
  have "?Q ops nego e (ok, nego', e')"
  proof (rule nego_loop.raw_induct [where P = ?Q, OF _ assms(1)])
    fix f :: "'a nego_ops \<Rightarrow> rdpNego \<Rightarrow> 'a \<Rightarrow> (bool \<times> rdpNego \<times> 'a) option" and ops nego e r
    assume IH: "\<And>ops nego e r. f ops nego e = Some r \<Longrightarrow> ?Q ops nego e r"
      and eq: "(do { (nego, e) \<leftarrow> nego_send ops nego e;
        (if state nego = NEGO_STATE_FAIL then Some (False, nego\<lparr>state := NEGO_STATE_FINAL\<rparr>, e)
         else if state nego \<noteq> NEGO_STATE_FINAL then f ops nego e else Some (True, nego, e)) }) = Some r"
    show "?Q ops nego e r"
    proof (intro allI impI)
      fix n0 e0
      assume run: "nego_run ops n0 e0 nego e" and h: "transport_ok ops" "nego_fits n0" "attempting (state n0)" "attempting (state nego)"
      from eq obtain n1 e1 where s1: "nego_send ops nego e = Some (n1, e1)" by (auto split: Option.bind_splits)
      note run1 = nego_run.round [OF run h(4) s1]
      show "case r of (ok, nego', e') \<Rightarrow> \<exists>n. nego_run ops n0 e0 n e' \<and>
        (if ok then n = nego' \<and> state nego' = NEGO_STATE_FINAL else state n = NEGO_STATE_FAIL \<and> nego' = n\<lparr>state := NEGO_STATE_FINAL\<rparr>)"
        using eq s1 run1 IH [of ops n1 e1 r] h nego_run_invariant [OF run1 h(1-3)]
        by (cases "state n1 = NEGO_STATE_FAIL"; cases "state n1 = NEGO_STATE_FINAL") auto
    qed
  qed
  with assms(2-4) nego_run.start [of ops nego e] show ?thesis by fastforce
qed

subsection \<open>Replies on the wire\<close>

definition nego_reply_bytes :: "byte \<Rightarrow> byte \<Rightarrow> u32 \<Rightarrow> byte list" where
  "nego_reply_bytes ty fl v = tpkt_bytes 19 @ tpdu_bytes (X224_TPDU_CONNECTION_CONFIRM, 14) @ [ty, fl] @ le_bytes16 8 @ le_bytes32 v"

lemma length_nego_reply_bytes [simp]: "length (nego_reply_bytes ty fl v) = 19"
  by (simp add: nego_reply_bytes_def length_tpdu_bytes x224_codes)

text \<open>The headers of such a reply, read; the negotiation data lie behind the type byte.\<close>

lemma nego_reply_header:
  assumes r: "Stream_wf r" "ahead r = nego_reply_bytes ty fl v @ rest"
  shows "tpkt_read_header r = Some (19, Stream_Seek r 4)"
    "tpdu_read_connection_confirm (Stream_Seek r 4) = Some (Some 14, Stream_Seek r 11)"
    "Stream_Read_UINT8 (Stream_Seek r 11) = Some (ty, Stream_Seek r 12)"
    "Stream_Read_UINT8 (Stream_Seek r 12) = Some (fl, Stream_Seek r 13)"
    "Stream_Read_UINT16 (Stream_Seek r 13) = Some (8, Stream_Seek r 15)"
    "Stream_Read_UINT32 (Stream_Seek r 15) = Some (v, Stream_Seek r 19)"
    "Stream_GetRemainingLength (Stream_Seek r 12) \<ge> 7"
proof -
  have wf: "Stream_wf (Stream_Seek r n)" if "n \<le> 19" for n using r that by (intro Stream_wf_Seek) auto
  let ?D = "[ty, fl] @ le_bytes16 8 @ le_bytes32 v @ rest"
  have a4: "ahead (Stream_Seek r 4) = tpdu_bytes (X224_TPDU_CONNECTION_CONFIRM, 14) @ ?D"
    using r(2) by (simp add: nego_reply_bytes_def)
  have a11: "ahead (Stream_Seek r 11) = ty # fl # le_bytes16 8 @ le_bytes32 v @ rest"
    using r(2) by (simp add: nego_reply_bytes_def length_tpdu_bytes x224_codes)
  have a12: "ahead (Stream_Seek r 12) = fl # le_bytes16 8 @ le_bytes32 v @ rest"
  proof -
    have "drop 12 (ahead r) = drop 1 (drop 11 (ahead r))" by simp
    then show ?thesis using a11 by (simp only: ahead_Seek) simp
  qed
  show "tpkt_read_header r = Some (19, Stream_Seek r 4)"
    using r by (intro tpkt_read_header_enc) (simp_all add: nego_reply_bytes_def)
  show "tpdu_read_connection_confirm (Stream_Seek r 4) = Some (Some 14, Stream_Seek r 11)"
    using tpdu_read_connection_confirm_eq [OF wf [of 4] a4] by simp
  show "Stream_Read_UINT8 (Stream_Seek r 11) = Some (ty, Stream_Seek r 12)"
    using Read_UINT8_ahead [OF wf [of 11] a11] by simp
  show "Stream_Read_UINT8 (Stream_Seek r 12) = Some (fl, Stream_Seek r 13)"
    using Read_UINT8_ahead [OF wf [of 12] a12] by simp
  show "Stream_Read_UINT16 (Stream_Seek r 13) = Some (8, Stream_Seek r 15)"
    using Read_UINT16_enc [OF wf [of 13], of 8 "le_bytes32 v @ rest"] r(2)
    by (simp add: nego_reply_bytes_def length_tpdu_bytes x224_codes)
  show "Stream_Read_UINT32 (Stream_Seek r 15) = Some (v, Stream_Seek r 19)"
    using Read_UINT32_enc [OF wf [of 15], of v rest] r(2)
    by (simp add: nego_reply_bytes_def length_tpdu_bytes x224_codes)
  show "Stream_GetRemainingLength (Stream_Seek r 12) \<ge> 7"
    unfolding Remaining_ahead [OF wf [of 12, simplified]] a12 by simp
qed

lemma nego_recv_reply:
  assumes r: "Stream_wf r" "ahead r = nego_reply_bytes ty fl v @ rest"
  shows "ty = 2 \<Longrightarrow> nego_recv nego r =
      Some (0, nego_check_selected (nego\<lparr>flags := ucast fl, SelectedProtocol := v, state := NEGO_STATE_FINAL\<rparr>))"
    and "ty = 3 \<Longrightarrow> nego_recv nego r =
      Some (0, nego\<lparr>sendNegoData := sendNegoData nego \<or> v = 2 \<or> v = 3, state := NEGO_STATE_FAIL\<rparr>)"
  using nego_reply_header [OF r]
  by (auto simp: nego_recv_def nego_process_negotiation_response_def nego_process_negotiation_failure_def)

subsection \<open>A transport for the witnesses\<close>

text \<open>A transport that connects, sends, and delivers the same message to every read.\<close>

definition demo_stream :: "byte list \<Rightarrow> wStream" where
  "demo_stream bs = \<lparr>s_buffer = bs @ replicate (1024 - length bs) 0, s_pointer = 0, s_length = length bs,
     s_capacity = 1024, s_count = 0, s_pool = None\<rparr>"

definition demo_ops :: "byte list \<Rightarrow> nat nego_ops" where
  "demo_ops bs = \<lparr>transport_connect = (\<lambda>_ _ _ e. (True, e)), transport_set_gateway_enabled = (\<lambda>_ e. e),
     transport_connect_nla = (\<lambda>e. (True, e)), transport_connect_tls = (\<lambda>e. (True, e)), transport_connect_rdp = (\<lambda>e. (True, e)),
     transport_disconnect = (\<lambda>e. e), transport_write_op = (\<lambda>_ e. (0, Suc e)), transport_read_pdu_op = (\<lambda>_ e. (0, demo_stream bs, e)),
     allocators = (\<lambda>e. ((calloc_zero, calloc_zero), e)), ConvertToUnicode = (\<lambda>b. (0, None))\<rparr>"

definition demo_nego :: rdpNego where
  "demo_nego = nego_enable_rdp (nego_enable_nla (nego_set_negotiation_enabled (the (nego_new True)) True) True) True"

lemma demo_stream_ahead:
  assumes "length bs \<le> 1024"
  shows "Stream_wf (demo_stream bs)" "ahead (demo_stream bs) = bs" "s_pointer (demo_stream bs) = 0"
    "length (s_buffer (demo_stream bs)) = 1024"
  using assms by (simp_all add: demo_stream_def Stream_wf_def ahead_def)

lemma demo_replies: "replies (demo_ops bs) s \<longleftrightarrow> s = demo_stream bs"
  by (auto simp: replies_def demo_ops_def)

lemma demo_ok:
  assumes "4 \<le> length bs" "length bs \<le> 1024"
  shows "transport_ok (demo_ops bs)"
  using assms demo_stream_ahead [OF assms(2)] by (auto simp: transport_ok_def demo_ops_def)

lemma demo_reply_kind:
  "unknown_reply (demo_stream (nego_reply_bytes ty fl v)) \<longleftrightarrow> ty \<noteq> 2 \<and> ty \<noteq> 3"
  "\<not> bare_reply (demo_stream (nego_reply_bytes ty fl v))"
proof -
  let ?r = "demo_stream (nego_reply_bytes ty fl v)"
  have wf: "Stream_wf ?r" and a: "ahead ?r = nego_reply_bytes ty fl v @ []" by (simp_all add: demo_stream_ahead)
  note h = nego_reply_header [OF wf a]
  have parts: "reply_parts ?r = Some (14, Stream_Seek ?r 11)" using h(1,2) by (simp add: reply_parts_def)
  have "Stream_Peek_UINT8 (Stream_Seek ?r 11) = Some ty"
    using h(3) by (auto simp: Stream_Read_UINT8_def Stream_Peek_UINT8_def split: Option.bind_splits)
  with parts show "unknown_reply ?r \<longleftrightarrow> ty \<noteq> 2 \<and> ty \<noteq> 3" "\<not> bare_reply ?r"
    by (simp_all add: unknown_reply_def bare_reply_def)
qed

definition settings0 :: nego_settings where
  "settings0 =
      \<lparr>set_RequestedProtocols = 0, set_SelectedProtocol = 0, set_NegotiationFlags = 0, set_UseRdpSecurityLayer = False,
       set_EncryptionMethods = 0, set_EncryptionLevel = 0, set_TlsSecurity = True, set_NlaSecurity = True,
       set_RdpSecurity = True, set_SupportGraphicsPipeline = False, set_LocalConnection = False,
       set_RdpServerRsaKey = False, set_RdpKeyFile = False, set_RdpKeyContent = False\<rparr>"

lemma demo_new_stream:
  "0 < n \<Longrightarrow> new_stream (demo_ops bs) n e = (Some \<lparr>s_buffer = replicate n 0, s_pointer = 0, s_length = n, s_capacity = n,
     s_count = 0, s_pool = None\<rparr>, e)"
  by (simp add: new_stream_def demo_ops_def Stream_New_def calloc_zero_def)

lemma demo_exchange:
  assumes "nego_fits nego" "NegotiateSecurityLayer nego"
  shows "nego_exchange (demo_ops (nego_reply_bytes 2 fl v)) nego e =
    Some (True, nego_check_selected (nego\<lparr>TcpConnected := True, flags := ucast fl, SelectedProtocol := v,
      state := NEGO_STATE_FINAL\<rparr>), Suc e)"
proof -
  let ?ops = "demo_ops (nego_reply_bytes 2 fl v)" and ?n = "nego\<lparr>TcpConnected := True\<rparr>"
  have c: "nego_transport_connect ?ops nego e = (True, ?n, e)"
    using assms(2) by (cases "TcpConnected nego")
      (auto simp: nego_transport_connect_def nego_tcp_connect_def demo_ops_def split: if_splits)
  have "nego_fits ?n" using assms(1) by (simp add: nego_fits_def)
  from nego_send_request_sends [OF this demo_new_stream]
  have w: "nego_send_negotiation_request ?ops ?n e = Some (True, Suc e)" by (auto simp: demo_ops_def)
  have "ahead (demo_stream (nego_reply_bytes 2 fl v)) = nego_reply_bytes 2 fl v @ []"
    "Stream_wf (demo_stream (nego_reply_bytes 2 fl v))" by (simp_all add: demo_stream_ahead)
  from nego_recv_reply(1) [OF this(2,1), of ?n]
  have "nego_recv_response ?ops ?n e' = Some (True, nego_check_selected (?n\<lparr>flags := ucast fl, SelectedProtocol := v,
      state := NEGO_STATE_FINAL\<rparr>), e')" for e'
    by (simp add: nego_recv_response_def demo_new_stream) (simp add: demo_ops_def)
  with c w show ?thesis by (simp add: nego_exchange_def)
qed

lemma demo_nego_simps [simp]:
  "RoutingToken demo_nego = None" "cookie demo_nego = None" "CookieMaxLength demo_nego = 0xFF"
  "NegotiateSecurityLayer demo_nego" "SecurityConnected demo_nego = False" "TcpConnected demo_nego = False"
  "EnabledProtocols demo_nego = (\<lambda>_. False)(2 := True, 0 := True)" "state demo_nego = NEGO_STATE_INITIAL"
  "SendPreconnectionPdu demo_nego = False"
  by (simp_all add: demo_nego_def nego_new_def nego_init_def nego_enable_rdp_def nego_enable_nla_def
      nego_set_negotiation_enabled_def)

lemma demo_nego_fits [simp]: "nego_fits demo_nego" "nego_fits (demo_nego\<lparr>state := st\<rparr>)"
  by (simp_all add: nego_fits_def)

lemma demo_loop:
  "\<exists>n. nego_loop (demo_ops (nego_reply_bytes 2 1 2)) (demo_nego\<lparr>state := NEGO_STATE_NLA\<rparr>) 0 = Some (True, n, 1) \<and>
     SelectedProtocol n = 2 \<and> TcpConnected n \<and> \<not> SecurityConnected n"
proof -
  let ?ops = "demo_ops (nego_reply_bytes 2 1 2)" and ?n = "demo_nego\<lparr>state := NEGO_STATE_NLA\<rparr>"
  let ?n1 = "nego_check_selected (demo_nego\<lparr>RequestedProtocols := 3, TcpConnected := True,
     flags := 1, SelectedProtocol := 2, state := NEGO_STATE_FINAL\<rparr>)"
  have "nego_exchange ?ops (?n\<lparr>RequestedProtocols := 3\<rparr>) 0 = Some (True, ?n1, 1)"
    using demo_exchange [of "?n\<lparr>RequestedProtocols := 3\<rparr>" 1 2 0] by (simp add: nego_fits_def)
  moreover have "state ?n1 = NEGO_STATE_FINAL" "SelectedProtocol ?n1 = 2" "TcpConnected ?n1" "\<not> SecurityConnected ?n1"
    by (simp_all add: nego_check_selected_def)
  ultimately have "nego_send ?ops ?n 0 = Some (?n1, 1)" "state ?n1 = NEGO_STATE_FINAL" "SelectedProtocol ?n1 = 2"
      "TcpConnected ?n1" "\<not> SecurityConnected ?n1"
    by (simp_all add: nego_send_def nego_attempt_nla_def nego_fall_back_def)
  then show ?thesis by (simp add: nego_loop_attempt)
qed

subsection \<open>Properties\<close>







definition nego_response_bytes :: "nego_settings \<Rightarrow> rdpNego \<Rightarrow> byte list" where
  "nego_response_bytes settings server = (if nego_failed server
     then nego_reply_bytes 3 0 (SelectedProtocol server AND NOT PROTOCOL_FAILED_NEGO)
     else nego_reply_bytes 2 (if set_SupportGraphicsPipeline settings then 3 else 1) (SelectedProtocol server))"

lemma nego_send_response_sends:
  assumes s: "new_stream ops 512 e = (Some s, e1)" "s_pointer s = 0" "length (s_buffer s) = 512"
  shows "\<exists>t. stream_bytes t = nego_response_bytes settings server \<and>
    nego_send_negotiation_response ops settings server e =
      (let (status, e2) = transport_write_op ops t e1 in
       Some (if status < 0 \<or> nego_failed server then (False, settings, e2)
             else let (ok, settings') = nego_server_settings server settings in (ok, settings', e2)))"
proof -
  define P where "P = drop 11 (nego_response_bytes settings server)"
  define H where "H = tpkt_bytes 19 @ tpdu_bytes (X224_TPDU_CONNECTION_CONFIRM, 14)"
  define s1 where "s1 = Stream_SetPosition (Stream_put P (Stream_Seek s 11)) 0"
  let ?t = "Stream_SealLength (Stream_SetPosition (Stream_put H s1) 19)"
  have H: "length H = 11" by (simp add: H_def length_tpdu_bytes x224_codes)
  have P: "length P = 8" by (simp add: P_def nego_response_bytes_def)
  have "stream_bytes ?t = H @ P" using header_last_bytes [OF s(2), of 11 P H] P H s(3) by (simp add: s1_def)
  moreover have "H @ P = nego_response_bytes settings server"
    by (simp add: P_def nego_response_bytes_def nego_reply_bytes_def H_def length_tpdu_bytes x224_codes)
  ultimately have bytes: "stream_bytes ?t = nego_response_bytes settings server" by simp
  have s1: "s_pointer s1 = 0" "length (s_buffer s1) = 512" using s P by (simp_all add: s1_def Stream_SetPosition_def)
  have w: "nego_write_response_data settings server (Stream_Seek s 11) = Some (Stream_put P (Stream_Seek s 11))"
    using s by (simp add: nego_write_response_data_def P_def nego_response_bytes_def nego_reply_bytes_def
        Write_UINT_put length_tpdu_bytes x224_codes)
  have h1: "tpkt_write_header s1 19 = Some (Stream_put (tpkt_bytes 19) s1)"
    using s1 by (intro tpkt_write_header_put) simp
  have h2: "tpdu_write_connection_confirm (Stream_put (tpkt_bytes 19) s1) 14 = Some (Stream_put H s1)"
    using s1 tpdu_write_header_put [of "Stream_put (tpkt_bytes 19) s1" X224_TPDU_CONNECTION_CONFIRM 14]
    by (simp add: tpdu_write_connection_confirm_def length_tpdu_bytes x224_codes H_def)
  have em: "Stream_GetPosition (Stream_put P (Stream_Seek s 11)) = 19" "Stream_GetPosition s = 0"
    using s(2) P by (simp_all add: Stream_GetPosition_def)
  have "nego_send_negotiation_response ops settings server e =
      (let (status, e2) = transport_write_op ops ?t e1 in
       Some (if status < 0 \<or> nego_failed server then (False, settings, e2)
             else let (ok, settings') = nego_server_settings server settings in (ok, settings', e2)))"
    unfolding nego_send_negotiation_response_def s(1) tpdu_lengths
    using h1 h2 w em by (simp add: split_def Let_def s1_def [symmetric])
  with bytes show ?thesis by blast
qed

text \<open>
  The server's answer: the confirm that \<open>nego_send_negotiation_response\<close> hands to the
  transport tells the client the selected protocol and the flags, and the client accepts it
  if that protocol is enabled; with the failure bit set it tells the failure code, and the
  client fails the attempt and remembers to send negotiation data for the codes 2 and 3.
  Only an answer without failure changes the server's settings.
\<close>

theorem nego_response_roundtrip:
  assumes "new_stream ops 512 e = (Some s, e1)" "s_pointer s = 0" "length (s_buffer s) = 512"
  shows "\<exists>t. nego_send_negotiation_response ops settings server e =
      (let (status, e2) = transport_write_op ops t e1 in
       Some (if status < 0 \<or> nego_failed server then (False, settings, e2)
             else let (ok, settings') = nego_server_settings server settings in (ok, settings', e2))) \<and>
    (\<forall>client r rest. Stream_wf r \<longrightarrow> ahead r = stream_bytes t @ rest \<longrightarrow> nego_recv client r = Some (0,
      if nego_failed server then
        (let code = SelectedProtocol server AND NOT PROTOCOL_FAILED_NEGO in
         client\<lparr>sendNegoData := sendNegoData client \<or> code = 2 \<or> code = 3, state := NEGO_STATE_FAIL\<rparr>)
      else nego_check_selected (client\<lparr>flags := if set_SupportGraphicsPipeline settings then 3 else 1,
        SelectedProtocol := SelectedProtocol server, state := NEGO_STATE_FINAL\<rparr>)))"
proof -
  from nego_send_response_sends [OF assms, of settings server]
  obtain t where t: "stream_bytes t = nego_response_bytes settings server"
    "nego_send_negotiation_response ops settings server e =
      (let (status, e2) = transport_write_op ops t e1 in
       Some (if status < 0 \<or> nego_failed server then (False, settings, e2)
             else let (ok, settings') = nego_server_settings server settings in (ok, settings', e2)))"
    by (elim exE conjE)
  have r: "nego_recv client r = Some (0,
      if nego_failed server then
        (let code = SelectedProtocol server AND NOT PROTOCOL_FAILED_NEGO in
         client\<lparr>sendNegoData := sendNegoData client \<or> code = 2 \<or> code = 3, state := NEGO_STATE_FAIL\<rparr>)
      else nego_check_selected (client\<lparr>flags := if set_SupportGraphicsPipeline settings then 3 else 1,
        SelectedProtocol := SelectedProtocol server, state := NEGO_STATE_FINAL\<rparr>))"
    if "Stream_wf r" "ahead r = nego_response_bytes settings server @ rest" for client r rest
    using that nego_recv_reply [OF that(1)] by (auto simp: nego_response_bytes_def Let_def)
  show ?thesis by (rule exI [of _ t], rule conjI, rule t(2)) (use r t(1) in auto)
qed

theorem nego_response_roundtrip_witness:
  "\<exists>t. nego_send_negotiation_response (demo_ops []) settings0 (demo_nego\<lparr>SelectedProtocol := 1\<rparr>) 0 =
      Some (True, snd (nego_server_settings (demo_nego\<lparr>SelectedProtocol := 1\<rparr>) settings0), 1) \<and>
    (\<forall>client r rest. Stream_wf r \<longrightarrow> ahead r = stream_bytes t @ rest \<longrightarrow> nego_recv client r = Some (0,
      nego_check_selected (client\<lparr>flags := 1, SelectedProtocol := 1, state := NEGO_STATE_FINAL\<rparr>)))"
proof -
  obtain st where srv: "nego_server_settings (demo_nego\<lparr>SelectedProtocol := 1\<rparr>) settings0 = (True, st)"
    by (simp add: nego_server_settings_def settings0_def)
  have facts: "\<not> set_SupportGraphicsPipeline settings0" "\<not> nego_failed (demo_nego\<lparr>SelectedProtocol := 1\<rparr>)"
    "\<And>s. transport_write_op (demo_ops []) s 0 = (0, 1)"
    by (simp_all add: settings0_def nego_failed_def demo_ops_def)
  from nego_response_roundtrip [where settings = settings0 and server = "demo_nego\<lparr>SelectedProtocol := 1\<rparr>",
      OF demo_new_stream [of 512 "[]" 0]]
  show ?thesis by (simp add: srv facts)
qed

text \<open>
  A reply without negotiation data: it completes the negotiation whenever RDP security
  is enabled, and leaves the selected protocol as an earlier attempt set it; after an
  earlier reply that selected a disabled protocol the machine ends in its final state with
  that disabled protocol selected.
\<close>

theorem nego_bare_reply_keeps_selection:
  assumes "Stream_wf r" "ahead r = tpkt_bytes 11 @ tpdu_bytes (X224_TPDU_CONNECTION_CONFIRM, 6) @ rest"
    and "EnabledProtocols nego PROTOCOL_RDP" "SelectedProtocol nego = PROTOCOL_TLS" "\<not> EnabledProtocols nego PROTOCOL_TLS"
  shows "\<exists>nego'. nego_recv nego r = Some (0, nego') \<and> state nego' = NEGO_STATE_FINAL \<and>
    SelectedProtocol nego' = PROTOCOL_TLS \<and> \<not> selected_enabled nego'"
proof -
  have wf: "Stream_wf (Stream_Seek r 4)" using assms(1,2) by (intro Stream_wf_Seek) auto
  have "tpkt_read_header r = Some (11, Stream_Seek r 4)" using assms(1,2) by (intro tpkt_read_header_enc)
  moreover have "tpdu_read_connection_confirm (Stream_Seek r 4) = Some (Some 6, Stream_Seek r 11)"
    using tpdu_read_connection_confirm_eq [OF wf, of 6 rest] assms(2) by simp
  ultimately show ?thesis using assms(3-5) by (simp add: nego_recv_def selected_enabled_def)
qed

theorem nego_bare_reply_keeps_selection_witness:
  "\<exists>nego'. nego_recv (demo_nego\<lparr>SelectedProtocol := 1\<rparr>)
      (demo_stream (tpkt_bytes 11 @ tpdu_bytes (X224_TPDU_CONNECTION_CONFIRM, 6))) = Some (0, nego') \<and>
    state nego' = NEGO_STATE_FINAL \<and> SelectedProtocol nego' = PROTOCOL_TLS \<and> \<not> selected_enabled nego'"
  by (rule nego_bare_reply_keeps_selection [where rest = "[]"])
    (simp_all add: demo_stream_ahead length_tpdu_bytes)

lemma nego_loop_stuck:
  assumes stuck: "\<And>n e. Inv n \<Longrightarrow> \<exists>n' e'. nego_send ops n e = Some (n', e') \<and> Inv n' \<and> state n' = NEGO_STATE_RDP"
    and "Inv nego"
  shows "nego_loop ops nego e = None"
proof (rule ccontr)
  assume "nego_loop ops nego e \<noteq> None"
  then obtain r where ret: "nego_loop ops nego e = Some r" by auto
  have "ops = ops \<longrightarrow> Inv nego \<longrightarrow> False"
  proof (rule nego_loop.raw_induct [where P = "\<lambda>os n e r. os = ops \<longrightarrow> Inv n \<longrightarrow> False", OF _ ret], intro impI)
    fix f :: "'a nego_ops \<Rightarrow> rdpNego \<Rightarrow> 'a \<Rightarrow> (bool \<times> rdpNego \<times> 'a) option" and os n e r
    assume IH: "\<And>os n e r. f os n e = Some r \<Longrightarrow> os = ops \<longrightarrow> Inv n \<longrightarrow> False"
      and eq: "(do { (nego, e) \<leftarrow> nego_send os n e;
        (if state nego = NEGO_STATE_FAIL then Some (False, nego\<lparr>state := NEGO_STATE_FINAL\<rparr>, e)
         else if state nego \<noteq> NEGO_STATE_FINAL then f os nego e else Some (True, nego, e)) }) = Some r"
      and os: "os = ops" and "Inv n"
    from stuck [OF \<open>Inv n\<close>, of e] obtain n' e'
      where n': "nego_send ops n e = Some (n', e')" "Inv n'" "state n' = NEGO_STATE_RDP" by (elim exE conjE)
    with eq os have "f os n' e' = Some r" by simp
    from IH [OF this] os n'(2) show False by simp
  qed
  with assms(2) show False by simp
qed



end
