(* ===== verification/NegoRequest.thy ===== *)
theory NegoRequest
  imports NegoProps
begin

text \<open>
  The connection request of the negotiation, from the client that builds it to the server
  that reads it (\<open>nego_send_negotiation_request\<close>, \<open>nego_read_request\<close>), with the cookie it
  may carry; the limits of the client's buffer; and \<open>nego_connect\<close> with negotiation
  switched off.
\<close>

unbundle bit_operations_syntax

subsection \<open>The cookie\<close>

lemma stream_split:
  assumes "Stream_wf s"
  obtains pre post where "s_buffer s = pre @ ahead s @ post" "length pre = s_pointer s"
proof
  show "s_buffer s = take (s_pointer s) (s_buffer s) @ ahead s @ drop (s_length s) (s_buffer s)"
    using assms append_take_drop_id [of "s_length s - s_pointer s" "drop (s_pointer s) (s_buffer s)"]
    by (simp add: ahead_def Stream_wf_def)
qed (use assms in \<open>simp add: Stream_wf_def\<close>)

lemma Rewind_Seek [simp]: "n \<le> m \<Longrightarrow> Stream_Rewind (Stream_Seek s m) n = Some (Stream_Seek s (m - n))"
  by (simp add: Stream_Rewind_def Stream_Seek_def)

lemma le_bytes16_u16_le: "le_bytes16 (u16_le b0 b1) = [b0, b1]"
proof -
  have "u16_le b0 b1 = ucast b0 OR push_bit 8 (ucast b1)"
    unfolding u16_le_def by (rule disjunctive_add_eq_or) (rule bit_word_eqI, auto simp: bit_simps dest: bit_imp_le_length)
  then show ?thesis unfolding le_bytes16_def and_255
    by (auto intro!: bit_word_eqI simp: bit_simps) (auto dest!: bit_imp_le_length)
qed

lemma u16_le_crlf: "u16_le b0 b1 = 0x0A0D \<longleftrightarrow> b0 = 0x0D \<and> b1 = 0x0A"
proof
  assume "u16_le b0 b1 = 0x0A0D"
  then show "b0 = 0x0D \<and> b1 = 0x0A" using le_bytes16_u16_le [of b0 b1] by (simp add: le_bytes16_def)
qed (simp add: u16_le_def)

text \<open>The scan finds the first CR LF when no CR stands before it.\<close>

lemma nego_scan_crlf_found:
  assumes "Stream_wf s" "ahead s = xs @ 0x0D # 0x0A # rest" "0x0D \<notin> set xs"
  shows "nego_scan_crlf c s = Some (0x0A0D, Stream_Seek s (length xs + 2))"
  using assms
proof (induction xs arbitrary: s c)
  case Nil
  then show ?case
    by (subst nego_scan_crlf.simps) (simp add: Remaining_ahead Read_UINT16_ahead u16_le_crlf numeral_2_eq_2)
next
  case (Cons x xs)
  obtain y ys where y: "xs @ 0x0D # 0x0A # rest = y # ys" by (cases xs) auto
  have "Stream_wf (Stream_Seek s 1)" using Cons.prems by (intro Stream_wf_Seek) auto
  moreover have "ahead (Stream_Seek s 1) = xs @ 0x0D # 0x0A # rest" using Cons.prems by simp
  ultimately have IH: "nego_scan_crlf d (Stream_Seek s 1) = Some (0x0A0D, Stream_Seek s (length (x # xs) + 2))" for d
    using Cons.IH [of "Stream_Seek s 1" d] Cons.prems(3) by simp
  have rd: "Stream_Read_UINT16 s = Some (u16_le x y, Stream_Seek s 2)" "2 \<le> length (ahead s)"
    using Cons.prems y Read_UINT16_ahead [of s x y ys] by (auto simp: y)
  show ?case
    using Cons.prems(1,3) rd IH
    by (subst nego_scan_crlf.simps) (simp add: Remaining_ahead u16_le_crlf)
qed

lemma c_strlen_prefix: "0 \<notin> set xs \<Longrightarrow> c_strlen (xs @ 0 # ys) = Some (length xs)"
  by (induction xs) auto

lemma not_token_prefix: "take 13 (cookie_prefix @ xs) \<noteq> token_prefix"
  by (simp add: cookie_prefix_def token_prefix_def)

text \<open>
  A cookie followed by CR LF is stored with its prefix; the terminator is overwritten by
  NUL bytes, and the cursor stands behind it.
\<close>

lemma nego_read_cookie:
  assumes s: "Stream_wf s" "ahead s = cookie_prefix @ x @ 0x0D # 0x0A # rest"
    and x: "0 \<notin> set x" "0x0D \<notin> set x" and al: "al (18 + length x) \<noteq> None"
  shows "\<exists>s'. nego_read_request_token_or_cookie al nego s = Some (True, nego\<lparr>cookie := Some (cookie_prefix @ x)\<rparr>, s') \<and>
    Stream_wf s' \<and> ahead s' = rest"
proof -
  let ?s = "Stream_Seek s (17 + length x)" and ?n = "17 + length x"
  let ?s' = "Stream_put [0, 0] ?s"
  have room: "?n + 2 \<le> length (ahead s)" using s(2) by simp
  obtain pre post where b: "s_buffer s = pre @ ahead s @ post" "length pre = s_pointer s" using stream_split [OF s(1)] .
  have buf: "s_buffer ?s' = pre @ cookie_prefix @ x @ 0 # 0 # rest @ post" using b s(2) by (simp add: Stream_put_def)
  have wf: "Stream_wf ?s'" using s(1) room length_ahead [OF s(1)] by (auto simp: Stream_wf_def)
  have "s_length s = s_pointer s + ?n + 2 + length rest" using s length_ahead [OF s(1)] by (simp add: Stream_wf_def)
  then have a: "ahead ?s' = rest" by (simp add: ahead_def buf b(2))
  have sc: "nego_scan_crlf 0 (Stream_Seek s 17) = Some (0x0A0D, Stream_Seek s (?n + 2))"
    using nego_scan_crlf_found [of "Stream_Seek s 17" x rest 0] Stream_wf_Seek [OF s(1), of 17] s(2) x(2) by simp
  have wr: "Stream_Write_UINT16 ?s 0 = Some ?s'"
    using b room by (simp add: Write_UINT_put)
  have str: "c_strlen (drop (s_pointer s) (s_buffer ?s')) = Some ?n" "take ?n (drop (s_pointer s) (s_buffer ?s')) = cookie_prefix @ x"
    using c_strlen_prefix [of "cookie_prefix @ x" "0 # rest @ post"] x(1)
    by (simp_all add: buf b(2)) (simp_all add: cookie_prefix_def)
  have m: "mem_read (s_buffer s) (s_pointer s) 13 = Some (take 13 (ahead s))"
    "mem_read (s_buffer s) (s_pointer s) 17 = Some cookie_prefix"
    using room s(2) by (simp_all add: mem_read_ahead [OF s(1)])
  have "take 13 (ahead s) \<noteq> token_prefix" unfolding s(2) by (rule not_token_prefix)
  with m sc wr str al room
  have "nego_read_request_token_or_cookie al nego s = Some (True, nego\<lparr>cookie := Some (cookie_prefix @ x)\<rparr>, ?s')"
    by (auto simp: nego_read_request_token_or_cookie_def Remaining_ahead [OF s(1)] Stream_GetPosition_def
        nego_set_cookie_def Let_def)
  with wf a show ?thesis by blast
qed

text \<open>Without a cookie the negotiation data alone, too short to be taken for a cookie.\<close>

lemma nego_read_no_cookie:
  assumes "Stream_wf s" "length (ahead s) < 15"
  shows "nego_read_request_token_or_cookie al nego s = Some (True, nego, s)"
  using assms by (simp add: nego_read_request_token_or_cookie_def Remaining_ahead)

subsection \<open>The whole request\<close>

lemma nego_read_data:
  assumes s: "Stream_wf s" and a: "ahead s = [TYPE_RDP_NEG_REQ, fl] @ le_bytes16 8 @ le_bytes32 v"
  shows "\<exists>s1 s2. Stream_Read_UINT8 s = Some (TYPE_RDP_NEG_REQ, s1) \<and>
    nego_process_negotiation_request nego s1 = Some (nego\<lparr>RequestedProtocols := v, state := NEGO_STATE_FINAL\<rparr>, s2)"
proof -
  have wf: "Stream_wf (Stream_Seek s 1)" "Stream_wf (Stream_Seek s 2)" "Stream_wf (Stream_Seek s 4)"
    using a by (auto intro: Stream_wf_Seek [OF s])
  have 1: "Stream_Read_UINT8 s = Some (TYPE_RDP_NEG_REQ, Stream_Seek s 1)"
    "Stream_Read_UINT8 (Stream_Seek s 1) = Some (fl, Stream_Seek s 2)"
    using Read_UINT8_ahead [OF s] Read_UINT8_ahead [OF wf(1)] a by (auto simp: numeral_2_eq_2)
  have 2: "Stream_Read_UINT16 (Stream_Seek s 2) = Some (8, Stream_Seek s 4)"
    using Read_UINT16_enc [OF wf(2), of 8] a by simp
  have 3: "Stream_Read_UINT32 (Stream_Seek s 4) = Some (v, Stream_Seek s 8)"
    using Read_UINT32_enc [OF wf(3), of v "[]"] a by simp
  from 1 2 3 show ?thesis by (simp add: nego_process_negotiation_request_def)
qed

text \<open>
  What the server has after the request of \<open>client\<close>: the cookie, cut to its maximal length
  and stored with its prefix, and the requested protocols.
\<close>

definition request_seen :: "rdpNego \<Rightarrow> rdpNego \<Rightarrow> rdpNego" where
  "request_seen client server =
     (case cookie client of None \<Rightarrow> server
      | Some c \<Rightarrow> server\<lparr>cookie := Some (cookie_prefix @ cookie_limit client c)\<rparr>)
     \<lparr>RequestedProtocols := RequestedProtocols client, state := NEGO_STATE_FINAL\<rparr>"

definition cookie_readable :: "rdpNego \<Rightarrow> bool" where
  "cookie_readable client \<longleftrightarrow> RoutingToken client = None \<and>
     (case cookie client of None \<Rightarrow> True
      | Some c \<Rightarrow> length (cookie_limit client c) \<le> 222 \<and> 0 \<notin> set (cookie_limit client c) \<and> 0x0D \<notin> set (cookie_limit client c))"

lemma nego_read_token_or_cookie_bytes:
  assumes "cookie_readable client" "Stream_wf s" "ahead s = token_or_cookie_bytes client @ rest" "length rest < 15"
    and "\<forall>n. al n \<noteq> None"
  shows "\<exists>s' server'. nego_read_request_token_or_cookie al server s = Some (True, server', s') \<and> Stream_wf s' \<and> ahead s' = rest \<and>
    server'\<lparr>RequestedProtocols := RequestedProtocols client, state := NEGO_STATE_FINAL\<rparr> = request_seen client server"
proof (cases "cookie client")
  case None
  with assms nego_read_no_cookie [OF assms(2), of al server] show ?thesis
    by (simp add: cookie_readable_def token_or_cookie_bytes_def request_seen_def)
next
  case (Some c)
  with assms(1,3) have "ahead s = cookie_prefix @ cookie_limit client c @ 0x0D # 0x0A # rest"
    by (simp add: cookie_readable_def token_or_cookie_bytes_def)
  from nego_read_cookie [OF assms(2) this, of al server] Some assms(1,5) show ?thesis
    by (auto simp: cookie_readable_def request_seen_def)
qed

lemma length_readable:
  assumes "cookie_readable client" shows "length (token_or_cookie_bytes client) \<le> 241"
  using assms by (auto simp: cookie_readable_def token_or_cookie_bytes_def split: option.splits)

lemma nego_request_read:
  assumes c: "cookie_readable client" "RequestedProtocols client > PROTOCOL_RDP" and al: "\<forall>n. al n \<noteq> None"
    and r: "Stream_wf r" "ahead r = nego_request_bytes client"
  shows "\<exists>r'. nego_read_request al server r = Some (True, request_seen client server, r')"
proof -
  define T where "T = token_or_cookie_bytes client @ nego_data_bytes client"
  have T: "length T \<le> 249" using length_readable [OF c(1)] length_nego_data_bytes [of client] by (simp add: T_def)
  have a: "ahead r = tpkt_bytes (word_of_nat (11 + length T)) @
      tpdu_bytes (X224_TPDU_CONNECTION_REQUEST, word_of_nat (6 + length T)) @ T"
    using r(2) by (simp add: nego_request_bytes_def T_def Let_def)
  have wf: "Stream_wf (Stream_Seek r 4)" "Stream_wf (Stream_Seek r 11)"
    using a by (auto intro: Stream_wf_Seek [OF r(1)] simp: length_tpdu_bytes x224_codes)
  have h1: "tpkt_read_header r = Some (word_of_nat (11 + length T), Stream_Seek r 4)"
    using tpkt_read_header_enc [OF r(1) a] .
  have "tpdu_read_header (Stream_Seek r 4) =
      Some (Some (X224_TPDU_CONNECTION_REQUEST, word_of_nat (6 + length T)), Stream_Seek r 11)"
    using tpdu_header.read_enc [OF _ wf(1), of "(X224_TPDU_CONNECTION_REQUEST, word_of_nat (6 + length T))" T] a
    by (simp add: length_tpdu_bytes x224_codes)
  then have h2: "tpdu_read_connection_request (Stream_Seek r 4) = Some (Some (word_of_nat (6 + length T)), Stream_Seek r 11)"
    by (simp add: tpdu_read_connection_request_def)
  have a11: "ahead (Stream_Seek r 11) = T" using a by (simp add: length_tpdu_bytes x224_codes)
  have li: "unat (word_of_nat (6 + length T) :: byte) = length T + 6"
    using T take_bit_nat_eq_self [of "6 + length T" 8] by (simp add: unsigned_of_nat del: of_nat_add)
  obtain s' server' where ck: "nego_read_request_token_or_cookie al server (Stream_Seek r 11) = Some (True, server', s')"
    "Stream_wf s'" "ahead s' = nego_data_bytes client"
    "server'\<lparr>RequestedProtocols := RequestedProtocols client, state := NEGO_STATE_FINAL\<rparr> = request_seen client server"
    using nego_read_token_or_cookie_bytes [OF c(1) wf(2), of "nego_data_bytes client" al server] a11 al length_nego_data_bytes [of client]
    by (auto simp: T_def)
  have d: "ahead s' = [TYPE_RDP_NEG_REQ, if RestrictedAdminModeRequired client then 1 else 0] @ le_bytes16 8 @ le_bytes32 (RequestedProtocols client)"
    using ck(3) c(2) by (simp add: nego_data_bytes_def)
  from nego_read_data [OF ck(2) d, of server'] obtain s1 s2
    where nd: "Stream_Read_UINT8 s' = Some (TYPE_RDP_NEG_REQ, s1)"
    "nego_process_negotiation_request server' s1 = Some (request_seen client server, s2)"
    unfolding ck(4) by (elim exE conjE)
  have rem: "Stream_GetRemainingLength s' = 8" "Stream_GetRemainingLength (Stream_Seek r 11) = length T"
    using d a11 by (simp_all add: Remaining_ahead [OF ck(2)] Remaining_ahead [OF wf(2)])
  show ?thesis unfolding nego_read_request_def
    using h1 h2 li rem ck(1) nd by simp
qed

subsection \<open>Properties\<close>

text \<open>
  The request reaches the server (C32): the connection request that
  \<open>nego_send_negotiation_request\<close> hands to the transport is accepted by \<open>nego_read_request\<close>,
  which learns the requested protocols and the cookie, cut to its maximal length, whenever
  the cookie is at most 222 bytes and holds neither NUL nor CR.
\<close>

theorem nego_request_roundtrip:
  assumes "nego_fits client" "cookie_readable client" "RequestedProtocols client > PROTOCOL_RDP"
    and "new_stream ops 512 e = (Some s, e1)" "s_pointer s = 0" "length (s_buffer s) = 512"
  shows "\<exists>t. nego_send_negotiation_request ops client e =
      Some (\<not> fst (transport_write_op ops t e1) < 0, snd (transport_write_op ops t e1)) \<and>
    (\<forall>al server r. (\<forall>n. al n \<noteq> None) \<longrightarrow> Stream_wf r \<longrightarrow> ahead r = stream_bytes t \<longrightarrow>
      (\<exists>r'. nego_read_request al server r = Some (True, request_seen client server, r')))"
  using nego_send_request_sends [OF assms(1,4,5,6)] nego_request_read [OF assms(2,3)] by metis

theorem nego_request_roundtrip_witness:
  "\<exists>t. nego_send_negotiation_request (demo_ops []) (demo_nego\<lparr>RequestedProtocols := 3, cookie := Some [0x61, 0x62]\<rparr>) 0 = Some (True, 1) \<and>
    (\<forall>al server r. (\<forall>n. al n \<noteq> None) \<longrightarrow> Stream_wf r \<longrightarrow> ahead r = stream_bytes t \<longrightarrow>
      (\<exists>r'. nego_read_request al server r =
        Some (True, server\<lparr>cookie := Some (cookie_prefix @ [0x61, 0x62]), RequestedProtocols := 3, state := NEGO_STATE_FINAL\<rparr>, r')))"
proof -
  let ?c = "demo_nego\<lparr>RequestedProtocols := 3, cookie := Some [0x61, 0x62]\<rparr>"
  have lim: "cookie_limit ?c [0x61, 0x62] = [0x61, 0x62]" by (simp add: cookie_limit_def)
  have c: "nego_fits ?c" "cookie_readable ?c" "RequestedProtocols ?c > PROTOCOL_RDP"
    by (simp_all add: nego_fits_def cookie_readable_def lim)
  have seen: "request_seen ?c server =
      server\<lparr>cookie := Some (cookie_prefix @ [0x61, 0x62]), RequestedProtocols := 3, state := NEGO_STATE_FINAL\<rparr>" for server
    by (simp add: request_seen_def lim)
  have w: "transport_write_op (demo_ops []) s 0 = (0, 1)" for s by (simp add: demo_ops_def)
  from nego_request_roundtrip [OF c demo_new_stream [of 512 "[]" 0]] show ?thesis
    unfolding seen by (simp add: w)
qed

text \<open>
  The buffer of the request (C40): a routing token of more than 501 bytes is written past the
  end of the 512 bytes that \<open>nego_send_negotiation_request\<close> allocates.
\<close>

theorem nego_long_token_overflow:
  assumes "RoutingToken nego = Some tok" "501 < length tok"
    and "new_stream ops 512 e = (Some s, e1)" "s_pointer s = 0" "length (s_buffer s) = 512"
  shows "nego_send_negotiation_request ops nego e = None"
proof -
  have "Stream_Write (Stream_Seek s 11) tok = None" using assms by (simp add: Stream_Write_put)
  then have "nego_write_token_or_cookie nego (Stream_Seek s 11) = None" using assms(1) by (simp add: nego_write_token_or_cookie_def)
  then show ?thesis using assms(3) by (simp add: nego_send_negotiation_request_def tpdu_lengths)
qed

theorem nego_long_token_overflow_witness:
  "nego_send_negotiation_request (demo_ops []) (demo_nego\<lparr>RoutingToken := Some (replicate 502 0x61)\<rparr>) 0 = None"
proof (rule nego_long_token_overflow [OF _ _ demo_new_stream])
  show "501 < length (replicate 502 (0x61 :: byte))" unfolding length_replicate by simp
qed simp_all

text \<open>
  Negotiation switched off: unless a preconnection PDU has already opened the connection,
  \<open>nego_connect\<close> never connects the transport and reports failure, whatever the server
  would have accepted.
\<close>

theorem nego_direct_never_connects:
  assumes "state nego = NEGO_STATE_INITIAL" "\<not> NegotiateSecurityLayer nego" "\<not> TcpConnected nego" "\<not> SendPreconnectionPdu nego"
  shows "\<exists>settings' nego'. nego_connect ops settings nego e = Some (False, settings', nego', e) \<and> \<not> TcpConnected nego'"
  using assms
  by (simp add: nego_connect_def nego_connect_initial_def nego_select_highest_def nego_security_connect_def Let_def)

theorem nego_direct_never_connects_witness:
  "\<exists>settings' nego'. nego_connect (demo_ops []) settings0 (nego_set_negotiation_enabled demo_nego False) 0 =
     Some (False, settings', nego', 0) \<and> \<not> TcpConnected nego'"
  by (rule nego_direct_never_connects) (simp_all add: nego_set_negotiation_enabled_def)

end
