(* ===== verification/Ring.thy ===== *)
theory Ring
  imports Prelude
begin

text \<open>
  What the array-based collections of \<open>winpr/libwinpr/utils/collections\<close> share: blocks of
  array elements from the allocator, \<open>int\<close> arithmetic without overflow, the contents of a
  circular array, and the contract of a first-in first-out queue as a locale with the
  facts its clients use.
\<close>

subsection \<open>Blocks of elements\<close>

text \<open>
  \<open>void *\<close> is an option type with \<^const>\<open>None\<close> for \<open>NULL\<close>. A block allocator gives the
  contents of the \<open>n\<close> new elements of a \<open>malloc\<close> or \<open>realloc\<close>, or nothing. A product of
  two \<open>int\<close>s that does not fit is undefined behaviour, \<^const>\<open>None\<close>.
\<close>

type_synonym 'o ptr = "'o option"
type_synonym 'a blocks = "nat \<Rightarrow> 'a list option"

record 'o wObject =
  fnObjectEquals :: "'o ptr \<Rightarrow> 'o ptr \<Rightarrow> bool"
  fnObjectFree :: bool

text \<open>\<open>fnObjectFree\<close> tells whether the callback is set; its calls are reported by the functions that make them.\<close>

definition fresh_ok :: "'a blocks \<Rightarrow> bool" where
  "fresh_ok al \<longleftrightarrow> (\<forall>n xs. al n = Some xs \<longrightarrow> length xs = n)"

definition int_mult :: "nat \<Rightarrow> nat \<Rightarrow> nat option" where
  "int_mult a b = (if a * b < 2 ^ 31 then Some (a * b) else None)"

text \<open>\<open>realloc (arr, n)\<close> with \<open>n\<close> not below the old number of elements.\<close>

definition realloc_blocks :: "'a blocks \<Rightarrow> 'a list \<Rightarrow> nat \<Rightarrow> 'a list option" where
  "realloc_blocks al arr n = map_option (\<lambda>xs. arr @ xs) (al (n - length arr))"

lemma length_realloc_blocks:
  "fresh_ok al \<Longrightarrow> realloc_blocks al arr n = Some arr' \<Longrightarrow> length arr \<le> n \<Longrightarrow>
     length arr' = n \<and> take (length arr) arr' = arr"
  by (auto simp: realloc_blocks_def fresh_ok_def)

definition zero_blocks :: "'a \<Rightarrow> 'a blocks" where
  "zero_blocks z n = Some (replicate n z)"

lemma fresh_ok_zero_blocks [simp]: "fresh_ok (zero_blocks z)"
  by (simp add: fresh_ok_def zero_blocks_def)

text \<open>Any allocator, with a block of the wrong size counted as a failure.\<close>

definition sized_blocks :: "'a blocks \<Rightarrow> 'a blocks" where
  "sized_blocks al n = (case al n of Some xs \<Rightarrow> if length xs = n then Some xs else None | None \<Rightarrow> None)"

lemma fresh_ok_sized_blocks [simp]: "fresh_ok (sized_blocks al)"
  by (simp add: fresh_ok_def sized_blocks_def split: option.splits if_splits)

lemma sized_blocks_id: "fresh_ok al \<Longrightarrow> sized_blocks al = al"
  by (auto simp: fresh_ok_def sized_blocks_def fun_eq_iff split: option.splits)

text \<open>Access to one element.\<close>

lemma mem_write_single [simp]: "i < length arr \<Longrightarrow> mem_write arr i [x] = Some (arr[i := x])"
  by (simp add: mem_write_def upd_conv_take_nth_drop)

lemma mem_read_single [simp]: "i < length arr \<Longrightarrow> mem_read arr i 1 = Some [arr ! i]" "i < length arr \<Longrightarrow> mem_read arr i (Suc 0) = Some [arr ! i]"
  by (simp_all add: mem_read_def take_Suc_conv_app_nth Cons_nth_drop_Suc [symmetric])

text \<open>
  The loop by which the array-based collections free their elements: \<open>n\<close> slots from
  \<open>index\<close> on are given to \<open>fnObjectFree\<close>, collected in \<open>freed\<close>, and set to \<open>NULL\<close>.
\<close>

fun clear_slots :: "nat \<Rightarrow> nat \<Rightarrow> 'o ptr list \<Rightarrow> 'o ptr list \<Rightarrow> ('o ptr list \<times> 'o ptr list) option" where
  "clear_slots 0 index arr freed = Some (freed, arr)"
| "clear_slots (Suc n) index arr freed = do {
     xs \<leftarrow> mem_read arr index 1;
     arr \<leftarrow> mem_write arr index [None];
     clear_slots n (index + 1) arr (freed @ xs) }"

lemma clear_slots_all:
  "index + n \<le> length arr \<Longrightarrow> \<exists>arr'. clear_slots n index arr freed = Some (freed @ take n (drop index arr), arr') \<and> length arr' = length arr"
proof (induction n arbitrary: index arr freed)
  case (Suc n)
  from Suc.IH [of "Suc index" "arr[index := None]" "freed @ [arr ! index]"] Suc.prems
  show ?case by (auto simp: drop_update_cancel Cons_nth_drop_Suc [symmetric] take_Suc_Cons)
qed simp

subsection \<open>Circular arrays\<close>

text \<open>The \<open>n\<close> elements of a circular array from index \<open>h\<close> on.\<close>

definition ring_view :: "'a list \<Rightarrow> nat \<Rightarrow> nat \<Rightarrow> 'a list" where
  "ring_view arr h n = map (\<lambda>i. arr ! ((h + i) mod length arr)) [0..<n]"

lemma length_ring_view [simp]: "length (ring_view arr h n) = n"
  by (simp add: ring_view_def)

lemma ring_view_0 [simp]: "ring_view arr h 0 = []"
  by (simp add: ring_view_def)

lemma ring_view_eq_Nil [simp]: "ring_view arr h n = [] \<longleftrightarrow> n = 0"
  by (simp add: ring_view_def)

lemma nth_ring_view [simp]: "i < n \<Longrightarrow> ring_view arr h n ! i = arr ! ((h + i) mod length arr)"
  by (simp add: ring_view_def)

lemma ring_mod_neq:
  fixes h i j c :: nat
  assumes "i < j" "j < c" shows "(h + i) mod c \<noteq> (h + j) mod c"
proof
  assume "(h + i) mod c = (h + j) mod c"
  then have "c dvd (h + j) - (h + i)" using assms by (metis add_le_cancel_left less_imp_le mod_eq_dvd_iff_nat)
  then have "c dvd j - i" by simp
  then have "c \<le> j - i" using assms by (intro dvd_imp_le) auto
  then show False using assms by simp
qed

lemma ring_view_push:
  assumes "n < length arr"
  shows "ring_view (arr[(h + n) mod length arr := x]) h (Suc n) = ring_view arr h n @ [x]"
proof (rule nth_equalityI)
  fix i assume "i < length (ring_view (arr[(h + n) mod length arr := x]) h (Suc n))"
  then consider "i < n" | "i = n" by fastforce
  then show "ring_view (arr[(h + n) mod length arr := x]) h (Suc n) ! i = (ring_view arr h n @ [x]) ! i"
  proof cases
    case 1
    then have "(h + i) mod length arr \<noteq> (h + n) mod length arr" using ring_mod_neq assms by blast
    with 1 show ?thesis by (simp add: nth_append nth_list_update)
  next
    case 2
    with assms have "(h + n) mod length arr < length arr" by (intro mod_less_divisor) linarith
    with 2 show ?thesis by (simp add: nth_append)
  qed
qed simp

lemma ring_view_Cons:
  assumes "h < length arr" "Suc n \<le> length arr"
  shows "ring_view arr h (Suc n) = arr ! h # ring_view (arr[h := z]) ((h + 1) mod length arr) n"
proof (rule nth_equalityI)
  fix i assume i: "i < length (ring_view arr h (Suc n))"
  show "ring_view arr h (Suc n) ! i = (arr ! h # ring_view (arr[h := z]) ((h + 1) mod length arr) n) ! i"
  proof (cases i)
    case (Suc j)
    with i have j: "j < n" by simp
    have e: "((h + 1) mod length arr + j) mod length arr = (h + i) mod length arr" by (simp add: mod_simps Suc)
    have "(h + 0) mod length arr \<noteq> (h + i) mod length arr" using j Suc assms by (intro ring_mod_neq) auto
    then have "(h + i) mod length arr \<noteq> h" using assms(1) by simp
    with j Suc i e show ?thesis by (simp add: nth_list_update)
  qed (use assms in simp)
qed simp

text \<open>The elements from an index on, in one piece or in two.\<close>

lemma ring_view_linear: "h + n \<le> length arr \<Longrightarrow> ring_view arr h n = take n (drop h arr)"
  by (rule nth_equalityI) auto

lemma ring_view_add: "ring_view arr h (m + n) = ring_view arr h m @ ring_view arr ((h + m) mod length arr) n"
proof (rule nth_equalityI)
  fix i assume i: "i < length (ring_view arr h (m + n))"
  show "ring_view arr h (m + n) ! i = (ring_view arr h m @ ring_view arr ((h + m) mod length arr) n) ! i"
  proof (cases "i < m")
    case False
    then obtain j where "i = m + j" by (metis le_add_diff_inverse leI)
    with i show ?thesis by (simp add: nth_append mod_simps add.assoc)
  qed (use i in \<open>simp add: nth_append\<close>)
qed simp

lemma ring_view_wrapped:
  assumes "h < length arr" "length arr \<le> h + n" "n \<le> length arr"
  shows "ring_view arr h n = drop h arr @ take (n - (length arr - h)) arr"
  using ring_view_add [of arr h "length arr - h" "n - (length arr - h)"] assms by (simp add: ring_view_linear)

lemma take_ring_view: "take k (ring_view arr h n) = ring_view arr h (min k n)"
  by (rule nth_equalityI) auto

lemma drop_ring_view: "k \<le> n \<Longrightarrow> drop k (ring_view arr h n) = ring_view arr ((h + k) mod length arr) (n - k)"
  using ring_view_add [of arr h k "n - k"] by simp

text \<open>A block stored behind the last element, in two pieces when it reaches the end of the array.\<close>

lemma ring_view_write:
  fixes arr :: "'a list" and h n :: nat
  defines "t \<equiv> (h + n) mod length arr"
  assumes fits: "n + length xs \<le> length arr" "0 < length arr" and k: "k = min (length xs) (length arr - t)"
    and b1: "mem_write arr t (take k xs) = Some b1" and b2: "mem_write b1 0 (drop k xs) = Some b2"
  shows "ring_view b2 h (n + length xs) = ring_view arr h n @ xs"
proof (rule nth_equalityI)
  let ?c = "length arr"
  have len: "length b1 = ?c" "length b2 = ?c" using length_mem_write [OF b1] length_mem_write [OF b2] by simp_all
  have t: "t < ?c" unfolding t_def using fits(2) by simp
  have kx: "k \<le> length xs" using k by simp
  have tk: "t \<le> x \<Longrightarrow> x < t + k \<Longrightarrow> take k xs ! (x - t) = xs ! (x - t)" for x by simp
  fix i assume "i < length (ring_view b2 h (n + length xs))"
  then have i: "i < n + length xs" by simp
  let ?x = "(h + i) mod ?c"
  have x: "?x < ?c" using fits(2) by simp
  have v: "b2 ! ?x = (if ?x < length xs - k then xs ! (k + ?x) else if t \<le> ?x \<and> ?x < t + k then xs ! (?x - t) else arr ! ?x)"
    using mem_write_nth [OF b2, of ?x] mem_write_nth [OF b1, of ?x] x len kx tk [of ?x] by auto
  have l: "ring_view b2 h (n + length xs) ! i = b2 ! ?x" using i len by simp
  show "ring_view b2 h (n + length xs) ! i = (ring_view arr h n @ xs) ! i"
  proof (cases "i < n")
    case True
    have neq: "?x \<noteq> (t + j) mod ?c" if "j < length xs" for j
      using ring_mod_neq [of i "n + j" ?c h] that True fits(1) by (simp add: t_def mod_simps add.assoc)
    have "\<not> ?x < length xs - k"
    proof
      assume a: "?x < length xs - k"
      then have "k = ?c - t" using k by (simp add: min_def split: if_splits)
      then have "(t + (k + ?x)) mod ?c = ?x" using t x by simp
      moreover have "k + ?x < length xs" using a by linarith
      ultimately show False using neq by metis
    qed
    moreover have "\<not> (t \<le> ?x \<and> ?x < t + k)"
    proof
      assume "t \<le> ?x \<and> ?x < t + k"
      then have "?x - t < length xs" "(t + (?x - t)) mod ?c = ?x" using kx x by (linarith, simp)
      then show False using neq by metis
    qed
    ultimately have "b2 ! ?x = arr ! ?x" using v by argo
    then show ?thesis using True l by (simp add: nth_append)
  next
    case False
    then obtain j where j: "i = n + j" by (metis le_add_diff_inverse leI)
    with i have jl: "j < length xs" by simp
    have e: "?x = (t + j) mod ?c" by (simp add: t_def j mod_simps add.assoc)
    have "b2 ! ?x = xs ! j"
    proof (cases "t + j < ?c")
      case True
      then have "?x = t + j" "j < k" "\<not> t + j < length xs - k" using e jl k fits(1) t by auto
      then show ?thesis using v by simp
    next
      case False
      have "t + j < ?c + ?c" using t jl fits(1) by linarith
      then have "?x = t + j - ?c" using e False by (simp add: mod_if)
      moreover have "k = ?c - t" using k jl False t by linarith
      ultimately have "?x < length xs - k" "k + ?x = j" using False jl t by linarith+
      then show ?thesis using v by argo
    qed
    with l j show ?thesis by (simp add: nth_append)
  qed
qed simp

text \<open>Growing a full ring: the wrapped part is copied behind the old end.\<close>

lemma ring_view_grow:
  assumes h: "h < length arr" and len: "length arr + h \<le> length arr'"
    and low: "\<And>i. i < length arr \<Longrightarrow> arr' ! i = arr ! i"
    and high: "\<And>i. i < h \<Longrightarrow> arr' ! (length arr + i) = arr ! i"
  shows "ring_view arr' h (length arr) = ring_view arr h (length arr)"
proof (rule nth_equalityI)
  fix i assume "i < length (ring_view arr' h (length arr))"
  then have i: "i < length arr" by simp
  have m: "(h + i) mod length arr' = h + i" using i len by simp
  show "ring_view arr' h (length arr) ! i = ring_view arr h (length arr) ! i"
  proof (cases "h + i < length arr")
    case True
    with i m low show ?thesis by simp
  next
    case False
    then have "(h + i) mod length arr = h + i - length arr" using i h by (simp add: mod_if)
    moreover have "arr' ! (h + i) = arr ! (h + i - length arr)" using high [of "h + i - length arr"] False i by simp
    ultimately show ?thesis using i m by simp
  qed
qed simp

text \<open>The three memory operations by which the queues grow a full array of \<open>c\<close> elements.\<close>

lemma ring_grow_writes:
  assumes arr: "h < length arr" and new: "take (length arr) new = arr" "2 * length arr \<le> length new"
  obtains z a where "mem_write new (length arr) (replicate (length arr) n) = Some z" "mem_read z 0 h = Some (take h z)"
    "mem_write z (length arr) (take h z) = Some a" "length a = length new"
    "ring_view a h (length arr) = ring_view arr h (length arr)"
proof -
  let ?c = "length arr"
  obtain z where z: "mem_write new ?c (replicate ?c n) = Some z" using new by (simp add: mem_write_def)
  have lz: "length z = length new" using length_mem_write [OF z] .
  have r: "mem_read z 0 h = Some (take h z)" using lz new arr by (simp add: mem_read_def)
  obtain a where a: "mem_write z ?c (take h z) = Some a" using lz new arr by (simp add: mem_write_def)
  have la: "length a = length new" using length_mem_write [OF a] lz by simp
  have zi: "z ! i = arr ! i" if "i < ?c" for i
    using mem_write_nth [OF z, of i] that new(2) nth_take [OF that, of new] by (simp add: new(1))
  have low: "a ! i = arr ! i" if "i < ?c" for i using mem_write_nth [OF a, of i] zi [OF that] that new(2) lz by simp
  have high: "a ! (?c + i) = arr ! i" if "i < h" for i
    using mem_write_nth [OF a, of "?c + i"] zi [of i] that new(2) lz arr by simp
  have "ring_view a h ?c = ring_view arr h ?c" using low high la new arr by (intro ring_view_grow) auto
  with z r a la that show thesis by blast
qed

subsection \<open>The contract of a queue\<close>

datatype 'a queue_op = Put 'a | Get
datatype 'a queue_res = PutR bool | GetR "'a option"

text \<open>
  The specification: what a sequence of calls and their results does to the list of
  waiting elements; \<^const>\<open>None\<close> when a result is not the one a queue gives. A call of
  \<open>Put\<close> may fail (out of memory) and then changes nothing.
\<close>

fun fifo_spec :: "('a queue_op \<times> 'a queue_res) list \<Rightarrow> 'a list \<Rightarrow> 'a list option" where
  "fifo_spec [] l = Some l"
| "fifo_spec ((Put x, PutR ok) # t) l = fifo_spec t (if ok then l @ [x] else l)"
| "fifo_spec ((Get, GetR r) # t) l =
     (if r = (case l of [] \<Rightarrow> None | x # _ \<Rightarrow> Some x) then fifo_spec t (tl l) else None)"
| "fifo_spec _ l = None"

fun queue_run :: "('a \<Rightarrow> 'q \<Rightarrow> (bool \<times> 'q) option) \<Rightarrow> ('q \<Rightarrow> ('a option \<times> 'q) option) \<Rightarrow>
    'a queue_op list \<Rightarrow> 'q \<Rightarrow> ('a queue_res list \<times> 'q) option" where
  "queue_run put get [] q = Some ([], q)"
| "queue_run put get (Put x # ops) q = do {
     (ok, q) \<leftarrow> put x q; (rs, q) \<leftarrow> queue_run put get ops q; Some (PutR ok # rs, q) }"
| "queue_run put get (Get # ops) q = do {
     (r, q) \<leftarrow> get q; (rs, q) \<leftarrow> queue_run put get ops q; Some (GetR r # rs, q) }"

fun puts :: "'a queue_op list \<Rightarrow> nat" where
  "puts [] = 0" | "puts (Put x # ops) = Suc (puts ops)" | "puts (Get # ops) = puts ops"

text \<open>
  The contract: on a well-formed queue with room for the call, \<open>put\<close> appends its element
  or fails and changes nothing, and \<open>get\<close> takes the oldest element; \<open>room n q\<close> says that
  \<open>n\<close> more calls of \<open>put\<close> stay inside the range of the queue's integers.
\<close>

locale fifo =
  fixes wf :: "'q \<Rightarrow> bool" and contents :: "'q \<Rightarrow> 'a list" and room :: "nat \<Rightarrow> 'q \<Rightarrow> bool"
    and put :: "'a \<Rightarrow> 'q \<Rightarrow> (bool \<times> 'q) option" and get :: "'q \<Rightarrow> ('a option \<times> 'q) option"
  assumes put_law: "wf q \<Longrightarrow> room (Suc n) q \<Longrightarrow> \<exists>ok q'. put x q = Some (ok, q') \<and> wf q' \<and> room n q' \<and>
      contents q' = (if ok then contents q @ [x] else contents q)"
    and get_law: "wf q \<Longrightarrow> \<exists>q'. get q = Some (case contents q of [] \<Rightarrow> None | x # _ \<Rightarrow> Some x, q') \<and> wf q' \<and>
      contents q' = tl (contents q) \<and> (\<forall>n. room n q \<longrightarrow> room n q')"
begin

lemma run_refines:
  assumes "wf q" "room (puts ops) q"
  shows "\<exists>rs q'. queue_run put get ops q = Some (rs, q') \<and> wf q' \<and> length rs = length ops \<and>
    fifo_spec (zip ops rs) (contents q) = Some (contents q')"
  using assms
proof (induction ops arbitrary: q)
  case Nil
  then show ?case by simp
next
  case (Cons op ops)
  show ?case
  proof (cases op)
    case (Put x)
    obtain ok q1 where 1: "put x q = Some (ok, q1)" "wf q1" "room (puts ops) q1"
      "contents q1 = (if ok then contents q @ [x] else contents q)"
      using put_law [of q "puts ops" x] Cons.prems Put by auto
    from Cons.IH [OF 1(2,3)] obtain rs q' where "queue_run put get ops q1 = Some (rs, q')" "wf q'"
      "length rs = length ops" "fifo_spec (zip ops rs) (contents q1) = Some (contents q')" by blast
    with Put 1 show ?thesis by simp
  next
    case Get
    obtain q1 where 1: "get q = Some (case contents q of [] \<Rightarrow> None | x # _ \<Rightarrow> Some x, q1)" "wf q1"
      "contents q1 = tl (contents q)" "room (puts ops) q1"
      using get_law [of q] Cons.prems Get by auto
    from Cons.IH [OF 1(2,4)] obtain rs q' where "queue_run put get ops q1 = Some (rs, q')" "wf q'"
      "length rs = length ops" "fifo_spec (zip ops rs) (contents q1) = Some (contents q')" by blast
    with Get 1 show ?thesis by simp
  qed
qed

text \<open>Elements that were waiting come out in order, and nothing after them.\<close>

lemma drain:
  assumes "wf q"
  shows "\<exists>q'. queue_run put get (replicate (length (contents q)) Get) q = Some (map (GetR \<circ> Some) (contents q), q') \<and>
    wf q' \<and> contents q' = []"
  using assms
proof (induction "contents q" arbitrary: q)
  case Nil
  then show ?case by auto
next
  case (Cons x xs)
  obtain q1 where 1: "get q = Some (Some x, q1)" "wf q1" "contents q1 = xs"
    using get_law [OF Cons.prems] Cons.hyps(2) by (metis list.sel(3) list.simps(5))
  from Cons.hyps(1) [OF 1(3) [symmetric] 1(2)] obtain q' where
    "queue_run put get (replicate (length xs) Get) q1 = Some (map (GetR \<circ> Some) xs, q')" "wf q'" "contents q' = []"
    using 1(3) by auto
  with 1(1) show ?case by (simp add: Cons.hyps(2) [symmetric])
qed

end

end
