(* ===== verification/Queue.thy ===== *)
theory Queue
  imports Ring
begin

text \<open>
  The queue of \<open>winpr/libwinpr/utils/collections/Queue.c\<close>: a circular array that grows by a
  factor when it is full. The calls are modelled one after the other; with
  \<open>synchronized\<close> set the critical section makes each call atomic.
\<close>

record 'o wQueue =
  q_capacity :: nat
  q_growthFactor :: nat
  q_synchronized :: bool
  q_head :: nat
  q_tail :: nat
  q_size :: nat
  q_array :: "'o ptr list"
  q_event :: bool
  q_object :: "'o wObject"

subsection \<open>Operations\<close>

definition Queue_Count :: "'o wQueue \<Rightarrow> nat" where
  "Queue_Count queue = q_size queue"

text \<open>The loop of \<open>Queue_Clear\<close>; it collects the objects given to \<open>fnObjectFree\<close>.\<close>

partial_function (option) queue_clear_loop ::
  "nat \<Rightarrow> nat \<Rightarrow> nat \<Rightarrow> 'o ptr list \<Rightarrow> 'o ptr list \<Rightarrow> ('o ptr list \<times> 'o ptr list) option" where
  "queue_clear_loop cap tail index arr freed =
     (if index \<noteq> tail then
        (if index < length arr
         then queue_clear_loop cap tail ((index + 1) mod cap) (arr[index := None]) (freed @ [arr ! index])
         else None)
      else Some (freed, arr))"

definition Queue_Clear :: "'o wQueue \<Rightarrow> ('o ptr list \<times> 'o wQueue) option" where
  "Queue_Clear queue = do {
     (freed, arr) \<leftarrow> queue_clear_loop (q_capacity queue) (q_tail queue) (q_head queue) (q_array queue) [];
     Some (if fnObjectFree (q_object queue) then freed else [],
           queue\<lparr>q_array := arr, q_size := 0, q_head := 0, q_tail := 0\<rparr>) }"

definition Queue_Contains :: "'o wQueue \<Rightarrow> 'o ptr \<Rightarrow> bool option" where
  "Queue_Contains queue obj = do {
     xs \<leftarrow> mem_read (q_array queue) 0 (q_tail queue);
     Some (list_ex (\<lambda>x. fnObjectEquals (q_object queue) x obj) xs) }"

text \<open>The growth of a full array in \<open>Queue_Enqueue\<close>; \<open>Inl\<close> when \<open>realloc\<close> fails.\<close>

definition queue_grow :: "'o ptr blocks \<Rightarrow> 'o wQueue \<Rightarrow> (unit + 'o wQueue) option" where
  "queue_grow al queue = do {
     let old_capacity = q_capacity queue;
     new_capacity \<leftarrow> int_mult old_capacity (q_growthFactor queue);
     (case realloc_blocks al (q_array queue) new_capacity of
        None \<Rightarrow> Some (Inl ())
      | Some newArray \<Rightarrow> do {
          arr \<leftarrow> mem_write newArray old_capacity (replicate old_capacity None);
          (if q_tail queue < old_capacity then do {
             xs \<leftarrow> mem_read arr 0 (q_tail queue);
             arr \<leftarrow> mem_write arr old_capacity xs;
             Some (Inr (queue\<lparr>q_capacity := new_capacity, q_array := arr, q_tail := q_tail queue + old_capacity\<rparr>)) }
           else Some (Inr (queue\<lparr>q_capacity := new_capacity, q_array := arr\<rparr>))) }) }"

definition Queue_Enqueue :: "'o ptr blocks \<Rightarrow> 'o wQueue \<Rightarrow> 'o ptr \<Rightarrow> (bool \<times> 'o wQueue) option" where
  "Queue_Enqueue al queue obj = do {
     grown \<leftarrow> (if q_size queue = q_capacity queue then queue_grow al queue else Some (Inr queue));
     (case grown of
        Inl _ \<Rightarrow> Some (False, queue)
      | Inr queue \<Rightarrow> do {
          arr \<leftarrow> mem_write (q_array queue) (q_tail queue) [obj];
          Some (True, queue\<lparr>q_array := arr, q_tail := (q_tail queue + 1) mod q_capacity queue,
            q_size := q_size queue + 1, q_event := True\<rparr>) }) }"

definition Queue_Dequeue :: "'o wQueue \<Rightarrow> ('o ptr \<times> 'o wQueue) option" where
  "Queue_Dequeue queue = do {
     (obj, queue) \<leftarrow> (if q_size queue > 0 then do {
         xs \<leftarrow> mem_read (q_array queue) (q_head queue) 1;
         arr \<leftarrow> mem_write (q_array queue) (q_head queue) [None];
         Some (hd xs, queue\<lparr>q_array := arr, q_head := (q_head queue + 1) mod q_capacity queue, q_size := q_size queue - 1\<rparr>) }
       else Some (None, queue));
     Some (obj, if q_size queue < 1 then queue\<lparr>q_event := False\<rparr> else queue) }"

definition Queue_Peek :: "'o wQueue \<Rightarrow> 'o ptr option" where
  "Queue_Peek queue = (if q_size queue > 0 then map_option hd (mem_read (q_array queue) (q_head queue) 1) else Some None)"

definition default_queue_equals :: "'o ptr \<Rightarrow> 'o ptr \<Rightarrow> bool" where
  "default_queue_equals obj1 obj2 \<longleftrightarrow> obj1 = obj2"

text \<open>
  \<open>Queue_New\<close>: the flags tell which of the four calls that may fail succeed (the structure,
  the zeroed array, the event, the critical section); \<^const>\<open>None\<close> is the result \<open>NULL\<close>.
\<close>

definition Queue_New :: "bool \<Rightarrow> bool \<Rightarrow> bool \<Rightarrow> bool \<Rightarrow> bool \<Rightarrow> int \<Rightarrow> int \<Rightarrow> 'o wQueue option" where
  "Queue_New queue_ok array_ok event_ok lock_ok synchronized capacity growthFactor =
     (if \<not> queue_ok then None
      else
        let cap = (if capacity > 0 then nat capacity else 32);
            growth = (if growthFactor > 0 then nat growthFactor else 2)
        in if array_ok \<and> event_ok \<and> lock_ok
           then Some \<lparr>q_capacity = cap, q_growthFactor = growth, q_synchronized = synchronized, q_head = 0, q_tail = 0,
             q_size = 0, q_array = replicate cap None, q_event = False,
             q_object = \<lparr>fnObjectEquals = default_queue_equals, fnObjectFree = False\<rparr>\<rparr>
           else None)"

text \<open>\<open>Queue_Free\<close> clears the queue and releases it; the result is what was given to \<open>fnObjectFree\<close>.\<close>

definition Queue_Free :: "'o wQueue option \<Rightarrow> 'o ptr list option" where
  "Queue_Free queue = (case queue of None \<Rightarrow> Some [] | Some q \<Rightarrow> map_option fst (Queue_Clear q))"

subsection \<open>Invariant and contents\<close>

definition queue_wf :: "'o wQueue \<Rightarrow> bool" where
  "queue_wf q \<longleftrightarrow> length (q_array q) = q_capacity q \<and> 0 < q_capacity q \<and> 2 \<le> q_growthFactor q \<and>
     q_head q < q_capacity q \<and> q_size q \<le> q_capacity q \<and>
     q_tail q = (q_head q + q_size q) mod q_capacity q"

definition queue_contents :: "'o wQueue \<Rightarrow> 'o ptr list" where
  "queue_contents q = ring_view (q_array q) (q_head q) (q_size q)"

definition queue_room :: "nat \<Rightarrow> 'o wQueue \<Rightarrow> bool" where
  "queue_room n q \<longleftrightarrow> (q_size q + n) * q_growthFactor q < 2 ^ 31"

lemma queue_tail_less: "queue_wf q \<Longrightarrow> q_tail q < q_capacity q"
  by (simp add: queue_wf_def)

text \<open>Storing one element behind the last in an array that is not full.\<close>

lemma queue_store:
  assumes "queue_wf q" "q_size q < q_capacity q"
  shows "mem_write (q_array q) (q_tail q) [x] = Some ((q_array q)[q_tail q := x])"
    and "ring_view ((q_array q)[q_tail q := x]) (q_head q) (Suc (q_size q)) = queue_contents q @ [x]"
proof -
  have "q_tail q < length (q_array q)" using assms queue_tail_less [OF assms(1)] by (simp add: queue_wf_def)
  then show "mem_write (q_array q) (q_tail q) [x] = Some ((q_array q)[q_tail q := x])"
    by simp
  show "ring_view ((q_array q)[q_tail q := x]) (q_head q) (Suc (q_size q)) = queue_contents q @ [x]"
    using assms ring_view_push [of "q_size q" "q_array q" "q_head q" x] by (simp add: queue_wf_def queue_contents_def)
qed

lemma Queue_Enqueue_not_full:
  assumes "queue_wf q" "q_size q < q_capacity q"
  shows "\<exists>q'. Queue_Enqueue al q x = Some (True, q') \<and> queue_wf q' \<and> queue_contents q' = queue_contents q @ [x] \<and>
    q_size q' = Suc (q_size q) \<and> q_growthFactor q' = q_growthFactor q \<and> q_event q'"
proof -
  let ?q = "q\<lparr>q_array := (q_array q)[q_tail q := x], q_tail := (q_tail q + 1) mod q_capacity q,
    q_size := q_size q + 1, q_event := True\<rparr>"
  have "Queue_Enqueue al q x = Some (True, ?q)" using assms queue_store(1) [OF assms] by (simp add: Queue_Enqueue_def)
  moreover have "queue_wf ?q" using assms by (simp add: queue_wf_def mod_simps)
  moreover have "queue_contents ?q = queue_contents q @ [x]" using queue_store(2) [OF assms] by (simp add: queue_contents_def)
  ultimately show ?thesis by simp
qed

text \<open>Growing a full queue keeps its contents.\<close>

lemma queue_grow_full:
  assumes q: "queue_wf q" "q_size q = q_capacity q" and al: "fresh_ok al" and room: "q_capacity q * q_growthFactor q < 2 ^ 31"
  shows "queue_grow al q = Some (Inl ()) \<or>
    (\<exists>q'. queue_grow al q = Some (Inr q') \<and> queue_wf q' \<and> queue_contents q' = queue_contents q \<and>
      q_size q' = q_size q \<and> q_growthFactor q' = q_growthFactor q \<and> q_size q' < q_capacity q')"
proof (cases "realloc_blocks al (q_array q) (q_capacity q * q_growthFactor q)")
  case None
  with room show ?thesis by (simp add: queue_grow_def int_mult_def)
next
  case (Some new)
  let ?c = "q_capacity q" and ?g = "q_growthFactor q" and ?t = "q_tail q"
  have wf: "length (q_array q) = ?c" "0 < ?c" "2 \<le> ?g" "q_head q < ?c" and t: "?t = q_head q"
    using q by (simp_all add: queue_wf_def)
  have cg: "?c + ?c \<le> ?c * ?g" using wf(3) by (metis mult_2_right mult_le_mono2)
  have new: "length new = ?c * ?g" "take ?c new = q_array q" using length_realloc_blocks [OF al Some] wf cg by auto
  have pre: "q_head q < length (q_array q)" "take (length (q_array q)) new = q_array q" "2 * length (q_array q) \<le> length new"
    using wf new cg by auto
  obtain z a where w: "mem_write new ?c (replicate ?c None) = Some z" "mem_read z 0 ?t = Some (take ?t z)"
    "mem_write z ?c (take ?t z) = Some a" "length a = ?c * ?g" "ring_view a (q_head q) ?c = ring_view (q_array q) (q_head q) ?c"
    using ring_grow_writes [OF pre, of None] unfolding wf(1) t new(1) by blast
  let ?q = "q\<lparr>q_capacity := ?c * ?g, q_array := a, q_tail := ?t + ?c\<rparr>"
  have "queue_grow al q = Some (Inr ?q)"
    using Some room w t wf by (simp add: queue_grow_def int_mult_def Let_def)
  moreover have "queue_wf ?q" using wf t q(2) w(4) cg by (simp add: queue_wf_def)
  moreover have "queue_contents ?q = queue_contents q"
    using w(5) q(2) by (simp add: queue_contents_def)
  ultimately show ?thesis using q(2) cg wf by auto
qed

lemma Queue_Enqueue_cases:
  assumes q: "queue_wf q" "queue_room (Suc n) q" and al: "fresh_ok al"
  shows "\<exists>ok q'. Queue_Enqueue al q x = Some (ok, q') \<and> queue_wf q' \<and> queue_room n q' \<and>
    queue_contents q' = (if ok then queue_contents q @ [x] else queue_contents q)"
proof (cases "q_size q < q_capacity q")
  case True
  then show ?thesis using Queue_Enqueue_not_full [OF q(1), of al x] q(2) by (auto simp: queue_room_def)
next
  case False
  then have full: "q_size q = q_capacity q" using q(1) by (simp add: queue_wf_def)
  have "q_capacity q * q_growthFactor q \<le> (q_size q + Suc n) * q_growthFactor q"
    unfolding full by (rule mult_le_mono1) simp
  then have "q_capacity q * q_growthFactor q < 2 ^ 31" using q(2) unfolding queue_room_def by linarith
  from queue_grow_full [OF q(1) full al this] show ?thesis
  proof
    assume "queue_grow al q = Some (Inl ())"
    then show ?thesis using full q by (auto simp: Queue_Enqueue_def queue_room_def)
  next
    assume "\<exists>q'. queue_grow al q = Some (Inr q') \<and> queue_wf q' \<and> queue_contents q' = queue_contents q \<and>
      q_size q' = q_size q \<and> q_growthFactor q' = q_growthFactor q \<and> q_size q' < q_capacity q'"
    then obtain q1 where q1: "queue_grow al q = Some (Inr q1)" "queue_wf q1" "queue_contents q1 = queue_contents q"
      "q_size q1 = q_size q" "q_growthFactor q1 = q_growthFactor q" "q_size q1 < q_capacity q1" by blast
    have "Queue_Enqueue al q x = Queue_Enqueue al q1 x" using full q1(1,6) by (simp add: Queue_Enqueue_def)
    with Queue_Enqueue_not_full [OF q1(2,6), of al x] q1 q(2) show ?thesis by (auto simp: queue_room_def)
  qed
qed

lemma Queue_Dequeue_cases:
  assumes "queue_wf q"
  shows "\<exists>q'. Queue_Dequeue q = Some (case queue_contents q of [] \<Rightarrow> None | x # _ \<Rightarrow> x, q') \<and> queue_wf q' \<and>
    queue_contents q' = tl (queue_contents q) \<and> (\<forall>n. queue_room n q \<longrightarrow> queue_room n q') \<and>
    q_event q' = (queue_contents q' \<noteq> [] \<and> q_event q)"
proof (cases "q_size q")
  case 0
  with assms show ?thesis by (simp add: Queue_Dequeue_def queue_contents_def queue_wf_def queue_room_def)
next
  case (Suc n)
  let ?a = "(q_array q)[q_head q := None]"
  let ?q = "q\<lparr>q_array := ?a, q_head := (q_head q + 1) mod q_capacity q, q_size := n\<rparr>"
  have wf: "q_head q < length (q_array q)" "Suc n \<le> length (q_array q)" "length (q_array q) = q_capacity q"
    using assms Suc by (simp_all add: queue_wf_def)
  have c: "queue_contents q = q_array q ! q_head q # queue_contents ?q"
    using ring_view_Cons [OF wf(1,2), of None] wf(3) Suc by (simp add: queue_contents_def)
  have m: "mem_read (q_array q) (q_head q) 1 = Some [q_array q ! q_head q]" "mem_write (q_array q) (q_head q) [None] = Some ?a"
    using wf(1) by simp_all
  have "Queue_Dequeue q = Some (q_array q ! q_head q, if n < 1 then ?q\<lparr>q_event := False\<rparr> else ?q)"
    using m Suc by (simp add: Queue_Dequeue_def)
  moreover have "queue_wf ?q" using assms Suc by (simp add: queue_wf_def mod_simps)
  ultimately show ?thesis using c Suc by (auto simp: queue_wf_def queue_contents_def queue_room_def)
qed

text \<open>\<open>Queue_Dequeue\<close> with the emptiness test its callers make, since \<open>NULL\<close> may be an element.\<close>

definition queue_take :: "'o wQueue \<Rightarrow> ('o ptr option \<times> 'o wQueue) option" where
  "queue_take q = map_option (\<lambda>(x, q'). (if Queue_Count q > 0 then Some x else None, q')) (Queue_Dequeue q)"

interpretation queue: fifo queue_wf queue_contents queue_room "\<lambda>x q. Queue_Enqueue (sized_blocks al) q x" queue_take
  for al :: "'o ptr blocks"
proof
  fix q :: "'o wQueue" and n x
  assume "queue_wf q" "queue_room (Suc n) q"
  then show "\<exists>ok q'. Queue_Enqueue (sized_blocks al) q x = Some (ok, q') \<and> queue_wf q' \<and> queue_room n q' \<and>
    queue_contents q' = (if ok then queue_contents q @ [x] else queue_contents q)"
    by (rule Queue_Enqueue_cases) simp
next
  fix q :: "'o wQueue" assume wf: "queue_wf q"
  have "Queue_Count q > 0 \<longleftrightarrow> queue_contents q \<noteq> []"
    by (simp add: Queue_Count_def queue_contents_def flip: length_greater_0_conv)
  with Queue_Dequeue_cases [OF wf] show "\<exists>q'. queue_take q = Some (case queue_contents q of [] \<Rightarrow> None | x # _ \<Rightarrow> Some x, q') \<and>
    queue_wf q' \<and> queue_contents q' = tl (queue_contents q) \<and> (\<forall>n. queue_room n q \<longrightarrow> queue_room n q')"
    by (auto simp: queue_take_def split: list.splits)
qed

subsection \<open>Clearing\<close>

lemma queue_clear_loop_view:
  assumes "h < length arr" "n < length arr"
  shows "\<exists>arr'. queue_clear_loop (length arr) ((h + n) mod length arr) h arr freed = Some (freed @ ring_view arr h n, arr') \<and>
    length arr' = length arr"
  using assms
proof (induction n arbitrary: h arr freed)
  case 0
  then show ?case by (simp add: queue_clear_loop.simps)
next
  case (Suc n)
  let ?a = "arr[h := None]" and ?h = "(h + 1) mod length arr"
  have "(h + 0) mod length arr \<noteq> (h + Suc n) mod length arr" using Suc.prems by (intro ring_mod_neq) auto
  then have ne: "h \<noteq> (h + Suc n) mod length arr" using Suc.prems(1) by simp
  have e: "(Suc h mod length arr + n) mod length arr = Suc (h + n) mod length arr" by (simp add: mod_simps)
  have "?h < length ?a" using Suc.prems mod_less_divisor [of "length arr" "h + 1"] by fastforce
  from Suc.IH [OF this, of "freed @ [arr ! h]"] Suc.prems(2) obtain arr' where
    "queue_clear_loop (length arr) ((h + Suc n) mod length arr) ?h ?a (freed @ [arr ! h]) = Some (freed @ ring_view arr h (Suc n), arr')"
    "length arr' = length arr"
    using ring_view_Cons [OF Suc.prems(1), of n None] by (auto simp: e)
  with ne Suc.prems(1) show ?case by (subst queue_clear_loop.simps) simp
qed

lemma queue_clear_loop_full: "queue_clear_loop cap h h arr freed = Some (freed, arr)"
  by (simp add: queue_clear_loop.simps)

subsection \<open>Properties\<close>

text \<open>
  The queue is a queue (C14): any sequence of \<open>Queue_Enqueue\<close> and \<open>Queue_Dequeue\<close> calls on a
  well-formed queue runs without leaving the array, however often it grows, and every result
  is the one of a first-in first-out list on which a failed allocation changes nothing.
\<close>

theorem Queue_refines_fifo:
  assumes "fresh_ok al" "queue_wf q" "queue_room (puts ops) q"
  shows "\<exists>rs q'. queue_run (\<lambda>x q. Queue_Enqueue al q x) queue_take ops q = Some (rs, q') \<and> queue_wf q' \<and>
    length rs = length ops \<and> fifo_spec (zip ops rs) (queue_contents q) = Some (queue_contents q')"
  using queue.run_refines [OF assms(2,3), of al] by (simp add: sized_blocks_id [OF assms(1)])

definition demo_queue :: "nat wQueue" where
  "demo_queue = the (Queue_New True True True True False 2 2)"

lemma demo_queue_wf: "queue_wf demo_queue" "queue_contents demo_queue = []" "queue_room n demo_queue \<longleftrightarrow> n < 2 ^ 30"
  by (auto simp: demo_queue_def Queue_New_def queue_wf_def queue_contents_def queue_room_def)

theorem Queue_refines_fifo_witness:
  "\<exists>rs q'. queue_run (\<lambda>x q. Queue_Enqueue (zero_blocks None) q x) queue_take
      [Put (Some 1), Get, Put (Some 2), Put (Some 3), Put (Some 4), Get] demo_queue = Some (rs, q') \<and> queue_wf q' \<and>
    length rs = length [Put (Some 1), Get, Put (Some 2), Put (Some 3), Put (Some 4), Get] \<and>
    fifo_spec (zip [Put (Some 1), Get, Put (Some 2), Put (Some 3), Put (Some 4), Get] rs) [] = Some (queue_contents q')"
  using Queue_refines_fifo [of "zero_blocks None" demo_queue "[Put (Some 1), Get, Put (Some 2), Put (Some 3), Put (Some 4), Get]"]
  by (simp only: demo_queue_wf fresh_ok_zero_blocks puts.simps) simp

text \<open>
  Clearing a queue: \<open>Queue_Clear\<close> returns with a well-formed empty queue, and gives each
  element, in order, to \<open>fnObjectFree\<close>, but none of them when the queue is full: head and
  tail then coincide and the loop does not run.
\<close>

theorem Queue_Clear_spec:
  assumes "queue_wf q"
  shows "\<exists>q'. Queue_Clear q = Some (if fnObjectFree (q_object q) \<and> q_size q < q_capacity q then queue_contents q else [], q') \<and>
    queue_wf q' \<and> queue_contents q' = []"
proof (cases "q_size q < q_capacity q")
  case True
  have wf: "length (q_array q) = q_capacity q" "q_head q < q_capacity q" "q_tail q = (q_head q + q_size q) mod q_capacity q"
    using assms by (simp_all add: queue_wf_def)
  from queue_clear_loop_view [of "q_head q" "q_array q" "q_size q" "[]"] wf True obtain arr' where
    "queue_clear_loop (q_capacity q) (q_tail q) (q_head q) (q_array q) [] = Some (queue_contents q, arr')"
    "length arr' = q_capacity q" by (auto simp: queue_contents_def)
  with True assms show ?thesis by (simp add: Queue_Clear_def queue_wf_def queue_contents_def)
next
  case False
  with assms have "q_tail q = q_head q" by (simp add: queue_wf_def)
  with False assms show ?thesis
    by (simp add: Queue_Clear_def queue_clear_loop_full queue_wf_def queue_contents_def)
qed

definition full_queue :: "nat wQueue" where
  "full_queue = demo_queue\<lparr>q_array := [Some 1, Some 2], q_size := 2, q_object := \<lparr>fnObjectEquals = (=), fnObjectFree = True\<rparr>\<rparr>"

lemma full_queue_wf: "queue_wf full_queue" "q_size full_queue = 2" "q_capacity full_queue = 2" "q_head full_queue = 0"
  "queue_contents full_queue = [Some 1, Some 2]"
  by (simp_all add: full_queue_def demo_queue_def Queue_New_def queue_wf_def queue_contents_def ring_view_def numeral_2_eq_2)

theorem Queue_Clear_spec_witness:
  "\<exists>q'. Queue_Clear full_queue = Some ([], q') \<and> queue_wf q' \<and> queue_contents q' = []"
  using Queue_Clear_spec [OF full_queue_wf(1)] by (simp add: full_queue_wf)

text \<open>
  Searching a wrapped queue: \<open>Queue_Contains\<close> looks only at the array below the tail; when
  the contents wrap around, the elements it sees are the last \<open>q_tail\<close> ones, and an element
  in front of them is not found.
\<close>

theorem Queue_Contains_wrapped:
  assumes "queue_wf q" "q_capacity q \<le> q_head q + q_size q"
  shows "Queue_Contains q obj = Some (list_ex (\<lambda>x. fnObjectEquals (q_object q) x obj)
      (drop (q_size q - q_tail q) (queue_contents q)))"
proof -
  let ?c = "q_capacity q" and ?h = "q_head q" and ?n = "q_size q" and ?t = "q_tail q"
  have wf: "length (q_array q) = ?c" "?h < ?c" "?n \<le> ?c" "?t = (?h + ?n) mod ?c" using assms by (simp_all add: queue_wf_def)
  then have t: "?t = ?h + ?n - ?c" "?t \<le> ?n" using assms(2) by (auto simp: mod_if)
  have "drop (?n - ?t) (queue_contents q) = take ?t (q_array q)"
  proof (rule nth_equalityI)
    fix i assume i: "i < length (drop (?n - ?t) (queue_contents q))"
    then have it: "i < ?t" using t(2) by (simp add: queue_contents_def)
    have "?h + (?n - ?t + i) = ?c + i" using t assms(2) wf(2,3) by linarith
    then have "(?h + (?n - ?t + i)) mod ?c = i" using it t wf by simp
    then show "drop (?n - ?t) (queue_contents q) ! i = take ?t (q_array q) ! i"
      using it t(2) wf(1) by (simp add: queue_contents_def)
  qed (use t wf in \<open>simp add: queue_contents_def\<close>)
  then show ?thesis using t wf by (simp add: Queue_Contains_def mem_read_def)
qed

theorem Queue_Contains_wrapped_witness:
  "Queue_Contains full_queue (Some 1) = Some False \<and> Some 1 \<in> set (queue_contents full_queue)"
  using Queue_Contains_wrapped [OF full_queue_wf(1), of "Some 1"]
  by (simp add: full_queue_wf) (simp add: full_queue_def demo_queue_def Queue_New_def)

text \<open>
  A growth factor of one: \<open>Queue_New\<close> accepts it, but the first \<open>Queue_Enqueue\<close> on the
  full queue clears memory behind the end of the array.
\<close>

theorem Queue_growth_one_overflow:
  assumes "length (q_array q) = q_capacity q" "0 < q_capacity q" "q_capacity q < 2 ^ 31" "q_growthFactor q = 1"
    and "q_size q = q_capacity q" "fresh_ok al" "al 0 \<noteq> None"
  shows "Queue_Enqueue al q x = None"
proof -
  have "al 0 = Some []" using assms(6,7) by (auto simp: fresh_ok_def)
  then have "queue_grow al q = None"
    using assms by (simp add: queue_grow_def int_mult_def realloc_blocks_def mem_write_def Let_def)
  then show ?thesis using assms by (simp add: Queue_Enqueue_def)
qed

theorem Queue_growth_one_overflow_witness:
  "Queue_Enqueue (zero_blocks None) (full_queue\<lparr>q_growthFactor := 1\<rparr>) (Some 3) = None"
  by (rule Queue_growth_one_overflow)
    (simp_all add: full_queue_def demo_queue_def Queue_New_def, simp add: zero_blocks_def)

end
