(* ===== verification/MessageQueue.thy ===== *)
theory MessageQueue
  imports Ring
begin

text \<open>
  The message queue of \<open>winpr/libwinpr/utils/collections/MessageQueue.c\<close>: a circular array of
  messages that doubles when it is full, with an event that is set while a message waits.
  Addresses are 64-bit words, zero is \<open>NULL\<close>. The critical section makes each call atomic.
\<close>

record wMessage =
  msg_id :: u32
  msg_context :: u64
  msg_wParam :: u64
  msg_lParam :: u64
  msg_time :: u64
  msg_Free :: u64

record wMessageQueue =
  mq_head :: nat
  mq_tail :: nat
  mq_size :: nat
  mq_capacity :: nat
  mq_array :: "wMessage list"
  mq_event :: bool
  mq_fnObjectUninit :: bool
  mq_fnObjectFree :: bool

definition WMQ_QUIT :: u32 where
  "WMQ_QUIT = 0xFFFFFFFF"

definition zero_message :: wMessage where
  "zero_message = \<lparr>msg_id = 0, msg_context = 0, msg_wParam = 0, msg_lParam = 0, msg_time = 0, msg_Free = 0\<rparr>"

subsection \<open>Operations\<close>

definition MessageQueue_Size :: "wMessageQueue \<Rightarrow> nat" where
  "MessageQueue_Size queue = mq_size queue"

text \<open>The growth of a full array; \<open>Inl\<close> when \<open>realloc\<close> fails.\<close>

definition message_queue_grow :: "wMessage blocks \<Rightarrow> wMessageQueue \<Rightarrow> (unit + wMessageQueue) option" where
  "message_queue_grow al queue = do {
     let old_capacity = mq_capacity queue;
     new_capacity \<leftarrow> int_mult old_capacity 2;
     (case realloc_blocks al (mq_array queue) new_capacity of
        None \<Rightarrow> Some (Inl ())
      | Some new_arr \<Rightarrow> do {
          arr \<leftarrow> mem_write new_arr old_capacity (replicate old_capacity zero_message);
          (if mq_tail queue < old_capacity then do {
             xs \<leftarrow> mem_read arr 0 (mq_tail queue);
             arr \<leftarrow> mem_write arr old_capacity xs;
             Some (Inr (queue\<lparr>mq_capacity := new_capacity, mq_array := arr, mq_tail := mq_tail queue + old_capacity\<rparr>)) }
           else Some (Inr (queue\<lparr>mq_capacity := new_capacity, mq_array := arr\<rparr>))) }) }"

text \<open>\<open>tick\<close> is the result of \<open>GetTickCount\<close>; it is stored in the slot at the new tail.\<close>

definition MessageQueue_Dispatch :: "wMessage blocks \<Rightarrow> u32 \<Rightarrow> wMessageQueue \<Rightarrow> wMessage \<Rightarrow> (bool \<times> wMessageQueue) option" where
  "MessageQueue_Dispatch al tick queue message = do {
     grown \<leftarrow> (if mq_size queue = mq_capacity queue then message_queue_grow al queue else Some (Inr queue));
     (case grown of
        Inl _ \<Rightarrow> Some (False, queue)
      | Inr queue \<Rightarrow> do {
          arr \<leftarrow> mem_write (mq_array queue) (mq_tail queue) [message];
          let queue = queue\<lparr>mq_array := arr, mq_tail := (mq_tail queue + 1) mod mq_capacity queue, mq_size := mq_size queue + 1\<rparr>;
          slot \<leftarrow> mem_read arr (mq_tail queue) 1;
          arr \<leftarrow> mem_write arr (mq_tail queue) [(hd slot)\<lparr>msg_time := ucast tick\<rparr>];
          let queue = queue\<lparr>mq_array := arr\<rparr>;
          Some (True, if mq_size queue > 0 then queue\<lparr>mq_event := True\<rparr> else queue) }) }"

text \<open>The field \<open>time\<close> of the local message is not initialised: \<open>junk\<close> is what it holds.\<close>

definition MessageQueue_Post ::
  "wMessage blocks \<Rightarrow> u32 \<Rightarrow> u64 \<Rightarrow> wMessageQueue \<Rightarrow> u64 \<Rightarrow> u32 \<Rightarrow> u64 \<Rightarrow> u64 \<Rightarrow> (bool \<times> wMessageQueue) option" where
  "MessageQueue_Post al tick junk queue context type wParam lParam =
     MessageQueue_Dispatch al tick queue
       \<lparr>msg_id = type, msg_context = context, msg_wParam = wParam, msg_lParam = lParam, msg_time = junk, msg_Free = 0\<rparr>"

definition MessageQueue_PostQuit ::
  "wMessage blocks \<Rightarrow> u32 \<Rightarrow> u64 \<Rightarrow> wMessageQueue \<Rightarrow> int \<Rightarrow> (bool \<times> wMessageQueue) option" where
  "MessageQueue_PostQuit al tick junk queue nExitCode =
     MessageQueue_Post al tick junk queue 0 WMQ_QUIT (word_of_int nExitCode) 0"

text \<open>Taking the message at the head out of the array.\<close>

definition message_queue_remove :: "wMessageQueue \<Rightarrow> wMessageQueue option" where
  "message_queue_remove queue = do {
     arr \<leftarrow> mem_write (mq_array queue) (mq_head queue) [zero_message];
     let queue = queue\<lparr>mq_array := arr, mq_head := (mq_head queue + 1) mod mq_capacity queue, mq_size := mq_size queue - 1\<rparr>;
     Some (if mq_size queue < 1 then queue\<lparr>mq_event := False\<rparr> else queue) }"

text \<open>
  \<open>waited\<close> is the result of \<open>MessageQueue_Wait\<close>; the message is \<^const>\<open>None\<close> when the
  function leaves the caller's message as it is.
\<close>

definition MessageQueue_Get :: "bool \<Rightarrow> wMessageQueue \<Rightarrow> (int \<times> wMessage option \<times> wMessageQueue) option" where
  "MessageQueue_Get waited queue =
     (if \<not> waited then Some (-1, None, queue)
      else if mq_size queue > 0 then do {
        xs \<leftarrow> mem_read (mq_array queue) (mq_head queue) 1;
        queue \<leftarrow> message_queue_remove queue;
        Some (if msg_id (hd xs) \<noteq> WMQ_QUIT then 1 else 0, Some (hd xs), queue) }
      else Some (-1, None, queue))"

definition MessageQueue_Peek :: "wMessageQueue \<Rightarrow> bool \<Rightarrow> (int \<times> wMessage option \<times> wMessageQueue) option" where
  "MessageQueue_Peek queue remove =
     (if mq_size queue > 0 then do {
        xs \<leftarrow> mem_read (mq_array queue) (mq_head queue) 1;
        queue \<leftarrow> (if remove then message_queue_remove queue else Some queue);
        Some (1, Some (hd xs), queue) }
      else Some (0, None, queue))"

text \<open>\<open>MessageQueue_New\<close>, with the outcome of the four calls that may fail and the callbacks set.\<close>

definition MessageQueue_New :: "bool \<Rightarrow> bool \<Rightarrow> bool \<Rightarrow> bool \<Rightarrow> (bool \<times> bool) option \<Rightarrow> wMessageQueue option" where
  "MessageQueue_New queue_ok array_ok lock_ok event_ok callback =
     (if queue_ok \<and> array_ok \<and> lock_ok \<and> event_ok then
        Some \<lparr>mq_head = 0, mq_tail = 0, mq_size = 0, mq_capacity = 32, mq_array = replicate 32 zero_message, mq_event = False,
          mq_fnObjectUninit = (case callback of Some (u, _) \<Rightarrow> u | None \<Rightarrow> False),
          mq_fnObjectFree = (case callback of Some (_, f) \<Rightarrow> f | None \<Rightarrow> False)\<rparr>
      else None)"

text \<open>The loop of \<open>MessageQueue_Clear\<close>, with the messages given to the callbacks.\<close>

fun message_queue_clear :: "nat \<Rightarrow> wMessageQueue \<Rightarrow> wMessage list \<Rightarrow> (wMessage list \<times> wMessageQueue) option" where
  "message_queue_clear 0 queue seen = Some (seen, queue)"
| "message_queue_clear (Suc n) queue seen = do {
     xs \<leftarrow> mem_read (mq_array queue) (mq_head queue) 1;
     arr \<leftarrow> mem_write (mq_array queue) (mq_head queue) [zero_message];
     message_queue_clear n (queue\<lparr>mq_array := arr, mq_head := (mq_head queue + 1) mod mq_capacity queue,
       mq_size := mq_size queue - 1\<rparr>) (seen @ xs) }"

definition MessageQueue_Clear :: "wMessageQueue \<Rightarrow> (wMessage list \<times> wMessageQueue) option" where
  "MessageQueue_Clear queue = do {
     (seen, queue) \<leftarrow> message_queue_clear (mq_size queue) queue [];
     Some (if mq_fnObjectUninit queue \<or> mq_fnObjectFree queue then seen else [], queue\<lparr>mq_event := False\<rparr>) }"

subsection \<open>Invariant and contents\<close>

definition message_ring_wf :: "wMessageQueue \<Rightarrow> bool" where
  "message_ring_wf q \<longleftrightarrow> length (mq_array q) = mq_capacity q \<and> 0 < mq_capacity q \<and> mq_head q < mq_capacity q \<and>
     mq_size q \<le> mq_capacity q \<and> mq_tail q = (mq_head q + mq_size q) mod mq_capacity q"

definition message_queue_wf :: "wMessageQueue \<Rightarrow> bool" where
  "message_queue_wf q \<longleftrightarrow> message_ring_wf q \<and> mq_event q = (0 < mq_size q)"

text \<open>The part of a message that the queue keeps: everything but the time stamp.\<close>

type_synonym msg_body = "u32 \<times> u64 \<times> u64 \<times> u64 \<times> u64"

definition message_body :: "wMessage \<Rightarrow> msg_body" where
  "message_body m = (msg_id m, msg_context m, msg_wParam m, msg_lParam m, msg_Free m)"

definition message_of :: "msg_body \<Rightarrow> u64 \<Rightarrow> wMessage" where
  "message_of = (\<lambda>(i, c, w, l, f) t. \<lparr>msg_id = i, msg_context = c, msg_wParam = w, msg_lParam = l, msg_time = t, msg_Free = f\<rparr>)"

lemma message_body_of [simp]: "message_body (message_of b t) = b" "message_body (m\<lparr>msg_time := t\<rparr>) = message_body m"
  by (cases b, simp_all add: message_body_def message_of_def)

definition message_queue_contents :: "wMessageQueue \<Rightarrow> msg_body list" where
  "message_queue_contents q = map message_body (ring_view (mq_array q) (mq_head q) (mq_size q))"

definition message_queue_room :: "nat \<Rightarrow> wMessageQueue \<Rightarrow> bool" where
  "message_queue_room n q \<longleftrightarrow> (mq_size q + n) * 2 < 2 ^ 31"

lemma message_queue_tail_less: "message_queue_wf q \<Longrightarrow> mq_tail q < length (mq_array q)"
  by (simp add: message_queue_wf_def message_ring_wf_def)

text \<open>Stamping any slot changes no body.\<close>

lemma ring_view_stamp:
  "map message_body (ring_view (arr[i := (arr ! i)\<lparr>msg_time := t\<rparr>]) h n) = map message_body (ring_view arr h n)"
  by (cases "i < length arr") (auto simp: ring_view_def nth_list_update list_update_beyond)

lemma Dispatch_not_full:
  assumes q: "message_queue_wf q" "mq_size q < mq_capacity q"
  shows "\<exists>q'. MessageQueue_Dispatch al tick q m = Some (True, q') \<and> message_queue_wf q' \<and>
    message_queue_contents q' = message_queue_contents q @ [message_body m] \<and> mq_size q' = Suc (mq_size q) \<and>
    mq_array q' = (let a = (mq_array q)[mq_tail q := m] in
      a[(mq_tail q + 1) mod mq_capacity q := (a ! ((mq_tail q + 1) mod mq_capacity q))\<lparr>msg_time := ucast tick\<rparr>])"
proof -
  let ?a = "(mq_array q)[mq_tail q := m]" and ?t = "(mq_tail q + 1) mod mq_capacity q"
  let ?a' = "?a[?t := (?a ! ?t)\<lparr>msg_time := ucast tick\<rparr>]"
  let ?q = "q\<lparr>mq_array := ?a', mq_tail := ?t, mq_size := Suc (mq_size q), mq_event := True\<rparr>"
  have wf: "length (mq_array q) = mq_capacity q" "mq_tail q = (mq_head q + mq_size q) mod mq_capacity q"
    using q by (simp_all add: message_queue_wf_def message_ring_wf_def)
  have t: "mq_tail q < length (mq_array q)" "?t < length ?a" using message_queue_tail_less [OF q(1)] q(2) wf by simp_all
  have e: "MessageQueue_Dispatch al tick q m = Some (True, ?q)"
    using t q(2) by (simp add: MessageQueue_Dispatch_def)
  have "message_queue_wf ?q" using q by (simp add: message_queue_wf_def message_ring_wf_def mod_simps)
  moreover have "message_queue_contents ?q = message_queue_contents q @ [message_body m]"
    using ring_view_push [of "mq_size q" "mq_array q" "mq_head q" m] q(2) wf
    by (simp add: message_queue_contents_def ring_view_stamp)
  ultimately show ?thesis using e by (simp add: Let_def)
qed

lemma message_queue_grow_full:
  assumes q: "message_queue_wf q" "mq_size q = mq_capacity q" and al: "fresh_ok al" and room: "mq_capacity q * 2 < 2 ^ 31"
  shows "message_queue_grow al q = Some (Inl ()) \<or>
    (\<exists>q'. message_queue_grow al q = Some (Inr q') \<and> message_queue_wf q' \<and> message_queue_contents q' = message_queue_contents q \<and>
      mq_size q' = mq_size q \<and> mq_size q' < mq_capacity q')"
proof (cases "realloc_blocks al (mq_array q) (mq_capacity q * 2)")
  case None
  with room show ?thesis by (simp add: message_queue_grow_def int_mult_def)
next
  case (Some new)
  let ?c = "mq_capacity q"
  have wf: "length (mq_array q) = ?c" "0 < ?c" "mq_head q < ?c" and t: "mq_tail q = mq_head q"
    using q by (simp_all add: message_queue_wf_def message_ring_wf_def)
  have new: "length new = ?c * 2" "take ?c new = mq_array q" using length_realloc_blocks [OF al Some] wf by auto
  have pre: "mq_head q < length (mq_array q)" "take (length (mq_array q)) new = mq_array q" "2 * length (mq_array q) \<le> length new"
    using wf new by auto
  obtain z a where w: "mem_write new ?c (replicate ?c zero_message) = Some z" "mem_read z 0 (mq_tail q) = Some (take (mq_tail q) z)"
    "mem_write z ?c (take (mq_tail q) z) = Some a" "length a = ?c * 2"
    "ring_view a (mq_head q) ?c = ring_view (mq_array q) (mq_head q) ?c"
    using ring_grow_writes [OF pre, of zero_message] unfolding wf(1) t new(1) by blast
  let ?q = "q\<lparr>mq_capacity := ?c * 2, mq_array := a, mq_tail := mq_tail q + ?c\<rparr>"
  have "message_queue_grow al q = Some (Inr ?q)"
    using Some room w t wf by (simp add: message_queue_grow_def int_mult_def Let_def)
  moreover have "message_queue_wf ?q" using q wf t w(4) by (simp add: message_queue_wf_def message_ring_wf_def)
  moreover have "message_queue_contents ?q = message_queue_contents q" using w(5) q(2) by (simp add: message_queue_contents_def)
  ultimately show ?thesis using q(2) wf by auto
qed

lemma Dispatch_cases:
  assumes q: "message_queue_wf q" "message_queue_room (Suc n) q" and al: "fresh_ok al"
  shows "\<exists>ok q'. MessageQueue_Dispatch al tick q m = Some (ok, q') \<and> message_queue_wf q' \<and> message_queue_room n q' \<and>
    message_queue_contents q' = (if ok then message_queue_contents q @ [message_body m] else message_queue_contents q)"
proof (cases "mq_size q < mq_capacity q")
  case True
  from Dispatch_not_full [OF q(1) True, of al tick m] q(2) show ?thesis by (auto simp: message_queue_room_def)
next
  case False
  then have full: "mq_size q = mq_capacity q" using q(1) by (simp add: message_queue_wf_def message_ring_wf_def)
  have "mq_capacity q * 2 < 2 ^ 31" using q(2) full by (simp add: message_queue_room_def)
  from message_queue_grow_full [OF q(1) full al this] show ?thesis
  proof
    assume "message_queue_grow al q = Some (Inl ())"
    then show ?thesis using full q by (auto simp: MessageQueue_Dispatch_def message_queue_room_def)
  next
    assume "\<exists>q'. message_queue_grow al q = Some (Inr q') \<and> message_queue_wf q' \<and> message_queue_contents q' = message_queue_contents q \<and>
      mq_size q' = mq_size q \<and> mq_size q' < mq_capacity q'"
    then obtain q1 where q1: "message_queue_grow al q = Some (Inr q1)" "message_queue_wf q1"
      "message_queue_contents q1 = message_queue_contents q" "mq_size q1 = mq_size q" "mq_size q1 < mq_capacity q1" by blast
    have "MessageQueue_Dispatch al tick q m = MessageQueue_Dispatch al tick q1 m" using full q1(1,5) by (simp add: MessageQueue_Dispatch_def)
    with Dispatch_not_full [OF q1(2,5), of al tick m] q1 q(2) show ?thesis by (auto simp: message_queue_room_def)
  qed
qed

lemma message_queue_remove_cases:
  assumes q: "message_queue_wf q" "mq_size q = Suc n"
  shows "\<exists>q'. message_queue_remove q = Some q' \<and> message_queue_wf q' \<and> mq_size q' = n \<and>
    message_queue_contents q = message_body (mq_array q ! mq_head q) # message_queue_contents q'"
proof -
  let ?a = "(mq_array q)[mq_head q := zero_message]"
  let ?q = "q\<lparr>mq_array := ?a, mq_head := (mq_head q + 1) mod mq_capacity q, mq_size := n, mq_event := (0 < n)\<rparr>"
  have wf: "mq_head q < length (mq_array q)" "Suc n \<le> length (mq_array q)" "length (mq_array q) = mq_capacity q"
    using q by (simp_all add: message_queue_wf_def message_ring_wf_def)
  have "message_queue_remove q = Some ?q" using q wf by (auto simp: message_queue_remove_def message_queue_wf_def message_ring_wf_def Let_def)
  moreover have "message_queue_wf ?q" using q by (simp add: message_queue_wf_def message_ring_wf_def mod_simps)
  moreover have "message_queue_contents q = message_body (mq_array q ! mq_head q) # message_queue_contents ?q"
    using ring_view_Cons [OF wf(1,2), of zero_message] wf(3) q(2) by (simp add: message_queue_contents_def)
  ultimately show ?thesis by simp
qed

lemma Peek_cases:
  assumes "message_queue_wf q"
  shows "\<exists>q'. MessageQueue_Peek q True = Some (if message_queue_contents q = [] then 0 else 1,
      if message_queue_contents q = [] then None else Some (mq_array q ! mq_head q), q') \<and>
    message_queue_wf q' \<and> message_queue_contents q' = tl (message_queue_contents q) \<and>
    (message_queue_contents q \<noteq> [] \<longrightarrow> hd (message_queue_contents q) = message_body (mq_array q ! mq_head q)) \<and>
    (\<forall>n. message_queue_room n q \<longrightarrow> message_queue_room n q')"
proof (cases "mq_size q")
  case 0
  with assms show ?thesis by (simp add: MessageQueue_Peek_def message_queue_contents_def)
next
  case (Suc n)
  have "mq_head q < length (mq_array q)" using assms by (simp add: message_queue_wf_def message_ring_wf_def)
  with message_queue_remove_cases [OF assms Suc] Suc show ?thesis
    by (auto simp: MessageQueue_Peek_def message_queue_room_def)
qed

text \<open>The operations as a queue of message bodies, whatever the time stamps.\<close>

definition message_put :: "wMessage blocks \<Rightarrow> u32 \<Rightarrow> u64 \<Rightarrow> msg_body \<Rightarrow> wMessageQueue \<Rightarrow> (bool \<times> wMessageQueue) option" where
  "message_put al tick junk b q = MessageQueue_Dispatch al tick q (message_of b junk)"

definition message_take :: "wMessageQueue \<Rightarrow> (msg_body option \<times> wMessageQueue) option" where
  "message_take q = map_option (\<lambda>(_, m, q'). (map_option message_body m, q')) (MessageQueue_Peek q True)"

interpretation messages: fifo message_queue_wf message_queue_contents message_queue_room
    "message_put (sized_blocks al) tick junk" message_take
  for al :: "wMessage blocks" and tick :: u32 and junk :: u64
proof
  fix q n x assume "message_queue_wf q" "message_queue_room (Suc n) q"
  from Dispatch_cases [OF this fresh_ok_sized_blocks, of al tick "message_of x junk"]
  show "\<exists>ok q'. message_put (sized_blocks al) tick junk x q = Some (ok, q') \<and> message_queue_wf q' \<and> message_queue_room n q' \<and>
    message_queue_contents q' = (if ok then message_queue_contents q @ [x] else message_queue_contents q)"
    unfolding message_put_def message_body_of .
next
  fix q assume "message_queue_wf q"
  from Peek_cases [OF this]
  show "\<exists>q'. message_take q = Some (case message_queue_contents q of [] \<Rightarrow> None | x # _ \<Rightarrow> Some x, q') \<and> message_queue_wf q' \<and>
    message_queue_contents q' = tl (message_queue_contents q) \<and> (\<forall>n. message_queue_room n q \<longrightarrow> message_queue_room n q')"
    by (auto simp: message_take_def split: list.splits)
qed

subsection \<open>Clearing\<close>

lemma message_queue_clear_all:
  assumes "message_ring_wf q" "mq_size q = n"
  shows "\<exists>q'. message_queue_clear n q seen = Some (seen @ ring_view (mq_array q) (mq_head q) n, q') \<and>
    message_ring_wf q' \<and> mq_size q' = 0 \<and> mq_fnObjectUninit q' = mq_fnObjectUninit q \<and>
    mq_fnObjectFree q' = mq_fnObjectFree q"
  using assms
proof (induction n arbitrary: q seen)
  case 0
  then show ?case by simp
next
  case (Suc n)
  let ?q = "q\<lparr>mq_array := (mq_array q)[mq_head q := zero_message], mq_head := (mq_head q + 1) mod mq_capacity q, mq_size := n\<rparr>"
  have wf: "mq_head q < length (mq_array q)" "Suc n \<le> length (mq_array q)" "length (mq_array q) = mq_capacity q"
    using Suc.prems by (simp_all add: message_ring_wf_def)
  have "message_ring_wf ?q" using Suc.prems by (simp add: message_ring_wf_def mod_simps)
  from Suc.IH [OF this, of "seen @ [mq_array q ! mq_head q]"] wf Suc.prems(2)
  show ?case using ring_view_Cons [OF wf(1,2), of zero_message] by simp
qed

subsection \<open>Properties\<close>

text \<open>
  The message queue is a queue (C35): any sequence of \<open>MessageQueue_Dispatch\<close> and of
  \<open>MessageQueue_Peek\<close> with removal runs inside the array, however often it grows, and delivers
  the messages in the order they were dispatched, complete but for their time stamps.
\<close>

theorem MessageQueue_refines_fifo:
  assumes "fresh_ok al" "message_queue_wf q" "message_queue_room (puts ops) q"
  shows "\<exists>rs q'. queue_run (message_put al tick junk) message_take ops q = Some (rs, q') \<and> message_queue_wf q' \<and>
    length rs = length ops \<and> fifo_spec (zip ops rs) (message_queue_contents q) = Some (message_queue_contents q')"
  using messages.run_refines [OF assms(2,3), of al tick junk] by (simp add: sized_blocks_id [OF assms(1)])

definition demo_messages :: wMessageQueue where
  "demo_messages = the (MessageQueue_New True True True True None)"

lemma demo_messages_wf: "message_queue_wf demo_messages" "message_queue_contents demo_messages = []"
  "message_queue_room n demo_messages \<longleftrightarrow> n < 2 ^ 30"
  by (auto simp: demo_messages_def MessageQueue_New_def message_queue_wf_def message_ring_wf_def message_queue_contents_def message_queue_room_def)

theorem MessageQueue_refines_fifo_witness:
  "\<exists>rs q'. queue_run (message_put (zero_blocks zero_message) 7 0) message_take [Put (1, 0, 2, 3, 0), Get, Get] demo_messages = Some (rs, q') \<and>
    message_queue_wf q' \<and> length rs = length [Put (1, 0, 2, 3, 0), Get, Get] \<and>
    fifo_spec (zip [Put (1, 0, 2, 3, 0), Get, Get] rs) [] = Some (message_queue_contents q')"
  using MessageQueue_refines_fifo [of "zero_blocks zero_message" demo_messages "[Put (1, 0, 2, 3, 0), Get, Get]" 7 0]
  by (simp only: demo_messages_wf fresh_ok_zero_blocks puts.simps) simp

text \<open>
  Waiting for a message: the event is set exactly while a message waits, so that a wait
  that returned finds the oldest message; \<open>MessageQueue_Get\<close> returns it with status 0 for the
  quit message and 1 for any other, and keeps the invariant, the event included.
\<close>

theorem MessageQueue_Get_delivers:
  assumes "message_queue_wf q" "mq_event q"
  shows "\<exists>m q'. MessageQueue_Get True q = Some (if msg_id m = WMQ_QUIT then 0 else 1, Some m, q') \<and> message_queue_wf q' \<and>
    message_queue_contents q = message_body m # message_queue_contents q' \<and> mq_event q' = (message_queue_contents q' \<noteq> [])"
proof -
  obtain n where n: "mq_size q = Suc n" using assms by (cases "mq_size q") (simp_all add: message_queue_wf_def message_ring_wf_def)
  have h: "mq_head q < length (mq_array q)" using assms by (simp add: message_queue_wf_def message_ring_wf_def)
  obtain q' where q': "message_queue_remove q = Some q'" "message_queue_wf q'"
    "message_queue_contents q = message_body (mq_array q ! mq_head q) # message_queue_contents q'"
    using message_queue_remove_cases [OF assms(1) n] by blast
  have "mq_event q' = (message_queue_contents q' \<noteq> [])" using q'(2) by (simp add: message_queue_wf_def message_ring_wf_def message_queue_contents_def)
  with q' n h show ?thesis by (intro exI [of _ "mq_array q ! mq_head q"] exI [of _ q']) (simp add: MessageQueue_Get_def)
qed

theorem MessageQueue_Get_delivers_witness:
  "\<exists>m q'. MessageQueue_Get True (demo_messages\<lparr>mq_size := 1, mq_tail := 1, mq_event := True\<rparr>) =
      Some (if msg_id m = WMQ_QUIT then 0 else 1, Some m, q') \<and> message_queue_wf q' \<and>
    message_queue_contents (demo_messages\<lparr>mq_size := 1, mq_tail := 1, mq_event := True\<rparr>) = message_body m # message_queue_contents q' \<and>
    mq_event q' = (message_queue_contents q' \<noteq> [])"
  by (rule MessageQueue_Get_delivers)
    (simp_all add: demo_messages_def MessageQueue_New_def message_queue_wf_def message_ring_wf_def)

text \<open>
  Posting the end: an exit code posted by \<open>MessageQueue_PostQuit\<close> to an empty queue is the
  next message that \<open>MessageQueue_Get\<close> delivers, with status 0.
\<close>

theorem MessageQueue_quit_roundtrip:
  assumes "message_queue_wf q" "message_queue_contents q = []"
  shows "\<exists>q1 m q2. MessageQueue_PostQuit al tick junk q code = Some (True, q1) \<and> mq_event q1 \<and>
    MessageQueue_Get True q1 = Some (0, Some m, q2) \<and> msg_id m = WMQ_QUIT \<and> msg_wParam m = word_of_int code \<and>
    message_queue_contents q2 = []"
proof -
  let ?m = "\<lparr>msg_id = WMQ_QUIT, msg_context = 0, msg_wParam = word_of_int code, msg_lParam = 0, msg_time = junk, msg_Free = 0\<rparr>"
  have room: "mq_size q < mq_capacity q" using assms by (simp add: message_queue_contents_def message_queue_wf_def message_ring_wf_def)
  obtain q1 where q1: "MessageQueue_Dispatch al tick q ?m = Some (True, q1)" "message_queue_wf q1"
    "message_queue_contents q1 = [message_body ?m]" "mq_size q1 = Suc (mq_size q)"
    using Dispatch_not_full [OF assms(1) room, of al tick ?m] assms(2) by auto
  have ev: "mq_size q1 = Suc 0" "mq_event q1" using q1(2,4) assms(2) by (simp_all add: message_queue_wf_def message_ring_wf_def message_queue_contents_def)
  have h: "mq_head q1 < length (mq_array q1)" using q1(2) by (simp add: message_queue_wf_def message_ring_wf_def)
  obtain q2 where q2: "message_queue_remove q1 = Some q2"
    "message_queue_contents q1 = message_body (mq_array q1 ! mq_head q1) # message_queue_contents q2"
    using message_queue_remove_cases [OF q1(2) ev(1)] by blast
  let ?r = "mq_array q1 ! mq_head q1"
  have b: "message_body ?r = message_body ?m" "message_queue_contents q2 = []" using q1(3) q2(2) by simp_all
  then have "msg_id ?r = WMQ_QUIT" "msg_wParam ?r = word_of_int code" by (simp_all add: message_body_def)
  moreover from this have "MessageQueue_Get True q1 = Some (0, Some ?r, q2)" using q2(1) h ev by (simp add: MessageQueue_Get_def)
  moreover have "MessageQueue_PostQuit al tick junk q code = Some (True, q1)"
    using q1(1) by (simp add: MessageQueue_PostQuit_def MessageQueue_Post_def)
  ultimately show ?thesis using ev b by blast
qed

theorem MessageQueue_quit_roundtrip_witness:
  "\<exists>q1 m q2. MessageQueue_PostQuit (\<lambda>_. None) 9 0 demo_messages 3 = Some (True, q1) \<and> mq_event q1 \<and>
    MessageQueue_Get True q1 = Some (0, Some m, q2) \<and> msg_id m = WMQ_QUIT \<and> msg_wParam m = 3 \<and> message_queue_contents q2 = []"
  using MessageQueue_quit_roundtrip [OF demo_messages_wf(1,2), of "\<lambda>_. None" 9 0 3] by simp

text \<open>
  Clearing the message queue: every waiting message, and no other, is handed to the
  callbacks that are set, in order, and an empty queue with its event reset is left.
\<close>

theorem MessageQueue_Clear_spec:
  assumes "message_queue_wf q"
  shows "\<exists>seen q'. MessageQueue_Clear q = Some (seen, q') \<and> message_queue_wf q' \<and> message_queue_contents q' = [] \<and> \<not> mq_event q' \<and>
    map message_body seen = (if mq_fnObjectUninit q \<or> mq_fnObjectFree q then message_queue_contents q else [])"
proof -
  obtain q' where "message_queue_clear (mq_size q) q [] = Some (ring_view (mq_array q) (mq_head q) (mq_size q), q')"
    "message_ring_wf q'" "mq_size q' = 0" "mq_fnObjectUninit q' = mq_fnObjectUninit q"
    "mq_fnObjectFree q' = mq_fnObjectFree q"
    using message_queue_clear_all [of q "mq_size q" "[]"] assms by (auto simp: message_queue_wf_def)
  then show ?thesis
    by (simp add: MessageQueue_Clear_def message_queue_contents_def message_queue_wf_def message_ring_wf_def)
qed

theorem MessageQueue_Clear_spec_witness:
  "\<exists>seen q'. MessageQueue_Clear (demo_messages\<lparr>mq_size := 1, mq_tail := 1, mq_event := True, mq_fnObjectFree := True\<rparr>) = Some (seen, q') \<and>
    message_queue_wf q' \<and> message_queue_contents q' = [] \<and> \<not> mq_event q' \<and> map message_body seen = [message_body zero_message]"
proof -
  let ?q = "demo_messages\<lparr>mq_size := 1, mq_tail := 1, mq_event := True, mq_fnObjectFree := True\<rparr>"
  have "message_queue_wf ?q" "message_queue_contents ?q = [message_body zero_message]" "mq_fnObjectFree ?q"
    by (simp_all add: demo_messages_def MessageQueue_New_def message_queue_wf_def message_ring_wf_def message_queue_contents_def ring_view_def)
  with MessageQueue_Clear_spec [of ?q] show ?thesis by simp
qed

text \<open>
  The time stamp: the dispatch that fills the array stamps the oldest waiting message, not
  the new one, which keeps the time its sender left in it.
\<close>

theorem MessageQueue_stamps_oldest:
  assumes "message_queue_wf q" "Suc (mq_size q) = mq_capacity q" "0 < mq_size q"
  shows "\<exists>q'. MessageQueue_Dispatch al tick q m = Some (True, q') \<and>
    mq_array q' ! mq_head q = (mq_array q ! mq_head q)\<lparr>msg_time := ucast tick\<rparr> \<and> mq_array q' ! mq_tail q = m"
proof -
  have wf: "length (mq_array q) = mq_capacity q" "mq_head q < mq_capacity q" "mq_tail q = (mq_head q + mq_size q) mod mq_capacity q"
    using assms by (simp_all add: message_queue_wf_def message_ring_wf_def)
  have "(mq_head q + 0) mod mq_capacity q \<noteq> (mq_head q + mq_size q) mod mq_capacity q" using assms by (intro ring_mod_neq) auto
  then have ne: "mq_head q \<noteq> mq_tail q" using wf by simp
  have "(mq_tail q + 1) mod mq_capacity q = (mq_head q + mq_capacity q) mod mq_capacity q"
    unfolding wf(3) assms(2) [symmetric] by (simp add: mod_simps)
  then have h: "(mq_tail q + 1) mod mq_capacity q = mq_head q" using wf(2) by simp
  have "mq_tail q < mq_capacity q" using wf assms(2) by simp
  then show ?thesis using Dispatch_not_full [OF assms(1), of al tick m] assms(2) h ne wf(1,2)
    by (auto simp: Let_def)
qed

theorem MessageQueue_stamps_oldest_witness:
  "\<exists>q'. MessageQueue_Dispatch (\<lambda>_. None) 9 (demo_messages\<lparr>mq_size := 31, mq_tail := 31, mq_event := True\<rparr>) zero_message = Some (True, q') \<and>
    mq_array q' ! 0 = zero_message\<lparr>msg_time := 9\<rparr> \<and> mq_array q' ! 31 = zero_message"
proof -
  let ?q = "demo_messages\<lparr>mq_size := 31, mq_tail := 31, mq_event := True\<rparr>"
  have f: "mq_head ?q = 0" "mq_tail ?q = 31" "mq_array ?q ! 0 = zero_message" "message_queue_wf ?q" "Suc (mq_size ?q) = mq_capacity ?q"
    by (simp_all add: demo_messages_def MessageQueue_New_def message_queue_wf_def message_ring_wf_def)
  from MessageQueue_stamps_oldest [OF f(4,5), of "\<lambda>_. None" 9 zero_message] f(1-3) show ?thesis by simp
qed

end
