(* ===== verification/Stack.thy ===== *)
theory Stack
  imports Ring
begin

text \<open>
  The stack of \<open>winpr/libwinpr/utils/collections/Stack.c\<close>: an array that doubles before its last
  slot is used. \<open>st_lock\<close> counts the entries of the critical section that have not been left:
  every function but \<open>Stack_Push\<close> leaves as often as it enters.
\<close>

record 'o wStack =
  st_size :: nat
  st_capacity :: nat
  st_array :: "'o ptr list"
  st_lock :: nat
  st_synchronized :: bool
  st_object :: "'o wObject"

subsection \<open>Operations\<close>

definition Stack_Count :: "'o wStack \<Rightarrow> nat" where
  "Stack_Count stack = st_size stack"

definition Stack_Clear :: "'o wStack \<Rightarrow> ('o ptr list \<times> 'o wStack) option" where
  "Stack_Clear stack = do {
     (freed, arr) \<leftarrow> clear_slots (st_size stack) 0 (st_array stack) [];
     Some (if fnObjectFree (st_object stack) then freed else [], stack\<lparr>st_array := arr, st_size := 0\<rparr>) }"

definition Stack_Contains :: "'o wStack \<Rightarrow> 'o ptr \<Rightarrow> bool option" where
  "Stack_Contains stack obj = do {
     xs \<leftarrow> mem_read (st_array stack) 0 (st_size stack);
     Some (list_ex (\<lambda>x. fnObjectEquals (st_object stack) x obj) xs) }"

definition Stack_Push :: "'o ptr blocks \<Rightarrow> 'o wStack \<Rightarrow> 'o ptr \<Rightarrow> 'o wStack option" where
  "Stack_Push al stack obj = do {
     let enter = (if st_synchronized stack then stack\<lparr>st_lock := st_lock stack + 1\<rparr> else stack);
     grown \<leftarrow> (if st_size enter + 1 \<ge> st_capacity enter then do {
         new_cap \<leftarrow> int_mult (st_capacity enter) 2;
         (case realloc_blocks al (st_array enter) new_cap of
            None \<Rightarrow> Some None
          | Some new_arr \<Rightarrow> Some (Some (enter\<lparr>st_array := new_arr, st_capacity := new_cap\<rparr>))) }
       else Some (Some enter));
     (case grown of
        None \<Rightarrow> Some enter
      | Some stack \<Rightarrow> do {
          arr \<leftarrow> mem_write (st_array stack) (st_size stack) [obj];
          Some (stack\<lparr>st_array := arr, st_size := st_size stack + 1,
            st_lock := if st_synchronized stack then st_lock stack - 1 else st_lock stack\<rparr>) }) }"

definition Stack_Pop :: "'o wStack \<Rightarrow> ('o ptr \<times> 'o wStack) option" where
  "Stack_Pop stack =
     (if st_size stack > 0 then do {
        let stack = stack\<lparr>st_size := st_size stack - 1\<rparr>;
        xs \<leftarrow> mem_read (st_array stack) (st_size stack) 1;
        Some (hd xs, stack) }
      else Some (None, stack))"

definition Stack_Peek :: "'o wStack \<Rightarrow> 'o ptr option" where
  "Stack_Peek stack = (if st_size stack > 0 then map_option hd (mem_read (st_array stack) (st_size stack) 1) else Some None)"

definition default_stack_equals :: "'o ptr \<Rightarrow> 'o ptr \<Rightarrow> bool" where
  "default_stack_equals obj1 obj2 \<longleftrightarrow> obj1 = obj2"

text \<open>\<open>Stack_New\<close>: the outcome of the three calls that may fail; the array is not initialised.\<close>

definition Stack_New :: "bool \<Rightarrow> 'o ptr blocks \<Rightarrow> bool \<Rightarrow> bool \<Rightarrow> 'o wStack option" where
  "Stack_New stack_ok al lock_ok synchronized =
     (if \<not> stack_ok then None
      else case al 32 of
        None \<Rightarrow> None
      | Some arr \<Rightarrow>
          if synchronized \<and> \<not> lock_ok then None
          else Some \<lparr>st_size = 0, st_capacity = 32, st_array = arr, st_lock = 0, st_synchronized = synchronized,
            st_object = \<lparr>fnObjectEquals = default_stack_equals, fnObjectFree = False\<rparr>\<rparr>)"

subsection \<open>Invariant and contents\<close>

text \<open>The slot above the top is always inside the array; \<open>stack_room n\<close>: there is room for \<open>n\<close> more elements.\<close>

definition stack_wf :: "'o wStack \<Rightarrow> bool" where
  "stack_wf s \<longleftrightarrow> length (st_array s) = st_capacity s \<and> 2 \<le> st_capacity s \<and> st_size s < st_capacity s"

definition stack_contents :: "'o wStack \<Rightarrow> 'o ptr list" where
  "stack_contents s = take (st_size s) (st_array s)"

definition stack_room :: "nat \<Rightarrow> 'o wStack \<Rightarrow> bool" where
  "stack_room n s \<longleftrightarrow> (st_size s + n) * 2 < 2 ^ 31"

lemma take_Suc_update: "n < length xs \<Longrightarrow> take (Suc n) (xs[n := x]) = take n xs @ [x]"
  by (simp add: take_Suc_conv_app_nth)

text \<open>A push stores its element, or, when the array cannot grow, changes nothing but the lock.\<close>

lemma Stack_Push_cases:
  assumes s: "stack_wf s" "stack_room (Suc n) s" and al: "fresh_ok al"
  shows "(st_size s + 1 = st_capacity s \<and> al (st_capacity s) = None \<and>
      Stack_Push al s x = Some (if st_synchronized s then s\<lparr>st_lock := st_lock s + 1\<rparr> else s)) \<or>
    (\<exists>s'. Stack_Push al s x = Some s' \<and> stack_wf s' \<and> stack_room n s' \<and> stack_contents s' = stack_contents s @ [x] \<and> st_lock s' = st_lock s)"
proof (cases "st_size s + 1 \<ge> st_capacity s")
  case True
  have wf: "length (st_array s) = st_capacity s" "2 \<le> st_capacity s" "st_size s < st_capacity s"
    using s by (simp_all add: stack_wf_def)
  have m: "int_mult (st_capacity s) 2 = Some (st_capacity s * 2)" using s(2) True wf by (simp add: int_mult_def stack_room_def)
  show ?thesis
  proof (cases "realloc_blocks al (st_array s) (st_capacity s * 2)")
    case None
    with True wf m show ?thesis by (simp add: Stack_Push_def realloc_blocks_def mult_2_right)
  next
    case (Some new)
    let ?s = "s\<lparr>st_capacity := st_capacity s * 2, st_array := new[st_size s := x], st_size := Suc (st_size s), st_lock := st_lock s\<rparr>"
    have new: "length new = st_capacity s * 2" "take (st_capacity s) new = st_array s"
      using length_realloc_blocks [OF al Some] wf by auto
    have "take (st_size s) new = take (st_size s) (st_array s)" unfolding new(2) [symmetric] using wf by (simp add: min_def)
    then have "stack_contents ?s = stack_contents s @ [x]"
      using new(1) wf by (simp add: take_Suc_update stack_contents_def)
    moreover have "Stack_Push al s x = Some ?s" using Some True wf new(1) m by (simp add: Stack_Push_def)
    ultimately show ?thesis using wf new(1) s(2) by (auto simp: stack_wf_def stack_room_def)
  qed
next
  case False
  let ?s = "s\<lparr>st_array := (st_array s)[st_size s := x], st_size := Suc (st_size s), st_lock := st_lock s\<rparr>"
  have "Stack_Push al s x = Some ?s" using False s by (simp add: Stack_Push_def stack_wf_def)
  with False s show ?thesis by (auto simp: stack_wf_def stack_contents_def stack_room_def take_Suc_update)
qed

lemma length_stack_contents: "stack_wf s \<Longrightarrow> length (stack_contents s) = st_size s"
  by (simp add: stack_contents_def stack_wf_def)

lemma Stack_Pop_cases:
  assumes "stack_wf s" "stack_contents s = ys @ [x]"
  shows "Stack_Pop s = Some (x, s\<lparr>st_size := st_size s - 1\<rparr>)"
    and "stack_contents (s\<lparr>st_size := st_size s - 1\<rparr>) = ys"
    and "stack_wf (s\<lparr>st_size := st_size s - 1\<rparr>)"
proof -
  have n: "st_size s = Suc (length ys)" "st_size s < length (st_array s)"
    using length_stack_contents [OF assms(1)] assms by (simp_all add: stack_wf_def)
  then have "take (length ys) (st_array s) @ [st_array s ! length ys] = ys @ [x]"
    using assms(2) by (simp add: stack_contents_def take_Suc_conv_app_nth)
  then have "take (length ys) (st_array s) = ys" "st_array s ! length ys = x" by simp_all
  with n show "Stack_Pop s = Some (x, s\<lparr>st_size := st_size s - 1\<rparr>)"
    "stack_contents (s\<lparr>st_size := st_size s - 1\<rparr>) = ys"
    by (simp_all add: Stack_Pop_def stack_contents_def)
  show "stack_wf (s\<lparr>st_size := st_size s - 1\<rparr>)" using assms by (auto simp: stack_wf_def)
qed

subsection \<open>Pushing and popping sequences\<close>

fun stack_push_all :: "'o ptr blocks \<Rightarrow> 'o ptr list \<Rightarrow> 'o wStack \<Rightarrow> 'o wStack option" where
  "stack_push_all al [] s = Some s"
| "stack_push_all al (x # xs) s = do { s \<leftarrow> Stack_Push al s x; stack_push_all al xs s }"

fun stack_pop_n :: "nat \<Rightarrow> 'o wStack \<Rightarrow> ('o ptr list \<times> 'o wStack) option" where
  "stack_pop_n 0 s = Some ([], s)"
| "stack_pop_n (Suc n) s = do { (x, s) \<leftarrow> Stack_Pop s; (xs, s) \<leftarrow> stack_pop_n n s; Some (x # xs, s) }"

lemma stack_push_all_contents:
  assumes "fresh_ok al" "\<forall>n. al n \<noteq> None" "stack_wf s" "stack_room (length xs) s"
  shows "\<exists>s'. stack_push_all al xs s = Some s' \<and> stack_wf s' \<and> stack_contents s' = stack_contents s @ xs \<and> st_lock s' = st_lock s"
  using assms(3,4)
proof (induction xs arbitrary: s)
  case (Cons x xs)
  obtain s1 where s1: "Stack_Push al s x = Some s1" "stack_wf s1" "stack_room (length xs) s1"
    "stack_contents s1 = stack_contents s @ [x]" "st_lock s1 = st_lock s"
    using Stack_Push_cases [OF Cons.prems(1) _ assms(1), of "length xs" x] Cons.prems(2) assms(2) by auto
  from Cons.IH [OF s1(2,3)] s1 show ?case by auto
qed simp

lemma stack_pop_n_contents:
  assumes "stack_wf s" "stack_contents s = ys @ xs"
  shows "\<exists>s'. stack_pop_n (length xs) s = Some (rev xs, s') \<and> stack_wf s' \<and> stack_contents s' = ys \<and> st_lock s' = st_lock s"
  using assms
proof (induction xs arbitrary: s rule: rev_induct)
  case (snoc x xs)
  note p = Stack_Pop_cases [OF snoc.prems(1), of "ys @ xs" x]
  from snoc.IH [OF p(3,2)] p(1) snoc.prems(2) show ?case by auto
qed simp

subsection \<open>Properties\<close>

text \<open>
  Last in, first out: elements pushed on a well-formed stack, which may have to grow, are
  popped in the opposite order, and leave the elements below them and the lock as they were.
\<close>

theorem Stack_push_pop_reverses:
  assumes "fresh_ok al" "\<forall>n. al n \<noteq> None" "stack_wf s" "stack_room (length xs) s"
  shows "\<exists>s1 s2. stack_push_all al xs s = Some s1 \<and> stack_pop_n (length xs) s1 = Some (rev xs, s2) \<and>
    stack_wf s2 \<and> stack_contents s2 = stack_contents s \<and> st_lock s2 = st_lock s"
proof -
  obtain s1 where s1: "stack_push_all al xs s = Some s1" "stack_wf s1" "stack_contents s1 = stack_contents s @ xs" "st_lock s1 = st_lock s"
    using stack_push_all_contents [OF assms] by blast
  from stack_pop_n_contents [OF s1(2,3)] s1 show ?thesis by auto
qed

definition demo_stack :: "nat wStack" where
  "demo_stack = the (Stack_New True (zero_blocks None) True True)"

lemma demo_stack_simps: "stack_wf demo_stack" "stack_room n demo_stack \<longleftrightarrow> n < 2 ^ 30" "stack_contents demo_stack = []" "st_lock demo_stack = 0"
  by (auto simp: demo_stack_def Stack_New_def zero_blocks_def stack_wf_def stack_room_def stack_contents_def)

theorem Stack_push_pop_reverses_witness:
  "\<exists>s1 s2. stack_push_all (zero_blocks None) [Some 1, Some 2] demo_stack = Some s1 \<and>
    stack_pop_n (length [Some 1, Some (2 :: nat)]) s1 = Some (rev [Some 1, Some 2], s2) \<and>
    stack_wf s2 \<and> stack_contents s2 = stack_contents demo_stack \<and> st_lock s2 = st_lock demo_stack"
  by (rule Stack_push_pop_reverses) (simp_all add: demo_stack_simps, simp add: zero_blocks_def)

text \<open>
  Looking at the top: \<open>Stack_Peek\<close> reads the slot above the top, so that after an element
  was popped it returns that element again and not the new top.
\<close>

theorem Stack_Peek_stale:
  assumes "stack_wf s" "stack_contents s = ys @ [y, x]"
  shows "\<exists>s'. Stack_Pop s = Some (x, s') \<and> stack_contents s' = ys @ [y] \<and> Stack_Peek s' = Some x"
proof -
  note p = Stack_Pop_cases [OF assms(1), of "ys @ [y]" x]
  have n: "st_size s = Suc (Suc (length ys))" "st_size s < length (st_array s)"
    using length_stack_contents [OF assms(1)] assms by (simp_all add: stack_wf_def)
  have "st_array s ! Suc (length ys) = stack_contents s ! Suc (length ys)" using n by (simp add: stack_contents_def)
  also have "\<dots> = x" by (simp add: assms(2) nth_append)
  finally show ?thesis using p assms(2) n by (simp add: Stack_Peek_def)
qed

theorem Stack_Peek_stale_witness:
  "\<exists>s'. Stack_Pop (demo_stack\<lparr>st_array := Some 1 # Some 2 # replicate 30 None, st_size := length [(), ()]\<rparr>) = Some (Some 2, s') \<and>
    stack_contents s' = [] @ [Some 1] \<and> Stack_Peek s' = Some (Some 2)"
  by (rule Stack_Peek_stale)
    (simp_all add: stack_wf_def stack_contents_def, simp add: demo_stack_def Stack_New_def zero_blocks_def)

text \<open>
  A push that cannot grow the array: it returns from inside the critical section, and the
  lock of a synchronized stack stays held.
\<close>

theorem Stack_Push_keeps_lock:
  assumes "stack_wf s" "st_synchronized s" "st_size s + 1 = st_capacity s" "st_capacity s * 2 < 2 ^ 31" "al (st_capacity s) = None"
  shows "\<exists>s'. Stack_Push al s x = Some s' \<and> stack_contents s' = stack_contents s \<and> st_lock s' = st_lock s + 1"
  using assms by (simp add: Stack_Push_def int_mult_def realloc_blocks_def stack_wf_def stack_contents_def mult_2_right)

theorem Stack_Push_keeps_lock_witness:
  "\<exists>s'. Stack_Push (\<lambda>_. None) (demo_stack\<lparr>st_size := 31\<rparr>) (Some 5) = Some s' \<and>
    stack_contents s' = stack_contents (demo_stack\<lparr>st_size := 31\<rparr>) \<and> st_lock s' = st_lock (demo_stack\<lparr>st_size := 31\<rparr>) + 1"
  by (rule Stack_Push_keeps_lock) (simp_all add: demo_stack_def Stack_New_def zero_blocks_def stack_wf_def)

text \<open>
  Clearing the stack: all elements, bottom first, are given to \<open>fnObjectFree\<close> when it is set,
  and the stack is empty and well formed.
\<close>

theorem Stack_Clear_spec:
  assumes "stack_wf s"
  shows "\<exists>s'. Stack_Clear s = Some (if fnObjectFree (st_object s) then stack_contents s else [], s') \<and> stack_wf s' \<and> stack_contents s' = []"
  using clear_slots_all [of 0 "st_size s" "st_array s" "[]"] assms
  by (auto simp: Stack_Clear_def stack_wf_def stack_contents_def)

theorem Stack_Clear_spec_witness:
  "\<exists>s'. Stack_Clear demo_stack = Some (if fnObjectFree (st_object demo_stack) then stack_contents demo_stack else [], s') \<and>
    stack_wf s' \<and> stack_contents s' = []"
  by (rule Stack_Clear_spec) (rule demo_stack_simps)

end
