(* ===== verification/ArrayList.thy ===== *)
theory ArrayList
  imports Ring
begin

text \<open>
  The array list of \<open>winpr/libwinpr/utils/collections/ArrayList.c\<close>: insertion, removal and
  search in a growing array. Index and count arguments are C \<open>int\<close>s, so they are integers
  here; the calls are modelled one after the other.
\<close>

record 'o wArrayList =
  al_capacity :: nat
  al_growthFactor :: nat
  al_synchronized :: bool
  al_size :: nat
  al_array :: "'o ptr list"
  al_object :: "'o wObject"

text \<open>\<open>MoveMemory (&arr[dst], &arr[src], n * sizeof (void*))\<close>.\<close>

definition mem_move :: "'a list \<Rightarrow> int \<Rightarrow> int \<Rightarrow> int \<Rightarrow> 'a list option" where
  "mem_move arr dst src n =
     (if dst < 0 \<or> src < 0 \<or> n < 0 then None
      else do { xs \<leftarrow> mem_read arr (nat src) (nat n); mem_write arr (nat dst) xs })"

subsection \<open>Operations\<close>

definition ArrayList_Capacity :: "'o wArrayList \<Rightarrow> nat" where
  "ArrayList_Capacity arrayList = al_capacity arrayList"

definition ArrayList_Count :: "'o wArrayList \<Rightarrow> nat" where
  "ArrayList_Count arrayList = al_size arrayList"

definition in_list :: "'o wArrayList \<Rightarrow> int \<Rightarrow> bool" where
  "in_list arrayList index \<longleftrightarrow> 0 \<le> index \<and> index < int (al_size arrayList)"

definition ArrayList_GetItem :: "'o wArrayList \<Rightarrow> int \<Rightarrow> 'o ptr option" where
  "ArrayList_GetItem arrayList index =
     (if in_list arrayList index then map_option hd (mem_read (al_array arrayList) (nat index) 1) else Some None)"

definition ArrayList_SetItem :: "'o wArrayList \<Rightarrow> int \<Rightarrow> 'o ptr \<Rightarrow> 'o wArrayList option" where
  "ArrayList_SetItem arrayList index obj =
     (if in_list arrayList index
      then map_option (\<lambda>arr. arrayList\<lparr>al_array := arr\<rparr>) (mem_write (al_array arrayList) (nat index) [obj])
      else Some arrayList)"

text \<open>The array made larger, or \<^const>\<open>None\<close> inside when \<open>realloc\<close> fails.\<close>

definition array_list_grow :: "'o ptr blocks \<Rightarrow> 'o wArrayList \<Rightarrow> 'o wArrayList option option" where
  "array_list_grow al arrayList = do {
     newCapacity \<leftarrow> int_mult (al_capacity arrayList) (al_growthFactor arrayList);
     Some (map_option (\<lambda>newArray. arrayList\<lparr>al_array := newArray, al_capacity := newCapacity\<rparr>)
       (realloc_blocks al (al_array arrayList) newCapacity)) }"

text \<open>Room for \<open>count\<close> more elements, made when they do not fit.\<close>

definition array_list_reserve :: "'o ptr blocks \<Rightarrow> 'o wArrayList \<Rightarrow> int \<Rightarrow> 'o wArrayList option option" where
  "array_list_reserve al arrayList count =
     (if int (al_size arrayList) + count > int (al_capacity arrayList) then array_list_grow al arrayList else Some (Some arrayList))"

text \<open>A call that would make the size negative, which no caller makes, is outside the model: \<^const>\<open>None\<close>.\<close>

definition ArrayList_Shift :: "'o ptr blocks \<Rightarrow> 'o wArrayList \<Rightarrow> int \<Rightarrow> int \<Rightarrow> (bool \<times> 'o wArrayList) option" where
  "ArrayList_Shift al arrayList index count =
     (if count > 0 then do {
        grown \<leftarrow> array_list_reserve al arrayList count;
        (case grown of
           None \<Rightarrow> Some (False, arrayList)
         | Some arrayList \<Rightarrow> do {
             arr \<leftarrow> mem_move (al_array arrayList) (index + count) index (int (al_size arrayList) - index);
             Some (True, arrayList\<lparr>al_array := arr, al_size := nat (int (al_size arrayList) + count)\<rparr>) }) }
      else if count < 0 \<and> int (al_size arrayList) + count \<ge> 0 then do {
        let chunk = int (al_size arrayList) - index + count;
        arr \<leftarrow> (if chunk > 0 then mem_move (al_array arrayList) index (index - count) chunk else Some (al_array arrayList));
        Some (True, arrayList\<lparr>al_array := arr, al_size := nat (int (al_size arrayList) + count)\<rparr>) }
      else if count < 0 then None
      else Some (True, arrayList))"

definition ArrayList_Clear :: "'o wArrayList \<Rightarrow> ('o ptr list \<times> 'o wArrayList) option" where
  "ArrayList_Clear arrayList = do {
     (freed, arr) \<leftarrow> clear_slots (al_size arrayList) 0 (al_array arrayList) [];
     Some (if fnObjectFree (al_object arrayList) then freed else [], arrayList\<lparr>al_array := arr, al_size := 0\<rparr>) }"

definition ArrayList_Contains :: "'o wArrayList \<Rightarrow> 'o ptr \<Rightarrow> bool option" where
  "ArrayList_Contains arrayList obj = do {
     xs \<leftarrow> mem_read (al_array arrayList) 0 (al_size arrayList);
     Some (list_ex (\<lambda>x. fnObjectEquals (al_object arrayList) x obj) xs) }"

text \<open>\<open>ArrayList_Add\<close> returns the size after the call, or -1.\<close>

definition ArrayList_Add :: "'o ptr blocks \<Rightarrow> 'o wArrayList \<Rightarrow> 'o ptr \<Rightarrow> (int \<times> 'o wArrayList) option" where
  "ArrayList_Add al arrayList obj = do {
     grown \<leftarrow> array_list_reserve al arrayList 1;
     (case grown of
        None \<Rightarrow> Some (-1, arrayList)
      | Some arrayList \<Rightarrow> do {
          arr \<leftarrow> mem_write (al_array arrayList) (al_size arrayList) [obj];
          let arrayList = arrayList\<lparr>al_array := arr, al_size := al_size arrayList + 1\<rparr>;
          Some (int (al_size arrayList), arrayList) }) }"

definition ArrayList_Insert :: "'o ptr blocks \<Rightarrow> 'o wArrayList \<Rightarrow> int \<Rightarrow> 'o ptr \<Rightarrow> (bool \<times> 'o wArrayList) option" where
  "ArrayList_Insert al arrayList index obj =
     (if in_list arrayList index then do {
        (ok, arrayList) \<leftarrow> ArrayList_Shift al arrayList index 1;
        (if \<not> ok then Some (False, arrayList)
         else do {
           arr \<leftarrow> mem_write (al_array arrayList) (nat index) [obj];
           Some (True, arrayList\<lparr>al_array := arr\<rparr>) }) }
      else Some (True, arrayList))"

text \<open>
  The linear search of \<open>ArrayList_Remove\<close>: the first index below \<open>size\<close> whose slot is \<open>obj\<close>,
  or the number of slots searched.
\<close>

fun find_index :: "('a \<Rightarrow> bool) \<Rightarrow> 'a list \<Rightarrow> nat" where
  "find_index P [] = 0"
| "find_index P (x # xs) = (if P x then 0 else Suc (find_index P xs))"

text \<open>The removals return, besides their result, the object given to \<open>fnObjectFree\<close>, if any.\<close>

definition array_list_drop :: "'o ptr blocks \<Rightarrow> 'o wArrayList \<Rightarrow> nat \<Rightarrow> (bool \<times> 'o ptr option \<times> 'o wArrayList) option" where
  "array_list_drop al arrayList index = do {
     xs \<leftarrow> mem_read (al_array arrayList) index 1;
     (ret, arrayList') \<leftarrow> ArrayList_Shift al arrayList (int index) (-1);
     Some (ret, if fnObjectFree (al_object arrayList) then Some (hd xs) else None, arrayList') }"

definition ArrayList_Remove :: "'o ptr blocks \<Rightarrow> 'o wArrayList \<Rightarrow> 'o ptr \<Rightarrow> (bool \<times> 'o ptr option \<times> 'o wArrayList) option" where
  "ArrayList_Remove al arrayList obj = do {
     xs \<leftarrow> mem_read (al_array arrayList) 0 (al_size arrayList);
     let index = find_index (\<lambda>x. x = obj) xs;
     (if index < al_size arrayList then array_list_drop al arrayList index else Some (True, None, arrayList)) }"

definition ArrayList_RemoveAt :: "'o ptr blocks \<Rightarrow> 'o wArrayList \<Rightarrow> int \<Rightarrow> (bool \<times> 'o ptr option \<times> 'o wArrayList) option" where
  "ArrayList_RemoveAt al arrayList index =
     (if in_list arrayList index then array_list_drop al arrayList (nat index) else Some (True, None, arrayList))"

text \<open>The loop of \<open>ArrayList_IndexOf\<close> over \<open>n\<close> slots from \<open>index\<close> up, of \<open>ArrayList_LastIndexOf\<close> down to \<open>startIndex\<close>.\<close>

fun index_of_loop :: "('o ptr \<Rightarrow> bool) \<Rightarrow> 'o ptr list \<Rightarrow> nat \<Rightarrow> nat \<Rightarrow> int option" where
  "index_of_loop eq arr index 0 = Some (-1)"
| "index_of_loop eq arr index (Suc n) = do {
     xs \<leftarrow> mem_read arr index 1;
     (if eq (hd xs) then Some (int index) else index_of_loop eq arr (index + 1) n) }"

fun last_index_of_loop :: "('o ptr \<Rightarrow> bool) \<Rightarrow> 'o ptr list \<Rightarrow> nat \<Rightarrow> nat \<Rightarrow> int option" where
  "last_index_of_loop eq arr startIndex 0 = Some (-1)"
| "last_index_of_loop eq arr startIndex (Suc n) = do {
     xs \<leftarrow> mem_read arr (startIndex + n) 1;
     (if eq (hd xs) then Some (int (startIndex + n)) else last_index_of_loop eq arr startIndex n) }"

definition ArrayList_IndexOf :: "'o wArrayList \<Rightarrow> 'o ptr \<Rightarrow> int \<Rightarrow> int \<Rightarrow> int option" where
  "ArrayList_IndexOf arrayList obj startIndex count =
     (let startIndex = (if startIndex < 0 then 0 else startIndex);
          count = (if count < 0 then int (al_size arrayList) else count)
      in index_of_loop (\<lambda>x. fnObjectEquals (al_object arrayList) x obj) (al_array arrayList) (nat startIndex) (nat count))"

definition ArrayList_LastIndexOf :: "'o wArrayList \<Rightarrow> 'o ptr \<Rightarrow> int \<Rightarrow> int \<Rightarrow> int option" where
  "ArrayList_LastIndexOf arrayList obj startIndex count =
     (let startIndex = (if startIndex < 0 then 0 else startIndex);
          count = (if count < 0 then int (al_size arrayList) else count)
      in last_index_of_loop (\<lambda>x. fnObjectEquals (al_object arrayList) x obj) (al_array arrayList) (nat startIndex) (nat count))"

definition ArrayList_DefaultCompare :: "'o ptr \<Rightarrow> 'o ptr \<Rightarrow> bool" where
  "ArrayList_DefaultCompare objA objB \<longleftrightarrow> (if objA = objB then True else False)"

text \<open>\<open>ArrayList_New\<close>: the array is not initialised.\<close>

definition ArrayList_New :: "bool \<Rightarrow> 'o ptr blocks \<Rightarrow> bool \<Rightarrow> 'o wArrayList option" where
  "ArrayList_New list_ok al synchronized =
     (if \<not> list_ok then None
      else case al 32 of
        None \<Rightarrow> None
      | Some arr \<Rightarrow> Some \<lparr>al_capacity = 32, al_growthFactor = 2, al_synchronized = synchronized, al_size = 0, al_array = arr,
          al_object = \<lparr>fnObjectEquals = ArrayList_DefaultCompare, fnObjectFree = False\<rparr>\<rparr>)"

definition ArrayList_Free :: "'o wArrayList option \<Rightarrow> 'o ptr list option" where
  "ArrayList_Free arrayList = (case arrayList of None \<Rightarrow> Some [] | Some l \<Rightarrow> map_option fst (ArrayList_Clear l))"

subsection \<open>Invariant and contents\<close>

definition array_list_wf :: "'o wArrayList \<Rightarrow> bool" where
  "array_list_wf l \<longleftrightarrow> length (al_array l) = al_capacity l \<and> 0 < al_capacity l \<and> 2 \<le> al_growthFactor l \<and> al_size l \<le> al_capacity l"

definition array_list_contents :: "'o wArrayList \<Rightarrow> 'o ptr list" where
  "array_list_contents l = take (al_size l) (al_array l)"

definition array_list_room :: "nat \<Rightarrow> 'o wArrayList \<Rightarrow> bool" where
  "array_list_room n l \<longleftrightarrow> (al_size l + n) * al_growthFactor l < 2 ^ 31"

lemma length_array_list_contents: "array_list_wf l \<Longrightarrow> length (array_list_contents l) = al_size l"
  by (simp add: array_list_contents_def array_list_wf_def)

text \<open>The array before an element is added: as it is, or grown, or the growth failed.\<close>

lemma array_list_make_room:
  assumes l: "array_list_wf l" "array_list_room (Suc n) l" and al: "fresh_ok al"
  shows "array_list_reserve al l 1 = Some None \<or>
    (\<exists>l'. array_list_reserve al l 1 = Some (Some l') \<and> array_list_wf l' \<and>
      array_list_contents l' = array_list_contents l \<and> al_size l' = al_size l \<and> al_growthFactor l' = al_growthFactor l \<and>
      al_object l' = al_object l \<and> al_size l' < length (al_array l'))"
proof (cases "al_size l + 1 > al_capacity l")
  case True
  have wf: "length (al_array l) = al_capacity l" "0 < al_capacity l" "2 \<le> al_growthFactor l" "al_size l = al_capacity l"
    using l True by (auto simp: array_list_wf_def)
  have "al_capacity l * al_growthFactor l \<le> (al_size l + Suc n) * al_growthFactor l" unfolding wf(4) by (rule mult_le_mono1) simp
  then have m: "int_mult (al_capacity l) (al_growthFactor l) = Some (al_capacity l * al_growthFactor l)"
    using l(2) unfolding array_list_room_def int_mult_def by simp
  have cg: "al_capacity l + al_capacity l \<le> al_capacity l * al_growthFactor l" using wf(3) by (metis mult_2_right mult_le_mono2)
  show ?thesis
  proof (cases "realloc_blocks al (al_array l) (al_capacity l * al_growthFactor l)")
    case None
    with True m show ?thesis by (simp add: array_list_reserve_def array_list_grow_def)
  next
    case (Some new)
    have "length new = al_capacity l * al_growthFactor l" "take (al_capacity l) new = al_array l"
      using length_realloc_blocks [OF al Some] wf cg by auto
    with Some True m wf cg show ?thesis
      by (intro disjI2 exI [of _ "l\<lparr>al_array := new, al_capacity := al_capacity l * al_growthFactor l\<rparr>"])
        (auto simp: array_list_reserve_def array_list_grow_def array_list_wf_def array_list_contents_def)
  qed
next
  case False
  with l show ?thesis by (auto simp: array_list_reserve_def array_list_wf_def)
qed

text \<open>The two memory moves of \<open>ArrayList_Shift\<close>.\<close>

lemma mem_move_up:
  assumes "i \<le> n" "n < length a"
  shows "\<exists>b. mem_move a (int i + 1) (int i) (int n - int i) = Some b \<and> length b = length a \<and>
    take (Suc n) (b[i := x]) = take i (take n a) @ x # drop i (take n a)"
proof -
  let ?b = "take (Suc i) a @ take (n - i) (drop i a) @ drop (Suc n) a"
  have "mem_move a (int i + 1) (int i) (int n - int i) = Some ?b"
    using assms by (simp add: mem_move_def mem_read_def mem_write_def nat_add_distrib nat_diff_distrib Suc_nat_eq_nat_zadd1 [symmetric])
  moreover have "length ?b = length a" using assms by simp
  moreover have "(take (Suc i) a)[i := x] = take i a @ [x]" using assms by (simp add: take_Suc_conv_app_nth list_update_append)
  then have "take (Suc n) (?b[i := x]) = take i (take n a) @ x # drop i (take n a)"
    using assms by (simp add: list_update_append drop_take Suc_diff_le)
  ultimately show ?thesis by blast
qed

lemma mem_move_down:
  assumes "i < n" "n \<le> length a"
  shows "\<exists>b. (if int n - int i - 1 > 0 then mem_move a (int i) (int i + 1) (int n - int i - 1) else Some a) = Some b \<and>
    length b = length a \<and> take (n - 1) b = take i (take n a) @ drop (Suc i) (take n a)"
proof (cases "Suc i < n")
  case True
  let ?b = "take i a @ take (n - i - 1) (drop (Suc i) a) @ drop (n - 1) a"
  have "mem_move a (int i) (int i + 1) (int n - int i - 1) = Some ?b"
    using assms True by (simp add: mem_move_def mem_read_def mem_write_def nat_add_distrib nat_diff_distrib Suc_nat_eq_nat_zadd1 [symmetric])
  moreover have "take (n - 1) ?b = take i (take n a) @ drop (Suc i) (take n a)" using assms True by (simp add: drop_take)
  moreover have "length ?b = length a" using assms True by simp
  ultimately show ?thesis using True by auto
next
  case False
  with assms(1) have "n = Suc i" by simp
  with assms show ?thesis by simp
qed

subsection \<open>The operations on the contents\<close>

lemma ArrayList_Add_cases:
  assumes l: "array_list_wf l" "array_list_room (Suc n) l" and al: "fresh_ok al"
  shows "ArrayList_Add al l x = Some (-1, l) \<or>
    (\<exists>l'. ArrayList_Add al l x = Some (int (al_size l) + 1, l') \<and> array_list_wf l' \<and> array_list_room n l' \<and>
      array_list_contents l' = array_list_contents l @ [x])"
  using array_list_make_room [OF assms]
proof
  assume "\<exists>l'. array_list_reserve al l 1 = Some (Some l') \<and> array_list_wf l' \<and>
      array_list_contents l' = array_list_contents l \<and> al_size l' = al_size l \<and> al_growthFactor l' = al_growthFactor l \<and>
      al_object l' = al_object l \<and> al_size l' < length (al_array l')"
  then obtain l' where l': "array_list_reserve al l 1 = Some (Some l')"
    "array_list_wf l'" "array_list_contents l' = array_list_contents l" "al_size l' = al_size l"
    "al_growthFactor l' = al_growthFactor l" "al_size l' < length (al_array l')" by blast
  let ?l = "l'\<lparr>al_array := (al_array l')[al_size l' := x], al_size := Suc (al_size l')\<rparr>"
  have "ArrayList_Add al l x = Some (int (al_size l) + 1, ?l)" unfolding ArrayList_Add_def l'(1) using l'(4,6) by simp
  moreover have "array_list_contents ?l = array_list_contents l @ [x]"
    using l'(3,6) by (simp add: array_list_contents_def take_Suc_conv_app_nth)
  ultimately show ?thesis using l'(2,4,5,6) l(2) by (auto simp: array_list_wf_def array_list_room_def)
qed (simp add: ArrayList_Add_def)

lemma ArrayList_Insert_cases:
  assumes l: "array_list_wf l" "array_list_room (Suc n) l" and al: "fresh_ok al" and i: "in_list l i"
  shows "ArrayList_Insert al l i x = Some (False, l) \<or>
    (\<exists>l'. ArrayList_Insert al l i x = Some (True, l') \<and> array_list_wf l' \<and> array_list_room n l' \<and>
      array_list_contents l' = take (nat i) (array_list_contents l) @ x # drop (nat i) (array_list_contents l))"
proof -
  obtain k where k: "i = int k" "k < al_size l" using i by (auto simp: in_list_def elim: nonneg_int_cases)
  from array_list_make_room [OF l al] show ?thesis
  proof
    assume "array_list_reserve al l 1 = Some None"
    then show ?thesis using i by (simp add: ArrayList_Insert_def ArrayList_Shift_def)
  next
    assume "\<exists>l'. array_list_reserve al l 1 = Some (Some l') \<and> array_list_wf l' \<and>
      array_list_contents l' = array_list_contents l \<and> al_size l' = al_size l \<and> al_growthFactor l' = al_growthFactor l \<and>
      al_object l' = al_object l \<and> al_size l' < length (al_array l')"
    then obtain l' where l': "array_list_reserve al l 1 = Some (Some l')"
      "array_list_wf l'" "array_list_contents l' = array_list_contents l" "al_size l' = al_size l"
      "al_growthFactor l' = al_growthFactor l" "al_size l' < length (al_array l')" by blast
    have c: "take (al_size l) (al_array l') = array_list_contents l" using l'(3,4) by (simp add: array_list_contents_def)
    obtain b where b: "mem_move (al_array l') (int k + 1) (int k) (int (al_size l) - int k) = Some b" "length b = length (al_array l')"
      "take (Suc (al_size l)) (b[k := x]) = take k (array_list_contents l) @ x # drop k (array_list_contents l)"
      using mem_move_up [of k "al_size l" "al_array l'" x] k(2) l'(4,6) unfolding c by auto
    let ?l = "l'\<lparr>al_array := b[k := x], al_size := Suc (al_size l')\<rparr>"
    have "ArrayList_Shift al l i 1 = Some (True, l'\<lparr>al_array := b, al_size := Suc (al_size l')\<rparr>)"
      unfolding ArrayList_Shift_def l'(1) using b(1) k l'(4) by (simp add: nat_add_distrib)
    then have "ArrayList_Insert al l i x = Some (True, ?l)"
      using i b(2) k l'(4,6) by (simp add: ArrayList_Insert_def)
    moreover have "array_list_contents ?l = take (nat i) (array_list_contents l) @ x # drop (nat i) (array_list_contents l)"
      using b(3) k l'(4) by (simp add: array_list_contents_def)
    ultimately show ?thesis using b(2) l'(2,4,5,6) l(2) by (auto simp: array_list_wf_def array_list_room_def)
  qed
qed

lemma array_list_drop_eq:
  assumes l: "array_list_wf l" and k: "k < al_size l"
  shows "\<exists>l'. array_list_drop al l k =
      Some (True, if fnObjectFree (al_object l) then Some (array_list_contents l ! k) else None, l') \<and>
    array_list_wf l' \<and> (\<forall>n. array_list_room n l \<longrightarrow> array_list_room n l') \<and>
    array_list_contents l' = take k (array_list_contents l) @ drop (Suc k) (array_list_contents l)"
proof -
  have n: "al_size l \<le> length (al_array l)" using l by (simp add: array_list_wf_def)
  obtain b where b: "(if int (al_size l) - int k - 1 > 0 then mem_move (al_array l) (int k) (int k + 1) (int (al_size l) - int k - 1)
      else Some (al_array l)) = Some b" "length b = length (al_array l)"
    "take (al_size l - 1) b = take k (array_list_contents l) @ drop (Suc k) (array_list_contents l)"
    using mem_move_down [OF k n] by (auto simp: array_list_contents_def)
  let ?l = "l\<lparr>al_array := b, al_size := al_size l - 1\<rparr>"
  have "ArrayList_Shift al l (int k) (-1) = Some (True, ?l)"
    unfolding ArrayList_Shift_def using b(1) k by (auto simp: nat_diff_distrib Let_def split: if_splits)
  then have "array_list_drop al l k = Some (True, if fnObjectFree (al_object l) then Some (array_list_contents l ! k) else None, ?l)"
    using k n by (simp add: array_list_drop_def array_list_contents_def)
  moreover have "array_list_contents ?l = take k (array_list_contents l) @ drop (Suc k) (array_list_contents l)"
    using b(3) by (simp add: array_list_contents_def)
  moreover have "array_list_room m ?l" if "array_list_room m l" for m
  proof -
    have "(al_size l - 1 + m) * al_growthFactor l \<le> (al_size l + m) * al_growthFactor l" by (rule mult_le_mono1) simp
    then have "(al_size l - 1 + m) * al_growthFactor l < 2 ^ 31" using that unfolding array_list_room_def by (rule le_less_trans)
    then show ?thesis by (simp add: array_list_room_def)
  qed
  ultimately show ?thesis using l b(2) by (auto simp: array_list_wf_def)
qed

lemma find_index_le: "find_index P xs \<le> length xs"
  by (induction xs) auto

lemma find_index_remove1:
  "find_index (\<lambda>y. y = x) xs < length xs \<longleftrightarrow> x \<in> set xs"
  "take (find_index (\<lambda>y. y = x) xs) xs @ drop (Suc (find_index (\<lambda>y. y = x) xs)) xs = remove1 x xs"
  by (induction xs) auto

subsection \<open>Sequences of operations\<close>

datatype 'o list_op = Add "'o ptr" | Insert int "'o ptr" | SetItem int "'o ptr" | Remove "'o ptr" | RemoveAt int

text \<open>The specification: each operation on the list of elements; an index outside the list changes nothing.\<close>

fun list_op_spec :: "'o list_op \<Rightarrow> 'o ptr list \<Rightarrow> 'o ptr list" where
  "list_op_spec (Add x) xs = xs @ [x]"
| "list_op_spec (Insert i x) xs = (if 0 \<le> i \<and> i < int (length xs) then take (nat i) xs @ x # drop (nat i) xs else xs)"
| "list_op_spec (SetItem i x) xs = (if 0 \<le> i \<and> i < int (length xs) then xs[nat i := x] else xs)"
| "list_op_spec (Remove x) xs = remove1 x xs"
| "list_op_spec (RemoveAt i) xs = (if 0 \<le> i \<and> i < int (length xs) then take (nat i) xs @ drop (Suc (nat i)) xs else xs)"

text \<open>One call; the flag tells whether the function reported success.\<close>

fun array_list_step :: "'o ptr blocks \<Rightarrow> 'o list_op \<Rightarrow> 'o wArrayList \<Rightarrow> (bool \<times> 'o wArrayList) option" where
  "array_list_step al (Add x) l = map_option (\<lambda>(r, l). (r \<noteq> -1, l)) (ArrayList_Add al l x)"
| "array_list_step al (Insert i x) l = ArrayList_Insert al l i x"
| "array_list_step al (SetItem i x) l = map_option (\<lambda>l. (True, l)) (ArrayList_SetItem l i x)"
| "array_list_step al (Remove x) l = map_option (\<lambda>(r, _, l). (r, l)) (ArrayList_Remove al l x)"
| "array_list_step al (RemoveAt i) l = map_option (\<lambda>(r, _, l). (r, l)) (ArrayList_RemoveAt al l i)"

fun array_list_run :: "'o ptr blocks \<Rightarrow> 'o list_op list \<Rightarrow> 'o wArrayList \<Rightarrow> (bool list \<times> 'o wArrayList) option" where
  "array_list_run al [] l = Some ([], l)"
| "array_list_run al (op # ops) l = do {
     (ok, l) \<leftarrow> array_list_step al op l; (oks, l) \<leftarrow> array_list_run al ops l; Some (ok # oks, l) }"

fun list_run_spec :: "('o list_op \<times> bool) list \<Rightarrow> 'o ptr list \<Rightarrow> 'o ptr list" where
  "list_run_spec [] xs = xs"
| "list_run_spec ((op, ok) # ops) xs = list_run_spec ops (if ok then list_op_spec op xs else xs)"

lemma array_list_room_less: "array_list_room (Suc n) l \<Longrightarrow> array_list_room n l"
proof -
  have "(al_size l + n) * al_growthFactor l \<le> (al_size l + Suc n) * al_growthFactor l" by (rule mult_le_mono1) simp
  then show "array_list_room (Suc n) l \<Longrightarrow> array_list_room n l" unfolding array_list_room_def by linarith
qed

lemma in_list_contents: "array_list_wf l \<Longrightarrow> in_list l i \<longleftrightarrow> 0 \<le> i \<and> i < int (length (array_list_contents l))"
  by (simp add: in_list_def length_array_list_contents)

lemma array_list_step_refines:
  assumes l: "array_list_wf l" "array_list_room (Suc n) l" and al: "fresh_ok al"
  shows "\<exists>ok l'. array_list_step al op l = Some (ok, l') \<and> array_list_wf l' \<and> array_list_room n l' \<and>
    array_list_contents l' = (if ok then list_op_spec op (array_list_contents l) else array_list_contents l)"
proof (cases op)
  case (Add x)
  from ArrayList_Add_cases [OF l al, of x] show ?thesis
    using Add l array_list_room_less [OF l(2)] by (auto simp: ex_bool_eq)
next
  case (Insert i x)
  show ?thesis
  proof (cases "in_list l i")
    case True
    from ArrayList_Insert_cases [OF l al True, of x] show ?thesis
      using Insert l array_list_room_less [OF l(2)] True in_list_contents [OF l(1), of i] by (auto simp: ex_bool_eq)
  next
    case False
    then show ?thesis using Insert l array_list_room_less [OF l(2)] in_list_contents [OF l(1), of i]
      by (auto simp: ArrayList_Insert_def ex_bool_eq)
  qed
next
  case (SetItem i x)
  show ?thesis
  proof (cases "in_list l i")
    case True
    then have "nat i < al_size l" "al_size l \<le> length (al_array l)" using l(1) by (auto simp: in_list_def array_list_wf_def)
    then show ?thesis using SetItem l array_list_room_less [OF l(2)] True in_list_contents [OF l(1), of i]
      by (auto simp: ArrayList_SetItem_def ex_bool_eq array_list_wf_def array_list_room_def array_list_contents_def take_update_swap)
  next
    case False
    then show ?thesis using SetItem l array_list_room_less [OF l(2)] in_list_contents [OF l(1), of i]
      by (auto simp: ArrayList_SetItem_def ex_bool_eq)
  qed
next
  case (Remove x)
  let ?c = "array_list_contents l" and ?k = "find_index (\<lambda>y. y = x) (array_list_contents l)"
  have r: "mem_read (al_array l) 0 (al_size l) = Some ?c" using l(1) by (simp add: mem_read_def array_list_wf_def array_list_contents_def)
  show ?thesis
  proof (cases "?k < al_size l")
    case True
    from array_list_drop_eq [OF l(1) True, of al] show ?thesis
      using Remove r True array_list_room_less [OF l(2)] find_index_remove1(2) [of x ?c]
      by (auto simp: ArrayList_Remove_def Let_def ex_bool_eq)
  next
    case False
    then have "x \<notin> set ?c" using find_index_remove1(1) [of x ?c] length_array_list_contents [OF l(1)] by simp
    then show ?thesis using Remove r False l array_list_room_less [OF l(2)]
      by (auto simp: ArrayList_Remove_def Let_def ex_bool_eq remove1_idem)
  qed
next
  case (RemoveAt i)
  show ?thesis
  proof (cases "in_list l i")
    case True
    then have "nat i < al_size l" by (auto simp: in_list_def)
    from array_list_drop_eq [OF l(1) this, of al] show ?thesis
      using RemoveAt True array_list_room_less [OF l(2)] in_list_contents [OF l(1), of i]
      by (auto simp: ArrayList_RemoveAt_def ex_bool_eq)
  next
    case False
    then show ?thesis using RemoveAt l array_list_room_less [OF l(2)] in_list_contents [OF l(1), of i]
      by (auto simp: ArrayList_RemoveAt_def ex_bool_eq)
  qed
qed

lemma index_of_loop_eq:
  "index + n \<le> length arr \<Longrightarrow> index_of_loop P arr index n =
     Some (if find_index P (take n (drop index arr)) < n then int (index + find_index P (take n (drop index arr))) else -1)"
proof (induction n arbitrary: index)
  case (Suc n)
  then have "drop index arr = arr ! index # drop (Suc index) arr" by (simp add: Cons_nth_drop_Suc)
  with Suc show ?case by simp
qed simp

subsection \<open>Properties\<close>

text \<open>
  The array list is a list (C34): any sequence of additions, insertions, updates and removals
  on a well-formed array list, which grows when needed, does to the elements what the
  operations do to a list; a call that reports failure (out of memory) changes nothing.
\<close>

theorem ArrayList_refines_list:
  assumes "fresh_ok al" "array_list_wf l" "array_list_room (length ops) l"
  shows "\<exists>oks l'. array_list_run al ops l = Some (oks, l') \<and> array_list_wf l' \<and> length oks = length ops \<and>
    array_list_contents l' = list_run_spec (zip ops oks) (array_list_contents l)"
  using assms(2,3)
proof (induction ops arbitrary: l)
  case (Cons op ops)
  obtain ok l1 where 1: "array_list_step al op l = Some (ok, l1)" "array_list_wf l1" "array_list_room (length ops) l1"
    "array_list_contents l1 = (if ok then list_op_spec op (array_list_contents l) else array_list_contents l)"
    using array_list_step_refines [OF Cons.prems(1) _ assms(1), of "length ops" op] Cons.prems(2) by auto
  from Cons.IH [OF 1(2,3)] obtain oks l' where "array_list_run al ops l1 = Some (oks, l')" "array_list_wf l'"
    "length oks = length ops" "array_list_contents l' = list_run_spec (zip ops oks) (array_list_contents l1)" by blast
  with 1 show ?case by simp
qed simp

definition demo_list :: "nat wArrayList" where
  "demo_list = the (ArrayList_New True (zero_blocks None) False)"

lemma demo_list_simps: "array_list_wf demo_list" "array_list_room n demo_list \<longleftrightarrow> n < 2 ^ 30" "array_list_contents demo_list = []"
  by (auto simp: demo_list_def ArrayList_New_def zero_blocks_def array_list_wf_def array_list_room_def array_list_contents_def)

theorem ArrayList_refines_list_witness:
  "\<exists>oks l'. array_list_run (zero_blocks None) [Add (Some 1), Insert 0 (Some 2), RemoveAt 1] demo_list = Some (oks, l') \<and> array_list_wf l' \<and>
    length oks = length [Add (Some 1), Insert 0 (Some 2), RemoveAt 1] \<and>
    array_list_contents l' = list_run_spec (zip [Add (Some 1), Insert 0 (Some 2), RemoveAt 1] oks) []"
  using ArrayList_refines_list [of "zero_blocks None" demo_list "[Add (Some 1), Insert 0 (Some 2), RemoveAt 1]"]
  by (simp only: demo_list_simps fresh_ok_zero_blocks list.size) simp

text \<open>
  Searching the whole list: with a negative start and count \<open>ArrayList_IndexOf\<close> returns the
  first index whose element equals the object, and -1 when there is none, without reading
  outside the list.
\<close>

theorem ArrayList_IndexOf_first:
  assumes "array_list_wf l"
  shows "ArrayList_IndexOf l obj (-1) (-1) =
    (let k = find_index (\<lambda>x. fnObjectEquals (al_object l) x obj) (array_list_contents l)
     in Some (if k < length (array_list_contents l) then int k else -1))"
  using index_of_loop_eq [of 0 "al_size l" "al_array l" "\<lambda>x. fnObjectEquals (al_object l) x obj"] assms
  by (simp add: ArrayList_IndexOf_def length_array_list_contents) (simp add: array_list_contents_def array_list_wf_def Let_def)

theorem ArrayList_IndexOf_first_witness:
  "ArrayList_IndexOf (demo_list\<lparr>al_array := Some 4 # Some 5 # replicate 30 None, al_size := length [(), ()]\<rparr>) (Some 5) (-1) (-1) = Some 1"
proof -
  let ?l = "demo_list\<lparr>al_array := Some 4 # Some 5 # replicate 30 None, al_size := length [(), ()]\<rparr>"
  have "array_list_wf ?l" "array_list_contents ?l = [Some 4, Some 5]" "fnObjectEquals (al_object ?l) = ArrayList_DefaultCompare"
    by (simp_all add: demo_list_def ArrayList_New_def zero_blocks_def array_list_wf_def array_list_contents_def)
  with ArrayList_IndexOf_first [of ?l "Some 5"] show ?thesis by (simp add: ArrayList_DefaultCompare_def Let_def)
qed

text \<open>
  Searching from an index: with a positive start and a negative count \<open>ArrayList_IndexOf\<close>
  searches as many slots as the list has elements, past its end; in a full array a search
  without a hit reads behind the array.
\<close>

theorem ArrayList_IndexOf_overrun:
  assumes "array_list_wf l" "al_size l = al_capacity l" "0 < start" "start \<le> int (al_size l)"
    and "\<forall>x \<in> set (array_list_contents l). \<not> fnObjectEquals (al_object l) x obj"
  shows "ArrayList_IndexOf l obj start (-1) = None"
proof -
  let ?P = "\<lambda>x. fnObjectEquals (al_object l) x obj" and ?n = "length (al_array l)"
  have run: "index_of_loop ?P (al_array l) k (m + j) = None" if "k + m = ?n" "0 < j" for k m j
    using that
  proof (induction m arbitrary: k)
    case 0
    then obtain i where "j = Suc i" by (cases j) auto
    with 0 show ?case by (simp add: mem_read_def)
  next
    case (Suc m)
    then have "al_array l ! k \<in> set (array_list_contents l)" using assms(1,2) by (simp add: array_list_contents_def array_list_wf_def)
    with assms(5) Suc show ?case by simp
  qed
  obtain k where k: "start = int k" "0 < k" "k \<le> ?n"
    using assms(1-4) that [of "nat start"] by (simp add: array_list_wf_def nat_le_iff)
  have "al_size l = (?n - k) + k" using assms(1,2) k(3) by (simp add: array_list_wf_def)
  with run [of k "?n - k" k] k show ?thesis by (simp add: ArrayList_IndexOf_def)
qed

theorem ArrayList_IndexOf_overrun_witness:
  "ArrayList_IndexOf (demo_list\<lparr>al_size := 32\<rparr>) (Some 7) 1 (-1) = None"
  by (rule ArrayList_IndexOf_overrun)
    (simp_all add: demo_list_def ArrayList_New_def zero_blocks_def array_list_wf_def array_list_contents_def ArrayList_DefaultCompare_def)

end
