(* ===== verification/Dictionary.thy ===== *)
theory Dictionary
  imports Ring
begin

text \<open>
  The contract of a dictionary, as a locale with the facts its clients use, and the first of
  the two implementations that satisfy it: \<open>winpr/libwinpr/utils/collections/ListDictionary.c\<close>,
  a linked list of key/value items.
\<close>

subsection \<open>The contract\<close>

text \<open>
  Keys are compared by \<open>eqk\<close>; \<open>lookup\<close> is the value under a key. \<open>add\<close> is for keys that are
  not there; it may fail (out of memory) and then changes nothing. \<open>upd\<close> and \<open>del\<close> report
  whether the key was there.
\<close>

datatype ('k, 'v) dict_op = Store 'k 'v | Delete 'k

text \<open>A client that stores under a key: \<open>upd\<close> where the key is there, \<open>add\<close> otherwise.\<close>

fun dict_step :: "('d \<Rightarrow> 'k \<Rightarrow> 'v option) \<Rightarrow> ('k \<Rightarrow> 'v \<Rightarrow> 'd \<Rightarrow> (bool \<times> 'd) option) \<Rightarrow> ('k \<Rightarrow> 'v \<Rightarrow> 'd \<Rightarrow> (bool \<times> 'd) option) \<Rightarrow>
    ('k \<Rightarrow> 'd \<Rightarrow> (bool \<times> 'd) option) \<Rightarrow> ('k, 'v) dict_op \<Rightarrow> 'd \<Rightarrow> (bool \<times> 'd) option" where
  "dict_step lookup add upd del (Store k v) d = (if lookup d k = None then add k v d else upd k v d)"
| "dict_step lookup add upd del (Delete k) d = del k d"

fun dict_run :: "('d \<Rightarrow> 'k \<Rightarrow> 'v option) \<Rightarrow> ('k \<Rightarrow> 'v \<Rightarrow> 'd \<Rightarrow> (bool \<times> 'd) option) \<Rightarrow> ('k \<Rightarrow> 'v \<Rightarrow> 'd \<Rightarrow> (bool \<times> 'd) option) \<Rightarrow>
    ('k \<Rightarrow> 'd \<Rightarrow> (bool \<times> 'd) option) \<Rightarrow> ('k, 'v) dict_op list \<Rightarrow> 'd \<Rightarrow> (bool list \<times> 'd) option" where
  "dict_run lookup add upd del [] d = Some ([], d)"
| "dict_run lookup add upd del (op # ops) d = do {
     (ok, d) \<leftarrow> dict_step lookup add upd del op d;
     (oks, d) \<leftarrow> dict_run lookup add upd del ops d;
     Some (ok # oks, d) }"

text \<open>The specification: a function from keys to values, with the results of the calls.\<close>

fun dict_spec :: "('k \<Rightarrow> 'k \<Rightarrow> bool) \<Rightarrow> (('k, 'v) dict_op \<times> bool) list \<Rightarrow> ('k \<Rightarrow> 'v option) \<Rightarrow> 'k \<Rightarrow> 'v option" where
  "dict_spec eqk [] m = m"
| "dict_spec eqk ((Store k v, ok) # ops) m = dict_spec eqk ops (\<lambda>x. if ok \<and> eqk x k then Some v else m x)"
| "dict_spec eqk ((Delete k, ok) # ops) m = dict_spec eqk ops (\<lambda>x. if eqk x k then None else m x)"

locale dictionary =
  fixes wf :: "'d \<Rightarrow> bool" and eqk :: "'k \<Rightarrow> 'k \<Rightarrow> bool" and lookup :: "'d \<Rightarrow> 'k \<Rightarrow> 'v option"
    and add :: "'k \<Rightarrow> 'v \<Rightarrow> 'd \<Rightarrow> (bool \<times> 'd) option" and upd :: "'k \<Rightarrow> 'v \<Rightarrow> 'd \<Rightarrow> (bool \<times> 'd) option"
    and del :: "'k \<Rightarrow> 'd \<Rightarrow> (bool \<times> 'd) option"
  assumes add_law: "wf d \<Longrightarrow> lookup d k = None \<Longrightarrow> \<exists>ok d'. add k v d = Some (ok, d') \<and> wf d' \<and>
      lookup d' = (\<lambda>x. if ok \<and> eqk x k then Some v else lookup d x)"
    and upd_law: "wf d \<Longrightarrow> \<exists>ok d'. upd k v d = Some (ok, d') \<and> wf d' \<and> ok = (lookup d k \<noteq> None) \<and>
      lookup d' = (\<lambda>x. if ok \<and> eqk x k then Some v else lookup d x)"
    and del_law: "wf d \<Longrightarrow> \<exists>ok d'. del k d = Some (ok, d') \<and> wf d' \<and> ok = (lookup d k \<noteq> None) \<and>
      lookup d' = (\<lambda>x. if eqk x k then None else lookup d x)"
begin

lemma step_law:
  assumes "wf d"
  shows "\<exists>ok d'. dict_step lookup add upd del op d = Some (ok, d') \<and> wf d' \<and> lookup d' = dict_spec eqk [(op, ok)] (lookup d)"
proof (cases op)
  case (Store k v)
  show ?thesis
  proof (cases "lookup d k = None")
    case True
    from add_law [OF assms True, of v] True Store show ?thesis by auto
  next
    case False
    from upd_law [OF assms, of k v] False Store show ?thesis by auto
  qed
next
  case (Delete k)
  with del_law [OF assms, of k] show ?thesis by auto
qed

lemma dict_refines:
  assumes "wf d"
  shows "\<exists>oks d'. dict_run lookup add upd del ops d = Some (oks, d') \<and> wf d' \<and> length oks = length ops \<and>
    lookup d' = dict_spec eqk (zip ops oks) (lookup d)"
  using assms
proof (induction ops arbitrary: d)
  case (Cons op ops)
  obtain ok d1 where 1: "dict_step lookup add upd del op d = Some (ok, d1)" "wf d1" "lookup d1 = dict_spec eqk [(op, ok)] (lookup d)"
    using step_law [OF Cons.prems] by blast
  from Cons.IH [OF 1(2)] obtain oks d' where 2: "dict_run lookup add upd del ops d1 = Some (oks, d')" "wf d'"
    "length oks = length ops" "lookup d' = dict_spec eqk (zip ops oks) (lookup d1)" by blast
  have "dict_spec eqk (zip ops oks) (dict_spec eqk [(op, ok)] m) = dict_spec eqk (zip (op # ops) (ok # oks)) m" for m
    by (cases op) simp_all
  with 1 2 show ?case by simp
qed simp

end

subsection \<open>The list dictionary\<close>

record ('k, 'v) wListDictionary =
  ld_synchronized :: bool
  ld_head :: "('k \<times> 'v ptr) list"
  ld_keyEquals :: "'k \<Rightarrow> 'k \<Rightarrow> bool"
  ld_keyFree :: bool
  ld_valueFree :: bool

text \<open>
  The items are the list from \<open>head\<close> on, keys and values in the order of the \<open>next\<close> links. A
  null dictionary is \<^const>\<open>None\<close>. Objects given to the \<open>fnObjectFree\<close> callbacks are returned.
\<close>

definition ListDictionary_Count :: "('k, 'v) wListDictionary option \<Rightarrow> int" where
  "ListDictionary_Count listDictionary = (case listDictionary of None \<Rightarrow> -1 | Some d \<Rightarrow> int (length (ld_head d)))"

text \<open>The keys and their number; \<open>keys_ok\<close> is the outcome of \<open>calloc\<close>, and \<open>ppKeys\<close> is not null.\<close>

definition ListDictionary_GetKeys :: "bool \<Rightarrow> ('k, 'v) wListDictionary option \<Rightarrow> int \<times> 'k list option" where
  "ListDictionary_GetKeys keys_ok listDictionary =
     (case listDictionary of
        None \<Rightarrow> (-1, None)
      | Some d \<Rightarrow>
          let count = length (ld_head d)
          in if count \<noteq> 0 \<and> \<not> keys_ok then (-1, None) else (int count, Some (map fst (ld_head d))))"

definition ListDictionary_Add ::
  "bool \<Rightarrow> ('k, 'v) wListDictionary option \<Rightarrow> 'k \<Rightarrow> 'v ptr \<Rightarrow> bool \<times> ('k, 'v) wListDictionary option" where
  "ListDictionary_Add item_ok listDictionary key val =
     (case listDictionary of
        None \<Rightarrow> (False, None)
      | Some d \<Rightarrow> if \<not> item_ok then (False, Some d) else (True, Some (d\<lparr>ld_head := ld_head d @ [(key, val)]\<rparr>)))"

definition ListDictionary_Clear ::
  "('k, 'v) wListDictionary option \<Rightarrow> ('k list \<times> 'v ptr list) \<times> ('k, 'v) wListDictionary option" where
  "ListDictionary_Clear listDictionary =
     (case listDictionary of
        None \<Rightarrow> (([], []), None)
      | Some d \<Rightarrow> ((if ld_keyFree d then map fst (ld_head d) else [], if ld_valueFree d then map snd (ld_head d) else []),
          Some (d\<lparr>ld_head := []\<rparr>)))"

text \<open>The search by key: the items before the first match, the match, and the items behind it.\<close>

fun item_find :: "('k \<Rightarrow> bool) \<Rightarrow> ('k \<times> 'v) list \<Rightarrow> (('k \<times> 'v) list \<times> ('k \<times> 'v) \<times> ('k \<times> 'v) list) option" where
  "item_find P [] = None"
| "item_find P (x # xs) = (if P (fst x) then Some ([], x, xs)
     else map_option (\<lambda>(pre, y, post). (x # pre, y, post)) (item_find P xs))"

definition ld_find :: "('k, 'v) wListDictionary \<Rightarrow> 'k \<Rightarrow> (('k \<times> 'v ptr) list \<times> ('k \<times> 'v ptr) \<times> ('k \<times> 'v ptr) list) option" where
  "ld_find d key = item_find (\<lambda>k. ld_keyEquals d k key) (ld_head d)"

definition ListDictionary_Contains :: "('k, 'v) wListDictionary option \<Rightarrow> 'k \<Rightarrow> bool" where
  "ListDictionary_Contains listDictionary key = (case listDictionary of None \<Rightarrow> False | Some d \<Rightarrow> ld_find d key \<noteq> None)"

definition ListDictionary_Remove ::
  "('k, 'v) wListDictionary option \<Rightarrow> 'k \<Rightarrow> 'v ptr \<times> ('k, 'v) wListDictionary option" where
  "ListDictionary_Remove listDictionary key =
     (case listDictionary of
        None \<Rightarrow> (None, None)
      | Some d \<Rightarrow> (case ld_find d key of
            None \<Rightarrow> (None, Some d)
          | Some (pre, item, post) \<Rightarrow> (snd item, Some (d\<lparr>ld_head := pre @ post\<rparr>))))"

definition ListDictionary_Remove_Head :: "('k, 'v) wListDictionary option \<Rightarrow> 'v ptr \<times> ('k, 'v) wListDictionary option" where
  "ListDictionary_Remove_Head listDictionary =
     (case listDictionary of
        None \<Rightarrow> (None, None)
      | Some d \<Rightarrow> (case ld_head d of [] \<Rightarrow> (None, Some d) | item # rest \<Rightarrow> (snd item, Some (d\<lparr>ld_head := rest\<rparr>))))"

definition ListDictionary_GetItemValue :: "('k, 'v) wListDictionary option \<Rightarrow> 'k \<Rightarrow> 'v ptr" where
  "ListDictionary_GetItemValue listDictionary key =
     (case listDictionary of
        None \<Rightarrow> None
      | Some d \<Rightarrow> (case ld_find d key of None \<Rightarrow> None | Some (_, item, _) \<Rightarrow> snd item))"

text \<open>The second component is the old value, when it is given to \<open>fnObjectFree\<close>.\<close>

definition ListDictionary_SetItemValue ::
  "('k, 'v) wListDictionary option \<Rightarrow> 'k \<Rightarrow> 'v ptr \<Rightarrow> bool \<times> 'v ptr list \<times> ('k, 'v) wListDictionary option" where
  "ListDictionary_SetItemValue listDictionary key val =
     (case listDictionary of
        None \<Rightarrow> (False, [], None)
      | Some d \<Rightarrow> (case ld_find d key of
            None \<Rightarrow> (False, [], Some d)
          | Some (pre, item, post) \<Rightarrow> (True, if ld_valueFree d then [snd item] else [],
              Some (d\<lparr>ld_head := pre @ (fst item, val) # post\<rparr>))))"

definition ListDictionary_New :: "bool \<Rightarrow> bool \<Rightarrow> bool \<Rightarrow> ('k, 'v) wListDictionary option" where
  "ListDictionary_New dict_ok lock_ok synchronized =
     (if dict_ok \<and> lock_ok
      then Some \<lparr>ld_synchronized = synchronized, ld_head = [], ld_keyEquals = (\<lambda>a b. a = b), ld_keyFree = False, ld_valueFree = False\<rparr>
      else None)"

subsection \<open>The items as a dictionary\<close>

lemma item_find_None: "item_find P xs = None \<longleftrightarrow> (\<forall>x \<in> set xs. \<not> P (fst x))"
  by (induction xs) auto

lemma item_find_Some: "item_find P xs = Some (pre, y, post) \<Longrightarrow> xs = pre @ y # post \<and> P (fst y) \<and> (\<forall>x \<in> set pre. \<not> P (fst x))"
  by (induction xs arbitrary: pre) (fastforce split: if_splits)+

definition item_value :: "('k \<Rightarrow> bool) \<Rightarrow> ('k \<times> 'v) list \<Rightarrow> 'v option" where
  "item_value P xs = map_option (\<lambda>(_, y, _). snd y) (item_find P xs)"

lemma item_value_simps [simp]:
  "item_value P [] = None" "item_value P (x # xs) = (if P (fst x) then Some (snd x) else item_value P xs)"
  by (simp_all add: item_value_def option.map_comp comp_def split_def)

lemma item_value_append: "item_value P (xs @ ys) = (case item_value P xs of None \<Rightarrow> item_value P ys | Some v \<Rightarrow> Some v)"
  by (induction xs) auto

lemma item_value_None: "item_value P xs = None \<longleftrightarrow> (\<forall>x \<in> set xs. \<not> P (fst x))"
  by (simp add: item_value_def item_find_None)

text \<open>Keys are compared by an equivalence relation and no two items have equal keys.\<close>

definition key_equiv :: "('k \<Rightarrow> 'k \<Rightarrow> bool) \<Rightarrow> bool" where
  "key_equiv eqk \<longleftrightarrow> (\<forall>a. eqk a a) \<and> (\<forall>a b. eqk a b \<longrightarrow> eqk b a) \<and> (\<forall>a b c. eqk a b \<longrightarrow> eqk b c \<longrightarrow> eqk a c)"

lemma key_equiv_eq [simp]: "key_equiv (\<lambda>a b. a = b)" "key_equiv (=)"
  by (simp_all add: key_equiv_def)

lemma key_equiv_cong: "key_equiv eqk \<Longrightarrow> eqk a b \<Longrightarrow> eqk c a = eqk c b" "key_equiv eqk \<Longrightarrow> eqk a b = eqk b a"
  unfolding key_equiv_def by blast+

definition distinct_items :: "('k \<Rightarrow> 'k \<Rightarrow> bool) \<Rightarrow> ('k \<times> 'v) list \<Rightarrow> bool" where
  "distinct_items eqk xs \<longleftrightarrow> sorted_wrt (\<lambda>x y. \<not> eqk (fst x) (fst y)) xs"

lemma item_value_replace:
  assumes e: "key_equiv eqk" and m: "eqk (fst y) k" and d: "distinct_items eqk (pre @ y # post)"
  shows "item_value (\<lambda>a. eqk a x) (pre @ (fst y, v) # post) = (if eqk x k then Some v else item_value (\<lambda>a. eqk a x) (pre @ y # post))"
    and "item_value (\<lambda>a. eqk a x) (pre @ post) = (if eqk x k then None else item_value (\<lambda>a. eqk a x) (pre @ y # post))"
proof -
  have yx: "eqk (fst y) x = eqk x k" using e m unfolding key_equiv_def by blast
  have none: "item_value (\<lambda>a. eqk a x) pre = None" "item_value (\<lambda>a. eqk a x) post = None" if "eqk x k"
  proof -
    have y: "eqk (fst y) x" "eqk x (fst y)" using that yx e unfolding key_equiv_def by blast+
    have "\<not> eqk (fst z) x" if "z \<in> set pre" for z
    proof -
      have "\<not> eqk (fst z) (fst y)" using d that by (simp add: distinct_items_def sorted_wrt_append)
      then show ?thesis using y(2) e unfolding key_equiv_def by blast
    qed
    moreover have "\<not> eqk (fst z) x" if "z \<in> set post" for z
    proof -
      have "\<not> eqk (fst y) (fst z)" using d that by (simp add: distinct_items_def sorted_wrt_append)
      then show ?thesis using y(1) e unfolding key_equiv_def by blast
    qed
    ultimately show "item_value (\<lambda>a. eqk a x) pre = None" "item_value (\<lambda>a. eqk a x) post = None" by (auto simp: item_value_None)
  qed
  show "item_value (\<lambda>a. eqk a x) (pre @ (fst y, v) # post) = (if eqk x k then Some v else item_value (\<lambda>a. eqk a x) (pre @ y # post))"
    "item_value (\<lambda>a. eqk a x) (pre @ post) = (if eqk x k then None else item_value (\<lambda>a. eqk a x) (pre @ y # post))"
    using none yx by (auto simp: item_value_append split: option.splits)
qed

lemma distinct_items_keys: "distinct_items eqk xs \<longleftrightarrow> sorted_wrt (\<lambda>a b. \<not> eqk a b) (map fst xs)"
  by (simp add: distinct_items_def sorted_wrt_map)

definition ld_wf :: "('k \<Rightarrow> 'k \<Rightarrow> bool) \<Rightarrow> ('k, 'v) wListDictionary \<Rightarrow> bool" where
  "ld_wf eqk d \<longleftrightarrow> ld_keyEquals d = eqk \<and> key_equiv eqk \<and> distinct_items eqk (ld_head d)"

definition ld_lookup :: "('k, 'v) wListDictionary \<Rightarrow> 'k \<Rightarrow> 'v ptr option" where
  "ld_lookup d k = item_value (\<lambda>a. ld_keyEquals d a k) (ld_head d)"

lemma ld_lookup_find: "ld_lookup d k = map_option (\<lambda>(_, y, _). snd y) (ld_find d k)"
  by (simp add: ld_lookup_def ld_find_def item_value_def)

lemma ld_lookup_None: "ld_lookup d k = None \<longleftrightarrow> ld_find d k = None"
  by (simp add: ld_lookup_find)

text \<open>The operations on a dictionary that is there, with the result types of the contract.\<close>

definition ld_add :: "bool \<Rightarrow> 'k \<Rightarrow> 'v ptr \<Rightarrow> ('k, 'v) wListDictionary \<Rightarrow> (bool \<times> ('k, 'v) wListDictionary) option" where
  "ld_add item_ok k v d = (case ListDictionary_Add item_ok (Some d) k v of (ok, d') \<Rightarrow> map_option (Pair ok) d')"

definition ld_set :: "'k \<Rightarrow> 'v ptr \<Rightarrow> ('k, 'v) wListDictionary \<Rightarrow> (bool \<times> ('k, 'v) wListDictionary) option" where
  "ld_set k v d = (case ListDictionary_SetItemValue (Some d) k v of (ok, _, d') \<Rightarrow> map_option (Pair ok) d')"

text \<open>\<open>ListDictionary_Remove\<close> tells by its result only the value; the key is looked up first.\<close>

definition ld_del :: "'k \<Rightarrow> ('k, 'v) wListDictionary \<Rightarrow> (bool \<times> ('k, 'v) wListDictionary) option" where
  "ld_del k d = (case ListDictionary_Remove (Some d) k of (_, d') \<Rightarrow> map_option (Pair (ListDictionary_Contains (Some d) k)) d')"

lemma ld_add_law:
  assumes wf: "ld_wf eqk d" and none: "ld_lookup d k = None"
  shows "\<exists>ok d'. ld_add item_ok k v d = Some (ok, d') \<and> ld_wf eqk d' \<and>
    ld_lookup d' = (\<lambda>x. if ok \<and> eqk x k then Some v else ld_lookup d x)"
proof (cases item_ok)
  case True
  let ?d = "d\<lparr>ld_head := ld_head d @ [(k, v)]\<rparr>"
  have e: "ld_keyEquals d = eqk" "key_equiv eqk" "distinct_items eqk (ld_head d)" using wf by (simp_all add: ld_wf_def)
  have absent: "\<not> eqk (fst z) k" if "z \<in> set (ld_head d)" for z
    using none that e(1) by (simp add: ld_lookup_def item_value_None)
  have "distinct_items eqk (ld_head d @ [(k, v)])" using e(3) absent by (simp add: distinct_items_def sorted_wrt_append)
  then have "ld_wf eqk ?d" using e by (simp add: ld_wf_def)
  moreover have "ld_lookup ?d = (\<lambda>x. if eqk x k then Some v else ld_lookup d x)"
  proof
    fix x
    have "item_value (\<lambda>a. eqk a x) (ld_head d) = None" if "eqk x k"
      using absent that e(2) unfolding item_value_None key_equiv_def by blast
    moreover have "eqk k x = eqk x k" using e(2) by (rule key_equiv_cong)
    ultimately show "ld_lookup ?d x = (if eqk x k then Some v else ld_lookup d x)" using e(1)
      by (cases "eqk x k") (simp_all add: ld_lookup_def item_value_append split: option.split)
  qed
  ultimately show ?thesis using True by (intro exI [of _ True] exI [of _ ?d]) (simp add: ld_add_def ListDictionary_Add_def)
next
  case False
  then show ?thesis using wf by (simp add: ld_add_def ListDictionary_Add_def ex_bool_eq)
qed

lemma ld_match:
  assumes wf: "ld_wf eqk d" and f: "ld_find d k = Some (pre, y, post)"
  shows "ld_head d = pre @ y # post" "eqk (fst y) k" "distinct_items eqk (pre @ y # post)" "ld_keyEquals d = eqk" "key_equiv eqk"
  using item_find_Some [of "\<lambda>a. ld_keyEquals d a k" "ld_head d" pre y post] f wf by (auto simp: ld_find_def ld_wf_def)

lemma ld_set_law:
  assumes wf: "ld_wf eqk d"
  shows "\<exists>ok d'. ld_set k v d = Some (ok, d') \<and> ld_wf eqk d' \<and> ok = (ld_lookup d k \<noteq> None) \<and>
    ld_lookup d' = (\<lambda>x. if ok \<and> eqk x k then Some v else ld_lookup d x)"
proof (cases "ld_find d k")
  case None
  then show ?thesis using wf by (simp add: ld_set_def ListDictionary_SetItemValue_def ld_lookup_None ex_bool_eq)
next
  case (Some r)
  obtain pre y post where r: "r = (pre, y, post)" by (cases r) auto
  note m = ld_match [OF wf Some [unfolded r]]
  let ?d = "d\<lparr>ld_head := pre @ (fst y, v) # post\<rparr>"
  have "distinct_items eqk (pre @ (fst y, v) # post)" using m(3) by (simp add: distinct_items_keys)
  then have "ld_wf eqk ?d" using wf by (simp add: ld_wf_def)
  moreover have "ld_lookup ?d = (\<lambda>x. if eqk x k then Some v else ld_lookup d x)"
    using item_value_replace(1) [OF m(5,2,3), of _ v] m(1,4) by (intro ext) (simp add: ld_lookup_def)
  ultimately show ?thesis using Some r
    by (intro exI [of _ True] exI [of _ ?d]) (simp add: ld_set_def ListDictionary_SetItemValue_def ld_lookup_None)
qed

lemma ld_del_law:
  assumes wf: "ld_wf eqk d"
  shows "\<exists>ok d'. ld_del k d = Some (ok, d') \<and> ld_wf eqk d' \<and> ok = (ld_lookup d k \<noteq> None) \<and>
    ld_lookup d' = (\<lambda>x. if eqk x k then None else ld_lookup d x)"
proof (cases "ld_find d k")
  case None
  have "ld_lookup d x = None" if "eqk x k" for x
  proof -
    have "\<forall>z \<in> set (ld_head d). \<not> eqk (fst z) k" using None wf by (simp add: ld_find_def item_find_None ld_wf_def)
    then show ?thesis using that wf unfolding ld_lookup_def ld_wf_def item_value_None key_equiv_def by blast
  qed
  then have "(\<lambda>x. if eqk x k then None else ld_lookup d x) = ld_lookup d" by auto
  with None wf show ?thesis
    by (simp add: ld_del_def ListDictionary_Remove_def ListDictionary_Contains_def ld_lookup_None ex_bool_eq)
next
  case (Some r)
  obtain pre y post where r: "r = (pre, y, post)" by (cases r) auto
  note m = ld_match [OF wf Some [unfolded r]]
  let ?d = "d\<lparr>ld_head := pre @ post\<rparr>"
  have "distinct_items eqk (pre @ post)" using m(3) by (auto simp: distinct_items_def sorted_wrt_append)
  then have "ld_wf eqk ?d" using wf by (simp add: ld_wf_def)
  moreover have "ld_lookup ?d = (\<lambda>x. if eqk x k then None else ld_lookup d x)"
    using item_value_replace(2) [OF m(5,2,3)] m(1,4) by (intro ext) (simp add: ld_lookup_def)
  ultimately show ?thesis using Some r
    by (intro exI [of _ True] exI [of _ ?d])
      (simp add: ld_del_def ListDictionary_Remove_def ListDictionary_Contains_def ld_lookup_None)
qed

interpretation list_dict: dictionary "ld_wf eqk" eqk ld_lookup "ld_add item_ok" ld_set ld_del
  for eqk :: "'k \<Rightarrow> 'k \<Rightarrow> bool" and item_ok :: bool
  by unfold_locales (rule ld_add_law ld_set_law ld_del_law, assumption+)+

subsection \<open>Properties\<close>

text \<open>
  The list dictionary is a dictionary (C36): any sequence of stores and removals on a
  \<open>wListDictionary\<close> without duplicate keys runs, keeps it free of duplicates, and every lookup
  then sees what a function updated by the same calls would hold.
\<close>

theorem ListDictionary_refines_map:
  assumes "ld_wf eqk d"
  shows "\<exists>oks d'. dict_run ld_lookup (ld_add item_ok) ld_set ld_del ops d = Some (oks, d') \<and> ld_wf eqk d' \<and>
    length oks = length ops \<and> ld_lookup d' = dict_spec eqk (zip ops oks) (ld_lookup d)"
  using assms by (rule list_dict.dict_refines)

definition demo_dict :: "(nat, nat) wListDictionary" where
  "demo_dict = the (ListDictionary_New True True False)"

lemma demo_dict_wf: "ld_wf (\<lambda>a b. a = b) demo_dict"
  by (simp add: demo_dict_def ListDictionary_New_def ld_wf_def distinct_items_def)

theorem ListDictionary_refines_map_witness:
  "\<exists>oks d'. dict_run ld_lookup (ld_add True) ld_set ld_del [Store 1 (Some 5), Store 1 (Some 6), Delete 2] demo_dict = Some (oks, d') \<and>
    ld_wf (\<lambda>a b. a = b) d' \<and> length oks = length [Store 1 (Some (5 :: nat)), Store 1 (Some 6), Delete (2 :: nat)] \<and>
    ld_lookup d' = dict_spec (\<lambda>a b. a = b) (zip [Store 1 (Some 5), Store 1 (Some 6), Delete 2] oks) (ld_lookup demo_dict)"
  by (rule ListDictionary_refines_map) (rule demo_dict_wf)

text \<open>
  Reading a value back: \<open>ListDictionary_GetItemValue\<close> returns the value that
  \<open>ListDictionary_Add\<close> stored under a new key, and \<open>ListDictionary_Remove\<close> hands it out and
  leaves a dictionary that does not contain the key.
\<close>

theorem ListDictionary_add_get_remove:
  assumes "ld_wf eqk d" "\<not> ListDictionary_Contains (Some d) k"
  shows "\<exists>d1 d2. ListDictionary_Add True (Some d) k v = (True, Some d1) \<and> ListDictionary_GetItemValue (Some d1) k = v \<and>
    ListDictionary_Remove (Some d1) k = (v, Some d2) \<and> \<not> ListDictionary_Contains (Some d2) k"
proof -
  have none: "ld_lookup d k = None" using assms(2) by (simp add: ListDictionary_Contains_def ld_lookup_None del: not_None_eq)
  obtain d1 where d1: "ListDictionary_Add True (Some d) k v = (True, Some d1)" "ld_wf eqk d1"
    "ld_lookup d1 = (\<lambda>x. if eqk x k then Some v else ld_lookup d x)"
    using ld_add_law [OF assms(1) none, of True v] by (auto simp: ld_add_def ListDictionary_Add_def)
  have "eqk k k" using assms(1) by (simp add: ld_wf_def key_equiv_def)
  then have l: "ld_lookup d1 k = Some v" using d1(3) by simp
  then obtain pre y post where f: "ld_find d1 k = Some (pre, y, post)" "snd y = v" by (auto simp: ld_lookup_find)
  obtain d2 where "ld_del k d1 = Some (True, d2)" "ld_lookup d2 k = None"
    using ld_del_law [OF d1(2), of k] l \<open>eqk k k\<close> by auto
  with f d1(1) show ?thesis
    by (auto simp: ld_del_def ListDictionary_Remove_def ListDictionary_GetItemValue_def ListDictionary_Contains_def ld_lookup_find)
qed

theorem ListDictionary_add_get_remove_witness:
  "\<exists>d1 d2. ListDictionary_Add True (Some demo_dict) 3 (Some 7) = (True, Some d1) \<and> ListDictionary_GetItemValue (Some d1) 3 = Some 7 \<and>
    ListDictionary_Remove (Some d1) 3 = (Some 7, Some d2) \<and> \<not> ListDictionary_Contains (Some d2) 3"
  by (rule ListDictionary_add_get_remove [OF demo_dict_wf])
    (simp add: demo_dict_def ListDictionary_New_def ListDictionary_Contains_def ld_find_def)

end
