(* ===== verification/HashTable.thy ===== *)
theory HashTable
  imports Dictionary "HOL-Library.Multiset" Complex_Main
begin

text \<open>
  The hash table of \<open>winpr/libwinpr/utils/collections/HashTable.c\<close>: chained buckets, with a new
  array of buckets when the table becomes too full or too empty. A bucket is the list of its
  pairs in the order of the \<open>next\<close> links.

  Keys and values are addresses, equal when they are the same address; what they point to
  matters only to the callbacks. The \<open>float\<close> thresholds are rational numbers here, and the ratio of elements to buckets is
  exact; it decides only when a table is rehashed, which no result depends on.
\<close>

record ('k, 'v) wHashTable =
  ht_synchronized :: bool
  ht_numOfBuckets :: nat
  ht_numOfElements :: nat
  ht_idealRatio :: rat
  ht_lowerRehashThreshold :: rat
  ht_upperRehashThreshold :: rat
  ht_bucketArray :: "('k \<times> 'v) list list"
  ht_hash :: "'k \<Rightarrow> u32"
  ht_keyCompare :: "'k \<Rightarrow> 'k \<Rightarrow> bool"
  ht_valueCompare :: "'v \<Rightarrow> 'v \<Rightarrow> bool"
  ht_keyClone :: "('k \<Rightarrow> 'k option) option"
  ht_valueClone :: "('v \<Rightarrow> 'v option) option"
  ht_keyFree :: bool
  ht_valueFree :: bool

subsection \<open>Hash functions\<close>

text \<open>Addresses are 64-bit words; a string is the list of its bytes before the NUL.\<close>

definition HashTable_PointerCompare :: "u64 \<Rightarrow> u64 \<Rightarrow> bool" where
  "HashTable_PointerCompare pointer1 pointer2 \<longleftrightarrow> pointer1 = pointer2"

definition HashTable_PointerHash :: "u64 \<Rightarrow> u32" where
  "HashTable_PointerHash pointer = drop_bit 4 (ucast pointer)"

definition HashTable_StringCompare :: "byte list ptr \<Rightarrow> byte list ptr \<Rightarrow> bool" where
  "HashTable_StringCompare string1 string2 =
     (case (string1, string2) of (Some a, Some b) \<Rightarrow> a = b | (None, None) \<Rightarrow> True | _ \<Rightarrow> False)"

definition HashTable_StringHash :: "byte list \<Rightarrow> u32" where
  "HashTable_StringHash str = foldl (\<lambda>hash c. hash * 33 + ucast c) 5381 str"

subsection \<open>The number of buckets\<close>

fun probable_prime_scan :: "nat list \<Rightarrow> nat \<Rightarrow> bool" where
  "probable_prime_scan [] oddNumber = True"
| "probable_prime_scan (i # is) oddNumber =
     (if oddNumber = i then True else if oddNumber mod i = 0 then False else probable_prime_scan is oddNumber)"

text \<open>The loop runs over the odd numbers from 3 to 49.\<close>

definition HashTable_IsProbablePrime :: "nat \<Rightarrow> bool" where
  "HashTable_IsProbablePrime oddNumber = probable_prime_scan (map (\<lambda>k. 2 * k + 3) [0..<24]) oddNumber"

partial_function (option) next_probable_prime :: "nat \<Rightarrow> nat option" where
  "next_probable_prime n = (if HashTable_IsProbablePrime n then Some n else next_probable_prime (n + 2))"

text \<open>A division by zero, when the ideal ratio is below one, is \<^const>\<open>None\<close>.\<close>

definition HashTable_CalculateIdealNumOfBuckets :: "('k, 'v) wHashTable \<Rightarrow> nat option" where
  "HashTable_CalculateIdealNumOfBuckets table =
     (let ratio = nat \<lfloor>ht_idealRatio table\<rfloor>; n = ht_numOfElements table div ratio
      in if ratio = 0 then None
         else next_probable_prime (if n < 5 then 5 else if even n then n + 1 else n))"

subsection \<open>Buckets\<close>

definition bucket_index :: "('k \<Rightarrow> u32) \<Rightarrow> nat \<Rightarrow> 'k \<Rightarrow> nat" where
  "bucket_index hash n key = unat (hash key) mod n"

text \<open>The pairs of the old buckets put one by one at the front of their new bucket.\<close>

fun rehash_pairs :: "('k \<Rightarrow> u32) \<Rightarrow> ('k \<times> 'v) list \<Rightarrow> ('k \<times> 'v) list list \<Rightarrow> ('k \<times> 'v) list list" where
  "rehash_pairs hash [] buckets = buckets"
| "rehash_pairs hash (p # ps) buckets =
     (let h = bucket_index hash (length buckets) (fst p) in rehash_pairs hash ps (buckets[h := p # buckets ! h]))"

text \<open>\<open>array_ok\<close>: the outcome of \<open>calloc\<close> for the new array.\<close>

definition HashTable_Rehash :: "bool \<Rightarrow> ('k, 'v) wHashTable \<Rightarrow> nat \<Rightarrow> ('k, 'v) wHashTable option" where
  "HashTable_Rehash array_ok table numOfBuckets = do {
     numOfBuckets \<leftarrow> (if numOfBuckets = 0 then HashTable_CalculateIdealNumOfBuckets table else Some numOfBuckets);
     Some (if numOfBuckets = ht_numOfBuckets table then table
           else if \<not> array_ok then table
           else table\<lparr>ht_bucketArray := rehash_pairs (ht_hash table) (concat (ht_bucketArray table)) (replicate numOfBuckets []),
                  ht_numOfBuckets := numOfBuckets\<rparr>) }"

text \<open>The chain of the bucket of a key, and the search in it.\<close>

definition HashTable_chain :: "('k, 'v) wHashTable \<Rightarrow> 'k \<Rightarrow> ('k \<times> 'v) list option" where
  "HashTable_chain table key =
     (if ht_numOfBuckets table = 0 then None
      else map_option hd (mem_read (ht_bucketArray table) (bucket_index (ht_hash table) (ht_numOfBuckets table) key) 1))"

definition HashTable_search ::
  "('k, 'v) wHashTable \<Rightarrow> 'k \<Rightarrow> (('k \<times> 'v) list \<times> ('k \<times> 'v) \<times> ('k \<times> 'v) list) option option" where
  "HashTable_search table key = map_option (item_find (\<lambda>k. ht_keyCompare table key k)) (HashTable_chain table key)"

definition HashTable_Get :: "('k, 'v) wHashTable \<Rightarrow> 'k \<Rightarrow> ('k \<times> 'v) option option" where
  "HashTable_Get table key = map_option (map_option (\<lambda>(_, p, _). p)) (HashTable_search table key)"

text \<open>The table with the chain of the bucket of a key replaced.\<close>

definition HashTable_put :: "('k, 'v) wHashTable \<Rightarrow> 'k \<Rightarrow> ('k \<times> 'v) list \<Rightarrow> ('k, 'v) wHashTable" where
  "HashTable_put table key chain =
     table\<lparr>ht_bucketArray := (ht_bucketArray table)[bucket_index (ht_hash table) (ht_numOfBuckets table) key := chain]\<rparr>"

subsection \<open>Operations\<close>

definition HashTable_Count :: "('k, 'v) wHashTable \<Rightarrow> nat" where
  "HashTable_Count table = ht_numOfElements table"

definition ratio_of :: "('k, 'v) wHashTable \<Rightarrow> rat" where
  "ratio_of table = of_nat (ht_numOfElements table) / of_nat (ht_numOfBuckets table)"

text \<open>
  The copy made by \<open>keyClone\<close> or \<open>valueClone\<close>: the object itself without the callback, and
  \<^const>\<open>None\<close> when the callback returns \<open>NULL\<close>.
\<close>

definition clone_of :: "('a \<Rightarrow> 'a option) option \<Rightarrow> 'a \<Rightarrow> 'a option" where
  "clone_of clone x = (case clone of None \<Rightarrow> Some x | Some f \<Rightarrow> f x)"

text \<open>The pair is in the table: its key and value are replaced, the old ones freed if they differ.\<close>

definition HashTable_replace ::
  "('k, 'v) wHashTable \<Rightarrow> 'k \<Rightarrow> 'v \<Rightarrow> ('k \<times> 'v) list \<times> ('k \<times> 'v) \<times> ('k \<times> 'v) list \<Rightarrow>
     int \<times> ('k list \<times> 'v list) \<times> ('k, 'v) wHashTable" where
  "HashTable_replace table key val =
     (\<lambda>(pre, p, post). (0, (if fst p \<noteq> key \<and> ht_keyFree table then [fst p] else [],
       if snd p \<noteq> val \<and> ht_valueFree table then [snd p] else []),
       HashTable_put table key (pre @ (key, val) # post)))"

text \<open>The result: the status, the keys and values freed, and the table.\<close>

definition HashTable_Add ::
  "bool \<Rightarrow> bool \<Rightarrow> ('k, 'v) wHashTable \<Rightarrow> 'k ptr \<Rightarrow> 'v ptr \<Rightarrow> (int \<times> ('k list \<times> 'v list) \<times> ('k, 'v) wHashTable) option" where
  "HashTable_Add pair_ok array_ok table key val =
     (case (Option.bind key (clone_of (ht_keyClone table)), Option.bind val (clone_of (ht_valueClone table))) of
        (Some key, Some val) \<Rightarrow> do {
          chain \<leftarrow> HashTable_chain table key;
          r \<leftarrow> HashTable_search table key;
          (case r of
             Some found \<Rightarrow> Some (HashTable_replace table key val found)
           | None \<Rightarrow>
               if \<not> pair_ok then Some (-1, ([], []), table)
               else do {
                 let table = (HashTable_put table key ((key, val) # chain))\<lparr>ht_numOfElements := ht_numOfElements table + 1\<rparr>;
                 table \<leftarrow> (if ht_upperRehashThreshold table > ht_idealRatio table \<and> ratio_of table > ht_upperRehashThreshold table
                          then HashTable_Rehash array_ok table 0 else Some table);
                 Some (0, ([], []), table) }) }
      | _ \<Rightarrow> Some (-1, ([], []), table))"

definition HashTable_Remove :: "bool \<Rightarrow> ('k, 'v) wHashTable \<Rightarrow> 'k \<Rightarrow> (bool \<times> ('k list \<times> 'v list) \<times> ('k, 'v) wHashTable) option" where
  "HashTable_Remove array_ok table key = do {
     r \<leftarrow> HashTable_search table key;
     (case r of
        None \<Rightarrow> Some (False, ([], []), table)
      | Some (pre, p, post) \<Rightarrow> do {
          let table = (HashTable_put table key (pre @ post))\<lparr>ht_numOfElements := ht_numOfElements table - 1\<rparr>;
          let freed = (if ht_keyFree table then [fst p] else [], if ht_valueFree table then [snd p] else []);
          table \<leftarrow> (if ht_lowerRehashThreshold table > 0 \<and> ratio_of table < ht_lowerRehashThreshold table
                   then HashTable_Rehash array_ok table 0 else Some table);
          Some (True, freed, table) }) }"

definition HashTable_GetItemValue :: "('k, 'v) wHashTable \<Rightarrow> 'k \<Rightarrow> 'v ptr option" where
  "HashTable_GetItemValue table key = map_option (map_option snd) (HashTable_Get table key)"

text \<open>The value is a pointer that is not null; the old value is not freed.\<close>

definition HashTable_SetItemValue :: "('k, 'v) wHashTable \<Rightarrow> 'k \<Rightarrow> 'v \<Rightarrow> (bool \<times> ('k, 'v) wHashTable) option" where
  "HashTable_SetItemValue table key val =
     (case clone_of (ht_valueClone table) val of
        None \<Rightarrow> Some (False, table)
      | Some val \<Rightarrow> do {
          r \<leftarrow> HashTable_search table key;
          (case r of
             None \<Rightarrow> Some (False, table)
           | Some (pre, p, post) \<Rightarrow> Some (True, HashTable_put table key (pre @ (fst p, val) # post))) })"

definition HashTable_Clear :: "bool \<Rightarrow> ('k, 'v) wHashTable \<Rightarrow> (('k list \<times> 'v list) \<times> ('k, 'v) wHashTable) option" where
  "HashTable_Clear array_ok table = do {
     let pairs = concat (ht_bucketArray table);
     let freed = (if ht_keyFree table then map fst pairs else [], if ht_valueFree table then map snd pairs else []);
     let table = table\<lparr>ht_bucketArray := map (\<lambda>_. []) (ht_bucketArray table), ht_numOfElements := 0\<rparr>;
     table \<leftarrow> HashTable_Rehash array_ok table 5;
     Some (freed, table) }"

text \<open>The keys, in an array of \<open>numOfElements\<close> entries; a table with more pairs would overrun it.\<close>

definition HashTable_GetKeys :: "bool \<Rightarrow> ('k, 'v) wHashTable \<Rightarrow> (int \<times> 'k list) option" where
  "HashTable_GetKeys keys_ok table =
     (let count = ht_numOfElements table; keys = map fst (concat (ht_bucketArray table))
      in if count < 1 then Some (0, [])
         else if \<not> keys_ok then Some (-1, [])
         else if length keys \<le> count then Some (int count, keys) else None)"

definition HashTable_Contains :: "('k, 'v) wHashTable \<Rightarrow> 'k \<Rightarrow> bool option" where
  "HashTable_Contains table key = map_option (\<lambda>p. p \<noteq> None) (HashTable_Get table key)"

definition HashTable_ContainsKey :: "('k, 'v) wHashTable \<Rightarrow> 'k \<Rightarrow> bool option" where
  "HashTable_ContainsKey table key = map_option (\<lambda>p. p \<noteq> None) (HashTable_Get table key)"

definition HashTable_ContainsValue :: "('k, 'v) wHashTable \<Rightarrow> 'v \<Rightarrow> bool" where
  "HashTable_ContainsValue table val = list_ex (\<lambda>p. ht_valueCompare table val (snd p)) (concat (ht_bucketArray table))"

definition HashTable_New :: "bool \<Rightarrow> bool \<Rightarrow> bool \<Rightarrow> (u64, u64) wHashTable option" where
  "HashTable_New table_ok array_ok synchronized =
     (if table_ok \<and> array_ok
      then Some \<lparr>ht_synchronized = synchronized, ht_numOfBuckets = 64, ht_numOfElements = 0, ht_idealRatio = 3,
        ht_lowerRehashThreshold = 0, ht_upperRehashThreshold = 15, ht_bucketArray = replicate 64 [],
        ht_hash = HashTable_PointerHash, ht_keyCompare = HashTable_PointerCompare, ht_valueCompare = HashTable_PointerCompare,
        ht_keyClone = None, ht_valueClone = None, ht_keyFree = False, ht_valueFree = False\<rparr>
      else None)"

definition HashTable_Free :: "('k, 'v) wHashTable option \<Rightarrow> 'k list \<times> 'v list" where
  "HashTable_Free table = (case table of None \<Rightarrow> ([], []) | Some t \<Rightarrow>
     let pairs = concat (ht_bucketArray t)
     in (if ht_keyFree t then map fst pairs else [], if ht_valueFree t then map snd pairs else []))"

subsection \<open>Choosing the number of buckets\<close>

lemma probable_prime_scan_true:
  "(\<forall>i \<in> set is. oddNumber mod i \<noteq> 0) \<Longrightarrow> probable_prime_scan is oddNumber"
  by (induction "is") auto

text \<open>A number that leaves the remainder one for all the divisors tried.\<close>

definition prime_step :: nat where
  "prime_step = 2 * prod_list (map (\<lambda>k. 2 * k + 3) [0..<24])"

lemma member_dvd_prod: "(x :: nat) \<in> set xs \<Longrightarrow> x dvd prod_list xs"
  by (induction xs) auto

lemma prime_step_probable: "HashTable_IsProbablePrime (1 + prime_step * m)"
proof -
  have "(1 + prime_step * m) mod i \<noteq> 0" if "i \<in> set (map (\<lambda>k. 2 * k + 3) [0..<24])" for i
  proof -
    have "i dvd prime_step" unfolding prime_step_def by (intro dvd_mult member_dvd_prod that)
    then have "(1 + prime_step * m) mod i = 1 mod i" by (metis dvd_mult2 mod_add_right_eq add_0_right dvd_imp_mod_0)
    moreover have "1 < i" using that by auto
    ultimately show ?thesis by simp
  qed
  then show ?thesis unfolding HashTable_IsProbablePrime_def by (intro probable_prime_scan_true) blast
qed

lemma next_probable_prime_Some:
  assumes "odd n" "n \<le> 1 + prime_step * m"
  shows "\<exists>p. next_probable_prime n = Some p \<and> n \<le> p"
  using assms
proof (induction "1 + prime_step * m - n" arbitrary: n rule: less_induct)
  case less
  show ?case
  proof (cases "HashTable_IsProbablePrime n")
    case True
    then show ?thesis by (simp add: next_probable_prime.simps)
  next
    case False
    then have "n \<noteq> 1 + prime_step * m" using prime_step_probable by blast
    moreover have "odd (1 + prime_step * m)" by (simp add: prime_step_def)
    ultimately have le: "n + 2 \<le> 1 + prime_step * m" using less.prems by presburger
    then have "1 + prime_step * m - (n + 2) < 1 + prime_step * m - n" by linarith
    from less.hyps [OF this _ le] less.prems obtain p where "next_probable_prime (n + 2) = Some p" "n + 2 \<le> p" by auto
    then show ?thesis using False by (subst next_probable_prime.simps) simp
  qed
qed

lemma Ideal_Some:
  assumes "1 \<le> ht_idealRatio table"
  shows "\<exists>n. HashTable_CalculateIdealNumOfBuckets table = Some n \<and> 5 \<le> n"
proof -
  let ?n = "ht_numOfElements table div nat \<lfloor>ht_idealRatio table\<rfloor>"
  let ?s = "if ?n < 5 then 5 else if even ?n then ?n + 1 else ?n"
  have r: "nat \<lfloor>ht_idealRatio table\<rfloor> \<noteq> 0" using assms one_le_floor [of "ht_idealRatio table"] by simp
  have "prime_step > 0" by (rule gr0I) (auto simp: prime_step_def prod_list_zero_iff)
  then have "?s \<le> 1 + prime_step * ?s" by (metis One_nat_def Suc_leI le_Suc_eq mult_le_mono1 nat_mult_1 plus_1_eq_Suc)
  moreover have "odd ?s" by simp
  ultimately obtain p where "next_probable_prime ?s = Some p" "?s \<le> p" using next_probable_prime_Some by blast
  moreover have "5 \<le> ?s" by simp
  ultimately show ?thesis using r by (auto simp: HashTable_CalculateIdealNumOfBuckets_def Let_def)
qed

subsection \<open>The pairs of a table\<close>

definition pairs :: "('k, 'v) wHashTable \<Rightarrow> ('k \<times> 'v) multiset" where
  "pairs t = mset (concat (ht_bucketArray t))"

text \<open>No two pairs have equal keys.\<close>

definition unique_keys :: "('k \<Rightarrow> 'k \<Rightarrow> bool) \<Rightarrow> ('k \<times> 'v) multiset \<Rightarrow> bool" where
  "unique_keys eqk M \<longleftrightarrow> (\<forall>p \<in># M. \<forall>q \<in># M - {#p#}. \<not> eqk (fst p) (fst q))"

lemma unique_keys_add:
  assumes "key_equiv eqk"
  shows "unique_keys eqk (add_mset p M) \<longleftrightarrow> (\<forall>q \<in># M. \<not> eqk (fst p) (fst q)) \<and> unique_keys eqk M"
proof -
  have sym: "eqk a b = eqk b a" for a b using assms by (rule key_equiv_cong)
  have "add_mset p M - {#q#} = add_mset p (M - {#q#})" if "q \<in># M" for q
    using that by (cases "p = q") (simp_all add: insert_DiffM)
  then show ?thesis using sym unfolding unique_keys_def by (auto dest: in_diffD)
qed

lemma unique_keysD: "unique_keys eqk M \<Longrightarrow> p \<in># M \<Longrightarrow> q \<in># M \<Longrightarrow> eqk (fst p) (fst q) \<Longrightarrow> p = q"
  unfolding unique_keys_def by (metis insert_DiffM insert_noteq_member)

text \<open>Every pair is in the bucket of its key.\<close>

definition placed :: "('k \<Rightarrow> u32) \<Rightarrow> ('k \<times> 'v) list list \<Rightarrow> bool" where
  "placed hash bs \<longleftrightarrow> (\<forall>i < length bs. \<forall>p \<in> set (bs ! i). bucket_index hash (length bs) (fst p) = i)"

definition ht_wf :: "('k \<Rightarrow> 'k \<Rightarrow> bool) \<Rightarrow> ('k, 'v) wHashTable \<Rightarrow> bool" where
  "ht_wf eqk t \<longleftrightarrow> ht_keyCompare t = eqk \<and> key_equiv eqk \<and> (\<forall>a b. eqk a b \<longrightarrow> ht_hash t a = ht_hash t b) \<and>
     0 < ht_numOfBuckets t \<and> length (ht_bucketArray t) = ht_numOfBuckets t \<and> placed (ht_hash t) (ht_bucketArray t) \<and>
     unique_keys eqk (pairs t) \<and> ht_numOfElements t = size (pairs t) \<and> 1 \<le> ht_idealRatio t"

definition ht_lookup :: "('k, 'v) wHashTable \<Rightarrow> 'k \<Rightarrow> 'v option" where
  "ht_lookup t k = item_value (\<lambda>a. ht_keyCompare t k a) (ht_bucketArray t ! bucket_index (ht_hash t) (ht_numOfBuckets t) k)"

lemma bucket_index_less: "0 < n \<Longrightarrow> bucket_index hash n k < n"
  by (simp add: bucket_index_def)

lemma mset_concat_update:
  "i < length bs \<Longrightarrow> mset (concat (bs[i := c])) + mset (bs ! i) = mset (concat bs) + mset c"
  by (induction bs arbitrary: i) (auto split: nat.splits simp: ac_simps)

lemma item_value_member: "item_value P xs = Some v \<Longrightarrow> \<exists>p \<in> set xs. P (fst p) \<and> snd p = v"
  by (induction xs) (auto split: if_splits)

lemma placed_update:
  assumes "placed hash bs" "i < length bs" "\<forall>p \<in> set c. bucket_index hash (length bs) (fst p) = i"
  shows "placed hash (bs[i := c])"
  unfolding placed_def
proof (intro allI impI ballI)
  fix j p assume "j < length (bs[i := c])" "p \<in> set (bs[i := c] ! j)"
  then show "bucket_index hash (length (bs[i := c])) (fst p) = j"
    using assms by (cases "j = i") (auto simp: placed_def)
qed

text \<open>What a lookup sees, in terms of the pairs alone: it does not depend on the buckets.\<close>

lemma ht_lookup_iff:
  assumes wf: "ht_wf eqk t"
  shows "ht_lookup t k = Some v \<longleftrightarrow> (\<exists>p \<in># pairs t. eqk k (fst p) \<and> snd p = v)"
proof
  let ?b = "ht_bucketArray t ! bucket_index (ht_hash t) (ht_numOfBuckets t) k"
  have i: "bucket_index (ht_hash t) (ht_numOfBuckets t) k < length (ht_bucketArray t)"
    using wf by (simp add: ht_wf_def bucket_index_less)
  have sub: "set ?b \<subseteq> set_mset (pairs t)" using nth_mem [OF i] by (force simp: pairs_def)
  {
    assume "ht_lookup t k = Some v"
    then obtain p where "p \<in> set ?b" "eqk k (fst p)" "snd p = v" using item_value_member wf unfolding ht_lookup_def ht_wf_def by metis
    with sub show "\<exists>p \<in># pairs t. eqk k (fst p) \<and> snd p = v" by blast
  next
    assume "\<exists>p \<in># pairs t. eqk k (fst p) \<and> snd p = v"
    then obtain p where p: "p \<in># pairs t" "eqk k (fst p)" "snd p = v" by blast
    then obtain b where "b \<in> set (ht_bucketArray t)" "p \<in> set b" by (auto simp: pairs_def)
    then obtain j where j: "j < length (ht_bucketArray t)" "p \<in> set (ht_bucketArray t ! j)"
      by (metis in_set_conv_nth)
    have "ht_hash t k = ht_hash t (fst p)" using wf p(2) by (simp add: ht_wf_def)
    then have "j = bucket_index (ht_hash t) (ht_numOfBuckets t) k" using wf j by (auto simp: ht_wf_def placed_def bucket_index_def)
    with j have pb: "p \<in> set ?b" by simp
    then have "item_value (\<lambda>a. eqk k a) ?b \<noteq> None" using p(2) by (auto simp: item_value_None)
    then obtain w where w: "item_value (\<lambda>a. eqk k a) ?b = Some w" by blast
    then obtain q where q: "q \<in> set ?b" "eqk k (fst q)" "snd q = w" using item_value_member by metis
    have "eqk (fst p) (fst q)" using p(2) q(2) wf unfolding ht_wf_def key_equiv_def by blast
    then have "p = q" using unique_keysD [of eqk "pairs t" p q] wf p(1) q(1) sub by (auto simp: ht_wf_def)
    with w p q wf show "ht_lookup t k = Some v" by (simp add: ht_lookup_def ht_wf_def)
  }
qed

lemma ht_lookup_None: "ht_wf eqk t \<Longrightarrow> ht_lookup t k = None \<longleftrightarrow> (\<forall>p \<in># pairs t. \<not> eqk k (fst p))"
  using ht_lookup_iff [of eqk t k] by (metis not_None_eq)

subsection \<open>The operations on the pairs\<close>

text \<open>A change of one bucket that keeps every pair of it in place.\<close>

lemma HashTable_put_shape:
  assumes wf: "ht_wf eqk t" and c: "\<forall>p \<in> set c. bucket_index (ht_hash t) (ht_numOfBuckets t) (fst p) = bucket_index (ht_hash t) (ht_numOfBuckets t) k"
  shows "placed (ht_hash t) (ht_bucketArray (HashTable_put t k c))"
    and "pairs (HashTable_put t k c) + mset (ht_bucketArray t ! bucket_index (ht_hash t) (ht_numOfBuckets t) k) = pairs t + mset c"
proof -
  have i: "bucket_index (ht_hash t) (ht_numOfBuckets t) k < length (ht_bucketArray t)"
    using wf by (simp add: ht_wf_def bucket_index_less)
  show "placed (ht_hash t) (ht_bucketArray (HashTable_put t k c))"
    using wf c i placed_update [of "ht_hash t" "ht_bucketArray t"] by (simp add: HashTable_put_def ht_wf_def)
  show "pairs (HashTable_put t k c) + mset (ht_bucketArray t ! bucket_index (ht_hash t) (ht_numOfBuckets t) k) = pairs t + mset c"
    using mset_concat_update [OF i, of c] by (simp add: pairs_def HashTable_put_def)
qed

lemma HashTable_chain_Some:
  assumes "ht_wf eqk t"
  shows "HashTable_chain t k = Some (ht_bucketArray t ! bucket_index (ht_hash t) (ht_numOfBuckets t) k)"
  using assms by (simp add: HashTable_chain_def ht_wf_def bucket_index_less)

lemma HashTable_search_Some:
  assumes "ht_wf eqk t"
  shows "HashTable_search t k = Some (item_find (\<lambda>a. eqk k a) (ht_bucketArray t ! bucket_index (ht_hash t) (ht_numOfBuckets t) k))"
  using assms HashTable_chain_Some [OF assms, of k] by (simp add: HashTable_search_def ht_wf_def)

lemma HashTable_search_lookup:
  assumes "ht_wf eqk t"
  shows "ht_lookup t k = (case the (HashTable_search t k) of None \<Rightarrow> None | Some (_, p, _) \<Rightarrow> Some (snd p))"
  using assms by (auto simp: HashTable_search_Some ht_lookup_def item_value_def ht_wf_def split: option.split)

text \<open>A match in a bucket: the pair is in the table, its key in the bucket of the key searched.\<close>

lemma HashTable_match:
  assumes wf: "ht_wf eqk t" and f: "HashTable_search t k = Some (Some (pre, p, post))"
  shows "ht_bucketArray t ! bucket_index (ht_hash t) (ht_numOfBuckets t) k = pre @ p # post" "eqk k (fst p)" "p \<in># pairs t"
    "\<forall>q \<in> set (pre @ p # post). bucket_index (ht_hash t) (ht_numOfBuckets t) (fst q) = bucket_index (ht_hash t) (ht_numOfBuckets t) k"
proof -
  let ?i = "bucket_index (ht_hash t) (ht_numOfBuckets t) k"
  have i: "?i < length (ht_bucketArray t)" using wf by (simp add: ht_wf_def bucket_index_less)
  show b: "ht_bucketArray t ! ?i = pre @ p # post" and "eqk k (fst p)"
    using f item_find_Some [of "\<lambda>a. eqk k a" "ht_bucketArray t ! ?i" pre p post] by (simp_all add: HashTable_search_Some [OF wf])
  show "p \<in># pairs t" using nth_mem [OF i] b by (force simp: pairs_def)
  show "\<forall>q \<in> set (pre @ p # post). bucket_index (ht_hash t) (ht_numOfBuckets t) (fst q) = ?i"
  proof -
    have "placed (ht_hash t) (ht_bucketArray t)" "length (ht_bucketArray t) = ht_numOfBuckets t" using wf by (simp_all add: ht_wf_def)
    with i show ?thesis unfolding b [symmetric] placed_def by metis
  qed
qed

lemma rehash_pairs_keeps:
  assumes "0 < length bs" "placed hash bs"
  shows "length (rehash_pairs hash ps bs) = length bs \<and> placed hash (rehash_pairs hash ps bs) \<and>
    mset (concat (rehash_pairs hash ps bs)) = mset (concat bs) + mset ps"
  using assms
proof (induction ps arbitrary: bs)
  case (Cons p ps)
  let ?h = "bucket_index hash (length bs) (fst p)"
  let ?bs = "bs[?h := p # bs ! ?h]"
  have h: "?h < length bs" using Cons.prems by (simp add: bucket_index_less)
  have "\<forall>q \<in> set (p # bs ! ?h). bucket_index hash (length bs) (fst q) = ?h" using Cons.prems h by (auto simp: placed_def)
  then have pl: "placed hash ?bs" "0 < length ?bs" using placed_update [OF Cons.prems(2) h] Cons.prems(1) by simp_all
  have "mset (concat ?bs) = add_mset p (mset (concat bs))" using mset_concat_update [OF h, of "p # bs ! ?h"] by simp
  with Cons.IH [OF pl(2,1)] show ?case by (simp add: Let_def)
qed simp

text \<open>A rehash changes no pair, so no lookup.\<close>

lemma HashTable_Rehash_keeps:
  assumes wf: "ht_wf eqk t"
  shows "\<exists>t'. HashTable_Rehash array_ok t n = Some t' \<and> ht_wf eqk t' \<and> pairs t' = pairs t \<and> ht_lookup t' = ht_lookup t"
proof -
  have ratio: "1 \<le> ht_idealRatio t" using wf by (simp add: ht_wf_def)
  obtain m where m: "(if n = 0 then HashTable_CalculateIdealNumOfBuckets t else Some n) = Some m" "0 < m"
    using Ideal_Some [OF ratio] by (cases "n = 0") auto
  let ?b = "rehash_pairs (ht_hash t) (concat (ht_bucketArray t)) (replicate m [])"
  let ?t = "t\<lparr>ht_bucketArray := ?b, ht_numOfBuckets := m\<rparr>"
  have pl: "placed (ht_hash t) (replicate m ([] :: ('a \<times> 'b) list))" "0 < length (replicate m ([] :: ('a \<times> 'b) list))"
    using m(2) by (simp_all add: placed_def)
  have "concat (replicate m ([] :: ('a \<times> 'b) list)) = []" by simp
  then have k: "length ?b = m" "placed (ht_hash t) ?b" "pairs ?t = pairs t"
    using rehash_pairs_keeps [OF pl(2,1), of "concat (ht_bucketArray t)"] by (simp_all add: pairs_def)
  have wf': "ht_wf eqk ?t" using wf k m(2) by (simp add: ht_wf_def)
  have "ht_lookup ?t x = ht_lookup t x" for x
    using ht_lookup_iff [OF wf, of x] ht_lookup_iff [OF wf', of x] k(3) by (metis not_None_eq)
  then have l: "ht_lookup ?t = ht_lookup t" by (rule ext)
  show ?thesis unfolding HashTable_Rehash_def m(1) using wf wf' k(3) l by auto
qed

text \<open>Lookups after a pair was put in, exchanged or taken out.\<close>

lemma ht_lookup_put_in:
  assumes wf: "ht_wf eqk t" "ht_wf eqk t'" and t': "pairs t' = add_mset (k', v) M" "eqk k k'"
    and t: "pairs t = M \<or> (\<exists>p. pairs t = add_mset p M \<and> eqk k (fst p))"
  shows "ht_lookup t' = (\<lambda>x. if eqk x k then Some v else ht_lookup t x)"
proof
  fix x
  have e: "key_equiv eqk" using wf by (simp add: ht_wf_def)
  show "ht_lookup t' x = (if eqk x k then Some v else ht_lookup t x)"
  proof (cases "eqk x k")
    case True
    then have "eqk x k'" using t'(2) e unfolding key_equiv_def by blast
    then have "ht_lookup t' x = Some v" unfolding ht_lookup_iff [OF wf(2)] t'(1) by auto
    with True show ?thesis by simp
  next
    case False
    have not: "\<not> eqk x a" if "eqk k a" for a using False that e unfolding key_equiv_def by blast
    have other: "(\<exists>q \<in># add_mset p M. eqk x (fst q) \<and> snd q = w) \<longleftrightarrow> (\<exists>q \<in># M. eqk x (fst q) \<and> snd q = w)"
      if "eqk k (fst p)" for p w using not [OF that] by simp
    have "ht_lookup t' x = Some w \<longleftrightarrow> ht_lookup t x = Some w" for w
      unfolding ht_lookup_iff [OF wf(1)] ht_lookup_iff [OF wf(2)] t'(1)
      using t other [of "(k', v)" w] other [of _ w] t'(2) by (elim disjE exE conjE) simp_all
    with False show ?thesis by (metis not_None_eq)
  qed
qed

lemma ht_lookup_take_out:
  assumes wf: "ht_wf eqk t" "ht_wf eqk t'" and t: "pairs t = add_mset p (pairs t')" "eqk k (fst p)"
  shows "ht_lookup t' = (\<lambda>x. if eqk x k then None else ht_lookup t x)"
proof
  fix x
  have e: "key_equiv eqk" "unique_keys eqk (add_mset p (pairs t'))" using wf t by (simp_all add: ht_wf_def)
  show "ht_lookup t' x = (if eqk x k then None else ht_lookup t x)"
  proof (cases "eqk x k")
    case True
    have u: "\<not> eqk (fst p) (fst q)" if "q \<in># pairs t'" for q using e that by (simp add: unique_keys_add)
    have "ht_lookup t' x = None" unfolding ht_lookup_None [OF wf(2)]
      using True u t(2) e(1) unfolding key_equiv_def by blast
    with True show ?thesis by simp
  next
    case False
    then have "\<not> eqk x (fst p)" using t(2) e(1) unfolding key_equiv_def by blast
    then have "ht_lookup t' x = Some w \<longleftrightarrow> ht_lookup t x = Some w" for w
      unfolding ht_lookup_iff [OF wf(1)] ht_lookup_iff [OF wf(2)] t(1) by auto
    with False show ?thesis by (metis not_None_eq)
  qed
qed

text \<open>The table after a bucket with a match is changed: the match dropped, or replaced by another pair.\<close>

lemma HashTable_match_change:
  assumes wf: "ht_wf eqk t" and f: "HashTable_search t k = Some (Some (pre, p, post))"
  shows "ht_wf eqk ((HashTable_put t k (pre @ post))\<lparr>ht_numOfElements := ht_numOfElements t - 1\<rparr>)"
    and "pairs t = add_mset p (pairs (HashTable_put t k (pre @ post)))"
    and "eqk k k' \<Longrightarrow> ht_wf eqk (HashTable_put t k (pre @ (k', v) # post))"
    and "eqk k k' \<Longrightarrow> pairs (HashTable_put t k (pre @ (k', v) # post)) = add_mset (k', v) (pairs (HashTable_put t k (pre @ post)))"
proof -
  note m = HashTable_match [OF wf f]
  let ?ix = "\<lambda>a. bucket_index (ht_hash t) (ht_numOfBuckets t) a"
  have e: "key_equiv eqk" using wf by (simp add: ht_wf_def)
  have c1: "\<forall>q \<in> set (pre @ post). ?ix (fst q) = ?ix k" using m(4) by auto
  note s1 = HashTable_put_shape [OF wf c1]
  show p1: "pairs t = add_mset p (pairs (HashTable_put t k (pre @ post)))" using s1(2) by (simp add: m(1))
  have u: "unique_keys eqk (add_mset p (pairs (HashTable_put t k (pre @ post))))" using wf by (simp add: ht_wf_def p1 [symmetric])
  have n: "size (pairs t) = Suc (size (pairs (HashTable_put t k (pre @ post))))" using p1 by simp
  have pairs_count: "pairs (t\<lparr>ht_numOfElements := a\<rparr>) = pairs t" for t :: "('a, 'b) wHashTable" and a by (simp add: pairs_def)
  show "ht_wf eqk ((HashTable_put t k (pre @ post))\<lparr>ht_numOfElements := ht_numOfElements t - 1\<rparr>)"
    using wf s1(1) u n unfolding unique_keys_add [OF e] by (simp add: ht_wf_def pairs_count) (simp add: HashTable_put_def)
  assume k': "eqk k k'"
  have "ht_hash t k' = ht_hash t k" using wf k' by (simp add: ht_wf_def)
  then have c2: "\<forall>q \<in> set (pre @ (k', v) # post). ?ix (fst q) = ?ix k" using m(4) by (auto simp: bucket_index_def)
  note s2 = HashTable_put_shape [OF wf c2]
  show p2: "pairs (HashTable_put t k (pre @ (k', v) # post)) = add_mset (k', v) (pairs (HashTable_put t k (pre @ post)))"
    using s2(2) p1 by (simp add: m(1))
  have "eqk (fst p) k'" using m(2) k' e unfolding key_equiv_def by blast
  then have "\<not> eqk k' (fst q)" if "q \<in># pairs (HashTable_put t k (pre @ post))" for q
    using u that e unfolding unique_keys_add [OF e] key_equiv_def by blast
  then have "unique_keys eqk (pairs (HashTable_put t k (pre @ (k', v) # post)))"
    using u unfolding p2 unique_keys_add [OF e] by simp
  then show "ht_wf eqk (HashTable_put t k (pre @ (k', v) # post))"
    using wf s2(1) n by (simp add: ht_wf_def p2) (simp add: HashTable_put_def)
qed

subsection \<open>The operations as a dictionary\<close>

text \<open>A table whose keys and values are stored as they are, without clone callbacks.\<close>

definition ht_plain :: "('k \<Rightarrow> 'k \<Rightarrow> bool) \<Rightarrow> ('k, 'v) wHashTable \<Rightarrow> bool" where
  "ht_plain eqk t \<longleftrightarrow> ht_wf eqk t \<and> ht_keyClone t = None \<and> ht_valueClone t = None"

lemma Rehash_clones:
  "HashTable_Rehash array_ok t n = Some t' \<Longrightarrow> ht_keyClone t' = ht_keyClone t \<and> ht_valueClone t' = ht_valueClone t"
  by (auto simp: HashTable_Rehash_def split: Option.bind_splits if_splits)

lemma put_clones [simp]:
  "ht_keyClone (HashTable_put t k c) = ht_keyClone t" "ht_valueClone (HashTable_put t k c) = ht_valueClone t"
  by (simp_all add: HashTable_put_def)

text \<open>The optional rehash at the end of \<open>HashTable_Add\<close> and \<open>HashTable_Remove\<close>.\<close>

lemma maybe_rehash:
  assumes "ht_wf eqk t"
  obtains t' where "(if b then HashTable_Rehash array_ok t 0 else Some t) = Some t'" "ht_wf eqk t'" "pairs t' = pairs t"
    "ht_lookup t' = ht_lookup t" "ht_keyClone t' = ht_keyClone t" "ht_valueClone t' = ht_valueClone t"
proof (cases b)
  case True
  obtain t' where "HashTable_Rehash array_ok t 0 = Some t'" "ht_wf eqk t'" "pairs t' = pairs t" "ht_lookup t' = ht_lookup t"
    using HashTable_Rehash_keeps [OF assms] by blast
  with True Rehash_clones that show thesis by auto
qed (use assms that in auto)

text \<open>A new pair at the front of its bucket.\<close>

lemma HashTable_new_pair:
  fixes v :: 'v
  assumes wf: "ht_wf eqk t" and none: "ht_lookup t k = None"
  defines "t' \<equiv> (HashTable_put t k ((k, v) # ht_bucketArray t ! bucket_index (ht_hash t) (ht_numOfBuckets t) k))
    \<lparr>ht_numOfElements := ht_numOfElements t + 1\<rparr>"
  shows "ht_wf eqk t'" "pairs t' = add_mset (k, v) (pairs t)" "ht_keyClone t' = ht_keyClone t" "ht_valueClone t' = ht_valueClone t"
proof -
  let ?i = "bucket_index (ht_hash t) (ht_numOfBuckets t) k"
  let ?c = "(k, v) # ht_bucketArray t ! ?i"
  have e: "key_equiv eqk" using wf by (simp add: ht_wf_def)
  have i: "?i < length (ht_bucketArray t)" using wf by (simp add: ht_wf_def bucket_index_less)
  have "length (ht_bucketArray t) = ht_numOfBuckets t" "placed (ht_hash t) (ht_bucketArray t)" using wf by (simp_all add: ht_wf_def)
  then have c: "\<forall>p \<in> set ?c. bucket_index (ht_hash t) (ht_numOfBuckets t) (fst p) = ?i"
    using i unfolding placed_def by (metis fst_conv set_ConsD)
  note s = HashTable_put_shape [OF wf c]
  show p: "pairs t' = add_mset (k, v) (pairs t)" using s(2) by (simp add: t'_def pairs_def)
  have "\<forall>q \<in># pairs t. \<not> eqk k (fst q)" using none ht_lookup_None [OF wf] by blast
  then have "unique_keys eqk (pairs t')" using wf unfolding p unique_keys_add [OF e] by (simp add: ht_wf_def)
  then show "ht_wf eqk t'" using wf s(1) unfolding ht_wf_def p by (simp add: t'_def HashTable_put_def)
  show "ht_keyClone t' = ht_keyClone t" "ht_valueClone t' = ht_valueClone t" by (simp_all add: t'_def)
qed

definition ht_add :: "bool \<Rightarrow> bool \<Rightarrow> 'k \<Rightarrow> 'v \<Rightarrow> ('k, 'v) wHashTable \<Rightarrow> (bool \<times> ('k, 'v) wHashTable) option" where
  "ht_add pair_ok array_ok k v t = map_option (\<lambda>(r, _, t'). (r = 0, t')) (HashTable_Add pair_ok array_ok t (Some k) (Some v))"

definition ht_set :: "'k \<Rightarrow> 'v \<Rightarrow> ('k, 'v) wHashTable \<Rightarrow> (bool \<times> ('k, 'v) wHashTable) option" where
  "ht_set k v t = HashTable_SetItemValue t k v"

definition ht_del :: "bool \<Rightarrow> 'k \<Rightarrow> ('k, 'v) wHashTable \<Rightarrow> (bool \<times> ('k, 'v) wHashTable) option" where
  "ht_del array_ok k t = map_option (\<lambda>(r, _, t'). (r, t')) (HashTable_Remove array_ok t k)"

lemma ht_search_cases:
  assumes "ht_wf eqk t"
  obtains (absent) "HashTable_search t k = Some None" "ht_lookup t k = None"
  | (found) pre p post where "HashTable_search t k = Some (Some (pre, p, post))" "ht_lookup t k = Some (snd p)"
proof (cases "item_find (\<lambda>a. eqk k a) (ht_bucketArray t ! bucket_index (ht_hash t) (ht_numOfBuckets t) k)")
  case None
  with HashTable_search_Some [OF assms, of k] HashTable_search_lookup [OF assms, of k] show thesis by (intro absent) simp_all
next
  case (Some r)
  obtain pre p post where "r = (pre, p, post)" by (cases r) auto
  with Some HashTable_search_Some [OF assms, of k] HashTable_search_lookup [OF assms, of k] show thesis by (intro found) simp_all
qed

lemma ht_add_result:
  assumes plain: "ht_plain eqk t" and none: "ht_lookup t k = None"
  shows "\<exists>t'. ht_add pair_ok array_ok k v t = Some (pair_ok, t') \<and> ht_plain eqk t' \<and>
    ht_lookup t' = (\<lambda>x. if pair_ok \<and> eqk x k then Some v else ht_lookup t x)"
proof -
  have wf: "ht_wf eqk t" and cl: "ht_keyClone t = None" "ht_valueClone t = None" using plain by (simp_all add: ht_plain_def)
  have s: "HashTable_search t k = Some None" using none by (cases rule: ht_search_cases [OF wf, of k]) simp_all
  let ?t1 = "(HashTable_put t k ((k, v) # ht_bucketArray t ! bucket_index (ht_hash t) (ht_numOfBuckets t) k))
    \<lparr>ht_numOfElements := ht_numOfElements t + 1\<rparr>"
  note n = HashTable_new_pair [OF wf none, of v]
  obtain t2 where t2: "(if ht_upperRehashThreshold ?t1 > ht_idealRatio ?t1 \<and> ratio_of ?t1 > ht_upperRehashThreshold ?t1
      then HashTable_Rehash array_ok ?t1 0 else Some ?t1) = Some t2"
    "ht_wf eqk t2" "pairs t2 = pairs ?t1" "ht_keyClone t2 = ht_keyClone ?t1" "ht_valueClone t2 = ht_valueClone ?t1"
    using maybe_rehash [OF n(1)] by metis
  have add: "HashTable_Add pair_ok array_ok t (Some k) (Some v) = Some (if pair_ok then (0, ([], []), t2) else (-1, ([], []), t))"
    unfolding HashTable_Add_def clone_of_def cl Let_def using s HashTable_chain_Some [OF wf, of k] t2(1) by simp
  have "eqk k k" using wf by (simp add: ht_wf_def key_equiv_def)
  then have l: "ht_lookup t2 = (\<lambda>x. if eqk x k then Some v else ht_lookup t x)"
    using ht_lookup_put_in [OF wf t2(2), of k v "pairs t" k] t2(3) n(2) by simp
  show ?thesis
  proof (cases pair_ok)
    case True
    then show ?thesis using add l t2 n(3,4) cl
      by (intro exI [of _ t2]) (simp add: ht_add_def ht_plain_def)
  next
    case False
    then show ?thesis using add plain by (intro exI [of _ t]) (simp add: ht_add_def)
  qed
qed

lemma ht_add_law:
  assumes "ht_plain eqk t" "ht_lookup t k = None"
  shows "\<exists>ok t'. ht_add pair_ok array_ok k v t = Some (ok, t') \<and> ht_plain eqk t' \<and>
    ht_lookup t' = (\<lambda>x. if ok \<and> eqk x k then Some v else ht_lookup t x)"
  using ht_add_result [OF assms] by (intro exI [of _ pair_ok])

lemma ht_set_law:
  assumes plain: "ht_plain eqk t"
  shows "\<exists>ok t'. ht_set k v t = Some (ok, t') \<and> ht_plain eqk t' \<and> ok = (ht_lookup t k \<noteq> None) \<and>
    ht_lookup t' = (\<lambda>x. if ok \<and> eqk x k then Some v else ht_lookup t x)"
proof -
  have wf: "ht_wf eqk t" and cl: "ht_keyClone t = None" "ht_valueClone t = None" using plain by (simp_all add: ht_plain_def)
  show ?thesis
  proof (cases rule: ht_search_cases [OF wf, of k])
    case absent: 1
    then show ?thesis using plain cl by (simp add: ht_set_def HashTable_SetItemValue_def clone_of_def ex_bool_eq)
  next
    case found: (2 pre p post)
    note m = HashTable_match [OF wf found(1)]
    note c = HashTable_match_change [OF wf found(1)]
    let ?t = "HashTable_put t k (pre @ (fst p, v) # post)"
    have "ht_lookup ?t = (\<lambda>x. if eqk x k then Some v else ht_lookup t x)"
      using ht_lookup_put_in [OF wf c(3) [OF m(2)] c(4) [OF m(2)] m(2)] c(2) m(2) by blast
    then show ?thesis using found c(3) [OF m(2)] cl
      by (intro exI [of _ True] exI [of _ ?t]) (simp add: ht_set_def HashTable_SetItemValue_def clone_of_def ht_plain_def)
  qed
qed

lemma ht_del_law:
  assumes plain: "ht_plain eqk t"
  shows "\<exists>ok t'. ht_del array_ok k t = Some (ok, t') \<and> ht_plain eqk t' \<and> ok = (ht_lookup t k \<noteq> None) \<and>
    ht_lookup t' = (\<lambda>x. if eqk x k then None else ht_lookup t x)"
proof -
  have wf: "ht_wf eqk t" and cl: "ht_keyClone t = None" "ht_valueClone t = None" using plain by (simp_all add: ht_plain_def)
  show ?thesis
  proof (cases rule: ht_search_cases [OF wf, of k])
    case absent: 1
    have "(\<lambda>x. if eqk x k then None else ht_lookup t x) = ht_lookup t"
    proof
      fix x
      have e: "key_equiv eqk" using wf by (simp add: ht_wf_def)
      show "(if eqk x k then None else ht_lookup t x) = ht_lookup t x"
      proof (cases "eqk x k")
        case True
        then have "ht_lookup t x = None"
          using absent(2) e unfolding ht_lookup_None [OF wf] key_equiv_def by blast
        with True show ?thesis by simp
      qed simp
    qed
    then show ?thesis using plain absent
      by (intro exI [of _ False] exI [of _ t]) (simp add: ht_del_def HashTable_Remove_def)
  next
    case found: (2 pre p post)
    note m = HashTable_match [OF wf found(1)]
    note c = HashTable_match_change [OF wf found(1)]
    let ?t1 = "(HashTable_put t k (pre @ post))\<lparr>ht_numOfElements := ht_numOfElements t - 1\<rparr>"
    have p1: "pairs ?t1 = pairs (HashTable_put t k (pre @ post))" by (simp add: pairs_def)
    obtain t2 where t2: "(if ht_lowerRehashThreshold ?t1 > 0 \<and> ratio_of ?t1 < ht_lowerRehashThreshold ?t1
        then HashTable_Rehash array_ok ?t1 0 else Some ?t1) = Some t2"
      "ht_wf eqk t2" "pairs t2 = pairs ?t1" "ht_keyClone t2 = ht_keyClone ?t1" "ht_valueClone t2 = ht_valueClone ?t1"
      using maybe_rehash [OF c(1)] by metis
    have "\<exists>fr. HashTable_Remove array_ok t k = Some (True, fr, t2)"
      unfolding HashTable_Remove_def Let_def using found(1) t2(1) by simp
    moreover have "ht_lookup t2 = (\<lambda>x. if eqk x k then None else ht_lookup t x)"
      using ht_lookup_take_out [OF wf t2(2), of p k] c(2) t2(3) p1 m(2) by simp
    ultimately show ?thesis using found t2 cl
      by (intro exI [of _ True] exI [of _ t2]) (auto simp: ht_del_def ht_plain_def)
  qed
qed

interpretation hash_dict: dictionary "ht_plain eqk" eqk ht_lookup "ht_add pair_ok array_ok" ht_set "ht_del array_ok"
  for eqk :: "'k \<Rightarrow> 'k \<Rightarrow> bool" and pair_ok :: bool and array_ok :: bool
  by unfold_locales (rule ht_add_law ht_set_law ht_del_law, assumption+)+

subsection \<open>Properties\<close>

text \<open>
  The hash table is a dictionary (C13): any sequence of stores and removals on a well-formed
  table runs, with the rehashes it causes, keeps the table well formed, and every lookup then
  sees what a function updated by the same calls would hold.
\<close>

theorem HashTable_refines_map:
  assumes "ht_plain eqk t"
  shows "\<exists>oks t'. dict_run ht_lookup (ht_add pair_ok array_ok) ht_set (ht_del array_ok) ops t = Some (oks, t') \<and> ht_plain eqk t' \<and>
    length oks = length ops \<and> ht_lookup t' = dict_spec eqk (zip ops oks) (ht_lookup t)"
  using assms by (rule hash_dict.dict_refines)

definition demo_table :: "(u64, u64) wHashTable" where
  "demo_table = the (HashTable_New True True False)"

definition demo_table1 :: "(u64, u64) wHashTable" where
  "demo_table1 = (HashTable_put demo_table 32
     ((32, 7) # ht_bucketArray demo_table ! bucket_index (ht_hash demo_table) (ht_numOfBuckets demo_table) 32))
     \<lparr>ht_numOfElements := ht_numOfElements demo_table + 1\<rparr>"

lemma demo_table_fields:
  "ht_numOfBuckets demo_table = 64" "ht_numOfElements demo_table = 0" "ht_idealRatio demo_table = 3"
  "ht_bucketArray demo_table = replicate 64 []" "ht_keyCompare demo_table = (\<lambda>a b. a = b)"
  "ht_keyClone demo_table = None" "ht_valueClone demo_table = None"
  by (simp_all add: demo_table_def HashTable_New_def HashTable_PointerCompare_def fun_eq_iff)

lemma demo_table_wf: "ht_plain (\<lambda>a b. a = b) demo_table" "ht_lookup demo_table = (\<lambda>_. None)"
proof -
  have "concat (replicate n ([] :: (u64 \<times> u64) list)) = []" for n by (induction n) auto
  then show "ht_plain (\<lambda>a b. a = b) demo_table"
    by (simp add: ht_plain_def ht_wf_def demo_table_fields placed_def unique_keys_def pairs_def)
  show "ht_lookup demo_table = (\<lambda>_. None)"
    by (rule ext) (simp add: ht_lookup_def demo_table_fields bucket_index_less)
qed

theorem HashTable_refines_map_witness:
  "\<exists>oks t'. dict_run ht_lookup (ht_add True True) ht_set (ht_del True) [Store 16 5, Store 1040 6, Delete 16] demo_table = Some (oks, t') \<and>
    ht_plain (\<lambda>a b. a = b) t' \<and> length oks = length [Store 16 5, Store 1040 6, Delete 16 :: (u64, u64) dict_op] \<and>
    ht_lookup t' = dict_spec (\<lambda>a b. a = b) (zip [Store 16 5, Store 1040 6, Delete 16] oks) (ht_lookup demo_table)"
  by (rule HashTable_refines_map) (rule demo_table_wf)

text \<open>
  Rehashing (C37): \<open>HashTable_Rehash\<close>, which searches for a probable prime number of buckets,
  always returns, keeps the table well formed and changes no pair and no lookup.
\<close>

theorem HashTable_Rehash_transparent:
  assumes "ht_wf eqk t"
  shows "\<exists>t'. HashTable_Rehash array_ok t n = Some t' \<and> ht_wf eqk t' \<and> pairs t' = pairs t \<and> ht_lookup t' = ht_lookup t"
  using assms by (rule HashTable_Rehash_keeps)

theorem HashTable_Rehash_transparent_witness:
  "\<exists>t'. HashTable_Rehash True demo_table 0 = Some t' \<and> ht_wf (\<lambda>a b. a = b) t' \<and> pairs t' = pairs demo_table \<and>
    ht_lookup t' = ht_lookup demo_table"
  using demo_table_wf(1) by (intro HashTable_Rehash_transparent) (simp add: ht_plain_def)

lemma HashTable_Get_lookup:
  assumes "ht_wf eqk t"
  shows "HashTable_GetItemValue t k = Some (ht_lookup t k)" "HashTable_Contains t k = Some (ht_lookup t k \<noteq> None)"
  by (cases rule: ht_search_cases [OF assms, of k]; simp add: HashTable_GetItemValue_def HashTable_Contains_def HashTable_Get_def)+

lemma HashTable_Add_replace:
  assumes plain: "ht_plain eqk t" and some: "ht_lookup t k \<noteq> None"
  shows "\<exists>fr t'. HashTable_Add pair_ok array_ok t (Some k) (Some v) = Some (0, fr, t') \<and> ht_wf eqk t' \<and>
    ht_lookup t' k = Some v \<and> ht_numOfElements t' = ht_numOfElements t"
proof -
  have wf: "ht_wf eqk t" and cl: "ht_keyClone t = None" "ht_valueClone t = None" using plain by (simp_all add: ht_plain_def)
  have kk: "eqk k k" using wf by (simp add: ht_wf_def key_equiv_def)
  obtain pre p post where f: "HashTable_search t k = Some (Some (pre, p, post))"
    using some by (cases rule: ht_search_cases [OF wf, of k]) auto
  note m = HashTable_match [OF wf f] and c = HashTable_match_change [OF wf f]
  have "ht_lookup (HashTable_put t k (pre @ (k, v) # post)) k = Some v"
    using ht_lookup_put_in [OF wf c(3) [OF kk] c(4) [OF kk] kk, of v] c(2) m(2) kk by auto
  moreover have "\<exists>fr. HashTable_Add pair_ok array_ok t (Some k) (Some v) = Some (0, fr, HashTable_put t k (pre @ (k, v) # post))"
    unfolding HashTable_Add_def clone_of_def cl using f HashTable_chain_Some [OF wf, of k] by (simp add: HashTable_replace_def)
  moreover have "ht_numOfElements (HashTable_put t k (pre @ (k, v) # post)) = ht_numOfElements t" by (simp add: HashTable_put_def)
  ultimately show ?thesis using c(3) [OF kk] by blast
qed

text \<open>
  Reading a value back: after a successful \<open>HashTable_Add\<close>, of a new key or of one that is
  already there, \<open>HashTable_GetItemValue\<close> returns the value and \<open>HashTable_Contains\<close> holds.
\<close>

theorem HashTable_add_get:
  assumes "ht_plain eqk t"
  shows "\<exists>fr t'. HashTable_Add True array_ok t (Some k) (Some v) = Some (0, fr, t') \<and> ht_wf eqk t' \<and>
    HashTable_GetItemValue t' k = Some (Some v) \<and> HashTable_Contains t' k = Some True"
proof (cases "ht_lookup t k")
  case None
  have kk: "eqk k k" using assms by (simp add: ht_plain_def ht_wf_def key_equiv_def)
  obtain t' where 1: "ht_add True array_ok k v t = Some (True, t')" "ht_plain eqk t'"
    "ht_lookup t' = (\<lambda>x. if True \<and> eqk x k then Some v else ht_lookup t x)"
    using ht_add_result [OF assms None, of True] by blast
  then obtain fr where "HashTable_Add True array_ok t (Some k) (Some v) = Some (0, fr, t')" "ht_wf eqk t'"
    "ht_lookup t' k = Some v" using kk by (auto simp: ht_add_def ht_plain_def)
  then show ?thesis using HashTable_Get_lookup [of eqk t'] by auto
next
  case (Some w)
  then have "ht_lookup t k \<noteq> None" by simp
  from HashTable_Add_replace [OF assms this, of True array_ok v] show ?thesis using HashTable_Get_lookup [of eqk] by fastforce
qed

theorem HashTable_add_get_witness:
  "\<exists>fr t'. HashTable_Add True False demo_table (Some 32) (Some 7) = Some (0, fr, t') \<and> ht_wf (\<lambda>a b. a = b) t' \<and>
    HashTable_GetItemValue t' 32 = Some (Some 7) \<and> HashTable_Contains t' 32 = Some True"
  by (rule HashTable_add_get) (rule demo_table_wf)

text \<open>
  The keys of a table: the array that \<open>HashTable_GetKeys\<close> allocates for the number of
  elements is filled exactly, with the keys of all pairs.
\<close>

theorem HashTable_GetKeys_exact:
  assumes "ht_wf eqk t" "pairs t \<noteq> {#}"
  shows "\<exists>keys. HashTable_GetKeys True t = Some (int (HashTable_Count t), keys) \<and> length keys = HashTable_Count t \<and>
    mset keys = image_mset fst (pairs t)"
proof -
  have n: "ht_numOfElements t = length (concat (ht_bucketArray t))" using assms(1) by (simp add: ht_wf_def pairs_def flip: size_mset)
  have "concat (ht_bucketArray t) \<noteq> []" using assms(2) by (auto simp: pairs_def)
  then have "0 < length (concat (ht_bucketArray t))" by (rule length_greater_0_conv [THEN iffD2])
  then show ?thesis unfolding HashTable_GetKeys_def HashTable_Count_def Let_def n by (simp add: pairs_def mset_map)
qed

theorem HashTable_GetKeys_exact_witness:
  "\<exists>keys. HashTable_GetKeys True demo_table1 = Some (int (HashTable_Count demo_table1), keys) \<and>
    length keys = HashTable_Count demo_table1 \<and> mset keys = image_mset fst (pairs demo_table1)"
  using HashTable_new_pair [of "\<lambda>a b. a = b" demo_table 32 7] demo_table_wf
  by (intro HashTable_GetKeys_exact [of "\<lambda>a b. a = b"]) (simp_all add: ht_plain_def demo_table1_def)

end
