(* ===== verification/RingBuffer.thy ===== *)
theory RingBuffer
  imports Ring
begin

text \<open>
  The byte ring buffer of \<open>libfreerdp/utils/ringbuffer.c\<close>: a circular block of bytes that
  grows when a write does not fit and goes back to its first size when little of it is
  used. Sizes are \<open>size_t\<close> values, natural numbers below \<open>2 ^ 64\<close> whose sums and
  differences wrap. A destroyed buffer has \<open>NULL\<close> for its block, here the empty block.
\<close>

record RingBuffer =
  rb_initialSize :: nat
  rb_freeSize :: nat
  rb_size :: nat
  rb_readPtr :: nat
  rb_writePtr :: nat
  rb_buffer :: "byte list"

text \<open>A chunk is a range of the buffer; \<open>dc_data\<close> is its offset from the buffer's first byte.\<close>

record DataChunk =
  dc_size :: nat
  dc_data :: nat

subsection \<open>Operations\<close>

text \<open>\<open>realloc\<close> of a block to any size: the common prefix is kept.\<close>

definition realloc_mem :: "'a blocks \<Rightarrow> 'a list \<Rightarrow> nat \<Rightarrow> 'a list option" where
  "realloc_mem al buf n = map_option (\<lambda>xs. take n buf @ xs) (al (n - length buf))"

definition ringbuffer_init :: "byte blocks \<Rightarrow> RingBuffer \<Rightarrow> nat \<Rightarrow> bool \<times> RingBuffer" where
  "ringbuffer_init al rb initialSize =
     (case al initialSize of
        None \<Rightarrow> (False, rb\<lparr>rb_buffer := []\<rparr>)
      | Some xs \<Rightarrow> (True, rb\<lparr>rb_buffer := xs, rb_readPtr := 0, rb_writePtr := 0,
          rb_initialSize := initialSize, rb_size := initialSize, rb_freeSize := initialSize\<rparr>))"

definition ringbuffer_used :: "RingBuffer \<Rightarrow> nat" where
  "ringbuffer_used rb = size_sub (rb_size rb) (rb_freeSize rb)"

definition ringbuffer_capacity :: "RingBuffer \<Rightarrow> nat" where
  "ringbuffer_capacity rb = rb_size rb"

definition ringbuffer_destroy :: "RingBuffer \<Rightarrow> RingBuffer" where
  "ringbuffer_destroy rb = rb\<lparr>rb_buffer := []\<rparr>"

text \<open>The copy into a new block, linear or wrapped.\<close>

definition ringbuffer_copy :: "RingBuffer \<Rightarrow> byte list \<Rightarrow> byte list option" where
  "ringbuffer_copy rb newData =
     (if rb_readPtr rb < rb_writePtr rb then do {
        xs \<leftarrow> mem_read (rb_buffer rb) (rb_readPtr rb) (ringbuffer_used rb);
        mem_write newData 0 xs }
      else do {
        let n = size_sub (rb_size rb) (rb_readPtr rb);
        xs \<leftarrow> mem_read (rb_buffer rb) (rb_readPtr rb) n;
        newData \<leftarrow> mem_write newData 0 xs;
        (if rb_writePtr rb \<noteq> 0 then do {
           ys \<leftarrow> mem_read (rb_buffer rb) 0 (rb_writePtr rb);
           mem_write newData n ys }
         else Some newData) })"

definition ringbuffer_realloc :: "byte blocks \<Rightarrow> RingBuffer \<Rightarrow> nat \<Rightarrow> (bool \<times> RingBuffer) option" where
  "ringbuffer_realloc al rb targetSize = do {
     r \<leftarrow> (if rb_writePtr rb = rb_readPtr rb then
             Some (map_option (\<lambda>newData. rb\<lparr>rb_readPtr := 0, rb_writePtr := 0, rb_buffer := newData\<rparr>)
               (realloc_mem al (rb_buffer rb) targetSize))
           else if rb_writePtr rb \<ge> rb_readPtr rb \<and> rb_writePtr rb < targetSize then
             Some (map_option (\<lambda>newData. rb\<lparr>rb_buffer := newData\<rparr>) (realloc_mem al (rb_buffer rb) targetSize))
           else (case al targetSize of
               None \<Rightarrow> Some None
             | Some newData \<Rightarrow> do {
                 newData \<leftarrow> ringbuffer_copy rb newData;
                 Some (Some (rb\<lparr>rb_writePtr := size_sub (rb_size rb) (rb_freeSize rb), rb_readPtr := 0, rb_buffer := newData\<rparr>)) }));
     (case r of
        None \<Rightarrow> Some (False, rb)
      | Some rb \<Rightarrow> Some (True, rb\<lparr>rb_freeSize := size_add (rb_freeSize rb) (size_sub targetSize (rb_size rb)),
          rb_size := targetSize\<rparr>)) }"

text \<open>The two copies of \<open>ringbuffer_write\<close> and the move of the write head.\<close>

definition ringbuffer_store :: "RingBuffer \<Rightarrow> byte list \<Rightarrow> nat \<Rightarrow> RingBuffer option" where
  "ringbuffer_store rb ptr sz = do {
     let toWrite = (if size_sub (rb_size rb) (rb_writePtr rb) < sz then size_sub (rb_size rb) (rb_writePtr rb) else sz);
     let remaining = size_sub sz toWrite;
     buf \<leftarrow> (if toWrite \<noteq> 0 then do {
               xs \<leftarrow> mem_read ptr 0 toWrite;
               mem_write (rb_buffer rb) (rb_writePtr rb) xs }
             else Some (rb_buffer rb));
     buf \<leftarrow> (if remaining \<noteq> 0 then do {
               xs \<leftarrow> mem_read ptr toWrite remaining;
               mem_write buf 0 xs }
             else Some buf);
     (if rb_size rb = 0 then None
      else Some (rb\<lparr>rb_buffer := buf, rb_writePtr := size_add (rb_writePtr rb) sz mod rb_size rb,
        rb_freeSize := size_sub (rb_freeSize rb) sz\<rparr>)) }"

definition ringbuffer_write :: "byte blocks \<Rightarrow> RingBuffer \<Rightarrow> byte list \<Rightarrow> nat \<Rightarrow> (bool \<times> RingBuffer) option" where
  "ringbuffer_write al rb ptr sz = do {
     (ok, rb) \<leftarrow> (if rb_freeSize rb \<le> sz then ringbuffer_realloc al rb (size_add (rb_size rb) sz) else Some (True, rb));
     (if \<not> ok then Some (False, rb)
      else do {
        rb \<leftarrow> ringbuffer_store rb ptr sz;
        Some (True, rb) }) }"

text \<open>The result is the offset of the returned pointer in the buffer, \<^const>\<open>None\<close> for \<open>NULL\<close>.\<close>

definition ringbuffer_ensure_linear_write :: "byte blocks \<Rightarrow> RingBuffer \<Rightarrow> nat \<Rightarrow> (nat option \<times> RingBuffer) option" where
  "ringbuffer_ensure_linear_write al rb sz = do {
     (ok, rb) \<leftarrow> (if rb_freeSize rb < sz
        then ringbuffer_realloc al rb (size_add (size_sub (size_add (rb_size rb) sz) (rb_freeSize rb)) 32)
        else Some (True, rb));
     (if \<not> ok then Some (None, rb)
      else do {
        let rb = (if rb_writePtr rb = rb_readPtr rb then rb\<lparr>rb_writePtr := 0, rb_readPtr := 0\<rparr> else rb);
        (if size_add (rb_writePtr rb) sz < rb_size rb then Some (Some (rb_writePtr rb), rb)
         else do {
           xs \<leftarrow> mem_read (rb_buffer rb) (rb_readPtr rb) (size_sub (rb_writePtr rb) (rb_readPtr rb));
           buf \<leftarrow> mem_write (rb_buffer rb) 0 xs;
           let wp = size_sub (rb_size rb) (rb_freeSize rb);
           Some (Some wp, rb\<lparr>rb_buffer := buf, rb_readPtr := 0, rb_writePtr := wp\<rparr>) }) }) }"

definition ringbuffer_commit_written_bytes :: "RingBuffer \<Rightarrow> nat \<Rightarrow> (bool \<times> RingBuffer) option" where
  "ringbuffer_commit_written_bytes rb sz =
     (if sz < 1 then Some (True, rb)
      else if size_add (rb_writePtr rb) sz > rb_size rb then Some (False, rb)
      else if rb_size rb = 0 then None
      else Some (True, rb\<lparr>rb_writePtr := size_add (rb_writePtr rb) sz mod rb_size rb,
        rb_freeSize := size_sub (rb_freeSize rb) sz\<rparr>))"

text \<open>The chunks that are filled in, in order; the result of the function is their number.\<close>

definition ringbuffer_peek :: "RingBuffer \<Rightarrow> nat \<Rightarrow> DataChunk list" where
  "ringbuffer_peek rb sz =
     (if sz < 1 then []
      else
        let remaining = (if size_sub (rb_size rb) (rb_freeSize rb) < sz then size_sub (rb_size rb) (rb_freeSize rb) else sz);
            toRead = (if size_add (rb_readPtr rb) remaining > rb_size rb
              then size_sub (rb_size rb) (rb_readPtr rb) else remaining);
            first = (if toRead \<noteq> 0 then [\<lparr>dc_size = toRead, dc_data = rb_readPtr rb\<rparr>] else []);
            remaining = (if toRead \<noteq> 0 then size_sub remaining toRead else remaining)
        in first @ (if remaining \<noteq> 0 then [\<lparr>dc_size = remaining, dc_data = 0\<rparr>] else []))"

text \<open>A failed assertion is \<^const>\<open>None\<close>.\<close>

definition ringbuffer_commit_read_bytes :: "byte blocks \<Rightarrow> RingBuffer \<Rightarrow> nat \<Rightarrow> RingBuffer option" where
  "ringbuffer_commit_read_bytes al rb sz =
     (if sz < 1 then Some rb
      else if \<not> size_sub (rb_size rb) (rb_freeSize rb) \<ge> sz \<or> rb_size rb = 0 then None
      else
        let rb = rb\<lparr>rb_readPtr := size_add (rb_readPtr rb) sz mod rb_size rb, rb_freeSize := size_add (rb_freeSize rb) sz\<rparr>
        in if rb_size rb \<noteq> rb_initialSize rb \<and> ringbuffer_used rb < rb_initialSize rb div 2
           then map_option snd (ringbuffer_realloc al rb (rb_initialSize rb))
           else Some rb)"

subsection \<open>Invariant and contents\<close>

text \<open>
  A buffer whose heads agree is empty: the invariant keeps one byte free, as
  \<open>ringbuffer_write\<close> does by growing when the data would fill the block. No block has
  \<open>2 ^ 63\<close> bytes or more.
\<close>

definition rb_wf :: "RingBuffer \<Rightarrow> bool" where
  "rb_wf rb \<longleftrightarrow> length (rb_buffer rb) = rb_size rb \<and> rb_size rb < 2 ^ 63 \<and> 0 < rb_initialSize rb \<and>
     rb_initialSize rb \<le> rb_size rb \<and> 0 < rb_freeSize rb \<and> rb_freeSize rb \<le> rb_size rb \<and> rb_readPtr rb < rb_size rb \<and>
     rb_writePtr rb = (rb_readPtr rb + (rb_size rb - rb_freeSize rb)) mod rb_size rb"

definition rb_contents :: "RingBuffer \<Rightarrow> byte list" where
  "rb_contents rb = ring_view (rb_buffer rb) (rb_readPtr rb) (rb_size rb - rb_freeSize rb)"

definition rb_room :: "nat \<Rightarrow> RingBuffer \<Rightarrow> bool" where
  "rb_room n rb \<longleftrightarrow> rb_size rb + n < 2 ^ 63"

lemma ringbuffer_used_wf: "rb_wf rb \<Longrightarrow> ringbuffer_used rb = rb_size rb - rb_freeSize rb"
  by (simp add: ringbuffer_used_def rb_wf_def)

lemma length_rb_contents: "rb_wf rb \<Longrightarrow> length (rb_contents rb) = ringbuffer_used rb"
  by (simp add: rb_contents_def ringbuffer_used_wf)

text \<open>The three positions of the heads.\<close>

lemma rb_heads:
  assumes "rb_wf rb"
  obtains "ringbuffer_used rb = 0" "rb_writePtr rb = rb_readPtr rb"
  | "rb_readPtr rb < rb_writePtr rb" "ringbuffer_used rb = rb_writePtr rb - rb_readPtr rb"
  | "rb_writePtr rb < rb_readPtr rb" "ringbuffer_used rb = rb_size rb - rb_readPtr rb + rb_writePtr rb"
proof -
  let ?s = "rb_size rb" and ?r = "rb_readPtr rb" and ?u = "rb_size rb - rb_freeSize rb"
  have wf: "?r < ?s" "?u < ?s" "rb_writePtr rb = (?r + ?u) mod ?s" using assms unfolding rb_wf_def by auto
  show thesis
  proof (cases "?r + ?u < ?s")
    case True
    then show thesis using that(1,2) wf ringbuffer_used_wf [OF assms] by (cases "?u = 0") auto
  next
    case False
    then have "rb_writePtr rb = ?r + ?u - ?s" using wf by (simp add: mod_if)
    then have "rb_writePtr rb < ?r" "?u = ?s - ?r + rb_writePtr rb" using False wf(1,2) by linarith+
    then show thesis using that(3) ringbuffer_used_wf [OF assms] by metis
  qed
qed

lemma rb_writePtr_less: "rb_wf rb \<Longrightarrow> rb_writePtr rb < rb_size rb"
  by (simp add: rb_wf_def)

lemma realloc_mem_prefix:
  assumes "fresh_ok al" "realloc_mem al buf n = Some b"
  shows "length b = n" "h + u \<le> n \<Longrightarrow> h + u \<le> length buf \<Longrightarrow> take u (drop h b) = take u (drop h buf)"
  using assms by (auto simp: realloc_mem_def fresh_ok_def take_drop min_def)

lemma ringbuffer_copy_contents:
  assumes wf: "rb_wf rb" and used: "0 < ringbuffer_used rb" "ringbuffer_used rb \<le> length new"
  shows "\<exists>new'. ringbuffer_copy rb new = Some new' \<and> length new' = length new \<and> take (ringbuffer_used rb) new' = rb_contents rb"
proof -
  let ?b = "rb_buffer rb" and ?r = "rb_readPtr rb" and ?w = "rb_writePtr rb" and ?u = "ringbuffer_used rb"
  have len: "length ?b = rb_size rb" "?r < rb_size rb" "?w < rb_size rb" "rb_size rb < 2 ^ 63"
    "?u \<le> rb_size rb"
    using wf rb_writePtr_less [OF wf] unfolding rb_wf_def by (auto simp: ringbuffer_used_wf [OF wf])
  from wf show ?thesis
  proof (cases rule: rb_heads)
    case 2
    then have "mem_read ?b ?r ?u = Some (rb_contents rb)" using len
      by (simp add: mem_read_def rb_contents_def ring_view_linear flip: ringbuffer_used_wf [OF wf])
    then show ?thesis using 2 used length_rb_contents [OF wf] by (simp add: ringbuffer_copy_def mem_write_def)
  next
    case 3
    let ?n = "rb_size rb - ?r"
    have c: "rb_contents rb = drop ?r ?b @ take ?w ?b"
      using ring_view_wrapped [of ?r ?b ?u] 3 len by (simp add: rb_contents_def flip: ringbuffer_used_wf [OF wf])
    have r: "mem_read ?b ?r ?n = Some (drop ?r ?b)" "mem_read ?b 0 ?w = Some (take ?w ?b)" "size_sub (rb_size rb) ?r = ?n"
      using len by (simp_all add: mem_read_def)
    have "?n + ?w \<le> length new" using 3 used by simp
    then show ?thesis using r 3 len c by (auto simp: ringbuffer_copy_def mem_write_def Let_def)
  qed (use used in simp)
qed

lemma ringbuffer_realloc_cases:
  assumes wf: "rb_wf rb" and al: "fresh_ok al"
    and target: "ringbuffer_used rb < target" "rb_initialSize rb \<le> target" "target < 2 ^ 63"
  shows "\<exists>ok rb'. ringbuffer_realloc al rb target = Some (ok, rb') \<and> rb_wf rb' \<and> rb_contents rb' = rb_contents rb \<and>
    rb_initialSize rb' = rb_initialSize rb \<and>
    (if ok then rb_size rb' = target \<and> rb_freeSize rb' = target - ringbuffer_used rb else rb' = rb)"
proof -
  let ?b = "rb_buffer rb" and ?r = "rb_readPtr rb" and ?w = "rb_writePtr rb" and ?u = "ringbuffer_used rb"
  have u: "?u = rb_size rb - rb_freeSize rb" by (rule ringbuffer_used_wf [OF wf])
  have w: "length ?b = rb_size rb" "rb_freeSize rb \<le> rb_size rb" "rb_size rb < 2 ^ 63" "0 < rb_initialSize rb" "?w < rb_size rb"
    "?r < rb_size rb"
    using wf rb_writePtr_less [OF wf] unfolding rb_wf_def by auto
  have free: "size_add (rb_freeSize rb) (size_sub target (rb_size rb)) = target - ?u"
    using w(2,3) target unfolding u by (subst size_add_sub) auto
  define dn where "dn r w b = rb\<lparr>rb_readPtr := r, rb_writePtr := w, rb_buffer := b,
    rb_freeSize := target - ?u, rb_size := target\<rparr>" for r w b
  have good: "rb_wf (dn r w b) \<and> rb_contents (dn r w b) = rb_contents rb \<and>
      rb_initialSize (dn r w b) = rb_initialSize rb \<and> rb_size (dn r w b) = target \<and> rb_freeSize (dn r w b) = target - ?u"
    if "length b = target" "r + ?u < target" "w = r + ?u" "take ?u (drop r b) = rb_contents rb" for r w b
    using that target w(4) ring_view_linear [of r ?u b] by (simp add: dn_def rb_wf_def rb_contents_def)
  have fail: "ringbuffer_realloc al rb target = Some (False, rb) \<Longrightarrow> ?thesis" using wf by auto
  have ok: ?thesis if "ringbuffer_realloc al rb target = Some (True, dn r w b)"
    "length b = target" "r + ?u < target" "w = r + ?u" "take ?u (drop r b) = rb_contents rb" for r w b
    using that(1) good [OF that(2-)] by auto
  have moved: ?thesis if h: "?w \<noteq> ?r" "\<not> (?w \<ge> ?r \<and> ?w < target)" "0 < ?u"
  proof (cases "al target")
    case None
    then show ?thesis using h by (intro fail) (auto simp: ringbuffer_realloc_def)
  next
    case (Some new)
    then have "length new = target" using al by (simp add: fresh_ok_def)
    with ringbuffer_copy_contents [OF wf h(3), of new] target(1) obtain b where
      b: "ringbuffer_copy rb new = Some b" "length b = target" "take ?u b = rb_contents rb" by auto
    have "ringbuffer_realloc al rb target = Some (True, dn 0 ?u b)"
      using h Some b(1) free by (auto simp: ringbuffer_realloc_def dn_def ringbuffer_used_def)
    then show ?thesis using b target by (intro ok [where r = 0 and w = ?u and b = b]) auto
  qed
  from wf show ?thesis
  proof (cases rule: rb_heads)
    case 1
    show ?thesis
    proof (cases "realloc_mem al ?b target")
      case None
      then show ?thesis using 1 by (intro fail) (simp add: ringbuffer_realloc_def)
    next
      case (Some b)
      have "ringbuffer_realloc al rb target = Some (True, dn 0 0 b)"
        using 1 Some free by (simp add: ringbuffer_realloc_def dn_def)
      then show ?thesis using 1 target realloc_mem_prefix(1) [OF al Some] length_rb_contents [OF wf] by (intro ok [where r = 0 and w = 0 and b = b]) auto
    qed
  next
    case 2
    have lin: "rb_contents rb = take ?u (drop ?r ?b)"
      using ring_view_linear [of ?r ?u ?b] 2 w u by (simp add: rb_contents_def)
    show ?thesis
    proof (cases "?w < target")
      case True
      show ?thesis
      proof (cases "realloc_mem al ?b target")
        case None
        then show ?thesis using 2 True by (intro fail) (simp add: ringbuffer_realloc_def)
      next
        case (Some b)
        have "ringbuffer_realloc al rb target = Some (True, dn ?r ?w b)"
          using 2 True Some free by (simp add: ringbuffer_realloc_def dn_def)
        then show ?thesis using 2 True w lin realloc_mem_prefix(1) [OF al Some] realloc_mem_prefix(2) [OF al Some, of ?r ?u] by (intro ok [where r = ?r and w = ?w and b = b]) auto
      qed
    next
      case False
      then show ?thesis using 2 by (intro moved) auto
    qed
  next
    case 3
    then show ?thesis using w(6) by (intro moved) auto
  qed
qed


lemma ringbuffer_store_contents:
  assumes wf: "rb_wf rb" and sz: "length ptr < rb_freeSize rb"
  shows "\<exists>rb'. ringbuffer_store rb ptr (length ptr) = Some rb' \<and> rb_wf rb' \<and> rb_contents rb' = rb_contents rb @ ptr \<and>
    rb_size rb' = rb_size rb \<and> rb_initialSize rb' = rb_initialSize rb"
proof -
  let ?b = "rb_buffer rb" and ?r = "rb_readPtr rb" and ?w = "rb_writePtr rb" and ?s = "rb_size rb" and ?n = "length ptr"
    and ?u = "rb_size rb - rb_freeSize rb"
  have w: "length ?b = ?s" "rb_freeSize rb \<le> ?s" "?s < 2 ^ 63" "?w < ?s" "?w = (?r + ?u) mod ?s"
    using wf rb_writePtr_less [OF wf] unfolding rb_wf_def by auto
  define k where "k = min ?n (?s - ?w)"
  have k: "k \<le> ?n" "?w + k \<le> ?s" using w(4) by (auto simp: k_def)
  obtain b1 where b1: "mem_write ?b ?w (take k ptr) = Some b1" using k w by (simp add: mem_write_def)
  have lb: "length b1 = ?s" using length_mem_write [OF b1] w by simp
  have "?n - k \<le> ?s" using sz w(2) by linarith
  then obtain b2 where b2: "mem_write b1 0 (drop k ptr) = Some b2" using lb by (simp add: mem_write_def)
  have lb2: "length b2 = ?s" using length_mem_write [OF b2] lb by simp
  have e: "mem_write xs p [] = Some xs" if "p \<le> length xs" for xs :: "byte list" and p using that by (simp add: mem_write_def)
  let ?rb = "rb\<lparr>rb_buffer := b2, rb_writePtr := (?w + ?n) mod ?s, rb_freeSize := rb_freeSize rb - ?n\<rparr>"
  have "ringbuffer_store rb ptr ?n = Some ?rb"
  proof -
    have tw: "(if size_sub ?s ?w < ?n then size_sub ?s ?w else ?n) = k" using w(3,4) by (simp add: k_def)
    have rest: "size_sub ?n k = ?n - k" "size_sub (rb_freeSize rb) ?n = rb_freeSize rb - ?n" "size_add ?w ?n = ?w + ?n"
      using k sz w(2-4) by auto
    have rd: "mem_read ptr 0 k = Some (take k ptr)" "mem_read ptr k (?n - k) = Some (drop k ptr)"
      using k by (simp_all add: mem_read_def)
    have first: "(if k \<noteq> 0 then mem_write ?b ?w (take k ptr) else Some ?b) = Some b1" using b1 e [of ?w ?b] w(1,4) by (cases "k = 0") auto
    have second: "(if ?n - k \<noteq> 0 then mem_write b1 0 (drop k ptr) else Some b1) = Some b2" using b2 e [of 0 b1] by auto
    show ?thesis using w(4) unfolding ringbuffer_store_def Let_def tw rest rd Option.bind_lunit first second by simp
  qed
  moreover have "rb_wf ?rb" using wf sz lb2 unfolding rb_wf_def by (auto simp: mod_simps add.assoc)
  moreover have "rb_contents ?rb = rb_contents rb @ ptr"
    using ring_view_write [of ?u ptr ?b k ?r b1 b2] w sz b1 b2 by (simp add: rb_contents_def k_def)
  ultimately show ?thesis by auto
qed


subsection \<open>The buffer is a pipe of bytes\<close>

lemma ringbuffer_write_cases:
  assumes wf: "rb_wf rb" and al: "fresh_ok al" and room: "rb_room (length ptr) rb"
  shows "\<exists>ok rb'. ringbuffer_write al rb ptr (length ptr) = Some (ok, rb') \<and> rb_wf rb' \<and>
    rb_size rb' \<le> rb_size rb + length ptr \<and>
    rb_contents rb' = rb_contents rb @ (if ok then ptr else []) \<and> (length ptr < rb_freeSize rb \<longrightarrow> ok)"
proof (cases "length ptr < rb_freeSize rb")
  case True
  from ringbuffer_store_contents [OF wf True] obtain rb' where "ringbuffer_store rb ptr (length ptr) = Some rb'" "rb_wf rb'"
    "rb_contents rb' = rb_contents rb @ ptr" "rb_size rb' = rb_size rb" by blast
  with True room show ?thesis by (intro exI [of _ True] exI [of _ rb']) (simp add: ringbuffer_write_def rb_room_def)
next
  case False
  let ?t = "rb_size rb + length ptr"
  have t: "size_add (rb_size rb) (length ptr) = ?t" "?t < 2 ^ 63" using room by (simp_all add: rb_room_def)
  have "ringbuffer_used rb < ?t" "rb_initialSize rb \<le> ?t"
    using wf ringbuffer_used_wf [OF wf] unfolding rb_wf_def by linarith+
  from ringbuffer_realloc_cases [OF wf al this t(2)] obtain ok rb1 where r: "ringbuffer_realloc al rb ?t = Some (ok, rb1)"
    "rb_wf rb1" "rb_contents rb1 = rb_contents rb"
    "if ok then rb_size rb1 = ?t \<and> rb_freeSize rb1 = ?t - ringbuffer_used rb else rb1 = rb" by blast
  show ?thesis
  proof (cases ok)
    case True
    with r(4) wf have "length ptr < rb_freeSize rb1" by (auto simp: rb_wf_def ringbuffer_used_wf [OF wf])
    from ringbuffer_store_contents [OF r(2) this] obtain rb' where "ringbuffer_store rb1 ptr (length ptr) = Some rb'" "rb_wf rb'"
      "rb_contents rb' = rb_contents rb1 @ ptr" "rb_size rb' = rb_size rb1" by blast
    with False True r t room show ?thesis by (intro exI [of _ True] exI [of _ rb']) (simp add: ringbuffer_write_def rb_room_def)
  qed (use False r t wf room in \<open>auto simp: ringbuffer_write_def rb_room_def\<close>)
qed

text \<open>What a chunk covers.\<close>

definition chunk_bytes :: "RingBuffer \<Rightarrow> DataChunk \<Rightarrow> byte list option" where
  "chunk_bytes rb c = mem_read (rb_buffer rb) (dc_data c) (dc_size c)"

lemma ringbuffer_peek_cases:
  assumes wf: "rb_wf rb" and sz: "sz < 2 ^ 64"
  shows "\<exists>xss. map (chunk_bytes rb) (ringbuffer_peek rb sz) = map Some xss \<and> concat xss = take sz (rb_contents rb) \<and>
    length xss \<le> 2 \<and> [] \<notin> set xss"
proof -
  let ?b = "rb_buffer rb" and ?r = "rb_readPtr rb" and ?u = "ringbuffer_used rb" and ?m = "min sz (ringbuffer_used rb)"
    and ?s = "rb_size rb"
  have w: "length ?b = ?s" "?r < ?s" "?u < ?s" "?s < 2 ^ 63" using wf ringbuffer_used_wf [OF wf] unfolding rb_wf_def by linarith+
  have c: "take sz (rb_contents rb) = ring_view ?b ?r ?m"
    by (simp add: rb_contents_def take_ring_view ringbuffer_used_wf [OF wf])
  have m: "(if size_sub ?s (rb_freeSize rb) < sz then size_sub ?s (rb_freeSize rb) else sz) = ?m"
    by (simp add: ringbuffer_used_def)
  have a: "size_add ?r ?m = ?r + ?m" "size_sub ?s ?r = ?s - ?r" using w by auto
  show ?thesis
  proof (cases "?r + ?m > ?s")
    case False
    have "ringbuffer_peek rb sz = (if ?m = 0 then [] else [\<lparr>dc_size = ?m, dc_data = ?r\<rparr>])"
      using False w unfolding ringbuffer_peek_def Let_def m a by auto
    then show ?thesis using c w False ring_view_linear [of ?r ?m ?b]
      by (intro exI [of _ "if ?m = 0 then [] else [ring_view ?b ?r ?m]"]) (auto simp: chunk_bytes_def mem_read_def)
  next
    case True
    let ?k = "?s - ?r"
    have k: "?k \<le> ?m" "?m < 2 ^ 63" "?m - ?k \<noteq> 0" "?k \<noteq> 0" "0 < sz" using True w by linarith+
    then have k': "size_sub ?m ?k = ?m - ?k" by (intro size_sub_le) auto
    have "ringbuffer_peek rb sz = [\<lparr>dc_size = ?k, dc_data = ?r\<rparr>, \<lparr>dc_size = ?m - ?k, dc_data = 0\<rparr>]"
      using True k(3-5) unfolding ringbuffer_peek_def Let_def m a by (simp add: k')
    then show ?thesis using c w True ring_view_wrapped [of ?r ?b ?m]
      by (intro exI [of _ "[drop ?r ?b, take (?m - ?k) ?b]"]) (auto simp: chunk_bytes_def mem_read_def)
  qed
qed

lemma ringbuffer_commit_read_cases:
  assumes wf: "rb_wf rb" and al: "fresh_ok al" and sz: "sz \<le> ringbuffer_used rb"
  shows "\<exists>rb'. ringbuffer_commit_read_bytes al rb sz = Some rb' \<and> rb_wf rb' \<and> rb_contents rb' = drop sz (rb_contents rb) \<and>
    (rb_size rb' = rb_size rb \<or> rb_size rb' = rb_initialSize rb)"
proof (cases "sz = 0")
  case True
  with wf show ?thesis by (simp add: ringbuffer_commit_read_bytes_def)
next
  case False
  let ?rb = "rb\<lparr>rb_readPtr := (rb_readPtr rb + sz) mod rb_size rb, rb_freeSize := rb_freeSize rb + sz\<rparr>"
  note u = ringbuffer_used_wf [OF wf]
  have w: "rb_size rb < 2 ^ 63" "rb_readPtr rb < rb_size rb" "sz < rb_size rb" "rb_freeSize rb + sz \<le> rb_size rb"
    "length (rb_buffer rb) = rb_size rb" "rb_initialSize rb \<le> rb_size rb"
    using wf sz unfolding rb_wf_def u by linarith+
  have e: "size_add (rb_readPtr rb) sz = rb_readPtr rb + sz" "size_add (rb_freeSize rb) sz = rb_freeSize rb + sz"
    using w by auto
  have "rb_readPtr rb + sz + (rb_size rb - (rb_freeSize rb + sz)) = rb_readPtr rb + (rb_size rb - rb_freeSize rb)"
    using w by simp
  then have "((rb_readPtr rb + sz) mod rb_size rb + (rb_size rb - (rb_freeSize rb + sz))) mod rb_size rb = rb_writePtr rb"
    using wf unfolding rb_wf_def by (simp only: mod_add_left_eq)
  then have wf': "rb_wf ?rb" using wf w unfolding rb_wf_def by auto
  have c: "rb_contents ?rb = drop sz (rb_contents rb)"
    using drop_ring_view [of sz "rb_size rb - rb_freeSize rb" "rb_buffer rb" "rb_readPtr rb"] sz w
    by (simp add: rb_contents_def u)
  have d: "ringbuffer_commit_read_bytes al rb sz =
    (if rb_size rb \<noteq> rb_initialSize rb \<and> ringbuffer_used ?rb < rb_initialSize rb div 2
     then map_option snd (ringbuffer_realloc al ?rb (rb_initialSize rb)) else Some ?rb)"
    using False sz w unfolding ringbuffer_commit_read_bytes_def Let_def e by (simp add: ringbuffer_used_def)
  show ?thesis
  proof (cases "rb_size rb \<noteq> rb_initialSize rb \<and> ringbuffer_used ?rb < rb_initialSize rb div 2")
    case True
    then have "ringbuffer_used ?rb < rb_initialSize rb" "rb_initialSize ?rb \<le> rb_initialSize rb" "rb_initialSize rb < 2 ^ 63"
      using w by auto
    from ringbuffer_realloc_cases [OF wf' al this] show ?thesis using True c d by (auto split: if_splits)
  qed (use wf' c d in auto)
qed


subsection \<open>Linear writes\<close>

text \<open>A buffer as \<open>ringbuffer_ensure_linear_write\<close> leaves it: the free bytes lie behind the write head.\<close>

definition rb_linear :: "RingBuffer \<Rightarrow> nat \<Rightarrow> bool" where
  "rb_linear rb sz \<longleftrightarrow> rb_wf rb \<and> rb_writePtr rb + sz \<le> rb_size rb \<and> sz \<le> rb_freeSize rb"

lemma ringbuffer_make_linear:
  assumes wf: "rb_wf rb" and sz: "sz \<le> rb_freeSize rb"
  shows "\<exists>rb'. ringbuffer_ensure_linear_write al rb sz = Some (Some (rb_writePtr rb'), rb') \<and> rb_linear rb' sz \<and>
    rb_contents rb' = rb_contents rb \<and> rb_freeSize rb' = rb_freeSize rb"
proof -
  let ?b = "rb_buffer rb" and ?r = "rb_readPtr rb" and ?w = "rb_writePtr rb" and ?u = "ringbuffer_used rb" and ?s = "rb_size rb"
  have w: "length ?b = ?s" "?r < ?s" "?w < ?s" "rb_freeSize rb \<le> ?s" "?s < 2 ^ 63" "?u = ?s - rb_freeSize rb" "0 < rb_freeSize rb"
    "rb_initialSize rb \<le> ?s" "0 < rb_initialSize rb"
    using wf rb_writePtr_less [OF wf] ringbuffer_used_wf [OF wf] unfolding rb_wf_def by auto
  have a: "size_add ?w sz = ?w + sz" "size_sub ?s (rb_freeSize rb) = ?u" using w sz by auto
  from wf show ?thesis
  proof (cases rule: rb_heads)
    case 1
    let ?rb = "rb\<lparr>rb_writePtr := 0, rb_readPtr := 0\<rparr>"
    have free: "rb_freeSize rb = ?s" using 1 w by simp
    then have rb: "rb_linear ?rb sz" "rb_contents ?rb = rb_contents rb"
      using w sz by (simp_all add: rb_linear_def rb_wf_def rb_contents_def)
    have "ringbuffer_ensure_linear_write al rb sz = Some (Some 0, ?rb)"
      using 1 sz w free by (auto simp: ringbuffer_ensure_linear_write_def mem_read_def mem_write_def size_sub_def Let_def)
    with rb show ?thesis by auto
  next
    case 2
    have c: "rb_contents rb = take ?u (drop ?r ?b)" using ring_view_linear [of ?r ?u ?b] 2 w by (simp add: rb_contents_def)
    show ?thesis
    proof (cases "?w + sz < ?s")
      case True
      then have "ringbuffer_ensure_linear_write al rb sz = Some (Some ?w, rb)"
        using 2 sz a by (simp add: ringbuffer_ensure_linear_write_def)
      then show ?thesis using wf sz True by (auto simp: rb_linear_def)
    next
      case False
      obtain b where b: "mem_write ?b 0 (rb_contents rb) = Some b" "length b = ?s" "take ?u b = rb_contents rb"
        using c w 2 by (simp add: mem_write_def)
      let ?rb = "rb\<lparr>rb_buffer := b, rb_readPtr := 0, rb_writePtr := ?u\<rparr>"
      have "mem_read ?b ?r ?u = Some (rb_contents rb)" "size_sub ?w ?r = ?u" using c w 2 by (simp_all add: mem_read_def)
      then have "ringbuffer_ensure_linear_write al rb sz = Some (Some ?u, ?rb)"
        using 2 sz a b False by (simp add: ringbuffer_ensure_linear_write_def Let_def)
      moreover have "rb_linear ?rb sz" "rb_contents ?rb = rb_contents rb"
        using w b sz ring_view_linear [of 0 ?u b] by (simp_all add: rb_linear_def rb_wf_def rb_contents_def)
      ultimately show ?thesis by auto
    qed
  next
    case 3
    then have "?w + sz < ?s" using sz w by linarith
    then have "ringbuffer_ensure_linear_write al rb sz = Some (Some ?w, rb)"
      using 3 sz a by (simp add: ringbuffer_ensure_linear_write_def)
    then show ?thesis using wf sz \<open>?w + sz < ?s\<close> by (auto simp: rb_linear_def)
  qed
qed

lemma ringbuffer_commit_linear:
  assumes lin: "rb_linear rb sz" and xs: "length xs \<le> sz"
  shows "\<exists>b rb'. mem_write (rb_buffer rb) (rb_writePtr rb) xs = Some b \<and>
    ringbuffer_commit_written_bytes (rb\<lparr>rb_buffer := b\<rparr>) (length xs) = Some (True, rb') \<and>
    rb_contents rb' = rb_contents rb @ xs \<and> (length xs < rb_freeSize rb \<longrightarrow> rb_wf rb')"
proof -
  let ?b = "rb_buffer rb" and ?r = "rb_readPtr rb" and ?w = "rb_writePtr rb" and ?s = "rb_size rb" and ?n = "length xs"
    and ?u = "rb_size rb - rb_freeSize rb"
  have wf: "rb_wf rb" and w: "?w + ?n \<le> ?s" "?n \<le> rb_freeSize rb" using assms by (auto simp: rb_linear_def)
  then have l: "length ?b = ?s" "rb_freeSize rb \<le> ?s" "?s < 2 ^ 63" "?w = (?r + ?u) mod ?s" "0 < ?s"
    by (auto simp: rb_wf_def)
  obtain b where b: "mem_write ?b ?w xs = Some b" using w l by (simp add: mem_write_def)
  have lb: "length b = ?s" using length_mem_write [OF b] l by simp
  let ?rb = "rb\<lparr>rb_buffer := b, rb_writePtr := (?w + ?n) mod ?s, rb_freeSize := rb_freeSize rb - ?n\<rparr>"
  have same: "?n = 0 \<Longrightarrow> ?rb = rb\<lparr>rb_buffer := b\<rparr>" using l rb_writePtr_less [OF wf] by simp
  have "ringbuffer_commit_written_bytes (rb\<lparr>rb_buffer := b\<rparr>) ?n = Some (True, ?rb)"
    using w l(2,3) same by (cases "?n = 0") (simp_all add: ringbuffer_commit_written_bytes_def l(5))
  moreover have "mem_write b 0 (drop ?n xs) = Some b" by (simp add: mem_write_def)
  then have "ring_view b ?r (?u + ?n) = ring_view ?b ?r ?u @ xs"
    using ring_view_write [of ?u xs ?b ?n ?r b b] w l b by simp
  then have "rb_contents ?rb = rb_contents rb @ xs" using w l by (simp add: rb_contents_def)
  moreover have "rb_wf ?rb" if "?n < rb_freeSize rb"
    using wf that lb unfolding rb_wf_def by (auto simp: mod_simps add.assoc)
  ultimately show ?thesis using b by blast
qed


text \<open>
  Linear writes: on every well-formed buffer \<open>ringbuffer_ensure_linear_write\<close> either fails
  and changes nothing, or returns a place where \<open>sz\<close> bytes may be written; what is stored
  there and committed is appended to the contents. The buffer stays well formed unless
  the committed bytes fill it to the last byte.
\<close>

theorem ringbuffer_linear_write:
  assumes wf: "rb_wf rb" and al: "fresh_ok al" and room: "rb_room (sz + 32) rb" and xs: "length xs \<le> sz"
  shows "\<exists>p rb1. ringbuffer_ensure_linear_write al rb sz = Some (p, rb1) \<and> rb_contents rb1 = rb_contents rb \<and>
    (case p of None \<Rightarrow> rb1 = rb
     | Some p \<Rightarrow> \<exists>b rb2. mem_write (rb_buffer rb1) p xs = Some b \<and>
         ringbuffer_commit_written_bytes (rb1\<lparr>rb_buffer := b\<rparr>) (length xs) = Some (True, rb2) \<and>
         rb_contents rb2 = rb_contents rb @ xs \<and> (length xs < rb_freeSize rb1 \<longrightarrow> rb_wf rb2))"
proof -
  define stored where "stored rb1 r \<longleftrightarrow> (\<exists>b rb2. mem_write (rb_buffer rb1) (rb_writePtr rb1) xs = Some b \<and>
         ringbuffer_commit_written_bytes (rb1\<lparr>rb_buffer := b\<rparr>) (length xs) = Some (True, rb2) \<and>
         rb_contents rb2 = rb_contents r @ xs \<and> (length xs < rb_freeSize rb1 \<longrightarrow> rb_wf rb2))" for rb1 r
  have linear: "\<exists>rb1. ringbuffer_ensure_linear_write al r sz = Some (Some (rb_writePtr rb1), rb1) \<and>
      rb_contents rb1 = rb_contents r \<and> stored rb1 r"
    if "rb_wf r" "sz \<le> rb_freeSize r" for r
  proof -
    from ringbuffer_make_linear [OF that] obtain rb1 where 1: "ringbuffer_ensure_linear_write al r sz = Some (Some (rb_writePtr rb1), rb1)"
      "rb_linear rb1 sz" "rb_contents rb1 = rb_contents r" by blast
    with ringbuffer_commit_linear [OF 1(2) xs] show ?thesis by (auto simp: stored_def)
  qed
  show ?thesis
  proof (cases "sz \<le> rb_freeSize rb")
    case True
    from linear [OF wf True] obtain rb1 where "ringbuffer_ensure_linear_write al rb sz = Some (Some (rb_writePtr rb1), rb1)"
      "rb_contents rb1 = rb_contents rb" "stored rb1 rb" by blast
    then show ?thesis by (intro exI [of _ "Some (rb_writePtr rb1)"] exI [of _ rb1]) (simp add: stored_def)
  next
    case False
    let ?t = "rb_size rb + sz - rb_freeSize rb + 32"
    have w: "rb_freeSize rb \<le> rb_size rb" "rb_size rb + sz + 32 < 2 ^ 63" "rb_initialSize rb \<le> rb_size rb"
      using wf room by (auto simp: rb_wf_def rb_room_def)
    have t: "size_add (size_sub (size_add (rb_size rb) sz) (rb_freeSize rb)) 32 = ?t" using w by auto
    have "ringbuffer_used rb < ?t" "rb_initialSize rb \<le> ?t" "?t < 2 ^ 63"
      using w False ringbuffer_used_wf [OF wf] by linarith+
    from ringbuffer_realloc_cases [OF wf al this] obtain ok r where r: "ringbuffer_realloc al rb ?t = Some (ok, r)" "rb_wf r"
      "rb_contents r = rb_contents rb" "if ok then rb_size r = ?t \<and> rb_freeSize r = ?t - ringbuffer_used rb else r = rb" by blast
    show ?thesis
    proof (cases ok)
      case True
      then have free: "sz \<le> rb_freeSize r" using r(4) w False ringbuffer_used_wf [OF wf] by simp
      then have "ringbuffer_ensure_linear_write al rb sz = ringbuffer_ensure_linear_write al r sz"
        using False True r(1) unfolding ringbuffer_ensure_linear_write_def t by simp
      with linear [OF r(2) free] r(3) obtain rb1 where "ringbuffer_ensure_linear_write al rb sz = Some (Some (rb_writePtr rb1), rb1)"
        "rb_contents rb1 = rb_contents rb" "stored rb1 rb" by (metis stored_def)
      then show ?thesis by (intro exI [of _ "Some (rb_writePtr rb1)"] exI [of _ rb1]) (simp add: stored_def)
    qed (use False r in \<open>simp add: ringbuffer_ensure_linear_write_def t\<close>)
  qed
qed

definition demo_rb :: RingBuffer where
  "demo_rb = \<lparr>rb_initialSize = 4, rb_freeSize = 2, rb_size = 4, rb_readPtr = 1, rb_writePtr = 3, rb_buffer = [0, 1, 2, 3]\<rparr>"

lemma demo_rb_wf: "rb_wf demo_rb"
  by (simp add: rb_wf_def demo_rb_def)

theorem ringbuffer_linear_write_witness:
  "\<exists>p rb1. ringbuffer_ensure_linear_write (zero_blocks 0) demo_rb 2 = Some (p, rb1) \<and> rb_contents rb1 = rb_contents demo_rb \<and>
    (case p of None \<Rightarrow> rb1 = demo_rb
     | Some p \<Rightarrow> \<exists>b rb2. mem_write (rb_buffer rb1) p [7] = Some b \<and>
         ringbuffer_commit_written_bytes (rb1\<lparr>rb_buffer := b\<rparr>) (length [7 :: byte]) = Some (True, rb2) \<and>
         rb_contents rb2 = rb_contents demo_rb @ [7] \<and> (length [7 :: byte] < rb_freeSize rb1 \<longrightarrow> rb_wf rb2))"
  by (rule ringbuffer_linear_write) (simp_all add: demo_rb_wf, simp add: rb_room_def demo_rb_def)

text \<open>
  A full buffer is taken for an empty one (C30): when linear writes have filled the block to the
  last byte, the next \<open>ringbuffer_write\<close> of \<open>n\<close> bytes grows the block by \<open>n\<close>, stores them over
  the oldest \<open>n\<close> bytes and appends \<open>n\<close> bytes that were never written.
\<close>

theorem ringbuffer_full_write_corrupts:
  assumes full: "rb_freeSize rb = 0" "rb_readPtr rb = 0" "rb_writePtr rb = 0" "length (rb_buffer rb) = rb_size rb"
    and n: "0 < length ptr" "length ptr \<le> rb_size rb" "rb_size rb + length ptr < 2 ^ 63"
    and al: "al (length ptr) = Some junk" "length junk = length ptr"
  shows "\<exists>rb'. ringbuffer_write al rb ptr (length ptr) = Some (True, rb') \<and>
    rb_contents rb' = ptr @ drop (length ptr) (rb_contents rb) @ junk"
proof -
  let ?n = "length ptr" and ?t = "rb_size rb + length ptr"
  let ?r = "rb\<lparr>rb_buffer := rb_buffer rb @ junk, rb_freeSize := ?n, rb_size := ?t\<rparr>"
  have "realloc_mem al (rb_buffer rb) ?t = Some (rb_buffer rb @ junk)" using full al by (simp add: realloc_mem_def)
  moreover have "size_add (rb_size rb) ?n = ?t" "size_add 0 (size_sub ?t (rb_size rb)) = ?n" using n by auto
  ultimately have "ringbuffer_realloc al rb ?t = Some (True, ?r)" using full by (simp add: ringbuffer_realloc_def)
  moreover have m: "?n mod ?t = ?n" using n by (intro mod_less) linarith
  have "ringbuffer_store ?r ptr ?n = Some (?r\<lparr>rb_buffer := ptr @ drop ?n (rb_buffer rb) @ junk, rb_writePtr := ?n, rb_freeSize := 0\<rparr>)"
    using full n by (auto simp: ringbuffer_store_def mem_read_def mem_write_def size_sub_def Let_def m)
  ultimately show ?thesis using full n al \<open>size_add (rb_size rb) ?n = ?t\<close>
    by (simp add: ringbuffer_write_def rb_contents_def ring_view_linear)
qed

definition full_rb :: RingBuffer where
  "full_rb = demo_rb\<lparr>rb_readPtr := 0, rb_writePtr := 0, rb_freeSize := 0\<rparr>"

text \<open>The full buffer comes from a new one by reserving and committing four bytes.\<close>

lemma full_rb_reached:
  "do { (p, rb) \<leftarrow> ringbuffer_ensure_linear_write (zero_blocks 0) (snd (ringbuffer_init (zero_blocks 0) demo_rb 4)) 4;
        buf \<leftarrow> mem_write (rb_buffer rb) (the p) [0, 1, 2, 3];
        ringbuffer_commit_written_bytes (rb\<lparr>rb_buffer := buf\<rparr>) 4 } = Some (True, full_rb)"
  by (simp add: ringbuffer_init_def zero_blocks_def ringbuffer_ensure_linear_write_def ringbuffer_commit_written_bytes_def
      mem_read_def mem_write_def full_rb_def demo_rb_def Let_def)

theorem ringbuffer_full_write_corrupts_witness:
  "\<exists>rb'. ringbuffer_write (zero_blocks 0) full_rb [9] (length [9 :: byte]) = Some (True, rb') \<and>
    rb_contents rb' = [9] @ drop (length [9 :: byte]) (rb_contents full_rb) @ [0]"
  by (rule ringbuffer_full_write_corrupts) (simp_all add: full_rb_def demo_rb_def zero_blocks_def)

end
