(* ===== verification/BytePipe.thy ===== *)
theory BytePipe
  imports Ring
begin

text \<open>
  The contract of a pipe of bytes: writes append what they accept, reads take from the
  front. It is a locale with the facts its clients use; the receive pipe of the RPC
  gateway client and the bip buffer are its instances.
\<close>

datatype pipe_op = PWrite "byte list" | PRead nat
datatype pipe_res = Wrote nat | Got "byte list"

text \<open>
  The specification: what a sequence of calls and results does to the bytes in the pipe;
  \<^const>\<open>None\<close> when a result is not one that a pipe gives.
\<close>

fun pipe_spec :: "(pipe_op \<times> pipe_res) list \<Rightarrow> byte list \<Rightarrow> byte list option" where
  "pipe_spec [] l = Some l"
| "pipe_spec ((PWrite xs, Wrote n) # t) l = (if n \<le> length xs then pipe_spec t (l @ take n xs) else None)"
| "pipe_spec ((PRead n, Got ys) # t) l = (if ys = take n l then pipe_spec t (drop n l) else None)"
| "pipe_spec _ l = None"

fun pipe_run :: "(byte list \<Rightarrow> 'q \<Rightarrow> (nat \<times> 'q) option) \<Rightarrow> (nat \<Rightarrow> 'q \<Rightarrow> (byte list \<times> 'q) option) \<Rightarrow>
    pipe_op list \<Rightarrow> 'q \<Rightarrow> (pipe_res list \<times> 'q) option" where
  "pipe_run wr rd [] q = Some ([], q)"
| "pipe_run wr rd (PWrite xs # ops) q = do {
     (n, q) \<leftarrow> wr xs q; (rs, q) \<leftarrow> pipe_run wr rd ops q; Some (Wrote n # rs, q) }"
| "pipe_run wr rd (PRead n # ops) q = do {
     (ys, q) \<leftarrow> rd n q; (rs, q) \<leftarrow> pipe_run wr rd ops q; Some (Got ys # rs, q) }"

fun accepted :: "(pipe_op \<times> pipe_res) list \<Rightarrow> byte list" where
  "accepted [] = []"
| "accepted ((PWrite xs, Wrote n) # t) = take n xs @ accepted t"
| "accepted (_ # t) = accepted t"

fun delivered :: "(pipe_op \<times> pipe_res) list \<Rightarrow> byte list" where
  "delivered [] = []"
| "delivered ((PRead n, Got ys) # t) = ys @ delivered t"
| "delivered (_ # t) = delivered t"

fun bytes_in :: "pipe_op list \<Rightarrow> nat" where
  "bytes_in [] = 0" | "bytes_in (PWrite xs # ops) = length xs + bytes_in ops" | "bytes_in (PRead n # ops) = bytes_in ops"

fun reads_ok :: "pipe_op list \<Rightarrow> bool" where
  "reads_ok [] = True" | "reads_ok (PWrite xs # ops) = reads_ok ops" | "reads_ok (PRead n # ops) = (n < 2 ^ 31 \<and> reads_ok ops)"

text \<open>No byte is lost, repeated or reordered: what comes out and what is left is what went in.\<close>

lemma pipe_spec_conserves: "pipe_spec t l = Some l' \<Longrightarrow> delivered t @ l' = l @ accepted t"
  by (induction t l rule: pipe_spec.induct) (auto split: if_splits)

locale byte_pipe =
  fixes wf :: "'q \<Rightarrow> bool" and contents :: "'q \<Rightarrow> byte list" and room :: "nat \<Rightarrow> 'q \<Rightarrow> bool"
    and wr :: "byte list \<Rightarrow> 'q \<Rightarrow> (nat \<times> 'q) option" and rd :: "nat \<Rightarrow> 'q \<Rightarrow> (byte list \<times> 'q) option"
  assumes write_law: "wf q \<Longrightarrow> room (length xs + n) q \<Longrightarrow> \<exists>k q'. wr xs q = Some (k, q') \<and> k \<le> length xs \<and> wf q' \<and>
      room n q' \<and> contents q' = contents q @ take k xs"
    and read_law: "wf q \<Longrightarrow> room m q \<Longrightarrow> n < 2 ^ 31 \<Longrightarrow> \<exists>q'. rd n q = Some (take n (contents q), q') \<and> wf q' \<and>
      contents q' = drop n (contents q) \<and> room m q'"
begin

lemma pipe_refines:
  assumes "wf q" "room (bytes_in ops) q" "reads_ok ops"
  shows "\<exists>rs q'. pipe_run wr rd ops q = Some (rs, q') \<and> wf q' \<and> length rs = length ops \<and>
    pipe_spec (zip ops rs) (contents q) = Some (contents q')"
  using assms
proof (induction ops arbitrary: q)
  case Nil
  then show ?case by simp
next
  case (Cons op ops)
  show ?case
  proof (cases op)
    case (PWrite xs)
    obtain k q1 where 1: "wr xs q = Some (k, q1)" "k \<le> length xs" "wf q1" "room (bytes_in ops) q1"
      "contents q1 = contents q @ take k xs"
      using write_law [of q xs "bytes_in ops"] Cons.prems PWrite by auto
    have "reads_ok ops" using Cons.prems PWrite by simp
    from Cons.IH [OF 1(3,4) this] obtain rs q' where "pipe_run wr rd ops q1 = Some (rs, q')" "wf q'"
      "length rs = length ops" "pipe_spec (zip ops rs) (contents q1) = Some (contents q')" by blast
    with PWrite 1 show ?thesis by simp
  next
    case (PRead n)
    obtain q1 where 1: "rd n q = Some (take n (contents q), q1)" "wf q1" "contents q1 = drop n (contents q)" "room (bytes_in ops) q1"
      using read_law [of q "bytes_in ops" n] Cons.prems PRead by auto
    have "reads_ok ops" using Cons.prems PRead by simp
    from Cons.IH [OF 1(2,4) this] obtain rs q' where "pipe_run wr rd ops q1 = Some (rs, q')" "wf q'"
      "length rs = length ops" "pipe_spec (zip ops rs) (contents q1) = Some (contents q')" by blast
    with PRead 1 show ?thesis by simp
  qed
qed

lemma pipe_conserves:
  assumes "wf q" "room (bytes_in ops) q" "reads_ok ops"
  shows "\<exists>rs q'. pipe_run wr rd ops q = Some (rs, q') \<and> wf q' \<and>
    delivered (zip ops rs) @ contents q' = contents q @ accepted (zip ops rs)"
  using pipe_refines [OF assms] pipe_spec_conserves by blast

end

end
