(* ===== verification/RpcPipe.thy ===== *)
theory RpcPipe
  imports RingBuffer BytePipe
begin

text \<open>
  The receive pipe of the RPC gateway client (\<open>libfreerdp/core/gateway/rpc_client.c\<close>): a ring
  buffer that the receiving thread fills and the reader empties, with an event that tells
  the reader that bytes are waiting. Both operations run under \<open>PipeLock\<close>, so a run of the
  two threads is a sequence of whole calls.
\<close>

record rpc_pipe =
  ReceivePipe :: RingBuffer
  PipeEvent :: bool

definition rpc_client_receive_pipe_write :: "byte blocks \<Rightarrow> rpc_pipe \<Rightarrow> byte list \<Rightarrow> nat \<Rightarrow> (int \<times> rpc_pipe) option" where
  "rpc_client_receive_pipe_write al client buffer len = do {
     (ok, rb) \<leftarrow> ringbuffer_write al (ReceivePipe client) buffer len;
     let status = (if ok then c_int len else 0);
     let client = client\<lparr>ReceivePipe := rb\<rparr>;
     Some (status, if ringbuffer_used rb > 0 then client\<lparr>PipeEvent := True\<rparr> else client) }"

text \<open>The loop that copies the chunks behind one another.\<close>

fun copy_chunks :: "RingBuffer \<Rightarrow> DataChunk list \<Rightarrow> int \<Rightarrow> byte list \<Rightarrow> (int \<times> byte list) option" where
  "copy_chunks rb [] status buffer = Some (status, buffer)"
| "copy_chunks rb (c # cs) status buffer = do {
     xs \<leftarrow> mem_read (rb_buffer rb) (dc_data c) (dc_size c);
     buffer \<leftarrow> mem_write buffer (size_of_int status) xs;
     copy_chunks rb cs (c_int (size_add (size_of_int status) (dc_size c))) buffer }"

definition rpc_client_receive_pipe_read :: "byte blocks \<Rightarrow> rpc_pipe \<Rightarrow> byte list \<Rightarrow> nat \<Rightarrow> (int \<times> byte list \<times> rpc_pipe) option" where
  "rpc_client_receive_pipe_read al client buffer len = do {
     (status, buffer) \<leftarrow> copy_chunks (ReceivePipe client) (ringbuffer_peek (ReceivePipe client) len) 0 buffer;
     rb \<leftarrow> (if status > 0 then ringbuffer_commit_read_bytes al (ReceivePipe client) (size_of_int status)
            else Some (ReceivePipe client));
     let client = client\<lparr>ReceivePipe := rb\<rparr>;
     Some (status, buffer, if ringbuffer_used rb < 1 then client\<lparr>PipeEvent := False\<rparr> else client) }"

subsection \<open>The pipe refines the byte pipe\<close>

text \<open>The event is set exactly while bytes are waiting; sizes stay below \<open>2 ^ 31\<close>, the range of the \<open>int\<close> results.\<close>

definition rpc_pipe_wf :: "rpc_pipe \<Rightarrow> bool" where
  "rpc_pipe_wf client \<longleftrightarrow> rb_wf (ReceivePipe client) \<and> PipeEvent client = (rb_contents (ReceivePipe client) \<noteq> [])"

definition rpc_pipe_room :: "nat \<Rightarrow> rpc_pipe \<Rightarrow> bool" where
  "rpc_pipe_room n client \<longleftrightarrow> rb_size (ReceivePipe client) + n < 2 ^ 31"

definition rpc_pipe_contents :: "rpc_pipe \<Rightarrow> byte list" where
  "rpc_pipe_contents client = rb_contents (ReceivePipe client)"

lemma copy_chunks_concat:
  assumes "map (chunk_bytes rb) cs = map Some xss" "length pre + length (concat xss) \<le> length buf" "take (length pre) buf = pre"
    "length buf < 2 ^ 31"
  shows "\<exists>buf'. copy_chunks rb cs (int (length pre)) buf = Some (int (length pre + length (concat xss)), buf') \<and>
    take (length pre + length (concat xss)) buf' = pre @ concat xss \<and> length buf' = length buf"
  using assms
proof (induction cs arbitrary: xss pre buf)
  case Nil
  then show ?case by simp
next
  case (Cons c cs)
  from Cons.prems(1) obtain xs yss where xss: "xss = xs # yss" and c': "chunk_bytes rb c = Some xs"
    and cs: "map (chunk_bytes rb) cs = map Some yss" by (cases xss) auto
  note c = c' [unfolded chunk_bytes_def]
  have len: "dc_size c = length xs" using c by (auto simp: mem_read_def split: if_splits)
  obtain b where b: "mem_write buf (length pre) xs = Some b" using Cons.prems xss by (simp add: mem_write_def)
  have lb: "length b = length buf" using length_mem_write [OF b] .
  have pre: "take (length (pre @ xs)) b = pre @ xs"
    using b Cons.prems(3) by (auto simp: mem_write_def split: if_splits)
  have n: "size_of_int (int (length pre)) = length pre" "size_add (length pre) (length xs) = length (pre @ xs)"
    "c_int (length (pre @ xs)) = int (length (pre @ xs))" using Cons.prems(2,4) xss by auto
  have "length (pre @ xs) + length (concat yss) \<le> length b" using Cons.prems(2) xss lb by simp
  from Cons.IH [OF cs this pre] lb Cons.prems(4) show ?case using c b xss n len by (auto simp: add.assoc)
qed


definition rpc_pipe_put :: "byte blocks \<Rightarrow> byte list \<Rightarrow> rpc_pipe \<Rightarrow> (nat \<times> rpc_pipe) option" where
  "rpc_pipe_put al xs client = map_option (apfst nat) (rpc_client_receive_pipe_write al client xs (length xs))"

definition rpc_pipe_get :: "byte blocks \<Rightarrow> nat \<Rightarrow> rpc_pipe \<Rightarrow> (byte list \<times> rpc_pipe) option" where
  "rpc_pipe_get al n client = map_option (\<lambda>(status, buffer, client). (take (nat status) buffer, client))
     (rpc_client_receive_pipe_read al client (replicate n 0) n)"

lemma rpc_client_receive_pipe_write_cases:
  assumes "rpc_pipe_wf client" "rpc_pipe_room (length xs + n) client" "fresh_ok al"
  shows "\<exists>k client'. rpc_client_receive_pipe_write al client xs (length xs) = Some (int k, client') \<and> (k = 0 \<or> k = length xs) \<and>
    rpc_pipe_wf client' \<and> rpc_pipe_room n client' \<and> rpc_pipe_contents client' = rpc_pipe_contents client @ take k xs"
proof -
  let ?rb = "ReceivePipe client"
  have wf: "rb_wf ?rb" and room: "rb_room (length xs) ?rb" and l: "length xs < 2 ^ 31"
    using assms by (auto simp: rpc_pipe_wf_def rpc_pipe_room_def rb_room_def)
  from ringbuffer_write_cases [OF wf assms(3) room] obtain ok rb where
    w: "ringbuffer_write al ?rb xs (length xs) = Some (ok, rb)" "rb_wf rb" "rb_contents rb = rb_contents ?rb @ (if ok then xs else [])"
    "rb_size rb \<le> rb_size ?rb + length xs" by blast
  have u: "ringbuffer_used rb > 0 \<longleftrightarrow> rb_contents rb \<noteq> []" by (simp flip: length_rb_contents [OF w(2)])
  let ?c = "client\<lparr>ReceivePipe := rb, PipeEvent := (rb_contents rb \<noteq> [])\<rparr>"
  have "rpc_client_receive_pipe_write al client xs (length xs) = Some (int (if ok then length xs else 0), ?c)"
    using w l u assms(1) by (auto simp: rpc_client_receive_pipe_write_def rpc_pipe_wf_def)
  moreover have "rpc_pipe_wf ?c" "rpc_pipe_room n ?c" "rpc_pipe_contents ?c = rpc_pipe_contents client @ (if ok then xs else [])"
    using w assms(2) by (auto simp: rpc_pipe_wf_def rpc_pipe_room_def rpc_pipe_contents_def)
  ultimately show ?thesis by (intro exI [of _ "if ok then length xs else 0"] exI [of _ ?c]) auto
qed

lemma commit_read_if_any:
  assumes "k < 2 ^ 31"
  shows "(if int k > 0 then ringbuffer_commit_read_bytes al rb (size_of_int (int k)) else Some rb) = ringbuffer_commit_read_bytes al rb k"
  using assms by (cases "k = 0") (simp_all add: ringbuffer_commit_read_bytes_def [of _ _ 0])

lemma rpc_client_receive_pipe_read_cases:
  assumes "rpc_pipe_wf client" "rpc_pipe_room n client" "fresh_ok al" "length buf = len" "len < 2 ^ 31"
  shows "\<exists>buf' client'. rpc_client_receive_pipe_read al client buf len = Some (int (min len (length (rpc_pipe_contents client))), buf', client') \<and>
    rpc_pipe_wf client' \<and> rpc_pipe_room n client' \<and> rpc_pipe_contents client' = drop len (rpc_pipe_contents client) \<and>
    take (min len (length (rpc_pipe_contents client))) buf' = take len (rpc_pipe_contents client)"
proof -
  let ?rb = "ReceivePipe client" and ?k = "min len (length (rb_contents (ReceivePipe client)))"
  have wf: "rb_wf ?rb" and size: "rb_size ?rb + n < 2 ^ 31" "rb_initialSize ?rb \<le> rb_size ?rb"
    using assms by (auto simp: rpc_pipe_wf_def rpc_pipe_room_def rb_wf_def)
  have "len < 2 ^ 64" using assms(5) by simp
  from ringbuffer_peek_cases [OF wf this] obtain xss where p: "map (chunk_bytes ?rb) (ringbuffer_peek ?rb len) = map Some xss"
    "concat xss = take len (rb_contents ?rb)" by blast
  have k: "length (concat xss) = ?k" using p(2) by (simp add: min.commute)
  obtain buf' where c: "copy_chunks ?rb (ringbuffer_peek ?rb len) 0 buf = Some (int ?k, buf')" "take ?k buf' = take len (rb_contents ?rb)"
    using copy_chunks_concat [OF p(1), of "[]" buf] assms(4,5) k p(2) by auto
  have "?k \<le> ringbuffer_used ?rb" using length_rb_contents [OF wf] by simp
  from ringbuffer_commit_read_cases [OF wf assms(3) this] obtain rb where r: "ringbuffer_commit_read_bytes al ?rb ?k = Some rb"
    "rb_wf rb" "rb_contents rb = drop ?k (rb_contents ?rb)" "rb_size rb = rb_size ?rb \<or> rb_size rb = rb_initialSize ?rb" by blast
  have r': "(if int ?k > 0 then ringbuffer_commit_read_bytes al ?rb (size_of_int (int ?k)) else Some ?rb) = Some rb"
    using commit_read_if_any [of ?k al ?rb] r(1) assms(5) by simp
  have u: "ringbuffer_used rb < 1 \<longleftrightarrow> rb_contents rb = []" by (simp flip: length_rb_contents [OF r(2)])
  have d: "rb_contents rb = drop len (rb_contents ?rb)" using r(3) by (simp add: min_def)
  let ?c = "client\<lparr>ReceivePipe := rb, PipeEvent := (rb_contents rb \<noteq> [])\<rparr>"
  have ev: "PipeEvent client" if "rb_contents rb \<noteq> []" using assms(1) that d by (auto simp: rpc_pipe_wf_def)
  have "rpc_client_receive_pipe_read al client buf len = Some (int ?k, buf', ?c)"
    using c r' u ev unfolding rpc_client_receive_pipe_read_def by auto
  moreover have "rpc_pipe_wf ?c" "rpc_pipe_room n ?c" "rpc_pipe_contents ?c = drop len (rpc_pipe_contents client)"
    using r d size by (auto simp: rpc_pipe_wf_def rpc_pipe_room_def rpc_pipe_contents_def)
  ultimately show ?thesis using c(2) unfolding rpc_pipe_contents_def by blast
qed

interpretation rpc: byte_pipe rpc_pipe_wf rpc_pipe_contents rpc_pipe_room "rpc_pipe_put (sized_blocks al)" "rpc_pipe_get (sized_blocks al)"
  for al :: "byte blocks"
proof
  fix q n and xs :: "byte list" assume "rpc_pipe_wf q" "rpc_pipe_room (length xs + n) q"
  from rpc_client_receive_pipe_write_cases [OF this fresh_ok_sized_blocks [of al]]
  show "\<exists>k q'. rpc_pipe_put (sized_blocks al) xs q = Some (k, q') \<and> k \<le> length xs \<and> rpc_pipe_wf q' \<and> rpc_pipe_room n q' \<and>
    rpc_pipe_contents q' = rpc_pipe_contents q @ take k xs"
    unfolding rpc_pipe_put_def by fastforce
next
  fix q m n assume q: "rpc_pipe_wf q" "rpc_pipe_room m q" and n: "n < (2 :: nat) ^ 31"
  from rpc_client_receive_pipe_read_cases [OF q fresh_ok_sized_blocks [of al] length_replicate n, of 0]
  show "\<exists>q'. rpc_pipe_get (sized_blocks al) n q = Some (take n (rpc_pipe_contents q), q') \<and> rpc_pipe_wf q' \<and>
    rpc_pipe_contents q' = drop n (rpc_pipe_contents q) \<and> rpc_pipe_room m q'"
    unfolding rpc_pipe_get_def by fastforce
qed


subsection \<open>Correctness\<close>

text \<open>
  The receive pipe (C15): any sequence of writes and reads, with any of the allocations in
  between failing, runs without a memory fault; every read returns the oldest bytes, as
  many as are there and asked for, the bytes delivered and those still waiting are exactly
  the bytes accepted, in order, and the pipe event is set exactly while bytes are waiting.
\<close>

theorem rpc_receive_pipe_refines:
  assumes "rpc_pipe_wf client" "rpc_pipe_room (bytes_in ops) client" "reads_ok ops" "fresh_ok al"
  shows "\<exists>rs client'. pipe_run (rpc_pipe_put al) (rpc_pipe_get al) ops client = Some (rs, client') \<and>
    pipe_spec (zip ops rs) (rb_contents (ReceivePipe client)) = Some (rb_contents (ReceivePipe client')) \<and>
    delivered (zip ops rs) @ rb_contents (ReceivePipe client') = rb_contents (ReceivePipe client) @ accepted (zip ops rs) \<and>
    PipeEvent client' = (rb_contents (ReceivePipe client') \<noteq> [])"
proof -
  from rpc.pipe_refines [OF assms(1-3), of al] obtain rs client' where
    "pipe_run (rpc_pipe_put al) (rpc_pipe_get al) ops client = Some (rs, client')" "rpc_pipe_wf client'"
    "pipe_spec (zip ops rs) (rb_contents (ReceivePipe client)) = Some (rb_contents (ReceivePipe client'))"
    unfolding sized_blocks_id [OF assms(4)] rpc_pipe_contents_def by blast
  with pipe_spec_conserves [OF this(3)] show ?thesis by (auto simp: rpc_pipe_wf_def)
qed

definition demo_pipe :: rpc_pipe where
  "demo_pipe = \<lparr>ReceivePipe = demo_rb, PipeEvent = True\<rparr>"

theorem rpc_receive_pipe_refines_witness:
  "\<exists>rs client'. pipe_run (rpc_pipe_put (zero_blocks 0)) (rpc_pipe_get (zero_blocks 0)) [PWrite [7, 8, 9], PRead 4] demo_pipe = Some (rs, client') \<and>
    pipe_spec (zip [PWrite [7, 8, 9], PRead 4] rs) (rb_contents (ReceivePipe demo_pipe)) = Some (rb_contents (ReceivePipe client')) \<and>
    delivered (zip [PWrite [7, 8, 9], PRead 4] rs) @ rb_contents (ReceivePipe client') =
      rb_contents (ReceivePipe demo_pipe) @ accepted (zip [PWrite [7, 8, 9], PRead 4] rs) \<and>
    PipeEvent client' = (rb_contents (ReceivePipe client') \<noteq> [])"
  by (rule rpc_receive_pipe_refines) (simp_all add: rpc_pipe_wf_def rpc_pipe_room_def demo_pipe_def demo_rb_wf,
    simp_all add: demo_rb_def rb_contents_def)

end
