(* ===== verification/TcpBio.thy ===== *)
theory TcpBio
  imports RingBuffer
begin

text \<open>
  The two BIOs of \<open>libfreerdp/core/tcp.c\<close>: the simple socket BIO, which calls \<open>send\<close> and
  \<open>recv\<close> and sorts their errors, and the buffered BIO above it, which queues what the socket
  does not take in a ring buffer. The operating system is a parameter, a record of the
  calls the code makes on the state \<open>'w\<close> of the network; each call returns the result,
  the error code that \<open>WSAGetLastError\<close> reports after it, and the new state.
\<close>

record 'w net_ops =
  net_send :: "byte list \<Rightarrow> 'w \<Rightarrow> int \<times> nat \<times> 'w"
  net_recv :: "nat \<Rightarrow> 'w \<Rightarrow> int \<times> nat \<times> byte list \<times> 'w"
  net_poll :: "bool \<Rightarrow> int \<Rightarrow> 'w \<Rightarrow> int \<times> bool \<times> 'w"
  net_nonblock :: "bool \<Rightarrow> 'w \<Rightarrow> bool \<times> 'w"
  net_create_event :: "'w \<Rightarrow> bool \<times> 'w"
  net_event_select :: "'w \<Rightarrow> bool \<times> 'w"
  net_close :: "int \<Rightarrow> 'w \<Rightarrow> 'w"

text \<open>The three flags of an OpenSSL BIO that the code uses.\<close>

record bio_flags =
  fl_retry :: bool
  fl_read :: bool
  fl_write :: bool

definition no_flags :: bio_flags where
  "no_flags = \<lparr>fl_retry = False, fl_read = False, fl_write = False\<rparr>"

text \<open>The simple socket BIO, with the fields of \<open>BIO\<close> that it keeps; \<open>ss_event\<close> is \<open>NULL\<close> or a handle and its signal.\<close>

record simple_bio =
  ss_socket :: int
  ss_event :: "bool option"
  ss_shutdown :: int
  ss_init :: bool
  ss_flags :: bio_flags

record 'w tcp_bio =
  xmitBuffer :: RingBuffer
  readBlocked :: bool
  writeBlocked :: bool
  bs_flags :: bio_flags
  next_bio :: simple_bio
  net :: 'w

subsection \<open>The simple socket BIO\<close>

definition WSAEINTR :: nat where "WSAEINTR = 0x2714"
definition WSAEWOULDBLOCK :: nat where "WSAEWOULDBLOCK = 0x2733"
definition WSAEINPROGRESS :: nat where "WSAEINPROGRESS = 0x2734"
definition WSAEALREADY :: nat where "WSAEALREADY = 0x2735"

definition wsa_retry :: "nat \<Rightarrow> bool" where
  "wsa_retry error \<longleftrightarrow> error = WSAEWOULDBLOCK \<or> error = WSAEINTR \<or> error = WSAEINPROGRESS \<or> error = WSAEALREADY"

definition transport_bio_simple_write :: "'w net_ops \<Rightarrow> byte list option \<Rightarrow> simple_bio \<Rightarrow> 'w \<Rightarrow> int \<times> simple_bio \<times> 'w" where
  "transport_bio_simple_write ops buf bio w =
     (case buf of None \<Rightarrow> (0, bio, w)
      | Some xs \<Rightarrow>
          let flags = (ss_flags bio)\<lparr>fl_write := False\<rparr>;
              (status, error, w) = net_send ops xs w;
              flags = (if status \<le> 0 then
                         (if wsa_retry error then flags\<lparr>fl_write := True, fl_retry := True\<rparr> else flags\<lparr>fl_retry := False\<rparr>)
                       else flags)
          in (status, bio\<lparr>ss_flags := flags\<rparr>, w))"

text \<open>The result is the status, the bytes stored in the caller's buffer and the new state.\<close>

definition transport_bio_simple_read :: "'w net_ops \<Rightarrow> nat \<Rightarrow> simple_bio \<Rightarrow> 'w \<Rightarrow> int \<times> byte list \<times> simple_bio \<times> 'w" where
  "transport_bio_simple_read ops sz bio w =
     (let bio = bio\<lparr>ss_flags := (ss_flags bio)\<lparr>fl_read := False\<rparr>, ss_event := map_option (\<lambda>_. False) (ss_event bio)\<rparr>;
          (status, error, data, w) = net_recv ops sz w
      in if status > 0 then (status, data, bio, w)
         else if status = 0 then (0, data, bio\<lparr>ss_flags := (ss_flags bio)\<lparr>fl_retry := False\<rparr>\<rparr>, w)
         else if wsa_retry error then (-1, data, bio\<lparr>ss_flags := (ss_flags bio)\<lparr>fl_read := True, fl_retry := True\<rparr>\<rparr>, w)
         else (-1, data, bio\<lparr>ss_flags := (ss_flags bio)\<lparr>fl_retry := False\<rparr>\<rparr>, w))"

definition transport_bio_simple_init :: "'w net_ops \<Rightarrow> int \<Rightarrow> int \<Rightarrow> simple_bio \<Rightarrow> 'w \<Rightarrow> int \<times> simple_bio \<times> 'w" where
  "transport_bio_simple_init ops socket shutdown bio w =
     (let bio = bio\<lparr>ss_socket := socket, ss_shutdown := shutdown, ss_flags := no_flags\<lparr>fl_retry := True\<rparr>, ss_init := True\<rparr>;
          (ok, w) = net_create_event ops w
      in if \<not> ok then (0, bio\<lparr>ss_event := None\<rparr>, w)
         else let bio = bio\<lparr>ss_event := Some False\<rparr>;
                  (failed, w) = net_event_select ops w
              in (if failed then 0 else 1, bio, w))"

definition transport_bio_simple_uninit :: "'w net_ops \<Rightarrow> simple_bio \<Rightarrow> 'w \<Rightarrow> int \<times> simple_bio \<times> 'w" where
  "transport_bio_simple_uninit ops bio w =
     (let (bio, w) = (if ss_shutdown bio \<noteq> 0 \<and> ss_init bio
                      then (bio\<lparr>ss_socket := 0\<rparr>, net_close ops (ss_socket bio) w) else (bio, w))
      in (1, bio\<lparr>ss_event := None, ss_init := False, ss_flags := no_flags\<rparr>, w))"

text \<open>\<open>alloc\<close> tells whether the allocation of the private structure succeeds.\<close>

definition transport_bio_simple_new :: "bool \<Rightarrow> int \<times> simple_bio option" where
  "transport_bio_simple_new alloc =
     (if alloc then (1, Some \<lparr>ss_socket = 0, ss_event = None, ss_shutdown = 0, ss_init = False, ss_flags = no_flags\<lparr>fl_retry := True\<rparr>\<rparr>)
      else (0, None))"

text \<open>The commands, with their arguments; \<open>BIO_other\<close> is any other one. The
  value stored through \<open>arg2\<close>, which the callers give where it is used, is a second result.\<close>

datatype bio_cmd =
    BIO_C_SET_SOCKET int int | BIO_C_GET_SOCKET | BIO_C_GET_EVENT | BIO_C_SET_NONBLOCK bool
  | BIO_C_WAIT_READ int | BIO_C_WAIT_WRITE int
  | BIO_C_SET_FD "int option" int | BIO_C_GET_FD | BIO_CTRL_GET_CLOSE | BIO_CTRL_SET_CLOSE int | BIO_CTRL_DUP | BIO_CTRL_FLUSH
  | BIO_CTRL_WPENDING | BIO_CTRL_PENDING | BIO_C_READ_BLOCKED | BIO_C_WRITE_BLOCKED | BIO_other

datatype bio_arg = NoArg | SocketArg int | EventArg "bool option"

text \<open>The loop that repeats \<open>poll\<close> while it is interrupted.\<close>

partial_function (option) poll_loop :: "'w net_ops \<Rightarrow> bool \<Rightarrow> int \<Rightarrow> 'w \<Rightarrow> (int \<times> 'w) option" where
  "poll_loop ops for_write timeout w =
     (case net_poll ops for_write timeout w of (status, interrupted, w) \<Rightarrow>
        if status < 0 \<and> interrupted then poll_loop ops for_write timeout w else Some (status, w))"

definition transport_bio_simple_ctrl :: "'w net_ops \<Rightarrow> bio_cmd \<Rightarrow> simple_bio \<Rightarrow> 'w \<Rightarrow> (int \<times> bio_arg \<times> simple_bio \<times> 'w) option" where
  "transport_bio_simple_ctrl ops cmd bio w =
     (case cmd of
        BIO_C_SET_SOCKET socket shutdown \<Rightarrow>
          let (_, bio, w) = transport_bio_simple_uninit ops bio w;
              (_, bio, w) = transport_bio_simple_init ops socket shutdown bio w
          in Some (1, NoArg, bio, w)
      | BIO_C_GET_SOCKET \<Rightarrow> if \<not> ss_init bio then Some (0, NoArg, bio, w) else Some (1, SocketArg (ss_socket bio), bio, w)
      | BIO_C_GET_EVENT \<Rightarrow> if \<not> ss_init bio then Some (0, NoArg, bio, w) else Some (1, EventArg (ss_event bio), bio, w)
      | BIO_C_SET_NONBLOCK on \<Rightarrow>
          let (ok, w) = net_nonblock ops on w in if ok then Some (1, NoArg, bio, w) else Some (0, NoArg, bio, w)
      | BIO_C_WAIT_READ timeout \<Rightarrow> do { (status, w) \<leftarrow> poll_loop ops False timeout w; Some (0, NoArg, bio, w) }
      | BIO_C_WAIT_WRITE timeout \<Rightarrow> do { (status, w) \<leftarrow> poll_loop ops True timeout w; Some (0, NoArg, bio, w) }
      | BIO_C_SET_FD fd shutdown \<Rightarrow>
          (case fd of None \<Rightarrow> Some (-1, NoArg, bio, w)
           | Some socket \<Rightarrow>
               let (_, bio, w) = transport_bio_simple_uninit ops bio w;
                   (_, bio, w) = transport_bio_simple_init ops socket shutdown bio w
               in Some (1, NoArg, bio, w))
      | BIO_C_GET_FD \<Rightarrow> if ss_init bio then Some (ss_socket bio, SocketArg (ss_socket bio), bio, w) else Some (-1, NoArg, bio, w)
      | BIO_CTRL_GET_CLOSE \<Rightarrow> Some (ss_shutdown bio, NoArg, bio, w)
      | BIO_CTRL_SET_CLOSE arg \<Rightarrow> Some (1, NoArg, bio\<lparr>ss_shutdown := arg\<rparr>, w)
      | BIO_CTRL_DUP \<Rightarrow> Some (1, NoArg, bio, w)
      | BIO_CTRL_FLUSH \<Rightarrow> Some (1, NoArg, bio, w)
      | _ \<Rightarrow> Some (0, NoArg, bio, w))"

subsection \<open>The buffered BIO\<close>

datatype send_out = SentAll | SendFatal | SendBlocked

text \<open>
  The loop over one chunk: \<open>data\<close> is the offset of its first unsent byte and \<open>sz\<close> the
  number of them. A negative status that neither is fatal nor asks for a later write
  would be added to both, as the code does.
\<close>

partial_function (option) buffered_send :: "'w net_ops \<Rightarrow> byte list \<Rightarrow> nat \<Rightarrow> nat \<Rightarrow> int \<Rightarrow> 'w tcp_bio \<Rightarrow>
    (send_out \<times> int \<times> 'w tcp_bio) option" where
  "buffered_send ops buf data sz committed b =
     (if sz = 0 then Some (SentAll, committed, b)
      else do {
        xs \<leftarrow> mem_read buf data (size_of_int (c_int sz));
        (case transport_bio_simple_write ops (Some xs) (next_bio b) (net b) of (status, next, w) \<Rightarrow>
           let b = b\<lparr>next_bio := next, net := w\<rparr> in
           if status \<le> 0 \<and> \<not> fl_retry (ss_flags next) then Some (SendFatal, committed, b)
           else if status \<le> 0 \<and> fl_write (ss_flags next) then Some (SendBlocked, committed, b)
           else buffered_send ops buf (nat (int data + status)) (size_sub sz (size_of_int status)) (committed + status) b) })"

fun buffered_send_chunks :: "'w net_ops \<Rightarrow> byte list \<Rightarrow> DataChunk list \<Rightarrow> int \<Rightarrow> 'w tcp_bio \<Rightarrow> (send_out \<times> int \<times> 'w tcp_bio) option" where
  "buffered_send_chunks ops buf [] committed b = Some (SentAll, committed, b)"
| "buffered_send_chunks ops buf (c # cs) committed b = do {
     (r, committed, b) \<leftarrow> buffered_send ops buf (dc_data c) (dc_size c) committed b;
     (if r = SentAll then buffered_send_chunks ops buf cs committed b else Some (r, committed, b)) }"

text \<open>Sending what is queued and dropping what was sent, the second half of \<open>transport_bio_buffered_write\<close>.\<close>

definition buffered_drain :: "byte blocks \<Rightarrow> 'w net_ops \<Rightarrow> int \<Rightarrow> 'w tcp_bio \<Rightarrow> (int \<times> 'w tcp_bio) option" where
  "buffered_drain al ops num b = do {
     let rb = xmitBuffer b;
     (r, committed, b) \<leftarrow> buffered_send_chunks ops (rb_buffer rb) (ringbuffer_peek rb (ringbuffer_used rb)) 0 b;
     let b = (case r of
         SentAll \<Rightarrow> b
       | SendFatal \<Rightarrow> b\<lparr>bs_flags := (bs_flags b)\<lparr>fl_retry := False\<rparr>\<rparr>
       | SendBlocked \<Rightarrow> b\<lparr>bs_flags := (bs_flags b)\<lparr>fl_write := True\<rparr>, writeBlocked := True\<rparr>);
     rb \<leftarrow> ringbuffer_commit_read_bytes al (xmitBuffer b) (size_of_int committed);
     Some (if r = SendFatal then -1 else num, b\<lparr>xmitBuffer := rb\<rparr>) }"

text \<open>\<open>al\<close> and \<open>al'\<close> are the allocators of the write into the ring buffer and of the read from it.\<close>

definition transport_bio_buffered_write :: "byte blocks \<Rightarrow> byte blocks \<Rightarrow> 'w net_ops \<Rightarrow> byte list option \<Rightarrow> int \<Rightarrow>
    'w tcp_bio \<Rightarrow> (int \<times> 'w tcp_bio) option" where
  "transport_bio_buffered_write al al' ops buf num b = do {
     let b = b\<lparr>writeBlocked := False, bs_flags := (bs_flags b)\<lparr>fl_write := False\<rparr>\<rparr>;
     (ok, rb) \<leftarrow> (case buf of
         Some xs \<Rightarrow> if num \<noteq> 0 then ringbuffer_write al (xmitBuffer b) xs (size_of_int num) else Some (True, xmitBuffer b)
       | None \<Rightarrow> Some (True, xmitBuffer b));
     let b = b\<lparr>xmitBuffer := rb\<rparr>;
     (if \<not> ok then Some (-1, b) else buffered_drain al' ops num b) }"

definition transport_bio_buffered_read :: "'w net_ops \<Rightarrow> nat \<Rightarrow> 'w tcp_bio \<Rightarrow> int \<times> byte list \<times> 'w tcp_bio" where
  "transport_bio_buffered_read ops sz b =
     (let b = b\<lparr>readBlocked := False, bs_flags := (bs_flags b)\<lparr>fl_read := False\<rparr>\<rparr>;
          (status, data, next, w) = transport_bio_simple_read ops sz (next_bio b) (net b);
          b = b\<lparr>next_bio := next, net := w\<rparr>
      in if status \<le> 0 then
           (if \<not> fl_retry (ss_flags next) then (status, data, b\<lparr>bs_flags := (bs_flags b)\<lparr>fl_retry := False\<rparr>\<rparr>)
            else let b = b\<lparr>bs_flags := (bs_flags b)\<lparr>fl_retry := True\<rparr>\<rparr>
                 in if fl_read (ss_flags next) then (status, data, b\<lparr>bs_flags := (bs_flags b)\<lparr>fl_read := True\<rparr>, readBlocked := True\<rparr>)
                    else (status, data, b))
         else (status, data, b))"

definition transport_bio_buffered_ctrl :: "byte blocks \<Rightarrow> byte blocks \<Rightarrow> 'w net_ops \<Rightarrow> bio_cmd \<Rightarrow> 'w tcp_bio \<Rightarrow> (int \<times> bio_arg \<times> 'w tcp_bio) option" where
  "transport_bio_buffered_ctrl al al' ops cmd b =
     (case cmd of
        BIO_CTRL_FLUSH \<Rightarrow>
          if ringbuffer_used (xmitBuffer b) = 0 then Some (1, NoArg, b)
          else do { (status, b) \<leftarrow> transport_bio_buffered_write al al' ops None 0 b; Some (if status \<ge> 0 then 1 else -1, NoArg, b) }
      | BIO_CTRL_WPENDING \<Rightarrow> Some (c_int (ringbuffer_used (xmitBuffer b)), NoArg, b)
      | BIO_CTRL_PENDING \<Rightarrow> Some (0, NoArg, b)
      | BIO_C_READ_BLOCKED \<Rightarrow> Some (of_bool (readBlocked b), NoArg, b)
      | BIO_C_WRITE_BLOCKED \<Rightarrow> Some (of_bool (writeBlocked b), NoArg, b)
      | _ \<Rightarrow> do {
          (status, arg, next, w) \<leftarrow> transport_bio_simple_ctrl ops cmd (next_bio b) (net b);
          Some (status, arg, b\<lparr>next_bio := next, net := w\<rparr>) })"

text \<open>\<open>alloc\<close> tells whether the private structure is allocated.\<close>

definition transport_bio_buffered_new :: "bool \<Rightarrow> byte blocks \<Rightarrow> simple_bio \<Rightarrow> 'w \<Rightarrow> int \<times> 'w tcp_bio option" where
  "transport_bio_buffered_new alloc al next w =
     (if \<not> alloc then (-1, None)
      else
        let zero = \<lparr>rb_initialSize = 0, rb_freeSize = 0, rb_size = 0, rb_readPtr = 0, rb_writePtr = 0, rb_buffer = []\<rparr>;
            (ok, rb) = ringbuffer_init al zero 0x10000;
            b = \<lparr>xmitBuffer = rb, readBlocked = False, writeBlocked = False, bs_flags = no_flags\<lparr>fl_retry := True\<rparr>,
                 next_bio = next, net = w\<rparr>
        in (if ok then 1 else -1, Some b))"


subsection \<open>Every byte is sent once and in order\<close>

text \<open>
  What \<open>send\<close> promises: it takes a prefix of the bytes it is given, of the length it
  returns, and puts it on the \<open>wire\<close>; with an error it takes nothing.
\<close>

definition send_ok :: "'w net_ops \<Rightarrow> ('w \<Rightarrow> byte list) \<Rightarrow> bool" where
  "send_ok ops wire \<longleftrightarrow> (\<forall>xs w. case net_send ops xs w of (status, error, w') \<Rightarrow>
     status \<le> int (length xs) \<and> wire w' = wire w @ take (nat status) xs)"

text \<open>Sending changes the socket and the network only.\<close>

definition same_front :: "'w tcp_bio \<Rightarrow> 'w tcp_bio \<Rightarrow> bool" where
  "same_front b b' \<longleftrightarrow> xmitBuffer b' = xmitBuffer b \<and> writeBlocked b' = writeBlocked b \<and> readBlocked b' = readBlocked b \<and>
     bs_flags b' = bs_flags b"

lemma same_front_simps [simp]:
  "same_front b b" "same_front b (b\<lparr>next_bio := n, net := w\<rparr>)" "same_front (b\<lparr>next_bio := n, net := w\<rparr>) b' = same_front b b'"
  by (simp_all add: same_front_def)

lemma same_front_trans [trans]: "same_front b b1 \<Longrightarrow> same_front b1 b2 \<Longrightarrow> same_front b b2"
  by (simp add: same_front_def)

lemma simple_write_cases:
  assumes "send_ok ops wire" "transport_bio_simple_write ops (Some xs) bio w = (status, bio', w')"
  shows "status \<le> int (length xs)" "wire w' = wire w @ take (nat status) xs"
    "status \<le> 0 \<Longrightarrow> fl_retry (ss_flags bio') \<Longrightarrow> fl_write (ss_flags bio')"
proof -
  obtain st er w1 where s: "net_send ops xs w = (st, er, w1)" by (metis prod_cases3)
  then have eq: "status = st" "w' = w1" using assms(2) by (auto simp: transport_bio_simple_write_def Let_def split: if_splits)
  show "status \<le> int (length xs)" "wire w' = wire w @ take (nat status) xs"
    using assms(1) s unfolding send_ok_def eq by (metis (mono_tags, lifting) case_prod_conv)+
  show "status \<le> 0 \<Longrightarrow> fl_retry (ss_flags bio') \<Longrightarrow> fl_write (ss_flags bio')"
    using assms(2) s by (auto simp: transport_bio_simple_write_def Let_def split: if_splits)
qed

lemma buffered_send_cases:
  assumes send: "send_ok ops wire" and chunk: "mem_read buf data sz = Some xs" "sz < 2 ^ 31"
  shows "\<exists>r k b'. buffered_send ops buf data sz committed b = Some (r, committed + int k, b') \<and> k \<le> sz \<and>
    (r = SentAll) = (k = sz) \<and> wire (net b') = wire (net b) @ take k xs \<and> same_front b b'"
  using chunk
proof (induction sz arbitrary: data committed b xs rule: less_induct)
  case (less sz)
  show ?case
  proof (cases "sz = 0")
    case True
    then show ?thesis using less.prems by (subst buffered_send.simps) (auto simp: mem_read_def intro!: exI [of _ 0])
  next
    case False
    obtain st nb w where w: "transport_bio_simple_write ops (Some xs) (next_bio b) (net b) = (st, nb, w)" by (metis prod_cases3)
    note s = simple_write_cases [OF send w]
    have xs: "length xs = sz" and c: "size_of_int (c_int sz) = sz"
      using less.prems by (auto simp: mem_read_def split: if_splits)
    let ?b = "b\<lparr>next_bio := nb, net := w\<rparr>"
    show ?thesis
    proof (cases "st \<le> 0")
      case True
      with s w False c less.prems(1) show ?thesis
        by (subst buffered_send.simps) (cases "fl_retry (ss_flags nb)", auto intro!: exI [of _ 0])
    next
      case pos: False
      define n where "n = nat st"
      have n: "st = int n" "0 < n" "n \<le> sz" using pos s(1) xs by (auto simp: n_def)
      have m: "size_sub sz (size_of_int st) = sz - n" "nat (int data + st) = data + n" using n less.prems(2) by auto
      have rd: "mem_read buf (data + n) (sz - n) = Some (drop n xs)"
        using less.prems(1) n by (auto simp: mem_read_def drop_take ac_simps split: if_splits)
      have "sz - n < sz" "sz - n < 2 ^ 31" using n less.prems(2) by auto
      from less.IH [OF this(1) rd this(2), of "committed + int n" ?b] obtain r k b' where
        k: "buffered_send ops buf (data + n) (sz - n) (committed + int n) ?b = Some (r, committed + int n + int k, b')" "k \<le> sz - n"
          "(r = SentAll) = (k = sz - n)" "wire (net b') = wire (net ?b) @ take k (drop n xs)" "same_front ?b b'"
        by blast
      have "buffered_send ops buf data sz committed b = Some (r, committed + int (n + k), b')"
        using False pos w c less.prems(1) m k(1) n by (subst buffered_send.simps) (simp add: add.assoc)
      moreover have "wire (net b') = wire (net b) @ take (n + k) xs" using k(4) s(2) n(1) by (simp add: take_add)
      ultimately show ?thesis using k n by (intro exI [of _ r] exI [of _ "n + k"] exI [of _ b']) auto
    qed
  qed
qed

lemma buffered_send_chunks_cases:
  assumes send: "send_ok ops wire" and "map (chunk_bytes rb) cs = map Some xss" "length (concat xss) < 2 ^ 31"
  shows "\<exists>r k b'. buffered_send_chunks ops (rb_buffer rb) cs committed b = Some (r, committed + int k, b') \<and> k \<le> length (concat xss) \<and>
    (r = SentAll) = (k = length (concat xss)) \<and> wire (net b') = wire (net b) @ take k (concat xss) \<and>
    same_front b b'"
  using assms(2,3)
proof (induction cs arbitrary: xss committed b)
  case Nil
  then show ?case by (auto intro!: exI [of _ 0])
next
  case (Cons c cs)
  from Cons.prems(1) obtain xs yss where xss: "xss = xs # yss" and c: "chunk_bytes rb c = Some xs"
    and cs: "map (chunk_bytes rb) cs = map Some yss" by (cases xss) auto
  note rd = c [unfolded chunk_bytes_def]
  have len: "dc_size c = length xs" using rd by (auto simp: mem_read_def split: if_splits)
  have small: "dc_size c < 2 ^ 31" "length (concat yss) < 2 ^ 31" using Cons.prems(2) xss len by auto
  from buffered_send_cases [OF send rd small(1), of committed b] obtain r k b1 where
    1: "buffered_send ops (rb_buffer rb) (dc_data c) (dc_size c) committed b = Some (r, committed + int k, b1)" "k \<le> length xs"
      "(r = SentAll) = (k = length xs)" "wire (net b1) = wire (net b) @ take k xs" "same_front b b1"
    unfolding len by blast
  show ?case
  proof (cases "r = SentAll")
    case True
    from Cons.IH [OF cs small(2), of "committed + int k" b1] obtain r' k' b2 where
      2: "buffered_send_chunks ops (rb_buffer rb) cs (committed + int k) b1 = Some (r', committed + int k + int k', b2)"
        "k' \<le> length (concat yss)" "(r' = SentAll) = (k' = length (concat yss))" "wire (net b2) = wire (net b1) @ take k' (concat yss)"
        "same_front b1 b2" by blast
    then show ?thesis using 1 True xss by (intro exI [of _ r'] exI [of _ "k + k'"] exI [of _ b2])
      (auto simp: add.assoc intro: same_front_trans)
  next
    case False
    then show ?thesis using 1 xss by (intro exI [of _ r] exI [of _ k] exI [of _ b1]) auto
  qed
qed


lemma buffered_drain_cases:
  assumes wf: "rb_wf (xmitBuffer b)" and size: "rb_size (xmitBuffer b) < 2 ^ 31" and al: "fresh_ok al" and send: "send_ok ops wire"
    and wb: "\<not> writeBlocked b"
  shows "\<exists>status b'. buffered_drain al ops num b = Some (status, b') \<and> rb_wf (xmitBuffer b') \<and>
    rb_size (xmitBuffer b') \<le> rb_size (xmitBuffer b) \<and> (status = num \<or> status = -1) \<and>
    wire (net b') @ rb_contents (xmitBuffer b') = wire (net b) @ rb_contents (xmitBuffer b) \<and>
    (status = -1 \<and> \<not> fl_retry (bs_flags b') \<or> status = num \<and> writeBlocked b' = (rb_contents (xmitBuffer b') \<noteq> []))"
proof -
  let ?rb = "xmitBuffer b" and ?u = "ringbuffer_used (xmitBuffer b)"
  have w: "?u \<le> rb_size ?rb" "rb_initialSize ?rb \<le> rb_size ?rb" using wf ringbuffer_used_wf [OF wf] by (auto simp: rb_wf_def)
  have "?u < 2 ^ 64" using w size by simp
  from ringbuffer_peek_cases [OF wf this] obtain xss where p: "map (chunk_bytes ?rb) (ringbuffer_peek ?rb ?u) = map Some xss"
    "concat xss = rb_contents ?rb" using length_rb_contents [OF wf] by auto
  have len: "length (concat xss) = ?u" using p(2) length_rb_contents [OF wf] by simp
  then have "length (concat xss) < 2 ^ 31" using w size by simp
  from buffered_send_chunks_cases [OF send p(1) this, of 0 b] obtain r k b1 where
    r: "buffered_send_chunks ops (rb_buffer ?rb) (ringbuffer_peek ?rb ?u) 0 b = Some (r, int k, b1)" "k \<le> ?u" "(r = SentAll) = (k = ?u)"
      "wire (net b1) = wire (net b) @ take k (rb_contents ?rb)" "same_front b b1" unfolding len unfolding p(2) by auto
  from ringbuffer_commit_read_cases [OF wf al r(2)] obtain rb where c: "ringbuffer_commit_read_bytes al ?rb k = Some rb" "rb_wf rb"
    "rb_contents rb = drop k (rb_contents ?rb)" "rb_size rb = rb_size ?rb \<or> rb_size rb = rb_initialSize ?rb" by blast
  have k: "size_of_int (int k) = k" using r(2) w size by simp
  have empty: "rb_contents rb = [] \<longleftrightarrow> r = SentAll" using c(3) r(2,3) length_rb_contents [OF wf] by auto
  have x: "xmitBuffer b1 = ?rb" "\<not> writeBlocked b1" using r(5) wb by (auto simp: same_front_def)
  have sent: "wire (net b1) @ rb_contents rb = wire (net b) @ rb_contents ?rb" using r(4) c(3) by simp
  show ?thesis using r(1) c x k sent empty w unfolding buffered_drain_def by (cases r) auto
qed

lemma buffered_write_cases:
  assumes wf: "rb_wf (xmitBuffer b)" and room: "rb_size (xmitBuffer b) + length xs < 2 ^ 31" and al: "fresh_ok al" "fresh_ok al'"
    and send: "send_ok ops wire"
  shows "\<exists>status b' ok. transport_bio_buffered_write al al' ops (Some xs) (int (length xs)) b = Some (status, b') \<and>
    rb_wf (xmitBuffer b') \<and> rb_size (xmitBuffer b') \<le> rb_size (xmitBuffer b) + length xs \<and>
    wire (net b') @ rb_contents (xmitBuffer b') = wire (net b) @ rb_contents (xmitBuffer b) @ (if ok then xs else []) \<and>
    (status = -1 \<or> ok \<and> status = int (length xs) \<and> writeBlocked b' = (rb_contents (xmitBuffer b') \<noteq> []))"
proof -
  have "rb_room (length xs) (xmitBuffer b)" using room by (simp add: rb_room_def)
  from ringbuffer_write_cases [OF wf al(1) this] obtain ok rb where w: "ringbuffer_write al (xmitBuffer b) xs (length xs) = Some (ok, rb)"
    "rb_wf rb" "rb_size rb \<le> rb_size (xmitBuffer b) + length xs" "rb_contents rb = rb_contents (xmitBuffer b) @ (if ok then xs else [])"
    by blast
  let ?b = "b\<lparr>writeBlocked := False, bs_flags := (bs_flags b)\<lparr>fl_write := False\<rparr>\<rparr>"
  define rb' where "rb' = (if xs = [] then xmitBuffer b else rb)"
  define ok' where "ok' = (xs = [] \<or> ok)"
  let ?b1 = "?b\<lparr>xmitBuffer := rb'\<rparr>"
  have w': "rb_wf rb'" "rb_size rb' \<le> rb_size (xmitBuffer b) + length xs" "rb_contents rb' = rb_contents (xmitBuffer b) @ (if ok' then xs else [])"
    using w wf by (auto simp: rb'_def ok'_def)
  have eq: "transport_bio_buffered_write al al' ops (Some xs) (int (length xs)) b =
    (if \<not> ok' then Some (-1, ?b1) else buffered_drain al' ops (int (length xs)) ?b1)"
    using w(1) room by (auto simp: transport_bio_buffered_write_def rb'_def ok'_def)
  show ?thesis
  proof (cases ok')
    case True
    have "rb_wf (xmitBuffer ?b1)" "rb_size (xmitBuffer ?b1) < 2 ^ 31" "\<not> writeBlocked ?b1" using w' room by auto
    from buffered_drain_cases [OF this(1,2) al(2) send this(3), of "int (length xs)"] obtain status b' where
      d: "buffered_drain al' ops (int (length xs)) ?b1 = Some (status, b')" "rb_wf (xmitBuffer b')"
        "rb_size (xmitBuffer b') \<le> rb_size rb'" "status = int (length xs) \<or> status = -1"
        "wire (net b') @ rb_contents (xmitBuffer b') = wire (net b) @ rb_contents rb'"
        "status = -1 \<and> \<not> fl_retry (bs_flags b') \<or> status = int (length xs) \<and> writeBlocked b' = (rb_contents (xmitBuffer b') \<noteq> [])" by auto
    then show ?thesis using eq True w' by (intro exI [of _ status] exI [of _ b'] exI [of _ True]) auto
  next
    case False
    then show ?thesis using eq w' by (intro exI [of _ "-1"] exI [of _ ?b1] exI [of _ False]) auto
  qed
qed


lemma buffered_flush_cases:
  assumes wf: "rb_wf (xmitBuffer b)" and room: "rb_size (xmitBuffer b) < 2 ^ 31" and al: "fresh_ok al'" and send: "send_ok ops wire"
  shows "\<exists>status b'. transport_bio_buffered_ctrl al al' ops BIO_CTRL_FLUSH b = Some (status, NoArg, b') \<and>
    rb_wf (xmitBuffer b') \<and> rb_size (xmitBuffer b') \<le> rb_size (xmitBuffer b) \<and>
    wire (net b') @ rb_contents (xmitBuffer b') = wire (net b) @ rb_contents (xmitBuffer b) \<and> (status = 1 \<or> status = -1)"
proof (cases "ringbuffer_used (xmitBuffer b) = 0")
  case True
  then show ?thesis using wf by (simp add: transport_bio_buffered_ctrl_def)
next
  case False
  let ?b = "b\<lparr>writeBlocked := False, bs_flags := (bs_flags b)\<lparr>fl_write := False\<rparr>\<rparr>"
  have "transport_bio_buffered_write al al' ops None 0 b = buffered_drain al' ops 0 ?b"
    by (simp add: transport_bio_buffered_write_def)
  moreover have "\<not> writeBlocked ?b" "rb_wf (xmitBuffer ?b)" "rb_size (xmitBuffer ?b) < 2 ^ 31" using wf room by simp_all
  from buffered_drain_cases [OF this(2,3) al send this(1), of 0] obtain status b' where
    "buffered_drain al' ops 0 ?b = Some (status, b')" "rb_wf (xmitBuffer b')" "rb_size (xmitBuffer b') \<le> rb_size (xmitBuffer b)"
    "status = 0 \<or> status = -1" "wire (net b') @ rb_contents (xmitBuffer b') = wire (net b) @ rb_contents (xmitBuffer b)" by auto
  ultimately show ?thesis using False by (auto simp: transport_bio_buffered_ctrl_def)
qed

text \<open>A run of the sender: messages to write and requests to flush.\<close>

datatype tx_op = TxWrite "byte list" | TxFlush

fun tx_run :: "byte blocks \<Rightarrow> byte blocks \<Rightarrow> 'w net_ops \<Rightarrow> tx_op list \<Rightarrow> 'w tcp_bio \<Rightarrow> (int list \<times> 'w tcp_bio) option" where
  "tx_run al al' ops [] b = Some ([], b)"
| "tx_run al al' ops (TxWrite xs # t) b = do {
     (status, b) \<leftarrow> transport_bio_buffered_write al al' ops (Some xs) (int (length xs)) b;
     (rs, b) \<leftarrow> tx_run al al' ops t b;
     Some (status # rs, b) }"
| "tx_run al al' ops (TxFlush # t) b = do {
     (status, _, b) \<leftarrow> transport_bio_buffered_ctrl al al' ops BIO_CTRL_FLUSH b;
     (rs, b) \<leftarrow> tx_run al al' ops t b;
     Some (status # rs, b) }"

fun tx_bytes :: "tx_op list \<Rightarrow> byte list" where
  "tx_bytes [] = []" | "tx_bytes (TxWrite xs # t) = xs @ tx_bytes t" | "tx_bytes (TxFlush # t) = tx_bytes t"

text \<open>
  Every byte is sent once and in order (C5): in any run of writes and flushes, however the
  socket splits, delays or refuses the data, no call leaves the buffer, and if no call
  reports an error, then what has gone out on the wire followed by what is still queued
  is exactly what was there before followed by all the messages.
\<close>

theorem tcp_tx_in_order:
  assumes "rb_wf (xmitBuffer b)" "rb_size (xmitBuffer b) + length (tx_bytes t) < 2 ^ 31" "fresh_ok al" "fresh_ok al'" "send_ok ops wire"
  shows "\<exists>rs b'. tx_run al al' ops t b = Some (rs, b') \<and> rb_wf (xmitBuffer b') \<and>
    ((\<forall>r \<in> set rs. r \<ge> 0) \<longrightarrow>
      wire (net b') @ rb_contents (xmitBuffer b') = wire (net b) @ rb_contents (xmitBuffer b) @ tx_bytes t)"
  using assms(1,2)
proof (induction t arbitrary: b)
  case Nil
  then show ?case by simp
next
  case (Cons op t)
  show ?case
  proof (cases op)
    case (TxWrite xs)
    have "rb_size (xmitBuffer b) + length xs < 2 ^ 31" using Cons.prems(2) TxWrite by simp
    from buffered_write_cases [OF Cons.prems(1) this assms(3-5)] obtain st b1 ok where
      1: "transport_bio_buffered_write al al' ops (Some xs) (int (length xs)) b = Some (st, b1)" "rb_wf (xmitBuffer b1)"
        "rb_size (xmitBuffer b1) \<le> rb_size (xmitBuffer b) + length xs"
        "wire (net b1) @ rb_contents (xmitBuffer b1) = wire (net b) @ rb_contents (xmitBuffer b) @ (if ok then xs else [])"
        "st = -1 \<or> ok" by blast
    have "rb_size (xmitBuffer b1) + length (tx_bytes t) < 2 ^ 31" using 1(3) Cons.prems(2) TxWrite by simp
    from Cons.IH [OF 1(2) this] obtain rs b' where "tx_run al al' ops t b1 = Some (rs, b')" "rb_wf (xmitBuffer b')"
      "(\<forall>r \<in> set rs. r \<ge> 0) \<longrightarrow> wire (net b') @ rb_contents (xmitBuffer b') = wire (net b1) @ rb_contents (xmitBuffer b1) @ tx_bytes t"
      by blast
    then show ?thesis using 1 TxWrite by (intro exI [of _ "st # rs"] exI [of _ b']) (auto simp flip: append_assoc)
  next
    case TxFlush
    have "rb_size (xmitBuffer b) < 2 ^ 31" using Cons.prems(2) by simp
    from buffered_flush_cases [OF Cons.prems(1) this assms(4,5)] obtain st b1 where
      1: "transport_bio_buffered_ctrl al al' ops BIO_CTRL_FLUSH b = Some (st, NoArg, b1)" "rb_wf (xmitBuffer b1)"
        "rb_size (xmitBuffer b1) \<le> rb_size (xmitBuffer b)"
        "wire (net b1) @ rb_contents (xmitBuffer b1) = wire (net b) @ rb_contents (xmitBuffer b)" by blast
    have "rb_size (xmitBuffer b1) + length (tx_bytes t) < 2 ^ 31" using 1(3) Cons.prems(2) TxFlush by simp
    from Cons.IH [OF 1(2) this] obtain rs b' where "tx_run al al' ops t b1 = Some (rs, b')" "rb_wf (xmitBuffer b')"
      "(\<forall>r \<in> set rs. r \<ge> 0) \<longrightarrow> wire (net b') @ rb_contents (xmitBuffer b') = wire (net b1) @ rb_contents (xmitBuffer b1) @ tx_bytes t"
      by blast
    then show ?thesis using 1 TxFlush by (intro exI [of _ "st # rs"] exI [of _ b']) (auto simp flip: append_assoc)
  qed
qed

text \<open>A network that takes at most two bytes at a time.\<close>

definition demo_net :: "(byte list \<times> byte list) net_ops" where
  "demo_net = \<lparr>net_send = (\<lambda>xs (out, inp). (int (min 2 (length xs)), 0, (out @ take 2 xs, inp))),
     net_recv = (\<lambda>n (out, inp). if inp = [] then (-1, WSAEWOULDBLOCK, [], (out, inp))
       else (int (min (min n 2) (length inp)), 0, take (min n 2) inp, (out, drop (min n 2) inp))),
     net_poll = (\<lambda>_ _ w. (1, False, w)), net_nonblock = (\<lambda>_ w. (True, w)), net_create_event = (\<lambda>w. (True, w)),
     net_event_select = (\<lambda>w. (False, w)), net_close = (\<lambda>_ w. w)\<rparr>"

lemma demo_net_send_ok: "send_ok demo_net fst"
  by (auto simp: send_ok_def demo_net_def min_def)

definition demo_bio :: "(byte list \<times> byte list) tcp_bio" where
  "demo_bio = \<lparr>xmitBuffer = demo_rb, readBlocked = False, writeBlocked = False, bs_flags = no_flags\<lparr>fl_retry := True\<rparr>,
     next_bio = \<lparr>ss_socket = 3, ss_event = Some False, ss_shutdown = 1, ss_init = True, ss_flags = no_flags\<lparr>fl_retry := True\<rparr>\<rparr>,
     net = ([], [])\<rparr>"

theorem tcp_tx_in_order_witness:
  "\<exists>rs b'. tx_run (zero_blocks 0) (zero_blocks 0) demo_net [TxWrite [5, 6, 7], TxFlush] demo_bio = Some (rs, b') \<and> rb_wf (xmitBuffer b') \<and>
    ((\<forall>r \<in> set rs. r \<ge> 0) \<longrightarrow>
      fst (net b') @ rb_contents (xmitBuffer b') =
        fst (net demo_bio) @ rb_contents (xmitBuffer demo_bio) @ tx_bytes [TxWrite [5, 6, 7], TxFlush])"
  by (rule tcp_tx_in_order) (simp_all add: demo_net_send_ok demo_bio_def demo_rb_wf, simp add: demo_rb_def)

text \<open>
  Failed waits are not reported: the commands \<open>BIO_C_WAIT_READ\<close> and \<open>BIO_C_WAIT_WRITE\<close> return
  0 whatever \<open>poll\<close> returned, since the \<open>switch\<close> that follows has no case for them; the
  callers' tests for a negative result never succeed.
\<close>

theorem bio_wait_hides_errors:
  assumes "cmd = BIO_C_WAIT_READ timeout \<or> cmd = BIO_C_WAIT_WRITE timeout"
    and "\<And>f w. net_poll ops f timeout w = (-1, False, w)"
  shows "transport_bio_buffered_ctrl al al' ops cmd b = Some (0, NoArg, b)"
proof -
  have "poll_loop ops f timeout (net b) = Some (-1, net b)" for f
    by (subst poll_loop.simps) (simp add: assms(2))
  with assms(1) show ?thesis by (auto simp: transport_bio_buffered_ctrl_def transport_bio_simple_ctrl_def)
qed

theorem bio_wait_hides_errors_witness:
  "transport_bio_buffered_ctrl (zero_blocks 0) (zero_blocks 0) (demo_net\<lparr>net_poll := (\<lambda>_ _ w. (-1, False, w))\<rparr>) (BIO_C_WAIT_READ 100) demo_bio =
    Some (0, NoArg, demo_bio)"
  by (rule bio_wait_hides_errors [where timeout = 100]) simp_all

end
