(* ===== verification/Transport.thy ===== *)
theory Transport
  imports WStream TcpBio
begin

text \<open>
  The transport of \<open>libfreerdp/core/transport.c\<close> between the protocol layers and the front
  BIO of the connection: reading one whole PDU (a TPKT packet, a fast-path PDU or a
  TSRequest of network level authentication), which may take several calls on a socket
  that does not block, and writing a stream. The front BIO is a record of operations on
  its state \<open>'b\<close>; the TCP BIOs of \<open>TcpBio\<close> are one instance, the TLS and gateway BIOs are
  others.
\<close>

record 'b bio_ops =
  bio_read :: "nat \<Rightarrow> 'b \<Rightarrow> int \<times> byte list \<times> 'b"
  bio_write :: "byte list \<Rightarrow> 'b \<Rightarrow> (int \<times> 'b) option"
  bio_should_retry :: "'b \<Rightarrow> bool"
  bio_wait_read :: "int \<Rightarrow> 'b \<Rightarrow> (int \<times> 'b) option"
  bio_wait_write :: "int \<Rightarrow> 'b \<Rightarrow> (int \<times> 'b) option"
  bio_write_blocked :: "'b \<Rightarrow> int"
  bio_flush :: "'b \<Rightarrow> (int \<times> 'b) option"

datatype TRANSPORT_LAYER = TRANSPORT_LAYER_TCP | TRANSPORT_LAYER_TLS | TRANSPORT_LAYER_TSG | TRANSPORT_LAYER_TSG_TLS | TRANSPORT_LAYER_CLOSED

record 'b rdpTransport =
  layer :: TRANSPORT_LAYER
  frontBio :: "'b option"
  NlaMode :: bool
  blocking :: bool
  WaitForOutputBufferFlush :: bool
  written :: u32

subsection \<open>Reading\<close>

text \<open>
  The loop of \<open>transport_read_layer\<close>: \<open>rd\<close> bytes of \<open>bytes\<close> have been read, \<open>got\<close> is what was
  stored at the destination. The second result tells whether the layer is closed.
\<close>

partial_function (option) read_layer_loop :: "'b bio_ops \<Rightarrow> bool \<Rightarrow> int \<Rightarrow> int \<Rightarrow> byte list \<Rightarrow> 'b \<Rightarrow> (int \<times> bool \<times> byte list \<times> 'b) option" where
  "read_layer_loop ops blk rd bytes got bio =
     (if rd < bytes then
        (case bio_read ops (nat (bytes - rd)) bio of (status, data, bio) \<Rightarrow>
           if status \<le> 0 then
             if \<not> bio_should_retry ops bio then Some (-1, True, got, bio)
             else if \<not> blk then Some (rd, False, got, bio)
             else do {
               (w, bio) \<leftarrow> bio_wait_read ops 100 bio;
               (if w < 0 then Some (-1, False, got, bio) else read_layer_loop ops blk rd bytes got bio) }
           else read_layer_loop ops blk (rd + status) bytes (got @ data) bio)
      else Some (rd, False, got, bio))"

definition transport_read_layer :: "'b bio_ops \<Rightarrow> 'b rdpTransport \<Rightarrow> int \<Rightarrow> (int \<times> byte list \<times> 'b rdpTransport) option" where
  "transport_read_layer ops transport bytes =
     (case frontBio transport of
        None \<Rightarrow> Some (-1, [], transport\<lparr>layer := TRANSPORT_LAYER_CLOSED\<rparr>)
      | Some bio \<Rightarrow> do {
          (status, closed, got, bio) \<leftarrow> read_layer_loop ops (blocking transport) 0 bytes [] bio;
          let transport = transport\<lparr>frontBio := Some bio\<rparr>;
          Some (status, got, if closed then transport\<lparr>layer := TRANSPORT_LAYER_CLOSED\<rparr> else transport) })"

text \<open>\<open>toRead\<close> is an \<open>unsigned int\<close>; the callers' differences wrap.\<close>

definition transport_read_layer_bytes :: "'b bio_ops \<Rightarrow> 'b rdpTransport \<Rightarrow> wStream \<Rightarrow> int \<Rightarrow> (int \<times> wStream \<times> 'b rdpTransport) option" where
  "transport_read_layer_bytes ops transport s toRead = do {
     let toRead = nat (toRead mod 2 ^ 32);
     (status, got, transport) \<leftarrow> transport_read_layer ops transport (c_int toRead);
     buf \<leftarrow> mem_write (s_buffer s) (s_pointer s) got;
     let s = s\<lparr>s_buffer := buf\<rparr>;
     (if status \<le> 0 then Some (status, s, transport)
      else Some (if status = int toRead then 1 else 0, Stream_Seek s (nat status), transport)) }"

text \<open>The idiom \<open>if (position < n && (status = transport_read_layer_bytes (...)) != 1) return status;\<close>\<close>

definition read_header_bytes :: "'b bio_ops \<Rightarrow> int \<Rightarrow> int \<Rightarrow> 'b rdpTransport \<Rightarrow> wStream \<Rightarrow> (int \<times> wStream \<times> 'b rdpTransport) option" where
  "read_header_bytes ops position n transport s =
     (if position < n then transport_read_layer_bytes ops transport s (n - position) else Some (1, s, transport))"

definition header_byte :: "wStream \<Rightarrow> nat \<Rightarrow> byte option" where
  "header_byte s i = map_option hd (mem_read (s_buffer s) i 1)"

text \<open>
  The part of \<open>transport_read_pdu\<close> that finds out the length of the PDU from its first
  bytes, reading more of them where the form of the length needs it; \<open>Inl\<close> is an early
  return.
\<close>

definition read_pdu_length :: "'b bio_ops \<Rightarrow> 'b rdpTransport \<Rightarrow> wStream \<Rightarrow> ((int + int) \<times> wStream \<times> 'b rdpTransport) option" where
  "read_pdu_length ops transport s = do {
     let position = c_int (Stream_GetPosition s);
     h0 \<leftarrow> header_byte s 0;
     h1 \<leftarrow> header_byte s 1;
     (if NlaMode transport then
        (if h0 = 0x30 then
           (if h1 AND 0x80 \<noteq> 0 then
              (if h1 AND NOT 0x80 = 1 then do {
                 (status, s, transport) \<leftarrow> read_header_bytes ops position 3 transport s;
                 (if status \<noteq> 1 then Some (Inl status, s, transport)
                  else do { h2 \<leftarrow> header_byte s 2; Some (Inr (uint h2 + 3), s, transport) }) }
               else if h1 AND NOT 0x80 = 2 then do {
                 (status, s, transport) \<leftarrow> read_header_bytes ops position 4 transport s;
                 (if status \<noteq> 1 then Some (Inl status, s, transport)
                  else do { h2 \<leftarrow> header_byte s 2; h3 \<leftarrow> header_byte s 3;
                    Some (Inr ((push_bit 8 (uint h2) OR uint h3) + 4), s, transport) }) }
               else Some (Inl (-1), s, transport))
            else Some (Inr (uint h1 + 2), s, transport))
         else Some (Inr 0, s, transport))
      else if h0 = 0x03 then do {
        (status, s, transport) \<leftarrow> read_header_bytes ops position 4 transport s;
        (if status \<noteq> 1 then Some (Inl status, s, transport)
         else do { h2 \<leftarrow> header_byte s 2; h3 \<leftarrow> header_byte s 3;
           let pduLength = push_bit 8 (uint h2) OR uint h3;
           Some (if pduLength < 7 \<or> pduLength > 0xFFFF then Inl (-1) else Inr pduLength, s, transport) }) }
      else do {
        (status, pduLength, s, transport) \<leftarrow> (if h1 AND 0x80 \<noteq> 0 then do {
             (status, s, transport) \<leftarrow> read_header_bytes ops position 3 transport s;
             (if status \<noteq> 1 then Some (status, 0, s, transport)
              else do { h2 \<leftarrow> header_byte s 2; Some (1, push_bit 8 (uint (h1 AND 0x7F)) OR uint h2, s, transport) }) }
           else Some (1, uint h1, s, transport));
        (if status \<noteq> 1 then Some (Inl status, s, transport)
         else Some (if pduLength < 3 \<or> pduLength > 0x8000 then Inl (-1) else Inr pduLength, s, transport)) }) }"

text \<open>Reading the rest of a PDU of known length.\<close>

definition read_pdu_body :: "alloc \<Rightarrow> 'b bio_ops \<Rightarrow> 'b rdpTransport \<Rightarrow> wStream \<Rightarrow> int \<Rightarrow> (int \<times> wStream \<times> 'b rdpTransport) option" where
  "read_pdu_body al ops transport s pduLength = do {
     (ok, s) \<leftarrow> Stream_EnsureCapacity al s (size_add (Stream_GetPosition s) (size_of_int pduLength));
     (if \<not> ok then Some (-1, s, transport)
      else do {
        (status, s, transport) \<leftarrow> transport_read_layer_bytes ops transport s (pduLength - int (Stream_GetPosition s));
        (if status \<noteq> 1 then Some (status, s, transport)
         else
           let s = Stream_SetPosition (Stream_SealLength s) 0
           in Some (c_int (Stream_Length s), s, transport)) }) }"

definition transport_read_pdu :: "alloc \<Rightarrow> alloc \<Rightarrow> 'b bio_ops \<Rightarrow> 'b rdpTransport \<Rightarrow> wStream \<Rightarrow> (int \<times> wStream \<times> 'b rdpTransport) option" where
  "transport_read_pdu al al' ops transport s = do {
     let position = c_int (Stream_GetPosition s);
     (ok, s) \<leftarrow> Stream_EnsureCapacity al s 4;
     (if \<not> ok then Some (-1, s, transport)
      else do {
        (status, s, transport) \<leftarrow> read_header_bytes ops position 2 transport s;
        (if status \<noteq> 1 then Some (status, s, transport)
         else do {
           (r, s, transport) \<leftarrow> read_pdu_length ops transport s;
           (case r of Inl status \<Rightarrow> Some (status, s, transport) | Inr pduLength \<Rightarrow> read_pdu_body al' ops transport s pduLength) }) }) }"

subsection \<open>Writing\<close>

text \<open>The inner loop that waits until the output buffer is flushed; \<open>False\<close> is an error.\<close>

partial_function (option) flush_loop :: "'b bio_ops \<Rightarrow> 'b \<Rightarrow> (bool \<times> 'b) option" where
  "flush_loop ops bio =
     (if bio_write_blocked ops bio \<noteq> 0 then do {
        (w, bio) \<leftarrow> bio_wait_write ops 100 bio;
        (if w < 0 then Some (False, bio)
         else do {
           (f, bio) \<leftarrow> bio_flush ops bio;
           (if f < 1 then Some (False, bio) else flush_loop ops bio) }) }
      else Some (True, bio))"

text \<open>
  The loop of \<open>transport_write\<close> over the bytes from the cursor on; \<open>status\<close> is that of the
  last call. The second result tells whether the loop ended normally.
\<close>

partial_function (option) write_loop :: "'b bio_ops \<Rightarrow> bool \<Rightarrow> bool \<Rightarrow> int \<Rightarrow> int \<Rightarrow> wStream \<Rightarrow> 'b \<Rightarrow> (int \<times> bool \<times> wStream \<times> 'b) option" where
  "write_loop ops blk wait_flush len status s bio =
     (if len > 0 then do {
        xs \<leftarrow> mem_read (s_buffer s) (s_pointer s) (nat len);
        (status, bio) \<leftarrow> bio_write ops xs bio;
        (if status \<le> 0 then
           (if \<not> bio_should_retry ops bio then Some (status, False, s, bio)
            else if \<not> blk then Some (status, False, s, bio)
            else do {
              (w, bio) \<leftarrow> bio_wait_write ops 100 bio;
              (if w < 0 then Some (-1, False, s, bio) else write_loop ops blk wait_flush len status s bio) })
         else do {
           (ok, bio) \<leftarrow> (if blk \<or> wait_flush then flush_loop ops bio else Some (True, bio));
           (if \<not> ok then Some (-1, False, s, bio)
            else write_loop ops blk wait_flush (len - status) status (Stream_Seek s (nat status)) bio) }) }
      else Some (status, True, s, bio))"

text \<open>The stream is released at the end; the front BIO is set while the connection is up.\<close>

definition transport_write :: "'b bio_ops \<Rightarrow> 'b rdpTransport \<Rightarrow> wStream \<Rightarrow> (int \<times> 'b rdpTransport) option" where
  "transport_write ops transport s = do {
     let len = c_int (Stream_GetPosition s);
     let s = Stream_SetPosition s 0;
     bio \<leftarrow> frontBio transport;
     (status, finished, s, bio) \<leftarrow> write_loop ops (blocking transport) (WaitForOutputBufferFlush transport) len (-1) s bio;
     let transport = transport\<lparr>frontBio := Some bio\<rparr>;
     let transport = (if finished then transport\<lparr>written := written transport + word_of_int len\<rparr> else transport);
     Some (status, if status < 0 then transport\<lparr>layer := TRANSPORT_LAYER_CLOSED\<rparr> else transport) }"

definition transport_is_write_blocked :: "'b bio_ops \<Rightarrow> 'b rdpTransport \<Rightarrow> int option" where
  "transport_is_write_blocked ops transport = map_option (bio_write_blocked ops) (frontBio transport)"

definition transport_drain_output_buffer :: "'b bio_ops \<Rightarrow> 'b rdpTransport \<Rightarrow> (int \<times> 'b rdpTransport) option" where
  "transport_drain_output_buffer ops transport = do {
     bio \<leftarrow> frontBio transport;
     (if bio_write_blocked ops bio \<noteq> 0 then do {
        (f, bio) \<leftarrow> bio_flush ops bio;
        let transport = transport\<lparr>frontBio := Some bio\<rparr>;
        Some (if f < 1 then -1 else bio_write_blocked ops bio, transport) }
      else Some (0, transport)) }"

definition transport_set_nla_mode :: "'b rdpTransport \<Rightarrow> bool \<Rightarrow> 'b rdpTransport" where
  "transport_set_nla_mode transport mode = transport\<lparr>NlaMode := mode\<rparr>"


subsection \<open>The framing of PDUs\<close>

text \<open>
  How many bytes the header of a PDU with the first two bytes \<open>h0\<close> and \<open>h1\<close> has, \<^const>\<open>None\<close>
  when it is malformed; and the length that a complete header states, \<^const>\<open>None\<close> when it is out
  of range. In NLA mode a message that is not a TSRequest gets the length 0.
\<close>

definition pdu_hdr :: "bool \<Rightarrow> byte \<Rightarrow> byte \<Rightarrow> nat option" where
  "pdu_hdr nla h0 h1 =
     (if nla then
        (if h0 = 0x30 \<and> h1 AND 0x80 \<noteq> 0 then
           (if h1 AND NOT 0x80 = 1 then Some 3 else if h1 AND NOT 0x80 = 2 then Some 4 else None)
         else Some 2)
      else if h0 = 0x03 then Some 4
      else if h1 AND 0x80 \<noteq> 0 then Some 3 else Some 2)"

definition pdu_len :: "bool \<Rightarrow> byte list \<Rightarrow> nat option" where
  "pdu_len nla bs =
     (let n = (if nla then
                 (if bs ! 0 = 0x30 then
                    (if bs ! 1 AND 0x80 \<noteq> 0 then
                       (if bs ! 1 AND NOT 0x80 = 1 then unat (bs ! 2) + 3 else unat (bs ! 2) * 256 + unat (bs ! 3) + 4)
                     else unat (bs ! 1) + 2)
                  else 0)
               else if bs ! 0 = 0x03 then unat (bs ! 2) * 256 + unat (bs ! 3)
               else if bs ! 1 AND 0x80 \<noteq> 0 then unat (bs ! 1 AND 0x7F) * 256 + unat (bs ! 2)
               else unat (bs ! 1));
          least = (if nla then 0 else if bs ! 0 = 0x03 then 7 else 3)
      in if n < least then None else Some n)"

text \<open>A complete PDU, and the bytes of one that is not complete yet.\<close>

definition pdu_complete :: "bool \<Rightarrow> byte list \<Rightarrow> bool" where
  "pdu_complete nla bs \<longleftrightarrow> 2 \<le> length bs \<and> (\<exists>k. pdu_hdr nla (bs ! 0) (bs ! 1) = Some k \<and> k \<le> length bs) \<and>
     pdu_len nla bs = Some (length bs)"

definition pdu_partial :: "bool \<Rightarrow> byte list \<Rightarrow> bool" where
  "pdu_partial nla bs \<longleftrightarrow> (2 \<le> length bs \<longrightarrow> (case pdu_hdr nla (bs ! 0) (bs ! 1) of None \<Rightarrow> False
     | Some k \<Rightarrow> k \<le> length bs \<longrightarrow> (case pdu_len nla bs of None \<Rightarrow> False | Some n \<Rightarrow> length bs = k \<or> length bs < n)))"

text \<open>A start that cannot be one of a PDU with a body.\<close>

definition pdu_bad :: "bool \<Rightarrow> byte list \<Rightarrow> bool" where
  "pdu_bad nla bs \<longleftrightarrow> 2 \<le> length bs \<and> (case pdu_hdr nla (bs ! 0) (bs ! 1) of None \<Rightarrow> True
     | Some k \<Rightarrow> k \<le> length bs \<and> (case pdu_len nla bs of None \<Rightarrow> True | Some n \<Rightarrow> n \<le> k))"

lemma uint_pair: "push_bit 8 (uint (h :: byte)) OR uint (l :: byte) = int (unat h * 256 + unat l)"
proof -
  have "push_bit 8 (uint h) AND uint l = 0"
  proof (rule bit_eqI)
    fix n show "bit (push_bit 8 (uint h) AND uint l) n = bit (0 :: int) n" using bit_uint_iff [of l n] by (auto simp: bit_simps)
  qed
  then have "push_bit 8 (uint h) OR uint l = push_bit 8 (uint h) + uint l" by (simp add: disjunctive_add_eq_or)
  then show ?thesis by (simp add: push_bit_eq_mult)
qed

lemma uint_pair': "push_bit 8 (uint (h :: byte)) OR uint (l :: byte) = uint h * 256 + uint l"
  using uint_pair [of h l] by simp

lemma unat_pair_less: "unat (h :: byte) * 256 + unat (l :: byte) < numeral k \<longleftrightarrow> uint h * 256 + uint l < numeral k"
proof -
  have eq: "int (unat h * 256 + unat l) = uint h * 256 + uint l" by simp
  show ?thesis unfolding eq [symmetric] by (rule of_nat_less_numeral_iff [symmetric])
qed

lemma uint_byte_bounds: "uint (x :: byte) < 3 \<longleftrightarrow> unat x < 3" "\<not> 0x8000 < uint x"
proof -
  have "uint x < 2 ^ LENGTH(8)" by (rule unsigned_less)
  then show "\<not> 0x8000 < uint x" by simp
  show "uint x < 3 \<longleftrightarrow> unat x < 3" unfolding unat_eq_nat_uint by (subst nat_less_iff) simp_all
qed

lemma pdu_len_bound: "pdu_len nla bs = Some n \<Longrightarrow> n < 2 ^ 17"
proof -
  have "unat (b :: byte) < 256" for b using unsigned_less [of b] by simp
  then have "unat (bs ! 2) < 256" "unat (bs ! 3) < 256" "unat (bs ! 1) < 256" "unat (bs ! 1 AND 0x7F) < 256" by blast+
  then show "pdu_len nla bs = Some n \<Longrightarrow> n < 2 ^ 17" unfolding pdu_len_def Let_def
    by (simp split: if_splits)
qed

lemma pdu_hdr_bounds: "pdu_hdr nla h0 h1 = Some k \<Longrightarrow> 2 \<le> k \<and> k \<le> 4"
  by (auto simp: pdu_hdr_def split: if_splits)

text \<open>The stated length depends on the header only.\<close>

lemma pdu_len_cong:
  assumes "pdu_hdr nla (bs ! 0) (bs ! 1) = Some k" "\<And>i. i < k \<Longrightarrow> cs ! i = bs ! i"
  shows "pdu_len nla cs = pdu_len nla bs"
proof -
  have e: "cs ! 0 = bs ! 0" "cs ! 1 = bs ! 1" using pdu_hdr_bounds [OF assms(1)] assms(2) by auto
  have "2 < k \<Longrightarrow> cs ! 2 = bs ! 2" "3 < k \<Longrightarrow> cs ! 3 = bs ! 3" using assms(2) by auto
  then show ?thesis using assms(1) unfolding pdu_len_def pdu_hdr_def Let_def e by (auto split: if_splits)
qed


subsection \<open>The front BIO as a source of bytes\<close>

text \<open>
  A stream that \<open>transport_read_pdu\<close> fills: its buffer is allocated, not empty, and holds
  the cursor. \<^const>\<open>stream_bytes\<close> are the bytes read so far.
\<close>

definition reader_inv :: "wStream \<Rightarrow> bool" where
  "reader_inv s \<longleftrightarrow> s_capacity s = length (s_buffer s) \<and> 0 < s_capacity s \<and> s_pointer s \<le> s_capacity s \<and> s_pointer s < 2 ^ 30"

lemma stream_bytes_length: "reader_inv s \<Longrightarrow> length (stream_bytes s) = s_pointer s"
  by (simp add: reader_inv_def stream_bytes_def)

lemma header_byte_bytes: "reader_inv s \<Longrightarrow> i < length (stream_bytes s) \<Longrightarrow> header_byte s i = Some (stream_bytes s ! i)"
  by (simp add: header_byte_def reader_inv_def stream_bytes_def)

lemma ensure_capacity_keeps:
  assumes "reader_inv s" "alloc_ok al" "sz \<le> 2 ^ 63"
  shows "\<exists>ok s'. Stream_EnsureCapacity al s sz = Some (ok, s') \<and> reader_inv s' \<and> stream_bytes s' = stream_bytes s \<and>
    s_pointer s' = s_pointer s \<and> (if ok then sz \<le> length (s_buffer s') else s' = s)"
proof (cases "s_capacity s < sz")
  case False
  then have "Stream_EnsureCapacity al s sz = Some (True, s)" "sz \<le> length (s_buffer s)"
    using assms(1) by (simp_all add: Stream_EnsureCapacity_def reader_inv_def)
  with assms(1) show ?thesis by (intro exI [of _ True] exI [of _ s]) simp
next
  case True
  have "s_capacity s = length (s_buffer s)" "0 < s_capacity s" using assms(1) by (auto simp: reader_inv_def)
  from Stream_EnsureCapacity_grows [OF assms(2) this True assms(3)] show ?thesis
  proof (elim disjE exE conjE)
    assume "Stream_EnsureCapacity al s sz = Some (False, s)"
    with assms(1) show ?thesis by (intro exI [of _ False] exI [of _ s]) simp
  next
    fix c assume c: "sz \<le> c" "Stream_EnsureCapacity al s sz =
      Some (True, s\<lparr>s_buffer := s_buffer s @ replicate (c - s_capacity s) 0, s_capacity := c, s_length := c\<rparr>)"
    let ?s = "s\<lparr>s_buffer := s_buffer s @ replicate (c - s_capacity s) 0, s_capacity := c, s_length := c\<rparr>"
    have "reader_inv ?s \<and> stream_bytes ?s = stream_bytes s \<and> s_pointer ?s = s_pointer s \<and> sz \<le> length (s_buffer ?s)"
      using assms(1) True c(1) by (auto simp: reader_inv_def stream_bytes_def)
    with c(2) show ?thesis by (intro exI [of _ True] exI [of _ ?s]) simp
  qed
qed

text \<open>
  The contract of a front BIO for reading: \<open>inp\<close> is what is still to be received. A
  successful read stores a prefix of it of the length it returns; any other read leaves it.
  A BIO is eager when a read succeeds whenever something is there.
\<close>

definition bio_eager :: "'b bio_ops \<Rightarrow> ('b \<Rightarrow> byte list) \<Rightarrow> bool" where
  "bio_eager ops inp \<longleftrightarrow> (\<forall>n bio. 0 < n \<longrightarrow> inp bio \<noteq> [] \<longrightarrow> fst (bio_read ops n bio) > 0)"

text \<open>The transport took the bytes \<open>c\<close> from its front BIO, and what it still has to take.\<close>

definition took :: "('b \<Rightarrow> byte list) \<Rightarrow> 'b rdpTransport \<Rightarrow> byte list \<Rightarrow> 'b rdpTransport \<Rightarrow> bool" where
  "took inp t c t' \<longleftrightarrow> (\<exists>bio bio'. frontBio t = Some bio \<and> frontBio t' = Some bio' \<and> inp bio = c @ inp bio') \<and>
     NlaMode t' = NlaMode t \<and> blocking t' = blocking t"

definition pending :: "('b \<Rightarrow> byte list) \<Rightarrow> 'b rdpTransport \<Rightarrow> byte list" where
  "pending inp t = (case frontBio t of None \<Rightarrow> [] | Some bio \<Rightarrow> inp bio)"

lemma took_trans: "took inp t c t1 \<Longrightarrow> took inp t1 d t2 \<Longrightarrow> took inp t (c @ d) t2"
  by (auto simp: took_def)

lemma took_refl: "frontBio t \<noteq> None \<Longrightarrow> took inp t [] t"
  by (auto simp: took_def)

lemma took_front: "took inp t c t' \<Longrightarrow> frontBio t' \<noteq> None"
  by (auto simp: took_def)

lemma took_pending: "took inp t c t' \<Longrightarrow> pending inp t = c @ pending inp t'"
  by (auto simp: took_def pending_def)

locale front_bio =
  fixes ops :: "'b bio_ops" and inp :: "'b \<Rightarrow> byte list"
  assumes read_law: "0 < n \<Longrightarrow> bio_read ops n bio = (status, data, bio') \<Longrightarrow> status \<le> int n \<and>
    (if status > 0 then length data = nat status \<and> inp bio = data @ inp bio' else inp bio' = inp bio)"
begin

lemma read_layer_nonblocking:
  assumes "0 \<le> rd" "rd \<le> bytes"
  shows "\<exists>st closed xs bio'. read_layer_loop ops False rd bytes got bio = Some (st, closed, got @ xs, bio') \<and>
    inp bio = xs @ inp bio' \<and> rd + int (length xs) \<le> bytes \<and> st = (if closed then -1 else rd + int (length xs)) \<and>
    (closed \<longrightarrow> rd + int (length xs) < bytes) \<and>
    (bio_eager ops inp \<longrightarrow> rd + int (length xs) < bytes \<longrightarrow> inp bio' = [])"
  using assms
proof (induction "nat (bytes - rd)" arbitrary: rd got bio rule: less_induct)
  case less
  show ?case
  proof (cases "rd < bytes")
    case False
    then have "read_layer_loop ops False rd bytes got bio = Some (rd, False, got @ [], bio)"
      by (subst read_layer_loop.simps) simp
    then show ?thesis using False less.prems
      by (intro exI [of _ rd] exI [of _ False] exI [of _ "[]"] exI [of _ bio]) simp
  next
    case True
    obtain st data b1 where r: "bio_read ops (nat (bytes - rd)) bio = (st, data, b1)" by (metis prod_cases3)
    from True have "0 < nat (bytes - rd)" by simp
    note law = read_law [OF this r]
    show ?thesis
    proof (cases "st \<le> 0")
      case st: True
      have same: "inp b1 = inp bio" using law st by simp
      have "fst (bio_read ops (nat (bytes - rd)) bio) \<le> 0" using r st by simp
      then have e: "bio_eager ops inp \<longrightarrow> inp b1 = []"
        unfolding bio_eager_def same using \<open>0 < nat (bytes - rd)\<close> not_less by blast
      have "read_layer_loop ops False rd bytes got bio =
        Some (if bio_should_retry ops b1 then rd else -1, \<not> bio_should_retry ops b1, got @ [], b1)"
        using True r st by (subst read_layer_loop.simps) simp
      with e same True show ?thesis
        by (intro exI [of _ "if bio_should_retry ops b1 then rd else -1"] exI [of _ "\<not> bio_should_retry ops b1"]
            exI [of _ "[]"] exI [of _ b1]) simp
    next
      case pos: False
      then have st: "st \<le> bytes - rd" "length data = nat st" "inp bio = data @ inp b1" using law True by auto
      have "nat (bytes - (rd + st)) < nat (bytes - rd)" "0 \<le> rd + st" "rd + st \<le> bytes" using pos st less.prems True by auto
      from less.hyps [OF this, of "got @ data" b1] obtain st' closed xs b' where
        i: "read_layer_loop ops False (rd + st) bytes (got @ data) b1 = Some (st', closed, got @ data @ xs, b')" "inp b1 = xs @ inp b'"
          "rd + st + int (length xs) \<le> bytes" "st' = (if closed then -1 else rd + st + int (length xs))"
          "closed \<longrightarrow> rd + st + int (length xs) < bytes"
          "bio_eager ops inp \<longrightarrow> rd + st + int (length xs) < bytes \<longrightarrow> inp b' = []" by auto
      have "read_layer_loop ops False rd bytes got bio = Some (st', closed, got @ data @ xs, b')"
        using True r pos i(1) by (subst read_layer_loop.simps) simp
      moreover have "int (length (data @ xs)) = st + int (length xs)" using st pos by simp
      ultimately show ?thesis using i st by (intro exI [of _ st'] exI [of _ closed] exI [of _ "data @ xs"] exI [of _ b']) (auto simp: add.assoc)
    qed
  qed
qed

lemma read_bytes:
  assumes t: "frontBio t \<noteq> None" "\<not> blocking t" and s: "reader_inv s" "s_pointer s + n \<le> length (s_buffer s)" "s_pointer s + n < 2 ^ 30"
  shows "\<exists>st s' t' c. transport_read_layer_bytes ops t s (int n) = Some (st, s', t') \<and> took inp t c t' \<and> length c \<le> n \<and>
    reader_inv s' \<and> length (s_buffer s') = length (s_buffer s) \<and>
    (st = -1 \<and> length c < n \<or> stream_bytes s' = stream_bytes s @ c \<and> st = (if n \<noteq> 0 \<and> length c = n then 1 else 0)) \<and>
    (bio_eager ops inp \<longrightarrow> length c < n \<longrightarrow> pending inp t' = [])"
proof -
  from t(1) obtain bio where b: "frontBio t = Some bio" by auto
  have n: "nat (int n mod 2 ^ 32) = n" "c_int n = int n" using s(3) by auto
  from read_layer_nonblocking [OF order_refl of_nat_0_le_iff, of n "[]" bio] obtain st closed c bio' where
    r': "read_layer_loop ops False 0 (int n) [] bio = Some (st, closed, [] @ c, bio')" "inp bio = c @ inp bio'" "0 + int (length c) \<le> int n"
      "st = (if closed then -1 else 0 + int (length c))" "closed \<longrightarrow> 0 + int (length c) < int n"
      "bio_eager ops inp \<longrightarrow> 0 + int (length c) < int n \<longrightarrow> inp bio' = []" by blast
  have r: "read_layer_loop ops False 0 (int n) [] bio = Some (st, closed, c, bio')" "inp bio = c @ inp bio'" "length c \<le> n"
      "st = (if closed then -1 else int (length c))" "closed \<longrightarrow> length c < n" "bio_eager ops inp \<longrightarrow> length c < n \<longrightarrow> inp bio' = []"
    using r' by simp_all
  let ?t = "t\<lparr>frontBio := Some bio'\<rparr>"
  let ?t' = "if closed then ?t\<lparr>layer := TRANSPORT_LAYER_CLOSED\<rparr> else ?t"
  have l: "transport_read_layer ops t (int n) = Some (st, c, ?t')"
    using b t(2) r(1) by (simp add: transport_read_layer_def)
  have took: "took inp t c ?t'" "bio_eager ops inp \<longrightarrow> length c < n \<longrightarrow> pending inp ?t' = []"
    using b r by (auto simp: took_def pending_def)
  have "s_pointer s + length c \<le> length (s_buffer s)" using s(2) r(3) by simp
  then have w: "mem_write (s_buffer s) (s_pointer s) c = Some (s_buffer (Stream_put c s))"
    by (simp add: mem_write_def Stream_put_def)
  let ?s = "s\<lparr>s_buffer := s_buffer (Stream_put c s)\<rparr>"
  have eq: "transport_read_layer_bytes ops t s (int n) =
    Some (if st \<le> 0 then (st, ?s, ?t') else (if st = int n then 1 else 0, Stream_Seek ?s (nat st), ?t'))"
    unfolding transport_read_layer_bytes_def Let_def n l using w by simp
  have put: "Stream_Seek ?s (length c) = Stream_put c s" by (simp add: Stream_Seek_def Stream_put_def)
  have inv: "reader_inv ?s" "length (s_buffer ?s) = length (s_buffer s)" "reader_inv (Stream_put c s)"
    "stream_bytes (Stream_put c s) = stream_bytes s @ c"
    using s r(3) stream_bytes_put [of s c] by (auto simp: reader_inv_def)
  show ?thesis
  proof (cases "st \<le> 0")
    case True
    show ?thesis
    proof (cases closed)
      case False
      then have "c = []" "st = 0" using True r(4) by auto
      then show ?thesis using eq took inv s
        by (intro exI [of _ 0] exI [of _ s] exI [of _ ?t'] exI [of _ "[]"]) (auto simp: Stream_put_def)
    qed (use eq True took inv r in \<open>intro exI [of _ "-1"] exI [of _ ?s] exI [of _ ?t'] exI [of _ c]; simp\<close>)
  next
    case False
    then have "st = int (length c)" "c \<noteq> []" using r(4) by (auto split: if_splits)
    then show ?thesis using eq False took inv r(3) put s
      by (intro exI [of _ "if length c = n then 1 else 0"] exI [of _ "Stream_put c s"] exI [of _ ?t'] exI [of _ c]) auto
  qed
qed

lemma read_header:
  assumes t: "frontBio t \<noteq> None" "\<not> blocking t" and s: "reader_inv s" "n \<le> length (s_buffer s)" "n \<le> 4"
  shows "\<exists>st s' t' c. read_header_bytes ops (c_int (s_pointer s)) (int n) t s = Some (st, s', t') \<and> took inp t c t' \<and>
    reader_inv s' \<and> length (s_buffer s') = length (s_buffer s) \<and>
    (if st = 1 then stream_bytes s' = stream_bytes s @ c \<and> length (stream_bytes s @ c) = max n (s_pointer s)
     else length (stream_bytes s @ c) < n \<and> (st = -1 \<or> st = 0 \<and> stream_bytes s' = stream_bytes s @ c)) \<and>
    (bio_eager ops inp \<longrightarrow> st \<noteq> 1 \<longrightarrow> pending inp t' = [])"
proof (cases "s_pointer s < n")
  case False
  have "c_int (s_pointer s) = int (s_pointer s)" using s by (simp add: reader_inv_def)
  then have "read_header_bytes ops (c_int (s_pointer s)) (int n) t s = Some (1, s, t)"
    using False by (simp add: read_header_bytes_def)
  then show ?thesis using False s took_refl [OF t(1), of inp] stream_bytes_length [OF s(1)]
    by (intro exI [of _ 1] exI [of _ s] exI [of _ t] exI [of _ "[]"]) simp
next
  case True
  define m where "m = n - s_pointer s"
  have m: "s_pointer s + m \<le> length (s_buffer s)" "s_pointer s + m < 2 ^ 30" "0 < m" "int n - int (s_pointer s) = int m"
    using True s(2,3) by (auto simp: m_def)
  have "c_int (s_pointer s) = int (s_pointer s)" using s by (simp add: reader_inv_def)
  then have eq: "read_header_bytes ops (c_int (s_pointer s)) (int n) t s = transport_read_layer_bytes ops t s (int m)"
    using True m(4) by (simp add: read_header_bytes_def)
  from read_bytes [OF t s(1) m(1,2)] obtain st s' t' c where
    r: "transport_read_layer_bytes ops t s (int m) = Some (st, s', t')" "took inp t c t'" "length c \<le> m" "reader_inv s'"
      "length (s_buffer s') = length (s_buffer s)"
      "st = -1 \<and> length c < m \<or> stream_bytes s' = stream_bytes s @ c \<and> st = (if m \<noteq> 0 \<and> length c = m then 1 else 0)"
      "bio_eager ops inp \<longrightarrow> length c < m \<longrightarrow> pending inp t' = []" by blast
  have "if st = 1 then stream_bytes s' = stream_bytes s @ c \<and> length (stream_bytes s @ c) = max n (s_pointer s)
     else length (stream_bytes s @ c) < n \<and> (st = -1 \<or> st = 0 \<and> stream_bytes s' = stream_bytes s @ c)"
    using r(3,6) m(3) stream_bytes_length [OF s(1)] True by (auto simp: m_def split: if_splits)
  moreover have "bio_eager ops inp \<longrightarrow> st \<noteq> 1 \<longrightarrow> pending inp t' = []" using r(3,6,7) m(3) by (auto split: if_splits)
  ultimately show ?thesis using r(1,2,4,5) eq
    by (intro exI [of _ st] exI [of _ s'] exI [of _ t'] exI [of _ c]) simp
qed

lemma read_length:
  assumes t: "frontBio t \<noteq> None" "\<not> blocking t" and s: "reader_inv s" "4 \<le> length (s_buffer s)" "2 \<le> s_pointer s"
  defines "P \<equiv> stream_bytes s" and "h \<equiv> pdu_hdr (NlaMode t) (stream_bytes s ! 0) (stream_bytes s ! 1)"
  shows "\<exists>r s' t' c. read_pdu_length ops t s = Some (r, s', t') \<and> took inp t c t' \<and>
    reader_inv s' \<and> length (s_buffer s') = length (s_buffer s) \<and>
    (case r of
       Inl st \<Rightarrow> st = -1 \<and> pdu_bad (NlaMode t) (P @ c) \<and> (h = None \<or> pdu_len (NlaMode t) (P @ c) = None) \<or>
         (st = -1 \<or> st = 0 \<and> stream_bytes s' = P @ c) \<and> (\<exists>k. h = Some k \<and> length (P @ c) < k) \<and>
         (bio_eager ops inp \<longrightarrow> pending inp t' = [])
     | Inr n \<Rightarrow> stream_bytes s' = P @ c \<and> (\<exists>k. h = Some k \<and> length (P @ c) = max k (length P)) \<and>
         pdu_len (NlaMode t) (P @ c) = Some (nat n) \<and> 0 \<le> n)"
proof (cases h)
  case None
  have P: "length P = s_pointer s" using stream_bytes_length [OF s(1)] by (simp add: P_def)
  have hb: "header_byte s 0 = Some (P ! 0)" "header_byte s 1 = Some (P ! 1)"
    using header_byte_bytes [OF s(1)] s(3) P by (auto simp: P_def)
  have "read_pdu_length ops t s = Some (Inl (-1), s, t)"
    using None hb unfolding h_def pdu_hdr_def read_pdu_length_def P_def by (simp split: if_splits)
  moreover have "pdu_bad (NlaMode t) P" using None s(3) P by (simp add: pdu_bad_def h_def P_def)
  ultimately show ?thesis using None s took_refl [OF t(1), of inp]
    by (intro exI [of _ "Inl (-1)"] exI [of _ s] exI [of _ t] exI [of _ "[]"]) simp
next
  case (Some k)
  have k: "2 \<le> k" "k \<le> 4" using pdu_hdr_bounds Some unfolding h_def by blast+
  then have kl: "k \<le> length (s_buffer s)" using s(2) by simp
  have P: "length P = s_pointer s" using stream_bytes_length [OF s(1)] by (simp add: P_def)
  have hb: "header_byte s 0 = Some (P ! 0)" "header_byte s 1 = Some (P ! 1)"
    using header_byte_bytes [OF s(1)] s(3) P by (auto simp: P_def)
  from read_header [OF t s(1) kl k(2)] obtain st s' t' c where
    r: "read_header_bytes ops (c_int (s_pointer s)) (int k) t s = Some (st, s', t')" "took inp t c t'"
      "reader_inv s'" "length (s_buffer s') = length (s_buffer s)"
      "if st = 1 then stream_bytes s' = P @ c \<and> length (P @ c) = max k (s_pointer s)
       else length (P @ c) < k \<and> (st = -1 \<or> st = 0 \<and> stream_bytes s' = P @ c)"
      "bio_eager ops inp \<longrightarrow> st \<noteq> 1 \<longrightarrow> pending inp t' = []" unfolding P_def by blast
  have pos: "c_int (Stream_GetPosition s) = c_int (s_pointer s)" by (simp add: Stream_GetPosition_def)
  have hb': "header_byte s' i = Some ((P @ c) ! i)" if "st = 1" "i < k" for i
    using header_byte_bytes [OF r(3), of i] r(5) that k by auto
  have same: "(P @ c) ! 0 = P ! 0" "(P @ c) ! Suc 0 = P ! Suc 0" using s(3) P by (auto simp: nth_append)
  define res where "res = (if st \<noteq> 1 then Inl st else case pdu_len (NlaMode t) (P @ c) of None \<Rightarrow> Inl (-1) | Some n \<Rightarrow> Inr (int n))"
  have two: "st = 1 \<and> s' = s \<and> t' = t \<and> c = []" if "k = 2"
  proof -
    have "c_int (s_pointer s) = int (s_pointer s)" using s(1) by (simp add: reader_inv_def)
    then have "st = 1 \<and> s' = s \<and> t' = t" using r(1) that s(3) by (simp add: read_header_bytes_def)
    then show ?thesis using r(5) by (simp add: P_def)
  qed
  have b: "uint x < 256" for x :: byte using unsigned_less [of x, where 'a = int] by simp
  have b7: "uint (h1 AND 0x7F) < 128" for h1 :: byte
  proof -
    have "h1 AND 0x7F \<le> 0x7F" by (rule word_and_le1)
    then have "uint (h1 AND 0x7F) \<le> 127" by (simp add: word_le_def)
    then show ?thesis by linarith
  qed
  consider "k = 2" | "k = 3" | "k = 4" using k by linarith
  then have "read_pdu_length ops t s = Some (res, s', t')"
  proof cases
    case 1
    then show ?thesis using Some hb two b [of "P ! 1"] b [of "P ! Suc 0"]
      unfolding read_pdu_length_def pos h_def pdu_hdr_def pdu_len_def res_def Let_def P_def [symmetric]
      by (auto simp: uint_byte_bounds split: if_splits)
  next
    case 2
    show ?thesis
    proof (cases "st = 1")
      case True
      with 2 Some hb r(1) hb' [OF True, of 2] same b [of "(P @ c) ! 2"] b7 [of "P ! 1"] b7 [of "P ! Suc 0"]
      show ?thesis
        unfolding read_pdu_length_def pos h_def pdu_hdr_def pdu_len_def res_def Let_def P_def [symmetric]
        by (auto simp: uint_pair' unat_pair_less split: if_splits)
    next
      case False
      with 2 Some hb r(1) show ?thesis
        unfolding read_pdu_length_def pos h_def pdu_hdr_def res_def Let_def P_def [symmetric]
        by (auto split: if_splits)
    qed
  next
    case 3
    show ?thesis
    proof (cases "st = 1")
      case True
      with 3 Some hb r(1) hb' [OF True, of 2] hb' [OF True, of 3] same b [of "(P @ c) ! 2"] b [of "(P @ c) ! 3"]
      show ?thesis
        unfolding read_pdu_length_def pos h_def pdu_hdr_def pdu_len_def res_def Let_def P_def [symmetric]
        by (auto simp: uint_pair' unat_pair_less split: if_splits)
    next
      case False
      with 3 Some hb r(1) show ?thesis
        unfolding read_pdu_length_def pos h_def pdu_hdr_def res_def Let_def P_def [symmetric]
        by (auto split: if_splits)
    qed
  qed
  moreover have "pdu_bad (NlaMode t) (P @ c)" if "st = 1" "pdu_len (NlaMode t) (P @ c) = None"
    using that r(5) Some same k P s(3) by (simp add: pdu_bad_def h_def P_def [symmetric])
  ultimately show ?thesis using r Some P
    by (intro exI [of _ res] exI [of _ s'] exI [of _ t'] exI [of _ c]) (auto simp: res_def split: option.splits if_splits)
qed

end

end
