(* ===== verification/TransportProps.thy ===== *)
theory TransportProps
  imports Transport
begin

text \<open>
  Correctness of \<open>transport_read_pdu\<close> and \<open>transport_write\<close> (theory \<open>Transport\<close>): the PDUs that
  come out are exactly the frames of the bytes that come in, however the socket cuts them;
  what is written goes out unchanged.
\<close>

subsection \<open>Reading one PDU\<close>

text \<open>What a call may return when it has read \<open>Q\<close> in all: a complete PDU, nothing yet, or an error.\<close>

definition read_result :: "bool \<Rightarrow> byte list \<Rightarrow> int \<Rightarrow> wStream \<Rightarrow> bool" where
  "read_result nla Q st s \<longleftrightarrow>
     (if st > 0 then pdu_complete nla Q \<and> st = int (length Q) \<and> s_pointer s = 0 \<and> s_length s = length Q \<and> take (length Q) (s_buffer s) = Q
      else if st = 0 then reader_inv s \<and> stream_bytes s = Q \<and> pdu_partial nla Q
      else st = -1)"

lemma read_result_error [simp]: "read_result nla Q (-1) s"
  by (simp add: read_result_def)

lemma pdu_partial_bound:
  assumes "pdu_partial nla bs" shows "length bs < 2 ^ 17"
proof (cases "2 \<le> length bs")
  case True
  then obtain k where k: "pdu_hdr nla (bs ! 0) (bs ! 1) = Some k"
    "k \<le> length bs \<longrightarrow> (\<exists>n. pdu_len nla bs = Some n \<and> (length bs = k \<or> length bs < n))"
    using assms by (auto simp: pdu_partial_def split: option.splits)
  have "k \<le> 4" using pdu_hdr_bounds [OF k(1)] by simp
  with k(2) pdu_len_bound [of nla bs] show ?thesis by (cases "k \<le> length bs") force+
qed simp

lemma pdu_cong:
  assumes "pdu_hdr nla (P ! 0) (P ! 1) = Some k" "k \<le> length P"
  shows "pdu_hdr nla ((P @ c) ! 0) ((P @ c) ! 1) = Some k" "pdu_len nla (P @ c) = pdu_len nla P"
proof -
  have "2 \<le> k" using pdu_hdr_bounds [OF assms(1)] by simp
  then have "0 < length P" "1 < length P" using assms(2) by auto
  then show "pdu_hdr nla ((P @ c) ! 0) ((P @ c) ! 1) = Some k" using assms(1) by (simp only: nth_append if_True)
  show "pdu_len nla (P @ c) = pdu_len nla P" using assms by (intro pdu_len_cong) (auto simp: nth_append)
qed

lemma c_int_neg: "0 < d \<Longrightarrow> d < 2 ^ 31 \<Longrightarrow> c_int (nat ((- int d) mod 2 ^ 32)) = - int d"
proof -
  assume d: "0 < d" "d < 2 ^ 31"
  have "(- int d) mod 2 ^ 32 = 2 ^ 32 - int d" using d by (simp add: zmod_zminus1_eq_if)
  then have "nat ((- int d) mod 2 ^ 32) = 2 ^ 32 - d" by (simp add: nat_diff_distrib')
  moreover have "c_int (2 ^ 32 - d) = - int d"
  proof -
    have "(word_of_nat (2 ^ 32 - d) :: u32) = word_of_int (- int d)" using d by (simp add: of_nat_diff)
    then have "c_int (2 ^ 32 - d) = sint (word_of_int (- int d) :: u32)" by (simp only: c_int_def)
    also have "\<dots> = signed_take_bit 31 (- int d)" by (simp only: signed_of_int) simp
    also have "\<dots> = - int d" using d by (intro signed_take_bit_int_eq_self) auto
    finally show ?thesis .
  qed
  ultimately show ?thesis by simp
qed


lemma ensure_capacity_fails: "Stream_EnsureCapacity al s sz = Some (False, s') \<Longrightarrow> \<exists>n. al n = None"
  by (auto simp: Stream_EnsureCapacity_def Let_def bind_eq_Some_conv split: if_splits option.splits)

context front_bio
begin

text \<open>A negative count of bytes to read, as an unsigned number, reads nothing.\<close>

lemma read_bytes_negative:
  assumes t: "frontBio t \<noteq> None" and s: "s_pointer s \<le> length (s_buffer s)" and d: "0 < d" "d < 2 ^ 31"
  shows "\<exists>t'. transport_read_layer_bytes ops t s (- int d) = Some (0, s, t') \<and> took inp t [] t'"
proof -
  from t obtain bio where b: "frontBio t = Some bio" by auto
  have "read_layer_loop ops (blocking t) 0 (- int d) [] bio = Some (0, False, [], bio)"
    by (subst read_layer_loop.simps) simp
  then have "transport_read_layer ops t (- int d) = Some (0, [], t\<lparr>frontBio := Some bio\<rparr>)"
    using b by (simp add: transport_read_layer_def)
  moreover have "mem_write (s_buffer s) (s_pointer s) [] = Some (s_buffer s)" using s by (simp add: mem_write_def)
  ultimately have "transport_read_layer_bytes ops t s (- int d) = Some (0, s, t\<lparr>frontBio := Some bio\<rparr>)"
    unfolding transport_read_layer_bytes_def Let_def c_int_neg [OF d] by simp
  then show ?thesis using b by (auto simp: took_def)
qed

lemma read_body:
  assumes t: "frontBio t \<noteq> None" "\<not> blocking t" and s: "reader_inv s" and al: "alloc_ok al"
  defines "nla \<equiv> NlaMode t" and "P \<equiv> stream_bytes s"
  assumes hdr: "pdu_hdr nla (P ! 0) (P ! 1) = Some k" "k \<le> length P" "pdu_len nla P = Some m" "length P = k \<or> length P < m"
  shows "\<exists>st s' t' c. read_pdu_body al ops t s (int m) = Some (st, s', t') \<and> took inp t c t' \<and> read_result nla (P @ c) st s' \<and>
    (m \<le> k \<longrightarrow> st \<le> 0 \<and> c = []) \<and>
    (bio_eager ops inp \<longrightarrow> (\<forall>n. al n \<noteq> None) \<longrightarrow> st \<le> 0 \<longrightarrow>
      pdu_bad nla (P @ c) \<or> pending inp t' = [] \<and> pdu_partial nla (P @ c))"
proof -
  have P: "length P = s_pointer s" using stream_bytes_length [OF s] by (simp add: P_def)
  have m: "m < 2 ^ 17" using pdu_len_bound [OF hdr(3)] .
  have k: "2 \<le> k" "k \<le> 4" using pdu_hdr_bounds [OF hdr(1)] by auto
  have sp: "s_pointer s < 2 ^ 17" using hdr(4) k m P by auto
  have sz: "size_add (Stream_GetPosition s) (size_of_int (int m)) = s_pointer s + m" "s_pointer s + m \<le> 2 ^ 63"
    using m sp by (auto simp: Stream_GetPosition_def)
  have Q: "pdu_hdr nla ((P @ c) ! 0) ((P @ c) ! 1) = Some k" "pdu_len nla (P @ c) = Some m" "k \<le> length (P @ c)" "2 \<le> length (P @ c)" for c
    using pdu_cong [OF hdr(1,2), of c] hdr(2,3) k by simp_all
  have part: "pdu_partial nla (P @ c)" if "length (P @ c) = k \<or> length (P @ c) < m" for c
    using that Q [of c] by (simp add: pdu_partial_def)
  have bad: "pdu_bad nla (P @ c)" if "m \<le> k" for c using that Q [of c] by (simp add: pdu_bad_def)
  from ensure_capacity_keeps [OF s al sz(2)] obtain ok s1 where
    e: "Stream_EnsureCapacity al s (s_pointer s + m) = Some (ok, s1)" "reader_inv s1" "stream_bytes s1 = P" "s_pointer s1 = s_pointer s"
      "if ok then s_pointer s + m \<le> length (s_buffer s1) else s1 = s" by (auto simp: P_def)
  show ?thesis
  proof (cases ok)
    case False
    then have "read_pdu_body al ops t s (int m) = Some (-1, s1, t)" using e(1) unfolding read_pdu_body_def sz(1) by simp
    moreover have "\<not> (\<forall>n. al n \<noteq> None)" using ensure_capacity_fails e(1) False by simp
    ultimately show ?thesis using took_refl [OF t(1), of inp] read_result_error [of nla "P @ []" s1]
      by (intro exI [of _ "-1"] exI [of _ s1] exI [of _ t] exI [of _ "[]"] conjI) (simp_all, metis option.distinct(1))
  next
    case ok: True
    have eq: "read_pdu_body al ops t s (int m) = do {
        (status, s, transport) \<leftarrow> transport_read_layer_bytes ops t s1 (int m - int (s_pointer s));
        (if status \<noteq> 1 then Some (status, s, transport)
         else Some (c_int (s_pointer s), Stream_SetPosition (Stream_SealLength s) 0, transport)) }"
      using ok e(1,4) unfolding read_pdu_body_def sz(1) Let_def
      by (simp add: Stream_GetPosition_def Stream_SetPosition_def Stream_SealLength_def Stream_Length_def cong: if_cong)
    show ?thesis
    proof (cases "s_pointer s \<le> m")
      case False
      then have d: "0 < s_pointer s - m" "s_pointer s - m < 2 ^ 31" "int m - int (s_pointer s) = - int (s_pointer s - m)" "length P = k" "m \<le> k"
        using sp hdr(4) P by auto
      have "s_pointer s1 \<le> length (s_buffer s1)" using e(2) by (simp add: reader_inv_def)
      from read_bytes_negative [OF t(1) this d(1,2)] obtain t' where
        q: "transport_read_layer_bytes ops t s1 (- int (s_pointer s - m)) = Some (0, s1, t')" "took inp t [] t'" by blast
      have "read_pdu_body al ops t s (int m) = Some (0, s1, t')" using eq q(1) unfolding d(3) by simp
      moreover have "read_result nla (P @ []) 0 s1" using e(2,3) part [of "[]"] d(4) by (simp add: read_result_def)
      ultimately show ?thesis using q(2) bad [OF d(5), of "[]"]
        by (intro exI [of _ 0] exI [of _ s1] exI [of _ t'] exI [of _ "[]"]) simp
    next
      case True
      define n where "n = m - s_pointer s"
      have n: "int m - int (s_pointer s) = int n" "s_pointer s1 + n \<le> length (s_buffer s1)" "s_pointer s1 + n < 2 ^ 30" "length P + n = m"
        using True ok e(4,5) m P by (auto simp: n_def)
      from read_bytes [OF t e(2) n(2,3)] obtain st s2 t' c where
        r: "transport_read_layer_bytes ops t s1 (int n) = Some (st, s2, t')" "took inp t c t'" "length c \<le> n" "reader_inv s2"
          "st = -1 \<and> length c < n \<or> stream_bytes s2 = P @ c \<and> st = (if n \<noteq> 0 \<and> length c = n then 1 else 0)"
          "bio_eager ops inp \<longrightarrow> length c < n \<longrightarrow> pending inp t' = []" unfolding e(3) by blast
      have len: "length (stream_bytes s2) = s_pointer s2" using stream_bytes_length [OF r(4)] .
      show ?thesis
      proof (cases "st = 1")
        case st: True
        then have c: "stream_bytes s2 = P @ c" "length c = n" "n \<noteq> 0" using r(5) by (auto split: if_splits)
        then have sp2: "s_pointer s2 = m" "length (P @ c) = m" "0 < m" using len n(4) by auto
        let ?s = "Stream_SetPosition (Stream_SealLength s2) 0"
        have "read_result nla (P @ c) (int m) ?s"
          using sp2 c(1) Q [of c] by (auto simp: read_result_def pdu_complete_def Stream_SetPosition_def Stream_SealLength_def stream_bytes_def)
        moreover have "read_pdu_body al ops t s (int m) = Some (int m, ?s, t')" using eq n(1) r(1) st sp2 m by simp
        ultimately show ?thesis using r(2) sp2 c(2,3) hdr(2) n(4) by (intro exI [of _ "int m"] exI [of _ ?s] exI [of _ t'] exI [of _ c]) simp
      next
        case st: False
        have run: "read_pdu_body al ops t s (int m) = Some (st, s2, t')" using eq n(1) r(1) st by simp
        have short: "n = 0 \<and> c = [] \<and> length P = k \<and> m \<le> k \<or> length c < n" using r(3,5) st hdr(4) n(4) by (auto split: if_splits)
        then have p: "pdu_partial nla (P @ c)" using n(4) by (intro part) auto
        have "read_result nla (P @ c) st s2" using r(4,5) st p by (auto simp: read_result_def split: if_splits)
        moreover have "bio_eager ops inp \<longrightarrow> pdu_bad nla (P @ c) \<or> pending inp t' = [] \<and> pdu_partial nla (P @ c)"
          using short bad [of c] r(6) p by blast
        moreover have "m \<le> k \<longrightarrow> st \<le> 0 \<and> c = []" using short hdr(2) n(4) r(5) st by (auto split: if_splits)
        ultimately show ?thesis using run r(2) by (intro exI [of _ st] exI [of _ s2] exI [of _ t'] exI [of _ c]) blast
      qed
    qed
  qed
qed

lemma read_pdu:
  assumes t: "frontBio t \<noteq> None" "\<not> blocking t" and s: "reader_inv s" and al: "alloc_ok al" "alloc_ok al'"
  defines "nla \<equiv> NlaMode t" and "P \<equiv> stream_bytes s"
  assumes part: "pdu_partial nla P"
  shows "\<exists>st s' t' c. transport_read_pdu al al' ops t s = Some (st, s', t') \<and> took inp t c t' \<and> read_result nla (P @ c) st s' \<and>
    (\<forall>k m. pdu_hdr nla (P ! 0) (P ! 1) = Some k \<longrightarrow> length P = k \<longrightarrow> pdu_len nla P = Some m \<longrightarrow> m \<le> k \<longrightarrow> st \<le> 0 \<and> c = []) \<and>
    (bio_eager ops inp \<longrightarrow> (\<forall>n. al n \<noteq> None \<and> al' n \<noteq> None) \<longrightarrow> st \<le> 0 \<longrightarrow>
      pdu_bad nla (P @ c) \<or> pending inp t' = [] \<and> pdu_partial nla (P @ c))"
proof -
  let ?tot = "\<forall>n. al n \<noteq> None \<and> al' n \<noteq> None"
  have P: "length P = s_pointer s" using stream_bytes_length [OF s] by (simp add: P_def)
  have pos: "c_int (Stream_GetPosition s) = c_int (s_pointer s)" by (simp add: Stream_GetPosition_def)
  from ensure_capacity_keeps [OF s al(1), of 4] obtain ok s1 where
    e: "Stream_EnsureCapacity al s 4 = Some (ok, s1)" "reader_inv s1" "stream_bytes s1 = P" "s_pointer s1 = s_pointer s"
      "if ok then 4 \<le> length (s_buffer s1) else s1 = s" by (auto simp: P_def)
  show ?thesis
  proof (cases ok)
    case False
    then have "transport_read_pdu al al' ops t s = Some (-1, s1, t)" using e(1) by (simp add: transport_read_pdu_def)
    moreover have "\<not> ?tot" using ensure_capacity_fails [of al s 4 s1] e(1) False by auto
    ultimately show ?thesis using took_refl [OF t(1), of inp] read_result_error [of nla "P @ []" s1]
      by (intro exI [of _ "-1"] exI [of _ s1] exI [of _ t] exI [of _ "[]"] conjI) (simp_all, metis option.distinct(1))
  next
    case ok: True
    then have cap: "2 \<le> length (s_buffer s1)" "4 \<le> length (s_buffer s1)" using e(5) by auto
    from read_header [OF t e(2) cap(1)] obtain st s2 t2 c where
      h: "read_header_bytes ops (c_int (s_pointer s)) 2 t s1 = Some (st, s2, t2)" "took inp t c t2" "reader_inv s2"
        "length (s_buffer s2) = length (s_buffer s1)"
        "if st = 1 then stream_bytes s2 = P @ c \<and> length (P @ c) = max 2 (s_pointer s)
         else length (P @ c) < 2 \<and> (st = -1 \<or> st = 0 \<and> stream_bytes s2 = P @ c)"
        "bio_eager ops inp \<longrightarrow> st \<noteq> 1 \<longrightarrow> pending inp t2 = []" unfolding e(3,4) by auto
    have eq: "transport_read_pdu al al' ops t s =
      (if st \<noteq> 1 then Some (st, s2, t2)
       else do { (r, s, transport) \<leftarrow> read_pdu_length ops t2 s2;
         (case r of Inl status \<Rightarrow> Some (status, s, transport) | Inr n \<Rightarrow> read_pdu_body al' ops transport s n) })"
      unfolding transport_read_pdu_def Let_def pos using e(1) ok h(1) by simp
    show ?thesis
    proof (cases "st = 1")
      case False
      then have p: "pdu_partial nla (P @ c)" using h(5) by (simp add: pdu_partial_def)
      then have "read_result nla (P @ c) st s2" using h(3,5) False by (auto simp: read_result_def)
      moreover have "\<not> pdu_hdr nla (P ! 0) (P ! 1) = Some (length P)" using h(5) False pdu_hdr_bounds by fastforce
      ultimately show ?thesis using eq h(2,6) False p by (intro exI [of _ st] exI [of _ s2] exI [of _ t2] exI [of _ c]) simp
    next
      case True
      let ?P = "P @ c"
      have t2: "frontBio t2 \<noteq> None" "\<not> blocking t2" "NlaMode t2 = nla" using h(2) t(2) by (auto simp: took_def nla_def)
      have b2: "stream_bytes s2 = ?P" "length ?P = max 2 (length P)" using h(5) True P by auto
      have sp2: "2 \<le> s_pointer s2" using b2 stream_bytes_length [OF h(3)] by simp
      have cap2: "4 \<le> length (s_buffer s2)" using cap h(4) by simp
      from read_length [OF t2(1,2) h(3) cap2 sp2] obtain r s3 t3 d where
        l: "read_pdu_length ops t2 s2 = Some (r, s3, t3)" "took inp t2 d t3" "reader_inv s3" and
        r: "case r of
          Inl st \<Rightarrow> st = -1 \<and> pdu_bad nla (?P @ d) \<and> (pdu_hdr nla (?P ! 0) (?P ! 1) = None \<or> pdu_len nla (?P @ d) = None) \<or>
            (st = -1 \<or> st = 0 \<and> stream_bytes s3 = ?P @ d) \<and> (\<exists>k. pdu_hdr nla (?P ! 0) (?P ! 1) = Some k \<and> length (?P @ d) < k) \<and>
            (bio_eager ops inp \<longrightarrow> pending inp t3 = [])
        | Inr n \<Rightarrow> stream_bytes s3 = ?P @ d \<and> (\<exists>k. pdu_hdr nla (?P ! 0) (?P ! 1) = Some k \<and> length (?P @ d) = max k (length ?P)) \<and>
            pdu_len nla (?P @ d) = Some (nat n) \<and> 0 \<le> n" unfolding b2 t2(3) by blast
      have took3: "took inp t (c @ d) t3" using took_trans [OF h(2) l(2)] .
      have "0 < length ?P" "1 < length ?P" using b2(2) by auto
      then have two: "(P @ c @ d) ! 0 = ?P ! 0" "(P @ c @ d) ! Suc 0 = ?P ! Suc 0" for d
        unfolding append_assoc [symmetric] by (simp_all only: nth_append if_True One_nat_def)
      show ?thesis
      proof (cases r)
        case (Inl st')
        then have run: "transport_read_pdu al al' ops t s = Some (st', s3, t3)" using eq True l(1) by simp
        have p: "pdu_partial nla (P @ c @ d)" if "pdu_hdr nla (?P ! 0) (?P ! 1) = Some k" "length (?P @ d) < k" for k
          using that two [of d] by (simp add: pdu_partial_def)
        have "read_result nla (P @ c @ d) st' s3" using r Inl p l(3) by (auto simp: read_result_def)
        moreover have "bio_eager ops inp \<longrightarrow> pdu_bad nla (P @ c @ d) \<or> pending inp t3 = [] \<and> pdu_partial nla (P @ c @ d)"
          using r Inl p by auto
        moreover have "\<not> (pdu_hdr nla (P ! 0) (P ! 1) = Some (length P) \<and> pdu_len nla P = Some m)" for m
        proof
          assume a: "pdu_hdr nla (P ! 0) (P ! 1) = Some (length P) \<and> pdu_len nla P = Some m"
          then have "c = []" using b2(2) pdu_hdr_bounds [of nla "P ! 0" "P ! 1" "length P"] by simp
          then show False using r Inl a pdu_cong [of nla P "length P" d] by auto
        qed
        ultimately show ?thesis using run took3 by (intro exI [of _ st'] exI [of _ s3] exI [of _ t3] exI [of _ "c @ d"]) blast
      next
        case (Inr n)
        then have run: "transport_read_pdu al al' ops t s = read_pdu_body al' ops t3 s3 (int (nat n))" using eq True l(1) r by simp
        from r Inr obtain k where k: "stream_bytes s3 = P @ c @ d" "pdu_hdr nla (?P ! 0) (?P ! 1) = Some k"
          "length (P @ c @ d) = max k (length ?P)" "pdu_len nla (P @ c @ d) = Some (nat n)" by auto
        have t3: "frontBio t3 \<noteq> None" "\<not> blocking t3" "NlaMode t3 = nla" using l(2) t2 by (auto simp: took_def)
        have hk: "pdu_hdr nla ((P @ c @ d) ! 0) ((P @ c @ d) ! 1) = Some k" using k(2) two [of d] by simp
        have kl: "k \<le> length (P @ c @ d)" "2 \<le> k" using k(3) pdu_hdr_bounds [OF hk] by auto
        have "length (P @ c @ d) = k \<or> length (P @ c @ d) < nat n"
        proof (cases "length P \<le> k")
          case True
          then show ?thesis using k(3) kl(2) b2(2) by simp
        next
          case False
          then have "c = []" "d = []" using b2(2) k(3) kl(2) by auto
          then show ?thesis using part k(4) hk kl by (simp add: pdu_partial_def)
        qed
        from read_body [OF t3(1,2) l(3) al(2), unfolded t3(3) k(1), OF hk kl(1) k(4) this]
        obtain st' s4 t4 f where b: "read_pdu_body al' ops t3 s3 (int (nat n)) = Some (st', s4, t4)" "took inp t3 f t4"
          "read_result nla ((P @ c @ d) @ f) st' s4" "nat n \<le> k \<longrightarrow> st' \<le> 0 \<and> f = []"
          "bio_eager ops inp \<longrightarrow> (\<forall>n. al' n \<noteq> None) \<longrightarrow> st' \<le> 0 \<longrightarrow>
            pdu_bad nla ((P @ c @ d) @ f) \<or> pending inp t4 = [] \<and> pdu_partial nla ((P @ c @ d) @ f)" by blast
        have "m \<le> j \<longrightarrow> st' \<le> 0 \<and> (c @ d) @ f = []"
          if a: "pdu_hdr nla (P ! 0) (P ! 1) = Some j" "length P = j" "pdu_len nla P = Some m" for j m
        proof -
          have "c = []" using b2(2) pdu_hdr_bounds [OF a(1)] a(2) by simp
          then have "k = j" using k(2) a(1) by simp
          then have "d = []" using k(3) a(2) \<open>c = []\<close> by simp
          then show ?thesis using b(4) k(4) a(3) \<open>c = []\<close> \<open>k = j\<close> by auto
        qed
        then show ?thesis using run b took_trans [OF took3 b(2)]
          by (intro exI [of _ st'] exI [of _ s4] exI [of _ t4] exI [of _ "(c @ d) @ f"]) auto
      qed
    qed
  qed
qed

end


subsection \<open>The TCP BIOs as front BIO\<close>

text \<open>
  What \<open>recv\<close> promises: it stores a prefix of what is still to come, of the length it
  returns; with an error nothing is lost.
\<close>

definition recv_ok :: "'w net_ops \<Rightarrow> ('w \<Rightarrow> byte list) \<Rightarrow> bool" where
  "recv_ok ops inp \<longleftrightarrow> (\<forall>n w. 0 < n \<longrightarrow> (case net_recv ops n w of (status, error, data, w') \<Rightarrow>
     status \<le> int n \<and> (if status > 0 then length data = nat status \<and> inp w = data @ inp w' else inp w' = inp w)))"

definition tcp_bio_ops :: "byte blocks \<Rightarrow> byte blocks \<Rightarrow> 'w net_ops \<Rightarrow> 'w tcp_bio bio_ops" where
  "tcp_bio_ops al al' ops =
     (let ctrl = (\<lambda>cmd b. map_option (\<lambda>(status, _, b). (status, b)) (transport_bio_buffered_ctrl al al' ops cmd b)) in
      \<lparr>bio_read = transport_bio_buffered_read ops,
       bio_write = (\<lambda>xs. transport_bio_buffered_write al al' ops (Some xs) (int (length xs))),
       bio_should_retry = (\<lambda>b. fl_retry (bs_flags b)),
       bio_wait_read = (\<lambda>timeout. ctrl (BIO_C_WAIT_READ timeout)),
       bio_wait_write = (\<lambda>timeout. ctrl (BIO_C_WAIT_WRITE timeout)),
       bio_write_blocked = (\<lambda>b. case ctrl BIO_C_WRITE_BLOCKED b of None \<Rightarrow> 0 | Some (status, _) \<Rightarrow> status),
       bio_flush = ctrl BIO_CTRL_FLUSH\<rparr>)"

text \<open>Any network, with one whose \<open>recv\<close> breaks its promise replaced by one that never has data.\<close>

definition checked_net :: "'w net_ops \<Rightarrow> ('w \<Rightarrow> byte list) \<Rightarrow> 'w net_ops" where
  "checked_net ops inp = (if recv_ok ops inp then ops else ops\<lparr>net_recv := (\<lambda>n w. (-1, WSAEWOULDBLOCK, [], w))\<rparr>)"

lemma recv_ok_checked: "recv_ok (checked_net ops inp) inp"
  unfolding checked_net_def by (simp add: recv_ok_def)

lemma checked_net_id: "recv_ok ops inp \<Longrightarrow> checked_net ops inp = ops"
  by (simp add: checked_net_def)

lemma buffered_read_cases:
  assumes "recv_ok ops inp" "0 < n" "transport_bio_buffered_read ops n b = (status, data, b')"
  shows "status \<le> int n \<and> (if status > 0 then length data = nat status \<and> inp (net b) = data @ inp (net b') else inp (net b') = inp (net b))"
proof -
  obtain st er d w where r: "net_recv ops n (net b) = (st, er, d, w)" by (metis prod_cases4)
  have "st \<le> int n \<and> (if st > 0 then length d = nat st \<and> inp (net b) = d @ inp w else inp w = inp (net b))"
    using assms(1) [unfolded recv_ok_def, rule_format, OF assms(2), of "net b"] r by simp
  then show ?thesis using assms(3) r
    by (auto simp: transport_bio_buffered_read_def transport_bio_simple_read_def Let_def split: if_splits prod.splits)
qed

interpretation tcp: front_bio "tcp_bio_ops al al' (checked_net ops inp)" "\<lambda>b. inp (net b)"
  for al al' :: "byte blocks" and ops :: "'w net_ops" and inp :: "'w \<Rightarrow> byte list"
proof
  fix n bio status data bio'
  assume n: "0 < n" and "bio_read (tcp_bio_ops al al' (checked_net ops inp)) n bio = (status, data, bio')"
  then have "transport_bio_buffered_read (checked_net ops inp) n bio = (status, data, bio')" by (simp add: tcp_bio_ops_def Let_def)
  then show "status \<le> int n \<and> (if status > 0 then length data = nat status \<and> inp (net bio) = data @ inp (net bio') else inp (net bio') = inp (net bio))"
    by (rule buffered_read_cases [OF recv_ok_checked n])
qed

subsection \<open>Correctness of reading\<close>

text \<open>
  Whole PDUs (C4): on a connection that does not block, with the bytes \<open>stream_bytes s\<close> of a PDU
  already read, a call of \<open>transport_read_pdu\<close> returns without touching memory outside the
  stream's buffer, whatever the socket delivers. A positive result is the length of a
  complete PDU, which the stream holds from its start: the bytes read before followed by the
  next bytes of the connection. Zero means that the PDU is not complete; what was read is
  in the stream and the next call goes on from there. Nothing of the connection is lost.
\<close>

theorem transport_read_pdu_frames:
  assumes "recv_ok ops inp" "frontBio t \<noteq> None" "\<not> blocking t" "reader_inv s" "alloc_ok al" "alloc_ok al'"
    and "pdu_partial (NlaMode t) (stream_bytes s)"
  shows "\<exists>st s' t' c. transport_read_pdu al al' (tcp_bio_ops bl bl' ops) t s = Some (st, s', t') \<and>
    pending (\<lambda>b. inp (net b)) t = c @ pending (\<lambda>b. inp (net b)) t' \<and>
    (if st > 0 then pdu_complete (NlaMode t) (stream_bytes s @ c) \<and> st = int (s_length s') \<and> s_pointer s' = 0 \<and>
       take (s_length s') (s_buffer s') = stream_bytes s @ c
     else if st = 0 then stream_bytes s' = stream_bytes s @ c \<and> reader_inv s' \<and> pdu_partial (NlaMode t) (stream_bytes s')
     else st = -1)"
proof -
  from tcp.read_pdu [OF assms(2-7), of bl bl' ops inp] obtain st s' t' c where
    "transport_read_pdu al al' (tcp_bio_ops bl bl' ops) t s = Some (st, s', t')" "took (\<lambda>b. inp (net b)) t c t'"
    "read_result (NlaMode t) (stream_bytes s @ c) st s'" unfolding checked_net_id [OF assms(1)] by blast
  then show ?thesis using took_pending [of _ t c t']
    by (intro exI [of _ st] exI [of _ s'] exI [of _ t'] exI [of _ c]) (auto simp: read_result_def split: if_splits)
qed

definition demo_reader :: wStream where
  "demo_reader = \<lparr>s_buffer = [3, 0, 0, 7, 0, 0, 0, 0], s_pointer = 1, s_length = 8, s_capacity = 8, s_count = 0, s_pool = None\<rparr>"

definition demo_transport :: "(byte list \<times> byte list) tcp_bio rdpTransport" where
  "demo_transport = \<lparr>layer = TRANSPORT_LAYER_TCP, frontBio = Some (demo_bio\<lparr>net := ([], [0, 0, 7, 2, 240, 128, 3, 0])\<rparr>),
     NlaMode = False, blocking = False, WaitForOutputBufferFlush = False, written = 0\<rparr>"

lemma demo_net_recv_ok: "recv_ok demo_net snd"
  unfolding recv_ok_def demo_net_def by (auto simp: min_def split: if_splits)

theorem transport_read_pdu_frames_witness:
  "\<exists>st s' t' c. transport_read_pdu calloc_zero calloc_zero (tcp_bio_ops (zero_blocks 0) (zero_blocks 0) demo_net) demo_transport demo_reader = Some (st, s', t') \<and>
    pending (\<lambda>b. snd (net b)) demo_transport = c @ pending (\<lambda>b. snd (net b)) t' \<and>
    (if st > 0 then pdu_complete (NlaMode demo_transport) (stream_bytes demo_reader @ c) \<and> st = int (s_length s') \<and> s_pointer s' = 0 \<and>
       take (s_length s') (s_buffer s') = stream_bytes demo_reader @ c
     else if st = 0 then stream_bytes s' = stream_bytes demo_reader @ c \<and> reader_inv s' \<and> pdu_partial (NlaMode demo_transport) (stream_bytes s')
     else st = -1)"
  by (rule transport_read_pdu_frames)
    (simp_all add: demo_net_recv_ok demo_transport_def demo_reader_def reader_inv_def pdu_partial_def stream_bytes_def)


lemma same_header:
  assumes "f @ rest = Q @ rest'" "pdu_hdr nla (f ! 0) (f ! 1) = Some k" "k \<le> length f" "2 \<le> length Q"
  shows "pdu_hdr nla (Q ! 0) (Q ! 1) = Some k" "k \<le> length Q \<Longrightarrow> pdu_len nla Q = pdu_len nla f"
proof -
  have k: "2 \<le> k" using pdu_hdr_bounds [OF assms(2)] by simp
  have nth: "Q ! i = f ! i" if "i < length Q" "i < length f" for i
    using that assms(1) by (metis nth_append)
  have "0 < length Q" "1 < length Q" "0 < length f" "1 < length f" using assms(3,4) k by linarith+
  then have "Q ! 0 = f ! 0" "Q ! 1 = f ! 1" using nth by blast+
  then show "pdu_hdr nla (Q ! 0) (Q ! 1) = Some k" using assms(2) by simp
  show "pdu_len nla Q = pdu_len nla f" if "k \<le> length Q" using assms(2,3) nth that by (intro pdu_len_cong) auto
qed

lemma pdu_complete_unique:
  assumes "pdu_complete nla f" "pdu_complete nla Q" "f @ rest = Q @ rest'"
  shows "Q = f" "rest' = rest"
proof -
  obtain k where k: "pdu_hdr nla (f ! 0) (f ! 1) = Some k" "k \<le> length f" "pdu_len nla f = Some (length f)"
    using assms(1) by (auto simp: pdu_complete_def)
  have q: "2 \<le> length Q" "pdu_len nla Q = Some (length Q)" "\<exists>j. pdu_hdr nla (Q ! 0) (Q ! 1) = Some j \<and> j \<le> length Q"
    using assms(2) by (auto simp: pdu_complete_def)
  note h = same_header [OF assms(3) k(1,2) q(1)]
  then have "length Q = length f" using q(2,3) k(3) by simp
  then show "Q = f" "rest' = rest" using assms(3) by simp_all
qed

lemma bio_eager_tcp:
  assumes "\<And>n w. 0 < n \<Longrightarrow> inp w \<noteq> [] \<Longrightarrow> fst (net_recv ops n w) > 0"
  shows "bio_eager (tcp_bio_ops al al' ops) (\<lambda>b. inp (net b))"
  unfolding bio_eager_def
proof (intro allI impI)
  fix n :: nat and b :: "'a tcp_bio" assume "0 < n" "inp (net b) \<noteq> []"
  then have "fst (net_recv ops n (net b)) > 0" by (rule assms)
  then show "fst (bio_read (tcp_bio_ops al al' ops) n b) > 0"
    by (auto simp: tcp_bio_ops_def transport_bio_buffered_read_def transport_bio_simple_read_def Let_def split: prod.splits)
qed

text \<open>
  No PDU is missed (C6): when memory does not run out and the socket always has the next byte
  of the connection ready, and the bytes read before and those to come start with a
  complete PDU \<open>f\<close> that is longer than its header, the call returns exactly \<open>f\<close> and leaves
  the connection at the first byte behind it.
\<close>

theorem transport_read_pdu_complete:
  assumes net: "recv_ok ops inp" "\<And>n w. 0 < n \<Longrightarrow> inp w \<noteq> [] \<Longrightarrow> fst (net_recv ops n w) > 0"
    and t: "frontBio t \<noteq> None" "\<not> blocking t" and s: "reader_inv s"
    and al: "alloc_ok al" "alloc_ok al'" "\<And>n. al n \<noteq> None" "\<And>n. al' n \<noteq> None"
    and part: "pdu_partial (NlaMode t) (stream_bytes s)"
    and f: "stream_bytes s @ pending (\<lambda>b. inp (net b)) t = f @ rest" "pdu_complete (NlaMode t) f"
      "pdu_hdr (NlaMode t) (f ! 0) (f ! 1) = Some k" "k < length f"
  shows "\<exists>s' t'. transport_read_pdu al al' (tcp_bio_ops bl bl' ops) t s = Some (int (length f), s', t') \<and>
    s_length s' = length f \<and> take (length f) (s_buffer s') = f \<and> pending (\<lambda>b. inp (net b)) t' = rest"
proof -
  let ?inp = "\<lambda>b. inp (net b)" and ?nla = "NlaMode t" and ?P = "stream_bytes s"
  have tot: "\<forall>n. al n \<noteq> None \<and> al' n \<noteq> None" using al(3,4) by blast
  note eager = bio_eager_tcp [where inp = inp and ops = ops, OF net(2)]
  from tcp.read_pdu [OF t s al(1,2) part, of bl bl' ops inp] obtain st s' t' c where
    r: "transport_read_pdu al al' (tcp_bio_ops bl bl' ops) t s = Some (st, s', t')" "took ?inp t c t'" "read_result ?nla (?P @ c) st s'"
      "st \<le> 0 \<longrightarrow> pdu_bad ?nla (?P @ c) \<or> pending ?inp t' = [] \<and> pdu_partial ?nla (?P @ c)"
    using eager [of bl bl'] tot unfolding checked_net_id [OF net(1)] by blast
  have eq: "f @ rest = (?P @ c) @ pending ?inp t'" using f(1) took_pending [OF r(2)] by simp
  have len: "pdu_len ?nla f = Some (length f)" "2 \<le> k" "k \<le> length f" using f pdu_hdr_bounds [OF f(3)] by (auto simp: pdu_complete_def)
  note h = same_header [OF eq f(3) len(3)]
  have "\<not> pdu_bad ?nla (?P @ c)" using h len f(4) by (auto simp: pdu_bad_def split: option.splits)
  moreover have "\<not> (pending ?inp t' = [] \<and> pdu_partial ?nla (?P @ c))"
  proof
    assume "pending ?inp t' = [] \<and> pdu_partial ?nla (?P @ c)"
    then have p: "pdu_partial ?nla (?P @ c)" "?P @ c = f @ rest" using eq by auto
    then have ge: "length f \<le> length (?P @ c)" by simp
    then show False using p(1) h len f(4) by (simp add: pdu_partial_def)
  qed
  ultimately have "st > 0" using r(4) by linarith
  then have q: "pdu_complete ?nla (?P @ c)" "st = int (length (?P @ c))" "s_length s' = length (?P @ c)" "take (length (?P @ c)) (s_buffer s') = ?P @ c"
    using r(3) by (auto simp: read_result_def)
  have "?P @ c = f" "pending ?inp t' = rest" using pdu_complete_unique [OF f(2) q(1) eq] by auto
  then show ?thesis using r(1) q by (intro exI [of _ s'] exI [of _ t']) simp
qed

theorem transport_read_pdu_complete_witness:
  "\<exists>s' t'. transport_read_pdu calloc_zero calloc_zero (tcp_bio_ops (zero_blocks 0) (zero_blocks 0) demo_net) demo_transport demo_reader =
      Some (int (length [3, 0, 0, 7, 2, 240, 128 :: byte]), s', t') \<and> s_length s' = length [3, 0, 0, 7, 2, 240, 128 :: byte] \<and>
    take (length [3, 0, 0, 7, 2, 240, 128 :: byte]) (s_buffer s') = [3, 0, 0, 7, 2, 240, 128] \<and> pending (\<lambda>b. snd (net b)) t' = [3, 0]"
proof (rule transport_read_pdu_complete [where inp = snd and k = 4])
  show "recv_ok demo_net snd" by (rule demo_net_recv_ok)
  show "0 < n \<Longrightarrow> snd w \<noteq> [] \<Longrightarrow> 0 < fst (net_recv demo_net n w)" for n and w :: "byte list \<times> byte list"
    by (cases w) (auto simp: demo_net_def)
qed (simp_all add: demo_transport_def demo_reader_def reader_inv_def pdu_partial_def stream_bytes_def pdu_complete_def pdu_hdr_def pdu_len_def
    pending_def calloc_zero_def)


text \<open>
  A PDU without a body is never returned (C31): when the length in a complete header is no more
  than the header itself (a fast-path PDU of three bytes with a two-byte length, a
  TSRequest of length zero, or in NLA mode anything that is not a TSRequest), the calls of
  \<open>transport_read_pdu\<close> take nothing more from the connection and report again and again that
  data is missing, although the PDU is complete.
\<close>

theorem transport_read_pdu_no_body_stuck:
  assumes "recv_ok ops inp" "frontBio t \<noteq> None" "\<not> blocking t" "reader_inv s" "alloc_ok al" "alloc_ok al'"
    and hdr: "pdu_hdr (NlaMode t) (stream_bytes s ! 0) (stream_bytes s ! 1) = Some (length (stream_bytes s))"
      "pdu_len (NlaMode t) (stream_bytes s) = Some m" "m \<le> length (stream_bytes s)"
  shows "\<exists>st s' t'. transport_read_pdu al al' (tcp_bio_ops bl bl' ops) t s = Some (st, s', t') \<and> (st = 0 \<or> st = -1) \<and>
    pending (\<lambda>b. inp (net b)) t' = pending (\<lambda>b. inp (net b)) t \<and> (st = 0 \<longrightarrow> stream_bytes s' = stream_bytes s)"
proof -
  have "pdu_partial (NlaMode t) (stream_bytes s)" using hdr(1,2) by (simp add: pdu_partial_def)
  from tcp.read_pdu [OF assms(2-6) this, of bl bl' ops inp] obtain st s' t' c where
    r: "transport_read_pdu al al' (tcp_bio_ops bl bl' ops) t s = Some (st, s', t')" "took (\<lambda>b. inp (net b)) t c t'"
      "read_result (NlaMode t) (stream_bytes s @ c) st s'" "st \<le> 0 \<and> c = []"
    using hdr unfolding checked_net_id [OF assms(1)] by blast
  then show ?thesis using took_pending [OF r(2)]
    by (intro exI [of _ st] exI [of _ s'] exI [of _ t']) (auto simp: read_result_def split: if_splits)
qed

theorem transport_read_pdu_no_body_stuck_witness:
  "\<exists>st s' t'. transport_read_pdu calloc_zero calloc_zero (tcp_bio_ops (zero_blocks 0) (zero_blocks 0) demo_net) demo_transport
      (demo_reader\<lparr>s_buffer := [0, 128, 3, 0], s_capacity := 4, s_pointer := 3\<rparr>) = Some (st, s', t') \<and> (st = 0 \<or> st = -1) \<and>
    pending (\<lambda>b. snd (net b)) t' = pending (\<lambda>b. snd (net b)) demo_transport \<and>
    (st = 0 \<longrightarrow> stream_bytes s' = stream_bytes (demo_reader\<lparr>s_buffer := [0, 128, 3, 0], s_capacity := 4, s_pointer := 3\<rparr>))"
  by (rule transport_read_pdu_no_body_stuck [where m = 3])
    (simp_all add: demo_net_recv_ok demo_transport_def demo_reader_def reader_inv_def stream_bytes_def pdu_hdr_def pdu_len_def Let_def)

subsection \<open>Correctness of writing\<close>



text \<open>
  Sending nothing closes the connection: \<open>transport_write\<close> of an empty stream never enters
  its loop, returns the initial status -1 and marks the transport as closed.
\<close>

theorem transport_write_empty_closes:
  assumes "frontBio t = Some b" "s_pointer s = 0"
  shows "transport_write ops t s = Some (-1, t\<lparr>layer := TRANSPORT_LAYER_CLOSED\<rparr>)"
proof -
  have "write_loop ops bl wf 0 (-1) (Stream_SetPosition s 0) b = Some (-1, True, Stream_SetPosition s 0, b)" for bl wf
    by (subst write_loop.simps) simp
  then show ?thesis using assms by (simp add: transport_write_def Stream_GetPosition_def)
qed

theorem transport_write_empty_closes_witness:
  "transport_write (tcp_bio_ops (zero_blocks 0) (zero_blocks 0) demo_net) (demo_transport\<lparr>frontBio := Some demo_bio\<rparr>)
      (demo_reader\<lparr>s_pointer := 0\<rparr>) = Some (-1, demo_transport\<lparr>frontBio := Some demo_bio, layer := TRANSPORT_LAYER_CLOSED\<rparr>)"
  using transport_write_empty_closes [of "demo_transport\<lparr>frontBio := Some demo_bio\<rparr>" demo_bio "demo_reader\<lparr>s_pointer := 0\<rparr>"] by simp

end
