(* ===== verification/BipBuffer.thy ===== *)
theory BipBuffer
  imports BytePipe
begin

text \<open>
  The bip buffer of \<open>winpr/libwinpr/utils/collections/BipBuffer.c\<close>: a circular buffer whose
  contents are at most two blocks, \<open>blockA\<close> followed by \<open>blockB\<close> at the start of the memory, so
  that reservations are always contiguous. Sizes are \<open>size_t\<close> values whose sums and differences
  wrap. The out parameter \<open>reserved\<close>, which every caller gives, is passed through.
\<close>

record wBipBlock =
  blk_index :: nat
  blk_size :: nat

record wBipBuffer =
  bip_size :: nat
  bip_buffer :: "byte list"
  bip_pageSize :: nat
  blockA :: wBipBlock
  blockB :: wBipBlock
  readR :: wBipBlock
  writeR :: wBipBlock

subsection \<open>Operations\<close>

definition BipBlock_Clear :: wBipBlock where
  "BipBlock_Clear = \<lparr>blk_index = 0, blk_size = 0\<rparr>"

definition BipBuffer_Clear :: "wBipBuffer \<Rightarrow> wBipBuffer" where
  "BipBuffer_Clear bb = bb\<lparr>blockA := BipBlock_Clear, blockB := BipBlock_Clear, readR := BipBlock_Clear, writeR := BipBlock_Clear\<rparr>"

definition bip_page_up :: "nat \<Rightarrow> nat \<Rightarrow> nat" where
  "bip_page_up page sz = size_add sz (sz mod page)"

definition BipBuffer_AllocBuffer :: "byte blocks \<Rightarrow> wBipBuffer \<Rightarrow> nat \<Rightarrow> bool \<times> wBipBuffer" where
  "BipBuffer_AllocBuffer al bb sz =
     (if sz < 1 then (False, bb)
      else
        let sz = bip_page_up (bip_pageSize bb) sz in
        case al sz of None \<Rightarrow> (False, bb\<lparr>bip_buffer := []\<rparr>) | Some xs \<Rightarrow> (True, bb\<lparr>bip_buffer := xs, bip_size := sz\<rparr>))"

definition BipBuffer_FreeBuffer :: "wBipBuffer \<Rightarrow> wBipBuffer" where
  "BipBuffer_FreeBuffer bb = BipBuffer_Clear (bb\<lparr>bip_buffer := []\<rparr>)"

definition BipBuffer_UsedSize :: "wBipBuffer \<Rightarrow> nat" where
  "BipBuffer_UsedSize bb = size_add (blk_size (blockA bb)) (blk_size (blockB bb))"

definition BipBuffer_BufferSize :: "wBipBuffer \<Rightarrow> nat" where
  "BipBuffer_BufferSize bb = bip_size bb"

text \<open>The results are the returned pointer as an offset into the buffer, the value of \<open>*reserved\<close> and the buffer.\<close>

definition BipBuffer_ReadTryReserve :: "wBipBuffer \<Rightarrow> nat \<Rightarrow> nat option \<times> nat" where
  "BipBuffer_ReadTryReserve bb sz =
     (if blk_size (blockA bb) = 0 then (None, 0)
      else
        let reservable = blk_size (blockA bb);
            reservable = (if sz \<noteq> 0 \<and> reservable > sz then sz else reservable)
        in (Some (blk_index (blockA bb)), reservable))"

definition BipBuffer_ReadCommit :: "wBipBuffer \<Rightarrow> nat \<Rightarrow> wBipBuffer" where
  "BipBuffer_ReadCommit bb sz =
     (if sz \<ge> blk_size (blockA bb) then bb\<lparr>blockA := blockB bb, blockB := BipBlock_Clear\<rparr>
      else bb\<lparr>blockA := \<lparr>blk_index = size_add (blk_index (blockA bb)) sz, blk_size = size_sub (blk_size (blockA bb)) sz\<rparr>\<rparr>)"

text \<open>One of the two copies of \<open>BipBuffer_Grow\<close>: the readable block goes to the new memory and is committed.\<close>

definition bip_move_block :: "wBipBuffer \<times> byte list \<times> nat \<Rightarrow> (wBipBuffer \<times> byte list \<times> nat) option" where
  "bip_move_block st = (case st of (bb, buffer, commitSize) \<Rightarrow>
     (case BipBuffer_ReadTryReserve bb 0 of
        (None, _) \<Rightarrow> Some (bb, buffer, commitSize)
      | (Some block, blockSize) \<Rightarrow> do {
          xs \<leftarrow> mem_read (bip_buffer bb) block blockSize;
          buffer \<leftarrow> mem_write buffer commitSize xs;
          Some (BipBuffer_ReadCommit bb blockSize, buffer, size_add commitSize blockSize) }))"

definition BipBuffer_Grow :: "byte blocks \<Rightarrow> wBipBuffer \<Rightarrow> nat \<Rightarrow> (bool \<times> wBipBuffer) option" where
  "BipBuffer_Grow al bb sz =
     (let sz = bip_page_up (bip_pageSize bb) sz in
      if sz \<le> bip_size bb then Some (True, bb)
      else case al sz of
        None \<Rightarrow> Some (False, bb)
      | Some buffer \<Rightarrow> do {
          st \<leftarrow> bip_move_block (bb, buffer, 0);
          (bb, buffer, commitSize) \<leftarrow> bip_move_block st;
          Some (True, (BipBuffer_Clear bb)\<lparr>bip_buffer := buffer, bip_size := sz, blockA := \<lparr>blk_index = 0, blk_size = commitSize\<rparr>\<rparr>) })"

definition BipBuffer_WriteTryReserve :: "wBipBuffer \<Rightarrow> nat \<Rightarrow> nat \<Rightarrow> nat option \<times> nat \<times> wBipBuffer" where
  "BipBuffer_WriteTryReserve bb sz reserved =
     (let A = blockA bb; B = blockB bb in
      if blk_size B = 0 then
        (let reservable = size_sub (size_sub (bip_size bb) (blk_index A)) (blk_size A) in
         if reservable \<ge> blk_index A then
           (if reservable = 0 then (None, reserved, bb)
            else
              let reservable = (if sz < reservable then sz else reservable);
                  index = size_add (blk_index A) (blk_size A)
              in (Some index, reservable, bb\<lparr>writeR := \<lparr>blk_index = index, blk_size = reservable\<rparr>\<rparr>))
         else if blk_index A = 0 then (None, reserved, bb)
         else
           let sz = (if blk_index A < sz then blk_index A else sz)
           in (Some 0, sz, bb\<lparr>writeR := \<lparr>blk_index = 0, blk_size = sz\<rparr>\<rparr>))
      else
        let reservable = size_sub (size_sub (blk_index A) (blk_index B)) (blk_size B);
            reservable = (if sz < reservable then sz else reservable)
        in if reservable = 0 then (None, reserved, bb)
           else
             let index = size_add (blk_index B) (blk_size B)
             in (Some index, reservable, bb\<lparr>writeR := \<lparr>blk_index = index, blk_size = reservable\<rparr>\<rparr>))"

definition BipBuffer_WriteReserve :: "byte blocks \<Rightarrow> wBipBuffer \<Rightarrow> nat \<Rightarrow> (nat option \<times> wBipBuffer) option" where
  "BipBuffer_WriteReserve al bb sz =
     (case BipBuffer_WriteTryReserve bb sz 0 of (block, reserved, bb) \<Rightarrow>
        if reserved = sz then Some (block, bb)
        else do {
          (ok, bb) \<leftarrow> BipBuffer_Grow al bb sz;
          (if \<not> ok then Some (None, bb)
           else case BipBuffer_WriteTryReserve bb sz reserved of (block, _, bb) \<Rightarrow> Some (block, bb)) })"

definition BipBuffer_WriteCommit :: "wBipBuffer \<Rightarrow> nat \<Rightarrow> wBipBuffer" where
  "BipBuffer_WriteCommit bb sz =
     (if sz = 0 then bb\<lparr>writeR := BipBlock_Clear\<rparr>
      else
        let sz = (if sz > blk_size (writeR bb) then blk_size (writeR bb) else sz);
            A = blockA bb; B = blockB bb; W = writeR bb
        in if blk_size A = 0 \<and> blk_size B = 0 then bb\<lparr>blockA := \<lparr>blk_index = blk_index W, blk_size = sz\<rparr>, writeR := BipBlock_Clear\<rparr>
           else if blk_index W = size_add (blk_size A) (blk_index A)
           then bb\<lparr>blockA := A\<lparr>blk_size := size_add (blk_size A) sz\<rparr>, writeR := BipBlock_Clear\<rparr>
           else bb\<lparr>blockB := B\<lparr>blk_size := size_add (blk_size B) sz\<rparr>, writeR := BipBlock_Clear\<rparr>)"

text \<open>
  One of the two rounds of \<open>BipBuffer_Write\<close>: reserve, copy, commit. The flag tells whether
  the function returns after the round.
\<close>

definition bip_write_round :: "byte list \<Rightarrow> nat \<Rightarrow> int \<Rightarrow> nat \<Rightarrow> wBipBuffer \<Rightarrow> (bool \<times> int \<times> nat \<times> wBipBuffer) option" where
  "bip_write_round data sz status blockSize bb =
     (case BipBuffer_WriteTryReserve bb (size_sub sz (size_of_int status)) blockSize of
        (None, blockSize, bb) \<Rightarrow> Some (False, status, blockSize, bb)
      | (Some block, blockSize, bb) \<Rightarrow> do {
          let writeSize = size_sub sz (size_of_int status);
          let writeSize = (if writeSize > blockSize then blockSize else writeSize);
          xs \<leftarrow> mem_read data (size_of_int status) writeSize;
          buf \<leftarrow> mem_write (bip_buffer bb) block xs;
          let bb = BipBuffer_WriteCommit (bb\<lparr>bip_buffer := buf\<rparr>) writeSize;
          let status = status + c_int writeSize;
          Some (size_of_int status = sz \<or> writeSize < blockSize, status, blockSize, bb) })"

definition BipBuffer_Write :: "byte blocks \<Rightarrow> wBipBuffer \<Rightarrow> byte list \<Rightarrow> nat \<Rightarrow> (int \<times> wBipBuffer) option" where
  "BipBuffer_Write al bb data sz = do {
     (block, bb) \<leftarrow> BipBuffer_WriteReserve al bb sz;
     (if block = None then Some (-1, bb)
      else do {
        (stop, status, blockSize, bb) \<leftarrow> bip_write_round data sz 0 0 bb;
        (if stop then Some (status, bb)
         else do {
           (_, status, _, bb) \<leftarrow> bip_write_round data sz status blockSize bb;
           Some (status, bb) }) }) }"

definition BipBuffer_ReadReserve :: "byte blocks \<Rightarrow> wBipBuffer \<Rightarrow> nat \<Rightarrow> (nat option \<times> wBipBuffer) option" where
  "BipBuffer_ReadReserve al bb sz =
     (if BipBuffer_UsedSize bb < sz then Some (None, bb)
      else case BipBuffer_ReadTryReserve bb sz of (block, reserved) \<Rightarrow>
        if reserved = sz then Some (block, bb)
        else do {
          (ok, bb) \<leftarrow> BipBuffer_Grow al bb (size_add (bip_size bb) 1);
          (if \<not> ok then Some (None, bb)
           else case BipBuffer_ReadTryReserve bb sz of (block, reserved) \<Rightarrow>
             Some (if reserved \<noteq> sz then None else block, bb)) })"

definition bip_read_round :: "nat \<Rightarrow> int \<Rightarrow> byte list \<Rightarrow> wBipBuffer \<Rightarrow> (bool \<times> int \<times> byte list \<times> wBipBuffer) option" where
  "bip_read_round sz status data bb =
     (case BipBuffer_ReadTryReserve bb 0 of
        (None, _) \<Rightarrow> Some (False, status, data, bb)
      | (Some block, blockSize) \<Rightarrow> do {
          let readSize = size_sub sz (size_of_int status);
          let readSize = (if readSize > blockSize then blockSize else readSize);
          xs \<leftarrow> mem_read (bip_buffer bb) block readSize;
          data \<leftarrow> mem_write data (size_of_int status) xs;
          let bb = BipBuffer_ReadCommit bb readSize;
          let status = status + c_int readSize;
          Some (size_of_int status = sz \<or> readSize < blockSize, status, data, bb) })"

definition BipBuffer_Read :: "wBipBuffer \<Rightarrow> byte list \<Rightarrow> nat \<Rightarrow> (int \<times> byte list \<times> wBipBuffer) option" where
  "BipBuffer_Read bb data sz = do {
     (stop, status, data, bb) \<leftarrow> bip_read_round sz 0 data bb;
     (if stop then Some (status, data, bb)
      else do {
        (_, status, data, bb) \<leftarrow> bip_read_round sz status data bb;
        Some (status, data, bb) }) }"

text \<open>\<open>page\<close> is the page size of the system; \<open>bb_ok\<close> tells whether the structure is allocated.\<close>

definition BipBuffer_New :: "bool \<Rightarrow> byte blocks \<Rightarrow> nat \<Rightarrow> nat \<Rightarrow> wBipBuffer option" where
  "BipBuffer_New bb_ok al page sz =
     (if \<not> bb_ok then None
      else
        let bb = \<lparr>bip_size = 0, bip_buffer = [], bip_pageSize = (if page < 4096 then 4096 else page), blockA = BipBlock_Clear,
                  blockB = BipBlock_Clear, readR = BipBlock_Clear, writeR = BipBlock_Clear\<rparr>
        in case BipBuffer_AllocBuffer al bb sz of (False, _) \<Rightarrow> None | (True, bb) \<Rightarrow> Some bb)"


subsection \<open>Invariant and contents\<close>

definition bip_wf :: "wBipBuffer \<Rightarrow> bool" where
  "bip_wf bb \<longleftrightarrow> length (bip_buffer bb) = bip_size bb \<and> bip_size bb < 2 ^ 62 \<and> 0 < bip_pageSize bb \<and> blk_index (blockB bb) = 0 \<and>
     blk_index (blockA bb) + blk_size (blockA bb) \<le> bip_size bb \<and> blk_size (blockB bb) \<le> blk_index (blockA bb) \<and>
     (blk_size (blockA bb) = 0 \<longrightarrow> blk_index (blockA bb) = 0)"

definition bip_contents :: "wBipBuffer \<Rightarrow> byte list" where
  "bip_contents bb = take (blk_size (blockA bb)) (drop (blk_index (blockA bb)) (bip_buffer bb)) @ take (blk_size (blockB bb)) (bip_buffer bb)"

lemma length_bip_contents: "bip_wf bb \<Longrightarrow> length (bip_contents bb) = blk_size (blockA bb) + blk_size (blockB bb)"
  by (auto simp: bip_wf_def bip_contents_def)

text \<open>A write to one of the two ends of the contents.\<close>

lemma bip_append_A:
  assumes "mem_write buf (i + n) xs = Some buf'"
  shows "take (n + length xs) (drop i buf') = take n (drop i buf) @ xs"
proof -
  have "i + n + length xs \<le> length buf" and e: "buf' = take (i + n) buf @ xs @ drop (i + n + length xs) buf"
    using assms by (auto simp: mem_write_def split: if_splits)
  then have "drop i buf' = take n (drop i buf) @ xs @ drop (i + n + length xs) buf"
    by (simp add: take_add [of i n buf] drop_take)
  then show ?thesis using \<open>i + n + length xs \<le> length buf\<close> by simp
qed

lemma bip_append_B:
  assumes "mem_write buf b xs = Some buf'" "b + length xs \<le> i"
  shows "take (b + length xs) buf' = take b buf @ xs" "drop i buf' = drop i buf"
  using bip_append_A [of buf 0 b xs buf'] assms by (auto simp: mem_write_def split: if_splits)

text \<open>What a reservation for writing gives, and what committing it does.\<close>

lemma bip_try_reserve:
  assumes wf: "bip_wf bb" and sz: "sz < 2 ^ 62" and r: "BipBuffer_WriteTryReserve bb sz reserved = (blk, n, bb')"
  shows "bip_wf bb'" "bip_contents bb' = bip_contents bb" "blk = None \<Longrightarrow> bb' = bb \<and> n = reserved" "blk \<noteq> None \<Longrightarrow> n \<le> sz"
    "bip_size bb' = bip_size bb" "bip_pageSize bb' = bip_pageSize bb"
  using r wf by (auto simp: BipBuffer_WriteTryReserve_def bip_wf_def bip_contents_def Let_def split: if_splits)

lemma bip_commit:
  assumes wf: "bip_wf bb" and sz: "sz < 2 ^ 62" and r: "BipBuffer_WriteTryReserve bb sz reserved = (Some off, n, bb')" and xs: "length xs = n"
  shows "\<exists>buf. mem_write (bip_buffer bb') off xs = Some buf \<and> (let bb2 = BipBuffer_WriteCommit (bb'\<lparr>bip_buffer := buf\<rparr>) n in
    bip_wf bb2 \<and> bip_contents bb2 = bip_contents bb @ xs \<and> bip_size bb2 = bip_size bb)"
proof -
  let ?A = "blockA bb" and ?B = "blockB bb" and ?buf = "bip_buffer bb"
  let ?i = "blk_index (blockA bb)" and ?a = "blk_size (blockA bb)" and ?b = "blk_size (blockB bb)" and ?s = "bip_size bb"
  have w: "length ?buf = ?s" "?s < 2 ^ 62" "blk_index ?B = 0" "?i + ?a \<le> ?s" "?b \<le> ?i" "?a = 0 \<longrightarrow> ?i = 0" "0 < bip_pageSize bb"
    using wf by (auto simp: bip_wf_def)
  have ss: "size_sub (size_sub ?s ?i) ?a = ?s - ?i - ?a" "size_add ?i ?a = ?i + ?a" "size_sub (size_sub ?i 0) ?b = ?i - ?b" "size_add 0 ?b = ?b"
    "size_add ?a ?i = ?i + ?a" using w by auto
  consider (after) "?b = 0" "off = ?i + ?a" "n \<le> ?s - ?i - ?a" "bb' = bb\<lparr>writeR := \<lparr>blk_index = off, blk_size = n\<rparr>\<rparr>"
    | (before) "0 < ?a" "off = ?b" "n \<le> ?i - ?b" "bb' = bb\<lparr>writeR := \<lparr>blk_index = off, blk_size = n\<rparr>\<rparr>"
  proof (cases "?b = 0")
    case True
    then show thesis using r w that unfolding BipBuffer_WriteTryReserve_def Let_def ss by (auto split: if_splits)
  next
    case False
    then have "0 < ?a" using w(5,6) by auto
    then show thesis using False r that(2) unfolding BipBuffer_WriteTryReserve_def Let_def w(3) ss by (auto split: if_splits)
  qed
  then show ?thesis
  proof cases
    case after
    have fits: "?i + ?a + n \<le> ?s" using after(3) w(4) by linarith
    then obtain buf where b: "mem_write ?buf (?i + ?a) xs = Some buf" using w(1) xs by (simp add: mem_write_def)
    have l: "length buf = ?s" using length_mem_write [OF b] w by simp
    let ?bb = "bb\<lparr>bip_buffer := buf, blockA := ?A\<lparr>blk_size := ?a + n\<rparr>, writeR := BipBlock_Clear\<rparr>"
    have e: "\<lparr>blk_index = ?i, blk_size = m\<rparr> = ?A\<lparr>blk_size := m\<rparr>" for m by (cases ?A) simp
    have "BipBuffer_WriteCommit (bb'\<lparr>bip_buffer := buf\<rparr>) n = ?bb"
    proof (cases "n = 0")
      case False
      have "size_add ?a n = ?a + n" using w(2) fits by (intro size_add_small) auto
      then show ?thesis using False after(1,2) w(6) ss(5) e [of n] unfolding after(4)
        by (cases "?a = 0") (simp_all add: BipBuffer_WriteCommit_def Let_def)
    qed (simp add: BipBuffer_WriteCommit_def after(4))
    moreover have "bip_wf ?bb" using w l after(1) fits by (auto simp: bip_wf_def)
    moreover have "bip_contents ?bb = bip_contents bb @ xs"
      using bip_append_A [OF b] after(1) xs by (simp add: bip_contents_def)
    ultimately show ?thesis using b after(2,4) by (simp add: Let_def)
  next
    case before
    have "?b + n \<le> ?s" using before w by linarith
    then obtain buf where b: "mem_write ?buf ?b xs = Some buf" using w xs by (simp add: mem_write_def)
    have l: "length buf = ?s" using length_mem_write [OF b] w by simp
    let ?bb = "bb\<lparr>bip_buffer := buf, blockB := ?B\<lparr>blk_size := ?b + n\<rparr>, writeR := BipBlock_Clear\<rparr>"
    have "BipBuffer_WriteCommit (bb'\<lparr>bip_buffer := buf\<rparr>) n = ?bb"
    proof (cases "n = 0")
      case False
      have "size_add ?b n = ?b + n" "?b \<noteq> ?i + ?a" using w before by auto
      then show ?thesis using False before(1,2) ss(5) unfolding before(4) by (simp add: BipBuffer_WriteCommit_def Let_def)
    qed (simp add: BipBuffer_WriteCommit_def before(4))
    moreover have bi: "?b + length xs \<le> ?i" using before(3) w(5) xs by simp
    moreover have "bip_wf ?bb" using w l before bi xs by (auto simp: bip_wf_def)
    moreover have "bip_contents ?bb = bip_contents bb @ xs"
      using bip_append_B [OF b bi] xs by (simp add: bip_contents_def)
    ultimately show ?thesis using b before(2,4) by (simp add: Let_def)
  qed
qed

lemma bip_write_round_cases:
  assumes wf: "bip_wf bb" and sz: "length data < 2 ^ 31" and st: "k \<le> length data"
  shows "\<exists>stop j n bb'. bip_write_round data (length data) (int k) blockSize bb = Some (stop, int (k + j), n, bb') \<and> k + j \<le> length data \<and>
    bip_wf bb' \<and> bip_contents bb' = bip_contents bb @ take j (drop k data)"
proof -
  let ?m = "length data - k"
  obtain blk n bb1 where r: "BipBuffer_WriteTryReserve bb ?m blockSize = (blk, n, bb1)" by (metis prod_cases3)
  have m: "size_of_int (int k) = k" "size_sub (length data) k = ?m" "?m < 2 ^ 62" using st sz by auto
  note t = bip_try_reserve [OF wf m(3) r]
  show ?thesis
  proof (cases blk)
    case None
    then have "bip_write_round data (length data) (int k) blockSize bb = Some (False, int (k + 0), n, bb1)"
      using r m by (simp add: bip_write_round_def)
    then show ?thesis using t(1,2) st by (intro exI [of _ False] exI [of _ 0] exI [of _ n] exI [of _ bb1]) simp
  next
    case (Some off)
    have n: "n \<le> ?m" using t(4) Some by simp
    let ?xs = "take n (drop k data)"
    have lx: "length ?xs = n" using n by simp
    from bip_commit [OF wf m(3) r [unfolded Some] lx] obtain buf where b: "mem_write (bip_buffer bb1) off ?xs = Some buf"
      "bip_wf (BipBuffer_WriteCommit (bb1\<lparr>bip_buffer := buf\<rparr>) n)"
      "bip_contents (BipBuffer_WriteCommit (bb1\<lparr>bip_buffer := buf\<rparr>) n) = bip_contents bb @ ?xs" by (auto simp: Let_def)
    have rd: "mem_read data k n = Some ?xs" using n st by (simp add: mem_read_def)
    have ws: "(if ?m > n then n else ?m) = n" "c_int n = int n" using n sz by auto
    have "bip_write_round data (length data) (int k) blockSize bb =
      Some (size_of_int (int k + int n) = length data \<or> n < n, int (k + n), n, BipBuffer_WriteCommit (bb1\<lparr>bip_buffer := buf\<rparr>) n)"
      using r Some b(1) rd unfolding bip_write_round_def m(1,2) Let_def by (simp add: ws)
    then show ?thesis using b n st by (intro exI [of _ "size_of_int (int k + int n) = length data \<or> n < n"] exI [of _ n] exI [of _ n]
      exI [of _ "BipBuffer_WriteCommit (bb1\<lparr>bip_buffer := buf\<rparr>) n"]) simp
  qed
qed


subsection \<open>Growing\<close>

lemma bip_move_block_cases:
  assumes wf: "bip_wf bb" and new: "take n buffer = pre" "n = length pre" "n + length (bip_contents bb) \<le> length buffer" "length buffer < 2 ^ 63"
  shows "\<exists>bb' buffer' k. bip_move_block (bb, buffer, n) = Some (bb', buffer', n + k) \<and> bip_wf bb' \<and> length buffer' = length buffer \<and>
    take (n + k) buffer' = pre @ take k (bip_contents bb) \<and> bip_contents bb' = drop k (bip_contents bb) \<and> k \<le> length (bip_contents bb) \<and>
    blockB bb' = BipBlock_Clear \<and> (blk_size (blockB bb) = 0 \<longrightarrow> k = length (bip_contents bb)) \<and>
    bip_size bb' = bip_size bb \<and> bip_pageSize bb' = bip_pageSize bb"
proof (cases "blk_size (blockA bb) = 0")
  case True
  then have e: "blk_size (blockB bb) = 0" "blk_index (blockB bb) = 0" using wf by (auto simp: bip_wf_def)
  then have "blockB bb = BipBlock_Clear" by (cases "blockB bb") (simp add: BipBlock_Clear_def)
  then have "bip_move_block (bb, buffer, n) = Some (bb, buffer, n + 0)" "bip_contents bb = []"
    using True e by (simp_all add: bip_move_block_def BipBuffer_ReadTryReserve_def bip_contents_def)
  then show ?thesis using wf new \<open>blockB bb = BipBlock_Clear\<close>
    by (intro exI [of _ bb] exI [of _ buffer] exI [of _ 0]) simp
next
  case False
  let ?A = "blockA bb" and ?a = "blk_size (blockA bb)" and ?i = "blk_index (blockA bb)"
  let ?xs = "take ?a (drop ?i (bip_buffer bb))"
  have rd: "mem_read (bip_buffer bb) ?i ?a = Some ?xs" and lx: "length ?xs = ?a" and c: "bip_contents bb = ?xs @ take (blk_size (blockB bb)) (bip_buffer bb)"
    using wf by (auto simp: mem_read_def bip_wf_def bip_contents_def)
  have la: "?a \<le> length (bip_contents bb)" using c lx by simp
  then obtain b where b: "mem_write buffer n ?xs = Some b" using new(3) lx by (simp add: mem_write_def)
  have tb: "take (n + ?a) b = pre @ ?xs" using b new(1) lx bip_append_A [of buffer 0 n ?xs b] by simp
  let ?bb = "bb\<lparr>blockA := blockB bb, blockB := BipBlock_Clear\<rparr>"
  have "size_add n ?a = n + ?a" using new(3,4) la by (intro size_add_small) auto
  then have "bip_move_block (bb, buffer, n) = Some (?bb, b, n + ?a)"
    using False rd b by (simp add: bip_move_block_def BipBuffer_ReadTryReserve_def BipBuffer_ReadCommit_def)
  moreover have "bip_wf ?bb" "bip_contents ?bb = drop ?a (bip_contents bb)"
    using wf c lx by (auto simp: bip_wf_def bip_contents_def BipBlock_Clear_def)
  moreover have "take ?a (bip_contents bb) = ?xs" using c lx by simp
  ultimately show ?thesis using tb length_mem_write [OF b] la c lx
    by (intro exI [of _ ?bb] exI [of _ b] exI [of _ ?a]) simp
qed

lemma BipBuffer_Grow_cases:
  assumes wf: "bip_wf bb" and al: "fresh_ok al" and sz: "sz < 2 ^ 61"
  shows "\<exists>ok bb'. BipBuffer_Grow al bb sz = Some (ok, bb') \<and> bip_wf bb' \<and> bip_contents bb' = bip_contents bb \<and>
    (ok \<longrightarrow> sz \<le> bip_size bb') \<and> bip_pageSize bb' = bip_pageSize bb \<and> (bip_size bb < sz \<longrightarrow> ok \<longrightarrow> blk_size (blockA bb') = length (bip_contents bb))"
proof -
  let ?c = "bip_contents bb" and ?page = "bip_pageSize bb"
  define n where "n = bip_page_up ?page sz"
  have page: "0 < ?page" using wf by (simp add: bip_wf_def)
  have "sz + sz mod ?page \<le> sz + sz" by simp
  also have "\<dots> < 2 ^ 62" using sz by simp
  finally have up: "sz + sz mod ?page < 2 ^ 62" .
  then have eq: "n = sz + sz mod ?page" unfolding n_def bip_page_up_def by (intro size_add_small) simp
  then have n: "sz \<le> n" "n < 2 ^ 62" using up by simp_all
  have lc: "length ?c \<le> bip_size bb" using wf length_bip_contents [OF wf] by (auto simp: bip_wf_def)
  show ?thesis
  proof (cases "n \<le> bip_size bb")
    case True
    then have "BipBuffer_Grow al bb sz = Some (True, bb)" by (simp add: BipBuffer_Grow_def n_def)
    then show ?thesis using wf n(1) True by (intro exI [of _ True] exI [of _ bb]) simp
  next
    case False
    show ?thesis
    proof (cases "al n")
      case None
      then have "BipBuffer_Grow al bb sz = Some (False, bb)" using False by (simp add: BipBuffer_Grow_def n_def)
      then show ?thesis using wf by (intro exI [of _ False] exI [of _ bb]) simp
    next
      case (Some new)
      then have ln: "length new = n" using al by (simp add: fresh_ok_def)
      have f1: "take 0 new = []" "0 = length ([] :: byte list)" "0 + length ?c \<le> length new" "length new < 2 ^ 63" using ln lc False n(2) by auto
      from bip_move_block_cases [OF wf f1] obtain bb1 new1 k1 where
        1: "bip_move_block (bb, new, 0) = Some (bb1, new1, k1)" "bip_wf bb1" "length new1 = n" "take k1 new1 = take k1 ?c"
          "bip_contents bb1 = drop k1 ?c" "k1 \<le> length ?c" "blockB bb1 = BipBlock_Clear" "bip_size bb1 = bip_size bb" "bip_pageSize bb1 = ?page"
        using ln by auto
      have f2: "take k1 new1 = take k1 ?c" "k1 = length (take k1 ?c)" "k1 + length (bip_contents bb1) \<le> length new1" "length new1 < 2 ^ 63"
        using 1 lc False n(2) by auto
      from bip_move_block_cases [OF 1(2) f2] obtain bb2 new2 k2 where
        2: "bip_move_block (bb1, new1, k1) = Some (bb2, new2, k1 + k2)" "bip_wf bb2" "length new2 = n"
          "take (k1 + k2) new2 = take k1 ?c @ take k2 (drop k1 ?c)" "k2 = length (bip_contents bb1)" "bip_pageSize bb2 = ?page"
        using 1 by (auto simp: BipBlock_Clear_def)
      have k: "k1 + k2 = length ?c" using 1(5,6) 2(5) by simp
      have all: "take (length ?c) new2 = ?c" using 2(4,5) 1(5) k by simp
      let ?bb = "(BipBuffer_Clear bb2)\<lparr>bip_buffer := new2, bip_size := n, blockA := \<lparr>blk_index = 0, blk_size = length ?c\<rparr>\<rparr>"
      have "BipBuffer_Grow al bb sz = Some (True, ?bb)" using False Some 1(1) 2(1) k by (simp add: BipBuffer_Grow_def n_def)
      moreover have "bip_wf ?bb" using 2 page n(2) lc False by (simp add: bip_wf_def BipBuffer_Clear_def BipBlock_Clear_def)
      moreover have "bip_contents ?bb = ?c" using all by (simp add: bip_contents_def BipBuffer_Clear_def BipBlock_Clear_def)
      ultimately show ?thesis using n(1) 2(6) by (intro exI [of _ True] exI [of _ ?bb]) (simp add: BipBuffer_Clear_def)
    qed
  qed
qed


subsection \<open>The buffer is a pipe of bytes\<close>

lemma BipBuffer_WriteReserve_cases:
  assumes wf: "bip_wf bb" and al: "fresh_ok al" and sz: "sz < 2 ^ 61"
  shows "\<exists>blk bb'. BipBuffer_WriteReserve al bb sz = Some (blk, bb') \<and> bip_wf bb' \<and> bip_contents bb' = bip_contents bb"
proof -
  have sz': "sz < 2 ^ 62" using sz by simp
  obtain blk n bb1 where r: "BipBuffer_WriteTryReserve bb sz 0 = (blk, n, bb1)" by (metis prod_cases3)
  note t = bip_try_reserve [OF wf sz' r]
  from BipBuffer_Grow_cases [OF t(1) al sz] obtain ok bb2 where
    g: "BipBuffer_Grow al bb1 sz = Some (ok, bb2)" "bip_wf bb2" "bip_contents bb2 = bip_contents bb1" by blast
  obtain blk3 n3 bb3 where r3: "BipBuffer_WriteTryReserve bb2 sz n = (blk3, n3, bb3)" by (metis prod_cases3)
  note t3 = bip_try_reserve [OF g(2) sz' r3]
  have "BipBuffer_WriteReserve al bb sz = Some (if n = sz then (blk, bb1) else if \<not> ok then (None, bb2) else (blk3, bb3))"
    using r g(1) r3 by (simp add: BipBuffer_WriteReserve_def)
  then show ?thesis using t t3 g by (cases "n = sz"; cases ok) auto
qed

lemma BipBuffer_Write_cases:
  assumes wf: "bip_wf bb" and al: "fresh_ok al" and sz: "length data < 2 ^ 31"
  shows "\<exists>status bb'. BipBuffer_Write al bb data (length data) = Some (status, bb') \<and> bip_wf bb' \<and> -1 \<le> status \<and> nat status \<le> length data \<and>
    bip_contents bb' = bip_contents bb @ take (nat status) data"
proof -
  have "length data < 2 ^ 61" using sz by simp
  from BipBuffer_WriteReserve_cases [OF wf al this] obtain blk bb1 where
    r: "BipBuffer_WriteReserve al bb (length data) = Some (blk, bb1)" "bip_wf bb1" "bip_contents bb1 = bip_contents bb" by blast
  show ?thesis
  proof (cases "blk = None")
    case True
    then have "BipBuffer_Write al bb data (length data) = Some (-1, bb1)" using r(1) by (simp add: BipBuffer_Write_def)
    then show ?thesis using r by (intro exI [of _ "-1"] exI [of _ bb1]) simp
  next
    case False
    from bip_write_round_cases [OF r(2) sz le0, of 0] obtain stop j n bb2 where
      1: "bip_write_round data (length data) 0 0 bb1 = Some (stop, int j, n, bb2)" "j \<le> length data" "bip_wf bb2"
        "bip_contents bb2 = bip_contents bb @ take j data" using r(3) by auto
    from bip_write_round_cases [OF 1(3) sz 1(2), of n] obtain stop' j' n' bb3 where
      2: "bip_write_round data (length data) (int j) n bb2 = Some (stop', int (j + j'), n', bb3)" "j + j' \<le> length data" "bip_wf bb3"
        "bip_contents bb3 = bip_contents bb2 @ take j' (drop j data)" by blast
    have "BipBuffer_Write al bb data (length data) = Some (if stop then (int j, bb2) else (int (j + j'), bb3))"
      using False r(1) 1(1) 2(1) by (simp add: BipBuffer_Write_def)
    then show ?thesis using 1 2 by (cases stop) (auto simp: nat_add_distrib take_add)
  qed
qed

lemma bip_read_round_cases:
  assumes wf: "bip_wf bb" and data: "take k data = pre" "length pre = k" "length data = sz" "sz < 2 ^ 31" "k \<le> sz"
  shows "\<exists>stop j data' bb'. bip_read_round sz (int k) data bb = Some (stop, int (k + j), data', bb') \<and> bip_wf bb' \<and> k + j \<le> sz \<and>
    length data' = sz \<and> take (k + j) data' = pre @ take j (bip_contents bb) \<and> bip_contents bb' = drop j (bip_contents bb) \<and>
    j \<le> length (bip_contents bb) \<and> (stop \<longrightarrow> k + j = sz) \<and> (\<not> stop \<longrightarrow> j = blk_size (blockA bb) \<and> blockB bb' = BipBlock_Clear)"
proof -
  let ?A = "blockA bb" and ?a = "blk_size (blockA bb)" and ?i = "blk_index (blockA bb)" and ?m = "sz - k"
  have m: "size_of_int (int k) = k" "size_sub sz k = ?m" using data by auto
  show ?thesis
  proof (cases "?a = 0")
    case True
    then have e: "blk_size (blockB bb) = 0" "blk_index (blockB bb) = 0" using wf by (auto simp: bip_wf_def)
    then have "blockB bb = BipBlock_Clear" by (cases "blockB bb") (simp add: BipBlock_Clear_def)
    moreover have "bip_read_round sz (int k) data bb = Some (False, int (k + 0), data, bb)"
      using True by (simp add: bip_read_round_def BipBuffer_ReadTryReserve_def)
    ultimately show ?thesis using wf data True by (intro exI [of _ False] exI [of _ 0] exI [of _ data] exI [of _ bb]) simp
  next
    case False
    define n where "n = (if ?m > ?a then ?a else ?m)"
    have n: "n \<le> ?a" "k + n \<le> sz" "n = min ?m ?a" using data(5) by (auto simp: n_def)
    let ?xs = "take n (drop ?i (bip_buffer bb))"
    have w: "?i + ?a \<le> length (bip_buffer bb)" "?i + ?a < 2 ^ 62" using wf by (auto simp: bip_wf_def)
    have rd: "mem_read (bip_buffer bb) ?i n = Some ?xs" and lx: "length ?xs = n" using w n(1) by (auto simp: mem_read_def)
    have c: "take n (bip_contents bb) = ?xs" and ln: "n \<le> length (bip_contents bb)"
      using w n(1) by (simp_all add: bip_contents_def)
    obtain d where d: "mem_write data k ?xs = Some d" using lx n(2) data(3) by (simp add: mem_write_def)
    have td: "take (k + n) d = pre @ ?xs" using bip_append_A [of data 0 k ?xs d] d data(1) lx by simp
    let ?bb = "BipBuffer_ReadCommit bb n"
    have ci: "c_int n = int n" "size_of_int (int (k + n)) = k + n" using n(2) data(4) by auto
    have ws: "(if sz - k > ?a then ?a else sz - k) = n" by (simp add: n_def)
    have run: "bip_read_round sz (int k) data bb = Some (k + n = sz \<or> n < ?a, int (k + n), d, ?bb)"
      using False rd d ci by (simp add: bip_read_round_def BipBuffer_ReadTryReserve_def m ws del: of_nat_add add: of_nat_add [symmetric])
    have "bip_wf ?bb \<and> bip_contents ?bb = drop n (bip_contents bb)"
    proof (cases "n \<ge> ?a")
      case True
      then have "n = ?a" using n(1) by simp
      then show ?thesis using wf by (auto simp: BipBuffer_ReadCommit_def bip_wf_def bip_contents_def BipBlock_Clear_def)
    next
      case False
      have s: "size_add ?i n = ?i + n" "size_sub ?a n = ?a - n" using False w(2) by auto
      show ?thesis using wf False s
        by (auto simp: BipBuffer_ReadCommit_def bip_wf_def bip_contents_def drop_take add.commute)
    qed
    then have "bip_wf ?bb" "bip_contents ?bb = drop n (bip_contents bb)" by simp_all
    moreover have "\<not> (k + n = sz \<or> n < ?a) \<longrightarrow> n = ?a \<and> blockB ?bb = BipBlock_Clear"
      using n(1) by (auto simp: BipBuffer_ReadCommit_def)
    moreover have "k + n = sz \<or> n < ?a \<longrightarrow> k + n = sz" using n(3) data(5) by auto
    moreover have "take (k + n) d = pre @ take n (bip_contents bb)" "length d = sz" using td c length_mem_write [OF d] data(3) by simp_all
    ultimately show ?thesis using run n(2) ln
      by (intro exI [of _ "k + n = sz \<or> n < ?a"] exI [of _ n] exI [of _ d] exI [of _ ?bb] conjI)
  qed
qed

lemma BipBuffer_Read_cases:
  assumes wf: "bip_wf bb" and data: "length data = sz" "sz < 2 ^ 31"
  shows "\<exists>data' bb'. BipBuffer_Read bb data sz = Some (int (min sz (length (bip_contents bb))), data', bb') \<and> bip_wf bb' \<and>
    take (min sz (length (bip_contents bb))) data' = take sz (bip_contents bb) \<and> bip_contents bb' = drop sz (bip_contents bb)"
proof -
  let ?c = "bip_contents bb"
  from bip_read_round_cases [OF wf, of 0 data "[]" sz] data obtain stop j d bb1 where
    1: "bip_read_round sz 0 data bb = Some (stop, int j, d, bb1)" "bip_wf bb1" "j \<le> sz" "length d = sz" "take j d = take j ?c"
      "bip_contents bb1 = drop j ?c" "j \<le> length ?c" "stop \<Longrightarrow> j = sz" "\<not> stop \<Longrightarrow> blockB bb1 = BipBlock_Clear" by auto
  from bip_read_round_cases [OF 1(2) 1(5) _ 1(4) data(2) 1(3)] 1(7) obtain stop' j' d' bb2 where
    2: "bip_read_round sz (int j) d bb1 = Some (stop', int (j + j'), d', bb2)" "bip_wf bb2" "j + j' \<le> sz"
      "take (j + j') d' = take j ?c @ take j' (drop j ?c)" "bip_contents bb2 = drop j' (drop j ?c)" "j' \<le> length ?c - j"
      "stop' \<Longrightarrow> j + j' = sz" "\<not> stop' \<Longrightarrow> j' = blk_size (blockA bb1)"
    using 1(6) by auto
  show ?thesis
  proof (cases stop)
    case True
    then have "BipBuffer_Read bb data sz = Some (int j, d, bb1)" using 1(1) by (simp add: BipBuffer_Read_def)
    then show ?thesis using 1 True by (intro exI [of _ d] exI [of _ bb1]) simp
  next
    case False
    have "j' = length ?c - j" if "\<not> stop'"
      using length_bip_contents [OF 1(2)] 1(6,9) 2(8) False that by (simp add: BipBlock_Clear_def)
    then have n: "j + j' = min sz (length ?c)" using 2(3,6,7) 1(7) by (cases stop') auto
    have "BipBuffer_Read bb data sz = Some (int (j + j'), d', bb2)" using 1(1) 2(1) False by (simp add: BipBuffer_Read_def)
    moreover have "take (j + j') ?c = take sz ?c" "drop (j + j') ?c = drop sz ?c" unfolding n by (simp_all add: min_def)
    moreover from this(1) have "take (j + j') d' = take sz ?c" unfolding 2(4) take_add [symmetric] .
    ultimately show ?thesis using 2(2,5) unfolding n [symmetric]
      by (intro exI [of _ d'] exI [of _ bb2]) (simp add: add.commute [of j'])
  qed
qed

definition bip_put :: "byte blocks \<Rightarrow> byte list \<Rightarrow> wBipBuffer \<Rightarrow> (nat \<times> wBipBuffer) option" where
  "bip_put al xs bb = map_option (apfst nat) (BipBuffer_Write al bb xs (length xs))"

definition bip_get :: "nat \<Rightarrow> wBipBuffer \<Rightarrow> (byte list \<times> wBipBuffer) option" where
  "bip_get n bb = map_option (\<lambda>(status, buffer, bb). (take (nat status) buffer, bb)) (BipBuffer_Read bb (replicate n 0) n)"

definition bip_room :: "nat \<Rightarrow> wBipBuffer \<Rightarrow> bool" where
  "bip_room n bb \<longleftrightarrow> n < 2 ^ 31"

interpretation bip: byte_pipe bip_wf bip_contents bip_room "bip_put (sized_blocks al)" bip_get for al :: "byte blocks"
proof
  fix q n and xs :: "byte list" assume q: "bip_wf q" and "bip_room (length xs + n) q"
  then have l: "length xs < 2 ^ 31" and n: "n < 2 ^ 31" by (simp_all add: bip_room_def)
  from BipBuffer_Write_cases [OF q fresh_ok_sized_blocks [of al] l] obtain status bb' where
    "BipBuffer_Write (sized_blocks al) q xs (length xs) = Some (status, bb')" "bip_wf bb'" "nat status \<le> length xs"
    "bip_contents bb' = bip_contents q @ take (nat status) xs" by blast
  with n show "\<exists>k q'. bip_put (sized_blocks al) xs q = Some (k, q') \<and> k \<le> length xs \<and> bip_wf q' \<and> bip_room n q' \<and>
    bip_contents q' = bip_contents q @ take k xs"
    by (intro exI [of _ "nat status"] exI [of _ bb']) (simp add: bip_put_def bip_room_def)
next
  fix q m n assume q: "bip_wf q" "bip_room m q" and n: "n < (2 :: nat) ^ 31"
  from BipBuffer_Read_cases [OF q(1) length_replicate n, of 0] q(2)
  show "\<exists>q'. bip_get n q = Some (take n (bip_contents q), q') \<and> bip_wf q' \<and> bip_contents q' = drop n (bip_contents q) \<and> bip_room m q'"
    unfolding bip_get_def bip_room_def by fastforce
qed


subsection \<open>Correctness\<close>

text \<open>
  The bip buffer (C16): any sequence of writes and reads, with any of the allocations in
  between failing and the buffer growing and wrapping, runs without a memory fault; every
  read returns the oldest bytes, as many as are there and asked for, and what is delivered
  and what is left is exactly what was accepted, in order.
\<close>

theorem BipBuffer_refines_pipe:
  assumes "bip_wf bb" "bytes_in ops < 2 ^ 31" "reads_ok ops" "fresh_ok al"
  shows "\<exists>rs bb'. pipe_run (bip_put al) bip_get ops bb = Some (rs, bb') \<and> bip_wf bb' \<and>
    pipe_spec (zip ops rs) (bip_contents bb) = Some (bip_contents bb') \<and>
    delivered (zip ops rs) @ bip_contents bb' = bip_contents bb @ accepted (zip ops rs)"
proof -
  have "bip_room (bytes_in ops) bb" using assms(2) by (simp add: bip_room_def)
  from bip.pipe_refines [OF assms(1) this assms(3), of al] obtain rs bb' where
    "pipe_run (bip_put al) bip_get ops bb = Some (rs, bb')" "bip_wf bb'"
    "pipe_spec (zip ops rs) (bip_contents bb) = Some (bip_contents bb')"
    unfolding sized_blocks_id [OF assms(4)] by blast
  with pipe_spec_conserves [OF this(3)] show ?thesis by blast
qed

definition demo_bip :: wBipBuffer where
  "demo_bip = \<lparr>bip_size = 8, bip_buffer = [1, 2, 3, 4, 5, 6, 7, 8], bip_pageSize = 4096, blockA = \<lparr>blk_index = 4, blk_size = 3\<rparr>,
     blockB = \<lparr>blk_index = 0, blk_size = 2\<rparr>, readR = BipBlock_Clear, writeR = BipBlock_Clear\<rparr>"

theorem BipBuffer_refines_pipe_witness:
  "\<exists>rs bb'. pipe_run (bip_put (zero_blocks 0)) bip_get [PWrite [9, 10, 11], PRead 4] demo_bip = Some (rs, bb') \<and> bip_wf bb' \<and>
    pipe_spec (zip [PWrite [9, 10, 11], PRead 4] rs) (bip_contents demo_bip) = Some (bip_contents bb') \<and>
    delivered (zip [PWrite [9, 10, 11], PRead 4] rs) @ bip_contents bb' = bip_contents demo_bip @ accepted (zip [PWrite [9, 10, 11], PRead 4] rs)"
  by (rule BipBuffer_refines_pipe) (simp_all add: bip_wf_def demo_bip_def)

text \<open>
  A reservation that is too small: \<open>BipBuffer_WriteReserve\<close> asks \<open>BipBuffer_Grow\<close> for a
  buffer of the requested size, not of that size beyond what is stored. When the bytes
  stored leave room for only part of the request and the request fits the whole buffer, the
  buffer does not grow, and the pointer returned has fewer bytes behind it than were asked for.
\<close>

theorem BipBuffer_WriteReserve_too_small:
  assumes "bip_wf bb" "blk_index (blockA bb) = 0" "blk_size (blockB bb) = 0" "blk_size (blockA bb) < bip_size bb"
    "bip_size bb < blk_size (blockA bb) + sz" "sz + sz mod bip_pageSize bb \<le> bip_size bb"
  shows "\<exists>off bb'. BipBuffer_WriteReserve al bb sz = Some (Some off, bb') \<and> bip_size bb' = bip_size bb \<and> bip_size bb' < off + sz \<and>
    blk_size (writeR bb') < sz"
proof -
  let ?a = "blk_size (blockA bb)" and ?s = "bip_size bb"
  let ?bb = "bb\<lparr>writeR := \<lparr>blk_index = ?a, blk_size = ?s - ?a\<rparr>\<rparr>"
  have w: "?s < 2 ^ 62" using assms(1) by (simp add: bip_wf_def)
  have s: "size_sub (size_sub ?s 0) ?a = ?s - ?a" "size_add 0 ?a = ?a" using assms(4) w by auto
  have c: "?s - ?a \<noteq> 0" "\<not> sz < ?s - ?a" "?s - ?a \<noteq> sz" using assms(4,5) by auto
  have t: "BipBuffer_WriteTryReserve bb sz r = (Some ?a, ?s - ?a, ?bb)" "BipBuffer_WriteTryReserve ?bb sz r = (Some ?a, ?s - ?a, ?bb)" for r
    using assms(4) by (simp_all add: BipBuffer_WriteTryReserve_def Let_def assms(2,3) s c(2))
  have "size_add sz (sz mod bip_pageSize bb) = sz + sz mod bip_pageSize bb"
    by (rule size_add_small) (rule le_less_trans [OF assms(6)], rule less_trans [OF w], simp)
  then have "bip_page_up (bip_pageSize bb) sz \<le> ?s" using assms(6) by (simp only: bip_page_up_def)
  then have "BipBuffer_Grow al ?bb sz = Some (True, ?bb)" by (simp add: BipBuffer_Grow_def)
  then have "BipBuffer_WriteReserve al bb sz = Some (Some ?a, ?bb)"
    using c(3) t by (simp add: BipBuffer_WriteReserve_def)
  moreover have "?s < ?a + sz" "?s - ?a < sz" using c(2,3) assms(5) by auto
  ultimately show ?thesis by (intro exI [of _ ?a] exI [of _ ?bb]) simp
qed

definition demo_bip_full :: wBipBuffer where
  "demo_bip_full = \<lparr>bip_size = 8, bip_buffer = [1, 2, 3, 4, 5, 6, 7, 8], bip_pageSize = 4096, blockA = \<lparr>blk_index = 0, blk_size = 6\<rparr>,
     blockB = \<lparr>blk_index = 0, blk_size = 0\<rparr>, readR = BipBlock_Clear, writeR = BipBlock_Clear\<rparr>"

theorem BipBuffer_WriteReserve_too_small_witness:
  "\<exists>off bb'. BipBuffer_WriteReserve (zero_blocks 0) demo_bip_full 4 = Some (Some off, bb') \<and> bip_size bb' = bip_size demo_bip_full \<and>
    bip_size bb' < off + 4 \<and> blk_size (writeR bb') < 4"
  by (rule BipBuffer_WriteReserve_too_small) (simp_all add: bip_wf_def demo_bip_full_def)

end
