(* ===== verification/BitStream.thy ===== *)
theory BitStream
  imports Ring
begin

text \<open>
  The bit streams of \<open>winpr/bitstream.h\<close> and \<open>collections/BitStream.c\<close>: a cursor over a
  buffer of bytes that reads and writes groups of up to 31 bits, most significant bit first,
  through a 32-bit accumulator. The macros are definitions; an access outside the buffer is
  \<^const>\<open>None\<close>. The functions that print bits for a log are not modelled.
\<close>

record wBitStream =
  bs_buffer :: "byte list"
  bs_pointer :: nat
  bs_position :: nat
  bs_length :: nat
  bs_capacity :: nat
  bs_mask :: u32
  bs_offset :: nat
  bs_prefetch :: u32
  bs_accumulator :: u32

subsection \<open>Operations\<close>

definition BitStream_New :: wBitStream where
  "BitStream_New = \<lparr>bs_buffer = [], bs_pointer = 0, bs_position = 0, bs_length = 0, bs_capacity = 0, bs_mask = 0, bs_offset = 0,
     bs_prefetch = 0, bs_accumulator = 0\<rparr>"

text \<open>The length in bits is an \<open>int\<close>.\<close>

definition BitStream_Attach :: "wBitStream \<Rightarrow> byte list \<Rightarrow> nat \<Rightarrow> wBitStream option" where
  "BitStream_Attach bs buffer capacity = do {
     len \<leftarrow> int_mult capacity 8;
     Some (bs\<lparr>bs_position := 0, bs_buffer := buffer, bs_offset := 0, bs_accumulator := 0, bs_pointer := 0, bs_capacity := capacity,
       bs_length := len\<rparr>) }"

text \<open>One conditional load and one conditional store of the macros.\<close>

definition bs_load :: "wBitStream \<Rightarrow> nat \<Rightarrow> nat \<Rightarrow> u32 \<Rightarrow> u32 option" where
  "bs_load bs k n w =
     (if bs_pointer bs + k < bs_capacity bs
      then do { xs \<leftarrow> mem_read (bs_buffer bs) (bs_pointer bs + k) 1; Some (w OR push_bit n (ucast (hd xs))) }
      else Some w)"

definition bs_store :: "wBitStream \<Rightarrow> nat \<Rightarrow> nat \<Rightarrow> wBitStream option" where
  "bs_store bs k n =
     (if bs_pointer bs + k < bs_capacity bs
      then do { buf \<leftarrow> mem_write (bs_buffer bs) (bs_pointer bs + k) [ucast (drop_bit n (bs_accumulator bs))]; Some (bs\<lparr>bs_buffer := buf\<rparr>) }
      else Some bs)"

definition BitStream_Prefetch :: "wBitStream \<Rightarrow> wBitStream option" where
  "BitStream_Prefetch bs = do {
     w \<leftarrow> bs_load bs 4 24 0; w \<leftarrow> bs_load bs 5 16 w; w \<leftarrow> bs_load bs 6 8 w; w \<leftarrow> bs_load bs 7 0 w;
     Some (bs\<lparr>bs_prefetch := w\<rparr>) }"

definition BitStream_Fetch :: "wBitStream \<Rightarrow> wBitStream option" where
  "BitStream_Fetch bs = do {
     w \<leftarrow> bs_load bs 0 24 0; w \<leftarrow> bs_load bs 1 16 w; w \<leftarrow> bs_load bs 2 8 w; w \<leftarrow> bs_load bs 3 0 w;
     BitStream_Prefetch (bs\<lparr>bs_accumulator := w\<rparr>) }"

definition BitStream_Flush :: "wBitStream \<Rightarrow> wBitStream option" where
  "BitStream_Flush bs = do { bs \<leftarrow> bs_store bs 0 24; bs \<leftarrow> bs_store bs 1 16; bs \<leftarrow> bs_store bs 2 8; bs_store bs 3 0 }"

text \<open>The common part of both branches of \<open>BitStream_Shift\<close>: \<open>n\<close> bits move from \<open>prefetch\<close> to the accumulator.\<close>

definition bs_pull :: "nat \<Rightarrow> wBitStream \<Rightarrow> wBitStream" where
  "bs_pull n bs =
     (let m = push_bit n 1 - 1 in
      bs\<lparr>bs_mask := m, bs_accumulator := bs_accumulator bs OR (drop_bit (32 - n) (bs_prefetch bs) AND m), bs_prefetch := push_bit n (bs_prefetch bs)\<rparr>)"

definition BitStream_Shift :: "wBitStream \<Rightarrow> nat \<Rightarrow> wBitStream option" where
  "BitStream_Shift bs n =
     (if n = 0 then Some bs
      else if n < 32 then
        (let bs = bs\<lparr>bs_accumulator := push_bit n (bs_accumulator bs), bs_position := bs_position bs + n, bs_offset := bs_offset bs + n\<rparr> in
         if bs_offset bs < 32 then Some (bs_pull n bs)
         else do {
           let bs = bs_pull n bs;
           bs \<leftarrow> BitStream_Prefetch (bs\<lparr>bs_offset := bs_offset bs - 32, bs_pointer := bs_pointer bs + 4\<rparr>);
           Some (if bs_offset bs \<noteq> 0 then bs_pull (bs_offset bs) bs else bs) })
      else Some bs)"

definition BitStream_Shift32 :: "wBitStream \<Rightarrow> wBitStream option" where
  "BitStream_Shift32 bs = do { bs \<leftarrow> BitStream_Shift bs 16; BitStream_Shift bs 16 }"

definition BitStream_Write_Bits :: "wBitStream \<Rightarrow> u32 \<Rightarrow> nat \<Rightarrow> wBitStream option" where
  "BitStream_Write_Bits bs bits n =
     (let bs = bs\<lparr>bs_position := bs_position bs + n, bs_offset := bs_offset bs + n\<rparr> in
      if bs_offset bs < 32 then Some (bs\<lparr>bs_accumulator := bs_accumulator bs OR push_bit (32 - bs_offset bs) bits\<rparr>)
      else do {
        let bs = bs\<lparr>bs_offset := bs_offset bs - 32\<rparr>;
        let bs = bs\<lparr>bs_mask := push_bit (n - bs_offset bs) 1 - 1\<rparr>;
        bs \<leftarrow> BitStream_Flush (bs\<lparr>bs_accumulator := bs_accumulator bs OR (drop_bit (bs_offset bs) bits AND bs_mask bs)\<rparr>);
        let bs = bs\<lparr>bs_accumulator := 0, bs_pointer := bs_pointer bs + 4\<rparr>;
        Some (if bs_offset bs \<noteq> 0
              then (let m = push_bit (bs_offset bs) 1 - 1 in
                    bs\<lparr>bs_mask := m, bs_accumulator := push_bit (32 - bs_offset bs) (bits AND m)\<rparr>)
              else bs) })"

definition BitStream_GetRemainingLength :: "wBitStream \<Rightarrow> int" where
  "BitStream_GetRemainingLength bs = int (bs_length bs) - int (bs_position bs)"

text \<open>The loop of \<open>ReverseBits32\<close>; \<open>nbits\<close> is counted down after each round, from zero to the largest value.\<close>

function reverse_loop :: "u32 \<Rightarrow> u32 \<Rightarrow> u32 \<Rightarrow> u32" where
  "reverse_loop rbits bits nbits =
     (let rbits = push_bit 1 (rbits OR (bits AND 1)); bits = drop_bit 1 bits; nbits = nbits - 1
      in if nbits > 0 then reverse_loop rbits bits nbits else rbits)"
  by pat_completeness auto

termination reverse_loop
proof (relation "measure (\<lambda>(_, _, n). unat (n - 1))")
  fix rbits bits nbits x xa xb :: u32 assume "xb = nbits - 1" "0 < xb"
  then have "xb \<noteq> 0" by auto
  then show "((x, xa, xb), (rbits, bits, nbits)) \<in> measure (\<lambda>(_, _, n). unat (n - 1))"
    using \<open>xb = nbits - 1\<close> unat_minus_one [of xb] unat_gt_0 [of xb] by simp
qed simp

declare reverse_loop.simps [simp del]

definition ReverseBits32 :: "u32 \<Rightarrow> u32 \<Rightarrow> u32" where
  "ReverseBits32 bits nbits = drop_bit 1 (reverse_loop 0 bits nbits)"

subsection \<open>Bits of bytes and words\<close>

text \<open>The bits of a list of bytes and the lowest \<open>n\<close> bits of a word, both from the most significant one on.\<close>

definition sbit :: "byte list \<Rightarrow> nat \<Rightarrow> bool" where
  "sbit xs k \<longleftrightarrow> k < 8 * length xs \<and> bit (xs ! (k div 8)) (7 - k mod 8)"

definition bits_n :: "nat \<Rightarrow> u32 \<Rightarrow> bool list" where
  "bits_n n v = map (\<lambda>i. bit v (n - 1 - i)) [0..<n]"

lemma length_bits_n [simp]: "length (bits_n n v) = n"
  by (simp add: bits_n_def)

lemma nth_bits_n [simp]: "k < n \<Longrightarrow> bits_n n v ! k = bit v (n - 1 - k)"
  by (simp add: bits_n_def)

lemma ones_mask: "push_bit n 1 - 1 = (mask n :: u32)" "2 ^ n - 1 = (mask n :: u32)"
  by (simp_all add: mask_eq_exp_minus_1)

lemma bit_high_False: "32 \<le> i \<Longrightarrow> \<not> bit (w :: u32) i"
  using bit_imp_le_length [of w i] by auto

lemma bit_small:
  assumes "unat (v :: u32) < 2 ^ n" "n \<le> i"
  shows "\<not> bit v i"
proof -
  have "unat (take_bit n v) = unat v" using assms(1) by (simp add: unsigned_take_bit_eq take_bit_nat_eq_self)
  then have "take_bit n v = v" by (rule word_unat_eq_iff [THEN iffD2])
  then show ?thesis using assms(2) by (metis bit_take_bit_iff not_less)
qed

lemma sbit_at: "j < 8 \<Longrightarrow> sbit xs (8 * i + j) \<longleftrightarrow> i < length xs \<and> bit (xs ! i) (7 - j)"
  by (auto simp: sbit_def)

lemma sbit_take: "sbit (take n xs) k \<longleftrightarrow> k < 8 * n \<and> sbit xs k"
  by (auto simp: sbit_def)

text \<open>Four bytes loaded in sequence.\<close>

definition bs_ok :: "wBitStream \<Rightarrow> bool" where
  "bs_ok bs \<longleftrightarrow> bs_capacity bs \<le> length (bs_buffer bs)"

definition bs_bit :: "wBitStream \<Rightarrow> nat \<Rightarrow> bool" where
  "bs_bit bs = sbit (take (bs_capacity bs) (bs_buffer bs))"

definition byte_at :: "wBitStream \<Rightarrow> nat \<Rightarrow> u32" where
  "byte_at bs i = (if i < bs_capacity bs then ucast (bs_buffer bs ! i) else 0)"

lemma bs_load_at: "bs_ok bs \<Longrightarrow> bs_load bs k n w = Some (w OR push_bit n (byte_at bs (bs_pointer bs + k)))"
  by (simp add: bs_load_def byte_at_def bs_ok_def)

lemma bit_byte_at:
  assumes "bs_ok bs"
  shows "bit (byte_at bs p) j \<longleftrightarrow> j < 8 \<and> bs_bit bs (8 * p + (7 - j))"
proof -
  have "bit b j \<longleftrightarrow> j < 8 \<and> bit b (7 - (7 - j))" for b :: byte by (cases "j < 8") (auto dest: bit_imp_le_length)
  then show ?thesis using assms by (auto simp: byte_at_def bs_bit_def sbit_at bs_ok_def bit_simps)
qed

lemma bit_four_bytes:
  assumes "bs_ok bs" "i < 32"
  shows "bit (push_bit 24 (byte_at bs p) OR push_bit 16 (byte_at bs (p + 1)) OR push_bit 8 (byte_at bs (p + 2)) OR byte_at bs (p + 3)) i \<longleftrightarrow>
    bs_bit bs (8 * p + 31 - i)"
proof -
  consider "i < 8" | "8 \<le> i" "i < 16" | "16 \<le> i" "i < 24" | "24 \<le> i" using assms(2) by linarith
  then show ?thesis using assms by cases (auto simp: bit_simps bit_byte_at algebra_simps)
qed


subsection \<open>Reading\<close>

text \<open>
  What holds between two reads: the accumulator has the next 32 bits, the prefetched word
  those after it that belong to the same four bytes.
\<close>

definition reading :: "wBitStream \<Rightarrow> bool" where
  "reading bs \<longleftrightarrow> bs_ok bs \<and> bs_offset bs < 32 \<and> bs_position bs = 8 * bs_pointer bs + bs_offset bs \<and>
     (\<forall>i<32. bit (bs_accumulator bs) i = bs_bit bs (bs_position bs + 31 - i)) \<and>
     (\<forall>i<32. bit (bs_prefetch bs) i = (bs_offset bs \<le> i \<and> bs_bit bs (bs_position bs + 63 - i)))"

definition same_stream :: "wBitStream \<Rightarrow> wBitStream \<Rightarrow> bool" where
  "same_stream bs bs' \<longleftrightarrow> bs_buffer bs' = bs_buffer bs \<and> bs_capacity bs' = bs_capacity bs \<and> bs_length bs' = bs_length bs"

lemma same_stream_bit: "same_stream bs bs' \<Longrightarrow> bs_bit bs' = bs_bit bs"
  by (simp add: same_stream_def bs_bit_def)

lemma Prefetch_reads:
  assumes "bs_ok bs"
  shows "\<exists>w. BitStream_Prefetch bs = Some (bs\<lparr>bs_prefetch := w\<rparr>) \<and> (\<forall>i<32. bit w i = bs_bit bs (8 * bs_pointer bs + 63 - i))"
proof -
  let ?w = "push_bit 24 (byte_at bs (bs_pointer bs + 4)) OR push_bit 16 (byte_at bs (bs_pointer bs + 4 + 1)) OR
    push_bit 8 (byte_at bs (bs_pointer bs + 4 + 2)) OR byte_at bs (bs_pointer bs + 4 + 3)"
  have "BitStream_Prefetch bs = Some (bs\<lparr>bs_prefetch := ?w\<rparr>)"
    by (simp add: BitStream_Prefetch_def bs_load_at assms or.assoc add.commute)
  moreover have "\<forall>i<32. bit ?w i = bs_bit bs (8 * bs_pointer bs + 63 - i)"
    using bit_four_bytes [OF assms, of _ "bs_pointer bs + 4"] by (simp add: add.commute)
  ultimately show ?thesis by blast
qed

lemma Attach_Fetch_reads:
  assumes "capacity \<le> length buf" "8 * capacity < 2 ^ 31"
  shows "\<exists>bs1 bs2. BitStream_Attach bs buf capacity = Some bs1 \<and> BitStream_Fetch bs1 = Some bs2 \<and> reading bs2 \<and>
    bs_position bs2 = 0 \<and> bs_buffer bs2 = buf \<and> bs_capacity bs2 = capacity \<and> bs_length bs2 = 8 * capacity"
proof -
  define bs1 where "bs1 = bs\<lparr>bs_position := 0, bs_buffer := buf, bs_offset := 0, bs_accumulator := 0, bs_pointer := 0, bs_capacity := capacity,
    bs_length := capacity * 8\<rparr>"
  let ?w = "push_bit 24 (byte_at bs1 0) OR push_bit 16 (byte_at bs1 (0 + 1)) OR push_bit 8 (byte_at bs1 (0 + 2)) OR byte_at bs1 (0 + 3)"
  have a: "BitStream_Attach bs buf capacity = Some bs1" using assms(2) by (simp add: BitStream_Attach_def int_mult_def bs1_def)
  have ok: "bs_ok bs1" "bs_ok (bs1\<lparr>bs_accumulator := ?w\<rparr>)" using assms(1) by (simp_all add: bs_ok_def bs1_def)
  from Prefetch_reads [OF ok(2)] obtain w where
    p: "BitStream_Prefetch (bs1\<lparr>bs_accumulator := ?w\<rparr>) = Some (bs1\<lparr>bs_accumulator := ?w, bs_prefetch := w\<rparr>)"
      "\<forall>i<32. bit w i = bs_bit bs1 (63 - i)" by (auto simp: bs1_def bs_bit_def)
  have "BitStream_Fetch bs1 = Some (bs1\<lparr>bs_accumulator := ?w, bs_prefetch := w\<rparr>)"
    using p(1) ok(1) by (simp add: BitStream_Fetch_def bs_load_at bs1_def or.assoc)
  moreover have "\<forall>i<32. bit ?w i = bs_bit bs1 (31 - i)" using bit_four_bytes [OF ok(1), of _ 0] by simp
  ultimately show ?thesis using a ok p(2)
    by (intro exI [of _ bs1] exI [of _ "bs1\<lparr>bs_accumulator := ?w, bs_prefetch := w\<rparr>"])
      (simp add: reading_def bs_ok_def, simp add: bs1_def bs_bit_def)
qed

text \<open>Moving \<open>n\<close> bits from the prefetched word on.\<close>

lemma bs_pull_eq:
  "bs_pull n bs = bs\<lparr>bs_mask := mask n, bs_accumulator := bs_accumulator bs OR (drop_bit (32 - n) (bs_prefetch bs) AND mask n),
     bs_prefetch := push_bit n (bs_prefetch bs)\<rparr>"
  by (simp add: bs_pull_def Let_def ones_mask)

lemma bit_pull:
  assumes "n < 32" "i < 32"
  shows "bit (a OR (drop_bit (32 - n) p AND mask n) :: u32) i \<longleftrightarrow> bit a i \<or> i < n \<and> bit p (32 - n + i)"
  using assms by (auto simp: bit_and_iff bit_or_iff bit_drop_bit_eq bit_mask_iff)

text \<open>The words after a shift by \<open>n\<close>, when \<open>acc\<close> has the bits of the stream from \<open>p\<close> on and \<open>pre\<close> the next \<open>32 - off\<close> ones.\<close>

lemma pull_acc:
  assumes acc: "\<forall>i<32. bit acc i = f (p + 31 - i)" and pre: "\<forall>i<32. bit (pre :: u32) i = (off \<le> i \<and> f (p + 63 - i))" and n: "0 < n" "n < 32" "i < 32"
  shows "bit (push_bit n acc OR (drop_bit (32 - n) pre AND mask n) :: u32) i \<longleftrightarrow> (i < n \<longrightarrow> off + n \<le> 32 + i) \<and> f (p + n + 31 - i)"
proof (cases "i < n")
  case True
  then have e: "p + 63 - (32 - n + i) = p + n + 31 - i" "off \<le> 32 - n + i \<longleftrightarrow> off + n \<le> 32 + i" "32 - n + i < 32" using n by auto
  have "bit pre (32 - n + i) \<longleftrightarrow> off + n \<le> 32 + i \<and> f (p + n + 31 - i)" unfolding pre [rule_format, OF e(3)] e(1,2) ..
  then show ?thesis unfolding bit_pull [OF n(2,3)] using True by (simp only: bit_push_bit_iff) auto
next
  case False
  then have "p + 31 - (i - n) = p + n + 31 - i" "i - n < 32" using n by auto
  then show ?thesis unfolding bit_pull [OF n(2,3)] using False acc n by (simp add: bit_push_bit_iff)
qed

lemma pull_pre:
  assumes "\<forall>i<32. bit (pre :: u32) i = (off \<le> i \<and> f (p + 63 - i))" "i < 32"
  shows "bit (push_bit n pre) i \<longleftrightarrow> off + n \<le> i \<and> f (p + n + 63 - i)"
proof (cases "n \<le> i")
  case True
  then have "p + 63 - (i - n) = p + n + 63 - i" "off \<le> i - n \<longleftrightarrow> off + n \<le> i" using assms(2) by auto
  then show ?thesis using assms True by (simp add: bit_push_bit_iff)
qed (use assms in \<open>simp add: bit_push_bit_iff\<close>)

lemma Shift_reads:
  assumes rd: "reading bs" and n: "0 < n" "n < 32"
  shows "\<exists>bs'. BitStream_Shift bs n = Some bs' \<and> reading bs' \<and> bs_position bs' = bs_position bs + n \<and> same_stream bs bs'"
proof -
  let ?bs = "bs_pull n (bs\<lparr>bs_accumulator := push_bit n (bs_accumulator bs), bs_position := bs_position bs + n, bs_offset := bs_offset bs + n\<rparr>)"
  let ?f = "bs_bit bs" and ?p = "bs_position bs" and ?o = "bs_offset bs"
  have rd': "\<forall>i<32. bit (bs_accumulator bs) i = ?f (?p + 31 - i)" "\<forall>i<32. bit (bs_prefetch bs) i = (?o \<le> i \<and> ?f (?p + 63 - i))"
    "?o < 32" "?p = 8 * bs_pointer bs + ?o" "bs_ok bs" using rd by (simp_all add: reading_def)
  have acc: "bit (bs_accumulator ?bs) i \<longleftrightarrow> (i < n \<longrightarrow> ?o + n \<le> 32 + i) \<and> ?f (?p + n + 31 - i)" if "i < 32" for i
    using pull_acc [OF rd'(1,2) n that] by (simp add: bs_pull_eq)
  show ?thesis
  proof (cases "?o + n < 32")
    case True
    have "BitStream_Shift bs n = Some ?bs" using n True by (simp add: BitStream_Shift_def)
    moreover have s: "same_stream bs ?bs" "bs_ok ?bs" using rd'(5) by (simp_all add: same_stream_def bs_ok_def bs_pull_eq)
    moreover have "bit (bs_prefetch ?bs) i \<longleftrightarrow> ?o + n \<le> i \<and> ?f (?p + n + 63 - i)" if "i < 32" for i
      using pull_pre [OF rd'(2) that, of n] by (simp add: bs_pull_eq)
    moreover have "bit (bs_accumulator ?bs) i \<longleftrightarrow> ?f (?p + n + 31 - i)" if "i < 32" for i using acc [OF that] True by auto
    ultimately have "reading ?bs" using True rd'(4) unfolding reading_def same_stream_bit [OF s(1)] by (simp add: bs_pull_eq)
    then show ?thesis using \<open>BitStream_Shift bs n = Some ?bs\<close> s(1) by (intro exI [of _ ?bs]) (simp add: bs_pull_eq)
  next
    case False
    define k where "k = ?o + n - 32"
    have k: "?o + n = 32 + k" "k < 32" using False rd'(3) n by (auto simp: k_def)
    let ?b1 = "?bs\<lparr>bs_offset := k, bs_pointer := bs_pointer bs + 4\<rparr>"
    have b1: "bs_ok ?b1" "bs_bit ?b1 = ?f" using rd'(5) by (simp_all add: bs_ok_def bs_bit_def bs_pull_eq)
    have p: "?p + n = 8 * bs_pointer ?b1 + k" using rd'(4) k by simp
    from Prefetch_reads [OF b1(1)] obtain w where w: "BitStream_Prefetch ?b1 = Some (?b1\<lparr>bs_prefetch := w\<rparr>)"
      "\<forall>i<32. bit w i = ?f (8 * bs_pointer ?b1 + 63 - i)" unfolding b1(2) by blast
    let ?b2 = "?b1\<lparr>bs_prefetch := w\<rparr>"
    let ?b3 = "if k \<noteq> 0 then bs_pull k ?b2 else ?b2"
    have run: "BitStream_Shift bs n = Some ?b3" using n False w(1) k by (simp add: BitStream_Shift_def Let_def bs_pull_eq)
    have s: "same_stream bs ?b3" "bs_ok ?b3" "bs_offset ?b3 = k" "bs_pointer ?b3 = bs_pointer ?b1" "bs_position ?b3 = ?p + n"
      using rd'(5) by (simp_all add: same_stream_def bs_ok_def bs_pull_eq)
    have "bit (bs_prefetch ?b3) i \<longleftrightarrow> k \<le> i \<and> ?f (?p + n + 63 - i)" if "i < 32" for i
      using pull_pre [of w 0 ?f "8 * bs_pointer ?b1" i k] w(2) that p by (auto simp: bs_pull_eq)
    moreover have "bit (bs_accumulator ?b3) i \<longleftrightarrow> ?f (?p + n + 31 - i)" if i: "i < 32" for i
    proof -
      have "bit (bs_accumulator ?b3) i \<longleftrightarrow> bit (bs_accumulator ?bs) i \<or> i < k \<and> bit w (32 - k + i)"
        using bit_pull [OF k(2) i] by (simp add: bs_pull_eq)
      also have "bit (bs_accumulator ?bs) i \<longleftrightarrow> k \<le> i \<and> ?f (?p + n + 31 - i)" using acc [OF i] k n rd'(3) by auto
      also have "i < k \<and> bit w (32 - k + i) \<longleftrightarrow> i < k \<and> ?f (?p + n + 31 - i)"
      proof -
        have "8 * bs_pointer ?b1 + 63 - (32 - k + i) = ?p + n + 31 - i" "32 - k + i < 32" if "i < k" using p k that by auto
        then show ?thesis using w(2) by auto
      qed
      finally show ?thesis by auto
    qed
    ultimately have "reading ?b3" using k(2) p s unfolding reading_def same_stream_bit [OF s(1)] by simp
    then show ?thesis using run s by blast
  qed
qed

text \<open>A code of \<open>n\<close> bits that comes next in the stream is at the top of the accumulator.\<close>

lemma reading_top:
  assumes "reading bs" "n \<le> 32" "unat v < 2 ^ n" "\<forall>k<n. bs_bit bs (bs_position bs + k) = bits_n n v ! k"
  shows "drop_bit (32 - n) (bs_accumulator bs) = v"
proof (rule bit_word_eqI)
  fix i assume "i < LENGTH(32)"
  then have i: "i < 32" by simp
  show "bit (drop_bit (32 - n) (bs_accumulator bs)) i \<longleftrightarrow> bit v i"
  proof (cases "i < n")
    case True
    then have e: "bs_position bs + 31 - (32 - n + i) = bs_position bs + (n - 1 - i)" "n - 1 - (n - 1 - i) = i" "32 - n + i < 32" "n - 1 - i < n"
      using assms(2) by auto
    have "bit (bs_accumulator bs) (32 - n + i) = bs_bit bs (bs_position bs + 31 - (32 - n + i))" using assms(1) e(3) by (simp only: reading_def)
    also have "\<dots> = bit v i" unfolding e(1) assms(4) [rule_format, OF e(4)] nth_bits_n [OF e(4)] e(2) ..
    finally show ?thesis by (simp only: bit_drop_bit_eq comp_def)
  next
    case False
    have "\<not> bit v i" using bit_small [OF assms(3)] False by simp
    then show ?thesis using False assms(2) by (simp add: bit_drop_bit_eq bit_high_False)
  qed
qed


subsection \<open>Writing\<close>

text \<open>
  What holds between two writes of a stream to which the bits \<open>ws\<close> were written: the bytes
  below the pointer are in the buffer, the bits after them at the top of the accumulator.
\<close>

definition writing :: "wBitStream \<Rightarrow> bool list \<Rightarrow> bool" where
  "writing bs ws \<longleftrightarrow> bs_ok bs \<and> bs_offset bs < 32 \<and> bs_position bs = length ws \<and> length ws = 8 * bs_pointer bs + bs_offset bs \<and>
     (\<forall>k < 8 * bs_pointer bs. k < 8 * bs_capacity bs \<longrightarrow> bs_bit bs k = ws ! k) \<and>
     (\<forall>j<32. bit (bs_accumulator bs) (31 - j) = (j < bs_offset bs \<and> ws ! (8 * bs_pointer bs + j)))"

lemma bs_store_at:
  assumes "bs_ok bs"
  shows "bs_store bs k n = Some (bs\<lparr>bs_buffer := if bs_pointer bs + k < bs_capacity bs
    then (bs_buffer bs)[bs_pointer bs + k := ucast (drop_bit n (bs_accumulator bs))] else bs_buffer bs\<rparr>)"
  using assms by (simp add: bs_store_def bs_ok_def)

lemma Flush_writes:
  assumes ok: "bs_ok bs"
  shows "\<exists>buf. BitStream_Flush bs = Some (bs\<lparr>bs_buffer := buf\<rparr>) \<and> length buf = length (bs_buffer bs) \<and>
    (\<forall>j < bs_capacity bs. buf ! j = (if bs_pointer bs \<le> j \<and> j < bs_pointer bs + 4
       then ucast (drop_bit (24 - 8 * (j - bs_pointer bs)) (bs_accumulator bs)) else bs_buffer bs ! j))"
proof -
  let ?p = "bs_pointer bs" and ?c = "bs_capacity bs"
  let ?st = "\<lambda>buf k n. if ?p + k < ?c then buf[?p + k := ucast (drop_bit n (bs_accumulator bs))] else buf"
  let ?buf = "?st (?st (?st (?st (bs_buffer bs) 0 24) 1 16) 2 8) 3 0"
  have c: "?c \<le> length (bs_buffer bs)" using ok by (simp add: bs_ok_def)
  have st: "bs_store (bs\<lparr>bs_buffer := b\<rparr>) k n = Some (bs\<lparr>bs_buffer := ?st b k n\<rparr>)" if "length b = length (bs_buffer bs)" for b k n
    using bs_store_at [of "bs\<lparr>bs_buffer := b\<rparr>" k n] c that by (simp add: bs_ok_def)
  have "BitStream_Flush bs = Some (bs\<lparr>bs_buffer := ?buf\<rparr>)"
    using st [of "bs_buffer bs" 0 24] by (simp add: BitStream_Flush_def st)
  moreover have "?buf ! j = (if ?p \<le> j \<and> j < ?p + 4 then ucast (drop_bit (24 - 8 * (j - ?p)) (bs_accumulator bs)) else bs_buffer bs ! j)"
    if "j < ?c" for j
  proof -
    consider "j = ?p" | "j = ?p + 1" | "j = ?p + 2" | "j = ?p + 3" | "j < ?p \<or> ?p + 4 \<le> j" by linarith
    then show ?thesis using that c by cases (auto simp: nth_list_update)
  qed
  ultimately show ?thesis by (intro exI [of _ ?buf]) simp
qed

lemma Flush_bits:
  assumes "bs_ok bs"
  shows "\<exists>bs'. BitStream_Flush bs = Some bs' \<and> bs_ok bs' \<and> bs' = bs\<lparr>bs_buffer := bs_buffer bs'\<rparr> \<and> length (bs_buffer bs') = length (bs_buffer bs) \<and>
    (\<forall>k < 8 * bs_capacity bs. bs_bit bs' k = (if 8 * bs_pointer bs \<le> k \<and> k < 8 * bs_pointer bs + 32
       then bit (bs_accumulator bs) (31 - (k - 8 * bs_pointer bs)) else bs_bit bs k))"
proof -
  let ?p = "bs_pointer bs" and ?c = "bs_capacity bs" and ?a = "bs_accumulator bs"
  from Flush_writes [OF assms] obtain buf where b: "BitStream_Flush bs = Some (bs\<lparr>bs_buffer := buf\<rparr>)" "length buf = length (bs_buffer bs)"
    "\<And>j. j < ?c \<Longrightarrow> buf ! j = (if ?p \<le> j \<and> j < ?p + 4 then ucast (drop_bit (24 - 8 * (j - ?p)) ?a) else bs_buffer bs ! j)" by blast
  let ?bs = "bs\<lparr>bs_buffer := buf\<rparr>"
  have c: "?c \<le> length (bs_buffer bs)" using assms by (simp add: bs_ok_def)
  have "bs_bit ?bs k = (if 8 * ?p \<le> k \<and> k < 8 * ?p + 32 then bit ?a (31 - (k - 8 * ?p)) else bs_bit bs k)" if k: "k < 8 * ?c" for k
  proof -
    have j: "k div 8 < ?c" using k by auto
    have in_range: "?p \<le> k div 8 \<and> k div 8 < ?p + 4 \<longleftrightarrow> 8 * ?p \<le> k \<and> k < 8 * ?p + 32" by auto
    have u: "bit (ucast (drop_bit e ?a) :: byte) (7 - x) \<longleftrightarrow> bit ?a (e + (7 - x))" for e x by (auto simp: bit_simps)
    have "bs_bit ?bs k = bit (buf ! (k div 8)) (7 - k mod 8)" "bs_bit bs k = bit (bs_buffer bs ! (k div 8)) (7 - k mod 8)"
      using k c j b(2) by (simp_all add: bs_bit_def sbit_def)
    moreover have "24 - 8 * (k div 8 - ?p) + (7 - k mod 8) = 31 - (k - 8 * ?p)" if "8 * ?p \<le> k" "k < 8 * ?p + 32"
    proof -
      define d m where "d = k div 8" and "m = k mod 8"
      have "k = 8 * d + m" "m < 8" "?p \<le> d" "d < ?p + 4" using that in_range by (simp_all add: d_def m_def)
      then show ?thesis unfolding d_def [symmetric] m_def [symmetric] by linarith
    qed
    ultimately show ?thesis unfolding b(3) [OF j] in_range
      by (cases "8 * ?p \<le> k \<and> k < 8 * ?p + 32") (simp_all only: if_True if_False u simp_thms)
  qed
  then show ?thesis using b c by (intro exI [of _ ?bs]) (simp add: bs_ok_def)
qed


lemma diff_31_less [simp]: "31 - j < (32 :: nat)"
  by linarith

text \<open>The accumulator after a code that fits it, and before and after the flush of one that does not.\<close>

lemma acc_append:
  assumes "j < 32" "off + n < 32" "unat v < 2 ^ n" "length ws = p + off" "bit (acc :: u32) (31 - j) = (j < off \<and> ws ! (p + j))"
  shows "bit (acc OR push_bit (32 - (off + n)) v) (31 - j) \<longleftrightarrow> j < off + n \<and> (ws @ bits_n n v) ! (p + j)"
proof -
  have b: "bit (push_bit (32 - (off + n)) v) (31 - j) \<longleftrightarrow> j < off + n \<and> bit v (off + n - 1 - j)"
  proof (cases "j < off + n")
    case True
    then have "31 - j - (32 - (off + n)) = off + n - 1 - j" "32 - (off + n) \<le> 31 - j" using assms(1,2) by linarith+
    then show ?thesis using True by (simp add: bit_push_bit_iff)
  qed (use assms in \<open>auto simp: bit_push_bit_iff\<close>)
  consider "j < off" | d where "j = off + d" "d < n" | "off + n \<le> j" by (metis add_less_cancel_left le_Suc_ex not_less)
  then show ?thesis
  proof cases
    case 1
    then have "\<not> bit v (off + n - 1 - j)" by (intro bit_small [OF assms(3)]) linarith
    then show ?thesis using 1 assms(4,5) b by (simp add: bit_or_iff nth_append)
  next
    case 2
    then have "off + n - 1 - j = n - 1 - d" by simp
    then show ?thesis using 2 assms(4,5) b by (simp add: bit_or_iff nth_append)
  next
    case 3
    then show ?thesis using assms(5) b by (simp add: bit_or_iff)
  qed
qed

lemma acc_fill:
  assumes "j < 32" "off + n = 32 + k" "k < n" "length ws = p + off" "bit (acc :: u32) (31 - j) = (j < off \<and> ws ! (p + j))"
  shows "bit (acc OR (drop_bit k v AND mask (n - k))) (31 - j) \<longleftrightarrow> (ws @ bits_n n v) ! (p + j)"
proof (cases "j < off")
  case True
  then have "\<not> 31 - j < n - k" using assms(1-3) by linarith
  then show ?thesis using True assms(4,5) by (simp add: bit_or_iff bit_and_iff bit_mask_iff nth_append)
next
  case False
  then obtain d where d: "j = off + d" by (metis le_Suc_ex not_less)
  then have "31 - j < n - k" "k + (31 - j) = n - 1 - d" "d < n" using assms(1-3) by linarith+
  then show ?thesis using d assms(1,4,5) by (simp add: bit_or_iff bit_and_iff bit_mask_iff bit_drop_bit_eq nth_append)
qed

lemma acc_rest:
  assumes "j < 32" "off + n = 32 + k" "k < n" "length ws = p + off" "k < 32"
  shows "bit (push_bit (32 - k) (v AND mask k) :: u32) (31 - j) \<longleftrightarrow> j < k \<and> (ws @ bits_n n v) ! (p + 32 + j)"
proof (cases "j < k")
  case True
  then have "31 - j - (32 - k) = k - 1 - j" "32 - k \<le> 31 - j" "k - 1 - j < k" "p + 32 + j = length ws + (n - k + j)" "n - k + j < n"
    "n - 1 - (n - k + j) = k - 1 - j" "k - 1 - j < 32" using assms by linarith+
  then show ?thesis using True by (simp only: bit_push_bit_iff nth_append_length_plus nth_bits_n bit_and_iff bit_mask_iff) simp
qed (use assms in \<open>auto simp: bit_push_bit_iff bit_and_iff\<close>)

lemma Write_Bits_writes:
  assumes wr: "writing bs ws" and n: "0 < n" "n < 32" and v: "unat v < 2 ^ n"
  shows "\<exists>bs'. BitStream_Write_Bits bs v n = Some bs' \<and> writing bs' (ws @ bits_n n v) \<and> bs_capacity bs' = bs_capacity bs \<and>
    length (bs_buffer bs') = length (bs_buffer bs)"
proof -
  let ?o = "bs_offset bs" and ?p = "8 * bs_pointer bs" and ?a = "bs_accumulator bs" and ?ws = "ws @ bits_n n v"
  have w: "bs_ok bs" "?o < 32" "bs_position bs = length ws" "length ws = ?p + ?o"
    "\<And>k. k < ?p \<Longrightarrow> k < 8 * bs_capacity bs \<Longrightarrow> bs_bit bs k = ws ! k"
    "\<And>j. j < 32 \<Longrightarrow> bit ?a (31 - j) = (j < ?o \<and> ws ! (?p + j))" using wr by (simp_all add: writing_def)
  show ?thesis
  proof (cases "?o + n < 32")
    case True
    let ?bs = "bs\<lparr>bs_position := bs_position bs + n, bs_offset := ?o + n, bs_accumulator := ?a OR push_bit (32 - (?o + n)) v\<rparr>"
    have "BitStream_Write_Bits bs v n = Some ?bs" using True by (simp add: BitStream_Write_Bits_def)
    moreover have "bs_bit ?bs = bs_bit bs" by (simp add: bs_bit_def)
    ultimately show ?thesis using w True acc_append [OF _ True v w(4) w(6)]
      by (intro exI [of _ ?bs]) (simp add: writing_def bs_ok_def nth_append)
  next
    case False
    define k where "k = ?o + n - 32"
    have k: "?o + n = 32 + k" "k < n" "k < 32" using False w(2) n by (auto simp: k_def)
    let ?b1 = "bs\<lparr>bs_position := bs_position bs + n, bs_offset := k, bs_mask := mask (n - k), bs_accumulator := ?a OR (drop_bit k v AND mask (n - k))\<rparr>"
    have ok: "bs_ok ?b1" and b1: "bs_bit ?b1 = bs_bit bs" using w(1) by (simp_all add: bs_ok_def bs_bit_def)
    from Flush_bits [OF ok] obtain b2 where b2: "BitStream_Flush ?b1 = Some b2" "bs_ok b2" "b2 = ?b1\<lparr>bs_buffer := bs_buffer b2\<rparr>"
      "length (bs_buffer b2) = length (bs_buffer bs)"
      "\<And>i. i < 8 * bs_capacity bs \<Longrightarrow> bs_bit b2 i = (if ?p \<le> i \<and> i < ?p + 32 then bit (bs_accumulator ?b1) (31 - (i - ?p)) else bs_bit bs i)"
      unfolding b1 by auto
    have b2': "bs_capacity b2 = bs_capacity bs" "bs_pointer b2 = bs_pointer bs" "bs_offset b2 = k" "bs_position b2 = bs_position bs + n"
      by (subst b2(3), simp)+
    let ?b3 = "b2\<lparr>bs_accumulator := 0, bs_pointer := bs_pointer b2 + 4\<rparr>"
    let ?b4 = "if k \<noteq> 0 then ?b3\<lparr>bs_mask := mask k, bs_accumulator := push_bit (32 - k) (v AND mask k)\<rparr> else ?b3"
    have run: "BitStream_Write_Bits bs v n = Some ?b4"
      using False b2(1) b2' k by (simp add: BitStream_Write_Bits_def Let_def ones_mask)
    have bits: "bs_bit ?b4 i = ?ws ! i" if "i < ?p + 32" "i < 8 * bs_capacity bs" for i
    proof -
      have "bs_bit ?b4 i = bs_bit b2 i" by (simp add: bs_bit_def)
      also have "\<dots> = ?ws ! i"
      proof (cases "?p \<le> i")
        case True
        then have "i - ?p < 32" "?p + (i - ?p) = i" using that by auto
        then show ?thesis using b2(5) [OF that(2)] True that acc_fill [OF _ k(1,2) w(4) w(6), of "i - ?p" v] by simp
      next
        case False
        then show ?thesis using b2(5) [OF that(2)] w(4,5) that by (simp add: nth_append)
      qed
      finally show ?thesis .
    qed
    have acc: "bit (bs_accumulator ?b4) (31 - j) \<longleftrightarrow> j < k \<and> ?ws ! (?p + 32 + j)" if "j < 32" for j
      using acc_rest [OF that k(1,2) w(4) k(3), of v] by (cases "k = 0") simp_all
    have b4: "bs_ok ?b4" "bs_offset ?b4 = k" "bs_position ?b4 = length ?ws" "bs_pointer ?b4 = bs_pointer bs + 4" "bs_capacity ?b4 = bs_capacity bs"
      "length (bs_buffer ?b4) = length (bs_buffer bs)" using b2(2,4) b2' w(3) by (simp_all add: bs_ok_def)
    have "writing ?b4 ?ws" unfolding writing_def b4(2-5) using b4(1) k w(4) bits acc by (simp only: length_append length_bits_n) simp
    then show ?thesis using run b4(5,6) by blast
  qed
qed


text \<open>The bytes written so far are in the buffer after a flush.\<close>

lemma writing_Flush:
  assumes wr: "writing bs ws"
  shows "\<exists>bs'. BitStream_Flush bs = Some bs' \<and> bs_position bs' = length ws \<and> bs_capacity bs' = bs_capacity bs \<and>
    length (bs_buffer bs') = length (bs_buffer bs) \<and> (\<forall>k < length ws. k < 8 * bs_capacity bs \<longrightarrow> sbit (bs_buffer bs') k = ws ! k)"
proof -
  let ?p = "8 * bs_pointer bs"
  have w: "bs_ok bs" "bs_offset bs < 32" "bs_position bs = length ws" "length ws = ?p + bs_offset bs"
    "\<And>k. k < ?p \<Longrightarrow> k < 8 * bs_capacity bs \<Longrightarrow> bs_bit bs k = ws ! k"
    "\<And>j. j < 32 \<Longrightarrow> bit (bs_accumulator bs) (31 - j) = (j < bs_offset bs \<and> ws ! (?p + j))" using wr by (simp_all add: writing_def)
  from Flush_bits [OF w(1)] obtain bs' where f: "BitStream_Flush bs = Some bs'" "bs' = bs\<lparr>bs_buffer := bs_buffer bs'\<rparr>"
    "length (bs_buffer bs') = length (bs_buffer bs)"
    "\<And>k. k < 8 * bs_capacity bs \<Longrightarrow> bs_bit bs' k = (if ?p \<le> k \<and> k < ?p + 32 then bit (bs_accumulator bs) (31 - (k - ?p)) else bs_bit bs k)"
    by blast
  have f': "bs_position bs' = bs_position bs" "bs_capacity bs' = bs_capacity bs" by (subst f(2), simp)+
  have "sbit (bs_buffer bs') k = ws ! k" if k: "k < length ws" "k < 8 * bs_capacity bs" for k
  proof -
    have "bs_bit bs' k = sbit (bs_buffer bs') k" using k(2) f' by (simp add: bs_bit_def sbit_take)
    moreover have "bs_bit bs' k = ws ! k"
    proof (cases "k < ?p")
      case False
      then have "k - ?p < bs_offset bs" "?p + (k - ?p) = k" "?p \<le> k" "k < ?p + 32" "k - ?p < 32" using k(1) w(2,4) by auto
      then show ?thesis using f(4) [OF k(2)] w(6) [of "k - ?p"] by simp
    qed (use f(4) [OF k(2)] w(5) k(2) in simp)
    ultimately show ?thesis by simp
  qed
  then show ?thesis using f f' w(3) by (intro exI [of _ bs']) simp
qed

lemma Attach_writes:
  assumes "capacity \<le> length buf" "8 * capacity < 2 ^ 31"
  shows "\<exists>bs'. BitStream_Attach bs buf capacity = Some bs' \<and> writing bs' [] \<and> bs_capacity bs' = capacity \<and> bs_buffer bs' = buf"
  using assms by (simp add: BitStream_Attach_def int_mult_def writing_def bs_ok_def)

subsection \<open>Codes\<close>

text \<open>A code is a value with its number of bits, which the value fits.\<close>

type_synonym code = "u32 \<times> nat"

fun code_ok :: "code \<Rightarrow> bool" where
  "code_ok (v, n) \<longleftrightarrow> 0 < n \<and> n < 32 \<and> unat v < 2 ^ n"

definition code_bits :: "code list \<Rightarrow> bool list" where
  "code_bits cs = concat (map (\<lambda>(v, n). bits_n n v) cs)"

fun write_codes :: "wBitStream \<Rightarrow> code list \<Rightarrow> wBitStream option" where
  "write_codes bs [] = Some bs"
| "write_codes bs ((v, n) # cs) = do { bs \<leftarrow> BitStream_Write_Bits bs v n; write_codes bs cs }"

fun read_codes :: "wBitStream \<Rightarrow> nat list \<Rightarrow> (u32 list \<times> wBitStream) option" where
  "read_codes bs [] = Some ([], bs)"
| "read_codes bs (n # ns) = do {
     let v = drop_bit (32 - n) (bs_accumulator bs);
     bs \<leftarrow> BitStream_Shift bs n;
     (vs, bs) \<leftarrow> read_codes bs ns;
     Some (v # vs, bs) }"

lemma code_bits_simps [simp]: "code_bits [] = []" "code_bits ((v, n) # cs) = bits_n n v @ code_bits cs" "code_bits (as @ bs) = code_bits as @ code_bits bs"
  by (simp_all add: code_bits_def)

lemma write_codes_writes:
  "writing bs ws \<Longrightarrow> \<forall>c\<in>set cs. code_ok c \<Longrightarrow> \<exists>bs'. write_codes bs cs = Some bs' \<and> writing bs' (ws @ code_bits cs) \<and>
     bs_capacity bs' = bs_capacity bs \<and> length (bs_buffer bs') = length (bs_buffer bs)"
proof (induction bs cs arbitrary: ws rule: write_codes.induct)
  case (2 bs v n cs)
  then have "0 < n" "n < 32" "unat v < 2 ^ n" by auto
  from Write_Bits_writes [OF 2(2) this] obtain bs1 where 1: "BitStream_Write_Bits bs v n = Some bs1" "writing bs1 (ws @ bits_n n v)"
    "bs_capacity bs1 = bs_capacity bs" "length (bs_buffer bs1) = length (bs_buffer bs)" by blast
  from 2(1) [OF 1(1,2)] 2(3) 1 show ?case by auto
qed simp

lemma read_codes_reads:
  "reading bs \<Longrightarrow> \<forall>c\<in>set cs. code_ok c \<Longrightarrow> \<forall>k < length (code_bits cs). bs_bit bs (bs_position bs + k) = code_bits cs ! k \<Longrightarrow>
     \<exists>bs'. read_codes bs (map snd cs) = Some (map fst cs, bs')"
proof (induction cs arbitrary: bs)
  case (Cons c cs)
  obtain v n where c: "c = (v, n)" by (cases c)
  then have n: "0 < n" "n < 32" "unat v < 2 ^ n" using Cons.prems(2) by auto
  have b: "bs_bit bs (bs_position bs + k) = (bits_n n v @ code_bits cs) ! k" if "k < n + length (code_bits cs)" for k
    using Cons.prems(3) c that by simp
  have "drop_bit (32 - n) (bs_accumulator bs) = v"
    by (rule reading_top [OF Cons.prems(1) _ n(3)]) (use n(2) b in \<open>simp_all add: nth_append\<close>)
  moreover from Shift_reads [OF Cons.prems(1) n(1,2)] obtain bs1 where
    s: "BitStream_Shift bs n = Some bs1" "reading bs1" "bs_position bs1 = bs_position bs + n" "same_stream bs bs1" by blast
  moreover have "bs_bit bs1 (bs_position bs1 + k) = code_bits cs ! k" if "k < length (code_bits cs)" for k
    using b [of "n + k"] that s(3) same_stream_bit [OF s(4)] by (simp add: nth_append add.assoc)
  ultimately show ?case using Cons.IH [OF s(2)] Cons.prems(2) c by auto
qed simp

subsection \<open>Correctness\<close>

text \<open>
  Bit streams (C19): codes of up to 31 bits each, written to a buffer that has room for them and
  flushed, are read back from the bytes written, whatever the buffer held before.
\<close>

theorem BitStream_roundtrip:
  assumes "capacity \<le> length buf" "8 * capacity < 2 ^ 31" "\<forall>c\<in>set cs. code_ok c" "length (code_bits cs) \<le> 8 * capacity"
  shows "\<exists>w1 w2 w3 r1 r2 r3. BitStream_Attach w buf capacity = Some w1 \<and> write_codes w1 cs = Some w2 \<and> BitStream_Flush w2 = Some w3 \<and>
    bs_position w3 = length (code_bits cs) \<and>
    BitStream_Attach r (bs_buffer w3) ((bs_position w3 + 7) div 8) = Some r1 \<and> BitStream_Fetch r1 = Some r2 \<and>
    read_codes r2 (map snd cs) = Some (map fst cs, r3)"
proof -
  let ?n = "(length (code_bits cs) + 7) div 8"
  from Attach_writes [OF assms(1,2)] obtain w1 where w1: "BitStream_Attach w buf capacity = Some w1" "writing w1 []" "bs_capacity w1 = capacity"
    "bs_buffer w1 = buf" by blast
  from write_codes_writes [OF w1(2) assms(3)] obtain w2 where w2: "write_codes w1 cs = Some w2" "writing w2 (code_bits cs)" "bs_capacity w2 = capacity"
    "length (bs_buffer w2) = length buf" using w1 by auto
  from writing_Flush [OF w2(2)] obtain w3 where w3: "BitStream_Flush w2 = Some w3" "bs_position w3 = length (code_bits cs)"
    "length (bs_buffer w3) = length buf" "\<And>k. k < length (code_bits cs) \<Longrightarrow> sbit (bs_buffer w3) k = code_bits cs ! k"
    using w2(3,4) assms(4) by auto
  have "?n \<le> capacity" "length (code_bits cs) \<le> 8 * ?n" using assms(4) by linarith+
  then have n: "?n \<le> length (bs_buffer w3)" "8 * ?n < 2 ^ 31" "length (code_bits cs) \<le> 8 * ?n" using assms(1,2) w3(3) by simp_all
  from Attach_Fetch_reads [OF n(1,2)] obtain r1 r2 where r: "BitStream_Attach r (bs_buffer w3) ?n = Some r1" "BitStream_Fetch r1 = Some r2"
    "reading r2" "bs_position r2 = 0" "bs_buffer r2 = bs_buffer w3" "bs_capacity r2 = ?n" by blast
  have "bs_bit r2 (bs_position r2 + k) = code_bits cs ! k" if "k < length (code_bits cs)" for k
    using that n(3) w3(4) r(4-6) by (simp add: bs_bit_def sbit_take)
  with read_codes_reads [OF r(3) assms(3)] obtain r3 where "read_codes r2 (map snd cs) = Some (map fst cs, r3)" by blast
  with w1(1) w2(1) w3(1,2) r(1,2) show ?thesis by auto
qed

theorem BitStream_roundtrip_witness:
  "\<exists>w1 w2 w3 r1 r2 r3. BitStream_Attach BitStream_New (replicate 9 255) 8 = Some w1 \<and> write_codes w1 [(5, 3), (0x1FFFFF, 30), (1, 1)] = Some w2 \<and>
    BitStream_Flush w2 = Some w3 \<and> bs_position w3 = length (code_bits [(5, 3), (0x1FFFFF, 30), (1, 1)]) \<and>
    BitStream_Attach BitStream_New (bs_buffer w3) ((bs_position w3 + 7) div 8) = Some r1 \<and> BitStream_Fetch r1 = Some r2 \<and>
    read_codes r2 (map snd [(5 :: u32, 3), (0x1FFFFF, 30), (1, 1)]) = Some (map fst [(5, 3 :: nat), (0x1FFFFF, 30), (1, 1)], r3)"
  by (rule BitStream_roundtrip) simp_all

lemma bit_reverse_loop:
  assumes "unat n = m" "0 < m" "\<not> bit r 0" "i < 32"
  shows "bit (reverse_loop r b n) i \<longleftrightarrow> (if m < i then bit r (i - m) else 0 < i \<and> bit b (m - i))"
  using assms
proof (induction m arbitrary: r b n)
  case (Suc m)
  let ?r = "push_bit 1 (r OR (b AND 1))"
  have r: "bit ?r j \<longleftrightarrow> 0 < j \<and> j < 32 \<and> (bit r (j - 1) \<or> j = 1 \<and> bit b 0)" for j
    by (simp only: bit_push_bit_iff bit_or_iff bit_and_iff bit_1_iff) auto
  have "n \<noteq> 0" using Suc.prems(1) by (metis nat.distinct(1) unat_0)
  then have n: "unat (n - 1) = m" using Suc.prems(1) unat_minus_one [of n] by simp
  show ?case
  proof (cases "m = 0")
    case True
    then have "n - 1 = 0" using n by (metis unat_eq_zero)
    then have "reverse_loop r b n = ?r" by (subst reverse_loop.simps) simp
    then show ?thesis unfolding \<open>reverse_loop r b n = ?r\<close> r using True Suc.prems(3,4) by (cases "i = 1") (auto simp: less_Suc_eq)
  next
    case False
    then have "0 < n - 1" using n by (metis unat_0 word_neq_0_conv)
    then have "reverse_loop r b n = reverse_loop ?r (drop_bit 1 b) (n - 1)" by (subst reverse_loop.simps) (simp add: Let_def)
    moreover have "bit (reverse_loop ?r (drop_bit 1 b) (n - 1)) i \<longleftrightarrow> (if m < i then bit ?r (i - m) else 0 < i \<and> bit (drop_bit 1 b) (m - i))"
      using Suc.IH [OF n, of ?r "drop_bit 1 b"] False r Suc.prems(4) by simp
    moreover have "bit r (i - Suc m) \<or> i = Suc m \<and> bit b 0 \<longleftrightarrow> (if Suc m < i then bit r (i - Suc m) else bit b (Suc m - i))" if "m < i"
      using that Suc.prems(3) by (auto simp: less_Suc_eq)
    ultimately show ?thesis using r [of "i - m"] Suc.prems(4)
      by (auto simp: bit_drop_bit_eq Suc_diff_le)
  qed
qed simp

text \<open>
  Reversing bits: \<open>ReverseBits32\<close> reverses the lowest \<open>nbits\<close> bits of its argument, except
  that with \<open>nbits = 32\<close> the bit that belongs to the top of the result is shifted out.
\<close>

theorem ReverseBits32_spec:
  assumes "0 < nbits"
  shows "bit (ReverseBits32 bits nbits) i \<longleftrightarrow> i < unat nbits \<and> i < 31 \<and> bit bits (unat nbits - 1 - i)"
proof (cases "i < 31")
  case True
  have "0 < unat nbits" using assms by (simp add: unat_gt_0)
  from bit_reverse_loop [OF refl this, of 0 "Suc i" bits] True show ?thesis
    by (auto simp: ReverseBits32_def bit_drop_bit_eq)
next
  case False
  then show ?thesis by (simp add: ReverseBits32_def bit_drop_bit_eq bit_high_False)
qed

theorem ReverseBits32_spec_witness:
  "bit (ReverseBits32 1 32) 31 \<longleftrightarrow> 31 < unat (32 :: u32) \<and> 31 < (31 :: nat) \<and> bit (1 :: u32) (unat (32 :: u32) - 1 - 31)"
  by (rule ReverseBits32_spec) simp

end
