(* ===== verification/Mppc.thy ===== *)
theory Mppc
  imports BitStream
begin

text \<open>
  The bulk compressor \<open>libfreerdp/codec/mppc.c\<close>: both sides keep a history of the last bytes;
  a packet is a sequence of literals and of copies from the history, in a prefix code.
  Pointers into the history are offsets. Reading the byte before the history, which the
  compressor does, gives an unspecified byte (\<open>before\<close>); every other access outside an array
  is \<^const>\<open>None\<close>.
\<close>

record MPPC_CONTEXT =
  mppc_bs :: wBitStream
  Compressor :: bool
  HistoryPtr :: nat
  HistoryOffset :: nat
  HistoryBufferSize :: nat
  HistoryBuffer :: "byte list"
  MatchBuffer :: "nat list"
  CompressionLevel :: nat

definition PACKET_COMPRESSED :: u32 where "PACKET_COMPRESSED = 0x20"

definition PACKET_AT_FRONT :: u32 where "PACKET_AT_FRONT = 0x40"

definition PACKET_FLUSHED :: u32 where "PACKET_FLUSHED = 0x80"

definition MPPC_MATCH_TABLE :: "u32 list" where
  "MPPC_MATCH_TABLE = [
    0, 0x9CCF93, 0x1399F26, 0x1D66EB9, 0x2733E4C, 0x3100DDF, 0x3ACDD72, 0x449AD05,
    0x4E67C98, 0x5834C2B, 0x6201BBE, 0x6BCEB51, 0x759BAE4, 0x7F68A77, 0x8935A0A, 0x930299D,
    0x9CCF930, 0xA69C8C3, 0xB069856, 0xBA367E9, 0xC40377C, 0xCDD070F, 0xD79D6A2, 0xE16A635,
    0xEB375C8, 0xF50455B, 0xFED14EE, 0x1089E481, 0x1126B414, 0x11C383A7, 0x1260533A, 0x12FD22CD,
    0x1399F260, 0x1436C1F3, 0x14D39186, 0x15706119, 0x160D30AC, 0x16AA003F, 0x1746CFD2, 0x17E39F65,
    0x18806EF8, 0x191D3E8B, 0x19BA0E1E, 0x1A56DDB1, 0x1AF3AD44, 0x1B907CD7, 0x1C2D4C6A, 0x1CCA1BFD,
    0x1D66EB90, 0x1E03BB23, 0x1EA08AB6, 0x1F3D5A49, 0x1FDA29DC, 0x2076F96F, 0x2113C902, 0x21B09895,
    0x224D6828, 0x22EA37BB, 0x2387074E, 0x2423D6E1, 0x24C0A674, 0x255D7607, 0x25FA459A, 0x2697152D,
    0x2733E4C0, 0x27D0B453, 0x286D83E6, 0x290A5379, 0x29A7230C, 0x2A43F29F, 0x2AE0C232, 0x2B7D91C5,
    0x2C1A6158, 0x2CB730EB, 0x2D54007E, 0x2DF0D011, 0x2E8D9FA4, 0x2F2A6F37, 0x2FC73ECA, 0x30640E5D,
    0x3100DDF0, 0x319DAD83, 0x323A7D16, 0x32D74CA9, 0x33741C3C, 0x3410EBCF, 0x34ADBB62, 0x354A8AF5,
    0x35E75A88, 0x36842A1B, 0x3720F9AE, 0x37BDC941, 0x385A98D4, 0x38F76867, 0x399437FA, 0x3A31078D,
    0x3ACDD720, 0x3B6AA6B3, 0x3C077646, 0x3CA445D9, 0x3D41156C, 0x3DDDE4FF, 0x3E7AB492, 0x3F178425,
    0x3FB453B8, 0x4051234B, 0x40EDF2DE, 0x418AC271, 0x42279204, 0x42C46197, 0x4361312A, 0x43FE00BD,
    0x449AD050, 0x45379FE3, 0x45D46F76, 0x46713F09, 0x470E0E9C, 0x47AADE2F, 0x4847ADC2, 0x48E47D55,
    0x49814CE8, 0x4A1E1C7B, 0x4ABAEC0E, 0x4B57BBA1, 0x4BF48B34, 0x4C915AC7, 0x4D2E2A5A, 0x4DCAF9ED,
    0x4E67C980, 0x4F049913, 0x4FA168A6, 0x503E3839, 0x50DB07CC, 0x5177D75F, 0x5214A6F2, 0x52B17685,
    0x534E4618, 0x53EB15AB, 0x5487E53E, 0x5524B4D1, 0x55C18464, 0x565E53F7, 0x56FB238A, 0x5797F31D,
    0x5834C2B0, 0x58D19243, 0x596E61D6, 0x5A0B3169, 0x5AA800FC, 0x5B44D08F, 0x5BE1A022, 0x5C7E6FB5,
    0x5D1B3F48, 0x5DB80EDB, 0x5E54DE6E, 0x5EF1AE01, 0x5F8E7D94, 0x602B4D27, 0x60C81CBA, 0x6164EC4D,
    0x6201BBE0, 0x629E8B73, 0x633B5B06, 0x63D82A99, 0x6474FA2C, 0x6511C9BF, 0x65AE9952, 0x664B68E5,
    0x66E83878, 0x6785080B, 0x6821D79E, 0x68BEA731, 0x695B76C4, 0x69F84657, 0x6A9515EA, 0x6B31E57D,
    0x6BCEB510, 0x6C6B84A3, 0x6D085436, 0x6DA523C9, 0x6E41F35C, 0x6EDEC2EF, 0x6F7B9282, 0x70186215,
    0x70B531A8, 0x7152013B, 0x71EED0CE, 0x728BA061, 0x73286FF4, 0x73C53F87, 0x74620F1A, 0x74FEDEAD,
    0x759BAE40, 0x76387DD3, 0x76D54D66, 0x77721CF9, 0x780EEC8C, 0x78ABBC1F, 0x79488BB2, 0x79E55B45,
    0x7A822AD8, 0x7B1EFA6B, 0x7BBBC9FE, 0x7C589991, 0x7CF56924, 0x7D9238B7, 0x7E2F084A, 0x7ECBD7DD,
    0x7F68A770, 0x80057703, 0x80A24696, 0x813F1629, 0x81DBE5BC, 0x8278B54F, 0x831584E2, 0x83B25475,
    0x844F2408, 0x84EBF39B, 0x8588C32E, 0x862592C1, 0x86C26254, 0x875F31E7, 0x87FC017A, 0x8898D10D,
    0x8935A0A0, 0x89D27033, 0x8A6F3FC6, 0x8B0C0F59, 0x8BA8DEEC, 0x8C45AE7F, 0x8CE27E12, 0x8D7F4DA5,
    0x8E1C1D38, 0x8EB8ECCB, 0x8F55BC5E, 0x8FF28BF1, 0x908F5B84, 0x912C2B17, 0x91C8FAAA, 0x9265CA3D,
    0x930299D0, 0x939F6963, 0x943C38F6, 0x94D90889, 0x9575D81C, 0x9612A7AF, 0x96AF7742, 0x974C46D5,
    0x97E91668, 0x9885E5FB, 0x9922B58E, 0x99BF8521, 0x9A5C54B4, 0x9AF92447, 0x9B95F3DA, 0x9C32C36D]"

definition MPPC_MATCH_INDEX :: "byte \<Rightarrow> byte \<Rightarrow> byte \<Rightarrow> nat" where
  "MPPC_MATCH_INDEX sym1 sym2 sym3 =
     unat (drop_bit 12 ((push_bit 16 (MPPC_MATCH_TABLE ! unat sym3) + push_bit 8 (MPPC_MATCH_TABLE ! unat sym2) + MPPC_MATCH_TABLE ! unat sym1)
       AND 0x07FFF000))"

definition mem_get :: "'a list \<Rightarrow> nat \<Rightarrow> 'a option" where
  "mem_get xs i = (if i < length xs then Some (xs ! i) else None)"

subsection \<open>Contexts\<close>

definition mppc_set_compression_level :: "MPPC_CONTEXT \<Rightarrow> nat \<Rightarrow> MPPC_CONTEXT" where
  "mppc_set_compression_level mppc level =
     (if level < 1 then mppc\<lparr>CompressionLevel := 0, HistoryBufferSize := 8192\<rparr>
      else mppc\<lparr>CompressionLevel := 1, HistoryBufferSize := 65536\<rparr>)"

definition mppc_context_reset :: "MPPC_CONTEXT \<Rightarrow> bool \<Rightarrow> MPPC_CONTEXT" where
  "mppc_context_reset mppc flush =
     (let off = (if flush then HistoryBufferSize mppc + 1 else 0) in
      mppc\<lparr>HistoryBuffer := replicate 65536 0, MatchBuffer := replicate 32768 0, HistoryOffset := off, HistoryPtr := off\<rparr>)"

text \<open>The flags tell whether the two allocations succeed.\<close>

definition mppc_context_new :: "bool \<Rightarrow> bool \<Rightarrow> nat \<Rightarrow> bool \<Rightarrow> MPPC_CONTEXT option" where
  "mppc_context_new mppc_ok stream_ok level compressor =
     (if \<not> mppc_ok then None
      else
        let mppc = \<lparr>mppc_bs = BitStream_New, Compressor = compressor, HistoryPtr = 0, HistoryOffset = 0, HistoryBufferSize = 0,
              HistoryBuffer = replicate 65536 0, MatchBuffer = replicate 32768 0, CompressionLevel = 0\<rparr>;
            mppc = (if level < 1 then mppc\<lparr>CompressionLevel := 0, HistoryBufferSize := 8192\<rparr>
                    else mppc\<lparr>CompressionLevel := 1, HistoryBufferSize := 65536\<rparr>)
        in if \<not> stream_ok then None else Some (mppc_context_reset mppc False))"

subsection \<open>Decompression\<close>

text \<open>The codes of offsets and lengths: the value with the number of bits, or the error code.\<close>

definition mppc_read_offset :: "nat \<Rightarrow> u32 \<Rightarrow> int + nat \<times> nat" where
  "mppc_read_offset level acc =
     (if level \<noteq> 0 then
       (if acc AND 0xF8000000 = 0xF8000000 then Inr (unat (drop_bit 21 acc AND 0x3F), 11)
        else if acc AND 0xF8000000 = 0xF0000000 then Inr (unat (drop_bit 19 acc AND 0xFF) + 64, 13)
        else if acc AND 0xF0000000 = 0xE0000000 then Inr (unat (drop_bit 17 acc AND 0x7FF) + 320, 15)
        else if acc AND 0xE0000000 = 0xC0000000 then Inr (unat (drop_bit 13 acc AND 0xFFFF) + 2368, 19)
        else Inl (-1001))
      else
       (if acc AND 0xF0000000 = 0xF0000000 then Inr (unat (drop_bit 22 acc AND 0x3F), 10)
        else if acc AND 0xF0000000 = 0xE0000000 then Inr (unat (drop_bit 20 acc AND 0xFF) + 64, 12)
        else if acc AND 0xE0000000 = 0xC0000000 then Inr (unat (drop_bit 16 acc AND 0x1FFF) + 320, 16)
        else Inl (-1002)))"

definition mppc_read_length :: "nat \<Rightarrow> u32 \<Rightarrow> int + nat \<times> nat" where
  "mppc_read_length level acc =
     (if acc AND 0x80000000 = 0 then Inr (3, 1)
      else if acc AND 0xC0000000 = 0x80000000 then Inr (unat (drop_bit 28 acc AND 0x3) + 0x4, 4)
      else if acc AND 0xE0000000 = 0xC0000000 then Inr (unat (drop_bit 26 acc AND 0x7) + 0x8, 6)
      else if acc AND 0xF0000000 = 0xE0000000 then Inr (unat (drop_bit 24 acc AND 0xF) + 0x10, 8)
      else if acc AND 0xF8000000 = 0xF0000000 then Inr (unat (drop_bit 22 acc AND 0x1F) + 0x20, 10)
      else if acc AND 0xFC000000 = 0xF8000000 then Inr (unat (drop_bit 20 acc AND 0x3F) + 0x40, 12)
      else if acc AND 0xFE000000 = 0xFC000000 then Inr (unat (drop_bit 18 acc AND 0x7F) + 0x80, 14)
      else if acc AND 0xFF000000 = 0xFE000000 then Inr (unat (drop_bit 16 acc AND 0xFF) + 0x100, 16)
      else if acc AND 0xFF800000 = 0xFF000000 then Inr (unat (drop_bit 14 acc AND 0x1FF) + 0x200, 18)
      else if acc AND 0xFFC00000 = 0xFF800000 then Inr (unat (drop_bit 12 acc AND 0x3FF) + 0x400, 20)
      else if acc AND 0xFFE00000 = 0xFFC00000 then Inr (unat (drop_bit 10 acc AND 0x7FF) + 0x800, 22)
      else if acc AND 0xFFF00000 = 0xFFE00000 then Inr (unat (drop_bit 8 acc AND 0xFFF) + 0x1000, 24)
      else if acc AND 0xFFF80000 = 0xFFF00000 \<and> level \<noteq> 0 then Inr (unat (drop_bit 6 acc AND 0x1FFF) + 0x2000, 26)
      else if acc AND 0xFFFC0000 = 0xFFF80000 \<and> level \<noteq> 0 then Inr (unat (drop_bit 4 acc AND 0x3FFF) + 0x4000, 28)
      else if acc AND 0xFFFE0000 = 0xFFFC0000 \<and> level \<noteq> 0 then Inr (unat (drop_bit 2 acc AND 0x7FFF) + 0x8000, 30)
      else Inl (-1003))"

text \<open>The copy loop runs at least once; with a count of zero it would run off the history.\<close>

fun mppc_copy :: "byte list \<Rightarrow> nat \<Rightarrow> nat \<Rightarrow> nat \<Rightarrow> byte list option" where
  "mppc_copy hist dst src 0 = None"
| "mppc_copy hist dst src (Suc n) = do {
     b \<leftarrow> mem_get hist src;
     hist \<leftarrow> mem_write hist dst [b];
     (if n = 0 then Some hist else mppc_copy hist (dst + 1) (src + 1) n) }"

type_synonym mppc_reader = "wBitStream \<times> byte list \<times> nat"

text \<open>One round of the decompression loop; the first component is the error code, if any.\<close>

definition mppc_decompress_step :: "nat \<Rightarrow> nat \<Rightarrow> mppc_reader \<Rightarrow> (int option \<times> mppc_reader) option" where
  "mppc_decompress_step level hbs st =
     (case st of (bs, hist, ptr) \<Rightarrow>
      let acc = bs_accumulator bs in
      if ptr > hbs - 1 then Some (Some (-1004), st)
      else if acc AND 0x80000000 = 0 then do {
        let Literal = ucast (drop_bit 24 (acc AND 0x7F000000));
        hist \<leftarrow> mem_write hist ptr [Literal];
        bs \<leftarrow> BitStream_Shift bs 8;
        Some (None, bs, hist, ptr + 1) }
      else if acc AND 0xC0000000 = 0x80000000 then do {
        let Literal = ucast (drop_bit 23 (acc AND 0x3F800000) + 0x80);
        hist \<leftarrow> mem_write hist ptr [Literal];
        bs \<leftarrow> BitStream_Shift bs 9;
        Some (None, bs, hist, ptr + 1) }
      else
        (case mppc_read_offset level acc of
           Inl err \<Rightarrow> Some (Some err, st)
         | Inr (CopyOffset, n) \<Rightarrow> do {
             bs \<leftarrow> BitStream_Shift bs n;
             (case mppc_read_length level (bs_accumulator bs) of
                Inl err \<Rightarrow> Some (Some err, bs, hist, ptr)
              | Inr (LengthOfMatch, n) \<Rightarrow> do {
                  bs \<leftarrow> BitStream_Shift bs n;
                  (if ptr + LengthOfMatch - 1 > hbs - 1 then Some (Some (-1005), bs, hist, ptr)
                   else do {
                     let SrcPtr = nat ((int ptr - int CopyOffset) AND (if level \<noteq> 0 then 0xFFFF else 0x1FFF));
                     hist \<leftarrow> mppc_copy hist ptr SrcPtr LengthOfMatch;
                     Some (None, bs, hist, ptr + LengthOfMatch) }) }) }))"

lemma Prefetch_fields:
  "BitStream_Prefetch bs = Some bs' \<Longrightarrow> bs_position bs' = bs_position bs \<and> bs_length bs' = bs_length bs \<and> bs_offset bs' = bs_offset bs"
  by (auto simp: BitStream_Prefetch_def bind_eq_Some_conv)

lemma Shift_advances:
  assumes "BitStream_Shift bs n = Some bs'" "0 < n" "n < 32"
  shows "bs_position bs' = bs_position bs + n \<and> bs_length bs' = bs_length bs"
proof (cases "bs_offset bs + n < 32")
  case True
  then show ?thesis using assms by (auto simp: BitStream_Shift_def bs_pull_eq)
next
  case False
  let ?b = "(bs_pull n (bs\<lparr>bs_accumulator := push_bit n (bs_accumulator bs), bs_position := bs_position bs + n, bs_offset := bs_offset bs + n\<rparr>))
    \<lparr>bs_offset := bs_offset bs + n - 32, bs_pointer := bs_pointer bs + 4\<rparr>"
  from assms False obtain b where b: "BitStream_Prefetch ?b = Some b" "bs' = (if bs_offset b \<noteq> 0 then bs_pull (bs_offset b) b else b)"
    by (simp add: BitStream_Shift_def Let_def bind_eq_Some_conv bs_pull_eq) blast
  then show ?thesis using Prefetch_fields [OF b(1)] by (simp add: bs_pull_eq)
qed

lemma read_offset_bits: "mppc_read_offset level acc = Inr (off, n) \<Longrightarrow> 0 < n \<and> n < 32"
  by (auto simp: mppc_read_offset_def split: if_splits)

definition length_ok :: "int + nat \<times> nat \<Rightarrow> bool" where
  "length_ok r \<longleftrightarrow> (\<forall>len n. r = Inr (len, n) \<longrightarrow> 0 < n \<and> n < 32 \<and> 3 \<le> len)"

lemma length_ok_if: "length_ok x \<Longrightarrow> length_ok y \<Longrightarrow> length_ok (if b then x else y)"
  by simp

lemma read_length_ok: "length_ok (mppc_read_length level acc)"
  unfolding mppc_read_length_def by (intro length_ok_if) (simp_all add: length_ok_def)

lemma read_length_bits: "mppc_read_length level acc = Inr (len, n) \<Longrightarrow> 0 < n \<and> n < 32 \<and> 3 \<le> len"
  using read_length_ok [of level acc] by (simp add: length_ok_def)

text \<open>The result of a round by the kind of code it finds.\<close>

lemma decompress_step_cases:
  assumes "mppc_decompress_step level hbs (bs, hist, ptr) = Some (err, bs', hist', ptr')"
  obtains "err \<noteq> None"
  | n b where "err = None" "n = 8 \<or> n = 9" "BitStream_Shift bs n = Some bs'" "mem_write hist ptr [b] = Some hist'" "ptr' = ptr + 1"
  | off n bs1 len n' where "err = None" "mppc_read_offset level (bs_accumulator bs) = Inr (off, n)" "BitStream_Shift bs n = Some bs1"
    "mppc_read_length level (bs_accumulator bs1) = Inr (len, n')" "BitStream_Shift bs1 n' = Some bs'" "ptr + len - 1 \<le> hbs - 1"
    "mppc_copy hist ptr (nat ((int ptr - int off) AND (if level \<noteq> 0 then 0xFFFF else 0x1FFF))) len = Some hist'" "ptr' = ptr + len"
proof -
  let ?a = "bs_accumulator bs"
  consider "ptr > hbs - 1" | "ptr \<le> hbs - 1" "?a AND 0x80000000 = 0" | "ptr \<le> hbs - 1" "?a AND 0x80000000 \<noteq> 0" "?a AND 0xC0000000 = 0x80000000"
    | "ptr \<le> hbs - 1" "?a AND 0x80000000 \<noteq> 0" "?a AND 0xC0000000 \<noteq> 0x80000000" by linarith
  then show ?thesis
  proof cases
    case 1
    then show ?thesis using assms that(1) by (auto simp: mppc_decompress_step_def)
  next
    case 2
    then show ?thesis using assms that(2) [of 8] by (auto simp: mppc_decompress_step_def Let_def bind_eq_Some_conv)
  next
    case 3
    then show ?thesis using assms that(2) [of 9] by (auto simp: mppc_decompress_step_def Let_def bind_eq_Some_conv)
  next
    case 4
    show ?thesis
    proof (cases "mppc_read_offset level ?a")
      case (Inl e)
      then show ?thesis using assms that(1) 4 by (auto simp: mppc_decompress_step_def Let_def)
    next
      case (Inr p)
      obtain off n where p: "p = (off, n)" by (cases p)
      from assms 4 Inr p obtain bs1 where 1: "BitStream_Shift bs n = Some bs1"
        by (auto simp: mppc_decompress_step_def Let_def bind_eq_Some_conv)
      show ?thesis
      proof (cases "mppc_read_length level (bs_accumulator bs1)")
        case (Inl e)
        then show ?thesis using assms that(1) 4 Inr p 1 by (auto simp: mppc_decompress_step_def Let_def)
      next
        case (Inr q)
        obtain len n' where q: "q = (len, n')" by (cases q)
        show ?thesis
        proof (cases "ptr + len - 1 > hbs - 1")
          case True
          then show ?thesis using assms that(1) 4 \<open>mppc_read_offset level ?a = Inr p\<close> p 1 Inr q
            by (auto simp: mppc_decompress_step_def Let_def bind_eq_Some_conv)
        next
          case False
          then show ?thesis using assms that(3) [of off n bs1 len n'] 4 \<open>mppc_read_offset level ?a = Inr p\<close> p 1 Inr q
            by (auto simp: mppc_decompress_step_def Let_def bind_eq_Some_conv)
        qed
      qed
    qed
  qed
qed

lemma decompress_step_advances:
  assumes "mppc_decompress_step level hbs (bs, hist, ptr) = Some (None, bs', hist', ptr')"
  shows "bs_position bs < bs_position bs' \<and> bs_length bs' = bs_length bs"
  using assms by (cases rule: decompress_step_cases) (auto dest!: Shift_advances read_offset_bits read_length_bits)

function mppc_decompress_loop :: "nat \<Rightarrow> nat \<Rightarrow> mppc_reader \<Rightarrow> (int option \<times> mppc_reader) option" where
  "mppc_decompress_loop level hbs (bs, hist, ptr) =
     (if BitStream_GetRemainingLength bs \<ge> 8
      then (case mppc_decompress_step level hbs (bs, hist, ptr) of
              None \<Rightarrow> None
            | Some (Some err, st) \<Rightarrow> Some (Some err, st)
            | Some (None, st) \<Rightarrow> mppc_decompress_loop level hbs st)
      else Some (None, bs, hist, ptr))"
  by pat_completeness auto

termination mppc_decompress_loop
  by (relation "measure (\<lambda>(_, _, bs, _). bs_length bs - bs_position bs)")
    (auto simp: BitStream_GetRemainingLength_def dest!: decompress_step_advances)

declare mppc_decompress_loop.simps [simp del]

text \<open>The result is the status, the bytes at \<open>*ppDstData\<close> when it is set, and the context.\<close>

definition mppc_decompress :: "MPPC_CONTEXT \<Rightarrow> byte list \<Rightarrow> nat \<Rightarrow> u32 \<Rightarrow> (int \<times> byte list option \<times> MPPC_CONTEXT) option" where
  "mppc_decompress mppc pSrcData SrcSize flags = do {
     bs \<leftarrow> BitStream_Attach (mppc_bs mppc) pSrcData SrcSize;
     bs \<leftarrow> BitStream_Fetch bs;
     let mppc = mppc\<lparr>mppc_bs := bs\<rparr>;
     let mppc = (if flags AND PACKET_AT_FRONT \<noteq> 0 then mppc\<lparr>HistoryOffset := 0, HistoryPtr := 0\<rparr> else mppc);
     mppc \<leftarrow> (if flags AND PACKET_FLUSHED \<noteq> 0
              then do {
                buf \<leftarrow> mem_write (HistoryBuffer mppc) 0 (replicate (HistoryBufferSize mppc) 0);
                Some (mppc\<lparr>HistoryOffset := 0, HistoryPtr := 0, HistoryBuffer := buf\<rparr>) }
              else Some mppc);
     (if flags AND PACKET_COMPRESSED = 0 then Some (1, Some (take SrcSize pSrcData), mppc)
      else do {
        (err, bs, hist, ptr) \<leftarrow> mppc_decompress_loop (CompressionLevel mppc) (HistoryBufferSize mppc) (bs, HistoryBuffer mppc, HistoryPtr mppc);
        let mppc = mppc\<lparr>mppc_bs := bs, HistoryBuffer := hist\<rparr>;
        (case err of
           Some status \<Rightarrow> Some (status, None, mppc)
         | None \<Rightarrow> do {
             out \<leftarrow> mem_read hist (HistoryPtr mppc) (ptr - HistoryPtr mppc);
             Some (1, Some out, mppc\<lparr>HistoryPtr := ptr\<rparr>) }) }) }"

subsection \<open>Compression\<close>

text \<open>
  The codes that the compressor writes for an offset and for a length, with their numbers of
  bits; \<^const>\<open>None\<close> when no branch applies and nothing is written.
\<close>

definition mppc_literal_code :: "byte \<Rightarrow> code" where
  "mppc_literal_code b = (if b < 0x80 then (ucast b, 8) else (0x100 OR (ucast b AND 0x7F), 9))"

definition mppc_offset_code :: "nat \<Rightarrow> nat \<Rightarrow> code option" where
  "mppc_offset_code level off =
     (if level \<noteq> 0 then
       (if off < 64 then Some (0x7C0 OR (word_of_nat off AND 0x3F), 11)
        else if off \<ge> 64 \<and> off < 320 then Some (0x1E00 OR ((word_of_nat off - 64) AND 0xFF), 13)
        else if off \<ge> 320 \<and> off < 2368 then Some (0x7000 OR ((word_of_nat off - 320) AND 0x7FF), 15)
        else Some (0x60000 OR ((word_of_nat off - 2368) AND 0xFFFF), 19))
      else
       (if off < 64 then Some (0x3C0 OR (word_of_nat off AND 0x3F), 10)
        else if off \<ge> 64 \<and> off < 320 then Some (0xE00 OR ((word_of_nat off - 64) AND 0xFF), 12)
        else if off \<ge> 320 \<and> off < 8192 then Some (0xC000 OR ((word_of_nat off - 320) AND 0x1FFF), 16)
        else None))"

definition mppc_length_code :: "nat \<Rightarrow> nat \<Rightarrow> code option" where
  "mppc_length_code level len =
     (if len = 3 then Some (0, 1)
      else if len \<ge> 4 \<and> len < 8 then Some (0x8 OR (word_of_nat len AND 0x3), 4)
      else if len \<ge> 8 \<and> len < 16 then Some (0x30 OR (word_of_nat len AND 0x7), 6)
      else if len \<ge> 16 \<and> len < 32 then Some (0xE0 OR (word_of_nat len AND 0xF), 8)
      else if len \<ge> 32 \<and> len < 64 then Some (0x3C0 OR (word_of_nat len AND 0x1F), 10)
      else if len \<ge> 64 \<and> len < 128 then Some (0xF80 OR (word_of_nat len AND 0x3F), 12)
      else if len \<ge> 128 \<and> len < 256 then Some (0x3F00 OR (word_of_nat len AND 0x7F), 14)
      else if len \<ge> 256 \<and> len < 512 then Some (0xFE00 OR (word_of_nat len AND 0xFF), 16)
      else if len \<ge> 512 \<and> len < 1024 then Some (0x3FC00 OR (word_of_nat len AND 0x1FF), 18)
      else if len \<ge> 1024 \<and> len < 2048 then Some (0xFF800 OR (word_of_nat len AND 0x3FF), 20)
      else if len \<ge> 2048 \<and> len < 4096 then Some (0x3FF000 OR (word_of_nat len AND 0x7FF), 22)
      else if len \<ge> 4096 \<and> len < 8192 then Some (0xFFE000 OR (word_of_nat len AND 0xFFF), 24)
      else if len \<ge> 8192 \<and> len < 16384 \<and> level \<noteq> 0 then Some (0x3FFC000 OR (word_of_nat len AND 0x1FFF), 26)
      else if len \<ge> 16384 \<and> len < 32768 \<and> level \<noteq> 0 then Some (0xFFF8000 OR (word_of_nat len AND 0x3FFF), 28)
      else if len \<ge> 32768 \<and> len < 65536 \<and> level \<noteq> 0 then Some (0x3FFF0000 OR (word_of_nat len AND 0x7FFF), 30)
      else None)"

definition mppc_write_code :: "wBitStream \<Rightarrow> code option \<Rightarrow> wBitStream option" where
  "mppc_write_code bs c = (case c of None \<Rightarrow> Some bs | Some (v, n) \<Rightarrow> BitStream_Write_Bits bs v n)"

text \<open>The state of the compression loop; \<open>sc_high\<close> is \<open>mppc->HistoryPtr\<close>.\<close>

record mppc_scan =
  sc_bs :: wBitStream
  sc_hist :: "byte list"
  sc_match :: "nat list"
  sc_high :: nat
  sc_ptr :: nat
  sc_src :: nat

text \<open>The condition for a literal, with its short-circuit evaluation.\<close>

definition mppc_no_match :: "byte \<Rightarrow> byte \<Rightarrow> byte \<Rightarrow> byte \<Rightarrow> byte list \<Rightarrow> nat \<Rightarrow> nat \<Rightarrow> nat \<Rightarrow> bool option" where
  "mppc_no_match before Sym1 Sym2 Sym3 hist MatchPtr high ptr = do {
     a \<leftarrow> (if MatchPtr = 0 then Some before else mem_get hist (MatchPtr - 1));
     (if Sym1 \<noteq> a then Some True
      else do {
        b \<leftarrow> mem_get hist MatchPtr;
        (if Sym2 \<noteq> b then Some True
         else do {
           c \<leftarrow> mem_get hist (MatchPtr + 1);
           Some (Sym3 \<noteq> c \<or> MatchPtr + 1 > high \<or> MatchPtr = 0 \<or> MatchPtr = ptr - 1 \<or> MatchPtr = ptr) }) }) }"

text \<open>The loop that extends a match: history, positions in history and source, and length.\<close>

function mppc_extend :: "byte list \<Rightarrow> nat \<Rightarrow> nat \<Rightarrow> byte list \<Rightarrow> nat \<Rightarrow> nat \<Rightarrow> nat \<Rightarrow> nat \<Rightarrow> (byte list \<times> nat \<times> nat \<times> nat) option" where
  "mppc_extend pSrc pSrcEnd high hist MatchPtr ptr src len =
     (case (mem_get pSrc src, mem_get hist MatchPtr) of
        (Some a, Some b) \<Rightarrow>
          (if a = b \<and> src < pSrcEnd \<and> MatchPtr \<le> high
           then (case mem_write hist ptr [a] of
                   None \<Rightarrow> None
                 | Some hist' \<Rightarrow> mppc_extend pSrc pSrcEnd high hist' (MatchPtr + 1) (ptr + 1) (src + 1) (len + 1))
           else Some (hist, ptr, src, len))
      | _ \<Rightarrow> None)"
  by pat_completeness auto

termination mppc_extend
  by (relation "measure (\<lambda>(_, pSrcEnd, _, _, _, _, src, _). pSrcEnd - src)") auto

declare mppc_extend.simps [simp del]

text \<open>\<open>DstSize - 1\<close> and \<open>SrcSize - 1\<close> are \<open>UINT32\<close> values.\<close>

definition u32_pred :: "nat \<Rightarrow> nat" where
  "u32_pred n = (n + 2 ^ 32 - 1) mod 2 ^ 32"

text \<open>One round of the compression loop; the flag tells that the packet does not fit and the context is reset.\<close>

definition mppc_compress_step :: "byte \<Rightarrow> nat \<Rightarrow> nat \<Rightarrow> byte list \<Rightarrow> nat \<Rightarrow> nat \<Rightarrow> mppc_scan \<Rightarrow> (bool \<times> mppc_scan) option" where
  "mppc_compress_step before level hbs pSrc pSrcEnd DstSize sc = do {
     Sym1 \<leftarrow> mem_get pSrc (sc_src sc);
     Sym2 \<leftarrow> mem_get pSrc (sc_src sc + 1);
     Sym3 \<leftarrow> mem_get pSrc (sc_src sc + 2);
     hist \<leftarrow> mem_write (sc_hist sc) (sc_ptr sc) [Sym1];
     let ptr = sc_ptr sc + 1;
     let MatchIndex = MPPC_MATCH_INDEX Sym1 Sym2 Sym3;
     MatchPtr \<leftarrow> mem_get (sc_match sc) MatchIndex;
     matches \<leftarrow> (if MatchPtr \<noteq> ptr - 1 then mem_write (sc_match sc) MatchIndex [ptr mod 2 ^ 16] else Some (sc_match sc));
     let high = (if sc_high sc < ptr then ptr else sc_high sc);
     no_match \<leftarrow> mppc_no_match before Sym1 Sym2 Sym3 hist MatchPtr high ptr;
     (if no_match then
        (if bs_position (sc_bs sc) div 8 + 2 > u32_pred DstSize then Some (True, sc)
         else do {
           bs \<leftarrow> mppc_write_code (sc_bs sc) (Some (mppc_literal_code Sym1));
           Some (False, \<lparr>sc_bs = bs, sc_hist = hist, sc_match = matches, sc_high = high, sc_ptr = ptr, sc_src = sc_src sc + 1\<rparr>) })
      else do {
        let CopyOffset = nat ((int hbs - 1) AND (int ptr - int MatchPtr));
        hist \<leftarrow> mem_write hist ptr [Sym2];
        hist \<leftarrow> mem_write hist (ptr + 1) [Sym3];
        (hist, ptr, src, LengthOfMatch) \<leftarrow> mppc_extend pSrc pSrcEnd high hist (MatchPtr + 2) (ptr + 2) (sc_src sc + 3) 3;
        (if bs_position (sc_bs sc) div 8 + 7 > u32_pred DstSize then Some (True, sc)
         else do {
           bs \<leftarrow> mppc_write_code (sc_bs sc) (mppc_offset_code level CopyOffset);
           bs \<leftarrow> mppc_write_code bs (mppc_length_code level LengthOfMatch);
           Some (False, \<lparr>sc_bs = bs, sc_hist = hist, sc_match = matches, sc_high = high, sc_ptr = ptr, sc_src = src\<rparr>) }) }) }"

lemma mppc_extend_advances:
  "mppc_extend pSrc pSrcEnd high hist m ptr src len = Some (hist', ptr', src', len') \<Longrightarrow> src \<le> src'"
proof (induction pSrc pSrcEnd high hist m ptr src len rule: mppc_extend.induct)
  case (1 pSrc pSrcEnd high hist m ptr src len)
  from 1(2) show ?case
    by (subst (asm) mppc_extend.simps) (auto split: option.split_asm if_split_asm dest!: 1(1) [OF refl])
qed

lemma compress_step_advances:
  "mppc_compress_step before level hbs pSrc pSrcEnd DstSize sc = Some (False, sc') \<Longrightarrow> sc_src sc < sc_src sc'"
  by (auto simp: mppc_compress_step_def Let_def bind_eq_Some_conv split: if_splits dest!: mppc_extend_advances)

function mppc_compress_loop :: "byte \<Rightarrow> nat \<Rightarrow> nat \<Rightarrow> byte list \<Rightarrow> nat \<Rightarrow> nat \<Rightarrow> mppc_scan \<Rightarrow> (bool \<times> mppc_scan) option" where
  "mppc_compress_loop before level hbs pSrc pSrcEnd DstSize sc =
     (if int (sc_src sc) < int pSrcEnd - 2
      then (case mppc_compress_step before level hbs pSrc pSrcEnd DstSize sc of
              None \<Rightarrow> None
            | Some (True, sc') \<Rightarrow> Some (True, sc')
            | Some (False, sc') \<Rightarrow> mppc_compress_loop before level hbs pSrc pSrcEnd DstSize sc')
      else Some (False, sc))"
  by pat_completeness auto

termination mppc_compress_loop
  by (relation "measure (\<lambda>(_, _, _, _, pSrcEnd, _, sc). pSrcEnd - sc_src sc)") (auto dest!: compress_step_advances)

declare mppc_compress_loop.simps [simp del]

text \<open>The trailing symbols.\<close>

function mppc_trailing_loop :: "byte list \<Rightarrow> nat \<Rightarrow> nat \<Rightarrow> mppc_scan \<Rightarrow> (bool \<times> mppc_scan) option" where
  "mppc_trailing_loop pSrc pSrcEnd DstSize sc =
     (if sc_src sc \<le> pSrcEnd
      then
        if bs_position (sc_bs sc) div 8 + 2 > u32_pred DstSize then Some (True, sc)
        else
          (case mem_get pSrc (sc_src sc) of
             None \<Rightarrow> None
           | Some b \<Rightarrow>
               (case mppc_write_code (sc_bs sc) (Some (mppc_literal_code b)) of
                  None \<Rightarrow> None
                | Some bs \<Rightarrow>
                    (case mem_write (sc_hist sc) (sc_ptr sc) [b] of
                       None \<Rightarrow> None
                     | Some hist \<Rightarrow> mppc_trailing_loop pSrc pSrcEnd DstSize (sc\<lparr>sc_bs := bs, sc_hist := hist, sc_ptr := sc_ptr sc + 1, sc_src := sc_src sc + 1\<rparr>))))
      else Some (False, sc))"
  by pat_completeness auto

termination mppc_trailing_loop
  by (relation "measure (\<lambda>(_, pSrcEnd, _, sc). Suc pSrcEnd - sc_src sc)") auto

declare mppc_trailing_loop.simps [simp del]

text \<open>
  The result is the status, the flags, the bytes at \<open>*ppDstData\<close> and the context. \<open>dst\<close> is the
  memory at \<open>*ppDstData\<close>, \<^const>\<open>None\<close> for \<open>NULL\<close>.
\<close>

definition mppc_compress :: "byte \<Rightarrow> MPPC_CONTEXT \<Rightarrow> byte list \<Rightarrow> nat \<Rightarrow> byte list option \<Rightarrow> nat \<Rightarrow>
    (int \<times> u32 \<times> byte list \<times> MPPC_CONTEXT) option" where
  "mppc_compress before mppc pSrcData SrcSize dst pDstSize =
     (let hbs = HistoryBufferSize mppc; level = CompressionLevel mppc;
          front = \<not> ((HistoryOffset mppc + SrcSize) mod 2 ^ 32 < hbs - 3 \<and> HistoryOffset mppc \<noteq> 0);
          flushed = (front \<and> HistoryOffset mppc = hbs + 1);
          off = (if front then 0 else HistoryOffset mppc)
      in case dst of
           None \<Rightarrow> Some (-1, 0, [], mppc)
         | Some pDstData \<Rightarrow> do {
             let DstSize = (if pDstSize > SrcSize then SrcSize else pDstSize);
             bs \<leftarrow> BitStream_Attach (mppc_bs mppc) pDstData DstSize;
             let pSrcEnd = u32_pred SrcSize;
             (full, sc) \<leftarrow> mppc_compress_loop before level hbs pSrcData pSrcEnd DstSize
               \<lparr>sc_bs = bs, sc_hist = HistoryBuffer mppc, sc_match = MatchBuffer mppc, sc_high = HistoryPtr mppc, sc_ptr = off, sc_src = 0\<rparr>;
             (full, sc) \<leftarrow> (if full then Some (full, sc) else mppc_trailing_loop pSrcData pSrcEnd DstSize sc);
             (if full
              then Some (1, PACKET_FLUSHED OR word_of_nat level, take SrcSize pSrcData,
                mppc_context_reset (mppc\<lparr>mppc_bs := sc_bs sc\<rparr>) True)
              else do {
                bs \<leftarrow> BitStream_Flush (sc_bs sc);
                let flags = PACKET_COMPRESSED OR word_of_nat level;
                let flags = (if front then flags OR PACKET_AT_FRONT else flags);
                let flags = (if flushed then flags OR PACKET_FLUSHED else flags);
                Some (1, flags, take ((bs_position bs + 7) div 8) (bs_buffer bs),
                  mppc\<lparr>mppc_bs := bs, HistoryBuffer := sc_hist sc, MatchBuffer := sc_match sc, HistoryPtr := sc_ptr sc, HistoryOffset := sc_ptr sc\<rparr>) }) })"

end
