(* ===== verification/MppcCodes.thy ===== *)
theory MppcCodes
  imports Mppc
begin

text \<open>
  The prefix codes of the bulk compressor: what the compressor writes for a literal, an
  offset and a length is read as the same literal, offset and length by the decompressor.
\<close>

subsection \<open>The prefix codes\<close>

text \<open>A test of the top bits of the accumulator, as a division.\<close>

lemma and_high_nat: "a < 2 ^ 32 \<Longrightarrow> j \<le> 32 \<Longrightarrow> (a :: nat) AND ((2 ^ (32 - j) - 1) * 2 ^ j) = a div 2 ^ j * 2 ^ j"
proof -
  assume "a < 2 ^ 32" "j \<le> 32"
  have "a AND push_bit j (mask (32 - j)) = push_bit j (drop_bit j a)"
  proof (rule bit_eqI)
    fix n
    have "\<not> bit a n" if "32 \<le> n" using \<open>a < 2 ^ 32\<close> that
      by (metis bit_take_bit_iff leD take_bit_nat_eq_self)
    then have "bit a n \<longrightarrow> n < 32" by (cases "n < 32") auto
    then show "bit (a AND push_bit j (mask (32 - j))) n \<longleftrightarrow> bit (push_bit j (drop_bit j a)) n"
      using \<open>j \<le> 32\<close> by (auto simp: bit_and_iff bit_push_bit_iff bit_mask_iff bit_drop_bit_eq less_diff_iff)
  qed
  then show ?thesis by (simp add: push_bit_eq_mult drop_bit_eq_div mask_eq_exp_minus_1)
qed

lemma top_test:
  assumes "p = 2 ^ j" "unat m = (2 ^ (32 - j) - 1) * 2 ^ j" "unat c = c' * 2 ^ j" "j \<le> 32"
  shows "acc AND m = c \<longleftrightarrow> unat (acc :: u32) div p = c'"
proof -
  have "unat acc < 2 ^ LENGTH(32)" by (rule unsigned_less)
  then have "unat (acc AND m) = unat acc div 2 ^ j * 2 ^ j" using and_high_nat [OF _ assms(4)] assms(2) by (simp add: unsigned_and_eq)
  then show ?thesis unfolding word_unat_eq_iff assms(1,3) by simp
qed

lemma unat_and_mask: "unat m = 2 ^ k - 1 \<Longrightarrow> unat (w AND m) = unat w mod 2 ^ k"
  by (simp only: unsigned_and_eq flip: mask_eq_exp_minus_1 take_bit_eq_mask take_bit_eq_mod)

lemma unat_or_mask:
  assumes "unat m = 2 ^ k - 1" "unat c = d * 2 ^ k" "d * 2 ^ k + 2 ^ k \<le> 2 ^ 32"
  shows "unat (c OR (w AND m) :: u32) = d * 2 ^ k + unat w mod 2 ^ k"
proof -
  have "unat (c OR (w AND m)) = push_bit k d OR take_bit k (unat w)"
    using unat_and_mask [OF assms(1), of w] assms(2) by (simp add: unsigned_or_eq push_bit_eq_mult take_bit_eq_mod)
  also have "\<dots> = push_bit k d + take_bit k (unat w)"
    by (rule disjunctive_add_eq_or [symmetric]) (rule bit_eqI, auto simp: bit_simps)
  finally show ?thesis by (simp add: push_bit_eq_mult take_bit_eq_mod)
qed

lemma top_tests:
  fixes acc :: u32
  shows "acc AND 0x80000000 = 0 \<longleftrightarrow> unat acc div 2147483648 = 0"
    "acc AND 0xC0000000 = 0x80000000 \<longleftrightarrow> unat acc div 1073741824 = 2"
    "acc AND 0xE0000000 = 0xC0000000 \<longleftrightarrow> unat acc div 536870912 = 6"
    "acc AND 0xF0000000 = 0xE0000000 \<longleftrightarrow> unat acc div 268435456 = 14"
    "acc AND 0xF0000000 = 0xF0000000 \<longleftrightarrow> unat acc div 268435456 = 15"
    "acc AND 0xF8000000 = 0xF8000000 \<longleftrightarrow> unat acc div 134217728 = 31"
    "acc AND 0xF8000000 = 0xF0000000 \<longleftrightarrow> unat acc div 134217728 = 30"
    "acc AND 0xFC000000 = 0xF8000000 \<longleftrightarrow> unat acc div 67108864 = 62"
    "acc AND 0xFE000000 = 0xFC000000 \<longleftrightarrow> unat acc div 33554432 = 126"
    "acc AND 0xFF000000 = 0xFE000000 \<longleftrightarrow> unat acc div 16777216 = 254"
    "acc AND 0xFF800000 = 0xFF000000 \<longleftrightarrow> unat acc div 8388608 = 510"
    "acc AND 0xFFC00000 = 0xFF800000 \<longleftrightarrow> unat acc div 4194304 = 1022"
    "acc AND 0xFFE00000 = 0xFFC00000 \<longleftrightarrow> unat acc div 2097152 = 2046"
    "acc AND 0xFFF00000 = 0xFFE00000 \<longleftrightarrow> unat acc div 1048576 = 4094"
    "acc AND 0xFFF80000 = 0xFFF00000 \<longleftrightarrow> unat acc div 524288 = 8190"
    "acc AND 0xFFFC0000 = 0xFFF80000 \<longleftrightarrow> unat acc div 262144 = 16382"
    "acc AND 0xFFFE0000 = 0xFFFC0000 \<longleftrightarrow> unat acc div 131072 = 32766"
proof -
  show "acc AND 0x80000000 = 0 \<longleftrightarrow> unat acc div 2147483648 = 0" by (rule top_test [where j = 31]) simp_all
  show "acc AND 0xC0000000 = 0x80000000 \<longleftrightarrow> unat acc div 1073741824 = 2" by (rule top_test [where j = 30]) simp_all
  show "acc AND 0xE0000000 = 0xC0000000 \<longleftrightarrow> unat acc div 536870912 = 6" by (rule top_test [where j = 29]) simp_all
  show "acc AND 0xF0000000 = 0xE0000000 \<longleftrightarrow> unat acc div 268435456 = 14" by (rule top_test [where j = 28]) simp_all
  show "acc AND 0xF0000000 = 0xF0000000 \<longleftrightarrow> unat acc div 268435456 = 15" by (rule top_test [where j = 28]) simp_all
  show "acc AND 0xF8000000 = 0xF8000000 \<longleftrightarrow> unat acc div 134217728 = 31" by (rule top_test [where j = 27]) simp_all
  show "acc AND 0xF8000000 = 0xF0000000 \<longleftrightarrow> unat acc div 134217728 = 30" by (rule top_test [where j = 27]) simp_all
  show "acc AND 0xFC000000 = 0xF8000000 \<longleftrightarrow> unat acc div 67108864 = 62" by (rule top_test [where j = 26]) simp_all
  show "acc AND 0xFE000000 = 0xFC000000 \<longleftrightarrow> unat acc div 33554432 = 126" by (rule top_test [where j = 25]) simp_all
  show "acc AND 0xFF000000 = 0xFE000000 \<longleftrightarrow> unat acc div 16777216 = 254" by (rule top_test [where j = 24]) simp_all
  show "acc AND 0xFF800000 = 0xFF000000 \<longleftrightarrow> unat acc div 8388608 = 510" by (rule top_test [where j = 23]) simp_all
  show "acc AND 0xFFC00000 = 0xFF800000 \<longleftrightarrow> unat acc div 4194304 = 1022" by (rule top_test [where j = 22]) simp_all
  show "acc AND 0xFFE00000 = 0xFFC00000 \<longleftrightarrow> unat acc div 2097152 = 2046" by (rule top_test [where j = 21]) simp_all
  show "acc AND 0xFFF00000 = 0xFFE00000 \<longleftrightarrow> unat acc div 1048576 = 4094" by (rule top_test [where j = 20]) simp_all
  show "acc AND 0xFFF80000 = 0xFFF00000 \<longleftrightarrow> unat acc div 524288 = 8190" by (rule top_test [where j = 19]) simp_all
  show "acc AND 0xFFFC0000 = 0xFFF80000 \<longleftrightarrow> unat acc div 262144 = 16382" by (rule top_test [where j = 18]) simp_all
  show "acc AND 0xFFFE0000 = 0xFFFC0000 \<longleftrightarrow> unat acc div 131072 = 32766" by (rule top_test [where j = 17]) simp_all
qed


lemma unat_drop: "unat (drop_bit k (w :: u32)) = unat w div 2 ^ k"
  by (simp only: unat_drop_bit_eq) (simp only: drop_bit_eq_div)

lemma unat_byte_u32: "unat (ucast (b :: byte) :: u32) = unat b"
proof -
  have "unat b < 2 ^ LENGTH(8)" by (rule unsigned_less)
  then show ?thesis by (simp add: unsigned_ucast_eq take_bit_nat_eq_self)
qed

lemma unat_u32_byte: "unat (ucast (w :: u32) :: byte) = unat w mod 256"
  by (simp add: unsigned_ucast_eq take_bit_eq_mod)

text \<open>A code at the top of the accumulator.\<close>

definition top_code :: "u32 \<Rightarrow> code \<Rightarrow> bool" where
  "top_code acc c \<longleftrightarrow> drop_bit (32 - snd c) acc = fst c"

lemma top_code_div: "top_code acc (v, n) \<Longrightarrow> unat acc div 2 ^ (32 - n) = unat v"
  unfolding top_code_def fst_conv snd_conv using unat_drop [of "32 - n" acc] by simp

lemma literal_low_code:
  assumes "b < 0x80"
  shows "mppc_literal_code b = (ucast b, 8)" "code_ok (mppc_literal_code b)"
    "top_code acc (mppc_literal_code b) \<Longrightarrow> acc AND 0x80000000 = 0 \<and> ucast (drop_bit 24 (acc AND 0x7F000000)) = b"
proof -
  have b: "unat b < 128" using assms by (simp add: word_less_nat_alt)
  show c: "mppc_literal_code b = (ucast b, 8)" using assms by (simp add: mppc_literal_code_def)
  show "code_ok (mppc_literal_code b)" unfolding c using b by (simp add: unat_byte_u32)
  assume "top_code acc (mppc_literal_code b)"
  then have d: "unat acc div 16777216 = unat b" using top_code_div [of acc "ucast b" 8] c by (simp add: unat_byte_u32)
  have "unat (drop_bit 24 (acc AND 0x7F000000)) = unat acc div 16777216 mod 128"
    by (simp add: unat_and_mask [where k = 7] unat_drop)
  then have "unat (ucast (drop_bit 24 (acc AND 0x7F000000)) :: byte) = unat b"
    using d b by (simp add: unat_u32_byte)
  then have "ucast (drop_bit 24 (acc AND 0x7F000000)) = b" by (rule word_unat_eq_iff [THEN iffD2])
  moreover have "unat acc div 2147483648 = 0" using d b by linarith
  ultimately show "acc AND 0x80000000 = 0 \<and> ucast (drop_bit 24 (acc AND 0x7F000000)) = b" by (simp only: top_tests simp_thms)
qed


lemma literal_high_code:
  assumes "\<not> b < 0x80"
  shows "snd (mppc_literal_code b) = 9" "code_ok (mppc_literal_code b)"
    "top_code acc (mppc_literal_code b) \<Longrightarrow> acc AND 0x80000000 \<noteq> 0 \<and> acc AND 0xC0000000 = 0x80000000 \<and>
       ucast (drop_bit 23 (acc AND 0x3F800000) + 0x80) = b"
proof -
  have "unat b < 2 ^ LENGTH(8)" by (rule unsigned_less)
  then have b: "128 \<le> unat b" "unat b < 256" using assms by (simp_all add: word_less_nat_alt)
  then have m: "unat b mod 128 = unat b - 128" by (simp add: le_mod_geq)
  define v :: u32 where "v = 0x100 OR (ucast b AND 0x7F)"
  have v: "unat v = 256 + unat b mod 128" unfolding v_def by (simp add: unat_or_mask [where k = 7 and d = 2] unat_byte_u32)
  have c: "mppc_literal_code b = (v, 9)" using assms by (simp add: mppc_literal_code_def v_def)
  show "snd (mppc_literal_code b) = 9" using c by simp
  show "code_ok (mppc_literal_code b)" unfolding c using v by simp
  assume "top_code acc (mppc_literal_code b)"
  then have d: "unat acc div 8388608 = 256 + unat b mod 128" using top_code_div [of acc v 9] c v by simp
  have "unat (drop_bit 23 (acc AND 0x3F800000)) = unat acc div 8388608 mod 128"
    by (simp add: unat_and_mask [where k = 7] unat_drop)
  then have "unat (drop_bit 23 (acc AND 0x3F800000) + 0x80) = unat b"
    using d b unfolding m by (simp add: unat_word_ariths le_mod_geq)
  then have "unat (ucast (drop_bit 23 (acc AND 0x3F800000) + 0x80) :: byte) = unat b" using b by (simp add: unat_u32_byte)
  then have "ucast (drop_bit 23 (acc AND 0x3F800000) + 0x80) = b" by (rule word_unat_eq_iff [THEN iffD2])
  moreover have "unat acc div 2147483648 \<noteq> 0" "unat acc div 1073741824 = 2" using d b by linarith+
  ultimately show "acc AND 0x80000000 \<noteq> 0 \<and> acc AND 0xC0000000 = 0x80000000 \<and> ucast (drop_bit 23 (acc AND 0x3F800000) + 0x80) = b"
    by (simp only: top_tests simp_thms)
qed

text \<open>What a reader makes of the code of an offset.\<close>

definition reads_offset :: "nat \<Rightarrow> nat \<Rightarrow> code \<Rightarrow> bool" where
  "reads_offset level off c \<longleftrightarrow> code_ok c \<and> 10 \<le> snd c \<and> snd c < 20 \<and> (\<forall>acc. top_code acc c \<longrightarrow>
     acc AND 0x80000000 \<noteq> 0 \<and> acc AND 0xC0000000 \<noteq> 0x80000000 \<and> mppc_read_offset level acc = Inr (off, snd c))"

lemma unat_of_nat_diff:
  assumes "numeral m \<le> off" "off < 2 ^ 32"
  shows "unat (word_of_nat off - numeral m :: u32) = off - numeral m"
proof -
  have "word_of_nat off - numeral m = (word_of_nat (off - numeral m) :: u32)" by (simp add: of_nat_diff assms(1))
  then show ?thesis using unat_of_nat_u32 [of "off - numeral m"] assms(2) by simp
qed

lemma reads_offsetI:
  assumes "unat v = x" "10 \<le> n" "n < 20" "x < 2 ^ n"
    "\<And>acc. unat acc div 2 ^ (32 - n) = x \<Longrightarrow> unat acc div 2147483648 \<noteq> 0 \<and> unat acc div 1073741824 \<noteq> 2 \<and> mppc_read_offset level acc = Inr (off, n)"
  shows "reads_offset level off (v, n)"
  unfolding reads_offset_def using assms top_code_div [of _ v n] by (simp only: top_tests) simp

lemma read_offset_div:
  "mppc_read_offset level acc =
     (let A = unat acc in
      if level \<noteq> 0 then
        (if A div 134217728 = 31 then Inr (A div 2097152 mod 64, 11)
         else if A div 134217728 = 30 then Inr (A div 524288 mod 256 + 64, 13)
         else if A div 268435456 = 14 then Inr (A div 131072 mod 2048 + 320, 15)
         else if A div 536870912 = 6 then Inr (A div 8192 mod 65536 + 2368, 19)
         else Inl (-1001))
      else
        (if A div 268435456 = 15 then Inr (A div 4194304 mod 64, 10)
         else if A div 268435456 = 14 then Inr (A div 1048576 mod 256 + 64, 12)
         else if A div 536870912 = 6 then Inr (A div 65536 mod 8192 + 320, 16)
         else Inl (-1002)))"
  by (simp add: mppc_read_offset_def top_tests Let_def unat_drop unat_and_mask [where k = 6] unat_and_mask [where k = 8]
      unat_and_mask [where k = 11] unat_and_mask [where k = 13] unat_and_mask [where k = 16])


text \<open>One lemma per level; the remainders are below the moduli.\<close>

lemma offset_code_rdp5:
  assumes "off < 65536" "level \<noteq> 0"
  shows "\<exists>c. mppc_offset_code level off = Some c \<and> reads_offset level off c"
proof -
  consider "off < 64" | "64 \<le> off" "off < 320" | "320 \<le> off" "off < 2368" | "2368 \<le> off" by linarith
  then show ?thesis
  proof cases
    case 1
    have t: "unat acc div 2147483648 = 1" "unat acc div 1073741824 = 3" "unat acc div 134217728 = 31" if "unat acc div 2097152 = 1984 + off" for acc :: u32
      using that 1 by linarith+
    have m: "(1984 + off) mod 64 = off" using mod_mult_self3 [of 31 64 "off"] 1 by simp
    have "reads_offset level off (0x7C0 OR (word_of_nat off AND 0x3F), 11)"
      by (rule reads_offsetI [where x = "1984 + off"])
        (use 1 assms t m in \<open>simp_all add: unat_or_mask [where k = 6 and d = 31] unat_of_nat_u32 read_offset_div\<close>)
    then show ?thesis using 1 assms by (simp add: mppc_offset_code_def)
  next
    case 2
    have t: "unat acc div 2147483648 = 1" "unat acc div 1073741824 = 3" "unat acc div 134217728 = 30" if "unat acc div 524288 = 7680 + (off - 64)" for acc :: u32
      using that 2 by linarith+
    have m: "(7680 + (off - 64)) mod 256 = off - 64" using mod_mult_self3 [of 30 256 "off - 64"] 2 by simp
    have "reads_offset level off (0x1E00 OR ((word_of_nat off - 64) AND 0xFF), 13)"
      by (rule reads_offsetI [where x = "7680 + (off - 64)"])
        (use 2 assms t m in \<open>simp_all add: unat_or_mask [where k = 8 and d = 30] unat_of_nat_diff read_offset_div\<close>)
    then show ?thesis using 2 assms by (simp add: mppc_offset_code_def)
  next
    case 3
    have t: "unat acc div 2147483648 = 1" "unat acc div 1073741824 = 3" "unat acc div 268435456 = 14" "unat acc div 134217728 \<noteq> 31" "unat acc div 134217728 \<noteq> 30" if "unat acc div 131072 = 28672 + (off - 320)" for acc :: u32
      using that 3 by linarith+
    have m: "(28672 + (off - 320)) mod 2048 = off - 320" using mod_mult_self3 [of 14 2048 "off - 320"] 3 by simp
    have "reads_offset level off (0x7000 OR ((word_of_nat off - 320) AND 0x7FF), 15)"
      by (rule reads_offsetI [where x = "28672 + (off - 320)"])
        (use 3 assms t m in \<open>simp_all add: unat_or_mask [where k = 11 and d = 14] unat_of_nat_diff read_offset_div\<close>)
    then show ?thesis using 3 assms by (simp add: mppc_offset_code_def)
  next
    case 4
    have t: "unat acc div 2147483648 = 1" "unat acc div 1073741824 = 3" "unat acc div 536870912 = 6" "unat acc div 134217728 \<noteq> 31" "unat acc div 134217728 \<noteq> 30" "unat acc div 268435456 \<noteq> 14" if "unat acc div 8192 = 393216 + (off - 2368)" for acc :: u32
      using that 4 assms(1) by linarith+
    have m: "(393216 + (off - 2368)) mod 65536 = off - 2368" using mod_mult_self3 [of 6 65536 "off - 2368"] 4 assms(1) by simp
    have "reads_offset level off (0x60000 OR ((word_of_nat off - 2368) AND 0xFFFF), 19)"
      by (rule reads_offsetI [where x = "393216 + (off - 2368)"])
        (use 4 assms t m in \<open>simp_all add: unat_or_mask [where k = 16 and d = 6] unat_of_nat_diff read_offset_div\<close>)
    then show ?thesis using 4 assms by (simp add: mppc_offset_code_def)
  qed
qed

lemma offset_code_rdp4:
  assumes "off < 8192" "level = 0"
  shows "\<exists>c. mppc_offset_code level off = Some c \<and> reads_offset level off c"
proof -
  consider "off < 64" | "64 \<le> off" "off < 320" | "320 \<le> off" by linarith
  then show ?thesis
  proof cases
    case 1
    have t: "unat acc div 2147483648 = 1" "unat acc div 1073741824 = 3" "unat acc div 268435456 = 15" if "unat acc div 4194304 = 960 + off" for acc :: u32
      using that 1 by linarith+
    have m: "(960 + off) mod 64 = off" using mod_mult_self3 [of 15 64 "off"] 1 by simp
    have "reads_offset level off (0x3C0 OR (word_of_nat off AND 0x3F), 10)"
      by (rule reads_offsetI [where x = "960 + off"])
        (use 1 assms t m in \<open>simp_all add: unat_or_mask [where k = 6 and d = 15] unat_of_nat_u32 read_offset_div\<close>)
    then show ?thesis using 1 assms by (simp add: mppc_offset_code_def)
  next
    case 2
    have t: "unat acc div 2147483648 = 1" "unat acc div 1073741824 = 3" "unat acc div 268435456 = 14" if "unat acc div 1048576 = 3584 + (off - 64)" for acc :: u32
      using that 2 by linarith+
    have m: "(3584 + (off - 64)) mod 256 = off - 64" using mod_mult_self3 [of 14 256 "off - 64"] 2 by simp
    have "reads_offset level off (0xE00 OR ((word_of_nat off - 64) AND 0xFF), 12)"
      by (rule reads_offsetI [where x = "3584 + (off - 64)"])
        (use 2 assms t m in \<open>simp_all add: unat_or_mask [where k = 8 and d = 14] unat_of_nat_diff read_offset_div\<close>)
    then show ?thesis using 2 assms by (simp add: mppc_offset_code_def)
  next
    case 3
    have t: "unat acc div 2147483648 = 1" "unat acc div 1073741824 = 3" "unat acc div 536870912 = 6" "unat acc div 268435456 \<noteq> 15" "unat acc div 268435456 \<noteq> 14" if "unat acc div 65536 = 49152 + (off - 320)" for acc :: u32
      using that 3 assms(1) by linarith+
    have m: "(49152 + (off - 320)) mod 8192 = off - 320" using mod_mult_self3 [of 6 8192 "off - 320"] 3 assms(1) by simp
    have "reads_offset level off (0xC000 OR ((word_of_nat off - 320) AND 0x1FFF), 16)"
      by (rule reads_offsetI [where x = "49152 + (off - 320)"])
        (use 3 assms t m in \<open>simp_all add: unat_or_mask [where k = 13 and d = 6] unat_of_nat_diff read_offset_div\<close>)
    then show ?thesis using 3 assms by (simp add: mppc_offset_code_def)
  qed
qed

text \<open>The lengths: the code of a length between \<open>2 ^ k\<close> and \<open>2 ^ (k + 1)\<close> is \<open>k - 1\<close> ones, a zero and \<open>k\<close> bits.\<close>

definition reads_length :: "nat \<Rightarrow> nat \<Rightarrow> code \<Rightarrow> bool" where
  "reads_length level len c \<longleftrightarrow> code_ok c \<and> snd c \<le> 30 \<and> (\<forall>acc. top_code acc c \<longrightarrow> mppc_read_length level acc = Inr (len, snd c))"

lemma length_fields:
  fixes acc :: u32
  shows "unat (drop_bit 28 acc AND 0x3) = unat acc div 268435456 mod 4"
    "unat (drop_bit 26 acc AND 0x7) = unat acc div 67108864 mod 8"
    "unat (drop_bit 24 acc AND 0xF) = unat acc div 16777216 mod 16"
    "unat (drop_bit 22 acc AND 0x1F) = unat acc div 4194304 mod 32"
    "unat (drop_bit 20 acc AND 0x3F) = unat acc div 1048576 mod 64"
    "unat (drop_bit 18 acc AND 0x7F) = unat acc div 262144 mod 128"
    "unat (drop_bit 16 acc AND 0xFF) = unat acc div 65536 mod 256"
    "unat (drop_bit 14 acc AND 0x1FF) = unat acc div 16384 mod 512"
    "unat (drop_bit 12 acc AND 0x3FF) = unat acc div 4096 mod 1024"
    "unat (drop_bit 10 acc AND 0x7FF) = unat acc div 1024 mod 2048"
    "unat (drop_bit 8 acc AND 0xFFF) = unat acc div 256 mod 4096"
    "unat (drop_bit 6 acc AND 0x1FFF) = unat acc div 64 mod 8192"
    "unat (drop_bit 4 acc AND 0x3FFF) = unat acc div 16 mod 16384"
    "unat (drop_bit 2 acc AND 0x7FFF) = unat acc div 4 mod 32768"
proof -
  show "unat (drop_bit 28 acc AND 0x3) = unat acc div 268435456 mod 4" by (simp add: unat_and_mask [where k = 2] unat_drop)
  show "unat (drop_bit 26 acc AND 0x7) = unat acc div 67108864 mod 8" by (simp add: unat_and_mask [where k = 3] unat_drop)
  show "unat (drop_bit 24 acc AND 0xF) = unat acc div 16777216 mod 16" by (simp add: unat_and_mask [where k = 4] unat_drop)
  show "unat (drop_bit 22 acc AND 0x1F) = unat acc div 4194304 mod 32" by (simp add: unat_and_mask [where k = 5] unat_drop)
  show "unat (drop_bit 20 acc AND 0x3F) = unat acc div 1048576 mod 64" by (simp add: unat_and_mask [where k = 6] unat_drop)
  show "unat (drop_bit 18 acc AND 0x7F) = unat acc div 262144 mod 128" by (simp add: unat_and_mask [where k = 7] unat_drop)
  show "unat (drop_bit 16 acc AND 0xFF) = unat acc div 65536 mod 256" by (simp add: unat_and_mask [where k = 8] unat_drop)
  show "unat (drop_bit 14 acc AND 0x1FF) = unat acc div 16384 mod 512" by (simp add: unat_and_mask [where k = 9] unat_drop)
  show "unat (drop_bit 12 acc AND 0x3FF) = unat acc div 4096 mod 1024" by (simp add: unat_and_mask [where k = 10] unat_drop)
  show "unat (drop_bit 10 acc AND 0x7FF) = unat acc div 1024 mod 2048" by (simp add: unat_and_mask [where k = 11] unat_drop)
  show "unat (drop_bit 8 acc AND 0xFFF) = unat acc div 256 mod 4096" by (simp add: unat_and_mask [where k = 12] unat_drop)
  show "unat (drop_bit 6 acc AND 0x1FFF) = unat acc div 64 mod 8192" by (simp add: unat_and_mask [where k = 13] unat_drop)
  show "unat (drop_bit 4 acc AND 0x3FFF) = unat acc div 16 mod 16384" by (simp add: unat_and_mask [where k = 14] unat_drop)
  show "unat (drop_bit 2 acc AND 0x7FFF) = unat acc div 4 mod 32768" by (simp add: unat_and_mask [where k = 15] unat_drop)
qed

lemma read_length_div:
  "mppc_read_length level acc =
     (let A = unat acc in
      if A div 2147483648 = 0 then Inr (3, 1)
      else if A div 1073741824 = 2 then Inr (A div 268435456 mod 4 + 4, 4)
      else if A div 536870912 = 6 then Inr (A div 67108864 mod 8 + 8, 6)
      else if A div 268435456 = 14 then Inr (A div 16777216 mod 16 + 16, 8)
      else if A div 134217728 = 30 then Inr (A div 4194304 mod 32 + 32, 10)
      else if A div 67108864 = 62 then Inr (A div 1048576 mod 64 + 64, 12)
      else if A div 33554432 = 126 then Inr (A div 262144 mod 128 + 128, 14)
      else if A div 16777216 = 254 then Inr (A div 65536 mod 256 + 256, 16)
      else if A div 8388608 = 510 then Inr (A div 16384 mod 512 + 512, 18)
      else if A div 4194304 = 1022 then Inr (A div 4096 mod 1024 + 1024, 20)
      else if A div 2097152 = 2046 then Inr (A div 1024 mod 2048 + 2048, 22)
      else if A div 1048576 = 4094 then Inr (A div 256 mod 4096 + 4096, 24)
      else if A div 524288 = 8190 \<and> level \<noteq> 0 then Inr (A div 64 mod 8192 + 8192, 26)
      else if A div 262144 = 16382 \<and> level \<noteq> 0 then Inr (A div 16 mod 16384 + 16384, 28)
      else if A div 131072 = 32766 \<and> level \<noteq> 0 then Inr (A div 4 mod 32768 + 32768, 30)
      else Inl (-1003))"
  by (simp only: mppc_read_length_def top_tests Let_def length_fields)

lemma ones_zero_div:
  assumes "j < k"
  shows "(2 ^ k - 2) div 2 ^ (k - j) = (2 ^ j - 1 :: nat)"
proof -
  obtain i where k: "k = j + Suc i" using assms less_iff_Suc_add by auto
  have "(2 :: nat) ^ k = 2 ^ Suc i * 2 ^ j" unfolding k by (simp add: power_add)
  moreover have "(2 :: nat) ^ Suc i * 2 ^ j = 2 ^ Suc i * (2 ^ j - 1) + 2 ^ Suc i"
    by (simp add: diff_mult_distrib2)
  ultimately have "(2 :: nat) ^ k - 2 = 2 ^ Suc i * (2 ^ j - 1) + (2 ^ Suc i - 2)" by simp
  moreover have "(2 :: nat) ^ Suc i - 2 < 2 ^ Suc i" by simp
  moreover have "k - j = Suc i" using k by simp
  ultimately show ?thesis by (simp only: div_mult_self4 div_less add_0_right power_not_zero numeral_neq_zero not_False_eq_True)
qed

lemma length_tests:
  assumes A: "A div 2 ^ (32 - 2 * k) = 2 ^ k * (2 ^ k - 2) + x" and x: "x < (2 :: nat) ^ k" and k: "1 < k" "k \<le> 16"
  shows "list_all (\<lambda>j. A div 2 ^ (32 - j) = 2 ^ j - 1) [2..<k]" "A div 2 ^ 31 = 1" "A div 2 ^ (32 - k) = 2 ^ k - 2" "A div 2 ^ (32 - 2 * k) mod 2 ^ k = x"
proof -
  have d: "A div 2 ^ (32 - 2 * k + i) = (2 ^ k * (2 ^ k - 2) + x) div 2 ^ i" for i
    unfolding A [symmetric] by (simp only: power_add div_mult2_eq)
  have e: "32 - k = 32 - 2 * k + k" using k by simp
  have "A div 2 ^ (32 - k) = (2 ^ k * (2 ^ k - 2) + x) div 2 ^ k" unfolding e by (rule d)
  also have "\<dots> = 2 ^ k - 2" using x by (simp only: div_mult_self4 power_not_zero numeral_neq_zero not_False_eq_True div_less add_0_right)
  finally show kk: "A div 2 ^ (32 - k) = 2 ^ k - 2" .
  have "A div 2 ^ (32 - j) = 2 ^ j - 1" if "j < k" for j
  proof -
    have "32 - j = (32 - k) + (k - j)" using that k by simp
    then have "A div 2 ^ (32 - j) = A div 2 ^ (32 - k) div 2 ^ (k - j)" by (simp only: power_add div_mult2_eq)
    then show ?thesis unfolding kk ones_zero_div [OF that] .
  qed
  from this [OF k(1)] this show "list_all (\<lambda>j. A div 2 ^ (32 - j) = 2 ^ j - 1) [2..<k]" "A div 2 ^ 31 = 1" by (simp_all add: list_all_iff)
  show "A div 2 ^ (32 - 2 * k) mod 2 ^ k = x" unfolding A mod_mult_self4 using x by (rule mod_less)
qed

lemma length_branch:
  assumes "2 \<le> k" "k \<le> 15" "n = 2 * k" "2 ^ k \<le> len" "len < 2 ^ (k + 1)" "unat (p :: u32) = (2 ^ k - 2) * 2 ^ k" "unat m = 2 ^ k - 1"
    "\<And>acc. list_all (\<lambda>j. unat acc div 2 ^ (32 - j) = 2 ^ j - 1) [2..<k] \<Longrightarrow> unat acc div 2 ^ 31 = 1 \<Longrightarrow> unat acc div 2 ^ (32 - k) = 2 ^ k - 2 \<Longrightarrow>
       mppc_read_length level acc = Inr (unat acc div 2 ^ (32 - 2 * k) mod 2 ^ k + 2 ^ k, n)"
  shows "reads_length level len (p OR (word_of_nat len AND m), n)"
proof -
  let ?v = "p OR (word_of_nat len AND m)" and ?x = "len - 2 ^ k"
  have x: "?x < 2 ^ k" "len = 2 ^ k + ?x" using assms(4,5) by simp_all
  have two: "(2 :: nat) \<le> 2 ^ k" using power_increasing [of 1 k "2 :: nat"] assms(1) by simp
  have "(2 :: nat) ^ (k + 1) \<le> 2 ^ 16" using assms(2) by (intro power_increasing) auto
  then have len: "len < 2 ^ 32" using assms(5) by simp
  have kk: "(2 :: nat) ^ k * 2 ^ k = 2 ^ n" unfolding assms(3) by (simp add: mult_2 power_add)
  have n30: "(2 :: nat) ^ n \<le> 2 ^ 30" using assms(2,3) by (intro power_increasing) auto
  have sum: "(2 ^ k - 2) * 2 ^ k + 2 ^ k \<le> (2 :: nat) ^ n" unfolding kk [symmetric] diff_mult_distrib using two mult_le_mono1 [OF two, of "2 ^ k"] by simp
  have "unat ?v = (2 ^ k - 2) * 2 ^ k + unat (word_of_nat len :: u32) mod 2 ^ k"
    by (rule unat_or_mask [OF assms(7,6)]) (rule order_trans [OF sum], rule order_trans [OF n30], simp)
  also have "unat (word_of_nat len :: u32) mod 2 ^ k = ?x"
    unfolding unat_of_nat_u32 [OF len] using x assms(4) by (simp add: le_mod_geq)
  finally have v: "unat ?v = 2 ^ k * (2 ^ k - 2) + ?x" by (simp add: mult.commute)
  then have "code_ok (?v, n)" using assms(1-3) x(1) sum by (simp add: mult.commute)
  moreover have "mppc_read_length level acc = Inr (len, n)" if "top_code acc (?v, n)" for acc
  proof -
    have d: "unat acc div 2 ^ (32 - 2 * k) = 2 ^ k * (2 ^ k - 2) + ?x" using top_code_div [OF that] v assms(3) by simp
    have "1 < k" "k \<le> 16" using assms(1,2) by simp_all
    note t = length_tests [OF d x(1) this]
    show ?thesis using assms(8) [OF t(1,2,3)] t(4) x(2) by simp
  qed
  ultimately show ?thesis using assms(2,3) by (simp add: reads_length_def)
qed

lemma length_code_small:
  assumes "3 \<le> len" "len < 256"
  shows "\<exists>c. mppc_length_code level len = Some c \<and> reads_length level len c"
proof -
  consider "len = 3" | "4 \<le> len" "len < 8" | "8 \<le> len" "len < 16" | "16 \<le> len" "len < 32" | "32 \<le> len" "len < 64" | "64 \<le> len" "len < 128" | "128 \<le> len" "len < 256" using assms by linarith
  then show ?thesis
  proof cases
    case 1
    have "reads_length level 3 (0, 1)" unfolding reads_length_def using top_code_div [of _ 0 1] by (simp add: read_length_div)
    with 1 show ?thesis by (simp add: mppc_length_code_def)
  next
    case 2
    have "reads_length level len (0x8 OR (word_of_nat len AND 0x3), 4)"
      by (rule length_branch [where k = 2]) (use 2 in \<open>simp_all add: read_length_div upt_rec_numeral\<close>)
    with 2 show ?thesis by (simp add: mppc_length_code_def)
  next
    case 3
    have "reads_length level len (0x30 OR (word_of_nat len AND 0x7), 6)"
      by (rule length_branch [where k = 3]) (use 3 in \<open>simp_all add: read_length_div upt_rec_numeral\<close>)
    with 3 show ?thesis by (simp add: mppc_length_code_def)
  next
    case 4
    have "reads_length level len (0xE0 OR (word_of_nat len AND 0xF), 8)"
      by (rule length_branch [where k = 4]) (use 4 in \<open>simp_all add: read_length_div upt_rec_numeral\<close>)
    with 4 show ?thesis by (simp add: mppc_length_code_def)
  next
    case 5
    have "reads_length level len (0x3C0 OR (word_of_nat len AND 0x1F), 10)"
      by (rule length_branch [where k = 5]) (use 5 in \<open>simp_all add: read_length_div upt_rec_numeral\<close>)
    with 5 show ?thesis by (simp add: mppc_length_code_def)
  next
    case 6
    have "reads_length level len (0xF80 OR (word_of_nat len AND 0x3F), 12)"
      by (rule length_branch [where k = 6]) (use 6 in \<open>simp_all add: read_length_div upt_rec_numeral\<close>)
    with 6 show ?thesis by (simp add: mppc_length_code_def)
  next
    case 7
    have "reads_length level len (0x3F00 OR (word_of_nat len AND 0x7F), 14)"
      by (rule length_branch [where k = 7]) (use 7 in \<open>simp_all add: read_length_div upt_rec_numeral\<close>)
    with 7 show ?thesis by (simp add: mppc_length_code_def)
  qed
qed

lemma length_code_medium:
  assumes "256 \<le> len" "len < 8192"
  shows "\<exists>c. mppc_length_code level len = Some c \<and> reads_length level len c"
proof -
  consider "256 \<le> len" "len < 512" | "512 \<le> len" "len < 1024" | "1024 \<le> len" "len < 2048" | "2048 \<le> len" "len < 4096" | "4096 \<le> len" "len < 8192" using assms by linarith
  then show ?thesis
  proof cases
    case 1
    have "reads_length level len (0xFE00 OR (word_of_nat len AND 0xFF), 16)"
      by (rule length_branch [where k = 8]) (use 1 in \<open>simp_all add: read_length_div upt_rec_numeral\<close>)
    with 1 show ?thesis by (simp add: mppc_length_code_def)
  next
    case 2
    have "reads_length level len (0x3FC00 OR (word_of_nat len AND 0x1FF), 18)"
      by (rule length_branch [where k = 9]) (use 2 in \<open>simp_all add: read_length_div upt_rec_numeral\<close>)
    with 2 show ?thesis by (simp add: mppc_length_code_def)
  next
    case 3
    have "reads_length level len (0xFF800 OR (word_of_nat len AND 0x3FF), 20)"
      by (rule length_branch [where k = 10]) (use 3 in \<open>simp_all add: read_length_div upt_rec_numeral\<close>)
    with 3 show ?thesis by (simp add: mppc_length_code_def)
  next
    case 4
    have "reads_length level len (0x3FF000 OR (word_of_nat len AND 0x7FF), 22)"
      by (rule length_branch [where k = 11]) (use 4 in \<open>simp_all add: read_length_div upt_rec_numeral\<close>)
    with 4 show ?thesis by (simp add: mppc_length_code_def)
  next
    case 5
    have "reads_length level len (0xFFE000 OR (word_of_nat len AND 0xFFF), 24)"
      by (rule length_branch [where k = 12]) (use 5 in \<open>simp_all add: read_length_div upt_rec_numeral\<close>)
    with 5 show ?thesis by (simp add: mppc_length_code_def)
  qed
qed

lemma length_code_large:
  assumes "8192 \<le> len" "len < 65536" "level \<noteq> 0"
  shows "\<exists>c. mppc_length_code level len = Some c \<and> reads_length level len c"
proof -
  consider "8192 \<le> len" "len < 16384" | "16384 \<le> len" "len < 32768" | "32768 \<le> len" "len < 65536" using assms by linarith
  then show ?thesis
  proof cases
    case 1
    have "reads_length level len (0x3FFC000 OR (word_of_nat len AND 0x1FFF), 26)"
      by (rule length_branch [where k = 13]) (use 1 assms in \<open>simp_all add: read_length_div upt_rec_numeral\<close>)
    with 1 assms show ?thesis by (simp add: mppc_length_code_def)
  next
    case 2
    have "reads_length level len (0xFFF8000 OR (word_of_nat len AND 0x3FFF), 28)"
      by (rule length_branch [where k = 14]) (use 2 assms in \<open>simp_all add: read_length_div upt_rec_numeral\<close>)
    with 2 assms show ?thesis by (simp add: mppc_length_code_def)
  next
    case 3
    have "reads_length level len (0x3FFF0000 OR (word_of_nat len AND 0x7FFF), 30)"
      by (rule length_branch [where k = 15]) (use 3 assms in \<open>simp_all add: read_length_div upt_rec_numeral\<close>)
    with 3 assms show ?thesis by (simp add: mppc_length_code_def)
  qed
qed

lemmas length_code_reads = length_code_small length_code_medium length_code_large

end
