(* ===== verification/MppcProps.thy ===== *)
theory MppcProps
  imports MppcCodes
begin

text \<open>
  The bulk compressor and decompressor agree: a packet is a list of symbols whose codes the
  compressor writes; executing the symbols on the history gives the bytes of the packet, and
  the decompressor executes exactly the symbols written. The two histories stay equal from
  packet to packet.
\<close>

subsection \<open>Symbols\<close>

datatype mppc_sym = Lit byte | Copy nat nat

definition level_size :: "nat \<Rightarrow> nat \<Rightarrow> bool" where
  "level_size level hbs \<longleftrightarrow> (if level = 0 then hbs = 8192 else hbs = 65536)"

fun sym_codes :: "nat \<Rightarrow> mppc_sym \<Rightarrow> code list" where
  "sym_codes level (Lit b) = [mppc_literal_code b]"
| "sym_codes level (Copy off len) = [the (mppc_offset_code level off), the (mppc_length_code level len)]"

fun sym_ok :: "nat \<Rightarrow> mppc_sym \<Rightarrow> bool" where
  "sym_ok hbs (Lit b) = True"
| "sym_ok hbs (Copy off len) = (off < hbs \<and> 3 \<le> len \<and> len < hbs)"

fun sym_len :: "mppc_sym \<Rightarrow> nat" where
  "sym_len (Lit b) = 1" | "sym_len (Copy off len) = len"

fun sym_exec :: "nat \<Rightarrow> mppc_sym \<Rightarrow> byte list \<times> nat \<Rightarrow> (byte list \<times> nat) option" where
  "sym_exec hbs (Lit b) (hist, ptr) = map_option (\<lambda>h. (h, ptr + 1)) (mem_write hist ptr [b])"
| "sym_exec hbs (Copy off len) (hist, ptr) = map_option (\<lambda>h. (h, ptr + len)) (mppc_copy hist ptr (nat ((int ptr - int off) mod int hbs)) len)"

fun syms_exec :: "nat \<Rightarrow> mppc_sym list \<Rightarrow> byte list \<times> nat \<Rightarrow> (byte list \<times> nat) option" where
  "syms_exec hbs [] st = Some st"
| "syms_exec hbs (s # ss) st = do { st \<leftarrow> sym_exec hbs s st; syms_exec hbs ss st }"

definition syms_bits :: "nat \<Rightarrow> mppc_sym list \<Rightarrow> bool list" where
  "syms_bits level ss = code_bits (concat (map (sym_codes level) ss))"

lemma syms_exec_append: "syms_exec hbs (as @ bs) st = do { st \<leftarrow> syms_exec hbs as st; syms_exec hbs bs st }"
  by (induction as arbitrary: st) (auto split: Option.bind_splits)

lemma sym_exec_ptr: "sym_exec hbs s (hist, ptr) = Some (hist', ptr') \<Longrightarrow> ptr' = ptr + sym_len s"
  by (cases s) auto

lemma syms_bits_simps [simp]:
  "syms_bits level [] = []" "syms_bits level (s # ss) = code_bits (sym_codes level s) @ syms_bits level ss"
  "syms_bits level (as @ bs) = syms_bits level as @ syms_bits level bs"
  by (simp_all add: syms_bits_def)

text \<open>The codes of a symbol can be written, and are read as the symbol.\<close>

lemma copy_codes:
  assumes "level_size level hbs" "sym_ok hbs (Copy off len)"
  obtains c1 c2 where "mppc_offset_code level off = Some c1" "reads_offset level off c1"
    "mppc_length_code level len = Some c2" "reads_length level len c2" "sym_codes level (Copy off len) = [c1, c2]"
proof -
  have o: "\<exists>c. mppc_offset_code level off = Some c \<and> reads_offset level off c"
    using assms offset_code_rdp5 [of off level] offset_code_rdp4 [of off level] by (auto simp: level_size_def split: if_splits)
  have l: "\<exists>c. mppc_length_code level len = Some c \<and> reads_length level len c"
    using assms length_code_reads [of len level] by (cases "len < 256"; cases "len < 8192") (auto simp: level_size_def split: if_splits)
  from o l that show ?thesis by auto
qed

lemma code_ok_literal: "code_ok (mppc_literal_code b)" "8 \<le> snd (mppc_literal_code b)" "snd (mppc_literal_code b) \<le> 9"
  using literal_low_code(1,2) [of b] literal_high_code(1,2) [of b] by (cases "b < 0x80"; simp)+

lemma length_code_bits1: "length (code_bits [c]) = snd c"
  by (cases c) simp

lemma sym_codes_ok:
  assumes "level_size level hbs" "sym_ok hbs s"
  shows "\<forall>c\<in>set (sym_codes level s). code_ok c" "8 \<le> length (code_bits (sym_codes level s))" "length (code_bits (sym_codes level s)) \<le> 49"
proof -
  have "(\<forall>c\<in>set (sym_codes level s). code_ok c) \<and> 8 \<le> length (code_bits (sym_codes level s)) \<and> length (code_bits (sym_codes level s)) \<le> 49"
  proof (cases s)
    case (Lit b)
    then show ?thesis using code_ok_literal [of b] by (simp add: length_code_bits1)
  next
    case (Copy off len)
    from assms(2) Copy have "sym_ok hbs (Copy off len)" by simp
    from copy_codes [OF assms(1) this] obtain c1 c2 where c: "reads_offset level off c1" "reads_length level len c2" "sym_codes level s = [c1, c2]"
      using Copy by metis
    then have "length (code_bits [c1, c2]) = snd c1 + snd c2" by (cases c1; cases c2) simp
    then show ?thesis using c by (auto simp: reads_offset_def reads_length_def)
  qed
  then show "\<forall>c\<in>set (sym_codes level s). code_ok c" "8 \<le> length (code_bits (sym_codes level s))" "length (code_bits (sym_codes level s)) \<le> 49" by blast+
qed

subsection \<open>The decompressor executes the symbols of a stream\<close>

definition next_bits :: "wBitStream \<Rightarrow> bool list \<Rightarrow> bool" where
  "next_bits bs ws \<longleftrightarrow> (\<forall>k < length ws. bs_bit bs (bs_position bs + k) = ws ! k)"

lemma next_bits_append: "next_bits bs (as @ cs) \<longleftrightarrow> next_bits bs as \<and> (\<forall>k < length cs. bs_bit bs (bs_position bs + length as + k) = cs ! k)"
proof -
  have "(\<forall>k < length (as @ cs). P k) \<longleftrightarrow> (\<forall>k < length as. P k) \<and> (\<forall>k < length cs. P (length as + k))" for P
    by (auto simp: not_less) (metis add_less_cancel_left le_add_diff_inverse not_less)
  from this [of "\<lambda>k. bs_bit bs (bs_position bs + k) = (as @ cs) ! k"]
  show ?thesis by (simp add: next_bits_def nth_append add.assoc)
qed

lemma read_code:
  assumes "reading bs" "code_ok c" "next_bits bs (code_bits [c] @ ws)"
  shows "top_code (bs_accumulator bs) c" "\<exists>bs'. BitStream_Shift bs (snd c) = Some bs' \<and> reading bs' \<and>
    bs_position bs' = bs_position bs + snd c \<and> same_stream bs bs' \<and> next_bits bs' ws"
proof -
  obtain v n where c: "c = (v, n)" by (cases c)
  have n: "0 < n" "n < 32" "unat v < 2 ^ n" using assms(2) c by auto
  have b: "next_bits bs (bits_n n v)" "\<forall>k < length ws. bs_bit bs (bs_position bs + n + k) = ws ! k"
    using assms(3) c by (simp_all add: next_bits_append)
  show "top_code (bs_accumulator bs) c" unfolding c top_code_def fst_conv snd_conv
    by (rule reading_top [OF assms(1) _ n(3)]) (use n b(1) in \<open>simp_all add: next_bits_def\<close>)
  from Shift_reads [OF assms(1) n(1,2)] obtain bs' where "BitStream_Shift bs n = Some bs'" "reading bs'" "bs_position bs' = bs_position bs + n"
    "same_stream bs bs'" by blast
  with b(2) show "\<exists>bs'. BitStream_Shift bs (snd c) = Some bs' \<and> reading bs' \<and> bs_position bs' = bs_position bs + snd c \<and> same_stream bs bs' \<and> next_bits bs' ws"
    using same_stream_bit [of bs bs'] c by (simp add: next_bits_def)
qed

lemma and_history_mask:
  assumes "level_size level hbs"
  shows "x AND (if level \<noteq> 0 then 0xFFFF else 0x1FFF) = x mod int hbs" "(int hbs - 1) AND x = x mod int hbs"
proof -
  have "x AND (2 ^ n - 1) = x mod 2 ^ n" for n
    by (simp only: take_bit_eq_mod [symmetric] take_bit_eq_mask mask_eq_exp_minus_1)
  from this [of 16] this [of 13] have "x AND 0xFFFF = x mod 65536" "x AND 0x1FFF = x mod 8192" by simp_all
  then show "x AND (if level \<noteq> 0 then 0xFFFF else 0x1FFF) = x mod int hbs" "(int hbs - 1) AND x = x mod int hbs"
    using assms by (auto simp: level_size_def and.commute split: if_splits)
qed

lemma decompress_step_sym:
  assumes rd: "reading bs" and lv: "level_size level hbs" and s: "sym_ok hbs s" and fit: "ptr + sym_len s \<le> hbs"
    and bits: "next_bits bs (code_bits (sym_codes level s) @ ws)" and ex: "sym_exec hbs s (hist, ptr) = Some (hist', ptr')"
  shows "\<exists>bs'. mppc_decompress_step level hbs (bs, hist, ptr) = Some (None, bs', hist', ptr') \<and> reading bs' \<and>
    bs_position bs' = bs_position bs + length (code_bits (sym_codes level s)) \<and> same_stream bs bs' \<and> next_bits bs' ws"
proof (cases s)
  case (Lit b)
  let ?c = "mppc_literal_code b"
  have bits': "next_bits bs (code_bits [?c] @ ws)" using bits Lit by simp
  note r = read_code [OF rd code_ok_literal(1) bits']
  from r(2) obtain bs' where bs': "BitStream_Shift bs (snd ?c) = Some bs'" "reading bs'" "bs_position bs' = bs_position bs + snd ?c"
    "same_stream bs bs'" "next_bits bs' ws" by blast
  have w: "mem_write hist ptr [b] = Some hist'" "ptr' = ptr + 1" and p: "\<not> ptr > hbs - 1" using ex Lit fit by auto
  have "mppc_decompress_step level hbs (bs, hist, ptr) = Some (None, bs', hist', ptr')"
  proof (cases "b < 0x80")
    case True
    note l = literal_low_code [OF True]
    show ?thesis using l(3) [OF r(1)] bs'(1) w p unfolding l(1) by (simp add: mppc_decompress_step_def Let_def)
  next
    case False
    note l = literal_high_code [OF False]
    show ?thesis using l(3) [OF r(1)] bs'(1) w p unfolding l(1) by (simp add: mppc_decompress_step_def Let_def)
  qed
  then show ?thesis using bs' Lit by (simp add: length_code_bits1)
next
  case (Copy off len)
  from s Copy have "sym_ok hbs (Copy off len)" by simp
  from copy_codes [OF lv this] obtain c1 c2 where c: "reads_offset level off c1" "reads_length level len c2" "sym_codes level s = [c1, c2]"
    using Copy by metis
  have "code_bits [c1, c2] = code_bits [c1] @ code_bits [c2]" by (cases c1; cases c2) simp
  then have bits': "next_bits bs (code_bits [c1] @ code_bits [c2] @ ws)" using bits c(3) by simp
  have ok: "code_ok c1" "code_ok c2" using c by (simp_all add: reads_offset_def reads_length_def)
  note r1 = read_code [OF rd ok(1) bits']
  from r1(2) obtain bs1 where bs1: "BitStream_Shift bs (snd c1) = Some bs1" "reading bs1" "bs_position bs1 = bs_position bs + snd c1"
    "same_stream bs bs1" "next_bits bs1 (code_bits [c2] @ ws)" by blast
  note r2 = read_code [OF bs1(2) ok(2) bs1(5)]
  from r2(2) obtain bs' where bs': "BitStream_Shift bs1 (snd c2) = Some bs'" "reading bs'" "bs_position bs' = bs_position bs1 + snd c2"
    "same_stream bs1 bs'" "next_bits bs' ws" by blast
  have o: "bs_accumulator bs AND 0x80000000 \<noteq> 0" "bs_accumulator bs AND 0xC0000000 \<noteq> 0x80000000"
    "mppc_read_offset level (bs_accumulator bs) = Inr (off, snd c1)" using c(1) r1(1) by (simp_all add: reads_offset_def)
  have l: "mppc_read_length level (bs_accumulator bs1) = Inr (len, snd c2)" using c(2) r2(1) by (simp add: reads_length_def)
  have len: "3 \<le> len" using s Copy by simp
  have w: "mppc_copy hist ptr (nat ((int ptr - int off) AND (if level \<noteq> 0 then 0xFFFF else 0x1FFF))) len = Some hist'" "ptr' = ptr + len"
    using ex Copy and_history_mask(1) [OF lv, of "int ptr - int off"] by auto
  have p: "\<not> ptr > hbs - 1" "\<not> ptr + len - 1 > hbs - 1" using fit Copy len by auto
  have "mppc_decompress_step level hbs (bs, hist, ptr) = Some (None, bs', hist', ptr')"
    using o l w p bs1(1) bs'(1) by (simp add: mppc_decompress_step_def Let_def)
  moreover have "length (code_bits [c1, c2]) = snd c1 + snd c2" by (cases c1; cases c2) simp
  ultimately show ?thesis using bs' bs1 c(3) by (simp add: same_stream_def)
qed


lemma decompress_loop_syms:
  "reading bs \<Longrightarrow> level_size level hbs \<Longrightarrow> \<forall>s\<in>set ss. sym_ok hbs s \<Longrightarrow> ptr + sum_list (map sym_len ss) \<le> hbs \<Longrightarrow>
     next_bits bs (syms_bits level ss) \<Longrightarrow> bs_position bs + length (syms_bits level ss) \<le> bs_length bs \<Longrightarrow>
     bs_length bs < bs_position bs + length (syms_bits level ss) + 8 \<Longrightarrow> syms_exec hbs ss (hist, ptr) = Some (hist', ptr') \<Longrightarrow>
     \<exists>bs'. mppc_decompress_loop level hbs (bs, hist, ptr) = Some (None, bs', hist', ptr')"
proof (induction ss arbitrary: bs hist ptr)
  case Nil
  then show ?case by (simp add: mppc_decompress_loop.simps BitStream_GetRemainingLength_def)
next
  case (Cons s ss)
  have s: "sym_ok hbs s" "ptr + sym_len s \<le> hbs" using Cons.prems(3,4) by simp_all
  obtain hist1 ptr1 where e: "sym_exec hbs s (hist, ptr) = Some (hist1, ptr1)" "syms_exec hbs ss (hist1, ptr1) = Some (hist', ptr')"
    using Cons.prems(8) by (auto simp: bind_eq_Some_conv)
  have p1: "ptr1 = ptr + sym_len s" using sym_exec_ptr [OF e(1)] .
  have "next_bits bs (code_bits (sym_codes level s) @ syms_bits level ss)" using Cons.prems(5) by simp
  from decompress_step_sym [OF Cons.prems(1,2) s this e(1)] obtain bs1 where
    1: "mppc_decompress_step level hbs (bs, hist, ptr) = Some (None, bs1, hist1, ptr1)" "reading bs1"
      "bs_position bs1 = bs_position bs + length (code_bits (sym_codes level s))" "same_stream bs bs1" "next_bits bs1 (syms_bits level ss)" by blast
  have l: "bs_length bs1 = bs_length bs" using 1(4) by (simp add: same_stream_def)
  have "\<exists>bs'. mppc_decompress_loop level hbs (bs1, hist1, ptr1) = Some (None, bs', hist', ptr')"
    by (rule Cons.IH [OF 1(2) Cons.prems(2) _ _ 1(5) _ _ e(2)]) (use Cons.prems(3,4,6,7) 1(3) l p1 in simp_all)
  moreover have "BitStream_GetRemainingLength bs \<ge> 8"
    using Cons.prems(6) sym_codes_ok(2) [OF Cons.prems(2) s(1)] by (simp add: BitStream_GetRemainingLength_def)
  ultimately show ?case using 1(1) by (simp add: mppc_decompress_loop.simps [of _ _ bs])
qed

subsection \<open>The copies that the compressor finds\<close>

lemma mem_get_eq [simp]: "i < length xs \<Longrightarrow> mem_get xs i = Some (xs ! i)"
  by (simp add: mem_get_def)

lemma mppc_copy_snoc:
  "mppc_copy h d s n = Some h' \<Longrightarrow> s + n < length h \<Longrightarrow> d + n < length h \<Longrightarrow> mppc_copy h d s (Suc n) = Some (h'[d + n := h' ! (s + n)])"
proof (induction n arbitrary: h d s)
  case (Suc n)
  show ?case
  proof (cases "n = 0")
    case True
    then show ?thesis using Suc.prems by auto
  next
    case False
    have "s < length h" "d < length h" using Suc.prems by auto
    then have "mppc_copy (h[d := h ! s]) (d + 1) (s + 1) n = Some h'" using Suc.prems(1) False by simp
    from Suc.IH [OF this] show ?thesis using Suc.prems \<open>s < length h\<close> \<open>d < length h\<close>
      by (subst mppc_copy.simps(2)) simp
  qed
qed simp

lemma length_mppc_copy: "mppc_copy h d s n = Some h' \<Longrightarrow> length h' = length h"
  by (induction h d s n rule: mppc_copy.induct) (auto simp: bind_eq_Some_conv split: if_splits dest: length_mem_write)

text \<open>The first three bytes of a match, as \<open>mppc_compress\<close> compares them.\<close>

lemma mppc_copy_three:
  assumes "d + 2 < length h" "s + 2 < length h" "s \<noteq> d" "s + 1 \<noteq> d"
    "h[d := a] ! s = a" "h[d := a] ! (s + 1) = b" "h[d := a] ! (s + 2) = c"
  shows "mppc_copy h d s 3 = Some (h[d := a, d + 1 := b, d + 2 := c])"
proof -
  have "h ! s = a" using assms(3,5) by simp
  moreover have "h[d := a, d + 1 := b] ! (s + 2) = c" using assms(4,7) by (cases "s + 1 = d") auto
  ultimately show ?thesis using assms by (simp add: numeral_3_eq_3)
qed

text \<open>\<open>k\<close> bytes of the source are in the history from \<open>off\<close> on.\<close>

definition hist_holds :: "byte list \<Rightarrow> nat \<Rightarrow> nat \<Rightarrow> byte list \<Rightarrow> bool" where
  "hist_holds hist off k src \<longleftrightarrow> take k (drop off hist) = take k src"

lemma hist_holds_next:
  assumes "hist_holds hist off k src" "k < length src" "off + k < length hist" "p = off + k"
  shows "hist_holds (hist[p := src ! k]) off (Suc k) src"
proof -
  have "drop off (hist[off + k := src ! k]) = (drop off hist)[k := src ! k]" by (simp add: drop_update_swap)
  then show ?thesis using assms by (simp add: hist_holds_def take_Suc_conv_app_nth take_update_cancel)
qed

text \<open>The history stays as it is from \<open>hbs\<close> on.\<close>

lemma mppc_extend_cases:
  assumes "mppc_copy h d s len = Some hist" "MatchPtr = s + len" "ptr = d + len" "ptr = off + src" "hist_holds hist off src pSrc"
    "src < length pSrc" "off + length pSrc < hbs" "hbs \<le> length h"
    "MatchPtr \<le> high + 1 \<and> high + 3 < hbs \<or> MatchPtr < ptr"
  shows "\<exists>n hist'. mppc_extend pSrc (length pSrc - 1) high hist MatchPtr ptr src len = Some (hist', ptr + n, src + n, len + n) \<and>
    mppc_copy h d s (len + n) = Some hist' \<and> hist_holds hist' off (src + n) pSrc \<and> src + n < length pSrc \<and> length hist' = length hist \<and>
    drop hbs hist' = drop hbs hist"
  using assms
proof (induction "length pSrc - src" arbitrary: hist MatchPtr ptr src len)
  case (Suc k)
  have lh: "length hist = length h" using length_mppc_copy [OF Suc.prems(1)] .
  have p: "ptr < hbs" "MatchPtr < hbs" using Suc.prems(4,6-9) by auto
  have m: "mem_get pSrc src = Some (pSrc ! src)" "mem_get hist MatchPtr = Some (hist ! MatchPtr)" using Suc.prems(6,8) p(2) lh by simp_all
  show ?case
  proof (cases "pSrc ! src = hist ! MatchPtr \<and> src < length pSrc - 1 \<and> MatchPtr \<le> high")
    case False
    then have "mppc_extend pSrc (length pSrc - 1) high hist MatchPtr ptr src len = Some (hist, ptr, src, len)"
      using m by (subst mppc_extend.simps) (auto split: if_split)
    then show ?thesis using Suc.prems by (intro exI [of _ 0] exI [of _ hist]) simp
  next
    case True
    let ?h = "hist[ptr := pSrc ! src]"
    have ptr: "ptr < length hist" using p(1) lh Suc.prems(8) by simp
    have c: "mppc_copy h d s (Suc len) = Some ?h"
      using mppc_copy_snoc [OF Suc.prems(1)] Suc.prems(2,3,8) p True by simp
    have hh: "hist_holds ?h off (Suc src) pSrc"
      by (rule hist_holds_next [OF Suc.prems(5,6) _ Suc.prems(4)]) (use ptr Suc.prems(4) in simp)
    have "\<exists>n hist'. mppc_extend pSrc (length pSrc - 1) high ?h (MatchPtr + 1) (ptr + 1) (src + 1) (Suc len) = Some (hist', ptr + 1 + n, src + 1 + n, Suc len + n) \<and>
      mppc_copy h d s (Suc len + n) = Some hist' \<and> hist_holds hist' off (src + 1 + n) pSrc \<and> src + 1 + n < length pSrc \<and>
      length hist' = length ?h \<and> drop hbs hist' = drop hbs ?h"
      by (rule Suc.hyps(1) [OF _ c]) (use Suc.hyps(2) Suc.prems True ptr hh in auto)
    moreover have "mppc_extend pSrc (length pSrc - 1) high hist MatchPtr ptr src len =
      mppc_extend pSrc (length pSrc - 1) high ?h (MatchPtr + 1) (ptr + 1) (src + 1) (Suc len)"
      using m True ptr by (subst mppc_extend.simps) simp
    moreover have "drop hbs ?h = drop hbs hist" using p(1) by simp
    ultimately obtain n hist' where "mppc_extend pSrc (length pSrc - 1) high hist MatchPtr ptr src len = Some (hist', ptr + Suc n, src + Suc n, len + Suc n)"
      "mppc_copy h d s (len + Suc n) = Some hist'" "hist_holds hist' off (src + Suc n) pSrc" "src + Suc n < length pSrc" "length hist' = length hist"
      "drop hbs hist' = drop hbs hist" by auto
    then show ?thesis by blast
  qed
qed simp


subsection \<open>The compressor writes the symbols it executes\<close>

text \<open>
  The compressor has written the symbols \<open>ss\<close>: their codes are in the stream, and executing
  them on the history at the start of the packet gives the current one, which has the bytes
  of the packet read so far.
\<close>

definition scan_inv :: "nat \<Rightarrow> nat \<Rightarrow> byte list \<Rightarrow> nat \<Rightarrow> byte list \<Rightarrow> nat \<Rightarrow> mppc_sym list \<Rightarrow> mppc_scan \<Rightarrow> bool" where
  "scan_inv level hbs hist0 off pSrc DstSize ss sc \<longleftrightarrow>
     writing (sc_bs sc) (syms_bits level ss) \<and> bs_capacity (sc_bs sc) = DstSize \<and> length (syms_bits level ss) \<le> 8 * DstSize \<and>
     (\<forall>s\<in>set ss. sym_ok hbs s) \<and> sum_list (map sym_len ss) = sc_src sc \<and> syms_exec hbs ss (hist0, off) = Some (sc_hist sc, sc_ptr sc) \<and>
     sc_ptr sc = off + sc_src sc \<and> hist_holds (sc_hist sc) off (sc_src sc) pSrc \<and> length (sc_hist sc) = 65536 \<and>
     drop hbs (sc_hist sc) = drop hbs hist0 \<and> sc_src sc \<le> length pSrc"

text \<open>
  The match table points below the end of the history, and to bytes already written when the
  history was flushed and \<open>mppc->HistoryPtr\<close> is behind its end.
\<close>

definition scan_matches :: "nat \<Rightarrow> mppc_scan \<Rightarrow> bool" where
  "scan_matches hbs sc \<longleftrightarrow> length (sc_match sc) = 32768 \<and> (\<forall>e\<in>set (sc_match sc). e + 3 < hbs) \<and>
     (sc_high sc + 3 < hbs \<or> (\<forall>e\<in>set (sc_match sc). e \<le> sc_ptr sc))"

lemma scan_emit:
  assumes inv: "scan_inv level hbs hist0 off pSrc DstSize ss sc" and lv: "level_size level hbs" and s: "sym_ok hbs s"
    and room: "bs_position (sc_bs sc) + length (code_bits (sym_codes level s)) \<le> 8 * DstSize"
    and ex: "sym_exec hbs s (sc_hist sc, sc_ptr sc) = Some (hist', ptr')"
    and hh: "hist_holds hist' off (sc_src sc + sym_len s) pSrc" "length hist' = 65536" "drop hbs hist' = drop hbs (sc_hist sc)"
      "sc_src sc + sym_len s \<le> length pSrc"
  shows "\<exists>bs'. write_codes (sc_bs sc) (sym_codes level s) = Some bs' \<and> (\<forall>m h. scan_inv level hbs hist0 off pSrc DstSize (ss @ [s])
    \<lparr>sc_bs = bs', sc_hist = hist', sc_match = m, sc_high = h, sc_ptr = ptr', sc_src = sc_src sc + sym_len s\<rparr>)"
proof -
  have w: "writing (sc_bs sc) (syms_bits level ss)" using inv by (simp add: scan_inv_def)
  from write_codes_writes [OF w sym_codes_ok(1) [OF lv s]] obtain bs' where
    bs': "write_codes (sc_bs sc) (sym_codes level s) = Some bs'" "writing bs' (syms_bits level (ss @ [s]))" "bs_capacity bs' = bs_capacity (sc_bs sc)"
    by auto
  have "bs_position (sc_bs sc) = length (syms_bits level ss)" using w by (simp add: writing_def)
  moreover have "ptr' = sc_ptr sc + sym_len s" using sym_exec_ptr [OF ex] .
  ultimately show ?thesis using bs' inv s room ex hh
    by (intro exI [of _ bs']) (simp add: scan_inv_def syms_exec_append)
qed

lemma write_codes_single: "write_codes bs [c] = mppc_write_code bs (Some c)"
  by (cases c) (simp add: mppc_write_code_def)

lemma write_codes_pair: "write_codes bs [c1, c2] = mppc_write_code bs (Some c1) \<bind> (\<lambda>bs. mppc_write_code bs (Some c2))"
  by (cases c1; cases c2) (simp add: mppc_write_code_def)

lemma MPPC_MATCH_INDEX_bound: "MPPC_MATCH_INDEX a b c < 32768"
proof -
  have "unat (drop_bit 12 (x AND 0x07FFF000 :: u32)) < 32768" for x :: u32
    by (simp add: unat_and_mask [where k = 15])
  then show ?thesis unfolding MPPC_MATCH_INDEX_def .
qed

lemma u32_pred_pos:
  assumes "0 < n" "n < 2 ^ 32"
  shows "u32_pred n = n - 1"
proof -
  have "n + 2 ^ 32 - 1 = n - 1 + 2 ^ 32" using assms(1) by simp
  then show ?thesis unfolding u32_pred_def using assms(2) by (simp only: mod_add_self2) simp
qed

text \<open>The comparison with the candidate match.\<close>

lemma mppc_no_match_cases:
  assumes "m + 1 < length hist"
  shows "\<exists>no. mppc_no_match before a b c hist m high ptr = Some no \<and>
    (\<not> no \<longrightarrow> 0 < m \<and> hist ! (m - 1) = a \<and> hist ! m = b \<and> hist ! (m + 1) = c \<and> m + 1 \<le> high \<and> m \<noteq> ptr - 1 \<and> m \<noteq> ptr)"
proof -
  have "mppc_no_match before a b c hist m high ptr = Some (a \<noteq> (if m = 0 then before else hist ! (m - 1)) \<or> b \<noteq> hist ! m \<or> c \<noteq> hist ! (m + 1) \<or>
    m + 1 > high \<or> m = 0 \<or> m = ptr - 1 \<or> m = ptr)" (is "_ = Some ?no")
    using assms by (cases "m = 0") (auto simp: mppc_no_match_def mem_get_def)
  then show ?thesis by (intro exI [of _ ?no]) auto
qed

lemma copy_source:
  assumes "s < hbs" "off = nat ((int d - int s) mod int hbs)"
  shows "off < hbs" "nat ((int d - int off) mod int hbs) = s"
proof -
  have "0 < int hbs" using assms(1) by simp
  then have o: "int off = (int d - int s) mod int hbs" using assms(2) by simp
  then show "off < hbs" using \<open>0 < int hbs\<close> by (metis of_nat_less_iff pos_mod_bound)
  have "(int d - int off) mod int hbs = int s" unfolding o using assms(1) by (simp add: mod_diff_right_eq)
  then show "nat ((int d - int off) mod int hbs) = s" by simp
qed


text \<open>A literal, in the compression loop or behind it.\<close>

lemma scan_literal:
  assumes inv: "scan_inv level hbs hist0 off pSrc DstSize ss sc" and lv: "level_size level hbs" and room: "off + length pSrc + 3 < hbs"
    and dst: "bs_position (sc_bs sc) div 8 + 2 \<le> DstSize - 1" and src: "sc_src sc < length pSrc"
  shows "\<exists>bs'. mppc_write_code (sc_bs sc) (Some (mppc_literal_code (pSrc ! sc_src sc))) = Some bs' \<and>
    (\<forall>m h. scan_inv level hbs hist0 off pSrc DstSize (ss @ [Lit (pSrc ! sc_src sc)])
      \<lparr>sc_bs = bs', sc_hist = (sc_hist sc)[sc_ptr sc := pSrc ! sc_src sc], sc_match = m, sc_high = h, sc_ptr = sc_ptr sc + 1, sc_src = sc_src sc + 1\<rparr>)"
proof -
  let ?b = "pSrc ! sc_src sc" and ?h = "(sc_hist sc)[sc_ptr sc := pSrc ! sc_src sc]"
  have hbs: "hbs \<le> 65536" using lv by (auto simp: level_size_def split: if_splits)
  have i: "sc_ptr sc = off + sc_src sc" "length (sc_hist sc) = 65536" "hist_holds (sc_hist sc) off (sc_src sc) pSrc" using inv by (simp_all add: scan_inv_def)
  have p: "sc_ptr sc < length (sc_hist sc)" "sc_ptr sc < hbs" using i(1,2) room src hbs by simp_all
  have "bs_position (sc_bs sc) + length (code_bits (sym_codes level (Lit ?b))) \<le> 8 * DstSize"
    using dst code_ok_literal(3) [of ?b] by (simp add: length_code_bits1)
  moreover have "sym_exec hbs (Lit ?b) (sc_hist sc, sc_ptr sc) = Some (?h, sc_ptr sc + 1)" using p(1) by simp
  moreover have "hist_holds ?h off (sc_src sc + sym_len (Lit ?b)) pSrc" using hist_holds_next [OF i(3) src _ i(1)] p(1) i(1) by simp
  ultimately have "\<exists>bs'. write_codes (sc_bs sc) (sym_codes level (Lit ?b)) = Some bs' \<and> (\<forall>m h. scan_inv level hbs hist0 off pSrc DstSize (ss @ [Lit ?b])
    \<lparr>sc_bs = bs', sc_hist = ?h, sc_match = m, sc_high = h, sc_ptr = sc_ptr sc + 1, sc_src = sc_src sc + sym_len (Lit ?b)\<rparr>)"
    by (intro scan_emit [OF inv lv]) (use i(2) p(2) src in simp_all)
  then show ?thesis unfolding sym_codes.simps write_codes_single sym_len.simps .
qed

text \<open>A match: the copy that is found, and what is written for it.\<close>

lemma scan_match:
  assumes inv: "scan_inv level hbs hist0 off pSrc DstSize ss sc" and lv: "level_size level hbs" and room: "off + length pSrc + 3 < hbs"
    and src: "sc_src sc + 3 < length pSrc" and m: "0 < m" "m + 3 < hbs" "m \<noteq> sc_ptr sc" "m \<noteq> sc_ptr sc + 1"
    and high: "m + 1 \<le> high \<and> high + 3 < hbs \<or> m < sc_ptr sc"
    and eq: "(sc_hist sc)[sc_ptr sc := pSrc ! sc_src sc] ! (m - 1) = pSrc ! sc_src sc"
      "(sc_hist sc)[sc_ptr sc := pSrc ! sc_src sc] ! m = pSrc ! (sc_src sc + 1)" "(sc_hist sc)[sc_ptr sc := pSrc ! sc_src sc] ! (m + 1) = pSrc ! (sc_src sc + 2)"
  shows "\<exists>n hist'. mppc_extend pSrc (length pSrc - 1) high
      ((sc_hist sc)[sc_ptr sc := pSrc ! sc_src sc, sc_ptr sc + 1 := pSrc ! (sc_src sc + 1), sc_ptr sc + 2 := pSrc ! (sc_src sc + 2)])
      (m + 2) (sc_ptr sc + 3) (sc_src sc + 3) 3 = Some (hist', sc_ptr sc + n, sc_src sc + n, n) \<and> 3 \<le> n \<and>
    (bs_position (sc_bs sc) div 8 + 7 \<le> DstSize - 1 \<longrightarrow> (\<exists>bs1 bs2 s.
      mppc_write_code (sc_bs sc) (mppc_offset_code level (nat ((int (sc_ptr sc) + 1 - int m) mod int hbs))) = Some bs1 \<and>
      mppc_write_code bs1 (mppc_length_code level n) = Some bs2 \<and>
      (\<forall>ma hi. scan_inv level hbs hist0 off pSrc DstSize (ss @ [s])
        \<lparr>sc_bs = bs2, sc_hist = hist', sc_match = ma, sc_high = hi, sc_ptr = sc_ptr sc + n, sc_src = sc_src sc + n\<rparr>)))"
proof -
  let ?d = "sc_ptr sc" and ?k = "sc_src sc" and ?h = "sc_hist sc" and ?s = "m - 1"
  let ?h3 = "?h[?d := pSrc ! ?k, ?d + 1 := pSrc ! (?k + 1), ?d + 2 := pSrc ! (?k + 2)]"
  let ?off = "nat ((int ?d + 1 - int m) mod int hbs)"
  have hbs: "hbs \<le> 65536" using lv by (auto simp: level_size_def split: if_splits)
  have i: "?d = off + ?k" "length ?h = 65536" "hist_holds ?h off ?k pSrc" using inv by (simp_all add: scan_inv_def)
  have d: "?d + 6 < hbs" using i(1) room src by simp
  have "mppc_copy ?h ?d ?s 3 = Some ?h3"
    by (rule mppc_copy_three) (use d hbs m eq i(2) in \<open>simp_all add: numeral_2_eq_2\<close>)
  moreover have "hist_holds ?h3 off (?k + 3) pSrc"
  proof -
    have "hist_holds (?h[?d := pSrc ! ?k]) off (Suc ?k) pSrc" by (rule hist_holds_next [OF i(3) _ _ i(1)]) (use d hbs i src in simp_all)
    then have "hist_holds (?h[?d := pSrc ! ?k, ?d + 1 := pSrc ! Suc ?k]) off (Suc (Suc ?k)) pSrc"
      by (rule hist_holds_next) (use d hbs i src in simp_all)
    then have "hist_holds (?h[?d := pSrc ! ?k, ?d + 1 := pSrc ! Suc ?k, ?d + 2 := pSrc ! Suc (Suc ?k)]) off (Suc (Suc (Suc ?k))) pSrc"
      by (rule hist_holds_next) (use d hbs i src in simp_all)
    then show ?thesis by (simp add: numeral_3_eq_3 numeral_2_eq_2)
  qed
  ultimately have "\<exists>n hist'. mppc_extend pSrc (length pSrc - 1) high ?h3 (m + 2) (?d + 3) (?k + 3) 3 = Some (hist', ?d + 3 + n, ?k + 3 + n, 3 + n) \<and>
    mppc_copy ?h ?d ?s (3 + n) = Some hist' \<and> hist_holds hist' off (?k + 3 + n) pSrc \<and> ?k + 3 + n < length pSrc \<and> length hist' = length ?h3 \<and>
    drop hbs hist' = drop hbs ?h3"
    by (intro mppc_extend_cases [where d = ?d and h = ?h and s = ?s]) (use m high i hbs room src in auto)
  then obtain n' hist' where e': "mppc_extend pSrc (length pSrc - 1) high ?h3 (m + 2) (?d + 3) (?k + 3) 3 = Some (hist', ?d + 3 + n', ?k + 3 + n', 3 + n')"
    "mppc_copy ?h ?d ?s (3 + n') = Some hist'" "hist_holds hist' off (?k + 3 + n') pSrc" "?k + 3 + n' < length pSrc" "length hist' = length ?h3"
    "drop hbs hist' = drop hbs ?h3" by blast
  define n where "n = 3 + n'"
  have e: "mppc_extend pSrc (length pSrc - 1) high ?h3 (m + 2) (?d + 3) (?k + 3) 3 = Some (hist', ?d + n, ?k + n, n)" "3 \<le> n"
    "mppc_copy ?h ?d ?s n = Some hist'" "hist_holds hist' off (?k + n) pSrc" "?k + n < length pSrc" "length hist' = 65536" "drop hbs hist' = drop hbs ?h"
    using e' i(2) d by (simp_all add: n_def add.assoc)
  have e0: "int ?d + 1 - int m = int ?d - int ?s" using m(1) by simp
  have "?s < hbs" using m(2) by simp
  note o = copy_source [OF this, of ?off ?d, unfolded e0, OF refl, folded e0]
  have s: "sym_ok hbs (Copy ?off n)" using o(1) e(2,5) room by simp
  have "\<exists>bs1 bs2 s. mppc_write_code (sc_bs sc) (mppc_offset_code level ?off) = Some bs1 \<and> mppc_write_code bs1 (mppc_length_code level n) = Some bs2 \<and>
    (\<forall>ma hi. scan_inv level hbs hist0 off pSrc DstSize (ss @ [s])
      \<lparr>sc_bs = bs2, sc_hist = hist', sc_match = ma, sc_high = hi, sc_ptr = ?d + n, sc_src = ?k + n\<rparr>)"
    if "bs_position (sc_bs sc) div 8 + 7 \<le> DstSize - 1"
  proof -
    from copy_codes [OF lv s] obtain c1 c2 where c: "mppc_offset_code level ?off = Some c1" "mppc_length_code level n = Some c2"
      "sym_codes level (Copy ?off n) = [c1, c2]" by metis
    have "\<exists>bs'. write_codes (sc_bs sc) (sym_codes level (Copy ?off n)) = Some bs' \<and> (\<forall>ma hi. scan_inv level hbs hist0 off pSrc DstSize (ss @ [Copy ?off n])
      \<lparr>sc_bs = bs', sc_hist = hist', sc_match = ma, sc_high = hi, sc_ptr = ?d + n, sc_src = ?k + sym_len (Copy ?off n)\<rparr>)"
    proof (rule scan_emit [OF inv lv s])
      have "bs_position (sc_bs sc) + 49 \<le> 8 * DstSize" using that by linarith
      then show "bs_position (sc_bs sc) + length (code_bits (sym_codes level (Copy ?off n))) \<le> 8 * DstSize"
        using sym_codes_ok(3) [OF lv s] by linarith
      show "sym_exec hbs (Copy ?off n) (?h, ?d) = Some (hist', ?d + n)" unfolding sym_exec.simps o(2) e(3) by simp
    qed (use e(4-7) in \<open>simp_all only: sym_len.simps\<close>)
    then show ?thesis unfolding c write_codes_pair sym_len.simps bind_eq_Some_conv by blast
  qed
  with e(1,2) show ?thesis by blast
qed

lemma scan_matches_step:
  assumes mt: "scan_matches hbs sc" and d: "sc_ptr sc + 4 < hbs" and hbs: "hbs \<le> 65536" and mi: "mi < 32768"
  defines "m \<equiv> sc_match sc ! mi"
  defines "ma \<equiv> (if m \<noteq> sc_ptr sc then (sc_match sc)[mi := (sc_ptr sc + 1) mod 2 ^ 16] else sc_match sc)"
    and "hi \<equiv> (if sc_high sc < sc_ptr sc + 1 then sc_ptr sc + 1 else sc_high sc)"
  shows "m + 3 < hbs" "m \<noteq> sc_ptr sc \<Longrightarrow> m + 1 \<le> hi \<Longrightarrow> m + 1 \<le> hi \<and> hi + 3 < hbs \<or> m < sc_ptr sc"
    "sc_ptr sc + 1 \<le> p \<Longrightarrow> scan_matches hbs \<lparr>sc_bs = bs, sc_hist = h, sc_match = ma, sc_high = hi, sc_ptr = p, sc_src = q\<rparr>"
proof -
  have l: "mi < length (sc_match sc)" using mt mi by (simp add: scan_matches_def)
  then have "m \<in> set (sc_match sc)" by (simp add: m_def)
  then show "m + 3 < hbs" "m \<noteq> sc_ptr sc \<Longrightarrow> m + 1 \<le> hi \<Longrightarrow> m + 1 \<le> hi \<and> hi + 3 < hbs \<or> m < sc_ptr sc"
    using mt d by (auto simp: scan_matches_def hi_def)
  have "(sc_ptr sc + 1) mod 2 ^ 16 = sc_ptr sc + 1" using d hbs by simp
  then have ma: "length ma = 32768" "\<forall>e\<in>set ma. e \<in> set (sc_match sc) \<or> e = sc_ptr sc + 1"
    using mt set_update_subset_insert [of "sc_match sc" mi "sc_ptr sc + 1"] by (auto simp: ma_def scan_matches_def)
  assume "sc_ptr sc + 1 \<le> p"
  then show "scan_matches hbs \<lparr>sc_bs = bs, sc_hist = h, sc_match = ma, sc_high = hi, sc_ptr = p, sc_src = q\<rparr>"
    using ma mt d unfolding scan_matches_def hi_def by (fastforce split: if_splits)
qed

lemma compress_step_cases:
  assumes lv: "level_size level hbs" and room: "off + length pSrc + 3 < hbs" and dst: "0 < DstSize" "DstSize < 2 ^ 32"
    and inv: "scan_inv level hbs hist0 off pSrc DstSize ss sc" and mt: "scan_matches hbs sc" and src: "sc_src sc + 3 < length pSrc"
  shows "\<exists>full sc'. mppc_compress_step before level hbs pSrc (length pSrc - 1) DstSize sc = Some (full, sc') \<and>
    (\<not> full \<longrightarrow> (\<exists>s. scan_inv level hbs hist0 off pSrc DstSize (ss @ [s]) sc') \<and> scan_matches hbs sc')"
proof -
  let ?k = "sc_src sc" and ?d = "sc_ptr sc" and ?h = "sc_hist sc"
  let ?a = "pSrc ! sc_src sc" and ?b = "pSrc ! (sc_src sc + 1)" and ?c = "pSrc ! (sc_src sc + 2)"
  let ?mi = "MPPC_MATCH_INDEX ?a ?b ?c" and ?h1 = "?h[?d := ?a]"
  define m where "m = sc_match sc ! ?mi"
  define ma where "ma = (if m \<noteq> ?d then (sc_match sc)[?mi := (?d + 1) mod 2 ^ 16] else sc_match sc)"
  define hi where "hi = (if sc_high sc < ?d + 1 then ?d + 1 else sc_high sc)"
  have hbs: "hbs \<le> 65536" using lv by (auto simp: level_size_def split: if_splits)
  have i: "?d = off + ?k" "length ?h = 65536" using inv by (simp_all add: scan_inv_def)
  have d: "?d + 4 < hbs" "?d + 2 < length ?h" using i room src hbs by simp_all
  note mm = scan_matches_step [OF mt d(1) hbs MPPC_MATCH_INDEX_bound [of ?a ?b ?c], folded m_def, folded ma_def hi_def]
  have pred: "u32_pred DstSize = DstSize - 1" by (rule u32_pred_pos [OF dst])
  have "m + 1 < length ?h1" using mm(1) hbs i(2) by simp
  from mppc_no_match_cases [OF this, of before ?a ?b ?c hi "?d + 1"] obtain no where
    no: "mppc_no_match before ?a ?b ?c ?h1 m hi (?d + 1) = Some no"
    "\<not> no \<Longrightarrow> 0 < m \<and> ?h1 ! (m - 1) = ?a \<and> ?h1 ! m = ?b \<and> ?h1 ! (m + 1) = ?c \<and> m + 1 \<le> hi \<and> m \<noteq> ?d \<and> m \<noteq> ?d + 1" by auto
  have pre: "mem_get pSrc ?k = Some ?a" "mem_get pSrc (?k + 1) = Some ?b" "mem_get pSrc (?k + 2) = Some ?c" "mem_write ?h ?d [?a] = Some ?h1"
    "mem_get (sc_match sc) ?mi = Some m" "(if m \<noteq> ?d then mem_write (sc_match sc) ?mi [(?d + 1) mod 2 ^ 16] else Some (sc_match sc)) = Some ma"
    using src d mt MPPC_MATCH_INDEX_bound by (simp_all add: scan_matches_def m_def ma_def)
  note step = mppc_compress_step_def Let_def pre bind.bind_lunit diff_add_inverse2 hi_def [symmetric] no(1)
  show ?thesis
  proof (cases no)
    case True
    show ?thesis
    proof (cases "bs_position (sc_bs sc) div 8 + 2 \<le> DstSize - 1")
      case False
      then show ?thesis using True pred unfolding step by auto
    next
      case fit: True
      from scan_literal [OF inv lv room fit] src obtain bs' where
        "mppc_write_code (sc_bs sc) (Some (mppc_literal_code ?a)) = Some bs'"
        "\<forall>m h. scan_inv level hbs hist0 off pSrc DstSize (ss @ [Lit ?a]) \<lparr>sc_bs = bs', sc_hist = ?h1, sc_match = m, sc_high = h, sc_ptr = ?d + 1, sc_src = ?k + 1\<rparr>"
        by auto
      with mm(3) [of "?d + 1" bs' ?h1 "?k + 1"] show ?thesis using True fit pred unfolding step by auto
    qed
  next
    case False
    have f: "0 < m" "?h1 ! (m - 1) = ?a" "?h1 ! m = ?b" "?h1 ! (m + 1) = ?c" "m + 1 \<le> hi" "m \<noteq> ?d" "m \<noteq> ?d + 1" using no(2) [OF False] by blast+
    from scan_match [OF inv lv room src f(1) mm(1) f(6,7) mm(2) [OF f(6,5)] f(2-4)] obtain n hist' where
      e: "mppc_extend pSrc (length pSrc - 1) hi (?h1[?d + 1 := ?b, ?d + 2 := ?c]) (m + 2) (?d + 3) (?k + 3) 3 = Some (hist', ?d + n, ?k + n, n)" "3 \<le> n"
      "bs_position (sc_bs sc) div 8 + 7 \<le> DstSize - 1 \<longrightarrow> (\<exists>bs1 bs2 s.
        mppc_write_code (sc_bs sc) (mppc_offset_code level (nat ((int ?d + 1 - int m) mod int hbs))) = Some bs1 \<and>
        mppc_write_code bs1 (mppc_length_code level n) = Some bs2 \<and>
        (\<forall>ma hi. scan_inv level hbs hist0 off pSrc DstSize (ss @ [s])
          \<lparr>sc_bs = bs2, sc_hist = hist', sc_match = ma, sc_high = hi, sc_ptr = ?d + n, sc_src = ?k + n\<rparr>))" by blast
    have w: "mem_write ?h1 (?d + 1) [?b] = Some (?h1[?d + 1 := ?b])" "mem_write (?h1[?d + 1 := ?b]) (?d + 1 + 1) [?c] = Some (?h1[?d + 1 := ?b, ?d + 2 := ?c])"
      "?d + 1 + 2 = ?d + 3" "int (?d + 1) = int ?d + 1" using d(2) by simp_all
    show ?thesis
    proof (cases "bs_position (sc_bs sc) div 8 + 7 \<le> DstSize - 1")
      case fit: False
      then show ?thesis using False pred unfolding step w e(1) by auto
    next
      case fit: True
      with e(3) obtain bs1 bs2 s where b: "mppc_write_code (sc_bs sc) (mppc_offset_code level (nat ((int ?d + 1 - int m) mod int hbs))) = Some bs1"
        "mppc_write_code bs1 (mppc_length_code level n) = Some bs2"
        "\<forall>ma hi. scan_inv level hbs hist0 off pSrc DstSize (ss @ [s]) \<lparr>sc_bs = bs2, sc_hist = hist', sc_match = ma, sc_high = hi, sc_ptr = ?d + n, sc_src = ?k + n\<rparr>"
        by blast
      then show ?thesis using False fit pred mm(3) [of "?d + n" bs2 hist' "?k + n"] e(2)
        unfolding step w e(1) and_history_mask(2) [OF lv] by auto
    qed
  qed
qed


lemma compress_loop_cases:
  assumes lv: "level_size level hbs" and room: "off + length pSrc + 3 < hbs" and dst: "0 < DstSize" "DstSize < 2 ^ 32"
  shows "scan_inv level hbs hist0 off pSrc DstSize ss sc \<Longrightarrow> scan_matches hbs sc \<Longrightarrow>
    \<exists>full sc'. mppc_compress_loop before level hbs pSrc (length pSrc - 1) DstSize sc = Some (full, sc') \<and>
      (\<not> full \<longrightarrow> (\<exists>ss'. scan_inv level hbs hist0 off pSrc DstSize ss' sc') \<and> scan_matches hbs sc')"
proof (induction "length pSrc - sc_src sc" arbitrary: ss sc rule: less_induct)
  case less
  have cond: "int (sc_src sc) < int (length pSrc - 1) - 2 \<longleftrightarrow> sc_src sc + 3 < length pSrc" by linarith
  show ?case
  proof (cases "sc_src sc + 3 < length pSrc")
    case False
    then show ?thesis using less.prems cond by (subst mppc_compress_loop.simps) auto
  next
    case True
    from compress_step_cases [OF lv room dst less.prems True] obtain full sc1 where
      1: "mppc_compress_step before level hbs pSrc (length pSrc - 1) DstSize sc = Some (full, sc1)"
        "\<not> full \<Longrightarrow> (\<exists>s. scan_inv level hbs hist0 off pSrc DstSize (ss @ [s]) sc1) \<and> scan_matches hbs sc1" by blast
    show ?thesis
    proof (cases full)
      case True
      then show ?thesis using 1(1) cond \<open>sc_src sc + 3 < length pSrc\<close> by (subst mppc_compress_loop.simps) auto
    next
      case False
      then have "sc_src sc < sc_src sc1" using 1(1) compress_step_advances by auto
      moreover from 1(2) [OF False] obtain s where "scan_inv level hbs hist0 off pSrc DstSize (ss @ [s]) sc1" "scan_matches hbs sc1" by blast
      ultimately show ?thesis using less.hyps [of sc1 "ss @ [s]"] 1(1) False cond \<open>sc_src sc + 3 < length pSrc\<close>
        by (subst mppc_compress_loop.simps) auto
    qed
  qed
qed

lemma trailing_loop_cases:
  assumes lv: "level_size level hbs" and room: "off + length pSrc + 3 < hbs" and dst: "0 < DstSize" "DstSize < 2 ^ 32" and src: "0 < length pSrc"
  shows "scan_inv level hbs hist0 off pSrc DstSize ss sc \<Longrightarrow>
    \<exists>full sc'. mppc_trailing_loop pSrc (length pSrc - 1) DstSize sc = Some (full, sc') \<and> sc_match sc' = sc_match sc \<and>
      (\<not> full \<longrightarrow> (\<exists>ss'. scan_inv level hbs hist0 off pSrc DstSize ss' sc') \<and> sc_src sc' = length pSrc)"
proof (induction "length pSrc - sc_src sc" arbitrary: ss sc)
  case 0
  then have "sc_src sc = length pSrc" by (simp add: scan_inv_def)
  then have "\<not> sc_src sc \<le> length pSrc - 1" using src by linarith
  then have "mppc_trailing_loop pSrc (length pSrc - 1) DstSize sc = Some (False, sc)" by (subst mppc_trailing_loop.simps) simp
  then show ?case using 0(2) \<open>sc_src sc = length pSrc\<close> by blast
next
  case (Suc k)
  then have k: "sc_src sc < length pSrc" "sc_src sc \<le> length pSrc - 1" by auto
  have pred: "u32_pred DstSize = DstSize - 1" by (rule u32_pred_pos [OF dst])
  show ?case
  proof (cases "bs_position (sc_bs sc) div 8 + 2 \<le> DstSize - 1")
    case False
    then show ?thesis using k pred by (subst mppc_trailing_loop.simps) auto
  next
    case True
    let ?b = "pSrc ! sc_src sc"
    from scan_literal [OF Suc.prems lv room True k(1)] obtain bs' where
      bs': "mppc_write_code (sc_bs sc) (Some (mppc_literal_code ?b)) = Some bs'"
        "\<forall>m h. scan_inv level hbs hist0 off pSrc DstSize (ss @ [Lit ?b])
          \<lparr>sc_bs = bs', sc_hist = (sc_hist sc)[sc_ptr sc := ?b], sc_match = m, sc_high = h, sc_ptr = sc_ptr sc + 1, sc_src = sc_src sc + 1\<rparr>" by blast
    let ?sc = "sc\<lparr>sc_bs := bs', sc_hist := (sc_hist sc)[sc_ptr sc := ?b], sc_ptr := sc_ptr sc + 1, sc_src := sc_src sc + 1\<rparr>"
    have "?sc = \<lparr>sc_bs = bs', sc_hist = (sc_hist sc)[sc_ptr sc := ?b], sc_match = sc_match sc, sc_high = sc_high sc, sc_ptr = sc_ptr sc + 1, sc_src = sc_src sc + 1\<rparr>"
      by simp
    then have inv: "scan_inv level hbs hist0 off pSrc DstSize (ss @ [Lit ?b]) ?sc" using bs'(2) by presburger
    have "sc_ptr sc < length (sc_hist sc)" using Suc.prems lv room k(1) by (auto simp: scan_inv_def level_size_def split: if_splits)
    then have "mppc_trailing_loop pSrc (length pSrc - 1) DstSize sc = mppc_trailing_loop pSrc (length pSrc - 1) DstSize ?sc"
      using k True pred bs'(1) by (subst mppc_trailing_loop.simps) simp
    then show ?thesis using Suc.hyps(1) [of ?sc, OF _ inv] Suc.hyps(2) by auto
  qed
qed

text \<open>Both loops, one after the other.\<close>

lemma compress_scan_cases:
  assumes lv: "level_size level hbs" and room: "off + length pSrc + 3 < hbs" and dst: "0 < DstSize" "DstSize < 2 ^ 32" and src: "0 < length pSrc"
    and inv: "scan_inv level hbs hist0 off pSrc DstSize ss sc" "scan_matches hbs sc"
  obtains full1 sc1 full sc2 where "mppc_compress_loop before level hbs pSrc (length pSrc - 1) DstSize sc = Some (full1, sc1)"
    "(if full1 then Some (full1, sc1) else mppc_trailing_loop pSrc (length pSrc - 1) DstSize sc1) = Some (full, sc2)"
    "\<not> full \<Longrightarrow> (\<exists>ss. scan_inv level hbs hist0 off pSrc DstSize ss sc2) \<and> sc_src sc2 = length pSrc \<and> length (sc_match sc2) = 32768 \<and>
      (\<forall>e\<in>set (sc_match sc2). e + 3 < hbs)"
proof -
  from compress_loop_cases [OF lv room dst inv, of before] obtain full1 sc1 where
    1: "mppc_compress_loop before level hbs pSrc (length pSrc - 1) DstSize sc = Some (full1, sc1)"
      "\<not> full1 \<Longrightarrow> (\<exists>ss. scan_inv level hbs hist0 off pSrc DstSize ss sc1) \<and> scan_matches hbs sc1" by blast
  show thesis
  proof (cases full1)
    case True
    then show thesis using that [OF 1(1), of True sc1] by simp
  next
    case False
    from 1(2) [OF False] obtain ss' where i: "scan_inv level hbs hist0 off pSrc DstSize ss' sc1" "scan_matches hbs sc1" by blast
    from trailing_loop_cases [OF lv room dst src i(1)] obtain full sc2 where
      2: "mppc_trailing_loop pSrc (length pSrc - 1) DstSize sc1 = Some (full, sc2)" "sc_match sc2 = sc_match sc1"
        "\<not> full \<Longrightarrow> (\<exists>ss. scan_inv level hbs hist0 off pSrc DstSize ss sc2) \<and> sc_src sc2 = length pSrc" by blast
    have "(\<exists>ss. scan_inv level hbs hist0 off pSrc DstSize ss sc2) \<and> sc_src sc2 = length pSrc \<and> length (sc_match sc2) = 32768 \<and>
      (\<forall>e\<in>set (sc_match sc2). e + 3 < hbs)" if "\<not> full" using 2(2,3) that i(2) by (simp add: scan_matches_def)
    from that [OF 1(1) _ this] False 2(1) show thesis by simp
  qed
qed

subsection \<open>Packets\<close>

text \<open>
  The contexts of the two sides between two packets. After a packet that was not compressed
  the compressor starts over with an empty history, and flags the next packet.
\<close>

definition mppc_sync :: "MPPC_CONTEXT \<Rightarrow> MPPC_CONTEXT \<Rightarrow> bool" where
  "mppc_sync c d \<longleftrightarrow> level_size (CompressionLevel c) (HistoryBufferSize c) \<and> CompressionLevel c < 2 \<and>
     CompressionLevel d = CompressionLevel c \<and> HistoryBufferSize d = HistoryBufferSize c \<and>
     HistoryBuffer d = HistoryBuffer c \<and> length (HistoryBuffer c) = 65536 \<and> length (MatchBuffer c) = 32768 \<and>
     drop (HistoryBufferSize c) (HistoryBuffer c) = replicate (65536 - HistoryBufferSize c) 0 \<and> HistoryPtr c = HistoryOffset c \<and>
     (HistoryOffset c + 3 < HistoryBufferSize c \<and> (\<forall>e\<in>set (MatchBuffer c). e + 3 < HistoryBufferSize c) \<and> HistoryPtr d = HistoryOffset c \<or>
      HistoryOffset c = HistoryBufferSize c + 1 \<and> MatchBuffer c = replicate 32768 0 \<and> HistoryBuffer c = replicate 65536 0)"


definition mppc_front :: "MPPC_CONTEXT \<Rightarrow> nat \<Rightarrow> bool" where
  "mppc_front c n \<longleftrightarrow> \<not> ((HistoryOffset c + n) mod 2 ^ 32 < HistoryBufferSize c - 3 \<and> HistoryOffset c \<noteq> 0)"

definition mppc_start :: "MPPC_CONTEXT \<Rightarrow> nat \<Rightarrow> nat" where
  "mppc_start c n = (if mppc_front c n then 0 else HistoryOffset c)"

definition mppc_flags :: "nat \<Rightarrow> bool \<Rightarrow> bool \<Rightarrow> u32" where
  "mppc_flags level front flushed =
     (let flags = PACKET_COMPRESSED OR word_of_nat level; flags = (if front then flags OR PACKET_AT_FRONT else flags)
      in if flushed then flags OR PACKET_FLUSHED else flags)"

lemma mppc_flags_tests:
  assumes "level < 2"
  shows "mppc_flags level front flushed AND PACKET_COMPRESSED \<noteq> 0" "mppc_flags level front flushed AND PACKET_AT_FRONT \<noteq> 0 \<longleftrightarrow> front"
    "mppc_flags level front flushed AND PACKET_FLUSHED \<noteq> 0 \<longleftrightarrow> flushed"
    "(PACKET_FLUSHED OR word_of_nat level) AND PACKET_COMPRESSED = 0" "(PACKET_FLUSHED OR word_of_nat level) AND PACKET_FLUSHED \<noteq> 0"
proof -
  have "level = 0 \<or> level = 1" using assms by auto
  then show "mppc_flags level front flushed AND PACKET_COMPRESSED \<noteq> 0" "mppc_flags level front flushed AND PACKET_AT_FRONT \<noteq> 0 \<longleftrightarrow> front"
    "mppc_flags level front flushed AND PACKET_FLUSHED \<noteq> 0 \<longleftrightarrow> flushed"
    "(PACKET_FLUSHED OR word_of_nat level) AND PACKET_COMPRESSED = 0" "(PACKET_FLUSHED OR word_of_nat level) AND PACKET_FLUSHED \<noteq> 0"
    by (auto simp: mppc_flags_def Let_def PACKET_COMPRESSED_def PACKET_AT_FRONT_def PACKET_FLUSHED_def)
qed

lemma sync_start:
  assumes "mppc_sync c d" "n + 3 < HistoryBufferSize c"
  shows "mppc_start c n + n + 3 < HistoryBufferSize c"
proof -
  have "HistoryBufferSize c \<le> 65536" using assms(1) by (auto simp: mppc_sync_def level_size_def split: if_splits)
  then have "HistoryOffset c + n < 2 ^ 32" using assms by (auto simp: mppc_sync_def)
  then show ?thesis using assms(2) by (auto simp: mppc_start_def mppc_front_def)
qed

text \<open>What \<open>mppc_compress\<close> returns: the codes of symbols that give the packet, or the packet itself.\<close>

lemma mppc_compress_cases:
  assumes sync: "mppc_sync c d" and p: "0 < length p" "length p + 3 < HistoryBufferSize c" and dst: "0 < length dst"
  defines "level \<equiv> CompressionLevel c" and "hbs \<equiv> HistoryBufferSize c" and "off \<equiv> mppc_start c (length p)"
  shows "\<exists>flags out c'. mppc_compress before c p (length p) (Some dst) (length dst) = Some (1, flags, out, c') \<and>
    (flags = PACKET_FLUSHED OR word_of_nat level \<and> out = p \<and> (\<exists>bs. c' = mppc_context_reset (c\<lparr>mppc_bs := bs\<rparr>) True) \<or>
     flags = mppc_flags level (mppc_front c (length p)) (mppc_front c (length p) \<and> HistoryOffset c = hbs + 1) \<and>
     (\<exists>ss bs hist ma. (\<forall>s\<in>set ss. sym_ok hbs s) \<and> sum_list (map sym_len ss) = length p \<and>
       syms_exec hbs ss (HistoryBuffer c, off) = Some (hist, off + length p) \<and> take (length p) (drop off hist) = p \<and> length hist = 65536 \<and>
       drop hbs hist = drop hbs (HistoryBuffer c) \<and> length ma = 32768 \<and> (\<forall>e\<in>set ma. e + 3 < hbs) \<and>
       length out = (length (syms_bits level ss) + 7) div 8 \<and> length out \<le> length p \<and> (\<forall>k < length (syms_bits level ss). sbit out k = syms_bits level ss ! k) \<and>
       c' = c\<lparr>mppc_bs := bs, HistoryBuffer := hist, MatchBuffer := ma, HistoryPtr := off + length p, HistoryOffset := off + length p\<rparr>))"
proof -
  have lv: "level_size level hbs" and l: "length (HistoryBuffer c) = 65536" "length (MatchBuffer c) = 32768" "HistoryPtr c = HistoryOffset c"
    using sync by (simp_all add: mppc_sync_def level_def hbs_def)
  have hbs: "hbs \<le> 65536" using lv by (auto simp: level_size_def split: if_splits)
  have room: "off + length p + 3 < hbs" unfolding off_def hbs_def by (rule sync_start [OF sync p(2)])
  define n where "n = (if length dst > length p then length p else length dst)"
  have n: "0 < n" "n < 2 ^ 32" "n \<le> length dst" "8 * n < 2 ^ 31" using p dst room hbs by (auto simp: n_def)
  have pred: "u32_pred (length p) = length p - 1" by (rule u32_pred_pos) (use p room hbs in auto)
  from Attach_writes [OF n(3,4), of "mppc_bs c"] obtain bs where bs: "BitStream_Attach (mppc_bs c) dst n = Some bs" "writing bs []"
    "bs_capacity bs = n" "bs_buffer bs = dst" by blast
  define sc where "sc = \<lparr>sc_bs = bs, sc_hist = HistoryBuffer c, sc_match = MatchBuffer c, sc_high = HistoryPtr c, sc_ptr = off, sc_src = 0\<rparr>"
  have inv: "scan_inv level hbs (HistoryBuffer c) off p n [] sc" using bs l by (simp add: scan_inv_def sc_def hist_holds_def)
  have "scan_matches hbs sc" using sync p by (auto simp: scan_matches_def sc_def mppc_sync_def hbs_def)
  from compress_scan_cases [OF lv room n(1,2) p(1) inv this, of before] obtain full1 sc1 full sc2 where
    1: "mppc_compress_loop before level hbs p (length p - 1) n sc = Some (full1, sc1)"
      "(if full1 then Some (full1, sc1) else mppc_trailing_loop p (length p - 1) n sc1) = Some (full, sc2)"
    and 2: "\<not> full \<Longrightarrow> (\<exists>ss. scan_inv level hbs (HistoryBuffer c) off p n ss sc2) \<and> sc_src sc2 = length p \<and> length (sc_match sc2) = 32768 \<and>
      (\<forall>e\<in>set (sc_match sc2). e + 3 < hbs)" by blast
  note run = mppc_compress_def Let_def option.case n_def [symmetric] bs(1) pred bind.bind_lunit level_def [symmetric] hbs_def [symmetric]
    mppc_front_def [of c "length p", folded hbs_def, symmetric] off_def [unfolded mppc_start_def, symmetric] sc_def [symmetric] 1 prod.case
  show ?thesis
  proof (cases full)
    case True
    then show ?thesis unfolding run by auto
  next
    case False
    from 2 [OF False] obtain ss where i: "scan_inv level hbs (HistoryBuffer c) off p n ss sc2" and e: "sc_src sc2 = length p" "length (sc_match sc2) = 32768"
      "\<forall>e\<in>set (sc_match sc2). e + 3 < hbs" by blast
    have i': "writing (sc_bs sc2) (syms_bits level ss)" "bs_capacity (sc_bs sc2) = n" "length (syms_bits level ss) \<le> 8 * n" "sc_ptr sc2 = off + length p"
      using i e(1) by (simp_all add: scan_inv_def)
    from writing_Flush [OF i'(1)] obtain bs3 where f: "BitStream_Flush (sc_bs sc2) = Some bs3" "bs_position bs3 = length (syms_bits level ss)"
      "length (bs_buffer bs3) = length (bs_buffer (sc_bs sc2))" "\<forall>k < length (syms_bits level ss). sbit (bs_buffer bs3) k = syms_bits level ss ! k"
      using i'(2,3) by auto
    let ?out = "take ((bs_position bs3 + 7) div 8) (bs_buffer bs3)"
    have "n \<le> length (bs_buffer bs3)" using i'(1,2) f(3) by (simp add: writing_def bs_ok_def)
    then have out: "length ?out = (length (syms_bits level ss) + 7) div 8" using i'(3) f(2) by auto
    have np: "n \<le> length p" by (simp add: n_def)
    have outp: "length ?out \<le> length p" unfolding out using i'(3) np by linarith
    have "\<forall>k < length (syms_bits level ss). sbit ?out k = syms_bits level ss ! k" using f(2,4) by (auto simp: sbit_take)
    then show ?thesis using False i e out outp f(1) i'(4) unfolding run
      by (intro exI [of _ "mppc_flags level (mppc_front c (length p)) (mppc_front c (length p) \<and> HistoryOffset c = hbs + 1)"] exI [of _ ?out]
        exI [of _ "c\<lparr>mppc_bs := bs3, HistoryBuffer := sc_hist sc2, MatchBuffer := sc_match sc2, HistoryPtr := sc_ptr sc2, HistoryOffset := sc_ptr sc2\<rparr>"]
        conjI disjI2 exI [of _ ss] exI [of _ bs3] exI [of _ "sc_hist sc2"] exI [of _ "sc_match sc2"])
        (simp_all add: mppc_flags_def Let_def scan_inv_def hist_holds_def)
  qed
qed


text \<open>What \<open>mppc_decompress\<close> makes of a packet of symbols.\<close>

lemma mppc_decompress_syms:
  assumes lv: "level_size level hbs" "CompressionLevel d = level" "HistoryBufferSize d = hbs" and len: "length (HistoryBuffer d) = 65536"
    and c: "flags AND PACKET_COMPRESSED \<noteq> 0"
    and f: "flags AND PACKET_AT_FRONT \<noteq> 0 \<Longrightarrow> off = 0" "flags AND PACKET_AT_FRONT = 0 \<Longrightarrow> off = HistoryPtr d" "flags AND PACKET_FLUSHED \<noteq> 0 \<Longrightarrow>
      flags AND PACKET_AT_FRONT \<noteq> 0 \<and> HistoryBuffer d = replicate 65536 0"
    and ss: "\<forall>s\<in>set ss. sym_ok hbs s" "off + sum_list (map sym_len ss) \<le> hbs" "syms_exec hbs ss (HistoryBuffer d, off) = Some (hist, off + n)" "length hist = 65536"
      "off + n \<le> hbs"
    and out: "length out = (length (syms_bits level ss) + 7) div 8" "8 * length out < 2 ^ 31" "\<forall>k < length (syms_bits level ss). sbit out k = syms_bits level ss ! k"
  shows "\<exists>bs o'. mppc_decompress d out (length out) flags =
    Some (1, Some (take n (drop off hist)), d\<lparr>mppc_bs := bs, HistoryBuffer := hist, HistoryPtr := off + n, HistoryOffset := o'\<rparr>)"
proof -
  have hbs: "hbs \<le> 65536" using lv by (auto simp: level_size_def split: if_splits)
  from Attach_Fetch_reads [OF order.refl out(2), of "mppc_bs d"] obtain b1 b2 where b: "BitStream_Attach (mppc_bs d) out (length out) = Some b1"
    "BitStream_Fetch b1 = Some b2" "reading b2" "bs_position b2 = 0" "bs_buffer b2 = out" "bs_capacity b2 = length out" "bs_length b2 = 8 * length out" by blast
  have "next_bits b2 (syms_bits level ss)" using b out(3) by (simp add: next_bits_def bs_bit_def)
  moreover have "length (syms_bits level ss) \<le> 8 * length out" "8 * length out < length (syms_bits level ss) + 8" using out(1) by linarith+
  ultimately obtain b3 where loop: "mppc_decompress_loop level hbs (b2, HistoryBuffer d, off) = Some (None, b3, hist, off + n)"
    using decompress_loop_syms [OF b(3) lv(1) ss(1,2) _ _ _ ss(3)] b by auto
  define d1 where "d1 = (if flags AND PACKET_AT_FRONT \<noteq> 0 then d\<lparr>mppc_bs := b2, HistoryOffset := 0, HistoryPtr := 0\<rparr> else d\<lparr>mppc_bs := b2\<rparr>)"
  have "replicate hbs 0 @ drop hbs (replicate 65536 0) = replicate 65536 (0 :: byte)" using hbs by (simp flip: replicate_add)
  moreover define o' where "o' = (if flags AND PACKET_AT_FRONT \<noteq> 0 then 0 else HistoryOffset d)"
  ultimately have fl: "(if flags AND PACKET_FLUSHED \<noteq> 0
      then mem_write (HistoryBuffer d1) 0 (replicate (HistoryBufferSize d1) 0) \<bind> (\<lambda>buf. Some (d1\<lparr>HistoryOffset := 0, HistoryPtr := 0, HistoryBuffer := buf\<rparr>))
      else Some d1) = Some (d\<lparr>mppc_bs := b2, HistoryPtr := off, HistoryOffset := o'\<rparr>)"
    using f lv(3) hbs by (cases d; cases "flags AND PACKET_FLUSHED = 0"; cases "flags AND PACKET_AT_FRONT = 0") (auto simp: d1_def mem_write_def)
  have rd: "mem_read hist off n = Some (take n (drop off hist))" using ss(4,5) hbs by (simp add: mem_read_def)
  have d1': "(if flags AND PACKET_AT_FRONT \<noteq> 0 then d\<lparr>mppc_bs := b2, HistoryOffset := 0, HistoryPtr := 0\<rparr> else d\<lparr>mppc_bs := b2\<rparr>) = d1"
    by (simp add: d1_def)
  have "mppc_decompress d out (length out) flags =
    Some (1, Some (take n (drop off hist)), d\<lparr>mppc_bs := b3, HistoryBuffer := hist, HistoryPtr := off + n, HistoryOffset := o'\<rparr>)"
    unfolding mppc_decompress_def b(1,2) bind.bind_lunit Let_def d1' fl using c loop lv rd by simp
  then show ?thesis by blast
qed


lemma mppc_decompress_plain:
  assumes "flags AND PACKET_COMPRESSED = 0" "flags AND PACKET_FLUSHED \<noteq> 0" "8 * length p < 2 ^ 31" "HistoryBufferSize d \<le> 65536"
    "length (HistoryBuffer d) = 65536" "drop (HistoryBufferSize d) (HistoryBuffer d) = replicate (65536 - HistoryBufferSize d) 0"
  shows "\<exists>bs. mppc_decompress d p (length p) flags = Some (1, Some p, d\<lparr>mppc_bs := bs, HistoryOffset := 0, HistoryPtr := 0, HistoryBuffer := replicate 65536 0\<rparr>)"
proof -
  from Attach_Fetch_reads [OF order.refl assms(3), of "mppc_bs d"] obtain b1 b2 where b: "BitStream_Attach (mppc_bs d) p (length p) = Some b1"
    "BitStream_Fetch b1 = Some b2" by blast
  have "replicate (HistoryBufferSize d) 0 @ replicate (65536 - HistoryBufferSize d) 0 = replicate 65536 (0 :: byte)"
    using assms(4) by (simp flip: replicate_add)
  then have "mem_write (HistoryBuffer d) 0 (replicate (HistoryBufferSize d) 0) = Some (replicate 65536 0)" using assms(4-6) by (simp add: mem_write_def)
  then show ?thesis using assms(1,2) b
    by (intro exI [of _ b2]) (cases "flags AND PACKET_AT_FRONT = 0"; simp add: mppc_decompress_def Let_def)
qed

text \<open>One packet.\<close>

lemma mppc_packet:
  assumes sync: "mppc_sync c d" and p: "0 < length p" "length p + 3 < HistoryBufferSize c" and dst: "0 < length dst"
  shows "\<exists>flags out c' d'. mppc_compress before c p (length p) (Some dst) (length dst) = Some (1, flags, out, c') \<and>
    mppc_decompress d out (length out) flags = Some (1, Some p, d') \<and> mppc_sync c' d' \<and> HistoryBufferSize c' = HistoryBufferSize c"
proof -
  let ?level = "CompressionLevel c" and ?hbs = "HistoryBufferSize c" and ?off = "mppc_start c (length p)" and ?front = "mppc_front c (length p)"
  have y: "level_size ?level ?hbs" "?level < 2" "CompressionLevel d = ?level" "HistoryBufferSize d = ?hbs" "HistoryBuffer d = HistoryBuffer c"
    "length (HistoryBuffer c) = 65536" "drop ?hbs (HistoryBuffer c) = replicate (65536 - ?hbs) 0" using sync by (simp_all add: mppc_sync_def)
  have hbs: "?hbs \<le> 65536" using y(1) by (auto simp: level_size_def split: if_splits)
  have room: "?off + length p + 3 < ?hbs" by (rule sync_start [OF sync p(2)])
  from mppc_compress_cases [OF sync p dst, of before] obtain flags out c' where
    run: "mppc_compress before c p (length p) (Some dst) (length dst) = Some (1, flags, out, c')" and
    res: "flags = PACKET_FLUSHED OR word_of_nat ?level \<and> out = p \<and> (\<exists>bs. c' = mppc_context_reset (c\<lparr>mppc_bs := bs\<rparr>) True) \<or>
     flags = mppc_flags ?level ?front (?front \<and> HistoryOffset c = ?hbs + 1) \<and>
     (\<exists>ss bs hist ma. (\<forall>s\<in>set ss. sym_ok ?hbs s) \<and> sum_list (map sym_len ss) = length p \<and>
       syms_exec ?hbs ss (HistoryBuffer c, ?off) = Some (hist, ?off + length p) \<and> take (length p) (drop ?off hist) = p \<and> length hist = 65536 \<and>
       drop ?hbs hist = drop ?hbs (HistoryBuffer c) \<and> length ma = 32768 \<and> (\<forall>e\<in>set ma. e + 3 < ?hbs) \<and>
       length out = (length (syms_bits ?level ss) + 7) div 8 \<and> length out \<le> length p \<and> (\<forall>k < length (syms_bits ?level ss). sbit out k = syms_bits ?level ss ! k) \<and>
       c' = c\<lparr>mppc_bs := bs, HistoryBuffer := hist, MatchBuffer := ma, HistoryPtr := ?off + length p, HistoryOffset := ?off + length p\<rparr>)"
    by blast
  have p31: "8 * length p < 2 ^ 31" using room hbs by simp
  from res show ?thesis
  proof (elim disjE conjE exE)
    fix bs
    assume f: "flags = PACKET_FLUSHED OR word_of_nat ?level" "out = p" "c' = mppc_context_reset (c\<lparr>mppc_bs := bs\<rparr>) True"
    have "\<exists>bs. mppc_decompress d out (length out) flags =
      Some (1, Some p, d\<lparr>mppc_bs := bs, HistoryOffset := 0, HistoryPtr := 0, HistoryBuffer := replicate 65536 0\<rparr>)"
      unfolding f(1,2) by (rule mppc_decompress_plain) (use mppc_flags_tests(4,5) [OF y(2)] p31 hbs y in simp_all)
    moreover have "mppc_sync c' (d\<lparr>mppc_bs := bs', HistoryOffset := 0, HistoryPtr := 0, HistoryBuffer := replicate 65536 0\<rparr>)" for bs'
      using y hbs by (simp add: mppc_sync_def f(3) mppc_context_reset_def)
    ultimately show ?thesis using run by (auto simp: f(3) mppc_context_reset_def)
  next
    fix ss bs hist ma
    assume f: "flags = mppc_flags ?level ?front (?front \<and> HistoryOffset c = ?hbs + 1)"
      and ss: "\<forall>s\<in>set ss. sym_ok ?hbs s" "sum_list (map sym_len ss) = length p"
      "syms_exec ?hbs ss (HistoryBuffer c, ?off) = Some (hist, ?off + length p)" "take (length p) (drop ?off hist) = p" "length hist = 65536"
      "drop ?hbs hist = drop ?hbs (HistoryBuffer c)" "length ma = 32768" "\<forall>e\<in>set ma. e + 3 < ?hbs"
      and out: "length out = (length (syms_bits ?level ss) + 7) div 8" "length out \<le> length p" "\<forall>k < length (syms_bits ?level ss). sbit out k = syms_bits ?level ss ! k"
      and c': "c' = c\<lparr>mppc_bs := bs, HistoryBuffer := hist, MatchBuffer := ma, HistoryPtr := ?off + length p, HistoryOffset := ?off + length p\<rparr>"
    note fl = mppc_flags_tests(1-3) [OF y(2), of ?front "?front \<and> HistoryOffset c = ?hbs + 1", folded f]
    have "?hbs + 1 + length p < 2 ^ 32" using room hbs by simp
    then have "HistoryOffset c = ?hbs + 1 \<Longrightarrow> ?front" by (simp add: mppc_front_def)
    then have "\<not> ?front \<Longrightarrow> HistoryPtr d = HistoryOffset c" using sync by (auto simp: mppc_sync_def)
    moreover have "HistoryOffset c = ?hbs + 1 \<Longrightarrow> HistoryBuffer d = replicate 65536 0" using sync by (auto simp: mppc_sync_def)
    ultimately have "\<exists>bs o'. mppc_decompress d out (length out) flags =
      Some (1, Some (take (length p) (drop ?off hist)), d\<lparr>mppc_bs := bs, HistoryBuffer := hist, HistoryPtr := ?off + length p, HistoryOffset := o'\<rparr>)"
      using ss out y room p31 fl by (intro mppc_decompress_syms [OF y(1,3,4)]) (auto simp: mppc_start_def)
    moreover have "mppc_sync c' (d\<lparr>mppc_bs := bs', HistoryBuffer := hist, HistoryPtr := ?off + length p, HistoryOffset := o'\<rparr>)" for bs' o'
      using y ss room by (simp add: mppc_sync_def c')
    ultimately show ?thesis using run ss(4) by (auto simp: c')
  qed
qed

end
