(* ===== verification/MppcChannel.thy ===== *)
theory MppcChannel
  imports MppcProps
begin

text \<open>
  The bulk compressor as a whole: the packets that one context compresses come out of the other
  as they went in, a packet never grows, and what the decompressor does with a packet that no
  compressor wrote.
\<close>

subsection \<open>A channel\<close>

text \<open>The two sides: each packet is compressed with one context and decompressed with the other.\<close>

fun mppc_channel :: "byte \<Rightarrow> byte list \<Rightarrow> MPPC_CONTEXT \<Rightarrow> MPPC_CONTEXT \<Rightarrow> byte list list \<Rightarrow>
    (byte list option list \<times> MPPC_CONTEXT \<times> MPPC_CONTEXT) option" where
  "mppc_channel before dst c d [] = Some ([], c, d)"
| "mppc_channel before dst c d (p # ps) = do {
     (status, flags, out, c) \<leftarrow> mppc_compress before c p (length p) (Some dst) (length dst);
     (status, q, d) \<leftarrow> mppc_decompress d out (length out) flags;
     (qs, c, d) \<leftarrow> mppc_channel before dst c d ps;
     Some (q # qs, c, d) }"

lemma mppc_channel_sync:
  assumes "0 < length dst"
  shows "mppc_sync c d \<Longrightarrow> \<forall>p\<in>set ps. 0 < length p \<and> length p + 3 < HistoryBufferSize c \<Longrightarrow>
    \<exists>c' d'. mppc_channel before dst c d ps = Some (map Some ps, c', d') \<and> mppc_sync c' d'"
proof (induction ps arbitrary: c d)
  case (Cons p ps)
  from mppc_packet [OF Cons.prems(1) _ _ assms, of p before] Cons.prems(2) obtain flags out c1 d1 where
    1: "mppc_compress before c p (length p) (Some dst) (length dst) = Some (1, flags, out, c1)"
      "mppc_decompress d out (length out) flags = Some (1, Some p, d1)" "mppc_sync c1 d1" "HistoryBufferSize c1 = HistoryBufferSize c" by auto
  from Cons.IH [OF 1(3)] Cons.prems(2) 1(4) obtain c' d' where "mppc_channel before dst c1 d1 ps = Some (map Some ps, c', d')" "mppc_sync c' d'" by auto
  then show ?case using 1(1,2) by simp
qed simp

lemma mppc_new_eq:
  "\<exists>c. mppc_context_new True True level compressor = Some c \<and> HistoryBufferSize c = (if level < 1 then 8192 else 65536) \<and>
    CompressionLevel c = (if level < 1 then 0 else 1) \<and> HistoryBuffer c = replicate 65536 0 \<and> MatchBuffer c = replicate 32768 0 \<and>
    HistoryOffset c = 0 \<and> HistoryPtr c = 0 \<and> mppc_bs c = BitStream_New"
  by (simp add: mppc_context_new_def mppc_context_reset_def Let_def)

lemma mppc_new_sync:
  assumes "mppc_context_new True True level True = Some c" "mppc_context_new True True level False = Some d"
  shows "mppc_sync c d"
  using assms mppc_new_eq [of level True] mppc_new_eq [of level False] by (auto simp: mppc_sync_def level_size_def)

text \<open>
  Bulk compression, round trip (C17): with a compressor and a decompressor made by
  \<open>mppc_context_new\<close> with the same level, every sequence of non-empty packets that fit the
  history comes out as it went in, in both protocol versions, whatever the size of the output
  buffer (a packet that does not fit it is sent as it is and the histories start over), and
  whatever the byte before the history is.
\<close>

theorem mppc_channel_faithful:
  assumes "mppc_context_new True True level True = Some c" "mppc_context_new True True level False = Some d"
    and "\<forall>p\<in>set ps. 0 < length p \<and> length p + 3 < (if level < 1 then 8192 else 65536)" "0 < length dst"
  shows "\<exists>c' d'. mppc_channel before dst c d ps = Some (map Some ps, c', d')"
proof -
  have "HistoryBufferSize c = (if level < 1 then 8192 else 65536)" using mppc_new_eq [of level True] assms(1) by auto
  then show ?thesis using mppc_channel_sync [OF assms(4) mppc_new_sync [OF assms(1,2)], of ps before] assms(3) by auto
qed

theorem mppc_channel_faithful_witness:
  "\<exists>c d c' d'. mppc_context_new True True 1 True = Some c \<and> mppc_context_new True True 1 False = Some d \<and>
    mppc_channel 0 (replicate 16 0) c d [[1, 2, 3, 1, 2, 3, 1, 2, 3], [9], [1, 2, 3, 4]] =
      Some ([Some [1, 2, 3, 1, 2, 3, 1, 2, 3], Some [9], Some [1, 2, 3, 4]], c', d')"
proof -
  from mppc_new_eq [of 1 True] mppc_new_eq [of 1 False] obtain c d where
    n: "mppc_context_new True True 1 True = Some c" "mppc_context_new True True 1 False = Some d" by blast
  from mppc_channel_faithful [OF n, of "[[1, 2, 3, 1, 2, 3, 1, 2, 3], [9], [1, 2, 3, 4]]" "replicate 16 0" 0] n show ?thesis by auto
qed

subsection \<open>Packets that no compressor wrote\<close>

lemma mppc_copy_total:
  "0 < n \<Longrightarrow> d + n \<le> length h \<Longrightarrow> s + n \<le> length h \<Longrightarrow> \<exists>h'. mppc_copy h d s n = Some h' \<and> length h' = length h"
proof (induction h d s n rule: mppc_copy.induct)
  case (2 h d s n)
  then show ?case using "2.IH" [of "h ! s" "h[d := h ! s]"] by (cases "n = 0") auto
qed simp

definition mppc_errors :: "int set" where
  "mppc_errors = {-1001, -1002, -1003, -1004, -1005}"

lemma read_offset_error: "mppc_read_offset level acc = Inl e \<Longrightarrow> e \<in> mppc_errors"
  by (auto simp: mppc_read_offset_def mppc_errors_def split: if_splits)

definition length_error :: "int + nat \<times> nat \<Rightarrow> bool" where
  "length_error r \<longleftrightarrow> (\<forall>e. r = Inl e \<longrightarrow> e = -1003)"

lemma length_error_if: "length_error x \<Longrightarrow> length_error y \<Longrightarrow> length_error (if b then x else y)"
  by simp

lemma read_length_error: "mppc_read_length level acc = Inl e \<Longrightarrow> e \<in> mppc_errors"
proof -
  have "length_error (mppc_read_length level acc)"
    unfolding mppc_read_length_def by (intro length_error_if) (simp_all add: length_error_def)
  then show "mppc_read_length level acc = Inl e \<Longrightarrow> e \<in> mppc_errors" by (simp add: length_error_def mppc_errors_def)
qed

text \<open>A round of the RDP 4.0 decompressor: the history buffer is longer than the history, so that no copy leaves it.\<close>

lemma rdp4_step:
  assumes rd: "reading bs" and h: "length hist = 65536"
  shows "\<exists>err bs' hist' ptr'. mppc_decompress_step 0 8192 (bs, hist, ptr) = Some (err, bs', hist', ptr') \<and> reading bs' \<and> length hist' = 65536 \<and>
    ptr \<le> ptr' \<and> (err = None \<longrightarrow> ptr' \<le> 8192) \<and> set_option err \<subseteq> mppc_errors"
proof -
  let ?a = "bs_accumulator bs"
  consider "ptr > 8191" | "ptr \<le> 8191" "?a AND 0x80000000 = 0 \<or> ?a AND 0xC0000000 = 0x80000000"
    | "ptr \<le> 8191" "?a AND 0x80000000 \<noteq> 0" "?a AND 0xC0000000 \<noteq> 0x80000000" by linarith
  then show ?thesis
  proof cases
    case 1
    then show ?thesis using assms by (simp add: mppc_decompress_step_def mppc_errors_def)
  next
    case 2
    from Shift_reads [OF rd, of 8] Shift_reads [OF rd, of 9] obtain b8 b9 where
      "BitStream_Shift bs 8 = Some b8" "BitStream_Shift bs 9 = Some b9" "reading b8" "reading b9" by auto
    then show ?thesis using 2 h by (auto simp: mppc_decompress_step_def Let_def)
  next
    case 3
    show ?thesis
    proof (cases "mppc_read_offset 0 ?a")
      case (Inl e)
      then show ?thesis using 3 assms read_offset_error [OF Inl] by (simp add: mppc_decompress_step_def Let_def)
    next
      case (Inr p)
      obtain off n where p: "p = (off, n)" by (cases p)
      from read_offset_bits [OF Inr [unfolded p]] Shift_reads [OF rd, of n] obtain b1 where
        b1: "BitStream_Shift bs n = Some b1" "reading b1" by auto
      show ?thesis
      proof (cases "mppc_read_length 0 (bs_accumulator b1)")
        case (Inl e)
        then show ?thesis using 3 h b1 Inr p read_length_error [OF Inl] by (simp add: mppc_decompress_step_def Let_def)
      next
        case len: (Inr q)
        obtain l m where q: "q = (l, m)" by (cases q)
        note lm = read_length_bits [OF len [unfolded q]]
        from lm Shift_reads [OF b1(2), of m] obtain b2 where b2: "BitStream_Shift b1 m = Some b2" "reading b2" by auto
        let ?s = "nat ((int ptr - int off) AND 0x1FFF)"
        have "(int ptr - int off) AND 0x1FFF \<le> 0x1FFF" by simp
        then have s: "?s \<le> 8191" by linarith
        show ?thesis
        proof (cases "ptr + l - 1 > 8191")
          case True
          then show ?thesis using 3 h b1 b2 Inr p len q by (simp add: mppc_decompress_step_def Let_def mppc_errors_def)
        next
          case False
          then have "ptr + l \<le> 8192" using lm by linarith
          moreover from this mppc_copy_total [of l ptr hist ?s] lm s h obtain hist' where
            "mppc_copy hist ptr ?s l = Some hist'" "length hist' = 65536" by auto
          ultimately show ?thesis using False 3 b1 b2 Inr p len q by (simp add: mppc_decompress_step_def Let_def)
        qed
      qed
    qed
  qed
qed

lemma rdp4_loop:
  "reading bs \<Longrightarrow> length hist = 65536 \<Longrightarrow> ptr \<le> 8192 \<Longrightarrow>
    \<exists>err bs' hist' ptr'. mppc_decompress_loop 0 8192 (bs, hist, ptr) = Some (err, bs', hist', ptr') \<and> length hist' = 65536 \<and>
      ptr \<le> ptr' \<and> (err = None \<longrightarrow> ptr' \<le> 8192) \<and> set_option err \<subseteq> mppc_errors"
proof (induction "bs_length bs - bs_position bs" arbitrary: bs hist ptr rule: less_induct)
  case less
  show ?case
  proof (cases "BitStream_GetRemainingLength bs \<ge> 8")
    case False
    then show ?thesis using less.prems by (subst mppc_decompress_loop.simps) simp
  next
    case True
    from rdp4_step [OF less.prems(1,2), of ptr] obtain err bs' hist' ptr' where
      s: "mppc_decompress_step 0 8192 (bs, hist, ptr) = Some (err, bs', hist', ptr')" "reading bs'" "length hist' = 65536"
        "ptr \<le> ptr'" "err = None \<longrightarrow> ptr' \<le> 8192" "set_option err \<subseteq> mppc_errors" by blast
    show ?thesis
    proof (cases err)
      case None
      have "bs_length bs' - bs_position bs' < bs_length bs - bs_position bs"
        using decompress_step_advances [OF s(1) [unfolded None]] True by (auto simp: BitStream_GetRemainingLength_def)
      from less.hyps [OF this s(2,3)] s(5) None obtain err2 bs2 hist2 ptr2 where
        "mppc_decompress_loop 0 8192 (bs', hist', ptr') = Some (err2, bs2, hist2, ptr2)" "length hist2 = 65536" "ptr' \<le> ptr2"
        "err2 = None \<longrightarrow> ptr2 \<le> 8192" "set_option err2 \<subseteq> mppc_errors" by blast
      then show ?thesis using True s None by (subst mppc_decompress_loop.simps) auto
    next
      case (Some e)
      then show ?thesis using True s by (subst mppc_decompress_loop.simps) auto
    qed
  qed
qed

text \<open>The invariant of a context of level 0.\<close>

definition rdp4_context :: "MPPC_CONTEXT \<Rightarrow> bool" where
  "rdp4_context d \<longleftrightarrow> CompressionLevel d = 0 \<and> HistoryBufferSize d = 8192 \<and> length (HistoryBuffer d) = 65536 \<and> HistoryPtr d \<le> 8192"

lemma rdp4_flags:
  assumes "rdp4_context d"
  shows "\<exists>d'. (if flags AND PACKET_FLUSHED \<noteq> 0
      then do {
        buf \<leftarrow> mem_write (HistoryBuffer (if flags AND PACKET_AT_FRONT \<noteq> 0 then d\<lparr>HistoryOffset := 0, HistoryPtr := 0\<rparr> else d)) 0
          (replicate (HistoryBufferSize (if flags AND PACKET_AT_FRONT \<noteq> 0 then d\<lparr>HistoryOffset := 0, HistoryPtr := 0\<rparr> else d)) 0);
        Some ((if flags AND PACKET_AT_FRONT \<noteq> 0 then d\<lparr>HistoryOffset := 0, HistoryPtr := 0\<rparr> else d)\<lparr>HistoryOffset := 0, HistoryPtr := 0, HistoryBuffer := buf\<rparr>) }
      else Some (if flags AND PACKET_AT_FRONT \<noteq> 0 then d\<lparr>HistoryOffset := 0, HistoryPtr := 0\<rparr> else d)) = Some d' \<and> rdp4_context d'"
  using assms by (auto simp: rdp4_context_def mem_write_def)

text \<open>
  Safety of the RDP 4.0 decompressor (C18): whatever the bytes and the flags of a packet are, a context
  of level 0 decompresses it with no access outside its arrays and keeps its invariant. The
  result is the status 1 with at most a history of bytes (or the packet itself, when it is not
  compressed), or one of the five error codes and no bytes.
\<close>

theorem mppc_decompress_rdp4_safe:
  assumes "rdp4_context d" "SrcSize \<le> length pSrcData" "8 * SrcSize < 2 ^ 31"
  shows "\<exists>status out d'. mppc_decompress d pSrcData SrcSize flags = Some (status, out, d') \<and> rdp4_context d' \<and>
    (status = 1 \<and> (\<exists>o'. out = Some o' \<and> length o' \<le> max 8192 SrcSize) \<or> status \<in> {-1001, -1002, -1003, -1004, -1005} \<and> out = None)"
proof -
  from Attach_Fetch_reads [OF assms(2,3), of "mppc_bs d"] obtain b1 b2 where b: "BitStream_Attach (mppc_bs d) pSrcData SrcSize = Some b1"
    "BitStream_Fetch b1 = Some b2" "reading b2" by blast
  have "rdp4_context (d\<lparr>mppc_bs := b2\<rparr>)" using assms(1) by (simp add: rdp4_context_def)
  from rdp4_flags [OF this, of flags] obtain d1 where d1: "mppc_decompress d pSrcData SrcSize flags =
      (if flags AND PACKET_COMPRESSED = 0 then Some (1, Some (take SrcSize pSrcData), d1)
       else do {
         (err, bs, hist, ptr) \<leftarrow> mppc_decompress_loop (CompressionLevel d1) (HistoryBufferSize d1) (b2, HistoryBuffer d1, HistoryPtr d1);
         let mppc = d1\<lparr>mppc_bs := bs, HistoryBuffer := hist\<rparr>;
         (case err of
            Some status \<Rightarrow> Some (status, None, mppc)
          | None \<Rightarrow> do {
              out \<leftarrow> mem_read hist (HistoryPtr mppc) (ptr - HistoryPtr mppc);
              Some (1, Some out, mppc\<lparr>HistoryPtr := ptr\<rparr>) }) })" and i: "rdp4_context d1"
    unfolding mppc_decompress_def b(1,2) bind.bind_lunit Let_def by (elim exE conjE) (simp only: bind.bind_lunit)
  from i have c: "CompressionLevel d1 = 0" "HistoryBufferSize d1 = 8192" "length (HistoryBuffer d1) = 65536" "HistoryPtr d1 \<le> 8192"
    by (simp_all add: rdp4_context_def)
  from rdp4_loop [OF b(3) c(3,4)] obtain err bs hist ptr where l: "mppc_decompress_loop 0 8192 (b2, HistoryBuffer d1, HistoryPtr d1) = Some (err, bs, hist, ptr)"
    "length hist = 65536" "HistoryPtr d1 \<le> ptr" "err = None \<longrightarrow> ptr \<le> 8192" "set_option err \<subseteq> mppc_errors" by blast
  show ?thesis
  proof (cases "flags AND PACKET_COMPRESSED = 0")
    case True
    then show ?thesis using i unfolding d1 by auto
  next
    case False
    then show ?thesis using l c i unfolding d1 by (cases err) (auto simp: rdp4_context_def mem_read_def mppc_errors_def)
  qed
qed

theorem mppc_decompress_rdp4_safe_witness:
  "\<exists>d status out d'. mppc_context_new True True 0 False = Some d \<and> rdp4_context d \<and>
    mppc_decompress d [0xF8, 0x20] 2 (PACKET_COMPRESSED OR PACKET_AT_FRONT) = Some (status, out, d') \<and> rdp4_context d'"
proof -
  from mppc_new_eq [of 0 False] obtain d where n: "mppc_context_new True True 0 False = Some d" "rdp4_context d" by (auto simp: rdp4_context_def)
  from mppc_decompress_rdp4_safe [OF n(2), of 2 "[0xF8, 0x20]" "PACKET_COMPRESSED OR PACKET_AT_FRONT"] n show ?thesis by auto
qed

lemma mppc_copy_past: "mppc_copy (replicate 65536 0) 0 65535 3 = None"
  by (simp add: numeral_3_eq_3 mem_get_def)

text \<open>
  Out-of-bounds read of the RDP 5.0 decompressor (C20): here the history fills its buffer, and only the
  destination of a copy is checked. A packet of two bytes whose copy starts at the last byte of
  the history, from the first position, makes a new context of level 1 read past its history
  buffer.
\<close>

theorem mppc_decompress_rdp5_reads_past_history:
  "\<exists>d. mppc_context_new True True 1 False = Some d \<and> mppc_decompress d [0xF8, 0x20] 2 (PACKET_COMPRESSED OR PACKET_AT_FRONT) = None"
proof -
  from mppc_new_eq [of 1 False] obtain d where n: "mppc_context_new True True 1 False = Some d" "HistoryBufferSize d = 65536"
    "CompressionLevel d = 1" "HistoryBuffer d = replicate 65536 0" "mppc_bs d = BitStream_New" by auto
  let ?b = "\<lparr>bs_buffer = [0xF8, 0x20], bs_pointer = 0, bs_position = 0, bs_length = 16, bs_capacity = 2, bs_mask = 0, bs_offset = 0,
    bs_prefetch = 0, bs_accumulator = 0xF8200000\<rparr>"
  have a: "BitStream_Attach BitStream_New [0xF8, 0x20] 2 \<bind> BitStream_Fetch = Some ?b"
    by (simp add: BitStream_Attach_def BitStream_New_def int_mult_def BitStream_Fetch_def BitStream_Prefetch_def bs_load_def)
  have s: "mppc_decompress_step 1 65536 (?b, replicate 65536 0, 0) = None"
    by (simp add: mppc_decompress_step_def mppc_read_offset_def BitStream_Shift_def bs_pull_def mppc_read_length_def mppc_copy_past)
  have "mppc_decompress_loop 1 65536 (?b, replicate 65536 0, 0) = None"
    using s by (subst mppc_decompress_loop.simps) (simp add: BitStream_GetRemainingLength_def)
  moreover have "(PACKET_COMPRESSED OR PACKET_AT_FRONT) AND PACKET_AT_FRONT \<noteq> 0" "(PACKET_COMPRESSED OR PACKET_AT_FRONT) AND PACKET_FLUSHED = 0"
    "(PACKET_COMPRESSED OR PACKET_AT_FRONT) AND PACKET_COMPRESSED \<noteq> 0"
    by (simp_all add: PACKET_COMPRESSED_def PACKET_AT_FRONT_def PACKET_FLUSHED_def)
  ultimately have "mppc_decompress d [0xF8, 0x20] 2 (PACKET_COMPRESSED OR PACKET_AT_FRONT) = None"
    using a n by (auto simp: mppc_decompress_def Let_def bind_eq_Some_conv)
  then show ?thesis using n(1) by blast
qed

subsection \<open>The match table\<close>

lemma match_table_eq: "MPPC_MATCH_TABLE = map (\<lambda>i. of_nat i * 0x9CCF93) [0..<256]"
  by code_simp

lemma match_table_nth: "MPPC_MATCH_TABLE ! unat (x :: byte) = ucast x * 0x9CCF93"
proof -
  have "unat x < 256" using unsigned_less [of x] by simp
  then show ?thesis by (simp add: match_table_eq)
qed

lemma index_mask: "unat (drop_bit 12 ((w :: u32) AND 0x07FFF000)) = unat w div 2 ^ 12 mod 2 ^ 15"
proof -
  have "drop_bit 12 (0x07FFF000 :: u32) = mask 15" by (simp add: mask_eq_exp_minus_1)
  then have "drop_bit 12 (w AND 0x07FFF000) = take_bit 15 (drop_bit 12 w)" by (simp only: drop_bit_and take_bit_eq_mask)
  then show ?thesis
    by (simp only: unsigned_take_bit_eq unsigned_drop_bit_eq take_bit_eq_mod [symmetric] drop_bit_eq_div [symmetric] take_bit_drop_bit) simp
qed

text \<open>
  The match table, equivalence with a closed form (C28): the index that \<open>mppc_compress\<close> computes with
  the table of 256 words is the multiplicative hash, of 15 bits, of the three symbols as a
  number of 24 bits.
\<close>

theorem MPPC_MATCH_INDEX_hash:
  "MPPC_MATCH_INDEX a b c = (unat (((ucast c * 2 ^ 16 + ucast b * 2 ^ 8 + ucast a) :: u32) * 0x9CCF93) div 2 ^ 12) mod 2 ^ 15"
proof -
  have "push_bit 16 (ucast c * 0x9CCF93) + push_bit 8 (ucast b * 0x9CCF93) + ucast a * 0x9CCF93 =
    ((ucast c * 2 ^ 16 + ucast b * 2 ^ 8 + ucast a) * 0x9CCF93 :: u32)" by (simp add: push_bit_eq_mult algebra_simps)
  then show ?thesis by (simp only: MPPC_MATCH_INDEX_def match_table_nth index_mask)
qed

end
