(* ===== verification/Utf.thy ===== *)
theory Utf
  imports Ring
begin

text \<open>
  The conversions between UTF-8, UTF-16 and UTF-32 of \<open>winpr/libwinpr/crt/utf.c\<close> and the
  functions of \<open>winpr/libwinpr/crt/unicode.c\<close> built on them. A source is the list of its units with
  the position of the next one. A target is \<^const>\<open>None\<close> when the end pointer is \<open>NULL\<close>, which asks for the
  length only, and otherwise the memory up to the end pointer; writing behind it is \<^const>\<open>None\<close> as a
  result.
\<close>

type_synonym WCHAR = u16

datatype ConversionResult = conversionOK | sourceExhausted | targetExhausted | sourceIllegal

datatype ConversionFlags = strictConversion | lenientConversion

definition UNI_REPLACEMENT_CHAR :: u32 where "UNI_REPLACEMENT_CHAR = 0xFFFD"

definition sur_high :: "u32 \<Rightarrow> bool" where "sur_high ch \<longleftrightarrow> ch \<ge> 0xD800 \<and> ch \<le> 0xDBFF"

definition sur_low :: "u32 \<Rightarrow> bool" where "sur_low ch \<longleftrightarrow> ch \<ge> 0xDC00 \<and> ch \<le> 0xDFFF"

definition sur_any :: "u32 \<Rightarrow> bool" where "sur_any ch \<longleftrightarrow> ch \<ge> 0xD800 \<and> ch \<le> 0xDFFF"

subsection \<open>Targets\<close>

definition put :: "'a list option \<Rightarrow> nat \<Rightarrow> 'a list \<Rightarrow> 'a list option option" where
  "put buf t xs = (case buf of None \<Rightarrow> Some None | Some b \<Rightarrow> map_option Some (mem_write b t xs))"

definition no_room :: "'a list option \<Rightarrow> nat \<Rightarrow> nat \<Rightarrow> bool" where
  "no_room buf t n = (case buf of None \<Rightarrow> False | Some b \<Rightarrow> t + n > length b)"

type_synonym 'a converted = "(ConversionResult \<times> nat \<times> 'a list option \<times> nat) option"

subsection \<open>Reading a character\<close>

text \<open>From UTF-16: the character with the next position, or the result of the conversion, which ends at the unit itself.\<close>

definition utf16_next :: "ConversionFlags \<Rightarrow> WCHAR list \<Rightarrow> nat \<Rightarrow> ConversionResult + u32 \<times> nat" where
  "utf16_next flags src i =
     (let ch = ucast (src ! i) in
      if sur_high ch then
        (if i + 1 < length src
         then
           let ch2 = ucast (src ! (i + 1)) in
           if sur_low ch2 then Inr (push_bit 10 (ch - 0xD800) + (ch2 - 0xDC00) + 0x10000, i + 2)
           else if flags = strictConversion then Inl sourceIllegal
           else Inr (ch, i + 1)
         else Inl sourceExhausted)
      else if flags = strictConversion \<and> sur_low ch then Inl sourceIllegal
      else Inr (ch, i + 1))"

definition trailingBytesForUTF8 :: "nat list" where
  "trailingBytesForUTF8 = replicate 192 0 @ replicate 32 1 @ replicate 16 2 @ replicate 8 3 @ replicate 4 4 @ replicate 4 5"

definition offsetsFromUTF8 :: "u32 list" where
  "offsetsFromUTF8 = [0, 0x3080, 0xE2080, 0x3C82080, 0xFA082080, 0x82082080]"

definition firstByteMark :: "u32 list" where
  "firstByteMark = [0, 0, 0xC0, 0xE0, 0xF0, 0xF8, 0xFC]"

text \<open>The first \<open>len\<close> bytes of \<open>source\<close>; the tests in the order of the cases, which fall through.\<close>

definition isLegalUTF8 :: "byte list \<Rightarrow> nat \<Rightarrow> bool" where
  "isLegalUTF8 source len \<longleftrightarrow>
     (len = 1 \<or> len = 2 \<or> len = 3 \<or> len = 4) \<and>
     (len \<ge> 4 \<longrightarrow> \<not> (source ! 3 < 0x80 \<or> source ! 3 > 0xBF)) \<and>
     (len \<ge> 3 \<longrightarrow> \<not> (source ! 2 < 0x80 \<or> source ! 2 > 0xBF)) \<and>
     (len \<ge> 2 \<longrightarrow> \<not> source ! 1 > 0xBF \<and>
        \<not> (if source ! 0 = 0xE0 then source ! 1 < 0xA0
           else if source ! 0 = 0xED then source ! 1 > 0x9F
           else if source ! 0 = 0xF0 then source ! 1 < 0x90
           else if source ! 0 = 0xF4 then source ! 1 > 0x8F
           else source ! 1 < 0x80)) \<and>
     \<not> (source ! 0 \<ge> 0x80 \<and> source ! 0 < 0xC2) \<and>
     \<not> source ! 0 > 0xF4"

definition isLegalUTF8Sequence :: "byte list \<Rightarrow> bool" where
  "isLegalUTF8Sequence source =
     (let len = trailingBytesForUTF8 ! unat (source ! 0) + 1 in if len > length source then False else isLegalUTF8 source len)"

text \<open>The switch that adds up the bytes of a character.\<close>

fun utf8_sum :: "u32 \<Rightarrow> byte list \<Rightarrow> u32" where
  "utf8_sum ch [] = ch"
| "utf8_sum ch [b] = ch + ucast b"
| "utf8_sum ch (b # bs) = utf8_sum (push_bit 6 (ch + ucast b)) bs"

definition utf8_next :: "byte list \<Rightarrow> nat \<Rightarrow> ConversionResult + u32 \<times> nat" where
  "utf8_next src i =
     (let extraBytesToRead = trailingBytesForUTF8 ! unat (src ! i) in
      if i + extraBytesToRead \<ge> length src then Inl sourceExhausted
      else if \<not> isLegalUTF8 (drop i src) (extraBytesToRead + 1) then Inl sourceIllegal
      else Inr (utf8_sum 0 (take (extraBytesToRead + 1) (drop i src)) - offsetsFromUTF8 ! extraBytesToRead, i + extraBytesToRead + 1))"

subsection \<open>Writing a character\<close>

definition bytesToWrite :: "u32 \<Rightarrow> nat \<times> u32" where
  "bytesToWrite ch =
     (if ch < 0x80 then (1, ch) else if ch < 0x800 then (2, ch) else if ch < 0x10000 then (3, ch)
      else if ch < 0x110000 then (4, ch) else (3, UNI_REPLACEMENT_CHAR))"

text \<open>The switch that writes the bytes from the last to the first.\<close>

fun utf8_write :: "nat \<Rightarrow> nat \<Rightarrow> u32 \<Rightarrow> byte list \<Rightarrow> byte list" where
  "utf8_write n 0 ch bs = bs"
| "utf8_write n (Suc 0) ch bs = ucast (ch OR firstByteMark ! n) # bs"
| "utf8_write n (Suc (Suc k)) ch bs = utf8_write n (Suc k) (drop_bit 6 ch) (ucast ((ch OR 0x80) AND 0xBF) # bs)"

lemma length_utf8_write: "length (utf8_write n k ch bs) = k + length bs"
  by (induction n k ch bs rule: utf8_write.induct) auto

subsection \<open>The conversions\<close>

function utf16_utf8_loop :: "ConversionFlags \<Rightarrow> WCHAR list \<Rightarrow> nat \<Rightarrow> byte list option \<Rightarrow> nat \<Rightarrow> byte converted" where
  "utf16_utf8_loop flags src i buf t =
     (if i < length src then
        (case utf16_next flags src i of
           Inl r \<Rightarrow> Some (r, i, buf, t)
         | Inr (ch, j) \<Rightarrow>
             (case bytesToWrite ch of (n, ch) \<Rightarrow>
              if no_room buf t n then Some (targetExhausted, i, buf, t)
              else (case put buf t (utf8_write n n ch []) of
                      None \<Rightarrow> None
                    | Some buf \<Rightarrow> utf16_utf8_loop flags src j buf (t + n))))
      else Some (conversionOK, i, buf, t))"
  by pat_completeness auto

lemma utf16_next_advances: "utf16_next flags src i = Inr (ch, j) \<Longrightarrow> i < j"
  by (auto simp: utf16_next_def Let_def split: if_splits)

lemma utf8_next_advances: "utf8_next src i = Inr (ch, j) \<Longrightarrow> i < j"
  by (auto simp: utf8_next_def Let_def split: if_splits)

termination utf16_utf8_loop
  by (relation "measure (\<lambda>(_, src, i, _). length src - i)") (auto dest!: utf16_next_advances)

declare utf16_utf8_loop.simps [simp del]

definition ConvertUTF16toUTF8 :: "WCHAR list \<Rightarrow> byte list option \<Rightarrow> ConversionFlags \<Rightarrow> byte converted" where
  "ConvertUTF16toUTF8 src buf flags = utf16_utf8_loop flags src 0 buf 0"

text \<open>The units that \<open>ConvertUTF8toUTF16\<close> writes for a character, or the result that ends the conversion.\<close>

definition utf16_units :: "ConversionFlags \<Rightarrow> WCHAR list option \<Rightarrow> nat \<Rightarrow> u32 \<Rightarrow> ConversionResult + WCHAR list" where
  "utf16_units flags buf t ch =
     (if no_room buf t 1 then Inl targetExhausted
      else if ch \<le> 0xFFFF then
        (if sur_any ch then (if flags = strictConversion then Inl sourceIllegal else Inr [ucast UNI_REPLACEMENT_CHAR])
         else Inr [ucast ch])
      else if ch > 0x10FFFF then (if flags = strictConversion then Inl sourceIllegal else Inr [ucast UNI_REPLACEMENT_CHAR])
      else if no_room buf t 2 then Inl targetExhausted
      else let ch = ch - 0x10000 in Inr [ucast (drop_bit 10 ch + 0xD800), ucast ((ch AND 0x3FF) + 0xDC00)])"

function utf8_utf16_loop :: "ConversionFlags \<Rightarrow> byte list \<Rightarrow> nat \<Rightarrow> WCHAR list option \<Rightarrow> nat \<Rightarrow> WCHAR converted" where
  "utf8_utf16_loop flags src i buf t =
     (if i < length src then
        (case utf8_next src i of
           Inl r \<Rightarrow> Some (r, i, buf, t)
         | Inr (ch, j) \<Rightarrow>
             (case utf16_units flags buf t ch of
                Inl r \<Rightarrow> Some (r, i, buf, t)
              | Inr ws \<Rightarrow>
                  (case put buf t ws of
                     None \<Rightarrow> None
                   | Some buf \<Rightarrow> utf8_utf16_loop flags src j buf (t + length ws))))
      else Some (conversionOK, i, buf, t))"
  by pat_completeness auto

termination utf8_utf16_loop
  by (relation "measure (\<lambda>(_, src, i, _). length src - i)") (auto dest!: utf8_next_advances)

declare utf8_utf16_loop.simps [simp del]

definition ConvertUTF8toUTF16 :: "byte list \<Rightarrow> WCHAR list option \<Rightarrow> ConversionFlags \<Rightarrow> WCHAR converted" where
  "ConvertUTF8toUTF16 src buf flags = utf8_utf16_loop flags src 0 buf 0"

text \<open>
  The conversions from and to UTF-32 have no mode that computes the length. Some errors do not
  end the loop; \<open>r\<close> is the result so far.
\<close>

function utf16_utf32_loop :: "ConversionFlags \<Rightarrow> WCHAR list \<Rightarrow> nat \<Rightarrow> u32 list option \<Rightarrow> nat \<Rightarrow> u32 converted" where
  "utf16_utf32_loop flags src i buf t =
     (if i < length src then
        (case utf16_next flags src i of
           Inl r \<Rightarrow> Some (r, i, buf, t)
         | Inr (ch, j) \<Rightarrow>
             if no_room buf t 1 then Some (targetExhausted, i, buf, t)
             else (case put buf t [ch] of None \<Rightarrow> None | Some buf \<Rightarrow> utf16_utf32_loop flags src j buf (t + 1)))
      else Some (conversionOK, i, buf, t))"
  by pat_completeness auto

termination utf16_utf32_loop
  by (relation "measure (\<lambda>(_, src, i, _). length src - i)") (auto dest!: utf16_next_advances)

declare utf16_utf32_loop.simps [simp del]

definition ConvertUTF16toUTF32 :: "WCHAR list \<Rightarrow> u32 list \<Rightarrow> ConversionFlags \<Rightarrow> u32 converted" where
  "ConvertUTF16toUTF32 src buf flags = utf16_utf32_loop flags src 0 (Some buf) 0"

function utf32_utf16_loop :: "ConversionFlags \<Rightarrow> u32 list \<Rightarrow> nat \<Rightarrow> WCHAR list option \<Rightarrow> nat \<Rightarrow> ConversionResult \<Rightarrow> WCHAR converted" where
  "utf32_utf16_loop flags src i buf t r =
     (if i < length src then
        (if no_room buf t 1 then Some (targetExhausted, i, buf, t)
         else
           let ch = src ! i in
           if ch \<le> 0xFFFF then
             (if sur_any ch \<and> flags = strictConversion then Some (sourceIllegal, i, buf, t)
              else (case put buf t [if sur_any ch then ucast UNI_REPLACEMENT_CHAR else ucast ch] of
                      None \<Rightarrow> None
                    | Some buf \<Rightarrow> utf32_utf16_loop flags src (i + 1) buf (t + 1) r))
           else if ch > 0x10FFFF then
             (if flags = strictConversion then utf32_utf16_loop flags src (i + 1) buf t sourceIllegal
              else (case put buf t [ucast UNI_REPLACEMENT_CHAR] of
                      None \<Rightarrow> None
                    | Some buf \<Rightarrow> utf32_utf16_loop flags src (i + 1) buf (t + 1) r))
           else if no_room buf t 2 then Some (targetExhausted, i, buf, t)
           else
             (case put buf t [ucast (drop_bit 10 (ch - 0x10000) + 0xD800), ucast (((ch - 0x10000) AND 0x3FF) + 0xDC00)] of
                None \<Rightarrow> None
              | Some buf \<Rightarrow> utf32_utf16_loop flags src (i + 1) buf (t + 2) r))
      else Some (r, i, buf, t))"
  by pat_completeness auto

termination utf32_utf16_loop
  by (relation "measure (\<lambda>(_, src, i, _). length src - i)") auto

declare utf32_utf16_loop.simps [simp del]

definition ConvertUTF32toUTF16 :: "u32 list \<Rightarrow> WCHAR list \<Rightarrow> ConversionFlags \<Rightarrow> WCHAR converted" where
  "ConvertUTF32toUTF16 src buf flags = utf32_utf16_loop flags src 0 (Some buf) 0 conversionOK"

function utf32_utf8_loop :: "ConversionFlags \<Rightarrow> u32 list \<Rightarrow> nat \<Rightarrow> byte list option \<Rightarrow> nat \<Rightarrow> ConversionResult \<Rightarrow> byte converted" where
  "utf32_utf8_loop flags src i buf t r =
     (if i < length src then
        let ch = src ! i in
        if flags = strictConversion \<and> sur_any ch then Some (sourceIllegal, i, buf, t)
        else
          (case bytesToWrite ch of (n, ch') \<Rightarrow>
           if no_room buf t n then Some (targetExhausted, i, buf, t)
           else (case put buf t (utf8_write n n ch' []) of
                   None \<Rightarrow> None
                 | Some buf \<Rightarrow> utf32_utf8_loop flags src (i + 1) buf (t + n) (if ch < 0x110000 then r else sourceIllegal)))
      else Some (r, i, buf, t))"
  by pat_completeness auto

termination utf32_utf8_loop
  by (relation "measure (\<lambda>(_, src, i, _). length src - i)") auto

declare utf32_utf8_loop.simps [simp del]

definition ConvertUTF32toUTF8 :: "u32 list \<Rightarrow> byte list \<Rightarrow> ConversionFlags \<Rightarrow> byte converted" where
  "ConvertUTF32toUTF8 src buf flags = utf32_utf8_loop flags src 0 (Some buf) 0 conversionOK"

function utf8_utf32_loop :: "ConversionFlags \<Rightarrow> byte list \<Rightarrow> nat \<Rightarrow> u32 list option \<Rightarrow> nat \<Rightarrow> ConversionResult \<Rightarrow> u32 converted" where
  "utf8_utf32_loop flags src i buf t r =
     (if i < length src then
        (case utf8_next src i of
           Inl r \<Rightarrow> Some (r, i, buf, t)
         | Inr (ch, j) \<Rightarrow>
             if no_room buf t 1 then Some (targetExhausted, i, buf, t)
             else if ch \<le> 0x10FFFF \<and> sur_any ch \<and> flags = strictConversion then Some (sourceIllegal, i, buf, t)
             else (case put buf t [if ch \<le> 0x10FFFF \<and> \<not> sur_any ch then ch else UNI_REPLACEMENT_CHAR] of
                     None \<Rightarrow> None
                   | Some buf \<Rightarrow> utf8_utf32_loop flags src j buf (t + 1) (if ch \<le> 0x10FFFF then r else sourceIllegal)))
      else Some (r, i, buf, t))"
  by pat_completeness auto

termination utf8_utf32_loop
  by (relation "measure (\<lambda>(_, src, i, _). length src - i)") (auto dest!: utf8_next_advances)

declare utf8_utf32_loop.simps [simp del]

definition ConvertUTF8toUTF32 :: "byte list \<Rightarrow> u32 list \<Rightarrow> ConversionFlags \<Rightarrow> u32 converted" where
  "ConvertUTF8toUTF32 src buf flags = utf8_utf32_loop flags src 0 (Some buf) 0 conversionOK"

subsection \<open>The wrappers of \<open>unicode.c\<close>\<close>

text \<open>
  A string is the memory at its pointer. The length of a string that is not terminated within its
  memory is \<^const>\<open>None\<close>, and so is a size that exceeds the memory.
\<close>

definition c_wcslen :: "('a :: zero) list \<Rightarrow> nat option" where
  "c_wcslen mem = (if 0 \<in> set mem then Some (length (takeWhile (\<lambda>b. b \<noteq> 0) mem)) else None)"

definition MultiByteToWideChar :: "byte list \<Rightarrow> int \<Rightarrow> WCHAR list option \<Rightarrow> int \<Rightarrow> (int \<times> WCHAR list option) option" where
  "MultiByteToWideChar mem cbMultiByte wide cchWideChar =
     (if cbMultiByte = 0 then Some (0, wide)
      else do {
        cb \<leftarrow> (if cbMultiByte = -1 then map_option (\<lambda>n. c_int (n + 1)) (c_wcslen mem) else Some cbMultiByte);
        src \<leftarrow> mem_read mem 0 (nat cb);
        (if cchWideChar = 0 then do {
           (r, i, buf, t) \<leftarrow> ConvertUTF8toUTF16 src None strictConversion;
           Some (int t, wide) }
         else do {
           b \<leftarrow> wide;
           win \<leftarrow> mem_read b 0 (nat cchWideChar);
           (r, i, win', t) \<leftarrow> ConvertUTF8toUTF16 src (Some win) strictConversion;
           win' \<leftarrow> win';
           b \<leftarrow> mem_write b 0 win';
           Some (int t, Some b) }) })"

definition WideCharToMultiByte :: "WCHAR list \<Rightarrow> int \<Rightarrow> byte list option \<Rightarrow> int \<Rightarrow> (int \<times> byte list option) option" where
  "WideCharToMultiByte mem cchWideChar multi cbMultiByte =
     (if cchWideChar = 0 then Some (0, multi)
      else do {
        cch \<leftarrow> (if cchWideChar = -1 then map_option (\<lambda>n. c_int (n + 1)) (c_wcslen mem) else Some cchWideChar);
        src \<leftarrow> mem_read mem 0 (nat cch);
        (if cbMultiByte = 0 then do {
           (r, i, buf, t) \<leftarrow> ConvertUTF16toUTF8 src None strictConversion;
           Some (int t, multi) }
         else do {
           b \<leftarrow> multi;
           win \<leftarrow> mem_read b 0 (nat cbMultiByte);
           (r, i, win', t) \<leftarrow> ConvertUTF16toUTF8 src (Some win) strictConversion;
           win' \<leftarrow> win';
           b \<leftarrow> mem_write b 0 win';
           Some (int t, Some b) }) })"

text \<open>
  \<open>out\<close> is the pointer to the output pointer, \<^const>\<open>None\<close> when it is \<open>NULL\<close>; \<open>calloc_ok\<close> tells whether the
  allocation succeeds. The result is the status and what \<open>*out\<close> then is.
\<close>

definition ConvertToUnicode :: "bool \<Rightarrow> byte list option \<Rightarrow> int \<Rightarrow> WCHAR list option option \<Rightarrow> int \<Rightarrow> (int \<times> WCHAR list option option) option" where
  "ConvertToUnicode calloc_ok str cbMultiByte out cchWideChar =
     (case (str, out) of
        (Some mem, Some dst) \<Rightarrow> do {
          cb \<leftarrow> (if cbMultiByte = -1 then map_option (\<lambda>n. c_int (n + 1)) (c_wcslen mem) else Some cbMultiByte);
          (cch, allocate) \<leftarrow> (if cchWideChar = 0 then do { (n, _) \<leftarrow> MultiByteToWideChar mem cb None 0; Some (n, True) } else Some (cchWideChar, False));
          (if cch < 1 then Some (0, out)
           else
             let allocate = (allocate \<or> dst = None) in
             if allocate \<and> \<not> calloc_ok then Some (0, Some None)
             else do {
               (status, dst) \<leftarrow> MultiByteToWideChar mem cb (if allocate then Some (replicate (nat cch + 1) 0) else dst) cch;
               Some (if status \<noteq> cch then (0, Some (if allocate then None else dst)) else (status, Some dst)) }) }
      | _ \<Rightarrow> Some (0, out))"

definition ConvertFromUnicode :: "bool \<Rightarrow> WCHAR list option \<Rightarrow> int \<Rightarrow> byte list option option \<Rightarrow> int \<Rightarrow> (int \<times> byte list option option) option" where
  "ConvertFromUnicode calloc_ok str cchWideChar out cbMultiByte =
     (case (str, out) of
        (Some mem, Some dst) \<Rightarrow> do {
          cch \<leftarrow> (if cchWideChar = -1 then map_option (\<lambda>n. c_int (n + 1)) (c_wcslen mem) else Some cchWideChar);
          (cb, allocate) \<leftarrow> (if cbMultiByte = 0 then do { (n, _) \<leftarrow> WideCharToMultiByte mem cch None 0; Some (n, True) } else Some (cbMultiByte, False));
          (if cb < 1 then Some (0, out)
           else
             let allocate = (allocate \<or> dst = None) in
             if allocate \<and> \<not> calloc_ok then Some (0, Some None)
             else do {
               (status, dst) \<leftarrow> WideCharToMultiByte mem cch (if allocate then Some (replicate (nat cb + 1) 0) else dst) cb;
               let status = (if status \<noteq> cb \<and> allocate then 0 else status);
               Some (status, Some (if status \<le> 0 \<and> allocate then None else dst)) }) }
      | _ \<Rightarrow> Some (0, out))"

definition byteswap_ushort :: "u16 \<Rightarrow> u16" where
  "byteswap_ushort w = drop_bit 8 w OR push_bit 8 w"

definition ByteSwapUnicode :: "WCHAR list \<Rightarrow> nat \<Rightarrow> WCHAR list option" where
  "ByteSwapUnicode wstr len = do { xs \<leftarrow> mem_read wstr 0 len; mem_write wstr 0 (map byteswap_ushort xs) }"

end
