(* ===== verification/UtfProps.thy ===== *)
theory UtfProps
  imports Utf
begin

text \<open>
  The conversions against the encoding forms of the Unicode standard, given by division and
  remainder on the numbers of the characters.
\<close>

subsection \<open>The encoding forms\<close>

definition is_scalar :: "nat \<Rightarrow> bool" where
  "is_scalar c \<longleftrightarrow> c < 0x110000 \<and> \<not> (0xD800 \<le> c \<and> c \<le> 0xDFFF)"

definition utf8_of :: "nat \<Rightarrow> byte list" where
  "utf8_of c =
     (if c < 0x80 then [word_of_nat c]
      else if c < 0x800 then [word_of_nat (0xC0 + c div 64), word_of_nat (0x80 + c mod 64)]
      else if c < 0x10000 then [word_of_nat (0xE0 + c div 4096), word_of_nat (0x80 + c div 64 mod 64), word_of_nat (0x80 + c mod 64)]
      else [word_of_nat (0xF0 + c div 262144), word_of_nat (0x80 + c div 4096 mod 64), word_of_nat (0x80 + c div 64 mod 64), word_of_nat (0x80 + c mod 64)])"

definition utf16_of :: "nat \<Rightarrow> WCHAR list" where
  "utf16_of c =
     (if c < 0x10000 then [word_of_nat c]
      else [word_of_nat (0xD800 + (c - 0x10000) div 1024), word_of_nat (0xDC00 + (c - 0x10000) mod 1024)])"

definition utf8_text :: "nat list \<Rightarrow> byte list" where
  "utf8_text cs = concat (map utf8_of cs)"

definition utf16_text :: "nat list \<Rightarrow> WCHAR list" where
  "utf16_text cs = concat (map utf16_of cs)"

lemma utf_text_simps [simp]:
  "utf8_text [] = []" "utf8_text (c # cs) = utf8_of c @ utf8_text cs" "utf16_text [] = []" "utf16_text (c # cs) = utf16_of c @ utf16_text cs"
  by (simp_all add: utf8_text_def utf16_text_def)

lemma utf_of_nonempty [simp]: "utf8_of c \<noteq> []" "utf16_of c \<noteq> []"
  by (simp_all add: utf8_of_def utf16_of_def)

lemma is_scalar_less: "is_scalar c \<Longrightarrow> c < 2 ^ 32"
  by (simp add: is_scalar_def)

subsection \<open>Words and numbers\<close>

lemma unat_byte_less [simp]: "unat (b :: byte) < 256"
  using unsigned_less [of b] by simp

lemma unat_u16_less: "unat (w :: u16) < 65536"
  using unsigned_less [of w] by simp

declare unat_of_nat_u32 [simp]

lemma byte_eq_unat: "(a :: byte) = b \<longleftrightarrow> unat a = unat b"
  by (simp add: word_eq_iff_unsigned)

lemma nat_bits:
  "bit (128 :: nat) k \<longleftrightarrow> k = 7" "bit (192 :: nat) k \<longleftrightarrow> k = 6 \<or> k = 7" "bit (191 :: nat) k \<longleftrightarrow> k < 6 \<or> k = 7"
  "bit (224 :: nat) k \<longleftrightarrow> k = 5 \<or> k = 6 \<or> k = 7" "bit (240 :: nat) k \<longleftrightarrow> k = 4 \<or> k = 5 \<or> k = 6 \<or> k = 7"
proof -
  have "(128 :: nat) = 2 ^ 7" "(192 :: nat) = 2 ^ 6 OR 2 ^ 7" "(191 :: nat) = mask 6 OR 2 ^ 7" "(224 :: nat) = 2 ^ 5 OR 2 ^ 6 OR 2 ^ 7"
    "(240 :: nat) = 2 ^ 4 OR 2 ^ 5 OR 2 ^ 6 OR 2 ^ 7" by (simp_all add: mask_eq_exp_minus_1)
  then show "bit (128 :: nat) k \<longleftrightarrow> k = 7" "bit (192 :: nat) k \<longleftrightarrow> k = 6 \<or> k = 7" "bit (191 :: nat) k \<longleftrightarrow> k < 6 \<or> k = 7"
  "bit (224 :: nat) k \<longleftrightarrow> k = 5 \<or> k = 6 \<or> k = 7" "bit (240 :: nat) k \<longleftrightarrow> k = 4 \<or> k = 5 \<or> k = 6 \<or> k = 7"
    by (simp_all only: bit_or_iff bit_exp_iff bit_mask_iff) auto
qed

lemma nat_continuation: "(n OR 128) AND 191 = 128 + n mod 64" for n :: nat
proof -
  have "(n OR 128) AND 191 = 128 OR take_bit 6 n" by (rule bit_eqI) (auto simp: bit_and_iff bit_or_iff bit_take_bit_iff nat_bits)
  also have "\<dots> = 128 + take_bit 6 n" by (rule disjunctive_add [symmetric]) (auto simp: bit_take_bit_iff nat_bits)
  finally show ?thesis by (simp add: take_bit_eq_mod)
qed

lemma nat_lead:
  "n < 32 \<Longrightarrow> n OR 192 = 192 + n" "n < 16 \<Longrightarrow> n OR 224 = 224 + n" "n < 8 \<Longrightarrow> n OR 240 = 240 + n" for n :: nat
proof -
  have high: "n < 2 ^ m \<Longrightarrow> m \<le> k \<Longrightarrow> \<not> bit n k" for k m
    by (metis bit_take_bit_iff not_le take_bit_nat_eq_self)
  show "n OR 192 = 192 + n" if "n < 32" using high [of 5] that by (subst disjunctive_add [symmetric]) (auto simp: nat_bits)
  show "n OR 224 = 224 + n" if "n < 16" using high [of 4] that by (subst disjunctive_add [symmetric]) (auto simp: nat_bits)
  show "n OR 240 = 240 + n" if "n < 8" using high [of 3] that by (subst disjunctive_add [symmetric]) (auto simp: nat_bits)
qed

lemma unat_continuation: "unat (ucast ((ch OR 0x80) AND 0xBF :: u32) :: byte) = 0x80 + unat ch mod 64"
proof -
  have "unat ((ch OR 0x80) AND 0xBF) = 128 + unat ch mod 64"
    by (simp only: unsigned_and_eq unsigned_or_eq unsigned_numeral) (simp add: nat_continuation)
  moreover have "128 + unat ch mod 64 < 256" using pos_mod_bound [of 64 "int (unat ch)"] by linarith
  ultimately show ?thesis by (simp add: unsigned_ucast_eq take_bit_eq_mod)
qed

lemma unat_lead:
  "unat ch < 128 \<Longrightarrow> unat (ucast (ch OR 0 :: u32) :: byte) = unat ch"
  "unat ch < 32 \<Longrightarrow> unat (ucast (ch OR 0xC0 :: u32) :: byte) = 0xC0 + unat ch"
  "unat ch < 16 \<Longrightarrow> unat (ucast (ch OR 0xE0 :: u32) :: byte) = 0xE0 + unat ch"
  "unat ch < 8 \<Longrightarrow> unat (ucast (ch OR 0xF0 :: u32) :: byte) = 0xF0 + unat ch"
  by (simp_all add: unsigned_ucast_eq unsigned_or_eq take_bit_eq_mod nat_lead)

lemma u32_cmp:
  "c < 2 ^ 32 \<Longrightarrow> (word_of_nat c :: u32) < numeral k \<longleftrightarrow> c < unat (numeral k :: u32)"
  "c < 2 ^ 32 \<Longrightarrow> (word_of_nat c :: u32) \<le> numeral k \<longleftrightarrow> c \<le> unat (numeral k :: u32)"
  "c < 2 ^ 32 \<Longrightarrow> numeral k < (word_of_nat c :: u32) \<longleftrightarrow> unat (numeral k :: u32) < c"
  "c < 2 ^ 32 \<Longrightarrow> numeral k \<le> (word_of_nat c :: u32) \<longleftrightarrow> unat (numeral k :: u32) \<le> c"
  by (simp_all only: word_less_nat_alt word_le_nat_alt unat_of_nat_u32)

subsection \<open>UTF-8\<close>

lemma unat_drop_bit: "unat (drop_bit n (w :: u32)) = unat w div 2 ^ n"
proof -
  have "unat w < 2 ^ 32" using unsigned_less [of w] by simp
  then show ?thesis by (simp only: unsigned_drop_bit_eq) (simp add: drop_bit_eq_div take_bit_nat_eq_self)
qed

lemma utf8_write_sizes:
  "utf8_write n 1 ch bs = ucast (ch OR firstByteMark ! n) # bs"
  "utf8_write n 2 ch bs = utf8_write n 1 (drop_bit 6 ch) (ucast ((ch OR 0x80) AND 0xBF) # bs)"
  "utf8_write n 3 ch bs = utf8_write n 2 (drop_bit 6 ch) (ucast ((ch OR 0x80) AND 0xBF) # bs)"
  "utf8_write n 4 ch bs = utf8_write n 3 (drop_bit 6 ch) (ucast ((ch OR 0x80) AND 0xBF) # bs)"
  by (simp_all add: numeral_eq_Suc)

lemma firstByteMark_nth: "firstByteMark ! 1 = 0" "firstByteMark ! 2 = 0xC0" "firstByteMark ! 3 = 0xE0" "firstByteMark ! 4 = 0xF0"
  by (simp_all add: firstByteMark_def numeral_eq_Suc)

lemma unat_byte_of_nat: "n < 256 \<Longrightarrow> unat (word_of_nat n :: byte) = n"
  by (simp add: unsigned_of_nat take_bit_nat_eq_self)

lemma unat_drop_6: "unat (drop_bit 6 (w :: u32)) = unat w div 64"
  by (simp add: unat_drop_bit del: drop_bit_eq_div)

lemma utf8_write_of:
  assumes "c < 0x110000"
  shows "bytesToWrite (word_of_nat c) = (length (utf8_of c), word_of_nat c)" "utf8_write (length (utf8_of c)) (length (utf8_of c)) (word_of_nat c) [] = utf8_of c"
proof -
  have c: "c < 2 ^ 32" using assms by simp
  show "bytesToWrite (word_of_nat c) = (length (utf8_of c), word_of_nat c)" using assms c by (simp add: bytesToWrite_def utf8_of_def u32_cmp)
  consider "c < 0x80" | "\<not> c < 0x80" "c < 0x800" | "\<not> c < 0x80" "\<not> c < 0x800" "c < 0x10000" | "\<not> c < 0x80" "\<not> c < 0x800" "\<not> c < 0x10000" by blast
  then show "utf8_write (length (utf8_of c)) (length (utf8_of c)) (word_of_nat c) [] = utf8_of c"
  proof cases
    case 1
    then have "utf8_of c = [word_of_nat c]" by (simp add: utf8_of_def)
    then show ?thesis using 1 c by (simp add: firstByteMark_def byte_eq_unat unat_byte_of_nat unsigned_ucast_eq take_bit_nat_eq_self)
  next
    case 2
    then have e: "utf8_of c = [word_of_nat (0xC0 + c div 64), word_of_nat (0x80 + c mod 64)]" by (simp add: utf8_of_def)
    have "length (utf8_of c) = 2" by (simp add: e)
    then show ?thesis using 2 c unfolding e by (simp only: utf8_write_sizes firstByteMark_nth list.inject)
      (simp only: byte_eq_unat unat_byte_of_nat unat_continuation unat_lead unat_drop_6 unat_of_nat_u32; simp)
  next
    case 3
    then have e: "utf8_of c = [word_of_nat (0xE0 + c div 4096), word_of_nat (0x80 + c div 64 mod 64), word_of_nat (0x80 + c mod 64)]" by (simp add: utf8_of_def)
    have l: "length (utf8_of c) = 3" by (simp add: e)
    have d: "unat (drop_bit 6 (drop_bit 6 (word_of_nat c :: u32))) = c div 4096" using c by (simp only: unat_drop_6 unat_of_nat_u32 div_mult2_eq [symmetric]) simp
    moreover have "c div 4096 < 16" using 3 by linarith
    ultimately have "unat (ucast (drop_bit 6 (drop_bit 6 (word_of_nat c :: u32)) OR 0xE0) :: byte) = 0xE0 + c div 4096" using unat_lead by metis
    then show ?thesis using 3 c l unfolding e by (simp only: utf8_write_sizes firstByteMark_nth list.inject)
      (simp only: byte_eq_unat unat_byte_of_nat unat_continuation unat_drop_6 unat_of_nat_u32 div_mult2_eq [symmetric]; simp)
  next
    case 4
    then have e: "utf8_of c = [word_of_nat (0xF0 + c div 262144), word_of_nat (0x80 + c div 4096 mod 64), word_of_nat (0x80 + c div 64 mod 64),
      word_of_nat (0x80 + c mod 64)]" by (simp add: utf8_of_def)
    have l: "length (utf8_of c) = 4" by (simp add: e)
    have d: "unat (drop_bit 6 (drop_bit 6 (drop_bit 6 (word_of_nat c :: u32)))) = c div 262144" using c by (simp only: unat_drop_6 unat_of_nat_u32 div_mult2_eq [symmetric]) simp
    moreover have "c div 262144 < 8" using 4 assms by linarith
    ultimately have "unat (ucast (drop_bit 6 (drop_bit 6 (drop_bit 6 (word_of_nat c :: u32))) OR 0xF0) :: byte) = 0xF0 + c div 262144" using unat_lead by metis
    then show ?thesis using 4 c l assms unfolding e by (simp only: utf8_write_sizes firstByteMark_nth list.inject)
      (simp only: byte_eq_unat unat_byte_of_nat unat_continuation unat_drop_6 unat_of_nat_u32 div_mult2_eq [symmetric]; simp)
  qed
qed

lemma trailing_table:
  "n < 256 \<Longrightarrow> trailingBytesForUTF8 ! n =
     (if n < 0xC0 then 0 else if n < 0xE0 then 1 else if n < 0xF0 then 2 else if n < 0xF8 then 3 else if n < 0xFC then 4 else 5)"
  by (auto simp: trailingBytesForUTF8_def nth_append)

lemmas trailing_nth = trailing_table [OF unat_byte_less]

lemma trailing_ranges:
  fixes a :: byte
  shows "trailingBytesForUTF8 ! unat a = 0 \<Longrightarrow> unat a < 0xC0" "trailingBytesForUTF8 ! unat a = 1 \<Longrightarrow> 0xC0 \<le> unat a \<and> unat a < 0xE0"
    "trailingBytesForUTF8 ! unat a = 2 \<Longrightarrow> 0xE0 \<le> unat a \<and> unat a < 0xF0" "trailingBytesForUTF8 ! unat a = 3 \<Longrightarrow> 0xF0 \<le> unat a"
  by (simp_all add: trailing_nth split: if_split_asm)

lemma ucast_of_unat: "ucast (b :: byte) = (word_of_nat (unat b) :: u32)"
  by simp

lemma utf8_sum_eq:
  "utf8_sum 0 [a] = word_of_nat (unat a)"
  "utf8_sum 0 [a, b] = word_of_nat (64 * unat a + unat b)"
  "utf8_sum 0 [a, b, c] = word_of_nat (4096 * unat a + 64 * unat b + unat c)"
  "utf8_sum 0 [a, b, c, d] = word_of_nat (262144 * unat a + 4096 * unat b + 64 * unat c + unat d)"
  by (simp_all add: ucast_of_unat push_bit_eq_mult algebra_simps del: of_nat_unat)

lemma minus_offset:
  assumes "n = m + k"
  shows "(word_of_nat n - word_of_nat k :: u32) = word_of_nat m"
  using assms by simp

text \<open>Numbers in base 64.\<close>

lemma base_64:
  assumes "z < (64 :: nat)"
  shows "(64 * n + z) div 64 = n" "(64 * n + z) mod 64 = z" "(64 * n + z) div 4096 = n div 64" "(64 * n + z) div 262144 = n div 64 div 64"
proof -
  show d: "(64 * n + z) div 64 = n" "(64 * n + z) mod 64 = z" using assms by simp_all
  have "(64 * n + z) div 4096 = (64 * n + z) div 64 div 64" "(64 * n + z) div 262144 = (64 * n + z) div 64 div 64 div 64"
    by (simp_all only: div_mult2_eq [symmetric]) simp_all
  then show "(64 * n + z) div 4096 = n div 64" "(64 * n + z) div 262144 = n div 64 div 64" unfolding d by simp_all
qed

lemma base_64_split:
  "c = 4096 * (c div 4096) + 64 * (c div 64 mod 64) + c mod (64 :: nat)"
  "c = 262144 * (c div 262144) + 4096 * (c div 4096 mod 64) + 64 * (c div 64 mod 64) + c mod (64 :: nat)"
proof -
  have d: "c div 4096 = c div 64 div 64" "c div 262144 = c div 64 div 64 div 64" by (simp_all only: div_mult2_eq [symmetric]) simp_all
  have m: "n = 64 * (n div 64) + n mod 64" for n :: nat by simp
  show "c = 4096 * (c div 4096) + 64 * (c div 64 mod 64) + c mod (64 :: nat)"
    "c = 262144 * (c div 262144) + 4096 * (c div 4096 mod 64) + 64 * (c div 64 mod 64) + c mod (64 :: nat)"
    unfolding d using m [of c] m [of "c div 64"] m [of "c div 64 div 64"] by linarith+
qed

text \<open>The tests of \<open>isLegalUTF8\<close> on numbers.\<close>

lemma legal_numbers:
  "isLegalUTF8 (a # xs) (Suc 0) \<longleftrightarrow> \<not> (0x80 \<le> unat a \<and> unat a < 0xC2) \<and> unat a \<le> 0xF4"
  "isLegalUTF8 (a # b # xs) 2 \<longleftrightarrow> unat b \<le> 0xBF \<and>
     (if unat a = 0xE0 then 0xA0 \<le> unat b else if unat a = 0xED then unat b \<le> 0x9F else if unat a = 0xF0 then 0x90 \<le> unat b
      else if unat a = 0xF4 then unat b \<le> 0x8F else 0x80 \<le> unat b) \<and> isLegalUTF8 (a # b # xs) (Suc 0)"
  "isLegalUTF8 (a # b # c # xs) 3 \<longleftrightarrow> 0x80 \<le> unat c \<and> unat c \<le> 0xBF \<and> isLegalUTF8 (a # b # c # xs) 2"
  "isLegalUTF8 (a # b # c # d # xs) 4 \<longleftrightarrow> 0x80 \<le> unat d \<and> unat d \<le> 0xBF \<and> isLegalUTF8 (a # b # c # d # xs) 3"
  unfolding isLegalUTF8_def by (simp_all add: word_less_nat_alt word_le_nat_alt byte_eq_unat not_less not_le)

text \<open>
  \<open>isLegalUTF8\<close> accepts the encodings of all characters and, besides, sequences whose second byte
  after \<open>0xED\<close> or \<open>0xF4\<close> is below \<open>0x80\<close>. Every accepted sequence gives a character.
\<close>

definition loose :: "byte list \<Rightarrow> bool" where
  "loose xs \<longleftrightarrow> 1 < length xs \<and> (xs ! 0 = 0xED \<or> xs ! 0 = 0xF4) \<and> xs ! 1 < 0x80"

lemma loose_number: "loose (a # b # xs) \<longleftrightarrow> (unat a = 0xED \<or> unat a = 0xF4) \<and> unat b < 0x80"
  by (simp add: loose_def byte_eq_unat word_less_nat_alt)

lemma legal_one:
  assumes "isLegalUTF8 (a # xs) (Suc 0)" "unat a < 0xC0"
  shows "\<exists>c. is_scalar c \<and> [a] = utf8_of c \<and> utf8_sum 0 [a] = word_of_nat c"
proof -
  have "unat a < 0x80" using assms by (simp add: legal_numbers)
  then show ?thesis by (intro exI [of _ "unat a"]) (simp add: is_scalar_def utf8_of_def)
qed

lemma legal_two:
  assumes "isLegalUTF8 (a # b # xs) 2" "0xC0 \<le> unat a" "unat a < 0xE0"
  shows "\<exists>c. is_scalar c \<and> [a, b] = utf8_of c \<and> utf8_sum 0 [a, b] - 0x3080 = word_of_nat c"
proof -
  have r: "0xC2 \<le> unat a" "0x80 \<le> unat b" "unat b \<le> 0xBF" using assms by (simp_all add: legal_numbers)
  with assms obtain x y where v: "unat a = 0xC0 + x" "unat b = 0x80 + y" by (metis le_iff_add)
  define c where "c = 64 * x + y"
  have c: "0x80 \<le> c" "c < 0x800" "0xC0 + c div 64 = unat a" "0x80 + c mod 64 = unat b" using assms r v by (simp_all add: c_def base_64)
  have s: "64 * unat a + unat b = c + 0x3080" using v by (simp add: c_def)
  show ?thesis using c minus_offset [OF s] by (intro exI [of _ c]) (simp add: is_scalar_def utf8_of_def utf8_sum_eq del: utf8_sum.simps)
qed

lemma legal_three:
  assumes "isLegalUTF8 (a # b # d # xs) 3" "0xE0 \<le> unat a" "unat a < 0xF0"
  shows "\<exists>c. is_scalar c \<and> (\<not> loose (a # b # d # xs) \<longrightarrow> [a, b, d] = utf8_of c) \<and> utf8_sum 0 [a, b, d] - 0xE2080 = word_of_nat c"
proof (cases "loose (a # b # d # xs)")
  case True
  then have l: "unat a = 0xED" "unat b < 0x80" using assms(3) by (auto simp: loose_number)
  have d: "0x80 \<le> unat d" "unat d \<le> 0xBF" using assms(1) by (simp_all add: legal_numbers)
  then obtain z where "unat d = 0x80 + z" by (metis le_iff_add)
  with d have z: "unat d = 0x80 + z" "z < 64" by simp_all
  define c where "c = 0xB000 + 64 * unat b + z"
  have s: "4096 * unat a + 64 * unat b + unat d = c + 0xE2080" using l z by (simp add: c_def)
  have "is_scalar c" using l z by (simp add: is_scalar_def c_def)
  then show ?thesis using True minus_offset [OF s] by (intro exI [of _ c]) (simp add: utf8_sum_eq del: utf8_sum.simps)
next
  case False
  have r: "0x80 \<le> unat b" "unat b \<le> 0xBF" "0x80 \<le> unat d" "unat d \<le> 0xBF"
    "unat a = 0xE0 \<Longrightarrow> 0xA0 \<le> unat b" "unat a = 0xED \<Longrightarrow> unat b \<le> 0x9F" using assms False by (auto simp: legal_numbers loose_number split: if_split_asm)
  with assms(2) obtain x y z where v: "unat a = 0xE0 + x" "unat b = 0x80 + y" "unat d = 0x80 + z" by (metis le_iff_add)
  define c where "c = 64 * (64 * x + y) + z"
  have yz: "y < 64" "z < 64" using r v by simp_all
  then have c: "0xE0 + c div 4096 = unat a" "0x80 + c div 64 mod 64 = unat b" "0x80 + c mod 64 = unat d"
    by (simp_all only: c_def base_64 v)
  moreover have "0x800 \<le> c" "c < 0x10000" using assms(3) r(5) v yz unfolding c_def by (cases "x = 0"; simp)+
  moreover have "\<not> (0xD800 \<le> c \<and> c \<le> 0xDFFF)" using r(6) v yz unfolding c_def by (cases "x = 0xD") auto
  moreover have s: "4096 * unat a + 64 * unat b + unat d = c + 0xE2080" using v by (simp add: c_def)
  ultimately show ?thesis using minus_offset [OF s]
    by (intro exI [of _ c]) (simp add: is_scalar_def utf8_of_def utf8_sum_eq del: utf8_sum.simps)
qed

lemma legal_four:
  assumes "isLegalUTF8 (a # b # d # e # xs) 4" "0xF0 \<le> unat a"
  shows "\<exists>c. is_scalar c \<and> (\<not> loose (a # b # d # e # xs) \<longrightarrow> [a, b, d, e] = utf8_of c) \<and> utf8_sum 0 [a, b, d, e] - 0x3C82080 = word_of_nat c"
proof (cases "loose (a # b # d # e # xs)")
  case True
  then have l: "unat a = 0xF4" "unat b < 0x80" using assms(2) by (auto simp: loose_number)
  have d: "0x80 \<le> unat d" "unat d \<le> 0xBF" "0x80 \<le> unat e" "unat e \<le> 0xBF" using assms(1) by (simp_all add: legal_numbers)
  then obtain y z where "unat d = 0x80 + y" "unat e = 0x80 + z" by (metis le_iff_add)
  with d have z: "unat d = 0x80 + y" "unat e = 0x80 + z" "y < 64" "z < 64" by simp_all
  define c where "c = 0x80000 + 4096 * unat b + 64 * y + z"
  have s: "262144 * unat a + 4096 * unat b + 64 * unat d + unat e = c + 0x3C82080" using l z by (simp add: c_def)
  have "is_scalar c" using l z by (simp add: is_scalar_def c_def)
  then show ?thesis using True minus_offset [OF s] by (intro exI [of _ c]) (simp add: utf8_sum_eq del: utf8_sum.simps)
next
  case False
  have r: "unat a \<le> 0xF4" "0x80 \<le> unat b" "unat b \<le> 0xBF" "0x80 \<le> unat d" "unat d \<le> 0xBF" "0x80 \<le> unat e" "unat e \<le> 0xBF"
    "unat a = 0xF0 \<Longrightarrow> 0x90 \<le> unat b" "unat a = 0xF4 \<Longrightarrow> unat b \<le> 0x8F" using assms False by (auto simp: legal_numbers loose_number split: if_split_asm)
  with assms(2) obtain w x y z where v: "unat a = 0xF0 + w" "unat b = 0x80 + x" "unat d = 0x80 + y" "unat e = 0x80 + z" by (metis le_iff_add)
  define c where "c = 64 * (64 * (64 * w + x) + y) + z"
  have "x < 64" "y < 64" "z < 64" using r v by simp_all
  then have c: "0xF0 + c div 262144 = unat a" "0x80 + c div 4096 mod 64 = unat b" "0x80 + c div 64 mod 64 = unat d"
    "0x80 + c mod 64 = unat e" by (simp_all only: c_def base_64 v)
  moreover have "0x10000 \<le> c" "c < 0x110000" using r v \<open>y < 64\<close> \<open>z < 64\<close> unfolding c_def by (cases "w = 0"; cases "w = 4"; simp)+
  moreover have s: "262144 * unat a + 4096 * unat b + 64 * unat d + unat e = c + 0x3C82080" using v by (simp add: c_def)
  ultimately show ?thesis using minus_offset [OF s]
    by (intro exI [of _ c]) (simp add: is_scalar_def utf8_of_def utf8_sum_eq del: utf8_sum.simps)
qed

lemma utf8_next_scalar:
  assumes "utf8_next src i = Inr (ch, j)" "i < length src"
  obtains c where "is_scalar c" "ch = word_of_nat c" "j \<le> length src" "\<not> loose (drop i src) \<Longrightarrow> drop i src = utf8_of c @ drop j src"
proof -
  define k where "k = trailingBytesForUTF8 ! unat (src ! i)"
  define xs where "xs = drop i src"
  have j: "j = i + k + 1" "k < length xs" and l: "isLegalUTF8 xs (Suc k)" and ch: "ch = utf8_sum 0 (take (Suc k) xs) - offsetsFromUTF8 ! k"
    using assms by (auto simp: utf8_next_def Let_def k_def xs_def split: if_split_asm)
  obtain a ys where xs: "xs = a # ys" using j(2) by (cases xs) auto
  have a: "k = trailingBytesForUTF8 ! unat a" using assms(2) xs by (simp add: k_def xs_def hd_drop_conv_nth [symmetric])
  have "\<exists>c. is_scalar c \<and> (\<not> loose xs \<longrightarrow> take (Suc k) xs = utf8_of c) \<and> ch = word_of_nat c"
  proof -
    have "k = 0 \<or> k = 1 \<or> k = 2 \<or> k = 3" using l by (auto simp: isLegalUTF8_def)
    then consider "k = 0" | "k = 1" | "k = 2" | "k = 3" by blast
    then show ?thesis
    proof cases
      case 1
      then have "unat a < 0xC0" using a trailing_ranges(1) by metis
      then show ?thesis using legal_one [of a ys] l ch 1 by (auto simp: xs offsetsFromUTF8_def)
    next
      case 2
      then have r: "0xC0 \<le> unat a" "unat a < 0xE0" using a trailing_ranges(2) by metis+
      obtain b zs where ys: "ys = b # zs" using j(2) 2 xs by (cases ys) auto
      have k: "Suc k = 2" using 2 by simp
      have "isLegalUTF8 (a # b # zs) 2" "ch = utf8_sum 0 [a, b] - 0x3080" "take (Suc k) xs = [a, b]"
        using l ch 2 unfolding k by (simp_all add: xs ys offsetsFromUTF8_def del: utf8_sum.simps)
      then show ?thesis using legal_two [of a b zs] r by metis
    next
      case 3
      then have r: "0xE0 \<le> unat a" "unat a < 0xF0" using a trailing_ranges(3) by metis+
      obtain b d zs where ys: "ys = b # d # zs" using j(2) 3 xs by (cases ys; cases "tl ys") auto
      have "isLegalUTF8 (a # b # d # zs) 3" "ch = utf8_sum 0 [a, b, d] - 0xE2080" "take (Suc k) xs = [a, b, d]"
        using l ch 3 by (simp_all add: xs ys offsetsFromUTF8_def del: utf8_sum.simps)
      then show ?thesis using legal_three [of a b d zs] r unfolding xs ys by metis
    next
      case 4
      then have r: "0xF0 \<le> unat a" using a trailing_ranges(4) by metis
      obtain b d e zs where ys: "ys = b # d # e # zs" using j(2) 4 xs by (cases ys; cases "tl ys"; cases "tl (tl ys)") auto
      have "isLegalUTF8 (a # b # d # e # zs) 4" "ch = utf8_sum 0 [a, b, d, e] - 0x3C82080" "take (Suc k) xs = [a, b, d, e]"
        using l ch 4 by (simp_all add: xs ys offsetsFromUTF8_def del: utf8_sum.simps)
      then show ?thesis using legal_four [of a b d e zs] r unfolding xs ys by metis
    qed
  qed
  then obtain c where c: "is_scalar c" "\<not> loose xs \<longrightarrow> take (Suc k) xs = utf8_of c" "ch = word_of_nat c" by blast
  moreover have d: "drop j src = drop (Suc k) (drop i src)" by (simp add: j(1) add.commute)
  have "drop i src = take (Suc k) xs @ drop j src" unfolding d xs_def by (rule append_take_drop_id [symmetric])
  moreover have "j \<le> length src" using j by (simp add: xs_def)
  ultimately show thesis using that [of c] by (metis xs_def)
qed

text \<open>The encoding of a character is accepted and gives the character.\<close>

lemma utf8_next_at:
  assumes "drop i src = xs @ rest" "xs \<noteq> []" "trailingBytesForUTF8 ! unat (hd xs) + 1 = length xs" "isLegalUTF8 (xs @ rest) n" "length xs = n"
  shows "utf8_next src i = Inr (utf8_sum 0 xs - offsetsFromUTF8 ! (length xs - 1), i + length xs)"
proof -
  have "i < length src" using assms(1,2) by (metis append_is_Nil_conv drop_all not_le)
  then have s: "src ! i = hd xs" using assms(1,2) by (metis hd_append2 hd_drop_conv_nth)
  have "length xs \<le> length (drop i src)" by (simp only: assms(1)) simp
  then have "i + length xs \<le> length src" using \<open>i < length src\<close> by simp
  moreover obtain m where "n = Suc m" using assms(2,5) by (cases n) auto
  ultimately show ?thesis using assms(1,3,4,5) by (simp add: utf8_next_def Let_def s)
qed

lemma utf8_next_of:
  assumes "is_scalar c" "drop i src = utf8_of c @ rest"
  shows "utf8_next src i = Inr (word_of_nat c, i + length (utf8_of c))"
proof -
  note b = unat_byte_of_nat
  consider "c < 0x80" | "\<not> c < 0x80" "c < 0x800" | "\<not> c < 0x80" "\<not> c < 0x800" "c < 0x10000" | "\<not> c < 0x80" "\<not> c < 0x800" "\<not> c < 0x10000" by blast
  then show ?thesis
  proof cases
    case 1
    then have e: "utf8_of c = [word_of_nat c]" by (simp add: utf8_of_def)
    have "utf8_next src i = Inr (utf8_sum 0 (utf8_of c) - offsetsFromUTF8 ! (length (utf8_of c) - 1), i + length (utf8_of c))"
      by (rule utf8_next_at [OF assms(2), where n = "Suc 0"]) (use 1 in \<open>simp_all add: e trailing_table legal_numbers b\<close>)
    then show ?thesis using 1 by (simp add: e utf8_sum_eq b offsetsFromUTF8_def del: utf8_sum.simps)
  next
    case 2
    have "unat (word_of_nat (0xC0 + c div 64) :: byte) = 0xC0 + c div 64" "unat (word_of_nat (0x80 + c mod 64) :: byte) = 0x80 + c mod 64"
      using 2 by (simp_all only: b)
    then obtain a b where e: "utf8_of c = [a, b]" and n: "unat a = 0xC0 + c div 64" "unat b = 0x80 + c mod 64" using 2 by (simp only: utf8_of_def) auto
    define x y where v: "x = c div 64" "y = c mod 64"
    have c: "c = 64 * x + y" "y < 64" unfolding v by presburger+
    have "isLegalUTF8 ([a, b] @ rest) 2" using 2 c unfolding append.simps legal_numbers n v [symmetric] by auto
    then have "utf8_next src i = Inr (utf8_sum 0 (utf8_of c) - offsetsFromUTF8 ! (length (utf8_of c) - 1), i + length (utf8_of c))"
      using 2 by (intro utf8_next_at [OF assms(2), where n = 2]) (simp_all add: e trailing_table n)
    moreover have "64 * unat a + unat b = c + 0x3080" using n by simp
    from minus_offset [OF this] have "utf8_sum 0 [a, b] - 0x3080 = word_of_nat c" by (simp only: utf8_sum_eq) simp
    ultimately show ?thesis by (simp add: e offsetsFromUTF8_def del: utf8_sum.simps)
  next
    case 3
    have "unat (word_of_nat (0xE0 + c div 4096) :: byte) = 0xE0 + c div 4096" "unat (word_of_nat (0x80 + c div 64 mod 64) :: byte) = 0x80 + c div 64 mod 64"
      "unat (word_of_nat (0x80 + c mod 64) :: byte) = 0x80 + c mod 64" using 3 by (simp_all only: b)
    then obtain a b d where e: "utf8_of c = [a, b, d]" and n: "unat a = 0xE0 + c div 4096" "unat b = 0x80 + c div 64 mod 64" "unat d = 0x80 + c mod 64"
      using 3 by (simp only: utf8_of_def) auto
    define x y z where v: "x = c div 4096" "y = c div 64 mod 64" "z = c mod 64"
    have c: "c = 4096 * x + 64 * y + z" "y < 64" "z < 64" unfolding v using base_64_split by simp_all
    have "x < 16" "x = 0 \<Longrightarrow> 32 \<le> y" "x = 0xD \<Longrightarrow> y \<le> 31" using 3 assms(1) c unfolding is_scalar_def by linarith+
    then have "isLegalUTF8 ([a, b, d] @ rest) 3" using c(2,3) unfolding append.simps legal_numbers n v [symmetric] by simp
    then have "utf8_next src i = Inr (utf8_sum 0 (utf8_of c) - offsetsFromUTF8 ! (length (utf8_of c) - 1), i + length (utf8_of c))"
      using 3 by (intro utf8_next_at [OF assms(2), where n = 3]) (simp_all add: e trailing_table n)
    moreover have "4096 * unat a + 64 * unat b + unat d = c + 0xE2080" using c(1) unfolding n v [symmetric] by simp
    from minus_offset [OF this] have "utf8_sum 0 [a, b, d] - 0xE2080 = word_of_nat c" by (simp only: utf8_sum_eq) simp
    ultimately show ?thesis by (simp add: e offsetsFromUTF8_def del: utf8_sum.simps)
  next
    case 4
    have small: "c < 0x110000" using assms(1) by (simp add: is_scalar_def)
    then have "unat (word_of_nat (0xF0 + c div 262144) :: byte) = 0xF0 + c div 262144" "unat (word_of_nat (0x80 + c div 4096 mod 64) :: byte) = 0x80 + c div 4096 mod 64"
      "unat (word_of_nat (0x80 + c div 64 mod 64) :: byte) = 0x80 + c div 64 mod 64" "unat (word_of_nat (0x80 + c mod 64) :: byte) = 0x80 + c mod 64"
      by (simp_all only: b)
    then obtain a b d f where e: "utf8_of c = [a, b, d, f]" and n: "unat a = 0xF0 + c div 262144" "unat b = 0x80 + c div 4096 mod 64" "unat d = 0x80 + c div 64 mod 64"
      "unat f = 0x80 + c mod 64" using 4 by (simp only: utf8_of_def) auto
    define w x y z where v: "w = c div 262144" "x = c div 4096 mod 64" "y = c div 64 mod 64" "z = c mod 64"
    have c: "c = 262144 * w + 4096 * x + 64 * y + z" "x < 64" "y < 64" "z < 64" unfolding v using base_64_split by simp_all
    have "w \<le> 4" "w = 0 \<Longrightarrow> 16 \<le> x" "w = 4 \<Longrightarrow> x \<le> 15" using 4 small c by linarith+
    then have "isLegalUTF8 ([a, b, d, f] @ rest) 4" using c(2-4) unfolding append.simps legal_numbers n v [symmetric] by simp
    then have "utf8_next src i = Inr (utf8_sum 0 (utf8_of c) - offsetsFromUTF8 ! (length (utf8_of c) - 1), i + length (utf8_of c))"
      using 4 small by (intro utf8_next_at [OF assms(2), where n = 4]) (simp_all add: e trailing_table n)
    moreover have "262144 * unat a + 4096 * unat b + 64 * unat d + unat f = c + 0x3C82080" using c(1) unfolding n v [symmetric] by simp
    from minus_offset [OF this] have "utf8_sum 0 [a, b, d, f] - 0x3C82080 = word_of_nat c" by (simp only: utf8_sum_eq) simp
    ultimately show ?thesis by (simp add: e offsetsFromUTF8_def del: utf8_sum.simps)
  qed
qed

subsection \<open>UTF-16\<close>

lemma unat_u16_of_nat: "n < 65536 \<Longrightarrow> unat (word_of_nat n :: u16) = n"
  by (simp add: unsigned_of_nat take_bit_nat_eq_self)

lemma u16_eq_unat: "(a :: u16) = b \<longleftrightarrow> unat a = unat b"
  by (simp add: word_eq_iff_unsigned)

lemma unat_ucast_u16: "unat (ucast (w :: u16) :: u32) = unat w"
proof -
  have "unat w < 65536" by (rule unat_u16_less)
  also have "65536 < (2 ^ 32 :: nat)" by simp
  finally have "unat w < 2 ^ 32" .
  then show ?thesis by (simp add: unsigned_ucast_eq take_bit_nat_eq_self)
qed

lemma sur_numbers:
  "sur_high (ucast (w :: u16)) \<longleftrightarrow> 0xD800 \<le> unat w \<and> unat w \<le> 0xDBFF" "sur_low (ucast (w :: u16)) \<longleftrightarrow> 0xDC00 \<le> unat w \<and> unat w \<le> 0xDFFF"
  by (simp_all add: sur_high_def sur_low_def word_le_nat_alt unat_ucast_u16)

lemma sur_any_number: "c < 2 ^ 32 \<Longrightarrow> sur_any (word_of_nat c) \<longleftrightarrow> 0xD800 \<le> c \<and> c \<le> 0xDFFF"
  by (simp add: sur_any_def u32_cmp)

lemma u16_ucast_of_unat: "ucast (w :: u16) = (word_of_nat (unat w) :: u32)"
  by simp

lemma pair_value:
  fixes a b :: u16
  assumes "unat a = 0xD800 + x" "unat b = 0xDC00 + y"
  shows "push_bit 10 (ucast a - 0xD800) + (ucast b - 0xDC00) + 0x10000 = (word_of_nat (1024 * x + y + 0x10000) :: u32)"
proof -
  have "ucast a - 0xD800 = (word_of_nat x :: u32)" "ucast b - 0xDC00 = (word_of_nat y :: u32)"
    using assms by (simp_all add: u16_ucast_of_unat del: of_nat_unat)
  then show ?thesis by (simp add: push_bit_eq_mult)
qed

lemma utf16_next_scalar:
  assumes "utf16_next strictConversion src i = Inr (ch, j)" "i < length src"
  obtains c where "is_scalar c" "ch = word_of_nat c" "drop i src = utf16_of c @ drop j src" "j \<le> length src"
proof (cases "sur_high (ucast (src ! i))")
  case True
  then have a: "0xD800 \<le> unat (src ! i)" "unat (src ! i) \<le> 0xDBFF" by (simp_all add: sur_numbers)
  have i: "i + 1 < length src" "sur_low (ucast (src ! (i + 1)))" "j = i + 2"
    "ch = push_bit 10 (ucast (src ! i) - 0xD800) + (ucast (src ! (i + 1)) - 0xDC00) + 0x10000"
    using assms True by (auto simp: utf16_next_def Let_def split: if_split_asm)
  then have b: "0xDC00 \<le> unat (src ! (i + 1))" "unat (src ! (i + 1)) \<le> 0xDFFF" by (simp_all add: sur_numbers)
  from a b obtain x y where "unat (src ! i) = 0xD800 + x" "unat (src ! (i + 1)) = 0xDC00 + y" by (metis le_iff_add)
  with a b have v: "unat (src ! i) = 0xD800 + x" "unat (src ! (i + 1)) = 0xDC00 + y" "x < 1024" "y < 1024" by simp_all
  have w: "word_of_nat (0xD800 + x) = src ! i" "word_of_nat (0xDC00 + y) = src ! (i + 1)" unfolding v(1,2) [symmetric] by simp_all
  have "(1024 * x + y) div 1024 = x" "(1024 * x + y) mod 1024 = y" using v by simp_all
  then have "utf16_of (1024 * x + y + 0x10000) = [src ! i, src ! (i + 1)]" unfolding utf16_of_def using w by simp
  moreover have "drop i src = [src ! i, src ! (i + 1)] @ drop (i + 2) src" using i(1) by (simp add: Cons_nth_drop_Suc)
  moreover have "is_scalar (1024 * x + y + 0x10000)" using v by (simp add: is_scalar_def)
  ultimately show thesis using that [of "1024 * x + y + 0x10000"] i pair_value [OF v(1,2)] by simp
next
  case False
  then have n: "\<not> sur_low (ucast (src ! i))" "ch = ucast (src ! i)" "j = i + 1"
    using assms by (auto simp: utf16_next_def Let_def split: if_split_asm)
  have "is_scalar (unat (src ! i))" using False n(1) unat_u16_less [of "src ! i"] by (auto simp: is_scalar_def sur_numbers)
  moreover have "utf16_of (unat (src ! i)) = [src ! i]" using unat_u16_less [of "src ! i"] by (simp add: utf16_of_def)
  ultimately show thesis using that [of "unat (src ! i)"] n assms(2) by (simp add: Cons_nth_drop_Suc)
qed

lemma drop_two:
  assumes "drop i src = a # b # rest"
  shows "src ! i = a" "src ! (i + 1) = b" "i + 1 < length src"
proof -
  have "length src - i = Suc (Suc (length rest))" using arg_cong [OF assms, of length] by simp
  then show "i + 1 < length src" by simp
  then show "src ! i = a" "src ! (i + 1) = b" using assms nth_drop [of i src 0] nth_drop [of i src 1] by simp_all
qed

lemma utf16_next_of:
  assumes "is_scalar c" "drop i src = utf16_of c @ rest"
  shows "utf16_next flags src i = Inr (word_of_nat c, i + length (utf16_of c))"
proof -
  have i: "i < length src" using assms(2) by (metis append_is_Nil_conv drop_all not_le utf_of_nonempty(2))
  show ?thesis
  proof (cases "c < 0x10000")
    case True
    then have s: "src ! i = word_of_nat c" using assms(2) i by (simp add: utf16_of_def flip: hd_drop_conv_nth)
    then have u: "unat (src ! i) = c" using True by (simp add: unat_u16_of_nat)
    then have "\<not> sur_high (ucast (src ! i))" "\<not> sur_low (ucast (src ! i))" using assms(1) by (auto simp: sur_numbers is_scalar_def)
    then show ?thesis using True u by (simp add: utf16_next_def Let_def utf16_of_def u16_ucast_of_unat del: of_nat_unat)
  next
    case False
    have c: "c < 0x110000" using assms(1) by (simp add: is_scalar_def)
    define x y where v: "x = (c - 0x10000) div 1024" "y = (c - 0x10000) mod 1024"
    have xy: "c = 1024 * x + y + 0x10000" "y < 1024" "x < 1024" using False c by (simp_all add: v)
    have e: "utf16_of c = [word_of_nat (0xD800 + x), word_of_nat (0xDC00 + y)]" using False by (simp add: utf16_of_def v)
    have s: "src ! i = word_of_nat (0xD800 + x)" "src ! (i + 1) = word_of_nat (0xDC00 + y)" and l: "i + 1 < length src"
      using drop_two [of i src] assms(2) e by (simp_all only: append_Cons)
    have u: "unat (src ! i) = 0xD800 + x" "unat (src ! (i + 1)) = 0xDC00 + y" unfolding s using xy by (simp_all only: unat_u16_of_nat)
    then have "sur_high (ucast (src ! i))" "sur_low (ucast (src ! (i + 1)))" using xy by (simp_all add: sur_numbers)
    then show ?thesis using l e pair_value [OF u] xy(1) by (simp add: utf16_next_def Let_def)
  qed
qed

lemma no_room_mono: "no_room buf t m \<Longrightarrow> m \<le> n \<Longrightarrow> no_room buf t n"
  by (cases buf) (auto simp: no_room_def)

lemma ucast_u16_of_nat: "n < 65536 \<Longrightarrow> ucast (word_of_nat n :: u32) = (word_of_nat n :: u16)"
  by (simp add: u16_eq_unat unat_u16_of_nat unsigned_ucast_eq take_bit_nat_eq_self)

lemma ucast_u16_eq: "unat (w :: u32) = n \<Longrightarrow> n < 65536 \<Longrightarrow> ucast w = (word_of_nat n :: u16)"
  using ucast_u16_of_nat [of n] by auto

lemma and_1023: "n AND 1023 = n mod 1024" for n :: nat
  using take_bit_eq_mask [of 10 n] by (simp add: mask_eq_exp_minus_1 take_bit_eq_mod)

lemma utf16_units_of:
  assumes "is_scalar c"
  shows "utf16_units flags buf t (word_of_nat c) = (if no_room buf t (length (utf16_of c)) then Inl targetExhausted else Inr (utf16_of c))"
proof -
  have c: "c < 2 ^ 32" by (rule is_scalar_less [OF assms])
  show ?thesis
  proof (cases "c < 0x10000")
    case True
    then show ?thesis using assms c by (auto simp: utf16_units_def utf16_of_def u32_cmp sur_any_number is_scalar_def ucast_u16_of_nat)
  next
    case False
    define m where "m = c - 0x10000"
    have m: "m < 0x100000" using assms False unfolding is_scalar_def m_def by linarith
    have w: "word_of_nat c - 0x10000 = (word_of_nat m :: u32)" using minus_offset [where n = c and m = m and k = "0x10000"] False by (simp add: m_def)
    have "unat (drop_bit 10 (word_of_nat m :: u32) + 0xD800) = 0xD800 + m div 1024"
      using m by (simp add: unat_word_ariths unat_drop_bit del: drop_bit_eq_div)
    then have hi: "ucast (drop_bit 10 (word_of_nat m :: u32) + 0xD800) = (word_of_nat (0xD800 + m div 1024) :: u16)"
      using m by (intro ucast_u16_eq) simp_all
    have "unat ((word_of_nat m AND 0x3FF :: u32) + 0xDC00) = 0xDC00 + m mod 1024"
      using m by (simp add: unat_word_ariths unsigned_and_eq and_1023)
    then have lo: "ucast ((word_of_nat m AND 0x3FF :: u32) + 0xDC00) = (word_of_nat (0xDC00 + m mod 1024) :: u16)"
      by (rule ucast_u16_eq) (use pos_mod_bound [of 1024 "int m"] in linarith)
    have "length (utf16_of c) = 2" using False by (simp add: utf16_of_def)
    then show ?thesis using assms c False hi lo no_room_mono [where buf = buf and t = t and m = 1 and n = 2]
      by (auto simp: utf16_units_def u32_cmp is_scalar_def Let_def w) (auto simp: utf16_of_def m_def)
  qed
qed

subsection \<open>The loops\<close>

lemma put_append: "put buf t xs = Some buf' \<Longrightarrow> put buf' (t + length xs) ys = Some buf'' \<Longrightarrow> put buf t (xs @ ys) = Some buf''"
  by (cases buf) (auto simp: put_def mem_write_def split: if_splits, simp add: ac_simps)

lemma put_room: "\<not> no_room buf t (length xs) \<Longrightarrow> \<exists>buf'. put buf t xs = Some buf'"
  by (cases buf) (auto simp: put_def no_room_def mem_write_def)

lemma put_Nil: "\<not> no_room buf t 0 \<Longrightarrow> put buf t [] = Some buf"
  by (cases buf) (auto simp: put_def no_room_def mem_write_def)

lemma put_no_room: "put buf t xs = Some buf' \<Longrightarrow> no_room buf' u n = no_room buf u n"
  by (cases buf) (auto simp: put_def no_room_def dest: length_mem_write)

lemma not_no_room_shift: "\<not> no_room buf t n \<Longrightarrow> \<not> no_room buf (t + n) 0"
  by (cases buf) (auto simp: no_room_def)

text \<open>The source has no sequence that is accepted without being the encoding of a character.\<close>

definition tight :: "byte list \<Rightarrow> bool" where
  "tight src \<longleftrightarrow> (\<forall>i < length src. \<not> loose (drop i src))"

lemma utf8_utf16_loop_spec:
  "\<not> no_room buf t 0 \<Longrightarrow> i \<le> length src \<Longrightarrow>
    \<exists>cs r j buf'. utf8_utf16_loop strictConversion src i buf t = Some (r, j, buf', t + length (utf16_text cs)) \<and> put buf t (utf16_text cs) = Some buf' \<and>
      (\<forall>c\<in>set cs. is_scalar c) \<and> (r = conversionOK \<longleftrightarrow> j = length src) \<and> i \<le> j \<and> j \<le> length src \<and> (tight src \<longrightarrow> drop i src = utf8_text cs @ drop j src)"
proof (induction "length src - i" arbitrary: i buf t rule: less_induct)
  case less
  show ?case
  proof (cases "i < length src")
    case False
    then show ?thesis using less.prems by (subst utf8_utf16_loop.simps) (auto intro!: exI [of _ "[]"] simp: put_Nil)
  next
    case True
    show ?thesis
    proof (cases "utf8_next src i")
      case (Inl r)
      then have "r \<noteq> conversionOK" by (auto simp: utf8_next_def Let_def split: if_split_asm)
      then show ?thesis using less.prems True Inl by (subst utf8_utf16_loop.simps) (auto intro!: exI [of _ "[]"] simp: put_Nil)
    next
      case (Inr p)
      obtain ch j where p: "p = (ch, j)" by (cases p)
      from utf8_next_scalar [OF Inr [unfolded p] True] obtain c where c: "is_scalar c" "ch = word_of_nat c" "j \<le> length src"
        "\<not> loose (drop i src) \<Longrightarrow> drop i src = utf8_of c @ drop j src" by blast
      have ij: "i < j" by (rule utf8_next_advances [OF Inr [unfolded p]])
      show ?thesis
      proof (cases "no_room buf t (length (utf16_of c))")
        case True
        then show ?thesis using less.prems \<open>i < length src\<close> Inr p c(2) utf16_units_of [OF c(1)]
          by (subst utf8_utf16_loop.simps) (auto intro!: exI [of _ "[]"] simp: put_Nil)
      next
        case False
        from put_room [OF False] obtain buf1 where 1: "put buf t (utf16_of c) = Some buf1" by blast
        have "\<not> no_room buf1 (t + length (utf16_of c)) 0" using not_no_room_shift [OF False] put_no_room [OF 1] by simp
        moreover have "length src - j < length src - i" using ij True by linarith
        ultimately obtain cs r k buf' where
          ih: "utf8_utf16_loop strictConversion src j buf1 (t + length (utf16_of c)) = Some (r, k, buf', t + length (utf16_of c) + length (utf16_text cs))"
            "put buf1 (t + length (utf16_of c)) (utf16_text cs) = Some buf'" "\<forall>c\<in>set cs. is_scalar c" "r = conversionOK \<longleftrightarrow> k = length src" "j \<le> k" "k \<le> length src"
            "tight src \<longrightarrow> drop j src = utf8_text cs @ drop k src" using less.hyps [OF _ _ c(3)] by blast
        have "tight src \<Longrightarrow> \<not> loose (drop i src)" using True by (simp add: tight_def)
        then show ?thesis using True Inr p c utf16_units_of [OF c(1)] False 1 ih ij put_append [OF 1 ih(2)]
          by (subst utf8_utf16_loop.simps) (auto intro!: exI [of _ "c # cs"])
      qed
    qed
  qed
qed

lemma utf16_utf8_loop_spec:
  "\<not> no_room buf t 0 \<Longrightarrow> i \<le> length src \<Longrightarrow>
    \<exists>cs r j buf'. utf16_utf8_loop strictConversion src i buf t = Some (r, j, buf', t + length (utf8_text cs)) \<and> put buf t (utf8_text cs) = Some buf' \<and>
      (\<forall>c\<in>set cs. is_scalar c) \<and> (r = conversionOK \<longleftrightarrow> j = length src) \<and> i \<le> j \<and> j \<le> length src \<and> drop i src = utf16_text cs @ drop j src"
proof (induction "length src - i" arbitrary: i buf t rule: less_induct)
  case less
  show ?case
  proof (cases "i < length src")
    case False
    then show ?thesis using less.prems by (subst utf16_utf8_loop.simps) (auto intro!: exI [of _ "[]"] simp: put_Nil)
  next
    case True
    show ?thesis
    proof (cases "utf16_next strictConversion src i")
      case (Inl r)
      then have "r \<noteq> conversionOK" by (auto simp: utf16_next_def Let_def split: if_split_asm)
      then show ?thesis using less.prems True Inl by (subst utf16_utf8_loop.simps) (auto intro!: exI [of _ "[]"] simp: put_Nil)
    next
      case (Inr p)
      obtain ch j where p: "p = (ch, j)" by (cases p)
      from utf16_next_scalar [OF Inr [unfolded p] True] obtain c where c: "is_scalar c" "ch = word_of_nat c" "drop i src = utf16_of c @ drop j src" "j \<le> length src"
        by blast
      have "c < 0x110000" using c(1) by (simp add: is_scalar_def)
      note w = utf8_write_of [OF this]
      have ij: "i < j" by (rule utf16_next_advances [OF Inr [unfolded p]])
      show ?thesis
      proof (cases "no_room buf t (length (utf8_of c))")
        case True
        then show ?thesis using less.prems \<open>i < length src\<close> Inr p c(2) w
          by (subst utf16_utf8_loop.simps) (auto intro!: exI [of _ "[]"] simp: put_Nil)
      next
        case False
        from put_room [OF False] obtain buf1 where 1: "put buf t (utf8_of c) = Some buf1" by blast
        have "\<not> no_room buf1 (t + length (utf8_of c)) 0" using not_no_room_shift [OF False] put_no_room [OF 1] by simp
        moreover have "length src - j < length src - i" using ij True by linarith
        ultimately obtain cs r k buf' where
          ih: "utf16_utf8_loop strictConversion src j buf1 (t + length (utf8_of c)) = Some (r, k, buf', t + length (utf8_of c) + length (utf8_text cs))"
            "put buf1 (t + length (utf8_of c)) (utf8_text cs) = Some buf'" "\<forall>c\<in>set cs. is_scalar c" "r = conversionOK \<longleftrightarrow> k = length src" "j \<le> k" "k \<le> length src"
            "drop j src = utf16_text cs @ drop k src" using less.hyps [OF _ _ c(4)] by blast
        then show ?thesis using True Inr p c w False 1 ij put_append [OF 1 ih(2)]
          by (subst utf16_utf8_loop.simps) (auto intro!: exI [of _ "c # cs"])
      qed
    qed
  qed
qed

text \<open>Sources that are encodings are converted as a whole.\<close>

lemma no_room_append: "\<not> no_room buf t (m + n) \<Longrightarrow> \<not> no_room buf t m \<and> \<not> no_room buf (t + m) n"
  by (cases buf) (auto simp: no_room_def)

lemma utf8_utf16_loop_of:
  "\<forall>c\<in>set cs. is_scalar c \<Longrightarrow> drop i src = utf8_text cs \<Longrightarrow> i \<le> length src \<Longrightarrow> \<not> no_room buf t (length (utf16_text cs)) \<Longrightarrow>
    \<exists>buf'. utf8_utf16_loop flags src i buf t = Some (conversionOK, length src, buf', t + length (utf16_text cs)) \<and> put buf t (utf16_text cs) = Some buf'"
proof (induction cs arbitrary: i buf t)
  case Nil
  then show ?case by (subst utf8_utf16_loop.simps) (simp add: put_Nil)
next
  case (Cons c cs)
  have c: "is_scalar c" and i: "i < length src" using Cons.prems by (auto, metis append_is_Nil_conv drop_all le_neq_implies_less order.refl utf_of_nonempty(1))
  have d: "drop i src = utf8_of c @ utf8_text cs" using Cons.prems(2) by simp
  have r: "\<not> no_room buf t (length (utf16_of c))" "\<not> no_room buf (t + length (utf16_of c)) (length (utf16_text cs))" using no_room_append Cons.prems(4) by auto
  from put_room [OF r(1)] obtain buf1 where 1: "put buf t (utf16_of c) = Some buf1" by blast
  have "drop (i + length (utf8_of c)) src = utf8_text cs" "i + length (utf8_of c) \<le> length src"
    using arg_cong [OF d, of "drop (length (utf8_of c))"] arg_cong [OF d, of length] i by (simp_all add: add.commute)
  from Cons.IH [OF _ this, of buf1 "t + length (utf16_of c)"] r(2) Cons.prems(1) put_no_room [OF 1] obtain buf' where
    ih: "utf8_utf16_loop flags src (i + length (utf8_of c)) buf1 (t + length (utf16_of c)) = Some (conversionOK, length src, buf', t + length (utf16_of c) + length (utf16_text cs))"
      "put buf1 (t + length (utf16_of c)) (utf16_text cs) = Some buf'" by auto
  show ?case using i utf8_next_of [OF c d] utf16_units_of [OF c] r(1) 1 ih put_append [OF 1 ih(2)] by (subst utf8_utf16_loop.simps) auto
qed

lemma utf16_utf8_loop_of:
  "\<forall>c\<in>set cs. is_scalar c \<Longrightarrow> drop i src = utf16_text cs \<Longrightarrow> i \<le> length src \<Longrightarrow> \<not> no_room buf t (length (utf8_text cs)) \<Longrightarrow>
    \<exists>buf'. utf16_utf8_loop flags src i buf t = Some (conversionOK, length src, buf', t + length (utf8_text cs)) \<and> put buf t (utf8_text cs) = Some buf'"
proof (induction cs arbitrary: i buf t)
  case Nil
  then show ?case by (subst utf16_utf8_loop.simps) (simp add: put_Nil)
next
  case (Cons c cs)
  have c: "is_scalar c" and i: "i < length src" using Cons.prems by (auto, metis append_is_Nil_conv drop_all le_neq_implies_less order.refl utf_of_nonempty(2))
  have "c < 0x110000" using c by (simp add: is_scalar_def)
  note w = utf8_write_of [OF this]
  have d: "drop i src = utf16_of c @ utf16_text cs" using Cons.prems(2) by simp
  have r: "\<not> no_room buf t (length (utf8_of c))" "\<not> no_room buf (t + length (utf8_of c)) (length (utf8_text cs))" using no_room_append Cons.prems(4) by auto
  from put_room [OF r(1)] obtain buf1 where 1: "put buf t (utf8_of c) = Some buf1" by blast
  have "drop (i + length (utf16_of c)) src = utf16_text cs" "i + length (utf16_of c) \<le> length src"
    using arg_cong [OF d, of "drop (length (utf16_of c))"] arg_cong [OF d, of length] i by (simp_all add: add.commute)
  from Cons.IH [OF _ this, of buf1 "t + length (utf8_of c)"] r(2) Cons.prems(1) put_no_room [OF 1] obtain buf' where
    ih: "utf16_utf8_loop flags src (i + length (utf16_of c)) buf1 (t + length (utf8_of c)) = Some (conversionOK, length src, buf', t + length (utf8_of c) + length (utf8_text cs))"
      "put buf1 (t + length (utf8_of c)) (utf8_text cs) = Some buf'" by auto
  show ?case using i utf16_next_of [OF c d] w r(1) 1 ih put_append [OF 1 ih(2)] by (subst utf16_utf8_loop.simps) auto
qed

end
