(* ===== verification/Unicode.thy ===== *)
theory Unicode
  imports UtfProps
begin

text \<open>
  What the conversions of \<open>utf.c\<close> and the wrappers of \<open>unicode.c\<close> do on arbitrary sources and on
  strings.
\<close>

subsection \<open>Conversions of arbitrary sources\<close>

lemma put_block: "put (Some b) 0 xs = Some buf \<longleftrightarrow> (\<exists>b'. buf = Some b' \<and> mem_write b 0 xs = Some b')"
  by (auto simp: put_def)

lemma room_block [simp]: "no_room (Some b) 0 n \<longleftrightarrow> length b < n" "\<not> no_room None t n"
  by (auto simp: no_room_def)

text \<open>
  UTF-8 to UTF-16 against the Unicode standard (C24): whatever the source holds, the strict conversion
  returns, writes nothing behind the target, and what it writes is the UTF-16 form of a sequence of
  characters. It reports success exactly when it consumed the source. When no lead byte \<open>0xED\<close>
  or \<open>0xF4\<close> is followed by a byte below \<open>0x80\<close>, what it consumed is the UTF-8 form of the same characters.
\<close>

theorem ConvertUTF8toUTF16_spec:
  "\<exists>cs r j b'. ConvertUTF8toUTF16 src (Some b) strictConversion = Some (r, j, Some b', length (utf16_text cs)) \<and>
    (\<forall>c\<in>set cs. is_scalar c) \<and> mem_write b 0 (utf16_text cs) = Some b' \<and> j \<le> length src \<and> (r = conversionOK \<longleftrightarrow> j = length src) \<and>
    (tight src \<longrightarrow> take j src = utf8_text cs)"
proof -
  from utf8_utf16_loop_spec [of "Some b" 0 0 src] obtain cs r j buf' where
    s: "utf8_utf16_loop strictConversion src 0 (Some b) 0 = Some (r, j, buf', length (utf16_text cs))" "put (Some b) 0 (utf16_text cs) = Some buf'"
      "\<forall>c\<in>set cs. is_scalar c" "r = conversionOK \<longleftrightarrow> j = length src" "j \<le> length src" "tight src \<longrightarrow> src = utf8_text cs @ drop j src" by auto
  have "take j src = utf8_text cs" if "tight src"
    using s(6) that append_take_drop_id [of j src] by (metis append_same_eq)
  then show ?thesis using s by (auto simp: ConvertUTF8toUTF16_def put_block)
qed

theorem ConvertUTF8toUTF16_spec_witness:
  "\<exists>cs r j b'. ConvertUTF8toUTF16 [0x48, 0xC3, 0xA9, 0xFF] (Some [0, 0, 0]) strictConversion = Some (r, j, Some b', length (utf16_text cs)) \<and>
    (\<forall>c\<in>set cs. is_scalar c) \<and> take j [0x48, 0xC3, 0xA9, 0xFF] = utf8_text cs"
proof -
  have "tight [0x48, 0xC3, 0xA9, 0xFF]" by (auto simp: tight_def loose_def less_Suc_eq)
  then show ?thesis using ConvertUTF8toUTF16_spec [of "[0x48, 0xC3, 0xA9, 0xFF]" "[0, 0, 0]"] by blast
qed

text \<open>
  UTF-16 to UTF-8 against the Unicode standard (C25): whatever the source holds, the strict conversion returns,
  writes nothing behind the target, and turns the longest possible prefix of the source, the UTF-16 form of some
  characters, into their UTF-8 form; it reports success exactly when this is the whole source.
\<close>

theorem ConvertUTF16toUTF8_spec:
  "\<exists>cs r j b'. ConvertUTF16toUTF8 src (Some b) strictConversion = Some (r, j, Some b', length (utf8_text cs)) \<and>
    (\<forall>c\<in>set cs. is_scalar c) \<and> mem_write b 0 (utf8_text cs) = Some b' \<and> j \<le> length src \<and> (r = conversionOK \<longleftrightarrow> j = length src) \<and>
    take j src = utf16_text cs"
proof -
  from utf16_utf8_loop_spec [of "Some b" 0 0 src] obtain cs r j buf' where
    s: "utf16_utf8_loop strictConversion src 0 (Some b) 0 = Some (r, j, buf', length (utf8_text cs))" "put (Some b) 0 (utf8_text cs) = Some buf'"
      "\<forall>c\<in>set cs. is_scalar c" "r = conversionOK \<longleftrightarrow> j = length src" "j \<le> length src" "src = utf16_text cs @ drop j src" by auto
  have "take j src = utf16_text cs" using s(6) append_take_drop_id [of j src] by (metis append_same_eq)
  then show ?thesis using s by (auto simp: ConvertUTF16toUTF8_def put_block)
qed

theorem ConvertUTF16toUTF8_spec_witness:
  "\<exists>cs r j b'. ConvertUTF16toUTF8 [0x48, 0xD83D, 0xDE00, 0xDC00] (Some (replicate 8 0)) strictConversion = Some (r, j, Some b', length (utf8_text cs)) \<and>
    (\<forall>c\<in>set cs. is_scalar c) \<and> take j [0x48, 0xD83D, 0xDE00, 0xDC00] = utf16_text cs"
  using ConvertUTF16toUTF8_spec [of "[0x48, 0xD83D, 0xDE00, 0xDC00]" "replicate 8 0"] by blast

text \<open>
  Ill-formed UTF-8 is accepted: the three bytes \<open>ED 41 80\<close>, which hold the letter A, are not the
  UTF-8 form of any text, but \<open>isLegalUTF8\<close> accepts them and the strict conversion makes them one character.
\<close>

theorem isLegalUTF8_accepts_ill_formed:
  "isLegalUTF8 [0xED, 0x41, 0x80] 3 \<and>
    ConvertUTF8toUTF16 [0xED, 0x41, 0x80] (Some [0]) strictConversion = Some (conversionOK, 3, Some [0xC040], 1) \<and>
    utf8_text [0xC040] = [0xEC, 0x81, 0x80]"
proof -
  have t: "trailingBytesForUTF8 ! 237 = 2" by (simp add: trailing_table)
  have l: "isLegalUTF8 [0xED, 0x41, 0x80] 3" by (simp add: isLegalUTF8_def)
  have n: "utf8_next [0xED, 0x41, 0x80] 0 = Inr (0xC040, 3)" using l by (simp add: utf8_next_def Let_def t offsetsFromUTF8_def)
  have "utf8_utf16_loop strictConversion [0xED, 0x41, 0x80] 3 (Some [0xC040]) 1 = Some (conversionOK, 3, Some [0xC040], 1)"
    by (subst utf8_utf16_loop.simps) simp
  then have "utf8_utf16_loop strictConversion [0xED, 0x41, 0x80] 0 (Some [0]) 0 = Some (conversionOK, 3, Some [0xC040], 1)"
    using n by (subst utf8_utf16_loop.simps) (simp add: utf16_units_def sur_any_def put_def)
  then show ?thesis using l by (simp add: ConvertUTF8toUTF16_def utf8_of_def)
qed

subsection \<open>Strings\<close>

lemma utf8_of_zero [simp]: "utf8_of 0 = [0]" "utf16_of 0 = [0]" "is_scalar 0"
  by (simp_all add: utf8_of_def utf16_of_def is_scalar_def)

lemma utf_text_append: "utf8_text (cs @ ds) = utf8_text cs @ utf8_text ds" "utf16_text (cs @ ds) = utf16_text cs @ utf16_text ds"
  by (simp_all add: utf8_text_def utf16_text_def)

lemma word_of_nat_nonzero: "0 < n \<Longrightarrow> n < 256 \<Longrightarrow> (0 :: byte) \<noteq> word_of_nat n" "0 < n \<Longrightarrow> n < 65536 \<Longrightarrow> (0 :: u16) \<noteq> word_of_nat n"
  by (metis less_numeral_extra(3) unat_0 unat_byte_of_nat) (metis less_numeral_extra(3) unat_0 unat_u16_of_nat)

lemma utf_of_nonzero:
  assumes "is_scalar c" "c \<noteq> 0"
  shows "0 \<notin> set (utf8_of c)" "0 \<notin> set (utf16_of c)"
proof -
  have c: "c < 0x110000" using assms(1) by (simp add: is_scalar_def)
  have q: "c div 262144 < 16" "c div 4096 mod 64 < 64" "c div 64 mod 64 < 64" "c mod 64 < 64" using c by simp_all
  show "0 \<notin> set (utf8_of c)" using assms(2) q unfolding utf8_of_def by (auto simp: word_of_nat_nonzero simp del: of_nat_add)
  have "(c - 0x10000) div 1024 < 1024" "(c - 0x10000) mod 1024 < 1024" using c by simp_all
  then show "0 \<notin> set (utf16_of c)" using assms(2) unfolding utf16_of_def by (auto simp: word_of_nat_nonzero simp del: of_nat_add)
qed

lemma utf_text_nonzero:
  assumes "\<forall>c\<in>set cs. is_scalar c \<and> c \<noteq> 0"
  shows "0 \<notin> set (utf8_text cs)" "0 \<notin> set (utf16_text cs)"
  using assms utf_of_nonzero by (induction cs) auto

lemma c_wcslen_text: "0 \<notin> set s \<Longrightarrow> c_wcslen (s @ 0 # rest) = Some (length s)"
  by (simp add: c_wcslen_def takeWhile_append)

lemma c_string:
  assumes "\<forall>c\<in>set cs. is_scalar c \<and> c \<noteq> 0"
  shows "c_wcslen (utf8_text cs @ 0 # rest8) = Some (length (utf8_text cs))" "c_wcslen (utf16_text cs @ 0 # rest16) = Some (length (utf16_text cs))"
  using c_wcslen_text utf_text_nonzero [OF assms] by auto

text \<open>A string with its terminator, converted into a new block, whose last unit is left at zero.\<close>

lemma ConvertUTF8toUTF16_text:
  assumes "\<forall>c\<in>set cs. is_scalar c"
  shows "ConvertUTF8toUTF16 (utf8_text cs) None flags = Some (conversionOK, length (utf8_text cs), None, length (utf16_text cs))"
    "ConvertUTF8toUTF16 (utf8_text cs) (Some (replicate (length (utf16_text cs)) 0)) flags =
      Some (conversionOK, length (utf8_text cs), Some (utf16_text cs), length (utf16_text cs))"
  using utf8_utf16_loop_of [of cs 0 "utf8_text cs" None 0 flags] utf8_utf16_loop_of [of cs 0 "utf8_text cs" "Some (replicate (length (utf16_text cs)) 0)" 0 flags] assms
  by (auto simp: ConvertUTF8toUTF16_def put_def mem_write_def)

lemma ConvertUTF16toUTF8_text:
  assumes "\<forall>c\<in>set cs. is_scalar c"
  shows "ConvertUTF16toUTF8 (utf16_text cs) None flags = Some (conversionOK, length (utf16_text cs), None, length (utf8_text cs))"
    "ConvertUTF16toUTF8 (utf16_text cs) (Some (replicate (length (utf8_text cs)) 0)) flags =
      Some (conversionOK, length (utf16_text cs), Some (utf8_text cs), length (utf8_text cs))"
  using utf16_utf8_loop_of [of cs 0 "utf16_text cs" None 0 flags] utf16_utf8_loop_of [of cs 0 "utf16_text cs" "Some (replicate (length (utf8_text cs)) 0)" 0 flags] assms
  by (auto simp: ConvertUTF16toUTF8_def put_def mem_write_def)

lemma mem_string [simp]: "mem_read (s @ 0 # rest) 0 (Suc (length s)) = Some (s @ [0])"
  by (simp add: mem_read_def)

lemma ConvertToUnicode_text:
  assumes "\<forall>c\<in>set cs. is_scalar c \<and> c \<noteq> 0" "length (utf8_text cs) + 1 < 2 ^ 31"
  shows "ConvertToUnicode True (Some (utf8_text cs @ 0 # rest)) (-1) (Some None) 0 =
    Some (int (length (utf16_text cs)) + 1, Some (Some (utf16_text cs @ [0, 0])))"
proof -
  have t: "\<forall>c\<in>set (cs @ [0]). is_scalar c" using assms by auto
  have conv: "ConvertUTF8toUTF16 (utf8_text cs @ [0]) None strictConversion = Some (conversionOK, Suc (length (utf8_text cs)), None, Suc (length (utf16_text cs)))"
    "ConvertUTF8toUTF16 (utf8_text cs @ [0]) (Some (replicate (Suc (length (utf16_text cs))) 0)) strictConversion =
      Some (conversionOK, Suc (length (utf8_text cs)), Some (utf16_text cs @ [0]), Suc (length (utf16_text cs)))"
    using ConvertUTF8toUTF16_text [OF t, of strictConversion] by (simp_all add: utf_text_append del: replicate_Suc)
  have len: "c_int (length (utf8_text cs) + 1) = int (length (utf8_text cs)) + 1" using assms(2) by simp
  have "mem_read (replicate (Suc (Suc (length (utf16_text cs)))) 0) 0 (Suc (length (utf16_text cs))) = Some (replicate (Suc (length (utf16_text cs))) (0 :: u16))"
    by (simp add: mem_read_def min_def del: replicate_Suc)
  moreover have "mem_write (replicate (Suc (Suc (length (utf16_text cs)))) 0) 0 (utf16_text cs @ [0]) = Some (utf16_text cs @ [0, 0 :: u16])"
    by (simp add: mem_write_def Suc_diff_le del: replicate_Suc) simp
  ultimately show ?thesis using conv len c_string(1) [OF assms(1)]
    by (simp add: ConvertToUnicode_def MultiByteToWideChar_def nat_add_distrib del: replicate_Suc)
qed

lemma ConvertFromUnicode_text:
  assumes "\<forall>c\<in>set cs. is_scalar c \<and> c \<noteq> 0" "length (utf16_text cs) + 1 < 2 ^ 31"
  shows "ConvertFromUnicode True (Some (utf16_text cs @ 0 # rest)) (-1) (Some None) 0 =
    Some (int (length (utf8_text cs)) + 1, Some (Some (utf8_text cs @ [0, 0])))"
proof -
  have t: "\<forall>c\<in>set (cs @ [0]). is_scalar c" using assms by auto
  have conv: "ConvertUTF16toUTF8 (utf16_text cs @ [0]) None strictConversion = Some (conversionOK, Suc (length (utf16_text cs)), None, Suc (length (utf8_text cs)))"
    "ConvertUTF16toUTF8 (utf16_text cs @ [0]) (Some (replicate (Suc (length (utf8_text cs))) 0)) strictConversion =
      Some (conversionOK, Suc (length (utf16_text cs)), Some (utf8_text cs @ [0]), Suc (length (utf8_text cs)))"
    using ConvertUTF16toUTF8_text [OF t, of strictConversion] by (simp_all add: utf_text_append del: replicate_Suc)
  have len: "c_int (length (utf16_text cs) + 1) = int (length (utf16_text cs)) + 1" using assms(2) by simp
  have "mem_read (replicate (Suc (Suc (length (utf8_text cs)))) 0) 0 (Suc (length (utf8_text cs))) = Some (replicate (Suc (length (utf8_text cs))) (0 :: byte))"
    by (simp add: mem_read_def min_def del: replicate_Suc)
  moreover have "mem_write (replicate (Suc (Suc (length (utf8_text cs)))) 0) 0 (utf8_text cs @ [0]) = Some (utf8_text cs @ [0, 0 :: byte])"
    by (simp add: mem_write_def Suc_diff_le del: replicate_Suc) simp
  ultimately show ?thesis using conv len c_string(2) [OF assms(1)]
    by (simp add: ConvertFromUnicode_def WideCharToMultiByte_def nat_add_distrib del: replicate_Suc)
qed

text \<open>
  Strings, round trip (C26): a UTF-8 string of any characters, converted by \<open>ConvertToUnicode\<close> and back by
  \<open>ConvertFromUnicode\<close>, both with their own allocation, is the same string; the wide string in
  between is its UTF-16 form.
\<close>

theorem unicode_string_roundtrip:
  assumes "\<forall>c\<in>set cs. is_scalar c \<and> c \<noteq> 0" "length (utf8_text cs) + 1 < 2 ^ 31" "length (utf16_text cs) + 1 < 2 ^ 31"
  shows "\<exists>wide back. ConvertToUnicode True (Some (utf8_text cs @ [0])) (-1) (Some None) 0 = Some (int (length (utf16_text cs)) + 1, Some (Some wide)) \<and>
    take (length (utf16_text cs) + 1) wide = utf16_text cs @ [0] \<and>
    ConvertFromUnicode True (Some wide) (-1) (Some None) 0 = Some (int (length (utf8_text cs)) + 1, Some (Some back)) \<and>
    take (length (utf8_text cs) + 1) back = utf8_text cs @ [0]"
  using ConvertToUnicode_text [OF assms(1,2), of "[]"] ConvertFromUnicode_text [OF assms(1,3), of "[0]"] by simp

theorem unicode_string_roundtrip_witness:
  "\<exists>wide back. ConvertToUnicode True (Some [0x48, 0xC3, 0xA9, 0xF0, 0x9F, 0x98, 0x80, 0]) (-1) (Some None) 0 = Some (5, Some (Some wide)) \<and>
    take 5 wide = [0x48, 0xE9, 0xD83D, 0xDE00, 0] \<and>
    ConvertFromUnicode True (Some wide) (-1) (Some None) 0 = Some (8, Some (Some back)) \<and> take 8 back = [0x48, 0xC3, 0xA9, 0xF0, 0x9F, 0x98, 0x80, 0]"
proof -
  have t: "utf8_text [0x48, 0xE9, 0x1F600] = [0x48, 0xC3, 0xA9, 0xF0, 0x9F, 0x98, 0x80]" "utf16_text [0x48, 0xE9, 0x1F600] = [0x48, 0xE9, 0xD83D, 0xDE00]"
    by (simp_all add: utf8_of_def utf16_of_def)
  have "\<forall>c\<in>set [0x48, 0xE9, 0x1F600]. is_scalar c \<and> c \<noteq> 0" by (simp add: is_scalar_def)
  moreover have l: "length [0x48, 0xC3, 0xA9, 0xF0, 0x9F, 0x98, 0x80 :: byte] = 7" "length [0x48, 0xE9, 0xD83D, 0xDE00 :: u16] = 4" by simp_all
  ultimately show ?thesis using unicode_string_roundtrip [of "[0x48, 0xE9, 0x1F600]"] unfolding t l by simp
qed

subsection \<open>The detour through UTF-32\<close>

lemma drop_step:
  assumes "drop i src = xs @ ys" "i \<le> length src" "xs \<noteq> []"
  shows "i < length src" "drop (i + length xs) src = ys" "i + length xs \<le> length src"
proof -
  show "i < length src" using assms by (metis append_is_Nil_conv drop_all le_neq_implies_less order.refl)
  show "drop (i + length xs) src = ys" using arg_cong [OF assms(1), of "drop (length xs)"] by (simp add: add.commute)
  show "i + length xs \<le> length src" using arg_cong [OF assms(1), of length] assms(2) by simp
qed

lemma utf16_utf32_loop_of:
  "\<forall>c\<in>set cs. is_scalar c \<Longrightarrow> drop i src = utf16_text cs \<Longrightarrow> i \<le> length src \<Longrightarrow> \<not> no_room buf t (length cs) \<Longrightarrow>
    \<exists>buf'. utf16_utf32_loop flags src i buf t = Some (conversionOK, length src, buf', t + length cs) \<and> put buf t (map word_of_nat cs) = Some buf'"
proof (induction cs arbitrary: i buf t)
  case Nil
  then show ?case by (subst utf16_utf32_loop.simps) (simp add: put_Nil)
next
  case (Cons c cs)
  have c: "is_scalar c" and d: "drop i src = utf16_of c @ utf16_text cs" using Cons.prems by simp_all
  note i = drop_step [OF d Cons.prems(3)]
  have r: "\<not> no_room buf t 1" "\<not> no_room buf (t + 1) (length cs)" using no_room_append [of buf t 1 "length cs"] Cons.prems(4) by auto
  from put_room [of buf t "[word_of_nat c]"] r(1) obtain buf1 where 1: "put buf t [word_of_nat c] = Some buf1" by auto
  from Cons.IH [OF _ i(2,3), of buf1 "t + 1"] r(2) Cons.prems(1) put_no_room [OF 1] obtain buf' where
    ih: "utf16_utf32_loop flags src (i + length (utf16_of c)) buf1 (t + 1) = Some (conversionOK, length src, buf', t + 1 + length cs)"
      "put buf1 (t + 1) (map word_of_nat cs) = Some buf'" by auto
  show ?case using i(1) utf16_next_of [OF c d] r(1) 1 ih put_append [OF 1, of "map word_of_nat cs" buf'] by (subst utf16_utf32_loop.simps) auto
qed

lemma utf8_utf32_loop_of:
  "\<forall>c\<in>set cs. is_scalar c \<Longrightarrow> drop i src = utf8_text cs \<Longrightarrow> i \<le> length src \<Longrightarrow> \<not> no_room buf t (length cs) \<Longrightarrow>
    \<exists>buf'. utf8_utf32_loop flags src i buf t r = Some (r, length src, buf', t + length cs) \<and> put buf t (map word_of_nat cs) = Some buf'"
proof (induction cs arbitrary: i buf t)
  case Nil
  then show ?case by (subst utf8_utf32_loop.simps) (simp add: put_Nil)
next
  case (Cons c cs)
  have c: "is_scalar c" and d: "drop i src = utf8_of c @ utf8_text cs" using Cons.prems by simp_all
  note i = drop_step [OF d Cons.prems(3)]
  have r: "\<not> no_room buf t 1" "\<not> no_room buf (t + 1) (length cs)" using no_room_append [of buf t 1 "length cs"] Cons.prems(4) by auto
  from put_room [of buf t "[word_of_nat c]"] r(1) obtain buf1 where 1: "put buf t [word_of_nat c] = Some buf1" by auto
  from Cons.IH [OF _ i(2,3), of buf1 "t + 1"] r(2) Cons.prems(1) put_no_room [OF 1] obtain buf' where
    ih: "utf8_utf32_loop flags src (i + length (utf8_of c)) buf1 (t + 1) r = Some (r, length src, buf', t + 1 + length cs)"
      "put buf1 (t + 1) (map word_of_nat cs) = Some buf'" by auto
  have "(word_of_nat c :: u32) \<le> 0x10FFFF" "\<not> sur_any (word_of_nat c)" using c by (auto simp: u32_cmp sur_any_number is_scalar_def)
  then show ?case using i(1) utf8_next_of [OF c d] r(1) 1 ih put_append [OF 1, of "map word_of_nat cs" buf'] by (subst utf8_utf32_loop.simps) auto
qed

lemma utf32_utf8_loop_of:
  "\<forall>c\<in>set cs. is_scalar c \<Longrightarrow> drop i src = map word_of_nat cs \<Longrightarrow> i \<le> length src \<Longrightarrow> \<not> no_room buf t (length (utf8_text cs)) \<Longrightarrow>
    \<exists>buf'. utf32_utf8_loop flags src i buf t r = Some (r, length src, buf', t + length (utf8_text cs)) \<and> put buf t (utf8_text cs) = Some buf'"
proof (induction cs arbitrary: i buf t)
  case Nil
  then show ?case by (subst utf32_utf8_loop.simps) (simp add: put_Nil)
next
  case (Cons c cs)
  have c: "is_scalar c" and d: "drop i src = [word_of_nat c] @ map word_of_nat cs" using Cons.prems by simp_all
  have "c < 0x110000" using c by (simp add: is_scalar_def)
  note w = utf8_write_of [OF this]
  note i = drop_step [OF d Cons.prems(3)]
  have s: "src ! i = word_of_nat c" using i(1) d by (simp flip: hd_drop_conv_nth)
  have r: "\<not> no_room buf t (length (utf8_of c))" "\<not> no_room buf (t + length (utf8_of c)) (length (utf8_text cs))" using no_room_append Cons.prems(4) by auto
  from put_room [OF r(1)] obtain buf1 where 1: "put buf t (utf8_of c) = Some buf1" by blast
  from Cons.IH [OF _ i(2,3), of buf1 "t + length (utf8_of c)"] r(2) Cons.prems(1) put_no_room [OF 1] obtain buf' where
    ih: "utf32_utf8_loop flags src (i + 1) buf1 (t + length (utf8_of c)) r = Some (r, length src, buf', t + length (utf8_of c) + length (utf8_text cs))"
      "put buf1 (t + length (utf8_of c)) (utf8_text cs) = Some buf'" by auto
  have "(word_of_nat c :: u32) < 0x110000" "\<not> sur_any (word_of_nat c)" using c by (auto simp: u32_cmp sur_any_number is_scalar_def)
  then show ?case using i(1) s w r(1) 1 ih put_append [OF 1 ih(2)] by (subst utf32_utf8_loop.simps) (simp add: Let_def)
qed

text \<open>The units that \<open>ConvertUTF32toUTF16\<close> writes are those of \<open>ConvertUTF8toUTF16\<close>.\<close>

lemma utf32_utf16_step:
  assumes "is_scalar (unat (src ! i))" "i < length src" "\<not> no_room buf t (length (utf16_of (unat (src ! i))))"
  shows "utf32_utf16_loop flags src i buf t r =
    (case put buf t (utf16_of (unat (src ! i))) of None \<Rightarrow> None | Some buf \<Rightarrow> utf32_utf16_loop flags src (i + 1) buf (t + length (utf16_of (unat (src ! i)))) r)"
proof -
  have 1: "\<not> no_room buf t 1" using no_room_mono [of buf t 1] assms(3) by (auto simp: utf16_of_def split: if_split_asm)
  have u: "utf16_units lenientConversion buf t (src ! i) = Inr (utf16_of (unat (src ! i)))" using utf16_units_of [OF assms(1), of lenientConversion buf t] assms(3) by simp
  have m: "\<not> 0x10FFFF < src ! i" "\<not> sur_any (src ! i)" using assms(1) by (auto simp: is_scalar_def sur_any_def word_le_nat_alt word_less_nat_alt)
  show ?thesis
  proof (cases "src ! i \<le> 0xFFFF")
    case True
    then have "utf16_of (unat (src ! i)) = [ucast (src ! i)]" using u m 1 by (simp add: utf16_units_def)
    then show ?thesis using True assms(2) 1 m by (subst utf32_utf16_loop.simps) (simp split: option.split)
  next
    case False
    then have "unat (src ! i) \<ge> 0x10000" by (simp add: word_le_nat_alt)
    then have "length (utf16_of (unat (src ! i))) = 2" by (simp add: utf16_of_def)
    then have "utf16_of (unat (src ! i)) = [ucast (drop_bit 10 (src ! i - 0x10000) + 0xD800), ucast (((src ! i - 0x10000) AND 0x3FF) + 0xDC00)]" "\<not> no_room buf t 2"
      using u m 1 False assms(3) by (auto simp: utf16_units_def Let_def split: if_split_asm)
    then show ?thesis using False assms(2) 1 m by (subst utf32_utf16_loop.simps) (simp add: Let_def split: option.split)
  qed
qed

lemma utf32_utf16_loop_of:
  "\<forall>c\<in>set cs. is_scalar c \<Longrightarrow> drop i src = map word_of_nat cs \<Longrightarrow> i \<le> length src \<Longrightarrow> \<not> no_room buf t (length (utf16_text cs)) \<Longrightarrow>
    \<exists>buf'. utf32_utf16_loop flags src i buf t r = Some (r, length src, buf', t + length (utf16_text cs)) \<and> put buf t (utf16_text cs) = Some buf'"
proof (induction cs arbitrary: i buf t)
  case Nil
  then show ?case by (subst utf32_utf16_loop.simps) (simp add: put_Nil)
next
  case (Cons c cs)
  have c: "is_scalar c" and d: "drop i src = [word_of_nat c] @ map word_of_nat cs" using Cons.prems by simp_all
  note i = drop_step [OF d Cons.prems(3)]
  have "src ! i = word_of_nat c" using i(1) d by (simp flip: hd_drop_conv_nth)
  then have s: "unat (src ! i) = c" using is_scalar_less [OF c] by simp
  have r: "\<not> no_room buf t (length (utf16_of c))" "\<not> no_room buf (t + length (utf16_of c)) (length (utf16_text cs))" using no_room_append Cons.prems(4) by auto
  from put_room [OF r(1)] obtain buf1 where 1: "put buf t (utf16_of c) = Some buf1" by blast
  from Cons.IH [OF _ i(2,3), of buf1 "t + length (utf16_of c)"] r(2) Cons.prems(1) put_no_room [OF 1] obtain buf' where
    ih: "utf32_utf16_loop flags src (i + 1) buf1 (t + length (utf16_of c)) r = Some (r, length src, buf', t + length (utf16_of c) + length (utf16_text cs))"
      "put buf1 (t + length (utf16_of c)) (utf16_text cs) = Some buf'" by auto
  show ?case using utf32_utf16_step [of src i buf t flags r] s c i(1) r(1) 1 ih put_append [OF 1 ih(2)] by simp
qed

text \<open>
  All routes between the encoding forms agree (C27): on every text, the direct conversion between UTF-8
  and UTF-16 gives what the conversion to UTF-32 and from there gives, in both directions, with the
  strict and with the lenient flag and with target buffers of the right sizes.
\<close>

theorem utf_conversions_agree:
  assumes "\<forall>c\<in>set cs. is_scalar c"
  shows "ConvertUTF8toUTF16 (utf8_text cs) (Some (replicate (length (utf16_text cs)) 0)) flags =
      Some (conversionOK, length (utf8_text cs), Some (utf16_text cs), length (utf16_text cs)) \<and>
    ConvertUTF16toUTF8 (utf16_text cs) (Some (replicate (length (utf8_text cs)) 0)) flags =
      Some (conversionOK, length (utf16_text cs), Some (utf8_text cs), length (utf8_text cs)) \<and>
    ConvertUTF8toUTF32 (utf8_text cs) (replicate (length cs) 0) flags = Some (conversionOK, length (utf8_text cs), Some (map word_of_nat cs), length cs) \<and>
    ConvertUTF16toUTF32 (utf16_text cs) (replicate (length cs) 0) flags = Some (conversionOK, length (utf16_text cs), Some (map word_of_nat cs), length cs) \<and>
    ConvertUTF32toUTF8 (map word_of_nat cs) (replicate (length (utf8_text cs)) 0) flags = Some (conversionOK, length cs, Some (utf8_text cs), length (utf8_text cs)) \<and>
    ConvertUTF32toUTF16 (map word_of_nat cs) (replicate (length (utf16_text cs)) 0) flags = Some (conversionOK, length cs, Some (utf16_text cs), length (utf16_text cs))"
proof (intro conjI)
  have b: "put (Some (replicate (length xs) 0)) 0 xs = Some buf \<Longrightarrow> buf = Some xs" for xs :: "('a :: zero) list" and buf
    by (auto simp: put_def mem_write_def)
  show "ConvertUTF8toUTF16 (utf8_text cs) (Some (replicate (length (utf16_text cs)) 0)) flags =
      Some (conversionOK, length (utf8_text cs), Some (utf16_text cs), length (utf16_text cs))" by (rule ConvertUTF8toUTF16_text [OF assms])
  show "ConvertUTF16toUTF8 (utf16_text cs) (Some (replicate (length (utf8_text cs)) 0)) flags =
      Some (conversionOK, length (utf16_text cs), Some (utf8_text cs), length (utf8_text cs))" by (rule ConvertUTF16toUTF8_text [OF assms])
  show "ConvertUTF8toUTF32 (utf8_text cs) (replicate (length cs) 0) flags = Some (conversionOK, length (utf8_text cs), Some (map word_of_nat cs), length cs)"
    using utf8_utf32_loop_of [OF assms, of 0 "utf8_text cs" "Some (replicate (length cs) 0)" 0 flags conversionOK] b [of "map word_of_nat cs"]
    by (auto simp: ConvertUTF8toUTF32_def)
  show "ConvertUTF16toUTF32 (utf16_text cs) (replicate (length cs) 0) flags = Some (conversionOK, length (utf16_text cs), Some (map word_of_nat cs), length cs)"
    using utf16_utf32_loop_of [OF assms, of 0 "utf16_text cs" "Some (replicate (length cs) 0)" 0 flags] b [of "map word_of_nat cs"]
    by (auto simp: ConvertUTF16toUTF32_def)
  show "ConvertUTF32toUTF8 (map word_of_nat cs) (replicate (length (utf8_text cs)) 0) flags = Some (conversionOK, length cs, Some (utf8_text cs), length (utf8_text cs))"
    using utf32_utf8_loop_of [OF assms, of 0 "map word_of_nat cs" "Some (replicate (length (utf8_text cs)) 0)" 0 flags conversionOK] b [of "utf8_text cs"]
    by (auto simp: ConvertUTF32toUTF8_def)
  show "ConvertUTF32toUTF16 (map word_of_nat cs) (replicate (length (utf16_text cs)) 0) flags = Some (conversionOK, length cs, Some (utf16_text cs), length (utf16_text cs))"
    using utf32_utf16_loop_of [OF assms, of 0 "map word_of_nat cs" "Some (replicate (length (utf16_text cs)) 0)" 0 flags conversionOK] b [of "utf16_text cs"]
    by (auto simp: ConvertUTF32toUTF16_def)
qed

theorem utf_conversions_agree_witness:
  "ConvertUTF8toUTF16 [0x48, 0xF0, 0x9F, 0x98, 0x80] (Some [0, 0, 0]) strictConversion = Some (conversionOK, 5, Some [0x48, 0xD83D, 0xDE00], 3) \<and>
    ConvertUTF32toUTF16 [0x48, 0x1F600] [0, 0, 0] strictConversion = Some (conversionOK, 2, Some [0x48, 0xD83D, 0xDE00], 3)"
proof -
  have t: "utf8_text [0x48, 0x1F600] = [0x48, 0xF0, 0x9F, 0x98, 0x80]" "utf16_text [0x48, 0x1F600] = [0x48, 0xD83D, 0xDE00]"
    by (simp_all add: utf8_of_def utf16_of_def)
  have "\<forall>c\<in>set [0x48, 0x1F600]. is_scalar c" by (simp add: is_scalar_def)
  moreover have l: "length [0x48, 0xF0, 0x9F, 0x98, 0x80 :: byte] = 5" "length [0x48, 0xD83D, 0xDE00 :: u16] = 3" "length [0x48, 0x1F600 :: nat] = 2"
    "replicate 3 (0 :: u16) = [0, 0, 0]" by (simp_all add: numeral_3_eq_3)
  ultimately show ?thesis using utf_conversions_agree [of "[0x48, 0x1F600]" strictConversion] unfolding t l by simp
qed

end
