(* ===== verification/Gcc.thy ===== *)
theory Gcc
  imports McsWire Unicode
begin

text \<open>
  T.124 Generic Conference Control (\<open>libfreerdp/core/gcc.c\<close>): the conference create request and
  response, which carry the settings of client and server as data blocks in the MCS connect PDUs.
  Every function of the file is here; a reader is a \<^typ>\<open>'st step\<close>, which returns \<open>FALSE\<close> or
  \<open>TRUE\<close> with the structure as far as it was filled in, a writer appends to a stream.

  \<open>mcs->settings\<close> is the field \<open>settings\<close> by which \<open>rdpMcs\<close> is extended. Strings are blocks of memory
  that contain a NUL, signed coordinates of monitors are kept as words in two's complement. Strings in the
  stream are read as \<open>WCHAR*\<close>, which is right on little-endian machines only, as in the code. Random numbers,
  MD5 and RSA (\<open>winpr_RAND\<close>, \<open>winpr_MD5_*\<close>, \<open>crypto_rsa_private_encrypt\<close>) are parameters, and so is the
  reader of certificates: \<open>certificate_read\<close> tells whether \<open>certificate_new\<close> and
  \<open>certificate_read_server_certificate\<close> succeed on the bytes of a certificate. \<open>ca i\<close> tells whether the \<open>i\<close>-th
  allocation of a string succeeds.
\<close>

unbundle bit_operations_syntax

subsection \<open>Settings\<close>

record MONITOR_ATTRIBUTES =
  physicalWidth :: u32
  physicalHeight :: u32
  orientation :: u32
  desktopScaleFactor :: u32
  deviceScaleFactor :: u32

record rdpMonitor =
  mon_x :: u32
  mon_y :: u32
  mon_width :: u32
  mon_height :: u32
  is_primary :: u32
  attributes :: MONITOR_ATTRIBUTES

record rdpRsaKey =
  Modulus :: "byte list"
  ModulusLength :: u32
  exponent :: "byte list"

record rdpSettings = mcs_settings +
  ServerMode :: bool
  RdpVersion :: u32
  DesktopWidth :: u32
  DesktopHeight :: u32
  ColorDepth :: u32
  ConnectionType :: u32
  ClientBuild :: u32
  ClientHostname :: "byte list option"
  ClientProductId :: "byte list option"
  EarlyCapabilityFlags :: u32
  NetworkAutoDetect :: bool
  SupportErrorInfoPdu :: bool
  SupportMonitorLayoutPdu :: bool
  SupportGraphicsPipeline :: bool
  SupportDynamicTimeZone :: bool
  SupportHeartbeatPdu :: bool
  DesktopPhysicalWidth :: u32
  DesktopPhysicalHeight :: u32
  DesktopOrientation :: u16
  DesktopScaleFactor :: u32
  DeviceScaleFactor :: u32
  UseRdpSecurityLayer :: bool
  EncryptionMethods :: u32
  EncryptionLevel :: u32
  ServerRandom :: "byte list option"
  ServerRandomLength :: u32
  ServerCertificate :: "byte list option"
  ServerCertificateLength :: u32
  RedirectedSessionId :: u32
  ConsoleSession :: bool
  MonitorCount :: int
  MonitorDefArraySize :: u32
  MonitorDefArray :: "rdpMonitor list"
  SpanMonitors :: bool
  UseMultimon :: bool
  ForceMultimon :: bool
  HasMonitorAttributes :: bool
  MultitransportFlags :: u32
  SupportMultitransport :: bool
  RequestedProtocols :: u32
  SelectedProtocol :: u32
  NegotiationFlags :: u32
  RdpServerRsaKey :: "rdpRsaKey option"
  KeyboardLayout :: u32
  KeyboardType :: u32
  KeyboardSubType :: u32
  KeyboardFunctionKey :: u32
  RemoteFxCodec :: bool

record gccMcs = rdpMcs +
  settings :: rdpSettings


subsection \<open>Fields of a block\<close>

text \<open>One field each: reading a number, seeking over bytes, a test that makes the function return \<open>FALSE\<close>.\<close>

definition get8 :: "(byte \<Rightarrow> 'st \<Rightarrow> 'st) \<Rightarrow> 'st step" where
  "get8 upd st s = do { (v, s) \<leftarrow> Stream_Read_UINT8 s; Some ((True, upd v st), s) }"

definition get16 :: "(u16 \<Rightarrow> 'st \<Rightarrow> 'st) \<Rightarrow> 'st step" where
  "get16 upd st s = do { (v, s) \<leftarrow> Stream_Read_UINT16 s; Some ((True, upd v st), s) }"

definition get32 :: "(u32 \<Rightarrow> 'st \<Rightarrow> 'st) \<Rightarrow> 'st step" where
  "get32 upd st s = do { (v, s) \<leftarrow> Stream_Read_UINT32 s; Some ((True, upd v st), s) }"

definition skip :: "nat \<Rightarrow> 'st step" where
  "skip n st s = Some ((True, st), Stream_Seek s n)"

definition check :: "('st \<Rightarrow> bool) \<Rightarrow> 'st step" where
  "check P st s = Some ((P st, st), s)"

definition assign :: "('st \<Rightarrow> 'st) \<Rightarrow> 'st step" where
  "assign f st s = Some ((True, f st), s)"

definition expect :: "'a reader \<Rightarrow> ('a \<Rightarrow> bool) \<Rightarrow> 'st step" where
  "expect rd P st s = do {
     (r, s) \<leftarrow> rd s;
     Some ((case r of None \<Rightarrow> False | Some v \<Rightarrow> P v, st), s) }"

primrec steps :: "'st step list \<Rightarrow> 'st step" where
  "steps [] = assign (\<lambda>st. st)"
| "steps (f # fs) = and_also f (steps fs)"

text \<open>Optional fields with their sizes: the first that does not fit into the rest of the block ends the list.\<close>

fun optional :: "(nat \<times> 'st step) list \<Rightarrow> nat \<Rightarrow> 'st step" where
  "optional [] blockLength = assign (\<lambda>st. st)"
| "optional ((n, f) # fs) blockLength =
     (if blockLength < n then assign (\<lambda>st. st) else and_also f (optional fs (blockLength - n)))"

text \<open>A string of \<open>n\<close> units in the stream.\<close>

fun wchars :: "byte list \<Rightarrow> WCHAR list" where
  "wchars (a # b # bs) = u16_le a b # wchars bs"
| "wchars _ = []"

definition get_unicode :: "bool \<Rightarrow> nat \<Rightarrow> (byte list \<Rightarrow> 'st \<Rightarrow> 'st) \<Rightarrow> 'st step" where
  "get_unicode ca n upd st s = do {
     bs \<leftarrow> mem_read (s_buffer s) (s_pointer s) (2 * n);
     (status, out) \<leftarrow> ConvertFromUnicode ca (Some (wchars bs)) (int n) (Some None) 0;
     (if status < 1 then Some ((False, st), s)
      else do {
        str \<leftarrow> Option.bind out id;
        Some ((True, upd str st), Stream_Seek s (2 * n)) }) }"

subsection \<open>Header of a data block\<close>

definition gcc_read_user_data_header :: "(u16 \<times> u16) reader" where
  "gcc_read_user_data_header s =
     (if Stream_GetRemainingLength s < 4 then Some (None, s)
      else do {
        (type, s) \<leftarrow> Stream_Read_UINT16 s;
        (len, s) \<leftarrow> Stream_Read_UINT16 s;
        if Stream_GetRemainingLength s < size_of_int (uint len - 4) then Some (None, s) else Some (Some (type, len), s) })"

definition gcc_write_user_data_header :: "wStream \<Rightarrow> u16 \<Rightarrow> u16 \<Rightarrow> wStream option" where
  "gcc_write_user_data_header s type len = do { s \<leftarrow> Stream_Write_UINT16 s type; Stream_Write_UINT16 s len }"

subsection \<open>Client core data\<close>

abbreviation (input) "RDP_VERSION_4 \<equiv> (0x00080001 :: u32)"
abbreviation (input) "RDP_VERSION_5_PLUS \<equiv> (0x00080004 :: u32)"
abbreviation (input) "RNS_UD_COLOR_4BPP \<equiv> (0xCA00 :: u16)"
abbreviation (input) "RNS_UD_COLOR_8BPP \<equiv> (0xCA01 :: u16)"
abbreviation (input) "RNS_UD_COLOR_16BPP_555 \<equiv> (0xCA02 :: u16)"
abbreviation (input) "RNS_UD_COLOR_16BPP_565 \<equiv> (0xCA03 :: u16)"
abbreviation (input) "RNS_UD_COLOR_24BPP \<equiv> (0xCA04 :: u16)"
abbreviation (input) "RNS_UD_SAS_DEL \<equiv> (0xAA03 :: u16)"
abbreviation (input) "RNS_UD_24BPP_SUPPORT \<equiv> (0x0001 :: u16)"
abbreviation (input) "RNS_UD_16BPP_SUPPORT \<equiv> (0x0002 :: u16)"
abbreviation (input) "RNS_UD_15BPP_SUPPORT \<equiv> (0x0004 :: u16)"
abbreviation (input) "RNS_UD_32BPP_SUPPORT \<equiv> (0x0008 :: u16)"
abbreviation (input) "RNS_UD_CS_SUPPORT_ERRINFO_PDU \<equiv> (0x0001 :: u16)"
abbreviation (input) "RNS_UD_CS_WANT_32BPP_SESSION \<equiv> (0x0002 :: u16)"
abbreviation (input) "RNS_UD_CS_VALID_CONNECTION_TYPE \<equiv> (0x0020 :: u16)"
abbreviation (input) "RNS_UD_CS_SUPPORT_MONITOR_LAYOUT_PDU \<equiv> (0x0040 :: u16)"
abbreviation (input) "RNS_UD_CS_SUPPORT_NETWORK_AUTODETECT \<equiv> (0x0080 :: u16)"
abbreviation (input) "RNS_UD_CS_SUPPORT_DYNVC_GFX_PROTOCOL \<equiv> (0x0100 :: u16)"
abbreviation (input) "RNS_UD_CS_SUPPORT_DYNAMIC_TIME_ZONE \<equiv> (0x0200 :: u16)"
abbreviation (input) "RNS_UD_CS_SUPPORT_HEARTBEAT_PDU \<equiv> (0x0400 :: u16)"
abbreviation (input) "CONNECTION_TYPE_LAN \<equiv> (6 :: u32)"
abbreviation (input) "CONNECTION_TYPE_AUTODETECT \<equiv> (7 :: u32)"

text \<open>The local variables of \<open>gcc_read_client_core_data\<close> beside the structure it fills in.\<close>

record gcc_core =
  core_mcs :: gccMcs
  colorDepth :: u16
  postBeta2ColorDepth :: u16
  highColorDepth :: u16
  supportedColorDepths :: u16
  earlyCapabilityFlags :: u16
  connectionType :: byte
  serverSelectedProtocol :: u32

definition gcc_core_init :: "gccMcs \<Rightarrow> gcc_core" where
  "gcc_core_init mcs = \<lparr>core_mcs = mcs, colorDepth = 0, postBeta2ColorDepth = 0, highColorDepth = 0, supportedColorDepths = 0,
     earlyCapabilityFlags = 0, connectionType = 0, serverSelectedProtocol = 0\<rparr>"

definition on_settings :: "(rdpSettings \<Rightarrow> rdpSettings) \<Rightarrow> gcc_core \<Rightarrow> gcc_core" where
  "on_settings f c = c\<lparr>core_mcs := (core_mcs c)\<lparr>settings := f (settings (core_mcs c))\<rparr>\<rparr>"

definition gcc_core_required :: "(nat \<Rightarrow> bool) \<Rightarrow> gcc_core step" where
  "gcc_core_required ca = steps [
     get32 (\<lambda>version. on_settings (\<lambda>st. st\<lparr>RdpVersion := if version = RDP_VERSION_4 then 4 else 7\<rparr>)),
     get16 (\<lambda>v. on_settings (\<lambda>st. st\<lparr>DesktopWidth := ucast v\<rparr>)),
     get16 (\<lambda>v. on_settings (\<lambda>st. st\<lparr>DesktopHeight := ucast v\<rparr>)),
     get16 (\<lambda>v c. c\<lparr>colorDepth := v\<rparr>),
     skip 2,
     get32 (\<lambda>v. on_settings (\<lambda>st. st\<lparr>KeyboardLayout := v\<rparr>)),
     get32 (\<lambda>v. on_settings (\<lambda>st. st\<lparr>ClientBuild := v\<rparr>)),
     get_unicode (ca 0) 16 (\<lambda>str. on_settings (\<lambda>st. st\<lparr>ClientHostname := Some str\<rparr>)),
     get32 (\<lambda>v. on_settings (\<lambda>st. st\<lparr>KeyboardType := v\<rparr>)),
     get32 (\<lambda>v. on_settings (\<lambda>st. st\<lparr>KeyboardSubType := v\<rparr>)),
     get32 (\<lambda>v. on_settings (\<lambda>st. st\<lparr>KeyboardFunctionKey := v\<rparr>)),
     skip 64]"

definition gcc_core_optional :: "(nat \<Rightarrow> bool) \<Rightarrow> (nat \<times> gcc_core step) list" where
  "gcc_core_optional ca = [
     (2, get16 (\<lambda>v c. c\<lparr>postBeta2ColorDepth := v\<rparr>)),
     (2, skip 2),
     (4, skip 4),
     (2, get16 (\<lambda>v c. c\<lparr>highColorDepth := v\<rparr>)),
     (2, get16 (\<lambda>v c. c\<lparr>supportedColorDepths := v\<rparr>)),
     (2, get16 (\<lambda>v c. on_settings (\<lambda>st. st\<lparr>EarlyCapabilityFlags := ucast v\<rparr>) (c\<lparr>earlyCapabilityFlags := v\<rparr>))),
     (64, get_unicode (ca 1) 32 (\<lambda>str. on_settings (\<lambda>st. st\<lparr>ClientProductId := Some str\<rparr>))),
     (1, get8 (\<lambda>v c. c\<lparr>connectionType := v\<rparr>)),
     (1, skip 1),
     (4, get32 (\<lambda>v c. c\<lparr>serverSelectedProtocol := v\<rparr>)),
     (4, get32 (\<lambda>v. on_settings (\<lambda>st. st\<lparr>DesktopPhysicalWidth := v\<rparr>))),
     (4, get32 (\<lambda>v. on_settings (\<lambda>st. st\<lparr>DesktopPhysicalHeight := v\<rparr>))),
     (2, get16 (\<lambda>v. on_settings (\<lambda>st. st\<lparr>DesktopOrientation := v\<rparr>))),
     (4, get32 (\<lambda>v. on_settings (\<lambda>st. st\<lparr>DesktopScaleFactor := v\<rparr>))),
     (4, and_also (get32 (\<lambda>v. on_settings (\<lambda>st. st\<lparr>DeviceScaleFactor := v\<rparr>)))
           (check (\<lambda>c. SelectedProtocol (settings (core_mcs c)) = serverSelectedProtocol c)))]"

text \<open>The color depth the client asks for, \<^const>\<open>None\<close> when the function returns \<open>FALSE\<close>.\<close>

definition gcc_client_color_depth :: "gcc_core \<Rightarrow> u32 option" where
  "gcc_client_color_depth c =
     (if highColorDepth c > 0 then
        Some (if earlyCapabilityFlags c AND RNS_UD_CS_WANT_32BPP_SESSION \<noteq> 0 then 32 else ucast (highColorDepth c))
      else if postBeta2ColorDepth c > 0 then
        (if postBeta2ColorDepth c = RNS_UD_COLOR_4BPP then Some 4
         else if postBeta2ColorDepth c = RNS_UD_COLOR_8BPP then Some 8
         else if postBeta2ColorDepth c = RNS_UD_COLOR_16BPP_555 then Some 15
         else if postBeta2ColorDepth c = RNS_UD_COLOR_16BPP_565 then Some 16
         else if postBeta2ColorDepth c = RNS_UD_COLOR_24BPP then Some 24
         else None)
      else
        (if colorDepth c = RNS_UD_COLOR_4BPP then Some 4
         else if colorDepth c = RNS_UD_COLOR_8BPP then Some 8
         else None))"

definition gcc_core_settings :: "u32 \<Rightarrow> u16 \<Rightarrow> byte \<Rightarrow> rdpSettings \<Rightarrow> rdpSettings" where
  "gcc_core_settings clientColorDepth flags conn st = st\<lparr>
     ColorDepth := if clientColorDepth < ColorDepth st \<or> \<not> ServerMode st then clientColorDepth else ColorDepth st,
     NetworkAutoDetect := NetworkAutoDetect st \<and> flags AND RNS_UD_CS_SUPPORT_NETWORK_AUTODETECT \<noteq> 0,
     SupportHeartbeatPdu := SupportHeartbeatPdu st \<and> flags AND RNS_UD_CS_SUPPORT_HEARTBEAT_PDU \<noteq> 0,
     SupportGraphicsPipeline := SupportGraphicsPipeline st \<and> flags AND RNS_UD_CS_SUPPORT_DYNVC_GFX_PROTOCOL \<noteq> 0,
     SupportDynamicTimeZone := SupportDynamicTimeZone st \<and> flags AND RNS_UD_CS_SUPPORT_DYNAMIC_TIME_ZONE \<noteq> 0,
     SupportMonitorLayoutPdu := SupportMonitorLayoutPdu st \<and> flags AND RNS_UD_CS_SUPPORT_MONITOR_LAYOUT_PDU \<noteq> 0,
     SupportErrorInfoPdu := flags AND RNS_UD_CS_SUPPORT_ERRINFO_PDU \<noteq> 0,
     ConnectionType := if flags AND RNS_UD_CS_VALID_CONNECTION_TYPE = 0 then 0 else ucast conn\<rparr>"

definition gcc_core_finish :: "gcc_core step" where
  "gcc_core_finish c s =
     (case gcc_client_color_depth c of
        None \<Rightarrow> Some ((False, c), s)
      | Some d \<Rightarrow> Some ((True, on_settings (gcc_core_settings d (earlyCapabilityFlags c) (connectionType c)) c), s))"

definition gcc_read_client_core_data :: "(nat \<Rightarrow> bool) \<Rightarrow> nat \<Rightarrow> gccMcs step" where
  "gcc_read_client_core_data ca blockLength =
     and_also (check (\<lambda>_. \<not> blockLength < 128))
       (on_field gcc_core_init (\<lambda>c _. core_mcs c)
         (steps [gcc_core_required ca, optional (gcc_core_optional ca) (blockLength - 128), gcc_core_finish]))"


subsection \<open>The other client data blocks\<close>

definition set_settings :: "(rdpSettings \<Rightarrow> rdpSettings) \<Rightarrow> gccMcs \<Rightarrow> gccMcs" where
  "set_settings f mcs = mcs\<lparr>settings := f (settings mcs)\<rparr>"

definition gcc_read_client_security_data :: "nat \<Rightarrow> gccMcs step" where
  "gcc_read_client_security_data blockLength = and_also (check (\<lambda>_. \<not> blockLength < 8))
     (\<lambda>mcs.
        if UseRdpSecurityLayer (settings mcs) then
          and_also (get32 (\<lambda>v. set_settings (\<lambda>st. st\<lparr>EncryptionMethods := v\<rparr>)))
            (\<lambda>mcs. if EncryptionMethods (settings mcs) = 0 then get32 (\<lambda>v. set_settings (\<lambda>st. st\<lparr>EncryptionMethods := v\<rparr>)) mcs
                   else skip 4 mcs) mcs
        else skip 8 mcs)"

text \<open>An element of an array, \<^const>\<open>None\<close> behind its end.\<close>

definition update_at :: "nat \<Rightarrow> ('a \<Rightarrow> 'a) \<Rightarrow> 'a list \<Rightarrow> 'a list option" where
  "update_at i f xs = (if i < length xs then Some (xs[i := f (xs ! i)]) else None)"

text \<open>Channel \<open>i\<close> and the \<open>n - 1\<close> behind it.\<close>

fun gcc_read_channels :: "nat \<Rightarrow> nat \<Rightarrow> gccMcs step" where
  "gcc_read_channels i 0 mcs s = Some ((True, mcs), s)"
| "gcc_read_channels i (Suc n) mcs s = do {
     (name, s) \<leftarrow> Stream_Read s 8;
     chans \<leftarrow> update_at i (\<lambda>c. c\<lparr>chan_Name := name\<rparr>) (channels mcs);
     (if 0 \<notin> set name then Some ((False, mcs\<lparr>channels := chans\<rparr>), s)
      else do {
        (options, s) \<leftarrow> Stream_Read_UINT32 s;
        chans \<leftarrow> update_at i (\<lambda>c. c\<lparr>chan_options := options, chan_ChannelId := uint (baseChannelId mcs)\<rparr>) chans;
        gcc_read_channels (Suc i) n (mcs\<lparr>channels := chans, baseChannelId := baseChannelId mcs + 1\<rparr>) s }) }"

definition gcc_read_client_network_data :: "nat \<Rightarrow> gccMcs step" where
  "gcc_read_client_network_data blockLength = steps [
     check (\<lambda>_. \<not> blockLength < 4),
     get32 (\<lambda>v mcs. mcs\<lparr>channelCount := v\<rparr>),
     check (\<lambda>mcs. \<not> blockLength < unat (4 + channelCount mcs * 12)),
     check (\<lambda>mcs. \<not> channelCount mcs > 16),
     \<lambda>mcs. gcc_read_channels 0 (unat (channelCount mcs)) mcs]"

definition gcc_read_client_cluster_data :: "nat \<Rightarrow> gccMcs step" where
  "gcc_read_client_cluster_data blockLength = and_also (check (\<lambda>_. \<not> blockLength < 8))
     (\<lambda>mcs s. do {
        (flags, s) \<leftarrow> Stream_Read_UINT32 s;
        (redirectedSessionId, s) \<leftarrow> Stream_Read_UINT32 s;
        let mcs = (if flags AND 2 \<noteq> 0 then set_settings (\<lambda>st. st\<lparr>RedirectedSessionId := redirectedSessionId\<rparr>) mcs else mcs);
        Some ((True, mcs),
          if blockLength \<noteq> 8 \<and> Stream_GetRemainingLength s \<ge> blockLength - 8 then Stream_Seek s (blockLength - 8) else s) })"

text \<open>The loops of the two monitor blocks read five numbers for each element of the array.\<close>

fun gcc_read_monitor_loop :: "(u32 \<Rightarrow> u32 \<Rightarrow> u32 \<Rightarrow> u32 \<Rightarrow> u32 \<Rightarrow> rdpMonitor \<Rightarrow> rdpMonitor) \<Rightarrow> nat \<Rightarrow> nat \<Rightarrow> gccMcs step" where
  "gcc_read_monitor_loop upd i 0 mcs s = Some ((True, mcs), s)"
| "gcc_read_monitor_loop upd i (Suc n) mcs s = do {
     (a, s) \<leftarrow> Stream_Read_UINT32 s;
     (b, s) \<leftarrow> Stream_Read_UINT32 s;
     (c, s) \<leftarrow> Stream_Read_UINT32 s;
     (d, s) \<leftarrow> Stream_Read_UINT32 s;
     (e, s) \<leftarrow> Stream_Read_UINT32 s;
     mons \<leftarrow> update_at i (upd a b c d e) (MonitorDefArray (settings mcs));
     gcc_read_monitor_loop upd (Suc i) n (set_settings (\<lambda>st. st\<lparr>MonitorDefArray := mons\<rparr>) mcs) s }"

definition gcc_monitor_def :: "u32 \<Rightarrow> u32 \<Rightarrow> u32 \<Rightarrow> u32 \<Rightarrow> u32 \<Rightarrow> rdpMonitor \<Rightarrow> rdpMonitor" where
  "gcc_monitor_def left up right down flags m =
     m\<lparr>mon_x := left, mon_y := up, mon_width := right - left + 1, mon_height := down - up + 1, is_primary := flags AND 1\<rparr>"

definition gcc_read_client_monitor_data :: "nat \<Rightarrow> gccMcs step" where
  "gcc_read_client_monitor_data blockLength = and_also (check (\<lambda>_. \<not> blockLength < 8))
     (\<lambda>mcs s. do {
        (flags, s) \<leftarrow> Stream_Read_UINT32 s;
        (monitorCount, s) \<leftarrow> Stream_Read_UINT32 s;
        let monitorCount = (if monitorCount > MonitorDefArraySize (settings mcs) then MonitorDefArraySize (settings mcs) else monitorCount);
        (if (blockLength - 8) div 20 < unat monitorCount then Some ((False, mcs), s)
         else gcc_read_monitor_loop gcc_monitor_def 0 (unat monitorCount) (set_settings (\<lambda>st. st\<lparr>MonitorCount := sint monitorCount\<rparr>) mcs) s) })"

definition gcc_monitor_attributes :: "u32 \<Rightarrow> u32 \<Rightarrow> u32 \<Rightarrow> u32 \<Rightarrow> u32 \<Rightarrow> rdpMonitor \<Rightarrow> rdpMonitor" where
  "gcc_monitor_attributes a b c d e m =
     m\<lparr>attributes := \<lparr>physicalWidth = a, physicalHeight = b, orientation = c, desktopScaleFactor = d, deviceScaleFactor = e\<rparr>\<rparr>"

definition gcc_read_client_monitor_extended_data :: "nat \<Rightarrow> gccMcs step" where
  "gcc_read_client_monitor_extended_data blockLength = and_also (check (\<lambda>_. \<not> blockLength < 12))
     (\<lambda>mcs s. do {
        (flags, s) \<leftarrow> Stream_Read_UINT32 s;
        (monitorAttributeSize, s) \<leftarrow> Stream_Read_UINT32 s;
        (monitorCount, s) \<leftarrow> Stream_Read_UINT32 s;
        (if monitorAttributeSize \<noteq> 20 then Some ((False, mcs), s)
         else if (blockLength - 12) div unat monitorAttributeSize < unat monitorCount then Some ((False, mcs), s)
         else if word_of_int (MonitorCount (settings mcs)) \<noteq> monitorCount then Some ((False, mcs), s)
         else gcc_read_monitor_loop gcc_monitor_attributes 0 (unat monitorCount) (set_settings (\<lambda>st. st\<lparr>HasMonitorAttributes := True\<rparr>) mcs) s) })"

definition gcc_read_client_message_channel_data :: "nat \<Rightarrow> gccMcs step" where
  "gcc_read_client_message_channel_data blockLength = steps [
     check (\<lambda>_. \<not> blockLength < 4),
     get32 (\<lambda>flags mcs. mcs\<lparr>messageChannelId := baseChannelId mcs, baseChannelId := baseChannelId mcs + 1\<rparr>)]"

definition gcc_read_client_multitransport_channel_data :: "nat \<Rightarrow> gccMcs step" where
  "gcc_read_client_multitransport_channel_data blockLength = steps [
     check (\<lambda>_. \<not> blockLength < 4),
     get32 (\<lambda>flags mcs. mcs)]"

subsection \<open>The client data blocks and the request\<close>

abbreviation (input) "CS_CORE \<equiv> (0xC001 :: u16)"
abbreviation (input) "CS_SECURITY \<equiv> (0xC002 :: u16)"
abbreviation (input) "CS_NET \<equiv> (0xC003 :: u16)"
abbreviation (input) "CS_CLUSTER \<equiv> (0xC004 :: u16)"
abbreviation (input) "CS_MONITOR \<equiv> (0xC005 :: u16)"
abbreviation (input) "CS_MCS_MSGCHANNEL \<equiv> (0xC006 :: u16)"
abbreviation (input) "CS_MONITOR_EX \<equiv> (0xC008 :: u16)"
abbreviation (input) "CS_MULTITRANSPORT \<equiv> (0xC00A :: u16)"

definition gcc_read_client_block :: "(nat \<Rightarrow> bool) \<Rightarrow> u16 \<Rightarrow> nat \<Rightarrow> gccMcs step" where
  "gcc_read_client_block ca type n =
     (if type = CS_CORE then gcc_read_client_core_data ca n
      else if type = CS_SECURITY then gcc_read_client_security_data n
      else if type = CS_NET then gcc_read_client_network_data n
      else if type = CS_CLUSTER then gcc_read_client_cluster_data n
      else if type = CS_MONITOR then gcc_read_client_monitor_data n
      else if type = CS_MCS_MSGCHANNEL then gcc_read_client_message_channel_data n
      else if type = CS_MONITOR_EX then gcc_read_client_monitor_extended_data n
      else if type = 0xC009 \<or> type = CS_MULTITRANSPORT then gcc_read_client_multitransport_channel_data n
      else skip n)"

text \<open>The allocations of the strings of one block come before those of the next.\<close>

partial_function (option) gcc_read_client_data_blocks :: "(nat \<Rightarrow> bool) \<Rightarrow> int \<Rightarrow> gccMcs step" where
  "gcc_read_client_data_blocks ca len mcs s =
     (if len > 0 then do {
        let begPos = Stream_GetPosition s;
        (r, s) \<leftarrow> gcc_read_user_data_header s;
        (case r of
           None \<Rightarrow> Some ((False, mcs), s)
         | Some (type, blockLength) \<Rightarrow>
             if Stream_GetRemainingLength s < size_of_int (uint blockLength - 4) then Some ((False, mcs), s)
             else do {
               ((ok, mcs), s) \<leftarrow> gcc_read_client_block ca type (unat (blockLength - 4)) mcs s;
               (if \<not> ok then Some ((False, mcs), s)
                else gcc_read_client_data_blocks (\<lambda>i. ca (i + 2)) (len - uint blockLength) mcs
                  (Stream_SetPosition s (begPos + unat blockLength))) }) }
      else Some ((True, mcs), s))"

definition t124_02_98_oid :: "byte list" where "t124_02_98_oid = [0, 0, 20, 124, 0, 1]"

definition h221_cs_key :: "byte list" where "h221_cs_key = [0x44, 0x75, 0x63, 0x61]"

definition h221_sc_key :: "byte list" where "h221_sc_key = [0x4D, 0x63, 0x44, 0x6E]"

definition gcc_read_conference_create_request :: "(nat \<Rightarrow> bool) \<Rightarrow> gccMcs step" where
  "gcc_read_conference_create_request ca = steps [
     expect per_read_choice (\<lambda>_. True),
     expect (per_read_object_identifier t124_02_98_oid) (\<lambda>_. True),
     expect per_read_length (\<lambda>_. True),
     expect per_read_choice (\<lambda>_. True),
     expect per_read_selection (\<lambda>_. True),
     expect (per_read_numeric_string 1) (\<lambda>_. True),
     expect (per_read_padding 1) (\<lambda>_. True),
     expect per_read_number_of_sets (\<lambda>number. number = 1),
     expect per_read_choice (\<lambda>choice. choice = 0xC0),
     expect (per_read_octet_string h221_cs_key 4 4) (\<lambda>_. True),
     \<lambda>mcs s. do {
       (r, s) \<leftarrow> per_read_length s;
       (case r of
          None \<Rightarrow> Some ((False, mcs), s)
        | Some len \<Rightarrow>
            if Stream_GetRemainingLength s < unat len then Some ((False, mcs), s)
            else gcc_read_client_data_blocks ca (uint len) mcs s) }]"


subsection \<open>Writing the client data blocks\<close>

definition wbytes :: "WCHAR list \<Rightarrow> byte list" where
  "wbytes ws = concat (map le_bytes16 ws)"

text \<open>
  A string of at most \<open>lim - 1\<close> units and its terminator, padded with zeros: \<open>n\<close> and \<open>out\<close> are the length and the block
  that \<open>ConvertToUnicode\<close> returned.
\<close>

definition gcc_write_name :: "nat \<Rightarrow> int \<Rightarrow> WCHAR list option \<Rightarrow> wStream \<Rightarrow> wStream option" where
  "gcc_write_name lim n out s = do {
     (n, out) \<leftarrow> (if n \<ge> int lim
       then do { w \<leftarrow> out; w \<leftarrow> mem_write w (lim - 1) [0]; Some (int lim, Some w) }
       else Some (n, out));
     bs \<leftarrow> (if n = 0 then Some [] else do { w \<leftarrow> out; ws \<leftarrow> mem_read w 0 (nat n); Some (wbytes ws) });
     s \<leftarrow> Stream_Write s bs;
     Stream_Zero s (nat (2 * int lim - n * 2)) }"

definition gcc_connection_type :: "rdpSettings \<Rightarrow> rdpSettings" where
  "gcc_connection_type st =
     (let st = (if NetworkAutoDetect st then st\<lparr>ConnectionType := CONNECTION_TYPE_AUTODETECT\<rparr> else st) in
      if RemoteFxCodec st \<and> \<not> NetworkAutoDetect st then st\<lparr>ConnectionType := CONNECTION_TYPE_LAN\<rparr> else st)"

definition gcc_early_flags :: "rdpSettings \<Rightarrow> byte \<Rightarrow> u16" where
  "gcc_early_flags st conn =
     RNS_UD_CS_SUPPORT_ERRINFO_PDU
     OR (if conn \<noteq> 0 then RNS_UD_CS_VALID_CONNECTION_TYPE else 0)
     OR (if ColorDepth st = 32 then RNS_UD_CS_WANT_32BPP_SESSION else 0)
     OR (if NetworkAutoDetect st then RNS_UD_CS_SUPPORT_NETWORK_AUTODETECT else 0)
     OR (if SupportHeartbeatPdu st then RNS_UD_CS_SUPPORT_HEARTBEAT_PDU else 0)
     OR (if SupportGraphicsPipeline st then RNS_UD_CS_SUPPORT_DYNVC_GFX_PROTOCOL else 0)
     OR (if SupportDynamicTimeZone st then RNS_UD_CS_SUPPORT_DYNAMIC_TIME_ZONE else 0)
     OR (if SupportMonitorLayoutPdu st then RNS_UD_CS_SUPPORT_MONITOR_LAYOUT_PDU else 0)"

definition gcc_supported_depths :: "rdpSettings \<Rightarrow> u16" where
  "gcc_supported_depths st = RNS_UD_24BPP_SUPPORT OR RNS_UD_16BPP_SUPPORT OR RNS_UD_15BPP_SUPPORT
     OR (if ColorDepth st = 32 then RNS_UD_32BPP_SUPPORT else 0)"

definition gcc_write_client_core_data :: "(nat \<Rightarrow> bool) \<Rightarrow> gccMcs \<Rightarrow> wStream \<Rightarrow> (gccMcs \<times> wStream) option" where
  "gcc_write_client_core_data ca mcs s = do {
     let st = settings mcs;
     s \<leftarrow> gcc_write_user_data_header s CS_CORE 234;
     let version = (if RdpVersion st \<ge> 5 then RDP_VERSION_5_PLUS else RDP_VERSION_4);
     (clientNameLength, clientName) \<leftarrow> ConvertToUnicode (ca 0) (ClientHostname st) (-1) (Some None) 0;
     (clientDigProductIdLength, clientDigProductId) \<leftarrow> ConvertToUnicode (ca 1) (ClientProductId st) (-1) (Some None) 0;
     s \<leftarrow> Stream_Write_UINT32 s version;
     s \<leftarrow> Stream_Write_UINT16 s (ucast (DesktopWidth st));
     s \<leftarrow> Stream_Write_UINT16 s (ucast (DesktopHeight st));
     s \<leftarrow> Stream_Write_UINT16 s RNS_UD_COLOR_8BPP;
     s \<leftarrow> Stream_Write_UINT16 s RNS_UD_SAS_DEL;
     s \<leftarrow> Stream_Write_UINT32 s (KeyboardLayout st);
     s \<leftarrow> Stream_Write_UINT32 s (ClientBuild st);
     s \<leftarrow> gcc_write_name 16 clientNameLength (Option.bind clientName id) s;
     s \<leftarrow> Stream_Write_UINT32 s (KeyboardType st);
     s \<leftarrow> Stream_Write_UINT32 s (KeyboardSubType st);
     s \<leftarrow> Stream_Write_UINT32 s (KeyboardFunctionKey st);
     s \<leftarrow> Stream_Zero s 64;
     s \<leftarrow> Stream_Write_UINT16 s RNS_UD_COLOR_8BPP;
     s \<leftarrow> Stream_Write_UINT16 s 1;
     s \<leftarrow> Stream_Write_UINT32 s 0;
     let st = gcc_connection_type st;
     let conn = (ucast (ConnectionType st) :: byte);
     s \<leftarrow> Stream_Write_UINT16 s (ucast (min (ColorDepth st) 24));
     s \<leftarrow> Stream_Write_UINT16 s (gcc_supported_depths st);
     s \<leftarrow> Stream_Write_UINT16 s (gcc_early_flags st conn);
     s \<leftarrow> gcc_write_name 32 clientDigProductIdLength (Option.bind clientDigProductId id) s;
     s \<leftarrow> Stream_Write_UINT8 s conn;
     s \<leftarrow> Stream_Write_UINT8 s 0;
     s \<leftarrow> Stream_Write_UINT32 s (SelectedProtocol st);
     s \<leftarrow> Stream_Write_UINT32 s (DesktopPhysicalWidth st);
     s \<leftarrow> Stream_Write_UINT32 s (DesktopPhysicalHeight st);
     s \<leftarrow> Stream_Write_UINT16 s (DesktopOrientation st);
     s \<leftarrow> Stream_Write_UINT32 s (DesktopScaleFactor st);
     s \<leftarrow> Stream_Write_UINT32 s (DeviceScaleFactor st);
     Some (mcs\<lparr>settings := st\<rparr>, s) }"

definition gcc_write_client_security_data :: "gccMcs \<Rightarrow> wStream \<Rightarrow> wStream option" where
  "gcc_write_client_security_data mcs s = do {
     s \<leftarrow> gcc_write_user_data_header s CS_SECURITY 12;
     (if UseRdpSecurityLayer (settings mcs)
      then do { s \<leftarrow> Stream_Write_UINT32 s (EncryptionMethods (settings mcs)); Stream_Write_UINT32 s 0 }
      else do { s \<leftarrow> Stream_Write_UINT32 s 0; Stream_Write_UINT32 s (EncryptionMethods (settings mcs)) }) }"

text \<open>The loops of the writers: elements \<open>i\<close>, \<open>i + 1\<close>, \dots of an array, which ends in a fault behind its end.\<close>

fun write_elements :: "('a \<Rightarrow> wStream \<Rightarrow> wStream option) \<Rightarrow> 'a list \<Rightarrow> nat \<Rightarrow> nat \<Rightarrow> wStream \<Rightarrow> wStream option" where
  "write_elements w xs i 0 s = Some s"
| "write_elements w xs i (Suc n) s = (if i < length xs then do { s \<leftarrow> w (xs ! i) s; write_elements w xs (Suc i) n s } else None)"

definition gcc_write_channel_def :: "rdpMcsChannel \<Rightarrow> wStream \<Rightarrow> wStream option" where
  "gcc_write_channel_def c s = do { s \<leftarrow> Stream_Write s (chan_Name c); Stream_Write_UINT32 s (chan_options c) }"

definition gcc_write_client_network_data :: "gccMcs \<Rightarrow> wStream \<Rightarrow> wStream option" where
  "gcc_write_client_network_data mcs s =
     (if channelCount mcs > 0 then do {
        s \<leftarrow> gcc_write_user_data_header s CS_NET (ucast (channelCount mcs * 12 + 8));
        s \<leftarrow> Stream_Write_UINT32 s (channelCount mcs);
        write_elements gcc_write_channel_def (channels mcs) 0 (unat (channelCount mcs)) s }
      else Some s)"

definition gcc_write_client_cluster_data :: "gccMcs \<Rightarrow> wStream \<Rightarrow> wStream option" where
  "gcc_write_client_cluster_data mcs s = do {
     s \<leftarrow> gcc_write_user_data_header s CS_CLUSTER 12;
     let flags = (1 OR push_bit 2 3 OR (if ConsoleSession (settings mcs) \<or> RedirectedSessionId (settings mcs) \<noteq> 0 then 2 else 0) :: u32);
     s \<leftarrow> Stream_Write_UINT32 s flags;
     Stream_Write_UINT32 s (RedirectedSessionId (settings mcs)) }"

definition gcc_write_monitor_def :: "rdpMonitor \<Rightarrow> wStream \<Rightarrow> wStream option" where
  "gcc_write_monitor_def m s = do {
     s \<leftarrow> Stream_Write_UINT32 s (mon_x m);
     s \<leftarrow> Stream_Write_UINT32 s (mon_y m);
     s \<leftarrow> Stream_Write_UINT32 s (mon_x m + mon_width m - 1);
     s \<leftarrow> Stream_Write_UINT32 s (mon_y m + mon_height m - 1);
     Stream_Write_UINT32 s (if is_primary m \<noteq> 0 then 1 else 0) }"

definition gcc_write_client_monitor_data :: "gccMcs \<Rightarrow> wStream \<Rightarrow> wStream option" where
  "gcc_write_client_monitor_data mcs s =
     (if MonitorCount (settings mcs) > 1 then do {
        s \<leftarrow> gcc_write_user_data_header s CS_MONITOR (word_of_int (20 * MonitorCount (settings mcs) + 12));
        s \<leftarrow> Stream_Write_UINT32 s 0;
        s \<leftarrow> Stream_Write_UINT32 s (word_of_int (MonitorCount (settings mcs)));
        write_elements gcc_write_monitor_def (MonitorDefArray (settings mcs)) 0 (nat (MonitorCount (settings mcs))) s }
      else Some s)"

definition gcc_write_attributes :: "rdpMonitor \<Rightarrow> wStream \<Rightarrow> wStream option" where
  "gcc_write_attributes m s = do {
     s \<leftarrow> Stream_Write_UINT32 s (physicalWidth (attributes m));
     s \<leftarrow> Stream_Write_UINT32 s (physicalHeight (attributes m));
     s \<leftarrow> Stream_Write_UINT32 s (orientation (attributes m));
     s \<leftarrow> Stream_Write_UINT32 s (desktopScaleFactor (attributes m));
     Stream_Write_UINT32 s (deviceScaleFactor (attributes m)) }"

definition gcc_write_client_monitor_extended_data :: "gccMcs \<Rightarrow> wStream \<Rightarrow> wStream option" where
  "gcc_write_client_monitor_extended_data mcs s =
     (if HasMonitorAttributes (settings mcs) then do {
        s \<leftarrow> gcc_write_user_data_header s CS_MONITOR_EX (word_of_int (20 * MonitorCount (settings mcs) + 16));
        s \<leftarrow> Stream_Write_UINT32 s 0;
        s \<leftarrow> Stream_Write_UINT32 s 20;
        s \<leftarrow> Stream_Write_UINT32 s (word_of_int (MonitorCount (settings mcs)));
        write_elements gcc_write_attributes (MonitorDefArray (settings mcs)) 0 (nat (MonitorCount (settings mcs))) s }
      else Some s)"

definition gcc_write_client_message_channel_data :: "gccMcs \<Rightarrow> wStream \<Rightarrow> wStream option" where
  "gcc_write_client_message_channel_data mcs s =
     (if NetworkAutoDetect (settings mcs) \<or> SupportHeartbeatPdu (settings mcs) \<or> SupportMultitransport (settings mcs)
      then do { s \<leftarrow> gcc_write_user_data_header s CS_MCS_MSGCHANNEL 8; Stream_Write_UINT32 s 0 }
      else Some s)"

definition gcc_write_client_multitransport_channel_data :: "gccMcs \<Rightarrow> wStream \<Rightarrow> wStream option" where
  "gcc_write_client_multitransport_channel_data mcs s =
     (if MultitransportFlags (settings mcs) \<noteq> 0
      then do { s \<leftarrow> gcc_write_user_data_header s CS_MULTITRANSPORT 8; Stream_Write_UINT32 s (MultitransportFlags (settings mcs)) }
      else Some s)"

abbreviation (input) "EXTENDED_CLIENT_DATA_SUPPORTED \<equiv> (1 :: u32)"

definition gcc_write_client_data_blocks :: "(nat \<Rightarrow> bool) \<Rightarrow> gccMcs \<Rightarrow> wStream \<Rightarrow> (gccMcs \<times> wStream) option" where
  "gcc_write_client_data_blocks ca mcs s = do {
     (mcs, s) \<leftarrow> gcc_write_client_core_data ca mcs s;
     s \<leftarrow> gcc_write_client_cluster_data mcs s;
     s \<leftarrow> gcc_write_client_security_data mcs s;
     s \<leftarrow> gcc_write_client_network_data mcs s;
     s \<leftarrow> (if NegotiationFlags (settings mcs) AND EXTENDED_CLIENT_DATA_SUPPORTED \<noteq> 0 then do {
              s \<leftarrow> (if UseMultimon (settings mcs) \<and> \<not> SpanMonitors (settings mcs)
                then do { s \<leftarrow> gcc_write_client_monitor_data mcs s; gcc_write_client_monitor_extended_data mcs s }
                else Some s);
              s \<leftarrow> gcc_write_client_message_channel_data mcs s;
              gcc_write_client_multitransport_channel_data mcs s }
            else if UseMultimon (settings mcs) \<and> \<not> SpanMonitors (settings mcs) \<and> ForceMultimon (settings mcs)
            then do { s \<leftarrow> gcc_write_client_monitor_data mcs s; gcc_write_client_monitor_extended_data mcs s }
            else Some s);
     Some (mcs, s) }"

definition gcc_write_conference_create_request :: "wStream \<Rightarrow> wStream \<Rightarrow> wStream option" where
  "gcc_write_conference_create_request s userData = do {
     s \<leftarrow> per_write_choice s 0;
     s \<leftarrow> per_write_object_identifier s t124_02_98_oid;
     s \<leftarrow> per_write_length s (c_int (Stream_GetPosition userData + 14));
     s \<leftarrow> per_write_choice s 0;
     s \<leftarrow> per_write_selection s 0x08;
     s \<leftarrow> per_write_numeric_string s [0x31] 1 1;
     s \<leftarrow> per_write_padding s 1;
     s \<leftarrow> per_write_number_of_sets s 1;
     s \<leftarrow> per_write_choice s 0xC0;
     s \<leftarrow> per_write_octet_string s h221_cs_key 4 4;
     per_write_octet_string s (s_buffer userData) (c_int (Stream_GetPosition userData)) 0 }"


subsection \<open>Reading the server data blocks\<close>

definition gcc_read_server_core_data :: "gccMcs step" where
  "gcc_read_server_core_data mcs s =
     (if Stream_GetRemainingLength s < 4 then Some ((False, mcs), s)
      else do {
        (version, s) \<leftarrow> Stream_Read_UINT32 s;
        let mcs = set_settings (\<lambda>st.
          if version = RDP_VERSION_4 \<and> RdpVersion st > 4 then st\<lparr>RdpVersion := 4\<rparr>
          else if version = RDP_VERSION_5_PLUS \<and> RdpVersion st < 5 then st\<lparr>RdpVersion := 7\<rparr> else st) mcs;
        s \<leftarrow> (if Stream_GetRemainingLength s \<ge> 4 then do { (_, s) \<leftarrow> Stream_Read_UINT32 s; Some s } else Some s);
        s \<leftarrow> (if Stream_GetRemainingLength s \<ge> 4 then do { (_, s) \<leftarrow> Stream_Read_UINT32 s; Some s } else Some s);
        Some ((True, mcs), s) })"

abbreviation (input) "ENCRYPTION_METHOD_NONE \<equiv> (0 :: u32)"
abbreviation (input) "ENCRYPTION_METHOD_40BIT \<equiv> (1 :: u32)"
abbreviation (input) "ENCRYPTION_METHOD_128BIT \<equiv> (2 :: u32)"
abbreviation (input) "ENCRYPTION_METHOD_56BIT \<equiv> (8 :: u32)"
abbreviation (input) "ENCRYPTION_METHOD_FIPS \<equiv> (0x10 :: u32)"
abbreviation (input) "ENCRYPTION_LEVEL_NONE \<equiv> (0 :: u32)"
abbreviation (input) "ENCRYPTION_LEVEL_LOW \<equiv> (1 :: u32)"
abbreviation (input) "ENCRYPTION_LEVEL_CLIENT_COMPATIBLE \<equiv> (2 :: u32)"
abbreviation (input) "ENCRYPTION_LEVEL_HIGH \<equiv> (3 :: u32)"
abbreviation (input) "ENCRYPTION_LEVEL_FIPS \<equiv> (4 :: u32)"

definition gcc_known_method :: "u32 \<Rightarrow> bool" where
  "gcc_known_method m \<longleftrightarrow> m = ENCRYPTION_METHOD_NONE \<or> m = ENCRYPTION_METHOD_40BIT \<or> m = ENCRYPTION_METHOD_56BIT \<or>
     m = ENCRYPTION_METHOD_128BIT \<or> m = ENCRYPTION_METHOD_FIPS"

definition gcc_valid_crypto_config :: "u32 \<Rightarrow> u32 \<Rightarrow> bool" where
  "gcc_valid_crypto_config level m \<longleftrightarrow>
     (if level = ENCRYPTION_LEVEL_NONE then m = ENCRYPTION_METHOD_NONE
      else if level = ENCRYPTION_LEVEL_FIPS then m = ENCRYPTION_METHOD_FIPS
      else if level = ENCRYPTION_LEVEL_LOW \<or> level = ENCRYPTION_LEVEL_HIGH \<or> level = ENCRYPTION_LEVEL_CLIENT_COMPATIBLE then
        m = ENCRYPTION_METHOD_40BIT \<or> m = ENCRYPTION_METHOD_56BIT \<or> m = ENCRYPTION_METHOD_128BIT \<or> m = ENCRYPTION_METHOD_FIPS
      else False)"

text \<open>
  A block of \<open>len\<close> bytes from the stream into memory that \<open>malloc\<close> gives.
\<close>

definition gcc_read_block :: "alloc \<Rightarrow> u32 \<Rightarrow> (byte list \<Rightarrow> gccMcs \<Rightarrow> gccMcs) \<Rightarrow> gccMcs step" where
  "gcc_read_block malloc len upd mcs s =
     (case malloc (unat len) of
        None \<Rightarrow> Some ((False, mcs), s)
      | Some _ \<Rightarrow> do { (bs, s) \<leftarrow> Stream_Read s (unat len); Some ((True, upd bs mcs), s) })"

definition gcc_read_server_security_data :: "(nat \<Rightarrow> alloc) \<Rightarrow> (byte list \<Rightarrow> bool) \<Rightarrow> gccMcs step" where
  "gcc_read_server_security_data malloc certificate_read mcs s =
     (if Stream_GetRemainingLength s < 8 then Some ((False, mcs), s)
      else do {
        (method, s) \<leftarrow> Stream_Read_UINT32 s;
        (level, s) \<leftarrow> Stream_Read_UINT32 s;
        let mcs = set_settings (\<lambda>st. st\<lparr>EncryptionLevel := level\<rparr>) mcs;
        (if \<not> gcc_known_method method then Some ((False, mcs), s)
         else do {
           let mcs = set_settings (\<lambda>st. st\<lparr>EncryptionMethods := method\<rparr>) mcs;
           (if \<not> gcc_valid_crypto_config level method then Some ((False, mcs), s)
            else if level = ENCRYPTION_LEVEL_NONE then Some ((True, set_settings (\<lambda>st. st\<lparr>UseRdpSecurityLayer := False\<rparr>) mcs), s)
            else if Stream_GetRemainingLength s < 8 then Some ((False, mcs), s)
            else do {
              (rlen, s) \<leftarrow> Stream_Read_UINT32 s;
              (clen, s) \<leftarrow> Stream_Read_UINT32 s;
              let mcs = set_settings (\<lambda>st. st\<lparr>ServerRandomLength := rlen, ServerCertificateLength := clen\<rparr>) mcs;
              (if Stream_GetRemainingLength s < unat (rlen + clen) then Some ((False, mcs), s)
               else if rlen = 0 \<or> clen = 0 then Some ((False, mcs), s)
               else and_also (gcc_read_block (malloc 0) rlen (\<lambda>bs. set_settings (\<lambda>st. st\<lparr>ServerRandom := Some bs\<rparr>)))
                 (and_also (gcc_read_block (malloc 1) clen (\<lambda>bs. set_settings (\<lambda>st. st\<lparr>ServerCertificate := Some bs\<rparr>)))
                   (\<lambda>mcs s. do { data \<leftarrow> ServerCertificate (settings mcs); Some ((certificate_read data, mcs), s) }))
                 mcs s) }) }) })"

fun gcc_read_channel_ids :: "nat \<Rightarrow> nat \<Rightarrow> gccMcs step" where
  "gcc_read_channel_ids i 0 mcs s = Some ((True, mcs), s)"
| "gcc_read_channel_ids i (Suc n) mcs s = do {
     (channelId, s) \<leftarrow> Stream_Read_UINT16 s;
     chans \<leftarrow> update_at i (\<lambda>c. c\<lparr>chan_ChannelId := uint channelId\<rparr>) (channels mcs);
     gcc_read_channel_ids (Suc i) n (mcs\<lparr>channels := chans\<rparr>) s }"

definition gcc_read_server_network_data :: "gccMcs step" where
  "gcc_read_server_network_data mcs s =
     (if Stream_GetRemainingLength s < 4 then Some ((False, mcs), s)
      else do {
        (MCSChannelId, s) \<leftarrow> Stream_Read_UINT16 s;
        (count, s) \<leftarrow> Stream_Read_UINT16 s;
        let parsedChannelCount = (if ucast count > channelCount mcs then ucast (channelCount mcs) else count);
        (if Stream_GetRemainingLength s < unat count * 2 then Some ((False, mcs), s)
         else do {
           ((ok, mcs), s) \<leftarrow> gcc_read_channel_ids 0 (unat parsedChannelCount) mcs s;
           (if unat count mod 2 = 1 then let (ok, s) = Stream_SafeSeek s 2 in Some ((ok, mcs), s)
            else Some ((True, mcs), s)) }) })"

definition gcc_read_server_message_channel_data :: "gccMcs step" where
  "gcc_read_server_message_channel_data mcs s =
     (if Stream_GetRemainingLength s < 2 then Some ((False, mcs), s)
      else get16 (\<lambda>v mcs. mcs\<lparr>messageChannelId := v\<rparr>) mcs s)"

definition gcc_read_server_multitransport_channel_data :: "gccMcs step" where
  "gcc_read_server_multitransport_channel_data mcs s =
     (if Stream_GetRemainingLength s < 4 then Some ((False, mcs), s) else get32 (\<lambda>flags mcs. mcs) mcs s)"

abbreviation (input) "SC_CORE \<equiv> (0x0C01 :: u16)"
abbreviation (input) "SC_SECURITY \<equiv> (0x0C02 :: u16)"
abbreviation (input) "SC_NET \<equiv> (0x0C03 :: u16)"
abbreviation (input) "SC_MCS_MSGCHANNEL \<equiv> (0x0C04 :: u16)"
abbreviation (input) "SC_MULTITRANSPORT \<equiv> (0x0C08 :: u16)"

definition gcc_read_server_block :: "(nat \<Rightarrow> alloc) \<Rightarrow> (byte list \<Rightarrow> bool) \<Rightarrow> u16 \<Rightarrow> gccMcs step" where
  "gcc_read_server_block malloc cert type =
     (if type = SC_CORE then gcc_read_server_core_data
      else if type = SC_SECURITY then gcc_read_server_security_data malloc cert
      else if type = SC_NET then gcc_read_server_network_data
      else if type = SC_MCS_MSGCHANNEL then gcc_read_server_message_channel_data
      else if type = SC_MULTITRANSPORT then gcc_read_server_multitransport_channel_data
      else assign (\<lambda>mcs. mcs))"

text \<open>\<open>offset\<close> has 16 bits and wraps.\<close>

partial_function (option) gcc_read_server_blocks_loop :: "(nat \<Rightarrow> alloc) \<Rightarrow> (byte list \<Rightarrow> bool) \<Rightarrow> int \<Rightarrow> u16 \<Rightarrow> gccMcs step" where
  "gcc_read_server_blocks_loop malloc cert len offset mcs s =
     (if uint offset < len then do {
        let holdp = s_pointer s;
        (r, s) \<leftarrow> gcc_read_user_data_header s;
        (case r of
           None \<Rightarrow> Some ((False, mcs), s)
         | Some (type, blockLength) \<Rightarrow> do {
             ((ok, mcs), s) \<leftarrow> gcc_read_server_block malloc cert type mcs s;
             (if \<not> ok then Some ((False, mcs), s)
              else gcc_read_server_blocks_loop (\<lambda>i. malloc (i + 2)) cert len (offset + blockLength) mcs
                (Stream_SetPosition s (holdp + unat blockLength))) }) }
      else Some ((True, mcs), s))"

definition gcc_read_server_data_blocks :: "(nat \<Rightarrow> alloc) \<Rightarrow> (byte list \<Rightarrow> bool) \<Rightarrow> int \<Rightarrow> gccMcs step" where
  "gcc_read_server_data_blocks malloc cert len = gcc_read_server_blocks_loop malloc cert len 0"

definition gcc_read_conference_create_response :: "(nat \<Rightarrow> alloc) \<Rightarrow> (byte list \<Rightarrow> bool) \<Rightarrow> gccMcs step" where
  "gcc_read_conference_create_response malloc cert = steps [
     expect per_read_choice (\<lambda>_. True),
     expect (per_read_object_identifier t124_02_98_oid) (\<lambda>_. True),
     expect per_read_length (\<lambda>_. True),
     expect per_read_choice (\<lambda>_. True),
     expect (per_read_integer16 1001) (\<lambda>_. True),
     expect per_read_integer (\<lambda>_. True),
     expect (per_read_enumerated MCS_Result_enum_length) (\<lambda>_. True),
     expect per_read_number_of_sets (\<lambda>_. True),
     expect per_read_choice (\<lambda>_. True),
     expect (per_read_octet_string h221_sc_key 4 4) (\<lambda>_. True),
     \<lambda>mcs s. do {
       (r, s) \<leftarrow> per_read_length s;
       (case r of
          None \<Rightarrow> Some ((False, mcs), s)
        | Some len \<Rightarrow> gcc_read_server_data_blocks malloc cert (uint len) mcs s) }]"

subsection \<open>Writing the server data blocks\<close>

text \<open>\<open>if (!Stream_EnsureRemainingCapacity (s, n)) return FALSE;\<close> and the rest of the function.\<close>

definition ensuring :: "alloc \<Rightarrow> nat \<Rightarrow> 'st step \<Rightarrow> 'st step" where
  "ensuring al n k st s = do {
     (ok, s) \<leftarrow> Stream_EnsureRemainingCapacity al s n;
     (if ok then k st s else Some ((False, st), s)) }"

definition gcc_write_server_core_data :: "alloc \<Rightarrow> gccMcs step" where
  "gcc_write_server_core_data al = ensuring al 20 (\<lambda>mcs s. do {
     s \<leftarrow> gcc_write_user_data_header s SC_CORE 16;
     s \<leftarrow> Stream_Write_UINT32 s (if RdpVersion (settings mcs) = 4 then RDP_VERSION_4 else RDP_VERSION_5_PLUS);
     s \<leftarrow> Stream_Write_UINT32 s (RequestedProtocols (settings mcs));
     s \<leftarrow> Stream_Write_UINT32 s (if SupportDynamicTimeZone (settings mcs) then 2 else 0);
     Some ((True, mcs), s) })"

definition gcc_write_channel_id :: "rdpMcsChannel \<Rightarrow> wStream \<Rightarrow> wStream option" where
  "gcc_write_channel_id c s = Stream_Write_UINT16 s (word_of_int (chan_ChannelId c))"

definition gcc_network_payload :: "u32 \<Rightarrow> u32" where
  "gcc_network_payload count = 8 + count * 2 + (if count mod 2 = 1 then 2 else 0)"

definition gcc_write_server_network_data :: "alloc \<Rightarrow> gccMcs step" where
  "gcc_write_server_network_data al mcs =
     ensuring al (size_of_int (sint (gcc_network_payload (channelCount mcs)) + 4)) (\<lambda>mcs s. do {
       s \<leftarrow> gcc_write_user_data_header s SC_NET (ucast (gcc_network_payload (channelCount mcs)));
       s \<leftarrow> Stream_Write_UINT16 s MCS_GLOBAL_CHANNEL_ID;
       s \<leftarrow> Stream_Write_UINT16 s (ucast (channelCount mcs));
       s \<leftarrow> write_elements gcc_write_channel_id (channels mcs) 0 (unat (channelCount mcs)) s;
       s \<leftarrow> (if channelCount mcs mod 2 = 1 then Stream_Write_UINT16 s 0 else Some s);
       Some ((True, mcs), s) }) mcs"

definition gcc_write_server_message_channel_data :: "alloc \<Rightarrow> gccMcs step" where
  "gcc_write_server_message_channel_data al mcs s =
     (if messageChannelId mcs = 0 then Some ((True, mcs), s)
      else ensuring al 6 (\<lambda>mcs s. do {
        s \<leftarrow> gcc_write_user_data_header s SC_MCS_MSGCHANNEL 6;
        s \<leftarrow> Stream_Write_UINT16 s (messageChannelId mcs);
        Some ((True, mcs), s) }) mcs s)"

definition gcc_write_server_multitransport_channel_data :: "wStream \<Rightarrow> wStream option" where
  "gcc_write_server_multitransport_channel_data s = do {
     s \<leftarrow> gcc_write_user_data_header s SC_MULTITRANSPORT 8;
     Stream_Write_UINT32 s 0 }"


record gcc_crypto =
  winpr_RAND :: "nat \<Rightarrow> byte list"
  winpr_MD5 :: "byte list \<Rightarrow> byte list option"
  crypto_rsa_private_encrypt :: "byte list \<Rightarrow> byte list"

definition initial_signature :: "byte list" where
  "initial_signature = replicate 16 0xFF @ [0] @ replicate 45 0xFF @ [0x01]"

text \<open>The level that is used: none without RDP security, and a valid one otherwise.\<close>

definition gcc_server_level :: "rdpSettings \<Rightarrow> u32" where
  "gcc_server_level st =
     (let level = (if \<not> UseRdpSecurityLayer st then ENCRYPTION_LEVEL_NONE else EncryptionLevel st) in
      if level = ENCRYPTION_LEVEL_NONE \<or> level = ENCRYPTION_LEVEL_FIPS \<or> level = ENCRYPTION_LEVEL_HIGH \<or> level = ENCRYPTION_LEVEL_LOW \<or>
         level = ENCRYPTION_LEVEL_CLIENT_COMPATIBLE
      then level else ENCRYPTION_LEVEL_CLIENT_COMPATIBLE)"

definition gcc_server_method :: "u32 \<Rightarrow> u32 \<Rightarrow> u32" where
  "gcc_server_method level methods =
     (if level = ENCRYPTION_LEVEL_NONE then ENCRYPTION_METHOD_NONE
      else if level = ENCRYPTION_LEVEL_FIPS then ENCRYPTION_METHOD_FIPS
      else if level = ENCRYPTION_LEVEL_HIGH then ENCRYPTION_METHOD_128BIT
      else if methods AND ENCRYPTION_METHOD_128BIT \<noteq> 0 then ENCRYPTION_METHOD_128BIT
      else if methods AND ENCRYPTION_METHOD_56BIT \<noteq> 0 then ENCRYPTION_METHOD_56BIT
      else if methods AND ENCRYPTION_METHOD_40BIT \<noteq> 0 then ENCRYPTION_METHOD_40BIT
      else if methods AND ENCRYPTION_METHOD_FIPS \<noteq> 0 then ENCRYPTION_METHOD_FIPS
      else ENCRYPTION_METHOD_128BIT)"

definition gcc_key_blob_len :: "u32 \<Rightarrow> u32" where
  "gcc_key_blob_len keyLen = 4 + 4 + 4 + 4 + 4 + keyLen + 8"

definition gcc_cert_len :: "u32 \<Rightarrow> u32" where
  "gcc_cert_len keyLen = 4 + 4 + 4 + 2 + 2 + gcc_key_blob_len keyLen + 2 + 2 + 64 + 8"

text \<open>The part of the certificate that is signed, and its signature. The modulus is copied from memory.\<close>

definition gcc_write_certificate :: "gcc_crypto \<Rightarrow> rdpRsaKey \<Rightarrow> gccMcs step" where
  "gcc_write_certificate cr key mcs s = do {
     let sigData = s_pointer s;
     s \<leftarrow> Stream_Write_UINT32 s 1;
     s \<leftarrow> Stream_Write_UINT32 s 1;
     s \<leftarrow> Stream_Write_UINT32 s 1;
     s \<leftarrow> Stream_Write_UINT16 s 6;
     s \<leftarrow> Stream_Write_UINT16 s (ucast (gcc_key_blob_len (ModulusLength key)));
     s \<leftarrow> Stream_Write s [0x52, 0x53, 0x41, 0x31];
     s \<leftarrow> Stream_Write_UINT32 s (ModulusLength key + 8);
     s \<leftarrow> Stream_Write_UINT32 s (ModulusLength key * 8);
     s \<leftarrow> Stream_Write_UINT32 s (ModulusLength key - 1);
     s \<leftarrow> Stream_Write s (exponent key);
     modulus \<leftarrow> mem_read (Modulus key) 0 (unat (ModulusLength key));
     s \<leftarrow> Stream_Write s modulus;
     s \<leftarrow> Stream_Zero s 8;
     signed \<leftarrow> mem_read (s_buffer s) sigData (s_pointer s - sigData);
     s \<leftarrow> Stream_Write_UINT16 s 8;
     s \<leftarrow> Stream_Write_UINT16 s (64 + 8);
     (case winpr_MD5 cr signed of
        None \<Rightarrow> Some ((False, mcs), s)
      | Some digest \<Rightarrow> do {
          signature \<leftarrow> mem_write initial_signature 0 digest;
          s \<leftarrow> Stream_Write s (crypto_rsa_private_encrypt cr signature);
          s \<leftarrow> Stream_Zero s 8;
          Some ((True, mcs), s) }) }"

definition gcc_write_server_security_data :: "gcc_crypto \<Rightarrow> alloc \<Rightarrow> alloc \<Rightarrow> gccMcs step" where
  "gcc_write_server_security_data cr al malloc mcs0 s = do {
     let level = gcc_server_level (settings mcs0);
     let method = gcc_server_method level (EncryptionMethods (settings mcs0));
     let mcs = set_settings (\<lambda>st. st\<lparr>EncryptionLevel := level, EncryptionMethods := method\<rparr>) mcs0;
     (if method = ENCRYPTION_METHOD_NONE then
        ensuring al (12 + 4) (\<lambda>mcs s. do {
          s \<leftarrow> gcc_write_user_data_header s SC_SECURITY 12;
          s \<leftarrow> Stream_Write_UINT32 s method;
          s \<leftarrow> Stream_Write_UINT32 s level;
          Some ((True, mcs), s) }) mcs s
      else do {
        key \<leftarrow> RdpServerRsaKey (settings mcs);
        let certLen = gcc_cert_len (ModulusLength key);
        let headerLen = 12 + 4 + 4 + 32 + certLen;
        ensuring al (unat (headerLen + 4)) (\<lambda>mcs s. do {
          s \<leftarrow> gcc_write_user_data_header s SC_SECURITY (ucast headerLen);
          s \<leftarrow> Stream_Write_UINT32 s method;
          s \<leftarrow> Stream_Write_UINT32 s level;
          s \<leftarrow> Stream_Write_UINT32 s 32;
          s \<leftarrow> Stream_Write_UINT32 s certLen;
          _ \<leftarrow> malloc 32;
          let rnd = winpr_RAND cr 32;
          s \<leftarrow> Stream_Write s rnd;
          gcc_write_certificate cr key (set_settings (\<lambda>st. st\<lparr>ServerRandomLength := 32, ServerRandom := Some rnd\<rparr>) mcs) s }) mcs s }) }"

definition gcc_write_server_data_blocks :: "gcc_crypto \<Rightarrow> (nat \<Rightarrow> alloc) \<Rightarrow> gccMcs step" where
  "gcc_write_server_data_blocks cr al = steps [
     gcc_write_server_core_data (al 0),
     gcc_write_server_network_data (al 1),
     gcc_write_server_security_data cr (al 2) (al 3),
     gcc_write_server_message_channel_data (al 4)]"

definition gcc_write_conference_create_response :: "wStream \<Rightarrow> wStream \<Rightarrow> wStream option" where
  "gcc_write_conference_create_response s userData = do {
     s \<leftarrow> per_write_choice s 0;
     s \<leftarrow> per_write_object_identifier s t124_02_98_oid;
     s \<leftarrow> per_write_length s 0x2A;
     s \<leftarrow> per_write_choice s 0x14;
     s \<leftarrow> per_write_integer16 s 0x79F3 1001;
     s \<leftarrow> per_write_integer s 1;
     s \<leftarrow> per_write_enumerated s 0 MCS_Result_enum_length;
     s \<leftarrow> per_write_number_of_sets s 1;
     s \<leftarrow> per_write_choice s 0xC0;
     s \<leftarrow> per_write_octet_string s h221_sc_key 4 4;
     per_write_octet_string s (s_buffer userData) (c_int (Stream_GetPosition userData)) 0 }"

end
