(* ===== verification/Caps.thy ===== *)
theory Caps
  imports Gcc
begin

text \<open>
  The capability sets (\<open>libfreerdp/core/capabilities.c\<close>) that server and client exchange in the Demand Active and
  Confirm Active PDUs: the readers of all sets, the loop over the sets, and the bodies of the two PDUs as they are received.
  The functions \<open>rdp_print_*\<close>, which are compiled for debugging only and log what they read, are left out.

  The settings are those of \<open>Gcc\<close> with the fields that the capabilities use. A \<open>BOOL\<close> is a \<^typ>\<open>bool\<close> except for the two that hold
  any byte received. A reader gets the length of the set with its header of four bytes, which has been read already.
\<close>

unbundle bit_operations_syntax

subsection \<open>Settings\<close>

record GLYPH_CACHE_DEFINITION =
  cacheEntries :: u16
  cacheMaximumCellSize :: u16

record BITMAP_CACHE_V2_CELL_INFO =
  numEntries :: u32
  persistent :: bool

record capSettings = rdpSettings +
  ShareId :: u32
  PduSource :: u32
  AutoReconnectionEnabled :: bool
  AllowDesktopComposition :: bool
  RemoteApplicationMode :: bool
  RemoteAppNumIconCaches :: u32
  RemoteAppNumIconCacheEntries :: u32
  RemoteAppLanguageBarSupported :: bool
  ReceivedCapabilities :: "byte list"
  OsMajorType :: u32
  OsMinorType :: u32
  RefreshRect :: bool
  SuppressOutput :: bool
  FastPathOutput :: bool
  SaltedChecksum :: bool
  NoBitmapCompressionHeader :: bool
  DesktopResize :: bool
  DrawAllowDynamicColorFidelity :: bool
  DrawAllowColorSubsampling :: bool
  DrawAllowSkipAlpha :: bool
  OrderSupport :: "byte list"
  BitmapCacheV3Enabled :: bool
  BitmapCacheVersion :: u32
  BitmapCachePersistEnabled :: bool
  BitmapCacheV2NumCells :: u32
  BitmapCacheV2CellInfo :: "BITMAP_CACHE_V2_CELL_INFO list"
  ColorPointerFlag :: bool
  PointerCacheSize :: u32
  FastPathInput :: bool
  HasHorizontalWheel :: bool
  GlyphSupportLevel :: u32
  GlyphCache :: "GLYPH_CACHE_DEFINITION list"
  FragCache :: GLYPH_CACHE_DEFINITION
  OffscreenSupportLevel :: u32
  OffscreenCacheSize :: u32
  OffscreenCacheEntries :: u32
  VirtualChannelChunkSize :: u32
  SoundBeepsEnabled :: bool
  MultifragMaxRequestSize :: u32
  LargePointerFlag :: u32
  SurfaceCommandsEnabled :: bool
  FrameMarkerCommandEnabled :: bool
  SurfaceFrameMarkerEnabled :: bool
  RemoteFxOnly :: bool
  RemoteFxCodecId :: u32
  RemoteFxCodecMode :: u32
  RemoteFxImageCodec :: bool
  RemoteFxCaptureFlags :: u32
  NSCodec :: bool
  NSCodecId :: u32
  FrameAcknowledge :: u32
  NSCodecColorLossLevel :: u32
  NSCodecAllowSubsampling :: u32
  NSCodecAllowDynamicColorFidelity :: u32
  JpegCodec :: bool
  JpegQuality :: u32
  BitmapCacheV3CodecId :: u32
  DrawNineGridEnabled :: bool
  DrawNineGridCacheSize :: u32
  DrawNineGridCacheEntries :: u32
  DrawGdiPlusEnabled :: bool
  DrawGdiPlusCacheEnabled :: bool

subsection \<open>Readers\<close>

text \<open>Numbers and bytes that a function keeps in variables.\<close>

definition read8 :: "(byte \<Rightarrow> 'st step) \<Rightarrow> 'st step" where
  "read8 k st s = do { (v, s) \<leftarrow> Stream_Read_UINT8 s; k v st s }"

definition read16 :: "(u16 \<Rightarrow> 'st step) \<Rightarrow> 'st step" where
  "read16 k st s = do { (v, s) \<leftarrow> Stream_Read_UINT16 s; k v st s }"

definition read32 :: "(u32 \<Rightarrow> 'st step) \<Rightarrow> 'st step" where
  "read32 k st s = do { (v, s) \<leftarrow> Stream_Read_UINT32 s; k v st s }"

definition read_bytes :: "nat \<Rightarrow> (byte list \<Rightarrow> 'st step) \<Rightarrow> 'st step" where
  "read_bytes n k st s = do { (bs, s) \<leftarrow> Stream_Read s n; k bs st s }"

text \<open>\<open>return FALSE\<close> if the length is too small, and the rest of the function.\<close>

definition at_least :: "nat \<Rightarrow> nat \<Rightarrow> 'st step \<Rightarrow> 'st step" where
  "at_least n len f = and_also (check (\<lambda>_. \<not> len < n)) f"

definition on_server :: "capSettings step \<Rightarrow> capSettings step \<Rightarrow> capSettings step" where
  "on_server f g st = (if ServerMode st then f st else g st)"

abbreviation (input) "FASTPATH_OUTPUT_SUPPORTED \<equiv> (0x0001 :: u16)"
abbreviation (input) "NO_BITMAP_COMPRESSION_HDR \<equiv> (0x0400 :: u16)"
abbreviation (input) "LONG_CREDENTIALS_SUPPORTED \<equiv> (0x0004 :: u16)"
abbreviation (input) "AUTORECONNECT_SUPPORTED \<equiv> (0x0008 :: u16)"
abbreviation (input) "ENC_SALTED_CHECKSUM \<equiv> (0x0010 :: u16)"

definition general_settings :: "u16 \<Rightarrow> byte \<Rightarrow> byte \<Rightarrow> capSettings \<Rightarrow> capSettings" where
  "general_settings extraFlags refreshRectSupport suppressOutputSupport st = st\<lparr>
     NoBitmapCompressionHeader := extraFlags AND NO_BITMAP_COMPRESSION_HDR \<noteq> 0,
     FastPathOutput := FastPathOutput st \<and> extraFlags AND FASTPATH_OUTPUT_SUPPORTED \<noteq> 0,
     SaltedChecksum := SaltedChecksum st \<and> extraFlags AND ENC_SALTED_CHECKSUM \<noteq> 0,
     RefreshRect := RefreshRect st \<and> (ServerMode st \<or> refreshRectSupport \<noteq> 0),
     SuppressOutput := SuppressOutput st \<and> (ServerMode st \<or> suppressOutputSupport \<noteq> 0)\<rparr>"

definition rdp_read_general_capability_set :: "nat \<Rightarrow> capSettings step" where
  "rdp_read_general_capability_set len = at_least 24 len (steps [
     on_server (steps [get16 (\<lambda>v st. st\<lparr>OsMajorType := ucast v\<rparr>), get16 (\<lambda>v st. st\<lparr>OsMinorType := ucast v\<rparr>)]) (skip 4),
     skip 6,
     read16 (\<lambda>extraFlags. and_also (skip 6)
       (read8 (\<lambda>refreshRectSupport. read8 (\<lambda>suppressOutputSupport.
          assign (general_settings extraFlags refreshRectSupport suppressOutputSupport)))))])"

abbreviation (input) "DRAW_ALLOW_DYNAMIC_COLOR_FIDELITY \<equiv> (0x02 :: byte)"
abbreviation (input) "DRAW_ALLOW_COLOR_SUBSAMPLING \<equiv> (0x04 :: byte)"
abbreviation (input) "DRAW_ALLOW_SKIP_ALPHA \<equiv> (0x08 :: byte)"

definition bitmap_settings :: "u16 \<Rightarrow> u16 \<Rightarrow> u16 \<Rightarrow> u16 \<Rightarrow> byte \<Rightarrow> capSettings \<Rightarrow> capSettings" where
  "bitmap_settings preferredBitsPerPixel desktopWidth desktopHeight desktopResizeFlag drawingFlags st =
     (let resize = DesktopResize st \<and> desktopResizeFlag \<noteq> 0; follow = \<not> ServerMode st \<and> resize in st\<lparr>
     ColorDepth := if \<not> ServerMode st \<and> ucast preferredBitsPerPixel \<noteq> ColorDepth st then ucast preferredBitsPerPixel else ColorDepth st,
     DesktopResize := resize,
     DesktopWidth := if follow then ucast desktopWidth else DesktopWidth st,
     DesktopHeight := if follow then ucast desktopHeight else DesktopHeight st,
     DrawAllowSkipAlpha := DrawAllowSkipAlpha st \<and> drawingFlags AND DRAW_ALLOW_SKIP_ALPHA \<noteq> 0,
     DrawAllowDynamicColorFidelity := DrawAllowDynamicColorFidelity st \<and> drawingFlags AND DRAW_ALLOW_DYNAMIC_COLOR_FIDELITY \<noteq> 0,
     DrawAllowColorSubsampling := DrawAllowColorSubsampling st \<and> drawingFlags AND DRAW_ALLOW_COLOR_SUBSAMPLING \<noteq> 0\<rparr>)"

definition rdp_read_bitmap_capability_set :: "nat \<Rightarrow> capSettings step" where
  "rdp_read_bitmap_capability_set len = at_least 28 len
     (read16 (\<lambda>preferredBitsPerPixel. and_also (skip 6)
     (read16 (\<lambda>desktopWidth. read16 (\<lambda>desktopHeight. and_also (skip 2)
     (read16 (\<lambda>desktopResizeFlag. and_also (skip 3)
     (read8 (\<lambda>drawingFlags. and_also (skip 4)
       (assign (bitmap_settings preferredBitsPerPixel desktopWidth desktopHeight desktopResizeFlag drawingFlags)))))))))))"

abbreviation (input) "ORDER_FLAGS_EXTRA_SUPPORT \<equiv> (0x0080 :: u16)"
abbreviation (input) "CACHE_BITMAP_V3_SUPPORT \<equiv> (0x0002 :: u16)"
abbreviation (input) "ALTSEC_FRAME_MARKER_SUPPORT \<equiv> (0x0004 :: u16)"

text \<open>The loop over the 32 bytes of \<open>orderSupport\<close>, and the flags.\<close>

definition order_settings :: "u16 \<Rightarrow> byte list \<Rightarrow> u16 \<Rightarrow> capSettings step" where
  "order_settings orderFlags orderSupport orderSupportExFlags st s = do {
     own \<leftarrow> mem_read (OrderSupport st) 0 32;
     orders \<leftarrow> mem_write (OrderSupport st) 0 (map2 (\<lambda>theirs mine. if theirs = 0 then 0 else mine) orderSupport own);
     let v3 = (orderFlags AND ORDER_FLAGS_EXTRA_SUPPORT \<noteq> 0 \<and> orderSupportExFlags AND CACHE_BITMAP_V3_SUPPORT \<noteq> 0);
     let marker = (orderFlags AND ORDER_FLAGS_EXTRA_SUPPORT \<noteq> 0 \<and> orderSupportExFlags AND ALTSEC_FRAME_MARKER_SUPPORT \<noteq> 0);
     Some ((True, st\<lparr>OrderSupport := orders,
       BitmapCacheVersion := if BitmapCacheV3Enabled st \<and> v3 then 3 else BitmapCacheVersion st,
       BitmapCacheV3Enabled := BitmapCacheV3Enabled st \<and> v3,
       FrameMarkerCommandEnabled := FrameMarkerCommandEnabled st \<and> marker\<rparr>), s) }"

definition rdp_read_order_capability_set :: "nat \<Rightarrow> capSettings step" where
  "rdp_read_order_capability_set len = at_least 88 len (and_also (skip 30)
     (read16 (\<lambda>orderFlags. read_bytes 32 (\<lambda>orderSupport. and_also (skip 2)
     (read16 (\<lambda>orderSupportExFlags. and_also (skip 16) (order_settings orderFlags orderSupport orderSupportExFlags)))))))"

definition rdp_read_bitmap_cache_capability_set :: "nat \<Rightarrow> capSettings step" where
  "rdp_read_bitmap_cache_capability_set len = at_least 40 len (skip 36)"

definition rdp_read_control_capability_set :: "nat \<Rightarrow> capSettings step" where
  "rdp_read_control_capability_set len = at_least 12 len (skip 8)"

definition rdp_read_window_activation_capability_set :: "nat \<Rightarrow> capSettings step" where
  "rdp_read_window_activation_capability_set len = at_least 12 len (skip 8)"

definition pointer_settings :: "u16 \<Rightarrow> u16 \<Rightarrow> capSettings \<Rightarrow> capSettings" where
  "pointer_settings colorPointerFlag pointerCacheSize st = st\<lparr>
     ColorPointerFlag := ColorPointerFlag st \<and> colorPointerFlag \<noteq> 0,
     PointerCacheSize := if ServerMode st then ucast pointerCacheSize else PointerCacheSize st\<rparr>"

definition rdp_read_pointer_capability_set :: "nat \<Rightarrow> capSettings step" where
  "rdp_read_pointer_capability_set len = at_least 8 len
     (read16 (\<lambda>colorPointerFlag. read16 (\<lambda>colorPointerCacheSize.
        if len \<ge> 10 then read16 (\<lambda>pointerCacheSize. assign (pointer_settings colorPointerFlag pointerCacheSize))
        else assign (pointer_settings colorPointerFlag 0))))"

definition rdp_read_share_capability_set :: "nat \<Rightarrow> capSettings step" where
  "rdp_read_share_capability_set len = at_least 8 len (skip 4)"

definition rdp_read_color_cache_capability_set :: "nat \<Rightarrow> capSettings step" where
  "rdp_read_color_cache_capability_set len = at_least 8 len (skip 4)"

definition rdp_read_sound_capability_set :: "nat \<Rightarrow> capSettings step" where
  "rdp_read_sound_capability_set len = at_least 8 len
     (read16 (\<lambda>soundFlags. and_also (skip 2) (assign (\<lambda>st. st\<lparr>SoundBeepsEnabled := soundFlags AND 1 \<noteq> 0\<rparr>))))"

abbreviation (input) "INPUT_FLAG_FASTPATH_INPUT \<equiv> (0x0008 :: u16)"
abbreviation (input) "INPUT_FLAG_FASTPATH_INPUT2 \<equiv> (0x0020 :: u16)"
abbreviation (input) "TS_INPUT_FLAG_MOUSE_HWHEEL \<equiv> (0x0100 :: u16)"

definition input_settings :: "u16 \<Rightarrow> capSettings \<Rightarrow> capSettings" where
  "input_settings inputFlags st = (if ServerMode st then st else st\<lparr>
     FastPathInput := FastPathInput st \<and> (inputFlags AND INPUT_FLAG_FASTPATH_INPUT \<noteq> 0 \<or> inputFlags AND INPUT_FLAG_FASTPATH_INPUT2 \<noteq> 0),
     HasHorizontalWheel := HasHorizontalWheel st \<or> inputFlags AND TS_INPUT_FLAG_MOUSE_HWHEEL \<noteq> 0\<rparr>)"

definition rdp_read_input_capability_set :: "nat \<Rightarrow> capSettings step" where
  "rdp_read_input_capability_set len = at_least 88 len
     (read16 (\<lambda>inputFlags. steps [
        skip 2,
        on_server (steps [get32 (\<lambda>v st. st\<lparr>KeyboardLayout := v\<rparr>), get32 (\<lambda>v st. st\<lparr>KeyboardType := v\<rparr>),
          get32 (\<lambda>v st. st\<lparr>KeyboardSubType := v\<rparr>), get32 (\<lambda>v st. st\<lparr>KeyboardFunctionKey := v\<rparr>)]) (skip 16),
        skip 64,
        assign (input_settings inputFlags)]))"

definition rdp_read_font_capability_set :: "nat \<Rightarrow> capSettings step" where
  "rdp_read_font_capability_set len = and_also (if len > 4 then skip 2 else skip 0) (if len > 6 then skip 2 else skip 0)"

definition rdp_read_brush_capability_set :: "nat \<Rightarrow> capSettings step" where
  "rdp_read_brush_capability_set len = at_least 8 len (skip 4)"

definition rdp_read_cache_definition :: "(GLYPH_CACHE_DEFINITION \<Rightarrow> capSettings step) \<Rightarrow> capSettings step" where
  "rdp_read_cache_definition k = read16 (\<lambda>entries. read16 (\<lambda>cell. k \<lparr>cacheEntries = entries, cacheMaximumCellSize = cell\<rparr>))"

text \<open>Elements \<open>i\<close>, \<open>i + 1\<close>, \dots of \<open>GlyphCache\<close>.\<close>

fun rdp_read_glyph_caches :: "nat \<Rightarrow> nat \<Rightarrow> capSettings step" where
  "rdp_read_glyph_caches i 0 = assign (\<lambda>st. st)"
| "rdp_read_glyph_caches i (Suc n) = and_also
     (rdp_read_cache_definition (\<lambda>d st s. do {
        caches \<leftarrow> update_at i (\<lambda>_. d) (GlyphCache st);
        Some ((True, st\<lparr>GlyphCache := caches\<rparr>), s) }))
     (rdp_read_glyph_caches (Suc i) n)"

definition rdp_read_glyph_cache_capability_set :: "nat \<Rightarrow> capSettings step" where
  "rdp_read_glyph_cache_capability_set len = at_least 52 len (steps [
     rdp_read_glyph_caches 0 10,
     rdp_read_cache_definition (\<lambda>d. assign (\<lambda>st. st\<lparr>FragCache := d\<rparr>)),
     get16 (\<lambda>v st. st\<lparr>GlyphSupportLevel := ucast v\<rparr>),
     skip 2])"

definition rdp_read_offscreen_bitmap_cache_capability_set :: "nat \<Rightarrow> capSettings step" where
  "rdp_read_offscreen_bitmap_cache_capability_set len = at_least 12 len
     (read32 (\<lambda>offscreenSupportLevel. steps [
        get16 (\<lambda>v st. st\<lparr>OffscreenCacheSize := ucast v\<rparr>),
        get16 (\<lambda>v st. st\<lparr>OffscreenCacheEntries := ucast v\<rparr>),
        assign (\<lambda>st. if offscreenSupportLevel AND 1 \<noteq> 0 then st\<lparr>OffscreenSupportLevel := 1\<rparr> else st)]))"

definition rdp_read_bitmap_cache_host_support_capability_set :: "nat \<Rightarrow> capSettings step" where
  "rdp_read_bitmap_cache_host_support_capability_set len = at_least 8 len
     (read8 (\<lambda>cacheVersion. and_also (skip 3)
        (assign (\<lambda>st. if cacheVersion AND 1 \<noteq> 0 then st\<lparr>BitmapCachePersistEnabled := True\<rparr> else st))))"

definition rdp_read_bitmap_cache_v2_capability_set :: "nat \<Rightarrow> capSettings step" where
  "rdp_read_bitmap_cache_v2_capability_set len = at_least 40 len (skip 36)"

definition virtual_channel_settings :: "u32 \<Rightarrow> capSettings \<Rightarrow> capSettings" where
  "virtual_channel_settings VCChunkSize st = (if ServerMode st then st else st\<lparr>VirtualChannelChunkSize := VCChunkSize\<rparr>)"

definition rdp_read_virtual_channel_capability_set :: "nat \<Rightarrow> capSettings step" where
  "rdp_read_virtual_channel_capability_set len = at_least 8 len
     (read32 (\<lambda>flags. if len > 8 then read32 (\<lambda>VCChunkSize. assign (virtual_channel_settings VCChunkSize))
        else assign (virtual_channel_settings 1600)))"

definition rdp_read_draw_nine_grid_cache_capability_set :: "nat \<Rightarrow> capSettings step" where
  "rdp_read_draw_nine_grid_cache_capability_set len = at_least 12 len
     (read32 (\<lambda>drawNineGridSupportLevel. steps [
        get16 (\<lambda>v st. st\<lparr>DrawNineGridCacheSize := ucast v\<rparr>),
        get16 (\<lambda>v st. st\<lparr>DrawNineGridCacheEntries := ucast v\<rparr>),
        assign (\<lambda>st. if drawNineGridSupportLevel AND 1 \<noteq> 0 \<or> drawNineGridSupportLevel AND 2 \<noteq> 0 then st\<lparr>DrawNineGridEnabled := True\<rparr> else st)]))"

definition gdiplus_settings :: "u32 \<Rightarrow> u32 \<Rightarrow> capSettings \<Rightarrow> capSettings" where
  "gdiplus_settings drawGDIPlusSupportLevel drawGdiplusCacheLevel st = st\<lparr>
     DrawGdiPlusEnabled := DrawGdiPlusEnabled st \<or> drawGDIPlusSupportLevel AND 1 \<noteq> 0,
     DrawGdiPlusCacheEnabled := DrawGdiPlusCacheEnabled st \<or> drawGdiplusCacheLevel AND 1 \<noteq> 0\<rparr>"

definition rdp_read_draw_gdiplus_cache_capability_set :: "nat \<Rightarrow> capSettings step" where
  "rdp_read_draw_gdiplus_cache_capability_set len = at_least 40 len
     (read32 (\<lambda>drawGDIPlusSupportLevel. and_also (skip 4)
     (read32 (\<lambda>drawGdiplusCacheLevel. and_also (skip 24)
       (assign (gdiplus_settings drawGDIPlusSupportLevel drawGdiplusCacheLevel))))))"

definition rdp_read_remote_programs_capability_set :: "nat \<Rightarrow> capSettings step" where
  "rdp_read_remote_programs_capability_set len = at_least 8 len
     (read32 (\<lambda>railSupportLevel. assign (\<lambda>st. if railSupportLevel AND 1 = 0 then st\<lparr>RemoteApplicationMode := False\<rparr> else st)))"

definition rdp_read_window_list_capability_set :: "nat \<Rightarrow> capSettings step" where
  "rdp_read_window_list_capability_set len = at_least 11 len (skip 7)"

definition rdp_read_desktop_composition_capability_set :: "nat \<Rightarrow> capSettings step" where
  "rdp_read_desktop_composition_capability_set len = at_least 6 len (skip 2)"

abbreviation (input) "FASTPATH_MAX_PACKET_SIZE \<equiv> (0x3FFF :: u32)"
abbreviation (input) "FASTPATH_FRAGMENT_SAFE_SIZE \<equiv> (0x3F80 :: u32)"

definition multifragment_settings :: "u32 \<Rightarrow> capSettings \<Rightarrow> capSettings" where
  "multifragment_settings sz st =
     (if ServerMode st then
        (let sz = (if sz < FASTPATH_MAX_PACKET_SIZE then FASTPATH_FRAGMENT_SAFE_SIZE else sz) in
         if RemoteFxCodec st then
           (if sz < MultifragMaxRequestSize st then st\<lparr>RemoteFxCodec := False, MultifragMaxRequestSize := sz\<rparr> else st)
         else st\<lparr>MultifragMaxRequestSize := sz\<rparr>)
      else if sz > MultifragMaxRequestSize st then st\<lparr>MultifragMaxRequestSize := sz\<rparr> else st)"

definition rdp_read_multifragment_update_capability_set :: "nat \<Rightarrow> capSettings step" where
  "rdp_read_multifragment_update_capability_set len = at_least 8 len
     (read32 (\<lambda>multifragMaxRequestSize. assign (multifragment_settings multifragMaxRequestSize)))"

definition rdp_read_large_pointer_capability_set :: "nat \<Rightarrow> capSettings step" where
  "rdp_read_large_pointer_capability_set len = at_least 6 len
     (get16 (\<lambda>largePointerSupportFlags st. st\<lparr>LargePointerFlag := if largePointerSupportFlags AND 1 \<noteq> 0 then 1 else 0\<rparr>))"

abbreviation (input) "SURFCMDS_FRAME_MARKER \<equiv> (0x10 :: u32)"

definition rdp_read_surface_commands_capability_set :: "nat \<Rightarrow> capSettings step" where
  "rdp_read_surface_commands_capability_set len = at_least 12 len
     (read32 (\<lambda>cmdFlags. and_also (skip 4)
       (assign (\<lambda>st. st\<lparr>SurfaceCommandsEnabled := True, SurfaceFrameMarkerEnabled := cmdFlags AND SURFCMDS_FRAME_MARKER \<noteq> 0\<rparr>))))"

subsection \<open>Bitmap codecs\<close>

record GUID =
  Data1 :: u32
  Data2 :: u16
  Data3 :: u16
  Data4 :: "byte list"

definition CODEC_GUID_REMOTEFX :: GUID where
  "CODEC_GUID_REMOTEFX = \<lparr>Data1 = 0x76772F12, Data2 = 0xBD72, Data3 = 0x4463, Data4 = [0xAF, 0xB3, 0xB7, 0x3C, 0x9C, 0x6F, 0x78, 0x86]\<rparr>"

definition CODEC_GUID_NSCODEC :: GUID where
  "CODEC_GUID_NSCODEC = \<lparr>Data1 = 0xCA8D1BB9, Data2 = 0x000F, Data3 = 0x154F, Data4 = [0x58, 0x9F, 0xAE, 0x2D, 0x1A, 0x87, 0xE2, 0xD6]\<rparr>"

definition CODEC_GUID_IMAGE_REMOTEFX :: GUID where
  "CODEC_GUID_IMAGE_REMOTEFX = \<lparr>Data1 = 0x2744CCD4, Data2 = 0x9D8A, Data3 = 0x4E74, Data4 = [0x80, 0x3C, 0x0E, 0xCB, 0xEE, 0xA1, 0x9C, 0x54]\<rparr>"

definition CODEC_GUID_JPEG :: GUID where
  "CODEC_GUID_JPEG = \<lparr>Data1 = 0x430C9EED, Data2 = 0x1BAF, Data3 = 0x4CE6, Data4 = [0x86, 0x9A, 0xCB, 0x8B, 0x37, 0xB6, 0x62, 0x37]\<rparr>"

definition UuidEqual :: "GUID \<Rightarrow> GUID \<Rightarrow> bool" where
  "UuidEqual a b \<longleftrightarrow> Data1 a = Data1 b \<and> Data2 a = Data2 b \<and> Data3 a = Data3 b \<and> Data4 a = Data4 b"

definition guid_of_bytes :: "byte list \<Rightarrow> GUID" where
  "guid_of_bytes g = \<lparr>Data1 = u32_le (g ! 0) (g ! 1) (g ! 2) (g ! 3), Data2 = u16_le (g ! 4) (g ! 5), Data3 = u16_le (g ! 6) (g ! 7), Data4 = drop 8 g\<rparr>"

definition rdp_read_bitmap_codec_guid :: "(GUID \<Rightarrow> 'st step) \<Rightarrow> 'st step" where
  "rdp_read_bitmap_codec_guid k = read_bytes 16 (\<lambda>g. k (guid_of_bytes g))"

text \<open>The settings and the variables of \<open>rdp_read_bitmap_codecs_capability_set\<close>.\<close>

record codecs =
  cod_settings :: capSettings
  guidNSCodec :: bool
  guidRemoteFx :: bool
  guidRemoteFxImage :: bool

definition on_caps :: "(capSettings \<Rightarrow> capSettings) \<Rightarrow> codecs \<Rightarrow> codecs" where
  "on_caps f c = c\<lparr>cod_settings := f (cod_settings c)\<rparr>"

text \<open>The \<open>numIcaps\<close> structures of type \<open>TS_RFX_ICAP\<close>; nothing bounds them by the length of the set.\<close>

fun rdp_read_rfx_icaps :: "nat \<Rightarrow> codecs step" where
  "rdp_read_rfx_icaps 0 = assign (\<lambda>c. c)"
| "rdp_read_rfx_icaps (Suc n) =
     read16 (\<lambda>version. read16 (\<lambda>tileSize. read8 (\<lambda>codecFlags. read8 (\<lambda>colConvBits. read8 (\<lambda>transformBits. read8 (\<lambda>entropyBits.
       and_also (check (\<lambda>_. (if version = 0x0009 then tileSize = 0x0080 else version = 0x0100 \<and> tileSize = 0x0040) \<and> colConvBits = 1 \<and> transformBits = 1))
         (rdp_read_rfx_icaps n)))))))"

abbreviation (input) "CARDP_CAPS_CAPTURE_NON_CAC \<equiv> (1 :: u32)"

definition rdp_read_rfx_caps :: "codecs step" where
  "rdp_read_rfx_caps =
     read16 (\<lambda>blockType. read32 (\<lambda>blockLen. read16 (\<lambda>numCapsets.
       and_also (check (\<lambda>_. blockType = 0xCBC0 \<and> blockLen = 8 \<and> numCapsets = 1))
     (read16 (\<lambda>blockType. read32 (\<lambda>blockLen. read8 (\<lambda>rfxCodecId. read16 (\<lambda>capsetType. read16 (\<lambda>numIcaps. read16 (\<lambda>icapLen.
       and_also (check (\<lambda>_. blockType = 0xCBC1 \<and> rfxCodecId = 1 \<and> capsetType = 0xCFC0))
         (rdp_read_rfx_icaps (unat numIcaps))))))))))))"

definition rdp_read_rfx_properties :: "byte \<Rightarrow> codecs step" where
  "rdp_read_rfx_properties codecId = and_also (assign (\<lambda>c. on_caps (\<lambda>st. st\<lparr>RemoteFxCodecId := ucast codecId\<rparr>) (c\<lparr>guidRemoteFx := True\<rparr>)))
     (read32 (\<lambda>rfxPropsLength. read32 (\<lambda>captureFlags. read32 (\<lambda>rfxCapsLength.
        and_also (assign (on_caps (\<lambda>st. st\<lparr>RemoteFxCaptureFlags := captureFlags, RemoteFxOnly := captureFlags AND CARDP_CAPS_CAPTURE_NON_CAC \<noteq> 0\<rparr>)))
          (if rfxCapsLength \<noteq> 0 then rdp_read_rfx_caps else assign (\<lambda>c. c))))))"

definition color_loss_level :: "byte \<Rightarrow> byte" where
  "color_loss_level v = (if v < 1 then 1 else if v > 7 then 7 else v)"

definition rdp_read_nsc_properties :: "byte \<Rightarrow> codecs step" where
  "rdp_read_nsc_properties codecId = and_also (assign (\<lambda>c. on_caps (\<lambda>st. st\<lparr>NSCodecId := ucast codecId\<rparr>) (c\<lparr>guidNSCodec := True\<rparr>)))
     (read8 (\<lambda>fAllowDynamicFidelity. read8 (\<lambda>fAllowSubsampling. read8 (\<lambda>colorLossLevel.
        assign (on_caps (\<lambda>st. st\<lparr>NSCodecAllowDynamicColorFidelity := ucast fAllowDynamicFidelity,
          NSCodecAllowSubsampling := ucast fAllowSubsampling, NSCodecColorLossLevel := ucast (color_loss_level colorLossLevel)\<rparr>))))))"

text \<open>The properties of one codec; the server goes on behind them wherever their reader has stopped.\<close>

definition rdp_read_codec_properties :: "GUID \<Rightarrow> byte \<Rightarrow> u16 \<Rightarrow> codecs step" where
  "rdp_read_codec_properties codecGuid codecId len c s =
     (if ServerMode (cod_settings c) then do {
        let end_pos = (word_of_nat (Stream_GetPosition s) + ucast len :: u32);
        ((ok, c), s) \<leftarrow>
          (if UuidEqual codecGuid CODEC_GUID_REMOTEFX then rdp_read_rfx_properties codecId
           else if UuidEqual codecGuid CODEC_GUID_IMAGE_REMOTEFX then and_also (assign (\<lambda>c. c\<lparr>guidRemoteFxImage := True\<rparr>)) (skip (unat len))
           else if UuidEqual codecGuid CODEC_GUID_NSCODEC then rdp_read_nsc_properties codecId
           else skip (unat len)) c s;
        Some ((ok, c), if ok \<and> Stream_GetPosition s \<noteq> unat end_pos then Stream_SetPosition s (unat end_pos) else s) }
      else skip (unat len) c s)"

fun rdp_read_codecs :: "nat \<Rightarrow> u16 \<Rightarrow> codecs step" where
  "rdp_read_codecs 0 remainingLength = assign (\<lambda>c. c)"
| "rdp_read_codecs (Suc n) remainingLength = and_also (check (\<lambda>_. \<not> remainingLength < 19))
     (rdp_read_bitmap_codec_guid (\<lambda>codecGuid. read8 (\<lambda>codecId. read16 (\<lambda>codecPropertiesLength.
        and_also (check (\<lambda>_. \<not> remainingLength - 19 < codecPropertiesLength))
       (and_also (rdp_read_codec_properties codecGuid codecId codecPropertiesLength)
         (rdp_read_codecs n (remainingLength - 19 - codecPropertiesLength)))))))"

definition codecs_init :: "capSettings \<Rightarrow> codecs" where
  "codecs_init st = \<lparr>cod_settings = st, guidNSCodec = False, guidRemoteFx = False, guidRemoteFxImage = False\<rparr>"

definition codecs_settings :: "codecs \<Rightarrow> capSettings" where
  "codecs_settings c = (let st = cod_settings c in
     if ServerMode st then st\<lparr>RemoteFxCodec := RemoteFxCodec st \<and> guidRemoteFx c, RemoteFxImageCodec := RemoteFxImageCodec st \<and> guidRemoteFxImage c,
       NSCodec := NSCodec st \<and> guidNSCodec c, JpegCodec := False\<rparr> else st)"

definition rdp_read_bitmap_codecs_capability_set :: "nat \<Rightarrow> capSettings step" where
  "rdp_read_bitmap_codecs_capability_set len = at_least 5 len
     (on_field codecs_init (\<lambda>c _. cod_settings c)
       (and_also (read8 (\<lambda>bitmapCodecCount. rdp_read_codecs (unat bitmapCodecCount) (word_of_nat (len - 5))))
         (assign (\<lambda>c. c\<lparr>cod_settings := codecs_settings c\<rparr>))))"

definition rdp_read_frame_acknowledge_capability_set :: "nat \<Rightarrow> capSettings step" where
  "rdp_read_frame_acknowledge_capability_set len = at_least 8 len (on_server (get32 (\<lambda>v st. st\<lparr>FrameAcknowledge := v\<rparr>)) (skip 4))"

definition rdp_read_bitmap_cache_v3_codec_id_capability_set :: "nat \<Rightarrow> capSettings step" where
  "rdp_read_bitmap_cache_v3_codec_id_capability_set len = at_least 5 len (read8 (\<lambda>bitmapCacheV3CodecId. assign (\<lambda>st. st)))"

subsection \<open>The loop over the sets\<close>

abbreviation (input) "CAPSET_TYPE_GENERAL \<equiv> (0x01 :: u16)"
abbreviation (input) "CAPSET_TYPE_BITMAP \<equiv> (0x02 :: u16)"
abbreviation (input) "CAPSET_TYPE_ORDER \<equiv> (0x03 :: u16)"
abbreviation (input) "CAPSET_TYPE_BITMAP_CACHE \<equiv> (0x04 :: u16)"
abbreviation (input) "CAPSET_TYPE_CONTROL \<equiv> (0x05 :: u16)"
abbreviation (input) "CAPSET_TYPE_BITMAP_CACHE_V3_CODEC_ID \<equiv> (0x06 :: u16)"
abbreviation (input) "CAPSET_TYPE_ACTIVATION \<equiv> (0x07 :: u16)"
abbreviation (input) "CAPSET_TYPE_POINTER \<equiv> (0x08 :: u16)"
abbreviation (input) "CAPSET_TYPE_SHARE \<equiv> (0x09 :: u16)"
abbreviation (input) "CAPSET_TYPE_COLOR_CACHE \<equiv> (0x0A :: u16)"
abbreviation (input) "CAPSET_TYPE_SOUND \<equiv> (0x0C :: u16)"
abbreviation (input) "CAPSET_TYPE_INPUT \<equiv> (0x0D :: u16)"
abbreviation (input) "CAPSET_TYPE_FONT \<equiv> (0x0E :: u16)"
abbreviation (input) "CAPSET_TYPE_BRUSH \<equiv> (0x0F :: u16)"
abbreviation (input) "CAPSET_TYPE_GLYPH_CACHE \<equiv> (0x10 :: u16)"
abbreviation (input) "CAPSET_TYPE_OFFSCREEN_CACHE \<equiv> (0x11 :: u16)"
abbreviation (input) "CAPSET_TYPE_BITMAP_CACHE_HOST_SUPPORT \<equiv> (0x12 :: u16)"
abbreviation (input) "CAPSET_TYPE_BITMAP_CACHE_V2 \<equiv> (0x13 :: u16)"
abbreviation (input) "CAPSET_TYPE_VIRTUAL_CHANNEL \<equiv> (0x14 :: u16)"
abbreviation (input) "CAPSET_TYPE_DRAW_NINE_GRID_CACHE \<equiv> (0x15 :: u16)"
abbreviation (input) "CAPSET_TYPE_DRAW_GDI_PLUS \<equiv> (0x16 :: u16)"
abbreviation (input) "CAPSET_TYPE_RAIL \<equiv> (0x17 :: u16)"
abbreviation (input) "CAPSET_TYPE_WINDOW \<equiv> (0x18 :: u16)"
abbreviation (input) "CAPSET_TYPE_COMP_DESK \<equiv> (0x19 :: u16)"
abbreviation (input) "CAPSET_TYPE_MULTI_FRAGMENT_UPDATE \<equiv> (0x1A :: u16)"
abbreviation (input) "CAPSET_TYPE_LARGE_POINTER \<equiv> (0x1B :: u16)"
abbreviation (input) "CAPSET_TYPE_SURFACE_COMMANDS \<equiv> (0x1C :: u16)"
abbreviation (input) "CAPSET_TYPE_BITMAP_CODECS \<equiv> (0x1D :: u16)"
abbreviation (input) "CAPSET_TYPE_FRAME_ACKNOWLEDGE \<equiv> (0x1E :: u16)"

definition rdp_read_client_capability_set :: "u16 \<Rightarrow> nat \<Rightarrow> capSettings step" where
  "rdp_read_client_capability_set type len =
     (if type = CAPSET_TYPE_BITMAP_CACHE then rdp_read_bitmap_cache_capability_set len
      else if type = CAPSET_TYPE_BITMAP_CACHE_V2 then rdp_read_bitmap_cache_v2_capability_set len
      else if type = CAPSET_TYPE_BRUSH then rdp_read_brush_capability_set len
      else if type = CAPSET_TYPE_GLYPH_CACHE then rdp_read_glyph_cache_capability_set len
      else if type = CAPSET_TYPE_OFFSCREEN_CACHE then rdp_read_offscreen_bitmap_cache_capability_set len
      else if type = CAPSET_TYPE_SOUND then rdp_read_sound_capability_set len
      else if type = CAPSET_TYPE_CONTROL then rdp_read_control_capability_set len
      else if type = CAPSET_TYPE_ACTIVATION then rdp_read_window_activation_capability_set len
      else if type = CAPSET_TYPE_DRAW_NINE_GRID_CACHE then rdp_read_draw_nine_grid_cache_capability_set len
      else check (\<lambda>_. False))"

definition rdp_read_server_capability_set :: "u16 \<Rightarrow> nat \<Rightarrow> capSettings step" where
  "rdp_read_server_capability_set type len =
     (if type = CAPSET_TYPE_BITMAP_CACHE_HOST_SUPPORT then rdp_read_bitmap_cache_host_support_capability_set len
      else check (\<lambda>_. False))"

definition rdp_read_capability_set :: "u16 \<Rightarrow> nat \<Rightarrow> capSettings step" where
  "rdp_read_capability_set type len =
     (if type = CAPSET_TYPE_GENERAL then rdp_read_general_capability_set len
      else if type = CAPSET_TYPE_BITMAP then rdp_read_bitmap_capability_set len
      else if type = CAPSET_TYPE_ORDER then rdp_read_order_capability_set len
      else if type = CAPSET_TYPE_POINTER then rdp_read_pointer_capability_set len
      else if type = CAPSET_TYPE_INPUT then rdp_read_input_capability_set len
      else if type = CAPSET_TYPE_VIRTUAL_CHANNEL then rdp_read_virtual_channel_capability_set len
      else if type = CAPSET_TYPE_SHARE then rdp_read_share_capability_set len
      else if type = CAPSET_TYPE_COLOR_CACHE then rdp_read_color_cache_capability_set len
      else if type = CAPSET_TYPE_FONT then rdp_read_font_capability_set len
      else if type = CAPSET_TYPE_DRAW_GDI_PLUS then rdp_read_draw_gdiplus_cache_capability_set len
      else if type = CAPSET_TYPE_RAIL then rdp_read_remote_programs_capability_set len
      else if type = CAPSET_TYPE_WINDOW then rdp_read_window_list_capability_set len
      else if type = CAPSET_TYPE_MULTI_FRAGMENT_UPDATE then rdp_read_multifragment_update_capability_set len
      else if type = CAPSET_TYPE_LARGE_POINTER then rdp_read_large_pointer_capability_set len
      else if type = CAPSET_TYPE_COMP_DESK then rdp_read_desktop_composition_capability_set len
      else if type = CAPSET_TYPE_SURFACE_COMMANDS then rdp_read_surface_commands_capability_set len
      else if type = CAPSET_TYPE_BITMAP_CODECS then rdp_read_bitmap_codecs_capability_set len
      else if type = CAPSET_TYPE_FRAME_ACKNOWLEDGE then rdp_read_frame_acknowledge_capability_set len
      else if type = CAPSET_TYPE_BITMAP_CACHE_V3_CODEC_ID then rdp_read_bitmap_cache_v3_codec_id_capability_set len
      else on_server (rdp_read_client_capability_set type len) (rdp_read_server_capability_set type len))"

definition mark_received :: "u16 \<Rightarrow> capSettings \<Rightarrow> capSettings option" where
  "mark_received type st =
     (if type < 32 then do { xs \<leftarrow> update_at (unat type) (\<lambda>_. 1) (ReceivedCapabilities st); Some (st\<lparr>ReceivedCapabilities := xs\<rparr>) }
      else Some st)"

definition rdp_read_capability_set_header :: "(u16 \<Rightarrow> u16 \<Rightarrow> 'st step) \<Rightarrow> 'st step" where
  "rdp_read_capability_set_header k = read16 (\<lambda>type. read16 (\<lambda>len. k type len))"

fun rdp_read_capability_sets :: "nat \<Rightarrow> capSettings step" where
  "rdp_read_capability_sets 0 st s = Some ((True, st), s)"
| "rdp_read_capability_sets (Suc numberCapabilities) st s =
     (if Stream_GetRemainingLength s \<ge> 4 then
        rdp_read_capability_set_header (\<lambda>type len st t. do {
          st \<leftarrow> mark_received type st;
          (if Stream_GetRemainingLength t < size_of_int (uint len - 4) then Some ((False, st), t)
           else do {
             ((ok, st), t) \<leftarrow> rdp_read_capability_set type (unat len) st t;
             (if \<not> ok then Some ((False, st), t)
              else rdp_read_capability_sets numberCapabilities st (Stream_SetPosition t (s_pointer s + unat len))) }) }) st s
      else Some ((True, st), s))"

subsection \<open>Demand Active and Confirm Active\<close>

text \<open>The part of \<open>rdp_recv_demand_active\<close> behind the headers; the second component is \<open>glyph_v2\<close>.\<close>

definition rdp_recv_demand_active_body :: "u16 \<Rightarrow> (capSettings \<times> bool) step" where
  "rdp_recv_demand_active_body pduSource = steps [
     on_field fst (\<lambda>st (_, g). (st, g)) (steps [
       assign (\<lambda>st. st\<lparr>PduSource := ucast pduSource\<rparr>),
       \<lambda>st s. Some ((\<not> Stream_GetRemainingLength s < 8, st), s),
       get32 (\<lambda>v st. st\<lparr>ShareId := v\<rparr>),
       read16 (\<lambda>lengthSourceDescriptor. read16 (\<lambda>lengthCombinedCapabilities. steps [
         \<lambda>st s. (let (ok, s) = Stream_SafeSeek s (unat lengthSourceDescriptor) in Some ((ok \<and> \<not> Stream_GetRemainingLength s < 4, st), s)),
         read16 (\<lambda>numberCapabilities. and_also (skip 2) (rdp_read_capability_sets (unat numberCapabilities)))]))]),
     assign (\<lambda>(st, _). (st, GlyphSupportLevel st > 2))]"

definition confirm_settings :: "byte list \<Rightarrow> capSettings \<Rightarrow> capSettings" where
  "confirm_settings rc st = st\<lparr>
     SurfaceCommandsEnabled := SurfaceCommandsEnabled st \<and> rc ! 0x1C \<noteq> 0,
     SurfaceFrameMarkerEnabled := SurfaceFrameMarkerEnabled st \<and> rc ! 0x1C \<noteq> 0,
     FrameAcknowledge := if rc ! 0x1E = 0 then 0 else FrameAcknowledge st,
     BitmapCacheV3Enabled := BitmapCacheV3Enabled st \<and> rc ! 0x06 \<noteq> 0,
     RemoteFxCodec := RemoteFxCodec st \<and> rc ! 0x1D \<noteq> 0,
     NSCodec := NSCodec st \<and> rc ! 0x1D \<noteq> 0,
     JpegCodec := JpegCodec st \<and> rc ! 0x1D \<noteq> 0,
     MultifragMaxRequestSize := if rc ! 0x1A = 0 then FASTPATH_FRAGMENT_SAFE_SIZE else MultifragMaxRequestSize st,
     LargePointerFlag := if rc ! 0x1B = 0 then 0 else LargePointerFlag st\<rparr>"

definition rdp_recv_confirm_active :: "capSettings step" where
  "rdp_recv_confirm_active = steps [
     \<lambda>st s. Some ((\<not> Stream_GetRemainingLength s < 10, st), s),
     skip 6,
     read16 (\<lambda>lengthSourceDescriptor. read16 (\<lambda>lengthCombinedCapabilities. steps [
       \<lambda>st s. Some ((\<not> c_int (Stream_GetRemainingLength s) < uint lengthSourceDescriptor + 4, st), s),
       skip (unat lengthSourceDescriptor),
       read16 (\<lambda>numberCapabilities. and_also (skip 2) (\<lambda>st s. do {
         ((status, st), s) \<leftarrow> rdp_read_capability_sets (unat numberCapabilities) st s;
         rc \<leftarrow> mem_read (ReceivedCapabilities st) 0 32;
         Some ((status, confirm_settings rc st), s) }))]))]"

end
