(* ===== verification/GccSafe.thy ===== *)
theory GccSafe
  imports Gcc
begin

text \<open>
  What the readers of \<open>gcc.c\<close> do on arbitrary input: the server, reading the request of a client, stays
  inside the stream and always returns; the client, reading the response of a server, can be made to
  read outside it.
\<close>

subsection \<open>Readers of blocks\<close>

text \<open>
  \<open>block_safe I n f\<close>: given \<open>n\<close> bytes, \<open>f\<close> touches no memory outside the stream, uses at most these bytes and
  keeps the invariant \<open>I\<close> of the structure it fills in. \<open>step_safe\<close> allows it to use all of the stream.
\<close>

definition block_safe :: "('st \<Rightarrow> bool) \<Rightarrow> nat \<Rightarrow> 'st step \<Rightarrow> bool" where
  "block_safe I n f \<longleftrightarrow> (\<forall>st s. I st \<longrightarrow> Stream_wf s \<longrightarrow> n \<le> length (ahead s) \<longrightarrow>
     (\<exists>b st' m. f st s = Some ((b, st'), Stream_Seek s m) \<and> m \<le> n \<and> I st'))"

definition step_safe :: "('st \<Rightarrow> bool) \<Rightarrow> nat \<Rightarrow> 'st step \<Rightarrow> bool" where
  "step_safe I n f \<longleftrightarrow> (\<forall>st s. I st \<longrightarrow> Stream_wf s \<longrightarrow> n \<le> length (ahead s) \<longrightarrow>
     (\<exists>b st' m. f st s = Some ((b, st'), Stream_Seek s m) \<and> m \<le> length (ahead s) \<and> I st'))"

named_theorems block_intros \<open>rules that establish \<open>block_safe\<close>\<close>

lemma block_safeI:
  assumes "\<And>st s. I st \<Longrightarrow> Stream_wf s \<Longrightarrow> n \<le> length (ahead s) \<Longrightarrow> \<exists>b st' m. f st s = Some ((b, st'), Stream_Seek s m) \<and> m \<le> n \<and> I st'"
  shows "block_safe I n f"
  using assms by (auto simp: block_safe_def)

lemma block_safeE:
  assumes "block_safe I n f" "I st" "Stream_wf s" "n \<le> length (ahead s)"
  obtains b st' m where "f st s = Some ((b, st'), Stream_Seek s m)" "m \<le> n" "I st'" "Stream_wf (Stream_Seek s m)"
    "length (ahead (Stream_Seek s m)) = length (ahead s) - m"
proof -
  from assms obtain b st' m where "f st s = Some ((b, st'), Stream_Seek s m)" "m \<le> n" "I st'" unfolding block_safe_def by blast
  moreover from this have "Stream_wf (Stream_Seek s m)" using assms by (intro Stream_wf_Seek) auto
  ultimately show thesis using that by simp
qed

lemma block_safeD:
  "block_safe I n f \<Longrightarrow> I st \<Longrightarrow> Stream_wf s \<Longrightarrow> n \<le> length (ahead s) \<Longrightarrow> \<exists>b st' m. f st s = Some ((b, st'), Stream_Seek s m) \<and> m \<le> n \<and> I st'"
  by (auto simp: block_safe_def)

lemma block_safe_mono: "block_safe I m f \<Longrightarrow> m \<le> n \<Longrightarrow> block_safe I n f"
  by (fastforce simp: block_safe_def)

lemma block_safe_step: "block_safe I n f \<Longrightarrow> n \<le> m \<Longrightarrow> step_safe I m f"
  by (fastforce simp: block_safe_def step_safe_def)

lemma block_and_also:
  assumes "block_safe I n f" "block_safe I m g"
  shows "block_safe I (n + m) (and_also f g)"
proof (rule block_safeI)
  fix st s assume st: "I st" "Stream_wf s" "n + m \<le> length (ahead s)"
  obtain b st1 k where 1: "f st s = Some ((b, st1), Stream_Seek s k)" "k \<le> n" "I st1" "Stream_wf (Stream_Seek s k)"
      "length (ahead (Stream_Seek s k)) = length (ahead s) - k"
    using block_safeE [OF assms(1) st(1,2)] st(3) by (metis add_leD1)
  obtain c st2 j where 2: "g st1 (Stream_Seek s k) = Some ((c, st2), Stream_Seek (Stream_Seek s k) j)" "j \<le> m" "I st2"
    by (rule block_safeE [OF assms(2) 1(3,4)]) (use 1(2,5) st(3) in auto)
  show "\<exists>b st' i. and_also f g st s = Some ((b, st'), Stream_Seek s i) \<and> i \<le> n + m \<and> I st'"
    using 1 2 by (cases b) (auto simp: and_also_def intro: exI [of _ "k + j"] exI [of _ k])
qed

lemma block_pure [block_intros]: "block_safe I 0 (check P)" "(\<And>st. I st \<Longrightarrow> I (f st)) \<Longrightarrow> block_safe I 0 (assign f)"
  by (auto simp: block_safe_def check_def assign_def intro!: exI [of _ 0])

lemma block_skip [block_intros]: "block_safe I n (skip n)"
  by (auto simp: block_safe_def skip_def)

lemma block_get [block_intros]:
  "(\<And>v st. I st \<Longrightarrow> I (u8 v st)) \<Longrightarrow> block_safe I 1 (get8 u8)"
  "(\<And>v st. I st \<Longrightarrow> I (u16 v st)) \<Longrightarrow> block_safe I 2 (get16 u16)"
  "(\<And>v st. I st \<Longrightarrow> I (u32 v st)) \<Longrightarrow> block_safe I 4 (get32 u32)"
  by (auto simp: block_safe_def get8_def get16_def get32_def Stream_Read_UINT8_def Stream_Read_UINT16_def Stream_Read_UINT32_def mem_read_ahead)

lemma block_steps [block_intros]:
  "block_safe I 0 (steps [])" "block_safe I n f \<Longrightarrow> block_safe I m (steps fs) \<Longrightarrow> block_safe I (n + m) (steps (f # fs))"
  by (auto intro: block_pure block_and_also)

lemma block_optional:
  assumes "\<forall>(n, f) \<in> set fs. block_safe I n f"
  shows "block_safe I blockLength (optional fs blockLength)"
  using assms
proof (induction fs blockLength rule: optional.induct)
  case (1 blockLength)
  show ?case by (simp, rule block_safe_mono [OF block_pure(2)]) simp_all
next
  case (2 n f fs blockLength)
  show ?case
  proof (cases "blockLength < n")
    case True
    then show ?thesis by (simp, intro block_safe_mono [OF block_pure(2)]) simp_all
  next
    case False
    then have "block_safe I (n + (blockLength - n)) (and_also f (optional fs (blockLength - n)))" using 2 by (intro block_and_also) auto
    then show ?thesis using False by simp
  qed
qed

lemma block_on_field [block_intros]:
  "block_safe J n f \<Longrightarrow> (\<And>st. I st \<Longrightarrow> J (get st)) \<Longrightarrow> (\<And>x st. J x \<Longrightarrow> I st \<Longrightarrow> I (upd x st)) \<Longrightarrow> block_safe I n (on_field get upd f)"
  by (rule block_safeI, erule block_safeE [where st = "get st" for st]) (auto simp: on_field_def)

subsection \<open>Strings\<close>

lemma length_wchars: "length (wchars bs) = length bs div 2"
  by (induction bs rule: wchars.induct) auto

text \<open>\<open>ConvertFromUnicode\<close> with its own allocation returns for any units, without a fault.\<close>

lemma ConvertFromUnicode_total:
  assumes "length ws < 2 ^ 31"
  shows "\<exists>status out. ConvertFromUnicode ca (Some ws) (int (length ws)) (Some None) 0 = Some (status, Some out) \<and> (status \<ge> 1 \<longrightarrow> out \<noteq> None)"
proof (cases "ws = []")
  case True
  then show ?thesis by (simp add: ConvertFromUnicode_def WideCharToMultiByte_def)
next
  case False
  from utf16_utf8_loop_spec [of None 0 0 ws] obtain cs r j buf where
    n: "utf16_utf8_loop strictConversion ws 0 None 0 = Some (r, j, buf, length (utf8_text cs))" by auto
  let ?n = "length (utf8_text cs)"
  from utf16_utf8_loop_spec [of "Some (replicate ?n 0)" 0 0 ws] obtain ds r' j' buf' where
    d: "utf16_utf8_loop strictConversion ws 0 (Some (replicate ?n 0)) 0 = Some (r', j', buf', length (utf8_text ds))"
      "put (Some (replicate ?n 0)) 0 (utf8_text ds) = Some buf'" by auto
  then obtain b where b: "buf' = Some b" "length b = ?n" by (auto simp: put_def dest: length_mem_write)
  have r: "mem_read ws 0 (length ws) = Some ws" "mem_read (replicate (Suc ?n) 0) 0 ?n = Some (replicate ?n (0 :: byte))"
    by (simp_all add: mem_read_def min_def del: replicate_Suc)
  have w: "mem_write (replicate (Suc ?n) 0) 0 b = Some (b @ [0])"
    using b(2) by (simp add: mem_write_def del: replicate_Suc) simp
  show ?thesis using False assms n d(1) b(1) r w
    by (auto simp: ConvertFromUnicode_def WideCharToMultiByte_def ConvertUTF16toUTF8_def nat_add_distrib simp del: replicate_Suc)
qed

lemma block_get_unicode [block_intros]:
  assumes "n < 2 ^ 31" "\<And>str st. I st \<Longrightarrow> I (upd str st)"
  shows "block_safe I (2 * n) (get_unicode ca n upd)"
proof (rule block_safeI)
  fix st s assume st: "I st" "Stream_wf s" "2 * n \<le> length (ahead s)"
  let ?ws = "wchars (take (2 * n) (ahead s))"
  have l: "length ?ws = n" using st(3) by (simp add: length_wchars)
  from ConvertFromUnicode_total [of ?ws ca] obtain status out where
    "ConvertFromUnicode ca (Some ?ws) (int n) (Some None) 0 = Some (status, Some out)" "status \<ge> 1 \<longrightarrow> out \<noteq> None" using l assms(1) by auto
  then show "\<exists>b st' m. get_unicode ca n upd st s = Some ((b, st'), Stream_Seek s m) \<and> m \<le> 2 * n \<and> I st'"
    using st assms(2) by (cases "status < 1") (auto simp: get_unicode_def mem_read_ahead intro: exI [of _ 0])
qed


subsection \<open>The client blocks\<close>

text \<open>
  What the server relies on: the array of channels has the 16 elements that the code allows, the array
  of monitors has the size it is said to have, and not more monitors are counted.
\<close>

definition gcc_ok :: "gccMcs \<Rightarrow> bool" where
  "gcc_ok m \<longleftrightarrow> 16 \<le> length (channels m) \<and> length (MonitorDefArray (settings m)) = unat (MonitorDefArraySize (settings m)) \<and>
     unat (word_of_int (MonitorCount (settings m)) :: u32) \<le> length (MonitorDefArray (settings m))"

lemma block_client_core: "block_safe gcc_ok n (gcc_read_client_core_data ca n)"
proof (cases "n < 128")
  case True
  then show ?thesis by (auto simp: gcc_read_client_core_data_def block_safe_def and_also_def check_def intro!: exI [of _ 0])
next
  case False
  have I: "gcc_ok (core_mcs c) \<Longrightarrow> MonitorDefArray (f (settings (core_mcs c))) = MonitorDefArray (settings (core_mcs c)) \<Longrightarrow>
      MonitorDefArraySize (f (settings (core_mcs c))) = MonitorDefArraySize (settings (core_mcs c)) \<Longrightarrow>
      MonitorCount (f (settings (core_mcs c))) = MonitorCount (settings (core_mcs c)) \<Longrightarrow> gcc_ok (core_mcs (on_settings f c))" for f c
    by (simp add: gcc_ok_def on_settings_def)
  let ?I = "\<lambda>c. gcc_ok (core_mcs c)"
  have "block_safe ?I (4 + (2 + (2 + (2 + (2 + (4 + (4 + (2 * 16 + (4 + (4 + (4 + (64 + 0)))))))))))) (gcc_core_required ca)"
    unfolding gcc_core_required_def by (intro block_intros I) simp_all
  then have r: "block_safe ?I 128 (gcc_core_required ca)" by simp
  have u: "block_safe ?I 64 (get_unicode (ca 1) 32 (\<lambda>str. on_settings (\<lambda>st. st\<lparr>ClientProductId := Some str\<rparr>)))"
    using block_get_unicode [of 32 ?I "\<lambda>str. on_settings (\<lambda>st. st\<lparr>ClientProductId := Some str\<rparr>)" "ca 1"] I by simp
  have "block_safe ?I (4 + 0) (and_also (get32 (\<lambda>v. on_settings (\<lambda>st. st\<lparr>DeviceScaleFactor := v\<rparr>)))
      (check (\<lambda>c. SelectedProtocol (settings (core_mcs c)) = serverSelectedProtocol c)))"
    by (intro block_and_also block_get(3) block_pure(1) I) simp_all
  then have l: "block_safe ?I 4 (and_also (get32 (\<lambda>v. on_settings (\<lambda>st. st\<lparr>DeviceScaleFactor := v\<rparr>)))
      (check (\<lambda>c. SelectedProtocol (settings (core_mcs c)) = serverSelectedProtocol c)))" by simp
  have o: "block_safe ?I (n - 128) (optional (gcc_core_optional ca) (n - 128))"
    by (rule block_optional) (auto simp: gcc_core_optional_def simp flip: One_nat_def intro!: block_intros u l I)
  have f: "block_safe ?I 0 gcc_core_finish"
    by (rule block_safeI) (auto simp: gcc_core_finish_def gcc_core_settings_def intro!: exI [of _ 0] I split: option.split)
  have "block_safe gcc_ok (0 + (128 + ((n - 128) + (0 + 0)))) (gcc_read_client_core_data ca n)"
    unfolding gcc_read_client_core_data_def by (intro block_and_also block_intros block_on_field [where J = ?I] r o f) (simp_all add: gcc_core_init_def)
  then show ?thesis using False by simp
qed


lemma block_if [block_intros]: "block_safe I n f \<Longrightarrow> block_safe I n g \<Longrightarrow> block_safe I n (\<lambda>st. if P st then f st else g st)"
  by (auto simp: block_safe_def)

lemma block_guard: "(\<not> b \<Longrightarrow> block_safe I n f) \<Longrightarrow> block_safe I n (and_also (check (\<lambda>_. \<not> b)) f)"
  by (cases b) (auto simp: block_safe_def and_also_def check_def intro!: exI [of _ 0])

lemma gcc_ok_settings:
  "gcc_ok m \<Longrightarrow> MonitorDefArray (f (settings m)) = MonitorDefArray (settings m) \<Longrightarrow>
    MonitorDefArraySize (f (settings m)) = MonitorDefArraySize (settings m) \<Longrightarrow> MonitorCount (f (settings m)) = MonitorCount (settings m) \<Longrightarrow>
    gcc_ok (set_settings f m)"
  by (simp add: gcc_ok_def set_settings_def)

lemma block_client_security: "block_safe gcc_ok n (gcc_read_client_security_data n)"
  unfolding gcc_read_client_security_data_def
proof (rule block_guard)
  assume "\<not> n < 8"
  moreover have "block_safe gcc_ok (4 + 4) (and_also (get32 (\<lambda>v. set_settings (\<lambda>st. st\<lparr>EncryptionMethods := v\<rparr>)))
      (\<lambda>mcs. if EncryptionMethods (settings mcs) = 0 then get32 (\<lambda>v. set_settings (\<lambda>st. st\<lparr>EncryptionMethods := v\<rparr>)) mcs else skip 4 mcs))"
    by (intro block_and_also block_intros gcc_ok_settings) simp_all
  ultimately show "block_safe gcc_ok n (\<lambda>mcs. if UseRdpSecurityLayer (settings mcs) then
      and_also (get32 (\<lambda>v. set_settings (\<lambda>st. st\<lparr>EncryptionMethods := v\<rparr>)))
        (\<lambda>mcs. if EncryptionMethods (settings mcs) = 0 then get32 (\<lambda>v. set_settings (\<lambda>st. st\<lparr>EncryptionMethods := v\<rparr>)) mcs else skip 4 mcs) mcs
      else skip 8 mcs)"
    by (intro block_if block_safe_mono [OF _ , of _ 8 _ n]) (auto intro: block_intros)
qed

lemma read_32: "Stream_wf s \<Longrightarrow> 4 \<le> length (ahead s) \<Longrightarrow> \<exists>v. Stream_Read_UINT32 s = Some (v, Stream_Seek s 4)"
  by (auto simp: Stream_Read_UINT32_def mem_read_ahead)

lemma update_at_Some: "i < length xs \<Longrightarrow> update_at i f xs = Some (xs[i := f (xs ! i)])"
  by (simp add: update_at_def)

lemma block_read_channels: "block_safe (\<lambda>m. gcc_ok m \<and> i + k \<le> length (channels m)) (12 * k) (gcc_read_channels i k)"
proof (induction k arbitrary: i)
  case 0
  then show ?case by (auto simp: block_safe_def intro!: exI [of _ 0])
next
  case (Suc k)
  show ?case
  proof (rule block_safeI)
    fix m s assume m: "gcc_ok m \<and> i + Suc k \<le> length (channels m)" "Stream_wf s" "12 * Suc k \<le> length (ahead s)"
    let ?s = "Stream_Seek s 12"
    have wf: "Stream_wf (Stream_Seek s 8)" "Stream_wf ?s" using m by (auto intro: Stream_wf_Seek)
    let ?name = "take 8 (ahead s)" and ?bs = "drop 8 (ahead s)"
    obtain v where v: "Stream_Read_UINT32 (Stream_Seek s 8) = Some (v, ?s)"
      using read_32 [OF wf(1)] m(3) by force
    let ?m = "m\<lparr>channels := (channels m)[i := (channels m ! i)\<lparr>chan_Name := ?name, chan_options := v, chan_ChannelId := uint (baseChannelId m)\<rparr>],
      baseChannelId := baseChannelId m + 1\<rparr>"
    have "gcc_ok ?m \<and> Suc i + k \<le> length (channels ?m)" using m(1) by (simp add: gcc_ok_def)
    moreover have "12 * k \<le> length (ahead ?s)" using m(3) by simp
    ultimately obtain b m' j where
      "gcc_read_channels (Suc i) k ?m ?s = Some ((b, m'), Stream_Seek ?s j)" "j \<le> 12 * k" "gcc_ok m' \<and> Suc i + k \<le> length (channels m')"
      using block_safeD [OF Suc.IH _ wf(2)] by blast
    then show "\<exists>b m' j. gcc_read_channels i (Suc k) m s = Some ((b, m'), Stream_Seek s j) \<and> j \<le> 12 * Suc k \<and> (gcc_ok m' \<and> i + Suc k \<le> length (channels m'))"
      using m v by (cases "0 \<in> set ?name") (auto simp: Stream_Read_def mem_read_ahead update_at_Some gcc_ok_def intro: exI [of _ 8] exI [of _ "12 + j"])
  qed
qed

lemma block_client_network: "block_safe gcc_ok n (gcc_read_client_network_data n)"
proof (cases "n < 4")
  case True
  then show ?thesis by (auto simp: gcc_read_client_network_data_def block_safe_def and_also_def check_def intro!: exI [of _ 0])
next
  case False
  show ?thesis
  proof (rule block_safeI)
    fix m s assume m: "gcc_ok m" "Stream_wf s" "n \<le> length (ahead s)"
    have 4: "4 \<le> length (ahead s)" using False m(3) by simp
    obtain v where v: "Stream_Read_UINT32 s = Some (v, Stream_Seek s 4)" using read_32 [OF m(2) 4] by blast
    let ?m = "m\<lparr>channelCount := v\<rparr>"
    have ok: "gcc_ok ?m" using m(1) by (simp add: gcc_ok_def)
    show "\<exists>b m' j. gcc_read_client_network_data n m s = Some ((b, m'), Stream_Seek s j) \<and> j \<le> n \<and> gcc_ok m'"
    proof (cases "n < unat (4 + v * 12) \<or> v > 16")
      case True
      then show ?thesis using False v ok by (auto simp: gcc_read_client_network_data_def and_also_def check_def get32_def intro!: exI [of _ 4])
    next
      case c: False
      have v16: "unat v \<le> 16" using c by (simp add: word_le_nat_alt not_less)
      then have "unat (4 + v * 12) = 4 + unat v * 12" by (simp add: unat_word_ariths)
      then have n: "4 + 12 * unat v \<le> n" using c by simp
      have "gcc_ok ?m \<and> 0 + unat v \<le> length (channels ?m)" using ok v16 by (simp add: gcc_ok_def)
      moreover have "Stream_wf (Stream_Seek s 4)" "12 * unat v \<le> length (ahead (Stream_Seek s 4))" using m 4 n by (auto intro: Stream_wf_Seek)
      ultimately obtain b m' j where
        "gcc_read_channels 0 (unat v) ?m (Stream_Seek s 4) = Some ((b, m'), Stream_Seek (Stream_Seek s 4) j)" "j \<le> 12 * unat v" "gcc_ok m' \<and> 0 + unat v \<le> length (channels m')"
        by (rule block_safeE [OF block_read_channels])
      then show ?thesis using False c v n by (auto simp: gcc_read_client_network_data_def and_also_def check_def get32_def assign_def intro!: exI [of _ "4 + j"])
    qed
  qed
qed


lemma block_client_cluster: "block_safe gcc_ok n (gcc_read_client_cluster_data n)"
  unfolding gcc_read_client_cluster_data_def
proof (rule block_guard, rule block_safeI)
  fix m s assume n: "\<not> n < 8" and m: "gcc_ok m" "Stream_wf s" "n \<le> length (ahead s)"
  have wf: "Stream_wf (Stream_Seek s 4)" "Stream_wf (Stream_Seek s 8)" using n m by (auto intro: Stream_wf_Seek)
  obtain v w where "Stream_Read_UINT32 s = Some (v, Stream_Seek s 4)" "Stream_Read_UINT32 (Stream_Seek s 4) = Some (w, Stream_Seek s 8)"
    using read_32 [OF m(2)] read_32 [OF wf(1)] m(3) n by force
  then show "\<exists>b m' j. (do {
        (flags, s) \<leftarrow> Stream_Read_UINT32 s;
        (redirectedSessionId, s) \<leftarrow> Stream_Read_UINT32 s;
        let mcs = (if flags AND 2 \<noteq> 0 then set_settings (\<lambda>st. st\<lparr>RedirectedSessionId := redirectedSessionId\<rparr>) m else m);
        Some ((True, mcs), if n \<noteq> 8 \<and> Stream_GetRemainingLength s \<ge> n - 8 then Stream_Seek s (n - 8) else s) }) =
      Some ((b, m'), Stream_Seek s j) \<and> j \<le> n \<and> gcc_ok m'"
    using n m(1) by (auto simp: gcc_ok_def set_settings_def)
qed

text \<open>Five numbers, and an element of the array of monitors.\<close>

lemma read_five:
  assumes "Stream_wf s" "20 \<le> length (ahead s)"
  shows "\<exists>a b c d e. Stream_Read_UINT32 s = Some (a, Stream_Seek s 4) \<and> Stream_Read_UINT32 (Stream_Seek s 4) = Some (b, Stream_Seek s 8) \<and>
    Stream_Read_UINT32 (Stream_Seek s 8) = Some (c, Stream_Seek s 12) \<and> Stream_Read_UINT32 (Stream_Seek s 12) = Some (d, Stream_Seek s 16) \<and>
    Stream_Read_UINT32 (Stream_Seek s 16) = Some (e, Stream_Seek s 20)"
proof -
  have wf: "k \<le> 20 \<Longrightarrow> Stream_wf (Stream_Seek s k)" for k using assms by (auto intro: Stream_wf_Seek)
  have "k + 4 \<le> 20 \<Longrightarrow> \<exists>v. Stream_Read_UINT32 (Stream_Seek s k) = Some (v, Stream_Seek s (k + 4))" for k
    using read_32 [OF wf, of k] assms(2) by auto
  from this [of 0] this [of 4] this [of 8] this [of 12] this [of 16] show ?thesis by auto
qed

definition mon_ok :: "nat \<Rightarrow> gccMcs \<Rightarrow> bool" where
  "mon_ok k m \<longleftrightarrow> gcc_ok m \<and> k \<le> length (MonitorDefArray (settings m))"

lemma mon_ok_update:
  "mon_ok k m \<Longrightarrow> i < length (MonitorDefArray (settings m)) \<Longrightarrow>
    mon_ok k (set_settings (\<lambda>st. st\<lparr>MonitorDefArray := (MonitorDefArray (settings m))[i := x]\<rparr>) m)"
  by (simp add: mon_ok_def gcc_ok_def set_settings_def)

lemma block_monitor_loop: "i + k = l \<Longrightarrow> block_safe (mon_ok l) (20 * k) (gcc_read_monitor_loop upd i k)"
proof (induction k arbitrary: i)
  case 0
  then show ?case by (auto simp: block_safe_def intro!: exI [of _ 0])
next
  case (Suc k)
  show ?case
  proof (rule block_safeI)
    fix m s assume m: "mon_ok l m" "Stream_wf s" "20 * Suc k \<le> length (ahead s)"
    then have i: "i < length (MonitorDefArray (settings m))" and wf: "Stream_wf (Stream_Seek s 20)"
      using Suc.prems by (auto simp: mon_ok_def intro: Stream_wf_Seek)
    from read_five [OF m(2)] m(3) obtain a b c d e where
      r: "Stream_Read_UINT32 s = Some (a, Stream_Seek s 4)" "Stream_Read_UINT32 (Stream_Seek s 4) = Some (b, Stream_Seek s 8)"
        "Stream_Read_UINT32 (Stream_Seek s 8) = Some (c, Stream_Seek s 12)" "Stream_Read_UINT32 (Stream_Seek s 12) = Some (d, Stream_Seek s 16)"
        "Stream_Read_UINT32 (Stream_Seek s 16) = Some (e, Stream_Seek s 20)" by auto
    from block_safeD [OF Suc.IH mon_ok_update [OF m(1) i] wf] m(3) Suc.prems
    show "\<exists>b m' j. gcc_read_monitor_loop upd i (Suc k) m s = Some ((b, m'), Stream_Seek s j) \<and> j \<le> 20 * Suc k \<and> mon_ok l m'"
      using i by (fastforce simp: r update_at_Some)
  qed
qed

lemma block_client_monitor: "block_safe gcc_ok n (gcc_read_client_monitor_data n)"
  unfolding gcc_read_client_monitor_data_def
proof (rule block_guard, rule block_safeI)
  fix m s assume n: "\<not> n < 8" and m: "gcc_ok m" "Stream_wf s" "n \<le> length (ahead s)"
  have wf: "Stream_wf (Stream_Seek s 4)" "Stream_wf (Stream_Seek s 8)" using n m by (auto intro: Stream_wf_Seek)
  obtain v w where r: "Stream_Read_UINT32 s = Some (v, Stream_Seek s 4)" "Stream_Read_UINT32 (Stream_Seek s 4) = Some (w, Stream_Seek s 8)"
    using read_32 [OF m(2)] read_32 [OF wf(1)] m(3) n by force
  define c where "c = (if w > MonitorDefArraySize (settings m) then MonitorDefArraySize (settings m) else w)"
  have "unat c \<le> unat (MonitorDefArraySize (settings m))" by (auto simp: c_def word_le_nat_alt not_less)
  then have ok: "mon_ok (unat c) (set_settings (\<lambda>st. st\<lparr>MonitorCount := sint c\<rparr>) m)"
    using m(1) by (auto simp: mon_ok_def gcc_ok_def set_settings_def)
  let ?r = "if (n - 8) div 20 < unat c then Some ((False, m), Stream_Seek s 8)
    else gcc_read_monitor_loop gcc_monitor_def 0 (unat c) (set_settings (\<lambda>st. st\<lparr>MonitorCount := sint c\<rparr>) m) (Stream_Seek s 8)"
  have "\<exists>b m' j. ?r = Some ((b, m'), Stream_Seek s j) \<and> j \<le> n \<and> gcc_ok m'"
  proof (cases "(n - 8) div 20 < unat c")
    case True
    then show ?thesis using m(1) n by auto
  next
    case False
    then have "20 * unat c \<le> n - 8" by (simp add: less_eq_div_iff_mult_less_eq not_less)
    moreover from this have "20 * unat c \<le> length (ahead (Stream_Seek s 8))" using m(3) by simp
    ultimately show ?thesis using block_safeD [OF block_monitor_loop [of 0] ok wf(2)] False n by (fastforce simp: mon_ok_def)
  qed
  then show "\<exists>b m' j. (do {
        (flags, s) \<leftarrow> Stream_Read_UINT32 s;
        (monitorCount, s) \<leftarrow> Stream_Read_UINT32 s;
        let monitorCount = (if monitorCount > MonitorDefArraySize (settings m) then MonitorDefArraySize (settings m) else monitorCount);
        (if (n - 8) div 20 < unat monitorCount then Some ((False, m), s)
         else gcc_read_monitor_loop gcc_monitor_def 0 (unat monitorCount) (set_settings (\<lambda>st. st\<lparr>MonitorCount := sint monitorCount\<rparr>) m) s) }) =
      Some ((b, m'), Stream_Seek s j) \<and> j \<le> n \<and> gcc_ok m'"
    by (simp only: r Let_def bind.bind_lunit prod.case c_def)
qed


lemma block_client_monitor_extended: "block_safe gcc_ok n (gcc_read_client_monitor_extended_data n)"
  unfolding gcc_read_client_monitor_extended_data_def
proof (rule block_guard, rule block_safeI)
  fix m s assume n: "\<not> n < 12" and m: "gcc_ok m" "Stream_wf s" "n \<le> length (ahead s)"
  have wf: "Stream_wf (Stream_Seek s 4)" "Stream_wf (Stream_Seek s 8)" "Stream_wf (Stream_Seek s 12)" using n m by (auto intro: Stream_wf_Seek)
  obtain v a c where r: "Stream_Read_UINT32 s = Some (v, Stream_Seek s 4)" "Stream_Read_UINT32 (Stream_Seek s 4) = Some (a, Stream_Seek s 8)"
      "Stream_Read_UINT32 (Stream_Seek s 8) = Some (c, Stream_Seek s 12)"
    using read_32 [OF m(2)] read_32 [OF wf(1)] read_32 [OF wf(2)] m(3) n by force
  let ?m = "set_settings (\<lambda>st. st\<lparr>HasMonitorAttributes := True\<rparr>) m"
  let ?r = "if a \<noteq> 20 then Some ((False, m), Stream_Seek s 12)
    else if (n - 12) div unat a < unat c then Some ((False, m), Stream_Seek s 12)
    else if word_of_int (MonitorCount (settings m)) \<noteq> c then Some ((False, m), Stream_Seek s 12)
    else gcc_read_monitor_loop gcc_monitor_attributes 0 (unat c) ?m (Stream_Seek s 12)"
  have "\<exists>b m' j. ?r = Some ((b, m'), Stream_Seek s j) \<and> j \<le> n \<and> gcc_ok m'"
  proof (cases "a \<noteq> 20 \<or> (n - 12) div unat a < unat c \<or> word_of_int (MonitorCount (settings m)) \<noteq> c")
    case True
    then show ?thesis using m(1) n by auto
  next
    case False
    then have "20 * unat c \<le> n - 12" by (simp add: less_eq_div_iff_mult_less_eq not_less)
    moreover from this have a: "20 * unat c \<le> length (ahead (Stream_Seek s 12))" using m(3) by simp
    moreover have ok: "mon_ok (unat c) ?m" using m(1) False by (auto simp: mon_ok_def gcc_ok_def set_settings_def)
    obtain b m' j where "gcc_read_monitor_loop gcc_monitor_attributes 0 (unat c) ?m (Stream_Seek s 12) = Some ((b, m'), Stream_Seek s (12 + j))"
        "j \<le> 20 * unat c" "gcc_ok m'"
      using block_safeD [OF block_monitor_loop [of 0] ok wf(3) a, of gcc_monitor_attributes] by (auto simp: mon_ok_def)
    ultimately show ?thesis using False n by (intro exI [of _ b] exI [of _ m'] exI [of _ "12 + j"]) auto
  qed
  then show "\<exists>b m' j. (do {
        (flags, s) \<leftarrow> Stream_Read_UINT32 s;
        (monitorAttributeSize, s) \<leftarrow> Stream_Read_UINT32 s;
        (monitorCount, s) \<leftarrow> Stream_Read_UINT32 s;
        (if monitorAttributeSize \<noteq> 20 then Some ((False, m), s)
         else if (n - 12) div unat monitorAttributeSize < unat monitorCount then Some ((False, m), s)
         else if word_of_int (MonitorCount (settings m)) \<noteq> monitorCount then Some ((False, m), s)
         else gcc_read_monitor_loop gcc_monitor_attributes 0 (unat monitorCount) ?m s) }) =
      Some ((b, m'), Stream_Seek s j) \<and> j \<le> n \<and> gcc_ok m'"
    by (simp only: r bind.bind_lunit prod.case)
qed

lemma block_guard_steps: "(\<not> b \<Longrightarrow> block_safe I n (steps fs)) \<Longrightarrow> block_safe I n (steps (check (\<lambda>_. \<not> b) # fs))"
  unfolding steps.simps by (rule block_guard)

lemma block_get32_guarded:
  assumes "\<And>v m. gcc_ok m \<Longrightarrow> gcc_ok (upd v m)"
  shows "block_safe gcc_ok n (steps [check (\<lambda>_. \<not> n < 4), get32 upd])"
proof (rule block_guard_steps)
  assume "\<not> n < 4"
  moreover have "block_safe gcc_ok (4 + 0) (steps [get32 upd])" by (intro block_intros assms)
  ultimately show "block_safe gcc_ok n (steps [get32 upd])" by (auto elim!: block_safe_mono)
qed

lemma block_client_channels:
  "block_safe gcc_ok n (gcc_read_client_message_channel_data n)" "block_safe gcc_ok n (gcc_read_client_multitransport_channel_data n)"
  unfolding gcc_read_client_message_channel_data_def gcc_read_client_multitransport_channel_data_def
  by (rule block_get32_guarded, simp add: gcc_ok_def)+

lemma block_client: "block_safe gcc_ok n (gcc_read_client_block ca type n)"
  by (simp add: gcc_read_client_block_def block_client_core block_client_security block_client_network block_client_cluster block_client_monitor
      block_client_monitor_extended block_client_channels block_skip)

subsection \<open>The loop over the client blocks\<close>

text \<open>A header is accepted only when the block, with a length of at least four, lies inside the stream.\<close>

lemma gcc_header_cases:
  assumes "Stream_wf s"
  shows "\<exists>r m. gcc_read_user_data_header s = Some (r, Stream_Seek s m) \<and> m \<le> length (ahead s) \<and>
    (\<forall>type len. r = Some (type, len) \<longrightarrow> m = 4 \<and> 4 \<le> unat len \<and> unat len \<le> length (ahead s))"
proof (cases "length (ahead s) < 4")
  case True
  then show ?thesis using assms by (auto simp: gcc_read_user_data_header_def Remaining_ahead intro!: exI [of _ 0])
next
  case False
  have wf: "Stream_wf (Stream_Seek s 2)" "Stream_wf (Stream_Seek s 4)" using assms False by (auto intro: Stream_wf_Seek)
  obtain t where t: "Stream_Read_UINT16 s = Some (t, Stream_Seek s 2)" using assms False by (auto simp: Stream_Read_UINT16_def mem_read_ahead)
  obtain l where l: "Stream_Read_UINT16 (Stream_Seek s 2) = Some (l, Stream_Seek s 4)"
    using mem_read_ahead [OF wf(1), of 2] False by (auto simp: Stream_Read_UINT16_def)
  have rem: "Stream_GetRemainingLength (Stream_Seek s 4) = length (ahead s) - 4" using wf(2) by (simp add: Remaining_ahead)
  have small: "length (ahead s) < 2 ^ 31" by (rule ahead_bound [OF assms])
  show ?thesis
  proof (cases "uint l < 4")
    case True
    then have "size_of_int (uint l - 4) \<ge> 2 ^ 63" by (intro size_of_int_neg) (simp_all add: order.trans [OF _ uint_ge_0])
    then have "length (ahead s) - 4 < size_of_int (uint l - 4)" using small by simp
    then show ?thesis using False assms t l rem by (auto simp: gcc_read_user_data_header_def Remaining_ahead intro!: exI [of _ 4])
  next
    case l4: False
    have "uint l < 2 ^ 16" using uint_lt2p [of l] by simp
    then have "size_of_int (uint l - 4) = unat l - 4" using l4 by (simp add: nat_diff_distrib)
    moreover have "4 \<le> unat l" using l4 uint_nat [of l] by linarith
    ultimately show ?thesis using False assms t l rem by (auto simp: gcc_read_user_data_header_def Remaining_ahead intro!: exI [of _ 4])
  qed
qed

lemma SetPosition_Seek: "Stream_SetPosition (Stream_Seek s m) (s_pointer s + k) = Stream_Seek s k"
  by (simp add: Stream_SetPosition_def Stream_Seek_def)

lemma gcc_client_blocks_safe:
  assumes "gcc_ok mcs" "Stream_wf s"
  shows "\<exists>b mcs' m. gcc_read_client_data_blocks ca len mcs s = Some ((b, mcs'), Stream_Seek s m) \<and> m \<le> length (ahead s) \<and> gcc_ok mcs'"
  using assms
proof (induction "length (ahead s)" arbitrary: ca len mcs s rule: less_induct)
  case less
  show ?case
  proof (cases "len > 0")
    case False
    then show ?thesis using less.prems by (subst gcc_read_client_data_blocks.simps) (auto intro!: exI [of _ 0])
  next
    case True
    from gcc_header_cases [OF less.prems(2)] obtain r m where
      h: "gcc_read_user_data_header s = Some (r, Stream_Seek s m)" "m \<le> length (ahead s)"
        "\<forall>type len. r = Some (type, len) \<longrightarrow> m = 4 \<and> 4 \<le> unat len \<and> unat len \<le> length (ahead s)" by blast
    show ?thesis
    proof (cases r)
      case None
      then show ?thesis using True h(1,2) less.prems by (subst gcc_read_client_data_blocks.simps) auto
    next
      case (Some tl)
      obtain type l where r: "r = Some (type, l)" using Some by (cases tl) auto
      then have l: "m = 4" "4 \<le> unat l" "unat l \<le> length (ahead s)" using h(3) by auto
      have u4: "unat (l - 4) = unat l - 4" using l(2) by (simp add: unat_sub word_le_nat_alt)
      have "uint l < 2 ^ 16" using uint_lt2p [of l] by simp
      moreover have "4 \<le> uint l" using l(2) uint_nat [of l] by linarith
      ultimately have sz: "size_of_int (uint l - 4) = unat l - 4" by (simp add: nat_diff_distrib)
      have wf: "Stream_wf (Stream_Seek s 4)" "Stream_wf (Stream_Seek s (unat l))" using less.prems(2) l by (auto intro: Stream_wf_Seek)
      have "unat l - 4 \<le> length (ahead (Stream_Seek s 4))" using l by simp
      from block_safeD [OF block_client less.prems(1) wf(1) this, of ca type] obtain b mcs1 j where
        b: "gcc_read_client_block ca type (unat l - 4) mcs (Stream_Seek s 4) = Some ((b, mcs1), Stream_Seek s (4 + j))" "j \<le> unat l - 4" "gcc_ok mcs1" by auto
      have guard: "\<not> Stream_GetRemainingLength (Stream_Seek s 4) < unat l - 4" using wf(1) l by (simp add: Remaining_ahead)
      show ?thesis
      proof (cases b)
        case False
        then show ?thesis using True h(1) r l b guard
          by (subst gcc_read_client_data_blocks.simps) (auto simp: u4 sz intro!: exI [of _ "4 + j"])
      next
        case b': True
        have "length (ahead (Stream_Seek s (unat l))) < length (ahead s)" using l by simp
        from less.hyps [OF this b(3) wf(2), of "\<lambda>i. ca (i + 2)" "len - uint l"] obtain c mcs2 k where
          "gcc_read_client_data_blocks (\<lambda>i. ca (i + 2)) (len - uint l) mcs1 (Stream_Seek s (unat l)) = Some ((c, mcs2), Stream_Seek s (unat l + k))"
          "k \<le> length (ahead s) - unat l" "gcc_ok mcs2" by auto
        then show ?thesis using True h(1) r l b b' guard
          by (subst gcc_read_client_data_blocks.simps)
            (auto simp: u4 sz Stream_GetPosition_def SetPosition_Seek intro!: exI [of _ "unat l + k"])
      qed
    qed
  qed
qed


subsection \<open>The request of a client\<close>

lemma step_safeD:
  "step_safe I n f \<Longrightarrow> I st \<Longrightarrow> Stream_wf s \<Longrightarrow> n \<le> length (ahead s) \<Longrightarrow>
    \<exists>b st' m. f st s = Some ((b, st'), Stream_Seek s m) \<and> m \<le> length (ahead s) \<and> I st'"
  by (auto simp: step_safe_def)

lemma step_and_also:
  assumes "step_safe I n f" "step_safe I 0 g"
  shows "step_safe I n (and_also f g)"
  unfolding step_safe_def
proof (intro allI impI)
  fix st s assume st: "I st" "Stream_wf s" "n \<le> length (ahead s)"
  from step_safeD [OF assms(1) st] obtain b st1 k where 1: "f st s = Some ((b, st1), Stream_Seek s k)" "k \<le> length (ahead s)" "I st1" by blast
  have "Stream_wf (Stream_Seek s k)" using st(2) 1(2) by (rule Stream_wf_Seek)
  from step_safeD [OF assms(2) 1(3) this] obtain c st2 j where
    "g st1 (Stream_Seek s k) = Some ((c, st2), Stream_Seek s (k + j))" "j \<le> length (ahead s) - k" "I st2" by auto
  then show "\<exists>b st' m. and_also f g st s = Some ((b, st'), Stream_Seek s m) \<and> m \<le> length (ahead s) \<and> I st'"
    using 1 by (cases b) (auto simp: and_also_def intro: exI [of _ "k + j"] exI [of _ k])
qed

lemma step_reader:
  assumes "reader_safe n rd"
  shows "step_safe I n (expect rd P)" "(\<And>v st. I st \<Longrightarrow> I (upd v st)) \<Longrightarrow> step_safe I n (read_into rd upd)"
  unfolding step_safe_def expect_def read_into_def
  by (intro allI impI, erule (1) reader_safeE [OF assms], fastforce split: option.split)+

lemma step_steps: "step_safe I 0 (steps [])" "step_safe I n f \<Longrightarrow> step_safe I 0 (steps fs) \<Longrightarrow> step_safe I n (steps (f # fs))"
  by (rule block_safe_step [OF block_steps(1)], simp) (simp add: step_and_also)

lemma step_on_field:
  assumes "\<And>d. reader_safe n (f d)" "\<And>d st. I st \<Longrightarrow> I (upd d st)"
  shows "step_safe I n (on_field get upd f)"
  unfolding step_safe_def on_field_def
  using reader_safeE [OF assms(1)] assms(2) by (metis (no_types, lifting) bind.bind_lunit case_prod_conv)

lemma gcc_request_step: "step_safe gcc_ok 0 (gcc_read_conference_create_request ca)"
proof -
  let ?last = "\<lambda>mcs s. do {
       (r, s) \<leftarrow> per_read_length s;
       (case r of
          None \<Rightarrow> Some ((False, mcs), s)
        | Some len \<Rightarrow>
            if Stream_GetRemainingLength s < unat len then Some ((False, mcs), s)
            else gcc_read_client_data_blocks ca (uint len) mcs s) }"
  have last: "step_safe gcc_ok 0 ?last"
    unfolding step_safe_def
  proof (intro allI impI)
    fix mcs s assume m: "gcc_ok mcs" "Stream_wf s" "0 \<le> length (ahead s)"
    from reader_safeE [OF safe_per_read_length m(2,3)] obtain r k where
      r: "per_read_length s = Some (r, Stream_Seek s k)" "k \<le> length (ahead s)" "Stream_wf (Stream_Seek s k)" .
    show "\<exists>b mcs' m. ?last mcs s = Some ((b, mcs'), Stream_Seek s m) \<and> m \<le> length (ahead s) \<and> gcc_ok mcs'"
    proof (cases r)
      case None
      then show ?thesis using r m by auto
    next
      case (Some len)
      from gcc_client_blocks_safe [OF m(1) r(3), of ca "uint len"] obtain b mcs' j where
        "gcc_read_client_data_blocks ca (uint len) mcs (Stream_Seek s k) = Some ((b, mcs'), Stream_Seek s (k + j))" "j \<le> length (ahead s) - k" "gcc_ok mcs'"
        by auto
      then show ?thesis using r m Some by (cases "Stream_GetRemainingLength (Stream_Seek s k) < unat len") (auto intro: exI [of _ "k + j"])
    qed
  qed
  show ?thesis unfolding gcc_read_conference_create_request_def
    by (intro step_steps step_reader last safe_intros) (simp_all add: h221_cs_key_def)
qed

subsection \<open>A sample\<close>

text \<open>Settings with the values of \<open>freerdp_settings_new\<close>, for concrete inputs of the properties.\<close>

definition settings_sample :: "bool \<Rightarrow> byte list \<Rightarrow> rdpSettings" where
  "settings_sample server host = \<lparr>ChannelCount = 0, ChannelDefArray = replicate 32 (replicate 8 0, 0),
     ServerMode = server, RdpVersion = 7, DesktopWidth = 1024, DesktopHeight = 768, ColorDepth = 16, ConnectionType = 6, ClientBuild = 2600,
     ClientHostname = Some host, ClientProductId = Some (replicate 32 0), EarlyCapabilityFlags = 0, NetworkAutoDetect = False,
     SupportErrorInfoPdu = False, SupportMonitorLayoutPdu = False, SupportGraphicsPipeline = False, SupportDynamicTimeZone = False, SupportHeartbeatPdu = False,
     DesktopPhysicalWidth = 0, DesktopPhysicalHeight = 0, DesktopOrientation = 0, DesktopScaleFactor = 0, DeviceScaleFactor = 0,
     UseRdpSecurityLayer = False, EncryptionMethods = 0, EncryptionLevel = 0, ServerRandom = None, ServerRandomLength = 0, ServerCertificate = None,
     ServerCertificateLength = 0, RedirectedSessionId = 0, ConsoleSession = False, MonitorCount = 0, MonitorDefArraySize = 32,
     MonitorDefArray = replicate 32 \<lparr>mon_x = 0, mon_y = 0, mon_width = 0, mon_height = 0, is_primary = 0,
       attributes = \<lparr>physicalWidth = 0, physicalHeight = 0, orientation = 0, desktopScaleFactor = 0, deviceScaleFactor = 0\<rparr>\<rparr>,
     SpanMonitors = False, UseMultimon = False, ForceMultimon = False, HasMonitorAttributes = False, MultitransportFlags = 0, SupportMultitransport = False,
     RequestedProtocols = 0, SelectedProtocol = 0, NegotiationFlags = 0, RdpServerRsaKey = None,
     KeyboardLayout = 0, KeyboardType = 4, KeyboardSubType = 0, KeyboardFunctionKey = 12, RemoteFxCodec = False\<rparr>"

definition gcc_mcs :: "rdpSettings \<Rightarrow> gccMcs" where
  "gcc_mcs st = rdpMcs.extend mcs_default (gccMcs.fields st)"

definition stream_of :: "byte list \<Rightarrow> wStream" where
  "stream_of bs = \<lparr>s_buffer = bs, s_pointer = 0, s_length = length bs, s_capacity = length bs, s_count = 0, s_pool = None\<rparr>"

lemma stream_of: "length bs < 2 ^ 31 \<Longrightarrow> Stream_wf (stream_of bs)" "ahead (stream_of bs) = bs"
  by (simp_all add: stream_of_def Stream_wf_def ahead_def)

lemmas gcc_mcs_simps = gcc_mcs_def gccMcs.defs rdpMcs.defs mcs_default_def mcs_new_def settings_sample_def

subsection \<open>Properties of the readers\<close>

text \<open>
  The server reading Connect-Initial (C8): whatever bytes arrive, \<open>mcs_recv_connect_initial\<close> with all the data blocks
  of the client's GCC request returns, touches no memory outside the stream, the array of channels and the array of monitors, and
  keeps these arrays as they are allocated.
\<close>

theorem gcc_connect_initial_safe:
  assumes "gcc_ok mcs" "Stream_wf s" "4 \<le> length (ahead s)"
  shows "\<exists>b mcs' m. mcs_recv_connect_initial (gcc_read_conference_create_request ca) mcs s = Some ((b, mcs'), Stream_Seek s m) \<and>
    m \<le> length (ahead s) \<and> gcc_ok mcs'"
proof -
  have "step_safe gcc_ok 0 (and_also (read_into tpdu_read_data (\<lambda>_ m. m))
     (and_also (read_into (ber_read_application_tag MCS_TYPE_CONNECT_INITIAL) (\<lambda>_ m. m))
       (mcs_recv_connect_initial_fields (gcc_read_conference_create_request ca))))"
    unfolding mcs_recv_connect_initial_fields_def
    by (intro step_and_also step_reader(2) step_on_field gcc_request_step safe_intros)
      (auto simp: gcc_ok_def step_safe_def split_def Let_def intro!: exI [of _ 0])
  note step = step_safeD [OF this assms(1)]
  from reader_safeE [OF safe_tpkt_read_header assms(2,3)] obtain r k where
    k: "tpkt_read_header s = Some (r, Stream_Seek s k)" "k \<le> length (ahead s)" "Stream_wf (Stream_Seek s k)" .
  from step [OF k(3)] k show ?thesis by (fastforce simp: mcs_recv_connect_initial_def)
qed

theorem gcc_connect_initial_safe_witness:
  "\<exists>b mcs' m. mcs_recv_connect_initial (gcc_read_conference_create_request (\<lambda>_. True)) (gcc_mcs (settings_sample True [0])) (stream_of [3, 0, 0, 4]) =
      Some ((b, mcs'), Stream_Seek (stream_of [3, 0, 0, 4]) m) \<and> m \<le> 4 \<and> gcc_ok mcs'"
proof -
  have "gcc_ok (gcc_mcs (settings_sample True [0]))" by (simp add: gcc_ok_def gcc_mcs_simps)
  moreover have "Stream_wf (stream_of [3, 0, 0, 4])" by (rule stream_of) simp
  moreover have len: "length (ahead (stream_of [3, 0, 0, 4])) = 4" by (simp add: stream_of)
  ultimately show ?thesis using gcc_connect_initial_safe [where s = "stream_of [3, 0, 0, 4]" and ca = "\<lambda>_. True"] unfolding len by blast
qed


subsection \<open>The security data of a server\<close>

lemma Stream_Read_ahead: "Stream_wf s \<Longrightarrow> n \<le> length (ahead s) \<Longrightarrow> Stream_Read s n = Some (take n (ahead s), Stream_Seek s n)"
  by (simp add: Stream_Read_def mem_read_ahead)

lemma Stream_Read_behind:
  assumes "Stream_wf s" "2 ^ 31 \<le> n"
  shows "Stream_Read s n = None"
  using assms by (auto simp: Stream_Read_def mem_read_def Stream_wf_def)

lemma unat_u32_less: "unat (v :: u32) < 4294967296"
  using unsigned_less [of v, where ?'a = nat] by simp

lemma unat_add_cases: "unat (a + b :: u32) = (if unat a + unat b < 2 ^ 32 then unat a + unat b else unat a + unat b - 2 ^ 32)"
  using unat_u32_less [of a] unat_u32_less [of b] by (auto simp: unat_word_ariths not_less mod_if)

text \<open>
  The two blocks behind the lengths are read to the end of the stream or to a fault.
\<close>

lemma gcc_read_blocks_fault:
  assumes "Stream_wf s" "\<forall>i n. malloc i n \<noteq> None" "\<not> length (ahead s) < unat (rlen + clen)" "rlen \<noteq> 0" "clen \<noteq> 0"
  shows "and_also (gcc_read_block (malloc 0) rlen (\<lambda>bs. set_settings (\<lambda>st. st\<lparr>ServerRandom := Some bs\<rparr>)))
      (and_also (gcc_read_block (malloc 1) clen (\<lambda>bs. set_settings (\<lambda>st. st\<lparr>ServerCertificate := Some bs\<rparr>)))
        (\<lambda>mcs s. do { data \<leftarrow> ServerCertificate (settings mcs); Some ((cert data, mcs), s) })) mcs s = None \<longleftrightarrow>
    2 ^ 32 \<le> unat rlen + unat clen"
proof -
  obtain b0 where 0: "malloc 0 (unat rlen) = Some b0" using assms(2) by blast
  obtain b1 where 1: "malloc 1 (unat clen) = Some b1" using assms(2) by blast
  show ?thesis
  proof (cases "unat rlen + unat clen < 2 ^ 32")
    case True
    then have "unat rlen + unat clen \<le> length (ahead s)" using assms(3) by (simp add: unat_add_cases)
    moreover from this have "Stream_wf (Stream_Seek s (unat rlen))" using assms(1) by (auto intro: Stream_wf_Seek)
    ultimately show ?thesis using True 0 1 assms(1) by (auto simp: and_also_def gcc_read_block_def Stream_Read_ahead set_settings_def)
  next
    case False
    show ?thesis
    proof (cases "Stream_Read s (unat rlen)")
      case None
      then show ?thesis using False 0 by (simp add: and_also_def gcc_read_block_def)
    next
      case (Some p)
      have "unat rlen < 2 ^ 31" using Stream_Read_behind [OF assms(1), of "unat rlen"] Some by (auto simp: not_le [symmetric])
      then have c: "2 ^ 31 \<le> unat clen" using False by simp
      obtain bs where p: "p = (bs, Stream_Seek s (unat rlen))" using Some by (auto simp: Stream_Read_def bind_eq_Some_conv)
      have "Stream_Read (Stream_Seek s (unat rlen)) (unat clen) = None"
        using c assms(1) by (auto simp: Stream_Read_def mem_read_def Stream_wf_def)
      then show ?thesis using False 0 1 Some p by (simp add: and_also_def gcc_read_block_def set_settings_def)
    qed
  qed
qed

text \<open>
  The client reading the security data of a server (C22): once method and level are accepted, it reads outside the
  stream exactly when the lengths of random number and certificate add up to \<open>2 ^ 32\<close> or more and their sum
  modulo \<open>2 ^ 32\<close>, which is what the code compares, does not exceed the bytes received.
\<close>

theorem gcc_server_security_fault:
  assumes "Stream_wf s" "ahead s = le_bytes32 method @ le_bytes32 level @ le_bytes32 rlen @ le_bytes32 clen @ rest"
    and "gcc_known_method method" "gcc_valid_crypto_config level method" "level \<noteq> 0" "\<forall>i n. malloc i n \<noteq> None"
  shows "gcc_read_server_security_data malloc cert mcs s = None \<longleftrightarrow>
    2 ^ 32 \<le> unat rlen + unat clen \<and> unat (rlen + clen) \<le> length rest"
proof -
  have wf: "k \<le> 16 \<Longrightarrow> Stream_wf (Stream_Seek s k)" for k using assms(1,2) by (intro Stream_wf_Seek) auto
  have r: "Stream_Read_UINT32 s = Some (method, Stream_Seek s 4)" "Stream_Read_UINT32 (Stream_Seek s 4) = Some (level, Stream_Seek s 8)"
      "Stream_Read_UINT32 (Stream_Seek s 8) = Some (rlen, Stream_Seek s 12)" "Stream_Read_UINT32 (Stream_Seek s 12) = Some (clen, Stream_Seek s 16)"
    using Read_UINT32_enc [OF assms(1), of "method"] Read_UINT32_enc [OF wf [of 4], of level] Read_UINT32_enc [OF wf [of 8], of rlen]
      Read_UINT32_enc [OF wf [of 12], of clen] assms(2) by simp_all
  have rem: "Stream_GetRemainingLength s = 16 + length rest" "Stream_GetRemainingLength (Stream_Seek s 8) = 8 + length rest"
      "Stream_GetRemainingLength (Stream_Seek s 16) = length rest"
    using assms(1,2) wf by (simp_all add: Remaining_ahead)
  let ?b = "length rest < unat (rlen + clen) \<or> rlen = 0 \<or> clen = 0"
  show ?thesis
  proof (cases ?b)
    case True
    then have "\<not> (2 ^ 32 \<le> unat rlen + unat clen \<and> unat (rlen + clen) \<le> length rest)" using unat_u32_less [of rlen] unat_u32_less [of clen] by auto
    then show ?thesis using True r rem assms(3-5) by (auto simp: gcc_read_server_security_data_def Let_def)
  next
    case False
    have a: "length (ahead (Stream_Seek s 16)) = length rest" using assms(2) by simp
    show ?thesis using False r rem assms(3-5) gcc_read_blocks_fault [OF wf [of 16] assms(6), of rlen clen] a
      by (simp add: gcc_read_server_security_data_def Let_def not_less)
  qed
qed

theorem gcc_server_security_fault_witness:
  "gcc_read_server_security_data (\<lambda>i n. Some []) (\<lambda>_. True) (gcc_mcs (settings_sample False [0]))
     (stream_of (le_bytes32 2 @ le_bytes32 3 @ le_bytes32 0xFFFFFFF0 @ le_bytes32 0x10 @ [])) = None"
proof -
  let ?b = "le_bytes32 2 @ le_bytes32 3 @ le_bytes32 0xFFFFFFF0 @ le_bytes32 0x10 @ []"
  have "Stream_wf (stream_of ?b)" by (rule stream_of) simp
  from gcc_server_security_fault [OF this stream_of(2), of "\<lambda>i n. Some []" "\<lambda>_. True" "gcc_mcs (settings_sample False [0])"]
  show ?thesis by (simp add: gcc_known_method_def gcc_valid_crypto_config_def)
qed

end
