(* ===== verification/CapsSafe.thy ===== *)
theory CapsSafe
  imports Caps GccSafe
begin

text \<open>
  How far the readers of \<open>capabilities.c\<close> reach: on arbitrary input, the client reads at most three bytes behind the end of the stream,
  and the server at most \<open>524313\<close> bytes. A peer can make either side read outside its buffer.
\<close>

unbundle bit_operations_syntax

subsection \<open>Reach\<close>

text \<open>
  \<open>within I n k f\<close>: with room for \<open>n + k\<close> bytes in the buffer, \<open>f\<close> returns and has moved the pointer forward by at most so much, and by
  at most \<open>n\<close> if it was successful; it keeps the invariant \<open>I\<close>.
\<close>

definition within :: "('st \<Rightarrow> bool) \<Rightarrow> nat \<Rightarrow> nat \<Rightarrow> 'st step \<Rightarrow> bool" where
  "within I n k f \<longleftrightarrow> (\<forall>st s. I st \<longrightarrow> Stream_room s (n + k) \<longrightarrow> length (s_buffer s) < 2 ^ 31 \<longrightarrow>
     (\<exists>b st' m. f st s = Some ((b, st'), Stream_Seek s m) \<and> m \<le> n + k \<and> (b \<longrightarrow> m \<le> n) \<and> I st'))"

named_theorems within_intros \<open>rules that establish \<open>within\<close>\<close>

lemma withinI:
  assumes "\<And>st s. I st \<Longrightarrow> Stream_room s (n + k) \<Longrightarrow> length (s_buffer s) < 2 ^ 31 \<Longrightarrow>
    \<exists>b st' m. f st s = Some ((b, st'), Stream_Seek s m) \<and> m \<le> n + k \<and> (b \<longrightarrow> m \<le> n) \<and> I st'"
  shows "within I n k f"
  using assms by (auto simp: within_def)

lemma withinD:
  "within I n k f \<Longrightarrow> I st \<Longrightarrow> Stream_room s (n + k) \<Longrightarrow> length (s_buffer s) < 2 ^ 31 \<Longrightarrow>
    \<exists>b st' m. f st s = Some ((b, st'), Stream_Seek s m) \<and> m \<le> n + k \<and> (b \<longrightarrow> m \<le> n) \<and> I st'"
  by (auto simp: within_def)

lemma within_result:
  "f st s = Some ((b, st'), Stream_Seek s m) \<Longrightarrow> m \<le> n + k \<Longrightarrow> (b \<longrightarrow> m \<le> n) \<Longrightarrow> I st' \<Longrightarrow>
    \<exists>b st' m. f st s = Some ((b, st'), Stream_Seek s m) \<and> m \<le> n + k \<and> (b \<longrightarrow> m \<le> n) \<and> I st'"
  by blast

lemma within_mono: "within I m j f \<Longrightarrow> m \<le> n \<Longrightarrow> m + j \<le> n + k \<Longrightarrow> within I n k f"
  by (rule withinI, drule withinD) (auto intro: order_trans)

lemma within_le: "within I m k f \<Longrightarrow> m \<le> n \<Longrightarrow> within I n k f"
  by (auto intro: within_mono)

lemma within_and_also [within_intros]:
  assumes "within I n k f" "within I m k g"
  shows "within I (n + m) k (and_also f g)"
proof (rule withinI)
  fix st s assume st: "I st" "Stream_room s (n + m + k)" "length (s_buffer s) < 2 ^ 31"
  obtain b st1 i where 1: "f st s = Some ((b, st1), Stream_Seek s i)" "i \<le> n + k" "b \<longrightarrow> i \<le> n" "I st1"
    using withinD [OF assms(1) st(1) _ st(3)] st(2) by auto
  show "\<exists>b st' i. and_also f g st s = Some ((b, st'), Stream_Seek s i) \<and> i \<le> n + m + k \<and> (b \<longrightarrow> i \<le> n + m) \<and> I st'"
  proof (cases b)
    case True
    then obtain c st2 j where "g st1 (Stream_Seek s i) = Some ((c, st2), Stream_Seek (Stream_Seek s i) j)" "j \<le> m + k" "c \<longrightarrow> j \<le> m" "I st2"
      using withinD [OF assms(2) 1(4), of "Stream_Seek s i"] 1(3) st(2,3) by auto
    then show ?thesis using True 1 by (intro within_result [where m = "i + j"]) (auto simp: and_also_def)
  next
    case False
    then show ?thesis using 1 by (intro within_result [where m = i]) (auto simp: and_also_def)
  qed
qed

lemma within_step:
  assumes "\<And>st s. I st \<Longrightarrow> Stream_room s n \<Longrightarrow> \<exists>b st'. f st s = Some ((b, st'), Stream_Seek s n) \<and> I st'"
  shows "within I n k f"
proof (rule withinI)
  fix st s assume st: "I st" "Stream_room s (n + k)"
  then obtain b st' where "f st s = Some ((b, st'), Stream_Seek s n)" "I st'" using assms [of st s] by auto
  then show "\<exists>b st' m. f st s = Some ((b, st'), Stream_Seek s m) \<and> m \<le> n + k \<and> (b \<longrightarrow> m \<le> n) \<and> I st'"
    by (intro within_result [where m = n]) simp_all
qed

lemma within_pure [within_intros]: "within I 0 k (check P)" "(\<And>st. I st \<Longrightarrow> I (f st)) \<Longrightarrow> within I 0 k (assign f)" "within I n k (skip n)"
  by (rule within_step; auto simp: check_def assign_def skip_def)+

lemma within_get [within_intros]:
  "(\<And>v st. I st \<Longrightarrow> I (u16 v st)) \<Longrightarrow> within I 2 k (get16 u16)"
  "(\<And>v st. I st \<Longrightarrow> I (u32 v st)) \<Longrightarrow> within I 4 k (get32 u32)"
  by (rule within_step; auto simp: get16_def get32_def Stream_Read_UINT16_def Stream_Read_UINT32_def mem_read_def)+

lemma within_steps [within_intros]:
  "within I 0 k (steps [])" "within I n k f \<Longrightarrow> within I m k (steps fs) \<Longrightarrow> within I (n + m) k (steps (f # fs))"
  by (auto intro: within_intros)

lemma within_bound:
  assumes "\<And>v. P v \<Longrightarrow> within I n k (f v)" and rd: "\<And>s. Stream_room s w \<Longrightarrow> \<exists>v. rd s = Some (v, Stream_Seek s w) \<and> P v"
  shows "within I (w + n) k (\<lambda>st s. rd s \<bind> (\<lambda>(v, s). f v st s))"
proof (rule withinI)
  fix st s assume st: "I st" "Stream_room s (w + n + k)" "length (s_buffer s) < 2 ^ 31"
  obtain v where v: "rd s = Some (v, Stream_Seek s w)" "P v" using rd [of s] st(2) by auto
  obtain b st' m where "f v st (Stream_Seek s w) = Some ((b, st'), Stream_Seek (Stream_Seek s w) m)" "m \<le> n + k" "b \<longrightarrow> m \<le> n" "I st'"
    using withinD [OF assms(1) [OF v(2)] st(1), of "Stream_Seek s w"] st by auto
  then show "\<exists>b st' m. rd s \<bind> (\<lambda>(v, s). f v st s) = Some ((b, st'), Stream_Seek s m) \<and> m \<le> w + n + k \<and> (b \<longrightarrow> m \<le> w + n) \<and> I st'"
    using v by (intro within_result [where m = "w + m"]) auto
qed

lemma within_read [within_intros]:
  "(\<And>v. within I n k (f8 v)) \<Longrightarrow> within I (1 + n) k (read8 f8)"
  "(\<And>v. within I n k (f16 v)) \<Longrightarrow> within I (2 + n) k (read16 f16)"
  "(\<And>v. within I n k (f32 v)) \<Longrightarrow> within I (4 + n) k (read32 f32)"
  unfolding read8_def [abs_def] read16_def [abs_def] read32_def [abs_def]
  by (rule within_bound [where P = "\<lambda>_. True"]; simp add: Stream_Read_UINT8_def Stream_Read_UINT16_def Stream_Read_UINT32_def mem_read_def)+

lemma within_read_bytes [within_intros]: "(\<And>bs. length bs = w \<Longrightarrow> within I n k (f bs)) \<Longrightarrow> within I (w + n) k (read_bytes w f)"
  unfolding read_bytes_def [abs_def] by (rule within_bound [where P = "\<lambda>bs. length bs = w"]; simp add: Stream_Read_def mem_read_def)

lemma within_if [within_intros]: "(b \<Longrightarrow> within I n k f) \<Longrightarrow> (\<not> b \<Longrightarrow> within I m k g) \<Longrightarrow> within I (max n m) k (if b then f else g)"
  by (auto intro: within_mono)

lemma within_on_server [within_intros]:
  assumes "within I n k f" "within I m k g"
  shows "within I (max n m) k (on_server f g)"
proof -
  have "within I (max n m) k f" "within I (max n m) k g" using assms by (auto intro: within_mono)
  then show ?thesis by (auto simp: within_def on_server_def)
qed

lemma within_fails: "within I n k (check (\<lambda>_. False))"
  by (rule within_mono [OF within_pure(1), of _ 0]) simp_all

lemma within_at_least:
  assumes "n \<le> len \<Longrightarrow> within I m k f"
  shows "within I m k (at_least n len f)"
proof (cases "n \<le> len")
  case True
  then show ?thesis using within_and_also [OF within_pure(1) assms, of "\<lambda>_. \<not> len < n"] by (simp add: at_least_def)
next
  case False
  then have "at_least n len f = check (\<lambda>_. False)" by (simp add: at_least_def and_also_def check_def fun_eq_iff)
  then show ?thesis by (simp add: within_fails)
qed

lemma within_on_field:
  assumes "within J n k f" "\<And>st. I st \<Longrightarrow> J (get st)" "\<And>x st. J x \<Longrightarrow> I st \<Longrightarrow> I (upd x st)"
  shows "within I n k (on_field get upd f)"
proof (rule withinI)
  fix st s assume st: "I st" "Stream_room s (n + k)" "length (s_buffer s) < 2 ^ 31"
  then obtain b x m where "f (get st) s = Some ((b, x), Stream_Seek s m)" "m \<le> n + k" "b \<longrightarrow> m \<le> n" "J x"
    using withinD [OF assms(1) assms(2)] by blast
  then show "\<exists>b st' m. on_field get upd f st s = Some ((b, st'), Stream_Seek s m) \<and> m \<le> n + k \<and> (b \<longrightarrow> m \<le> n) \<and> I st'"
    using assms(3) st by (intro within_result [where m = m and b = b and st' = "upd x st"]) (auto simp: on_field_def)
qed

subsection \<open>The sets\<close>

text \<open>The arrays of the settings have the sizes that \<open>freerdp_settings_new\<close> gives them.\<close>

definition caps_ok :: "bool \<Rightarrow> capSettings \<Rightarrow> bool" where
  "caps_ok server st \<longleftrightarrow> ServerMode st = server \<and> length (OrderSupport st) = 32 \<and> length (ReceivedCapabilities st) = 32 \<and> length (GlyphCache st) = 10"

lemma within_order_settings [within_intros]: "length bs = 32 \<Longrightarrow> within (caps_ok sm) 0 k (order_settings fl bs ex)"
  by (rule within_step) (auto simp: order_settings_def mem_read_def mem_write_def caps_ok_def Let_def)

lemma within_glyph_caches: "i + n \<le> 10 \<Longrightarrow> within (caps_ok sm) (4 * n) k (rdp_read_glyph_caches i n)"
proof (induction n arbitrary: i)
  case 0
  then show ?case by (auto intro: within_intros)
next
  case (Suc n)
  have "within (caps_ok sm) (2 + (2 + 0)) k (rdp_read_cache_definition (\<lambda>d st s. do {
        caches \<leftarrow> update_at i (\<lambda>_. d) (GlyphCache st);
        Some ((True, st\<lparr>GlyphCache := caches\<rparr>), s) }))"
    unfolding rdp_read_cache_definition_def using Suc.prems by (intro within_read within_step) (auto simp: update_at_def caps_ok_def)
  from within_and_also [OF this Suc.IH [of "Suc i"]] Suc.prems show ?case by (simp add: numeral_eq_Suc)
qed

lemmas settings_defs = general_settings_def bitmap_settings_def pointer_settings_def input_settings_def virtual_channel_settings_def
  gdiplus_settings_def multifragment_settings_def

lemma within_set:
  "(a \<le> len \<Longrightarrow> within I n k f) \<Longrightarrow> n + 4 \<le> a \<Longrightarrow> within I (len - 4) k (at_least a len f)"
  by (rule within_at_least) (auto intro: within_mono)

lemma within_sets:
  "within (caps_ok sm) (len - 4) k (rdp_read_general_capability_set len)"
  "within (caps_ok sm) (len - 4) k (rdp_read_bitmap_capability_set len)"
  "within (caps_ok sm) (len - 4) k (rdp_read_order_capability_set len)"
  "within (caps_ok sm) (len - 4) k (rdp_read_bitmap_cache_capability_set len)"
  "within (caps_ok sm) (len - 4) k (rdp_read_control_capability_set len)"
  "within (caps_ok sm) (len - 4) k (rdp_read_window_activation_capability_set len)"
  "within (caps_ok sm) (len - 4) k (rdp_read_share_capability_set len)"
  "within (caps_ok sm) (len - 4) k (rdp_read_color_cache_capability_set len)"
  "within (caps_ok sm) (len - 4) k (rdp_read_sound_capability_set len)"
  "within (caps_ok sm) (len - 4) k (rdp_read_input_capability_set len)"
  "within (caps_ok sm) (len - 4) k (rdp_read_brush_capability_set len)"
  "within (caps_ok sm) (len - 4) k (rdp_read_offscreen_bitmap_cache_capability_set len)"
  "within (caps_ok sm) (len - 4) k (rdp_read_bitmap_cache_host_support_capability_set len)"
  "within (caps_ok sm) (len - 4) k (rdp_read_bitmap_cache_v2_capability_set len)"
  "within (caps_ok sm) (len - 4) k (rdp_read_draw_nine_grid_cache_capability_set len)"
  "within (caps_ok sm) (len - 4) k (rdp_read_draw_gdiplus_cache_capability_set len)"
  "within (caps_ok sm) (len - 4) k (rdp_read_remote_programs_capability_set len)"
  "within (caps_ok sm) (len - 4) k (rdp_read_window_list_capability_set len)"
  "within (caps_ok sm) (len - 4) k (rdp_read_desktop_composition_capability_set len)"
  "within (caps_ok sm) (len - 4) k (rdp_read_multifragment_update_capability_set len)"
  "within (caps_ok sm) (len - 4) k (rdp_read_large_pointer_capability_set len)"
  "within (caps_ok sm) (len - 4) k (rdp_read_surface_commands_capability_set len)"
  "within (caps_ok sm) (len - 4) k (rdp_read_frame_acknowledge_capability_set len)"
  "within (caps_ok sm) (len - 4) k (rdp_read_bitmap_cache_v3_codec_id_capability_set len)"
  unfolding
  rdp_read_general_capability_set_def rdp_read_bitmap_capability_set_def rdp_read_order_capability_set_def rdp_read_bitmap_cache_capability_set_def
  rdp_read_control_capability_set_def rdp_read_window_activation_capability_set_def rdp_read_share_capability_set_def
  rdp_read_color_cache_capability_set_def rdp_read_sound_capability_set_def rdp_read_input_capability_set_def rdp_read_brush_capability_set_def
  rdp_read_offscreen_bitmap_cache_capability_set_def rdp_read_bitmap_cache_host_support_capability_set_def
  rdp_read_bitmap_cache_v2_capability_set_def rdp_read_draw_nine_grid_cache_capability_set_def rdp_read_draw_gdiplus_cache_capability_set_def
  rdp_read_remote_programs_capability_set_def rdp_read_window_list_capability_set_def rdp_read_desktop_composition_capability_set_def
  rdp_read_multifragment_update_capability_set_def rdp_read_large_pointer_capability_set_def rdp_read_surface_commands_capability_set_def
  rdp_read_frame_acknowledge_capability_set_def rdp_read_bitmap_cache_v3_codec_id_capability_set_def
  by (rule within_set, (rule within_intros | (simp add: caps_ok_def settings_defs Let_def; fail))+)+

lemma within_pointer: "within (caps_ok sm) (len - 4) k (rdp_read_pointer_capability_set len)"
proof -
  have "within (caps_ok sm) 6 k (read16 (\<lambda>f. read16 (\<lambda>c. read16 (\<lambda>z. assign (pointer_settings f z)))))"
    "within (caps_ok sm) 4 k (read16 (\<lambda>f. read16 (\<lambda>c. assign (pointer_settings f 0))))"
    by (rule within_le, (rule within_intros | (simp add: caps_ok_def settings_defs; fail))+)+
  then show ?thesis unfolding rdp_read_pointer_capability_set_def
    by (cases "len \<ge> 10") (auto intro!: within_at_least intro: within_le)
qed

lemma within_glyph_cache: "within (caps_ok sm) (len - 4) k (rdp_read_glyph_cache_capability_set len)"
  unfolding rdp_read_glyph_cache_capability_set_def rdp_read_cache_definition_def
  by (rule within_set, (rule within_glyph_caches within_intros | (simp add: caps_ok_def; fail))+)

text \<open>A set of nine to eleven bytes has no place for \<open>VCChunkSize\<close>, which the reader takes nevertheless.\<close>

lemma within_virtual_channel: "within (caps_ok sm) (len - 1) k (rdp_read_virtual_channel_capability_set len)"
proof -
  have "within (caps_ok sm) 8 k (read32 (\<lambda>f. read32 (\<lambda>c. assign (virtual_channel_settings c))))"
    "within (caps_ok sm) 4 k (read32 (\<lambda>f. assign (virtual_channel_settings 1600)))"
    by (rule within_le, (rule within_intros | (simp add: caps_ok_def settings_defs; fail))+)+
  then show ?thesis unfolding rdp_read_virtual_channel_capability_set_def
    by (cases "len > 8") (auto intro!: within_at_least intro: within_le)
qed

lemma within_font: "4 \<le> len \<Longrightarrow> within (caps_ok sm) (len - 1) k (rdp_read_font_capability_set len)"
  unfolding rdp_read_font_capability_set_def by (cases "len > 6"; cases "len > 4") (auto intro: within_le [OF within_and_also [OF within_pure(3) within_pure(3)]])

subsection \<open>The codecs\<close>

abbreviation codecs_ok :: "bool \<Rightarrow> codecs \<Rightarrow> bool" where
  "codecs_ok sm c \<equiv> caps_ok sm (cod_settings c)"

lemma within_rfx_icaps: "within I (8 * n) k (rdp_read_rfx_icaps n)"
proof (induction n)
  case 0
  then show ?case by (auto intro: within_intros)
next
  case (Suc n)
  show ?case by (rule within_le, simp only: rdp_read_rfx_icaps.simps, (rule within_intros Suc)+) simp_all
qed

lemma within_rfx_properties: "within (codecs_ok sm) 524313 k (rdp_read_rfx_properties codecId)"
proof -
  have "within (codecs_ok sm) (8 * 65535) k (rdp_read_rfx_icaps (unat n))" for n :: u16
  proof -
    have "unat n < 2 ^ 16" using unsigned_less [of n] by simp
    then show ?thesis by (intro within_le [OF within_rfx_icaps]) auto
  qed
  then show ?thesis unfolding rdp_read_rfx_properties_def rdp_read_rfx_caps_def
    by - (rule within_le, (rule within_intros | assumption | (simp add: on_caps_def caps_ok_def; fail))+)
qed

lemma within_nsc_properties: "within (codecs_ok sm) 3 k (rdp_read_nsc_properties codecId)"
  unfolding rdp_read_nsc_properties_def
  by (rule within_le, (rule within_intros | (simp add: on_caps_def caps_ok_def; fail))+)

definition codec_reach :: "bool \<Rightarrow> nat" where
  "codec_reach server = (if server then 524313 else 0)"

lemma within_codec_properties: "within (codecs_ok sm) (unat len) (codec_reach sm) (rdp_read_codec_properties guid codecId len)"
proof (rule withinI)
  fix c s assume c: "codecs_ok sm c" "Stream_room s (unat len + codec_reach sm)" "length (s_buffer s) < 2 ^ 31"
  let ?P = "\<lambda>f. \<exists>b c' m. f c s = Some ((b, c'), Stream_Seek s m) \<and> m \<le> unat len + codec_reach sm \<and> (b \<longrightarrow> m \<le> unat len) \<and> codecs_ok sm c'"
  show "?P (rdp_read_codec_properties guid codecId len)"
  proof (cases sm)
    case False
    then show ?thesis using c by (intro within_result [where m = "unat len"]) (auto simp: rdp_read_codec_properties_def caps_ok_def skip_def)
  next
    case True
    let ?f = "if UuidEqual guid CODEC_GUID_REMOTEFX then rdp_read_rfx_properties codecId
      else if UuidEqual guid CODEC_GUID_IMAGE_REMOTEFX then and_also (assign (\<lambda>c. c\<lparr>guidRemoteFxImage := True\<rparr>)) (skip (unat len))
      else if UuidEqual guid CODEC_GUID_NSCODEC then rdp_read_nsc_properties codecId
      else skip (unat len)"
    have w: "within (codecs_ok sm) (unat len + 524313) 0 ?f"
      by (rule within_le, (rule within_intros within_rfx_properties within_nsc_properties | (simp; fail))+)
    obtain b c' m where f: "?f c s = Some ((b, c'), Stream_Seek s m)" "m \<le> unat len + 524313" "codecs_ok sm c'"
      using withinD [OF w, of c s] c True unfolding codec_reach_def by (simp only: if_True add_0_right) blast
    have "unat len < 2 ^ 16" using unsigned_less [of len] by simp
    then have u: "unat (ucast len :: u32) = unat len" by (simp add: unsigned_ucast_eq unsigned_take_bit_eq take_bit_nat_eq_self)
    have e: "unat (word_of_nat (Stream_GetPosition s) + ucast len :: u32) = s_pointer s + unat len"
      using c(2,3) u by (simp add: unat_word_ariths unat_of_nat Stream_GetPosition_def)
    have p: "Stream_SetPosition (Stream_Seek s m) (s_pointer s + unat len) = Stream_Seek s (unat len)"
      by (simp add: Stream_SetPosition_def Stream_Seek_def)
    show ?thesis
    proof (intro within_result [where m = "if b then unat len else m" and b = b and st' = c'])
      show "rdp_read_codec_properties guid codecId len c s = Some ((b, c'), Stream_Seek s (if b then unat len else m))"
        using c(1) True f(1) e p by (auto simp: rdp_read_codec_properties_def caps_ok_def Let_def Stream_GetPosition_def)
    qed (use f True in \<open>auto simp: codec_reach_def\<close>)
  qed
qed

lemma within_codecs: "within (codecs_ok sm) (unat remaining) (codec_reach sm) (rdp_read_codecs n remaining)"
proof (induction n arbitrary: remaining)
  case 0
  then show ?case by (auto intro: within_le within_intros)
next
  case (Suc n)
  show ?case
  proof (cases "remaining < 19")
    case True
    then have "rdp_read_codecs (Suc n) remaining = check (\<lambda>_. False)" by (simp add: and_also_def check_def fun_eq_iff)
    then show ?thesis by (simp add: within_fails)
  next
    case False
    then have r: "unat (remaining - 19) = unat remaining - 19" "19 \<le> unat remaining"
      by (simp_all add: unat_sub word_le_nat_alt not_less)
    have one: "within (codecs_ok sm) (unat remaining - 19) (codec_reach sm) (and_also (check (\<lambda>_. \<not> remaining - 19 < len))
       (and_also (rdp_read_codec_properties guid codecId len) (rdp_read_codecs n (remaining - 19 - len))))" for guid codecId len
    proof (cases "remaining - 19 < len")
      case True
      then have "and_also (check (\<lambda>_. \<not> remaining - 19 < len)) f = check (\<lambda>_. False)" for f :: "codecs step"
        by (simp add: and_also_def check_def fun_eq_iff)
      then show ?thesis by (simp add: within_fails)
    next
      case False
      then have "unat (remaining - 19 - len) = unat remaining - 19 - unat len" "unat len \<le> unat remaining - 19"
        using r by (simp_all add: unat_sub word_le_nat_alt not_less)
      then show ?thesis using Suc [of "remaining - 19 - len"]
        by (intro within_le [OF within_and_also [OF within_pure(1) within_and_also [OF within_codec_properties]]]) auto
    qed
    show ?thesis unfolding rdp_read_codecs.simps rdp_read_bitmap_codec_guid_def
      by (rule within_le, rule within_and_also [OF within_pure(1)], (rule within_read_bytes within_read one)+) (use r in simp)
  qed
qed

lemma within_bitmap_codecs:
  assumes "len < 65536"
  shows "within (caps_ok sm) (len - 4) (codec_reach sm) (rdp_read_bitmap_codecs_capability_set len)"
proof -
  have "unat (word_of_nat (len - 5) :: u16) = len - 5" using assms by (simp add: unat_of_nat del: of_nat_diff)
  then have "within (codecs_ok sm) (len - 5) (codec_reach sm) (rdp_read_codecs n (word_of_nat (len - 5)))" for n
    using within_codecs [of sm "word_of_nat (len - 5)" n] by simp
  then show ?thesis unfolding rdp_read_bitmap_codecs_capability_set_def
    by (intro within_at_least within_le [OF within_on_field [where J = "codecs_ok sm", OF within_and_also [OF within_read(1) within_pure(2)]]])
      (auto simp: codecs_init_def codecs_settings_def caps_ok_def Let_def)
qed

subsection \<open>The loop\<close>

lemma within_client_set: "within (caps_ok sm) (len - 4) k (rdp_read_client_capability_set type len)"
  and within_server_set: "within (caps_ok sm) (len - 4) k (rdp_read_server_capability_set type len)"
  unfolding rdp_read_client_capability_set_def rdp_read_server_capability_set_def
  by (simp_all add: within_sets within_glyph_cache within_fails)

text \<open>How many bytes behind the end of a set are read.\<close>

definition caps_reach :: "bool \<Rightarrow> nat" where
  "caps_reach server = (if server then 524313 else 3)"

lemma within_capability_set:
  assumes "4 \<le> len" "len < 65536"
  shows "within (caps_ok sm) (len - 4 + caps_reach sm) 0 (rdp_read_capability_set type len)"
proof -
  define n where "n = len - 4 + caps_reach sm"
  have l: "within (caps_ok sm) (len - 4) 0 f \<Longrightarrow> within (caps_ok sm) n 0 f" "within (caps_ok sm) (len - 1) 0 f \<Longrightarrow> within (caps_ok sm) n 0 f"
    "within (caps_ok sm) (len - 4) (codec_reach sm) f \<Longrightarrow> within (caps_ok sm) n 0 f" for f
  proof -
    have "len - 4 \<le> n" "len - 1 \<le> n" "len - 4 + codec_reach sm \<le> n" using assms by (auto simp: n_def caps_reach_def codec_reach_def)
    then show "within (caps_ok sm) (len - 4) 0 f \<Longrightarrow> within (caps_ok sm) n 0 f" "within (caps_ok sm) (len - 1) 0 f \<Longrightarrow> within (caps_ok sm) n 0 f"
      "within (caps_ok sm) (len - 4) (codec_reach sm) f \<Longrightarrow> within (caps_ok sm) n 0 f"
      by (auto intro: within_le within_mono)
  qed
  have "within (caps_ok sm) n 0 (on_server (rdp_read_client_capability_set type len) (rdp_read_server_capability_set type len))"
    unfolding n_def by (rule within_le, rule within_on_server, rule within_client_set, rule within_server_set) simp
  then show ?thesis unfolding rdp_read_capability_set_def n_def [symmetric] using assms
    by (simp add: within_sets [THEN l(1)] within_pointer [THEN l(1)] within_virtual_channel [THEN l(2)] within_font [THEN l(2)] within_bitmap_codecs [THEN l(3)])
qed

lemma capability_set_returns:
  assumes "caps_ok sm st" "Stream_room s (len - 4 + caps_reach sm)" "length (s_buffer s) < 2 ^ 31" "4 \<le> len" "len < 65536"
  obtains b st' m where "rdp_read_capability_set type len st s = Some ((b, st'), Stream_Seek s m)" "caps_ok sm st'"
  using withinD [OF within_capability_set [OF assms(4,5)] assms(1)] assms(2,3) by fastforce

lemma caps_ok_mark: "caps_ok sm st \<Longrightarrow> \<exists>st'. mark_received type st = Some st' \<and> caps_ok sm st'"
  by (auto simp: mark_received_def update_at_def caps_ok_def word_less_nat_alt)

text \<open>A stream with \<open>k\<close> spare bytes behind its contents.\<close>

definition spare :: "nat \<Rightarrow> wStream \<Rightarrow> bool" where
  "spare k s \<longleftrightarrow> s_pointer s \<le> s_length s \<and> s_length s + k \<le> length (s_buffer s) \<and> length (s_buffer s) < 2 ^ 31"

lemma spare_remaining: "spare k s \<Longrightarrow> Stream_GetRemainingLength s = s_length s - s_pointer s"
  by (simp add: spare_def Stream_GetRemainingLength_def)

lemma set_length_checked:
  assumes "\<not> n < size_of_int (uint (len :: u16) - 4)" "n < 2 ^ 31"
  shows "4 \<le> unat len \<and> unat len \<le> n + 4"
proof (cases "4 \<le> uint len")
  case True
  have "uint len < 65536" using uint_lt2p [of len] by simp
  then have "size_of_int (uint len - 4) = nat (uint len - 4)" using True by simp
  moreover have u: "uint len = int (unat len)" by simp
  ultimately show ?thesis using assms(1) True unfolding u by linarith
next
  case False
  then have "uint len = 0 \<or> uint len = 1 \<or> uint len = 2 \<or> uint len = 3" using uint_ge_0 [of len] by linarith
  then have "2 ^ 31 \<le> size_of_int (uint len - 4)" by (elim disjE) (simp_all add: size_of_int_def)
  then show ?thesis using assms by linarith
qed

lemma capability_sets_return:
  assumes "caps_ok sm st" "spare (caps_reach sm) s"
  shows "\<exists>b st' s'. rdp_read_capability_sets n st s = Some ((b, st'), s') \<and> caps_ok sm st' \<and> s_buffer s' = s_buffer s"
  using assms
proof (induction n arbitrary: st s)
  case 0
  then show ?case by auto
next
  case (Suc n)
  show ?case
  proof (cases "Stream_GetRemainingLength s \<ge> 4")
    case False
    then show ?thesis using Suc.prems by auto
  next
    case True
    then have r: "s_pointer s + 4 \<le> s_length s" "s_length s + caps_reach sm \<le> length (s_buffer s)" "length (s_buffer s) < 2 ^ 31"
      using Suc.prems by (auto simp: spare_remaining spare_def)
    obtain type where h1: "Stream_Read_UINT16 s = Some (type, Stream_Seek s 2)"
      using r by (auto simp: Stream_Read_UINT16_def mem_read_def)
    obtain len where h2: "Stream_Read_UINT16 (Stream_Seek s 2) = Some (len, Stream_Seek s 4)"
      using r by (auto simp: Stream_Read_UINT16_def mem_read_def)
    obtain st1 where st1: "mark_received type st = Some st1" "caps_ok sm st1" using caps_ok_mark Suc.prems(1) by blast
    have rem: "Stream_GetRemainingLength (Stream_Seek s 4) = s_length s - (s_pointer s + 4)"
      using r by (simp add: Stream_GetRemainingLength_def)
    show ?thesis
    proof (cases "Stream_GetRemainingLength (Stream_Seek s 4) < size_of_int (uint len - 4)")
      case True
      then show ?thesis using \<open>Stream_GetRemainingLength s \<ge> 4\<close> h1 h2 st1
        by (auto simp: rdp_read_capability_set_header_def read16_def)
    next
      case False
      then have len: "4 \<le> unat len" "s_pointer s + unat len \<le> s_length s" using rem r set_length_checked [of "s_length s - (s_pointer s + 4)" len] by linarith+
      obtain b st2 m where st2: "rdp_read_capability_set type (unat len) st1 (Stream_Seek s 4) = Some ((b, st2), Stream_Seek (Stream_Seek s 4) m)" "caps_ok sm st2"
        by (rule capability_set_returns [OF st1(2), of "Stream_Seek s 4" "unat len"]) (use len r unsigned_less [of len] in auto)
      let ?s = "Stream_SetPosition (Stream_Seek s (4 + m)) (s_pointer s + unat len)"
      have "spare (caps_reach sm) ?s" "s_buffer ?s = s_buffer s"
        using len r by (simp_all add: spare_def Stream_SetPosition_def Stream_Seek_def)
      then show ?thesis using Suc.IH [OF st2(2), of ?s] \<open>Stream_GetRemainingLength s \<ge> 4\<close> False h1 h2 st1(1) st2
        by (cases b) (auto simp: rdp_read_capability_set_header_def read16_def)
    qed
  qed
qed

subsection \<open>The PDUs\<close>

lemma spare_seek: "spare k s \<Longrightarrow> s_pointer s + n \<le> s_length s \<Longrightarrow> spare k (Stream_Seek s n)"
  by (simp add: spare_def)

lemma read_spare:
  assumes "spare k s" "s_pointer s + 4 \<le> s_length s"
  shows "\<exists>v. Stream_Read_UINT16 s = Some (v, Stream_Seek s 2)" "\<exists>v. Stream_Read_UINT32 s = Some (v, Stream_Seek s 4)"
    "\<exists>v. Stream_Read_UINT16 (Stream_Seek s 2) = Some (v, Stream_Seek s 4)"
  using assms by (auto simp: spare_def Stream_Read_UINT16_def Stream_Read_UINT32_def mem_read_def)

lemma confirm_settings_ok: "caps_ok sm st \<Longrightarrow> caps_ok sm (confirm_settings rc st)"
  by (simp add: caps_ok_def confirm_settings_def)

lemma sets_behind_count:
  assumes "caps_ok sm st" "spare (caps_reach sm) s" "s_pointer s + 4 \<le> s_length s"
  obtains n b st' s' where "Stream_Read_UINT16 s = Some (n, Stream_Seek s 2)"
    "rdp_read_capability_sets (unat n) st (Stream_Seek s 4) = Some ((b, st'), s')" "caps_ok sm st'" "s_buffer s' = s_buffer s"
proof -
  obtain n where "Stream_Read_UINT16 s = Some (n, Stream_Seek s 2)" using read_spare assms by blast
  moreover obtain b st' s' where "rdp_read_capability_sets (unat n) st (Stream_Seek s 4) = Some ((b, st'), s')" "caps_ok sm st'" "s_buffer s' = s_buffer s"
    using capability_sets_return [OF assms(1), of "Stream_Seek s 4" "unat n"] assms(2,3) spare_seek by auto
  ultimately show thesis using that by blast
qed

lemma confirm_active_reach:
  assumes "caps_ok sm st" "spare (caps_reach sm) s"
  shows "\<exists>ok st' s'. rdp_recv_confirm_active st s = Some ((ok, st'), s') \<and> caps_ok sm st' \<and> s_buffer s' = s_buffer s"
proof (cases "s_length s - s_pointer s < 10")
  case True
  then show ?thesis using assms by (auto simp: rdp_recv_confirm_active_def and_also_def spare_remaining)
next
  case False
  then have "spare (caps_reach sm) (Stream_Seek s 6)" "s_pointer s + 10 \<le> s_length s" using assms by (auto simp: spare_def)
  then obtain sd len where h: "Stream_Read_UINT16 (Stream_Seek s 6) = Some (sd, Stream_Seek s 8)" "Stream_Read_UINT16 (Stream_Seek s 8) = Some (len, Stream_Seek s 10)"
    using read_spare [of "caps_reach sm" "Stream_Seek s 6"] by auto
  let ?s = "Stream_Seek s 10"
  have r: "c_int (Stream_GetRemainingLength ?s) = int (s_length s - (s_pointer s + 10))"
  proof -
    have "Stream_GetRemainingLength ?s = s_length s - (s_pointer s + 10)" "s_length s - (s_pointer s + 10) < 2 ^ 31"
      using assms(2) False unfolding spare_def by (simp_all add: Stream_GetRemainingLength_def, linarith)
    then show ?thesis by (simp del: of_nat_diff)
  qed
  show ?thesis
  proof (cases "int (s_length s - (s_pointer s + 10)) < uint sd + 4")
    case True
    then show ?thesis using assms False h r by (auto simp: rdp_recv_confirm_active_def and_also_def spare_remaining skip_def read16_def)
  next
    case c: False
    have u: "uint sd = int (unat sd)" by simp
    have p: "s_pointer s + 10 + unat sd + 4 \<le> s_length s" using c False unfolding u by linarith
    then have "spare (caps_reach sm) (Stream_Seek ?s (unat sd))" using assms(2) by (simp add: spare_def)
    then obtain n b st' s' where "Stream_Read_UINT16 (Stream_Seek ?s (unat sd)) = Some (n, Stream_Seek (Stream_Seek ?s (unat sd)) 2)"
      "rdp_read_capability_sets (unat n) st (Stream_Seek (Stream_Seek ?s (unat sd)) 4) = Some ((b, st'), s')" "caps_ok sm st'" "s_buffer s' = s_buffer s"
      by (rule sets_behind_count [OF assms(1)]) (use p in auto)
    then show ?thesis using assms False h r c
      by (auto simp: rdp_recv_confirm_active_def and_also_def spare_remaining skip_def read16_def assign_def mem_read_def caps_ok_def confirm_settings_def)
  qed
qed

lemma demand_active_reach:
  assumes "caps_ok sm st" "spare (caps_reach sm) s"
  shows "\<exists>ok st' g' s'. rdp_recv_demand_active_body source (st, g) s = Some ((ok, st', g'), s') \<and> caps_ok sm st' \<and> s_buffer s' = s_buffer s"
proof (cases "s_length s - s_pointer s < 8")
  case True
  then show ?thesis using assms
    by (auto simp: rdp_recv_demand_active_body_def and_also_def on_field_def assign_def spare_remaining caps_ok_def)
next
  case False
  then have "spare (caps_reach sm) s" "spare (caps_reach sm) (Stream_Seek s 4)" "s_pointer s + 8 \<le> s_length s" using assms by (auto simp: spare_def)
  then obtain share sd len where h: "Stream_Read_UINT32 s = Some (share, Stream_Seek s 4)"
    "Stream_Read_UINT16 (Stream_Seek s 4) = Some (sd, Stream_Seek s 6)" "Stream_Read_UINT16 (Stream_Seek s 6) = Some (len, Stream_Seek s 8)"
    using read_spare [of "caps_reach sm" s] read_spare [of "caps_reach sm" "Stream_Seek s 4"] by auto
  let ?s = "Stream_Seek s 8"
  have r: "Stream_GetRemainingLength ?s = s_length s - (s_pointer s + 8)"
    using assms(2) False by (simp add: spare_def Stream_GetRemainingLength_def)
  show ?thesis
  proof (cases "s_length s - (s_pointer s + 8) < unat sd + 4")
    case True
    moreover have "\<not> s_length s - (s_pointer s + 8) < unat sd \<Longrightarrow> Stream_GetRemainingLength (Stream_Seek ?s (unat sd)) = s_length s - (s_pointer s + 8) - unat sd"
      using assms(2) False by (simp add: spare_def Stream_GetRemainingLength_def)
    ultimately show ?thesis using assms False h r
      by (auto simp: rdp_recv_demand_active_body_def and_also_def on_field_def assign_def spare_remaining read16_def get32_def Stream_SafeSeek_def caps_ok_def)
  next
    case c: False
    then have p: "s_pointer s + 8 + unat sd + 4 \<le> s_length s" using False by linarith
    then have sp: "spare (caps_reach sm) (Stream_Seek ?s (unat sd))" using assms(2) by (simp add: spare_def)
    let ?st = "st\<lparr>PduSource := ucast source, ShareId := share\<rparr>"
    have "caps_ok sm ?st" using assms(1) by (simp add: caps_ok_def)
    then obtain n b st' s' where "Stream_Read_UINT16 (Stream_Seek ?s (unat sd)) = Some (n, Stream_Seek (Stream_Seek ?s (unat sd)) 2)"
      "rdp_read_capability_sets (unat n) ?st (Stream_Seek (Stream_Seek ?s (unat sd)) 4) = Some ((b, st'), s')" "caps_ok sm st'" "s_buffer s' = s_buffer s"
      by (rule sets_behind_count [OF _ sp]) (use p in auto)
    moreover have "Stream_GetRemainingLength (Stream_Seek ?s (unat sd)) = s_length s - (s_pointer s + 8) - unat sd" using sp p by (simp add: spare_remaining)
    ultimately show ?thesis using assms False h r c
      by (cases b) (auto simp: rdp_recv_demand_active_body_def and_also_def on_field_def spare_remaining skip_def read16_def get32_def assign_def Stream_SafeSeek_def)
  qed
qed

text \<open>For streams whose bytes are given, the readers can be evaluated.\<close>

lemmas caps_eval = rdp_recv_demand_active_body_def rdp_recv_confirm_active_def and_also_def skip_def read8_def read16_def read32_def read_bytes_def get32_def assign_def check_def
  on_field_def mem_read_def mark_received_def update_at_def on_server_def at_least_def
  Stream_Read_UINT8_def Stream_Read_UINT16_def Stream_Read_UINT32_def Stream_Read_def Stream_GetRemainingLength_def Stream_SafeSeek_def Stream_Seek_def Stream_GetPosition_def rdp_read_capability_set_header_def
  rdp_read_capability_set_def rdp_read_virtual_channel_capability_set_def rdp_read_bitmap_codecs_capability_set_def rdp_read_bitmap_codec_guid_def rdp_read_codec_properties_def
  rdp_read_rfx_properties_def guid_of_bytes_def UuidEqual_def CODEC_GUID_REMOTEFX_def codecs_init_def on_caps_def u16_le_def u32_le_def

lemma virtual_channel_fault:
  assumes "caps_ok False st" "8 < n" "n < 12" "length body = unat n - 4"
  shows "rdp_recv_demand_active_body source (st, g) (stream_of ([a, b, c, d, 0, 0, l, h, 1, 0, p, q, 0x14, 0, n, 0] @ body)) = None"
proof -
  have "n = 9 \<or> n = 10 \<or> n = 11" using assms(2,3) by unat_arith
  then show ?thesis using assms(1,4) by (elim disjE) (simp_all add: stream_of_def caps_eval caps_ok_def)
qed

lemma remotefx_fault:
  assumes "caps_ok True st"
  shows "rdp_recv_confirm_active st (stream_of ([a, b, c, d, e, f, 0, 0, l, h, 1, 0, p, q, 0x1D, 0, 24, 0, 1,
    0x12, 0x2F, 0x77, 0x76, 0x72, 0xBD, 0x63, 0x44, 0xAF, 0xB3, 0xB7, 0x3C, 0x9C, 0x6F, 0x78, 0x86, codecId, 0, 0])) = None"
  using assms
  by (simp add: stream_of_def caps_eval caps_ok_def)

subsection \<open>Instances\<close>

text \<open>Settings with the values of \<open>freerdp_settings_new\<close>, all codecs but JPEG enabled.\<close>

definition caps_sample :: "bool \<Rightarrow> capSettings" where
  "caps_sample server = rdpSettings.extend (settings_sample server [0x70, 0x63, 0]) (capSettings.fields 0x103EA 0x03EA True True False 3 12 True (replicate 32 1) 1 3
     True True True True True True True True True (replicate 32 1) False 2 False 5 (replicate 5 \<lparr>numEntries = 600, persistent = False\<rparr>) True 20 True True 2
     (replicate 10 \<lparr>cacheEntries = 254, cacheMaximumCellSize = 4\<rparr>) \<lparr>cacheEntries = 256, cacheMaximumCellSize = 256\<rparr> 1 7680 2000 1600 True 16256 1 True False True
     False 3 0 True 1 True 1 2 3 1 1 False 75 0 False 2560 256 False False)"

lemma caps_sample_ok: "caps_ok sm (caps_sample sm)"
  by (simp add: caps_ok_def caps_sample_def rdpSettings.defs capSettings.defs settings_sample_def)

definition spare_stream :: "byte list \<Rightarrow> nat \<Rightarrow> wStream" where
  "spare_stream bs k = (stream_of (bs @ replicate k 0))\<lparr>s_length := length bs\<rparr>"

lemma spare_spare_stream: "length bs + k < 2 ^ 31 \<Longrightarrow> spare k (spare_stream bs k)"
  by (simp add: spare_def spare_stream_def stream_of_def)

subsection \<open>Properties of the readers\<close>

text \<open>
  The reach of the capability readers (C10): whatever the stream holds, reading the body of a Confirm Active or of a Demand Active PDU returns and
  touches no memory further than \<open>caps_reach\<close> bytes behind the end of the stream: three on a client, \<open>524313\<close> on a server. The arrays of the settings keep their sizes.
\<close>
theorem rdp_recv_active_reach:
  assumes "caps_ok server st" "spare (caps_reach server) s"
  shows "(\<exists>ok st' s'. rdp_recv_confirm_active st s = Some ((ok, st'), s') \<and> caps_ok server st' \<and> s_buffer s' = s_buffer s) \<and>
    (\<exists>ok st' g' s'. rdp_recv_demand_active_body source (st, g) s = Some ((ok, st', g'), s') \<and> caps_ok server st' \<and> s_buffer s' = s_buffer s)"
  using confirm_active_reach [OF assms] demand_active_reach [OF assms] by blast

theorem rdp_recv_active_reach_witness:
  "(\<exists>ok st' s'. rdp_recv_confirm_active (caps_sample True) (spare_stream [0, 0, 0, 0, 0, 0, 0, 0, 0, 0, 1, 0, 0, 0, 0x1D, 0, 5, 0, 1] 524313) = Some ((ok, st'), s')
    \<and> caps_ok True st' \<and> s_buffer s' = s_buffer (spare_stream [0, 0, 0, 0, 0, 0, 0, 0, 0, 0, 1, 0, 0, 0, 0x1D, 0, 5, 0, 1] 524313)) \<and>
   (\<exists>ok st' g' s'. rdp_recv_demand_active_body 0x03EA (caps_sample False, False) (spare_stream [0, 0, 0, 0, 0, 0, 0, 0, 1, 0, 0, 0, 0x14, 0, 9, 0, 0, 0, 0, 0, 0] 3) = Some ((ok, st', g'), s')
    \<and> caps_ok False st' \<and> s_buffer s' = s_buffer (spare_stream [0, 0, 0, 0, 0, 0, 0, 0, 1, 0, 0, 0, 0x14, 0, 9, 0, 0, 0, 0, 0, 0] 3))"
  using rdp_recv_active_reach [OF caps_sample_ok, of True "spare_stream [0, 0, 0, 0, 0, 0, 0, 0, 0, 0, 1, 0, 0, 0, 0x1D, 0, 5, 0, 1] 524313"]
    rdp_recv_active_reach [OF caps_sample_ok, of False "spare_stream [0, 0, 0, 0, 0, 0, 0, 0, 1, 0, 0, 0, 0x14, 0, 9, 0, 0, 0, 0, 0, 0] 3"]
  by (simp add: caps_reach_def spare_spare_stream)

text \<open>
  Both sides can be made to read behind their buffers (C11): a server that ends Demand Active with a virtual channel capability set of 9, 10 or 11 bytes makes the client read up
  to three bytes behind the end of its buffer, and a client that announces the RemoteFX codec without properties at the end of Confirm Active makes the server read them
  behind the end of its buffer.
\<close>
theorem rdp_recv_active_faults:
  assumes "caps_ok False cl" "8 < n" "n < 12" "length body = unat n - 4" "caps_ok True sv"
  shows "rdp_recv_demand_active_body source (cl, g) (stream_of ([a, b, c, d, 0, 0, l, h, 1, 0, p, q, 0x14, 0, n, 0] @ body)) = None \<and>
    rdp_recv_confirm_active sv (stream_of ([a, b, c, d, e, f, 0, 0, l, h, 1, 0, p, q, 0x1D, 0, 24, 0, 1,
      0x12, 0x2F, 0x77, 0x76, 0x72, 0xBD, 0x63, 0x44, 0xAF, 0xB3, 0xB7, 0x3C, 0x9C, 0x6F, 0x78, 0x86, codecId, 0, 0])) = None"
  by (intro conjI virtual_channel_fault [OF assms(1-4)] remotefx_fault [OF assms(5)])

theorem rdp_recv_active_faults_witness:
  "rdp_recv_demand_active_body 0x03EA (caps_sample False, False) (stream_of ([1, 2, 3, 4, 0, 0, 13, 0, 1, 0, 0, 0, 0x14, 0, 9, 0] @ [0, 0, 0, 0, 1])) = None \<and>
    rdp_recv_confirm_active (caps_sample True) (stream_of ([1, 2, 3, 4, 5, 6, 0, 0, 13, 0, 1, 0, 0, 0, 0x1D, 0, 24, 0, 1,
      0x12, 0x2F, 0x77, 0x76, 0x72, 0xBD, 0x63, 0x44, 0xAF, 0xB3, 0xB7, 0x3C, 0x9C, 0x6F, 0x78, 0x86, 3, 0, 0])) = None"
  by (rule rdp_recv_active_faults [OF caps_sample_ok _ _ _ caps_sample_ok]) simp_all

end
