(* ===== verification/CapsWrite.thy ===== *)
theory CapsWrite
  imports Caps
begin

text \<open>
  The writers of \<open>libfreerdp/core/capabilities.c\<close>: the sets and the bodies of the Demand Active PDU, which the server
  sends, and of the Confirm Active PDU of the client. A set is started with four empty bytes; when its body has been written,
  its type and length are put there.
\<close>

unbundle bit_operations_syntax

subsection \<open>Sets\<close>

definition rdp_write_capability_set_header :: "wStream \<Rightarrow> u16 \<Rightarrow> u16 \<Rightarrow> wStream option" where
  "rdp_write_capability_set_header s len type = do { s \<leftarrow> Stream_Write_UINT16 s type; Stream_Write_UINT16 s len }"

definition rdp_capability_set_start :: "wStream \<Rightarrow> (nat \<times> wStream) option" where
  "rdp_capability_set_start s = do {
     let header = Stream_GetPosition s;
     s \<leftarrow> Stream_Zero s 4;
     Some (header, s) }"

definition rdp_capability_set_finish :: "wStream \<Rightarrow> nat \<Rightarrow> u16 \<Rightarrow> wStream option" where
  "rdp_capability_set_finish s header type = do {
     let footer = Stream_GetPosition s;
     s \<leftarrow> rdp_write_capability_set_header (Stream_SetPosition s header) (word_of_int (int footer - int header)) type;
     Some (Stream_SetPosition s footer) }"

text \<open>What most writers have in common: make room for \<open>n\<close> bytes, start the set, write its body, finish the set.\<close>

definition rdp_capset :: "alloc \<Rightarrow> nat \<Rightarrow> u16 \<Rightarrow> (wStream \<Rightarrow> wStream option) \<Rightarrow> capSettings step" where
  "rdp_capset al n type body = ensuring al n (\<lambda>st s. do {
     (header, s) \<leftarrow> rdp_capability_set_start s;
     s \<leftarrow> body s;
     s \<leftarrow> rdp_capability_set_finish s header type;
     Some ((True, st), s) })"

definition general_flags :: "capSettings \<Rightarrow> u16" where
  "general_flags st = LONG_CREDENTIALS_SUPPORTED
     OR (if NoBitmapCompressionHeader st then NO_BITMAP_COMPRESSION_HDR else 0)
     OR (if AutoReconnectionEnabled st then AUTORECONNECT_SUPPORTED else 0)
     OR (if FastPathOutput st then FASTPATH_OUTPUT_SUPPORTED else 0)
     OR (if SaltedChecksum st then ENC_SALTED_CHECKSUM else 0)"

definition drawing_flags :: "capSettings \<Rightarrow> byte" where
  "drawing_flags st = (if DrawAllowSkipAlpha st then DRAW_ALLOW_SKIP_ALPHA else 0)
     OR (if DrawAllowDynamicColorFidelity st then DRAW_ALLOW_DYNAMIC_COLOR_FIDELITY else 0)
     OR (if DrawAllowColorSubsampling st then DRAW_ALLOW_COLOR_SUBSAMPLING else 0)"

definition order_flags :: "capSettings \<Rightarrow> u16" where
  "order_flags st = 0x0002 OR 0x0008 OR 0x0020
     OR (if BitmapCacheV3Enabled st then ORDER_FLAGS_EXTRA_SUPPORT else 0)
     OR (if FrameMarkerCommandEnabled st then ORDER_FLAGS_EXTRA_SUPPORT else 0)"

definition order_ex_flags :: "capSettings \<Rightarrow> u16" where
  "order_ex_flags st = (if BitmapCacheV3Enabled st then CACHE_BITMAP_V3_SUPPORT else 0)
     OR (if FrameMarkerCommandEnabled st then ALTSEC_FRAME_MARKER_SUPPORT else 0)"

definition input_flags :: "capSettings \<Rightarrow> u16" where
  "input_flags st = 0x0001 OR 0x0004 OR 0x0010 OR TS_INPUT_FLAG_MOUSE_HWHEEL
     OR (if FastPathInput st then INPUT_FLAG_FASTPATH_INPUT OR INPUT_FLAG_FASTPATH_INPUT2 else 0)"

definition rdp_write_cache_definition :: "GLYPH_CACHE_DEFINITION \<Rightarrow> wStream \<Rightarrow> wStream option" where
  "rdp_write_cache_definition d s = do { s \<leftarrow> Stream_Write_UINT16 s (cacheEntries d); Stream_Write_UINT16 s (cacheMaximumCellSize d) }"

definition rdp_write_bitmap_cache_cell_info :: "BITMAP_CACHE_V2_CELL_INFO \<Rightarrow> wStream \<Rightarrow> wStream option" where
  "rdp_write_bitmap_cache_cell_info c s = Stream_Write_UINT32 s (numEntries c OR push_bit 31 (if persistent c then 1 else 0))"

definition rdp_write_general_capability_set :: "alloc \<Rightarrow> capSettings step" where
  "rdp_write_general_capability_set al st = rdp_capset al 64 CAPSET_TYPE_GENERAL (\<lambda>s. do {
     s \<leftarrow> Stream_Write_UINT16 s (ucast (OsMajorType st));
     s \<leftarrow> Stream_Write_UINT16 s (ucast (OsMinorType st));
     s \<leftarrow> Stream_Write_UINT16 s 0x0200;
     s \<leftarrow> Stream_Write_UINT16 s 0;
     s \<leftarrow> Stream_Write_UINT16 s 0;
     s \<leftarrow> Stream_Write_UINT16 s (general_flags st);
     s \<leftarrow> Stream_Write_UINT16 s 0;
     s \<leftarrow> Stream_Write_UINT16 s 0;
     s \<leftarrow> Stream_Write_UINT16 s 0;
     s \<leftarrow> Stream_Write_UINT8 s (if RefreshRect st then 1 else 0);
     Stream_Write_UINT8 s (if SuppressOutput st then 1 else 0) }) st"

definition rdp_write_bitmap_capability_set :: "alloc \<Rightarrow> capSettings step" where
  "rdp_write_bitmap_capability_set al st = rdp_capset al 64 CAPSET_TYPE_BITMAP (\<lambda>s. do {
     s \<leftarrow> Stream_Write_UINT16 s (if RdpVersion st > 5 then ucast (ColorDepth st) else 8);
     s \<leftarrow> Stream_Write_UINT16 s 1;
     s \<leftarrow> Stream_Write_UINT16 s 1;
     s \<leftarrow> Stream_Write_UINT16 s 1;
     s \<leftarrow> Stream_Write_UINT16 s (ucast (DesktopWidth st));
     s \<leftarrow> Stream_Write_UINT16 s (ucast (DesktopHeight st));
     s \<leftarrow> Stream_Write_UINT16 s 0;
     s \<leftarrow> Stream_Write_UINT16 s (if DesktopResize st then 1 else 0);
     s \<leftarrow> Stream_Write_UINT16 s 1;
     s \<leftarrow> Stream_Write_UINT8 s 0;
     s \<leftarrow> Stream_Write_UINT8 s (drawing_flags st);
     s \<leftarrow> Stream_Write_UINT16 s 1;
     Stream_Write_UINT16 s 0 }) st"

definition rdp_write_order_capability_set :: "alloc \<Rightarrow> capSettings step" where
  "rdp_write_order_capability_set al st = rdp_capset al 64 CAPSET_TYPE_ORDER (\<lambda>s. do {
     s \<leftarrow> Stream_Zero s 16;
     s \<leftarrow> Stream_Write_UINT32 s 0;
     s \<leftarrow> Stream_Write_UINT16 s 1;
     s \<leftarrow> Stream_Write_UINT16 s 20;
     s \<leftarrow> Stream_Write_UINT16 s 0;
     s \<leftarrow> Stream_Write_UINT16 s 1;
     s \<leftarrow> Stream_Write_UINT16 s 0;
     s \<leftarrow> Stream_Write_UINT16 s (order_flags st);
     s \<leftarrow> (do { orders \<leftarrow> mem_read (OrderSupport st) 0 32; Stream_Write s orders });
     s \<leftarrow> Stream_Write_UINT16 s 0;
     s \<leftarrow> Stream_Write_UINT16 s (order_ex_flags st);
     s \<leftarrow> Stream_Write_UINT32 s 0;
     s \<leftarrow> Stream_Write_UINT32 s 230400;
     s \<leftarrow> Stream_Write_UINT16 s 0;
     s \<leftarrow> Stream_Write_UINT16 s 0;
     s \<leftarrow> Stream_Write_UINT16 s (if ServerMode st then 0 else 65001);
     Stream_Write_UINT16 s 0 }) st"

definition rdp_write_bitmap_cache_capability_set :: "alloc \<Rightarrow> capSettings step" where
  "rdp_write_bitmap_cache_capability_set al st = rdp_capset al 64 CAPSET_TYPE_BITMAP_CACHE (\<lambda>s. do {
     let bpp = (ColorDepth st + 7) div 8;
     s \<leftarrow> Stream_Write_UINT32 s 0;
     s \<leftarrow> Stream_Write_UINT32 s 0;
     s \<leftarrow> Stream_Write_UINT32 s 0;
     s \<leftarrow> Stream_Write_UINT32 s 0;
     s \<leftarrow> Stream_Write_UINT32 s 0;
     s \<leftarrow> Stream_Write_UINT32 s 0;
     s \<leftarrow> Stream_Write_UINT16 s 200;
     s \<leftarrow> Stream_Write_UINT16 s (ucast (bpp * 256));
     s \<leftarrow> Stream_Write_UINT16 s 600;
     s \<leftarrow> Stream_Write_UINT16 s (ucast (bpp * 1024));
     s \<leftarrow> Stream_Write_UINT16 s 1000;
     Stream_Write_UINT16 s (ucast (bpp * 4096)) }) st"

definition rdp_write_control_capability_set :: "alloc \<Rightarrow> capSettings step" where
  "rdp_write_control_capability_set al st = rdp_capset al 32 CAPSET_TYPE_CONTROL (\<lambda>s. do {
     s \<leftarrow> Stream_Write_UINT16 s 0;
     s \<leftarrow> Stream_Write_UINT16 s 0;
     s \<leftarrow> Stream_Write_UINT16 s 2;
     Stream_Write_UINT16 s 2 }) st"

definition rdp_write_window_activation_capability_set :: "alloc \<Rightarrow> capSettings step" where
  "rdp_write_window_activation_capability_set al st = rdp_capset al 32 CAPSET_TYPE_ACTIVATION (\<lambda>s. do {
     s \<leftarrow> Stream_Write_UINT16 s 0;
     s \<leftarrow> Stream_Write_UINT16 s 0;
     s \<leftarrow> Stream_Write_UINT16 s 0;
     Stream_Write_UINT16 s 0 }) st"

definition rdp_write_pointer_capability_set :: "alloc \<Rightarrow> capSettings step" where
  "rdp_write_pointer_capability_set al st = rdp_capset al 32 CAPSET_TYPE_POINTER (\<lambda>s. do {
     s \<leftarrow> Stream_Write_UINT16 s (if ColorPointerFlag st then 1 else 0);
     s \<leftarrow> Stream_Write_UINT16 s (ucast (PointerCacheSize st));
     (if LargePointerFlag st \<noteq> 0 then Stream_Write_UINT16 s (ucast (PointerCacheSize st)) else Some s) }) st"

definition rdp_write_share_capability_set :: "alloc \<Rightarrow> capSettings step" where
  "rdp_write_share_capability_set al st = rdp_capset al 32 CAPSET_TYPE_SHARE (\<lambda>s. do {
     s \<leftarrow> Stream_Write_UINT16 s (if ServerMode st then 0x03EA else 0);
     Stream_Write_UINT16 s 0 }) st"

definition rdp_write_color_cache_capability_set :: "alloc \<Rightarrow> capSettings step" where
  "rdp_write_color_cache_capability_set al st = rdp_capset al 32 CAPSET_TYPE_COLOR_CACHE (\<lambda>s. do {
     s \<leftarrow> Stream_Write_UINT16 s 6;
     Stream_Write_UINT16 s 0 }) st"

definition rdp_write_sound_capability_set :: "alloc \<Rightarrow> capSettings step" where
  "rdp_write_sound_capability_set al st = rdp_capset al 32 CAPSET_TYPE_SOUND (\<lambda>s. do {
     s \<leftarrow> Stream_Write_UINT16 s (if SoundBeepsEnabled st then 1 else 0);
     Stream_Write_UINT16 s 0 }) st"

definition rdp_write_input_capability_set :: "alloc \<Rightarrow> capSettings step" where
  "rdp_write_input_capability_set al st = rdp_capset al 128 CAPSET_TYPE_INPUT (\<lambda>s. do {
     s \<leftarrow> Stream_Write_UINT16 s (input_flags st);
     s \<leftarrow> Stream_Write_UINT16 s 0;
     s \<leftarrow> Stream_Write_UINT32 s (KeyboardLayout st);
     s \<leftarrow> Stream_Write_UINT32 s (KeyboardType st);
     s \<leftarrow> Stream_Write_UINT32 s (KeyboardSubType st);
     s \<leftarrow> Stream_Write_UINT32 s (KeyboardFunctionKey st);
     Stream_Zero s 64 }) st"

definition rdp_write_font_capability_set :: "alloc \<Rightarrow> capSettings step" where
  "rdp_write_font_capability_set al st = rdp_capset al 32 CAPSET_TYPE_FONT (\<lambda>s. do {
     s \<leftarrow> Stream_Write_UINT16 s 1;
     Stream_Write_UINT16 s 0 }) st"

definition rdp_write_brush_capability_set :: "alloc \<Rightarrow> capSettings step" where
  "rdp_write_brush_capability_set al st = rdp_capset al 32 CAPSET_TYPE_BRUSH (\<lambda>s. do {
     Stream_Write_UINT32 s 2 }) st"

definition rdp_write_glyph_cache_capability_set :: "alloc \<Rightarrow> capSettings step" where
  "rdp_write_glyph_cache_capability_set al st = rdp_capset al 64 CAPSET_TYPE_GLYPH_CACHE (\<lambda>s. do {
     s \<leftarrow> write_elements rdp_write_cache_definition (GlyphCache st) 0 10 s;
     s \<leftarrow> rdp_write_cache_definition (FragCache st) s;
     s \<leftarrow> Stream_Write_UINT16 s (ucast (GlyphSupportLevel st));
     Stream_Write_UINT16 s 0 }) st"

definition rdp_write_offscreen_bitmap_cache_capability_set :: "alloc \<Rightarrow> capSettings step" where
  "rdp_write_offscreen_bitmap_cache_capability_set al st = rdp_capset al 32 CAPSET_TYPE_OFFSCREEN_CACHE (\<lambda>s. do {
     s \<leftarrow> Stream_Write_UINT32 s (if OffscreenSupportLevel st \<noteq> 0 then 1 else 0);
     s \<leftarrow> Stream_Write_UINT16 s (ucast (OffscreenCacheSize st));
     Stream_Write_UINT16 s (ucast (OffscreenCacheEntries st)) }) st"

definition rdp_write_bitmap_cache_host_support_capability_set :: "alloc \<Rightarrow> capSettings step" where
  "rdp_write_bitmap_cache_host_support_capability_set al st = rdp_capset al 32 CAPSET_TYPE_BITMAP_CACHE_HOST_SUPPORT (\<lambda>s. do {
     s \<leftarrow> Stream_Write_UINT8 s 1;
     s \<leftarrow> Stream_Write_UINT8 s 0;
     Stream_Write_UINT16 s 0 }) st"

definition rdp_write_bitmap_cache_v2_capability_set :: "alloc \<Rightarrow> capSettings step" where
  "rdp_write_bitmap_cache_v2_capability_set al st = rdp_capset al 64 CAPSET_TYPE_BITMAP_CACHE_V2 (\<lambda>s. do {
     s \<leftarrow> Stream_Write_UINT16 s (if BitmapCachePersistEnabled st then 3 else 2);
     s \<leftarrow> Stream_Write_UINT8 s 0;
     s \<leftarrow> Stream_Write_UINT8 s (ucast (BitmapCacheV2NumCells st));
     s \<leftarrow> write_elements rdp_write_bitmap_cache_cell_info (BitmapCacheV2CellInfo st) 0 5 s;
     Stream_Zero s 12 }) st"

definition rdp_write_virtual_channel_capability_set :: "alloc \<Rightarrow> capSettings step" where
  "rdp_write_virtual_channel_capability_set al st = rdp_capset al 32 CAPSET_TYPE_VIRTUAL_CHANNEL (\<lambda>s. do {
     s \<leftarrow> Stream_Write_UINT32 s 0;
     Stream_Write_UINT32 s (VirtualChannelChunkSize st) }) st"

definition rdp_write_draw_nine_grid_cache_capability_set :: "alloc \<Rightarrow> capSettings step" where
  "rdp_write_draw_nine_grid_cache_capability_set al st = rdp_capset al 32 CAPSET_TYPE_DRAW_NINE_GRID_CACHE (\<lambda>s. do {
     s \<leftarrow> Stream_Write_UINT32 s (if DrawNineGridEnabled st then 2 else 0);
     s \<leftarrow> Stream_Write_UINT16 s (ucast (DrawNineGridCacheSize st));
     Stream_Write_UINT16 s (ucast (DrawNineGridCacheEntries st)) }) st"

definition rdp_write_gdiplus_cache_entries :: "u16 \<Rightarrow> u16 \<Rightarrow> u16 \<Rightarrow> u16 \<Rightarrow> u16 \<Rightarrow> wStream \<Rightarrow> wStream option" where
  "rdp_write_gdiplus_cache_entries gce bce pce ice ace s = do {
     s \<leftarrow> Stream_Write_UINT16 s gce;
     s \<leftarrow> Stream_Write_UINT16 s bce;
     s \<leftarrow> Stream_Write_UINT16 s pce;
     s \<leftarrow> Stream_Write_UINT16 s ice;
     Stream_Write_UINT16 s ace }"

definition rdp_write_gdiplus_cache_chunk_size :: "u16 \<Rightarrow> u16 \<Rightarrow> u16 \<Rightarrow> u16 \<Rightarrow> wStream \<Rightarrow> wStream option" where
  "rdp_write_gdiplus_cache_chunk_size gccs obccs opccs oiaccs s = do {
     s \<leftarrow> Stream_Write_UINT16 s gccs;
     s \<leftarrow> Stream_Write_UINT16 s obccs;
     s \<leftarrow> Stream_Write_UINT16 s opccs;
     Stream_Write_UINT16 s oiaccs }"

definition rdp_write_gdiplus_image_cache_properties :: "u16 \<Rightarrow> u16 \<Rightarrow> u16 \<Rightarrow> wStream \<Rightarrow> wStream option" where
  "rdp_write_gdiplus_image_cache_properties oiccs oicts oicms s = do {
     s \<leftarrow> Stream_Write_UINT16 s oiccs;
     s \<leftarrow> Stream_Write_UINT16 s oicts;
     Stream_Write_UINT16 s oicms }"

definition rdp_write_draw_gdiplus_cache_capability_set :: "alloc \<Rightarrow> capSettings step" where
  "rdp_write_draw_gdiplus_cache_capability_set al st = rdp_capset al 64 CAPSET_TYPE_DRAW_GDI_PLUS (\<lambda>s. do {
     s \<leftarrow> Stream_Write_UINT32 s (if DrawGdiPlusEnabled st then 1 else 0);
     s \<leftarrow> Stream_Write_UINT32 s 0;
     s \<leftarrow> Stream_Write_UINT32 s (if DrawGdiPlusEnabled st then 1 else 0);
     s \<leftarrow> rdp_write_gdiplus_cache_entries 10 5 5 10 2 s;
     s \<leftarrow> rdp_write_gdiplus_cache_chunk_size 512 2048 1024 64 s;
     rdp_write_gdiplus_image_cache_properties 4096 256 128 s }) st"

definition rdp_write_remote_programs_capability_set :: "alloc \<Rightarrow> capSettings step" where
  "rdp_write_remote_programs_capability_set al st = rdp_capset al 64 CAPSET_TYPE_RAIL (\<lambda>s. do {
     Stream_Write_UINT32 s (1 OR (if RemoteAppLanguageBarSupported st then 2 else 0)) }) st"

definition rdp_write_window_list_capability_set :: "alloc \<Rightarrow> capSettings step" where
  "rdp_write_window_list_capability_set al st = rdp_capset al 32 CAPSET_TYPE_WINDOW (\<lambda>s. do {
     s \<leftarrow> Stream_Write_UINT32 s 2;
     s \<leftarrow> Stream_Write_UINT8 s (ucast (RemoteAppNumIconCaches st));
     Stream_Write_UINT16 s (ucast (RemoteAppNumIconCacheEntries st)) }) st"

definition rdp_write_desktop_composition_capability_set :: "alloc \<Rightarrow> capSettings step" where
  "rdp_write_desktop_composition_capability_set al st = rdp_capset al 32 CAPSET_TYPE_COMP_DESK (\<lambda>s. do {
     Stream_Write_UINT16 s (if AllowDesktopComposition st then 1 else 0) }) st"

text \<open>A server proposes room for a whole screen.\<close>

definition multifragment_proposal :: "capSettings \<Rightarrow> capSettings" where
  "multifragment_proposal st = (if ServerMode st then
     st\<lparr>MultifragMaxRequestSize := (DesktopWidth st + 63) div 64 * ((DesktopHeight st + 63) div 64) * 16384 + 16384\<rparr> else st)"

definition rdp_write_multifragment_update_capability_set :: "alloc \<Rightarrow> capSettings step" where
  "rdp_write_multifragment_update_capability_set al = ensuring al 32 (\<lambda>st s. do {
     let st = multifragment_proposal st;
     (header, s) \<leftarrow> rdp_capability_set_start s;
     s \<leftarrow> Stream_Write_UINT32 s (MultifragMaxRequestSize st);
     s \<leftarrow> rdp_capability_set_finish s header CAPSET_TYPE_MULTI_FRAGMENT_UPDATE;
     Some ((True, st), s) })"

definition rdp_write_large_pointer_capability_set :: "alloc \<Rightarrow> capSettings step" where
  "rdp_write_large_pointer_capability_set al st = rdp_capset al 32 CAPSET_TYPE_LARGE_POINTER (\<lambda>s. do {
     Stream_Write_UINT16 s (if LargePointerFlag st \<noteq> 0 then 1 else 0) }) st"

definition rdp_write_surface_commands_capability_set :: "alloc \<Rightarrow> capSettings step" where
  "rdp_write_surface_commands_capability_set al st = rdp_capset al 32 CAPSET_TYPE_SURFACE_COMMANDS (\<lambda>s. do {
     s \<leftarrow> Stream_Write_UINT32 s (0x02 OR 0x40 OR (if SurfaceFrameMarkerEnabled st then SURFCMDS_FRAME_MARKER else 0));
     Stream_Write_UINT32 s 0 }) st"

definition rdp_write_frame_acknowledge_capability_set :: "alloc \<Rightarrow> capSettings step" where
  "rdp_write_frame_acknowledge_capability_set al st = rdp_capset al 32 CAPSET_TYPE_FRAME_ACKNOWLEDGE (\<lambda>s. do {
     Stream_Write_UINT32 s (FrameAcknowledge st) }) st"

definition rdp_write_bitmap_cache_v3_codec_id_capability_set :: "alloc \<Rightarrow> capSettings step" where
  "rdp_write_bitmap_cache_v3_codec_id_capability_set al st = rdp_capset al 32 CAPSET_TYPE_BITMAP_CACHE_V3_CODEC_ID (\<lambda>s. do {
     Stream_Write_UINT8 s (ucast (BitmapCacheV3CodecId st)) }) st"

subsection \<open>Writing the codecs\<close>

definition rdp_write_bitmap_codec_guid :: "GUID \<Rightarrow> wStream \<Rightarrow> wStream option" where
  "rdp_write_bitmap_codec_guid g s = Stream_Write s (le_bytes32 (Data1 g) @ le_bytes16 (Data2 g) @ le_bytes16 (Data3 g) @ Data4 g)"

text \<open>The properties of one codec: make room for \<open>n\<close> bytes and write them.\<close>

definition rdp_container :: "alloc \<Rightarrow> nat \<Rightarrow> (capSettings \<Rightarrow> wStream \<Rightarrow> wStream option) \<Rightarrow> capSettings step" where
  "rdp_container al n w = ensuring al n (\<lambda>st s. do { s \<leftarrow> w st s; Some ((True, st), s) })"

definition rdp_write_rfx_icap :: "byte \<Rightarrow> byte \<Rightarrow> wStream \<Rightarrow> wStream option" where
  "rdp_write_rfx_icap codecMode entropyBits s = do {
     s \<leftarrow> Stream_Write_UINT16 s 0x0100;
     s \<leftarrow> Stream_Write_UINT16 s 0x0040;
     s \<leftarrow> Stream_Write_UINT8 s codecMode;
     s \<leftarrow> Stream_Write_UINT8 s 1;
     s \<leftarrow> Stream_Write_UINT8 s 1;
     Stream_Write_UINT8 s entropyBits }"

definition rdp_write_rfx_client_capability_container :: "alloc \<Rightarrow> capSettings step" where
  "rdp_write_rfx_client_capability_container al = rdp_container al 64 (\<lambda>st s. do {
     s \<leftarrow> Stream_Write_UINT16 s 49;
     s \<leftarrow> Stream_Write_UINT32 s 49;
     s \<leftarrow> Stream_Write_UINT32 s (if RemoteFxOnly st then 0 else CARDP_CAPS_CAPTURE_NON_CAC);
     s \<leftarrow> Stream_Write_UINT32 s 37;
     s \<leftarrow> Stream_Write_UINT16 s 0xCBC0;
     s \<leftarrow> Stream_Write_UINT32 s 8;
     s \<leftarrow> Stream_Write_UINT16 s 1;
     s \<leftarrow> Stream_Write_UINT16 s 0xCBC1;
     s \<leftarrow> Stream_Write_UINT32 s 29;
     s \<leftarrow> Stream_Write_UINT8 s 1;
     s \<leftarrow> Stream_Write_UINT16 s 0xCFC0;
     s \<leftarrow> Stream_Write_UINT16 s 2;
     s \<leftarrow> Stream_Write_UINT16 s 8;
     s \<leftarrow> rdp_write_rfx_icap (ucast (RemoteFxCodecMode st)) 1 s;
     rdp_write_rfx_icap (ucast (RemoteFxCodecMode st)) 4 s })"

definition rdp_write_nsc_client_capability_container :: "alloc \<Rightarrow> capSettings step" where
  "rdp_write_nsc_client_capability_container al = rdp_container al 8 (\<lambda>st s. do {
     s \<leftarrow> Stream_Write_UINT16 s 3;
     s \<leftarrow> Stream_Write_UINT8 s (ucast (NSCodecAllowDynamicColorFidelity st));
     s \<leftarrow> Stream_Write_UINT8 s (ucast (NSCodecAllowSubsampling st));
     Stream_Write_UINT8 s (color_loss_level (ucast (NSCodecColorLossLevel st))) })"

definition rdp_write_jpeg_client_capability_container :: "alloc \<Rightarrow> capSettings step" where
  "rdp_write_jpeg_client_capability_container al = rdp_container al 8 (\<lambda>st s. do {
     s \<leftarrow> Stream_Write_UINT16 s 1;
     Stream_Write_UINT8 s (ucast (JpegQuality st)) })"

definition rdp_write_rfx_server_capability_container :: "alloc \<Rightarrow> capSettings step" where
  "rdp_write_rfx_server_capability_container al = rdp_container al 8 (\<lambda>st s. do {
     s \<leftarrow> Stream_Write_UINT16 s 4;
     Stream_Write_UINT32 s 0 })"

definition rdp_write_jpeg_server_capability_container :: "alloc \<Rightarrow> capSettings step" where
  "rdp_write_jpeg_server_capability_container al = rdp_container al 8 (\<lambda>st s. do {
     s \<leftarrow> Stream_Write_UINT16 s 1;
     Stream_Write_UINT8 s 75 })"

definition rdp_write_nsc_server_capability_container :: "alloc \<Rightarrow> capSettings step" where
  "rdp_write_nsc_server_capability_container al = rdp_container al 8 (\<lambda>st s. do {
     s \<leftarrow> Stream_Write_UINT16 s 4;
     Stream_Write_UINT32 s 0 })"

text \<open>One codec: its GUID and id are written without a check of the capacity.\<close>

definition rdp_write_codec :: "GUID \<Rightarrow> byte \<Rightarrow> capSettings step \<Rightarrow> capSettings step \<Rightarrow> capSettings step" where
  "rdp_write_codec guid codecId server client = and_also
     (\<lambda>st s. do { s \<leftarrow> rdp_write_bitmap_codec_guid guid s; s \<leftarrow> Stream_Write_UINT8 s (if ServerMode st then 0 else codecId); Some ((True, st), s) })
     (on_server server client)"

definition only_if :: "(capSettings \<Rightarrow> bool) \<Rightarrow> capSettings step \<Rightarrow> capSettings step" where
  "only_if P f st s = (if P st then f st s else Some ((True, st), s))"

definition codec_count :: "capSettings \<Rightarrow> byte" where
  "codec_count st = (if RemoteFxCodec st then 1 else 0) + (if NSCodec st then 1 else 0) + (if JpegCodec st then 1 else 0) + (if RemoteFxImageCodec st then 1 else 0)"

definition rdp_write_codecs :: "(nat \<Rightarrow> alloc) \<Rightarrow> capSettings step" where
  "rdp_write_codecs al = steps [
     only_if RemoteFxCodec (rdp_write_codec CODEC_GUID_REMOTEFX 3 (rdp_write_rfx_server_capability_container (al 0)) (rdp_write_rfx_client_capability_container (al 0))),
     only_if NSCodec (rdp_write_codec CODEC_GUID_NSCODEC 1 (rdp_write_nsc_server_capability_container (al 1)) (rdp_write_nsc_client_capability_container (al 1))),
     only_if JpegCodec (rdp_write_codec CODEC_GUID_JPEG 2 (rdp_write_jpeg_server_capability_container (al 2)) (rdp_write_jpeg_client_capability_container (al 2))),
     only_if RemoteFxImageCodec (rdp_write_codec CODEC_GUID_IMAGE_REMOTEFX 4 (rdp_write_rfx_server_capability_container (al 3)) (rdp_write_rfx_client_capability_container (al 3)))]"

definition rdp_write_bitmap_codecs_capability_set :: "(nat \<Rightarrow> alloc) \<Rightarrow> capSettings step" where
  "rdp_write_bitmap_codecs_capability_set al = ensuring (al 4) 64 (\<lambda>st s. do {
     (header, s) \<leftarrow> rdp_capability_set_start s;
     s \<leftarrow> Stream_Write_UINT8 s (codec_count st);
     ((ok, st), s) \<leftarrow> rdp_write_codecs al st s;
     (if \<not> ok then Some ((False, st), s)
      else do {
        s \<leftarrow> rdp_capability_set_finish s header CAPSET_TYPE_BITMAP_CODECS;
        Some ((True, st), s) }) })"

subsection \<open>The PDUs\<close>

text \<open>The settings and \<open>numberCapabilities\<close>; one set that is written when \<open>P\<close> holds, or when it is always sent.\<close>

type_synonym active = "capSettings \<times> u16"

definition rdp_set :: "capSettings step \<Rightarrow> active step" where
  "rdp_set f = on_field fst (\<lambda>st (_, numberCapabilities). (st, numberCapabilities)) f"

definition rdp_set_if :: "bool \<Rightarrow> (capSettings \<Rightarrow> bool) \<Rightarrow> u16 \<Rightarrow> capSettings step \<Rightarrow> active step" where
  "rdp_set_if received P n f a s =
     (if received \<and> P (fst a) then rdp_set f (fst a, snd a + n) s else Some ((True, a), s))"

text \<open>
  The places of \<open>lengthCombinedCapabilities\<close> (\<open>lm\<close>) and \<open>numberCapabilities\<close> (\<open>bm\<close>) are skipped, the sets written, and the
  two numbers put into their places.
\<close>

definition rdp_write_combined :: "byte list \<Rightarrow> u16 \<Rightarrow> active step \<Rightarrow> capSettings step" where
  "rdp_write_combined sourceDescriptor numberCapabilities sets st s = do {
     let lm = Stream_GetPosition s;
     s \<leftarrow> Stream_Write (Stream_Seek s 2) sourceDescriptor;
     let bm = Stream_GetPosition s;
     s \<leftarrow> Stream_Write_UINT16 (Stream_Seek s 2) 0;
     ((ok, st, n), s) \<leftarrow> sets (st, numberCapabilities) s;
     (if \<not> ok then Some ((False, st), s)
      else do {
        let em = Stream_GetPosition s;
        s \<leftarrow> Stream_Write_UINT16 (Stream_SetPosition s lm) (word_of_int (int em - int bm));
        s \<leftarrow> Stream_Write_UINT16 (Stream_SetPosition s bm) n;
        Some ((True, st), Stream_SetPosition s em) }) }"

text \<open>\<open>al i\<close> is the allocator that the \<open>i\<close>-th set uses, \<open>cod\<close> the ones of the codecs.\<close>

definition rdp_demand_sets :: "(nat \<Rightarrow> alloc) \<Rightarrow> (nat \<Rightarrow> alloc) \<Rightarrow> active step" where
  "rdp_demand_sets al cod = steps [
     rdp_set (rdp_write_general_capability_set (al 0)),
     rdp_set (rdp_write_bitmap_capability_set (al 1)),
     rdp_set (rdp_write_order_capability_set (al 2)),
     rdp_set (rdp_write_pointer_capability_set (al 3)),
     rdp_set (rdp_write_input_capability_set (al 4)),
     rdp_set (rdp_write_virtual_channel_capability_set (al 5)),
     rdp_set (rdp_write_share_capability_set (al 6)),
     rdp_set (rdp_write_font_capability_set (al 7)),
     rdp_set (rdp_write_multifragment_update_capability_set (al 8)),
     rdp_set (rdp_write_large_pointer_capability_set (al 9)),
     rdp_set (rdp_write_desktop_composition_capability_set (al 10)),
     rdp_set (rdp_write_surface_commands_capability_set (al 11)),
     rdp_set (rdp_write_bitmap_codecs_capability_set cod),
     rdp_set (rdp_write_frame_acknowledge_capability_set (al 12)),
     rdp_set_if True BitmapCachePersistEnabled 1 (rdp_write_bitmap_cache_host_support_capability_set (al 13))]"

definition rdp_write_demand_active :: "(nat \<Rightarrow> alloc) \<Rightarrow> (nat \<Rightarrow> alloc) \<Rightarrow> capSettings step" where
  "rdp_write_demand_active al cod = ensuring (al 14) 64 (\<lambda>st s. do {
     s \<leftarrow> Stream_Write_UINT32 s (ShareId st);
     s \<leftarrow> Stream_Write_UINT16 s 4;
     ((ok, st), s) \<leftarrow> rdp_write_combined [0x52, 0x44, 0x50, 0] 14 (rdp_demand_sets al cod) st s;
     (if ok then do { s \<leftarrow> Stream_Write_UINT32 s 0; Some ((True, st), s) } else Some ((False, st), s)) })"

definition SOURCE_DESCRIPTOR :: "byte list" where
  "SOURCE_DESCRIPTOR = [0x46, 0x52, 0x45, 0x45, 0x52, 0x44, 0x50, 0]"

text \<open>\<open>rc\<close> holds the 32 bytes of \<open>ReceivedCapabilities\<close>, which no writer changes.\<close>

definition rdp_confirm_sets :: "byte list \<Rightarrow> (nat \<Rightarrow> alloc) \<Rightarrow> (nat \<Rightarrow> alloc) \<Rightarrow> active step" where
  "rdp_confirm_sets rc al cod = steps [
     rdp_set (rdp_write_general_capability_set (al 0)),
     rdp_set (rdp_write_bitmap_capability_set (al 1)),
     rdp_set (rdp_write_order_capability_set (al 2)),
     rdp_set (\<lambda>st. if RdpVersion st \<ge> 5 then rdp_write_bitmap_cache_v2_capability_set (al 3) st else rdp_write_bitmap_cache_capability_set (al 3) st),
     rdp_set (rdp_write_pointer_capability_set (al 4)),
     rdp_set (rdp_write_input_capability_set (al 5)),
     rdp_set (rdp_write_brush_capability_set (al 6)),
     rdp_set (rdp_write_glyph_cache_capability_set (al 7)),
     rdp_set (rdp_write_virtual_channel_capability_set (al 8)),
     rdp_set (rdp_write_sound_capability_set (al 9)),
     rdp_set (rdp_write_share_capability_set (al 10)),
     rdp_set (rdp_write_font_capability_set (al 11)),
     rdp_set (rdp_write_control_capability_set (al 12)),
     rdp_set (rdp_write_color_cache_capability_set (al 13)),
     rdp_set (rdp_write_window_activation_capability_set (al 14)),
     rdp_set_if True (\<lambda>st. OffscreenSupportLevel st \<noteq> 0) 1 (rdp_write_offscreen_bitmap_cache_capability_set (al 15)),
     rdp_set_if True DrawNineGridEnabled 1 (rdp_write_draw_nine_grid_cache_capability_set (al 16)),
     rdp_set_if (rc ! 0x1B \<noteq> 0) (\<lambda>st. LargePointerFlag st \<noteq> 0) 1 (rdp_write_large_pointer_capability_set (al 17)),
     rdp_set_if True RemoteApplicationMode 2 (and_also (rdp_write_remote_programs_capability_set (al 18)) (rdp_write_window_list_capability_set (al 19))),
     rdp_set_if (rc ! 0x1A \<noteq> 0) (\<lambda>_. True) 1 (rdp_write_multifragment_update_capability_set (al 20)),
     rdp_set_if (rc ! 0x1C \<noteq> 0) (\<lambda>_. True) 1 (rdp_write_surface_commands_capability_set (al 21)),
     rdp_set_if (rc ! 0x1D \<noteq> 0) (\<lambda>_. True) 1 (rdp_write_bitmap_codecs_capability_set cod),
     rdp_set (assign (\<lambda>st. if rc ! 0x1E = 0 then st\<lparr>FrameAcknowledge := 0\<rparr> else st)),
     rdp_set_if True (\<lambda>st. FrameAcknowledge st \<noteq> 0) 1 (rdp_write_frame_acknowledge_capability_set (al 22)),
     rdp_set_if (rc ! 0x06 \<noteq> 0) (\<lambda>st. BitmapCacheV3CodecId st \<noteq> 0) 1 (rdp_write_bitmap_cache_v3_codec_id_capability_set (al 23))]"

definition rdp_write_confirm_active :: "(nat \<Rightarrow> alloc) \<Rightarrow> (nat \<Rightarrow> alloc) \<Rightarrow> capSettings step" where
  "rdp_write_confirm_active al cod st s = do {
     rc \<leftarrow> mem_read (ReceivedCapabilities st) 0 32;
     s \<leftarrow> Stream_Write_UINT32 s (ShareId st);
     s \<leftarrow> Stream_Write_UINT16 s 0x03EA;
     s \<leftarrow> Stream_Write_UINT16 s 8;
     rdp_write_combined SOURCE_DESCRIPTOR 15 (rdp_confirm_sets rc al cod) st s }"

end
