(* ===== verification/GccBytes.thy ===== *)
theory GccBytes
  imports GccSafe
begin

text \<open>
  The bytes that the client of \<open>gcc.c\<close> writes: every writer appends a fixed list of bytes when there is
  room for it and faults otherwise.
\<close>

subsection \<open>Writers\<close>

definition writes :: "byte list \<Rightarrow> (wStream \<Rightarrow> wStream option) \<Rightarrow> bool" where
  "writes W w \<longleftrightarrow> (\<forall>s. Stream_room s 0 \<longrightarrow> w s = (if Stream_room s (length W) then Some (Stream_put W s) else None))"

named_theorems writes_intros \<open>rules that establish \<open>writes\<close>\<close>

lemma writesD: "writes W w \<Longrightarrow> Stream_room s 0 \<Longrightarrow> w s = (if Stream_room s (length W) then Some (Stream_put W s) else None)"
  by (simp add: writes_def)

lemma writes_bind [writes_intros]:
  assumes "writes A f" "writes B g"
  shows "writes (A @ B) (\<lambda>s. f s \<bind> g)"
  unfolding writes_def
proof (intro allI impI)
  fix s assume s: "Stream_room s 0"
  show "f s \<bind> g = (if Stream_room s (length (A @ B)) then Some (Stream_put (A @ B) s) else None)"
    using s by (cases "Stream_room s (length A)") (auto simp: writesD [OF assms(1)] writesD [OF assms(2)])
qed

lemma writes_prims [writes_intros]:
  "writes [b] (\<lambda>s. Stream_Write_UINT8 s b)" "writes (le_bytes16 v) (\<lambda>s. Stream_Write_UINT16 s v)"
  "writes (le_bytes32 w) (\<lambda>s. Stream_Write_UINT32 s w)" "writes bs (\<lambda>s. Stream_Write s bs)" "writes (replicate n 0) (\<lambda>s. Stream_Zero s n)"
  by (simp_all add: writes_def Write_UINT_put Stream_Write_put Stream_Zero_def)

lemma writes_nothing [writes_intros]: "writes [] Some"
  by (simp add: writes_def)

lemma writes_if [writes_intros]: "(b \<Longrightarrow> writes A f) \<Longrightarrow> (\<not> b \<Longrightarrow> writes B g) \<Longrightarrow> writes (if b then A else B) (\<lambda>s. if b then f s else g s)"
  by (cases b) simp_all


lemma writes_cong: "writes A f \<Longrightarrow> A = B \<Longrightarrow> writes B f"
  by simp

lemma writes_elements:
  assumes "\<And>x. x \<in> set xs \<Longrightarrow> writes (enc x) (w x)"
  shows "i + n \<le> length xs \<Longrightarrow> writes (concat (map enc (take n (drop i xs)))) (write_elements w xs i n)"
proof (induction n arbitrary: i)
  case 0
  then show ?case by (simp add: writes_def)
next
  case (Suc n)
  have "writes (enc (xs ! i) @ concat (map enc (take n (drop (Suc i) xs)))) (\<lambda>s. w (xs ! i) s \<bind> write_elements w xs (Suc i) n)"
    using Suc by (intro writes_bind assms) auto
  moreover have "take (Suc n) (drop i xs) = xs ! i # take n (drop (Suc i) xs)" using Suc.prems by (simp add: Cons_nth_drop_Suc [symmetric])
  ultimately show ?case using Suc.prems by simp
qed

text \<open>A data block: its type, its length with the four bytes of the header, its body.\<close>

definition gcc_block :: "u16 \<Rightarrow> byte list \<Rightarrow> byte list" where
  "gcc_block type body = le_bytes16 type @ le_bytes16 (word_of_nat (4 + length body)) @ body"

lemma length_gcc_block [simp]: "length (gcc_block type body) = 4 + length body"
  by (simp add: gcc_block_def)

lemma writes_header [writes_intros]: "writes (le_bytes16 type @ le_bytes16 len) (\<lambda>s. gcc_write_user_data_header s type len)"
  unfolding gcc_write_user_data_header_def by (intro writes_intros)

lemma writes_block:
  assumes "writes body w" "len = word_of_nat (4 + length body)"
  shows "writes (gcc_block type body) (\<lambda>s. gcc_write_user_data_header s type len \<bind> w)"
  unfolding gcc_block_def assms(2) [symmetric] append_assoc [symmetric] by (intro writes_intros assms(1))

subsection \<open>The blocks of the client\<close>

definition cluster_body :: "rdpSettings \<Rightarrow> byte list" where
  "cluster_body st = le_bytes32 (1 OR push_bit 2 3 OR (if ConsoleSession st \<or> RedirectedSessionId st \<noteq> 0 then 2 else 0)) @ le_bytes32 (RedirectedSessionId st)"

lemma writes_cluster: "writes (gcc_block 0xC004 (cluster_body (settings m))) (gcc_write_client_cluster_data m)"
  unfolding gcc_write_client_cluster_data_def [abs_def] cluster_body_def Let_def
  by (rule writes_block) (intro writes_intros, simp)

definition security_body :: "rdpSettings \<Rightarrow> byte list" where
  "security_body st = (if UseRdpSecurityLayer st then le_bytes32 (EncryptionMethods st) @ le_bytes32 0 else le_bytes32 0 @ le_bytes32 (EncryptionMethods st))"

lemma length_fixed_bodies [simp]: "length (cluster_body st) = 8" "length (security_body st) = 8"
  by (simp_all add: cluster_body_def security_body_def)

lemma writes_security: "writes (gcc_block 0xC002 (security_body (settings m))) (gcc_write_client_security_data m)"
  unfolding gcc_write_client_security_data_def [abs_def] security_body_def Let_def
  by (rule writes_block) (intro writes_intros, simp)

definition channel_def_bytes :: "rdpMcsChannel \<Rightarrow> byte list" where
  "channel_def_bytes c = chan_Name c @ le_bytes32 (chan_options c)"

definition network_body :: "gccMcs \<Rightarrow> byte list" where
  "network_body m = le_bytes32 (channelCount m) @ concat (map channel_def_bytes (take (unat (channelCount m)) (channels m)))"

text \<open>The channels of the client: at most as many as there are in the array, each with a name of eight bytes.\<close>

definition channels_ok :: "gccMcs \<Rightarrow> bool" where
  "channels_ok m \<longleftrightarrow> unat (channelCount m) \<le> length (channels m) \<and> unat (channelCount m) \<le> 30 \<and> (\<forall>c\<in>set (channels m). length (chan_Name c) = 8)"

lemma length_concat_map: "(\<forall>x\<in>set xs. length (f x) = k) \<Longrightarrow> length (concat (map f xs)) = k * length xs"
  by (induction xs) auto

lemma length_network_body:
  assumes "channels_ok m"
  shows "length (network_body m) = 4 + 12 * unat (channelCount m)"
  using assms length_concat_map [of "take (unat (channelCount m)) (channels m)" channel_def_bytes 12]
  by (auto simp: network_body_def channels_ok_def channel_def_bytes_def dest: in_set_takeD)

lemma writes_network:
  assumes "channels_ok m"
  shows "writes (if channelCount m > 0 then gcc_block 0xC003 (network_body m) else []) (gcc_write_client_network_data m)"
proof -
  have w: "writes (concat (map channel_def_bytes (take (unat (channelCount m)) (drop 0 (channels m)))))
      (write_elements gcc_write_channel_def (channels m) 0 (unat (channelCount m)))"
    using assms unfolding gcc_write_channel_def_def [abs_def] channel_def_bytes_def
    by (intro writes_elements writes_intros) (simp add: channels_ok_def)
  have "unat (channelCount m * 12 + 8) = 4 + length (network_body m)"
    using assms by (simp add: length_network_body unat_word_ariths channels_ok_def)
  then have l: "(ucast (channelCount m * 12 + 8) :: u16) = word_of_nat (4 + length (network_body m))" by (metis of_nat_unat)
  show ?thesis unfolding gcc_write_client_network_data_def [abs_def]
    using w l by (intro writes_if writes_block writes_nothing) (auto simp: network_body_def intro: writes_intros)
qed


definition monitor_bytes :: "rdpMonitor \<Rightarrow> byte list" where
  "monitor_bytes m = le_bytes32 (mon_x m) @ le_bytes32 (mon_y m) @ le_bytes32 (mon_x m + mon_width m - 1) @ le_bytes32 (mon_y m + mon_height m - 1) @
     le_bytes32 (if is_primary m \<noteq> 0 then 1 else 0)"

definition attributes_bytes :: "rdpMonitor \<Rightarrow> byte list" where
  "attributes_bytes m = le_bytes32 (physicalWidth (attributes m)) @ le_bytes32 (physicalHeight (attributes m)) @ le_bytes32 (orientation (attributes m)) @
     le_bytes32 (desktopScaleFactor (attributes m)) @ le_bytes32 (deviceScaleFactor (attributes m))"

definition monitors :: "rdpSettings \<Rightarrow> rdpMonitor list" where
  "monitors st = take (nat (MonitorCount st)) (MonitorDefArray st)"

definition monitors_ok :: "rdpSettings \<Rightarrow> bool" where
  "monitors_ok st \<longleftrightarrow> 0 \<le> MonitorCount st \<and> nat (MonitorCount st) \<le> length (MonitorDefArray st) \<and> MonitorCount st < 3000"

lemma length_monitors: "monitors_ok st \<Longrightarrow> int (length (monitors st)) = MonitorCount st"
  by (simp add: monitors_def monitors_ok_def)

definition monitor_body :: "rdpSettings \<Rightarrow> byte list" where
  "monitor_body st = le_bytes32 0 @ le_bytes32 (word_of_int (MonitorCount st)) @ concat (map monitor_bytes (monitors st))"

definition monitor_ex_body :: "rdpSettings \<Rightarrow> byte list" where
  "monitor_ex_body st = le_bytes32 0 @ le_bytes32 20 @ le_bytes32 (word_of_int (MonitorCount st)) @ concat (map attributes_bytes (monitors st))"

lemma length_monitor_bodies:
  "length (monitor_body st) = 8 + 20 * length (monitors st)" "length (monitor_ex_body st) = 12 + 20 * length (monitors st)"
  using length_concat_map [of "monitors st" monitor_bytes 20] length_concat_map [of "monitors st" attributes_bytes 20]
  by (simp_all add: monitor_body_def monitor_ex_body_def monitor_bytes_def attributes_bytes_def)

lemma word_of_int_len: "i = int n \<Longrightarrow> word_of_int i = word_of_nat n"
  by simp

lemma writes_monitor:
  assumes "monitors_ok (settings m)"
  shows "writes (if MonitorCount (settings m) > 1 then gcc_block 0xC005 (monitor_body (settings m)) else []) (gcc_write_client_monitor_data m)"
    "writes (if HasMonitorAttributes (settings m) then gcc_block 0xC008 (monitor_ex_body (settings m)) else []) (gcc_write_client_monitor_extended_data m)"
proof -
  let ?st = "settings m"
  have n: "0 + nat (MonitorCount ?st) \<le> length (MonitorDefArray ?st)" using assms by (simp add: monitors_ok_def)
  have "writes (concat (map monitor_bytes (take (nat (MonitorCount ?st)) (drop 0 (MonitorDefArray ?st)))))
      (write_elements gcc_write_monitor_def (MonitorDefArray ?st) 0 (nat (MonitorCount ?st)))"
    unfolding gcc_write_monitor_def_def [abs_def] monitor_bytes_def by (rule writes_elements [OF _ n]) (intro writes_intros)
  moreover have "writes (concat (map attributes_bytes (take (nat (MonitorCount ?st)) (drop 0 (MonitorDefArray ?st)))))
      (write_elements gcc_write_attributes (MonitorDefArray ?st) 0 (nat (MonitorCount ?st)))"
    unfolding gcc_write_attributes_def [abs_def] attributes_bytes_def by (rule writes_elements [OF _ n]) (intro writes_intros)
  moreover have "(word_of_int (20 * MonitorCount ?st + 12) :: u16) = word_of_nat (4 + length (monitor_body ?st))"
      "(word_of_int (20 * MonitorCount ?st + 16) :: u16) = word_of_nat (4 + length (monitor_ex_body ?st))"
    using length_monitors [OF assms] by (intro word_of_int_len, simp add: length_monitor_bodies)+
  ultimately show
    "writes (if MonitorCount ?st > 1 then gcc_block 0xC005 (monitor_body ?st) else []) (gcc_write_client_monitor_data m)"
    "writes (if HasMonitorAttributes ?st then gcc_block 0xC008 (monitor_ex_body ?st) else []) (gcc_write_client_monitor_extended_data m)"
    unfolding gcc_write_client_monitor_data_def [abs_def] gcc_write_client_monitor_extended_data_def [abs_def]
    by (intro writes_if writes_block writes_nothing; auto simp: monitor_body_def monitor_ex_body_def monitors_def intro!: writes_intros)+
qed

definition sends_message_channel :: "rdpSettings \<Rightarrow> bool" where
  "sends_message_channel st \<longleftrightarrow> NetworkAutoDetect st \<or> SupportHeartbeatPdu st \<or> SupportMultitransport st"

lemma writes_channels:
  "writes (if sends_message_channel (settings m) then gcc_block 0xC006 (le_bytes32 0) else []) (gcc_write_client_message_channel_data m)"
  "writes (if MultitransportFlags (settings m) \<noteq> 0 then gcc_block 0xC00A (le_bytes32 (MultitransportFlags (settings m))) else [])
    (gcc_write_client_multitransport_channel_data m)"
  unfolding gcc_write_client_message_channel_data_def [abs_def] gcc_write_client_multitransport_channel_data_def [abs_def] sends_message_channel_def
  by (intro writes_if writes_block writes_intros, simp)+


subsection \<open>Core data\<close>

text \<open>A name in a field of \<open>lim\<close> units: at most \<open>lim - 1\<close> units of it, then zeros.\<close>

definition name_units :: "nat \<Rightarrow> WCHAR list \<Rightarrow> WCHAR list" where
  "name_units lim u = take (lim - 1) u @ replicate (lim - min (lim - 1) (length u)) 0"

lemma length_name_units: "0 < lim \<Longrightarrow> length (name_units lim u) = lim"
  by (simp add: name_units_def min_def)

lemma length_wbytes [simp]: "length (wbytes ws) = 2 * length ws"
  by (induction ws) (simp_all add: wbytes_def)

lemma wbytes_append: "wbytes (a @ b) = wbytes a @ wbytes b"
  by (simp add: wbytes_def)

lemma wbytes_zeros: "wbytes (replicate n 0) = replicate (2 * n) 0"
  by (induction n) (simp_all add: wbytes_def le_bytes16_def)

lemma writes_name:
  assumes "0 < lim"
  shows "writes (wbytes (name_units lim u)) (gcc_write_name lim (int (length u) + 1) (Some (u @ [0, 0])))"
proof (cases "int (length u) + 1 \<ge> int lim")
  case True
  have l: "Suc (length (take (lim - 1) u)) = lim" using True assms by auto
  have m: "(u @ [0, 0])[lim - 1 := 0] = take (lim - 1) u @ 0 # drop lim (u @ [0, 0])"
    using True assms by (subst upd_conv_take_nth_drop) simp_all
  have r: "mem_read ((u @ [0, 0])[lim - 1 := 0]) 0 lim = Some (take (lim - 1) u @ [0])"
    using mem_string [of "take (lim - 1) u"] l unfolding m by metis
  have n: "name_units lim u = take (lim - 1) u @ [0]" using True assms by (simp add: name_units_def min_def)
  have "gcc_write_name lim (int (length u) + 1) (Some (u @ [0, 0])) s = Stream_Write s (wbytes (name_units lim u)) \<bind> (\<lambda>s. Stream_Zero s 0)" for s
    using True assms r by (simp add: gcc_write_name_def n)
  moreover have "writes (wbytes (name_units lim u) @ replicate 0 0) (\<lambda>s. Stream_Write s (wbytes (name_units lim u)) \<bind> (\<lambda>s. Stream_Zero s 0))"
    by (intro writes_intros)
  ultimately show ?thesis by (simp add: writes_def)
next
  case False
  have r: "mem_read (u @ [0, 0]) 0 (nat (int (length u) + 1)) = Some (u @ [0])" by (simp add: mem_read_def nat_add_distrib)
  have z: "nat (2 * int lim - (int (length u) + 1) * 2) = 2 * (lim - (length u + 1))" using False by auto
  have n: "name_units lim u = (u @ [0]) @ replicate (lim - (length u + 1)) 0"
    using False by (simp add: name_units_def min_def Suc_diff_Suc [symmetric] replicate_app_Cons_same)
  have "gcc_write_name lim (int (length u) + 1) (Some (u @ [0, 0])) s =
      Stream_Write s (wbytes (u @ [0])) \<bind> (\<lambda>s. Stream_Zero s (2 * (lim - (length u + 1))))" for s
    using False r z by (simp add: gcc_write_name_def)
  moreover have "writes (wbytes (u @ [0]) @ replicate (2 * (lim - (length u + 1))) 0)
      (\<lambda>s. Stream_Write s (wbytes (u @ [0])) \<bind> (\<lambda>s. Stream_Zero s (2 * (lim - (length u + 1)))))"
    by (intro writes_intros)
  ultimately show ?thesis unfolding n wbytes_append [of "u @ [0]"] wbytes_zeros by (simp add: writes_def)
qed

definition core_body :: "rdpSettings \<Rightarrow> WCHAR list \<Rightarrow> WCHAR list \<Rightarrow> byte list" where
  "core_body st u v =
     le_bytes32 (if RdpVersion st \<ge> 5 then RDP_VERSION_5_PLUS else RDP_VERSION_4) @
     le_bytes16 (ucast (DesktopWidth st)) @ le_bytes16 (ucast (DesktopHeight st)) @ le_bytes16 0xCA01 @ le_bytes16 0xAA03 @
     le_bytes32 (KeyboardLayout st) @ le_bytes32 (ClientBuild st) @ wbytes (name_units 16 u) @
     le_bytes32 (KeyboardType st) @ le_bytes32 (KeyboardSubType st) @ le_bytes32 (KeyboardFunctionKey st) @ replicate 64 0 @
     le_bytes16 0xCA01 @ le_bytes16 1 @ le_bytes32 0 @ le_bytes16 (ucast (min (ColorDepth st) 24)) @ le_bytes16 (gcc_supported_depths st) @
     le_bytes16 (gcc_early_flags st (ucast (ConnectionType st))) @ wbytes (name_units 32 v) @ [ucast (ConnectionType st)] @ [0] @
     le_bytes32 (SelectedProtocol st) @ le_bytes32 (DesktopPhysicalWidth st) @ le_bytes32 (DesktopPhysicalHeight st) @
     le_bytes16 (DesktopOrientation st) @ le_bytes32 (DesktopScaleFactor st) @ le_bytes32 (DeviceScaleFactor st)"

lemma length_core_body [simp]: "length (core_body st u v) = 230"
  by (simp add: core_body_def length_name_units)

definition writes_and :: "'m \<Rightarrow> byte list \<Rightarrow> (wStream \<Rightarrow> ('m \<times> wStream) option) \<Rightarrow> bool" where
  "writes_and m W w \<longleftrightarrow> (\<forall>s. Stream_room s 0 \<longrightarrow> w s = (if Stream_room s (length W) then Some (m, Stream_put W s) else None))"

lemma writes_andD: "writes_and m W w \<Longrightarrow> Stream_room s 0 \<Longrightarrow> w s = (if Stream_room s (length W) then Some (m, Stream_put W s) else None)"
  by (simp add: writes_and_def)

lemma writes_and_bind:
  assumes "writes A f" "writes_and m B g"
  shows "writes_and m (A @ B) (\<lambda>s. f s \<bind> g)"
  unfolding writes_and_def
proof (intro allI impI)
  fix s assume s: "Stream_room s 0"
  show "f s \<bind> g = (if Stream_room s (length (A @ B)) then Some (m, Stream_put (A @ B) s) else None)"
    using s by (cases "Stream_room s (length A)") (auto simp: writesD [OF assms(1)] writes_andD [OF assms(2)])
qed

lemma writes_and_return: "writes A f \<Longrightarrow> writes_and m A (\<lambda>s. f s \<bind> (\<lambda>s. Some (m, s)))"
  by (auto simp: writes_and_def writesD)

lemma writes_and_block:
  assumes "writes_and m body w" "len = word_of_nat (4 + length body)"
  shows "writes_and m (gcc_block type body) (\<lambda>s. gcc_write_user_data_header s type len \<bind> w)"
  unfolding gcc_block_def assms(2) [symmetric] append_assoc [symmetric] by (intro writes_and_bind writes_intros assms(1))

text \<open>The strings of the client: host name and product id are the texts \<open>cs\<close> and \<open>ds\<close>.\<close>

definition client_strings :: "rdpSettings \<Rightarrow> nat list \<Rightarrow> nat list \<Rightarrow> bool" where
  "client_strings st cs ds \<longleftrightarrow> (\<exists>g. ClientHostname st = Some (utf8_text cs @ 0 # g)) \<and> (\<exists>g. ClientProductId st = Some (utf8_text ds @ 0 # g)) \<and>
     (\<forall>c\<in>set cs \<union> set ds. is_scalar c \<and> c \<noteq> 0) \<and> length (utf8_text cs) < 2 ^ 30 \<and> length (utf8_text ds) < 2 ^ 30"

lemma gcc_connection_type_sel [simp]:
  "RdpVersion (gcc_connection_type st) = RdpVersion st" "DesktopWidth (gcc_connection_type st) = DesktopWidth st"
  "DesktopHeight (gcc_connection_type st) = DesktopHeight st" "KeyboardLayout (gcc_connection_type st) = KeyboardLayout st"
  "ClientBuild (gcc_connection_type st) = ClientBuild st" "KeyboardType (gcc_connection_type st) = KeyboardType st"
  "KeyboardSubType (gcc_connection_type st) = KeyboardSubType st" "KeyboardFunctionKey (gcc_connection_type st) = KeyboardFunctionKey st"
  "ColorDepth (gcc_connection_type st) = ColorDepth st" "MonitorCount (gcc_connection_type st) = MonitorCount st"
  "MonitorDefArray (gcc_connection_type st) = MonitorDefArray st" "UseMultimon (gcc_connection_type st) = UseMultimon st"
  "SpanMonitors (gcc_connection_type st) = SpanMonitors st" "ForceMultimon (gcc_connection_type st) = ForceMultimon st"
  "NegotiationFlags (gcc_connection_type st) = NegotiationFlags st" "HasMonitorAttributes (gcc_connection_type st) = HasMonitorAttributes st"
  "NetworkAutoDetect (gcc_connection_type st) = NetworkAutoDetect st" "SupportHeartbeatPdu (gcc_connection_type st) = SupportHeartbeatPdu st"
  "SupportMultitransport (gcc_connection_type st) = SupportMultitransport st" "MultitransportFlags (gcc_connection_type st) = MultitransportFlags st"
  "SupportGraphicsPipeline (gcc_connection_type st) = SupportGraphicsPipeline st" "SupportDynamicTimeZone (gcc_connection_type st) = SupportDynamicTimeZone st"
  "SupportMonitorLayoutPdu (gcc_connection_type st) = SupportMonitorLayoutPdu st" "SelectedProtocol (gcc_connection_type st) = SelectedProtocol st"
  "DesktopPhysicalWidth (gcc_connection_type st) = DesktopPhysicalWidth st" "DesktopPhysicalHeight (gcc_connection_type st) = DesktopPhysicalHeight st"
  "DesktopOrientation (gcc_connection_type st) = DesktopOrientation st" "DesktopScaleFactor (gcc_connection_type st) = DesktopScaleFactor st"
  "DeviceScaleFactor (gcc_connection_type st) = DeviceScaleFactor st" "UseRdpSecurityLayer (gcc_connection_type st) = UseRdpSecurityLayer st"
  "EncryptionMethods (gcc_connection_type st) = EncryptionMethods st" "ConsoleSession (gcc_connection_type st) = ConsoleSession st"
  "RedirectedSessionId (gcc_connection_type st) = RedirectedSessionId st" "ClientHostname (gcc_connection_type st) = ClientHostname st"
  "ClientProductId (gcc_connection_type st) = ClientProductId st"
  by (simp_all add: gcc_connection_type_def Let_def)

lemma writes_core:
  assumes "client_strings (settings m) cs ds"
  shows "writes_and (m\<lparr>settings := gcc_connection_type (settings m)\<rparr>)
    (gcc_block 0xC001 (core_body (gcc_connection_type (settings m)) (utf16_text cs) (utf16_text ds))) (gcc_write_client_core_data (\<lambda>_. True) m)"
proof -
  let ?st = "settings m" and ?st' = "gcc_connection_type (settings m)"
  have conv: "ConvertToUnicode True (ClientHostname ?st) (-1) (Some None) 0 = Some (int (length (utf16_text cs)) + 1, Some (Some (utf16_text cs @ [0, 0])))"
    "ConvertToUnicode True (ClientProductId ?st) (-1) (Some None) 0 = Some (int (length (utf16_text ds)) + 1, Some (Some (utf16_text ds @ [0, 0])))"
    using assms ConvertToUnicode_text [of cs] ConvertToUnicode_text [of ds] by (auto simp: client_strings_def)
  have len: "(234 :: u16) = word_of_nat (4 + length (core_body ?st' (utf16_text cs) (utf16_text ds)))" by simp
  show ?thesis
    unfolding gcc_write_client_core_data_def [abs_def] Let_def conv bind.bind_lunit prod.case id_apply
    by (rule writes_and_block [OF _ len], unfold core_body_def gcc_connection_type_sel)
      (rule writes_and_bind writes_and_return writes_prims writes_name | simp)+
qed


subsection \<open>All blocks\<close>

definition sends_monitors :: "rdpSettings \<Rightarrow> bool" where
  "sends_monitors st \<longleftrightarrow> UseMultimon st \<and> \<not> SpanMonitors st \<and> (NegotiationFlags st AND EXTENDED_CLIENT_DATA_SUPPORTED \<noteq> 0 \<or> ForceMultimon st)"

definition sends_extended :: "rdpSettings \<Rightarrow> bool" where
  "sends_extended st \<longleftrightarrow> NegotiationFlags st AND EXTENDED_CLIENT_DATA_SUPPORTED \<noteq> 0"

text \<open>The blocks that the client sends, in their order, and their bytes.\<close>

definition client_blocks :: "gccMcs \<Rightarrow> nat list \<Rightarrow> nat list \<Rightarrow> (u16 \<times> byte list) list" where
  "client_blocks m cs ds = (let st = settings m in
     [(0xC001, core_body st (utf16_text cs) (utf16_text ds)), (0xC004, cluster_body st), (0xC002, security_body st)] @
     (if channelCount m > 0 then [(0xC003, network_body m)] else []) @
     (if sends_monitors st \<and> MonitorCount st > 1 then [(0xC005, monitor_body st)] else []) @
     (if sends_monitors st \<and> HasMonitorAttributes st then [(0xC008, monitor_ex_body st)] else []) @
     (if sends_extended st \<and> sends_message_channel st then [(0xC006, le_bytes32 0)] else []) @
     (if sends_extended st \<and> MultitransportFlags st \<noteq> 0 then [(0xC00A, le_bytes32 (MultitransportFlags st))] else []))"

definition blocks_bytes :: "(u16 \<times> byte list) list \<Rightarrow> byte list" where
  "blocks_bytes bs = concat (map (\<lambda>(type, body). gcc_block type body) bs)"

lemma blocks_bytes_simps [simp]:
  "blocks_bytes [] = []" "blocks_bytes ((type, body) # bs) = gcc_block type body @ blocks_bytes bs" "blocks_bytes (as @ bs) = blocks_bytes as @ blocks_bytes bs"
  by (simp_all add: blocks_bytes_def)

definition client_size :: "gccMcs \<Rightarrow> nat" where
  "client_size m = (let st = settings m in
     258 + (if channelCount m > 0 then 8 + 12 * unat (channelCount m) else 0) +
     (if sends_monitors st \<and> MonitorCount st > 1 then 12 + 20 * nat (MonitorCount st) else 0) +
     (if sends_monitors st \<and> HasMonitorAttributes st then 16 + 20 * nat (MonitorCount st) else 0) +
     (if sends_extended st \<and> sends_message_channel st then 8 else 0) + (if sends_extended st \<and> MultitransportFlags st \<noteq> 0 then 8 else 0))"

lemma length_client_blocks:
  assumes "channels_ok m" "monitors_ok (settings m)"
  shows "length (blocks_bytes (client_blocks m cs ds)) = client_size m"
proof -
  have "length (monitors (settings m)) = nat (MonitorCount (settings m))" using length_monitors [OF assms(2)] by simp
  then show ?thesis using assms(1)
    by (auto simp: client_blocks_def client_size_def Let_def length_network_body length_monitor_bodies cluster_body_def security_body_def)
qed

definition client_sent :: "gccMcs \<Rightarrow> gccMcs" where
  "client_sent m = m\<lparr>settings := gcc_connection_type (settings m)\<rparr>"

lemma sends_connection_type [simp]:
  "sends_monitors (gcc_connection_type st) = sends_monitors st" "sends_extended (gcc_connection_type st) = sends_extended st"
  "sends_message_channel (gcc_connection_type st) = sends_message_channel st"
  by (simp_all add: sends_monitors_def sends_extended_def sends_message_channel_def)

lemma client_sent_ok: "channels_ok m \<Longrightarrow> channels_ok (client_sent m)" "monitors_ok (settings m) \<Longrightarrow> monitors_ok (settings (client_sent m))"
    "client_size (client_sent m) = client_size m"
  by (simp_all add: client_sent_def channels_ok_def monitors_ok_def client_size_def Let_def)

lemma writes_client_blocks:
  assumes "client_strings (settings m) cs ds" "channels_ok m" "monitors_ok (settings m)"
  shows "writes_and (client_sent m) (blocks_bytes (client_blocks (client_sent m) cs ds)) (gcc_write_client_data_blocks (\<lambda>_. True) m)"
  unfolding writes_and_def
proof (intro allI impI)
  fix s assume s: "Stream_room s 0"
  let ?m = "client_sent m" and ?st = "settings (client_sent m)"
  note ok = client_sent_ok(1) [OF assms(2)] client_sent_ok(2) [OF assms(3)]
  let ?core = "gcc_block 0xC001 (core_body ?st (utf16_text cs) (utf16_text ds))"
  let ?mons = "\<lambda>s. gcc_write_client_monitor_data ?m s \<bind> gcc_write_client_monitor_extended_data ?m"
  let ?M = "(if MonitorCount ?st > 1 then gcc_block 0xC005 (monitor_body ?st) else []) @ (if HasMonitorAttributes ?st then gcc_block 0xC008 (monitor_ex_body ?st) else [])"
  let ?C = "(if sends_message_channel ?st then gcc_block 0xC006 (le_bytes32 0) else []) @
    (if MultitransportFlags ?st \<noteq> 0 then gcc_block 0xC00A (le_bytes32 (MultitransportFlags ?st)) else [])"
  let ?b1 = "NegotiationFlags ?st AND EXTENDED_CLIENT_DATA_SUPPORTED \<noteq> 0" and ?b2 = "UseMultimon ?st \<and> \<not> SpanMonitors ?st"
    and ?b3 = "UseMultimon ?st \<and> \<not> SpanMonitors ?st \<and> ForceMultimon ?st"
  let ?rest = "\<lambda>s. gcc_write_client_cluster_data ?m s \<bind> (\<lambda>s. gcc_write_client_security_data ?m s \<bind> (\<lambda>s. gcc_write_client_network_data ?m s \<bind> (\<lambda>s.
     (if ?b1 then (if ?b2 then ?mons s else Some s) \<bind> (\<lambda>s. gcc_write_client_message_channel_data ?m s \<bind> gcc_write_client_multitransport_channel_data ?m)
      else if ?b3 then ?mons s else Some s) \<bind> (\<lambda>s. Some (?m, s)))))"
  have rest: "writes_and ?m (gcc_block 0xC004 (cluster_body ?st) @ gcc_block 0xC002 (security_body ?st) @
      (if channelCount ?m > 0 then gcc_block 0xC003 (network_body ?m) else []) @
      (if ?b1 then (if ?b2 then ?M else []) @ ?C else if ?b3 then ?M else [])) ?rest"
    by (intro writes_and_bind writes_and_return writes_cluster writes_security writes_network writes_monitor writes_channels writes_bind writes_if writes_nothing ok)
  have bytes: "blocks_bytes (client_blocks ?m cs ds) = ?core @ gcc_block 0xC004 (cluster_body ?st) @ gcc_block 0xC002 (security_body ?st) @
      (if channelCount ?m > 0 then gcc_block 0xC003 (network_body ?m) else []) @ (if ?b1 then (if ?b2 then ?M else []) @ ?C else if ?b3 then ?M else [])"
    by (simp add: client_blocks_def Let_def sends_monitors_def sends_extended_def)
  have core: "gcc_write_client_core_data (\<lambda>_. True) m s = (if Stream_room s (length ?core) then Some (?m, Stream_put ?core s) else None)"
    using writes_andD [OF writes_core [OF assms(1)] s] by (simp add: client_sent_def)
  show "gcc_write_client_data_blocks (\<lambda>_. True) m s = (if Stream_room s (length (blocks_bytes (client_blocks ?m cs ds)))
      then Some (?m, Stream_put (blocks_bytes (client_blocks ?m cs ds)) s) else None)"
  proof (cases "Stream_room s (length ?core)")
    case False
    then show ?thesis unfolding bytes by (simp add: gcc_write_client_data_blocks_def core)
  next
    case True
    have "gcc_write_client_data_blocks (\<lambda>_. True) m s = ?rest (Stream_put ?core s)"
      using True by (simp add: gcc_write_client_data_blocks_def core)
    moreover have "Stream_room (Stream_put ?core s) 0" using True by simp
    ultimately show ?thesis unfolding bytes using True writes_andD [OF rest, of "Stream_put ?core s"] by simp
  qed
qed

end
