(* ===== verification/CapsBytes.thy ===== *)
theory CapsBytes
  imports CapsWrite GccBytes
begin

text \<open>
  The bytes of the capability sets: every writer of \<open>capabilities.c\<close> appends its set, a block of the same layout as those of
  \<open>gcc.c\<close>, when the stream has room for it and for 128 bytes more, and then allocates nothing.
\<close>

unbundle bit_operations_syntax

subsection \<open>Writers\<close>

definition appends :: "byte list \<Rightarrow> 'st step \<Rightarrow> 'st \<Rightarrow> 'st \<Rightarrow> bool" where
  "appends W f st st' \<longleftrightarrow> (\<forall>s. s_capacity s = length (s_buffer s) \<longrightarrow> Stream_room s (length W + 128) \<longrightarrow>
     f st s = Some ((True, st'), Stream_put W s))"

lemma appendsD:
  "appends W f st st' \<Longrightarrow> s_capacity s = length (s_buffer s) \<Longrightarrow> Stream_room s (length W + 128) \<Longrightarrow> f st s = Some ((True, st'), Stream_put W s)"
  by (simp add: appends_def)

lemma appends_and_also:
  assumes "appends A f st st1" "appends B g st1 st2"
  shows "appends (A @ B) (and_also f g) st st2"
  unfolding appends_def
proof (intro allI impI)
  fix s assume s: "s_capacity s = length (s_buffer s)" "Stream_room s (length (A @ B) + 128)"
  have "f st s = Some ((True, st1), Stream_put A s)" using s by (intro appendsD [OF assms(1)]) auto
  moreover have "g st1 (Stream_put A s) = Some ((True, st2), Stream_put B (Stream_put A s))" using s by (intro appendsD [OF assms(2)]) auto
  ultimately show "and_also f g st s = Some ((True, st2), Stream_put (A @ B) s)" using s by (simp add: and_also_def)
qed

lemma appends_assign: "appends [] (assign f) st (f st)"
  by (simp add: appends_def assign_def)

lemma appends_steps: "appends [] (steps []) st st" "appends A f st st1 \<Longrightarrow> appends B (steps fs) st1 st2 \<Longrightarrow> appends (A @ B) (steps (f # fs)) st st2"
  by (simp_all add: appends_and_also appends_assign [where f = "\<lambda>st. st"])

lemma appends_eq: "appends W f st st' \<Longrightarrow> W = W' \<Longrightarrow> st' = st'' \<Longrightarrow> appends W' f st st''"
  by simp

lemma appends_only_if: "(P st \<Longrightarrow> appends W f st st) \<Longrightarrow> appends (if P st then W else []) (only_if P f) st st"
  by (simp add: appends_def only_if_def)

lemma ensuring_room:
  assumes "s_capacity s = length (s_buffer s)" "Stream_room s n"
  shows "ensuring al n k st s = k st s"
proof -
  have "\<not> length (s_buffer s) < (s_pointer s + n) mod 2 ^ 64"
    using assms(2) mod_less_eq_dividend [of "s_pointer s + n" "2 ^ 64"] by linarith
  then show ?thesis using assms(1)
    by (simp add: ensuring_def Stream_EnsureRemainingCapacity_def Stream_GetPosition_def Stream_Capacity_def)
qed

text \<open>A set: what finishing it appends into the four bytes it was started with.\<close>

lemma capability_set_start: "Stream_room s 4 \<Longrightarrow> rdp_capability_set_start s = Some (s_pointer s, Stream_put (replicate 4 0) s)"
  by (simp add: rdp_capability_set_start_def Stream_GetPosition_def Stream_Zero_def Stream_Write_put)

lemma put_over:
  assumes "Stream_room s (length A + length B)" "length H = length A"
  shows "Stream_SetPosition (Stream_put H (Stream_SetPosition (Stream_put (A @ B) s) (s_pointer s))) (s_pointer s + length A + length B) = Stream_put (H @ B) s"
  using assms by (simp add: Stream_put_def Stream_SetPosition_def)

lemma capability_set_finish:
  assumes "Stream_room s (4 + length body)"
  shows "rdp_capability_set_finish (Stream_put (replicate 4 0 @ body) s) (s_pointer s) type = Some (Stream_put (gcc_block type body) s)"
proof -
  let ?s = "Stream_SetPosition (Stream_put (replicate 4 0 @ body) s) (s_pointer s)"
  have "Stream_room ?s 4" using assms by (simp add: Stream_SetPosition_def)
  then have "rdp_write_capability_set_header ?s (word_of_nat (4 + length body)) type = Some (Stream_put (le_bytes16 type @ le_bytes16 (word_of_nat (4 + length body))) ?s)"
    by (simp add: rdp_write_capability_set_header_def Write_UINT_put)
  moreover have "(word_of_int (int (s_pointer s + length (replicate 4 (0 :: byte) @ body)) - int (s_pointer s)) :: u16) = word_of_nat (4 + length body)"
    by (simp add: word_of_int_len)
  ultimately show ?thesis
    using put_over [of s "replicate 4 0" body "le_bytes16 type @ le_bytes16 (word_of_nat (4 + length body))"] assms
    by (simp add: rdp_capability_set_finish_def Stream_GetPosition_def gcc_block_def Let_def add.assoc del: of_nat_add)
qed

lemma appends_capset:
  assumes "writes body w" "n \<le> 128"
  shows "appends (gcc_block type body) (rdp_capset al n type w) st st"
  unfolding appends_def
proof (intro allI impI)
  fix s assume s: "s_capacity s = length (s_buffer s)" "Stream_room s (length (gcc_block type body) + 128)"
  have "w (Stream_put (replicate 4 0) s) = Some (Stream_put (replicate 4 0 @ body) s)" using s by (simp add: writesD [OF assms(1)])
  then show "rdp_capset al n type w st s = Some ((True, st), Stream_put (gcc_block type body) s)"
    using s assms(2) by (simp add: rdp_capset_def ensuring_room capability_set_start capability_set_finish)
qed

lemma appends_container:
  assumes "writes W (w st)" "n \<le> 128"
  shows "appends W (rdp_container al n w) st st"
  using assms by (auto simp: appends_def rdp_container_def ensuring_room writesD [OF assms(1)])

subsection \<open>The bodies of the sets\<close>

definition general_body :: "capSettings \<Rightarrow> byte list" where
  "general_body c = le_bytes16 (ucast (OsMajorType c)) @ le_bytes16 (ucast (OsMinorType c)) @ le_bytes16 0x0200 @ le_bytes16 0 @ le_bytes16 0 @ le_bytes16 (general_flags c) @ le_bytes16 0 @ le_bytes16 0 @ le_bytes16 0 @ [if RefreshRect c then 1 else 0] @ [if SuppressOutput c then 1 else 0]"

definition bitmap_body :: "capSettings \<Rightarrow> byte list" where
  "bitmap_body c = le_bytes16 (if RdpVersion c > 5 then ucast (ColorDepth c) else 8) @ le_bytes16 1 @ le_bytes16 1 @ le_bytes16 1 @ le_bytes16 (ucast (DesktopWidth c)) @ le_bytes16 (ucast (DesktopHeight c)) @ le_bytes16 0 @ le_bytes16 (if DesktopResize c then 1 else 0) @ le_bytes16 1 @ [0] @ [drawing_flags c] @ le_bytes16 1 @ le_bytes16 0"

definition order_body :: "capSettings \<Rightarrow> byte list" where
  "order_body c = replicate 16 0 @ le_bytes32 0 @ le_bytes16 1 @ le_bytes16 20 @ le_bytes16 0 @ le_bytes16 1 @ le_bytes16 0 @ le_bytes16 (order_flags c) @ OrderSupport c @ le_bytes16 0 @ le_bytes16 (order_ex_flags c) @ le_bytes32 0 @ le_bytes32 230400 @ le_bytes16 0 @ le_bytes16 0 @ le_bytes16 (if ServerMode c then 0 else 65001) @ le_bytes16 0"

definition pointer_body :: "capSettings \<Rightarrow> byte list" where
  "pointer_body c = le_bytes16 (if ColorPointerFlag c then 1 else 0) @ le_bytes16 (ucast (PointerCacheSize c)) @ (if LargePointerFlag c \<noteq> 0 then le_bytes16 (ucast (PointerCacheSize c)) else [])"

definition input_body :: "capSettings \<Rightarrow> byte list" where
  "input_body c = le_bytes16 (input_flags c) @ le_bytes16 0 @ le_bytes32 (KeyboardLayout c) @ le_bytes32 (KeyboardType c) @ le_bytes32 (KeyboardSubType c) @ le_bytes32 (KeyboardFunctionKey c) @ replicate 64 0"

definition virtual_channel_body :: "capSettings \<Rightarrow> byte list" where
  "virtual_channel_body c = le_bytes32 0 @ le_bytes32 (VirtualChannelChunkSize c)"

definition sound_body :: "capSettings \<Rightarrow> byte list" where
  "sound_body c = le_bytes16 (if SoundBeepsEnabled c then 1 else 0) @ le_bytes16 0"

definition share_body :: "capSettings \<Rightarrow> byte list" where
  "share_body c = le_bytes16 (if ServerMode c then 0x03EA else 0) @ le_bytes16 0"

definition offscreen_bitmap_cache_body :: "capSettings \<Rightarrow> byte list" where
  "offscreen_bitmap_cache_body c = le_bytes32 (if OffscreenSupportLevel c \<noteq> 0 then 1 else 0) @ le_bytes16 (ucast (OffscreenCacheSize c)) @ le_bytes16 (ucast (OffscreenCacheEntries c))"

definition draw_nine_grid_cache_body :: "capSettings \<Rightarrow> byte list" where
  "draw_nine_grid_cache_body c = le_bytes32 (if DrawNineGridEnabled c then 2 else 0) @ le_bytes16 (ucast (DrawNineGridCacheSize c)) @ le_bytes16 (ucast (DrawNineGridCacheEntries c))"

definition large_pointer_body :: "capSettings \<Rightarrow> byte list" where
  "large_pointer_body c = le_bytes16 (if LargePointerFlag c \<noteq> 0 then 1 else 0)"

definition remote_programs_body :: "capSettings \<Rightarrow> byte list" where
  "remote_programs_body c = le_bytes32 (1 OR (if RemoteAppLanguageBarSupported c then 2 else 0))"

definition window_list_body :: "capSettings \<Rightarrow> byte list" where
  "window_list_body c = le_bytes32 2 @ [ucast (RemoteAppNumIconCaches c)] @ le_bytes16 (ucast (RemoteAppNumIconCacheEntries c))"

definition surface_commands_body :: "capSettings \<Rightarrow> byte list" where
  "surface_commands_body c = le_bytes32 (0x02 OR 0x40 OR (if SurfaceFrameMarkerEnabled c then 0x10 else 0)) @ le_bytes32 0"

definition frame_acknowledge_body :: "capSettings \<Rightarrow> byte list" where
  "frame_acknowledge_body c = le_bytes32 (FrameAcknowledge c)"

definition bitmap_cache_v3_codec_id_body :: "capSettings \<Rightarrow> byte list" where
  "bitmap_cache_v3_codec_id_body c = [ucast (BitmapCacheV3CodecId c)]"

definition desktop_composition_body :: "capSettings \<Rightarrow> byte list" where
  "desktop_composition_body c = le_bytes16 (if AllowDesktopComposition c then 1 else 0)"

definition bitmap_cache_body :: "capSettings \<Rightarrow> byte list" where
  "bitmap_cache_body c = (let bpp = (ColorDepth c + 7) div 8 in le_bytes32 0 @ le_bytes32 0 @ le_bytes32 0 @ le_bytes32 0 @ le_bytes32 0 @ le_bytes32 0 @
     le_bytes16 200 @ le_bytes16 (ucast (bpp * 256)) @ le_bytes16 600 @ le_bytes16 (ucast (bpp * 1024)) @ le_bytes16 1000 @ le_bytes16 (ucast (bpp * 4096)))"

definition bitmap_cache_v2_body :: "capSettings \<Rightarrow> byte list" where
  "bitmap_cache_v2_body c = le_bytes16 (if BitmapCachePersistEnabled c then 3 else 2) @ [0] @ [ucast (BitmapCacheV2NumCells c)] @
     concat (map (\<lambda>i. le_bytes32 (numEntries i OR push_bit 31 (if persistent i then 1 else 0))) (BitmapCacheV2CellInfo c)) @ replicate 12 0"

definition cache_bytes :: "GLYPH_CACHE_DEFINITION \<Rightarrow> byte list" where
  "cache_bytes d = le_bytes16 (cacheEntries d) @ le_bytes16 (cacheMaximumCellSize d)"

definition glyph_cache_body :: "capSettings \<Rightarrow> byte list" where
  "glyph_cache_body c = concat (map cache_bytes (GlyphCache c)) @ cache_bytes (FragCache c) @ le_bytes16 (ucast (GlyphSupportLevel c)) @ le_bytes16 0"

definition multifragment_update_body :: "capSettings \<Rightarrow> byte list" where
  "multifragment_update_body c = le_bytes32 (MultifragMaxRequestSize c)"

lemmas body_defs =
  general_body_def bitmap_body_def order_body_def pointer_body_def input_body_def virtual_channel_body_def sound_body_def share_body_def
  offscreen_bitmap_cache_body_def draw_nine_grid_cache_body_def large_pointer_body_def remote_programs_body_def window_list_body_def
  surface_commands_body_def frame_acknowledge_body_def bitmap_cache_v3_codec_id_body_def desktop_composition_body_def bitmap_cache_body_def
  bitmap_cache_v2_body_def glyph_cache_body_def multifragment_update_body_def

lemma appends_sets:
  "appends (gcc_block 1 (general_body c)) (rdp_write_general_capability_set al) c c"
  "appends (gcc_block 2 (bitmap_body c)) (rdp_write_bitmap_capability_set al) c c"
  "appends (gcc_block 8 (pointer_body c)) (rdp_write_pointer_capability_set al) c c"
  "appends (gcc_block 13 (input_body c)) (rdp_write_input_capability_set al) c c"
  "appends (gcc_block 20 (virtual_channel_body c)) (rdp_write_virtual_channel_capability_set al) c c"
  "appends (gcc_block 12 (sound_body c)) (rdp_write_sound_capability_set al) c c"
  "appends (gcc_block 9 (share_body c)) (rdp_write_share_capability_set al) c c"
  "appends (gcc_block 17 (offscreen_bitmap_cache_body c)) (rdp_write_offscreen_bitmap_cache_capability_set al) c c"
  "appends (gcc_block 21 (draw_nine_grid_cache_body c)) (rdp_write_draw_nine_grid_cache_capability_set al) c c"
  "appends (gcc_block 27 (large_pointer_body c)) (rdp_write_large_pointer_capability_set al) c c"
  "appends (gcc_block 23 (remote_programs_body c)) (rdp_write_remote_programs_capability_set al) c c"
  "appends (gcc_block 24 (window_list_body c)) (rdp_write_window_list_capability_set al) c c"
  "appends (gcc_block 28 (surface_commands_body c)) (rdp_write_surface_commands_capability_set al) c c"
  "appends (gcc_block 30 (frame_acknowledge_body c)) (rdp_write_frame_acknowledge_capability_set al) c c"
  "appends (gcc_block 6 (bitmap_cache_v3_codec_id_body c)) (rdp_write_bitmap_cache_v3_codec_id_capability_set al) c c"
  "appends (gcc_block 25 (desktop_composition_body c)) (rdp_write_desktop_composition_capability_set al) c c"
  "appends (gcc_block 15 (le_bytes32 2)) (rdp_write_brush_capability_set al) c c"
  "appends (gcc_block 14 (le_bytes16 1 @ le_bytes16 0)) (rdp_write_font_capability_set al) c c"
  "appends (gcc_block 5 (le_bytes16 0 @ le_bytes16 0 @ le_bytes16 2 @ le_bytes16 2)) (rdp_write_control_capability_set al) c c"
  "appends (gcc_block 10 (le_bytes16 6 @ le_bytes16 0)) (rdp_write_color_cache_capability_set al) c c"
  "appends (gcc_block 7 (le_bytes16 0 @ le_bytes16 0 @ le_bytes16 0 @ le_bytes16 0)) (rdp_write_window_activation_capability_set al) c c"
  "appends (gcc_block 18 ([1] @ [0] @ le_bytes16 0)) (rdp_write_bitmap_cache_host_support_capability_set al) c c"
  unfolding appends_def body_defs
    rdp_write_general_capability_set_def rdp_write_bitmap_capability_set_def rdp_write_pointer_capability_set_def rdp_write_input_capability_set_def
    rdp_write_virtual_channel_capability_set_def rdp_write_sound_capability_set_def rdp_write_share_capability_set_def
    rdp_write_offscreen_bitmap_cache_capability_set_def rdp_write_draw_nine_grid_cache_capability_set_def rdp_write_large_pointer_capability_set_def
    rdp_write_remote_programs_capability_set_def rdp_write_window_list_capability_set_def rdp_write_surface_commands_capability_set_def
    rdp_write_frame_acknowledge_capability_set_def rdp_write_bitmap_cache_v3_codec_id_capability_set_def
    rdp_write_desktop_composition_capability_set_def rdp_write_brush_capability_set_def rdp_write_font_capability_set_def
    rdp_write_control_capability_set_def rdp_write_color_cache_capability_set_def rdp_write_window_activation_capability_set_def
    rdp_write_bitmap_cache_host_support_capability_set_def
  unfolding appends_def [symmetric] by (rule appends_capset; (intro writes_intros)?; simp)+

text \<open>The arrays that the writers of a client read.\<close>

definition client_caps :: "capSettings \<Rightarrow> bool" where
  "client_caps c \<longleftrightarrow> \<not> ServerMode c \<and> length (OrderSupport c) = 32 \<and> length (ReceivedCapabilities c) = 32 \<and> length (GlyphCache c) = 10 \<and>
     length (BitmapCacheV2CellInfo c) = 5"

lemma appends_cong: "f st = g st \<Longrightarrow> appends W g st st' \<Longrightarrow> appends W f st st'"
  by (simp add: appends_def)

lemma order_capset:
  assumes "length (OrderSupport c) = 32"
  obtains w where "writes (order_body c) w" "\<And>al. rdp_write_order_capability_set al c = rdp_capset al 64 3 w c"
proof -
  have "mem_read (OrderSupport c) 0 32 = Some (OrderSupport c)" using assms by (simp add: mem_read_def)
  then show thesis
    by (intro that [OF _ rdp_write_order_capability_set_def]) (unfold order_body_def, simp only: Option.bind.bind_lunit, intro writes_intros)
qed

lemma appends_order: "length (OrderSupport c) = 32 \<Longrightarrow> appends (gcc_block 3 (order_body c)) (rdp_write_order_capability_set al) c c"
  by (erule order_capset [of c]) (rule appends_cong, assumption, erule appends_capset, simp)

lemma appends_bitmap_cache: "appends (gcc_block 4 (bitmap_cache_body c)) (rdp_write_bitmap_cache_capability_set al) c c"
  unfolding bitmap_cache_body_def Let_def
  by (rule appends_cong [OF rdp_write_bitmap_cache_capability_set_def], unfold Let_def, rule appends_capset) (intro writes_intros, simp)

lemma appends_bitmap_cache_v2:
  assumes "length (BitmapCacheV2CellInfo c) = 5"
  shows "appends (gcc_block 19 (bitmap_cache_v2_body c)) (rdp_write_bitmap_cache_v2_capability_set al) c c"
proof -
  have "writes (concat (map (\<lambda>i. le_bytes32 (numEntries i OR push_bit 31 (if persistent i then 1 else 0))) (take 5 (drop 0 (BitmapCacheV2CellInfo c)))))
    (write_elements rdp_write_bitmap_cache_cell_info (BitmapCacheV2CellInfo c) 0 5)"
    using assms unfolding rdp_write_bitmap_cache_cell_info_def [abs_def] by (intro writes_elements writes_intros) simp
  then show ?thesis using assms unfolding bitmap_cache_v2_body_def
    by (intro appends_cong [OF rdp_write_bitmap_cache_v2_capability_set_def] appends_capset writes_intros) simp_all
qed

lemma writes_cache_definition: "writes (cache_bytes d) (rdp_write_cache_definition d)"
  unfolding cache_bytes_def rdp_write_cache_definition_def [abs_def] by (intro writes_intros)

lemma appends_glyph_cache:
  assumes "length (GlyphCache c) = 10"
  shows "appends (gcc_block 16 (glyph_cache_body c)) (rdp_write_glyph_cache_capability_set al) c c"
proof -
  have "writes (concat (map cache_bytes (take 10 (drop 0 (GlyphCache c))))) (write_elements rdp_write_cache_definition (GlyphCache c) 0 10)"
    using assms by (intro writes_elements writes_cache_definition) simp
  then show ?thesis using assms unfolding glyph_cache_body_def
    by (intro appends_cong [OF rdp_write_glyph_cache_capability_set_def] appends_capset writes_intros writes_cache_definition) simp_all
qed

lemma appends_multifragment_update:
  assumes "\<not> ServerMode c"
  shows "appends (gcc_block 26 (multifragment_update_body c)) (rdp_write_multifragment_update_capability_set al) c c"
proof -
  have "writes (multifragment_update_body c) (\<lambda>s. Stream_Write_UINT32 s (MultifragMaxRequestSize c))"
    unfolding multifragment_update_body_def by (rule writes_intros)
  from appends_capset [OF this, of 32 26 al c] assms show ?thesis
    by (simp add: appends_def rdp_capset_def ensuring_def rdp_write_multifragment_update_capability_set_def multifragment_proposal_def Let_def)
qed

subsection \<open>The codecs\<close>

definition rfx_properties :: "capSettings \<Rightarrow> byte list" where
  "rfx_properties c = le_bytes32 49 @ le_bytes32 (if RemoteFxOnly c then 0 else 1) @ le_bytes32 37 @
     le_bytes16 0xCBC0 @ le_bytes32 8 @ le_bytes16 1 @
     le_bytes16 0xCBC1 @ le_bytes32 29 @ [1] @ le_bytes16 0xCFC0 @ le_bytes16 2 @ le_bytes16 8 @
     (le_bytes16 0x0100 @ le_bytes16 0x0040 @ [ucast (RemoteFxCodecMode c)] @ [1] @ [1] @ [1]) @
     (le_bytes16 0x0100 @ le_bytes16 0x0040 @ [ucast (RemoteFxCodecMode c)] @ [1] @ [1] @ [4])"

definition nsc_properties :: "capSettings \<Rightarrow> byte list" where
  "nsc_properties c = [ucast (NSCodecAllowDynamicColorFidelity c)] @ [ucast (NSCodecAllowSubsampling c)] @ [color_loss_level (ucast (NSCodecColorLossLevel c))]"

definition codec_bytes :: "GUID \<Rightarrow> byte \<Rightarrow> byte list \<Rightarrow> byte list" where
  "codec_bytes g codecId properties = (le_bytes32 (Data1 g) @ le_bytes16 (Data2 g) @ le_bytes16 (Data3 g) @ Data4 g) @ [codecId] @
     le_bytes16 (word_of_nat (length properties)) @ properties"

lemma length_properties [simp]: "length (rfx_properties c) = 49" "length (nsc_properties c) = 3"
  by (simp_all add: rfx_properties_def nsc_properties_def)

lemma appends_containers:
  "appends (le_bytes16 49 @ rfx_properties c) (rdp_write_rfx_client_capability_container al) c c"
  "appends (le_bytes16 3 @ nsc_properties c) (rdp_write_nsc_client_capability_container al) c c"
  "appends (le_bytes16 1 @ [ucast (JpegQuality c)]) (rdp_write_jpeg_client_capability_container al) c c"
  unfolding rdp_write_rfx_client_capability_container_def rdp_write_nsc_client_capability_container_def rdp_write_jpeg_client_capability_container_def
    rfx_properties_def nsc_properties_def rdp_write_rfx_icap_def
  by (rule appends_container; (intro writes_intros)?; simp)+

lemma appends_codec:
  assumes "\<not> ServerMode c" "appends (le_bytes16 (word_of_nat (length properties)) @ properties) client c c"
  shows "appends (codec_bytes g codecId properties) (rdp_write_codec g codecId server client) c c"
proof -
  let ?G = "le_bytes32 (Data1 g) @ le_bytes16 (Data2 g) @ le_bytes16 (Data3 g) @ Data4 g"
  have g: "writes ?G (rdp_write_bitmap_codec_guid g)" "writes [codecId] (\<lambda>s. Stream_Write_UINT8 s codecId)"
    unfolding rdp_write_bitmap_codec_guid_def [abs_def] by (rule writes_intros)+
  have p: "appends (?G @ [codecId])
    (\<lambda>st s. do { s \<leftarrow> rdp_write_bitmap_codec_guid g s; s \<leftarrow> Stream_Write_UINT8 s (if ServerMode st then 0 else codecId); Some ((True, st), s) }) c c"
    using assms(1) by (simp add: appends_def writesD [OF g(1)] writesD [OF g(2)])
  have "appends (le_bytes16 (word_of_nat (length properties)) @ properties) (on_server server client) c c"
    using assms by (simp add: appends_def on_server_def)
  from appends_and_also [OF p this] show ?thesis by (simp add: codec_bytes_def rdp_write_codec_def)
qed

definition client_codecs :: "capSettings \<Rightarrow> (GUID \<times> byte \<times> byte list) list" where
  "client_codecs c = (if RemoteFxCodec c then [(CODEC_GUID_REMOTEFX, 3, rfx_properties c)] else []) @
     (if NSCodec c then [(CODEC_GUID_NSCODEC, 1, nsc_properties c)] else []) @
     (if JpegCodec c then [(CODEC_GUID_JPEG, 2, [ucast (JpegQuality c)])] else []) @
     (if RemoteFxImageCodec c then [(CODEC_GUID_IMAGE_REMOTEFX, 4, rfx_properties c)] else [])"

definition codecs_bytes :: "(GUID \<times> byte \<times> byte list) list \<Rightarrow> byte list" where
  "codecs_bytes cs = concat (map (\<lambda>(g, i, p). codec_bytes g i p) cs)"

lemma codecs_bytes_simps [simp]:
  "codecs_bytes [] = []" "codecs_bytes ((g, i, p) # cs) = codec_bytes g i p @ codecs_bytes cs" "codecs_bytes (cs @ ds) = codecs_bytes cs @ codecs_bytes ds"
  by (simp_all add: codecs_bytes_def)

definition bitmap_codecs_body :: "capSettings \<Rightarrow> byte list" where
  "bitmap_codecs_body c = [codec_count c] @ codecs_bytes (client_codecs c)"

lemma codecs_if: "codecs_bytes (if b then cs else []) = (if b then codecs_bytes cs else [])"
  by simp

lemma appends_codecs:
  assumes "\<not> ServerMode c"
  shows "appends (codecs_bytes (client_codecs c)) (rdp_write_codecs al) c c"
proof -
  have one: "appends (codec_bytes g i (rfx_properties c)) (rdp_write_codec g i f (rdp_write_rfx_client_capability_container a)) c c"
    "appends (codec_bytes g i (nsc_properties c)) (rdp_write_codec g i f (rdp_write_nsc_client_capability_container a)) c c"
    "appends (codec_bytes g i [ucast (JpegQuality c)]) (rdp_write_codec g i f (rdp_write_jpeg_client_capability_container a)) c c" for g i f a
    by (rule appends_codec [OF assms], simp add: appends_containers [simplified])+
  show ?thesis unfolding rdp_write_codecs_def
    by (rule appends_eq, (rule appends_steps appends_only_if one)+) (simp_all add: client_codecs_def codecs_if)
qed

lemma appends_bitmap_codecs:
  assumes "\<not> ServerMode c"
  shows "appends (gcc_block 29 (bitmap_codecs_body c)) (rdp_write_bitmap_codecs_capability_set al) c c"
  unfolding appends_def
proof (intro allI impI)
  fix s assume s: "s_capacity s = length (s_buffer s)" "Stream_room s (length (gcc_block 29 (bitmap_codecs_body c)) + 128)"
  let ?s = "Stream_put (replicate 4 0 @ [codec_count c]) s"
  have "rdp_write_codecs al c ?s = Some ((True, c), Stream_put (codecs_bytes (client_codecs c)) ?s)"
    using s by (intro appendsD [OF appends_codecs [OF assms]]) (auto simp: bitmap_codecs_body_def)
  then show "rdp_write_bitmap_codecs_capability_set al c s = Some ((True, c), Stream_put (gcc_block 29 (bitmap_codecs_body c)) s)"
    using s capability_set_finish [of s "bitmap_codecs_body c" 29]
    by (simp add: rdp_write_bitmap_codecs_capability_set_def ensuring_room capability_set_start Write_UINT_put bitmap_codecs_body_def)
qed

subsection \<open>Confirm Active\<close>

lemma appends_rdp_set: "appends W f st st' \<Longrightarrow> appends W (rdp_set f) (st, n) (st', n)"
  by (simp add: appends_def rdp_set_def on_field_def)

lemma appends_rdp_set_if:
  "(received \<and> P st \<Longrightarrow> appends W f st st) \<Longrightarrow>
    appends (if received \<and> P st then W else []) (rdp_set_if received P k f) (st, n) (st, n + (if received \<and> P st then k else 0))"
  by (auto simp: rdp_set_if_def appends_def rdp_set_def on_field_def)

text \<open>The sets of a client \<open>c\<close> in the order in which it sends them, with their bodies.\<close>

definition confirm_blocks :: "capSettings \<Rightarrow> (u16 \<times> byte list) list" where
  "confirm_blocks c = (let rc = ReceivedCapabilities c in
     [(1, general_body c), (2, bitmap_body c), (3, order_body c),
      (if RdpVersion c \<ge> 5 then (19, bitmap_cache_v2_body c) else (4, bitmap_cache_body c)),
      (8, pointer_body c), (13, input_body c), (15, le_bytes32 2), (16, glyph_cache_body c), (20, virtual_channel_body c), (12, sound_body c),
      (9, share_body c), (14, le_bytes16 1 @ le_bytes16 0), (5, le_bytes16 0 @ le_bytes16 0 @ le_bytes16 2 @ le_bytes16 2),
      (10, le_bytes16 6 @ le_bytes16 0), (7, le_bytes16 0 @ le_bytes16 0 @ le_bytes16 0 @ le_bytes16 0)] @
     (if OffscreenSupportLevel c \<noteq> 0 then [(17, offscreen_bitmap_cache_body c)] else []) @
     (if DrawNineGridEnabled c then [(21, draw_nine_grid_cache_body c)] else []) @
     (if rc ! 0x1B \<noteq> 0 \<and> LargePointerFlag c \<noteq> 0 then [(27, large_pointer_body c)] else []) @
     (if RemoteApplicationMode c then [(23, remote_programs_body c), (24, window_list_body c)] else []) @
     (if rc ! 0x1A \<noteq> 0 then [(26, multifragment_update_body c)] else []) @
     (if rc ! 0x1C \<noteq> 0 then [(28, surface_commands_body c)] else []) @
     (if rc ! 0x1D \<noteq> 0 then [(29, bitmap_codecs_body c)] else []) @
     (if rc ! 0x1E \<noteq> 0 \<and> FrameAcknowledge c \<noteq> 0 then [(30, frame_acknowledge_body c)] else []) @
     (if rc ! 0x06 \<noteq> 0 \<and> BitmapCacheV3CodecId c \<noteq> 0 then [(6, bitmap_cache_v3_codec_id_body c)] else []))"

definition confirm_sent :: "capSettings \<Rightarrow> capSettings" where
  "confirm_sent c = (if ReceivedCapabilities c ! 0x1E = 0 then c\<lparr>FrameAcknowledge := 0\<rparr> else c)"

lemma confirm_sent_sel [simp]:
  "OffscreenSupportLevel (confirm_sent c) = OffscreenSupportLevel c" "ReceivedCapabilities (confirm_sent c) = ReceivedCapabilities c"
  by (simp_all add: confirm_sent_def)

lemma blocks_either: "blocks_bytes ((if b then (t, x) else (u, y)) # bs) = (if b then gcc_block t x else gcc_block u y) @ blocks_bytes bs"
  by simp

lemma count_if:
  "(word_of_nat (length (if b then [x] else [])) :: u16) = (if b then 1 else 0)"
  "(word_of_nat (length (if b then [x, y] else [])) :: u16) = (if b then 2 else 0)"
  by simp_all

lemma blocks_if: "blocks_bytes (if b then bs else []) = (if b then blocks_bytes bs else [])"
  by simp

lemma confirm_steps:
  assumes c: "client_caps c"
  shows "appends (blocks_bytes (confirm_blocks c)) (rdp_confirm_sets (ReceivedCapabilities c) al cod) (c, 15) (confirm_sent c, word_of_nat (length (confirm_blocks c)))"
proof -
  have v: "appends (if RdpVersion c \<ge> 5 then gcc_block 19 (bitmap_cache_v2_body c) else gcc_block 4 (bitmap_cache_body c))
    (\<lambda>st. if RdpVersion st \<ge> 5 then rdp_write_bitmap_cache_v2_capability_set (al 3) st else rdp_write_bitmap_cache_capability_set (al 3) st) c c" for al
    using appends_bitmap_cache_v2 [of c "al 3"] appends_bitmap_cache [of c "al 3"] c by (auto simp: appends_def client_caps_def)
  from c have o: "\<not> ServerMode c" "length (OrderSupport c) = 32" "length (GlyphCache c) = 10" by (simp_all add: client_caps_def)
  note one = appends_sets appends_order [OF o(2)] appends_glyph_cache [OF o(3)] appends_multifragment_update [OF o(1)] appends_bitmap_codecs [OF o(1)]
    appends_and_also appends_assign v
  let ?c = "if ReceivedCapabilities c ! 30 = 0 then c\<lparr>FrameAcknowledge := 0\<rparr> else c"
  have f: "(if FrameAcknowledge ?c \<noteq> 0 then gcc_block 30 (frame_acknowledge_body ?c) else []) =
      (if ReceivedCapabilities c ! 30 \<noteq> 0 \<and> FrameAcknowledge c \<noteq> 0 then gcc_block 30 (frame_acknowledge_body c) else [])"
    "BitmapCacheV3CodecId ?c = BitmapCacheV3CodecId c" "bitmap_cache_v3_codec_id_body ?c = bitmap_cache_v3_codec_id_body c"
    "(if FrameAcknowledge ?c \<noteq> 0 then 1 else 0) = (if ReceivedCapabilities c ! 30 \<noteq> 0 \<and> FrameAcknowledge c \<noteq> 0 then 1 else (0 :: u16))"
    by (simp_all add: bitmap_cache_v3_codec_id_body_def)
  show ?thesis unfolding rdp_confirm_sets_def
    by (rule appends_eq, (rule appends_steps appends_rdp_set appends_rdp_set_if one)+,
        simp only: confirm_blocks_def Let_def blocks_bytes_simps blocks_if blocks_either simp_thms f append_assoc append_Nil append_Nil2)
      (simp add: confirm_blocks_def Let_def confirm_sent_def count_if f add.assoc split del: if_split)
qed

lemma seek_put:
  assumes "Stream_room s n"
  shows "Stream_Seek s n = Stream_put (take n (drop (s_pointer s) (s_buffer s))) s"
proof -
  have "take n (drop (s_pointer s) (s_buffer s)) @ drop (s_pointer s + n) (s_buffer s) = drop (s_pointer s) (s_buffer s)"
    using append_take_drop_id [of n "drop (s_pointer s) (s_buffer s)"] by (simp add: add.commute)
  then show ?thesis using assms by (simp add: Stream_put_def Stream_Seek_def)
qed

lemma put_at:
  assumes "Stream_room s (length P + length A + length Q)" "length H = length A"
  shows "Stream_put H (Stream_SetPosition (Stream_put (P @ A @ Q) s) (s_pointer s + length P)) =
    Stream_SetPosition (Stream_put (P @ H @ Q) s) (s_pointer s + length P + length H)"
  using assms by (simp add: Stream_put_def Stream_SetPosition_def)

lemma SetPosition_idem [simp]: "Stream_SetPosition (Stream_SetPosition s p) q = Stream_SetPosition s q"
  by (simp add: Stream_SetPosition_def)

definition combined_bytes :: "byte list \<Rightarrow> u16 \<Rightarrow> byte list \<Rightarrow> byte list" where
  "combined_bytes D n B = le_bytes16 (word_of_nat (4 + length B)) @ D @ le_bytes16 n @ le_bytes16 0 @ B"

lemma length_combined [simp]: "length (combined_bytes D n B) = 6 + length D + length B"
  by (simp add: combined_bytes_def)

lemma write_combined:
  assumes "appends B sets (st, k) (st', n)" "s_capacity s = length (s_buffer s)" "Stream_room s (6 + length D + length B + 128)"
  shows "rdp_write_combined D k sets st s = Some ((True, st'), Stream_put (combined_bytes D n B) s)"
proof -
  define A where "A = take 2 (drop (s_pointer s) (s_buffer s))"
  define s1 where "s1 = Stream_put (A @ D) s"
  define C where "C = take 2 (drop (s_pointer s1) (s_buffer s1))"
  define s2 where "s2 = Stream_put (A @ D @ C @ le_bytes16 0) s"
  let ?E = "s_pointer s + (2 + (length D + (2 + (2 + length B))))"
  have l: "length A = 2" "length C = 2" using assms(3) by (auto simp: A_def C_def s1_def)
  have 1: "Stream_Write (Stream_Seek s 2) D = Some s1" "Stream_room s1 4" "s_pointer s1 = s_pointer s + 2 + length D"
    using assms(3) l by (simp_all add: seek_put A_def [symmetric] Stream_Write_put s1_def)
  have 2: "Stream_Write_UINT16 (Stream_Seek s1 2) 0 = Some s2"
    using assms(3) l 1(2) by (simp add: seek_put C_def [symmetric] Write_UINT_put) (simp add: s1_def s2_def)
  have 3: "sets (st, k) s2 = Some ((True, st', n), Stream_put (A @ D @ C @ le_bytes16 0 @ B) s)"
    using assms(2,3) l appendsD [OF assms(1), of s2] by (simp add: s2_def)
  let ?L = "le_bytes16 (word_of_nat (4 + length B))"
  have 4: "Stream_Write_UINT16 (Stream_SetPosition (Stream_put (A @ D @ C @ le_bytes16 0 @ B) s) (s_pointer s)) (word_of_nat (4 + length B)) =
      Some (Stream_SetPosition (Stream_put (?L @ D @ C @ le_bytes16 0 @ B) s) (s_pointer s + 2))"
    using assms(3) l put_at [of s "[]" A "D @ C @ le_bytes16 0 @ B" ?L] by (simp add: Write_UINT_put Stream_SetPosition_def [of _ "s_pointer s"])
  have 5: "Stream_Write_UINT16 (Stream_SetPosition (Stream_put (?L @ D @ C @ le_bytes16 0 @ B) s) (s_pointer s + 2 + length D)) n =
      Some (Stream_SetPosition (Stream_put (combined_bytes D n B) s) (s_pointer s + 4 + length D))"
    using assms(3) l put_at [of s "?L @ D" C "le_bytes16 0 @ B" "le_bytes16 n"] by (simp add: Write_UINT_put combined_bytes_def Stream_SetPosition_def add.assoc)
  have 6: "(word_of_int (int ?E - int (s_pointer s + 2 + length D)) :: u16) = word_of_nat (4 + length B)"
    by (simp add: word_of_int_len)
  have 7: "Stream_SetPosition (Stream_put (combined_bytes D n B) s) ?E = Stream_put (combined_bytes D n B) s"
    by (simp add: Stream_SetPosition_def Stream_put_def add.assoc)
  show ?thesis unfolding rdp_write_combined_def
    using l 1 2 3 4 5 6 7 by (simp add: Stream_GetPosition_def Let_def add.assoc del: of_nat_add)
qed

definition confirm_bytes :: "capSettings \<Rightarrow> byte list" where
  "confirm_bytes c = le_bytes32 (ShareId c) @ le_bytes16 0x03EA @ le_bytes16 8 @
     combined_bytes SOURCE_DESCRIPTOR (word_of_nat (length (confirm_blocks c))) (blocks_bytes (confirm_blocks c))"

lemma length_SOURCE_DESCRIPTOR [simp]: "length SOURCE_DESCRIPTOR = 8"
  by (simp add: SOURCE_DESCRIPTOR_def)

lemma write_confirm_active:
  assumes "client_caps c" "s_capacity s = length (s_buffer s)" "Stream_room s (length (confirm_bytes c) + 128)"
  shows "rdp_write_confirm_active al cod c s = Some ((True, confirm_sent c), Stream_put (confirm_bytes c) s)"
proof -
  let ?H = "le_bytes32 (ShareId c) @ le_bytes16 0x03EA @ le_bytes16 8"
  let ?B = "blocks_bytes (confirm_blocks c)" and ?n = "word_of_nat (length (confirm_blocks c))"
  have "rdp_write_combined SOURCE_DESCRIPTOR 15 (rdp_confirm_sets (ReceivedCapabilities c) al cod) c (Stream_put ?H s) =
      Some ((True, confirm_sent c), Stream_put (combined_bytes SOURCE_DESCRIPTOR ?n ?B) (Stream_put ?H s))"
    using assms by (intro write_combined [OF confirm_steps [OF assms(1)]]) (simp_all add: confirm_bytes_def)
  moreover have "mem_read (ReceivedCapabilities c) 0 32 = Some (ReceivedCapabilities c)" using assms(1) by (simp add: mem_read_def client_caps_def)
  ultimately show ?thesis using assms(3) by (simp add: rdp_write_confirm_active_def Write_UINT_put confirm_bytes_def)
qed

lemma length_bodies:
  "length (general_body c) = 20" "length (bitmap_body c) = 24" "length (pointer_body c) = (if LargePointerFlag c = 0 then 4 else 6)" "length (input_body c) = 84"
  "length (virtual_channel_body c) = 8" "length (sound_body c) = 4" "length (share_body c) = 4" "length (offscreen_bitmap_cache_body c) = 8"
  "length (draw_nine_grid_cache_body c) = 8" "length (large_pointer_body c) = 2" "length (remote_programs_body c) = 4" "length (window_list_body c) = 7"
  "length (surface_commands_body c) = 8" "length (frame_acknowledge_body c) = 4" "length (bitmap_cache_v3_codec_id_body c) = 1"
  "length (bitmap_cache_body c) = 36" "length (multifragment_update_body c) = 4"
  "length (OrderSupport c) = 32 \<Longrightarrow> length (order_body c) = 84"
  by (simp_all add: body_defs Let_def)

lemma length_array_bodies:
  assumes "client_caps c"
  shows "length (order_body c) = 84" "length (bitmap_cache_v2_body c) = 36" "length (glyph_cache_body c) = 48"
  using assms by (simp_all add: client_caps_def length_bodies bitmap_cache_v2_body_def glyph_cache_body_def cache_bytes_def
    length_concat_map [where k = 4])

lemma length_codec_bytes: "length (Data4 g) = 8 \<Longrightarrow> length (codec_bytes g i p) = 19 + length p"
  by (simp add: codec_bytes_def)

lemma guid_lengths [simp]: "length (Data4 CODEC_GUID_REMOTEFX) = 8" "length (Data4 CODEC_GUID_NSCODEC) = 8" "length (Data4 CODEC_GUID_JPEG) = 8"
  "length (Data4 CODEC_GUID_IMAGE_REMOTEFX) = 8"
  by (simp_all add: CODEC_GUID_REMOTEFX_def CODEC_GUID_NSCODEC_def CODEC_GUID_JPEG_def CODEC_GUID_IMAGE_REMOTEFX_def)

lemma length_bitmap_codecs_body: "length (bitmap_codecs_body c) \<le> 179"
  by (simp add: bitmap_codecs_body_def client_codecs_def length_codec_bytes)

lemma length_confirm_blocks:
  assumes "client_caps c"
  shows "length (blocks_bytes (confirm_blocks c)) \<le> 671"
proof -
  have le: "length (blocks_bytes (if b then bs else [])) \<le> length (blocks_bytes bs)" for b bs by simp
  show ?thesis unfolding confirm_blocks_def Let_def blocks_bytes_simps blocks_either length_append
    by (rule order_trans, (rule add_mono le order_refl)+) (use length_bitmap_codecs_body [of c] in \<open>simp add: length_bodies length_array_bodies [OF assms]\<close>)
qed

end
