(* ===== verification/GccWire.thy ===== *)
theory GccWire
  imports GccBytes
begin

text \<open>
  What the server learns from the blocks that the client writes, and the exchange of Connect-Initial and
  Connect-Response with the GCC data in it.
\<close>

subsection \<open>Readers of fields\<close>

named_theorems parses_intros \<open>rules that establish \<open>parses\<close>\<close>

lemma parses_get [parses_intros]:
  "parses (get8 u8) st [b] (u8 b st)" "parses (get16 u16) st (le_bytes16 v) (u16 v st)" "parses (get32 u32) st (le_bytes32 w) (u32 w st)"
  by (simp_all add: parses_def get8_def get16_def get32_def Read_UINT8_ahead Read_UINT16_enc Read_UINT32_enc)

lemma parses_skip [parses_intros]: "length W = n \<Longrightarrow> parses (skip n) st W st"
  by (auto simp: parses_def skip_def)

lemma parses_pure [parses_intros]: "P st \<Longrightarrow> parses (check P) st [] st" "parses (assign f) st [] (f st)"
  by (simp_all add: parses_def check_def assign_def)

lemma parses_steps: "parses (steps []) st [] st" "parses f st W st1 \<Longrightarrow> parses (steps fs) st1 W' st2 \<Longrightarrow> parses (steps (f # fs)) st (W @ W') st2"
  by (simp add: parses_def assign_def) (simp add: parses_and_also)

lemma parses_optional:
  "parses (optional [] n) st [] st"
  "k \<le> n \<Longrightarrow> parses f st W st1 \<Longrightarrow> parses (optional fs (n - k)) st1 W' st2 \<Longrightarrow> parses (optional ((k, f) # fs) n) st (W @ W') st2"
  by (simp add: parses_def assign_def) (simp add: parses_and_also)

lemma parses_state: "parses f st W st' \<Longrightarrow> st' = st1 \<Longrightarrow> parses f st W st1"
  by simp

lemma parses_expect: "(\<And>s rest. Stream_wf s \<Longrightarrow> ahead s = W @ rest \<Longrightarrow> rd s = Some (Some x, Stream_Seek s (length W))) \<Longrightarrow> P x \<Longrightarrow> parses (expect rd P) st W st"
  by (simp add: parses_def expect_def)

subsection \<open>Strings\<close>

lemma wchars_wbytes [simp]: "wchars (wbytes ws) = ws"
  by (induction ws) (simp_all add: wbytes_def le_bytes16_def u16_le_bytes)

text \<open>
  A text cut to a field of \<open>lim\<close> units: \<open>a\<close> is what fits, exactly or because nothing is left.
\<close>

definition fits_name :: "nat \<Rightarrow> nat list \<Rightarrow> nat list \<Rightarrow> bool" where
  "fits_name lim cs a \<longleftrightarrow> (\<exists>b. cs = a @ b \<and> (length (utf16_text a) = lim - 1 \<or> b = [] \<and> length (utf16_text a) < lim))"

lemma utf_text_zeros: "utf16_text (replicate n 0) = replicate n 0" "utf8_text (replicate n 0) = replicate n 0"
  by (induction n) simp_all

lemma fits_name_units:
  assumes "fits_name lim cs a" "0 < lim"
  shows "name_units lim (utf16_text cs) = utf16_text (a @ replicate (lim - length (utf16_text a)) 0)" "length (utf16_text a) < lim"
proof -
  obtain b where b: "cs = a @ b" "length (utf16_text a) = lim - 1 \<or> b = [] \<and> length (utf16_text a) < lim"
    using assms by (auto simp: fits_name_def)
  have "length (utf16_text a) = lim - 1 \<or> b = [] \<and> length (utf16_text a) < lim - 1" using b(2) assms(2) by auto
  with b(1) show "name_units lim (utf16_text cs) = utf16_text (a @ replicate (lim - length (utf16_text a)) 0)" "length (utf16_text a) < lim"
    using assms(2) by (auto simp: name_units_def utf_text_append utf_text_zeros min_def)
qed

lemma ConvertFromUnicode_units:
  assumes "\<forall>c\<in>set cs. is_scalar c" "cs \<noteq> []" "length (utf16_text cs) < 2 ^ 31"
  shows "ConvertFromUnicode True (Some (utf16_text cs)) (int (length (utf16_text cs))) (Some None) 0 =
    Some (int (length (utf8_text cs)), Some (Some (utf8_text cs @ [0])))" "0 < length (utf8_text cs)"
proof -
  obtain c cs' where c: "cs = c # cs'" using assms(2) by (cases cs) auto
  have p: "0 < length (utf16_text cs)" "0 < length (utf8_text cs)" using c by (simp_all add: utf_of_nonempty)
  then show "0 < length (utf8_text cs)" by simp
  let ?n = "length (utf8_text cs)"
  have "mem_read (replicate (Suc ?n) 0) 0 ?n = Some (replicate ?n (0 :: byte))" by (simp add: mem_read_def min_def del: replicate_Suc)
  moreover have "mem_write (replicate (Suc ?n) 0) 0 (utf8_text cs) = Some (utf8_text cs @ [0])" by (simp add: mem_write_def del: replicate_Suc) simp
  moreover have "mem_read (utf16_text cs) 0 (length (utf16_text cs)) = Some (utf16_text cs)" by (simp add: mem_read_def)
  ultimately show "ConvertFromUnicode True (Some (utf16_text cs)) (int (length (utf16_text cs))) (Some None) 0 =
    Some (int ?n, Some (Some (utf8_text cs @ [0])))"
    using p ConvertUTF16toUTF8_text [OF assms(1), of strictConversion]
    by (auto simp: ConvertFromUnicode_def WideCharToMultiByte_def nat_add_distrib simp del: replicate_Suc)
qed

text \<open>The string that the server stores: the part of the name that fits, and zeros.\<close>

definition stored_name :: "nat \<Rightarrow> nat list \<Rightarrow> byte list" where
  "stored_name lim a = utf8_text a @ replicate (lim + 1 - length (utf16_text a)) 0"

lemma parses_unicode:
  assumes "fits_name n cs a" "0 < n" "n < 2 ^ 31" "\<forall>c\<in>set cs. is_scalar c \<and> c \<noteq> 0"
  shows "parses (get_unicode True n upd) st (wbytes (name_units n (utf16_text cs))) (upd (stored_name n a) st)"
  unfolding parses_def
proof (intro allI impI)
  fix s rest assume s: "Stream_wf s" "ahead s = wbytes (name_units n (utf16_text cs)) @ rest"
  let ?t = "a @ replicate (n - length (utf16_text a)) 0"
  have t: "name_units n (utf16_text cs) = utf16_text ?t" "length (utf16_text a) < n" using fits_name_units [OF assms(1,2)] by auto
  have l: "length (utf16_text ?t) = n" using length_name_units [OF assms(2), of "utf16_text cs"] t(1) by simp
  have sc: "\<forall>c\<in>set ?t. is_scalar c" using assms(1,4) by (auto simp: fits_name_def)
  have ne: "?t \<noteq> []" using t(2) by auto
  have r: "mem_read (s_buffer s) (s_pointer s) (2 * n) = Some (wbytes (utf16_text ?t))" using s t(1) l by (simp add: mem_read_ahead)
  have st: "utf8_text ?t @ [0] = stored_name n a"
    using t(2) by (simp add: stored_name_def utf_text_append utf_text_zeros replicate_append_same Suc_diff_le)
  note conv = ConvertFromUnicode_units [OF sc ne, unfolded l]
  show "get_unicode True n upd st s = Some ((True, upd (stored_name n a) st), Stream_Seek s (length (wbytes (name_units n (utf16_text cs)))))"
    unfolding get_unicode_def r using conv assms(3) t(1) l st by (simp add: not_less)
qed


subsection \<open>Core data\<close>

text \<open>The settings of the server after the core data of a client \<open>c\<close> whose names are stored as \<open>h\<close> and \<open>p\<close>.\<close>

definition core_received :: "rdpSettings \<Rightarrow> byte list \<Rightarrow> byte list \<Rightarrow> rdpSettings \<Rightarrow> rdpSettings" where
  "core_received c h p sv = (let depth = (if ColorDepth c = 32 then 32 else min (ColorDepth c) 24) in sv\<lparr>
     RdpVersion := if RdpVersion c \<ge> 5 then 7 else 4,
     DesktopWidth := take_bit 16 (DesktopWidth c), DesktopHeight := take_bit 16 (DesktopHeight c),
     KeyboardLayout := KeyboardLayout c, ClientBuild := ClientBuild c, ClientHostname := Some h,
     KeyboardType := KeyboardType c, KeyboardSubType := KeyboardSubType c, KeyboardFunctionKey := KeyboardFunctionKey c,
     EarlyCapabilityFlags := ucast (gcc_early_flags c (ucast (ConnectionType c))), ClientProductId := Some p,
     DesktopPhysicalWidth := DesktopPhysicalWidth c, DesktopPhysicalHeight := DesktopPhysicalHeight c, DesktopOrientation := DesktopOrientation c,
     DesktopScaleFactor := DesktopScaleFactor c, DeviceScaleFactor := DeviceScaleFactor c,
     ColorDepth := if depth < ColorDepth sv \<or> \<not> ServerMode sv then depth else ColorDepth sv,
     NetworkAutoDetect := NetworkAutoDetect sv \<and> NetworkAutoDetect c,
     SupportHeartbeatPdu := SupportHeartbeatPdu sv \<and> SupportHeartbeatPdu c,
     SupportGraphicsPipeline := SupportGraphicsPipeline sv \<and> SupportGraphicsPipeline c,
     SupportDynamicTimeZone := SupportDynamicTimeZone sv \<and> SupportDynamicTimeZone c,
     SupportMonitorLayoutPdu := SupportMonitorLayoutPdu sv \<and> SupportMonitorLayoutPdu c,
     SupportErrorInfoPdu := True,
     ConnectionType := take_bit 8 (ConnectionType c)\<rparr>)"

lemma early_flags_tests:
  "gcc_early_flags c conn AND RNS_UD_CS_SUPPORT_NETWORK_AUTODETECT \<noteq> 0 \<longleftrightarrow> NetworkAutoDetect c"
  "gcc_early_flags c conn AND RNS_UD_CS_SUPPORT_HEARTBEAT_PDU \<noteq> 0 \<longleftrightarrow> SupportHeartbeatPdu c"
  "gcc_early_flags c conn AND RNS_UD_CS_SUPPORT_DYNVC_GFX_PROTOCOL \<noteq> 0 \<longleftrightarrow> SupportGraphicsPipeline c"
  "gcc_early_flags c conn AND RNS_UD_CS_SUPPORT_DYNAMIC_TIME_ZONE \<noteq> 0 \<longleftrightarrow> SupportDynamicTimeZone c"
  "gcc_early_flags c conn AND RNS_UD_CS_SUPPORT_MONITOR_LAYOUT_PDU \<noteq> 0 \<longleftrightarrow> SupportMonitorLayoutPdu c"
  "gcc_early_flags c conn AND RNS_UD_CS_SUPPORT_ERRINFO_PDU \<noteq> 0"
  "gcc_early_flags c conn AND RNS_UD_CS_VALID_CONNECTION_TYPE = 0 \<longleftrightarrow> conn = 0"
  "gcc_early_flags c conn AND RNS_UD_CS_WANT_32BPP_SESSION \<noteq> 0 \<longleftrightarrow> ColorDepth c = 32"
  by (simp_all add: gcc_early_flags_def bit.conj_disj_distrib2)


lemma ucast_down_up: "(ucast (ucast (v :: u32) :: u16) :: u32) = take_bit 16 v" "(ucast (ucast (v :: u32) :: byte) :: u32) = take_bit 8 v"
  by (rule bit_word_eqI, simp add: bit_simps)+

text \<open>The two parts of the core data, and what they leave in the variables of the reader.\<close>

definition core_required_bytes :: "rdpSettings \<Rightarrow> WCHAR list \<Rightarrow> byte list" where
  "core_required_bytes c u =
     le_bytes32 (if RdpVersion c \<ge> 5 then RDP_VERSION_5_PLUS else RDP_VERSION_4) @
     le_bytes16 (ucast (DesktopWidth c)) @ le_bytes16 (ucast (DesktopHeight c)) @ le_bytes16 0xCA01 @ le_bytes16 0xAA03 @
     le_bytes32 (KeyboardLayout c) @ le_bytes32 (ClientBuild c) @ wbytes (name_units 16 u) @
     le_bytes32 (KeyboardType c) @ le_bytes32 (KeyboardSubType c) @ le_bytes32 (KeyboardFunctionKey c) @ replicate 64 0 @ []"

definition core_optional_bytes :: "rdpSettings \<Rightarrow> WCHAR list \<Rightarrow> byte list" where
  "core_optional_bytes c v =
     le_bytes16 0xCA01 @ le_bytes16 1 @ le_bytes32 0 @ le_bytes16 (ucast (min (ColorDepth c) 24)) @ le_bytes16 (gcc_supported_depths c) @
     le_bytes16 (gcc_early_flags c (ucast (ConnectionType c))) @ wbytes (name_units 32 v) @ [ucast (ConnectionType c)] @ [0] @
     le_bytes32 (SelectedProtocol c) @ le_bytes32 (DesktopPhysicalWidth c) @ le_bytes32 (DesktopPhysicalHeight c) @
     le_bytes16 (DesktopOrientation c) @ le_bytes32 (DesktopScaleFactor c) @ (le_bytes32 (DeviceScaleFactor c) @ []) @ []"

lemma core_body_parts: "core_body c u v = core_required_bytes c u @ core_optional_bytes c v @ [] @ []"
  by (simp add: core_body_def core_required_bytes_def core_optional_bytes_def)

lemma parses_core_required:
  assumes "fits_name 16 cs a" "\<forall>c\<in>set cs. is_scalar c \<and> c \<noteq> 0"
  shows "parses (gcc_core_required (\<lambda>_. True)) k (core_required_bytes c (utf16_text cs))
    (on_settings (\<lambda>sv. sv\<lparr>RdpVersion := if RdpVersion c \<ge> 5 then 7 else 4, DesktopWidth := take_bit 16 (DesktopWidth c),
       DesktopHeight := take_bit 16 (DesktopHeight c), KeyboardLayout := KeyboardLayout c, ClientBuild := ClientBuild c, ClientHostname := Some (stored_name 16 a),
       KeyboardType := KeyboardType c, KeyboardSubType := KeyboardSubType c, KeyboardFunctionKey := KeyboardFunctionKey c\<rparr>) (k\<lparr>colorDepth := 0xCA01\<rparr>))"
  unfolding gcc_core_required_def core_required_bytes_def
  by (rule parses_state, (rule parses_steps parses_get parses_skip parses_unicode [OF assms(1) _ _ assms(2)] | simp (no_asm); fail)+)
    (simp add: on_settings_def ucast_down_up)

lemma parses_core_optional:
  assumes "fits_name 32 ds b" "\<forall>c\<in>set ds. is_scalar c \<and> c \<noteq> 0" "SelectedProtocol (settings (core_mcs k)) = SelectedProtocol c"
  shows "parses (optional (gcc_core_optional (\<lambda>_. True)) 102) k (core_optional_bytes c (utf16_text ds))
    (on_settings (\<lambda>sv. sv\<lparr>EarlyCapabilityFlags := ucast (gcc_early_flags c (ucast (ConnectionType c))), ClientProductId := Some (stored_name 32 b),
       DesktopPhysicalWidth := DesktopPhysicalWidth c, DesktopPhysicalHeight := DesktopPhysicalHeight c, DesktopOrientation := DesktopOrientation c,
       DesktopScaleFactor := DesktopScaleFactor c, DeviceScaleFactor := DeviceScaleFactor c\<rparr>)
     (k\<lparr>postBeta2ColorDepth := 0xCA01, highColorDepth := ucast (min (ColorDepth c) 24), supportedColorDepths := gcc_supported_depths c,
       earlyCapabilityFlags := gcc_early_flags c (ucast (ConnectionType c)), connectionType := ucast (ConnectionType c), serverSelectedProtocol := SelectedProtocol c\<rparr>))"
  unfolding gcc_core_optional_def core_optional_bytes_def
  by (rule parses_state, (rule parses_optional parses_and_also parses_get parses_skip parses_pure(1) parses_unicode [OF assms(1) _ _ assms(2)] |
      simp (no_asm) add: on_settings_def assms(3); fail)+)


lemma parses_core:
  assumes "fits_name 16 cs a" "fits_name 32 ds b" "\<forall>c\<in>set cs \<union> set ds. is_scalar c \<and> c \<noteq> 0"
    and "SelectedProtocol (settings m) = SelectedProtocol c" "ColorDepth c \<noteq> 0"
  shows "parses (gcc_read_client_core_data (\<lambda>_. True) 230) m (core_body c (utf16_text cs) (utf16_text ds))
    (set_settings (core_received c (stored_name 16 a) (stored_name 32 b)) m)"
proof -
  let ?conn = "ucast (ConnectionType c) :: byte"
  let ?k1 = "on_settings (\<lambda>sv. sv\<lparr>RdpVersion := if RdpVersion c \<ge> 5 then 7 else 4, DesktopWidth := take_bit 16 (DesktopWidth c),
       DesktopHeight := take_bit 16 (DesktopHeight c), KeyboardLayout := KeyboardLayout c, ClientBuild := ClientBuild c, ClientHostname := Some (stored_name 16 a),
       KeyboardType := KeyboardType c, KeyboardSubType := KeyboardSubType c, KeyboardFunctionKey := KeyboardFunctionKey c\<rparr>)
     ((gcc_core_init m)\<lparr>colorDepth := 0xCA01\<rparr>)"
  let ?k2 = "on_settings (\<lambda>sv. sv\<lparr>EarlyCapabilityFlags := ucast (gcc_early_flags c ?conn), ClientProductId := Some (stored_name 32 b),
       DesktopPhysicalWidth := DesktopPhysicalWidth c, DesktopPhysicalHeight := DesktopPhysicalHeight c, DesktopOrientation := DesktopOrientation c,
       DesktopScaleFactor := DesktopScaleFactor c, DeviceScaleFactor := DeviceScaleFactor c\<rparr>)
     (?k1\<lparr>postBeta2ColorDepth := 0xCA01, highColorDepth := ucast (min (ColorDepth c) 24), supportedColorDepths := gcc_supported_depths c,
       earlyCapabilityFlags := gcc_early_flags c ?conn, connectionType := ?conn, serverSelectedProtocol := SelectedProtocol c\<rparr>)"
  have k1: "parses (gcc_core_required (\<lambda>_. True)) (gcc_core_init m) (core_required_bytes c (utf16_text cs)) ?k1"
    using assms(3) by (intro parses_core_required [OF assms(1)]) auto
  have "SelectedProtocol (settings (core_mcs ?k1)) = SelectedProtocol c" using assms(4) by (simp add: on_settings_def gcc_core_init_def)
  then have k2: "parses (optional (gcc_core_optional (\<lambda>_. True)) (230 - 128)) ?k1 (core_optional_bytes c (utf16_text ds)) ?k2"
    using parses_core_optional [OF assms(2), of ?k1 c] assms(3) by simp
  let ?d = "min (ColorDepth c) 24"
  have d: "unat ?d < 2 ^ 16" "0 < unat ?d" using assms(5) by (auto simp: min_def word_le_nat_alt unat_gt_0)
  have h: "(ucast (ucast ?d :: u16) :: u32) = ?d" using d(1) unfolding ucast_down_up by (simp add: word_unat_eq_iff unsigned_take_bit_eq take_bit_nat_eq_self)
  then have "(ucast ?d :: u16) \<noteq> 0" using d(2) by auto
  then have "(ucast ?d :: u16) > 0" by (simp add: word_gt_0)
  then have depth: "gcc_client_color_depth ?k2 = Some (if ColorDepth c = 32 then 32 else ?d)"
    using h by (simp add: gcc_client_color_depth_def on_settings_def early_flags_tests)
  let ?depth = "if ColorDepth c = 32 then 32 else ?d"
  have fin: "parses gcc_core_finish ?k2 [] (on_settings (gcc_core_settings ?depth (gcc_early_flags c ?conn) ?conn) ?k2)"
    unfolding parses_def gcc_core_finish_def depth by (simp add: on_settings_def)
  have conn: "(if ?conn = 0 then 0 else ucast ?conn) = (take_bit 8 (ConnectionType c) :: u32)" using ucast_down_up(2) [of "ConnectionType c"] by auto
  have "core_mcs (on_settings (gcc_core_settings ?depth (gcc_early_flags c ?conn) ?conn) ?k2) = set_settings (core_received c (stored_name 16 a) (stored_name 32 b)) m"
    by (simp add: on_settings_def gcc_core_init_def gcc_core_settings_def set_settings_def core_received_def Let_def early_flags_tests conn)
  moreover note parses_steps(2) [OF k1 parses_steps(2) [OF k2 parses_steps(2) [OF fin parses_steps(1)]]]
  ultimately have "parses (on_field gcc_core_init (\<lambda>c _. core_mcs c)
      (steps [gcc_core_required (\<lambda>_. True), optional (gcc_core_optional (\<lambda>_. True)) (230 - 128), gcc_core_finish])) m
      (core_body c (utf16_text cs) (utf16_text ds)) (set_settings (core_received c (stored_name 16 a) (stored_name 32 b)) m)"
    using parses_on_field [where get = gcc_core_init and upd = "\<lambda>c _. core_mcs c" and st = m] unfolding core_body_parts by metis
  from parses_and_also [OF parses_pure(1) this, of "\<lambda>_. \<not> (230 :: nat) < 128"] show ?thesis unfolding gcc_read_client_core_data_def by simp
qed


subsection \<open>The other blocks\<close>

definition cluster_received :: "rdpSettings \<Rightarrow> gccMcs \<Rightarrow> gccMcs" where
  "cluster_received c m = (if ConsoleSession c \<or> RedirectedSessionId c \<noteq> 0 then set_settings (\<lambda>sv. sv\<lparr>RedirectedSessionId := RedirectedSessionId c\<rparr>) m else m)"

definition security_received :: "rdpSettings \<Rightarrow> gccMcs \<Rightarrow> gccMcs" where
  "security_received c m = (if UseRdpSecurityLayer (settings m) then set_settings (\<lambda>sv. sv\<lparr>EncryptionMethods := EncryptionMethods c\<rparr>) m else m)"

lemma parses_cluster: "parses (gcc_read_client_cluster_data 8) m (cluster_body c) (cluster_received c m)"
proof -
  let ?f = "1 OR push_bit 2 3 OR (if ConsoleSession c \<or> RedirectedSessionId c \<noteq> 0 then 2 else 0) :: u32"
  have f: "?f AND 2 \<noteq> 0 \<longleftrightarrow> ConsoleSession c \<or> RedirectedSessionId c \<noteq> 0" by simp
  have "Stream_Read_UINT32 s = Some (?f, Stream_Seek s 4) \<and> Stream_Read_UINT32 (Stream_Seek s 4) = Some (RedirectedSessionId c, Stream_Seek s 8)"
    if "Stream_wf s" "ahead s = cluster_body c @ rest" for s rest
    using that Read_UINT32_enc [of s ?f "le_bytes32 (RedirectedSessionId c) @ rest"] Read_UINT32_enc [of "Stream_Seek s 4" "RedirectedSessionId c" rest]
      Stream_wf_Seek [of s 4] by (simp add: cluster_body_def)
  then show ?thesis unfolding parses_def gcc_read_client_cluster_data_def
    using f by (auto simp: and_also_def check_def cluster_received_def Let_def cluster_body_def)
qed

lemma parses_security: "parses (gcc_read_client_security_data 8) m (security_body c) (security_received c m)"
proof -
  have s: "security_body c = [] @ security_body c" by simp
  let ?x = "if UseRdpSecurityLayer c then EncryptionMethods c else 0" and ?y = "if UseRdpSecurityLayer c then 0 else EncryptionMethods c"
  have b: "security_body c = le_bytes32 ?x @ le_bytes32 ?y" by (simp add: security_body_def)
  have "parses (\<lambda>mcs. if UseRdpSecurityLayer (settings mcs) then
          and_also (get32 (\<lambda>v. set_settings (\<lambda>st. st\<lparr>EncryptionMethods := v\<rparr>)))
            (\<lambda>mcs. if EncryptionMethods (settings mcs) = 0 then get32 (\<lambda>v. set_settings (\<lambda>st. st\<lparr>EncryptionMethods := v\<rparr>)) mcs
                   else skip 4 mcs) mcs
        else skip 8 mcs) m (security_body c) (security_received c m)"
  proof (cases "UseRdpSecurityLayer (settings m)")
    case False
    then show ?thesis using parses_skip [of "security_body c" 8 m] by (simp add: parses_def security_received_def b)
  next
    case True
    let ?m = "set_settings (\<lambda>st. st\<lparr>EncryptionMethods := ?x\<rparr>) m"
    have "parses (\<lambda>mcs. if EncryptionMethods (settings mcs) = 0 then get32 (\<lambda>v. set_settings (\<lambda>st. st\<lparr>EncryptionMethods := v\<rparr>)) mcs else skip 4 mcs) ?m
        (le_bytes32 ?y) (security_received c m)"
    proof (cases "?x = 0")
      case x: True
      have "set_settings (\<lambda>st. st\<lparr>EncryptionMethods := ?y\<rparr>) ?m = security_received c m"
        using True x by (cases "UseRdpSecurityLayer c") (auto simp: security_received_def set_settings_def)
      then show ?thesis using x parses_get(3) [of "\<lambda>v. set_settings (\<lambda>st. st\<lparr>EncryptionMethods := v\<rparr>)" ?m ?y] by (simp add: parses_def set_settings_def)
    next
      case x: False
      then have "?m = security_received c m" using True by (auto simp: security_received_def split: if_splits)
      moreover have "EncryptionMethods (settings ?m) \<noteq> 0" using x by (simp add: set_settings_def)
      ultimately show ?thesis using parses_skip [of "le_bytes32 ?y" 4 ?m] by (simp add: parses_def)
    qed
    from parses_and_also [OF parses_get(3) [of "\<lambda>v. set_settings (\<lambda>st. st\<lparr>EncryptionMethods := v\<rparr>)" m ?x] this] True show ?thesis unfolding b by (simp add: parses_def)
  qed
  from parses_and_also [OF parses_pure(1) this, of "\<lambda>_. \<not> (8 :: nat) < 8"] show ?thesis unfolding gcc_read_client_security_data_def by simp
qed


text \<open>A number that the function keeps in a variable.\<close>

lemma parses_read_32:
  assumes "parses (k v) st B st'"
  shows "parses (\<lambda>st s. Stream_Read_UINT32 s \<bind> (\<lambda>(v, s). k v st s)) st (le_bytes32 v @ B) st'"
  unfolding parses_def
proof (intro allI impI)
  fix s rest assume s: "Stream_wf s" "ahead s = (le_bytes32 v @ B) @ rest"
  have "Stream_Read_UINT32 s = Some (v, Stream_Seek s 4)" using Read_UINT32_enc [OF s(1), of v "B @ rest"] s(2) by simp
  moreover have "k v st (Stream_Seek s 4) = Some ((True, st'), Stream_Seek (Stream_Seek s 4) (length B))"
    using s by (intro parsesD [OF assms, of _ rest] Stream_wf_Seek) simp_all
  ultimately show "Stream_Read_UINT32 s \<bind> (\<lambda>(v, s). k v st s) = Some ((True, st'), Stream_Seek s (length (le_bytes32 v @ B)))" by simp
qed

text \<open>A range of an array that is written element by element.\<close>

definition map_range :: "nat \<Rightarrow> nat \<Rightarrow> (nat \<Rightarrow> 'a \<Rightarrow> 'a) \<Rightarrow> 'a list \<Rightarrow> 'a list" where
  "map_range i n f xs = map (\<lambda>j. if i \<le> j \<and> j < i + n then f (j - i) (xs ! j) else xs ! j) [0..<length xs]"

lemma map_range_0 [simp]: "map_range i 0 f xs = xs"
  by (rule nth_equalityI) (auto simp: map_range_def)

lemma length_map_range [simp]: "length (map_range i n f xs) = length xs"
  by (simp add: map_range_def)

lemma map_range_Suc: "i < length xs \<Longrightarrow> map_range (Suc i) n (\<lambda>k. f (Suc k)) (xs[i := f 0 (xs ! i)]) = map_range i (Suc n) f xs"
  by (rule nth_equalityI) (auto simp: map_range_def nth_list_update Suc_diff_Suc)

lemma map_range_cong: "(\<And>k x. k < n \<Longrightarrow> f k x = g k x) \<Longrightarrow> map_range i n f xs = map_range i n g xs"
  by (auto simp: map_range_def)

definition channel_received :: "rdpMcsChannel list \<Rightarrow> u16 \<Rightarrow> nat \<Rightarrow> rdpMcsChannel \<Rightarrow> rdpMcsChannel" where
  "channel_received cs base k c = c\<lparr>chan_Name := chan_Name (cs ! k), chan_options := chan_options (cs ! k), chan_ChannelId := uint (base + word_of_nat k)\<rparr>"

lemma parses_channels:
  assumes "\<forall>c\<in>set cs. length (chan_Name c) = 8 \<and> 0 \<in> set (chan_Name c)" "i + length cs \<le> length (channels m)"
  shows "parses (gcc_read_channels i (length cs)) m (concat (map channel_def_bytes cs))
    (m\<lparr>channels := map_range i (length cs) (channel_received cs (baseChannelId m)) (channels m), baseChannelId := baseChannelId m + word_of_nat (length cs)\<rparr>)"
  using assms
proof (induction cs arbitrary: i m)
  case Nil
  then show ?case by (simp add: parses_def)
next
  case (Cons c cs)
  let ?b = "baseChannelId m" and ?cs = "channels m"
  let ?m = "m\<lparr>channels := ?cs[i := channel_received (c # cs) ?b 0 (?cs ! i)], baseChannelId := ?b + 1\<rparr>"
  have i: "i < length ?cs" using Cons.prems(2) by simp
  have c: "length (chan_Name c) = 8" "0 \<in> set (chan_Name c)" using Cons.prems(1) by auto
  have f: "channel_received cs (?b + 1) k x = channel_received (c # cs) ?b (Suc k) x" for k x
    by (simp add: channel_received_def add.assoc)
  have IH: "parses (gcc_read_channels (Suc i) (length cs)) ?m (concat (map channel_def_bytes cs))
    (m\<lparr>channels := map_range i (length (c # cs)) (channel_received (c # cs) ?b) ?cs, baseChannelId := ?b + word_of_nat (length (c # cs))\<rparr>)"
    using Cons.IH [of "Suc i" ?m] Cons.prems i map_range_Suc [of i ?cs "length cs" "channel_received (c # cs) ?b"]
    by (simp add: f add.assoc del: One_nat_def)
  show ?case unfolding parses_def
  proof (intro allI impI)
    fix s rest assume s: "Stream_wf s" "ahead s = concat (map channel_def_bytes (c # cs)) @ rest"
    let ?W = "concat (map channel_def_bytes cs)"
    have a: "ahead s = chan_Name c @ le_bytes32 (chan_options c) @ ?W @ rest" using s(2) by (simp add: channel_def_bytes_def)
    have wf: "Stream_wf (Stream_Seek s 8)" "Stream_wf (Stream_Seek s 12)" using s(1) a c by (auto intro!: Stream_wf_Seek)
    have "Stream_Read s 8 = Some (chan_Name c, Stream_Seek s 8)" using Stream_Read_ahead [OF s(1), of 8] a c by simp
    moreover have "Stream_Read_UINT32 (Stream_Seek s 8) = Some (chan_options c, Stream_Seek s 12)"
      using Read_UINT32_enc [OF wf(1), of "chan_options c" "?W @ rest"] a c by simp
    moreover have "gcc_read_channels (Suc i) (length cs) ?m (Stream_Seek s 12) =
      Some ((True, m\<lparr>channels := map_range i (length (c # cs)) (channel_received (c # cs) ?b) ?cs, baseChannelId := ?b + word_of_nat (length (c # cs))\<rparr>),
        Stream_Seek (Stream_Seek s 12) (length ?W))"
      using a c by (intro parsesD [OF IH wf(2), of rest]) simp
    ultimately show "gcc_read_channels i (length (c # cs)) m s =
      Some ((True, m\<lparr>channels := map_range i (length (c # cs)) (channel_received (c # cs) ?b) ?cs, baseChannelId := ?b + word_of_nat (length (c # cs))\<rparr>),
        Stream_Seek s (length (concat (map channel_def_bytes (c # cs)))))"
      using i c by (simp add: update_at_def channel_received_def channel_def_bytes_def ac_simps)
  qed
qed

text \<open>What the server makes of the channels of a client \<open>c\<close>: their names and options, with channel ids from \<open>baseChannelId\<close> on.\<close>

definition network_received :: "gccMcs \<Rightarrow> gccMcs \<Rightarrow> gccMcs" where
  "network_received c m = m\<lparr>channelCount := channelCount c,
     channels := map_range 0 (unat (channelCount c)) (channel_received (channels c) (baseChannelId m)) (channels m),
     baseChannelId := baseChannelId m + ucast (channelCount c)\<rparr>"

definition channels_named :: "gccMcs \<Rightarrow> bool" where
  "channels_named c \<longleftrightarrow> channelCount c \<le> 16 \<and> unat (channelCount c) \<le> length (channels c) \<and> (\<forall>ch\<in>set (channels c). length (chan_Name ch) = 8 \<and> 0 \<in> set (chan_Name ch))"

lemma parses_network:
  assumes "channels_named c" "16 \<le> length (channels m)"
  shows "parses (gcc_read_client_network_data (length (network_body c))) m (network_body c) (network_received c m)"
proof -
  let ?n = "unat (channelCount c)"
  let ?cs = "take ?n (channels c)"
  have n: "?n \<le> 16" "?n \<le> length (channels c)" using assms(1) by (auto simp: channels_named_def word_le_nat_alt)
  have ok: "channels_ok c" using assms(1) n by (auto simp: channels_named_def channels_ok_def)
  have u: "unat (4 + channelCount c * 12) = 4 + 12 * ?n" using n by (simp add: unat_word_ariths)
  have "\<forall>ch\<in>set ?cs. length (chan_Name ch) = 8 \<and> 0 \<in> set (chan_Name ch)" using assms(1) by (auto simp: channels_named_def dest: in_set_takeD)
  moreover have "channel_received ?cs b k x = channel_received (channels c) b k x" if "k < ?n" for b k x
    using that by (simp add: channel_received_def)
  moreover have l: "length ?cs = ?n" using n by simp
  ultimately have "parses (gcc_read_channels 0 ?n) (m\<lparr>channelCount := channelCount c\<rparr>) (concat (map channel_def_bytes ?cs)) (network_received c m)"
    using parses_channels [of ?cs 0 "m\<lparr>channelCount := channelCount c\<rparr>"] n assms(2)
      map_range_cong [of ?n "channel_received ?cs (baseChannelId m)" "channel_received (channels c) (baseChannelId m)" 0 "channels m"]
    unfolding l network_received_def by simp
  then have p: "parses (\<lambda>mcs. gcc_read_channels 0 (unat (channelCount mcs)) mcs) (m\<lparr>channelCount := channelCount c\<rparr>) (concat (map channel_def_bytes ?cs))
      (network_received c m)" by (simp add: parses_def)
  have b: "network_body c = [] @ le_bytes32 (channelCount c) @ [] @ [] @ concat (map channel_def_bytes ?cs) @ []" by (simp add: network_body_def)
  show ?thesis unfolding gcc_read_client_network_data_def length_network_body [OF ok] unfolding b
    using assms(1) by - (rule parses_steps parses_pure(1) parses_get(3) p | simp add: u channels_named_def not_less; fail)+
qed

text \<open>Monitors.\<close>

definition numbers_bytes :: "u32 \<times> u32 \<times> u32 \<times> u32 \<times> u32 \<Rightarrow> byte list" where
  "numbers_bytes = (\<lambda>(a, b, c, d, e). le_bytes32 a @ le_bytes32 b @ le_bytes32 c @ le_bytes32 d @ le_bytes32 e)"

lemma parses_monitor_loop:
  assumes "i + length ns \<le> length (MonitorDefArray (settings m))"
  shows "parses (gcc_read_monitor_loop upd i (length ns)) m (concat (map numbers_bytes ns))
    (set_settings (\<lambda>st. st\<lparr>MonitorDefArray := map_range i (length ns) (\<lambda>k. case ns ! k of (a, b, c, d, e) \<Rightarrow> upd a b c d e) (MonitorDefArray st)\<rparr>) m)"
  using assms
proof (induction ns arbitrary: i m)
  case Nil
  then show ?case by (simp add: parses_def set_settings_def)
next
  case (Cons n ns)
  obtain a b c d e where n: "n = (a, b, c, d, e)" by (cases n)
  let ?f = "\<lambda>ns k. case ns ! k of (a, b, c, d, e) \<Rightarrow> upd a b c d e"
  let ?xs = "MonitorDefArray (settings m)"
  let ?m = "set_settings (\<lambda>st. st\<lparr>MonitorDefArray := ?xs[i := upd a b c d e (?xs ! i)]\<rparr>) m"
  let ?fin = "set_settings (\<lambda>st. st\<lparr>MonitorDefArray := map_range i (length (n # ns)) (?f (n # ns)) (MonitorDefArray st)\<rparr>) m"
  have i: "i < length ?xs" using Cons.prems by simp
  have IH: "parses (gcc_read_monitor_loop upd (Suc i) (length ns)) ?m (concat (map numbers_bytes ns)) ?fin"
    using Cons.IH [of "Suc i" ?m] Cons.prems map_range_Suc [OF i, of "length ns" "?f (n # ns)"] by (simp add: set_settings_def n)
  have last: "parses (\<lambda>m s. update_at i (upd a b c d e) (MonitorDefArray (settings m)) \<bind>
      (\<lambda>mons. gcc_read_monitor_loop upd (Suc i) (length ns) (set_settings (\<lambda>st. st\<lparr>MonitorDefArray := mons\<rparr>) m) s)) m (concat (map numbers_bytes ns)) ?fin"
    using IH i by (simp add: parses_def update_at_def)
  have loop: "gcc_read_monitor_loop upd i (length (n # ns)) = (\<lambda>m s. Stream_Read_UINT32 s \<bind> (\<lambda>(a, s). Stream_Read_UINT32 s \<bind> (\<lambda>(b, s).
      Stream_Read_UINT32 s \<bind> (\<lambda>(c, s). Stream_Read_UINT32 s \<bind> (\<lambda>(d, s). Stream_Read_UINT32 s \<bind> (\<lambda>(e, s).
      update_at i (upd a b c d e) (MonitorDefArray (settings m)) \<bind>
        (\<lambda>mons. gcc_read_monitor_loop upd (Suc i) (length ns) (set_settings (\<lambda>st. st\<lparr>MonitorDefArray := mons\<rparr>) m) s)))))))"
    by (intro ext) simp
  have bytes: "concat (map numbers_bytes (n # ns)) = le_bytes32 a @ le_bytes32 b @ le_bytes32 c @ le_bytes32 d @ le_bytes32 e @ concat (map numbers_bytes ns)"
    by (simp add: n numbers_bytes_def)
  show ?case unfolding loop bytes by (intro parses_read_32 last)
qed

definition monitor_numbers :: "rdpMonitor \<Rightarrow> u32 \<times> u32 \<times> u32 \<times> u32 \<times> u32" where
  "monitor_numbers m = (mon_x m, mon_y m, mon_x m + mon_width m - 1, mon_y m + mon_height m - 1, if is_primary m \<noteq> 0 then 1 else 0)"

definition attributes_numbers :: "rdpMonitor \<Rightarrow> u32 \<times> u32 \<times> u32 \<times> u32 \<times> u32" where
  "attributes_numbers m = (physicalWidth (attributes m), physicalHeight (attributes m), orientation (attributes m), desktopScaleFactor (attributes m), deviceScaleFactor (attributes m))"

lemma monitor_numbers_bytes: "map monitor_bytes ms = map numbers_bytes (map monitor_numbers ms)" "map attributes_bytes ms = map numbers_bytes (map attributes_numbers ms)"
  by (auto simp: monitor_bytes_def attributes_bytes_def numbers_bytes_def monitor_numbers_def attributes_numbers_def)

text \<open>The monitors of a client \<open>c\<close> at the server: geometry from the one block, attributes from the other.\<close>

definition monitor_received :: "rdpSettings \<Rightarrow> rdpSettings \<Rightarrow> rdpSettings" where
  "monitor_received c sv = sv\<lparr>MonitorCount := MonitorCount c, MonitorDefArray := map_range 0 (nat (MonitorCount c))
     (\<lambda>k m. let r = MonitorDefArray c ! k in m\<lparr>mon_x := mon_x r, mon_y := mon_y r, mon_width := mon_width r, mon_height := mon_height r,
       is_primary := if is_primary r \<noteq> 0 then 1 else 0\<rparr>) (MonitorDefArray sv)\<rparr>"

definition monitor_ex_received :: "rdpSettings \<Rightarrow> rdpSettings \<Rightarrow> rdpSettings" where
  "monitor_ex_received c sv = sv\<lparr>HasMonitorAttributes := True,
     MonitorDefArray := map_range 0 (nat (MonitorCount c)) (\<lambda>k m. m\<lparr>attributes := attributes (MonitorDefArray c ! k)\<rparr>) (MonitorDefArray sv)\<rparr>"

lemma MONITOR_ATTRIBUTES_eta: "\<lparr>physicalWidth = physicalWidth a, physicalHeight = physicalHeight a, orientation = orientation a,
    desktopScaleFactor = desktopScaleFactor a, deviceScaleFactor = deviceScaleFactor a\<rparr> = (a :: MONITOR_ATTRIBUTES)"
  by simp

lemma count_word:
  assumes "0 \<le> n" "n < 3000"
  shows "unat (word_of_int n :: u32) = nat n" "sint (word_of_int n :: u32) = n"
  using assms by (simp_all add: unsigned_of_int signed_of_int take_bit_int_eq_self signed_take_bit_int_eq_self)

lemma parses_monitor:
  assumes "monitors_ok c" "MonitorCount c \<le> int (unat (MonitorDefArraySize (settings m)))" "unat (MonitorDefArraySize (settings m)) \<le> length (MonitorDefArray (settings m))"
  shows "parses (gcc_read_client_monitor_data (length (monitor_body c))) m (monitor_body c) (set_settings (monitor_received c) m)"
proof -
  let ?n = "nat (MonitorCount c)" and ?w = "word_of_int (MonitorCount c) :: u32"
  let ?m = "set_settings (\<lambda>st. st\<lparr>MonitorCount := MonitorCount c\<rparr>) m"
  have n: "0 \<le> MonitorCount c" "MonitorCount c < 3000" "?n \<le> length (MonitorDefArray c)" using assms(1) by (auto simp: monitors_ok_def)
  have w: "unat ?w = ?n" "sint ?w = MonitorCount c" using count_word [OF n(1,2)] by auto
  have l: "length (map monitor_numbers (monitors c)) = ?n" using n by (simp add: monitors_def)
  have len: "?n \<le> length (MonitorDefArray (settings m))" using assms(2,3) by linarith
  have f: "gcc_monitor_def (mon_x r) (mon_y r) (mon_x r + mon_width r - 1) (mon_y r + mon_height r - 1) (if is_primary r \<noteq> 0 then 1 else 0) x =
      x\<lparr>mon_x := mon_x r, mon_y := mon_y r, mon_width := mon_width r, mon_height := mon_height r, is_primary := if is_primary r \<noteq> 0 then 1 else 0\<rparr>" for r x
    by (simp add: gcc_monitor_def_def)
  have r: "map_range 0 ?n (\<lambda>k. case map monitor_numbers (monitors c) ! k of (a, b, c, d, e) \<Rightarrow> gcc_monitor_def a b c d e) xs =
      map_range 0 ?n (\<lambda>k m. let r = MonitorDefArray c ! k in m\<lparr>mon_x := mon_x r, mon_y := mon_y r, mon_width := mon_width r, mon_height := mon_height r,
       is_primary := if is_primary r \<noteq> 0 then 1 else 0\<rparr>) xs" for xs
    using n by (intro map_range_cong) (simp add: monitors_def monitor_numbers_def f Let_def)
  have "parses (gcc_read_monitor_loop gcc_monitor_def 0 ?n) ?m (concat (map monitor_bytes (monitors c))) (set_settings (monitor_received c) m)"
    using parses_monitor_loop [of 0 "map monitor_numbers (monitors c)" ?m gcc_monitor_def] len unfolding l monitor_numbers_bytes
    by (simp add: monitor_received_def set_settings_def r)
  moreover have "\<not> ?w > MonitorDefArraySize (settings m)" using assms(2) w unfolding word_less_nat_alt not_less by linarith
  ultimately have "parses (\<lambda>mcs s. let monitorCount = (if ?w > MonitorDefArraySize (settings mcs) then MonitorDefArraySize (settings mcs) else ?w) in
        (if (length (monitor_body c) - 8) div 20 < unat monitorCount then Some ((False, mcs), s)
         else gcc_read_monitor_loop gcc_monitor_def 0 (unat monitorCount) (set_settings (\<lambda>st. st\<lparr>MonitorCount := sint monitorCount\<rparr>) mcs) s))
      m (concat (map monitor_bytes (monitors c))) (set_settings (monitor_received c) m)"
    using w l by (simp add: parses_def length_monitor_bodies Let_def)
  then have "parses (\<lambda>mcs s. Stream_Read_UINT32 s \<bind> (\<lambda>(flags, s). Stream_Read_UINT32 s \<bind> (\<lambda>(monitorCount, s).
        let monitorCount = (if monitorCount > MonitorDefArraySize (settings mcs) then MonitorDefArraySize (settings mcs) else monitorCount) in
        (if (length (monitor_body c) - 8) div 20 < unat monitorCount then Some ((False, mcs), s)
         else gcc_read_monitor_loop gcc_monitor_def 0 (unat monitorCount) (set_settings (\<lambda>st. st\<lparr>MonitorCount := sint monitorCount\<rparr>) mcs) s))))
      m (le_bytes32 0 @ le_bytes32 ?w @ concat (map monitor_bytes (monitors c))) (set_settings (monitor_received c) m)"
    by (intro parses_read_32)
  from parses_and_also [OF parses_pure(1) this, of "\<lambda>_. \<not> length (monitor_body c) < 8"] show ?thesis
    unfolding gcc_read_client_monitor_data_def by (simp add: length_monitor_bodies monitor_body_def Let_def)
qed

lemma parses_monitor_ex:
  assumes "monitors_ok c" "MonitorCount (settings m) = MonitorCount c" "MonitorCount c \<le> int (length (MonitorDefArray (settings m)))"
  shows "parses (gcc_read_client_monitor_extended_data (length (monitor_ex_body c))) m (monitor_ex_body c) (set_settings (monitor_ex_received c) m)"
proof -
  let ?n = "nat (MonitorCount c)" and ?w = "word_of_int (MonitorCount c) :: u32"
  let ?m = "set_settings (\<lambda>st. st\<lparr>HasMonitorAttributes := True\<rparr>) m"
  have n: "0 \<le> MonitorCount c" "MonitorCount c < 3000" "?n \<le> length (MonitorDefArray c)" using assms(1) by (auto simp: monitors_ok_def)
  have w: "unat ?w = ?n" using count_word [OF n(1,2)] by auto
  have l: "length (map attributes_numbers (monitors c)) = ?n" using n by (simp add: monitors_def)
  have r: "map_range 0 ?n (\<lambda>k. case map attributes_numbers (monitors c) ! k of (a, b, c, d, e) \<Rightarrow> gcc_monitor_attributes a b c d e) xs =
      map_range 0 ?n (\<lambda>k m. m\<lparr>attributes := attributes (MonitorDefArray c ! k)\<rparr>) xs" for xs
    using n by (intro map_range_cong) (simp add: monitors_def attributes_numbers_def gcc_monitor_attributes_def)
  have "parses (gcc_read_monitor_loop gcc_monitor_attributes 0 ?n) ?m (concat (map attributes_bytes (monitors c))) (set_settings (monitor_ex_received c) m)"
    using parses_monitor_loop [of 0 "map attributes_numbers (monitors c)" ?m gcc_monitor_attributes] assms(3) n unfolding l monitor_numbers_bytes
    by (simp add: monitor_ex_received_def set_settings_def r)
  then have "parses (\<lambda>mcs s. if (20 :: u32) \<noteq> 20 then Some ((False, mcs), s)
         else if (length (monitor_ex_body c) - 12) div unat (20 :: u32) < unat ?w then Some ((False, mcs), s)
         else if word_of_int (MonitorCount (settings mcs)) \<noteq> ?w then Some ((False, mcs), s)
         else gcc_read_monitor_loop gcc_monitor_attributes 0 (unat ?w) (set_settings (\<lambda>st. st\<lparr>HasMonitorAttributes := True\<rparr>) mcs) s)
      m (concat (map attributes_bytes (monitors c))) (set_settings (monitor_ex_received c) m)"
    using w l by (simp add: parses_def length_monitor_bodies assms(2))
  then have "parses (\<lambda>mcs s. Stream_Read_UINT32 s \<bind> (\<lambda>(flags, s). Stream_Read_UINT32 s \<bind> (\<lambda>(monitorAttributeSize, s). Stream_Read_UINT32 s \<bind> (\<lambda>(monitorCount, s).
        if monitorAttributeSize \<noteq> 20 then Some ((False, mcs), s)
         else if (length (monitor_ex_body c) - 12) div unat monitorAttributeSize < unat monitorCount then Some ((False, mcs), s)
         else if word_of_int (MonitorCount (settings mcs)) \<noteq> monitorCount then Some ((False, mcs), s)
         else gcc_read_monitor_loop gcc_monitor_attributes 0 (unat monitorCount) (set_settings (\<lambda>st. st\<lparr>HasMonitorAttributes := True\<rparr>) mcs) s))))
      m (le_bytes32 0 @ le_bytes32 20 @ le_bytes32 ?w @ concat (map attributes_bytes (monitors c))) (set_settings (monitor_ex_received c) m)"
    by (intro parses_read_32)
  from parses_and_also [OF parses_pure(1) this, of "\<lambda>_. \<not> length (monitor_ex_body c) < 12"] show ?thesis
    unfolding gcc_read_client_monitor_extended_data_def by (simp add: length_monitor_bodies monitor_ex_body_def)
qed

definition message_channel_received :: "gccMcs \<Rightarrow> gccMcs" where
  "message_channel_received m = m\<lparr>messageChannelId := baseChannelId m, baseChannelId := baseChannelId m + 1\<rparr>"

lemma parses_message_channel: "parses (gcc_read_client_message_channel_data 4) m (le_bytes32 v) (message_channel_received m)"
proof -
  have b: "le_bytes32 v = [] @ le_bytes32 v @ []" by simp
  show ?thesis unfolding gcc_read_client_message_channel_data_def message_channel_received_def
    by (subst b) (rule parses_steps parses_pure(1) parses_get(3) | simp; fail)+
qed

lemma parses_multitransport: "parses (gcc_read_client_multitransport_channel_data 4) m (le_bytes32 v) m"
proof -
  have b: "le_bytes32 v = [] @ le_bytes32 v @ []" by simp
  show ?thesis unfolding gcc_read_client_multitransport_channel_data_def
    by (subst b) (rule parses_steps parses_pure(1) parses_get(3) | simp; fail)+
qed

subsection \<open>The loop over the blocks\<close>

lemma read_user_data_header:
  assumes "Stream_wf s" "ahead s = gcc_block type body @ rest" "length body < 65532" "len = word_of_nat (4 + length body)"
  shows "gcc_read_user_data_header s = Some (Some (type, len), Stream_Seek s 4)"
    "unat len = 4 + length body" "Stream_GetRemainingLength (Stream_Seek s 4) = length body + length rest" "size_of_int (uint len - 4) = length body"
proof -
  show u: "unat len = 4 + length body" using assms(3) unfolding assms(4) by (simp add: unsigned_of_nat take_bit_nat_eq_self del: of_nat_add)
  have wf: "Stream_wf (Stream_Seek s 2)" "Stream_wf (Stream_Seek s 4)" using assms(1,2) by (auto intro!: Stream_wf_Seek)
  have r: "Stream_Read_UINT16 s = Some (type, Stream_Seek s 2)" "Stream_Read_UINT16 (Stream_Seek s 2) = Some (len, Stream_Seek s 4)"
    using Read_UINT16_enc [OF assms(1), of type] Read_UINT16_enc [OF wf(1), of len] assms(2) unfolding gcc_block_def assms(4) [symmetric] by simp_all
  show rem: "Stream_GetRemainingLength (Stream_Seek s 4) = length body + length rest" using wf(2) assms(2) by (simp add: Remaining_ahead gcc_block_def)
  have "Stream_GetRemainingLength s \<ge> 4" using assms(1,2) by (simp add: Remaining_ahead)
  moreover have "uint len = 4 + int (length body)" using u uint_nat [of len] by simp
  then show sz: "size_of_int (uint len - 4) = length body" using assms(3) by simp
  ultimately show "gcc_read_user_data_header s = Some (Some (type, len), Stream_Seek s 4)"
    using r rem sz by (simp add: gcc_read_user_data_header_def)
qed

lemma parses_client_block:
  assumes block: "parses (gcc_read_client_block ca type (length body)) m body m1" and len: "length body < 65532"
    and more: "parses (gcc_read_client_data_blocks (\<lambda>i. ca (i + 2)) (int (length W))) m1 W m2"
  shows "parses (gcc_read_client_data_blocks ca (int (length (gcc_block type body @ W)))) m (gcc_block type body @ W) m2"
  unfolding parses_def
proof (intro allI impI)
  fix s rest assume s: "Stream_wf s" "ahead s = (gcc_block type body @ W) @ rest"
  define l where "l = (word_of_nat (4 + length body) :: u16)"
  note h = read_user_data_header [OF s(1) _ len l_def, of type "W @ rest"]
  have u: "uint l = 4 + int (length body)" "unat (l - 4) = length body"
    using h(2) s(2) uint_nat [of l] by (simp_all add: unat_sub word_le_nat_alt)
  have wf: "Stream_wf (Stream_Seek s 4)" "Stream_wf (Stream_Seek s (4 + length body))" using s by (auto intro!: Stream_wf_Seek simp: gcc_block_def)
  have "gcc_read_client_block ca type (length body) m (Stream_Seek s 4) = Some ((True, m1), Stream_Seek (Stream_Seek s 4) (length body))"
    using s(2) by (intro parsesD [OF block wf(1), of "W @ rest"]) (simp add: gcc_block_def)
  moreover have "gcc_read_client_data_blocks (\<lambda>i. ca (i + 2)) (int (length W)) m1 (Stream_Seek s (4 + length body)) =
      Some ((True, m2), Stream_Seek (Stream_Seek s (4 + length body)) (length W))"
    using s(2) by (intro parsesD [OF more wf(2), of rest]) simp
  ultimately show "gcc_read_client_data_blocks ca (int (length (gcc_block type body @ W))) m s = Some ((True, m2), Stream_Seek s (length (gcc_block type body @ W)))"
    using h s(2) u by (subst gcc_read_client_data_blocks.simps) (simp add: SetPosition_Seek Stream_GetPosition_def)
qed


lemma parses_no_blocks: "parses (gcc_read_client_data_blocks ca (int (length ([] :: byte list)))) m [] m"
  by (simp add: parses_def gcc_read_client_data_blocks.simps)

abbreviation (input) "blocks_parse m W m' \<equiv> parses (gcc_read_client_data_blocks (\<lambda>_. True) (int (length W))) m W m'"

lemma parses_client_block_if:
  assumes "b \<Longrightarrow> parses (gcc_read_client_block (\<lambda>_. True) type (length body)) m body m1" "b \<Longrightarrow> length body < 65532"
    and "blocks_parse (if b then m1 else m) W m2"
  shows "blocks_parse m ((if b then gcc_block type body else []) @ W) m2"
proof (cases b)
  case True
  then show ?thesis using parses_client_block [of "\<lambda>_. True" type body m m1 W m2] assms by simp
qed (use assms in simp)

subsection \<open>What the server has received\<close>

text \<open>
  The state of the server after the blocks of a client \<open>c\<close>, whose host name and product id it stores as \<open>h\<close> and \<open>p\<close>: the settings
  of the core data; the session id and the encryption methods; names, options and ids of the channels; the monitors; a message channel.
\<close>

definition channels_received :: "gccMcs \<Rightarrow> gccMcs \<Rightarrow> gccMcs" where
  "channels_received c m = (let st = settings c;
     m = (if channelCount c > 0 then network_received c m else m);
     m = (if sends_monitors st \<and> MonitorCount st > 1 then set_settings (monitor_received st) m else m);
     m = (if sends_monitors st \<and> HasMonitorAttributes st then set_settings (monitor_ex_received st) m else m)
   in if sends_extended st \<and> sends_message_channel st then message_channel_received m else m)"

definition client_received :: "gccMcs \<Rightarrow> byte list \<Rightarrow> byte list \<Rightarrow> gccMcs \<Rightarrow> gccMcs" where
  "client_received c h p m =
     channels_received c (security_received (settings c) (cluster_received (settings c) (set_settings (core_received (settings c) h p) m)))"

text \<open>A server that can take them: the protocol that was negotiated, an array of channels and one for the monitors.\<close>

definition server_ready :: "gccMcs \<Rightarrow> gccMcs \<Rightarrow> bool" where
  "server_ready c m \<longleftrightarrow> SelectedProtocol (settings m) = SelectedProtocol (settings c) \<and> 16 \<le> length (channels m) \<and>
     unat (MonitorDefArraySize (settings m)) \<le> length (MonitorDefArray (settings m)) \<and>
     (sends_monitors (settings c) \<longrightarrow> MonitorCount (settings c) \<le> int (unat (MonitorDefArraySize (settings m))) \<and>
        (HasMonitorAttributes (settings c) \<longrightarrow> MonitorCount (settings c) > 1))"

lemma received_settings:
  "settings (set_settings f m) = f (settings m)" "channels (set_settings f m) = channels m" "settings (network_received c m) = settings m"
  "MonitorCount (monitor_received st sv) = MonitorCount st" "length (MonitorDefArray (monitor_received st sv)) = length (MonitorDefArray sv)"
  by (simp_all add: set_settings_def network_received_def monitor_received_def)

lemma server_ready_kept:
  "server_ready c (set_settings (core_received st h p) m) = server_ready c m" "server_ready c (cluster_received st m) = server_ready c m"
  "server_ready c (security_received st m) = server_ready c m"
  by (simp_all add: server_ready_def set_settings_def cluster_received_def security_received_def core_received_def Let_def)

lemma parses_more_blocks:
  assumes "channels_named c" "monitors_ok (settings c)" "server_ready c m3"
  defines "st \<equiv> settings c"
  defines "b5 \<equiv> sends_monitors st \<and> MonitorCount st > 1" and "b6 \<equiv> sends_monitors st \<and> HasMonitorAttributes st"
    and "b7 \<equiv> sends_extended st \<and> sends_message_channel st" and "b8 \<equiv> sends_extended st \<and> MultitransportFlags st \<noteq> 0"
  shows "blocks_parse m3 ((if channelCount c > 0 then gcc_block 0xC003 (network_body c) else []) @
      (if b5 then gcc_block 0xC005 (monitor_body st) else []) @ (if b6 then gcc_block 0xC008 (monitor_ex_body st) else []) @
      (if b7 then gcc_block 0xC006 (le_bytes32 0) else []) @ (if b8 then gcc_block 0xC00A (le_bytes32 (MultitransportFlags st)) else []) @ []) (channels_received c m3)"
proof -
  let ?m4 = "if channelCount c > 0 then network_received c m3 else m3"
  let ?m5 = "if b5 then set_settings (monitor_received st) ?m4 else ?m4"
  let ?m6 = "if b6 then set_settings (monitor_ex_received st) ?m5 else ?m5"
  let ?m7 = "if b7 then message_channel_received ?m6 else ?m6"
  have r: "channels_received c m3 = (if b8 then ?m7 else ?m7)" by (simp add: channels_received_def Let_def b5_def b6_def b7_def st_def)
  have ok: "channels_ok c" using assms(1) by (auto simp: channels_named_def channels_ok_def word_le_nat_alt)
  have len: "length (network_body c) < 65532" "length (monitor_body st) < 65532" "length (monitor_ex_body st) < 65532" "length (le_bytes32 v) < 65532" for v
    using ok length_network_body [OF ok] length_monitors [OF assms(2)] assms(2) by (auto simp: channels_ok_def length_monitor_bodies monitors_ok_def st_def)
  have mons: "sends_monitors st \<Longrightarrow> MonitorCount st \<le> int (unat (MonitorDefArraySize (settings ?m4)))"
      "unat (MonitorDefArraySize (settings ?m4)) \<le> length (MonitorDefArray (settings ?m4))"
    using assms(3) by (simp_all add: server_ready_def received_settings st_def)
  note gcc_read_client_block_def [simp]
  have p4: "parses (gcc_read_client_block (\<lambda>_. True) 0xC003 (length (network_body c))) m3 (network_body c) (network_received c m3)"
    using parses_network [OF assms(1)] assms(3) by (simp add: server_ready_def)
  have p5: "parses (gcc_read_client_block (\<lambda>_. True) 0xC005 (length (monitor_body st))) ?m4 (monitor_body st) (set_settings (monitor_received st) ?m4)" if b5
    using parses_monitor [OF assms(2) _ mons(2)] mons(1) that by (simp add: b5_def st_def)
  have p6: "parses (gcc_read_client_block (\<lambda>_. True) 0xC008 (length (monitor_ex_body st))) ?m5 (monitor_ex_body st) (set_settings (monitor_ex_received st) ?m5)" if b6
  proof -
    have b5 using that assms(3) by (simp add: b5_def b6_def server_ready_def st_def)
    moreover have "MonitorCount st \<le> int (length (MonitorDefArray (settings ?m4)))" using mons(2) mons(1) [OF conjunct1 [OF that [unfolded b6_def]]] by linarith
    ultimately show ?thesis using parses_monitor_ex [OF assms(2), of "set_settings (monitor_received st) ?m4"] by (simp add: received_settings st_def)
  qed
  have p7: "parses (gcc_read_client_block (\<lambda>_. True) 0xC006 (length (le_bytes32 0))) m (le_bytes32 0) (message_channel_received m)" for m
    using parses_message_channel [of m 0] by simp
  have p8: "parses (gcc_read_client_block (\<lambda>_. True) 0xC00A (length (le_bytes32 v))) m (le_bytes32 v) m" for m v
    using parses_multitransport [of m v] by simp
  show ?thesis unfolding r
    by (rule parses_client_block_if [OF p4 len(1)] parses_client_block_if [OF p5 len(2)] parses_client_block_if [OF p6 len(3)]
      parses_client_block_if [OF p7 len(4)] parses_client_block_if [OF p8 len(4)] parses_no_blocks | assumption)+
qed

lemma parses_client_blocks:
  assumes "fits_name 16 cs a" "fits_name 32 ds b" "\<forall>c\<in>set cs \<union> set ds. is_scalar c \<and> c \<noteq> 0"
    and "ColorDepth (settings c) \<noteq> 0" "channels_named c" "monitors_ok (settings c)" "server_ready c m"
  shows "blocks_parse m (blocks_bytes (client_blocks c cs ds)) (client_received c (stored_name 16 a) (stored_name 32 b) m)"
proof -
  let ?st = "settings c"
  let ?core = "core_body ?st (utf16_text cs) (utf16_text ds)"
  let ?m1 = "set_settings (core_received ?st (stored_name 16 a) (stored_name 32 b)) m"
  let ?m2 = "cluster_received ?st ?m1"
  let ?m3 = "security_received ?st ?m2"
  have bytes: "blocks_bytes (client_blocks c cs ds) = gcc_block 0xC001 ?core @ gcc_block 0xC004 (cluster_body ?st) @ gcc_block 0xC002 (security_body ?st) @
      (if channelCount c > 0 then gcc_block 0xC003 (network_body c) else []) @
      (if sends_monitors ?st \<and> MonitorCount ?st > 1 then gcc_block 0xC005 (monitor_body ?st) else []) @
      (if sends_monitors ?st \<and> HasMonitorAttributes ?st then gcc_block 0xC008 (monitor_ex_body ?st) else []) @
      (if sends_extended ?st \<and> sends_message_channel ?st then gcc_block 0xC006 (le_bytes32 0) else []) @
      (if sends_extended ?st \<and> MultitransportFlags ?st \<noteq> 0 then gcc_block 0xC00A (le_bytes32 (MultitransportFlags ?st)) else []) @ []"
    by (simp add: client_blocks_def Let_def)
  have p: "parses (gcc_read_client_block (\<lambda>_. True) 0xC001 (length ?core)) m ?core ?m1"
      "parses (gcc_read_client_block (\<lambda>_. True) 0xC004 (length (cluster_body ?st))) ?m1 (cluster_body ?st) ?m2"
      "parses (gcc_read_client_block (\<lambda>_. True) 0xC002 (length (security_body ?st))) ?m2 (security_body ?st) ?m3"
    using parses_core [OF assms(1-3), of m ?st] assms(4,7) parses_cluster [of ?m1 ?st] parses_security [of ?m2 ?st]
    by (simp_all add: gcc_read_client_block_def server_ready_def)
  have l: "length ?core < 65532" "length (cluster_body ?st) < 65532" "length (security_body ?st) < 65532" by simp_all
  have "server_ready c ?m3" using assms(7) by (simp add: server_ready_kept)
  note more = parses_more_blocks [OF assms(5,6) this]
  show ?thesis unfolding bytes client_received_def
    by (intro parses_client_block [where ca = "\<lambda>_. True", OF p(1) l(1)] parses_client_block [where ca = "\<lambda>_. True", OF p(2) l(2)]
      parses_client_block [where ca = "\<lambda>_. True", OF p(3) l(3)] more)
qed


subsection \<open>The conference create request\<close>

definition request_bytes :: "byte list \<Rightarrow> byte list" where
  "request_bytes W = [0] @ [5, 0, 20, 124, 0, 1] @ per_length_bytes (word_of_nat (length W + 14)) @ [0] @ [8] @ [0, 0x10] @ [0] @ [1] @ [0xC0] @
     (0 # h221_cs_key) @ per_length_bytes (word_of_nat (length W)) @ W"

lemma length_request_bytes: "length (request_bytes W) \<le> 23 + length W"
  by (simp add: request_bytes_def per_length_bytes_def h221_cs_key_def)

lemma parses_one_byte:
  "parses (expect per_read_choice (\<lambda>_. True)) m [b] m" "parses (expect per_read_selection (\<lambda>_. True)) m [b] m"
  "P b \<Longrightarrow> parses (expect per_read_number_of_sets P) m [b] m" "P b \<Longrightarrow> parses (expect per_read_choice P) m [b] m"
  by (auto intro!: parses_expect simp: per_read_choice_def per_read_selection_def per_read_number_of_sets_def Remaining_ahead Read_UINT8_ahead)

lemma parses_padding: "parses (expect (per_read_padding 1) (\<lambda>_. True)) m [b] m"
proof (rule parses_expect)
  fix s rest assume s: "Stream_wf s" "ahead s = [b] @ rest"
  then have "c_int (Stream_GetRemainingLength s) = int (length (ahead s))" using ahead_bound [OF s(1)] by (simp add: Remaining_ahead)
  then show "per_read_padding 1 s = Some (Some (), Stream_Seek s (length [b]))" using s(2) by (simp add: per_read_padding_def)
qed simp

lemma per_length_small: "per_length_bytes (0 :: u16) = [0]"
  by (simp add: per_length_bytes_def)

lemma parses_per_fields:
  "parses (expect (per_read_object_identifier t124_02_98_oid) (\<lambda>_. True)) m [5, 0, 20, 124, 0, 1] m"
  "parses (expect (per_read_numeric_string 1) (\<lambda>_. True)) m [0, 0x10] m"
  "parses (expect (per_read_octet_string h221_cs_key 4 4) (\<lambda>_. True)) m (0 # h221_cs_key) m"
  "v < 0x8000 \<Longrightarrow> parses (expect per_read_length (\<lambda>_. True)) m (per_length_bytes v) m"
proof -
  show "parses (expect (per_read_object_identifier t124_02_98_oid) (\<lambda>_. True)) m [5, 0, 20, 124, 0, 1] m"
    by (rule parses_expect) (simp_all add: per_read_object_identifier_bytes t124_02_98_oid_def numeral_eq_Suc)
  show "parses (expect (per_read_numeric_string 1) (\<lambda>_. True)) m [0, 0x10] m"
    using per_numeric_string_skipped [of "[0x31]" 1 _ "[0x10]"] by (intro parses_expect) (simp_all add: per_length_small)
  show "parses (expect (per_read_octet_string h221_cs_key 4 4) (\<lambda>_. True)) m (0 # h221_cs_key) m"
    using per_octet_string_accepted [of h221_cs_key 4] by (intro parses_expect) (simp_all add: per_length_small h221_cs_key_def)
  show "v < 0x8000 \<Longrightarrow> parses (expect per_read_length (\<lambda>_. True)) m (per_length_bytes v) m"
    by (intro parses_expect) (simp_all add: per_read_length_enc)
qed

lemma word_of_nat_15:
  assumes "n < 0x8000"
  shows "(word_of_nat n :: u16) < 0x8000" "unat (word_of_nat n :: u16) = n" "uint (word_of_nat n :: u16) = int n"
  using assms by (simp_all add: word_less_nat_alt unsigned_of_nat take_bit_nat_eq_self take_bit_int_eq_self)

lemma parses_request:
  assumes "parses (gcc_read_client_data_blocks ca (int (length W))) m W m'" "length W < 0x7FF0"
  shows "parses (gcc_read_conference_create_request ca) m (request_bytes W) m'"
proof -
  have "length W < 0x8000" "length W + 14 < 0x8000" using assms(2) by simp_all
  note n = word_of_nat_15 [OF this(1)] word_of_nat_15 [OF this(2)]
  have last: "parses (\<lambda>mcs s. per_read_length s \<bind> (\<lambda>(r, s). case r of None \<Rightarrow> Some ((False, mcs), s)
        | Some len \<Rightarrow> if Stream_GetRemainingLength s < unat len then Some ((False, mcs), s) else gcc_read_client_data_blocks ca (uint len) mcs s))
      m (per_length_bytes (word_of_nat (length W)) @ W) m'"
    unfolding parses_def
  proof (intro allI impI)
    fix s rest assume s: "Stream_wf s" "ahead s = (per_length_bytes (word_of_nat (length W)) @ W) @ rest"
    let ?t = "Stream_Seek s (length (per_length_bytes (word_of_nat (length W))))"
    have l: "per_read_length s = Some (Some (word_of_nat (length W)), ?t)" using per_read_length_enc [OF n(1) s(1), of "W @ rest"] s(2) assms(2) by simp
    have wf: "Stream_wf ?t" using s by (intro Stream_wf_Seek) simp_all
    have "gcc_read_client_data_blocks ca (int (length W)) m ?t = Some ((True, m'), Stream_Seek ?t (length W))"
      using s(2) by (intro parsesD [OF assms(1) wf, of rest]) simp
    then show "per_read_length s \<bind> (\<lambda>(r, s). case r of None \<Rightarrow> Some ((False, m), s)
        | Some len \<Rightarrow> if Stream_GetRemainingLength s < unat len then Some ((False, m), s) else gcc_read_client_data_blocks ca (uint len) m s) =
      Some ((True, m'), Stream_Seek s (length (per_length_bytes (word_of_nat (length W)) @ W)))"
      using l wf n assms(2) s(2) by (simp add: Remaining_ahead)
  qed
  have b: "request_bytes W = [0] @ [5, 0, 20, 124, 0, 1] @ per_length_bytes (word_of_nat (length W + 14)) @ [0] @ [8] @ [0, 0x10] @ [0] @ [1] @ [0xC0] @
     (0 # h221_cs_key) @ (per_length_bytes (word_of_nat (length W)) @ W) @ []"
    by (simp add: request_bytes_def)
  show ?thesis unfolding b gcc_read_conference_create_request_def
    by (rule parses_steps parses_one_byte parses_padding parses_per_fields last n(4) | (simp add: assms(2); fail))+
qed


lemma per_write_length_nat:
  assumes "n < 0x8000" "Stream_room s (length (per_length_bytes (word_of_nat n)))"
  shows "per_write_length s (int n) = Some (Stream_put (per_length_bytes (word_of_nat n)) s)"
  using per_write_length_put [OF assms(2)] word_of_nat_15(3) [OF assms(1)] by simp

lemma gcc_write_request_put:
  assumes "stream_bytes c = W" "s_pointer c = length W" "length W \<le> length (s_buffer c)" "length W < 0x7FF0" "Stream_room g (length (request_bytes W))"
  shows "gcc_write_conference_create_request g c = Some (Stream_put (request_bytes W) g)"
proof -
  have t: "take (length W) (s_buffer c) = W" using assms(1,2) by (simp add: stream_bytes_def)
  have n: "c_int (Stream_GetPosition c) = int (length W)" "c_int (Stream_GetPosition c + 14) = int (length W + 14)"
    using assms(2,4) by (simp_all add: Stream_GetPosition_def del: of_nat_add)
  have num: "per_write_numeric_string s [0x31] 1 1 = Some (Stream_put [0, 0x10] s)" if "Stream_room s 2" for s
    using that by (simp add: per_write_numeric_string_def per_write_length_small per_write_numeric_loop.simps Write_UINT_put mem_read_def per_digit_def c_rem_def c_div_def)
  have key: "per_write_octet_string s h221_cs_key 4 4 = Some (Stream_put (0 # h221_cs_key) s)" if "Stream_room s 5" for s
    using that per_write_octet_string_put [of h221_cs_key 4 s] by (simp add: h221_cs_key_def per_length_small)
  have k: "length h221_cs_key = 4" by (simp add: h221_cs_key_def)
  have data: "per_write_octet_string s (s_buffer c) (int (length W)) 0 = Some (Stream_put (per_length_bytes (word_of_nat (length W)) @ W) s)"
    if "Stream_room s (length (per_length_bytes (word_of_nat (length W))) + length W)" for s
    using that assms(3,4) per_write_length_nat [of "length W" s] t
    by (simp add: per_write_octet_string_def per_write_bytes_loop_put)
  show ?thesis using assms(5,4) unfolding gcc_write_conference_create_request_def n request_bytes_def
    by (simp add: per_write_choice_def per_write_selection_def per_write_number_of_sets_def Write_UINT_put per_write_object_identifier_put per_write_padding_put
      t124_02_98_oid_def per_write_length_nat num key data k del: of_nat_add)
qed


subsection \<open>Connect-Initial with the GCC data\<close>

text \<open>What \<open>mcs_send_connect_initial\<close> of the client and \<open>mcs_recv_connect_initial\<close> of the server are with the functions of \<open>gcc.c\<close>.\<close>

abbreviation (input) "client_connect tw al \<equiv>
  (\<lambda>mcs. mcs_send_connect_initial tw (gcc_write_client_data_blocks (\<lambda>_. True)) gcc_write_conference_create_request al (settings mcs) mcs)"

lemma client_data_fresh:
  assumes "client_strings (settings m) cs ds" "channels_ok m" "monitors_ok (settings m)" "s_pointer s = 0" "length (s_buffer s) = 512"
  shows "gcc_write_client_data_blocks (\<lambda>_. True) m s =
    (if client_size m \<le> 512 then Some (client_sent m, Stream_put (blocks_bytes (client_blocks (client_sent m) cs ds)) s) else None)"
  using writes_andD [OF writes_client_blocks [OF assms(1-3)], of s] assms(4,5)
    length_client_blocks [OF client_sent_ok(1) [OF assms(2)] client_sent_ok(2) [OF assms(3)], of cs ds] by (simp add: client_sent_ok(3))

lemma client_request_fresh:
  assumes "length W \<le> 512" "c = Stream_put W s" "s_pointer s = 0" "length (s_buffer s) = 512" "s_pointer g = 0" "length (s_buffer g) = 1024"
  shows "\<exists>g'. gcc_write_conference_create_request g c = Some g' \<and> stream_bytes g' = request_bytes W \<and> s_pointer g' \<le> length (s_buffer g')"
proof -
  have room: "Stream_room g (length (request_bytes W))" using length_request_bytes [of W] assms by simp
  have "gcc_write_conference_create_request g c = Some (Stream_put (request_bytes W) g)"
    using assms(1-4) by (intro gcc_write_request_put room) (simp_all add: stream_bytes_def Stream_put_def)
  then show ?thesis using room assms(5) by (simp add: stream_bytes_put)
qed

text \<open>The two steps of the client: the data in a stream of 512 bytes, the request in one of 1024.\<close>

definition holds_data :: "byte list \<Rightarrow> wStream \<Rightarrow> bool" where
  "holds_data W c \<longleftrightarrow> (\<exists>s. c = Stream_put W s \<and> s_pointer s = 0 \<and> length (s_buffer s) = 512)"

lemma client_data_written:
  assumes "client_strings (settings m) cs ds" "channels_ok m" "monitors_ok (settings m)" "client_size m \<le> 512"
  defines "W \<equiv> blocks_bytes (client_blocks (client_sent m) cs ds)"
  shows "length W \<le> 512" "length (request_bytes W) \<le> 65000"
    "\<forall>s. s_pointer s = 0 \<longrightarrow> length (s_buffer s) = 512 \<longrightarrow>
      (\<exists>c. gcc_write_client_data_blocks (\<lambda>_. True) m s = Some (client_sent m, c) \<and> holds_data W c)"
    "\<forall>g c. holds_data W c \<longrightarrow> s_pointer g = 0 \<longrightarrow> length (s_buffer g) = 1024 \<longrightarrow>
      (\<exists>g'. gcc_write_conference_create_request g c = Some g' \<and> stream_bytes g' = request_bytes W \<and> s_pointer g' \<le> length (s_buffer g'))"
proof -
  show len: "length W \<le> 512" unfolding W_def
    using length_client_blocks [OF client_sent_ok(1) [OF assms(2)] client_sent_ok(2) [OF assms(3)], of cs ds] assms(4) by (simp add: client_sent_ok(3))
  show "length (request_bytes W) \<le> 65000" using length_request_bytes [of W] len by simp
  show "\<forall>s. s_pointer s = 0 \<longrightarrow> length (s_buffer s) = 512 \<longrightarrow>
      (\<exists>c. gcc_write_client_data_blocks (\<lambda>_. True) m s = Some (client_sent m, c) \<and> holds_data W c)"
    using client_data_fresh [OF assms(1-3)] assms(4) by (auto simp: holds_data_def W_def)
  show "\<forall>g c. holds_data W c \<longrightarrow> s_pointer g = 0 \<longrightarrow> length (s_buffer g) = 1024 \<longrightarrow>
      (\<exists>g'. gcc_write_conference_create_request g c = Some g' \<and> stream_bytes g' = request_bytes W \<and> s_pointer g' \<le> length (s_buffer g'))"
    using client_request_fresh [OF len] unfolding holds_data_def by blast
qed


lemma received_parameters:
  "targetParameters (client_received c h p m) = targetParameters m" "minimumParameters (client_received c h p m) = minimumParameters m"
  "maximumParameters (client_received c h p m) = maximumParameters m" "domainParameters (client_received c h p m) = domainParameters m"
  by (simp_all add: client_received_def channels_received_def Let_def message_channel_received_def set_settings_def network_received_def
    cluster_received_def security_received_def)

lemma server_ready_cong: "server_ready (client_sent c) (mcs_server_accepts c' m) = server_ready c m"
  by (simp add: server_ready_def mcs_server_accepts_def client_sent_def)

text \<open>
  Connect-Initial end to end (C7): the settings that the client sends arrive at the server. For a client whose data fit into the
  512 bytes that it allocates for them, with at most 16 channels with terminated names, and a server with the same negotiated protocol,
  the frame that \<open>mcs_send_connect_initial\<close> hands to the transport is accepted by \<open>mcs_recv_connect_initial\<close>. The server then holds the desktop,
  keyboard and capability settings of the client, its host name and product id as far as they fit into their fields, its session id,
  encryption methods, monitors, and its channels in order, with ids from the base channel id on.
\<close>

theorem gcc_connect_initial_roundtrip:
  assumes "allocates al" "mcs_initialize_client_channels client (settings client) = Some client0"
    and "client_strings (settings client0) cs ds" "fits_name 16 cs a" "fits_name 32 ds b"
    and "ColorDepth (settings client0) \<noteq> 0" "channels_named client0" "monitors_ok (settings client0)" "client_size client0 \<le> 512"
    and "server_ready client0 server"
    and "mcs_merge_domain_parameters (targetParameters client0) (minimumParameters client0) (maximumParameters client0) (domainParameters server) = (True, d)"
  shows "\<exists>t. client_connect tw al client e = Some ((\<not> fst (tw t e) < 0, client_sent client0), snd (tw t e)) \<and>
    (\<forall>r rest. Stream_wf r \<longrightarrow> ahead r = stream_bytes t @ rest \<longrightarrow>
      (\<exists>n. mcs_recv_connect_initial (gcc_read_conference_create_request (\<lambda>_. True)) server r =
        Some ((True, (client_received (client_sent client0) (stored_name 16 a) (stored_name 32 b) (mcs_server_accepts (client_sent client0) server))
          \<lparr>domainParameters := d\<rparr>), Stream_Seek r n)))"
proof -
  let ?c = "client_sent client0"
  let ?W = "blocks_bytes (client_blocks ?c cs ds)"
  have ok: "channels_ok client0" using assms(7) by (auto simp: channels_named_def channels_ok_def word_le_nat_alt)
  note written = client_data_written [OF assms(3) ok assms(8,9)]
  have "\<forall>c\<in>set cs \<union> set ds. is_scalar c \<and> c \<noteq> 0" using assms(3) by (simp add: client_strings_def)
  moreover have "ColorDepth (settings ?c) \<noteq> 0" "channels_named ?c" "monitors_ok (settings ?c)" "server_ready ?c (mcs_server_accepts ?c server)"
    using assms(6-8,10) client_sent_ok(2) [OF assms(8)] by (simp_all add: server_ready_cong) (simp_all add: client_sent_def channels_named_def)
  ultimately have "parses (gcc_read_conference_create_request (\<lambda>_. True)) (mcs_server_accepts ?c server) (request_bytes ?W)
      (client_received ?c (stored_name 16 a) (stored_name 32 b) (mcs_server_accepts ?c server))" (is "parses _ _ _ ?s")
    using written(1) by (intro parses_request parses_client_blocks [OF assms(4,5)]) simp_all
  moreover have "mcs_merge_domain_parameters (targetParameters ?s) (minimumParameters ?s) (maximumParameters ?s) (domainParameters ?s) = (True, d)"
    using assms(11) by (simp add: received_parameters mcs_server_accepts_def client_sent_def)
  ultimately show ?thesis by (rule mcs_connect_initial_exchange [where P = "holds_data ?W"
      and gcc_data = "gcc_write_client_data_blocks (\<lambda>_. True)" and gcc_request = gcc_write_conference_create_request, OF assms(1,2) written(3,4,2)])
qed

text \<open>
  Size of the client data (C21): \<open>mcs_send_connect_initial\<close> writes them into a stream of 512 bytes without asking for its capacity, and
  a client whose data take more, for example one with more than 20 channels, writes behind its end.
\<close>

theorem gcc_client_data_overflow:
  assumes "allocates al" "mcs_initialize_client_channels client (settings client) = Some client0"
    and "client_strings (settings client0) cs ds" "channels_ok client0" "monitors_ok (settings client0)"
  shows "client_connect tw al client e = None \<longleftrightarrow> 512 < client_size client0"
proof (cases "512 < client_size client0")
  case True
  obtain c where c: "stream_new al 0 512 = Some c" "s_pointer c = 0" "length (s_buffer c) = 512" using stream_new_fresh [OF assms(1), of 512 0] by auto
  have "gcc_write_client_data_blocks (\<lambda>_. True) client0 c = None" using client_data_fresh [OF assms(3-5) c(2,3)] True by simp
  then show ?thesis using True assms(2) c(1) by (simp add: mcs_send_connect_initial_def)
next
  case False
  then have "client_size client0 \<le> 512" by simp
  note written = client_data_written [OF assms(3-5) this]
  from mcs_connect_initial_sent [where tw = tw and e = e and P = "holds_data (blocks_bytes (client_blocks (client_sent client0) cs ds))"
      and gcc_data = "gcc_write_client_data_blocks (\<lambda>_. True)" and gcc_request = gcc_write_conference_create_request, OF assms(1,2) written(3,4,2)] False show ?thesis by force
qed

text \<open>The channels of the client are those of its settings, if there is room for all.\<close>

lemma channels_loop: "i + n \<le> length defs \<Longrightarrow> i + n \<le> length chans \<Longrightarrow>
    mcs_channels_loop defs i n chans = Some (map_range i n (\<lambda>k c. c\<lparr>chan_Name := take 8 (fst (defs ! (i + k))), chan_options := snd (defs ! (i + k))\<rparr>) chans)"
proof (induction n arbitrary: i chans)
  case (Suc n)
  then show ?case using map_range_Suc [of i chans n "\<lambda>k c. c\<lparr>chan_Name := take 8 (fst (defs ! (i + k))), chan_options := snd (defs ! (i + k))\<rparr>"] by simp
qed simp

lemma initialize_client:
  assumes "ChannelCount st \<le> channelMaxCount m" "unat (ChannelCount st) \<le> length (ChannelDefArray st)" "length (channels m) = unat (channelMaxCount m)"
  shows "mcs_initialize_client_channels m st = Some (m\<lparr>channelCount := ChannelCount st, channels := map_range 0 (unat (ChannelCount st))
    (\<lambda>k c. c\<lparr>chan_Name := take 8 (fst (ChannelDefArray st ! k)), chan_options := snd (ChannelDefArray st ! k)\<rparr>) (replicate (unat (channelMaxCount m)) zero_channel)\<rparr>)"
  using assms channels_loop [of 0 "unat (ChannelCount st)" "ChannelDefArray st" "replicate (unat (channelMaxCount m)) zero_channel"]
  by (simp add: mcs_initialize_client_channels_def mem_write_def word_le_nat_alt Let_def leD)

definition client_sample :: "u32 \<Rightarrow> gccMcs" where
  "client_sample n = gcc_mcs ((settings_sample False [112, 99, 0])\<lparr>ChannelCount := n, ChannelDefArray := replicate 32 ([114, 100, 112, 100, 114, 0, 0, 0], 0x80800000)\<rparr>)"

definition client_started :: "u32 \<Rightarrow> gccMcs" where
  "client_started n = (client_sample n)\<lparr>channelCount := n,
     channels := replicate (unat n) \<lparr>chan_Name = [114, 100, 112, 100, 114, 0, 0, 0], chan_options = 0x80800000, chan_ChannelId = 0, chan_joined = False\<rparr> @
       replicate (30 - unat n) zero_channel\<rparr>"

lemma client_sample_facts:
  assumes "n \<le> 30"
  shows "mcs_initialize_client_channels (client_sample n) (settings (client_sample n)) = Some (client_started n)"
    "client_strings (settings (client_started n)) [112, 99] []" "channels_ok (client_started n)" "monitors_ok (settings (client_started n))"
    "client_size (client_started n) = 258 + (if n > 0 then 8 + 12 * unat n else 0)"
    "n \<le> 16 \<Longrightarrow> channels_named (client_started n)"
proof -
  have n: "unat n \<le> 30" using assms by (simp add: word_le_nat_alt)
  have c: "map_range 0 (unat n) (\<lambda>k c. c\<lparr>chan_Name := take 8 (fst (replicate 32 ([114, 100, 112, 100, 114, 0, 0, 0], 0x80800000) ! k)),
        chan_options := snd (replicate 32 ([114, 100, 112, 100, 114, 0, 0, 0] :: byte list, 0x80800000 :: u32) ! k)\<rparr>) (replicate 30 zero_channel) =
      replicate (unat n) \<lparr>chan_Name = [114, 100, 112, 100, 114, 0, 0, 0], chan_options = 0x80800000, chan_ChannelId = 0, chan_joined = False\<rparr> @
        replicate (30 - unat n) zero_channel"
    using n by (intro nth_equalityI) (auto simp: map_range_def nth_append)
  show "mcs_initialize_client_channels (client_sample n) (settings (client_sample n)) = Some (client_started n)"
    using initialize_client [of "settings (client_sample n)" "client_sample n"] c n assms by (simp add: client_sample_def client_started_def gcc_mcs_simps)
  have r: "replicate 32 (0 :: byte) = 0 # replicate 31 0" using replicate_Suc [of 31 "0 :: byte"] by simp
  show "client_strings (settings (client_started n)) [112, 99] []"
    by (simp add: client_strings_def client_started_def client_sample_def gcc_mcs_simps is_scalar_def utf8_of_def r)
  show "channels_ok (client_started n)" "n \<le> 16 \<Longrightarrow> channels_named (client_started n)" using n by (auto simp: channels_ok_def channels_named_def client_started_def word_le_nat_alt)
  show "monitors_ok (settings (client_started n))" "client_size (client_started n) = 258 + (if n > 0 then 8 + 12 * unat n else 0)"
    by (simp_all add: monitors_ok_def client_size_def client_started_def client_sample_def gcc_mcs_simps sends_monitors_def sends_extended_def Let_def)
qed


theorem gcc_connect_initial_roundtrip_witness:
  "\<exists>t. client_connect (\<lambda>t e. (0, stream_bytes t)) zero_alloc (client_sample 2) [] = Some ((True, client_sent (client_started 2)), stream_bytes t) \<and>
    (\<forall>r rest. Stream_wf r \<longrightarrow> ahead r = stream_bytes t @ rest \<longrightarrow>
      (\<exists>n. mcs_recv_connect_initial (gcc_read_conference_create_request (\<lambda>_. True)) (gcc_mcs (settings_sample True [0])) r =
        Some ((True, (client_received (client_sent (client_started 2)) (stored_name 16 [112, 99]) (stored_name 32 [])
          (mcs_server_accepts (client_sent (client_started 2)) (gcc_mcs (settings_sample True [0]))))
          \<lparr>domainParameters := mcs_init_domain_parameters 34 3 0 65528\<rparr>), Stream_Seek r n)))"
proof -
  note sample = client_sample_facts [of 2]
  have fits: "fits_name 16 [112, 99] [112, 99]" "fits_name 32 [] []" by (simp_all add: fits_name_def utf16_of_def)
  have depth: "ColorDepth (settings (client_started 2)) \<noteq> 0" by (simp add: client_started_def client_sample_def gcc_mcs_simps)
  have ready: "server_ready (client_started 2) (gcc_mcs (settings_sample True [0]))"
    by (simp add: server_ready_def client_started_def client_sample_def gcc_mcs_simps sends_monitors_def)
  have d: "mcs_merge_domain_parameters (targetParameters (client_started 2)) (minimumParameters (client_started 2)) (maximumParameters (client_started 2))
      (domainParameters (gcc_mcs (settings_sample True [0]))) = (True, mcs_init_domain_parameters 34 3 0 65528)"
    by (simp add: client_started_def client_sample_def gcc_mcs_simps mcs_merge_domain_parameters_def mcs_init_domain_parameters_def Let_def)
  from gcc_connect_initial_roundtrip [where tw = "\<lambda>t e. (0, stream_bytes t)" and e = "[]",
      OF allocates_zero_alloc sample(1,2) fits depth sample(6,4) _ ready d] sample(5)
  show ?thesis by simp
qed

theorem gcc_client_data_overflow_witness:
  "client_connect (\<lambda>t e. (0, stream_bytes t)) zero_alloc (client_sample 21) [] = None \<and>
   client_connect (\<lambda>t e. (0, stream_bytes t)) zero_alloc (client_sample 20) [] \<noteq> None"
  using gcc_client_data_overflow [where tw = "\<lambda>t e. (0, stream_bytes t)" and e = "[]", OF allocates_zero_alloc client_sample_facts(1-4) [of 21]]
    gcc_client_data_overflow [where tw = "\<lambda>t e. (0, stream_bytes t)" and e = "[]", OF allocates_zero_alloc client_sample_facts(1-4) [of 20]]
    client_sample_facts(5) [of 21] client_sample_facts(5) [of 20] by simp

end
