(* ===== verification/CapsWire.thy ===== *)
theory CapsWire
  imports CapsSafe CapsBytes GccWire
begin

text \<open>
  The negotiation of the capabilities: the server that reads the Confirm Active PDU of a client ends up with the settings both sides support.
\<close>

unbundle bit_operations_syntax

subsection \<open>Readers on the bytes of a writer\<close>

lemma parses_eq: "parses f st W st' \<Longrightarrow> W = W' \<Longrightarrow> st' = st'' \<Longrightarrow> parses f st W' st''"
  by simp

lemma parses_bound:
  assumes "\<And>s rest. Stream_wf s \<Longrightarrow> ahead s = V @ rest \<Longrightarrow> rd s = Some (v, Stream_Seek s (length V))" "parses (k v) st W st'"
  shows "parses (\<lambda>st s. rd s \<bind> (\<lambda>(v, s). k v st s)) st (V @ W) st'"
  unfolding parses_def
proof (intro allI impI)
  fix s rest assume s: "Stream_wf s" "ahead s = (V @ W) @ rest"
  then have "Stream_wf (Stream_Seek s (length V))" by (intro Stream_wf_Seek) auto
  then have "k v st (Stream_Seek s (length V)) = Some ((True, st'), Stream_Seek (Stream_Seek s (length V)) (length W))"
    using s by (intro parsesD [OF assms(2), of _ rest]) auto
  then show "rd s \<bind> (\<lambda>(v, s). k v st s) = Some ((True, st'), Stream_Seek s (length (V @ W)))" using assms(1) [OF s(1), of "W @ rest"] s(2) by simp
qed

lemma parses_read:
  "parses (k8 b) st W st' \<Longrightarrow> parses (read8 k8) st ([b] @ W) st'"
  "parses (k16 v) st W st' \<Longrightarrow> parses (read16 k16) st (le_bytes16 v @ W) st'"
  "parses (k32 w) st W st' \<Longrightarrow> parses (read32 k32) st (le_bytes32 w @ W) st'"
  unfolding read8_def [abs_def] read16_def [abs_def] read32_def [abs_def]
  by (rule parses_bound; simp add: Read_UINT8_ahead Read_UINT16_enc Read_UINT32_enc)+

lemma parses_read_bytes: "length bs = n \<Longrightarrow> parses (k bs) st W st' \<Longrightarrow> parses (read_bytes n k) st (bs @ W) st'"
  unfolding read_bytes_def [abs_def] by (rule parses_bound) (auto simp: Stream_Read_def mem_read_ahead)

lemma parses_at_least: "n \<le> len \<Longrightarrow> parses f st W st' \<Longrightarrow> parses (at_least n len f) st W st'"
  by (simp add: parses_def at_least_def and_also_def check_def)

lemma parses_on_server: "ServerMode st \<Longrightarrow> parses f st W st' \<Longrightarrow> parses (on_server f g) st W st'"
  by (simp add: parses_def on_server_def)

lemma parses_if: "b \<Longrightarrow> parses f st W st' \<Longrightarrow> parses (if b then f else g) st W st'" "\<not> b \<Longrightarrow> parses g st W st' \<Longrightarrow> parses (if b then f else g) st W st'"
  by simp_all

lemmas set_parsers = parses_read parses_read_bytes parses_at_least parses_steps parses_and_also parses_get parses_pure(2) parses_skip

lemma flag_tests:
  "general_flags c AND 0x0400 \<noteq> 0 \<longleftrightarrow> NoBitmapCompressionHeader c" "general_flags c AND 1 \<noteq> 0 \<longleftrightarrow> FastPathOutput c"
  "general_flags c AND 0x0010 \<noteq> 0 \<longleftrightarrow> SaltedChecksum c"
  "drawing_flags c AND 8 \<noteq> 0 \<longleftrightarrow> DrawAllowSkipAlpha c" "drawing_flags c AND 2 \<noteq> 0 \<longleftrightarrow> DrawAllowDynamicColorFidelity c"
  "drawing_flags c AND 4 \<noteq> 0 \<longleftrightarrow> DrawAllowColorSubsampling c"
  "order_flags c AND 0x0080 \<noteq> 0 \<longleftrightarrow> BitmapCacheV3Enabled c \<or> FrameMarkerCommandEnabled c"
  "order_ex_flags c AND 2 \<noteq> 0 \<longleftrightarrow> BitmapCacheV3Enabled c" "order_ex_flags c AND 4 \<noteq> 0 \<longleftrightarrow> FrameMarkerCommandEnabled c"
  unfolding general_flags_def drawing_flags_def order_flags_def order_ex_flags_def by (simp_all split: if_split)

definition general_received :: "capSettings \<Rightarrow> capSettings \<Rightarrow> capSettings" where
  "general_received c = OsMajorType_update (\<lambda>_. take_bit 16 (OsMajorType c)) \<circ> OsMinorType_update (\<lambda>_. take_bit 16 (OsMinorType c)) \<circ>
     NoBitmapCompressionHeader_update (\<lambda>_. NoBitmapCompressionHeader c) \<circ> FastPathOutput_update (\<lambda>v. v \<and> FastPathOutput c) \<circ> SaltedChecksum_update (\<lambda>v. v \<and> SaltedChecksum c)"

lemma parses_general:
  assumes "ServerMode sv"
  shows "parses (rdp_read_general_capability_set 24) sv (general_body c) (general_received c sv)"
  unfolding rdp_read_general_capability_set_def
  by (rule parses_eq [where W = "(le_bytes16 (ucast (OsMajorType c)) @ le_bytes16 (ucast (OsMinorType c)) @ []) @ (le_bytes16 0x0200 @ le_bytes16 0 @ le_bytes16 0) @
      (le_bytes16 (general_flags c) @ (le_bytes16 0 @ le_bytes16 0 @ le_bytes16 0) @ [if RefreshRect c then 1 else 0] @ [if SuppressOutput c then 1 else 0] @ []) @ []"],
      (rule set_parsers parses_on_server assms | (simp; fail))+, simp add: general_body_def)
    (use assms in \<open>cases sv, simp add: general_received_def general_settings_def flag_tests ucast_down_up\<close>)

definition bitmap_received :: "capSettings \<Rightarrow> capSettings \<Rightarrow> capSettings" where
  "bitmap_received c = DesktopResize_update (\<lambda>v. v \<and> DesktopResize c) \<circ> DrawAllowSkipAlpha_update (\<lambda>v. v \<and> DrawAllowSkipAlpha c) \<circ>
     DrawAllowDynamicColorFidelity_update (\<lambda>v. v \<and> DrawAllowDynamicColorFidelity c) \<circ> DrawAllowColorSubsampling_update (\<lambda>v. v \<and> DrawAllowColorSubsampling c)"

lemma parses_bitmap:
  assumes "ServerMode sv"
  shows "parses (rdp_read_bitmap_capability_set 28) sv (bitmap_body c) (bitmap_received c sv)"
  unfolding rdp_read_bitmap_capability_set_def
  by (rule parses_eq [where W = "le_bytes16 (if RdpVersion c > 5 then ucast (ColorDepth c) else 8) @ (le_bytes16 1 @ le_bytes16 1 @ le_bytes16 1) @
      le_bytes16 (ucast (DesktopWidth c)) @ le_bytes16 (ucast (DesktopHeight c)) @ le_bytes16 0 @ le_bytes16 (if DesktopResize c then 1 else 0) @
      (le_bytes16 1 @ [0]) @ [drawing_flags c] @ (le_bytes16 1 @ le_bytes16 0) @ []"],
      (rule set_parsers assms | (simp; fail))+, simp add: bitmap_body_def)
    (use assms in \<open>cases sv, simp add: bitmap_received_def bitmap_settings_def Let_def flag_tests\<close>)

definition orders_of :: "byte list \<Rightarrow> byte list \<Rightarrow> byte list" where
  "orders_of theirs mine = map2 (\<lambda>t m. if t = 0 then 0 else m) theirs mine"

definition order_received :: "capSettings \<Rightarrow> capSettings \<Rightarrow> capSettings" where
  "order_received c sv = (OrderSupport_update (orders_of (OrderSupport c)) \<circ> BitmapCacheV3Enabled_update (\<lambda>v. v \<and> BitmapCacheV3Enabled c) \<circ>
     FrameMarkerCommandEnabled_update (\<lambda>v. v \<and> FrameMarkerCommandEnabled c) \<circ>
     BitmapCacheVersion_update (\<lambda>v. if BitmapCacheV3Enabled sv \<and> BitmapCacheV3Enabled c then 3 else v)) sv"

lemma parses_order_settings:
  assumes "length (OrderSupport c) = 32" "length (OrderSupport sv) = 32"
  shows "parses (order_settings (order_flags c) (OrderSupport c) (order_ex_flags c)) sv [] (order_received c sv)"
  using assms by (cases sv) (auto simp: parses_def order_settings_def mem_read_def mem_write_def Let_def flag_tests order_received_def orders_of_def)

lemma parses_order:
  assumes "length (OrderSupport c) = 32" "length (OrderSupport sv) = 32"
  shows "parses (rdp_read_order_capability_set 88) sv (order_body c) (order_received c sv)"
  unfolding rdp_read_order_capability_set_def
  by (rule parses_eq [where W = "(replicate 16 0 @ le_bytes32 0 @ le_bytes16 1 @ le_bytes16 20 @ le_bytes16 0 @ le_bytes16 1 @ le_bytes16 0) @ le_bytes16 (order_flags c) @
      OrderSupport c @ le_bytes16 0 @ le_bytes16 (order_ex_flags c) @ (le_bytes32 0 @ le_bytes32 230400 @ le_bytes16 0 @ le_bytes16 0 @
      le_bytes16 (if ServerMode c then 0 else 65001) @ le_bytes16 0) @ []"],
      (rule parses_order_settings set_parsers assms | (simp; fail))+) (simp_all add: order_body_def)

definition pointer_received :: "capSettings \<Rightarrow> capSettings \<Rightarrow> capSettings" where
  "pointer_received c = ColorPointerFlag_update (\<lambda>v. v \<and> ColorPointerFlag c) \<circ>
     PointerCacheSize_update (\<lambda>_. if LargePointerFlag c \<noteq> 0 then take_bit 16 (PointerCacheSize c) else 0)"

lemma parses_pointer:
  assumes "ServerMode sv"
  shows "parses (rdp_read_pointer_capability_set (4 + length (pointer_body c))) sv (pointer_body c) (pointer_received c sv)"
proof (cases "LargePointerFlag c = 0")
  case True
  then have "parses (rdp_read_pointer_capability_set 8) sv (pointer_body c) (pointer_received c sv)"
    unfolding rdp_read_pointer_capability_set_def
    by - (rule parses_eq [where W = "le_bytes16 (if ColorPointerFlag c then 1 else 0) @ le_bytes16 (ucast (PointerCacheSize c)) @ []"],
      (rule set_parsers parses_if(2) | (simp; fail))+, simp add: pointer_body_def, use assms in \<open>cases sv, simp add: pointer_received_def pointer_settings_def\<close>)
  then show ?thesis using True by (simp add: length_bodies)
next
  case False
  then have "parses (rdp_read_pointer_capability_set 10) sv (pointer_body c) (pointer_received c sv)"
    unfolding rdp_read_pointer_capability_set_def
    by - (rule parses_eq [where W = "le_bytes16 (if ColorPointerFlag c then 1 else 0) @ le_bytes16 (ucast (PointerCacheSize c)) @ le_bytes16 (ucast (PointerCacheSize c)) @ []"],
      (rule set_parsers parses_if(1) | (simp; fail))+, simp add: pointer_body_def, use assms in \<open>cases sv, simp add: pointer_received_def pointer_settings_def ucast_down_up\<close>)
  then show ?thesis using False by (simp add: length_bodies)
qed

definition input_received :: "capSettings \<Rightarrow> capSettings \<Rightarrow> capSettings" where
  "input_received c = KeyboardLayout_update (\<lambda>_. KeyboardLayout c) \<circ> KeyboardType_update (\<lambda>_. KeyboardType c) \<circ>
     KeyboardSubType_update (\<lambda>_. KeyboardSubType c) \<circ> KeyboardFunctionKey_update (\<lambda>_. KeyboardFunctionKey c)"

lemma parses_input:
  assumes "ServerMode sv"
  shows "parses (rdp_read_input_capability_set 88) sv (input_body c) (input_received c sv)"
  unfolding rdp_read_input_capability_set_def
  by (rule parses_eq [where W = "le_bytes16 (input_flags c) @ le_bytes16 0 @ (le_bytes32 (KeyboardLayout c) @ le_bytes32 (KeyboardType c) @ le_bytes32 (KeyboardSubType c) @
      le_bytes32 (KeyboardFunctionKey c) @ []) @ replicate 64 0 @ [] @ []"],
      (rule set_parsers parses_on_server assms | (simp; fail))+, simp add: input_body_def)
    (use assms in \<open>cases sv, simp add: input_received_def input_settings_def\<close>)

lemma parses_ignored:
  "parses (rdp_read_bitmap_cache_capability_set 40) sv (bitmap_cache_body c) sv"
  "length (bitmap_cache_v2_body c) = 36 \<Longrightarrow> parses (rdp_read_bitmap_cache_v2_capability_set 40) sv (bitmap_cache_v2_body c) sv"
  "length W = 4 \<Longrightarrow> parses (rdp_read_brush_capability_set 8) sv W sv"
  "parses (rdp_read_share_capability_set 8) sv (share_body c) sv"
  "length W = 4 \<Longrightarrow> parses (rdp_read_color_cache_capability_set 8) sv W sv"
  "length W = 8 \<Longrightarrow> parses (rdp_read_control_capability_set 12) sv W sv"
  "length W = 8 \<Longrightarrow> parses (rdp_read_window_activation_capability_set 12) sv W sv"
  "parses (rdp_read_window_list_capability_set 11) sv (window_list_body c) sv"
  unfolding rdp_read_bitmap_cache_capability_set_def rdp_read_bitmap_cache_v2_capability_set_def rdp_read_brush_capability_set_def rdp_read_share_capability_set_def
    rdp_read_color_cache_capability_set_def rdp_read_control_capability_set_def rdp_read_window_activation_capability_set_def rdp_read_window_list_capability_set_def
  by (rule parses_at_least, simp, rule parses_skip, simp add: length_bodies)+

lemma parses_font:
  assumes "length W = 4"
  shows "parses (rdp_read_font_capability_set 8) sv W sv"
proof -
  have "parses (rdp_read_font_capability_set 8) sv (take 2 W @ drop 2 W) sv"
    unfolding rdp_read_font_capability_set_def
    by (rule parses_and_also [where ?st1.0 = sv, OF parses_if(1) parses_if(1)]) (use assms in \<open>simp_all add: parses_skip\<close>)
  then show ?thesis by simp
qed

lemma parses_virtual_channel:
  assumes "ServerMode sv"
  shows "parses (rdp_read_virtual_channel_capability_set 12) sv (virtual_channel_body c) sv"
  unfolding rdp_read_virtual_channel_capability_set_def virtual_channel_body_def
  by (rule parses_eq [where W = "le_bytes32 0 @ le_bytes32 (VirtualChannelChunkSize c) @ []"], (rule set_parsers parses_if(1) | (simp; fail))+)
    (use assms in \<open>simp_all add: virtual_channel_settings_def\<close>)

definition sound_received :: "capSettings \<Rightarrow> capSettings \<Rightarrow> capSettings" where
  "sound_received c = SoundBeepsEnabled_update (\<lambda>_. SoundBeepsEnabled c)"

lemma parses_sound: "parses (rdp_read_sound_capability_set 8) sv (sound_body c) (sound_received c sv)"
  unfolding rdp_read_sound_capability_set_def sound_body_def
  by (rule parses_eq [where W = "le_bytes16 (if SoundBeepsEnabled c then 1 else 0) @ le_bytes16 0 @ []"], (rule set_parsers | (simp; fail))+)
    (simp_all add: sound_received_def)

definition offscreen_received :: "capSettings \<Rightarrow> capSettings \<Rightarrow> capSettings" where
  "offscreen_received c = OffscreenSupportLevel_update (\<lambda>_. 1) \<circ> OffscreenCacheSize_update (\<lambda>_. take_bit 16 (OffscreenCacheSize c)) \<circ>
     OffscreenCacheEntries_update (\<lambda>_. take_bit 16 (OffscreenCacheEntries c))"

lemma parses_offscreen:
  assumes "OffscreenSupportLevel c \<noteq> 0"
  shows "parses (rdp_read_offscreen_bitmap_cache_capability_set 12) sv (offscreen_bitmap_cache_body c) (offscreen_received c sv)"
  unfolding rdp_read_offscreen_bitmap_cache_capability_set_def
  by (rule parses_eq [where W = "le_bytes32 1 @ le_bytes16 (ucast (OffscreenCacheSize c)) @ le_bytes16 (ucast (OffscreenCacheEntries c)) @ [] @ []"],
      (rule set_parsers | (simp; fail))+) (use assms in \<open>simp_all add: offscreen_bitmap_cache_body_def offscreen_received_def ucast_down_up\<close>)

definition nine_grid_received :: "capSettings \<Rightarrow> capSettings \<Rightarrow> capSettings" where
  "nine_grid_received c = DrawNineGridEnabled_update (\<lambda>_. True) \<circ> DrawNineGridCacheSize_update (\<lambda>_. take_bit 16 (DrawNineGridCacheSize c)) \<circ>
     DrawNineGridCacheEntries_update (\<lambda>_. take_bit 16 (DrawNineGridCacheEntries c))"

lemma parses_nine_grid:
  assumes "DrawNineGridEnabled c"
  shows "parses (rdp_read_draw_nine_grid_cache_capability_set 12) sv (draw_nine_grid_cache_body c) (nine_grid_received c sv)"
  unfolding rdp_read_draw_nine_grid_cache_capability_set_def
  by (rule parses_eq [where W = "le_bytes32 2 @ le_bytes16 (ucast (DrawNineGridCacheSize c)) @ le_bytes16 (ucast (DrawNineGridCacheEntries c)) @ [] @ []"],
      (rule set_parsers | (simp; fail))+) (use assms in \<open>simp_all add: draw_nine_grid_cache_body_def nine_grid_received_def ucast_down_up\<close>)

lemma parses_large_pointer:
  assumes "LargePointerFlag c \<noteq> 0"
  shows "parses (rdp_read_large_pointer_capability_set 6) sv (large_pointer_body c) (LargePointerFlag_update (\<lambda>_. 1) sv)"
  unfolding rdp_read_large_pointer_capability_set_def large_pointer_body_def
  by (rule parses_eq [where W = "le_bytes16 1"], (rule set_parsers | (simp; fail))+) (use assms in simp_all)

lemma parses_remote_programs: "parses (rdp_read_remote_programs_capability_set 8) sv (remote_programs_body c) sv"
  unfolding rdp_read_remote_programs_capability_set_def
  by (rule parses_eq [where W = "le_bytes32 (1 OR (if RemoteAppLanguageBarSupported c then 2 else 0)) @ []"], (rule set_parsers | (simp; fail))+)
    (simp_all add: remote_programs_body_def)

definition multifragment_received :: "capSettings \<Rightarrow> capSettings \<Rightarrow> capSettings" where
  "multifragment_received c = multifragment_settings (MultifragMaxRequestSize c)"

lemma parses_multifragment: "parses (rdp_read_multifragment_update_capability_set 8) sv (multifragment_update_body c) (multifragment_received c sv)"
  unfolding rdp_read_multifragment_update_capability_set_def
  by (rule parses_eq [where W = "le_bytes32 (MultifragMaxRequestSize c) @ []"], (rule set_parsers | (simp; fail))+)
    (simp_all add: multifragment_update_body_def multifragment_received_def)

definition surface_received :: "capSettings \<Rightarrow> capSettings \<Rightarrow> capSettings" where
  "surface_received c = SurfaceCommandsEnabled_update (\<lambda>_. True) \<circ> SurfaceFrameMarkerEnabled_update (\<lambda>_. SurfaceFrameMarkerEnabled c)"

lemma parses_surface: "parses (rdp_read_surface_commands_capability_set 12) sv (surface_commands_body c) (surface_received c sv)"
  unfolding rdp_read_surface_commands_capability_set_def
  by (rule parses_eq [where W = "le_bytes32 (0x02 OR 0x40 OR (if SurfaceFrameMarkerEnabled c then 0x10 else 0)) @ le_bytes32 0 @ []"], (rule set_parsers | (simp; fail))+)
    (simp_all add: surface_commands_body_def surface_received_def)

lemma parses_frame_acknowledge:
  assumes "ServerMode sv"
  shows "parses (rdp_read_frame_acknowledge_capability_set 8) sv (frame_acknowledge_body c) (FrameAcknowledge_update (\<lambda>_. FrameAcknowledge c) sv)"
  unfolding rdp_read_frame_acknowledge_capability_set_def frame_acknowledge_body_def
  by (rule parses_eq, (rule set_parsers parses_on_server assms | (simp; fail))+)

lemma parses_v3_codec_id: "parses (rdp_read_bitmap_cache_v3_codec_id_capability_set 5) sv (bitmap_cache_v3_codec_id_body c) sv"
  unfolding rdp_read_bitmap_cache_v3_codec_id_capability_set_def
  by (rule parses_eq [where W = "[ucast (BitmapCacheV3CodecId c)] @ []"], (rule set_parsers | (simp; fail))+) (simp_all add: bitmap_cache_v3_codec_id_body_def)

lemma parses_cache_definition: "parses (k d) st W st' \<Longrightarrow> parses (rdp_read_cache_definition k) st (cache_bytes d @ W) st'"
  unfolding rdp_read_cache_definition_def cache_bytes_def append_assoc by (intro parses_read) (cases d, simp)

lemma parses_glyph_caches:
  "i + length ds \<le> length (GlyphCache sv) \<Longrightarrow> parses (rdp_read_glyph_caches i (length ds)) sv (concat (map cache_bytes ds))
     (GlyphCache_update (\<lambda>xs. take i xs @ ds @ drop (i + length ds) xs) sv)"
proof (induction ds arbitrary: i sv)
  case Nil
  then show ?case by (cases sv) (simp add: parses_def assign_def)
next
  case (Cons d ds)
  have glyphs: "GlyphCache_update (\<lambda>xs. take (Suc i) xs @ ds @ drop (Suc i + length ds) xs) (sv\<lparr>GlyphCache := (GlyphCache sv)[i := d]\<rparr>) =
      GlyphCache_update (\<lambda>xs. take i xs @ (d # ds) @ drop (i + length (d # ds)) xs) sv"
    using Cons.prems by (cases sv) (simp add: take_Suc_conv_app_nth)
  let ?sv = "sv\<lparr>GlyphCache := (GlyphCache sv)[i := d]\<rparr>"
  have "parses (rdp_read_cache_definition (\<lambda>d st s. do {
        caches \<leftarrow> update_at i (\<lambda>_. d) (GlyphCache st);
        Some ((True, st\<lparr>GlyphCache := caches\<rparr>), s) })) sv (cache_bytes d @ []) ?sv"
    using Cons.prems by (intro parses_cache_definition) (simp add: parses_def update_at_def)
  from parses_and_also [OF this Cons.IH [of "Suc i" ?sv]] Cons.prems show ?case
    by (intro parses_eq [OF _ _ glyphs]) (simp_all add: take_Suc_conv_app_nth)
qed

definition glyph_received :: "capSettings \<Rightarrow> capSettings \<Rightarrow> capSettings" where
  "glyph_received c = GlyphCache_update (\<lambda>_. GlyphCache c) \<circ> FragCache_update (\<lambda>_. FragCache c) \<circ>
     GlyphSupportLevel_update (\<lambda>_. take_bit 16 (GlyphSupportLevel c))"

lemma parses_glyph_cache:
  assumes "length (GlyphCache c) = 10" "length (GlyphCache sv) = 10"
  shows "parses (rdp_read_glyph_cache_capability_set 52) sv (glyph_cache_body c) (glyph_received c sv)"
proof -
  have g: "parses (rdp_read_glyph_caches 0 10) sv (concat (map cache_bytes (GlyphCache c))) (sv\<lparr>GlyphCache := GlyphCache c\<rparr>)"
    using parses_glyph_caches [of 0 "GlyphCache c" sv] assms by (cases sv) simp
  show ?thesis unfolding rdp_read_glyph_cache_capability_set_def
    by (rule parses_eq [where W = "concat (map cache_bytes (GlyphCache c)) @ (cache_bytes (FragCache c) @ []) @ le_bytes16 (ucast (GlyphSupportLevel c)) @ le_bytes16 0 @ []"],
        (rule g parses_cache_definition set_parsers | (simp; fail))+)
      (simp_all add: glyph_cache_body_def glyph_received_def ucast_down_up)
qed

subsection \<open>The codecs\<close>

lemma guid_bytes: "length (Data4 g) = 8 \<Longrightarrow> guid_of_bytes (le_bytes32 (Data1 g) @ le_bytes16 (Data2 g) @ le_bytes16 (Data3 g) @ Data4 g) = g"
  by (cases g) (simp add: guid_of_bytes_def le_bytes32_def le_bytes16_def u16_le_bytes u32_le_bytes)

definition codec_reader :: "GUID \<Rightarrow> byte \<Rightarrow> nat \<Rightarrow> codecs step" where
  "codec_reader g codecId n = (if UuidEqual g CODEC_GUID_REMOTEFX then rdp_read_rfx_properties codecId
     else if UuidEqual g CODEC_GUID_IMAGE_REMOTEFX then and_also (assign (\<lambda>c. c\<lparr>guidRemoteFxImage := True\<rparr>)) (skip n)
     else if UuidEqual g CODEC_GUID_NSCODEC then rdp_read_nsc_properties codecId
     else skip n)"

lemma codec_properties_server:
  "ServerMode (cod_settings c) \<Longrightarrow> rdp_read_codec_properties g i len c s = do {
     ((ok, c), t) \<leftarrow> codec_reader g i (unat len) c s;
     let e = unat (word_of_nat (s_pointer s) + ucast len :: u32);
     Some ((ok, c), if ok \<and> s_pointer t \<noteq> e then Stream_SetPosition t e else t) }"
  unfolding rdp_read_codec_properties_def codec_reader_def Stream_GetPosition_def Let_def by (simp only: if_True)

lemma parses_codec_properties:
  assumes "ServerMode (cod_settings cod)" "parses (codec_reader g i (length p)) cod p cod'" "length p < 65536"
  shows "parses (rdp_read_codec_properties g i (word_of_nat (length p))) cod p cod'"
  unfolding parses_def
proof (intro allI impI)
  fix s rest assume s: "Stream_wf s" "ahead s = p @ rest"
  have r: "codec_reader g i (length p) cod s = Some ((True, cod'), Stream_Seek s (length p))" by (rule parsesD [OF assms(2) s])
  have u: "unat (word_of_nat (length p) :: u16) = length p" "(ucast (word_of_nat (length p) :: u16) :: u32) = word_of_nat (length p)"
    using assms(3) by (simp_all add: unat_of_nat unsigned_of_nat take_bit_nat_eq_self)
  have "s_pointer s + length p < 2 ^ 31" using s length_ahead [OF s(1)] unfolding Stream_wf_def by (simp, linarith)
  then have "unat (word_of_nat (s_pointer s) + word_of_nat (length p) :: u32) = s_pointer s + length p"
    by (simp add: unat_of_nat flip: of_nat_add)
  then show "rdp_read_codec_properties g i (word_of_nat (length p)) cod s = Some ((True, cod'), Stream_Seek s (length p))"
    using r u by (simp add: codec_properties_server [OF assms(1)] Let_def)
qed

definition reads_codec :: "GUID \<times> byte \<times> byte list \<Rightarrow> (codecs \<Rightarrow> codecs) \<Rightarrow> bool" where
  "reads_codec = (\<lambda>(g, i, p) e. length (Data4 g) = 8 \<and> length p < 1000 \<and>
     (\<forall>cod. ServerMode (cod_settings cod) \<longrightarrow> parses (codec_reader g i (length p)) cod p (e cod) \<and> ServerMode (cod_settings (e cod))))"

lemma parses_codecs:
  assumes "\<forall>(x, e) \<in> set xs. reads_codec x e" "ServerMode (cod_settings cod)" "length (codecs_bytes (map fst xs)) < 65536"
  shows "parses (rdp_read_codecs (length xs) (word_of_nat (length (codecs_bytes (map fst xs))))) cod (codecs_bytes (map fst xs)) (fold snd xs cod)"
  using assms
proof (induction xs arbitrary: cod)
  case Nil
  then show ?case by (simp add: parses_def assign_def)
next
  case (Cons x xs)
  obtain g i p e where x: "x = ((g, i, p), e)" by (metis surj_pair)
  have e: "length (Data4 g) = 8" "length p < 1000" "parses (codec_reader g i (length p)) cod p (e cod)" "ServerMode (cod_settings (e cod))"
    using Cons.prems(1,2) x by (auto simp: reads_codec_def)
  let ?B = "codecs_bytes (map fst xs)" and ?G = "le_bytes32 (Data1 g) @ le_bytes16 (Data2 g) @ le_bytes16 (Data3 g) @ Data4 g"
  define r where "r = (word_of_nat (length (codec_bytes g i p @ ?B)) :: u16)"
  have l: "length (codec_bytes g i p @ ?B) = 19 + length p + length ?B" "19 + length p + length ?B < 65536"
    using e(1) Cons.prems(3) x by (simp_all add: length_codec_bytes)
  have r: "unat r = 19 + length p + length ?B" using l by (simp add: r_def unat_of_nat del: of_nat_add)
  have r19: "r - 19 = word_of_nat (length p + length ?B)" "r - 19 - word_of_nat (length p) = word_of_nat (length ?B)"
    unfolding r_def l by simp_all
  have "unat (word_of_nat (length p + length ?B) :: u16) = length p + length ?B" "unat (word_of_nat (length p) :: u16) = length p"
    using l(2) by (simp_all add: unat_of_nat del: of_nat_add)
  then have c: "\<not> r < 19" "\<not> r - 19 < word_of_nat (length p)" using r unfolding r19 word_less_nat_alt by simp_all
  have ih: "parses (rdp_read_codecs (length xs) (r - 19 - word_of_nat (length p))) (e cod) ?B (fold snd xs (e cod))"
    unfolding r19(2) using Cons.prems l by (intro Cons.IH e(4)) simp_all
  have pp: "parses (rdp_read_codec_properties g i (word_of_nat (length p))) cod p (e cod)"
    using e(2) by (intro parses_codec_properties [OF Cons.prems(2) e(3)]) simp
  have "parses (rdp_read_codecs (Suc (length xs)) r) cod ([] @ (?G @ [i] @ le_bytes16 (word_of_nat (length p)) @ [] @ p @ ?B)) (fold snd xs (e cod))"
    unfolding rdp_read_codecs.simps rdp_read_bitmap_codec_guid_def
    by (rule parses_and_also, rule parses_pure(1), rule c, rule parses_read_bytes, simp add: e(1), unfold guid_bytes [OF e(1)],
        (rule parses_read)+, rule parses_and_also, rule parses_pure(1), rule c, rule parses_and_also, rule pp, rule ih)
  then show ?case using x by (simp add: r_def codec_bytes_def)
qed

definition rfx_effect :: "capSettings \<Rightarrow> byte \<Rightarrow> codecs \<Rightarrow> codecs" where
  "rfx_effect c i cod = on_caps (\<lambda>st. st\<lparr>RemoteFxCodecId := ucast i, RemoteFxCaptureFlags := if RemoteFxOnly c then 0 else 1, RemoteFxOnly := \<not> RemoteFxOnly c\<rparr>)
     (cod\<lparr>guidRemoteFx := True\<rparr>)"

definition nsc_effect :: "capSettings \<Rightarrow> byte \<Rightarrow> codecs \<Rightarrow> codecs" where
  "nsc_effect c i cod = on_caps (\<lambda>st. st\<lparr>NSCodecId := ucast i, NSCodecAllowDynamicColorFidelity := take_bit 8 (NSCodecAllowDynamicColorFidelity c),
     NSCodecAllowSubsampling := take_bit 8 (NSCodecAllowSubsampling c), NSCodecColorLossLevel := ucast (color_loss_level (ucast (NSCodecColorLossLevel c)))\<rparr>)
     (cod\<lparr>guidNSCodec := True\<rparr>)"

lemma color_loss_level_idem [simp]: "color_loss_level (color_loss_level v) = color_loss_level v"
  by (simp add: color_loss_level_def)

lemma parses_rfx_icap:
  "parses (rdp_read_rfx_icaps n) cod W cod' \<Longrightarrow>
    parses (rdp_read_rfx_icaps (Suc n)) cod (le_bytes16 0x0100 @ le_bytes16 0x0040 @ [f] @ [1] @ [1] @ [b] @ [] @ W) cod'"
  unfolding rdp_read_rfx_icaps.simps by (intro parses_read parses_and_also parses_pure(1)) (simp_all add: parses_pure)

lemma parses_rfx_properties: "parses (rdp_read_rfx_properties i) cod (rfx_properties c) (rfx_effect c i cod)"
proof -
  let ?I = "\<lambda>b. le_bytes16 0x0100 @ le_bytes16 0x0040 @ [ucast (RemoteFxCodecMode c)] @ [1] @ [1] @ [b :: byte] @ []"
  have *: "parses (rdp_read_rfx_icaps (Suc (Suc 0))) x (?I 1 @ ?I 4 @ []) x" for x
    unfolding append_assoc append_Nil by (intro parses_rfx_icap [unfolded append_Nil]) (simp add: parses_def assign_def)
  have i: "parses (rdp_read_rfx_icaps (unat (2 :: u16))) x (?I 1 @ ?I 4 @ []) x" for x
  proof -
    have "unat (2 :: u16) = Suc (Suc 0)" by simp
    then show ?thesis by (simp only: *)
  qed
  have caps: "parses rdp_read_rfx_caps x (le_bytes16 0xCBC0 @ le_bytes32 8 @ le_bytes16 1 @ [] @
      le_bytes16 0xCBC1 @ le_bytes32 29 @ [1] @ le_bytes16 0xCFC0 @ le_bytes16 2 @ le_bytes16 8 @ [] @ (?I 1 @ ?I 4 @ [])) x" for x
    unfolding rdp_read_rfx_caps_def by ((rule i parses_read parses_and_also parses_pure(1) | (simp; fail))+)
  show ?thesis unfolding rdp_read_rfx_properties_def
    by (rule parses_eq [where W = "[] @ le_bytes32 49 @ le_bytes32 (if RemoteFxOnly c then 0 else 1) @ le_bytes32 37 @ [] @
        (le_bytes16 0xCBC0 @ le_bytes32 8 @ le_bytes16 1 @ [] @
         le_bytes16 0xCBC1 @ le_bytes32 29 @ [1] @ le_bytes16 0xCFC0 @ le_bytes16 2 @ le_bytes16 8 @ [] @ (?I 1 @ ?I 4 @ []))"],
        (rule caps parses_if(1) parses_read parses_and_also parses_pure(2) | (simp; fail))+)
      (simp_all add: rfx_properties_def rfx_effect_def on_caps_def)
qed

lemma parses_nsc_properties: "parses (rdp_read_nsc_properties i) cod (nsc_properties c) (nsc_effect c i cod)"
  unfolding rdp_read_nsc_properties_def
  by (rule parses_eq [where W = "[] @ [ucast (NSCodecAllowDynamicColorFidelity c)] @ [ucast (NSCodecAllowSubsampling c)] @
      [color_loss_level (ucast (NSCodecColorLossLevel c))] @ []"], (rule parses_read parses_and_also parses_pure(2))+)
    (simp_all add: nsc_properties_def nsc_effect_def on_caps_def ucast_down_up)

lemmas guid_eval = UuidEqual_def CODEC_GUID_REMOTEFX_def CODEC_GUID_NSCODEC_def CODEC_GUID_JPEG_def CODEC_GUID_IMAGE_REMOTEFX_def

lemma effects_server [simp]:
  "ServerMode (cod_settings (rfx_effect c i cod)) = ServerMode (cod_settings cod)" "ServerMode (cod_settings (nsc_effect c i cod)) = ServerMode (cod_settings cod)"
  by (simp_all add: rfx_effect_def nsc_effect_def on_caps_def)

lemma parses_image_properties:
  "length W = n \<Longrightarrow> parses (and_also (assign (\<lambda>c. c\<lparr>guidRemoteFxImage := True\<rparr>)) (skip n)) cod W (cod\<lparr>guidRemoteFxImage := True\<rparr>)"
  using parses_and_also [OF parses_pure(2) parses_skip] by (metis append_Nil)

lemma reads_client_codecs:
  "reads_codec (CODEC_GUID_REMOTEFX, i, rfx_properties c) (rfx_effect c i)"
  "reads_codec (CODEC_GUID_NSCODEC, i, nsc_properties c) (nsc_effect c i)"
  "reads_codec (CODEC_GUID_JPEG, i, [q]) (\<lambda>cod. cod)"
  "reads_codec (CODEC_GUID_IMAGE_REMOTEFX, i, rfx_properties c) (\<lambda>cod. cod\<lparr>guidRemoteFxImage := True\<rparr>)"
  by (simp_all add: reads_codec_def codec_reader_def guid_eval parses_skip parses_rfx_properties parses_nsc_properties parses_image_properties)

definition codecs_received :: "capSettings \<Rightarrow> capSettings \<Rightarrow> capSettings" where
  "codecs_received c = RemoteFxCodec_update (\<lambda>v. v \<and> RemoteFxCodec c) \<circ> RemoteFxImageCodec_update (\<lambda>v. v \<and> RemoteFxImageCodec c) \<circ>
     NSCodec_update (\<lambda>v. v \<and> NSCodec c) \<circ> JpegCodec_update (\<lambda>_. False) \<circ>
     RemoteFxCodecId_update (\<lambda>v. if RemoteFxCodec c then 3 else v) \<circ>
     RemoteFxCaptureFlags_update (\<lambda>v. if RemoteFxCodec c then if RemoteFxOnly c then 0 else 1 else v) \<circ>
     RemoteFxOnly_update (\<lambda>v. if RemoteFxCodec c then \<not> RemoteFxOnly c else v) \<circ>
     NSCodecId_update (\<lambda>v. if NSCodec c then 1 else v) \<circ>
     NSCodecAllowDynamicColorFidelity_update (\<lambda>v. if NSCodec c then take_bit 8 (NSCodecAllowDynamicColorFidelity c) else v) \<circ>
     NSCodecAllowSubsampling_update (\<lambda>v. if NSCodec c then take_bit 8 (NSCodecAllowSubsampling c) else v) \<circ>
     NSCodecColorLossLevel_update (\<lambda>v. if NSCodec c then ucast (color_loss_level (ucast (NSCodecColorLossLevel c))) else v)"

definition codec_effects :: "capSettings \<Rightarrow> ((GUID \<times> byte \<times> byte list) \<times> (codecs \<Rightarrow> codecs)) list" where
  "codec_effects c = (if RemoteFxCodec c then [((CODEC_GUID_REMOTEFX, 3, rfx_properties c), rfx_effect c 3)] else []) @
     (if NSCodec c then [((CODEC_GUID_NSCODEC, 1, nsc_properties c), nsc_effect c 1)] else []) @
     (if JpegCodec c then [((CODEC_GUID_JPEG, 2, [ucast (JpegQuality c)]), \<lambda>cod. cod)] else []) @
     (if RemoteFxImageCodec c then [((CODEC_GUID_IMAGE_REMOTEFX, 4, rfx_properties c), \<lambda>cod. cod\<lparr>guidRemoteFxImage := True\<rparr>)] else [])"

lemma codec_effects:
  "map fst (codec_effects c) = client_codecs c" "length (codec_effects c) = unat (codec_count c)" "\<forall>(x, e) \<in> set (codec_effects c). reads_codec x e"
  by (simp_all add: codec_effects_def client_codecs_def codec_count_def) (use reads_client_codecs in auto)

lemma codec_effects_settings:
  assumes "ServerMode sv"
  shows "codecs_settings (fold snd (codec_effects c) (codecs_init sv)) = codecs_received c sv"
  using assms
  by (cases sv; cases "RemoteFxCodec c"; cases "NSCodec c"; cases "JpegCodec c"; cases "RemoteFxImageCodec c")
    (simp_all add: codec_effects_def codecs_init_def codecs_settings_def codecs_received_def rfx_effect_def nsc_effect_def on_caps_def Let_def)

lemma parses_bitmap_codecs:
  assumes "ServerMode sv"
  shows "parses (rdp_read_bitmap_codecs_capability_set (4 + length (bitmap_codecs_body c))) sv (bitmap_codecs_body c) (codecs_received c sv)"
proof -
  let ?B = "codecs_bytes (client_codecs c)"
  have l: "4 + length (bitmap_codecs_body c) = 5 + length ?B" "length ?B \<le> 178" using length_bitmap_codecs_body [of c] by (simp_all add: bitmap_codecs_body_def)
  have "parses (rdp_read_codecs (unat (codec_count c)) (word_of_nat (5 + length ?B - 5))) (codecs_init sv) ?B (fold snd (codec_effects c) (codecs_init sv))"
    using parses_codecs [OF codec_effects(3), of "codecs_init sv" c] assms l(2) by (simp add: codec_effects codecs_init_def)
  note p = parses_and_also [OF parses_read(1) [of "\<lambda>n. rdp_read_codecs (unat n) (word_of_nat (5 + length ?B - 5))" "codec_count c", OF this]
      parses_pure(2) [of "\<lambda>c. c\<lparr>cod_settings := codecs_settings c\<rparr>"]]
  show ?thesis unfolding rdp_read_bitmap_codecs_capability_set_def l(1)
    by (intro parses_at_least parses_eq [OF parses_on_field [where get = codecs_init, OF p]])
      (simp_all add: bitmap_codecs_body_def codec_effects_settings [OF assms])
qed

subsection \<open>The loop over the sets\<close>

definition marked :: "u16 \<Rightarrow> capSettings \<Rightarrow> capSettings" where
  "marked type = ReceivedCapabilities_update (\<lambda>rc. rc[unat type := 1])"

lemma mark_received_marked: "caps_ok sm sv \<Longrightarrow> type < 32 \<Longrightarrow> mark_received type sv = Some (marked type sv)"
  by (cases sv) (simp add: mark_received_def update_at_def marked_def caps_ok_def word_less_nat_alt)

lemma caps_ok_marked [simp]: "caps_ok sm (marked type sv) = caps_ok sm sv"
  by (simp add: caps_ok_def marked_def)

text \<open>A set with its type, its body, and what reading it does to the settings of a server.\<close>

type_synonym set_read = "u16 \<times> byte list \<times> (capSettings \<Rightarrow> capSettings)"

definition reads_set :: "set_read \<Rightarrow> bool" where
  "reads_set = (\<lambda>(type, body, e). type < 32 \<and> length body < 1000 \<and>
     (\<forall>sv. caps_ok True sv \<longrightarrow> parses (rdp_read_capability_set type (4 + length body)) sv body (e sv) \<and> caps_ok True (e sv)))"

definition block_of :: "set_read \<Rightarrow> u16 \<times> byte list" where
  "block_of = (\<lambda>(type, body, e). (type, body))"

definition effect_of :: "set_read \<Rightarrow> capSettings \<Rightarrow> capSettings" where
  "effect_of = (\<lambda>(type, body, e). e \<circ> marked type)"

lemma parses_one_set:
  assumes set: "parses (rdp_read_capability_set type (4 + length body)) (marked type sv) body sv1" and len: "length body < 1000" and ok: "caps_ok sm sv" "type < 32"
    and more: "parses (rdp_read_capability_sets n) sv1 W sv2"
  shows "parses (rdp_read_capability_sets (Suc n)) sv (gcc_block type body @ W) sv2"
  unfolding parses_def
proof (intro allI impI)
  fix s rest assume s: "Stream_wf s" "ahead s = (gcc_block type body @ W) @ rest"
  define l where "l = (word_of_nat (4 + length body) :: u16)"
  have h: "gcc_read_user_data_header s = Some (Some (type, l), Stream_Seek s 4)" "unat l = 4 + length body"
    "Stream_GetRemainingLength (Stream_Seek s 4) = length body + length (W @ rest)" "size_of_int (uint l - 4) = length body"
    using read_user_data_header [OF s(1) _ _ l_def, of type "W @ rest"] s(2) len by simp_all
  have r: "Stream_Read_UINT16 s = Some (type, Stream_Seek s 2)" "Stream_Read_UINT16 (Stream_Seek s 2) = Some (l, Stream_Seek s 4)"
    using Read_UINT16_enc [OF s(1), of type] Read_UINT16_enc [of "Stream_Seek s 2" l] Stream_wf_Seek [OF s(1), of 2] s(2)
    unfolding gcc_block_def l_def [symmetric] by simp_all
  have wf: "Stream_wf (Stream_Seek s 4)" "Stream_wf (Stream_Seek s (4 + length body))" using s by (auto intro!: Stream_wf_Seek simp: gcc_block_def)
  have "rdp_read_capability_set type (4 + length body) (marked type sv) (Stream_Seek s 4) = Some ((True, sv1), Stream_Seek (Stream_Seek s 4) (length body))"
    using s(2) by (intro parsesD [OF set wf(1), of "W @ rest"]) (simp add: gcc_block_def)
  moreover have "rdp_read_capability_sets n sv1 (Stream_Seek s (4 + length body)) = Some ((True, sv2), Stream_Seek (Stream_Seek s (4 + length body)) (length W))"
    using s(2) by (intro parsesD [OF more wf(2), of rest]) simp
  moreover have "Stream_SetPosition (Stream_Seek s (4 + length body)) (s_pointer s + (4 + length body)) = Stream_Seek s (4 + length body)"
    by (simp add: Stream_SetPosition_def Stream_Seek_def)
  moreover have "4 \<le> Stream_GetRemainingLength s" using s by (simp add: Remaining_ahead)
  ultimately show "rdp_read_capability_sets (Suc n) sv s = Some ((True, sv2), Stream_Seek s (length (gcc_block type body @ W)))"
    using h r mark_received_marked [OF ok] by (simp add: rdp_read_capability_set_header_def read16_def)
qed

lemma parses_sets:
  assumes "\<forall>x \<in> set xs. reads_set x" "caps_ok True sv"
  shows "parses (rdp_read_capability_sets (length xs)) sv (blocks_bytes (map block_of xs)) (fold effect_of xs sv) \<and> caps_ok True (fold effect_of xs sv)"
  using assms
proof (induction xs arbitrary: sv)
  case Nil
  then show ?case by (simp add: parses_def)
next
  case (Cons x xs)
  obtain type body e where x: "x = (type, body, e)" by (metis surj_pair)
  have ok: "caps_ok True (marked type sv)" using Cons.prems(2) by simp
  then have e: "type < 32" "length body < 1000" "parses (rdp_read_capability_set type (4 + length body)) (marked type sv) body (e (marked type sv))"
    "caps_ok True (e (marked type sv))" using Cons.prems(1) x by (auto simp: reads_set_def)
  then show ?case using Cons.IH [OF _ e(4)] parses_one_set [OF e(3,2) Cons.prems(2) e(1)] Cons.prems(1) x
    by (simp add: block_of_def effect_of_def del: rdp_read_capability_sets.simps)
qed

subsection \<open>What the server has agreed to\<close>

definition required_reads :: "capSettings \<Rightarrow> set_read list" where
  "required_reads c =
     [(1, general_body c, general_received c), (2, bitmap_body c, bitmap_received c), (3, order_body c, order_received c),
      (if RdpVersion c \<ge> 5 then (19, bitmap_cache_v2_body c, \<lambda>sv. sv) else (4, bitmap_cache_body c, \<lambda>sv. sv)),
      (8, pointer_body c, pointer_received c), (13, input_body c, input_received c), (15, le_bytes32 2, \<lambda>sv. sv), (16, glyph_cache_body c, glyph_received c),
      (20, virtual_channel_body c, \<lambda>sv. sv), (12, sound_body c, sound_received c),
      (9, share_body c, \<lambda>sv. sv), (14, le_bytes16 1 @ le_bytes16 0, \<lambda>sv. sv), (5, le_bytes16 0 @ le_bytes16 0 @ le_bytes16 2 @ le_bytes16 2, \<lambda>sv. sv),
      (10, le_bytes16 6 @ le_bytes16 0, \<lambda>sv. sv), (7, le_bytes16 0 @ le_bytes16 0 @ le_bytes16 0 @ le_bytes16 0, \<lambda>sv. sv)]"

definition optional_reads :: "capSettings \<Rightarrow> set_read list" where
  "optional_reads c = (let rc = ReceivedCapabilities c in
     (if OffscreenSupportLevel c \<noteq> 0 then [(17, offscreen_bitmap_cache_body c, offscreen_received c)] else []) @
     (if DrawNineGridEnabled c then [(21, draw_nine_grid_cache_body c, nine_grid_received c)] else []) @
     (if rc ! 0x1B \<noteq> 0 \<and> LargePointerFlag c \<noteq> 0 then [(27, large_pointer_body c, LargePointerFlag_update (\<lambda>_. 1))] else []) @
     (if RemoteApplicationMode c then [(23, remote_programs_body c, \<lambda>sv. sv), (24, window_list_body c, \<lambda>sv. sv)] else []) @
     (if rc ! 0x1A \<noteq> 0 then [(26, multifragment_update_body c, multifragment_received c)] else []) @
     (if rc ! 0x1C \<noteq> 0 then [(28, surface_commands_body c, surface_received c)] else []) @
     (if rc ! 0x1D \<noteq> 0 then [(29, bitmap_codecs_body c, codecs_received c)] else []) @
     (if rc ! 0x1E \<noteq> 0 \<and> FrameAcknowledge c \<noteq> 0 then [(30, frame_acknowledge_body c, FrameAcknowledge_update (\<lambda>_. FrameAcknowledge c))] else []) @
     (if rc ! 0x06 \<noteq> 0 \<and> BitmapCacheV3CodecId c \<noteq> 0 then [(6, bitmap_cache_v3_codec_id_body c, \<lambda>sv. sv)] else []))"

definition confirm_reads :: "capSettings \<Rightarrow> set_read list" where
  "confirm_reads c = required_reads c @ optional_reads c"

lemma map_if: "map f (if b then xs else []) = (if b then map f xs else [])"
  by simp

lemma confirm_reads_blocks: "map block_of (confirm_reads c) = confirm_blocks c"
  by (simp add: confirm_reads_def required_reads_def optional_reads_def confirm_blocks_def block_of_def Let_def map_if if_distrib [where f = "\<lambda>(type, body, e). (type, body)"] split del: if_split cong: if_cong)

lemma caps_ok_received [simp]:
  "caps_ok sm (general_received c sv) = caps_ok sm sv" "caps_ok sm (bitmap_received c sv) = caps_ok sm sv" 
  "caps_ok sm (pointer_received c sv) = caps_ok sm sv" "caps_ok sm (input_received c sv) = caps_ok sm sv" "caps_ok sm (sound_received c sv) = caps_ok sm sv"
  "caps_ok sm (offscreen_received c sv) = caps_ok sm sv" "caps_ok sm (nine_grid_received c sv) = caps_ok sm sv" "caps_ok sm (surface_received c sv) = caps_ok sm sv"
  "caps_ok sm (codecs_received c sv) = caps_ok sm sv" "caps_ok sm (multifragment_received c sv) = caps_ok sm sv"
  "caps_ok sm (LargePointerFlag_update f sv) = caps_ok sm sv" "caps_ok sm (FrameAcknowledge_update g sv) = caps_ok sm sv"
  by (simp_all add: caps_ok_def general_received_def bitmap_received_def pointer_received_def input_received_def sound_received_def
      offscreen_received_def nine_grid_received_def surface_received_def codecs_received_def multifragment_received_def multifragment_settings_def Let_def)

lemma caps_ok_arrays:
  "length (OrderSupport c) = 32 \<Longrightarrow> caps_ok sm sv \<Longrightarrow> caps_ok sm (order_received c sv)" "length (GlyphCache c) = 10 \<Longrightarrow> caps_ok sm sv \<Longrightarrow> caps_ok sm (glyph_received c sv)"
  by (auto simp: caps_ok_def order_received_def glyph_received_def orders_of_def)

lemma caps_ok_server: "caps_ok True sv \<Longrightarrow> ServerMode sv" "caps_ok True sv \<Longrightarrow> length (OrderSupport sv) = 32" "caps_ok True sv \<Longrightarrow> length (GlyphCache sv) = 10"
  by (simp_all add: caps_ok_def)

lemma reads_sets:
  assumes c: "client_caps c"
  shows "reads_set (1, general_body c, general_received c)" "reads_set (2, bitmap_body c, bitmap_received c)" "reads_set (3, order_body c, order_received c)"
    "reads_set (19, bitmap_cache_v2_body c, \<lambda>sv. sv)" "reads_set (4, bitmap_cache_body c, \<lambda>sv. sv)"
    "reads_set (8, pointer_body c, pointer_received c)" "reads_set (13, input_body c, input_received c)" "reads_set (15, le_bytes32 2, \<lambda>sv. sv)"
    "reads_set (16, glyph_cache_body c, glyph_received c)" "reads_set (20, virtual_channel_body c, \<lambda>sv. sv)" "reads_set (12, sound_body c, sound_received c)"
    "reads_set (9, share_body c, \<lambda>sv. sv)" "reads_set (14, le_bytes16 1 @ le_bytes16 0, \<lambda>sv. sv)"
    "reads_set (5, le_bytes16 0 @ le_bytes16 0 @ le_bytes16 2 @ le_bytes16 2, \<lambda>sv. sv)" "reads_set (10, le_bytes16 6 @ le_bytes16 0, \<lambda>sv. sv)"
    "reads_set (7, le_bytes16 0 @ le_bytes16 0 @ le_bytes16 0 @ le_bytes16 0, \<lambda>sv. sv)"
  using c length_array_bodies [OF c] parses_pointer [where c = c]
  by (simp_all add: reads_set_def rdp_read_capability_set_def rdp_read_client_capability_set_def client_caps_def length_bodies parses_on_server caps_ok_arrays caps_ok_server
      parses_general parses_bitmap parses_order parses_pointer parses_input parses_ignored parses_glyph_cache parses_virtual_channel parses_sound parses_font)

lemma reads_optional_sets:
  "OffscreenSupportLevel c \<noteq> 0 \<Longrightarrow> reads_set (17, offscreen_bitmap_cache_body c, offscreen_received c)"
  "DrawNineGridEnabled c \<Longrightarrow> reads_set (21, draw_nine_grid_cache_body c, nine_grid_received c)"
  "LargePointerFlag c \<noteq> 0 \<Longrightarrow> reads_set (27, large_pointer_body c, LargePointerFlag_update (\<lambda>_. 1))"
  "reads_set (23, remote_programs_body c, \<lambda>sv. sv)" "reads_set (24, window_list_body c, \<lambda>sv. sv)"
  "reads_set (26, multifragment_update_body c, multifragment_received c)" "reads_set (28, surface_commands_body c, surface_received c)"
  "reads_set (30, frame_acknowledge_body c, FrameAcknowledge_update (\<lambda>_. FrameAcknowledge c))" "reads_set (6, bitmap_cache_v3_codec_id_body c, \<lambda>sv. sv)"
  by (simp_all add: reads_set_def rdp_read_capability_set_def rdp_read_client_capability_set_def length_bodies parses_on_server caps_ok_server
      parses_offscreen parses_nine_grid parses_large_pointer parses_remote_programs parses_ignored parses_multifragment parses_surface parses_frame_acknowledge parses_v3_codec_id)

lemma reads_codecs_set: "reads_set (29, bitmap_codecs_body c, codecs_received c)"
  using length_bitmap_codecs_body [of c] parses_bitmap_codecs [where c = c]
  by (simp add: reads_set_def rdp_read_capability_set_def caps_ok_server)

lemma confirm_reads_sets: "client_caps c \<Longrightarrow> \<forall>x \<in> set (confirm_reads c). reads_set x"
  using reads_sets [of c] by (auto simp: confirm_reads_def required_reads_def optional_reads_def Let_def reads_optional_sets reads_codecs_set)

text \<open>The optional sets, each as one update of the settings.\<close>

lemma optional_effects:
  "fold effect_of (if b then [(17, W, offscreen_received c)] else []) sv =
     (OffscreenSupportLevel_update (\<lambda>v. if b then 1 else v) \<circ> OffscreenCacheSize_update (\<lambda>v. if b then take_bit 16 (OffscreenCacheSize c) else v) \<circ>
      OffscreenCacheEntries_update (\<lambda>v. if b then take_bit 16 (OffscreenCacheEntries c) else v) \<circ> ReceivedCapabilities_update (\<lambda>r. if b then r[17 := 1] else r)) sv"
  "fold effect_of (if b then [(21, W, nine_grid_received c)] else []) sv =
     (DrawNineGridEnabled_update (\<lambda>v. b \<or> v) \<circ> DrawNineGridCacheSize_update (\<lambda>v. if b then take_bit 16 (DrawNineGridCacheSize c) else v) \<circ>
      DrawNineGridCacheEntries_update (\<lambda>v. if b then take_bit 16 (DrawNineGridCacheEntries c) else v) \<circ> ReceivedCapabilities_update (\<lambda>r. if b then r[21 := 1] else r)) sv"
  "fold effect_of (if b then [(27, W, LargePointerFlag_update (\<lambda>_. 1))] else []) sv =
     (LargePointerFlag_update (\<lambda>v. if b then 1 else v) \<circ> ReceivedCapabilities_update (\<lambda>r. if b then r[27 := 1] else r)) sv"
  "fold effect_of (if b then [(23, W, \<lambda>sv. sv), (24, V, \<lambda>sv. sv)] else []) sv = ReceivedCapabilities_update (\<lambda>r. if b then r[23 := 1, 24 := 1] else r) sv"
  "fold effect_of (if b then [(28, W, surface_received c)] else []) sv =
     (SurfaceCommandsEnabled_update (\<lambda>v. b \<or> v) \<circ> SurfaceFrameMarkerEnabled_update (\<lambda>v. if b then SurfaceFrameMarkerEnabled c else v) \<circ>
      ReceivedCapabilities_update (\<lambda>r. if b then r[28 := 1] else r)) sv"
  "fold effect_of (if b then [(30, W, FrameAcknowledge_update (\<lambda>_. v))] else []) sv =
     (FrameAcknowledge_update (\<lambda>x. if b then v else x) \<circ> ReceivedCapabilities_update (\<lambda>r. if b then r[30 := 1] else r)) sv"
  "fold effect_of (if b then [(6, W, \<lambda>sv. sv)] else []) sv = ReceivedCapabilities_update (\<lambda>r. if b then r[6 := 1] else r) sv"
  by (cases b; cases sv; simp add: effect_of_def marked_def offscreen_received_def nine_grid_received_def surface_received_def)+

definition clamped :: "u32 \<Rightarrow> u32" where
  "clamped sz = (if sz < 0x3FFF then 0x3F80 else sz)"

lemma multifragment_effect:
  "ServerMode sv \<Longrightarrow> fold effect_of (if b then [(26, W, multifragment_received c)] else []) sv =
     (MultifragMaxRequestSize_update (\<lambda>v. if b then if RemoteFxCodec sv then min v (clamped (MultifragMaxRequestSize c)) else clamped (MultifragMaxRequestSize c) else v) \<circ>
      RemoteFxCodec_update (\<lambda>v. v \<and> (b \<longrightarrow> MultifragMaxRequestSize sv \<le> clamped (MultifragMaxRequestSize c))) \<circ>
      ReceivedCapabilities_update (\<lambda>r. if b then r[26 := 1] else r)) sv"
  by (cases b; cases sv; auto simp: effect_of_def marked_def multifragment_received_def multifragment_settings_def Let_def min_def clamped_def [symmetric])

lemma codecs_effect:
  "fold effect_of (if b then [(29, W, codecs_received c)] else []) sv =
    (RemoteFxCodec_update (\<lambda>v. v \<and> (b \<longrightarrow> RemoteFxCodec c)) \<circ> RemoteFxImageCodec_update (\<lambda>v. v \<and> (b \<longrightarrow> RemoteFxImageCodec c)) \<circ>
     NSCodec_update (\<lambda>v. v \<and> (b \<longrightarrow> NSCodec c)) \<circ> JpegCodec_update (\<lambda>v. v \<and> \<not> b) \<circ>
     RemoteFxCodecId_update (\<lambda>v. if b \<and> RemoteFxCodec c then 3 else v) \<circ>
     RemoteFxCaptureFlags_update (\<lambda>v. if b \<and> RemoteFxCodec c then if RemoteFxOnly c then 0 else 1 else v) \<circ>
     RemoteFxOnly_update (\<lambda>v. if b \<and> RemoteFxCodec c then \<not> RemoteFxOnly c else v) \<circ>
     NSCodecId_update (\<lambda>v. if b \<and> NSCodec c then 1 else v) \<circ>
     NSCodecAllowDynamicColorFidelity_update (\<lambda>v. if b \<and> NSCodec c then take_bit 8 (NSCodecAllowDynamicColorFidelity c) else v) \<circ>
     NSCodecAllowSubsampling_update (\<lambda>v. if b \<and> NSCodec c then take_bit 8 (NSCodecAllowSubsampling c) else v) \<circ>
     NSCodecColorLossLevel_update (\<lambda>v. if b \<and> NSCodec c then ucast (color_loss_level (ucast (NSCodecColorLossLevel c))) else v) \<circ>
     ReceivedCapabilities_update (\<lambda>r. if b then r[29 := 1] else r)) sv"
  by (cases b; cases sv; simp add: effect_of_def marked_def codecs_received_def)

definition agreed :: "capSettings \<Rightarrow> capSettings \<Rightarrow> capSettings \<Rightarrow> bool" where
  "agreed c sv sv' \<longleftrightarrow> (let sends = (\<lambda>i. ReceivedCapabilities c ! i \<noteq> 0) in
     FastPathOutput sv' = (FastPathOutput sv \<and> FastPathOutput c) \<and> SaltedChecksum sv' = (SaltedChecksum sv \<and> SaltedChecksum c) \<and>
     NoBitmapCompressionHeader sv' = NoBitmapCompressionHeader c \<and> DesktopResize sv' = (DesktopResize sv \<and> DesktopResize c) \<and>
     DrawAllowSkipAlpha sv' = (DrawAllowSkipAlpha sv \<and> DrawAllowSkipAlpha c) \<and>
     DrawAllowDynamicColorFidelity sv' = (DrawAllowDynamicColorFidelity sv \<and> DrawAllowDynamicColorFidelity c) \<and>
     DrawAllowColorSubsampling sv' = (DrawAllowColorSubsampling sv \<and> DrawAllowColorSubsampling c) \<and>
     OrderSupport sv' = orders_of (OrderSupport c) (OrderSupport sv) \<and>
     FrameMarkerCommandEnabled sv' = (FrameMarkerCommandEnabled sv \<and> FrameMarkerCommandEnabled c) \<and>
     BitmapCacheV3Enabled sv' = (BitmapCacheV3Enabled sv \<and> BitmapCacheV3Enabled c \<and> sends 0x06 \<and> BitmapCacheV3CodecId c \<noteq> 0) \<and>
     ColorPointerFlag sv' = (ColorPointerFlag sv \<and> ColorPointerFlag c) \<and>
     PointerCacheSize sv' = (if LargePointerFlag c \<noteq> 0 then take_bit 16 (PointerCacheSize c) else 0) \<and>
     LargePointerFlag sv' = (if sends 0x1B \<and> LargePointerFlag c \<noteq> 0 then 1 else 0) \<and>
     KeyboardLayout sv' = KeyboardLayout c \<and> KeyboardType sv' = KeyboardType c \<and>
     KeyboardSubType sv' = KeyboardSubType c \<and> KeyboardFunctionKey sv' = KeyboardFunctionKey c \<and>
     GlyphCache sv' = GlyphCache c \<and> FragCache sv' = FragCache c \<and> GlyphSupportLevel sv' = take_bit 16 (GlyphSupportLevel c) \<and>
     SoundBeepsEnabled sv' = SoundBeepsEnabled c \<and>
     OffscreenSupportLevel sv' = (if OffscreenSupportLevel c \<noteq> 0 then 1 else OffscreenSupportLevel sv) \<and>
     DrawNineGridEnabled sv' = (DrawNineGridEnabled c \<or> DrawNineGridEnabled sv) \<and>
     SurfaceCommandsEnabled sv' = sends 0x1C \<and> SurfaceFrameMarkerEnabled sv' = (sends 0x1C \<and> SurfaceFrameMarkerEnabled c) \<and>
     FrameAcknowledge sv' = (if sends 0x1E then FrameAcknowledge c else 0) \<and>
     NSCodec sv' = (sends 0x1D \<and> NSCodec sv \<and> NSCodec c) \<and> \<not> JpegCodec sv' \<and>
     RemoteFxImageCodec sv' = (RemoteFxImageCodec sv \<and> (sends 0x1D \<longrightarrow> RemoteFxImageCodec c)) \<and>
     RemoteFxCodec sv' = (sends 0x1D \<and> RemoteFxCodec sv \<and> RemoteFxCodec c \<and> (sends 0x1A \<longrightarrow> MultifragMaxRequestSize sv \<le> clamped (MultifragMaxRequestSize c))) \<and>
     MultifragMaxRequestSize sv' =
       (if \<not> sends 0x1A then 0x3F80 else if RemoteFxCodec sv then min (MultifragMaxRequestSize sv) (clamped (MultifragMaxRequestSize c)) else clamped (MultifragMaxRequestSize c)) \<and>
     RemoteFxOnly sv' = (if sends 0x1D \<and> RemoteFxCodec c then \<not> RemoteFxOnly c else RemoteFxOnly sv))"

lemma required_effects:
  assumes "ServerMode sv" "ReceivedCapabilities sv = replicate 32 0" and A: "A = fold effect_of (required_reads c) sv"
  shows "FastPathOutput A = (FastPathOutput sv \<and> FastPathOutput c)"
    "SaltedChecksum A = (SaltedChecksum sv \<and> SaltedChecksum c)"
    "NoBitmapCompressionHeader A = NoBitmapCompressionHeader c" "DesktopResize A = (DesktopResize sv \<and> DesktopResize c)"
    "DrawAllowSkipAlpha A = (DrawAllowSkipAlpha sv \<and> DrawAllowSkipAlpha c)"
    "DrawAllowDynamicColorFidelity A = (DrawAllowDynamicColorFidelity sv \<and> DrawAllowDynamicColorFidelity c)"
    "DrawAllowColorSubsampling A = (DrawAllowColorSubsampling sv \<and> DrawAllowColorSubsampling c)"
    "OrderSupport A = orders_of (OrderSupport c) (OrderSupport sv)"
    "FrameMarkerCommandEnabled A = (FrameMarkerCommandEnabled sv \<and> FrameMarkerCommandEnabled c)"
    "BitmapCacheV3Enabled A = (BitmapCacheV3Enabled sv \<and> BitmapCacheV3Enabled c)"
    "ColorPointerFlag A = (ColorPointerFlag sv \<and> ColorPointerFlag c)"
    "PointerCacheSize A = (if LargePointerFlag c \<noteq> 0 then take_bit 16 (PointerCacheSize c) else 0)"
    "KeyboardLayout A = KeyboardLayout c" "KeyboardType A = KeyboardType c" "KeyboardSubType A = KeyboardSubType c" "KeyboardFunctionKey A = KeyboardFunctionKey c"
    "GlyphCache A = GlyphCache c" "FragCache A = FragCache c" "GlyphSupportLevel A = take_bit 16 (GlyphSupportLevel c)" "SoundBeepsEnabled A = SoundBeepsEnabled c"
    "OffscreenSupportLevel A = OffscreenSupportLevel sv" "DrawNineGridEnabled A = DrawNineGridEnabled sv"
    "RemoteFxCodec A = RemoteFxCodec sv" "RemoteFxImageCodec A = RemoteFxImageCodec sv" "RemoteFxOnly A = RemoteFxOnly sv" "NSCodec A = NSCodec sv"
    "MultifragMaxRequestSize A = MultifragMaxRequestSize sv" "ServerMode A"
    "\<forall>i \<in> {6, 26, 27, 28, 29, 30}. ReceivedCapabilities A ! i = 0" "length (ReceivedCapabilities A) = 32"
  using assms(1,2) unfolding A required_reads_def
  by (simp_all add: effect_of_def marked_def general_received_def bitmap_received_def order_received_def pointer_received_def input_received_def glyph_received_def sound_received_def)

lemma updated_if:
  "i < length r \<Longrightarrow> (if b then r[k := v] else r) ! i = (if b \<and> k = i then v else r ! i)" "length (if b then r[k := v] else r) = length r"
  "i < length r \<Longrightarrow> (if b then r[k := v, l := w] else r) ! i = (if b \<and> l = i then w else if b \<and> k = i then v else r ! i)"
  "length (if b then r[k := v, l := w] else r) = length r"
  by (auto simp: nth_list_update)

lemma one_if: "(if b then 1 else (0 :: byte)) = 0 \<longleftrightarrow> \<not> b"
  by simp

lemma optional_fields:
  assumes "ServerMode A" and B: "B = fold effect_of (optional_reads c) A" and rc: "length (ReceivedCapabilities A) = 32" "\<forall>i \<in> {6, 26, 27, 28, 29, 30}. ReceivedCapabilities A ! i = 0"
  shows
    "FastPathOutput B = FastPathOutput A" "SaltedChecksum B = SaltedChecksum A" "NoBitmapCompressionHeader B = NoBitmapCompressionHeader A"
    "DesktopResize B = DesktopResize A" "DrawAllowSkipAlpha B = DrawAllowSkipAlpha A"
    "DrawAllowDynamicColorFidelity B = DrawAllowDynamicColorFidelity A" "DrawAllowColorSubsampling B = DrawAllowColorSubsampling A"
    "OrderSupport B = OrderSupport A" "FrameMarkerCommandEnabled B = FrameMarkerCommandEnabled A" "BitmapCacheV3Enabled B = BitmapCacheV3Enabled A"
    "ColorPointerFlag B = ColorPointerFlag A" "PointerCacheSize B = PointerCacheSize A" "KeyboardLayout B = KeyboardLayout A"
    "KeyboardType B = KeyboardType A" "KeyboardSubType B = KeyboardSubType A" "KeyboardFunctionKey B = KeyboardFunctionKey A"
    "GlyphCache B = GlyphCache A" "FragCache B = FragCache A" "GlyphSupportLevel B = GlyphSupportLevel A" "SoundBeepsEnabled B = SoundBeepsEnabled A"
    "OffscreenSupportLevel B = (if OffscreenSupportLevel c \<noteq> 0 then 1 else OffscreenSupportLevel A)" "DrawNineGridEnabled B = (DrawNineGridEnabled c \<or> DrawNineGridEnabled A)"
    "LargePointerFlag B = (if ReceivedCapabilities c ! 27 \<noteq> 0 \<and> LargePointerFlag c \<noteq> 0 then 1 else LargePointerFlag A)"
    "MultifragMaxRequestSize B = (if ReceivedCapabilities c ! 26 \<noteq> 0 then if RemoteFxCodec A
       then min (MultifragMaxRequestSize A) (clamped (MultifragMaxRequestSize c)) else clamped (MultifragMaxRequestSize c) else MultifragMaxRequestSize A)"
    "RemoteFxCodec B = (RemoteFxCodec A \<and> (ReceivedCapabilities c ! 26 \<noteq> 0 \<longrightarrow> MultifragMaxRequestSize A \<le> clamped (MultifragMaxRequestSize c)) \<and>
       (ReceivedCapabilities c ! 29 \<noteq> 0 \<longrightarrow> RemoteFxCodec c))"
    "RemoteFxImageCodec B = (RemoteFxImageCodec A \<and> (ReceivedCapabilities c ! 29 \<noteq> 0 \<longrightarrow> RemoteFxImageCodec c))"
    "NSCodec B = (NSCodec A \<and> (ReceivedCapabilities c ! 29 \<noteq> 0 \<longrightarrow> NSCodec c))" "JpegCodec B = (JpegCodec A \<and> \<not> ReceivedCapabilities c ! 29 \<noteq> 0)"
    "RemoteFxOnly B = (if ReceivedCapabilities c ! 29 \<noteq> 0 \<and> RemoteFxCodec c then \<not> RemoteFxOnly c else RemoteFxOnly A)"
    "SurfaceCommandsEnabled B = (ReceivedCapabilities c ! 28 \<noteq> 0 \<or> SurfaceCommandsEnabled A)"
    "SurfaceFrameMarkerEnabled B = (if ReceivedCapabilities c ! 28 \<noteq> 0 then SurfaceFrameMarkerEnabled c else SurfaceFrameMarkerEnabled A)"
    "FrameAcknowledge B = (if ReceivedCapabilities c ! 30 \<noteq> 0 \<and> FrameAcknowledge c \<noteq> 0 then FrameAcknowledge c else FrameAcknowledge A)"
    "ReceivedCapabilities B ! 27 = 0 \<longleftrightarrow> \<not> (ReceivedCapabilities c ! 27 \<noteq> 0 \<and> LargePointerFlag c \<noteq> 0)"
    "ReceivedCapabilities B ! 26 = 0 \<longleftrightarrow> \<not> (ReceivedCapabilities c ! 26 \<noteq> 0)" "ReceivedCapabilities B ! 28 = 0 \<longleftrightarrow> \<not> (ReceivedCapabilities c ! 28 \<noteq> 0)"
    "ReceivedCapabilities B ! 29 = 0 \<longleftrightarrow> \<not> (ReceivedCapabilities c ! 29 \<noteq> 0)"
    "ReceivedCapabilities B ! 30 = 0 \<longleftrightarrow> \<not> (ReceivedCapabilities c ! 30 \<noteq> 0 \<and> FrameAcknowledge c \<noteq> 0)"
    "ReceivedCapabilities B ! 6 = 0 \<longleftrightarrow> \<not> (ReceivedCapabilities c ! 6 \<noteq> 0 \<and> BitmapCacheV3CodecId c \<noteq> 0)"
  unfolding B optional_reads_def Let_def fold_append comp_def using rc
  by (simp only: optional_effects codecs_effect, subst multifragment_effect, simp add: assms, simp add: updated_if one_if split del: if_split cong: if_cong)+

lemma agreed_effects:
  assumes "ServerMode sv" "ReceivedCapabilities sv = replicate 32 0" and B: "B = fold effect_of (confirm_reads c) sv"
  shows "agreed c sv (confirm_settings (ReceivedCapabilities B) B)"
proof -
  define A where "A = fold effect_of (required_reads c) sv"
  note A = required_effects [OF assms(1,2) A_def]
  have "B = fold effect_of (optional_reads c) A" by (simp add: B A_def confirm_reads_def)
  note B = optional_fields [OF A(28) this A(30,29)]
  show ?thesis unfolding agreed_def Let_def by (intro conjI) (simp_all add: confirm_settings_def A B, blast+)
qed

lemma length_blocks: "4 * length bs \<le> length (blocks_bytes bs)"
  by (induction bs) (auto simp: blocks_bytes_def split: prod.splits)

lemma confirm_active_received:
  assumes "client_caps c" "caps_ok True sv" and B: "B = fold effect_of (confirm_reads c) sv"
  shows "parses rdp_recv_confirm_active sv (confirm_bytes c) (confirm_settings (ReceivedCapabilities B) B)"
  unfolding parses_def
proof (intro allI impI)
  fix s rest assume s: "Stream_wf s" "ahead s = confirm_bytes c @ rest"
  let ?B = "blocks_bytes (confirm_blocks c)" and ?n = "word_of_nat (length (confirm_blocks c)) :: u16" and ?l = "word_of_nat (4 + length (blocks_bytes (confirm_blocks c))) :: u16"
  have len: "length (confirm_bytes c) = 22 + length ?B" by (simp add: confirm_bytes_def)
  have wf: "Stream_wf (Stream_Seek s 6)" "Stream_wf (Stream_Seek s 8)" "Stream_wf (Stream_Seek s 10)" "Stream_wf (Stream_Seek s 18)" "Stream_wf (Stream_Seek s 22)"
    using s len by (auto intro!: Stream_wf_Seek)
  have a: "ahead s = le_bytes32 (ShareId c) @ le_bytes16 0x03EA @ le_bytes16 8 @ le_bytes16 ?l @ SOURCE_DESCRIPTOR @ le_bytes16 ?n @ le_bytes16 0 @ ?B @ rest"
    using s(2) by (simp add: confirm_bytes_def combined_bytes_def)
  have r: "Stream_Read_UINT16 (Stream_Seek s 6) = Some (8, Stream_Seek s 8)" "Stream_Read_UINT16 (Stream_Seek s 8) = Some (?l, Stream_Seek s 10)"
    "Stream_Read_UINT16 (Stream_Seek s 18) = Some (?n, Stream_Seek s 20)"
    using Read_UINT16_enc [OF wf(1), of 8] Read_UINT16_enc [OF wf(2), of ?l] Read_UINT16_enc [OF wf(4), of ?n] a by simp_all
  have rem: "Stream_GetRemainingLength s \<ge> 10" "c_int (Stream_GetRemainingLength (Stream_Seek s 10)) \<ge> 12"
    using s len ahead_bound [OF wf(3)] by (simp_all add: Remaining_ahead Remaining_ahead [OF wf(3)])
  have "length (confirm_reads c) = length (confirm_blocks c)" using confirm_reads_blocks [of c] by (metis length_map)
  moreover have "length (confirm_blocks c) < 65536" using length_blocks [of "confirm_blocks c"] length_confirm_blocks [OF assms(1)] by linarith
  ultimately have n: "unat ?n = length (confirm_reads c)" by (simp add: unat_of_nat)
  have "rdp_read_capability_sets (length (confirm_reads c)) sv (Stream_Seek s 22) = Some ((True, B), Stream_Seek (Stream_Seek s 22) (length ?B))" "caps_ok True B"
    using parses_sets [OF confirm_reads_sets [OF assms(1)] assms(2)] parsesD [OF _ wf(5), of _ sv ?B B rest] a unfolding B confirm_reads_blocks by simp_all
  moreover have "mem_read (ReceivedCapabilities B) 0 32 = Some (ReceivedCapabilities B)" using \<open>caps_ok True B\<close> by (simp add: mem_read_def caps_ok_def)
  ultimately show "rdp_recv_confirm_active sv s = Some ((True, confirm_settings (ReceivedCapabilities B) B), Stream_Seek s (length (confirm_bytes c)))"
    using r rem n len by (simp add: rdp_recv_confirm_active_def and_also_def skip_def read16_def assign_def not_less)
qed

text \<open>
  Agreement on the capabilities (C9): a client writes Confirm Active, at most 693 bytes, into a stream with room for 821, whatever its settings are and
  without any allocation. A server that reads these bytes accepts them and comes to the agreement \<open>agreed\<close>: what both support, what only the client decides, and what the
  client has left out because the server had not offered it. The flag \<open>RemoteFxOnly\<close> arrives inverted.
\<close>
theorem rdp_confirm_active_agreement:
  assumes "client_caps c" "caps_ok True sv" "ReceivedCapabilities sv = replicate 32 0" "s_capacity s = length (s_buffer s)" "Stream_room s 821"
  shows "\<exists>W sv'. rdp_write_confirm_active al cod c s = Some ((True, confirm_sent c), Stream_put W s) \<and> length W \<le> 693 \<and>
    (\<forall>t rest. Stream_wf t \<longrightarrow> ahead t = W @ rest \<longrightarrow> rdp_recv_confirm_active sv t = Some ((True, sv'), Stream_Seek t (length W))) \<and> agreed c sv sv'"
proof -
  define B where "B = fold effect_of (confirm_reads c) sv"
  have l: "length (confirm_bytes c) \<le> 693" using length_confirm_blocks [OF assms(1)] by (simp add: confirm_bytes_def)
  then have "rdp_write_confirm_active al cod c s = Some ((True, confirm_sent c), Stream_put (confirm_bytes c) s)"
    using assms by (intro write_confirm_active) auto
  moreover have "agreed c sv (confirm_settings (ReceivedCapabilities B) B)" using assms(2,3) by (intro agreed_effects [OF _ _ B_def]) (auto simp: caps_ok_def)
  ultimately show ?thesis using l confirm_active_received [OF assms(1,2) B_def] unfolding parses_def by blast
qed

theorem rdp_confirm_active_agreement_witness:
  "\<exists>W sv'. rdp_write_confirm_active (\<lambda>_. calloc_zero) (\<lambda>_. calloc_zero) (caps_sample False) (stream_of (replicate 4096 0)) =
      Some ((True, confirm_sent (caps_sample False)), Stream_put W (stream_of (replicate 4096 0))) \<and>
    rdp_recv_confirm_active ((caps_sample True)\<lparr>ReceivedCapabilities := replicate 32 0\<rparr>) (stream_of W) = Some ((True, sv'), Stream_Seek (stream_of W) (length W)) \<and>
    agreed (caps_sample False) ((caps_sample True)\<lparr>ReceivedCapabilities := replicate 32 0\<rparr>) sv'"
proof -
  let ?s = "stream_of (replicate 4096 0)" and ?sv = "(caps_sample True)\<lparr>ReceivedCapabilities := replicate 32 0\<rparr>"
  have "client_caps (caps_sample False)" "caps_ok True ?sv"
    by (simp_all add: client_caps_def caps_ok_def caps_sample_def rdpSettings.defs capSettings.defs settings_sample_def)
  from rdp_confirm_active_agreement [OF this, of ?s "\<lambda>_. calloc_zero" "\<lambda>_. calloc_zero"] obtain W sv' where
    W: "rdp_write_confirm_active (\<lambda>_. calloc_zero) (\<lambda>_. calloc_zero) (caps_sample False) ?s = Some ((True, confirm_sent (caps_sample False)), Stream_put W ?s)"
      "length W \<le> 693" "agreed (caps_sample False) ?sv sv'"
    and t: "\<And>t rest. Stream_wf t \<Longrightarrow> ahead t = W @ rest \<Longrightarrow> rdp_recv_confirm_active ?sv t = Some ((True, sv'), Stream_Seek t (length W))"
    by (auto simp: stream_of_def)
  show ?thesis using W t [of "stream_of W" "[]"] by (auto simp: stream_of)
qed

text \<open>
  The order capability set overflows the stream (C23): the writer makes sure of 64 bytes and writes 88. Where the stream has room for the first but
  not for the second number, it writes behind the buffer.
\<close>
theorem rdp_write_order_overflow:
  assumes "length (OrderSupport c) = 32" "s_capacity s = length (s_buffer s)" "Stream_room s 64" "\<not> Stream_room s 88"
  shows "rdp_write_order_capability_set al c s = None"
proof -
  obtain w where w: "writes (order_body c) w" "rdp_write_order_capability_set al c = rdp_capset al 64 3 w c" using order_capset [OF assms(1)] by metis
  have "w (Stream_put (replicate 4 0) s) = None" using assms by (simp add: writesD [OF w(1)] length_bodies)
  then show ?thesis using assms(2-4) w(2) by (simp add: rdp_capset_def ensuring_room capability_set_start)
qed

theorem rdp_write_order_overflow_witness: "rdp_write_order_capability_set calloc_zero (caps_sample False) (stream_of (replicate 80 0)) = None"
  by (rule rdp_write_order_overflow) (simp_all add: stream_of_def caps_sample_def rdpSettings.defs capSettings.defs)

end
