(* ===== verification/Spec2Isabelle.thy ===== *)
theory Spec2Isabelle
  imports McsWire NegoRequest Queue MessageQueue Stack ArrayList Dictionary HashTable
    RpcPipe TransportProps BipBuffer MppcChannel CapsWire
begin

text \<open>
  \<^bold>\<open>What the program is.\<close> Proconsul gives administrators a remote desktop in the browser: a web
  application starts a container in which a FreeRDP client shows the desktop of the target
  machine and a VNC server passes it on. The C code of the repository is FreeRDP
  (\<open>src/rdpstack-docker/FreeRDP\<close>, abbreviated to its relative paths below): the protocol core
  \<open>libfreerdp/core\<close>, codecs and caches, virtual channels, clients and servers, and WinPR
  (\<open>winpr\<close>), its portability layer. This development models the path that every byte of a
  connection takes, from the socket to the connection set-up, and the containers below it.

  \<^bold>\<open>Parts and how they interact.\<close> \<open>transport.c\<close> reads and writes PDUs through a chain of
  BIOs; \<open>tcp.c\<close> provides the two BIOs of a TCP connection, the outer one with a ring buffer
  (\<open>utils/ringbuffer.c\<close>) of bytes the socket did not take. The bytes are held in streams
  (\<open>wStream\<close>). \<open>nego.c\<close> negotiates the security protocol over the transport, with PDUs framed
  by \<open>tpkt.c\<close> and \<open>tpdu.c\<close>; \<open>mcs.c\<close> then sets up the domain, the user and the channels with
  PDUs in BER (\<open>crypto/ber.c\<close>) and PER (\<open>crypto/per.c\<close>), which carry the settings of both sides as
  data blocks of \<open>gcc.c\<close>; the capabilities of both sides are then agreed upon with the sets of \<open>capabilities.c\<close>. The gateway client
  (\<open>gateway/rpc_client.c\<close>) passes received bytes between its threads through another ring
  buffer. The WinPR collections are used throughout.

  \<^bold>\<open>Theories.\<close>
  \<^item> \<open>Prelude\<close>: bytes, big-endian and little-endian encodings, \<open>size_t\<close> and \<open>int\<close> arithmetic with
    its wrap-around, blocks of memory (\<open>mem_read\<close>, \<open>mem_write\<close>, which are \<^const>\<open>None\<close> out of bounds),
    allocators as functions from a size to a block or a failure, lemmas on lists and options.
  \<^item> \<open>WStream\<close>: \<open>winpr/stream.h\<close> and \<open>utils/stream.c\<close>. A stream is its capacity, length, cursor
    and buffer; every macro is a definition that fails (\<^const>\<open>None\<close>) when it touches memory outside the
    buffer. \<open>reader_safe\<close> says that a reader never does; the locale \<open>wire_codec\<close> says that a
    reader undoes a writer and derives the round trip of sequences.
  \<^item> \<open>Ber\<close>, \<open>Per\<close>, \<open>Tpdu\<close>: every function of the codecs, the safety of all readers, an
    interpretation of \<open>wire_codec\<close> per element.
  \<^item> \<open>Mcs\<close>, \<open>McsWire\<close>: \<open>rdpMcs\<close>, \<open>DomainParameters\<close> and the senders and receivers of both
    sides; the bytes they produce, the round trips, the merge of the parameters, the handshakes.
  \<^item> \<open>Nego\<close>, \<open>NegoProps\<close>, \<open>NegoRequest\<close>: \<open>rdpNego\<close>, its state machine and every function of
    \<open>nego.c\<close>, with the transport as the record \<open>nego_ops\<close> of operations on an arbitrary
    environment. Shown: which protocols can be selected, when the loop ends, what success means,
    and the round trips of request and response.
  \<^item> \<open>Ring\<close>: circular arrays as lists with a head and a tail, the view \<open>ring_view\<close> of their
    contents, and the locale \<open>fifo\<close> with the refinement of a sequence of operations.
  \<^item> \<open>Queue\<close>, \<open>MessageQueue\<close>: the two circular queues, interpretations \<open>queue\<close> and \<open>messages\<close> of \<open>fifo\<close>.
  \<^item> \<open>Stack\<close>, \<open>ArrayList\<close>: growing arrays; the array list refines the operations on a list.
  \<^item> \<open>Dictionary\<close>, \<open>HashTable\<close>: \<open>ListDictionary.c\<close> and \<open>HashTable.c\<close>, interpretations \<open>list_dict\<close>
    and \<open>hash_dict\<close> of the locale \<open>dictionary\<close>, whose specification is a function updated at a key.
  \<^item> \<open>BytePipe\<close>: the locale \<open>byte_pipe\<close>, a pipe that accepts part of what is written and
    delivers the oldest bytes. \<open>RingBuffer\<close>, \<open>RpcPipe\<close> and \<open>BipBuffer\<close> model \<open>ringbuffer.c\<close>, the
    receive pipe of the RPC client and \<open>BipBuffer.c\<close>; \<open>rpc\<close> and \<open>bip\<close> are the interpretations.
  \<^item> \<open>TcpBio\<close>: both BIOs of \<open>tcp.c\<close> over a record \<open>net_ops\<close> of socket calls, whose results are
    arbitrary: partial sends, refusals, interruptions and errors. Shown: order and completeness of
    what is sent.
  \<^item> \<open>Transport\<close>, \<open>TransportProps\<close>: reading a PDU in pieces, its length for TPKT, fast-path and
    NLA headers, writing with flushing and blocking. The locale \<open>front_bio\<close> states what the transport
    relies on; \<open>tcp\<close> interprets it on the BIOs of \<open>TcpBio\<close>.
  \<^item> \<open>BitStream\<close>: the macros of \<open>winpr/bitstream.h\<close>, with the invariants \<open>reading\<close> and \<open>writing\<close> that tie
    accumulator, prefetched word and offset to the bits of the buffer; what is written is read back.
  \<^item> \<open>Mppc\<close>, \<open>MppcCodes\<close>, \<open>MppcProps\<close>, \<open>MppcChannel\<close>: the bulk compressor \<open>codec/mppc.c\<close>. \<open>MppcCodes\<close>
    shows that the codes of literals, offsets and lengths are decoded to what was encoded; \<open>MppcProps\<close>
    describes a packet as a list of symbols, with the invariant of the compression loop and the
    relation \<open>mppc_sync\<close> between the two contexts; \<open>MppcChannel\<close> has the round trip of a sequence of
    packets and the behaviour on packets that no compressor wrote.
  \<^item> \<open>Utf\<close>, \<open>UtfProps\<close>, \<open>Unicode\<close>: the conversions between UTF-8, UTF-16 and UTF-32 (\<open>crt/utf.c\<close>,
    \<open>crt/unicode.c\<close>), which carry every string of the settings. \<open>UtfProps\<close> defines the encoding forms of the
    Unicode standard and relates the loops to them; \<open>Unicode\<close> has the theorems.
  \<^item> \<open>Gcc\<close>, \<open>GccSafe\<close>, \<open>GccBytes\<close>, \<open>GccWire\<close>: the conference data \<open>core/gcc.c\<close> in the MCS connect PDUs, with the part
    of \<open>rdpSettings\<close> it fills in. \<open>GccSafe\<close> has rules for steps that stay inside a block (\<open>block_safe\<close>) and the safety of the
    server against any client; \<open>GccBytes\<close> the exact bytes of every client block (\<open>writes\<close>); \<open>GccWire\<close> what the server
    makes of them (\<open>parses\<close>, \<open>client_received\<close>) and the exchange of Connect-Initial through MCS.
  \<^item> \<open>Caps\<close>, \<open>CapsWrite\<close>: the capability sets \<open>core/capabilities.c\<close>, with the fields of \<open>rdpSettings\<close> they use: the readers and
    writers of all sets, the loop over the received sets and the bodies of Demand Active and Confirm Active. Two arguments
    of the writers (\<open>al\<close>, \<open>cod\<close>) give the allocators of the stream growth.
  \<^item> \<open>CapsSafe\<close>: how far the readers go (\<open>within\<close>) on any input, and inputs that take them behind the buffer. \<open>CapsBytes\<close>: the
    exact bytes of every set of a client (\<open>appends\<close>). \<open>CapsWire\<close>: what the server makes of each of them and the
    agreement (\<open>agreed\<close>) it comes to; the client needs 693 bytes, and 128 bytes more so that no set makes the stream grow.
  \<^bold>\<open>Conventions.\<close> A C structure is a record with the fields that the modelled code uses. A
  function returns the new state; errors that the code reports are values of its result; a memory
  fault (an access outside a block) or an overflow of a signed multiplication is \<^const>\<open>None\<close>, so that a
  theorem whose conclusion is \<open>Some\<close> also says that neither happens. Allocation is an argument: an
  allocator may refuse any request, and \<open>fresh_ok\<close> says only that a block it gives has the size
  asked for. Code outside the repository (sockets, TLS, page size, clocks) is an argument too.
  Calls made under one critical section are atomic, so threads are sequences of whole calls.

  \<^bold>\<open>Loops and bounds.\<close> Loops over data are structural. Loops that the code does not bound are
  \<open>partial_function (option)\<close>: \<open>ensure_loop\<close> (stream growth), \<open>nego_loop\<close>, \<open>queue_clear_loop\<close>,
  \<open>next_probable_prime\<close>, \<open>poll_loop\<close>, \<open>buffered_send\<close>, \<open>read_layer_loop\<close>, \<open>flush_loop\<close>,
  \<open>write_loop\<close>, \<open>gcc_read_client_data_blocks\<close> and \<open>gcc_read_server_blocks_loop\<close>; that they return is proved where it is claimed, and for the stream of
  capacity zero and the negotiation with an unknown reply it is proved that they do not. No fuel is
  used. The loops of the bulk compressor, of \<open>ReverseBits32\<close> and of the
  Unicode conversions are functions with termination proofs.
  Theorems on containers ask for sizes below \<open>2 ^ 31\<close> or \<open>2 ^ 62\<close>, far beyond what a process
  can allocate for them, so that \<open>int\<close> results and sums of sizes do not wrap.

  \<^bold>\<open>What goes wrong in the code.\<close> Several theorems state that the code does not do what it is meant
  to: a ring buffer filled to the last byte loses its contents, a reserved block of a bip buffer can be too
  short, a PDU without a body is never delivered, a long routing token overruns its stream, an unknown negotiation
  reply is retried forever, a full queue is not freed, PER object identifiers lose their first arcs, the
  RDP 5.0 decompressor reads past its history, ill-formed UTF-8 is accepted, the GCC data of a client with many
  channels overrun their stream, a server can make the client
  read past a truncated sum of lengths, and capability sets make both sides read, and the order set write, behind their buffers.

  \<^bold>\<open>Not modelled.\<close> TLS, NLA and the SSPI modules (calls into OpenSSL); the headers and the sending of
  the capability PDUs and the functions that print them, the connection sequence above MCS, licensing, orders, updates, caches and image codecs;
  virtual channels, clients, servers; the rest of WinPR, which wraps the operating system; the
  vendored \<open>trio\<close> and \<open>lodepng\<close>. The Java, JavaScript and container parts of Proconsul are not C.

  \<^bold>\<open>Plan.\<close> The GCC response of the server end to end, the regions \<open>codec/region.c\<close>, the connection state machine, and the stream pool with the dispatch loop
  of the transport.
\<close>

end
